(* ===== verification/Js_Prelude.thy ===== *)
theory Js_Prelude
  imports Complex_Main "HOL-Library.AList" "HOL-Library.List_Lexorder" "HOL-Library.Char_ord"
    "HOL-Library.Multiset"
begin

text \<open>
  The JavaScript values and library calls that several components of OpenArch share:
  optional fields (\<open>??\<close>), \<open>Set\<close> and \<open>Map\<close> in insertion order, stable \<open>Array.sort\<close>
  with a comparator, string search, split, join and trim, and the JSON values that the
  code hashes. A string is a list of code units below 256 (\<open>string\<close>); \<open>localeCompare\<close>
  depends on the host's collation and is an argument of the definitions that use it.
\<close>

named_theorems js_simps \<open>rewrite rules that evaluate the JavaScript collections\<close>

section \<open>Optional values\<close>

definition or_default :: "'a option \<Rightarrow> 'a \<Rightarrow> 'a" where
  "or_default a d = (case a of None \<Rightarrow> d | Some x \<Rightarrow> x)"

definition or_option :: "'a option \<Rightarrow> 'a option \<Rightarrow> 'a option" where
  "or_option a b = (case a of None \<Rightarrow> b | Some x \<Rightarrow> Some x)"

lemma or_default_simps [simp]: "or_default None d = d" "or_default (Some x) d = x"
  by (simp_all add: or_default_def)

lemma or_option_simps [simp]: "or_option None b = b" "or_option (Some x) b = Some x"
  by (simp_all add: or_option_def)

lemma or_option_None_right [simp]: "or_option a None = a"
  by (cases a) simp_all

lemma or_option_eq_None [simp]: "or_option a b = None \<longleftrightarrow> a = None \<and> b = None"
  by (cases a) simp_all

text \<open>\<open>[a, b, ...].filter((x): x is T => Boolean(x))\<close>: the entries that are present.\<close>

fun present :: "'a option list \<Rightarrow> 'a list" where
  "present [] = []"
| "present (None # xs) = present xs"
| "present (Some x # xs) = x # present xs"

lemma set_present [simp]: "set (present xs) = {x. Some x \<in> set xs}"
  by (induction xs rule: present.induct) auto

lemma present_Nil_iff: "present xs = [] \<longleftrightarrow> set xs \<subseteq> {None}"
  by (induction xs rule: present.induct) auto

lemma present_append [simp]: "present (xs @ ys) = present xs @ present ys"
  by (induction xs rule: present.induct) auto

text \<open>The first entry that is present.\<close>

definition first_defined :: "'a option list \<Rightarrow> 'a option" where
  "first_defined rs = (case present rs of [] \<Rightarrow> None | r # _ \<Rightarrow> Some r)"

lemma first_defined_simps [simp]:
  "first_defined [] = None" "first_defined (Some x # rs) = Some x" "first_defined (None # rs) = first_defined rs"
  by (simp_all add: first_defined_def)

definition only_if :: "bool \<Rightarrow> 'a \<Rightarrow> 'a option" where
  "only_if c x = (if c then Some x else None)"

lemma only_if_simps [simp]: "only_if True x = Some x" "only_if False x = None"
  by (simp_all add: only_if_def)

lemma only_if_eq_Some [simp]: "only_if c x = Some y \<longleftrightarrow> c \<and> x = y"
  by (simp add: only_if_def)

lemma Some_eq_only_if [simp]: "Some y = only_if c x \<longleftrightarrow> c \<and> x = y"
  by (auto simp: only_if_def)

lemma only_if_eq_None [simp]: "only_if c x = None \<longleftrightarrow> \<not> c"
  by (simp add: only_if_def)

section \<open>Sets in insertion order\<close>

text \<open>\<open>[...new Set(xs)]\<close>: the first occurrence of every element, in order.\<close>

fun uniq :: "'a list \<Rightarrow> 'a list" where
  "uniq [] = []"
| "uniq (x # xs) = x # filter (\<lambda>y. y \<noteq> x) (uniq xs)"

lemma set_uniq [simp]: "set (uniq xs) = set xs"
  by (induction xs) auto

lemma distinct_uniq [simp]: "distinct (uniq xs)"
  by (induction xs) auto

lemma uniq_Nil_iff [simp]: "uniq xs = [] \<longleftrightarrow> xs = []"
  by (cases xs) auto

lemma uniq_distinct [simp]: "distinct xs \<Longrightarrow> uniq xs = xs"
proof (induction xs)
  case (Cons x xs)
  then have "filter (\<lambda>y. y \<noteq> x) xs = xs" by (auto intro: filter_True)
  with Cons show ?case by simp
qed simp

lemma length_uniq_card: "length (uniq xs) = card (set xs)"
  by (metis distinct_card distinct_uniq set_uniq)

lemma length_uniq_le: "length (uniq xs) \<le> length xs"
  by (simp add: length_uniq_card card_length)

lemma uniq_idem [simp]: "uniq (uniq xs) = uniq xs"
  by simp

text \<open>\<open>[...new Set(xs)].sort()\<close> depends on the set of values only.\<close>

definition sorted_uniq :: "'a :: linorder list \<Rightarrow> 'a list" where
  "sorted_uniq xs = sort (uniq xs)"

lemma set_sorted_uniq [simp]: "set (sorted_uniq xs) = set xs"
  by (simp add: sorted_uniq_def)

lemma distinct_sorted_uniq [simp]: "distinct (sorted_uniq xs)"
  by (simp add: sorted_uniq_def)

lemma sorted_sorted_uniq [simp]: "sorted (sorted_uniq xs)"
  by (simp add: sorted_uniq_def)

lemma sorted_uniq_eq_sorted_list_of_set: "sorted_uniq xs = sorted_list_of_set (set xs)"
  by (metis List.finite_set distinct_sorted_uniq set_sorted_uniq sorted_list_of_set.idem_if_sorted_distinct
      sorted_sorted_uniq)

lemma sorted_uniq_cong: "set xs = set ys \<Longrightarrow> sorted_uniq xs = sorted_uniq ys"
  by (simp add: sorted_uniq_eq_sorted_list_of_set)

lemma sorted_uniq_Nil_iff [simp]: "sorted_uniq xs = [] \<longleftrightarrow> xs = []"
  by (metis set_empty set_sorted_uniq)

lemma length_sorted_uniq: "length (sorted_uniq xs) = card (set xs)"
  by (simp add: sorted_uniq_def length_uniq_card)

section \<open>Maps in insertion order\<close>

text \<open>
  A \<open>Map\<close> is an association list: \<open>set\<close> overwrites a key in place or appends a new one,
  so iteration sees keys in the order of their first insertion.
\<close>

type_synonym ('k, 'v) jmap = "('k \<times> 'v) list"

abbreviation map_get :: "('k, 'v) jmap \<Rightarrow> 'k \<Rightarrow> 'v option" where
  "map_get m k \<equiv> map_of m k"

definition map_set :: "('k, 'v) jmap \<Rightarrow> 'k \<Rightarrow> 'v \<Rightarrow> ('k, 'v) jmap" where
  "map_set m k v = AList.update k v m"

definition map_has :: "('k, 'v) jmap \<Rightarrow> 'k \<Rightarrow> bool" where
  "map_has m k = (map_of m k \<noteq> None)"

definition map_keys :: "('k, 'v) jmap \<Rightarrow> 'k list" where
  "map_keys m = map fst m"

definition well_keyed :: "('k, 'v) jmap \<Rightarrow> bool" where
  "well_keyed m = distinct (map fst m)"

lemma map_get_set: "map_get (map_set m k v) k' = (if k' = k then Some v else map_get m k')"
  by (simp add: map_set_def update_conv')

lemma map_of_map_set [simp]: "map_of (map_set m k v) = (map_of m)(k \<mapsto> v)"
  by (simp add: map_set_def update_conv')

lemma well_keyed_map_set [simp]: "well_keyed m \<Longrightarrow> well_keyed (map_set m k v)"
  by (simp add: well_keyed_def map_set_def distinct_update)

lemma well_keyed_Nil [simp]: "well_keyed []"
  by (simp add: well_keyed_def)

lemma map_has_iff [simp]: "map_has m k \<longleftrightarrow> k \<in> fst ` set m"
  by (force simp: map_has_def map_of_eq_None_iff)

lemma set_map_keys [simp]: "set (map_keys m) = fst ` set m"
  by (simp add: map_keys_def)

lemma keys_map_set [simp]: "fst ` set (map_set m k v) = insert k (fst ` set m)"
  by (metis dom_fun_upd dom_map_of_conv_image_fst map_of_map_set option.distinct(1))

lemma map_keys_map_set:
  "map_keys (map_set m k v) = (if k \<in> fst ` set m then map_keys m else map_keys m @ [k])"
  unfolding map_keys_def map_set_def by (induction m) auto

lemma map_set_new: "k \<notin> fst ` set m \<Longrightarrow> map_set m k v = m @ [(k, v)]"
  unfolding map_set_def by (induction m) auto

lemma well_keyed_get: "well_keyed m \<Longrightarrow> (k, v) \<in> set m \<longleftrightarrow> map_get m k = Some v"
  by (simp add: well_keyed_def)

lemma foldl_map_set_copy:
  "well_keyed (m @ g) \<Longrightarrow> foldl (\<lambda>g (k, v). map_set g k v) m g = m @ g"
  by (induction g arbitrary: m) (auto simp: map_set_new well_keyed_def)

text \<open>\<open>Object.fromEntries\<close> and \<open>new Map(entries)\<close>: a later pair overwrites an earlier one.\<close>

definition fromEntries :: "('k \<times> 'v) list \<Rightarrow> ('k, 'v) jmap" where
  "fromEntries kvs = foldl (\<lambda>m (k, v). map_set m k v) [] kvs"

lemma fromEntries_distinct: "distinct (map fst kvs) \<Longrightarrow> fromEntries kvs = kvs"
  using foldl_map_set_copy [of "[]" kvs] by (simp add: fromEntries_def well_keyed_def)

lemma fromEntries_member: "map_of (fromEntries kvs) k = Some v \<Longrightarrow> (k, v) \<in> set kvs"
proof -
  have "map_of (foldl (\<lambda>m (k, v). map_set m k v) m kvs) k = Some v \<Longrightarrow> (k, v) \<in> set kvs \<or> map_of m k = Some v" for m
    by (induction kvs arbitrary: m) (force split: if_splits)+
  from this [of "[]"] show "map_of (fromEntries kvs) k = Some v \<Longrightarrow> (k, v) \<in> set kvs" by (simp add: fromEntries_def)
qed

lemma fromEntries_keys: "fst ` set (fromEntries kvs) = fst ` set kvs"
proof -
  have "fst ` set (foldl (\<lambda>m (k, v). map_set m k v) m kvs) = fst ` set m \<union> fst ` set kvs" for m
    by (induction kvs arbitrary: m) (auto simp: case_prod_unfold)
  then show ?thesis by (simp add: fromEntries_def)
qed

lemma fromEntries_constant:
  assumes "(k, v) \<in> set kvs" "\<And>u. (k, u) \<in> set kvs \<Longrightarrow> u = v"
  shows "map_get (fromEntries kvs) k = Some v"
proof -
  have "k \<in> fst ` set (fromEntries kvs)" using assms(1) by (force simp: fromEntries_keys)
  then obtain u where "map_get (fromEntries kvs) k = Some u" by (metis map_of_eq_None_iff option.exhaust)
  then show ?thesis using fromEntries_member assms(2) by fastforce
qed

section \<open>Comparators and the stable sort\<close>

text \<open>
  A comparator returns a number whose sign orders its arguments. \<open>or_cmp\<close> is the idiom
  \<open>a || b\<close>: the second comparator decides where the first returns 0.
\<close>

type_synonym 'a cmp = "'a \<Rightarrow> 'a \<Rightarrow> real"

definition or_cmp :: "'a cmp \<Rightarrow> 'a cmp \<Rightarrow> 'a cmp" where
  "or_cmp c d x y = (if c x y \<noteq> 0 then c x y else d x y)"

definition key_cmp :: "('a \<Rightarrow> real) \<Rightarrow> 'a cmp" where
  "key_cmp f x y = f x - f y"

definition key_cmp_desc :: "('a \<Rightarrow> real) \<Rightarrow> 'a cmp" where
  "key_cmp_desc f x y = f y - f x"

definition on_key :: "'b cmp \<Rightarrow> ('a \<Rightarrow> 'b) \<Rightarrow> 'a cmp" where
  "on_key c f x y = c (f x) (f y)"

definition code_unit_cmp :: "string cmp" where
  "code_unit_cmp x y = (if x < y then -1 else if x = y then 0 else 1)"

fun insert_by :: "('a \<Rightarrow> 'a \<Rightarrow> bool) \<Rightarrow> 'a \<Rightarrow> 'a list \<Rightarrow> 'a list" where
  "insert_by le x [] = [x]"
| "insert_by le x (y # ys) = (if le x y then x # y # ys else y # insert_by le x ys)"

fun sort_by :: "('a \<Rightarrow> 'a \<Rightarrow> bool) \<Rightarrow> 'a list \<Rightarrow> 'a list" where
  "sort_by le [] = []"
| "sort_by le (x # xs) = insert_by le x (sort_by le xs)"

definition js_sort :: "'a cmp \<Rightarrow> 'a list \<Rightarrow> 'a list" where
  "js_sort c xs = sort_by (\<lambda>x y. c x y \<le> 0) xs"

lemma mset_insert_by [simp]: "mset (insert_by le x xs) = add_mset x (mset xs)"
  by (induction xs) auto

lemma mset_sort_by [simp]: "mset (sort_by le xs) = mset xs"
  by (induction xs) auto

lemma mset_js_sort [simp]: "mset (js_sort c xs) = mset xs"
  by (simp add: js_sort_def)

lemma set_js_sort [simp]: "set (js_sort c xs) = set xs"
  by (metis mset_js_sort set_mset_mset)

lemma length_js_sort [simp]: "length (js_sort c xs) = length xs"
  by (metis mset_js_sort size_mset)

lemma distinct_js_sort [simp]: "distinct (js_sort c xs) = distinct xs"
  by (metis mset_eq_imp_distinct_iff mset_js_sort)

lemma set_insert_by [simp]: "set (insert_by le x xs) = insert x (set xs)"
  by (induction xs) auto

lemma js_sort_Nil [simp]: "js_sort c [] = []"
  by (simp add: js_sort_def)

lemma js_sort_single [simp]: "js_sort c [x] = [x]"
  by (simp add: js_sort_def)

text \<open>What a comparator must promise for \<open>Array.sort\<close> to be determined by it.\<close>

locale comparator =
  fixes cmp :: "'a cmp"
  assumes sgn_swap: "sgn (cmp y x) = - sgn (cmp x y)"
    and trans_le: "cmp x y \<le> 0 \<Longrightarrow> cmp y z \<le> 0 \<Longrightarrow> cmp x z \<le> 0"
begin

lemma total: "cmp x y \<le> 0 \<or> cmp y x \<le> 0"
  using sgn_swap [of x y] by (auto simp: sgn_if split: if_splits)

lemma refl: "cmp x x = 0"
  using sgn_swap [of x x] by (auto simp: sgn_if split: if_splits)

lemma lt_iff: "cmp x y < 0 \<longleftrightarrow> 0 < cmp y x"
  using sgn_swap [of x y] by (auto simp: sgn_if split: if_splits)

lemma eq_sym: "cmp x y = 0 \<longleftrightarrow> cmp y x = 0"
  using sgn_swap [of x y] by (auto simp: sgn_if split: if_splits)

lemma sorted_insert_by:
  "sorted_wrt (\<lambda>x y. cmp x y \<le> 0) xs
    \<Longrightarrow> sorted_wrt (\<lambda>x y. cmp x y \<le> 0) (insert_by (\<lambda>x y. cmp x y \<le> 0) a xs)"
proof (induction xs)
  case (Cons y ys)
  show ?case
  proof (cases "cmp a y \<le> 0")
    case True
    with Cons.prems show ?thesis by (auto intro: trans_le)
  next
    case False
    then have "cmp y a \<le> 0" using total by blast
    with Cons False show ?thesis by auto
  qed
qed simp

lemma sorted_js_sort: "sorted_wrt (\<lambda>x y. cmp x y \<le> 0) (js_sort cmp xs)"
  unfolding js_sort_def by (induction xs) (auto intro: sorted_insert_by)

lemma filter_insert_by:
  assumes "\<And>y. P y \<Longrightarrow> cmp a y \<le> 0"
  shows "filter P (insert_by (\<lambda>x y. cmp x y \<le> 0) a xs) = (if P a then a # filter P xs else filter P xs)"
  using assms by (induction xs) auto

text \<open>Stability: elements the comparator does not separate keep their order.\<close>

lemma stable: "filter (\<lambda>y. cmp a y = 0) (js_sort cmp xs) = filter (\<lambda>y. cmp a y = 0) xs"
proof (induction xs)
  case (Cons x xs)
  show ?case
  proof (cases "cmp a x = 0")
    case True
    then have "cmp x y \<le> 0" if "cmp a y = 0" for y
      using that trans_le [of x a y] eq_sym [of a x] by simp
    then show ?thesis
      using Cons.IH True by (simp add: js_sort_def filter_insert_by)
  next
    case False
    have "filter (\<lambda>y. cmp a y = 0) (insert_by (\<lambda>x y. cmp x y \<le> 0) x ys)
        = filter (\<lambda>y. cmp a y = 0) ys" for ys
      using False by (induction ys) auto
    then show ?thesis using Cons.IH False by (simp add: js_sort_def)
  qed
qed simp

lemma js_sort_sorted_id:
  "sorted_wrt (\<lambda>x y. cmp x y \<le> 0) xs \<Longrightarrow> js_sort cmp xs = xs"
proof (induction xs)
  case (Cons x xs)
  then show ?case by (cases xs) (auto simp: js_sort_def)
qed simp

lemma js_sort_idem: "js_sort cmp (js_sort cmp xs) = js_sort cmp xs"
  by (rule js_sort_sorted_id) (rule sorted_js_sort)

text \<open>Where the comparator separates the elements, the result depends on the multiset only.\<close>

lemma sorted_mset_unique:
  assumes "mset xs = mset ys" "sorted_wrt (\<lambda>x y. cmp x y \<le> 0) xs" "sorted_wrt (\<lambda>x y. cmp x y \<le> 0) ys"
    and "\<forall>x \<in> set xs. \<forall>y \<in> set xs. cmp x y = 0 \<longrightarrow> x = y"
  shows "xs = ys"
  using assms
proof (induction xs arbitrary: ys)
  case (Cons x xs)
  then obtain y ys' where ys: "ys = y # ys'" by (cases ys) auto
  have set_eq: "set (x # xs) = set ys" using Cons.prems(1) by (metis set_mset_mset)
  have mem: "x \<in> set ys" "y \<in> set (x # xs)" using set_eq unfolding ys by auto
  then have "cmp x y \<le> 0" "cmp y x \<le> 0"
    using Cons.prems(2,3) refl unfolding ys by auto
  then have "cmp x y = 0" using lt_iff [of x y] by linarith
  then have "x = y" using Cons.prems(4) mem(2) by (metis list.set_intros(1))
  with Cons.IH [of ys'] Cons.prems show ?case unfolding ys by auto
qed simp

lemma js_sort_mset_cong:
  assumes "mset xs = mset ys" "\<forall>x \<in> set xs. \<forall>y \<in> set xs. cmp x y = 0 \<longrightarrow> x = y"
  shows "js_sort cmp xs = js_sort cmp ys"
  using assms by (intro sorted_mset_unique) (auto simp: sorted_js_sort)

end

lemma comparator_key_cmp: "comparator (key_cmp f)"
  by unfold_locales (auto simp: key_cmp_def sgn_if)

lemma comparator_key_cmp_desc: "comparator (key_cmp_desc f)"
  by unfold_locales (auto simp: key_cmp_desc_def sgn_if)

lemma comparator_on_key: "comparator c \<Longrightarrow> comparator (on_key c f)"
  unfolding comparator_def on_key_def by blast

lemma comparator_or_cmp:
  assumes c: "comparator c" and d: "comparator d"
  shows "comparator (or_cmp c d)"
proof
  fix x y
  show "sgn (or_cmp c d y x) = - sgn (or_cmp c d x y)"
    using comparator.sgn_swap [OF c, of y x] comparator.sgn_swap [OF d, of y x]
      comparator.eq_sym [OF c, of x y]
    by (simp add: or_cmp_def)
next
  fix x y z
  assume xy: "or_cmp c d x y \<le> 0" and yz: "or_cmp c d y z \<le> 0"
  then have le: "c x y \<le> 0" "c y z \<le> 0" by (auto simp: or_cmp_def split: if_splits)
  then have cxz: "c x z \<le> 0" by (rule comparator.trans_le [OF c])
  show "or_cmp c d x z \<le> 0"
  proof (cases "c x z = 0")
    case True
    then have "c z x \<le> 0" using comparator.eq_sym [OF c] by (metis order_refl)
    then have "c y x \<le> 0" "c z y \<le> 0"
      using le comparator.trans_le [OF c] by blast+
    then have "c x y = 0" "c y z = 0"
      using le comparator.lt_iff [OF c] by (meson leD order_le_less)+
    with xy yz True show ?thesis
      using comparator.trans_le [OF d, of x y z] by (simp add: or_cmp_def)
  next
    case False
    with cxz show ?thesis by (simp add: or_cmp_def)
  qed
qed

interpretation code_unit: comparator code_unit_cmp
  by unfold_locales (auto simp: code_unit_cmp_def split: if_splits)

lemmas comparator_intros =
  comparator_key_cmp comparator_key_cmp_desc comparator_on_key comparator_or_cmp

end
