(* ===== verification/Js_Number.thy ===== *)
theory Js_Number
  imports Js_String
begin

text \<open>
  JavaScript numbers where the code distinguishes the values that are not finite: a finite
  real, the two infinities and \<open>NaN\<close>. Rounding and the sign of zero are not modelled. Where
  the code only meets finite values the development uses \<open>real\<close> or \<open>nat\<close> directly.
\<close>

datatype jsnum = Fin real | PInf | NInf | NaN

fun is_finite :: "jsnum \<Rightarrow> bool" where
  "is_finite (Fin x) = True"
| "is_finite _ = False"

fun num_add :: "jsnum \<Rightarrow> jsnum \<Rightarrow> jsnum" where
  "num_add NaN _ = NaN"
| "num_add _ NaN = NaN"
| "num_add (Fin x) (Fin y) = Fin (x + y)"
| "num_add PInf NInf = NaN"
| "num_add NInf PInf = NaN"
| "num_add PInf _ = PInf"
| "num_add _ PInf = PInf"
| "num_add NInf _ = NInf"
| "num_add _ NInf = NInf"

fun num_neg :: "jsnum \<Rightarrow> jsnum" where
  "num_neg (Fin x) = Fin (- x)"
| "num_neg PInf = NInf"
| "num_neg NInf = PInf"
| "num_neg NaN = NaN"

definition num_sub :: "jsnum \<Rightarrow> jsnum \<Rightarrow> jsnum" where
  "num_sub x y = num_add x (num_neg y)"

definition signed_inf :: "real \<Rightarrow> jsnum" where
  "signed_inf s = (if s > 0 then PInf else if s < 0 then NInf else NaN)"

fun num_sgn :: "jsnum \<Rightarrow> real" where
  "num_sgn (Fin x) = sgn x"
| "num_sgn PInf = 1"
| "num_sgn NInf = -1"
| "num_sgn NaN = 0"

fun num_mul :: "jsnum \<Rightarrow> jsnum \<Rightarrow> jsnum" where
  "num_mul NaN _ = NaN"
| "num_mul _ NaN = NaN"
| "num_mul (Fin x) (Fin y) = Fin (x * y)"
| "num_mul x y = signed_inf (num_sgn x * num_sgn y)"

text \<open>Division by a positive literal, the only division the code applies to such a value.\<close>

fun num_div_const :: "jsnum \<Rightarrow> real \<Rightarrow> jsnum" where
  "num_div_const (Fin x) d = Fin (x / d)"
| "num_div_const x d = x"

fun num_lt :: "jsnum \<Rightarrow> jsnum \<Rightarrow> bool" where
  "num_lt NaN _ = False"
| "num_lt _ NaN = False"
| "num_lt (Fin x) (Fin y) = (x < y)"
| "num_lt NInf NInf = False"
| "num_lt NInf _ = True"
| "num_lt _ NInf = False"
| "num_lt PInf _ = False"
| "num_lt _ PInf = True"

fun num_le :: "jsnum \<Rightarrow> jsnum \<Rightarrow> bool" where
  "num_le NaN _ = False"
| "num_le _ NaN = False"
| "num_le (Fin x) (Fin y) = (x \<le> y)"
| "num_le NInf _ = True"
| "num_le _ PInf = True"
| "num_le _ _ = False"

definition num_max :: "jsnum \<Rightarrow> jsnum \<Rightarrow> jsnum" where
  "num_max x y = (if x = NaN \<or> y = NaN then NaN else if num_le x y then y else x)"

fun num_exp :: "jsnum \<Rightarrow> jsnum" where
  "num_exp (Fin x) = Fin (exp x)"
| "num_exp PInf = PInf"
| "num_exp NInf = Fin 0"
| "num_exp NaN = NaN"

lemma num_max_Fin [simp]: "num_max (Fin x) (Fin y) = Fin (max x y)"
  by (simp add: num_max_def)

lemma num_max_NaN [simp]: "num_max x NaN = NaN" "num_max NaN x = NaN"
  by (simp_all add: num_max_def)

lemma num_sub_Fin [simp]: "num_sub (Fin x) (Fin y) = Fin (x - y)"
  by (simp add: num_sub_def)

lemma num_sub_NaN [simp]: "num_sub x NaN = NaN"
  by (cases x) (simp_all add: num_sub_def)

lemma num_add_NaN [simp]: "num_add x NaN = NaN"
  by (cases x) simp_all

lemma num_mul_NaN [simp]: "num_mul x NaN = NaN"
  by (cases x) simp_all

lemma is_finite_iff: "is_finite x \<longleftrightarrow> (\<exists>r. x = Fin r)"
  by (cases x) simp_all

lemma is_finiteE [elim]: "is_finite x \<Longrightarrow> (\<And>r. x = Fin r \<Longrightarrow> P) \<Longrightarrow> P"
  by (cases x) simp_all

fun num_val :: "jsnum \<Rightarrow> real" where
  "num_val (Fin x) = x"
| "num_val _ = 0"

lemma Fin_num_val [simp]: "is_finite x \<Longrightarrow> Fin (num_val x) = x"
  by (cases x) simp_all

section \<open>JSON values\<close>

text \<open>
  The values handed to \<open>JSON.stringify\<close> before hashing. \<open>createHash("sha256")\<close> of the
  rendered text is a function \<open>hash :: json \<Rightarrow> string\<close>, an argument of the definitions
  that use it.
\<close>

datatype json =
    JNull
  | JBool bool
  | JNum jsnum
  | JStr string
  | JArr "json list"
  | JObj "(string \<times> json) list"

text \<open>\<open>JSON.stringify\<close> leaves a field out when its value is \<open>undefined\<close>.\<close>

definition json_field :: "string \<Rightarrow> json option \<Rightarrow> (string \<times> json) list" where
  "json_field k v = (case v of None \<Rightarrow> [] | Some x \<Rightarrow> [(k, x)])"

end
