(* ===== verification/Weights.thy ===== *)
theory Weights
  imports Js_Number
begin

text \<open>
  The pure impact formulas of \<open>packages/core/src/domain\<close>: the change kinds and their
  \<open>\<lambda>_ast\<close> weights (\<open>weights.ts\<close>), branch metrics (\<open>branchMetrics.ts\<close>), confidence and
  structural salience (\<open>confidence.ts\<close>, \<open>alpha.ts\<close>), the push impact (\<open>i-push.ts\<close>) and its
  report-only scale (\<open>impactCalibration.ts\<close>). Metric values are exact reals, counts are
  natural numbers.
\<close>

named_theorems impact_defs \<open>definitions of the impact formulas\<close>

section \<open>Change kinds\<close>

datatype ChangeKind =
    interface_add_remove
  | class_add_remove
  | public_method_sig
  | function_sig
  | field_add_remove
  | compatible_field_add
  | function_body
  | branch_add
  | dependency_remove
  | dependency_add
  | comment_whitespace

fun LAMBDA_AST :: "ChangeKind \<Rightarrow> real" where
  "LAMBDA_AST interface_add_remove = 100"
| "LAMBDA_AST class_add_remove = 80"
| "LAMBDA_AST public_method_sig = 60"
| "LAMBDA_AST function_sig = 50"
| "LAMBDA_AST field_add_remove = 40"
| "LAMBDA_AST compatible_field_add = 5"
| "LAMBDA_AST function_body = 10"
| "LAMBDA_AST branch_add = 5"
| "LAMBDA_AST dependency_remove = 15"
| "LAMBDA_AST dependency_add = 5"
| "LAMBDA_AST comment_whitespace = 0"

definition requiresDependentSync :: "ChangeKind \<Rightarrow> bool" where
  "requiresDependentSync changeKind = (changeKind \<noteq> compatible_field_add)"

lemma LAMBDA_AST_nonneg [simp]: "0 \<le> LAMBDA_AST k"
  by (cases k) simp_all

lemma LAMBDA_AST_zero_iff: "LAMBDA_AST k = 0 \<longleftrightarrow> k = comment_whitespace"
  by (cases k) simp_all

section \<open>Branch metrics\<close>

record BranchMetricSnapshot =
  bm_branchCount :: "real option"
  bm_weightedBranchTotal :: "real option"
  bm_maxFuncBranch :: "real option"
  bm_topLevelWeightedBranch :: "real option"

definition weightedBranchTotalOf :: "BranchMetricSnapshot \<Rightarrow> real" where
  "weightedBranchTotalOf m = or_default (or_option (bm_weightedBranchTotal m) (bm_branchCount m)) 0"

definition maxFuncWeightedBranchOf :: "BranchMetricSnapshot \<Rightarrow> real" where
  "maxFuncWeightedBranchOf m = or_default (bm_maxFuncBranch m) 0"

definition topLevelWeightedBranchOf :: "BranchMetricSnapshot \<Rightarrow> real" where
  "topLevelWeightedBranchOf m = or_default (bm_topLevelWeightedBranch m) 0"

section \<open>Confidence and structural salience\<close>

record ConfidenceInput =
  ci_passthroughCalls :: real
  ci_weightedControlFlow :: real
  ci_structuralNodeEstimate :: real

definition confidence :: "ConfidenceInput \<Rightarrow> real" where
  "confidence i =
     (if ci_structuralNodeEstimate i \<le> 0 then 2/10
      else let raw = (ci_passthroughCalls i + 3/10 * ci_weightedControlFlow i)
                       / ci_structuralNodeEstimate i
           in min 1 (max (2/10) raw))"

record AlphaInput =
  al_reach :: nat
  al_confidence :: real
  al_nFiles :: nat

definition alphaStruct :: "AlphaInput \<Rightarrow> real" where
  "alphaStruct i =
     (let numerator = log 2 (real (al_reach i) * al_confidence i + 1);
          denominator = log 2 (real (al_nFiles i) + 1)
      in if denominator \<le> 0 then 0
         else min 1 (max 0 (numerator / denominator)))"

lemma confidence_range: "2/10 \<le> confidence i \<and> confidence i \<le> 1"
  by (auto simp: confidence_def Let_def min_def max_def)

lemma alphaStruct_range: "0 \<le> alphaStruct i \<and> alphaStruct i \<le> 1"
  by (simp add: alphaStruct_def Let_def)

lemma log2_Suc_nonneg [simp]: "0 \<le> log 2 (real n + 1)"
  by simp

lemma log2_Suc_pos_iff [simp]: "0 < log 2 (real n + 1) \<longleftrightarrow> 0 < n"
  by simp

text \<open>The clamp only guards against rounding: the exact quotient is in range already.\<close>

lemma alphaStruct_exact:
  assumes "0 < al_nFiles i" "0 \<le> al_confidence i" "real (al_reach i) * al_confidence i \<le> real (al_nFiles i)"
  shows "alphaStruct i = log 2 (real (al_reach i) * al_confidence i + 1) / log 2 (real (al_nFiles i) + 1)"
proof -
  let ?x = "real (al_reach i) * al_confidence i" and ?n = "real (al_nFiles i)"
  have den: "0 < log 2 (?n + 1)" using assms(1) by simp
  have x: "0 \<le> ?x" using assms(2) by simp
  have "0 \<le> log 2 (?x + 1)" using x by simp
  moreover have "log 2 (?x + 1) \<le> log 2 (?n + 1)" using x assms(3) by simp
  ultimately have "0 \<le> log 2 (?x + 1) / log 2 (?n + 1)" "log 2 (?x + 1) / log 2 (?n + 1) \<le> 1"
    using den by (simp_all add: divide_le_eq_1_pos)
  with den show ?thesis by (simp add: alphaStruct_def Let_def)
qed

lemma alphaStruct_mono:
  assumes n: "al_nFiles i = al_nFiles j"
    and pos: "0 \<le> al_confidence i"
    and le: "al_reach i \<le> al_reach j" "al_confidence i \<le> al_confidence j"
  shows "alphaStruct i \<le> alphaStruct j"
proof -
  have "real (al_reach i) * al_confidence i \<le> real (al_reach j) * al_confidence j"
    using le pos by (intro mult_mono) simp_all
  moreover have "0 \<le> real (al_reach i) * al_confidence i" using pos by simp
  ultimately have num: "log 2 (real (al_reach i) * al_confidence i + 1)
      \<le> log 2 (real (al_reach j) * al_confidence j + 1)"
    by simp
  then have "log 2 (real (al_reach i) * al_confidence i + 1) / log 2 (real (al_nFiles j) + 1)
      \<le> log 2 (real (al_reach j) * al_confidence j + 1) / log 2 (real (al_nFiles j) + 1)"
    by (intro divide_right_mono) simp_all
  then have "min 1 (max 0 (log 2 (real (al_reach i) * al_confidence i + 1) / log 2 (real (al_nFiles j) + 1)))
      \<le> min 1 (max 0 (log 2 (real (al_reach j) * al_confidence j + 1) / log 2 (real (al_nFiles j) + 1)))"
    by (intro min.mono max.mono) simp_all
  then show ?thesis by (simp add: alphaStruct_def Let_def n)
qed

section \<open>Push impact\<close>

record PushDeltaInput =
  pd_changeKind :: ChangeKind
  pd_alphaStruct :: real
  pd_inDegree :: nat
  pd_layerWeight :: "real option"
  pd_weightedBranchDelta :: "real option"

definition branchMagnitude :: "PushDeltaInput \<Rightarrow> real" where
  "branchMagnitude d =
     (if pd_changeKind d = branch_add then max 0 (or_default (pd_weightedBranchDelta d) 1) else 1)"

definition severityTerm :: "PushDeltaInput \<Rightarrow> real" where
  "severityTerm d = LAMBDA_AST (pd_changeKind d) * branchMagnitude d"

definition computeSeverityBudget :: "PushDeltaInput list \<Rightarrow> real" where
  "computeSeverityBudget deltas = foldl (\<lambda>sum d. sum + severityTerm d) 0 deltas"

definition pushTerm :: "PushDeltaInput \<Rightarrow> real" where
  "pushTerm d =
     (let lambda = LAMBDA_AST (pd_changeKind d);
          reachFactor = log 2 (real (pd_inDegree d) + 1);
          layerWeight = or_default (pd_layerWeight d) 1
      in lambda * branchMagnitude d * pd_alphaStruct d * reachFactor * layerWeight)"

definition computeIPush :: "PushDeltaInput list \<Rightarrow> real" where
  "computeIPush deltas = foldl (\<lambda>sum d. sum + pushTerm d) 0 deltas"

lemma foldl_plus_sum_list: "foldl (\<lambda>sum d. sum + f d) a xs = a + sum_list (map f xs)" for a :: real
  by (induction xs arbitrary: a) simp_all

lemma computeIPush_sum: "computeIPush ds = sum_list (map pushTerm ds)"
  by (simp add: computeIPush_def foldl_plus_sum_list)

lemma computeSeverityBudget_sum: "computeSeverityBudget ds = sum_list (map severityTerm ds)"
  by (simp add: computeSeverityBudget_def foldl_plus_sum_list)

lemma branchMagnitude_nonneg [simp]: "0 \<le> branchMagnitude d"
  by (simp add: branchMagnitude_def)

lemma severityTerm_nonneg [simp]: "0 \<le> severityTerm d"
  by (simp add: severityTerm_def)

lemma pushTerm_factor:
  "pushTerm d = severityTerm d * (pd_alphaStruct d * log 2 (real (pd_inDegree d) + 1)
      * or_default (pd_layerWeight d) 1)"
  by (simp add: pushTerm_def severityTerm_def Let_def)

text \<open>The three structural factors of a push are bounded by the largest in-degree and layer weight.\<close>

lemma pushTerm_le:
  assumes "0 \<le> pd_alphaStruct d" "pd_alphaStruct d \<le> 1" "pd_inDegree d \<le> n"
    and "0 \<le> or_default (pd_layerWeight d) 1" "or_default (pd_layerWeight d) 1 \<le> w"
  shows "0 \<le> pushTerm d \<and> pushTerm d \<le> severityTerm d * (log 2 (real n + 1) * w)"
proof -
  let ?r = "log 2 (real (pd_inDegree d) + 1)" and ?w = "or_default (pd_layerWeight d) 1"
  have r: "0 \<le> ?r" "?r \<le> log 2 (real n + 1)" using assms(3) by simp_all
  have "pd_alphaStruct d * ?r \<le> 1 * log 2 (real n + 1)"
    using assms r by (intro mult_mono) simp_all
  then have "pd_alphaStruct d * ?r * ?w \<le> log 2 (real n + 1) * w"
    using assms r by (intro mult_mono) simp_all
  moreover have "0 \<le> pd_alphaStruct d * ?r * ?w" using assms r by simp
  ultimately show ?thesis
    by (simp add: pushTerm_factor mult_left_mono)
qed

section \<open>Impact scale\<close>

record HistoryImpactFact =
  hi_timestamp :: jsnum
  hi_iPush :: real
  hi_fileCount :: nat
  hi_entryCount :: int

record ImpactFileCountBucket =
  ib_label :: string
  ib_min :: nat
  ib_max :: "nat option" \<comment> \<open>None is positive infinity\<close>

definition IMPACT_FILE_COUNT_BUCKETS :: "ImpactFileCountBucket list" where
  "IMPACT_FILE_COUNT_BUCKETS =
     [\<lparr>ib_label = ''1'', ib_min = 1, ib_max = Some 1\<rparr>,
      \<lparr>ib_label = ''2-3'', ib_min = 2, ib_max = Some 3\<rparr>,
      \<lparr>ib_label = ''4-9'', ib_min = 4, ib_max = Some 9\<rparr>,
      \<lparr>ib_label = ''10-19'', ib_min = 10, ib_max = Some 19\<rparr>,
      \<lparr>ib_label = ''20+'', ib_min = 20, ib_max = None\<rparr>]"

definition in_bucket :: "nat \<Rightarrow> ImpactFileCountBucket \<Rightarrow> bool" where
  "in_bucket n b = (ib_min b \<le> n \<and> (case ib_max b of None \<Rightarrow> True | Some m \<Rightarrow> n \<le> m))"

definition impactFileCountBucket :: "nat \<Rightarrow> ImpactFileCountBucket option" where
  "impactFileCountBucket fileCount = find (in_bucket fileCount) IMPACT_FILE_COUNT_BUCKETS"

record ImpactScale =
  is_percentile :: real
  is_bucket :: string
  is_sampleEntries :: int

definition impactIntensityOf :: "real \<Rightarrow> real \<Rightarrow> real" where
  "impactIntensityOf iPush severityBudget = (if severityBudget > 0 then iPush / severityBudget else 0)"

definition js_round :: "real \<Rightarrow> int" where
  "js_round x = \<lfloor>x + 1/2\<rfloor>"

definition impactScaleOf :: "real \<Rightarrow> nat \<Rightarrow> HistoryImpactFact list \<Rightarrow> ImpactScale option" where
  "impactScaleOf iPush fileCount facts =
     (case impactFileCountBucket fileCount of
        None \<Rightarrow> None
      | Some bucket \<Rightarrow>
          let sameBucket = filter (\<lambda>f. in_bucket (hi_fileCount f) bucket) facts;
              total = foldl (\<lambda>sum f. sum + max 0 (hi_entryCount f)) 0 sameBucket
          in if total \<le> 0 then None
             else let below = foldl (\<lambda>sum f. sum + (if hi_iPush f < iPush then max 0 (hi_entryCount f) else 0)) 0 sameBucket
                  in Some \<lparr>is_percentile = real_of_int (js_round (real_of_int below / real_of_int total * 1000)) / 10,
                           is_bucket = ib_label bucket, is_sampleEntries = total\<rparr>)"

lemma foldl_plus_int: "foldl (\<lambda>sum d. sum + f d) a xs = a + sum_list (map f xs)" for a :: int
  by (induction xs arbitrary: a) simp_all

lemma js_round_mono: "x \<le> y \<Longrightarrow> js_round x \<le> js_round y"
  by (simp add: js_round_def floor_mono)

lemma js_round_of_int [simp]: "js_round (real_of_int k) = k"
  unfolding js_round_def by linarith

text \<open>Every positive file count is in exactly one bucket, and 0 is in none.\<close>

lemma bucket_unique:
  "length (filter (in_bucket n) IMPACT_FILE_COUNT_BUCKETS) = (if n = 0 then 0 else 1)"
  by (auto simp: IMPACT_FILE_COUNT_BUCKETS_def in_bucket_def)

lemma impactFileCountBucket_None: "impactFileCountBucket n = None \<longleftrightarrow> n = 0"
  by (auto simp: impactFileCountBucket_def IMPACT_FILE_COUNT_BUCKETS_def in_bucket_def)

lemma sum_list_entry_le:
  fixes f g :: "'a \<Rightarrow> int"
  assumes "\<And>x. x \<in> set xs \<Longrightarrow> f x \<le> g x"
  shows "sum_list (map f xs) \<le> sum_list (map g xs)"
  using assms by (rule sum_list_mono)

definition below_entries :: "HistoryImpactFact list \<Rightarrow> real \<Rightarrow> int" where
  "below_entries fs t = sum_list (map (\<lambda>f. if hi_iPush f < t then max 0 (hi_entryCount f) else 0) fs)"

lemma below_bounds:
  "0 \<le> below_entries fs p" "below_entries fs p \<le> sum_list (map (\<lambda>f. max 0 (hi_entryCount f)) fs)"
  unfolding below_entries_def by (auto intro!: sum_list_entry_le sum_list_nonneg)

lemma below_mono: "p \<le> q \<Longrightarrow> below_entries fs p \<le> below_entries fs q"
  unfolding below_entries_def by (auto intro!: sum_list_entry_le)

lemma impactScaleOf_SomeE:
  assumes "impactScaleOf iPush n facts = Some s"
  obtains bucket total below where
    "impactFileCountBucket n = Some bucket"
    "total = sum_list (map (\<lambda>f. max 0 (hi_entryCount f)) (filter (\<lambda>f. in_bucket (hi_fileCount f) bucket) facts))"
    "0 < total" "0 \<le> below" "below \<le> total"
    "below = below_entries (filter (\<lambda>f. in_bucket (hi_fileCount f) bucket) facts) iPush"
    "s = \<lparr>is_percentile = real_of_int (js_round (real_of_int below / real_of_int total * 1000)) / 10,
          is_bucket = ib_label bucket, is_sampleEntries = total\<rparr>"
proof -
  obtain bucket where b: "impactFileCountBucket n = Some bucket"
    using assms by (auto simp: impactScaleOf_def split: option.splits)
  let ?fs = "filter (\<lambda>f. in_bucket (hi_fileCount f) bucket) facts"
  let ?total = "sum_list (map (\<lambda>f. max 0 (hi_entryCount f)) ?fs)"
  let ?below = "below_entries ?fs iPush"
  have "0 < ?total \<and> s = \<lparr>is_percentile = real_of_int (js_round (real_of_int ?below / real_of_int ?total * 1000)) / 10,
          is_bucket = ib_label bucket, is_sampleEntries = ?total\<rparr>"
    using assms b by (auto simp: impactScaleOf_def foldl_plus_int below_entries_def Let_def split: if_splits)
  then show thesis
    using that [OF b] below_bounds [of ?fs iPush] by blast
qed

lemma percentile_of_bounds:
  fixes total below :: int
  assumes "0 < total" "0 \<le> below" "below \<le> total"
  shows "0 \<le> js_round (real_of_int below / real_of_int total * 1000)"
    "js_round (real_of_int below / real_of_int total * 1000) \<le> 1000"
proof -
  have q: "0 \<le> real_of_int below / real_of_int total * 1000"
    "real_of_int below / real_of_int total * 1000 \<le> 1000"
    using assms by (simp_all add: divide_le_eq)
  show "0 \<le> js_round (real_of_int below / real_of_int total * 1000)"
    using js_round_mono [OF q(1)] js_round_of_int [of 0] by simp
  show "js_round (real_of_int below / real_of_int total * 1000) \<le> 1000"
    using js_round_mono [OF q(2)] js_round_of_int [of 1000] by simp
qed

section \<open>Properties\<close>

text \<open>The impact of a push is at most its severity budget times the largest reach factor and
  layer weight, it is never negative, and so the reported intensity has the same bound whatever
  the number of changes.\<close>

theorem push_impact_bounded:
  assumes "\<forall>d \<in> set ds. 0 \<le> pd_alphaStruct d \<and> pd_alphaStruct d \<le> 1 \<and> pd_inDegree d \<le> n
      \<and> 0 \<le> or_default (pd_layerWeight d) 1 \<and> or_default (pd_layerWeight d) 1 \<le> w"
  shows "0 \<le> computeIPush ds \<and> computeIPush ds \<le> computeSeverityBudget ds * (log 2 (real n + 1) * w)
    \<and> impactIntensityOf (computeIPush ds) (computeSeverityBudget ds) \<le> max 0 (log 2 (real n + 1) * w)"
proof -
  let ?c = "log 2 (real n + 1) * w"
  have le: "0 \<le> pushTerm d \<and> pushTerm d \<le> severityTerm d * ?c" if "d \<in> set ds" for d
    using assms that by (intro pushTerm_le) simp_all
  have "0 \<le> computeIPush ds" using le by (auto simp: computeIPush_sum intro!: sum_list_nonneg)
  moreover have "computeIPush ds \<le> computeSeverityBudget ds * ?c"
    using le by (auto simp: computeIPush_sum computeSeverityBudget_sum sum_list_mult_const [symmetric] intro!: sum_list_mono)
  moreover have "impactIntensityOf (computeIPush ds) (computeSeverityBudget ds) \<le> max 0 ?c"
  proof (cases "computeSeverityBudget ds > 0")
    case True
    then have "computeIPush ds / computeSeverityBudget ds \<le> ?c"
      using calculation(2) by (simp add: pos_divide_le_eq mult.commute)
    then show ?thesis using True by (simp add: impactIntensityOf_def)
  qed (simp add: impactIntensityOf_def)
  ultimately show ?thesis by blast
qed

theorem push_impact_bounded_witness:
  "computeIPush [\<lparr>pd_changeKind = function_sig, pd_alphaStruct = 1/2, pd_inDegree = 1, pd_layerWeight = None,
      pd_weightedBranchDelta = None\<rparr>] = 25
   \<and> computeIPush [\<lparr>pd_changeKind = function_sig, pd_alphaStruct = 1/2, pd_inDegree = 1, pd_layerWeight = None,
      pd_weightedBranchDelta = None\<rparr>] \<le> 50"
  using push_impact_bounded [of "[\<lparr>pd_changeKind = function_sig, pd_alphaStruct = 1/2, pd_inDegree = 1, pd_layerWeight = None,
      pd_weightedBranchDelta = None\<rparr>]" 1 1]
  by (simp add: computeIPush_def pushTerm_def computeSeverityBudget_def severityTerm_def branchMagnitude_def)

text \<open>The impact percentile of a push is a number of tenths between 0 and 100, taken over at
  least one entry, and it cannot fall when the impact grows.\<close>

theorem impact_percentile_monotone:
  assumes scale: "impactScaleOf p n facts = Some s" and le: "p \<le> q"
  shows "0 \<le> is_percentile s \<and> is_percentile s \<le> 100 \<and> 0 < is_sampleEntries s
    \<and> (\<exists>s'. impactScaleOf q n facts = Some s' \<and> is_percentile s \<le> is_percentile s' \<and> is_bucket s' = is_bucket s)"
proof -
  obtain bucket total below where b: "impactFileCountBucket n = Some bucket"
    and total: "total = sum_list (map (\<lambda>f. max 0 (hi_entryCount f)) (filter (\<lambda>f. in_bucket (hi_fileCount f) bucket) facts))"
    and pos: "0 < total" "0 \<le> below" "below \<le> total"
    and below: "below = below_entries (filter (\<lambda>f. in_bucket (hi_fileCount f) bucket) facts) p"
    and s: "s = \<lparr>is_percentile = real_of_int (js_round (real_of_int below / real_of_int total * 1000)) / 10,
          is_bucket = ib_label bucket, is_sampleEntries = total\<rparr>"
    using scale by (rule impactScaleOf_SomeE)
  let ?below = "below_entries (filter (\<lambda>f. in_bucket (hi_fileCount f) bucket) facts) q"
  have "impactScaleOf q n facts = Some \<lparr>is_percentile = real_of_int (js_round (real_of_int ?below / real_of_int total * 1000)) / 10,
      is_bucket = ib_label bucket, is_sampleEntries = total\<rparr>"
    using b pos(1) by (simp add: impactScaleOf_def foldl_plus_int below_entries_def total Let_def)
  moreover have "below \<le> ?below" unfolding below by (rule below_mono [OF le])
  then have "js_round (real_of_int below / real_of_int total * 1000) \<le> js_round (real_of_int ?below / real_of_int total * 1000)"
    using pos(1) by (intro js_round_mono) (simp add: divide_right_mono)
  ultimately show ?thesis
    using percentile_of_bounds [OF pos] pos(1) by (simp add: s)
qed

definition sample_impacts :: "HistoryImpactFact list" where
  "sample_impacts = [\<lparr>hi_timestamp = Fin 0, hi_iPush = 10, hi_fileCount = 1, hi_entryCount = 3\<rparr>,
     \<lparr>hi_timestamp = Fin 1, hi_iPush = 30, hi_fileCount = 1, hi_entryCount = 1\<rparr>]"

theorem impact_percentile_monotone_witness:
  "impactScaleOf 20 1 sample_impacts = Some \<lparr>is_percentile = 75, is_bucket = ''1'', is_sampleEntries = 4\<rparr>
   \<and> (\<exists>s'. impactScaleOf 40 1 sample_impacts = Some s' \<and> 75 \<le> is_percentile s')"
proof -
  have scale: "impactScaleOf 20 1 sample_impacts = Some \<lparr>is_percentile = 75, is_bucket = ''1'', is_sampleEntries = 4\<rparr>"
    using js_round_of_int [of 750]
    by (simp add: impactScaleOf_def impactFileCountBucket_def IMPACT_FILE_COUNT_BUCKETS_def in_bucket_def sample_impacts_def)
  from impact_percentile_monotone [OF this, of 40] scale show ?thesis by auto
qed

end
