(* ===== verification/Crl_State.thy ===== *)
theory Crl_State
  imports Weights
begin

text \<open>
  The stock complexity burden of one file (\<open>crlState.ts\<close>) and the percentile that
  normalises it (\<open>p95.ts\<close>). \<open>computeCRLStateBreakdown\<close> splits the burden into the part the
  gate judges (\<open>localBurden\<close>) and the parts that only explain.
\<close>

section \<open>The 95th percentile\<close>

definition p95 :: "real list \<Rightarrow> real" where
  "p95 values =
     (if values = [] then 0
      else let sorted = sort values;
               idx = 95/100 * (real (length sorted) - 1);
               lo = nat \<lfloor>idx\<rfloor>; hi = nat \<lceil>idx\<rceil>
           in if lo = hi then sorted ! lo
              else sorted ! lo + (idx - real lo) * (sorted ! hi - sorted ! lo))"

definition p95_index :: "nat \<Rightarrow> real" where
  "p95_index n = 95/100 * (real n - 1)"

lemma p95_index_bounds:
  assumes "0 < n"
  shows "0 \<le> p95_index n" "nat \<lfloor>p95_index n\<rfloor> \<le> nat \<lceil>p95_index n\<rceil>" "nat \<lceil>p95_index n\<rceil> < n"
    "real (nat \<lfloor>p95_index n\<rfloor>) \<le> p95_index n" "p95_index n \<le> real (nat \<lfloor>p95_index n\<rfloor>) + 1"
proof -
  show nonneg: "0 \<le> p95_index n" using assms by (simp add: p95_index_def)
  show "nat \<lfloor>p95_index n\<rfloor> \<le> nat \<lceil>p95_index n\<rceil>"
    by (intro nat_mono floor_le_ceiling)
  have "p95_index n \<le> real (n - 1)" using assms by (simp add: p95_index_def)
  then have "\<lceil>p95_index n\<rceil> \<le> int (n - 1)" by (simp add: ceiling_le_iff)
  then show "nat \<lceil>p95_index n\<rceil> < n" using assms by linarith
  show "real (nat \<lfloor>p95_index n\<rfloor>) \<le> p95_index n" "p95_index n \<le> real (nat \<lfloor>p95_index n\<rfloor>) + 1"
    using nonneg by linarith+
qed

text \<open>The result lies between two neighbouring order statistics.\<close>

lemma p95_between:
  assumes "values \<noteq> []"
  defines "lo \<equiv> nat \<lfloor>p95_index (length values)\<rfloor>" and "hi \<equiv> nat \<lceil>p95_index (length values)\<rceil>"
  shows "sort values ! lo \<le> p95 values" "p95 values \<le> sort values ! hi"
proof -
  let ?s = "sort values" and ?idx = "p95_index (length values)"
  have n: "0 < length values" using assms(1) by simp
  note idx = p95_index_bounds [OF n, folded lo_def hi_def]
  have le: "?s ! lo \<le> ?s ! hi" using idx by (intro sorted_nth_mono) simp_all
  have eq: "p95 values = (if lo = hi then ?s ! lo else ?s ! lo + (?idx - real lo) * (?s ! hi - ?s ! lo))"
    using assms(1) by (simp add: p95_def p95_index_def lo_def hi_def Let_def)
  have "0 \<le> (?idx - real lo) * (?s ! hi - ?s ! lo)" using le idx by simp
  then show "?s ! lo \<le> p95 values" by (simp add: eq)
  have "(?idx - real lo) * (?s ! hi - ?s ! lo) \<le> 1 * (?s ! hi - ?s ! lo)"
    using le idx by (intro mult_right_mono) simp_all
  then show "p95 values \<le> ?s ! hi" using le by (simp add: eq)
qed

lemma p95_mem_range:
  assumes "values \<noteq> []" "\<forall>v \<in> set values. a \<le> v \<and> v \<le> b"
  shows "a \<le> p95 values \<and> p95 values \<le> b"
proof -
  let ?n = "length values"
  have n: "0 < ?n" using assms(1) by simp
  have "nat \<lfloor>p95_index ?n\<rfloor> < ?n" "nat \<lceil>p95_index ?n\<rceil> < ?n"
    using p95_index_bounds(2,3) [OF n] by linarith+
  then have "sort values ! nat \<lfloor>p95_index ?n\<rfloor> \<in> set values" "sort values ! nat \<lceil>p95_index ?n\<rceil> \<in> set values"
    by (metis length_sort nth_mem set_sort)+
  with p95_between [OF assms(1)] assms(2) show ?thesis by (meson order_trans)
qed

lemma p95_mset_cong: "mset xs = mset ys \<Longrightarrow> p95 xs = p95 ys"
proof -
  assume eq: "mset xs = mset ys"
  then have "sort xs = sort ys"
    by (metis sorted_list_of_multiset_mset)
  moreover have "xs = [] \<longleftrightarrow> ys = []" using eq by (metis mset_zero_iff)
  ultimately show ?thesis by (simp add: p95_def)
qed

text \<open>At least the lower order statistic's rank many values are at most the percentile.\<close>

lemma sorted_nth_count:
  assumes "sorted xs" "i < length xs" "xs ! i \<le> t"
  shows "i + 1 \<le> length (filter (\<lambda>v. v \<le> t) xs)"
proof -
  have "\<forall>v \<in> set (take (i + 1) xs). v \<le> t"
  proof
    fix v assume "v \<in> set (take (i + 1) xs)"
    then obtain j where "j < i + 1" "j < length xs" "v = xs ! j"
      by (auto simp: in_set_conv_nth)
    then show "v \<le> t" using assms sorted_nth_mono [OF assms(1), of j i] by simp
  qed
  then have "filter (\<lambda>v. v \<le> t) (take (i + 1) xs) = take (i + 1) xs" by (simp add: filter_id_conv)
  moreover have "length (filter (\<lambda>v. v \<le> t) (take (i + 1) xs)) \<le> length (filter (\<lambda>v. v \<le> t) xs)"
    by (metis append_take_drop_id filter_append length_append le_add1)
  ultimately show ?thesis using assms(2) by simp
qed

lemma p95_rank:
  assumes "values \<noteq> []"
  shows "95/100 * (real (length values) - 1) < real (length (filter (\<lambda>v. v \<le> p95 values) values))"
proof -
  let ?n = "length values"
  let ?lo = "nat \<lfloor>p95_index ?n\<rfloor>"
  have n: "0 < ?n" using assms by simp
  have lo: "?lo < ?n" using p95_index_bounds(2,3) [OF n] by linarith
  have "?lo + 1 \<le> length (filter (\<lambda>v. v \<le> p95 values) (sort values))"
    using p95_between(1) [OF assms] lo by (intro sorted_nth_count) simp_all
  also have "length (filter (\<lambda>v. v \<le> p95 values) (sort values)) = length (filter (\<lambda>v. v \<le> p95 values) values)"
    by (metis filter_sort length_sort)
  finally have "real (?lo + 1) \<le> real (length (filter (\<lambda>v. v \<le> p95 values) values))"
    by (simp only: of_nat_le_iff)
  moreover have "p95_index ?n < real ?lo + 1"
    using p95_index_bounds(1) [OF n] by linarith
  ultimately show ?thesis by (simp add: p95_index_def)
qed

section \<open>Records of the stock burden\<close>

record P95Values =
  p95_branch :: real
  p95_nesting :: real
  p95_loc :: real
  p95_alpha :: real
  p95_oneMinusConnectedness :: real
  p95_externalPassthrough :: real

record CRLStateWeights =
  w_branch :: real
  w_nesting :: real
  w_loc :: real
  w_alpha :: real
  w_connectedness :: real
  w_externalPassthrough :: real

definition DEFAULT_CRL_STATE_WEIGHTS :: CRLStateWeights where
  "DEFAULT_CRL_STATE_WEIGHTS =
     \<lparr>w_branch = 20/100, w_nesting = 20/100, w_loc = 15/100, w_alpha = 15/100,
      w_connectedness = 15/100, w_externalPassthrough = 15/100\<rparr>"

record CRLStateInput =
  cs_maxFuncBranch :: "real option"
  cs_nestingDepth :: real
  cs_loc :: "real option"
  cs_declarationLoc :: "real option"
  cs_alphaStruct :: real
  cs_connectedness :: "real option"
  cs_singleCallSiteRatio :: "real option"
  cs_externalPassthroughCalls :: "real option"
  cs_passthroughCalls :: "real option"

record LocalBurdenInputs =
  lb_maxFuncBranch :: real
  lb_nestingDepth :: real
  lb_implementationLoc :: real
  lb_externalPassthroughCalls :: real

definition localBurdenInputsOf :: "CRLStateInput \<Rightarrow> LocalBurdenInputs" where
  "localBurdenInputsOf m =
     \<lparr>lb_maxFuncBranch = or_default (cs_maxFuncBranch m) 0,
      lb_nestingDepth = cs_nestingDepth m,
      lb_implementationLoc = max 0 (or_default (cs_loc m) 0 - or_default (cs_declarationLoc m) 0),
      lb_externalPassthroughCalls =
        or_default (or_option (cs_externalPassthroughCalls m) (cs_passthroughCalls m)) 0\<rparr>"

record CRLStateComponents =
  cc_branch :: real
  cc_nesting :: real
  cc_loc :: real
  cc_externalPassthrough :: real
  cc_alpha :: real
  cc_disconnectedness :: real

record CRLStateBreakdown =
  bd_localBurden :: real
  bd_exposure :: real
  bd_moduleShape :: real
  bd_composite :: real
  bd_components :: CRLStateComponents
  bd_singleCallSiteRatio :: "real option"

definition safeDiv :: "real \<Rightarrow> real \<Rightarrow> real" where
  "safeDiv v pval = (if pval > 0 then min 1 (v / pval) else 0)"

definition computeCRLStateBreakdown :: "CRLStateInput \<Rightarrow> P95Values \<Rightarrow> CRLStateWeights \<Rightarrow> CRLStateBreakdown" where
  "computeCRLStateBreakdown m p w =
     (let conn = or_default (cs_connectedness m) 1;
          local = localBurdenInputsOf m;
          components =
            \<lparr>cc_branch = w_branch w * safeDiv (lb_maxFuncBranch local) (p95_branch p),
             cc_nesting = w_nesting w * safeDiv (lb_nestingDepth local) (p95_nesting p),
             cc_loc = w_loc w * safeDiv (lb_implementationLoc local) (p95_loc p),
             cc_externalPassthrough =
               w_externalPassthrough w * safeDiv (lb_externalPassthroughCalls local) (p95_externalPassthrough p),
             cc_alpha = w_alpha w * safeDiv (cs_alphaStruct m) (p95_alpha p),
             cc_disconnectedness = w_connectedness w * safeDiv (1 - conn) (p95_oneMinusConnectedness p)\<rparr>;
          localBurden = cc_branch components + cc_nesting components + cc_loc components
                          + cc_externalPassthrough components;
          composite = localBurden + cc_alpha components + cc_disconnectedness components
      in \<lparr>bd_localBurden = localBurden, bd_exposure = cs_alphaStruct m, bd_moduleShape = 1 - conn,
          bd_composite = composite, bd_components = components,
          bd_singleCallSiteRatio = cs_singleCallSiteRatio m\<rparr>)"

definition computeCRLState :: "CRLStateInput \<Rightarrow> P95Values \<Rightarrow> CRLStateWeights \<Rightarrow> real" where
  "computeCRLState m p w = bd_composite (computeCRLStateBreakdown m p w)"

section \<open>Bounds\<close>

definition weights_nonneg :: "CRLStateWeights \<Rightarrow> bool" where
  "weights_nonneg w = (0 \<le> w_branch w \<and> 0 \<le> w_nesting w \<and> 0 \<le> w_loc w \<and> 0 \<le> w_alpha w
     \<and> 0 \<le> w_connectedness w \<and> 0 \<le> w_externalPassthrough w)"

definition weights_total :: "CRLStateWeights \<Rightarrow> real" where
  "weights_total w = w_branch w + w_nesting w + w_loc w + w_alpha w + w_connectedness w + w_externalPassthrough w"

definition metrics_nonneg :: "CRLStateInput \<Rightarrow> bool" where
  "metrics_nonneg m = (0 \<le> or_default (cs_maxFuncBranch m) 0 \<and> 0 \<le> cs_nestingDepth m
     \<and> 0 \<le> or_default (or_option (cs_externalPassthroughCalls m) (cs_passthroughCalls m)) 0
     \<and> 0 \<le> cs_alphaStruct m \<and> or_default (cs_connectedness m) 1 \<le> 1)"

lemma safeDiv_le_1: "safeDiv v p \<le> 1"
  by (simp add: safeDiv_def)

lemma safeDiv_nonneg [simp]: "0 \<le> v \<Longrightarrow> 0 \<le> safeDiv v p"
  by (simp add: safeDiv_def)

lemma safeDiv_mono:
  assumes "u \<le> v"
  shows "safeDiv u p \<le> safeDiv v p"
proof (cases "p > 0")
  case True
  then have "u / p \<le> v / p" using assms by (simp add: divide_right_mono)
  then show ?thesis unfolding safeDiv_def using True min.mono [OF order_refl] by auto
qed (simp add: safeDiv_def)

lemma safeDiv_below: "0 < p \<Longrightarrow> v \<le> p \<Longrightarrow> safeDiv v p = v / p"
  by (simp add: safeDiv_def min_def divide_le_eq)

lemma weighted_safeDiv:
  "0 \<le> w \<Longrightarrow> w * safeDiv v p \<le> w" "0 \<le> w \<Longrightarrow> 0 \<le> v \<Longrightarrow> 0 \<le> w * safeDiv v p"
  by (simp_all add: mult_left_le safeDiv_le_1)

lemma localBurden_bounds:
  assumes "weights_nonneg w" "metrics_nonneg m"
  shows "0 \<le> bd_localBurden (computeCRLStateBreakdown m p w)"
    "bd_localBurden (computeCRLStateBreakdown m p w)
       \<le> w_branch w + w_nesting w + w_loc w + w_externalPassthrough w"
  using assms
  by (auto simp: computeCRLStateBreakdown_def localBurdenInputsOf_def Let_def weights_nonneg_def
      metrics_nonneg_def intro!: add_nonneg_nonneg add_mono weighted_safeDiv)

lemma composite_eq:
  "bd_composite (computeCRLStateBreakdown m p w) = bd_localBurden (computeCRLStateBreakdown m p w)
     + w_alpha w * safeDiv (cs_alphaStruct m) (p95_alpha p)
     + w_connectedness w * safeDiv (1 - or_default (cs_connectedness m) 1) (p95_oneMinusConnectedness p)"
  by (simp add: computeCRLStateBreakdown_def Let_def)

lemma composite_bounds:
  assumes "weights_nonneg w" "metrics_nonneg m"
  shows "0 \<le> bd_composite (computeCRLStateBreakdown m p w)"
    "bd_composite (computeCRLStateBreakdown m p w) \<le> weights_total w"
proof -
  let ?a = "w_alpha w * safeDiv (cs_alphaStruct m) (p95_alpha p)"
  let ?d = "w_connectedness w * safeDiv (1 - or_default (cs_connectedness m) 1) (p95_oneMinusConnectedness p)"
  have "0 \<le> ?a" "?a \<le> w_alpha w" "0 \<le> ?d" "?d \<le> w_connectedness w"
    using assms by (auto simp: weights_nonneg_def metrics_nonneg_def intro!: weighted_safeDiv)
  with localBurden_bounds [OF assms, of p]
  show "0 \<le> bd_composite (computeCRLStateBreakdown m p w)"
    "bd_composite (computeCRLStateBreakdown m p w) \<le> weights_total w"
    by (simp_all add: composite_eq weights_total_def)
qed

lemma weights_total_default: "weights_total DEFAULT_CRL_STATE_WEIGHTS = 1"
  by (simp add: weights_total_def DEFAULT_CRL_STATE_WEIGHTS_def)

lemma weights_nonneg_default: "weights_nonneg DEFAULT_CRL_STATE_WEIGHTS"
  by (simp add: weights_nonneg_def DEFAULT_CRL_STATE_WEIGHTS_def)

text \<open>The gate's signal grows with each of its four inputs.\<close>

definition burden_le :: "LocalBurdenInputs \<Rightarrow> LocalBurdenInputs \<Rightarrow> bool" where
  "burden_le a b = (lb_maxFuncBranch a \<le> lb_maxFuncBranch b \<and> lb_nestingDepth a \<le> lb_nestingDepth b
     \<and> lb_implementationLoc a \<le> lb_implementationLoc b
     \<and> lb_externalPassthroughCalls a \<le> lb_externalPassthroughCalls b)"

lemma localBurden_mono:
  assumes "weights_nonneg w" "burden_le (localBurdenInputsOf m) (localBurdenInputsOf m')"
  shows "bd_localBurden (computeCRLStateBreakdown m p w) \<le> bd_localBurden (computeCRLStateBreakdown m' p w)"
  using assms
  by (auto simp: computeCRLStateBreakdown_def Let_def weights_nonneg_def burden_le_def
      intro!: add_mono mult_left_mono safeDiv_mono)

lemma localBurden_cong:
  assumes "localBurdenInputsOf m = localBurdenInputsOf m'"
  shows "bd_localBurden (computeCRLStateBreakdown m p w) = bd_localBurden (computeCRLStateBreakdown m' p w)"
  using assms by (simp add: computeCRLStateBreakdown_def Let_def)

section \<open>Properties\<close>

text \<open>The percentile lies between the smallest and the largest value, does not depend on the
  order of the values, and fewer than a twentieth of the gaps between ranks lie above it.\<close>

theorem p95_is_percentile:
  assumes "values \<noteq> []"
  shows "Min (set values) \<le> p95 values \<and> p95 values \<le> Max (set values)
    \<and> 95/100 * (real (length values) - 1) < real (length (filter (\<lambda>v. v \<le> p95 values) values))
    \<and> (\<forall>ys. mset ys = mset values \<longrightarrow> p95 ys = p95 values)"
proof -
  have "Min (set values) \<le> p95 values \<and> p95 values \<le> Max (set values)"
    using assms by (intro p95_mem_range) simp_all
  with p95_rank [OF assms] p95_mset_cong show ?thesis by blast
qed

theorem p95_is_percentile_witness: "p95 [3, 1, 2] = 29/10 \<and> 1 \<le> p95 [3, 1, 2] \<and> p95 [3, 1, 2] \<le> 3"
proof -
  have "\<lfloor>19 / 10 :: real\<rfloor> = 1" "\<lceil>19 / 10 :: real\<rceil> = 2" by linarith+
  then show ?thesis using p95_is_percentile [of "[3, 1, 2]"] by (simp add: p95_def)
qed

text \<open>With weights and metrics that are not negative the composite burden of a file lies
  between 0 and the sum of the weights (1 for the default weights), the gate's part of it depends
  on its four inputs only, and raising any of the four never lowers it.\<close>

theorem stock_burden_bounds:
  assumes "weights_nonneg w" "metrics_nonneg m"
  shows "0 \<le> computeCRLState m p w \<and> computeCRLState m p w \<le> weights_total w
    \<and> bd_localBurden (computeCRLStateBreakdown m p w) \<le> bd_composite (computeCRLStateBreakdown m p w)
    \<and> (\<forall>m'. burden_le (localBurdenInputsOf m) (localBurdenInputsOf m') \<longrightarrow>
          bd_localBurden (computeCRLStateBreakdown m p w) \<le> bd_localBurden (computeCRLStateBreakdown m' p w))"
proof -
  have "0 \<le> w_alpha w * safeDiv (cs_alphaStruct m) (p95_alpha p)"
    "0 \<le> w_connectedness w * safeDiv (1 - or_default (cs_connectedness m) 1) (p95_oneMinusConnectedness p)"
    using assms by (auto simp: weights_nonneg_def metrics_nonneg_def intro!: weighted_safeDiv)
  then have "bd_localBurden (computeCRLStateBreakdown m p w) \<le> bd_composite (computeCRLStateBreakdown m p w)"
    by (simp add: composite_eq)
  then show ?thesis
    using composite_bounds [OF assms] localBurden_mono [OF assms(1)] by (simp add: computeCRLState_def)
qed

definition sample_metrics :: CRLStateInput where
  "sample_metrics = \<lparr>cs_maxFuncBranch = Some 5, cs_nestingDepth = 2, cs_loc = Some 100, cs_declarationLoc = None,
     cs_alphaStruct = 1/2, cs_connectedness = Some (1/2), cs_singleCallSiteRatio = None,
     cs_externalPassthroughCalls = None, cs_passthroughCalls = Some 4\<rparr>"

definition sample_p95 :: P95Values where
  "sample_p95 = \<lparr>p95_branch = 10, p95_nesting = 4, p95_loc = 50, p95_alpha = 1,
     p95_oneMinusConnectedness = 1, p95_externalPassthrough = 0\<rparr>"

theorem stock_burden_bounds_witness:
  "computeCRLState sample_metrics sample_p95 DEFAULT_CRL_STATE_WEIGHTS = 1/2
   \<and> computeCRLState sample_metrics sample_p95 DEFAULT_CRL_STATE_WEIGHTS \<le> 1"
proof -
  have "metrics_nonneg sample_metrics" by (simp add: metrics_nonneg_def sample_metrics_def)
  with stock_burden_bounds [OF weights_nonneg_default this, of sample_p95]
  have "computeCRLState sample_metrics sample_p95 DEFAULT_CRL_STATE_WEIGHTS \<le> 1"
    by (simp add: weights_total_default)
  moreover have "computeCRLState sample_metrics sample_p95 DEFAULT_CRL_STATE_WEIGHTS = 1/2"
    by (simp add: computeCRLState_def computeCRLStateBreakdown_def localBurdenInputsOf_def sample_metrics_def sample_p95_def
        DEFAULT_CRL_STATE_WEIGHTS_def safeDiv_def Let_def)
  ultimately show ?thesis by blast
qed

end
