(* ===== verification/Mr_Diagnosis.thy ===== *)
theory Mr_Diagnosis
  imports Crl_State
begin

text \<open>
  The diagnosis of one change (\<open>mrDiagnosis.ts\<close>): per metric before, after and weighted
  normalised delta, with deterioration and improvement summed apart. The loop over the four
  metrics is a fold whose state is the metric record built so far and the two sums.
\<close>

section \<open>Data\<close>

datatype MRChangeScope = sc_existing | sc_introduced | sc_existing_unavailable

datatype MRBeforeSource = bs_git | bs_baseline | bs_introduced | bs_unavailable

datatype MRLocalMetric = m_branch | m_nesting | m_loc | m_externalPassthrough

record MRLocalMetricDelta =
  md_before :: "real option"
  md_after :: real
  md_delta :: "real option"
  md_normalizedDelta :: "real option"

record MRLocalBurdenDiagnosis =
  mb_metrics :: "(MRLocalMetric, MRLocalMetricDelta) jmap"
  mb_deterioration :: real
  mb_improvement :: real

record MRExposureDiagnosis =
  me_before :: "real option"
  me_after :: real
  me_delta :: "real option"

record MRShapeDiagnosis =
  ms_connectednessBefore :: "real option"
  ms_connectednessAfter :: "real option"
  ms_moduleShapeDelta :: "real option"
  ms_functionCountDelta :: "real option"
  ms_singleCallSiteRatioDelta :: "real option"

record MRDiagnosis =
  mr_file :: string
  mr_scope :: MRChangeScope
  mr_beforeSource :: MRBeforeSource
  mr_localBurden :: MRLocalBurdenDiagnosis
  mr_exposure :: MRExposureDiagnosis
  mr_shape :: MRShapeDiagnosis

text \<open>\<open>mi_alphaStruct\<close> is the optional field the input adds to the metrics before the change.\<close>

record MRLocalMetricsInput =
  mi_maxFuncBranch :: "real option"
  mi_branchCount :: "real option"
  mi_nestingDepth :: "real option"
  mi_loc :: "real option"
  mi_externalPassthroughCalls :: "real option"
  mi_passthroughCalls :: "real option"
  mi_connectedness :: "real option"
  mi_functionCount :: "real option"
  mi_singleCallSiteRatio :: "real option"

record MRDiagnosisInput =
  mri_file :: string
  mri_before :: "MRLocalMetricsInput option"
  mri_before_alphaStruct :: "real option"
  mri_beforeSource :: "MRBeforeSource option"
  mri_beforeAlpha :: "real option"
  mri_after :: MRLocalMetricsInput
  mri_after_alphaStruct :: real
  mri_p95 :: "P95Values option"
  mri_weights :: CRLStateWeights

section \<open>Computation\<close>

fun valuesFor :: "MRLocalMetricsInput \<Rightarrow> MRLocalMetric \<Rightarrow> real" where
  "valuesFor i m_branch = or_default (or_option (mi_maxFuncBranch i) (mi_branchCount i)) 0"
| "valuesFor i m_nesting = or_default (mi_nestingDepth i) 0"
| "valuesFor i m_loc = or_default (mi_loc i) 0"
| "valuesFor i m_externalPassthrough =
     or_default (or_option (mi_externalPassthroughCalls i) (mi_passthroughCalls i)) 0"

fun p95For :: "P95Values \<Rightarrow> MRLocalMetric \<Rightarrow> real" where
  "p95For p m_branch = p95_branch p"
| "p95For p m_nesting = p95_nesting p"
| "p95For p m_loc = p95_loc p"
| "p95For p m_externalPassthrough = p95_externalPassthrough p"

fun weightFor :: "CRLStateWeights \<Rightarrow> MRLocalMetric \<Rightarrow> real" where
  "weightFor w m_branch = w_branch w"
| "weightFor w m_nesting = w_nesting w"
| "weightFor w m_loc = w_loc w"
| "weightFor w m_externalPassthrough = w_externalPassthrough w"

definition MR_METRICS :: "MRLocalMetric list" where
  "MR_METRICS = [m_branch, m_nesting, m_loc, m_externalPassthrough]"

definition mr_beforeSourceOf :: "MRDiagnosisInput \<Rightarrow> MRBeforeSource" where
  "mr_beforeSourceOf i = or_default (mri_beforeSource i)
     (case mri_before i of None \<Rightarrow> bs_introduced | Some _ \<Rightarrow> bs_git)"

definition mr_isComparable :: "MRDiagnosisInput \<Rightarrow> bool" where
  "mr_isComparable i = (mri_before i \<noteq> None
     \<and> (mr_beforeSourceOf i = bs_git \<or> mr_beforeSourceOf i = bs_baseline))"

definition mr_comparableBefore :: "MRDiagnosisInput \<Rightarrow> MRLocalMetricsInput option" where
  "mr_comparableBefore i = (if mr_isComparable i then mri_before i else None)"

definition mr_metricDelta :: "MRDiagnosisInput \<Rightarrow> MRLocalMetric \<Rightarrow> MRLocalMetricDelta" where
  "mr_metricDelta i metric =
     (let before = map_option (\<lambda>b. valuesFor b metric) (mr_comparableBefore i);
          after = valuesFor (mri_after i) metric;
          delta = map_option (\<lambda>b. after - b) before;
          denominator = (case mri_p95 i of None \<Rightarrow> 0 | Some p \<Rightarrow> p95For p metric);
          normalizedDelta = (case delta of None \<Rightarrow> None
             | Some d \<Rightarrow> if denominator > 0 then Some (weightFor (mri_weights i) metric * d / denominator) else None)
      in \<lparr>md_before = before, md_after = after, md_delta = delta, md_normalizedDelta = normalizedDelta\<rparr>)"

definition mr_step :: "MRDiagnosisInput \<Rightarrow> MRLocalBurdenDiagnosis \<Rightarrow> MRLocalMetric \<Rightarrow> MRLocalBurdenDiagnosis" where
  "mr_step i s metric =
     (let d = mr_metricDelta i metric;
          s' = s\<lparr>mb_metrics := map_set (mb_metrics s) metric d\<rparr>
      in case md_normalizedDelta d of None \<Rightarrow> s'
         | Some n \<Rightarrow> s'\<lparr>mb_deterioration := mb_deterioration s + (if n > 0 then n else 0),
                       mb_improvement := mb_improvement s + (if n < 0 then - n else 0)\<rparr>)"

definition mr_localBurdenOf :: "MRDiagnosisInput \<Rightarrow> MRLocalBurdenDiagnosis" where
  "mr_localBurdenOf i =
     foldl (mr_step i) \<lparr>mb_metrics = [], mb_deterioration = 0, mb_improvement = 0\<rparr> MR_METRICS"

definition lift2 :: "('a \<Rightarrow> 'b \<Rightarrow> 'c) \<Rightarrow> 'a option \<Rightarrow> 'b option \<Rightarrow> 'c option" where
  "lift2 f a b = (case a of None \<Rightarrow> None | Some x \<Rightarrow> map_option (f x) b)"

definition computeMRDiagnosis :: "MRDiagnosisInput \<Rightarrow> MRDiagnosis" where
  "computeMRDiagnosis i =
     (let beforeSource = mr_beforeSourceOf i;
          beforeAlpha = (if mr_isComparable i then or_option (mri_beforeAlpha i) (mri_before_alphaStruct i) else None);
          before_of = (\<lambda>f. Option.bind (mr_comparableBefore i) f);
          connectednessBefore = before_of mi_connectedness;
          connectednessAfter = mi_connectedness (mri_after i)
      in \<lparr>mr_file = mri_file i,
          mr_scope = (if beforeSource = bs_introduced then sc_introduced
                      else if beforeSource = bs_unavailable then sc_existing_unavailable else sc_existing),
          mr_beforeSource = beforeSource,
          mr_localBurden = mr_localBurdenOf i,
          mr_exposure = \<lparr>me_before = beforeAlpha, me_after = mri_after_alphaStruct i,
             me_delta = map_option (\<lambda>a. mri_after_alphaStruct i - a) beforeAlpha\<rparr>,
          mr_shape = \<lparr>ms_connectednessBefore = connectednessBefore, ms_connectednessAfter = connectednessAfter,
             ms_moduleShapeDelta = lift2 (\<lambda>b a. (1 - a) - (1 - b)) connectednessBefore connectednessAfter,
             ms_functionCountDelta =
               lift2 (\<lambda>b a. a - b) (before_of mi_functionCount) (mi_functionCount (mri_after i)),
             ms_singleCallSiteRatioDelta =
               lift2 (\<lambda>b a. a - b) (before_of mi_singleCallSiteRatio) (mi_singleCallSiteRatio (mri_after i))\<rparr>\<rparr>)"

section \<open>Conservation\<close>

lemma lift2_simps [simp]: "lift2 f None b = None" "lift2 f a None = None" "lift2 f (Some x) (Some y) = Some (f x y)"
  by (simp_all add: lift2_def split: option.splits)

definition pos_part :: "real option \<Rightarrow> real" where
  "pos_part n = (case n of None \<Rightarrow> 0 | Some x \<Rightarrow> max 0 x)"

definition neg_part :: "real option \<Rightarrow> real" where
  "neg_part n = (case n of None \<Rightarrow> 0 | Some x \<Rightarrow> max 0 (- x))"

lemma parts [simp]: "0 \<le> pos_part n" "0 \<le> neg_part n" "pos_part n - neg_part n = or_default n 0"
  by (auto simp: pos_part_def neg_part_def split: option.splits)

lemma pos_neg_disjoint: "pos_part n = 0 \<or> neg_part n = 0"
  by (auto simp: pos_part_def neg_part_def max_def split: option.splits)

lemma mr_step_sums:
  "mb_deterioration (mr_step i s m) = mb_deterioration s + pos_part (md_normalizedDelta (mr_metricDelta i m))"
  "mb_improvement (mr_step i s m) = mb_improvement s + neg_part (md_normalizedDelta (mr_metricDelta i m))"
  "mb_metrics (mr_step i s m) = map_set (mb_metrics s) m (mr_metricDelta i m)"
  by (auto simp: mr_step_def Let_def pos_part_def neg_part_def split: option.splits)

lemma foldl_mr_step:
  "mb_deterioration (foldl (mr_step i) s ms)
     = mb_deterioration s + sum_list (map (\<lambda>m. pos_part (md_normalizedDelta (mr_metricDelta i m))) ms)"
  "mb_improvement (foldl (mr_step i) s ms)
     = mb_improvement s + sum_list (map (\<lambda>m. neg_part (md_normalizedDelta (mr_metricDelta i m))) ms)"
  "map_of (mb_metrics (foldl (mr_step i) s ms))
     = (\<lambda>m. if m \<in> set ms then Some (mr_metricDelta i m) else map_of (mb_metrics s) m)"
  by (induction ms arbitrary: s) (auto simp: mr_step_sums fun_eq_iff)

lemma set_MR_METRICS [simp]: "set MR_METRICS = UNIV"
proof -
  have "m \<in> set MR_METRICS" for m by (cases m) (simp_all add: MR_METRICS_def)
  then show ?thesis by auto
qed

lemma mr_localBurden_sums:
  "mb_deterioration (mr_localBurdenOf i) = sum_list (map (\<lambda>m. pos_part (md_normalizedDelta (mr_metricDelta i m))) MR_METRICS)"
  "mb_improvement (mr_localBurdenOf i) = sum_list (map (\<lambda>m. neg_part (md_normalizedDelta (mr_metricDelta i m))) MR_METRICS)"
  "map_of (mb_metrics (mr_localBurdenOf i)) m = Some (mr_metricDelta i m)"
  by (simp_all add: mr_localBurdenOf_def foldl_mr_step)

lemma computeMRDiagnosis_localBurden [simp]: "mr_localBurden (computeMRDiagnosis i) = mr_localBurdenOf i"
  by (simp add: computeMRDiagnosis_def Let_def)

lemma mr_parts_nonneg:
  "0 \<le> mb_deterioration (mr_localBurdenOf i)" "0 \<le> mb_improvement (mr_localBurdenOf i)"
  by (auto simp: mr_localBurden_sums intro!: sum_list_nonneg)

lemma mr_net:
  "mb_deterioration (mr_localBurdenOf i) - mb_improvement (mr_localBurdenOf i)
     = sum_list (map (\<lambda>m. or_default (md_normalizedDelta (mr_metricDelta i m)) 0) MR_METRICS)"
proof -
  have "sum_list (map (\<lambda>m. pos_part (f m)) ms) - sum_list (map (\<lambda>m. neg_part (f m)) ms)
      = sum_list (map (\<lambda>m. or_default (f m) 0) ms)" for f and ms :: "MRLocalMetric list"
  proof (induction ms)
    case (Cons m ms)
    then show ?case using parts(3) [of "f m"] by (simp add: algebra_simps del: parts(3))
  qed simp
  then show ?thesis by (simp add: mr_localBurden_sums)
qed

lemma mr_incomparable:
  assumes "\<not> mr_isComparable i"
  shows "md_normalizedDelta (mr_metricDelta i m) = None" "md_delta (mr_metricDelta i m) = None"
    "mb_deterioration (mr_localBurdenOf i) = 0" "mb_improvement (mr_localBurdenOf i) = 0"
  using assms
  by (simp_all add: mr_metricDelta_def mr_comparableBefore_def mr_localBurden_sums pos_part_def
      neg_part_def MR_METRICS_def Let_def)

text \<open>
  Where the stock burden is below its percentiles and both burdens measure the same values,
  the net diagnosis is the difference of the two stock burdens.
\<close>

definition mr_input_of :: "CRLStateInput \<Rightarrow> MRLocalMetricsInput" where
  "mr_input_of m = \<lparr>mi_maxFuncBranch = cs_maxFuncBranch m, mi_branchCount = None,
     mi_nestingDepth = Some (cs_nestingDepth m), mi_loc = cs_loc m,
     mi_externalPassthroughCalls = cs_externalPassthroughCalls m, mi_passthroughCalls = cs_passthroughCalls m,
     mi_connectedness = cs_connectedness m, mi_functionCount = None,
     mi_singleCallSiteRatio = cs_singleCallSiteRatio m\<rparr>"

definition unclipped :: "P95Values \<Rightarrow> CRLStateInput \<Rightarrow> bool" where
  "unclipped p m =
     (let l = localBurdenInputsOf m in
       0 < p95_branch p \<and> lb_maxFuncBranch l \<le> p95_branch p
     \<and> 0 < p95_nesting p \<and> lb_nestingDepth l \<le> p95_nesting p
     \<and> 0 < p95_loc p \<and> lb_implementationLoc l \<le> p95_loc p
     \<and> 0 < p95_externalPassthrough p \<and> lb_externalPassthroughCalls l \<le> p95_externalPassthrough p)"

lemma mr_metricDelta_of:
  assumes "mri_before i = Some (mr_input_of b)" "mr_isComparable i" "mri_after i = mr_input_of a"
    and "mri_p95 i = Some p" "0 < p95For p m"
  shows "md_normalizedDelta (mr_metricDelta i m)
    = Some (weightFor (mri_weights i) m * (valuesFor (mr_input_of a) m - valuesFor (mr_input_of b) m) / p95For p m)"
  using assms by (simp add: mr_metricDelta_def mr_comparableBefore_def Let_def)

lemma stock_localBurden_unclipped:
  assumes "unclipped p m" "or_default (cs_declarationLoc m) 0 = 0" "0 \<le> or_default (cs_loc m) 0"
  shows "bd_localBurden (computeCRLStateBreakdown m p w)
    = sum_list (map (\<lambda>k. weightFor w k * (valuesFor (mr_input_of m) k / p95For p k)) MR_METRICS)"
  using assms
  by (simp add: computeCRLStateBreakdown_def unclipped_def safeDiv_below localBurdenInputsOf_def
      MR_METRICS_def mr_input_of_def Let_def)

lemma mr_net_is_burden_difference:
  assumes "mri_before i = Some (mr_input_of b)" "mr_isComparable i" "mri_after i = mr_input_of a"
    and "mri_p95 i = Some p" "unclipped p a" "unclipped p b"
    and "or_default (cs_declarationLoc a) 0 = 0" "or_default (cs_declarationLoc b) 0 = 0"
    and "0 \<le> or_default (cs_loc a) 0" "0 \<le> or_default (cs_loc b) 0"
  shows "mb_deterioration (mr_localBurdenOf i) - mb_improvement (mr_localBurdenOf i)
    = bd_localBurden (computeCRLStateBreakdown a p (mri_weights i))
      - bd_localBurden (computeCRLStateBreakdown b p (mri_weights i))"
proof -
  have "0 < p95For p m" for m using assms(5) by (cases m) (simp_all add: unclipped_def Let_def)
  then have "or_default (md_normalizedDelta (mr_metricDelta i m)) 0
      = weightFor (mri_weights i) m * (valuesFor (mr_input_of a) m / p95For p m)
        - weightFor (mri_weights i) m * (valuesFor (mr_input_of b) m / p95For p m)" for m
    using assms(1-4) by (simp add: mr_metricDelta_of diff_divide_distrib right_diff_distrib)
  then show ?thesis
    unfolding mr_net stock_localBurden_unclipped [OF assms(5,7,9)] stock_localBurden_unclipped [OF assms(6,8,10)]
    by (simp add: MR_METRICS_def)
qed

section \<open>Properties\<close>

text \<open>The diagnosis of a change agrees with the stock burden: where both versions stay at or
  below the percentiles and no line of theirs is a declaration line, deterioration minus
  improvement is exactly the difference of the two local burdens.\<close>

theorem diagnosis_is_burden_difference:
  assumes "mri_before i = Some (mr_input_of b)" "mr_isComparable i" "mri_after i = mr_input_of a"
    and "mri_p95 i = Some p" "unclipped p a" "unclipped p b"
    and "or_default (cs_declarationLoc a) 0 = 0" "or_default (cs_declarationLoc b) 0 = 0"
    and "0 \<le> or_default (cs_loc a) 0" "0 \<le> or_default (cs_loc b) 0"
  shows "mb_deterioration (mr_localBurden (computeMRDiagnosis i)) - mb_improvement (mr_localBurden (computeMRDiagnosis i))
    = bd_localBurden (computeCRLStateBreakdown a p (mri_weights i))
      - bd_localBurden (computeCRLStateBreakdown b p (mri_weights i))"
  using mr_net_is_burden_difference [OF assms] by simp

definition sample_before :: CRLStateInput where
  "sample_before = \<lparr>cs_maxFuncBranch = Some 5, cs_nestingDepth = 2, cs_loc = Some 50, cs_declarationLoc = None,
     cs_alphaStruct = 1/2, cs_connectedness = None, cs_singleCallSiteRatio = None,
     cs_externalPassthroughCalls = Some 0, cs_passthroughCalls = None\<rparr>"

definition sample_bounds :: P95Values where
  "sample_bounds = \<lparr>p95_branch = 10, p95_nesting = 4, p95_loc = 100, p95_alpha = 1,
     p95_oneMinusConnectedness = 1, p95_externalPassthrough = 10\<rparr>"

definition sample_change :: MRDiagnosisInput where
  "sample_change = \<lparr>mri_file = ''a.ts'', mri_before = Some (mr_input_of sample_before), mri_before_alphaStruct = None,
     mri_beforeSource = None, mri_beforeAlpha = None,
     mri_after = mr_input_of (sample_before\<lparr>cs_maxFuncBranch := Some 7, cs_nestingDepth := 1\<rparr>),
     mri_after_alphaStruct = 1/2, mri_p95 = Some sample_bounds, mri_weights = DEFAULT_CRL_STATE_WEIGHTS\<rparr>"

theorem diagnosis_is_burden_difference_witness:
  "mb_deterioration (mr_localBurden (computeMRDiagnosis sample_change))
     - mb_improvement (mr_localBurden (computeMRDiagnosis sample_change)) = - 1/100"
  by (subst diagnosis_is_burden_difference [of sample_change sample_before
      "sample_before\<lparr>cs_maxFuncBranch := Some 7, cs_nestingDepth := 1\<rparr>" sample_bounds])
    (simp_all add: sample_change_def sample_before_def sample_bounds_def unclipped_def mr_isComparable_def mr_beforeSourceOf_def
      localBurdenInputsOf_def computeCRLStateBreakdown_def DEFAULT_CRL_STATE_WEIGHTS_def safeDiv_def Let_def)

text \<open>The two computations part on a file with declaration lines: the stock burden subtracts
  them, the diagnosis counts every line, so moving twenty lines into declarations leaves the
  diagnosis unchanged while the burden that the gate judges falls.\<close>

theorem diagnosis_ignores_declaration_lines:
  "localBurdenInputsOf (sample_before\<lparr>cs_declarationLoc := Some 20\<rparr>) \<noteq> localBurdenInputsOf sample_before
   \<and> valuesFor (mr_input_of (sample_before\<lparr>cs_declarationLoc := Some 20\<rparr>)) = valuesFor (mr_input_of sample_before)
   \<and> bd_localBurden (computeCRLStateBreakdown (sample_before\<lparr>cs_declarationLoc := Some 20\<rparr>) sample_bounds DEFAULT_CRL_STATE_WEIGHTS)
     < bd_localBurden (computeCRLStateBreakdown sample_before sample_bounds DEFAULT_CRL_STATE_WEIGHTS)"
  by (simp add: localBurdenInputsOf_def sample_before_def sample_bounds_def mr_input_of_def computeCRLStateBreakdown_def
      DEFAULT_CRL_STATE_WEIGHTS_def safeDiv_def Let_def)

end
