(* ===== verification/Ast.thy ===== *)
theory Ast
  imports Js_Prelude
begin

text \<open>
  The parsed snapshot of one source file (\<open>ast.ts\<close>): imports, declarations, functions and
  file metrics. Optional fields are options; \<open>resolvedPath: string | null\<close> is an option too.
\<close>

datatype Language = typescript | javascript | vue | go | rust | python | java

definition LANGUAGES :: "Language list" where
  "LANGUAGES = [typescript, javascript, vue, go, rust, python, java]"

record ImportRef =
  ir_resolvedPath :: "string option"
  ir_source :: string
  ir_reexport :: bool \<comment> \<open>\<open>relation === "reexport"\<close>\<close>

record ExportedSymbol =
  es_name :: string

datatype SemanticDeclarationKind = dk_interface | dk_class | dk_function | dk_field

record SemanticDeclaration =
  sd_id :: string
  sd_kind :: SemanticDeclarationKind
  sd_isPublic :: bool
  sd_additive :: bool \<comment> \<open>\<open>contractCompatibility === "additive"\<close>\<close>
  sd_reexport :: bool \<comment> \<open>\<open>provenance === "reexport"\<close>\<close>
  sd_signature :: string
  sd_body :: "string option"

record SemanticSurface =
  ss_declarations :: "SemanticDeclaration list"
  ss_unsupportedTopLevel :: "string list"

record MaxFuncBranchOwner =
  mo_name :: string
  mo_line :: "nat option"
  mo_weighted :: real
  mo_ordinaryIf :: nat
  mo_guardIf :: nat
  mo_caseCount :: nat

record FunctionInfo =
  fi_name :: string
  fi_line :: "nat option"
  fi_branchCount :: real
  fi_calls :: "string list"
  fi_callCounts :: "(string, int) jmap option"
  fi_ordinaryBranches :: "nat option"
  fi_guardBranches :: "nat option"
  fi_caseBranches :: "nat option"

record FileAst =
  fa_path :: string
  fa_language :: Language
  fa_branchCount :: real
  fa_weightedBranchTotal :: "real option"
  fa_topLevelWeightedBranch :: "real option"
  fa_nestingDepth :: real
  fa_functionCount :: real
  fa_passthroughCalls :: real
  fa_imports :: "ImportRef list"
  fa_exportedSymbols :: "ExportedSymbol list option"
  fa_semanticSurface :: "SemanticSurface option"
  fa_loc :: "real option"
  fa_declarationLoc :: "real option"
  fa_maxFuncBranch :: "real option"
  fa_externalPassthroughCalls :: "real option"
  fa_functions :: "FunctionInfo list"

lemma set_LANGUAGES [simp]: "set LANGUAGES = UNIV"
proof -
  have "l \<in> set LANGUAGES" for l by (cases l) (simp_all add: LANGUAGES_def)
  then show ?thesis by auto
qed

lemma distinct_LANGUAGES [simp]: "distinct LANGUAGES"
  by (simp add: LANGUAGES_def)

end
