(* ===== verification/Graph.thy ===== *)
theory Graph
  imports Ast
begin

text \<open>
  The dependency graph between files (\<open>graph.ts\<close>) and the number of files within a bounded
  number of steps (\<open>reach.ts\<close>). The graph is a \<open>Map\<close> from a path key to the list of the
  keys it depends on. \<open>absolutePathKey\<close> is the argument \<open>key\<close>.
\<close>

type_synonym DependencyGraph = "(string, string list) jmap"

record ImplicitEdge =
  ie_from :: string
  ie_to :: string
  ie_via :: string
  ie_type :: string

section \<open>Construction\<close>

definition addImplicitEdge :: "string list \<Rightarrow> (string \<Rightarrow> string) \<Rightarrow> DependencyGraph \<Rightarrow> ImplicitEdge \<Rightarrow> DependencyGraph" where
  "addImplicitEdge knownPaths key graph edge =
     (let from = key (ie_from edge); to = key (ie_to edge) in
      if from \<in> set knownPaths \<and> to \<in> set knownPaths then
        let graph1 = (case map_get graph from of
              None \<Rightarrow> graph
            | Some deps \<Rightarrow> if to \<in> set deps then graph else map_set graph from (deps @ [to]))
        in if map_has graph1 to then graph1 else map_set graph1 to []
      else graph)"

definition addImplicitEdges ::
  "DependencyGraph \<Rightarrow> string list \<Rightarrow> ImplicitEdge list option \<Rightarrow> (string \<Rightarrow> string) \<Rightarrow> DependencyGraph" where
  "addImplicitEdges graph knownPaths implicitDeps key =
     (case implicitDeps of None \<Rightarrow> graph | Some es \<Rightarrow> foldl (addImplicitEdge knownPaths key) graph es)"

text \<open>The import targets of one file that are known files, in order, repetitions kept.\<close>

definition importTargets :: "(string \<Rightarrow> string) \<Rightarrow> string list \<Rightarrow> FileAst \<Rightarrow> string list" where
  "importTargets key knownPaths ast =
     filter (\<lambda>rp. rp \<in> set knownPaths) (map key (present (map ir_resolvedPath (fa_imports ast))))"

definition addImports :: "(string \<Rightarrow> string) \<Rightarrow> string list \<Rightarrow> DependencyGraph \<Rightarrow> FileAst \<Rightarrow> DependencyGraph" where
  "addImports key knownPaths graph ast =
     map_set graph (key (fa_path ast))
       (or_default (map_get graph (key (fa_path ast))) [] @ importTargets key knownPaths ast)"

definition buildDependencyGraph ::
  "FileAst list \<Rightarrow> ImplicitEdge list option \<Rightarrow> (string \<Rightarrow> string) \<Rightarrow> DependencyGraph" where
  "buildDependencyGraph asts implicitDeps key =
     (let knownPaths = uniq (map (\<lambda>a. key (fa_path a)) asts);
          graph0 = foldl (\<lambda>g a. map_set g (key (fa_path a)) []) [] asts;
          graph1 = foldl (addImports key knownPaths) graph0 asts
      in addImplicitEdges graph1 knownPaths implicitDeps key)"

definition buildDependencyGraphFromEdges ::
  "DependencyGraph \<Rightarrow> ImplicitEdge list option \<Rightarrow> DependencyGraph" where
  "buildDependencyGraphFromEdges edges implicitDeps =
     (let knownPaths = map_keys edges;
          graph = foldl (\<lambda>g (node, deps). map_set g node deps) [] edges
      in addImplicitEdges graph knownPaths implicitDeps (\<lambda>p. p))"

section \<open>Degrees and reverse edges\<close>

definition count_dep :: "(string, nat) jmap \<Rightarrow> string \<Rightarrow> (string, nat) jmap" where
  "count_dep inDegree dep = map_set inDegree dep (or_default (map_get inDegree dep) 0 + 1)"

definition computeInDegrees :: "DependencyGraph \<Rightarrow> (string, nat) jmap" where
  "computeInDegrees graph =
     (let zero = foldl (\<lambda>m node. map_set m node 0) [] (map_keys graph)
      in foldl (\<lambda>m (node, deps). foldl count_dep m deps) zero graph)"

definition add_dependent :: "string \<Rightarrow> DependencyGraph \<Rightarrow> string \<Rightarrow> DependencyGraph" where
  "add_dependent node reverse dep =
     (case map_get reverse dep of None \<Rightarrow> reverse | Some list \<Rightarrow> map_set reverse dep (list @ [node]))"

definition computeReverseEdges :: "DependencyGraph \<Rightarrow> DependencyGraph" where
  "computeReverseEdges graph =
     (let empty = foldl (\<lambda>m node. map_set m node []) [] (map_keys graph)
      in foldl (\<lambda>m (node, deps). foldl (add_dependent node) m deps) empty graph)"

section \<open>Reach\<close>

text \<open>The body of the inner loops: visit one dependency, then all dependencies of the frontier.\<close>

definition visit_dep :: "string list \<times> string list \<Rightarrow> string \<Rightarrow> string list \<times> string list" where
  "visit_dep s dep = (case s of (visited, nxt) \<Rightarrow>
     if dep \<in> set visited then (visited, nxt) else (visited @ [dep], nxt @ [dep]))"

definition visit_node :: "DependencyGraph \<Rightarrow> string list \<times> string list \<Rightarrow> string \<Rightarrow> string list \<times> string list" where
  "visit_node graph s node = foldl visit_dep s (or_default (map_get graph node) [])"

fun reach_loop :: "DependencyGraph \<Rightarrow> nat \<Rightarrow> string list \<Rightarrow> string list \<Rightarrow> string list" where
  "reach_loop graph 0 visited frontier = visited"
| "reach_loop graph (Suc fuel) visited frontier =
     (if frontier = [] then visited
      else let (visited', nxt) = foldl (visit_node graph) (visited, []) frontier
           in reach_loop graph fuel visited' nxt)"

definition reached :: "DependencyGraph \<Rightarrow> string \<Rightarrow> nat \<Rightarrow> string list" where
  "reached graph from maxDepth = reach_loop graph maxDepth [from] [from]"

definition reach :: "DependencyGraph \<Rightarrow> string \<Rightarrow> nat \<Rightarrow> nat" where
  "reach graph from maxDepth = length (reached graph from maxDepth)"

section \<open>Reach counts the files within \<open>maxDepth\<close> steps\<close>

definition succs :: "DependencyGraph \<Rightarrow> string \<Rightarrow> string list" where
  "succs g n = or_default (map_get g n) []"

definition edges :: "DependencyGraph \<Rightarrow> (string \<times> string) set" where
  "edges g = {(a, b). b \<in> set (succs g a)}"

definition expand :: "DependencyGraph \<Rightarrow> string set \<Rightarrow> string set" where
  "expand g V = V \<union> (\<Union>n \<in> V. set (succs g n))"

lemma visit_deps:
  "distinct V \<Longrightarrow> \<exists>new. foldl visit_dep (V, N) ds = (V @ new, N @ new)
     \<and> distinct (V @ new) \<and> set (V @ new) = set V \<union> set ds"
proof (induction ds arbitrary: V N)
  case (Cons d ds)
  show ?case
  proof (cases "d \<in> set V")
    case True
    then have "foldl visit_dep (V, N) (d # ds) = foldl visit_dep (V, N) ds" "set V \<union> set (d # ds) = set V \<union> set ds"
      by (auto simp: visit_dep_def)
    with Cons.IH [OF Cons.prems, of N] show ?thesis by simp
  next
    case False
    then have "distinct (V @ [d])" using Cons.prems by simp
    from Cons.IH [OF this, of "N @ [d]"] obtain new where
      "foldl visit_dep (V @ [d], N @ [d]) ds = ((V @ [d]) @ new, (N @ [d]) @ new)"
      "distinct ((V @ [d]) @ new)" "set ((V @ [d]) @ new) = set (V @ [d]) \<union> set ds" by blast
    moreover have "foldl visit_dep (V, N) (d # ds) = foldl visit_dep (V @ [d], N @ [d]) ds"
      using False by (simp add: visit_dep_def)
    ultimately show ?thesis by (intro exI [of _ "d # new"]) auto
  qed
qed simp

lemma visit_nodes:
  "distinct V \<Longrightarrow> \<exists>new. foldl (visit_node g) (V, N) fs = (V @ new, N @ new)
     \<and> distinct (V @ new) \<and> set (V @ new) = set V \<union> (\<Union>n \<in> set fs. set (succs g n))"
proof (induction fs arbitrary: V N)
  case (Cons f fs)
  from visit_deps [OF Cons.prems, of N "succs g f"] obtain new where
    1: "visit_node g (V, N) f = (V @ new, N @ new)" "distinct (V @ new)"
       "set (V @ new) = set V \<union> set (succs g f)"
    unfolding visit_node_def succs_def by blast
  from Cons.IH [OF 1(2), of "N @ new"] obtain new' where
    "foldl (visit_node g) (V @ new, N @ new) fs = ((V @ new) @ new', (N @ new) @ new')"
    "distinct ((V @ new) @ new')"
    "set ((V @ new) @ new') = set (V @ new) \<union> (\<Union>n \<in> set fs. set (succs g n))" by blast
  with 1 show ?case by (intro exI [of _ "new @ new'"]) auto
qed simp

lemma reach_loop_expand:
  assumes "distinct V" "set F \<subseteq> set V" "\<forall>n \<in> set V - set F. set (succs g n) \<subseteq> set V"
  shows "distinct (reach_loop g k V F) \<and> set (reach_loop g k V F) = (expand g ^^ k) (set V)"
  using assms
proof (induction k arbitrary: V F)
  case (Suc k)
  show ?case
  proof (cases "F = []")
    case True
    then have "expand g (set V) = set V" using Suc.prems by (auto simp: expand_def)
    then have "(expand g ^^ j) (set V) = set V" for j by (induction j) auto
    with True Suc.prems show ?thesis by (auto simp del: funpow.simps)
  next
    case False
    from visit_nodes [OF Suc.prems(1), of g "[]" F] obtain new where
      new: "foldl (visit_node g) (V, []) F = (V @ new, new)" "distinct (V @ new)"
        "set (V @ new) = set V \<union> (\<Union>n \<in> set F. set (succs g n))" by auto
    have "set V \<union> (\<Union>n \<in> set F. set (succs g n)) = expand g (set V)"
      using Suc.prems(2,3) unfolding expand_def by blast
    with new have V': "set (V @ new) = expand g (set V)" by simp
    have "\<forall>n \<in> set (V @ new) - set new. set (succs g n) \<subseteq> set (V @ new)"
      unfolding V' using new(2) V' by (auto simp: expand_def)
    then have "distinct (reach_loop g k (V @ new) new)
        \<and> set (reach_loop g k (V @ new) new) = (expand g ^^ k) (set (V @ new))"
      using new(2) by (intro Suc.IH) auto
    with V' new(1) False show ?thesis by (simp add: funpow_swap1)
  qed
qed simp

lemma expand_within: "(expand g ^^ k) {a} = {v. \<exists>n \<le> k. (a, v) \<in> edges g ^^ n}"
proof (induction k)
  case (Suc k)
  have "(expand g ^^ Suc k) {a} = expand g {v. \<exists>n \<le> k. (a, v) \<in> edges g ^^ n}"
    using Suc by simp
  also have "\<dots> = {v. \<exists>n \<le> Suc k. (a, v) \<in> edges g ^^ n}"
  proof (intro set_eqI iffI)
    fix v assume "v \<in> expand g {v. \<exists>n \<le> k. (a, v) \<in> edges g ^^ n}"
    then consider n where "n \<le> k" "(a, v) \<in> edges g ^^ n"
      | u n where "n \<le> k" "(a, u) \<in> edges g ^^ n" "(u, v) \<in> edges g"
      by (auto simp: expand_def edges_def)
    then show "v \<in> {v. \<exists>n \<le> Suc k. (a, v) \<in> edges g ^^ n}"
    proof cases
      case 1
      then show ?thesis by (auto intro: le_SucI)
    next
      case 2
      then have "(a, v) \<in> edges g ^^ Suc n" by (auto intro: relpow_Suc_I)
      with 2(1) show ?thesis by (intro CollectI exI [of _ "Suc n"]) simp
    qed
  next
    fix v assume "v \<in> {v. \<exists>n \<le> Suc k. (a, v) \<in> edges g ^^ n}"
    then obtain n where n: "n \<le> Suc k" "(a, v) \<in> edges g ^^ n" by blast
    show "v \<in> expand g {v. \<exists>n \<le> k. (a, v) \<in> edges g ^^ n}"
    proof (cases n)
      case 0
      with n show ?thesis by (auto simp: expand_def intro: exI [of _ "0 :: nat"])
    next
      case (Suc m)
      with n obtain u where "(a, u) \<in> edges g ^^ m" "(u, v) \<in> edges g" by (auto elim: relpow_Suc_E)
      with n Suc show ?thesis by (auto simp: expand_def edges_def)
    qed
  qed
  finally show ?case .
qed simp

lemma reached_within:
  "distinct (reached g a k)" "set (reached g a k) = {v. \<exists>n \<le> k. (a, v) \<in> edges g ^^ n}"
  using reach_loop_expand [of "[a]" "[a]" g k] expand_within [of k g a] by (auto simp: reached_def)

lemma reach_card: "reach g a k = card {v. \<exists>n \<le> k. (a, v) \<in> edges g ^^ n}"
  by (metis distinct_card reach_def reached_within)

lemma reach_mono: "j \<le> k \<Longrightarrow> reach g a j \<le> reach g a k"
proof -
  assume "j \<le> k"
  then have "set (reached g a j) \<subseteq> set (reached g a k)"
    unfolding reached_within by (auto intro: order_trans)
  then have "card (set (reached g a j)) \<le> card (set (reached g a k))" by (intro card_mono) simp_all
  then show ?thesis by (simp add: reach_card reached_within)
qed

section \<open>Closed graphs\<close>

definition graph_keys :: "DependencyGraph \<Rightarrow> string set" where
  "graph_keys g = fst ` set g"

definition closed_graph :: "DependencyGraph \<Rightarrow> bool" where
  "closed_graph g = (well_keyed g \<and> (\<forall>n. set (succs g n) \<subseteq> graph_keys g))"

lemma succs_map_set [simp]: "succs (map_set g k ds) n = (if n = k then ds else succs g n)"
  by (simp add: succs_def)

lemma graph_keys_map_set [simp]: "graph_keys (map_set g k ds) = insert k (graph_keys g)"
  by (simp add: graph_keys_def)

lemma succs_outside: "n \<notin> graph_keys g \<Longrightarrow> succs g n = []"
  by (metis graph_keys_def map_of_eq_None_iff or_default_simps(1) succs_def)

lemma reach_closed_le:
  assumes "closed_graph g" "a \<in> graph_keys g"
  shows "1 \<le> reach g a k \<and> reach g a k \<le> card (graph_keys g)"
proof -
  have "(a, v) \<in> edges g ^^ n \<Longrightarrow> v \<in> graph_keys g" for n v
    using assms by (induction n arbitrary: v) (auto simp: closed_graph_def edges_def)
  then have sub: "set (reached g a k) \<subseteq> graph_keys g" by (auto simp: reached_within)
  have fin: "finite (graph_keys g)" by (simp add: graph_keys_def)
  have "a \<in> set (reached g a k)" by (auto simp: reached_within intro: exI [of _ "0 :: nat"])
  then have "1 \<le> card (set (reached g a k))"
    by (metis List.finite_set One_nat_def Suc_leI card_gt_0_iff empty_iff)
  moreover have "card (set (reached g a k)) \<le> card (graph_keys g)" using sub fin by (rule card_mono [rotated])
  ultimately show ?thesis by (simp add: reach_card reached_within)
qed

section \<open>What the construction yields\<close>

definition ast_keys :: "(string \<Rightarrow> string) \<Rightarrow> FileAst list \<Rightarrow> string list" where
  "ast_keys key asts = uniq (map (\<lambda>a. key (fa_path a)) asts)"

definition import_edge :: "(string \<Rightarrow> string) \<Rightarrow> FileAst list \<Rightarrow> string \<Rightarrow> string \<Rightarrow> bool" where
  "import_edge key asts a b =
     (\<exists>ast \<in> set asts. key (fa_path ast) = a \<and>
        (\<exists>r \<in> set (fa_imports ast). \<exists>p. ir_resolvedPath r = Some p \<and> key p = b)
        \<and> b \<in> set (ast_keys key asts))"

definition implicit_edge :: "(string \<Rightarrow> string) \<Rightarrow> ImplicitEdge list option \<Rightarrow> string \<Rightarrow> string \<Rightarrow> bool" where
  "implicit_edge key es a b = (\<exists>e \<in> set (or_default es []). key (ie_from e) = a \<and> key (ie_to e) = b)"

lemma init_graph:
  "graph_keys (foldl (\<lambda>g a. map_set g (f a) []) g0 xs) = graph_keys g0 \<union> f ` set xs"
  "well_keyed g0 \<Longrightarrow> well_keyed (foldl (\<lambda>g a. map_set g (f a) []) g0 xs)"
  "succs (foldl (\<lambda>g a. map_set g (f a) []) g0 xs) n = (if n \<in> f ` set xs then [] else succs g0 n)"
  by (induction xs arbitrary: g0) (auto split: if_splits)

lemma import_graph:
  assumes "\<forall>a \<in> set xs. key (fa_path a) \<in> graph_keys g"
  shows "graph_keys (foldl (addImports key kp) g xs) = graph_keys g"
    "well_keyed g \<Longrightarrow> well_keyed (foldl (addImports key kp) g xs)"
    "succs (foldl (addImports key kp) g xs) n
       = succs g n @ concat (map (importTargets key kp) (filter (\<lambda>a. key (fa_path a) = n) xs))"
  using assms
  by (induction xs arbitrary: g) (auto simp: addImports_def simp flip: succs_def)

lemma set_importTargets:
  "set (importTargets key kp ast)
     = {b \<in> set kp. \<exists>r \<in> set (fa_imports ast). \<exists>p. ir_resolvedPath r = Some p \<and> key p = b}"
  by (force simp: importTargets_def)

lemma addImplicitEdge_effect:
  assumes "set kp = graph_keys g"
  shows "graph_keys (addImplicitEdge kp key g e) = graph_keys g"
    "well_keyed g \<Longrightarrow> well_keyed (addImplicitEdge kp key g e)"
    "b \<in> set (succs (addImplicitEdge kp key g e) a) \<longleftrightarrow> b \<in> set (succs g a)
       \<or> (a = key (ie_from e) \<and> b = key (ie_to e) \<and> a \<in> graph_keys g \<and> b \<in> graph_keys g)"
proof -
  let ?f = "key (ie_from e)" and ?t = "key (ie_to e)"
  have "addImplicitEdge kp key g e =
    (if ?f \<in> graph_keys g \<and> ?t \<in> graph_keys g \<and> ?t \<notin> set (succs g ?f)
     then map_set g ?f (succs g ?f @ [?t]) else g)"
    using assms
    by (force simp: addImplicitEdge_def Let_def succs_def graph_keys_def map_of_eq_None_iff split: option.splits)
  then show "graph_keys (addImplicitEdge kp key g e) = graph_keys g"
    "well_keyed g \<Longrightarrow> well_keyed (addImplicitEdge kp key g e)"
    "b \<in> set (succs (addImplicitEdge kp key g e) a) \<longleftrightarrow> b \<in> set (succs g a)
       \<or> (a = ?f \<and> b = ?t \<and> a \<in> graph_keys g \<and> b \<in> graph_keys g)"
    by auto
qed

lemma addImplicitEdges_effect:
  assumes "set kp = graph_keys g"
  shows "graph_keys (addImplicitEdges g kp es key) = graph_keys g"
    "well_keyed g \<Longrightarrow> well_keyed (addImplicitEdges g kp es key)"
    "b \<in> set (succs (addImplicitEdges g kp es key) a) \<longleftrightarrow> b \<in> set (succs g a)
       \<or> (implicit_edge key es a b \<and> a \<in> graph_keys g \<and> b \<in> graph_keys g)"
proof -
  have "graph_keys (foldl (addImplicitEdge kp key) g xs) = graph_keys g
    \<and> (well_keyed g \<longrightarrow> well_keyed (foldl (addImplicitEdge kp key) g xs))
    \<and> (b \<in> set (succs (foldl (addImplicitEdge kp key) g xs) a) \<longleftrightarrow> b \<in> set (succs g a)
       \<or> ((\<exists>e \<in> set xs. key (ie_from e) = a \<and> key (ie_to e) = b) \<and> a \<in> graph_keys g \<and> b \<in> graph_keys g))"
    for xs
    using assms
  proof (induction xs arbitrary: g)
    case (Cons x xs)
    note eff = addImplicitEdge_effect [OF Cons.prems, where key = key and e = x]
    have "set kp = graph_keys (addImplicitEdge kp key g x)" using eff(1) Cons.prems by simp
    from Cons.IH [OF this] show ?case using eff by auto
  qed simp
  then show "graph_keys (addImplicitEdges g kp es key) = graph_keys g"
    "well_keyed g \<Longrightarrow> well_keyed (addImplicitEdges g kp es key)"
    "b \<in> set (succs (addImplicitEdges g kp es key) a) \<longleftrightarrow> b \<in> set (succs g a)
       \<or> (implicit_edge key es a b \<and> a \<in> graph_keys g \<and> b \<in> graph_keys g)"
    by (auto simp: addImplicitEdges_def implicit_edge_def split: option.splits)
qed

lemma buildDependencyGraph_unfold:
  fixes key :: "string \<Rightarrow> string"
  defines "g0 \<equiv> \<lambda>asts. foldl (\<lambda>g a. map_set g (key (fa_path a)) []) [] asts"
  shows "buildDependencyGraph asts es key
    = addImplicitEdges (foldl (addImports key (ast_keys key asts)) (g0 asts) asts) (ast_keys key asts) es key"
  by (simp add: buildDependencyGraph_def ast_keys_def g0_def Let_def)

lemma import_stage:
  fixes key :: "string \<Rightarrow> string"
  defines "g1 \<equiv> \<lambda>asts. foldl (addImports key (ast_keys key asts))
     (foldl (\<lambda>g a. map_set g (key (fa_path a)) []) [] asts) asts"
  shows "graph_keys (g1 asts) = set (ast_keys key asts)" "well_keyed (g1 asts)"
    "b \<in> set (succs (g1 asts) a) \<longleftrightarrow> import_edge key asts a b"
proof -
  let ?g0 = "foldl (\<lambda>g a. map_set g (key (fa_path a)) []) [] asts :: DependencyGraph"
  have k0: "graph_keys ?g0 = (\<lambda>a. key (fa_path a)) ` set asts"
    by (simp add: init_graph) (simp add: graph_keys_def)
  have wk0: "well_keyed ?g0" using init_graph(2) [where f = "\<lambda>a :: FileAst. key (fa_path a)"] by simp
  have "succs [] n = []" for n by (simp add: succs_def)
  then have s0: "succs ?g0 n = []" for n by (simp add: init_graph)
  have all: "\<forall>a \<in> set asts. key (fa_path a) \<in> graph_keys ?g0" by (simp add: k0)
  note im = import_graph [OF all, of "ast_keys key asts"]
  show "graph_keys (g1 asts) = set (ast_keys key asts)"
    unfolding g1_def im k0 by (simp add: ast_keys_def)
  show "well_keyed (g1 asts)" by (simp add: g1_def im wk0)
  show "b \<in> set (succs (g1 asts) a) \<longleftrightarrow> import_edge key asts a b"
    by (auto simp: g1_def im s0 set_importTargets import_edge_def)
qed

lemma buildDependencyGraph_correct:
  "graph_keys (buildDependencyGraph asts es key) = set (ast_keys key asts)"
  "well_keyed (buildDependencyGraph asts es key)"
  "b \<in> set (succs (buildDependencyGraph asts es key) a) \<longleftrightarrow> import_edge key asts a b
     \<or> (implicit_edge key es a b \<and> a \<in> set (ast_keys key asts) \<and> b \<in> set (ast_keys key asts))"
  unfolding buildDependencyGraph_unfold
  using import_stage [where key = key and asts = asts]
  by (auto simp: addImplicitEdges_effect)

lemma buildDependencyGraph_closed: "closed_graph (buildDependencyGraph asts es key)"
  by (auto simp: closed_graph_def buildDependencyGraph_correct import_edge_def)

text \<open>Rebuilding from the cached edges adds nothing to a well-keyed map and keeps its order.\<close>

lemma addImplicitEdges_set_cong:
  assumes "set kp = set kp'" "\<forall>e \<in> set (or_default es []). key (ie_from e) = key' (ie_from e) \<and> key (ie_to e) = key' (ie_to e)"
  shows "addImplicitEdges g kp es key = addImplicitEdges g kp' es key'"
proof -
  have "foldl (addImplicitEdge kp key) g xs = foldl (addImplicitEdge kp' key') g xs"
    if "\<forall>e \<in> set xs. key (ie_from e) = key' (ie_from e) \<and> key (ie_to e) = key' (ie_to e)" for xs
    using that assms(1) by (induction xs arbitrary: g) (auto simp: addImplicitEdge_def)
  with assms(2) show ?thesis by (auto simp: addImplicitEdges_def split: option.splits)
qed

lemma rebuild_from_edges:
  assumes "\<forall>e \<in> set (or_default es []). key (ie_from e) = ie_from e \<and> key (ie_to e) = ie_to e"
  shows "buildDependencyGraphFromEdges (buildDependencyGraph asts None key) es = buildDependencyGraph asts es key"
proof -
  let ?g = "buildDependencyGraph asts None key"
  have "foldl (\<lambda>g (node, deps). map_set g node deps) [] ?g = ?g"
    using foldl_map_set_copy [where m = "[]" and g = ?g] buildDependencyGraph_correct(2) by simp
  moreover have "set (map_keys ?g) = set (ast_keys key asts)"
    using buildDependencyGraph_correct(1) [of asts None key] by (simp add: graph_keys_def)
  ultimately have "buildDependencyGraphFromEdges ?g es = addImplicitEdges ?g (ast_keys key asts) es key"
    using assms by (simp add: buildDependencyGraphFromEdges_def addImplicitEdges_set_cong Let_def)
  then show ?thesis by (simp add: buildDependencyGraph_unfold addImplicitEdges_def [of _ _ None])
qed

section \<open>In-degrees and reverse edges\<close>

lemma zero_map:
  "map_of (foldl (\<lambda>m node. map_set m node z) m0 xs) n = (if n \<in> set xs then Some z else map_of m0 n)"
  by (induction xs arbitrary: m0) auto

lemma count_deps:
  "map_of (foldl count_dep m deps) v
     = (if v \<in> set deps then Some (or_default (map_of m v) 0 + count_list deps v) else map_of m v)"
  by (induction deps arbitrary: m) (auto simp: count_dep_def split: if_splits)

lemma count_all_deps:
  "map_of (foldl (\<lambda>m (node, deps). foldl count_dep m deps) m g) v
     = (if \<exists>e \<in> set g. v \<in> set (snd e)
        then Some (or_default (map_of m v) 0 + sum_list (map (\<lambda>(n, ds). count_list ds v) g))
        else map_of m v)"
proof (induction g arbitrary: m)
  case (Cons e g)
  obtain n ds where e: "e = (n, ds)" by (cases e)
  have "sum_list (map (\<lambda>(n, ds). count_list ds v) g) = 0" if "\<not> (\<exists>e \<in> set g. v \<in> set (snd e))"
    using that by (induction g) (auto simp: count_list_0_iff)
  with Cons.IH [of "foldl count_dep m ds"] show ?case by (auto simp: e count_deps count_list_0_iff)
qed simp

lemma computeInDegrees_count:
  assumes "v \<in> graph_keys g \<or> (\<exists>e \<in> set g. v \<in> set (snd e))"
  shows "map_get (computeInDegrees g) v = Some (sum_list (map (\<lambda>(n, ds). count_list ds v) g))"
proof -
  have "sum_list (map (\<lambda>(n, ds). count_list ds v) g) = 0" if "\<not> (\<exists>e \<in> set g. v \<in> set (snd e))"
    using that by (induction g) (auto simp: count_list_0_iff)
  with assms show ?thesis
    by (auto simp: computeInDegrees_def count_all_deps zero_map graph_keys_def)
qed

lemma computeInDegrees_files:
  assumes "v \<in> graph_keys g" "\<forall>(n, ds) \<in> set g. distinct ds"
  shows "map_get (computeInDegrees g) v = Some (length (filter (\<lambda>(n, ds). v \<in> set ds) g))"
proof -
  have "sum_list (map (\<lambda>(n, ds). count_list ds v) g) = length (filter (\<lambda>(n, ds). v \<in> set ds) g)"
    using assms(2)
  proof (induction g)
    case (Cons e g)
    obtain n ds where e: "e = (n, ds)" by (cases e)
    have "count_list ds v = (if v \<in> set ds then 1 else 0)"
      using Cons.prems e by (metis count_list_0_iff count_notin distinct_count_atmost_1 count_mset list.set_intros(1) case_prodD set_mset_mset)
    with Cons e show ?case by simp
  qed simp
  with assms(1) computeInDegrees_count show ?thesis by auto
qed

lemma map_option_same [simp]: "map_option (\<lambda>x. x) m = m"
  by (cases m) simp_all

lemma add_dependent_get:
  "map_of (add_dependent node m d) v
     = (if d = v then map_option (\<lambda>list. list @ [node]) (map_of m v) else map_of m v)"
  by (auto simp: add_dependent_def split: option.splits)

lemma reverse_deps:
  "map_of (foldl (add_dependent node) m deps) v
     = map_option (\<lambda>list. list @ replicate (count_list deps v) node) (map_of m v)"
  by (induction deps arbitrary: m) (auto simp: add_dependent_get option.map_comp comp_def)

lemma reverse_all:
  "map_of (foldl (\<lambda>m (node, deps). foldl (add_dependent node) m deps) m g) v
     = map_option (\<lambda>list. list @ concat (map (\<lambda>(n, ds). replicate (count_list ds v) n) g)) (map_of m v)"
  by (induction g arbitrary: m) (auto simp: reverse_deps option.map_comp comp_def)

lemma computeReverseEdges_get:
  "v \<in> graph_keys g \<Longrightarrow> map_get (computeReverseEdges g) v
     = Some (concat (map (\<lambda>(n, ds). replicate (count_list ds v) n) g))"
  by (simp add: computeReverseEdges_def reverse_all zero_map graph_keys_def)

lemma length_concat_replicate:
  "length (concat (map (\<lambda>(n, ds). replicate (c ds) n) g)) = sum_list (map (\<lambda>(n, ds). c ds) g)"
  by (induction g) auto

lemma reverse_edges_member:
  assumes "v \<in> graph_keys g" "well_keyed g"
  shows "u \<in> set (succs (computeReverseEdges g) v) \<longleftrightarrow> v \<in> set (succs g u)"
proof -
  have "u \<in> set (succs (computeReverseEdges g) v) \<longleftrightarrow> (\<exists>ds. (u, ds) \<in> set g \<and> v \<in> set ds)"
    using assms(1) by (force simp: succs_def computeReverseEdges_get count_list_0_iff)
  also have "\<dots> \<longleftrightarrow> v \<in> set (succs g u)"
    unfolding well_keyed_get [OF assms(2)] succs_def by (cases "map_get g u") auto
  finally show ?thesis .
qed

lemma reverse_length_in_degree:
  "v \<in> graph_keys g \<Longrightarrow> map_get (computeInDegrees g) v = Some (length (succs (computeReverseEdges g) v))"
  by (simp add: succs_def computeReverseEdges_get computeInDegrees_count length_concat_replicate)

section \<open>Properties\<close>

text \<open>C16: The nodes of the dependency graph are the keys of the scanned files, every target is a
  node, and a file depends on another exactly when it imports it or an implicit edge between two
  scanned files says so.\<close>

theorem dependency_graph_edges:
  "graph_keys (buildDependencyGraph asts es key) = (\<lambda>a. key (fa_path a)) ` set asts
   \<and> closed_graph (buildDependencyGraph asts es key)
   \<and> edges (buildDependencyGraph asts es key)
     = {(a, b). import_edge key asts a b}
       \<union> {(a, b). implicit_edge key es a b \<and> {a, b} \<subseteq> (\<lambda>a. key (fa_path a)) ` set asts}"
  by (auto simp: edges_def buildDependencyGraph_correct buildDependencyGraph_closed ast_keys_def)

lemma finite_edges: "finite (edges g)"
proof -
  have "edges g \<subseteq> fst ` set g \<times> (\<Union>e \<in> set g. set (snd e))"
  proof
    fix e assume "e \<in> edges g"
    then obtain a b where e: "e = (a, b)" "b \<in> set (succs g a)" by (auto simp: edges_def)
    then obtain ds where "map_get g a = Some ds" "b \<in> set ds" by (cases "map_get g a") (auto simp: succs_def)
    then show "e \<in> fst ` set g \<times> (\<Union>e \<in> set g. set (snd e))"
      using e(1) by (force dest: map_of_SomeD)
  qed
  then show ?thesis by (rule finite_subset) auto
qed

lemma reach_all:
  assumes "card (edges g) \<le> k"
  shows "{v. \<exists>n \<le> k. (a, v) \<in> edges g ^^ n} = (edges g)\<^sup>* `` {a}"
proof -
  have "(edges g)\<^sup>* = (\<Union>n \<in> {n. n \<le> card (edges g)}. edges g ^^ n)"
    by (rule rtrancl_finite_eq_relpow [OF finite_edges])
  then show ?thesis using assms by (auto intro: relpow_imp_rtrancl order_trans)
qed

text \<open>C15: The reach of a file is the number of files within \<open>maxDepth\<close> dependency steps, itself
  included; a bound of at least the number of edges gives the whole transitive closure.\<close>

theorem reach_counts_files:
  "reach g a k = card {v. \<exists>n \<le> k. (a, v) \<in> edges g ^^ n}
   \<and> (card (edges g) \<le> k \<longrightarrow> reach g a k = card ((edges g)\<^sup>* `` {a}))"
  by (simp add: reach_card reach_all)

definition sample_graph :: DependencyGraph where
  "sample_graph = [(''a'', [''b'', ''b'']), (''b'', [''a'', ''c'']), (''c'', [])]"

theorem reach_counts_files_witness:
  "reach sample_graph ''a'' 1 = 2 \<and> card ((edges sample_graph)\<^sup>* `` {''a''}) = 3"
proof -
  have "edges sample_graph \<subseteq> {(''a'', ''b''), (''b'', ''a''), (''b'', ''c'')}"
    by (auto simp: edges_def sample_graph_def succs_def split: if_splits)
  then have "card (edges sample_graph) \<le> card {(''a'', ''b''), (''b'', ''a''), (''b'', ''c'')}" by (intro card_mono) simp_all
  then have "card (edges sample_graph) \<le> 3" by simp
  then have "card ((edges sample_graph)\<^sup>* `` {''a''}) = reach sample_graph ''a'' 3"
    using reach_counts_files [of sample_graph "''a''" 3] by simp
  also have "\<dots> = 3" by (simp add: sample_graph_def reach_def reached_def visit_node_def visit_dep_def numeral_3_eq_3)
  finally show ?thesis by (simp add: sample_graph_def reach_def reached_def visit_node_def visit_dep_def)
qed

text \<open>C17: Rebuilding the graph from the cached edges of the imports, with the implicit edges of
  the run, gives the graph that a scan from the sources builds.\<close>

theorem incremental_graph_equals_full:
  assumes "\<forall>e \<in> set (or_default es []). key (ie_from e) = ie_from e \<and> key (ie_to e) = ie_to e"
  shows "buildDependencyGraphFromEdges (buildDependencyGraph asts None key) es = buildDependencyGraph asts es key"
  using assms by (rule rebuild_from_edges)

definition sample_file :: "string \<Rightarrow> ImportRef list \<Rightarrow> FileAst" where
  "sample_file p refs = \<lparr>fa_path = p, fa_language = go, fa_branchCount = 0, fa_weightedBranchTotal = None,
     fa_topLevelWeightedBranch = None, fa_nestingDepth = 0, fa_functionCount = 0, fa_passthroughCalls = 0, fa_imports = refs,
     fa_exportedSymbols = None, fa_semanticSurface = None, fa_loc = None, fa_declarationLoc = None, fa_maxFuncBranch = None,
     fa_externalPassthroughCalls = None, fa_functions = []\<rparr>"

definition sample_import :: "string \<Rightarrow> ImportRef" where
  "sample_import p = \<lparr>ir_resolvedPath = Some p, ir_source = p, ir_reexport = False\<rparr>"

definition sample_asts :: "FileAst list" where
  "sample_asts = [sample_file ''a'' [sample_import ''b'', sample_import ''b''], sample_file ''b'' []]"

theorem incremental_graph_equals_full_witness:
  "buildDependencyGraphFromEdges (buildDependencyGraph sample_asts None (\<lambda>p. p)) (Some [\<lparr>ie_from = ''b'', ie_to = ''a'', ie_via = ''x'', ie_type = ''x''\<rparr>])
     = [(''a'', [''b'', ''b'']), (''b'', [''a''])]"
  by (subst incremental_graph_equals_full)
    (simp_all add: buildDependencyGraph_def addImports_def importTargets_def addImplicitEdges_def addImplicitEdge_def
      sample_asts_def sample_file_def sample_import_def map_set_def Let_def)

text \<open>The in-degree of a file is the number of its entries in the reverse graph, whose
  members are exactly the files that depend on it.\<close>

theorem in_degree_counts_dependents:
  assumes "v \<in> (\<lambda>a. key (fa_path a)) ` set asts"
  shows "map_get (computeInDegrees (buildDependencyGraph asts es key)) v
      = Some (length (succs (computeReverseEdges (buildDependencyGraph asts es key)) v))
    \<and> set (succs (computeReverseEdges (buildDependencyGraph asts es key)) v)
      = {u. (u, v) \<in> edges (buildDependencyGraph asts es key)}"
proof -
  have v: "v \<in> graph_keys (buildDependencyGraph asts es key)"
    using assms by (simp add: buildDependencyGraph_correct ast_keys_def)
  show ?thesis
    using reverse_length_in_degree [OF v] reverse_edges_member [OF v buildDependencyGraph_correct(2)]
    by (auto simp: edges_def)
qed

theorem in_degree_counts_dependents_witness:
  "map_get (computeInDegrees (buildDependencyGraph sample_asts None (\<lambda>p. p))) ''b'' = Some 2
   \<and> {u. (u, ''b'') \<in> edges (buildDependencyGraph sample_asts None (\<lambda>p. p))} = {''a''}"
proof -
  have g: "buildDependencyGraph sample_asts None (\<lambda>p. p) = [(''a'', [''b'', ''b'']), (''b'', [])]"
    by (simp add: buildDependencyGraph_def addImports_def importTargets_def addImplicitEdges_def
        sample_asts_def sample_file_def sample_import_def map_set_def Let_def)
  have rev: "succs (computeReverseEdges [(''a'', [''b'', ''b'']), (''b'', [])]) ''b'' = [''a'', ''a'']"
    by (simp add: computeReverseEdges_def add_dependent_def succs_def map_keys_def)
  have "''b'' \<in> (\<lambda>a. fa_path a) ` set sample_asts" by (simp add: sample_asts_def sample_file_def)
  from in_degree_counts_dependents [OF this, of None] show ?thesis by (simp add: g rev)
qed

end
