(* ===== verification/Cohesion.thy ===== *)
theory Cohesion
  imports Ast Js_String
begin

text \<open>
  The shape of a file's internal call graph (\<open>cohesion.ts\<close>): density of call edges, share of
  the largest connected component, and share of the functions with a single call site. An
  adjacency \<open>Set\<close> is a list without repetitions; the breadth-first search is a terminating
  recursion over its queue.
\<close>

section \<open>Data and computation\<close>

record InternalCallShape =
  cs_connected :: real
  cs_cohesion :: real
  cs_calledFunctions :: nat
  cs_singleCallSiteFunctions :: nat
  cs_singleCallSite :: "real option"

type_synonym adjacency = "(string, string list) jmap"

definition set_add :: "'a \<Rightarrow> 'a list \<Rightarrow> 'a list" where
  "set_add x xs = (if x \<in> set xs then xs else xs @ [x])"

definition neighbors :: "adjacency \<Rightarrow> string \<Rightarrow> string list" where
  "neighbors adj n = or_default (map_get adj n) []"

definition add_neighbor :: "adjacency \<Rightarrow> string \<Rightarrow> string \<Rightarrow> adjacency" where
  "add_neighbor adj a b = map_set adj a (set_add b (neighbors adj a))"

definition add_call :: "string set \<Rightarrow> string \<Rightarrow> adjacency \<Rightarrow> string \<Rightarrow> adjacency" where
  "add_call names f adj callee =
     (if callee \<notin> names \<or> callee = f then adj else add_neighbor (add_neighbor adj f callee) callee f)"

definition adjacencyOf :: "FunctionInfo list \<Rightarrow> adjacency" where
  "adjacencyOf funcs =
     (let names = set (map fi_name funcs);
          adj0 = foldl (\<lambda>m f. map_set m (fi_name f) []) [] funcs
      in foldl (\<lambda>adj f. foldl (add_call names (fi_name f)) adj (fi_calls f)) adj0 funcs)"

definition callSitesByCallee :: "FunctionInfo list \<Rightarrow> (string, int) jmap" where
  "callSitesByCallee funcs =
     foldl (\<lambda>sites f. foldl (\<lambda>sites callee.
        map_set sites callee (or_default (map_get sites callee) 0
          + or_default (Option.bind (fi_callCounts f) (\<lambda>m. map_get m callee)) 1)) sites (fi_calls f)) [] funcs"

definition pending :: "adjacency \<Rightarrow> string list \<Rightarrow> nat" where
  "pending adj visited = sum_list (map (\<lambda>(n, ns). if n \<in> set visited then 0 else length ns) adj)"

lemma pending_visit:
  assumes "n \<notin> set visited"
  shows "pending adj (visited @ [n]) + length (neighbors adj n) \<le> pending adj visited"
  using assms
proof (induction adj)
  case (Cons e adj)
  obtain k ns where e: "e = (k, ns)" by (cases e)
  have mono: "pending adj (visited @ [n]) \<le> pending adj visited"
    unfolding pending_def by (intro sum_list_mono) auto
  show ?case using Cons mono by (auto simp: e pending_def neighbors_def)
qed (simp add: pending_def neighbors_def)

function bfs :: "adjacency \<Rightarrow> string list \<Rightarrow> string list \<Rightarrow> nat \<Rightarrow> string list \<times> nat" where
  "bfs adj [] visited sz = (visited, sz)"
| "bfs adj (node # queue) visited sz =
     (if node \<in> set visited then bfs adj queue visited sz
      else let visited' = visited @ [node]
           in bfs adj (queue @ filter (\<lambda>nb. nb \<notin> set visited') (neighbors adj node)) visited' (Suc sz))"
  by pat_completeness auto
termination
proof (relation "measure (\<lambda>(adj, queue, visited, sz). length queue + pending adj visited)")
  fix adj node queue visited sz and visited' :: "string list"
  assume new: "node \<notin> set visited" and v: "visited' = visited @ [node]"
  have "length (filter (\<lambda>nb. nb \<noteq> node \<and> nb \<notin> set visited) (neighbors adj node)) + pending adj (visited @ [node])
      \<le> pending adj visited"
    using pending_visit [OF new, of adj]
      length_filter_le [of "\<lambda>nb. nb \<noteq> node \<and> nb \<notin> set visited" "neighbors adj node"] by linarith
  then show "((adj, queue @ filter (\<lambda>nb. nb \<notin> set visited') (neighbors adj node), visited', Suc sz),
      adj, node # queue, visited, sz) \<in> measure (\<lambda>(adj, queue, visited, sz). length queue + pending adj visited)"
    by (simp add: v)
qed simp_all

definition bfs_from :: "adjacency \<Rightarrow> string list \<Rightarrow> string \<Rightarrow> string list \<times> nat" where
  "bfs_from adj visited start = (if start \<in> set visited then (visited, 0) else bfs adj [start] visited 0)"

fun max_component :: "adjacency \<Rightarrow> string list \<Rightarrow> nat \<Rightarrow> string list \<Rightarrow> nat" where
  "max_component adj visited best [] = best"
| "max_component adj visited best (f # fs) =
     (case bfs_from adj visited f of (visited', sz) \<Rightarrow> max_component adj visited' (max best sz) fs)"

definition maxComponentShare :: "FunctionInfo list \<Rightarrow> adjacency \<Rightarrow> real" where
  "maxComponentShare funcs adj =
     real (max_component adj [] 0 (map fi_name funcs)) / real (length funcs)"

definition edge_key :: "string \<Rightarrow> string \<Rightarrow> string" where
  "edge_key caller callee = join_with [CHR 0x00] (sort [caller, callee])"

definition edge_keys :: "adjacency \<Rightarrow> string list" where
  "edge_keys adj = uniq (concat (map (\<lambda>(caller, callees). map (edge_key caller) callees) adj))"

definition cohesionOf :: "FunctionInfo list \<Rightarrow> adjacency \<Rightarrow> real" where
  "cohesionOf funcs adj =
     min 1 (real (length (edge_keys adj)) / (real (length funcs) * (real (length funcs) - 1) / 2))"

definition computeInternalCallShape :: "FunctionInfo list \<Rightarrow> InternalCallShape" where
  "computeInternalCallShape funcs =
     (if length funcs \<le> 1 then
        \<lparr>cs_connected = 1, cs_cohesion = 1, cs_calledFunctions = 0, cs_singleCallSiteFunctions = 0,
         cs_singleCallSite = None\<rparr>
      else
        let adj = adjacencyOf funcs;
            sites = callSitesByCallee funcs;
            own = set (map fi_name funcs);
            called = length (filter (\<lambda>(callee, count). callee \<in> own \<and> count > 0) sites);
            singleCallSite = length (filter (\<lambda>(callee, count). callee \<in> own \<and> count > 0 \<and> count = 1) sites)
        in \<lparr>cs_connected = maxComponentShare funcs adj, cs_cohesion = cohesionOf funcs adj,
            cs_calledFunctions = called, cs_singleCallSiteFunctions = singleCallSite,
            cs_singleCallSite = (if called = 0 then None else Some (real singleCallSite / real called))\<rparr>)"

definition computeCohesion :: "FunctionInfo list \<Rightarrow> real" where
  "computeCohesion funcs = cs_cohesion (computeInternalCallShape funcs)"

definition computeConnectedness :: "FunctionInfo list \<Rightarrow> real" where
  "computeConnectedness funcs = cs_connected (computeInternalCallShape funcs)"

section \<open>The search visits one connected component\<close>

definition adj_rel :: "adjacency \<Rightarrow> (string \<times> string) set" where
  "adj_rel adj = {(a, b). b \<in> set (neighbors adj a)}"

definition component :: "adjacency \<Rightarrow> string \<Rightarrow> string set" where
  "component adj a = (adj_rel adj)\<^sup>* `` {a}"

lemma bfs_visited:
  assumes "distinct visited"
  shows "distinct (fst (bfs adj queue visited sz))
    \<and> set visited \<union> set queue \<subseteq> set (fst (bfs adj queue visited sz))
    \<and> set (fst (bfs adj queue visited sz)) \<subseteq> set visited \<union> (\<Union>q \<in> set queue. component adj q)
    \<and> snd (bfs adj queue visited sz) + length visited = sz + length (fst (bfs adj queue visited sz))"
  using assms
proof (induction adj queue visited sz rule: bfs.induct)
  case (2 adj node queue visited sz)
  have self: "q \<in> component adj q" for q by (auto simp: component_def)
  show ?case
  proof (cases "node \<in> set visited")
    case True
    with 2 show ?thesis by auto
  next
    case False
    let ?v = "visited @ [node]"
    let ?q = "queue @ filter (\<lambda>nb. nb \<notin> set ?v) (neighbors adj node)"
    let ?r = "bfs adj ?q ?v (Suc sz)"
    have "component adj nb \<subseteq> component adj node" if "nb \<in> set (neighbors adj node)" for nb
      using that by (auto simp: component_def adj_rel_def intro: converse_rtrancl_into_rtrancl)
    then have comp: "(\<Union>q \<in> set ?q. component adj q) \<subseteq> (\<Union>q \<in> set (node # queue). component adj q)" by auto
    have step: "bfs adj (node # queue) visited sz = ?r" using False by (simp add: Let_def)
    have IH: "distinct (fst ?r)" "set ?v \<union> set ?q \<subseteq> set (fst ?r)"
      "set (fst ?r) \<subseteq> set ?v \<union> (\<Union>q \<in> set ?q. component adj q)"
      "snd ?r + length ?v = Suc sz + length (fst ?r)"
      using "2.IH"(2) [OF False refl] "2.prems" False by simp_all
    have "set visited \<union> set (node # queue) \<subseteq> set (fst ?r)" using IH(2) by auto
    moreover have "set (fst ?r) \<subseteq> set visited \<union> (\<Union>q \<in> set (node # queue). component adj q)"
      using IH(3) comp self [of node] by auto
    ultimately show ?thesis using IH(1,4) unfolding step by simp
  qed
qed simp

text \<open>Whatever is visited by the search has all its neighbours visited.\<close>

lemma bfs_closed:
  assumes "\<forall>n \<in> set visited. set (neighbors adj n) \<subseteq> set visited \<union> set queue"
  shows "\<forall>n \<in> set (fst (bfs adj queue visited sz)).
    set (neighbors adj n) \<subseteq> set (fst (bfs adj queue visited sz))"
  using assms
proof (induction adj queue visited sz rule: bfs.induct)
  case (2 adj node queue visited sz)
  show ?case
  proof (cases "node \<in> set visited")
    case True
    with 2 show ?thesis by auto
  next
    case False
    then show ?thesis using "2.IH"(2) [OF False refl] "2.prems" by (auto simp: Let_def)
  qed
qed simp

definition adj_closed :: "adjacency \<Rightarrow> string set \<Rightarrow> bool" where
  "adj_closed adj V = (\<forall>n \<in> V. set (neighbors adj n) \<subseteq> V)"

lemma closed_contains_component: "adj_closed adj V \<Longrightarrow> a \<in> V \<Longrightarrow> component adj a \<subseteq> V"
proof
  fix b assume "adj_closed adj V" "a \<in> V" "b \<in> component adj a"
  then have "(a, b) \<in> (adj_rel adj)\<^sup>*" by (simp add: component_def)
  then show "b \<in> V" using \<open>adj_closed adj V\<close> \<open>a \<in> V\<close>
    by (induction rule: rtrancl_induct) (auto simp: adj_closed_def adj_rel_def)
qed

definition symmetric_adj :: "adjacency \<Rightarrow> bool" where
  "symmetric_adj adj = (\<forall>a b. b \<in> set (neighbors adj a) \<longleftrightarrow> a \<in> set (neighbors adj b))"

lemma component_sym:
  assumes "symmetric_adj adj" "b \<in> component adj a"
  shows "component adj b = component adj a"
proof -
  have "sym (adj_rel adj)" using assms(1) by (auto simp: sym_def adj_rel_def symmetric_adj_def)
  then have "sym ((adj_rel adj)\<^sup>*)" by (rule sym_rtrancl)
  moreover have ab: "(a, b) \<in> (adj_rel adj)\<^sup>*" using assms(2) by (simp add: component_def)
  ultimately have ba: "(b, a) \<in> (adj_rel adj)\<^sup>*" by (rule symD)
  show ?thesis
    using ab ba by (auto simp: component_def intro: rtrancl_trans)
qed

lemma bfs_from_component:
  assumes "distinct visited" "adj_closed adj (set visited)" "symmetric_adj adj"
    and r_def: "r = bfs_from adj visited a"
  shows "distinct (fst r)" "adj_closed adj (set (fst r))"
    "set (fst r) = set visited \<union> component adj a"
    "snd r = (if a \<in> set visited then 0 else card (component adj a))"
proof -
  have "distinct (fst r) \<and> adj_closed adj (set (fst r)) \<and> set (fst r) = set visited \<union> component adj a
    \<and> snd r = (if a \<in> set visited then 0 else card (component adj a))"
  proof (cases "a \<in> set visited")
    case True
    with assms closed_contains_component [OF assms(2) True] show ?thesis
      by (auto simp: bfs_from_def)
  next
    case False
    let ?r = "bfs adj [a] visited 0"
    note vis = bfs_visited [OF assms(1), of adj "[a]" 0]
    have cl: "adj_closed adj (set (fst ?r))"
      unfolding adj_closed_def by (rule bfs_closed) (use assms(2) in \<open>auto simp: adj_closed_def\<close>)
    have "component adj a \<subseteq> set (fst ?r)"
      using closed_contains_component [OF cl] vis by simp
    then have set_r: "set (fst ?r) = set visited \<union> component adj a" using vis by auto
    have disj: "set visited \<inter> component adj a = {}"
    proof (rule ccontr)
      assume "set visited \<inter> component adj a \<noteq> {}"
      then obtain b where b: "b \<in> set visited" "b \<in> component adj a" by blast
      then have "a \<in> component adj b"
        using component_sym [OF assms(3)] by (auto simp: component_def)
      with b(1) closed_contains_component [OF assms(2)] False show False by blast
    qed
    have fin: "finite (component adj a)" using set_r by (metis List.finite_set finite_Un)
    have "length (fst ?r) = card (set visited) + card (component adj a)"
      using vis set_r disj fin by (metis List.finite_set card_Un_disjoint distinct_card)
    then have "snd ?r = card (component adj a)"
      using vis assms(1) by (simp add: distinct_card)
    with False cl set_r vis show ?thesis by (simp add: r_def bfs_from_def)
  qed
  then show "distinct (fst r)" "adj_closed adj (set (fst r))"
    "set (fst r) = set visited \<union> component adj a"
    "snd r = (if a \<in> set visited then 0 else card (component adj a))" by blast+
qed

lemma bfs_from_le:
  assumes "distinct visited" "adj_closed adj (set visited)" "symmetric_adj adj"
  shows "finite (component adj a)"
  using bfs_from_component(3) [OF assms refl, of a] by (metis List.finite_set finite_Un)

lemma max_component_Max:
  assumes "symmetric_adj adj" "distinct visited" "adj_closed adj (set visited)"
    and "\<forall>v \<in> set visited. card (component adj v) \<le> best"
  shows "max_component adj visited best fs = Max (insert best ((\<lambda>f. card (component adj f)) ` set fs))"
  using assms(2-4)
proof (induction fs arbitrary: visited best)
  case (Cons f fs)
  let ?r = "bfs_from adj visited f" and ?best = "max best (snd (bfs_from adj visited f))"
  note r = bfs_from_component [OF Cons.prems(1,2) assms(1) refl, of f]
  have best: "?best = max best (card (component adj f))"
    using r(4) Cons.prems(3) by auto
  have "card (component adj v) = card (component adj f)" if "v \<in> component adj f" for v
    using component_sym [OF assms(1) that] by simp
  then have "\<forall>v \<in> set (fst ?r). card (component adj v) \<le> ?best"
    using Cons.prems(3) unfolding r(3) best by (auto intro: le_max_iff_disj [THEN iffD2])
  from Cons.IH [OF r(1,2) this]
  have "max_component adj visited best (f # fs)
      = Max (insert ?best ((\<lambda>f. card (component adj f)) ` set fs))"
    by (simp add: case_prod_beta)
  also have "\<dots> = Max (insert best ((\<lambda>f. card (component adj f)) ` set (f # fs)))"
    by (cases "fs = []") (simp_all add: best ac_simps Max_insert)
  finally show ?case .
qed simp

section \<open>The adjacency of a file\<close>

lemma set_set_add [simp]: "set (set_add x xs) = insert x (set xs)"
  by (auto simp: set_add_def)

lemma neighbors_map_set [simp]: "neighbors (map_set adj a ns) b = (if b = a then ns else neighbors adj b)"
  by (simp add: neighbors_def)

lemma add_call_neighbors:
  "b \<in> set (neighbors (add_call names f adj c) a) \<longleftrightarrow> b \<in> set (neighbors adj a)
     \<or> (c \<in> names \<and> c \<noteq> f \<and> (a = f \<and> b = c \<or> a = c \<and> b = f))"
  by (auto simp: add_call_def add_neighbor_def)

lemma add_calls_neighbors:
  "b \<in> set (neighbors (foldl (add_call names f) adj cs) a) \<longleftrightarrow> b \<in> set (neighbors adj a)
     \<or> (\<exists>c \<in> set cs. c \<in> names \<and> c \<noteq> f \<and> (a = f \<and> b = c \<or> a = c \<and> b = f))"
  by (induction cs arbitrary: adj) (auto simp: add_call_neighbors)

definition calls_other :: "FunctionInfo list \<Rightarrow> string \<Rightarrow> string \<Rightarrow> bool" where
  "calls_other funcs a b = (a \<noteq> b \<and> b \<in> fi_name ` set funcs
     \<and> (\<exists>f \<in> set funcs. fi_name f = a \<and> b \<in> set (fi_calls f)))"

lemma adjacencyOf_calls:
  "b \<in> set (neighbors (adjacencyOf funcs) a) \<longleftrightarrow> calls_other funcs a b \<or> calls_other funcs b a"
proof -
  let ?names = "set (map fi_name funcs)"
  have init: "neighbors (foldl (\<lambda>m f. map_set m (fi_name f) []) m fs) a
      = (if a \<in> fi_name ` set fs then [] else neighbors m a)" for m and fs :: "FunctionInfo list"
    by (induction fs arbitrary: m) auto
  have "neighbors [] a = []" by (simp add: neighbors_def)
  with init [of "[]" funcs] have none: "neighbors (foldl (\<lambda>m f. map_set m (fi_name f) []) [] funcs) a = []" by simp
  have "b \<in> set (neighbors (foldl (\<lambda>adj f. foldl (add_call names (fi_name f)) adj (fi_calls f)) adj fs) a)
    \<longleftrightarrow> b \<in> set (neighbors adj a) \<or> (\<exists>f \<in> set fs. \<exists>c \<in> set (fi_calls f). c \<in> names \<and> c \<noteq> fi_name f
        \<and> (a = fi_name f \<and> b = c \<or> a = c \<and> b = fi_name f))" for names adj and fs :: "FunctionInfo list"
    by (induction fs arbitrary: adj) (auto simp: add_calls_neighbors)
  moreover have "(\<exists>f \<in> S. \<exists>c \<in> set (C f). c \<in> N \<and> c \<noteq> n f \<and> (a = n f \<and> b = c \<or> a = c \<and> b = n f))
    \<longleftrightarrow> (a \<noteq> b \<and> b \<in> N \<and> (\<exists>f \<in> S. n f = a \<and> b \<in> set (C f))) \<or> (b \<noteq> a \<and> a \<in> N \<and> (\<exists>f \<in> S. n f = b \<and> a \<in> set (C f)))"
    for S :: "FunctionInfo set" and C N n by auto
  ultimately show ?thesis
    unfolding adjacencyOf_def Let_def calls_other_def set_map by (simp add: none)
qed

lemma symmetric_adjacencyOf: "symmetric_adj (adjacencyOf funcs)"
  by (auto simp: symmetric_adj_def adjacencyOf_calls)

text \<open>The connectedness is the share of the functions that the largest component holds.\<close>

lemma connectedness_component:
  assumes "1 < length funcs"
  shows "computeConnectedness funcs
    = real (Max ((\<lambda>f. card (component (adjacencyOf funcs) f)) ` fi_name ` set funcs)) / real (length funcs)"
proof -
  let ?adj = "adjacencyOf funcs"
  have "funcs \<noteq> []" using assms by auto
  moreover have "max_component ?adj [] 0 (map fi_name funcs)
      = Max (insert 0 ((\<lambda>f. card (component ?adj f)) ` set (map fi_name funcs)))"
    by (rule max_component_Max [OF symmetric_adjacencyOf]) (simp_all add: adj_closed_def)
  ultimately show ?thesis
    using assms by (simp add: computeConnectedness_def computeInternalCallShape_def maxComponentShare_def Let_def)
qed

lemma component_names:
  assumes "f \<in> fi_name ` set funcs"
  shows "component (adjacencyOf funcs) f \<subseteq> fi_name ` set funcs"
proof (rule closed_contains_component)
  show "adj_closed (adjacencyOf funcs) (fi_name ` set funcs)"
    by (auto simp: adj_closed_def adjacencyOf_calls calls_other_def)
qed (rule assms)

lemma component_card:
  assumes "f \<in> fi_name ` set funcs"
  shows "1 \<le> card (component (adjacencyOf funcs) f)" "card (component (adjacencyOf funcs) f) \<le> length funcs"
proof -
  have fin: "finite (component (adjacencyOf funcs) f)"
    by (rule finite_subset [OF component_names [OF assms]]) simp
  have "f \<in> component (adjacencyOf funcs) f" by (simp add: component_def)
  then show "1 \<le> card (component (adjacencyOf funcs) f)"
    using fin by (metis One_nat_def Suc_leI card_gt_0_iff empty_iff)
  have "card (component (adjacencyOf funcs) f) \<le> card (fi_name ` set funcs)"
    by (rule card_mono [OF _ component_names [OF assms]]) simp
  also have "\<dots> \<le> length funcs" by (metis card_length length_map set_map)
  finally show "card (component (adjacencyOf funcs) f) \<le> length funcs" .
qed

lemma connectedness_range: "0 < computeConnectedness funcs \<and> computeConnectedness funcs \<le> 1"
proof (cases "1 < length funcs")
  case True
  let ?S = "(\<lambda>f. card (component (adjacencyOf funcs) f)) ` fi_name ` set funcs"
  have "?S \<noteq> {}" "finite ?S" using True by auto
  then have "Max ?S \<in> ?S" by (rule Max_in [rotated])
  then have "1 \<le> Max ?S" "Max ?S \<le> length funcs" using component_card by auto
  then have "1 \<le> real (Max ?S)" "real (Max ?S) \<le> real (length funcs)" by linarith+
  moreover have "0 < real (length funcs)" using True by linarith
  ultimately show ?thesis
    unfolding connectedness_component [OF True] by (metis divide_le_eq_1_pos divide_pos_pos less_le_trans zero_less_one)
next
  case False
  then show ?thesis by (simp add: computeConnectedness_def computeInternalCallShape_def)
qed

lemma cohesion_range: "0 \<le> computeCohesion funcs \<and> computeCohesion funcs \<le> 1"
proof (cases "length funcs \<le> 1")
  case False
  then show ?thesis
    by (simp add: computeCohesion_def computeInternalCallShape_def cohesionOf_def Let_def)
qed (simp add: computeCohesion_def computeInternalCallShape_def)

lemma filter_le_filter:
  "(\<And>x. P x \<Longrightarrow> Q x) \<Longrightarrow> length (filter P xs) \<le> length (filter Q xs)"
  by (induction xs) (auto simp: le_SucI)

lemma call_sites_ordered:
  "cs_singleCallSiteFunctions (computeInternalCallShape funcs) \<le> cs_calledFunctions (computeInternalCallShape funcs)"
  by (auto simp: computeInternalCallShape_def Let_def intro!: filter_le_filter)

lemma single_call_ratio:
  "cs_singleCallSite (computeInternalCallShape funcs)
     = (let s = computeInternalCallShape funcs in if cs_calledFunctions s = 0 then None
        else Some (real (cs_singleCallSiteFunctions s) / real (cs_calledFunctions s)))"
  by (simp add: computeInternalCallShape_def Let_def)

section \<open>Properties\<close>

text \<open>C25: The connectedness of a file with several functions is the size of the largest connected
  component of its internal call graph, over the number of functions, where two functions are
  joined when either calls the other.\<close>

theorem connectedness_is_largest_component:
  assumes "1 < length funcs"
  shows "computeConnectedness funcs
      = real (Max ((\<lambda>f. card (component (adjacencyOf funcs) f)) ` fi_name ` set funcs)) / real (length funcs)
    \<and> adj_rel (adjacencyOf funcs) = {(a, b). calls_other funcs a b \<or> calls_other funcs b a}"
  using connectedness_component [OF assms] by (auto simp: adj_rel_def adjacencyOf_calls)

definition sample_function :: "string \<Rightarrow> string list \<Rightarrow> FunctionInfo" where
  "sample_function n cs = \<lparr>fi_name = n, fi_line = None, fi_branchCount = 0, fi_calls = cs, fi_callCounts = None,
     fi_ordinaryBranches = None, fi_guardBranches = None, fi_caseBranches = None\<rparr>"

definition sample_functions :: "FunctionInfo list" where
  "sample_functions = [sample_function ''f'' [''g''], sample_function ''g'' [], sample_function ''h'' []]"

theorem connectedness_is_largest_component_witness:
  "computeConnectedness sample_functions = 2 / 3
   \<and> Max ((\<lambda>f. card (component (adjacencyOf sample_functions) f)) ` fi_name ` set sample_functions) = 2"
proof -
  have "computeConnectedness sample_functions = 2 / 3" by code_simp
  moreover have "length sample_functions = 3" by (simp add: sample_functions_def)
  ultimately show ?thesis
    using connectedness_is_largest_component [of sample_functions] by (simp add: field_simps)
qed

text \<open>Connectedness lies in (0, 1], cohesion in [0, 1], and the functions with a single call
  site are among the functions that are called.\<close>

theorem call_shape_bounds:
  "0 < computeConnectedness funcs \<and> computeConnectedness funcs \<le> 1
   \<and> 0 \<le> computeCohesion funcs \<and> computeCohesion funcs \<le> 1
   \<and> cs_singleCallSiteFunctions (computeInternalCallShape funcs) \<le> cs_calledFunctions (computeInternalCallShape funcs)"
  using connectedness_range cohesion_range call_sites_ordered by blast

end
