(* ===== verification/Js_Path.thy ===== *)
theory Js_Path
  imports Js_String
begin

text \<open>
  Paths: the separator normalisation of \<open>infra/paths.ts\<close> and the POSIX behaviour of the
  \<open>node:path\<close> functions \<open>isAbsolute\<close>, \<open>resolve\<close> and \<open>relative\<close> that the code calls. The
  working directory is an argument.
\<close>

section \<open>Separators\<close>

definition toPosixPath :: "string \<Rightarrow> string" where
  "toPosixPath p = map (\<lambda>c. if c = CHR 0x5C then CHR ''/'' else c) p"

lemma toPosixPath_idem [simp]: "toPosixPath (toPosixPath p) = toPosixPath p"
  by (simp add: toPosixPath_def)

lemma toPosixPath_no_backslash: "CHR 0x5C \<notin> set (toPosixPath p)"
  by (auto simp: toPosixPath_def)

lemma toPosixPath_append [simp]: "toPosixPath (p @ q) = toPosixPath p @ toPosixPath q"
  by (simp add: toPosixPath_def)

lemma toPosixPath_id: "CHR 0x5C \<notin> set p \<Longrightarrow> toPosixPath p = p"
  unfolding toPosixPath_def by (induction p) auto

section \<open>POSIX \<open>node:path\<close>\<close>

definition isAbsolute :: "string \<Rightarrow> bool" where
  "isAbsolute p = starts_with p ''/''"

text \<open>Segments with \<open>.\<close> and empty ones dropped and \<open>..\<close> applied, never above the root.\<close>

definition path_step :: "string list \<Rightarrow> string \<Rightarrow> string list" where
  "path_step acc seg =
     (if seg = [] \<or> seg = ''.'' then acc
      else if seg = ''..'' then butlast acc else acc @ [seg])"

definition absolute_segments :: "string \<Rightarrow> string list" where
  "absolute_segments p = foldl path_step [] (split_on (CHR ''/'') p)"

definition render_absolute :: "string list \<Rightarrow> string" where
  "render_absolute segs = CHR ''/'' # join_with ''/'' segs"

definition node_resolve :: "string \<Rightarrow> string \<Rightarrow> string" where
  "node_resolve cwd p =
     render_absolute (absolute_segments (if isAbsolute p then p else cwd @ ''/'' @ p))"

fun strip_common :: "string list \<Rightarrow> string list \<Rightarrow> string list \<times> string list" where
  "strip_common (x # xs) (y # ys) = (if x = y then strip_common xs ys else (x # xs, y # ys))"
| "strip_common xs ys = (xs, ys)"

definition node_relative :: "string \<Rightarrow> string \<Rightarrow> string" where
  "node_relative from to =
     (case strip_common (absolute_segments from) (absolute_segments to) of
        (up, down) \<Rightarrow> join_with ''/'' (map (\<lambda>_. ''..'') up @ down))"

definition plain_segment :: "string \<Rightarrow> bool" where
  "plain_segment s = (s \<noteq> [] \<and> s \<noteq> ''.'' \<and> s \<noteq> ''..'' \<and> CHR ''/'' \<notin> set s)"

lemma path_step_plain:
  assumes "\<forall>s \<in> set acc. plain_segment s" "CHR ''/'' \<notin> set seg"
  shows "\<forall>s \<in> set (path_step acc seg). plain_segment s"
proof (cases "seg = [] \<or> seg = ''.'' \<or> seg = ''..''")
  case True
  then show ?thesis using assms(1) by (auto simp: path_step_def dest: in_set_butlastD)
next
  case False
  then have "plain_segment seg" "path_step acc seg = acc @ [seg]"
    using assms(2) by (simp_all add: plain_segment_def path_step_def)
  then show ?thesis using assms(1) by simp
qed

lemma foldl_path_step_plain:
  "\<forall>s \<in> set acc. plain_segment s \<Longrightarrow> \<forall>s \<in> set segs. CHR ''/'' \<notin> set s
    \<Longrightarrow> \<forall>s \<in> set (foldl path_step acc segs). plain_segment s"
proof (induction segs arbitrary: acc)
  case (Cons a segs)
  have "\<forall>s \<in> set (path_step acc a). plain_segment s"
    using Cons.prems by (intro path_step_plain) simp_all
  with Cons show ?case by simp
qed simp

lemma absolute_segments_plain: "\<forall>s \<in> set (absolute_segments p). plain_segment s"
  unfolding absolute_segments_def
  by (rule foldl_path_step_plain) (auto dest: split_on_parts_no_sep)

lemma path_step_append: "plain_segment s \<Longrightarrow> path_step acc s = acc @ [s]"
  by (simp add: path_step_def plain_segment_def)

lemma foldl_path_step_id:
  "\<forall>s \<in> set segs. plain_segment s \<Longrightarrow> foldl path_step acc segs = acc @ segs"
  by (induction segs arbitrary: acc) (simp_all add: path_step_append)

lemma absolute_segments_render:
  assumes "\<forall>s \<in> set segs. plain_segment s"
  shows "absolute_segments (render_absolute segs) = segs"
proof (cases "segs = []")
  case True
  then show ?thesis by (simp add: absolute_segments_def render_absolute_def path_step_def)
next
  case False
  then have "split_on (CHR ''/'') (join_with ''/'' segs) = segs"
    using assms by (intro split_join) (simp_all add: plain_segment_def)
  with assms show ?thesis
    by (simp add: absolute_segments_def render_absolute_def foldl_path_step_id path_step_def [of "[]" "[]"])
qed

lemma node_resolve_absolute [simp]: "isAbsolute (node_resolve cwd p)"
  by (simp add: node_resolve_def render_absolute_def isAbsolute_def starts_with_def)

lemma node_resolve_idem: "node_resolve cwd' (node_resolve cwd p) = node_resolve cwd p"
proof -
  have "node_resolve cwd' (node_resolve cwd p) = render_absolute (absolute_segments (node_resolve cwd p))"
    by (simp only: node_resolve_def [of cwd'] node_resolve_absolute if_True)
  also have "absolute_segments (node_resolve cwd p) = absolute_segments (if isAbsolute p then p else cwd @ ''/'' @ p)"
    unfolding node_resolve_def by (rule absolute_segments_render) (rule absolute_segments_plain)
  finally show ?thesis by (simp only: node_resolve_def)
qed

end
