(* ===== verification/File_Kinds.thy ===== *)
theory File_Kinds
  imports Ast Js_Path Js_Number
begin

text \<open>
  Which files are analysed and in which role: the language table (\<open>LanguageRegistry.ts\<close>),
  the excluded directories (\<open>scanExclusions.ts\<close>), file kinds (\<open>testGovernance.ts\<close>), path
  classes with their layer weights (\<open>pathClass.ts\<close>), the governance populations
  (\<open>fileParticipation.ts\<close>) and the identity of an analysis scope (\<open>analysisScope.ts\<close>).
  \<open>minimatch(path, pattern)\<close> is the argument \<open>mm\<close> and \<open>localeCompare\<close> the argument \<open>lc\<close>.
\<close>

section \<open>Languages\<close>

record LanguageSupport =
  ls_id :: string
  ls_extensions :: "string list"
  ls_projectIndicators :: "string list"

definition LANGUAGE_SUPPORTS :: "LanguageSupport list" where
  "LANGUAGE_SUPPORTS =
     [\<lparr>ls_id = ''typescript'', ls_extensions = [''.ts'', ''.tsx'', ''.mts'', ''.cts''], ls_projectIndicators = []\<rparr>,
      \<lparr>ls_id = ''javascript'', ls_extensions = [''.js'', ''.jsx'', ''.mjs'', ''.cjs''], ls_projectIndicators = []\<rparr>,
      \<lparr>ls_id = ''vue'', ls_extensions = [''.vue''], ls_projectIndicators = []\<rparr>,
      \<lparr>ls_id = ''go'', ls_extensions = [''.go''], ls_projectIndicators = [''go.mod'']\<rparr>,
      \<lparr>ls_id = ''rust'', ls_extensions = [''.rs''], ls_projectIndicators = [''Cargo.toml'']\<rparr>,
      \<lparr>ls_id = ''python'', ls_extensions = [''.py''],
       ls_projectIndicators = [''pyproject.toml'', ''setup.py'', ''setup.cfg'']\<rparr>,
      \<lparr>ls_id = ''java'', ls_extensions = [''.java''],
       ls_projectIndicators = [''pom.xml'', ''build.gradle'', ''build.gradle.kts'', ''settings.gradle'', ''settings.gradle.kts'']\<rparr>]"

definition supportForLanguage :: "string \<Rightarrow> LanguageSupport option" where
  "supportForLanguage language = find (\<lambda>entry. ls_id entry = language) LANGUAGE_SUPPORTS"

definition findLanguageForFile :: "string \<Rightarrow> LanguageSupport option" where
  "findLanguageForFile p =
     (let normalized = to_lower p
      in find (\<lambda>l. list_ex (ends_with normalized) (ls_extensions l)) LANGUAGE_SUPPORTS)"

definition extensionsForLanguages :: "string list \<Rightarrow> string list" where
  "extensionsForLanguages languages =
     uniq (concat (map (\<lambda>l. case supportForLanguage l of None \<Rightarrow> [] | Some s \<Rightarrow> ls_extensions s) languages))"

definition supportedLanguageIds :: "string list" where
  "supportedLanguageIds = map ls_id LANGUAGE_SUPPORTS"

definition registryDetectLanguages :: "string \<Rightarrow> (string \<Rightarrow> bool) \<Rightarrow> (string \<Rightarrow> string \<Rightarrow> string) \<Rightarrow> string list" where
  "registryDetectLanguages cwd existsAt join =
     map ls_id (filter (\<lambda>l. list_ex (\<lambda>i. existsAt (join cwd i)) (ls_projectIndicators l)) LANGUAGE_SUPPORTS)"

section \<open>Excluded directories\<close>

definition SCAN_EXCLUDED_SEGMENTS :: "string list" where
  "SCAN_EXCLUDED_SEGMENTS =
     [''/node_modules/'', ''/.git/'', ''/.openarch/'', ''/dist/'', ''/coverage/'', ''/vendor/'', ''/target/'',
      ''/build/'', ''/out/'', ''/.venv/'', ''/venv/'', ''/.next/'', ''/.turbo/'', ''/.cache/'', ''/bazel-out/'']"

definition SCAN_EXCLUDED_DIRECTORY_NAMES :: "string list" where
  "SCAN_EXCLUDED_DIRECTORY_NAMES = map (\<lambda>segment. butlast (tl segment)) SCAN_EXCLUDED_SEGMENTS"

section \<open>File kinds\<close>

datatype FileKind = fk_production | fk_test | fk_generated | fk_auxiliary

fun fileKindName :: "FileKind \<Rightarrow> string" where
  "fileKindName fk_production = ''production''"
| "fileKindName fk_test = ''test''"
| "fileKindName fk_generated = ''generated''"
| "fileKindName fk_auxiliary = ''auxiliary''"

record FileKindRule =
  fr_pattern :: string
  fr_kind :: FileKind

text \<open>\<open>(^|/)(?:__tests__|tests?)(?:/|$)\<close>: one of the three names is a segment.\<close>

definition has_test_segment :: "string \<Rightarrow> bool" where
  "has_test_segment p = list_ex (\<lambda>s. s \<in> set (split_on (CHR ''/'') p)) [''__tests__'', ''test'', ''tests'']"

text \<open>\<open>\.(?:test|spec)\.[^/]+$\<close>: tried at every position.\<close>

definition test_suffix_here :: "string \<Rightarrow> bool" where
  "test_suffix_here s = list_ex (\<lambda>p. starts_with s p \<and> length p < length s \<and> CHR ''/'' \<notin> set (drop (length p) s))
     [''.test.'', ''.spec.'']"

fun has_test_suffix :: "string \<Rightarrow> bool" where
  "has_test_suffix [] = False"
| "has_test_suffix (c # s) = (test_suffix_here (c # s) \<or> has_test_suffix s)"

definition classifyFileKind :: "string \<Rightarrow> FileKind" where
  "classifyFileKind filePath =
     (let p = to_lower (toPosixPath filePath) in
      if includes_str p ''/dist/'' \<or> includes_str p ''/generated/'' \<or> ends_with p ''.d.ts'' then fk_generated
      else if has_test_segment p \<or> has_test_suffix p \<or> ends_with p ''_test.go''
        \<or> list_ex (ends_with p) [''test.java'', ''tests.java'', ''it.java''] then fk_test
      else fk_production)"

definition normalizeForPolicy :: "string \<Rightarrow> string \<Rightarrow> string option \<Rightarrow> string" where
  "normalizeForPolicy cwd filePath projectRoot =
     (case projectRoot of
        None \<Rightarrow> toPosixPath filePath
      | Some rootDir \<Rightarrow>
          if rootDir = [] \<or> \<not> isAbsolute filePath then toPosixPath filePath
          else toPosixPath (node_relative (node_resolve cwd rootDir) (node_resolve cwd filePath)))"

definition firstMatchingKind :: "(string \<Rightarrow> string \<Rightarrow> bool) \<Rightarrow> string \<Rightarrow> FileKindRule list \<Rightarrow> FileKind option" where
  "firstMatchingKind mm p rules =
     map_option fr_kind (find (\<lambda>r. mm p (to_lower (toPosixPath (fr_pattern r)))) rules)"

definition classifyFileKindWithPolicy ::
  "(string \<Rightarrow> string \<Rightarrow> bool) \<Rightarrow> string \<Rightarrow> string \<Rightarrow> FileKindRule list \<Rightarrow> string option \<Rightarrow> FileKind" where
  "classifyFileKindWithPolicy mm cwd filePath rules projectRoot =
     (let policyPath = to_lower (normalizeForPolicy cwd filePath projectRoot)
      in or_default (firstMatchingKind mm policyPath rules) (classifyFileKind policyPath))"

section \<open>Populations\<close>

datatype GovernancePopulation = pop_observed | pop_production | pop_test | pop_change_evidence

definition effectiveFileKind :: "FileKind option \<Rightarrow> FileKind" where
  "effectiveFileKind k = or_default k fk_production"

fun participatesInPopulation :: "FileKind option \<Rightarrow> GovernancePopulation \<Rightarrow> bool" where
  "participatesInPopulation k pop_observed = True"
| "participatesInPopulation k pop_production = (effectiveFileKind k = fk_production)"
| "participatesInPopulation k pop_test = (effectiveFileKind k = fk_test)"
| "participatesInPopulation k pop_change_evidence =
     (effectiveFileKind k = fk_production \<or> effectiveFileKind k = fk_test)"

section \<open>Path classes\<close>

record PathClass =
  pc_pattern :: string
  pc_name :: string
  pc_weight :: "jsnum option"

definition classifyPath :: "(string \<Rightarrow> string \<Rightarrow> bool) \<Rightarrow> string \<Rightarrow> PathClass list \<Rightarrow> string" where
  "classifyPath mm filePath paths =
     (case find (\<lambda>c. mm (toPosixPath filePath) (toPosixPath (pc_pattern c))) paths of
        None \<Rightarrow> ''default'' | Some c \<Rightarrow> pc_name c)"

text \<open>The \<open>paths\<close> section of the configuration: entries by name, a missing pattern is empty.\<close>

definition parsePathClasses :: "(string \<times> string \<times> jsnum option) list option \<Rightarrow> PathClass list" where
  "parsePathClasses cfg =
     (let entries = (case cfg of None \<Rightarrow> []
            | Some paths \<Rightarrow> map (\<lambda>(k, pattern, weight). \<lparr>pc_pattern = pattern, pc_name = k, pc_weight = weight\<rparr>)
                (filter (\<lambda>(k, pattern, weight). pattern \<noteq> []) paths))
      in if list_ex (\<lambda>p. pc_name p = ''default'') entries then entries
         else entries @ [\<lparr>pc_pattern = ''**'', pc_name = ''default'', pc_weight = None\<rparr>])"

definition layerWeightOf :: "(string \<Rightarrow> string \<Rightarrow> bool) \<Rightarrow> string \<Rightarrow> PathClass list \<Rightarrow> real" where
  "layerWeightOf mm filePath classes =
     (let name = classifyPath mm filePath classes;
          w = Option.bind (find (\<lambda>c. pc_name c = name) classes) pc_weight
      in case w of Some (Fin x) \<Rightarrow> max (1/10) x | _ \<Rightarrow> 1)"

section \<open>Analysis scope\<close>

record AnalysisScope =
  as_languages :: "string list"
  as_extensions :: "string list"
  as_fileKindRules :: "FileKindRule list"
  as_fingerprint :: string

definition rule_key :: "FileKindRule \<Rightarrow> string" where
  "rule_key r = fr_pattern r @ '':'' @ fileKindName (fr_kind r)"

definition rule_text :: "FileKindRule \<Rightarrow> string" where
  "rule_text r = fr_pattern r @ ''='' @ fileKindName (fr_kind r)"

definition createAnalysisScope :: "string cmp \<Rightarrow> string list \<Rightarrow> FileKindRule list \<Rightarrow> AnalysisScope" where
  "createAnalysisScope lc languages fileKindRules =
     (let normalizedLanguages = sorted_uniq languages;
          extensions = sort (extensionsForLanguages normalizedLanguages);
          rules = js_sort (on_key lc rule_key) fileKindRules
      in \<lparr>as_languages = normalizedLanguages, as_extensions = extensions, as_fileKindRules = rules,
          as_fingerprint = ''scope-v2:'' @ join_with '','' normalizedLanguages @ '':'' @ join_with '','' extensions
             @ '':'' @ join_with '','' (map rule_text rules)\<rparr>)"

definition isPathInAnalysisScope :: "string \<Rightarrow> AnalysisScope \<Rightarrow> bool" where
  "isPathInAnalysisScope p scope =
     (let normalized = to_lower (toPosixPath p)
      in list_ex (ends_with normalized) (as_extensions scope)
         \<and> \<not> list_ex (includes_str normalized) SCAN_EXCLUDED_SEGMENTS)"

section \<open>Facts about the tables\<close>

definition all_extensions :: "string list" where
  "all_extensions = concat (map ls_extensions LANGUAGE_SUPPORTS)"

text \<open>An extension is a dot followed by characters that are not dots, so suffixes are unambiguous.\<close>

definition plain_extension :: "string \<Rightarrow> bool" where
  "plain_extension e = (e \<noteq> [] \<and> hd e = CHR ''.'' \<and> CHR ''.'' \<notin> set (tl e))"

lemma prefix_until: "c \<notin> set xs \<Longrightarrow> takeWhile (\<lambda>x. x \<noteq> c) (xs @ c # ys) = xs"
  by (induction xs) auto

lemma plain_extension_suffix_unique:
  assumes "plain_extension e" "plain_extension f" "ends_with p e" "ends_with p f"
  shows "e = f"
proof -
  obtain r where r: "p = r @ e" using assms(3) by (auto simp: ends_with_iff)
  obtain q where q: "p = q @ f" using assms(4) by (auto simp: ends_with_iff)
  obtain e' where e: "e = CHR ''.'' # e'" "CHR ''.'' \<notin> set e'"
    using assms(1) by (cases e) (auto simp: plain_extension_def)
  obtain f' where f: "f = CHR ''.'' # f'" "CHR ''.'' \<notin> set f'"
    using assms(2) by (cases f) (auto simp: plain_extension_def)
  have "rev e' @ CHR ''.'' # rev r = rev f' @ CHR ''.'' # rev q"
    using r q e(1) f(1) by (metis append.assoc append_Cons append_Nil rev.simps(2) rev_append)
  moreover have "CHR ''.'' \<notin> set (rev e')" "CHR ''.'' \<notin> set (rev f')" using e(2) f(2) by simp_all
  ultimately have "rev e' = rev f'" using prefix_until by metis
  with e(1) f(1) show ?thesis by simp
qed

lemma plain_all_extensions: "\<forall>e \<in> set all_extensions. plain_extension e"
  by (simp add: all_extensions_def LANGUAGE_SUPPORTS_def plain_extension_def)

lemma distinct_all_extensions: "distinct all_extensions"
  by (simp add: all_extensions_def LANGUAGE_SUPPORTS_def)

lemma distinct_language_ids: "distinct (map ls_id LANGUAGE_SUPPORTS)"
  by (simp add: LANGUAGE_SUPPORTS_def)

lemma find_SomeD: "find P xs = Some x \<Longrightarrow> x \<in> set xs \<and> P x"
  by (induction xs) (auto split: if_splits)

lemma find_unique:
  assumes "x \<in> set xs" "P x" "\<And>y. y \<in> set xs \<Longrightarrow> P y \<Longrightarrow> y = x"
  shows "find P xs = Some x"
proof -
  have "find P xs \<noteq> None" using assms(1,2) by (auto simp: find_None_iff)
  then obtain y where "find P xs = Some y" by blast
  moreover have "y = x" using assms(3) find_SomeD [OF calculation] by blast
  ultimately show ?thesis by simp
qed

lemma concat_distinct_owner:
  assumes "distinct (concat (map f xs))" "x \<in> set xs" "y \<in> set xs" "e \<in> set (f x)" "e \<in> set (f y)"
  shows "x = y"
  using assms by (induction xs) auto

lemma findLanguageForFile_iff:
  assumes "l \<in> set LANGUAGE_SUPPORTS"
  shows "findLanguageForFile p = Some l \<longleftrightarrow> (\<exists>e \<in> set (ls_extensions l). ends_with (to_lower p) e)"
proof
  assume "findLanguageForFile p = Some l"
  then show "\<exists>e \<in> set (ls_extensions l). ends_with (to_lower p) e"
    by (auto simp: findLanguageForFile_def Let_def list_ex_iff dest: find_SomeD)
next
  assume "\<exists>e \<in> set (ls_extensions l). ends_with (to_lower p) e"
  then obtain e where e: "e \<in> set (ls_extensions l)" "ends_with (to_lower p) e" by blast
  have "y = l" if y: "y \<in> set LANGUAGE_SUPPORTS" "list_ex (ends_with (to_lower p)) (ls_extensions y)" for y
  proof -
    from y(2) obtain f where f: "f \<in> set (ls_extensions y)" "ends_with (to_lower p) f" by (auto simp: list_ex_iff)
    have "e \<in> set all_extensions" "f \<in> set all_extensions"
      using e f assms y(1) by (auto simp: all_extensions_def)
    then have "e = f" using plain_all_extensions e(2) f(2) plain_extension_suffix_unique by blast
    with e(1) f(1) show "y = l"
      using concat_distinct_owner [of ls_extensions LANGUAGE_SUPPORTS y l e] distinct_all_extensions assms y(1)
      by (simp add: all_extensions_def)
  qed
  moreover have "list_ex (ends_with (to_lower p)) (ls_extensions l)" using e by (auto simp: list_ex_iff)
  ultimately show "findLanguageForFile p = Some l"
    unfolding findLanguageForFile_def Let_def using assms by (intro find_unique)
qed

lemma supportForLanguage_id: "supportForLanguage l = Some s \<Longrightarrow> ls_id s = l \<and> s \<in> set LANGUAGE_SUPPORTS"
  by (auto simp: supportForLanguage_def dest: find_SomeD)

lemma set_extensionsForLanguages:
  "set (extensionsForLanguages ls) = (\<Union>s \<in> {s \<in> set LANGUAGE_SUPPORTS. ls_id s \<in> set ls}. set (ls_extensions s))"
proof -
  have sup: "supportForLanguage (ls_id s) = Some s" if "s \<in> set LANGUAGE_SUPPORTS" for s
    unfolding supportForLanguage_def
  proof (rule find_unique [OF that])
    fix y assume "y \<in> set LANGUAGE_SUPPORTS" "ls_id y = ls_id s"
    then show "y = s" using that distinct_language_ids by (auto simp: distinct_map inj_on_def)
  qed simp
  show ?thesis
  proof (intro set_eqI iffI)
    fix e assume "e \<in> set (extensionsForLanguages ls)"
    then obtain l where l: "l \<in> set ls"
      "e \<in> set (case supportForLanguage l of None \<Rightarrow> [] | Some s \<Rightarrow> ls_extensions s)"
      unfolding extensionsForLanguages_def by auto
    then obtain s where "supportForLanguage l = Some s" "e \<in> set (ls_extensions s)"
      by (cases "supportForLanguage l") auto
    with l(1) show "e \<in> (\<Union>s \<in> {s \<in> set LANGUAGE_SUPPORTS. ls_id s \<in> set ls}. set (ls_extensions s))"
      using supportForLanguage_id by auto
  next
    fix e assume "e \<in> (\<Union>s \<in> {s \<in> set LANGUAGE_SUPPORTS. ls_id s \<in> set ls}. set (ls_extensions s))"
    then obtain s where s: "s \<in> set LANGUAGE_SUPPORTS" "ls_id s \<in> set ls" "e \<in> set (ls_extensions s)" by auto
    then have "e \<in> set (case supportForLanguage (ls_id s) of None \<Rightarrow> [] | Some s \<Rightarrow> ls_extensions s)"
      by (simp add: sup)
    with s(2) show "e \<in> set (extensionsForLanguages ls)" unfolding extensionsForLanguages_def by auto
  qed
qed

section \<open>Kinds and classes\<close>

lemma firstMatchingKind_Nil [simp]: "firstMatchingKind mm p [] = None"
  by (simp add: firstMatchingKind_def)

lemma firstMatchingKind_Cons:
  "firstMatchingKind mm p (r # rs) =
     (if mm p (to_lower (toPosixPath (fr_pattern r))) then Some (fr_kind r) else firstMatchingKind mm p rs)"
  by (simp add: firstMatchingKind_def)

lemma starts_with_rest: "starts_with t p \<and> length p < length t \<and> c \<notin> set (drop (length p) t)
    \<longleftrightarrow> (\<exists>v. t = p @ v \<and> v \<noteq> [] \<and> c \<notin> set v)"
proof
  assume "starts_with t p \<and> length p < length t \<and> c \<notin> set (drop (length p) t)"
  then show "\<exists>v. t = p @ v \<and> v \<noteq> [] \<and> c \<notin> set v"
    by (intro exI [of _ "drop (length p) t"]) (auto simp: starts_with_def, metis append_take_drop_id)
qed (auto simp: starts_with_def)

lemma test_suffix_here_iff:
  "test_suffix_here t \<longleftrightarrow> (\<exists>p v. t = p @ v \<and> p \<in> {''.test.'', ''.spec.''} \<and> v \<noteq> [] \<and> CHR ''/'' \<notin> set v)"
  unfolding test_suffix_here_def list_ex_iff starts_with_rest by (simp only: list.set) blast

lemma suffix_split: "(\<exists>u t. c # s = u @ t \<and> Q t) \<longleftrightarrow> Q (c # s) \<or> (\<exists>u t. s = u @ t \<and> Q t)"
  by (auto simp: Cons_eq_append_conv)

lemma has_test_suffix_iff:
  "has_test_suffix s \<longleftrightarrow> (\<exists>u v p. s = u @ p @ v \<and> p \<in> {''.test.'', ''.spec.''} \<and> v \<noteq> [] \<and> CHR ''/'' \<notin> set v)"
proof (induction s)
  case Nil
  then show ?case by auto
next
  case (Cons c s)
  let ?Q = "\<lambda>t. \<exists>p v. t = p @ v \<and> p \<in> {''.test.'', ''.spec.''} \<and> v \<noteq> [] \<and> CHR ''/'' \<notin> set v"
  have "has_test_suffix (c # s) \<longleftrightarrow> ?Q (c # s) \<or> (\<exists>u t. s = u @ t \<and> ?Q t)"
    unfolding has_test_suffix.simps test_suffix_here_iff Cons.IH by blast
  also have "\<dots> \<longleftrightarrow> (\<exists>u t. c # s = u @ t \<and> ?Q t)"
    using suffix_split [of c s ?Q] by blast
  finally show ?case by blast
qed

lemma parsePathClasses_default: "\<exists>c \<in> set (parsePathClasses cfg). pc_name c = ''default''"
  by (auto simp: parsePathClasses_def Let_def list_ex_iff)

lemma layerWeightOf_pos: "1/10 \<le> layerWeightOf mm p classes"
  by (auto simp: layerWeightOf_def Let_def split: option.splits jsnum.splits)

section \<open>The identity of a scope\<close>

lemma set_scope_extensions: "set (as_extensions (createAnalysisScope lc ls rs)) = set (extensionsForLanguages ls)"
  by (simp add: createAnalysisScope_def set_extensionsForLanguages Let_def)

lemma isPathInAnalysisScope_iff:
  "isPathInAnalysisScope p (createAnalysisScope lc ls rs) \<longleftrightarrow>
     (\<exists>l. findLanguageForFile (toPosixPath p) = Some l \<and> ls_id l \<in> set ls)
     \<and> (\<forall>seg \<in> set SCAN_EXCLUDED_SEGMENTS. \<not> includes_str (to_lower (toPosixPath p)) seg)"
proof -
  have "list_ex (ends_with (to_lower (toPosixPath p))) (as_extensions (createAnalysisScope lc ls rs))
      \<longleftrightarrow> (\<exists>l \<in> set LANGUAGE_SUPPORTS. ls_id l \<in> set ls \<and> (\<exists>e \<in> set (ls_extensions l). ends_with (to_lower (toPosixPath p)) e))"
    by (auto simp: list_ex_iff set_scope_extensions set_extensionsForLanguages)
  also have "\<dots> \<longleftrightarrow> (\<exists>l. findLanguageForFile (toPosixPath p) = Some l \<and> ls_id l \<in> set ls)"
    using findLanguageForFile_iff by (metis (no_types, lifting) findLanguageForFile_def find_SomeD)
  finally show ?thesis by (auto simp: isPathInAnalysisScope_def Let_def list_ex_iff)
qed

lemma createAnalysisScope_cong:
  assumes "comparator lc" "set ls = set ls'" "mset rs = mset rs'"
    and "\<forall>r \<in> set rs. \<forall>r' \<in> set rs. lc (rule_key r) (rule_key r') = 0 \<longrightarrow> r = r'"
  shows "createAnalysisScope lc ls rs = createAnalysisScope lc ls' rs'"
proof -
  have "sorted_uniq ls = sorted_uniq ls'" using assms(2) by (rule sorted_uniq_cong)
  moreover have "js_sort (on_key lc rule_key) rs = js_sort (on_key lc rule_key) rs'"
    using assms(1,3,4) by (intro comparator.js_sort_mset_cong comparator_on_key) (auto simp: on_key_def)
  ultimately show ?thesis by (simp add: createAnalysisScope_def)
qed

section \<open>Properties\<close>

text \<open>A path is in the scope of some languages exactly when its extension belongs to one of
  them, which no other language shares, and none of the excluded segments occurs in it.\<close>

theorem scope_membership:
  "isPathInAnalysisScope p (createAnalysisScope lc ls rs) \<longleftrightarrow>
     (\<exists>l. findLanguageForFile (toPosixPath p) = Some l \<and> ls_id l \<in> set ls)
     \<and> \<not> (\<exists>seg \<in> set SCAN_EXCLUDED_SEGMENTS. includes_str (to_lower (toPosixPath p)) seg)"
  by (simp add: isPathInAnalysisScope_iff)

text \<open>The identity of a scope depends on the set of its languages and the multiset of its rules
  only.\<close>

theorem scope_identity:
  assumes "comparator lc" "set ls = set ls'" "mset rs = mset rs'"
    and "\<forall>r \<in> set rs. \<forall>r' \<in> set rs. lc (rule_key r) (rule_key r') = 0 \<longrightarrow> r = r'"
  shows "createAnalysisScope lc ls rs = createAnalysisScope lc ls' rs'"
  using assms by (rule createAnalysisScope_cong)

theorem scope_identity_witness:
  "createAnalysisScope code_unit_cmp [''go'', ''rust''] [\<lparr>fr_pattern = ''x'', fr_kind = fk_test\<rparr>, \<lparr>fr_pattern = ''y'', fr_kind = fk_production\<rparr>]
   = createAnalysisScope code_unit_cmp [''rust'', ''go'', ''go''] [\<lparr>fr_pattern = ''y'', fr_kind = fk_production\<rparr>, \<lparr>fr_pattern = ''x'', fr_kind = fk_test\<rparr>]"
  by (rule scope_identity [OF code_unit.comparator_axioms]) (auto simp: rule_key_def code_unit_cmp_def split: if_splits)

text \<open>The first matching rule decides the kind of a file, so the order of the rules matters,
  while the scope and its fingerprint are the same for both orders.\<close>

theorem scope_blind_to_rule_order:
  "createAnalysisScope code_unit_cmp ls [\<lparr>fr_pattern = ''x'', fr_kind = fk_test\<rparr>, \<lparr>fr_pattern = ''y'', fr_kind = fk_production\<rparr>]
     = createAnalysisScope code_unit_cmp ls [\<lparr>fr_pattern = ''y'', fr_kind = fk_production\<rparr>, \<lparr>fr_pattern = ''x'', fr_kind = fk_test\<rparr>]
   \<and> firstMatchingKind (\<lambda>_ _. True) p [\<lparr>fr_pattern = ''x'', fr_kind = fk_test\<rparr>, \<lparr>fr_pattern = ''y'', fr_kind = fk_production\<rparr>] = Some fk_test
   \<and> firstMatchingKind (\<lambda>_ _. True) p [\<lparr>fr_pattern = ''y'', fr_kind = fk_production\<rparr>, \<lparr>fr_pattern = ''x'', fr_kind = fk_test\<rparr>] = Some fk_production"
proof -
  have "createAnalysisScope code_unit_cmp ls [\<lparr>fr_pattern = ''x'', fr_kind = fk_test\<rparr>, \<lparr>fr_pattern = ''y'', fr_kind = fk_production\<rparr>]
     = createAnalysisScope code_unit_cmp ls [\<lparr>fr_pattern = ''y'', fr_kind = fk_production\<rparr>, \<lparr>fr_pattern = ''x'', fr_kind = fk_test\<rparr>]"
    by (rule createAnalysisScope_cong [OF code_unit.comparator_axioms]) (auto simp: rule_key_def code_unit_cmp_def split: if_splits)
  then show ?thesis by (simp add: firstMatchingKind_Cons)
qed

end
