(* ===== verification/Test_Policy.thy ===== *)
theory Test_Policy
  imports File_Kinds Crl_State
begin

text \<open>
  Test governance: findings, the project policy with its expiring exemptions and its verdict
  (\<open>testGovernance.ts\<close>), the statement of how much of the test population was analysed
  (\<open>testGovernanceCoverage.ts\<close>, \<open>testProviderCoverage.ts\<close>), per-provider summaries
  (\<open>testFacts.ts\<close>) and the association of test files with production modules
  (\<open>testAssociations.ts\<close>).
\<close>

section \<open>Findings and policy\<close>

datatype TestFindingConfidence = tc_confirmed | tc_high | tc_medium | tc_low

datatype TestPolicyAction = act_block | act_warn | act_review

record TestFinding =
  tf_ruleId :: string
  tf_kind :: string
  tf_file :: string
  tf_evidence :: "string list"
  tf_confidence :: TestFindingConfidence
  tf_source :: string
  tf_testName :: "string option"
  tf_line :: "nat option"
  tf_unbaselined :: bool

definition unbaselinedOf :: "(string \<Rightarrow> string) \<Rightarrow> string list \<Rightarrow> string list \<Rightarrow> string list" where
  "unbaselinedOf toAbsolute discovered canonicalTestPaths =
     (let baseline = map toAbsolute canonicalTestPaths
      in filter (\<lambda>p. toAbsolute p \<notin> set baseline) discovered)"

record TestFindingExemption =
  ex_ruleId :: string
  ex_reason :: string
  ex_owner :: string
  ex_expires :: jsnum \<comment> \<open>\<open>Date.parse(expires)\<close>\<close>
  ex_file :: "string option"

record TestPolicy =
  tp_rules :: "(string, TestPolicyAction) jmap"
  tp_exemptions :: "TestFindingExemption list option"

datatype Verdict = v_PASS | v_WARN | v_BLOCK

record TestPolicyResult =
  tr_verdict :: Verdict
  tr_triggered :: "(TestFinding \<times> TestPolicyAction) list"
  tr_exempted :: "TestFinding list"

definition exemptionApplies :: "TestFinding \<Rightarrow> TestFindingExemption \<Rightarrow> jsnum \<Rightarrow> bool" where
  "exemptionApplies finding exemption now =
     (ex_ruleId exemption = tf_ruleId finding
      \<and> (ex_file exemption = None \<or> ex_file exemption = Some [] \<or> ex_file exemption = Some (tf_file finding))
      \<and> is_finite (ex_expires exemption) \<and> num_lt now (ex_expires exemption))"

definition isExempt :: "TestPolicy \<Rightarrow> jsnum \<Rightarrow> TestFinding \<Rightarrow> bool" where
  "isExempt policy now finding =
     list_ex (\<lambda>e. exemptionApplies finding e now) (or_default (tp_exemptions policy) [])"

definition testActionOf :: "TestPolicy \<Rightarrow> TestFinding \<Rightarrow> TestPolicyAction" where
  "testActionOf policy finding =
     or_default (or_option (map_get (tp_rules policy) (tf_kind finding))
                           (map_get (tp_rules policy) (tf_ruleId finding))) act_review"

definition evaluate_step ::
  "TestPolicy \<Rightarrow> jsnum \<Rightarrow> (TestFinding \<times> TestPolicyAction) list \<times> TestFinding list \<Rightarrow> TestFinding
     \<Rightarrow> (TestFinding \<times> TestPolicyAction) list \<times> TestFinding list" where
  "evaluate_step policy now s finding =
     (case s of (triggered, exempted) \<Rightarrow>
       if isExempt policy now finding then (triggered, exempted @ [finding])
       else if testActionOf policy finding \<noteq> act_review
         then (triggered @ [(finding, testActionOf policy finding)], exempted)
       else (triggered, exempted))"

definition evaluateTestPolicy :: "TestFinding list \<Rightarrow> TestPolicy \<Rightarrow> jsnum \<Rightarrow> TestPolicyResult" where
  "evaluateTestPolicy findings policy now =
     (case foldl (evaluate_step policy now) ([], []) findings of (triggered, exempted) \<Rightarrow>
       \<lparr>tr_verdict = (if list_ex (\<lambda>e. snd e = act_block) triggered then v_BLOCK
                      else if list_ex (\<lambda>e. snd e = act_warn) triggered then v_WARN else v_PASS),
        tr_triggered = triggered, tr_exempted = exempted\<rparr>)"

lemma foldl_evaluate_step:
  "foldl (evaluate_step policy now) (t, e) fs =
     (t @ map (\<lambda>f. (f, testActionOf policy f))
            (filter (\<lambda>f. \<not> isExempt policy now f \<and> testActionOf policy f \<noteq> act_review) fs),
      e @ filter (isExempt policy now) fs)"
  by (induction fs arbitrary: t e) (auto simp: evaluate_step_def)

lemma evaluateTestPolicy_triggered:
  "tr_triggered (evaluateTestPolicy fs policy now) = map (\<lambda>f. (f, testActionOf policy f))
     (filter (\<lambda>f. \<not> isExempt policy now f \<and> testActionOf policy f \<noteq> act_review) fs)"
  "tr_exempted (evaluateTestPolicy fs policy now) = filter (isExempt policy now) fs"
  by (simp_all add: evaluateTestPolicy_def foldl_evaluate_step)

lemma evaluateTestPolicy_verdict:
  "tr_verdict (evaluateTestPolicy fs policy now) =
     (if \<exists>f \<in> set fs. \<not> isExempt policy now f \<and> testActionOf policy f = act_block then v_BLOCK
      else if \<exists>f \<in> set fs. \<not> isExempt policy now f \<and> testActionOf policy f = act_warn then v_WARN
      else v_PASS)"
proof -
  have "list_ex (\<lambda>e. snd e = a) (tr_triggered (evaluateTestPolicy fs policy now))
      \<longleftrightarrow> (\<exists>f \<in> set fs. \<not> isExempt policy now f \<and> testActionOf policy f = a)" if "a \<noteq> act_review" for a
    using that by (auto simp: evaluateTestPolicy_triggered list_ex_iff)
  then show ?thesis
    by (simp add: evaluateTestPolicy_def foldl_evaluate_step)
qed

lemma isExempt_antimono:
  assumes "is_finite t'" "num_le t t'" "isExempt policy t' f"
  shows "isExempt policy t f"
proof -
  have "num_lt t' e \<Longrightarrow> num_lt t e" for e
    using assms(1,2) by (cases t; cases t'; cases e) auto
  with assms(3) show ?thesis by (auto simp: isExempt_def exemptionApplies_def list_ex_iff)
qed

section \<open>Coverage\<close>

text \<open>The first assessment that gives a result decides; otherwise everything was covered.\<close>

datatype CoverageStatus = cov_available | cov_partial | cov_unavailable | cov_not_configured | cov_not_applicable

datatype CoverageReason =
    cr_test_governance_not_configured
  | cr_no_test_files_discovered
  | cr_no_active_provider
  | cr_test_files_missing_from_baseline
  | cr_test_files_unrecognized
  | cr_provider_collection_failed
  | cr_baseline_scope_incompatible
  | cr_baseline_shapes_incompatible
  | cr_provider_not_applicable

record TestGovernanceCoverageInput =
  ti_configured :: bool
  ti_activeProviderCount :: nat
  ti_testFiles :: "string list"
  ti_unbaselinedTestFiles :: "string list"
  ti_providerHandledTestFiles :: "string list"
  ti_unrecognizedTestFiles :: "string list"
  ti_failedTestFiles :: "string list"
  ti_baselineScopeCompatible :: "bool option"
  ti_baselineShapesCompatible :: "bool option"

record CoverageBase =
  cb_testFiles :: nat
  cb_unbaselinedTestFiles :: "string list"
  cb_providerHandledTestFiles :: "string list"
  cb_unrecognizedTestFiles :: "string list"
  cb_failedTestFiles :: "string list"

record TestGovernanceCoverage =
  tg_status :: CoverageStatus
  tg_reasons :: "CoverageReason list"
  tg_base :: CoverageBase

definition coverageBaseOf :: "TestGovernanceCoverageInput \<Rightarrow> CoverageBase" where
  "coverageBaseOf i =
     \<lparr>cb_testFiles = length (ti_testFiles i),
      cb_unbaselinedTestFiles = sorted_uniq (ti_unbaselinedTestFiles i),
      cb_providerHandledTestFiles = sorted_uniq (ti_providerHandledTestFiles i),
      cb_unrecognizedTestFiles = sorted_uniq (ti_unrecognizedTestFiles i),
      cb_failedTestFiles = sorted_uniq (ti_failedTestFiles i)\<rparr>"

definition coverageReasonsOf :: "CoverageBase \<Rightarrow> TestGovernanceCoverageInput \<Rightarrow> CoverageReason list" where
  "coverageReasonsOf b i = present
     [only_if (ti_baselineScopeCompatible i = Some False) cr_baseline_scope_incompatible,
      only_if (ti_baselineShapesCompatible i = Some False) cr_baseline_shapes_incompatible,
      only_if (cb_unbaselinedTestFiles b \<noteq> []) cr_test_files_missing_from_baseline,
      only_if (cb_unrecognizedTestFiles b \<noteq> []) cr_test_files_unrecognized,
      only_if (cb_failedTestFiles b \<noteq> []) cr_provider_collection_failed]"

type_synonym CoverageAssessment = "TestGovernanceCoverageInput \<Rightarrow> CoverageBase \<Rightarrow> TestGovernanceCoverage option"

definition notConfigured :: CoverageAssessment where
  "notConfigured i b = only_if (\<not> ti_configured i)
     \<lparr>tg_status = cov_not_configured, tg_reasons = [cr_test_governance_not_configured], tg_base = b\<rparr>"

definition noTestFiles :: CoverageAssessment where
  "noTestFiles i b = only_if (ti_testFiles i = [])
     \<lparr>tg_status = cov_unavailable, tg_reasons = [cr_no_test_files_discovered], tg_base = b\<rparr>"

definition noActiveProvider :: CoverageAssessment where
  "noActiveProvider i b = only_if (ti_activeProviderCount i = 0)
     \<lparr>tg_status = cov_unavailable, tg_reasons = [cr_no_active_provider], tg_base = b\<rparr>"

definition noHandledTestFiles :: CoverageAssessment where
  "noHandledTestFiles i b = only_if (cb_providerHandledTestFiles b = [])
     \<lparr>tg_status = cov_unavailable, tg_reasons = coverageReasonsOf b i, tg_base = b\<rparr>"

definition staleBaselineIdentity :: CoverageAssessment where
  "staleBaselineIdentity i b =
     only_if (ti_baselineScopeCompatible i = Some False \<or> ti_baselineShapesCompatible i = Some False)
       \<lparr>tg_status = cov_partial, tg_reasons = coverageReasonsOf b i, tg_base = b\<rparr>"

definition partialCoverage :: CoverageAssessment where
  "partialCoverage i b =
     only_if (\<not> (cb_unbaselinedTestFiles b = [] \<and> cb_unrecognizedTestFiles b = [] \<and> cb_failedTestFiles b = []))
       \<lparr>tg_status = cov_partial, tg_reasons = coverageReasonsOf b i, tg_base = b\<rparr>"

definition assessTestGovernanceCoverage :: "TestGovernanceCoverageInput \<Rightarrow> TestGovernanceCoverage" where
  "assessTestGovernanceCoverage i =
     (let b = coverageBaseOf i in
      or_default (first_defined (map (\<lambda>evaluate. evaluate i b)
        [notConfigured, noTestFiles, noActiveProvider, noHandledTestFiles, staleBaselineIdentity, partialCoverage]))
        \<lparr>tg_status = cov_available, tg_reasons = [], tg_base = b\<rparr>)"

lemmas coverage_defs = notConfigured_def noTestFiles_def noActiveProvider_def noHandledTestFiles_def
  staleBaselineIdentity_def partialCoverage_def

lemma assess_available_iff:
  "tg_status (assessTestGovernanceCoverage i) = cov_available \<longleftrightarrow>
     ti_configured i \<and> ti_testFiles i \<noteq> [] \<and> 0 < ti_activeProviderCount i \<and> ti_providerHandledTestFiles i \<noteq> []
     \<and> ti_baselineScopeCompatible i \<noteq> Some False \<and> ti_baselineShapesCompatible i \<noteq> Some False
     \<and> ti_unbaselinedTestFiles i = [] \<and> ti_unrecognizedTestFiles i = [] \<and> ti_failedTestFiles i = []"
  by (auto simp: assessTestGovernanceCoverage_def coverage_defs coverageBaseOf_def Let_def only_if_def)

lemma assess_reasons:
  assumes "set (ti_testFiles i) \<subseteq> set (ti_providerHandledTestFiles i) \<union> set (ti_unbaselinedTestFiles i)
      \<union> set (ti_unrecognizedTestFiles i) \<union> set (ti_failedTestFiles i)"
  shows "tg_reasons (assessTestGovernanceCoverage i) = []
    \<longleftrightarrow> tg_status (assessTestGovernanceCoverage i) = cov_available"
  using assms
  by (auto simp: assessTestGovernanceCoverage_def coverage_defs coverageBaseOf_def coverageReasonsOf_def
      Let_def only_if_def)

record TestProviderCoverageInput =
  pi_providerId :: string
  pi_candidateTestFiles :: "string list"
  pi_unbaselinedTestFiles :: "string list"
  pi_providerHandledTestFiles :: "string list"
  pi_failedTestFiles :: "string list"

record TestProviderCoverage =
  tpc_providerId :: string
  tpc_status :: CoverageStatus
  tpc_reasons :: "CoverageReason list"
  tpc_candidateTestFiles :: "string list"
  tpc_unbaselinedTestFiles :: "string list"
  tpc_providerHandledTestFiles :: "string list"
  tpc_failedTestFiles :: "string list"

text \<open>The base is the coverage with its final answer, status \<open>available\<close> without reasons.\<close>

definition providerBaseOf :: "TestProviderCoverageInput \<Rightarrow> TestProviderCoverage" where
  "providerBaseOf i =
     \<lparr>tpc_providerId = pi_providerId i, tpc_status = cov_available, tpc_reasons = [],
      tpc_candidateTestFiles = sorted_uniq (pi_candidateTestFiles i),
      tpc_unbaselinedTestFiles = sorted_uniq (pi_unbaselinedTestFiles i),
      tpc_providerHandledTestFiles = sorted_uniq (pi_providerHandledTestFiles i),
      tpc_failedTestFiles = sorted_uniq (pi_failedTestFiles i)\<rparr>"

definition providerReasons :: "TestProviderCoverage \<Rightarrow> CoverageReason list" where
  "providerReasons b = present
     [only_if (tpc_unbaselinedTestFiles b \<noteq> []) cr_test_files_missing_from_baseline,
      only_if (tpc_failedTestFiles b \<noteq> []) cr_provider_collection_failed]"

definition providerNotApplicable :: "TestProviderCoverage \<Rightarrow> TestProviderCoverage option" where
  "providerNotApplicable b = only_if (tpc_candidateTestFiles b = [] \<and> tpc_unbaselinedTestFiles b = [])
     (b\<lparr>tpc_status := cov_not_applicable, tpc_reasons := [cr_provider_not_applicable]\<rparr>)"

definition providerUnavailable :: "TestProviderCoverage \<Rightarrow> TestProviderCoverage option" where
  "providerUnavailable b = only_if (tpc_providerHandledTestFiles b = [])
     (b\<lparr>tpc_status := cov_unavailable, tpc_reasons := providerReasons b\<rparr>)"

definition providerPartial :: "TestProviderCoverage \<Rightarrow> TestProviderCoverage option" where
  "providerPartial b = only_if (tpc_failedTestFiles b \<noteq> [] \<or> tpc_unbaselinedTestFiles b \<noteq> [])
     (b\<lparr>tpc_status := cov_partial, tpc_reasons := providerReasons b\<rparr>)"

definition assessTestProviderCoverage :: "TestProviderCoverageInput \<Rightarrow> TestProviderCoverage" where
  "assessTestProviderCoverage i =
     (let b = providerBaseOf i in
      or_default (first_defined (map (\<lambda>evaluate. evaluate b)
        [providerNotApplicable, providerUnavailable, providerPartial])) b)"

lemma provider_available_iff:
  "tpc_status (assessTestProviderCoverage i) = cov_available \<longleftrightarrow>
     (pi_candidateTestFiles i \<noteq> [] \<and> pi_providerHandledTestFiles i \<noteq> []
      \<and> pi_unbaselinedTestFiles i = [] \<and> pi_failedTestFiles i = [])"
  by (auto simp: assessTestProviderCoverage_def providerNotApplicable_def providerUnavailable_def
      providerPartial_def providerBaseOf_def Let_def only_if_def)

text \<open>Both assessments promise the same: available means every observed file was processed.\<close>

locale coverage_statement =
  fixes assess :: "'i \<Rightarrow> 'c" and status :: "'c \<Rightarrow> CoverageStatus" and reasons :: "'c \<Rightarrow> CoverageReason list"
    and gaps :: "'i \<Rightarrow> string set" and handled :: "'i \<Rightarrow> string set"
  assumes available_no_gaps: "status (assess i) = cov_available \<Longrightarrow> gaps i = {}"
    and available_handled: "status (assess i) = cov_available \<Longrightarrow> handled i \<noteq> {}"
    and available_no_reasons: "status (assess i) = cov_available \<Longrightarrow> reasons (assess i) = []"
begin

lemma gap_reported: "f \<in> gaps i \<Longrightarrow> status (assess i) \<noteq> cov_available"
  using available_no_gaps by blast

lemma reason_not_available: "r \<in> set (reasons (assess i)) \<Longrightarrow> status (assess i) \<noteq> cov_available"
  using available_no_reasons by auto

end

interpretation governance_coverage: coverage_statement assessTestGovernanceCoverage tg_status tg_reasons
  "\<lambda>i. set (ti_unbaselinedTestFiles i) \<union> set (ti_unrecognizedTestFiles i) \<union> set (ti_failedTestFiles i)"
  "\<lambda>i. set (ti_providerHandledTestFiles i)"
proof
  fix i
  assume "tg_status (assessTestGovernanceCoverage i) = cov_available"
  then show "tg_reasons (assessTestGovernanceCoverage i) = []"
    by (auto simp: assessTestGovernanceCoverage_def coverage_defs coverageBaseOf_def Let_def only_if_def
        split: if_splits)
qed (auto simp: assess_available_iff)

interpretation provider_coverage: coverage_statement assessTestProviderCoverage tpc_status tpc_reasons
  "\<lambda>i. set (pi_unbaselinedTestFiles i) \<union> set (pi_failedTestFiles i)"
  "\<lambda>i. set (pi_providerHandledTestFiles i)"
proof
  fix i
  assume "tpc_status (assessTestProviderCoverage i) = cov_available"
  then show "tpc_reasons (assessTestProviderCoverage i) = []"
    by (auto simp: assessTestProviderCoverage_def providerNotApplicable_def providerUnavailable_def
      providerPartial_def providerBaseOf_def Let_def only_if_def split: if_splits)
qed (auto simp: provider_available_iff)

section \<open>Properties\<close>

text \<open>The test gate blocks exactly when a finding that no running exemption covers has the
  action block, warns on such a finding with the action warn otherwise, and passes else; the
  findings it reports as exempted are exactly those an exemption covers.\<close>

theorem test_policy_verdict:
  "tr_verdict (evaluateTestPolicy fs policy now) =
     (if \<exists>f \<in> set fs. \<not> isExempt policy now f \<and> testActionOf policy f = act_block then v_BLOCK
      else if \<exists>f \<in> set fs. \<not> isExempt policy now f \<and> testActionOf policy f = act_warn then v_WARN
      else v_PASS)
   \<and> tr_exempted (evaluateTestPolicy fs policy now) = filter (isExempt policy now) fs"
  by (simp add: evaluateTestPolicy_verdict evaluateTestPolicy_triggered)

text \<open>Test coverage is available exactly when governance is configured, a provider is active and
  handled files of an existing population, the baseline is compatible and nothing was left out.\<close>

theorem test_coverage_available:
  "tg_status (assessTestGovernanceCoverage i) = cov_available \<longleftrightarrow>
     ti_configured i \<and> ti_testFiles i \<noteq> [] \<and> 0 < ti_activeProviderCount i \<and> ti_providerHandledTestFiles i \<noteq> []
     \<and> ti_baselineScopeCompatible i \<noteq> Some False \<and> ti_baselineShapesCompatible i \<noteq> Some False
     \<and> ti_unbaselinedTestFiles i = [] \<and> ti_unrecognizedTestFiles i = [] \<and> ti_failedTestFiles i = []"
  by (rule assess_available_iff)

text \<open>A file that a provider missed or failed on is never hidden: with it the coverage of the
  provider, and that of the whole test population, is not available.\<close>

theorem coverage_gap_reported:
  assumes "f \<in> set (ti_unbaselinedTestFiles i) \<union> set (ti_unrecognizedTestFiles i) \<union> set (ti_failedTestFiles i)"
    and "g \<in> set (pi_unbaselinedTestFiles j) \<union> set (pi_failedTestFiles j)"
  shows "tg_status (assessTestGovernanceCoverage i) \<noteq> cov_available \<and> tpc_status (assessTestProviderCoverage j) \<noteq> cov_available"
  using governance_coverage.gap_reported [OF assms(1)] provider_coverage.gap_reported [OF assms(2)] by blast

theorem coverage_gap_reported_witness:
  "tg_status (assessTestGovernanceCoverage \<lparr>ti_configured = True, ti_activeProviderCount = 1, ti_testFiles = [''a'', ''b''],
      ti_unbaselinedTestFiles = [], ti_providerHandledTestFiles = [''a''], ti_unrecognizedTestFiles = [''b''],
      ti_failedTestFiles = [], ti_baselineScopeCompatible = None, ti_baselineShapesCompatible = None\<rparr>) \<noteq> cov_available
   \<and> tpc_status (assessTestProviderCoverage \<lparr>pi_providerId = ''p'', pi_candidateTestFiles = [''a''], pi_unbaselinedTestFiles = [],
      pi_providerHandledTestFiles = [''a''], pi_failedTestFiles = [''c'']\<rparr>) \<noteq> cov_available"
  by (rule coverage_gap_reported [of "''b''" _ "''c''"]) simp_all

end
