(* ===== verification/Test_Facts.thy ===== *)
theory Test_Facts
  imports Test_Policy
begin

text \<open>
  Facts that providers collect about tests: per-provider summaries (\<open>testFacts.ts\<close>), the
  association of a test file with production modules (\<open>testAssociations.ts\<close>) and the
  declared language shapes with their fingerprint (\<open>languageShapes.ts\<close>).
\<close>

section \<open>Summaries\<close>

record TestCaseMetric =
  tm_name :: string
  tm_loc :: real
  tm_assertionCount :: real
  tm_mockCount :: real
  tm_statuses :: "string list"
  tm_testBodyControlFlow :: "real option"

record CollectedTestFacts =
  cf_providerId :: string
  cf_tests :: "TestCaseMetric list"

record TestProviderP95 =
  tp95_loc :: real
  tp95_assertionCount :: real
  tp95_mockCount :: real
  tp95_testBodyControlFlow :: "real option"

record TestProviderSummary =
  ts_providerId :: string
  ts_testFiles :: nat
  ts_testCases :: nat
  ts_p95 :: "TestProviderP95 option"

definition group_fact :: "(string, nat \<times> TestCaseMetric list) jmap \<Rightarrow> CollectedTestFacts
    \<Rightarrow> (string, nat \<times> TestCaseMetric list) jmap" where
  "group_fact grouped f =
     (let current = or_default (map_get grouped (cf_providerId f)) (0, [])
      in map_set grouped (cf_providerId f) (fst current + 1, snd current @ cf_tests f))"

definition summary_of :: "string \<times> nat \<times> TestCaseMetric list \<Rightarrow> TestProviderSummary" where
  "summary_of entry =
     (case entry of (providerId, testFiles, tests) \<Rightarrow>
       let flows = map tm_testBodyControlFlow tests;
           allControlFlowAvailable = list_all (\<lambda>f. f \<noteq> None) flows
       in \<lparr>ts_providerId = providerId, ts_testFiles = testFiles, ts_testCases = length tests,
           ts_p95 = (if tests = [] then None
             else Some \<lparr>tp95_loc = p95 (map tm_loc tests),
                        tp95_assertionCount = p95 (map tm_assertionCount tests),
                        tp95_mockCount = p95 (map tm_mockCount tests),
                        tp95_testBodyControlFlow =
                          (if allControlFlowAvailable then Some (p95 (present flows)) else None)\<rparr>)\<rparr>)"

definition summarizeTestFacts :: "string cmp \<Rightarrow> CollectedTestFacts list \<Rightarrow> TestProviderSummary list" where
  "summarizeTestFacts lc facts =
     map summary_of (js_sort (on_key lc fst) (foldl group_fact [] facts))"

lemma group_fact_map:
  "map_of (foldl group_fact g fs) p =
     (if p \<in> cf_providerId ` set fs \<or> map_of g p \<noteq> None
      then Some (fst (or_default (map_of g p) (0, [])) + length (filter (\<lambda>f. cf_providerId f = p) fs),
                 snd (or_default (map_of g p) (0, []))
                   @ concat (map cf_tests (filter (\<lambda>f. cf_providerId f = p) fs)))
      else None)"
proof (induction fs arbitrary: g)
  case Nil
  then show ?case by (cases "map_of g p") auto
next
  case (Cons f fs)
  have "map_of (group_fact g f) p = (if cf_providerId f = p
      then Some (fst (or_default (map_of g p) (0, [])) + 1, snd (or_default (map_of g p) (0, [])) @ cf_tests f)
      else map_of g p)"
    by (simp add: group_fact_def Let_def)
  with Cons [of "group_fact g f"] show ?case by (cases "map_of g p") auto
qed

lemma group_fact_keyed: "well_keyed g \<Longrightarrow> well_keyed (foldl group_fact g fs)"
  by (induction fs arbitrary: g) (auto simp: group_fact_def Let_def)

lemma summarize_entries:
  "s \<in> set (summarizeTestFacts lc fs) \<longleftrightarrow>
     (\<exists>p \<in> cf_providerId ` set fs. s = summary_of (p, length (filter (\<lambda>f. cf_providerId f = p) fs),
        concat (map cf_tests (filter (\<lambda>f. cf_providerId f = p) fs))))"
proof -
  have wk: "well_keyed (foldl group_fact [] fs)" by (rule group_fact_keyed) simp
  have "s \<in> set (summarizeTestFacts lc fs)
      \<longleftrightarrow> (\<exists>p v. map_of (foldl group_fact [] fs) p = Some v \<and> s = summary_of (p, v))"
    by (auto simp: summarizeTestFacts_def image_iff well_keyed_get [OF wk, symmetric])
  then show ?thesis by (auto simp: group_fact_map split: if_splits)
qed

section \<open>Test associations\<close>

record TestModuleAssociation =
  ta_targetPath :: string
  ta_source :: string
  ta_medium :: bool \<comment> \<open>confidence: \<open>low\<close> or \<open>medium\<close>\<close>
  ta_testName :: "string option"
  ta_symbol :: "string option"

record TestSymbolCallEvidence =
  tsc_testName :: string
  tsc_source :: string
  tsc_symbol :: string

definition normalizeTestPath :: "string \<Rightarrow> string \<Rightarrow> string" where
  "normalizeTestPath cwd p = toPosixPath (node_resolve cwd p)"

definition associate_step :: "string \<Rightarrow> string list \<Rightarrow> (string, TestModuleAssociation) jmap \<Rightarrow> ImportRef
    \<Rightarrow> (string, TestModuleAssociation) jmap" where
  "associate_step cwd production byTarget r =
     (case ir_resolvedPath r of
        None \<Rightarrow> byTarget
      | Some p \<Rightarrow>
          let targetPath = normalizeTestPath cwd p in
          if targetPath \<notin> set production \<or> map_has byTarget targetPath then byTarget
          else map_set byTarget targetPath
            \<lparr>ta_targetPath = targetPath, ta_source = ir_source r, ta_medium = False,
             ta_testName = None, ta_symbol = None\<rparr>)"

definition staticModuleAssociations ::
  "string cmp \<Rightarrow> string \<Rightarrow> ImportRef list \<Rightarrow> string list \<Rightarrow> TestModuleAssociation list" where
  "staticModuleAssociations lc cwd refs productionPaths =
     (let production = map (normalizeTestPath cwd) productionPaths
      in js_sort (on_key lc ta_targetPath) (map snd (foldl (associate_step cwd production) [] refs)))"

definition promoted_of :: "TestModuleAssociation list \<Rightarrow> (string, ExportedSymbol list option) jmap
    \<Rightarrow> TestSymbolCallEvidence \<Rightarrow> TestModuleAssociation option" where
  "promoted_of associations exportsByPath call =
     (case filter (\<lambda>a. ta_source a = tsc_source call) associations of
        [candidate] \<Rightarrow>
          (case Option.bind (map_get exportsByPath (ta_targetPath candidate)) (\<lambda>x. x) of
             None \<Rightarrow> None
           | Some exports \<Rightarrow> only_if (list_ex (\<lambda>s. es_name s = tsc_symbol call) exports)
               (candidate\<lparr>ta_medium := True, ta_testName := Some (tsc_testName call), ta_symbol := Some (tsc_symbol call)\<rparr>))
      | _ \<Rightarrow> None)"

definition promoteStaticModuleAssociations ::
  "string cmp \<Rightarrow> TestModuleAssociation list \<Rightarrow> TestSymbolCallEvidence list
     \<Rightarrow> (string, ExportedSymbol list option) jmap \<Rightarrow> TestModuleAssociation list" where
  "promoteStaticModuleAssociations lc associations calls exportsByPath =
     (let promoted = present (map (promoted_of associations exportsByPath) calls);
          promotedTargets = map ta_targetPath promoted
      in js_sort (or_cmp (on_key lc ta_targetPath) (on_key lc (\<lambda>a. or_default (ta_testName a) [])))
           (filter (\<lambda>a. ta_targetPath a \<notin> set promotedTargets) associations @ promoted))"

lemma associate_step_inv:
  assumes "\<forall>(k, a) \<in> set m. ta_targetPath a = k \<and> k \<in> set production \<and> \<not> ta_medium a" "well_keyed m"
  shows "(\<forall>(k, a) \<in> set (foldl (associate_step cwd production) m rs).
      ta_targetPath a = k \<and> k \<in> set production \<and> \<not> ta_medium a)
    \<and> well_keyed (foldl (associate_step cwd production) m rs)"
  using assms
proof (induction rs arbitrary: m)
  case (Cons r rs)
  have "well_keyed (associate_step cwd production m r)"
    using Cons.prems(2) by (auto simp: associate_step_def Let_def split: option.splits)
  moreover have "\<forall>(k, a) \<in> set (associate_step cwd production m r).
      ta_targetPath a = k \<and> k \<in> set production \<and> \<not> ta_medium a"
    using Cons.prems(1) by (auto simp: associate_step_def Let_def map_set_new split: option.splits)
  ultimately show ?case using Cons.IH by simp
qed simp

lemma staticModuleAssociations_targets:
  assumes "a \<in> set (staticModuleAssociations lc cwd refs production)"
  shows "ta_targetPath a \<in> normalizeTestPath cwd ` set production" "\<not> ta_medium a"
  using assms associate_step_inv [of "[]" "map (normalizeTestPath cwd) production" cwd refs]
  by (auto simp: staticModuleAssociations_def)

lemma promoted_ofE:
  assumes "promoted_of associations exportsByPath call = Some a"
  obtains c exports where "c \<in> set associations" "ta_source c = tsc_source call"
    "\<forall>c' \<in> set associations. ta_source c' = tsc_source call \<longrightarrow> c' = c"
    "map_get exportsByPath (ta_targetPath c) = Some (Some exports)"
    "\<exists>s \<in> set exports. es_name s = tsc_symbol call"
    "a = c\<lparr>ta_medium := True, ta_testName := Some (tsc_testName call), ta_symbol := Some (tsc_symbol call)\<rparr>"
proof -
  let ?fs = "filter (\<lambda>a. ta_source a = tsc_source call) associations"
  have "?fs \<noteq> []" "\<And>x y zs. ?fs \<noteq> x # y # zs" using assms unfolding promoted_of_def by auto
  then obtain c where c: "?fs = [c]" by (metis list.exhaust)
  let ?bound = "Option.bind (map_get exportsByPath (ta_targetPath c)) (\<lambda>x. x)"
  have some: "(case ?bound of None \<Rightarrow> None | Some exports \<Rightarrow> only_if (list_ex (\<lambda>s. es_name s = tsc_symbol call) exports)
      (c\<lparr>ta_medium := True, ta_testName := Some (tsc_testName call), ta_symbol := Some (tsc_symbol call)\<rparr>)) = Some a"
    using assms by (simp add: promoted_of_def c)
  then obtain exports where ex: "?bound = Some exports" by (cases ?bound) simp_all
  have upd: "list_ex (\<lambda>s. es_name s = tsc_symbol call) exports"
    "c\<lparr>ta_medium := True, ta_testName := Some (tsc_testName call), ta_symbol := Some (tsc_symbol call)\<rparr> = a"
    using some unfolding ex by (simp_all only: option.case only_if_eq_Some)
  have "c \<in> set ?fs" "\<forall>x \<in> set ?fs. x = c" using c by simp_all
  then have c': "c \<in> set associations" "ta_source c = tsc_source call"
    "\<forall>c' \<in> set associations. ta_source c' = tsc_source call \<longrightarrow> c' = c"
    unfolding set_filter mem_Collect_eq by blast+
  show thesis
  proof (rule that [OF c'])
    show "map_get exportsByPath (ta_targetPath c) = Some (Some exports)" using ex by (simp add: bind_eq_Some_conv)
    show "\<exists>s \<in> set exports. es_name s = tsc_symbol call" using upd(1) by (simp add: list_ex_iff)
    show "a = c\<lparr>ta_medium := True, ta_testName := Some (tsc_testName call), ta_symbol := Some (tsc_symbol call)\<rparr>"
      using upd(2) by (rule sym)
  qed
qed

lemma promote_members:
  "a \<in> set (promoteStaticModuleAssociations lc associations calls ex) \<longleftrightarrow>
     (\<exists>call \<in> set calls. promoted_of associations ex call = Some a)
     \<or> (a \<in> set associations
        \<and> (\<forall>call \<in> set calls. \<forall>b. promoted_of associations ex call = Some b \<longrightarrow> ta_targetPath b \<noteq> ta_targetPath a))"
proof -
  let ?f = "promoted_of associations ex"
  have key: "Some x \<in> ?f ` set calls \<longleftrightarrow> (\<exists>call \<in> set calls. ?f call = Some x)" for x
    by (metis image_iff)
  have target: "ta_targetPath a \<in> ta_targetPath ` X \<longleftrightarrow> (\<exists>b. b \<in> X \<and> ta_targetPath b = ta_targetPath a)" for X
    by (metis image_iff)
  show ?thesis
    unfolding promoteStaticModuleAssociations_def Let_def set_js_sort set_append set_filter set_present set_map
      Un_iff mem_Collect_eq target key by blast
qed

section \<open>Language shapes\<close>

datatype ShapeErrorKind = se_not_wired | se_unknown_shape_class | se_invalid_language_key | se_invalid_value

record LanguageShapeError =
  le_path :: string
  le_kind :: ShapeErrorKind
  le_message :: string

definition WIRED_SHAPE_CLASSES :: "string list" where
  "WIRED_SHAPE_CLASSES = [''weak_assertion_methods'']"

definition WIRED_SHAPE_LANGUAGES :: "string list" where
  "WIRED_SHAPE_LANGUAGES = [''java'', ''typescript'']"

definition NOT_WIRED_SHAPE_CLASSES :: "string list" where
  "NOT_WIRED_SHAPE_CLASSES = [''assertion_methods'', ''fixture_call_patterns'']"

text \<open>A project's shapes: the weak assertion methods of each declared language.\<close>

type_synonym ProjectShapes = "(string, string list) jmap"

definition is_language_key :: "string \<Rightarrow> bool" where
  "is_language_key s = (case s of [] \<Rightarrow> False
     | c # cs \<Rightarrow> is_lower_alpha c \<and> list_all (\<lambda>c. is_lower_alpha c \<or> is_digit c \<or> c \<in> set ''_+-'') cs)"

fun json_names :: "json list \<Rightarrow> string list option" where
  "json_names [] = Some []"
| "json_names (JStr s # js) = (if trim s = [] then None else map_option ((#) s) (json_names js))"
| "json_names _ = None"

definition not_wired_text :: string where
  "not_wired_text = '' is not yet wired in this version: declaring it would change baseline identity without changing judgement; ''"

definition invalid_names :: "string \<Rightarrow> LanguageShapeError" where
  "invalid_names classPath = \<lparr>le_path = classPath, le_kind = se_invalid_value,
     le_message = classPath @ '' must be a list of non-empty method names''\<rparr>"

definition SHAPE_LANGUAGE_HINTS :: "string \<Rightarrow> string option" where
  "SHAPE_LANGUAGE_HINTS language =
     only_if (language = ''javascript'' \<or> language = ''vue'') ''the js/ts/vue assertion family is declared as `typescript`''"

definition parseShapeClass :: "string \<Rightarrow> string \<Rightarrow> json \<Rightarrow> LanguageShapeError + string list" where
  "parseShapeClass classPath shapeClass rawNames =
     (if shapeClass \<notin> set WIRED_SHAPE_CLASSES then
        Inl (if shapeClass \<in> set NOT_WIRED_SHAPE_CLASSES
             then \<lparr>le_path = classPath, le_kind = se_not_wired, le_message = classPath @ not_wired_text @ ''not accepted''\<rparr>
             else \<lparr>le_path = classPath, le_kind = se_unknown_shape_class,
               le_message = classPath @ '' is not a known shape class; only '' @ join_with '', '' WIRED_SHAPE_CLASSES @ '' is supported''\<rparr>)
      else case rawNames of
          JArr xs \<Rightarrow> (case json_names xs of
              None \<Rightarrow> Inl (invalid_names classPath) | Some ns \<Rightarrow> Inr ns)
        | _ \<Rightarrow> Inl (invalid_names classPath))"

definition languageKeyError :: "string \<Rightarrow> string \<Rightarrow> LanguageShapeError option" where
  "languageKeyError language p =
     (if \<not> is_language_key language
      then Some \<lparr>le_path = p, le_kind = se_invalid_language_key, le_message = p @ '' is not a valid language id''\<rparr>
      else if language \<in> set WIRED_SHAPE_LANGUAGES then None
      else Some \<lparr>le_path = p, le_kind = se_not_wired,
        le_message = p @ not_wired_text @ ''wired languages are '' @ join_with '', '' WIRED_SHAPE_LANGUAGES
          @ (case SHAPE_LANGUAGE_HINTS language of None \<Rightarrow> [] | Some hint \<Rightarrow> '' ('' @ hint @ '')'')\<rparr>)"

fun parse_classes :: "string \<Rightarrow> (string \<times> json) list \<Rightarrow> string list \<times> LanguageShapeError list" where
  "parse_classes p [] = ([], [])"
| "parse_classes p ((c, raw) # rest) =
     (case parse_classes p rest of (names, errors) \<Rightarrow>
       (case parseShapeClass (p @ ''.'' @ c) c raw of
          Inl e \<Rightarrow> (names, e # errors) | Inr ns \<Rightarrow> (ns @ names, errors)))"

definition parseLanguageEntry :: "string \<Rightarrow> json \<Rightarrow> string list option \<times> LanguageShapeError list" where
  "parseLanguageEntry language raw =
     (let p = ''shapes.'' @ language in
      case languageKeyError language p of
        Some e \<Rightarrow> (None, [e])
      | None \<Rightarrow>
          (case raw of
             JObj kvs \<Rightarrow>
               (case parse_classes p kvs of (names, errors) \<Rightarrow>
                  (if names \<noteq> [] then Some names else None, errors))
           | _ \<Rightarrow> (None, [\<lparr>le_path = p, le_kind = se_invalid_value,
               le_message = p @ '' must be a mapping of shape class to value''\<rparr>])))"

definition parse_language_step ::
  "ProjectShapes \<times> LanguageShapeError list \<Rightarrow> string \<times> json \<Rightarrow> ProjectShapes \<times> LanguageShapeError list" where
  "parse_language_step s entry =
     (case s of (shapes, errors) \<Rightarrow>
      (case parseLanguageEntry (fst entry) (snd entry) of (ns, es) \<Rightarrow>
        (case ns of None \<Rightarrow> shapes | Some names \<Rightarrow> map_set shapes (fst entry) names, errors @ es)))"

definition parseLanguageShapes :: "json option \<Rightarrow> ProjectShapes \<times> LanguageShapeError list" where
  "parseLanguageShapes v =
     (case v of
        None \<Rightarrow> ([], [])
      | Some (JObj kvs) \<Rightarrow> foldl parse_language_step ([], []) kvs
      | Some _ \<Rightarrow> ([], [\<lparr>le_path = ''shapes'', le_kind = se_invalid_value,
          le_message = ''shapes must be a mapping of language to language shapes''\<rparr>]))"

definition shapes_entry :: "ProjectShapes \<Rightarrow> string \<Rightarrow> string option" where
  "shapes_entry shapes language =
     (case map_get shapes language of
        None \<Rightarrow> None
      | Some declared \<Rightarrow>
          let names = sorted_uniq declared in
          only_if (names \<noteq> []) (language @ '':weak_assertion_methods:'' @ join_with '','' names))"

definition shapesFingerprintOf :: "ProjectShapes \<Rightarrow> string" where
  "shapesFingerprintOf shapes = join_with '';'' (present (map (shapes_entry shapes) (sort (map_keys shapes))))"

datatype ShapesSource = ss_project | ss_builtin

definition shapesSourceOf :: "string \<Rightarrow> ShapesSource" where
  "shapesSourceOf fingerprint = (if fingerprint = [] then ss_builtin else ss_project)"

text \<open>The fingerprint depends on the declared sets only, not on the order they are written in.\<close>

lemma sort_distinct_cong: "distinct xs \<Longrightarrow> distinct ys \<Longrightarrow> set xs = set ys \<Longrightarrow> sort xs = sort ys"
  by (metis set_sort sorted_distinct_set_unique distinct_sort sorted_sort)

lemma shapes_entry_set:
  "shapes_entry s l = Option.bind (map_option set (map_get s l)) (\<lambda>S. only_if (S \<noteq> {})
     (l @ '':weak_assertion_methods:'' @ join_with '','' (sorted_list_of_set S)))"
  unfolding shapes_entry_def Let_def
  by (cases "map_get s l") (simp_all only: sorted_uniq_Nil_iff option.case option.map Option.bind.simps
      sorted_uniq_eq_sorted_list_of_set set_empty sorted_list_of_set_eq_Nil_iff List.finite_set simp_thms)

lemma shapesFingerprintOf_cong:
  assumes "well_keyed s" "well_keyed t" "fst ` set s = fst ` set t"
    and "\<And>l. map_option set (map_get s l) = map_option set (map_get t l)"
  shows "shapesFingerprintOf s = shapesFingerprintOf t"
proof -
  have "shapes_entry s l = shapes_entry t l" for l by (simp only: shapes_entry_set assms(4))
  moreover have "sort (map_keys s) = sort (map_keys t)"
    using assms(1-3) by (intro sort_distinct_cong) (simp_all add: well_keyed_def map_keys_def)
  ultimately show ?thesis by (simp add: shapesFingerprintOf_def cong: map_cong)
qed

lemma join_with_eq_Nil: "join_with sep xs = [] \<Longrightarrow> sep \<noteq> [] \<Longrightarrow> xs = [] \<or> xs = [[]]"
  by (cases "(sep, xs)" rule: join_with.cases) auto

lemma shapesFingerprintOf_empty:
  "shapesFingerprintOf s = [] \<longleftrightarrow> (\<forall>l names. map_get s l = Some names \<longrightarrow> names = [])"
proof
  assume "shapesFingerprintOf s = []"
  then have "present (map (shapes_entry s) (sort (map_keys s))) = []
      \<or> present (map (shapes_entry s) (sort (map_keys s))) = [[]]"
    unfolding shapesFingerprintOf_def by (rule join_with_eq_Nil) simp
  moreover have "[] \<notin> set (present (map (shapes_entry s) (sort (map_keys s))))"
    by (auto simp: shapes_entry_set bind_eq_Some_conv eq_commute [of "Some []"])
  ultimately have "present (map (shapes_entry s) (sort (map_keys s))) = []" by (metis list.set_intros(1))
  then have "set (map (shapes_entry s) (sort (map_keys s))) \<subseteq> {None}" by (simp only: present_Nil_iff)
  then have none: "shapes_entry s l \<noteq> Some t" if "l \<in> set (map_keys s)" for l t using that by fastforce
  show "\<forall>l names. map_get s l = Some names \<longrightarrow> names = []"
  proof (intro allI impI)
    fix l names assume get: "map_get s l = Some names"
    then have "l \<in> set (map_keys s)" by (metis map_of_SomeD fst_conv imageI set_map_keys)
    then have "shapes_entry s l = None" using none by (cases "shapes_entry s l") auto
    then show "names = []" by (simp add: shapes_entry_set get)
  qed
next
  assume empty: "\<forall>l names. map_get s l = Some names \<longrightarrow> names = []"
  then have "shapes_entry s l = None" for l by (auto simp: shapes_entry_def Let_def split: option.splits)
  then have "set (map (shapes_entry s) (sort (map_keys s))) \<subseteq> {None}" by auto
  then have "present (map (shapes_entry s) (sort (map_keys s))) = []" using present_Nil_iff by blast
  then show "shapesFingerprintOf s = []" by (simp add: shapesFingerprintOf_def)
qed

text \<open>Only wired languages ever become declared shapes, and a declared language has names.\<close>

lemma parseLanguageEntry_Some:
  assumes "parseLanguageEntry l raw = (Some names, es)"
  shows "l \<in> set WIRED_SHAPE_LANGUAGES" "names \<noteq> []"
  using assms
  by (auto simp: parseLanguageEntry_def languageKeyError_def Let_def split: option.splits if_splits json.splits prod.splits)

lemma parse_languages_wired:
  assumes "\<forall>(l, ns) \<in> set (fst s). l \<in> set WIRED_SHAPE_LANGUAGES \<and> ns \<noteq> []" "well_keyed (fst s)"
  shows "(\<forall>(l, ns) \<in> set (fst (foldl parse_language_step s kvs)). l \<in> set WIRED_SHAPE_LANGUAGES \<and> ns \<noteq> [])
    \<and> well_keyed (fst (foldl parse_language_step s kvs))"
  using assms
proof (induction kvs arbitrary: s)
  case (Cons e kvs)
  obtain shapes errors where s: "s = (shapes, errors)" by (cases s)
  obtain ns es where entry: "parseLanguageEntry (fst e) (snd e) = (ns, es)" by (cases "parseLanguageEntry (fst e) (snd e)")
  let ?s = "parse_language_step s e"
  have wk: "well_keyed (fst ?s)"
    using Cons.prems(2) s entry by (auto simp: parse_language_step_def split: option.splits)
  have "l \<in> set WIRED_SHAPE_LANGUAGES \<and> names \<noteq> []" if "(l, names) \<in> set (fst ?s)" for l names
  proof (cases ns)
    case None
    then show ?thesis using that Cons.prems(1) s entry by (auto simp: parse_language_step_def)
  next
    case (Some names')
    then have "map_get (map_set shapes (fst e) names') l = Some names"
      using that wk s entry well_keyed_get [OF wk] by (auto simp: parse_language_step_def)
    then show ?thesis
      using Some entry parseLanguageEntry_Some [of "fst e" "snd e"] Cons.prems s
      by (auto simp: map_get_set split: if_splits dest: map_of_SomeD)
  qed
  then have "\<forall>(l, ns) \<in> set (fst ?s). l \<in> set WIRED_SHAPE_LANGUAGES \<and> ns \<noteq> []" by auto
  with wk Cons.IH show ?case by simp
qed simp

lemma parseLanguageShapes_wired:
  "\<forall>(l, ns) \<in> set (fst (parseLanguageShapes v)). l \<in> set WIRED_SHAPE_LANGUAGES \<and> ns \<noteq> []"
  "well_keyed (fst (parseLanguageShapes v))"
  using parse_languages_wired [of "([], [])"]
  by (auto simp: parseLanguageShapes_def split: option.splits json.splits)

lemma parseLanguageShapes_source:
  "shapesSourceOf (shapesFingerprintOf (fst (parseLanguageShapes v))) = ss_project
     \<longleftrightarrow> fst (parseLanguageShapes v) \<noteq> []"
proof -
  let ?s = "fst (parseLanguageShapes v)"
  have "shapesFingerprintOf ?s = [] \<longleftrightarrow> ?s = []"
  proof
    assume "shapesFingerprintOf ?s = []"
    then have none: "\<forall>l names. map_get ?s l = Some names \<longrightarrow> names = []" by (simp only: shapesFingerprintOf_empty)
    have "e \<notin> set ?s" for e
    proof
      assume e: "e \<in> set ?s"
      then have "map_get ?s (fst e) = Some (snd e)"
        using well_keyed_get [OF parseLanguageShapes_wired(2)] by (metis prod.collapse)
      with none e parseLanguageShapes_wired(1) show False by (cases e) fastforce
    qed
    then show "?s = []" by (metis list.set_intros(1) neq_Nil_conv)
  qed (simp add: shapesFingerprintOf_def map_keys_def)
  then show ?thesis by (simp add: shapesSourceOf_def)
qed

section \<open>Properties\<close>

text \<open>Whatever the declared value is, only wired languages become shapes, each once and with
  names, and the source of the shapes is the project exactly when it declares some.\<close>

theorem declared_shapes_are_wired:
  "fst ` set (fst (parseLanguageShapes v)) \<subseteq> set WIRED_SHAPE_LANGUAGES \<and> [] \<notin> snd ` set (fst (parseLanguageShapes v))
   \<and> well_keyed (fst (parseLanguageShapes v))
   \<and> (shapesSourceOf (shapesFingerprintOf (fst (parseLanguageShapes v))) = ss_project \<longleftrightarrow> fst (parseLanguageShapes v) \<noteq> [])"
  using parseLanguageShapes_wired [of v] parseLanguageShapes_source [of v] by fastforce

text \<open>The fingerprint of the shapes depends on the declared sets only, not on the order in which
  languages and names are written nor on repeated names.\<close>

theorem shapes_fingerprint_canonical:
  assumes "well_keyed s" "well_keyed t" "fst ` set s = fst ` set t"
    and "\<And>l. map_option set (map_get s l) = map_option set (map_get t l)"
  shows "shapesFingerprintOf s = shapesFingerprintOf t"
  using assms by (rule shapesFingerprintOf_cong)

theorem shapes_fingerprint_canonical_witness:
  "shapesFingerprintOf [(''java'', [''b'', ''a'']), (''typescript'', [''c''])]
   = shapesFingerprintOf [(''typescript'', [''c'', ''c'']), (''java'', [''a'', ''b''])]"
  by (rule shapes_fingerprint_canonical) (auto simp: well_keyed_def)

text \<open>An association is promoted exactly when a test calls an exported symbol of the only module
  that the call's source names; a module with a promoted association keeps no static one.\<close>

theorem promoted_associations:
  "set (promoteStaticModuleAssociations lc associations calls ex)
     = {a. \<exists>call \<in> set calls. promoted_of associations ex call = Some a}
       \<union> {a \<in> set associations. \<not> (\<exists>call \<in> set calls. \<exists>b. promoted_of associations ex call = Some b \<and> ta_targetPath b = ta_targetPath a)}"
proof (rule set_eqI)
  fix a
  show "a \<in> set (promoteStaticModuleAssociations lc associations calls ex)
      \<longleftrightarrow> a \<in> {a. \<exists>call \<in> set calls. promoted_of associations ex call = Some a}
       \<union> {a \<in> set associations. \<not> (\<exists>call \<in> set calls. \<exists>b. promoted_of associations ex call = Some b \<and> ta_targetPath b = ta_targetPath a)}"
    using promote_members [of a lc associations calls ex] by blast
qed

end
