(* ===== verification/Governance.thy ===== *)
theory Governance
  imports Js_Number Js_Path
begin

text \<open>
  The governance runtime contract (\<open>governance.ts\<close>) and the validation of exported evidence
  (\<open>validationEvidence.ts\<close>). A thrown \<open>Error\<close> is its message on the left of a sum. Runtime
  guards take raw values, as their callers may pass them: a policy action and a subject kind
  are strings here.
\<close>

type_synonym 'a result = "string + 'a"

section \<open>Facts\<close>

datatype GovernanceAvailability = av_available | av_partial | av_unavailable

record GovernanceFact =
  gf_id :: string
  gf_domain :: string
  gf_availability :: GovernanceAvailability
  gf_value :: "json option"
  gf_reason :: "string option"

record FactSelection =
  fs_domains :: "string list option"
  fs_factIds :: "string list option"

definition selectFacts :: "GovernanceFact list \<Rightarrow> FactSelection \<Rightarrow> GovernanceFact list" where
  "selectFacts facts selection =
     (let domains = or_default (fs_domains selection) []; ids = or_default (fs_factIds selection) []
      in filter (\<lambda>gfact. gf_domain gfact \<in> set domains \<or> gf_id gfact \<in> set ids) facts)"

definition hasText :: "string option \<Rightarrow> bool" where
  "hasText v = (case v of None \<Rightarrow> False | Some s \<Rightarrow> trim s \<noteq> [])"

definition validateGovernanceFact :: "GovernanceFact \<Rightarrow> GovernanceFact result" where
  "validateGovernanceFact gfact =
     (if \<not> hasText (Some (gf_id gfact)) then Inl ''GovernanceFact requires an id''
      else if gf_availability gfact = av_available \<and> gf_value gfact = None
        then Inl ''available GovernanceFact requires a value''
      else if gf_availability gfact = av_unavailable \<and> gf_value gfact \<noteq> None
        then Inl ''unavailable GovernanceFact cannot expose a value''
      else if gf_availability gfact \<noteq> av_available \<and> \<not> hasText (gf_reason gfact)
        then Inl ''partial or unavailable GovernanceFact requires a reason''
      else Inr gfact)"

section \<open>Policies\<close>

record PolicySubject =
  psu_kind :: string
  psu_metricId :: "string option"
  psu_findingId :: "string option"

record PolicyProjection =
  ppr_policyId :: "string option"
  ppr_subject :: PolicySubject
  ppr_action :: string

definition validatePolicyProjection :: "PolicyProjection \<Rightarrow> PolicyProjection result" where
  "validatePolicyProjection p =
     (if \<not> hasText (ppr_policyId p) then Inl ''PolicyProjection requires a policy id''
      else if ppr_action p \<notin> set [''report'', ''warn'', ''block''] then Inl ''PolicyProjection has an invalid action''
      else if psu_kind (ppr_subject p) = ''metric'' \<and> hasText (psu_metricId (ppr_subject p)) then Inr p
      else if psu_kind (ppr_subject p) = ''finding'' \<and> hasText (psu_findingId (ppr_subject p)) then Inr p
      else Inl ''PolicyProjection source must be a metric or finding'')"

section \<open>Calibration profiles\<close>

datatype CalibrationSource = src_baseline | src_provider | src_external_evidence

record CalibrationProfile =
  cp_id :: string
  cp_analysisScopeFingerprint :: string
  cp_metricContractVersion :: string
  cp_populationFingerprint :: string
  cp_source :: CalibrationSource

definition sameCalibrationPopulation :: "('a CalibrationProfile_scheme) \<Rightarrow> ('a CalibrationProfile_scheme) \<Rightarrow> bool" where
  "sameCalibrationPopulation l r =
     (cp_analysisScopeFingerprint l = cp_analysisScopeFingerprint r
      \<and> cp_metricContractVersion l = cp_metricContractVersion r
      \<and> cp_populationFingerprint l = cp_populationFingerprint r
      \<and> cp_source l = cp_source r)"

section \<open>Persisted versions\<close>

record 'v PersistedVersionBoundary =
  pv_storage :: string
  pv_version :: 'v
  pv_missingRejected :: bool

definition supportsPersistedVersion :: "'v PersistedVersionBoundary \<Rightarrow> 'v \<Rightarrow> bool" where
  "supportsPersistedVersion boundary v = (v = pv_version boundary)"

section \<open>Validation evidence\<close>

record ValidationEvidence =
  ve_projectToken :: string
  ve_observedAt :: string
  ve_startedAt :: string
  ve_endedAt :: string
  ve_openarchVersion :: string
  ve_languages :: "string list"
  ve_providerId :: string
  ve_providerVersion :: string
  ve_ruleId :: string
  ve_authorityId :: string
  ve_findingCount :: jsnum
  ve_falsePositives :: jsnum
  ve_falseNegatives :: jsnum

text \<open>\<open>Date.parse\<close> is the argument \<open>parse\<close>: the time value, \<open>NaN\<close> for an invalid text.\<close>

definition validTime :: "(string \<Rightarrow> jsnum) \<Rightarrow> string \<Rightarrow> bool" where
  "validTime parse v = is_finite (parse v)"

definition identifier_char :: "char \<Rightarrow> bool" where
  "identifier_char c = (is_alpha c \<or> is_digit c \<or> c \<in> set ''._:@-'')"

definition validCalibrationIdentifier :: "string \<Rightarrow> bool" where
  "validCalibrationIdentifier s =
     (case s of [] \<Rightarrow> False
      | c # cs \<Rightarrow> (is_alpha c \<or> is_digit c) \<and> length cs \<le> 127 \<and> list_all identifier_char cs)"

definition valid_count :: "jsnum \<Rightarrow> bool" where
  "valid_count n = (case n of Fin x \<Rightarrow> of_int \<lfloor>x\<rfloor> = x \<and> 0 \<le> x | _ \<Rightarrow> False)"

definition validateValidationEvidence :: "(string \<Rightarrow> jsnum) \<Rightarrow> ValidationEvidence \<Rightarrow> ValidationEvidence result" where
  "validateValidationEvidence parse v =
     (if trim (ve_projectToken v) = [] \<or> trim (ve_openarchVersion v) = [] \<or> trim (ve_providerId v) = []
         \<or> trim (ve_providerVersion v) = []
        then Inl ''ValidationEvidence requires non-empty project and provider identifiers''
      else if \<not> validCalibrationIdentifier (ve_providerId v) \<or> \<not> validCalibrationIdentifier (ve_ruleId v)
         \<or> \<not> validCalibrationIdentifier (ve_authorityId v)
        then Inl ''ValidationEvidence requires stable provider, rule, and authority identifiers''
      else if ve_languages v = [] \<or> list_ex (\<lambda>l. trim l = []) (ve_languages v)
        then Inl ''ValidationEvidence requires at least one language''
      else if \<not> list_all (validTime parse) [ve_observedAt v, ve_startedAt v, ve_endedAt v]
        then Inl ''ValidationEvidence contains an invalid timestamp''
      else if num_lt (parse (ve_endedAt v)) (parse (ve_startedAt v))
        then Inl ''ValidationEvidence window starts after it ends''
      else if \<not> list_all valid_count [ve_findingCount v, ve_falsePositives v, ve_falseNegatives v]
        then Inl ''ValidationEvidence counts must be non-negative integers''
      else Inr v)"

section \<open>What validation guarantees\<close>

lemma selectFacts_union:
  "selectFacts facts sel = filter (\<lambda>f. f \<in> set (selectFacts facts \<lparr>fs_domains = fs_domains sel, fs_factIds = None\<rparr>)
     \<or> f \<in> set (selectFacts facts \<lparr>fs_domains = None, fs_factIds = fs_factIds sel\<rparr>)) facts"
  by (auto simp: selectFacts_def intro!: filter_cong)

lemma hasText_Some [simp]: "hasText (Some s) \<longleftrightarrow> trim s \<noteq> []"
  by (simp add: hasText_def)

lemma validateGovernanceFact_Inr:
  "validateGovernanceFact f = Inr g \<longleftrightarrow> g = f \<and> trim (gf_id f) \<noteq> []
     \<and> (gf_availability f = av_available \<longrightarrow> gf_value f \<noteq> None)
     \<and> (gf_availability f = av_unavailable \<longrightarrow> gf_value f = None)
     \<and> (gf_availability f \<noteq> av_available \<longrightarrow> hasText (gf_reason f))"
  by (cases "gf_availability f") (auto simp: validateGovernanceFact_def)

lemma validatePolicyProjection_Inr:
  "validatePolicyProjection p = Inr q \<longleftrightarrow> q = p \<and> hasText (ppr_policyId p)
     \<and> ppr_action p \<in> {''report'', ''warn'', ''block''}
     \<and> (psu_kind (ppr_subject p) = ''metric'' \<and> hasText (psu_metricId (ppr_subject p))
        \<or> psu_kind (ppr_subject p) = ''finding'' \<and> hasText (psu_findingId (ppr_subject p)))"
  unfolding validatePolicyProjection_def by auto

lemma validateValidationEvidence_Inr:
  "validateValidationEvidence parse v = Inr w \<longleftrightarrow> w = v
     \<and> trim (ve_projectToken v) \<noteq> [] \<and> trim (ve_openarchVersion v) \<noteq> [] \<and> trim (ve_providerId v) \<noteq> []
     \<and> trim (ve_providerVersion v) \<noteq> []
     \<and> validCalibrationIdentifier (ve_providerId v) \<and> validCalibrationIdentifier (ve_ruleId v)
     \<and> validCalibrationIdentifier (ve_authorityId v)
     \<and> ve_languages v \<noteq> [] \<and> (\<forall>l \<in> set (ve_languages v). trim l \<noteq> [])
     \<and> is_finite (parse (ve_observedAt v)) \<and> is_finite (parse (ve_startedAt v)) \<and> is_finite (parse (ve_endedAt v))
     \<and> \<not> num_lt (parse (ve_endedAt v)) (parse (ve_startedAt v))
     \<and> valid_count (ve_findingCount v) \<and> valid_count (ve_falsePositives v) \<and> valid_count (ve_falseNegatives v)"
  unfolding validateValidationEvidence_def
  by (auto simp: validTime_def list_ex_iff)

section \<open>Properties\<close>

text \<open>The validators of the governance contract reject and accept exactly by their documented
  conditions and return what they accept unchanged.\<close>

theorem governance_validation:
  "(validateGovernanceFact f = Inr g \<longleftrightarrow> g = f \<and> trim (gf_id f) \<noteq> []
     \<and> (case gf_availability f of av_available \<Rightarrow> gf_value f \<noteq> None
        | av_partial \<Rightarrow> hasText (gf_reason f) | av_unavailable \<Rightarrow> gf_value f = None \<and> hasText (gf_reason f)))
   \<and> (validatePolicyProjection p = Inr q \<longleftrightarrow> q = p \<and> hasText (ppr_policyId p)
     \<and> ppr_action p \<in> {''report'', ''warn'', ''block''}
     \<and> (psu_kind (ppr_subject p) = ''metric'' \<and> hasText (psu_metricId (ppr_subject p))
        \<or> psu_kind (ppr_subject p) = ''finding'' \<and> hasText (psu_findingId (ppr_subject p))))"
  using validatePolicyProjection_Inr [of p q] validateGovernanceFact_Inr [of f g]
  by (cases "gf_availability f") auto

end
