(* ===== verification/Calibration.thy ===== *)
theory Calibration
  imports Governance Crl_State
begin

text \<open>
  Structural calibration (\<open>calibration.ts\<close>): fingerprints of the normalised inputs, the
  profile identified by them and the state that separates the observed population from the
  gate's sealed denominator. SHA-256 over \<open>JSON.stringify\<close> is the argument \<open>hash\<close>, and
  \<open>localeCompare\<close> the argument \<open>lc\<close>. Scans are steps of a state machine.
\<close>

section \<open>Profiles\<close>

definition STRUCTURAL_CALIBRATION_VERSION :: string where
  "STRUCTURAL_CALIBRATION_VERSION = ''structural-calibration-v1''"

definition STRUCTURAL_CALIBRATION_BOUNDARY :: "string PersistedVersionBoundary" where
  "STRUCTURAL_CALIBRATION_BOUNDARY =
     \<lparr>pv_storage = ''baseline-index'', pv_version = STRUCTURAL_CALIBRATION_VERSION, pv_missingRejected = False\<rparr>"

record CalibrationPopulationEntry = CRLStateInput +
  ce_path :: string

record StructuralCalibrationProfile = CalibrationProfile +
  sp_version :: string
  sp_p95 :: P95Values
  sp_weightsFingerprint :: string

record StructuralCalibrationState =
  st_current :: StructuralCalibrationProfile
  st_previous :: "StructuralCalibrationProfile option"
  st_gate :: "StructuralCalibrationProfile option"

datatype GateCalibrationTransition = gt_retained | gt_bootstrapped | gt_sealed

definition jnum :: "real \<Rightarrow> json" where
  "jnum x = JNum (Fin x)"

definition numeric :: "real option \<Rightarrow> real" where
  "numeric v = or_default v 0"

definition localBurdenDoc :: "CRLStateInput \<Rightarrow> json" where
  "localBurdenDoc entry =
     (let l = localBurdenInputsOf entry
      in JArr [jnum (lb_maxFuncBranch l), jnum (lb_nestingDepth l), jnum (lb_implementationLoc l),
               jnum (lb_externalPassthroughCalls l)])"

definition localBurdenFingerprint :: "(json \<Rightarrow> string) \<Rightarrow> CRLStateInput \<Rightarrow> string" where
  "localBurdenFingerprint hash entry = hash (localBurdenDoc entry)"

definition calibrationWeightsFingerprint :: "(json \<Rightarrow> string) \<Rightarrow> CRLStateWeights \<Rightarrow> string" where
  "calibrationWeightsFingerprint hash w =
     hash (JArr (map jnum [w_branch w, w_nesting w, w_loc w, w_alpha w, w_connectedness w, w_externalPassthrough w]))"

definition populationRow :: "CalibrationPopulationEntry \<Rightarrow> string \<times> json" where
  "populationRow entry =
     (let l = localBurdenInputsOf (CRLStateInput.truncate entry)
      in (ce_path entry,
          JArr [JStr (ce_path entry), jnum (lb_maxFuncBranch l), jnum (lb_nestingDepth l),
                jnum (lb_implementationLoc l), jnum (cs_alphaStruct entry),
                jnum (numeric (cs_connectedness entry)), jnum (lb_externalPassthroughCalls l)]))"

definition calibrationPopulationFingerprint ::
  "(json \<Rightarrow> string) \<Rightarrow> string cmp \<Rightarrow> CalibrationPopulationEntry list \<Rightarrow> string" where
  "calibrationPopulationFingerprint hash lc entries =
     hash (JArr (map snd (js_sort (on_key lc fst) (map populationRow entries))))"

record CalibrationProfileInput =
  ci_analysisScopeFingerprint :: string
  ci_metricContractVersion :: string
  ci_p95 :: P95Values
  ci_population :: "CalibrationPopulationEntry list"
  ci_weights :: CRLStateWeights

definition createStructuralCalibrationProfile ::
  "(json \<Rightarrow> string) \<Rightarrow> string cmp \<Rightarrow> CalibrationProfileInput \<Rightarrow> StructuralCalibrationProfile" where
  "createStructuralCalibrationProfile hash lc i =
     (let populationFingerprint = calibrationPopulationFingerprint hash lc (ci_population i);
          weightsFingerprint = calibrationWeightsFingerprint hash (ci_weights i);
          ident = STRUCTURAL_CALIBRATION_VERSION @ '':'' @ hash (JArr (map JStr
             [ci_analysisScopeFingerprint i, ci_metricContractVersion i, populationFingerprint, weightsFingerprint]))
      in \<lparr>cp_id = ident, cp_analysisScopeFingerprint = ci_analysisScopeFingerprint i,
          cp_metricContractVersion = ci_metricContractVersion i, cp_populationFingerprint = populationFingerprint,
          cp_source = src_baseline, sp_version = STRUCTURAL_CALIBRATION_VERSION, sp_p95 = ci_p95 i,
          sp_weightsFingerprint = weightsFingerprint\<rparr>)"

section \<open>Transitions\<close>

definition gateCalibrationProfile :: "StructuralCalibrationState option \<Rightarrow> StructuralCalibrationProfile option" where
  "gateCalibrationProfile state = Option.bind state (\<lambda>s. or_option (st_gate s) (Some (st_current s)))"

definition observation_of ::
  "StructuralCalibrationProfile \<Rightarrow> StructuralCalibrationState option \<Rightarrow> StructuralCalibrationState" where
  "observation_of observed previous =
     (case previous of
        None \<Rightarrow> \<lparr>st_current = observed, st_previous = None, st_gate = None\<rparr>
      | Some p \<Rightarrow>
          if cp_id (st_current p) = cp_id observed then p
          else \<lparr>st_current = observed, st_previous = Some (st_current p), st_gate = st_gate p\<rparr>)"

definition nextStructuralCalibrationState ::
  "StructuralCalibrationProfile \<Rightarrow> StructuralCalibrationState option \<Rightarrow> bool
     \<Rightarrow> StructuralCalibrationState \<times> GateCalibrationTransition" where
  "nextStructuralCalibrationState observed previous sealGate =
     (let observation = observation_of observed previous;
          existingGate = or_option (Option.bind previous st_gate)
             (or_option (map_option st_current previous) (gateCalibrationProfile (Some observation)))
      in if sealGate then (observation\<lparr>st_gate := Some observed\<rparr>, gt_sealed)
         else if st_gate observation \<noteq> None then (observation, gt_retained)
         else (observation\<lparr>st_gate := Some (or_default existingGate observed)\<rparr>, gt_bootstrapped))"

definition comparableStructuralCalibration ::
  "StructuralCalibrationProfile option \<Rightarrow> StructuralCalibrationProfile option \<Rightarrow> bool" where
  "comparableStructuralCalibration previous current =
     (case (previous, current) of
        (Some p, Some c) \<Rightarrow>
          cp_analysisScopeFingerprint p = cp_analysisScopeFingerprint c
          \<and> cp_metricContractVersion p = cp_metricContractVersion c
          \<and> sp_weightsFingerprint p = sp_weightsFingerprint c
          \<and> cp_populationFingerprint p \<noteq> cp_populationFingerprint c
      | _ \<Rightarrow> False)"

section \<open>The gate epoch\<close>

lemma observation_current_id: "cp_id (st_current (observation_of observed previous)) = cp_id observed"
  by (simp add: observation_of_def split: option.splits)

lemma observation_gate: "st_gate (observation_of observed previous) = Option.bind previous st_gate"
  by (simp add: observation_of_def split: option.splits)

lemma next_gate:
  "st_gate (fst (nextStructuralCalibrationState observed previous sealGate)) =
     Some (if sealGate then observed else or_default (gateCalibrationProfile previous) observed)"
  by (cases previous)
    (auto simp: nextStructuralCalibrationState_def gateCalibrationProfile_def observation_gate Let_def
      observation_of_def split: option.splits)

lemma next_gate_profile:
  "gateCalibrationProfile (Some (fst (nextStructuralCalibrationState observed previous sealGate))) =
     Some (if sealGate then observed else or_default (gateCalibrationProfile previous) observed)"
  using next_gate [of observed previous sealGate] by (simp add: gateCalibrationProfile_def)

lemma next_current_id:
  "cp_id (st_current (fst (nextStructuralCalibrationState observed previous sealGate))) = cp_id observed"
  using observation_current_id [of observed previous] by (simp add: nextStructuralCalibrationState_def Let_def)

lemma next_previous:
  "st_previous (fst (nextStructuralCalibrationState observed previous sealGate)) =
     (case previous of None \<Rightarrow> None
      | Some p \<Rightarrow> if cp_id (st_current p) = cp_id observed then st_previous p else Some (st_current p))"
  by (simp add: nextStructuralCalibrationState_def observation_of_def Let_def split: option.splits)

text \<open>A history of scans: each observes a profile and may seal the gate.\<close>

inductive scanned :: "StructuralCalibrationState option \<Rightarrow> bool" where
  never: "scanned None"
| scan: "scanned s \<Longrightarrow> scanned (Some (fst (nextStructuralCalibrationState observed s sealGate)))"

fun run_scans :: "StructuralCalibrationState option \<Rightarrow> (StructuralCalibrationProfile \<times> bool) list
    \<Rightarrow> StructuralCalibrationState option" where
  "run_scans s [] = s"
| "run_scans s ((observed, sealGate) # rest) =
     run_scans (Some (fst (nextStructuralCalibrationState observed s sealGate))) rest"

lemma scanned_run: "scanned s \<Longrightarrow> scanned (run_scans s xs)"
  by (induction s xs rule: run_scans.induct) (auto intro: scanned.scan)

lemma scanned_has_gate: "scanned s \<Longrightarrow> s = None \<or> (\<exists>st g. s = Some st \<and> st_gate st = Some g)"
  by (induction rule: scanned.induct) (auto simp: next_gate)

text \<open>The gate is the profile of the last sealing scan, or the first profile ever observed.\<close>

definition gate_of_history :: "StructuralCalibrationProfile option \<Rightarrow> (StructuralCalibrationProfile \<times> bool) list
    \<Rightarrow> StructuralCalibrationProfile option" where
  "gate_of_history g xs = foldl (\<lambda>g (observed, sealGate). Some (if sealGate then observed else or_default g observed)) g xs"

lemma run_scans_gate:
  "gateCalibrationProfile (run_scans s xs) = gate_of_history (gateCalibrationProfile s) xs"
  by (induction s xs rule: run_scans.induct) (simp_all add: gate_of_history_def next_gate_profile)

lemma run_scans_unsealed:
  assumes "\<forall>(observed, sealGate) \<in> set xs. \<not> sealGate" "gateCalibrationProfile s = Some g"
  shows "gateCalibrationProfile (run_scans s xs) = Some g"
proof -
  have "gate_of_history (Some g) xs = Some g"
    using assms(1) by (induction xs) (auto simp: gate_of_history_def)
  then show ?thesis by (simp add: run_scans_gate assms(2))
qed

section \<open>Fingerprints\<close>

lemma jnum_inject [simp]: "jnum x = jnum y \<longleftrightarrow> x = y"
  by (simp add: jnum_def)

lemma populationRow_inj: "populationRow e = populationRow e' \<Longrightarrow> ce_path e = ce_path e'"
  by (simp add: populationRow_def Let_def)

lemma calibrationPopulationFingerprint_mset:
  assumes "comparator lc" "mset es = mset es'"
    and "\<forall>e \<in> set es. \<forall>e' \<in> set es. lc (ce_path e) (ce_path e') = 0 \<longrightarrow> e = e'"
  shows "calibrationPopulationFingerprint hash lc es = calibrationPopulationFingerprint hash lc es'"
proof -
  have "js_sort (on_key lc fst) (map populationRow es) = js_sort (on_key lc fst) (map populationRow es')"
  proof (rule comparator.js_sort_mset_cong)
    show "comparator (on_key lc fst)" using assms(1) by (rule comparator_on_key)
    show "mset (map populationRow es) = mset (map populationRow es')" using assms(2) by simp
    show "\<forall>x \<in> set (map populationRow es). \<forall>y \<in> set (map populationRow es). on_key lc fst x y = 0 \<longrightarrow> x = y"
      using assms(3) by (auto simp: on_key_def populationRow_def Let_def)
  qed
  then show ?thesis by (simp add: calibrationPopulationFingerprint_def)
qed

lemma localBurdenDoc_iff: "localBurdenDoc e = localBurdenDoc e' \<longleftrightarrow> localBurdenInputsOf e = localBurdenInputsOf e'"
  by (auto simp: localBurdenDoc_def Let_def LocalBurdenInputs.equality)

text \<open>Where the hash separates the two hashed documents, equal fingerprints mean equal gate inputs.\<close>

lemma localBurdenFingerprint_iff:
  assumes "inj_on hash {localBurdenDoc e, localBurdenDoc e'}"
  shows "localBurdenFingerprint hash e = localBurdenFingerprint hash e'
    \<longleftrightarrow> localBurdenInputsOf e = localBurdenInputsOf e'"
  unfolding localBurdenFingerprint_def localBurdenDoc_iff [symmetric]
  by (rule inj_on_eq_iff [OF assms]) simp_all

section \<open>Properties\<close>

text \<open>C24: Scans that do not seal never move the denominator of the gate, whatever they observe and
  however many they are.\<close>

theorem unsealed_scans_keep_gate:
  assumes "\<forall>(observed, sealGate) \<in> set xs. \<not> sealGate" "gateCalibrationProfile s = Some g"
  shows "gateCalibrationProfile (run_scans s xs) = Some g"
  using assms by (rule run_scans_unsealed)

definition sample_profile :: "string \<Rightarrow> StructuralCalibrationProfile" where
  "sample_profile i = \<lparr>cp_id = i, cp_analysisScopeFingerprint = [], cp_metricContractVersion = [], cp_populationFingerprint = i,
     cp_source = src_baseline, sp_version = STRUCTURAL_CALIBRATION_VERSION,
     sp_p95 = \<lparr>p95_branch = 1, p95_nesting = 1, p95_loc = 1, p95_alpha = 1, p95_oneMinusConnectedness = 1,
        p95_externalPassthrough = 1\<rparr>, sp_weightsFingerprint = []\<rparr>"

theorem unsealed_scans_keep_gate_witness:
  "gateCalibrationProfile (run_scans (run_scans None [(sample_profile ''a'', True)]) [(sample_profile ''b'', False), (sample_profile ''c'', False)])
   = Some (sample_profile ''a'')"
  by (rule unsealed_scans_keep_gate)
    (simp_all add: nextStructuralCalibrationState_def observation_of_def gateCalibrationProfile_def)

text \<open>In every state that scans reach, the gate has a profile: that of the last scan that sealed,
  or the first profile ever observed.\<close>

theorem gate_of_scans:
  "gateCalibrationProfile (run_scans None xs) = gate_of_history None xs
   \<and> (run_scans None xs = None \<longleftrightarrow> xs = []) \<and> scanned (run_scans None xs)"
proof -
  have "run_scans (Some s) ys \<noteq> None" for s ys
    by (induction "Some s" ys arbitrary: s rule: run_scans.induct) auto
  then have "run_scans None xs = None \<longleftrightarrow> xs = []" by (cases xs) auto
  then show ?thesis
    using run_scans_gate [of None xs] scanned_run [OF scanned.never] by (simp add: gateCalibrationProfile_def)
qed

text \<open>Two files with equal burden fingerprints have equal gate inputs, and only then, as long as
  the hash separates their two documents.\<close>

theorem burden_fingerprint_sound:
  assumes "inj_on hash {localBurdenDoc e, localBurdenDoc e'}"
  shows "localBurdenFingerprint hash e = localBurdenFingerprint hash e' \<longleftrightarrow> localBurdenInputsOf e = localBurdenInputsOf e'"
  using assms by (rule localBurdenFingerprint_iff)

theorem burden_fingerprint_sound_witness:
  "localBurdenFingerprint (\<lambda>d. if d = localBurdenDoc sample_metrics then ''x'' else ''y'') sample_metrics
   \<noteq> localBurdenFingerprint (\<lambda>d. if d = localBurdenDoc sample_metrics then ''x'' else ''y'') (sample_metrics\<lparr>cs_nestingDepth := 3\<rparr>)"
proof -
  have differ: "localBurdenInputsOf sample_metrics \<noteq> localBurdenInputsOf (sample_metrics\<lparr>cs_nestingDepth := 3\<rparr>)"
    by (simp add: localBurdenInputsOf_def sample_metrics_def)
  then have "inj_on (\<lambda>d. if d = localBurdenDoc sample_metrics then ''x'' else ''y'')
      {localBurdenDoc sample_metrics, localBurdenDoc (sample_metrics\<lparr>cs_nestingDepth := 3\<rparr>)}"
    by (auto simp: inj_on_def localBurdenDoc_iff)
  from burden_fingerprint_sound [OF this] differ show ?thesis by simp
qed

end
