(* ===== verification/Structural_Policy.thy ===== *)
theory Structural_Policy
  imports Calibration File_Kinds
begin

text \<open>
  Policy populations (\<open>structuralPolicy.ts\<close>) and the calibration part of a scan
  (\<open>application/scanMeta.ts\<close>, \<open>scanEntries.ts\<close>): which files a policy governs, the
  percentiles of each population and the advance of every calibration state.
\<close>

section \<open>Policies\<close>

record StructuralPolicyRule =
  spr_name :: string
  spr_condition :: string
  spr_block :: bool \<comment> \<open>level: \<open>block\<close> or \<open>warn\<close>\<close>

record StructuralPolicyScope =
  sps_include :: "string list option"
  sps_exclude :: "string list option"

record StructuralPolicy =
  pol_id :: string
  pol_languages :: "string list"
  pol_scope :: "StructuralPolicyScope option"
  pol_enforce :: bool \<comment> \<open>mode: \<open>enforce\<close> or \<open>observe\<close>\<close>
  pol_rules :: "StructuralPolicyRule list"
  pol_crlStateWeights :: CRLStateWeights

record StructuralPolicySubject =
  sub_path :: string
  sub_language :: string

text \<open>\<open>replace(/^\.\/+/u, "")\<close>: a leading dot with the slashes after it.\<close>

definition repositoryPath :: "string \<Rightarrow> string" where
  "repositoryPath p =
     (let q = toPosixPath p
      in if starts_with q ''./'' then dropWhile (\<lambda>c. c = CHR ''/'') (tl q) else q)"

definition matchesAny :: "(string \<Rightarrow> string \<Rightarrow> bool) \<Rightarrow> string \<Rightarrow> string list option \<Rightarrow> bool" where
  "matchesAny mm p patterns = list_ex (mm p) (or_default patterns [])"

definition matchesStructuralPolicy :: "(string \<Rightarrow> string \<Rightarrow> bool) \<Rightarrow> StructuralPolicy \<Rightarrow> StructuralPolicySubject \<Rightarrow> bool" where
  "matchesStructuralPolicy mm policy subject =
     (if sub_language subject \<notin> set (pol_languages policy) then False
      else
        let p = repositoryPath (sub_path subject);
            inc = Option.bind (pol_scope policy) sps_include
        in if inc \<noteq> None \<and> \<not> matchesAny mm p inc then False
           else \<not> matchesAny mm p (Option.bind (pol_scope policy) sps_exclude))"

definition policiesForSubject ::
  "(string \<Rightarrow> string \<Rightarrow> bool) \<Rightarrow> StructuralPolicy list \<Rightarrow> StructuralPolicySubject \<Rightarrow> StructuralPolicy list" where
  "policiesForSubject mm policies subject = filter (\<lambda>p. matchesStructuralPolicy mm p subject) policies"

definition calibrationForSubject ::
  "(string \<Rightarrow> string \<Rightarrow> bool) \<Rightarrow> StructuralPolicySubject option \<Rightarrow> StructuralPolicy list
     \<Rightarrow> (string, StructuralCalibrationState) jmap option \<Rightarrow> P95Values option \<Rightarrow> CRLStateWeights
     \<Rightarrow> P95Values option \<times> CRLStateWeights" where
  "calibrationForSubject mm subject policies calibrations fallbackP95 fallbackWeights =
     (let matches = (case subject of None \<Rightarrow> [] | Some s \<Rightarrow> policiesForSubject mm policies s)
      in case matches of
           [policy] \<Rightarrow>
             (or_option (map_option sp_p95 (gateCalibrationProfile
                  (Option.bind calibrations (\<lambda>c. map_get c (pol_id policy))))) fallbackP95,
              pol_crlStateWeights policy)
         | _ \<Rightarrow> (fallbackP95, fallbackWeights))"

lemma policiesForSubject_iff:
  "p \<in> set (policiesForSubject mm policies s) \<longleftrightarrow> p \<in> set policies \<and> matchesStructuralPolicy mm p s"
  by (auto simp: policiesForSubject_def)

lemma matchesStructuralPolicy_iff:
  "matchesStructuralPolicy mm p s \<longleftrightarrow> sub_language s \<in> set (pol_languages p)
     \<and> (\<forall>inc. Option.bind (pol_scope p) sps_include = Some inc \<longrightarrow> (\<exists>g \<in> set inc. mm (repositoryPath (sub_path s)) g))
     \<and> (\<forall>exc. Option.bind (pol_scope p) sps_exclude = Some exc \<longrightarrow> \<not> (\<exists>g \<in> set exc. mm (repositoryPath (sub_path s)) g))"
  by (cases "Option.bind (pol_scope p) sps_include"; cases "Option.bind (pol_scope p) sps_exclude")
    (auto simp: matchesStructuralPolicy_def matchesAny_def Let_def list_ex_iff)

lemma repositoryPath_no_dot_slash: "\<not> starts_with (repositoryPath p) ''/'' \<or> starts_with (toPosixPath p) ''/''"
proof -
  have "\<not> starts_with (dropWhile (\<lambda>c. c = CHR ''/'') q) ''/''" for q
    by (induction q) (auto simp: starts_with_def)
  then show ?thesis by (simp add: repositoryPath_def Let_def)
qed

section \<open>Entries of the baseline index\<close>

record IndexEntry =
  ix_path :: string
  ix_language :: "string option"
  ix_fileKind :: "FileKind option"
  ix_branchCount :: real
  ix_weightedBranchTotal :: "real option"
  ix_maxFuncBranch :: "real option"
  ix_nestingDepth :: real
  ix_loc :: "real option"
  ix_declarationLoc :: "real option"
  ix_alphaStruct :: real
  ix_connectedness :: "real option"
  ix_externalPassthroughCalls :: "real option"
  ix_passthroughCalls :: "real option"

definition structuralPolicySubject :: "IndexEntry \<Rightarrow> StructuralPolicySubject option" where
  "structuralPolicySubject e =
     map_option (\<lambda>l. \<lparr>sub_path = ix_path e, sub_language = l\<rparr>) (ix_language e)"

definition populationEntryOf :: "IndexEntry \<Rightarrow> CalibrationPopulationEntry" where
  "populationEntryOf e =
     \<lparr>cs_maxFuncBranch = ix_maxFuncBranch e, cs_nestingDepth = ix_nestingDepth e, cs_loc = ix_loc e,
      cs_declarationLoc = ix_declarationLoc e, cs_alphaStruct = ix_alphaStruct e,
      cs_connectedness = ix_connectedness e, cs_singleCallSiteRatio = None,
      cs_externalPassthroughCalls = ix_externalPassthroughCalls e, cs_passthroughCalls = ix_passthroughCalls e,
      ce_path = ix_path e\<rparr>"

definition entryLocal :: "IndexEntry \<Rightarrow> LocalBurdenInputs" where
  "entryLocal e = localBurdenInputsOf (CRLStateInput.truncate (populationEntryOf e))"

text \<open>The percentiles of a policy's population (\<open>p95ForPopulation\<close>).\<close>

definition p95ForPopulation :: "IndexEntry list \<Rightarrow> P95Values" where
  "p95ForPopulation entries =
     \<lparr>p95_branch = p95 (map (\<lambda>e. or_default (or_option (ix_maxFuncBranch e) (ix_weightedBranchTotal e)) (ix_branchCount e)) entries),
      p95_nesting = p95 (map ix_nestingDepth entries),
      p95_loc = p95 (map (\<lambda>e. lb_implementationLoc (entryLocal e)) entries),
      p95_alpha = p95 (map ix_alphaStruct entries),
      p95_oneMinusConnectedness = p95 (map (\<lambda>e. 1 - or_default (ix_connectedness e) 0) entries),
      p95_externalPassthrough = p95 (map (\<lambda>e. lb_externalPassthroughCalls (entryLocal e)) entries)\<rparr>"

text \<open>
  The branch column that a scan collects for one entry (\<open>scanEntries.ts\<close>): a file reused from
  the previous baseline and a file parsed again take a missing \<open>maxFuncBranch\<close> differently.
\<close>

definition reusedBranchInput :: "IndexEntry \<Rightarrow> real" where
  "reusedBranchInput e = or_default (ix_maxFuncBranch e) 0"

definition parsedBranchInput :: "IndexEntry \<Rightarrow> real \<Rightarrow> real" where
  "parsedBranchInput e weightedControlFlow = or_default (ix_maxFuncBranch e) weightedControlFlow"

section \<open>Calibration of one scan\<close>

record ScanCalibrationOptions =
  so_structuralPolicies :: "StructuralPolicy list"
  so_sealCalibration :: bool
  so_calibrationWeights :: "CRLStateWeights option"

definition METRIC_CONTRACT_VERSION :: string where
  "METRIC_CONTRACT_VERSION = ''metric-contract-v5''"

definition productionPolicyPopulation ::
  "(string \<Rightarrow> string \<Rightarrow> bool) \<Rightarrow> IndexEntry list \<Rightarrow> StructuralPolicy \<Rightarrow> IndexEntry list" where
  "productionPolicyPopulation mm entries policy =
     filter (\<lambda>e. participatesInPopulation (ix_fileKind e) pop_production
       \<and> (case structuralPolicySubject e of None \<Rightarrow> False | Some s \<Rightarrow> matchesStructuralPolicy mm policy s)) entries"

definition policyCalibration ::
  "(json \<Rightarrow> string) \<Rightarrow> string cmp \<Rightarrow> (string \<Rightarrow> string \<Rightarrow> bool) \<Rightarrow> ScanCalibrationOptions \<Rightarrow> IndexEntry list
     \<Rightarrow> AnalysisScope \<Rightarrow> (string, StructuralCalibrationState) jmap \<Rightarrow> StructuralPolicy
     \<Rightarrow> (string \<times> StructuralCalibrationState) option" where
  "policyCalibration hash lc mm options entries scope previous policy =
     (let population = productionPolicyPopulation mm entries policy in
      if population = [] then None
      else
        let observed = createStructuralCalibrationProfile hash lc
              \<lparr>ci_analysisScopeFingerprint = as_fingerprint scope @ '':policy:'' @ pol_id policy,
               ci_metricContractVersion = METRIC_CONTRACT_VERSION, ci_p95 = p95ForPopulation population,
               ci_population = map populationEntryOf population, ci_weights = pol_crlStateWeights policy\<rparr>;
            update = nextStructuralCalibrationState observed (map_get previous (pol_id policy)) (so_sealCalibration options)
        in Some (pol_id policy, fst update))"

definition computePolicyCalibrations ::
  "(json \<Rightarrow> string) \<Rightarrow> string cmp \<Rightarrow> (string \<Rightarrow> string \<Rightarrow> bool) \<Rightarrow> ScanCalibrationOptions \<Rightarrow> IndexEntry list
     \<Rightarrow> AnalysisScope \<Rightarrow> (string, StructuralCalibrationState) jmap \<Rightarrow> (string, StructuralCalibrationState) jmap" where
  "computePolicyCalibrations hash lc mm options entries scope previous =
     fromEntries (present (map (policyCalibration hash lc mm options entries scope previous)
       (so_structuralPolicies options)))"

definition computePolicyPopulations ::
  "(string \<Rightarrow> string \<Rightarrow> bool) \<Rightarrow> ScanCalibrationOptions \<Rightarrow> IndexEntry list \<Rightarrow> (string, nat) jmap" where
  "computePolicyPopulations mm options entries =
     fromEntries (filter (\<lambda>(k, count). 0 < count)
       (map (\<lambda>policy. (pol_id policy, length (productionPolicyPopulation mm entries policy)))
         (so_structuralPolicies options)))"

definition observedCalibration ::
  "(json \<Rightarrow> string) \<Rightarrow> string cmp \<Rightarrow> ScanCalibrationOptions \<Rightarrow> IndexEntry list \<Rightarrow> AnalysisScope \<Rightarrow> P95Values
     \<Rightarrow> StructuralCalibrationProfile" where
  "observedCalibration hash lc options entries scope p95Values =
     createStructuralCalibrationProfile hash lc
       \<lparr>ci_analysisScopeFingerprint = as_fingerprint scope, ci_metricContractVersion = METRIC_CONTRACT_VERSION,
        ci_p95 = p95Values,
        ci_population = map populationEntryOf (filter (\<lambda>e. participatesInPopulation (ix_fileKind e) pop_production) entries),
        ci_weights = or_default (so_calibrationWeights options) DEFAULT_CRL_STATE_WEIGHTS\<rparr>"

definition ambiguousPolicyEntry ::
  "(string \<Rightarrow> string \<Rightarrow> bool) \<Rightarrow> ScanCalibrationOptions \<Rightarrow> IndexEntry list \<Rightarrow> IndexEntry option" where
  "ambiguousPolicyEntry mm options entries =
     find (\<lambda>e. case structuralPolicySubject e of None \<Rightarrow> False
        | Some s \<Rightarrow> participatesInPopulation (ix_fileKind e) pop_production
            \<and> 1 < length (policiesForSubject mm (so_structuralPolicies options) s)) entries"

record ScanMeta =
  sm_calibration :: StructuralCalibrationState
  sm_transition :: GateCalibrationTransition
  sm_policyCalibrations :: "(string, StructuralCalibrationState) jmap"
  sm_policyPopulations :: "(string, nat) jmap"
  sm_ambiguousPolicyEntry :: "IndexEntry option"

definition buildScanMeta ::
  "(json \<Rightarrow> string) \<Rightarrow> string cmp \<Rightarrow> (string \<Rightarrow> string \<Rightarrow> bool) \<Rightarrow> ScanCalibrationOptions \<Rightarrow> IndexEntry list
     \<Rightarrow> AnalysisScope \<Rightarrow> P95Values \<Rightarrow> StructuralCalibrationState option
     \<Rightarrow> (string, StructuralCalibrationState) jmap \<Rightarrow> ScanMeta" where
  "buildScanMeta hash lc mm options entries scope p95Values previous previousPolicies =
     (let calibration = observedCalibration hash lc options entries scope p95Values;
          update = nextStructuralCalibrationState calibration previous (so_sealCalibration options)
      in \<lparr>sm_calibration = fst update, sm_transition = snd update,
          sm_policyCalibrations = computePolicyCalibrations hash lc mm options entries scope previousPolicies,
          sm_policyPopulations = computePolicyPopulations mm options entries,
          sm_ambiguousPolicyEntry = ambiguousPolicyEntry mm options entries\<rparr>)"

section \<open>Properties\<close>

lemma map_of_present_keys:
  assumes "\<And>x. x \<in> set xs \<Longrightarrow> f x = None \<or> (\<exists>v. f x = Some (key x, v))" "distinct (map key xs)" "x \<in> set xs"
  shows "map_of (present (map f xs)) (key x) = map_option snd (f x)"
  using assms
proof (induction xs)
  case (Cons y ys)
  have keys: "fst e \<in> key ` set ys" if "e \<in> set (present (map f ys))" for e
  proof -
    from that obtain x where x: "x \<in> set ys" "f x = Some e" by (auto simp: image_iff)
    with Cons.prems(1) [of x] show ?thesis by auto
  qed
  show ?case
  proof (cases "x = y")
    case True
    have "key y \<notin> key ` set ys" using Cons.prems(2) by simp
    then have none: "map_of (present (map f ys)) (key y) = None"
      unfolding map_of_eq_None_iff using keys by (metis image_iff)
    from Cons.prems(1) [of y] show ?thesis using True none by auto
  next
    case False
    with Cons.prems have x: "x \<in> set ys" "key x \<noteq> key y" by (auto simp: image_iff)
    have "map_of (present (map f ys)) (key x) = map_option snd (f x)"
      using Cons.prems x(1) by (intro Cons.IH) auto
    with Cons.prems(1) [of y] x(2) show ?thesis by auto
  qed
qed simp

lemma policyCalibration_key:
  "policyCalibration hash lc mm options entries scope previous policy = None
     \<or> (\<exists>v. policyCalibration hash lc mm options entries scope previous policy = Some (pol_id policy, v))"
  by (auto simp: policyCalibration_def Let_def)

lemma computePolicyCalibrations_get:
  assumes "distinct (map pol_id (so_structuralPolicies options))" "policy \<in> set (so_structuralPolicies options)"
  shows "map_get (computePolicyCalibrations hash lc mm options entries scope previous) (pol_id policy)
    = map_option snd (policyCalibration hash lc mm options entries scope previous policy)"
proof -
  let ?f = "policyCalibration hash lc mm options entries scope previous"
  let ?kvs = "present (map ?f (so_structuralPolicies options))"
  have "map fst (present (map ?f ps)) = map pol_id (filter (\<lambda>p. ?f p \<noteq> None) ps)" for ps
  proof (induction ps)
    case (Cons p ps)
    then show ?case using policyCalibration_key [of hash lc mm options entries scope previous p] by auto
  qed simp
  then have "distinct (map fst ?kvs)" using assms(1) by (simp add: distinct_map_filter)
  then have "map_get (fromEntries ?kvs) (pol_id policy) = map_of ?kvs (pol_id policy)"
    by (simp only: fromEntries_distinct)
  also have "\<dots> = map_option snd (?f policy)"
    using assms policyCalibration_key by (intro map_of_present_keys) blast+
  finally show ?thesis by (simp add: computePolicyCalibrations_def)
qed

text \<open>An unsealed scan keeps the denominator of every policy it recalibrates.\<close>

lemma policyCalibration_retains_gate:
  assumes "policyCalibration hash lc mm options entries scope previous policy = Some (k, state)"
    and "\<not> so_sealCalibration options" "map_get previous (pol_id policy) = Some old"
  shows "gateCalibrationProfile (Some state) = gateCalibrationProfile (Some old)"
proof -
  have old: "\<exists>g. gateCalibrationProfile (Some old) = Some g"
    by (cases "st_gate old") (simp_all add: gateCalibrationProfile_def)
  then show ?thesis
    using assms by (auto simp: policyCalibration_def Let_def next_gate_profile split: if_splits)
qed

lemma ambiguous_entry_shared:
  assumes "ambiguousPolicyEntry mm options entries = None" "e \<in> set entries" "structuralPolicySubject e = Some s"
    and "participatesInPopulation (ix_fileKind e) pop_production"
  shows "length (policiesForSubject mm (so_structuralPolicies options) s) \<le> 1"
  using assms unfolding ambiguousPolicyEntry_def find_None_iff by force

lemma population_disjoint:
  assumes "ambiguousPolicyEntry mm options entries = None"
    and "p \<in> set (so_structuralPolicies options)" "q \<in> set (so_structuralPolicies options)"
    and "e \<in> set (productionPolicyPopulation mm entries p)" "e \<in> set (productionPolicyPopulation mm entries q)"
  shows "p = q"
proof -
  from assms(4,5) obtain s where s: "structuralPolicySubject e = Some s"
    "matchesStructuralPolicy mm p s" "matchesStructuralPolicy mm q s"
    "participatesInPopulation (ix_fileKind e) pop_production" "e \<in> set entries"
    by (auto simp: productionPolicyPopulation_def split: option.splits)
  then have "length (policiesForSubject mm (so_structuralPolicies options) s) \<le> 1"
    using assms(1) ambiguous_entry_shared by blast
  moreover have "p \<in> set (policiesForSubject mm (so_structuralPolicies options) s)"
    "q \<in> set (policiesForSubject mm (so_structuralPolicies options) s)"
    using assms(2,3) s by (simp_all add: policiesForSubject_iff)
  ultimately show ?thesis
    by (cases "policiesForSubject mm (so_structuralPolicies options) s") (auto simp: Suc_le_eq)
qed

text \<open>When a scan finds no ambiguous entry, the populations of two different policies have no file
  in common.\<close>

theorem policy_populations_disjoint:
  assumes "ambiguousPolicyEntry mm options entries = None"
    and "p \<in> set (so_structuralPolicies options)" "q \<in> set (so_structuralPolicies options)" "p \<noteq> q"
  shows "set (productionPolicyPopulation mm entries p) \<inter> set (productionPolicyPopulation mm entries q) = {}"
  using population_disjoint [OF assms(1-3)] assms(4) by blast

definition sample_policy :: "string \<Rightarrow> string \<Rightarrow> StructuralPolicy" where
  "sample_policy i l = \<lparr>pol_id = i, pol_languages = [l], pol_scope = None, pol_enforce = True, pol_rules = [],
     pol_crlStateWeights = DEFAULT_CRL_STATE_WEIGHTS\<rparr>"

definition sample_entry :: "string \<Rightarrow> string \<Rightarrow> IndexEntry" where
  "sample_entry p l = \<lparr>ix_path = p, ix_language = Some l, ix_fileKind = Some fk_production, ix_branchCount = 0,
     ix_weightedBranchTotal = None, ix_maxFuncBranch = Some 3, ix_nestingDepth = 1, ix_loc = Some 10, ix_declarationLoc = None,
     ix_alphaStruct = 0, ix_connectedness = None, ix_externalPassthroughCalls = None, ix_passthroughCalls = None\<rparr>"

definition sample_options :: ScanCalibrationOptions where
  "sample_options = \<lparr>so_structuralPolicies = [sample_policy ''p'' ''go'', sample_policy ''q'' ''rust''],
     so_sealCalibration = False, so_calibrationWeights = None\<rparr>"

definition sample_entries :: "IndexEntry list" where
  "sample_entries = [sample_entry ''a.go'' ''go'', sample_entry ''b.rs'' ''rust'']"

theorem policy_populations_disjoint_witness:
  "set (productionPolicyPopulation (\<lambda>_ _. True) sample_entries (sample_policy ''p'' ''go''))
     \<inter> set (productionPolicyPopulation (\<lambda>_ _. True) sample_entries (sample_policy ''q'' ''rust'')) = {}
   \<and> sample_entry ''a.go'' ''go'' \<in> set (productionPolicyPopulation (\<lambda>_ _. True) sample_entries (sample_policy ''p'' ''go''))"
proof -
  have "ambiguousPolicyEntry (\<lambda>_ _. True) sample_options sample_entries = None"
    by (auto simp: ambiguousPolicyEntry_def find_None_iff sample_options_def sample_entries_def sample_policy_def sample_entry_def
        structuralPolicySubject_def policiesForSubject_def matchesStructuralPolicy_def)
  moreover have "sample_policy ''p'' ''go'' \<noteq> sample_policy ''q'' ''rust''" by (simp add: sample_policy_def)
  ultimately have "set (productionPolicyPopulation (\<lambda>_ _. True) sample_entries (sample_policy ''p'' ''go''))
      \<inter> set (productionPolicyPopulation (\<lambda>_ _. True) sample_entries (sample_policy ''q'' ''rust'')) = {}"
    by (intro policy_populations_disjoint [of "\<lambda>_ _. True" sample_options]) (simp_all add: sample_options_def)
  then show ?thesis
    by (simp add: productionPolicyPopulation_def sample_entries_def sample_entry_def sample_policy_def structuralPolicySubject_def
        matchesStructuralPolicy_def matchesAny_def effectiveFileKind_def)
qed

text \<open>A scan that does not seal recalibrates every policy with a population and keeps the
  denominator its gate had.\<close>

theorem policy_scan_keeps_gate:
  assumes "distinct (map pol_id (so_structuralPolicies options))" "policy \<in> set (so_structuralPolicies options)"
    and "productionPolicyPopulation mm entries policy \<noteq> []"
    and "\<not> so_sealCalibration options" "map_get previous (pol_id policy) = Some old"
  shows "\<exists>state. map_get (sm_policyCalibrations (buildScanMeta hash lc mm options entries scope p95Values c previous)) (pol_id policy)
      = Some state \<and> gateCalibrationProfile (Some state) = gateCalibrationProfile (Some old)"
proof -
  obtain state where s: "policyCalibration hash lc mm options entries scope previous policy = Some (pol_id policy, state)"
    using assms(3) by (auto simp: policyCalibration_def Let_def)
  have "map_get (computePolicyCalibrations hash lc mm options entries scope previous) (pol_id policy) = Some state"
    using computePolicyCalibrations_get [OF assms(1,2)] s by simp
  then show ?thesis
    using policyCalibration_retains_gate [OF s assms(4,5)] by (simp add: buildScanMeta_def Let_def)
qed

definition sample_scope :: AnalysisScope where
  "sample_scope = createAnalysisScope code_unit_cmp [''go'', ''rust''] []"

definition sample_state :: StructuralCalibrationState where
  "sample_state = \<lparr>st_current = sample_profile ''a'', st_previous = None, st_gate = Some (sample_profile ''g'')\<rparr>"

theorem policy_scan_keeps_gate_witness:
  "\<exists>state. map_get (sm_policyCalibrations (buildScanMeta (\<lambda>_. ''h'') code_unit_cmp (\<lambda>_ _. True) sample_options sample_entries
      sample_scope (p95ForPopulation sample_entries) None [(''p'', sample_state)])) ''p'' = Some state
   \<and> gateCalibrationProfile (Some state) = Some (sample_profile ''g'')"
proof -
  have "gateCalibrationProfile (Some sample_state) = Some (sample_profile ''g'')"
    by (simp add: gateCalibrationProfile_def sample_state_def)
  moreover have "productionPolicyPopulation (\<lambda>_ _. True) sample_entries (sample_policy ''p'' ''go'') \<noteq> []"
    by (simp add: productionPolicyPopulation_def sample_entries_def sample_entry_def sample_policy_def structuralPolicySubject_def
        matchesStructuralPolicy_def matchesAny_def effectiveFileKind_def)
  moreover have "pol_id (sample_policy ''p'' ''go'') = ''p''" by (simp add: sample_policy_def)
  ultimately show ?thesis
    using policy_scan_keeps_gate [of sample_options "sample_policy ''p'' ''go''" "\<lambda>_ _. True" sample_entries "[(''p'', sample_state)]" sample_state]
    by (simp add: sample_options_def) (simp add: sample_policy_def)
qed

end
