(* ===== verification/Metric_Catalog.thy ===== *)
theory Metric_Catalog
  imports Js_String Weights
begin

text \<open>
  The catalogue of the variables a gate condition may name (\<open>metricCatalog.ts\<close>), the
  identifiers a condition uses, the thresholds it compares gate metrics with, and the
  machine contract catalogue (\<open>contractCatalog.ts\<close>). The regular expressions of the source
  are written as left-to-right scanners.
\<close>

section \<open>Catalogue\<close>

datatype CelVariableRole = role_gate | role_report_only | role_retired | role_classifier

datatype CelVariableKind = kind_metric | kind_classifier | kind_composite

datatype MetricRecommendationId = split_function | inspect_branch_shape | extract_dispatch | reduce_local_burden

record CelVariableDefinition =
  cv_id :: string
  cv_role :: CelVariableRole
  cv_kind :: CelVariableKind
  cv_recommendationId :: "MetricRecommendationId option"

definition cel_var :: "string \<Rightarrow> CelVariableRole \<Rightarrow> CelVariableKind \<Rightarrow> MetricRecommendationId option \<Rightarrow> CelVariableDefinition" where
  "cel_var i r k rec = \<lparr>cv_id = i, cv_role = r, cv_kind = k, cv_recommendationId = rec\<rparr>"

definition celVariables :: "CelVariableDefinition list" where
  "celVariables =
     [cel_var ''max_func_branch'' role_gate kind_metric (Some split_function),
      cel_var ''crl_local'' role_gate kind_metric (Some reduce_local_burden),
      cel_var ''exposure'' role_gate kind_metric None,
      cel_var ''weighted_branch_total'' role_report_only kind_metric (Some inspect_branch_shape),
      cel_var ''top_level_branch'' role_report_only kind_metric (Some extract_dispatch),
      cel_var ''nesting_depth'' role_report_only kind_metric None,
      cel_var ''loc'' role_report_only kind_metric None,
      cel_var ''declaration_loc'' role_report_only kind_metric None,
      cel_var ''i_push'' role_report_only kind_metric None,
      cel_var ''branch_count'' role_retired kind_metric None,
      cel_var ''crl_state'' role_retired kind_composite None,
      cel_var ''module_shape'' role_report_only kind_composite None,
      cel_var ''crl_inputs'' role_retired kind_composite None,
      cel_var ''cohesion'' role_retired kind_metric None,
      cel_var ''function_count'' role_retired kind_metric None,
      cel_var ''symbol_scope'' role_retired kind_metric None,
      cel_var ''path_class'' role_classifier kind_classifier None,
      cel_var ''language'' role_classifier kind_classifier None]"

definition celVariableDefinition :: "string \<Rightarrow> CelVariableDefinition option" where
  "celVariableDefinition ident = find (\<lambda>d. cv_id d = ident) celVariables"

definition metricDefinition :: "string \<Rightarrow> CelVariableDefinition option" where
  "metricDefinition ident =
     (case celVariableDefinition ident of
        None \<Rightarrow> None | Some d \<Rightarrow> if cv_kind d = kind_metric then Some d else None)"

section \<open>Identifiers of a condition\<close>

text \<open>\<open>replace(/"[^"]*"|'[^']*'/g, " ")\<close>: an unclosed quote stays.\<close>

function strip_strings :: "string \<Rightarrow> string" where
  "strip_strings [] = []"
| "strip_strings (c # s) =
     (if (c = CHR 0x22 \<or> c = CHR 0x27) \<and> c \<in> set s
      then CHR '' '' # strip_strings (tl (dropWhile (\<lambda>d. d \<noteq> c) s))
      else c # strip_strings s)"
  by pat_completeness auto
termination
proof (relation "measure length")
  fix c :: char and s :: string
  have "length (tl (dropWhile (\<lambda>d. d \<noteq> c) s)) \<le> length s"
    using length_dropWhile_le [of "\<lambda>d. d \<noteq> c" s] by simp
  then show "(tl (dropWhile (\<lambda>d. d \<noteq> c) s), c # s) \<in> measure length" by simp
qed simp_all

definition ident_start :: "char \<Rightarrow> bool" where
  "ident_start c = (is_alpha c \<or> c = CHR ''_'')"

text \<open>\<open>match(/[a-zA-Z_][a-zA-Z0-9_]*/g)\<close>.\<close>

function scan_identifiers :: "string \<Rightarrow> string list" where
  "scan_identifiers [] = []"
| "scan_identifiers (c # s) =
     (if ident_start c then (c # takeWhile is_word s) # scan_identifiers (dropWhile is_word s)
      else scan_identifiers s)"
  by pat_completeness auto
termination
  by (relation "measure length") (auto simp: le_imp_less_Suc length_dropWhile_le)

definition identifiersOutsideStrings :: "string \<Rightarrow> string list" where
  "identifiersOutsideStrings condition = uniq (scan_identifiers (strip_strings condition))"

definition metricIdsInCondition :: "string \<Rightarrow> string list" where
  "metricIdsInCondition condition =
     filter (\<lambda>i. metricDefinition i \<noteq> None) (identifiersOutsideStrings condition)"

definition nonGateMetricsInCondition :: "string \<Rightarrow> CelVariableDefinition list" where
  "nonGateMetricsInCondition condition =
     filter (\<lambda>d. cv_role d \<noteq> role_gate) (present (map metricDefinition (metricIdsInCondition condition)))"

definition unknownCelVariablesInCondition :: "string \<Rightarrow> string list" where
  "unknownCelVariablesInCondition condition =
     sort (filter (\<lambda>i. celVariableDefinition i = None) (identifiersOutsideStrings condition))"

definition unsupported_variable :: "string \<Rightarrow> bool" where
  "unsupported_variable ident =
     (case celVariableDefinition ident of
        None \<Rightarrow> True | Some d \<Rightarrow> cv_role d \<noteq> role_gate \<and> cv_role d \<noteq> role_classifier)"

definition unsupportedCelVariablesInCondition :: "string \<Rightarrow> string list" where
  "unsupportedCelVariablesInCondition condition =
     sort (filter unsupported_variable (identifiersOutsideStrings condition))"

section \<open>Numeric thresholds\<close>

datatype Comparison = cmp_gt | cmp_ge | cmp_lt | cmp_le

record NumericGateThreshold =
  nt_metricId :: string
  nt_comparison :: Comparison
  nt_threshold :: real

fun FLIPPED :: "Comparison \<Rightarrow> Comparison" where
  "FLIPPED cmp_gt = cmp_lt"
| "FLIPPED cmp_ge = cmp_le"
| "FLIPPED cmp_lt = cmp_gt"
| "FLIPPED cmp_le = cmp_ge"

text \<open>\<open>(>=|<=|>|<)\<close>, \<open>\d+(?:\.\d+)?\<close> and \<open>[A-Za-z_]\w*\<close> at the head of the text.\<close>

definition take_comparison :: "string \<Rightarrow> (Comparison \<times> string) option" where
  "take_comparison s =
     (if starts_with s ''>='' then Some (cmp_ge, drop 2 s)
      else if starts_with s ''<='' then Some (cmp_le, drop 2 s)
      else if starts_with s ''>'' then Some (cmp_gt, drop 1 s)
      else if starts_with s ''<'' then Some (cmp_lt, drop 1 s)
      else None)"

definition decimal_value :: "string \<Rightarrow> string \<Rightarrow> real" where
  "decimal_value whole decimals =
     real (nat_of_digits whole) + real (nat_of_digits decimals) / 10 ^ length decimals"

definition take_number :: "string \<Rightarrow> (real \<times> string) option" where
  "take_number s =
     (let whole = takeWhile is_digit s; rest = dropWhile is_digit s
      in if whole = [] then None
         else
           let decimals = (if starts_with rest ''.'' then takeWhile is_digit (tl rest) else [])
           in if decimals = [] then Some (decimal_value whole [], rest)
              else Some (decimal_value whole decimals, dropWhile is_digit (tl rest)))"

definition take_identifier :: "string \<Rightarrow> (string \<times> string) option" where
  "take_identifier s =
     (case s of [] \<Rightarrow> None
      | c # r \<Rightarrow> if ident_start c then Some (c # takeWhile is_word r, dropWhile is_word r) else None)"

abbreviation skip_spaces :: "string \<Rightarrow> string" where
  "skip_spaces \<equiv> dropWhile is_space"

definition match_metric_first :: "string \<Rightarrow> ((string \<times> Comparison \<times> real) \<times> string) option" where
  "match_metric_first s =
     (case take_identifier s of None \<Rightarrow> None | Some (i, s1) \<Rightarrow>
      (case take_comparison (skip_spaces s1) of None \<Rightarrow> None | Some (c, s2) \<Rightarrow>
       (case take_number (skip_spaces s2) of None \<Rightarrow> None | Some (n, s3) \<Rightarrow> Some ((i, c, n), s3))))"

definition match_number_first :: "string \<Rightarrow> ((string \<times> Comparison \<times> real) \<times> string) option" where
  "match_number_first s =
     (case take_number s of None \<Rightarrow> None | Some (n, s1) \<Rightarrow>
      (case take_comparison (skip_spaces s1) of None \<Rightarrow> None | Some (c, s2) \<Rightarrow>
       (case take_identifier (skip_spaces s2) of None \<Rightarrow> None | Some (i, s3) \<Rightarrow> Some ((i, FLIPPED c, n), s3))))"

text \<open>
  \<open>matchAll\<close>: after a match the search goes on behind it, otherwise one character further.
  The text gets shorter in both cases; the fuel is its length.
\<close>

fun match_all :: "(string \<Rightarrow> ('a \<times> string) option) \<Rightarrow> nat \<Rightarrow> string \<Rightarrow> 'a list" where
  "match_all m 0 s = []"
| "match_all m (Suc fuel) [] = []"
| "match_all m (Suc fuel) (c # s) =
     (case m (c # s) of None \<Rightarrow> match_all m fuel s | Some (x, rest) \<Rightarrow> x # match_all m fuel rest)"

definition is_gate_metric :: "string \<Rightarrow> bool" where
  "is_gate_metric i = (case metricDefinition i of None \<Rightarrow> False | Some d \<Rightarrow> cv_role d = role_gate)"

definition thresholds_of :: "(string \<times> Comparison \<times> real) list \<Rightarrow> NumericGateThreshold list" where
  "thresholds_of xs = map (\<lambda>(i, c, n). \<lparr>nt_metricId = i, nt_comparison = c, nt_threshold = n\<rparr>)
     (filter (\<lambda>(i, c, n). is_gate_metric i) xs)"

definition numericGateThresholdsInCondition :: "string \<Rightarrow> NumericGateThreshold list" where
  "numericGateThresholdsInCondition condition =
     (let source = strip_strings condition
      in thresholds_of (match_all match_metric_first (length source) source)
         @ thresholds_of (match_all match_number_first (length source) source))"

section \<open>Machine contracts\<close>

record MachineContractDescriptor =
  mc_id :: string
  mc_version :: string
  mc_current :: bool

definition machineContractDescriptors :: "MachineContractDescriptor list" where
  "machineContractDescriptors =
     [\<lparr>mc_id = ''context-json'', mc_version = ''context-json-v1'', mc_current = True\<rparr>,
      \<lparr>mc_id = ''test-governance-json'', mc_version = ''test-governance-json-v1'', mc_current = True\<rparr>,
      \<lparr>mc_id = ''test-governance-provider-list-json'', mc_version = ''test-governance-provider-list-v1'', mc_current = True\<rparr>,
      \<lparr>mc_id = ''rules-facts-json'', mc_version = ''rules-facts-json-v1'', mc_current = True\<rparr>,
      \<lparr>mc_id = ''docs-check-json'', mc_version = ''docs-check-json-v1'', mc_current = True\<rparr>]"

section \<open>Properties\<close>

lemma set_identifiers [simp]: "set (identifiersOutsideStrings c) = set (scan_identifiers (strip_strings c))"
  by (simp add: identifiersOutsideStrings_def)

lemma celVariableDefinition_id: "celVariableDefinition i = Some d \<Longrightarrow> cv_id d = i \<and> d \<in> set celVariables"
  unfolding celVariableDefinition_def by (auto simp: find_Some_iff)

lemma unsupported_Nil_iff:
  "unsupportedCelVariablesInCondition c = [] \<longleftrightarrow>
     (\<forall>i \<in> set (identifiersOutsideStrings c). \<exists>d. celVariableDefinition i = Some d
        \<and> (cv_role d = role_gate \<or> cv_role d = role_classifier))"
proof -
  have sort_Nil: "sort xs = [] \<longleftrightarrow> xs = []" for xs :: "string list" by (metis set_empty set_sort)
  have "unsupported_variable i \<longleftrightarrow> \<not> (\<exists>d. celVariableDefinition i = Some d
      \<and> (cv_role d = role_gate \<or> cv_role d = role_classifier))" for i
    by (auto simp: unsupported_variable_def split: option.splits)
  then show ?thesis
    unfolding unsupportedCelVariablesInCondition_def sort_Nil filter_empty_conv by blast
qed

lemma unsupported_covers:
  "set (unknownCelVariablesInCondition c) \<subseteq> set (unsupportedCelVariablesInCondition c)"
  "cv_id ` set (nonGateMetricsInCondition c) \<subseteq> set (unsupportedCelVariablesInCondition c)"
proof -
  show "set (unknownCelVariablesInCondition c) \<subseteq> set (unsupportedCelVariablesInCondition c)"
    by (auto simp: unknownCelVariablesInCondition_def unsupportedCelVariablesInCondition_def unsupported_variable_def)
  have roles: "\<forall>d \<in> set celVariables. cv_kind d = kind_metric \<longrightarrow> cv_role d \<noteq> role_classifier"
    by (simp add: celVariables_def cel_var_def)
  show "cv_id ` set (nonGateMetricsInCondition c) \<subseteq> set (unsupportedCelVariablesInCondition c)"
  proof
    fix i assume "i \<in> cv_id ` set (nonGateMetricsInCondition c)"
    then obtain d j where d: "i = cv_id d" "cv_role d \<noteq> role_gate" "metricDefinition j = Some d"
      "j \<in> set (identifiersOutsideStrings c)"
      by (auto simp: nonGateMetricsInCondition_def metricIdsInCondition_def)
    then have def: "celVariableDefinition j = Some d" "cv_kind d = kind_metric"
      by (auto simp: metricDefinition_def split: option.splits if_splits)
    then have "i = j" "cv_role d \<noteq> role_classifier"
      using celVariableDefinition_id [OF def(1)] d(1) roles by auto
    with d def show "i \<in> set (unsupportedCelVariablesInCondition c)"
      by (simp add: unsupportedCelVariablesInCondition_def unsupported_variable_def)
  qed
qed

lemma match_all_fuel:
  assumes "\<And>s x r. m s = Some (x, r) \<Longrightarrow> length r < length s" "length s \<le> n"
  shows "match_all m n s = match_all m (length s) s"
  using assms(2)
proof (induction n arbitrary: s rule: less_induct)
  case (less n)
  show ?case
  proof (cases s)
    case Nil
    then show ?thesis by (cases n) simp_all
  next
    case (Cons c t)
    then obtain k where n: "n = Suc k" "length t \<le> k" using less.prems by (cases n) auto
    show ?thesis
    proof (cases "m s")
      case None
      then show ?thesis using less.IH [of k t] n Cons by simp
    next
      case (Some p)
      obtain x r where p: "p = (x, r)" by (cases p)
      have r: "length r \<le> length t" using assms(1) Some p Cons by fastforce
      have "match_all m k r = match_all m (length r) r" using less.IH [of k r] n r by simp
      moreover have "match_all m (length t) r = match_all m (length r) r"
        using less.IH [of "length t" r] n r by simp
      ultimately show ?thesis using Some p n Cons by simp
    qed
  qed
qed

lemma take_number_shorter: "take_number s = Some (n, r) \<Longrightarrow> length r < length s"
proof -
  assume some: "take_number s = Some (n, r)"
  then have whole: "takeWhile is_digit s \<noteq> []" by (auto simp: take_number_def Let_def split: if_splits)
  have "length (takeWhile is_digit s) + length (dropWhile is_digit s) = length s"
    by (metis length_append takeWhile_dropWhile_id)
  with whole have shorter: "length (dropWhile is_digit s) < length s" by (cases "takeWhile is_digit s") auto
  have "length (dropWhile is_digit (tl t)) \<le> length t" for t
    using length_dropWhile_le [of is_digit "tl t"] by simp
  then have "length r \<le> length (dropWhile is_digit s)"
    using some whole by (auto simp: take_number_def Let_def split: if_splits)
  with shorter show ?thesis by simp
qed

lemma take_comparison_shorter: "take_comparison s = Some (c, r) \<Longrightarrow> length r < length s"
  by (cases s) (auto simp: take_comparison_def starts_with_def split: if_splits)

lemma take_identifier_shorter: "take_identifier s = Some (i, r) \<Longrightarrow> length r < length s"
  by (cases s) (auto simp: take_identifier_def le_imp_less_Suc length_dropWhile_le split: if_splits)

lemma match_shorter:
  "match_metric_first s = Some (x, r) \<Longrightarrow> length r < length s"
  "match_number_first s = Some (x, r) \<Longrightarrow> length r < length s"
proof -
  have spaces: "length (skip_spaces t) \<le> length t" for t by (rule length_dropWhile_le)
  show "match_metric_first s = Some (x, r) \<Longrightarrow> length r < length s"
    by (auto simp: match_metric_first_def split: option.splits dest!: take_number_shorter take_comparison_shorter
        take_identifier_shorter) (meson less_le_trans less_trans order.strict_trans2 spaces)
  show "match_number_first s = Some (x, r) \<Longrightarrow> length r < length s"
    by (auto simp: match_number_first_def split: option.splits dest!: take_number_shorter take_comparison_shorter
        take_identifier_shorter) (meson less_le_trans less_trans order.strict_trans2 spaces)
qed

text \<open>More fuel than the length of the text changes nothing, so every match is found.\<close>

lemma thresholds_fuel:
  assumes "length (strip_strings c) \<le> n"
  shows "numericGateThresholdsInCondition c
    = thresholds_of (match_all match_metric_first n (strip_strings c))
      @ thresholds_of (match_all match_number_first n (strip_strings c))"
  using match_all_fuel [of match_metric_first, OF match_shorter(1) assms]
    match_all_fuel [of match_number_first, OF match_shorter(2) assms]
  by (simp add: numericGateThresholdsInCondition_def Let_def)

lemma thresholds_gate_metrics:
  "t \<in> set (numericGateThresholdsInCondition c) \<Longrightarrow> is_gate_metric (nt_metricId t)"
  by (auto simp: numericGateThresholdsInCondition_def thresholds_of_def Let_def)

text \<open>A condition passes the variable check exactly when every identifier outside its string
  literals is a gate metric or a classifier of the catalogue; the unknown variables and the metrics
  that may not gate are among the variables it rejects.\<close>

theorem condition_variables_supported:
  "(unsupportedCelVariablesInCondition c = [] \<longleftrightarrow>
      set (identifiersOutsideStrings c)
        \<subseteq> {i. \<exists>d. celVariableDefinition i = Some d \<and> (cv_role d = role_gate \<or> cv_role d = role_classifier)})
   \<and> set (unknownCelVariablesInCondition c) \<union> cv_id ` set (nonGateMetricsInCondition c)
       \<subseteq> set (unsupportedCelVariablesInCondition c)"
  using unsupported_covers [of c] unfolding unsupported_Nil_iff by blast

text \<open>The scan for thresholds ends: any fuel of at least the length of the condition gives the
  same thresholds, and each names a gate metric.\<close>

theorem thresholds_complete:
  assumes "length (strip_strings c) \<le> n"
  shows "numericGateThresholdsInCondition c
      = thresholds_of (match_all match_metric_first n (strip_strings c))
        @ thresholds_of (match_all match_number_first n (strip_strings c))
    \<and> nt_metricId ` set (numericGateThresholdsInCondition c) \<subseteq> {i. is_gate_metric i}"
  using thresholds_fuel [OF assms] thresholds_gate_metrics [of _ c] by blast

theorem thresholds_complete_witness:
  "map nt_metricId (thresholds_of (match_all match_metric_first 40 (strip_strings ''exposure > 0.5 && 10 <= loc''))
      @ thresholds_of (match_all match_number_first 40 (strip_strings ''exposure > 0.5 && 10 <= loc''))) = [''exposure'']"
proof -
  have len: "length (strip_strings ''exposure > 0.5 && 10 <= loc'') \<le> 40" by code_simp
  have "map nt_metricId (numericGateThresholdsInCondition ''exposure > 0.5 && 10 <= loc'') = [''exposure'']" by code_simp
  with thresholds_complete [OF len] show ?thesis by simp
qed

end
