(* ===== verification/Crl.thy ===== *)
theory Crl
  imports Weights
begin

text \<open>
  The cumulative burden of a file (\<open>crl.ts\<close>) and the compaction of its history into one
  checkpoint (\<open>historyRetention.ts\<close>). Numbers are \<open>jsnum\<close> because the code tests for values
  that are not finite. An instant is the text that is stored together with its time value in
  milliseconds, \<open>NaN\<close> for a text that is no date.
\<close>

section \<open>History\<close>

record Instant =
  in_text :: string
  in_ms :: jsnum

record FileDelta =
  fd_file :: string
  fd_deltaI :: jsnum
  fd_alphaStruct :: "jsnum option"

record HistoryEntry =
  he_timestamp :: Instant
  he_deltas :: "FileDelta list"

definition LAMBDA_60D :: real where
  "LAMBDA_60D = ln 2 / 60"

definition MS_PER_DAY :: real where
  "MS_PER_DAY = 86400000"

definition days :: "jsnum \<Rightarrow> jsnum" where
  "days ms = num_div_const ms MS_PER_DAY"

definition decayOf :: "jsnum \<Rightarrow> jsnum" where
  "decayOf age = num_exp (num_mul (Fin (- LAMBDA_60D)) age)"

definition add_scaled :: "jsnum \<Rightarrow> (string, jsnum) jmap \<Rightarrow> FileDelta \<Rightarrow> (string, jsnum) jmap" where
  "add_scaled factor m d =
     map_set m (fd_file d) (num_add (or_default (map_get m (fd_file d)) (Fin 0)) (num_mul (fd_deltaI d) factor))"

definition addScaled :: "(string, jsnum) jmap \<Rightarrow> FileDelta list \<Rightarrow> jsnum \<Rightarrow> (string, jsnum) jmap" where
  "addScaled target deltas factor = foldl (add_scaled factor) target deltas"

definition entryAge :: "jsnum \<Rightarrow> jsnum \<Rightarrow> jsnum" where
  "entryAge now t0 = num_max (Fin 0) (num_sub (days now) (days t0))"

definition computeCrl :: "HistoryEntry list \<Rightarrow> jsnum \<Rightarrow> (string, jsnum) jmap" where
  "computeCrl history now =
     foldl (\<lambda>crl entry. addScaled crl (he_deltas entry) (decayOf (entryAge now (in_ms (he_timestamp entry))))) [] history"

section \<open>Compaction\<close>

record SealedHistoryRecord =
  sr_entryId :: string
  sr_timestamp :: Instant
  sr_deltas :: "FileDelta list"

record HistoryCheckpoint =
  hc_schemaVersion :: string
  hc_compactedAt :: Instant
  hc_sourceEntryCount :: int
  hc_sourceFingerprint :: string
  hc_deltas :: "FileDelta list"

definition HISTORY_CHECKPOINT_VERSION :: string where
  "HISTORY_CHECKPOINT_VERSION = ''1''"

definition delta_json :: "FileDelta \<Rightarrow> json" where
  "delta_json d = JObj ([(''file'', JStr (fd_file d)), (''deltaI'', JNum (fd_deltaI d))]
     @ json_field ''alphaStruct'' (map_option JNum (fd_alphaStruct d)))"

definition record_json :: "SealedHistoryRecord \<Rightarrow> json" where
  "record_json r = JObj [(''entryId'', JStr (sr_entryId r)), (''timestamp'', JStr (in_text (sr_timestamp r))),
     (''deltas'', JArr (map delta_json (sr_deltas r)))]"

definition sourceFingerprintOf ::
  "(json \<Rightarrow> string) \<Rightarrow> string cmp \<Rightarrow> string option \<Rightarrow> SealedHistoryRecord list \<Rightarrow> string" where
  "sourceFingerprintOf hash lc previous records =
     hash (JObj (json_field ''previous'' (map_option JStr previous)
       @ [(''records'', JArr (map record_json (js_sort (on_key lc sr_entryId) records)))]))"

definition sortedDeltas :: "string cmp \<Rightarrow> (string, jsnum) jmap \<Rightarrow> FileDelta list" where
  "sortedDeltas lc values =
     map (\<lambda>(file, deltaI). \<lparr>fd_file = file, fd_deltaI = deltaI, fd_alphaStruct = None\<rparr>)
       (js_sort (on_key lc fst) (filter (\<lambda>(file, deltaI). is_finite deltaI \<and> deltaI \<noteq> Fin 0) values))"

definition utc_midnight :: "jsnum \<Rightarrow> jsnum" where
  "utc_midnight t = (case t of Fin x \<Rightarrow> Fin (MS_PER_DAY * of_int \<lfloor>x / MS_PER_DAY\<rfloor>) | _ \<Rightarrow> NaN)"

definition historyRetentionCutoff :: "jsnum \<Rightarrow> real \<Rightarrow> jsnum" where
  "historyRetentionCutoff now rawWindowDays = utc_midnight (num_sub now (Fin (rawWindowDays * MS_PER_DAY)))"

record HistoryCompactionResult =
  cr_compactedEntries :: nat
  cr_retainedEntries :: nat
  cr_checkpoint :: "HistoryCheckpoint option"
  cr_retained :: "SealedHistoryRecord list"

definition compacted_by :: "jsnum \<Rightarrow> SealedHistoryRecord \<Rightarrow> bool" where
  "compacted_by cutoff r = num_le (in_ms (sr_timestamp r)) cutoff"

definition contributionsOf :: "HistoryCheckpoint option \<Rightarrow> SealedHistoryRecord list \<Rightarrow> jsnum \<Rightarrow> (string, jsnum) jmap" where
  "contributionsOf checkpoint compacted cutoffMs =
     (let age = (\<lambda>t0. num_max (Fin 0) (num_div_const (num_sub cutoffMs (in_ms t0)) MS_PER_DAY));
          start = (case checkpoint of None \<Rightarrow> []
             | Some c \<Rightarrow> addScaled [] (hc_deltas c) (decayOf (age (hc_compactedAt c))))
      in foldl (\<lambda>m r. addScaled m (sr_deltas r) (decayOf (age (sr_timestamp r)))) start compacted)"

definition compactHistoryRecords ::
  "(json \<Rightarrow> string) \<Rightarrow> string cmp \<Rightarrow> HistoryCheckpoint option \<Rightarrow> SealedHistoryRecord list \<Rightarrow> Instant
     \<Rightarrow> HistoryCompactionResult" where
  "compactHistoryRecords hash lc checkpoint records cutoff =
     (let compacted = filter (compacted_by (in_ms cutoff)) records;
          retained = filter (\<lambda>r. \<not> compacted_by (in_ms cutoff) r) records
      in if compacted = [] then
           \<lparr>cr_compactedEntries = 0, cr_retainedEntries = length retained, cr_checkpoint = checkpoint,
            cr_retained = retained\<rparr>
         else
           let nextCheckpoint = \<lparr>hc_schemaVersion = HISTORY_CHECKPOINT_VERSION, hc_compactedAt = cutoff,
                 hc_sourceEntryCount = (case checkpoint of None \<Rightarrow> 0 | Some c \<Rightarrow> hc_sourceEntryCount c) + int (length compacted),
                 hc_sourceFingerprint = sourceFingerprintOf hash lc (map_option hc_sourceFingerprint checkpoint) compacted,
                 hc_deltas = sortedDeltas lc (contributionsOf checkpoint compacted (in_ms cutoff))\<rparr>
           in \<lparr>cr_compactedEntries = length compacted, cr_retainedEntries = length retained,
               cr_checkpoint = Some nextCheckpoint, cr_retained = retained\<rparr>)"

text \<open>What a reader replays: the checkpoint as one entry, then the raw records.\<close>

definition entry_of_record :: "SealedHistoryRecord \<Rightarrow> HistoryEntry" where
  "entry_of_record r = \<lparr>he_timestamp = sr_timestamp r, he_deltas = sr_deltas r\<rparr>"

definition entry_of_checkpoint :: "HistoryCheckpoint \<Rightarrow> HistoryEntry" where
  "entry_of_checkpoint c = \<lparr>he_timestamp = hc_compactedAt c, he_deltas = hc_deltas c\<rparr>"

definition replayEntries :: "HistoryCheckpoint option \<Rightarrow> SealedHistoryRecord list \<Rightarrow> HistoryEntry list" where
  "replayEntries checkpoint records =
     map entry_of_checkpoint (present [checkpoint]) @ map entry_of_record records"

section \<open>Memoryless decay\<close>

text \<open>What a decay must promise so that a sum can be valued at a cutoff and rescaled later.\<close>

locale decay =
  fixes w :: "real \<Rightarrow> real"
  assumes w_add: "0 \<le> a \<Longrightarrow> 0 \<le> b \<Longrightarrow> w (a + b) = w a * w b"
    and w_zero: "w 0 = 1"
    and w_pos: "0 < w a"
begin

lemma w_split: "s \<le> t \<Longrightarrow> t \<le> u \<Longrightarrow> w (u - s) = w (u - t) * w (t - s)"
  using w_add [of "u - t" "t - s"] by simp

lemma w_mono_nonneg: "\<forall>a \<ge> 0. w a \<le> 1 \<Longrightarrow> 0 \<le> a \<Longrightarrow> a \<le> b \<Longrightarrow> w b \<le> w a"
proof -
  assume le1: "\<forall>a \<ge> 0. w a \<le> 1" and ab: "0 \<le> a" "a \<le> b"
  then have "w b = w a * w (b - a)" using w_add [of a "b - a"] by simp
  also have "\<dots> \<le> w a * 1" using le1 ab w_pos [of a] by (intro mult_left_mono) simp_all
  finally show "w b \<le> w a" by simp
qed

end

definition decay_weight :: "real \<Rightarrow> real" where
  "decay_weight age = exp (- LAMBDA_60D * age)"

lemma decay_weight_add: "decay_weight (a + b) = decay_weight a * decay_weight b"
  by (simp only: decay_weight_def distrib_left exp_add)

interpretation half_life: decay decay_weight
  by unfold_locales (rule decay_weight_add, simp_all add: decay_weight_def)

lemma decay_weight_60: "decay_weight 60 = 1 / 2"
  by (simp add: decay_weight_def LAMBDA_60D_def exp_minus inverse_eq_divide)

lemma decay_weight_le_1: "0 \<le> age \<Longrightarrow> decay_weight age \<le> 1"
  by (simp add: decay_weight_def LAMBDA_60D_def)

lemma decayOf_Fin [simp]: "decayOf (Fin age) = Fin (decay_weight age)"
  by (simp add: decayOf_def decay_weight_def)

section \<open>Finite histories\<close>

definition finite_deltas :: "FileDelta list \<Rightarrow> bool" where
  "finite_deltas ds = (\<forall>d \<in> set ds. is_finite (fd_deltaI d))"

definition finite_map :: "(string, jsnum) jmap \<Rightarrow> bool" where
  "finite_map m = (\<forall>k v. map_of m k = Some v \<longrightarrow> is_finite v)"

definition value_at :: "(string, jsnum) jmap \<Rightarrow> string \<Rightarrow> real" where
  "value_at m f = num_val (or_default (map_of m f) (Fin 0))"

definition delta_sum :: "FileDelta list \<Rightarrow> string \<Rightarrow> real" where
  "delta_sum ds f = sum_list (map (\<lambda>d. num_val (fd_deltaI d)) (filter (\<lambda>d. fd_file d = f) ds))"

lemma delta_sum_simps [simp]:
  "delta_sum [] f = 0"
  "delta_sum (d # ds) f = (if fd_file d = f then num_val (fd_deltaI d) else 0) + delta_sum ds f"
  by (simp_all add: delta_sum_def)

lemma finite_map_get: "finite_map m \<Longrightarrow> \<exists>x. or_default (map_of m k) (Fin 0) = Fin x"
  by (cases "map_of m k") (auto simp: finite_map_def is_finite_iff)

lemma addScaled_finite:
  assumes "finite_map m" "finite_deltas ds"
  shows "finite_map (addScaled m ds (Fin w))"
    and "value_at (addScaled m ds (Fin w)) f = value_at m f + delta_sum ds f * w"
proof -
  have "finite_map (addScaled m ds (Fin w))
      \<and> value_at (addScaled m ds (Fin w)) f = value_at m f + delta_sum ds f * w"
    using assms unfolding addScaled_def
  proof (induction ds arbitrary: m)
    case (Cons d ds)
    obtain x where x: "fd_deltaI d = Fin x"
      using Cons.prems(2) by (auto simp: finite_deltas_def is_finite_iff)
    obtain y where y: "or_default (map_of m (fd_file d)) (Fin 0) = Fin y"
      using finite_map_get [OF Cons.prems(1)] by blast
    have step: "add_scaled (Fin w) m d = map_set m (fd_file d) (Fin (y + x * w))"
      by (simp add: add_scaled_def x y)
    have "finite_map (add_scaled (Fin w) m d)"
      using Cons.prems(1) by (auto simp: step finite_map_def)
    moreover have "value_at (add_scaled (Fin w) m d) f
        = value_at m f + (if fd_file d = f then num_val (fd_deltaI d) else 0) * w"
      by (auto simp: step value_at_def x y)
    moreover have "finite_deltas ds" using Cons.prems(2) by (simp add: finite_deltas_def)
    ultimately show ?case using Cons.IH [of "add_scaled (Fin w) m d"] by (simp add: algebra_simps)
  qed simp
  then show "finite_map (addScaled m ds (Fin w))"
    "value_at (addScaled m ds (Fin w)) f = value_at m f + delta_sum ds f * w" by blast+
qed

definition valid_entry :: "HistoryEntry \<Rightarrow> bool" where
  "valid_entry e = (is_finite (in_ms (he_timestamp e)) \<and> finite_deltas (he_deltas e))"

definition age_days :: "real \<Rightarrow> real \<Rightarrow> real" where
  "age_days now t0 = max 0 (now / MS_PER_DAY - t0 / MS_PER_DAY)"

lemma entryAge_Fin [simp]: "entryAge (Fin now) (Fin t0) = Fin (age_days now t0)"
  by (simp add: entryAge_def days_def age_days_def)

lemma finite_map_Nil [simp]: "finite_map []"
  by (simp add: finite_map_def)

lemma value_at_Nil [simp]: "value_at [] f = 0"
  by (simp add: value_at_def)

text \<open>The value of a file is the sum of its contributions, each decayed by its own age.\<close>

definition crl_value :: "HistoryEntry list \<Rightarrow> real \<Rightarrow> string \<Rightarrow> real" where
  "crl_value es now f = sum_list (map (\<lambda>e. delta_sum (he_deltas e) f
     * decay_weight (age_days now (num_val (in_ms (he_timestamp e))))) es)"

lemma computeCrl_value:
  assumes "\<forall>e \<in> set es. valid_entry e"
  shows "finite_map (computeCrl es (Fin now))" "value_at (computeCrl es (Fin now)) f = crl_value es now f"
proof -
  let ?step = "\<lambda>crl entry. addScaled crl (he_deltas entry) (decayOf (entryAge (Fin now) (in_ms (he_timestamp entry))))"
  have "finite_map (foldl ?step m es) \<and> value_at (foldl ?step m es) f = value_at m f + crl_value es now f"
    if "finite_map m" for m
    using that assms
  proof (induction es arbitrary: m)
    case (Cons e es)
    obtain t where t: "in_ms (he_timestamp e) = Fin t" and fin: "finite_deltas (he_deltas e)"
      using Cons.prems(2) by (auto simp: valid_entry_def is_finite_iff)
    note step = addScaled_finite [OF Cons.prems(1) fin, of "decay_weight (age_days now t)"]
    have "finite_map (?step m e)" using step(1) by (simp add: t)
    with Cons.IH [of "?step m e"] Cons.prems(2) step(2) [of f] show ?case
      by (simp add: t crl_value_def)
  qed (simp add: crl_value_def)
  from this [of "[]"] show "finite_map (computeCrl es (Fin now))"
    "value_at (computeCrl es (Fin now)) f = crl_value es now f"
    by (simp_all add: computeCrl_def)
qed

lemma crl_value_append: "crl_value (xs @ ys) now f = crl_value xs now f + crl_value ys now f"
  by (simp add: crl_value_def)

section \<open>Compaction keeps every value\<close>

definition valid_record :: "SealedHistoryRecord \<Rightarrow> bool" where
  "valid_record r = valid_entry (entry_of_record r)"

definition valid_checkpoint_at :: "real \<Rightarrow> HistoryCheckpoint \<Rightarrow> bool" where
  "valid_checkpoint_at c cp = (valid_entry (entry_of_checkpoint cp) \<and> num_val (in_ms (hc_compactedAt cp)) \<le> c)"

lemma decay_split:
  assumes "t0 \<le> c" "c \<le> now"
  shows "decay_weight (age_days now t0) = decay_weight (age_days now c) * decay_weight (age_days c t0)"
proof -
  have "t0 / MS_PER_DAY \<le> c / MS_PER_DAY" "c / MS_PER_DAY \<le> now / MS_PER_DAY"
    using assms by (simp_all add: MS_PER_DAY_def)
  then show ?thesis
    using half_life.w_split [of "t0 / MS_PER_DAY" "c / MS_PER_DAY" "now / MS_PER_DAY"] by (simp add: age_days_def)
qed

lemma crl_value_rescale:
  assumes "c \<le> now" "\<forall>e \<in> set es. num_val (in_ms (he_timestamp e)) \<le> c"
  shows "crl_value es now f = decay_weight (age_days now c) * crl_value es c f"
  using assms(2)
proof (induction es)
  case (Cons e es)
  then have "decay_weight (age_days now (num_val (in_ms (he_timestamp e))))
      = decay_weight (age_days now c) * decay_weight (age_days c (num_val (in_ms (he_timestamp e))))"
    using assms(1) by (intro decay_split) simp_all
  with Cons show ?case by (simp add: crl_value_def algebra_simps)
qed (simp add: crl_value_def)

text \<open>The contributions are the burden of the compacted part, valued at the cutoff.\<close>

lemma contributions_crl:
  assumes "\<forall>r \<in> set compacted. valid_record r" "\<forall>cp. checkpoint = Some cp \<longrightarrow> valid_entry (entry_of_checkpoint cp)"
  shows "contributionsOf checkpoint compacted (Fin c) = computeCrl (replayEntries checkpoint compacted) (Fin c)"
proof -
  have age: "num_max (Fin 0) (num_div_const (num_sub (Fin c) (Fin t)) MS_PER_DAY) = entryAge (Fin c) (Fin t)" for t
    by (simp add: age_days_def diff_divide_distrib)
  have fin: "\<exists>t. in_ms (sr_timestamp r) = Fin t" if "r \<in> set compacted" for r
    using assms(1) that by (auto simp: valid_record_def valid_entry_def entry_of_record_def is_finite_iff)
  have fold: "foldl (\<lambda>m r. addScaled m (sr_deltas r)
        (decayOf (num_max (Fin 0) (num_div_const (num_sub (Fin c) (in_ms (sr_timestamp r))) MS_PER_DAY)))) m rs
      = foldl (\<lambda>crl e. addScaled crl (he_deltas e) (decayOf (entryAge (Fin c) (in_ms (he_timestamp e))))) m
          (map entry_of_record rs)" if "set rs \<subseteq> set compacted" for m rs
    using that
  proof (induction rs arbitrary: m)
    case (Cons r rs)
    then obtain t where "in_ms (sr_timestamp r) = Fin t" using fin [of r] by auto
    with Cons age [of t] show ?case by (simp add: entry_of_record_def)
  qed simp
  show ?thesis
  proof (cases checkpoint)
    case None
    with fold [OF order_refl] show ?thesis
      by (simp add: contributionsOf_def computeCrl_def replayEntries_def Let_def)
  next
    case (Some cp)
    then obtain t where t: "in_ms (hc_compactedAt cp) = Fin t"
      using assms(2) by (auto simp: valid_entry_def entry_of_checkpoint_def is_finite_iff)
    with Some age [of t] fold [OF order_refl] show ?thesis
      by (simp add: contributionsOf_def computeCrl_def replayEntries_def entry_of_checkpoint_def Let_def)
  qed
qed

lemma sortedDeltas_sum:
  assumes "finite_map m" "well_keyed m"
  shows "delta_sum (sortedDeltas lc m) f = value_at m f"
proof -
  let ?P = "\<lambda>(file :: string, deltaI). is_finite deltaI \<and> deltaI \<noteq> Fin 0"
  let ?g = "\<lambda>(file, deltaI). \<lparr>fd_file = file, fd_deltaI = deltaI, fd_alphaStruct = None\<rparr>"
  have "delta_sum (map ?g xs) f = (\<Sum>x \<in># mset xs. if fst x = f then num_val (snd x) else 0)" for xs
    by (induction xs) (auto simp: case_prod_beta)
  then have "delta_sum (sortedDeltas lc m) f = (\<Sum>x \<in># mset (filter ?P m). if fst x = f then num_val (snd x) else 0)"
    by (simp add: sortedDeltas_def)
  also have "\<dots> = sum_list (map (\<lambda>x. if fst x = f then num_val (snd x) else 0) (filter ?P m))"
    by (simp only: mset_map [symmetric] sum_mset_sum_list)
  also have "\<dots> = sum_list (map (\<lambda>x. if fst x = f then num_val (snd x) else 0) m)"
  proof -
    have "sum_list (map (\<lambda>x. if fst x = f then num_val (snd x) else 0) (filter ?P xs))
        = sum_list (map (\<lambda>x. if fst x = f then num_val (snd x) else 0) xs)"
      if "\<forall>x \<in> set xs. is_finite (snd x)" for xs
      using that by (induction xs) auto
    moreover have "\<forall>x \<in> set m. is_finite (snd x)"
      using assms by (auto simp: finite_map_def well_keyed_get)
    ultimately show ?thesis by blast
  qed
  also have "\<dots> = value_at m f"
    using assms(2)
  proof (induction m)
    case (Cons e m)
    have zero: "sum_list (map (\<lambda>x. if fst x = f then num_val (snd x) else 0) xs) = 0" if "f \<notin> fst ` set xs" for xs :: "(string, jsnum) jmap"
      using that by (induction xs) auto
    have wk: "well_keyed m" "fst e \<notin> fst ` set m" using Cons.prems by (simp_all add: well_keyed_def)
    show ?case
    proof (cases "fst e = f")
      case True
      then have "sum_list (map (\<lambda>x. if fst x = f then num_val (snd x) else 0) m) = 0" using zero wk(2) by blast
      with True show ?thesis by (cases e) (simp add: value_at_def)
    next
      case False
      with Cons.IH [OF wk(1)] show ?thesis by (cases e) (simp add: value_at_def)
    qed
  qed simp
  finally show ?thesis .
qed

lemma addScaled_keyed: "well_keyed m \<Longrightarrow> well_keyed (addScaled m ds w)"
  unfolding addScaled_def by (induction ds arbitrary: m) (auto simp: add_scaled_def)

lemma computeCrl_keyed: "well_keyed (computeCrl es now)"
proof -
  have "well_keyed m \<Longrightarrow> well_keyed (foldl (\<lambda>crl entry. addScaled crl (he_deltas entry)
      (decayOf (entryAge now (in_ms (he_timestamp entry))))) m es)" for m
    by (induction es arbitrary: m) (auto simp: addScaled_keyed)
  then show ?thesis by (simp add: computeCrl_def)
qed

lemma sortedDeltas_finite: "finite_deltas (sortedDeltas lc m)"
  by (auto simp: sortedDeltas_def finite_deltas_def)

definition nextCheckpointOf ::
  "(json \<Rightarrow> string) \<Rightarrow> string cmp \<Rightarrow> HistoryCheckpoint option \<Rightarrow> SealedHistoryRecord list \<Rightarrow> Instant \<Rightarrow> HistoryCheckpoint" where
  "nextCheckpointOf hash lc checkpoint compacted cutoff =
     \<lparr>hc_schemaVersion = HISTORY_CHECKPOINT_VERSION, hc_compactedAt = cutoff,
      hc_sourceEntryCount = (case checkpoint of None \<Rightarrow> 0 | Some c \<Rightarrow> hc_sourceEntryCount c) + int (length compacted),
      hc_sourceFingerprint = sourceFingerprintOf hash lc (map_option hc_sourceFingerprint checkpoint) compacted,
      hc_deltas = sortedDeltas lc (contributionsOf checkpoint compacted (in_ms cutoff))\<rparr>"

lemma compactHistoryRecords_unfold:
  fixes cutoff :: Instant
  defines "old \<equiv> \<lambda>rs. filter (compacted_by (in_ms cutoff)) rs"
    and "new \<equiv> \<lambda>rs. filter (\<lambda>r. \<not> compacted_by (in_ms cutoff) r) rs"
  shows "compactHistoryRecords hash lc checkpoint records cutoff =
    \<lparr>cr_compactedEntries = length (old records), cr_retainedEntries = length (new records),
     cr_checkpoint = (if old records = [] then checkpoint
       else Some (nextCheckpointOf hash lc checkpoint (old records) cutoff)),
     cr_retained = new records\<rparr>"
  by (simp add: compactHistoryRecords_def nextCheckpointOf_def old_def new_def Let_def)

lemma crl_value_partition:
  "crl_value (map entry_of_record rs) now f
     = crl_value (map entry_of_record (filter P rs)) now f + crl_value (map entry_of_record (filter (\<lambda>r. \<not> P r) rs)) now f"
  by (induction rs) (auto simp: crl_value_def)

lemma next_checkpoint_value:
  assumes "\<forall>r \<in> set compacted. valid_record r \<and> num_val (in_ms (sr_timestamp r)) \<le> c"
    and "\<forall>cp. checkpoint = Some cp \<longrightarrow> valid_checkpoint_at c cp" "in_ms cutoff = Fin c" "c \<le> now"
  shows "crl_value [entry_of_checkpoint (nextCheckpointOf hash lc checkpoint compacted cutoff)] now f
    = crl_value (replayEntries checkpoint compacted) now f"
proof -
  let ?es = "replayEntries checkpoint compacted"
  have valid: "\<forall>e \<in> set ?es. valid_entry e"
    using assms(1,2) by (auto simp: replayEntries_def valid_record_def valid_checkpoint_at_def)
  have old: "\<forall>e \<in> set ?es. num_val (in_ms (he_timestamp e)) \<le> c"
    using assms(1,2)
    by (auto simp: replayEntries_def valid_checkpoint_at_def entry_of_record_def entry_of_checkpoint_def)
  have contributions: "contributionsOf checkpoint compacted (Fin c) = computeCrl ?es (Fin c)"
    using assms(1,2) by (intro contributions_crl) (auto simp: valid_checkpoint_at_def)
  have "delta_sum (hc_deltas (nextCheckpointOf hash lc checkpoint compacted cutoff)) f = crl_value ?es c f"
    using sortedDeltas_sum [OF computeCrl_value(1) [OF valid] computeCrl_keyed]
      computeCrl_value(2) [OF valid]
    by (simp add: nextCheckpointOf_def assms(3) contributions)
  then have "crl_value [entry_of_checkpoint (nextCheckpointOf hash lc checkpoint compacted cutoff)] now f
      = crl_value ?es c f * decay_weight (age_days now c)"
    by (simp add: crl_value_def entry_of_checkpoint_def nextCheckpointOf_def assms(3))
  also have "\<dots> = crl_value ?es now f"
    using crl_value_rescale [OF assms(4) old] by simp
  finally show ?thesis .
qed

lemma compacted_by_le: "compacted_by (Fin c) r \<Longrightarrow> num_val (in_ms (sr_timestamp r)) \<le> c \<or> in_ms (sr_timestamp r) = NInf"
  by (cases "in_ms (sr_timestamp r)") (auto simp: compacted_by_def)

lemma compacted_valid_le: "compacted_by (Fin c) r \<Longrightarrow> valid_record r \<Longrightarrow> num_val (in_ms (sr_timestamp r)) \<le> c"
  by (cases "in_ms (sr_timestamp r)")
    (auto simp: compacted_by_def valid_record_def valid_entry_def entry_of_record_def)

lemma compaction_preserves_crl:
  assumes "\<forall>r \<in> set records. valid_record r" "\<forall>cp. checkpoint = Some cp \<longrightarrow> valid_checkpoint_at c cp"
    and "in_ms cutoff = Fin c" "c \<le> now"
    and result_def: "result = compactHistoryRecords hash lc checkpoint records cutoff"
  shows "crl_value (replayEntries (cr_checkpoint result) (cr_retained result)) now f
    = crl_value (replayEntries checkpoint records) now f"
proof -
  let ?old = "filter (compacted_by (in_ms cutoff)) records"
    and ?new = "filter (\<lambda>r. \<not> compacted_by (in_ms cutoff) r) records"
  have split: "crl_value (map entry_of_record records) now f
      = crl_value (map entry_of_record ?old) now f + crl_value (map entry_of_record ?new) now f"
    by (rule crl_value_partition)
  show ?thesis
  proof (cases "?old = []")
    case True
    then show ?thesis
      by (simp add: result_def compactHistoryRecords_unfold replayEntries_def crl_value_append split)
        (simp add: crl_value_def)
  next
    case False
    have old: "\<forall>r \<in> set ?old. valid_record r \<and> num_val (in_ms (sr_timestamp r)) \<le> c"
      using assms(1,3) compacted_valid_le by auto
    have "crl_value [entry_of_checkpoint (nextCheckpointOf hash lc checkpoint ?old cutoff)] now f
        = crl_value (map entry_of_checkpoint (present [checkpoint])) now f + crl_value (map entry_of_record ?old) now f"
      using next_checkpoint_value [OF old assms(2-4)] by (simp add: replayEntries_def crl_value_append)
    moreover have "replayEntries (cr_checkpoint result) (cr_retained result)
        = [entry_of_checkpoint (nextCheckpointOf hash lc checkpoint ?old cutoff)] @ map entry_of_record ?new"
      using False by (simp add: result_def compactHistoryRecords_unfold replayEntries_def)
    ultimately show ?thesis
      unfolding replayEntries_def by (simp only: crl_value_append split)
  qed
qed

section \<open>Files of a checkpoint\<close>

lemma addScaled_keys: "fst ` set (addScaled m ds w) = fst ` set m \<union> fd_file ` set ds"
  unfolding addScaled_def by (induction ds arbitrary: m) (auto simp: add_scaled_def)

lemma contributions_keys:
  "fst ` set (contributionsOf checkpoint compacted c)
    = (\<Union>cp \<in> set (present [checkpoint]). fd_file ` set (hc_deltas cp)) \<union> (\<Union>r \<in> set compacted. fd_file ` set (sr_deltas r))"
proof -
  have fold: "fst ` set (foldl (\<lambda>m r. addScaled m (sr_deltas r) (g r)) m rs)
      = fst ` set m \<union> (\<Union>r \<in> set rs. fd_file ` set (sr_deltas r))" for g m rs
    by (induction rs arbitrary: m) (auto simp: addScaled_keys)
  show ?thesis
    by (cases checkpoint) (simp_all add: contributionsOf_def fold addScaled_keys Let_def)
qed

lemma sortedDeltas_files: "fd_file ` set (sortedDeltas lc m) \<subseteq> fst ` set m"
  by (force simp: sortedDeltas_def)

end
