(* ===== verification/History_Ledger.thy ===== *)
theory History_Ledger
  imports Crl Governance
begin

text \<open>
  The directory that holds the history (\<open>HistoryLedger.ts\<close>, \<open>JsonHistoryStore.ts\<close>): one file
  per entry, the checkpoint and the marker of a compaction under way. The writes of a
  compaction are a list of atomic file operations; a crash is any prefix of it. File names
  are entry ids; a file's content is the parsed value, which reading validates.
\<close>

section \<open>The directory\<close>

record PendingCompaction =
  pm_checkpoint :: HistoryCheckpoint
  pm_compactedEntryIds :: "string list"

record LedgerDir =
  ld_checkpoint :: "HistoryCheckpoint option"
  ld_marker :: "PendingCompaction option"
  ld_files :: "(string, SealedHistoryRecord) jmap"

definition isDeltas :: "FileDelta list \<Rightarrow> bool" where
  "isDeltas ds = list_all (\<lambda>d. fd_file d \<noteq> [] \<and> is_finite (fd_deltaI d)) ds"

definition isTimestamp :: "Instant \<Rightarrow> bool" where
  "isTimestamp t = (in_text t \<noteq> [] \<and> is_finite (in_ms t))"

definition is_hex :: "char \<Rightarrow> bool" where
  "is_hex c = (is_digit c \<or> (97 \<le> code c \<and> code c \<le> (102 :: nat)))"

definition isFingerprint :: "string \<Rightarrow> bool" where
  "isFingerprint s = (length s = 64 \<and> list_all is_hex s)"

definition parseCheckpoint :: "HistoryCheckpoint \<Rightarrow> HistoryCheckpoint result" where
  "parseCheckpoint c =
     (if hc_schemaVersion c \<noteq> HISTORY_CHECKPOINT_VERSION \<or> \<not> isTimestamp (hc_compactedAt c)
         \<or> hc_sourceEntryCount c < 0 \<or> \<not> isFingerprint (hc_sourceFingerprint c) \<or> \<not> isDeltas (hc_deltas c)
      then Inl ''malformed history checkpoint'' else Inr c)"

definition readCheckpoint :: "LedgerDir \<Rightarrow> HistoryCheckpoint option result" where
  "readCheckpoint dir =
     (case ld_checkpoint dir of
        None \<Rightarrow> Inr None
      | Some c \<Rightarrow> (case parseCheckpoint c of Inl e \<Rightarrow> Inl e | Inr c \<Rightarrow> Inr (Some c)))"

definition readPendingCompaction :: "LedgerDir \<Rightarrow> PendingCompaction option result" where
  "readPendingCompaction dir =
     (case ld_marker dir of
        None \<Rightarrow> Inr None
      | Some m \<Rightarrow>
          if \<not> list_all (\<lambda>i. i \<noteq> []) (pm_compactedEntryIds m) \<or> \<not> distinct (pm_compactedEntryIds m)
          then Inl ''malformed history compaction marker''
          else case parseCheckpoint (pm_checkpoint m) of
              Inl e \<Rightarrow> Inl e
            | Inr c \<Rightarrow>
                if hc_sourceEntryCount c < int (length (pm_compactedEntryIds m))
                then Inl ''checkpoint source count precedes compacted entries'' else Inr (Some m))"

text \<open>The files in the order of their names.\<close>

definition sorted_files :: "LedgerDir \<Rightarrow> SealedHistoryRecord list" where
  "sorted_files dir = map (\<lambda>f. the (map_of (ld_files dir) f)) (sort (map_keys (ld_files dir)))"

definition valid_file :: "SealedHistoryRecord \<Rightarrow> bool" where
  "valid_file r = (sr_entryId r \<noteq> [] \<and> isTimestamp (sr_timestamp r) \<and> isDeltas (sr_deltas r))"

definition readRecords :: "LedgerDir \<Rightarrow> SealedHistoryRecord list result" where
  "readRecords dir =
     (let records = sorted_files dir in
      if \<not> list_all valid_file records then Inl ''malformed history record''
      else if \<not> distinct (map sr_entryId records) then Inl ''history contains duplicate entry ids''
      else Inr records)"

definition readableLedger :: "LedgerDir \<Rightarrow> (HistoryCheckpoint option \<times> SealedHistoryRecord list) result" where
  "readableLedger dir =
     (case readPendingCompaction dir of Inl e \<Rightarrow> Inl e | Inr pending \<Rightarrow>
      (case readCheckpoint dir of Inl e \<Rightarrow> Inl e | Inr checkpoint \<Rightarrow>
       if (case (pending, checkpoint) of (Some p, Some c) \<Rightarrow> pm_checkpoint p \<noteq> c | _ \<Rightarrow> False)
       then Inl ''history checkpoint disagrees with pending compaction marker''
       else case readRecords dir of Inl e \<Rightarrow> Inl e | Inr records \<Rightarrow>
         let hidden = (case pending of None \<Rightarrow> [] | Some p \<Rightarrow> pm_compactedEntryIds p)
         in Inr (or_option (map_option pm_checkpoint pending) checkpoint,
                 filter (\<lambda>r. sr_entryId r \<notin> set hidden) records)))"

definition readHistoryReplayRecords :: "LedgerDir \<Rightarrow> HistoryEntry list result" where
  "readHistoryReplayRecords dir =
     (case readableLedger dir of Inl e \<Rightarrow> Inl e
      | Inr (checkpoint, records) \<Rightarrow> Inr (replayEntries checkpoint records))"

definition impact_fact :: "Instant \<Rightarrow> FileDelta list \<Rightarrow> int \<Rightarrow> jsnum \<times> jsnum \<times> nat \<times> int" where
  "impact_fact timestamp deltas entryCount =
     (in_ms timestamp, foldl (\<lambda>sum d. num_add sum (fd_deltaI d)) (Fin 0) deltas,
      length (filter (\<lambda>d. fd_deltaI d \<noteq> Fin 0) deltas), entryCount)"

definition readHistoryImpactFacts :: "LedgerDir \<Rightarrow> (jsnum \<times> jsnum \<times> nat \<times> int) list result" where
  "readHistoryImpactFacts dir =
     (case readableLedger dir of Inl e \<Rightarrow> Inl e
      | Inr (checkpoint, records) \<Rightarrow>
          let raw = map (\<lambda>r. impact_fact (sr_timestamp r) (sr_deltas r) 1) records
          in Inr (case checkpoint of None \<Rightarrow> raw
             | Some c \<Rightarrow> impact_fact (hc_compactedAt c) (hc_deltas c) (hc_sourceEntryCount c) # raw))"

section \<open>Writes\<close>

datatype LedgerWrite =
    PublishMarker PendingCompaction
  | WriteCheckpoint HistoryCheckpoint
  | UnlinkEntry string
  | RemoveMarker

fun applyWrite :: "LedgerDir \<Rightarrow> LedgerWrite \<Rightarrow> LedgerDir" where
  "applyWrite dir (PublishMarker m) = dir\<lparr>ld_marker := Some m\<rparr>"
| "applyWrite dir (WriteCheckpoint c) = dir\<lparr>ld_checkpoint := Some c\<rparr>"
| "applyWrite dir (UnlinkEntry i) = dir\<lparr>ld_files := filter (\<lambda>(f, _). f \<noteq> i) (ld_files dir)\<rparr>"
| "applyWrite dir RemoveMarker = dir\<lparr>ld_marker := None\<rparr>"

definition recoveryWrites :: "PendingCompaction \<Rightarrow> LedgerWrite list" where
  "recoveryWrites m = WriteCheckpoint (pm_checkpoint m) # map UnlinkEntry (pm_compactedEntryIds m) @ [RemoveMarker]"

definition recoverPendingCompaction :: "LedgerDir \<Rightarrow> LedgerWrite list result" where
  "recoverPendingCompaction dir =
     (case readPendingCompaction dir of Inl e \<Rightarrow> Inl e
      | Inr None \<Rightarrow> Inr [] | Inr (Some m) \<Rightarrow> Inr (recoveryWrites m))"

definition compactionCutoff :: "(jsnum \<Rightarrow> string) \<Rightarrow> HistoryCheckpoint option \<Rightarrow> jsnum \<Rightarrow> real \<Rightarrow> Instant" where
  "compactionCutoff toISO checkpoint now rawWindowDays =
     (let requested = historyRetentionCutoff now rawWindowDays;
          cutoff = (case checkpoint of None \<Rightarrow> requested
             | Some c \<Rightarrow> if num_lt requested (in_ms (hc_compactedAt c)) then in_ms (hc_compactedAt c) else requested)
      in \<lparr>in_text = toISO cutoff, in_ms = cutoff\<rparr>)"

text \<open>
  The writes of \<open>compactHistoryLedger\<close> after the recovery that it starts with, and the error it
  then throws, if any: a marker that the recovery rejects has been published all the same.
\<close>

definition compactionWrites ::
  "(json \<Rightarrow> string) \<Rightarrow> string cmp \<Rightarrow> (jsnum \<Rightarrow> string) \<Rightarrow> LedgerDir \<Rightarrow> real \<Rightarrow> jsnum
     \<Rightarrow> LedgerWrite list \<times> string option" where
  "compactionWrites hash lc toISO dir rawWindowDays now =
     (case readableLedger dir of Inl e \<Rightarrow> ([], Some e)
      | Inr (checkpoint, records) \<Rightarrow>
          let cutoff = compactionCutoff toISO checkpoint now rawWindowDays;
              result = compactHistoryRecords hash lc checkpoint records cutoff
          in case cr_checkpoint result of
               None \<Rightarrow> ([], None)
             | Some c \<Rightarrow>
                 if cr_compactedEntries result = 0 then ([], None)
                 else
                   let ids = map sr_entryId (filter (\<lambda>r. r \<notin> set (cr_retained result)) records);
                       m = \<lparr>pm_checkpoint = c, pm_compactedEntryIds = ids\<rparr>
                   in (case readPendingCompaction (applyWrite dir (PublishMarker m)) of
                         Inl e \<Rightarrow> ([PublishMarker m], Some e)
                       | Inr _ \<Rightarrow> (PublishMarker m # recoveryWrites m, None)))"

definition compactHistoryLedger ::
  "(json \<Rightarrow> string) \<Rightarrow> string cmp \<Rightarrow> (jsnum \<Rightarrow> string) \<Rightarrow> LedgerDir \<Rightarrow> real \<Rightarrow> jsnum
     \<Rightarrow> LedgerDir \<times> string option" where
  "compactHistoryLedger hash lc toISO dir rawWindowDays now =
     (case recoverPendingCompaction dir of Inl e \<Rightarrow> (dir, Some e)
      | Inr ws \<Rightarrow>
          let dir1 = foldl applyWrite dir ws;
              (ws', err) = compactionWrites hash lc toISO dir1 rawWindowDays now
          in (foldl applyWrite dir1 ws', err))"

definition safeEntryId :: "string \<Rightarrow> bool" where
  "safeEntryId s = (s \<noteq> [] \<and> list_all (\<lambda>c. is_alpha c \<or> is_digit c \<or> c \<in> set ''._-'') s)"

definition writeHistory :: "LedgerDir \<Rightarrow> SealedHistoryRecord \<Rightarrow> LedgerDir result" where
  "writeHistory dir r =
     (if \<not> safeEntryId (sr_entryId r) then Inl ''history entry id must be a single safe filename component''
      else if map_has (ld_files dir) (sr_entryId r) then Inr dir
      else Inr (dir\<lparr>ld_files := map_set (ld_files dir) (sr_entryId r) r\<rparr>))"

definition readHistoryEntry :: "LedgerDir \<Rightarrow> string \<Rightarrow> SealedHistoryRecord option result" where
  "readHistoryEntry dir entryId =
     (if \<not> safeEntryId entryId then Inl ''history entry id must be a single safe filename component''
      else Inr (case map_get (ld_files dir) entryId of None \<Rightarrow> None
             | Some r \<Rightarrow> only_if (sr_entryId r = entryId) r))"

section \<open>Reading a sound directory\<close>

definition files_ok :: "LedgerDir \<Rightarrow> bool" where
  "files_ok dir = (well_keyed (ld_files dir)
     \<and> (\<forall>(f, r) \<in> set (ld_files dir). sr_entryId r = f \<and> valid_file r))"

definition checkpoint_ok :: "HistoryCheckpoint \<Rightarrow> bool" where
  "checkpoint_ok c = (parseCheckpoint c = Inr c)"

definition ledger_ok :: "LedgerDir \<Rightarrow> bool" where
  "ledger_ok dir = (files_ok dir \<and> ld_marker dir = None \<and> (\<forall>c. ld_checkpoint dir = Some c \<longrightarrow> checkpoint_ok c))"

lemma parseCheckpoint_cases: "parseCheckpoint c = Inr d \<longleftrightarrow> d = c \<and> checkpoint_ok c"
  by (auto simp: parseCheckpoint_def checkpoint_ok_def)

lemma files_ok_get: "files_ok dir \<Longrightarrow> (f, r) \<in> set (ld_files dir) \<longleftrightarrow> map_of (ld_files dir) f = Some r"
  by (simp add: files_ok_def well_keyed_get)

lemma file_id: "files_ok dir \<Longrightarrow> f \<in> set (map_keys (ld_files dir)) \<Longrightarrow> sr_entryId (the (map_of (ld_files dir) f)) = f"
proof -
  assume ok: "files_ok dir" and "f \<in> set (map_keys (ld_files dir))"
  then obtain r where r: "(f, r) \<in> set (ld_files dir)" by auto
  then have "map_of (ld_files dir) f = Some r" using files_ok_get [OF ok] by blast
  moreover have "sr_entryId r = f" using ok r by (auto simp: files_ok_def)
  ultimately show ?thesis by simp
qed

lemma sorted_files_keys:
  assumes "files_ok dir"
  shows "map sr_entryId (sorted_files dir) = sort (map_keys (ld_files dir))"
proof -
  have "map (\<lambda>f. sr_entryId (the (map_of (ld_files dir) f))) (sort (map_keys (ld_files dir)))
      = map (\<lambda>f. f) (sort (map_keys (ld_files dir)))"
    using file_id [OF assms] by (intro map_cong) simp_all
  then show ?thesis by (simp add: sorted_files_def comp_def)
qed

lemma set_sorted_files:
  assumes "files_ok dir"
  shows "set (sorted_files dir) = snd ` set (ld_files dir)"
proof -
  have "set (sorted_files dir) = (\<lambda>f. the (map_of (ld_files dir) f)) ` fst ` set (ld_files dir)"
    by (simp add: sorted_files_def)
  also have "\<dots> = snd ` set (ld_files dir)"
    using files_ok_get [OF assms] by (force simp: image_image)
  finally show ?thesis .
qed

lemma sorted_files_ok:
  assumes "files_ok dir"
  shows "list_all valid_file (sorted_files dir)" "distinct (map sr_entryId (sorted_files dir))"
    "distinct (sorted_files dir)"
proof -
  show "list_all valid_file (sorted_files dir)"
    using assms by (auto simp: list_all_iff set_sorted_files files_ok_def)
  show d: "distinct (map sr_entryId (sorted_files dir))"
    using assms by (simp add: sorted_files_keys) (simp add: files_ok_def well_keyed_def map_keys_def)
  then show "distinct (sorted_files dir)" by (simp add: distinct_map)
qed

lemma readRecords_ok: "files_ok dir \<Longrightarrow> readRecords dir = Inr (sorted_files dir)"
  by (simp add: readRecords_def sorted_files_ok)

text \<open>Removing files leaves the other records in order.\<close>

definition without_files :: "string set \<Rightarrow> LedgerDir \<Rightarrow> LedgerDir" where
  "without_files us dir = dir\<lparr>ld_files := filter (\<lambda>(f, _). f \<notin> us) (ld_files dir)\<rparr>"

lemma without_files_ok: "files_ok dir \<Longrightarrow> files_ok (without_files us dir)"
  by (auto simp: files_ok_def without_files_def well_keyed_def distinct_map_filter)

lemma sorted_files_without:
  assumes "files_ok dir"
  shows "sorted_files (without_files us dir) = filter (\<lambda>r. sr_entryId r \<notin> us) (sorted_files dir)"
proof -
  let ?keys = "map_keys (ld_files dir)" and ?get = "\<lambda>f. the (map_of (ld_files dir) f)"
  have keys: "map_keys (ld_files (without_files us dir)) = filter (\<lambda>f. f \<notin> us) ?keys"
  proof -
    have "map fst (filter (\<lambda>(f, _). f \<notin> us) xs) = filter (\<lambda>f. f \<notin> us) (map fst xs)"
      for xs :: "(string \<times> SealedHistoryRecord) list" by (induction xs) auto
    then show ?thesis by (simp add: without_files_def map_keys_def)
  qed
  have get: "map_of (filter (\<lambda>(f, _). f \<notin> us) xs) f = map_of xs f"
    if "f \<notin> us" for xs :: "(string \<times> SealedHistoryRecord) list" and f
    using that by (induction xs) auto
  have "sorted_files (without_files us dir) = map ?get (filter (\<lambda>f. f \<notin> us) (sort ?keys))"
    unfolding sorted_files_def keys filter_sort [symmetric]
    by (rule map_cong) (auto simp: without_files_def get filter_sort)
  also have "\<dots> = filter (\<lambda>r. sr_entryId r \<notin> us) (sorted_files dir)"
  proof -
    have same: "sr_entryId (?get f) = f" if "f \<in> set (sort ?keys)" for f
      using file_id [OF assms] that by simp
    have "filter (\<lambda>f. f \<notin> us) (sort ?keys) = filter (\<lambda>f. sr_entryId (?get f) \<notin> us) (sort ?keys)"
      by (rule filter_cong) (simp_all only: same)
    then show ?thesis by (simp add: sorted_files_def filter_map comp_def)
  qed
  finally show ?thesis .
qed

lemma foldl_unlink: "foldl applyWrite dir (map UnlinkEntry us) = without_files (set us) dir"
proof (induction us arbitrary: dir)
  case (Cons u us)
  have "without_files (set us) (dir\<lparr>ld_files := filter (\<lambda>(f, _). f \<noteq> u) (ld_files dir)\<rparr>)
      = without_files (set (u # us)) dir"
    by (auto simp: without_files_def intro!: arg_cong [where f = "\<lambda>fs. dir\<lparr>ld_files := fs\<rparr>"] filter_cong)
  with Cons show ?case by simp
next
  case Nil
  then show ?case by (simp add: without_files_def case_prod_beta)
qed

section \<open>Every crash state\<close>

definition marker_of :: "HistoryCheckpoint \<Rightarrow> string list \<Rightarrow> PendingCompaction" where
  "marker_of c ids = \<lparr>pm_checkpoint = c, pm_compactedEntryIds = ids\<rparr>"

text \<open>The directory after the marker, after the checkpoint and after some unlinks.\<close>

definition published :: "LedgerDir \<Rightarrow> PendingCompaction \<Rightarrow> LedgerDir" where
  "published dir m = dir\<lparr>ld_marker := Some m\<rparr>"

definition advanced :: "LedgerDir \<Rightarrow> PendingCompaction \<Rightarrow> string set \<Rightarrow> LedgerDir" where
  "advanced dir m us = without_files us (dir\<lparr>ld_marker := Some m, ld_checkpoint := Some (pm_checkpoint m)\<rparr>)"

definition completed :: "LedgerDir \<Rightarrow> PendingCompaction \<Rightarrow> LedgerDir" where
  "completed dir m = without_files (set (pm_compactedEntryIds m))
     (dir\<lparr>ld_marker := None, ld_checkpoint := Some (pm_checkpoint m)\<rparr>)"

definition all_writes :: "PendingCompaction \<Rightarrow> LedgerWrite list" where
  "all_writes m = PublishMarker m # recoveryWrites m"

lemma prefix_states:
  assumes "k \<le> length (all_writes m)"
  shows "k = 0 \<and> foldl applyWrite dir (take k (all_writes m)) = dir
    \<or> k = 1 \<and> foldl applyWrite dir (take k (all_writes m)) = published dir m
    \<or> 1 < k \<and> (\<exists>us. set us \<subseteq> set (pm_compactedEntryIds m)
        \<and> foldl applyWrite dir (take k (all_writes m)) = advanced dir m (set us))
    \<or> k = length (all_writes m) \<and> foldl applyWrite dir (take k (all_writes m)) = completed dir m"
proof -
  let ?ids = "pm_compactedEntryIds m"
  consider "k = 0" | "k = 1" | j where "k = Suc (Suc j)" "j \<le> length ?ids" | "k = length (all_writes m)"
    using assms unfolding all_writes_def recoveryWrites_def
    by (cases k; cases "k - 1") (fastforce simp: le_Suc_eq)+
  then show ?thesis
  proof cases
    case (3 j)
    have "take k (all_writes m) = [PublishMarker m, WriteCheckpoint (pm_checkpoint m)] @ map UnlinkEntry (take j ?ids)"
      using 3 by (simp add: all_writes_def recoveryWrites_def take_map)
    then have "foldl applyWrite dir (take k (all_writes m)) = advanced dir m (set (take j ?ids))"
      by (simp add: foldl_unlink advanced_def)
    then show ?thesis using 3 by (auto dest: in_set_takeD intro: exI [of _ "take j ?ids"])
  next
    case 4
    then have "foldl applyWrite dir (take k (all_writes m)) = completed dir m"
      by (simp add: all_writes_def recoveryWrites_def foldl_unlink completed_def without_files_def)
    with 4 show ?thesis by blast
  qed (simp_all add: all_writes_def published_def)
qed

lemma files_ok_update [simp]:
  "files_ok (dir\<lparr>ld_marker := x\<rparr>) = files_ok dir" "files_ok (dir\<lparr>ld_checkpoint := y\<rparr>) = files_ok dir"
  by (simp_all add: files_ok_def)

lemma sorted_files_update [simp]:
  "sorted_files (dir\<lparr>ld_marker := x\<rparr>) = sorted_files dir" "sorted_files (dir\<lparr>ld_checkpoint := y\<rparr>) = sorted_files dir"
  by (simp_all add: sorted_files_def)

lemma without_files_fields [simp]:
  "ld_marker (without_files us dir) = ld_marker dir" "ld_checkpoint (without_files us dir) = ld_checkpoint dir"
  by (simp_all add: without_files_def)

lemma read_ok:
  assumes "ledger_ok dir"
  shows "readableLedger dir = Inr (ld_checkpoint dir, sorted_files dir)"
proof -
  have "readPendingCompaction dir = Inr None" using assms by (simp add: readPendingCompaction_def ledger_ok_def)
  moreover have "readCheckpoint dir = Inr (ld_checkpoint dir)"
    using assms by (auto simp: readCheckpoint_def ledger_ok_def checkpoint_ok_def split: option.splits)
  moreover have "readRecords dir = Inr (sorted_files dir)" using assms by (simp add: readRecords_ok ledger_ok_def)
  ultimately show ?thesis by (simp add: readableLedger_def)
qed

definition marker_ok :: "PendingCompaction \<Rightarrow> bool" where
  "marker_ok m = ((\<forall>i \<in> set (pm_compactedEntryIds m). i \<noteq> []) \<and> distinct (pm_compactedEntryIds m)
     \<and> checkpoint_ok (pm_checkpoint m) \<and> int (length (pm_compactedEntryIds m)) \<le> hc_sourceEntryCount (pm_checkpoint m))"

lemma readPending_marker:
  "ld_marker dir = Some m \<Longrightarrow> readPendingCompaction dir = Inr x \<longleftrightarrow> x = Some m \<and> marker_ok m"
  by (auto simp: readPendingCompaction_def marker_ok_def list_all_iff checkpoint_ok_def split: sum.splits
      dest: parseCheckpoint_cases [THEN iffD1])

lemma read_marked:
  assumes "files_ok dir" "marker_ok m" "us \<subseteq> set (pm_compactedEntryIds m)"
    and "cp = None \<or> cp = Some (pm_checkpoint m)"
  shows "readableLedger (without_files us (dir\<lparr>ld_marker := Some m, ld_checkpoint := cp\<rparr>))
    = Inr (Some (pm_checkpoint m), filter (\<lambda>r. sr_entryId r \<notin> set (pm_compactedEntryIds m)) (sorted_files dir))"
proof -
  let ?d = "without_files us (dir\<lparr>ld_marker := Some m, ld_checkpoint := cp\<rparr>)"
  have "readPendingCompaction ?d = Inr (Some m)" using assms(2) by (simp add: readPending_marker)
  moreover have "readCheckpoint ?d = Inr cp"
    using assms(2,4) by (auto simp: readCheckpoint_def marker_ok_def checkpoint_ok_def)
  moreover have "readRecords ?d = Inr (filter (\<lambda>r. sr_entryId r \<notin> us) (sorted_files dir))"
    using assms(1) by (simp add: readRecords_ok without_files_ok sorted_files_without)
  ultimately show ?thesis
    using assms(3,4) by (auto simp: readableLedger_def intro!: filter_cong)
qed

lemma read_completed:
  assumes "files_ok dir" "marker_ok m"
  shows "readableLedger (completed dir m)
    = Inr (Some (pm_checkpoint m), filter (\<lambda>r. sr_entryId r \<notin> set (pm_compactedEntryIds m)) (sorted_files dir))"
proof -
  have "ledger_ok (completed dir m)"
    using assms by (simp add: ledger_ok_def completed_def without_files_ok marker_ok_def)
  then show ?thesis using assms(1) by (simp add: read_ok completed_def sorted_files_without)
qed

text \<open>
  Publishing the marker next to an older checkpoint that differs from the new one is the one
  state that cannot be read.
\<close>

lemma read_published_conflict:
  assumes "ledger_ok dir" "marker_ok m" "ld_checkpoint dir = Some c" "c \<noteq> pm_checkpoint m"
  shows "readableLedger (published dir m) = Inl ''history checkpoint disagrees with pending compaction marker''"
proof -
  have "readPendingCompaction (published dir m) = Inr (Some m)"
    using assms(2) by (simp add: readPending_marker published_def)
  moreover have "readCheckpoint (published dir m) = Inr (Some c)"
    using assms(1,3) by (auto simp: readCheckpoint_def published_def ledger_ok_def checkpoint_ok_def)
  ultimately show ?thesis using assms(4) by (simp add: readableLedger_def)
qed

lemma recover_state:
  assumes "marker_ok m" "d = published dir m \<or> (\<exists>us. us \<subseteq> set (pm_compactedEntryIds m) \<and> d = advanced dir m us)"
  shows "recoverPendingCompaction d = Inr (recoveryWrites m)"
    "foldl applyWrite d (recoveryWrites m) = completed dir m"
proof -
  have "ld_marker d = Some m" using assms(2) by (auto simp: published_def advanced_def)
  then have "readPendingCompaction d = Inr (Some m)" using assms(1) by (simp add: readPending_marker)
  then show "recoverPendingCompaction d = Inr (recoveryWrites m)" by (simp add: recoverPendingCompaction_def)
  have "filter (\<lambda>(f, _). f \<notin> set (pm_compactedEntryIds m)) (filter (\<lambda>(f, _). f \<notin> us) xs)
      = filter (\<lambda>(f, _). f \<notin> set (pm_compactedEntryIds m)) xs"
    if "us \<subseteq> set (pm_compactedEntryIds m)" for us and xs :: "(string \<times> SealedHistoryRecord) list"
    using that by (auto intro: filter_cong)
  then show "foldl applyWrite d (recoveryWrites m) = completed dir m"
    using assms(2)
    by (auto simp: recoveryWrites_def foldl_unlink completed_def published_def advanced_def without_files_def)
qed

section \<open>A compaction and its crashes keep the burden\<close>

lemma valid_file_record: "valid_file r \<Longrightarrow> valid_record r"
  by (auto simp: valid_file_def valid_record_def valid_entry_def entry_of_record_def isTimestamp_def
      isDeltas_def finite_deltas_def list_all_iff)

lemma checkpoint_ok_entry: "checkpoint_ok c \<Longrightarrow> valid_entry (entry_of_checkpoint c)"
  by (auto simp: checkpoint_ok_def parseCheckpoint_def valid_entry_def entry_of_checkpoint_def isTimestamp_def
      isDeltas_def finite_deltas_def list_all_iff split: if_splits)

lemma cutoff_bounds:
  assumes "\<forall>c. cp = Some c \<longrightarrow> checkpoint_ok c \<and> num_val (in_ms (hc_compactedAt c)) \<le> n" "0 \<le> w"
  obtains c where "in_ms (compactionCutoff toISO cp (Fin n) w) = Fin c" "c \<le> n"
    "\<forall>x. cp = Some x \<longrightarrow> valid_checkpoint_at c x"
proof -
  let ?q = "(n - w * MS_PER_DAY) / MS_PER_DAY"
  let ?r = "MS_PER_DAY * of_int \<lfloor>?q\<rfloor>"
  have req: "historyRetentionCutoff (Fin n) w = Fin ?r"
    by (simp add: historyRetentionCutoff_def utc_midnight_def)
  have "?r \<le> MS_PER_DAY * ?q" by (intro mult_left_mono of_int_floor_le) (simp add: MS_PER_DAY_def)
  also have "\<dots> \<le> n" using assms(2) by (simp add: MS_PER_DAY_def)
  finally have le: "?r \<le> n" .
  show thesis
  proof (cases cp)
    case None
    then show ?thesis using req le by (intro that [of ?r]) (simp_all add: compactionCutoff_def Let_def)
  next
    case (Some x)
    then have ok: "valid_entry (entry_of_checkpoint x)" "num_val (in_ms (hc_compactedAt x)) \<le> n"
      using assms(1) checkpoint_ok_entry by blast+
    then obtain t where t: "in_ms (hc_compactedAt x) = Fin t"
      by (auto simp: valid_entry_def entry_of_checkpoint_def is_finite_iff)
    show ?thesis
    proof (rule that [of "max ?r t"])
      show "in_ms (compactionCutoff toISO cp (Fin n) w) = Fin (max ?r t)"
        by (simp add: compactionCutoff_def Some req t max_def Let_def)
      show "max ?r t \<le> n" using le ok(2) t by simp
      show "\<forall>y. cp = Some y \<longrightarrow> valid_checkpoint_at (max ?r t) y" using Some ok(1) t by (simp add: valid_checkpoint_at_def)
    qed
  qed
qed

text \<open>What a run that publishes does: its marker, the records it keeps and its checkpoint.\<close>

lemma compaction_run:
  assumes ok: "ledger_ok dir" and run: "compactionWrites hash lc toISO dir w now = (ws, None)" "ws \<noteq> []"
  defines "cutoff \<equiv> compactionCutoff toISO (ld_checkpoint dir) now w"
  obtains m where "ws = all_writes m" "marker_ok m" "ld_checkpoint dir \<noteq> Some (pm_checkpoint m)"
    "compactHistoryRecords hash lc (ld_checkpoint dir) (sorted_files dir) cutoff =
      \<lparr>cr_compactedEntries = length (pm_compactedEntryIds m),
       cr_retainedEntries = length (filter (\<lambda>r. sr_entryId r \<notin> set (pm_compactedEntryIds m)) (sorted_files dir)),
       cr_checkpoint = Some (pm_checkpoint m),
       cr_retained = filter (\<lambda>r. sr_entryId r \<notin> set (pm_compactedEntryIds m)) (sorted_files dir)\<rparr>"
proof -
  let ?R = "sorted_files dir" and ?cp = "ld_checkpoint dir"
  let ?result = "compactHistoryRecords hash lc ?cp ?R cutoff"
  let ?old = "filter (compacted_by (in_ms cutoff)) ?R"
  let ?new = "filter (\<lambda>r. \<not> compacted_by (in_ms cutoff) r) ?R"
  have fok: "files_ok dir" using ok by (simp add: ledger_ok_def)
  have removed: "filter (\<lambda>r. r \<in> set ?R \<longrightarrow> compacted_by (in_ms cutoff) r) ?R = ?old" by (auto intro: filter_cong)
  define m where "m = marker_of (nextCheckpointOf hash lc ?cp ?old cutoff) (map sr_entryId ?old)"
  then have mk: "\<lparr>pm_checkpoint = nextCheckpointOf hash lc ?cp ?old cutoff,
      pm_compactedEntryIds = map sr_entryId ?old\<rparr> = m"
    by (simp add: marker_of_def)
  have nonempty: "?old \<noteq> []"
    using run by (auto simp: compactionWrites_def read_ok [OF ok] compactHistoryRecords_unfold
        cutoff_def [symmetric] Let_def split: option.splits if_splits)
  then have result: "?result = \<lparr>cr_compactedEntries = length ?old, cr_retainedEntries = length ?new,
      cr_checkpoint = Some (pm_checkpoint m), cr_retained = ?new\<rparr>"
    by (simp add: compactHistoryRecords_unfold m_def marker_of_def)
  have step: "compactionWrites hash lc toISO dir w now =
      (case readPendingCompaction (applyWrite dir (PublishMarker m)) of
         Inl e \<Rightarrow> ([PublishMarker m], Some e) | Inr _ \<Rightarrow> (all_writes m, None))"
    using nonempty
    by (simp add: compactionWrites_def read_ok [OF ok] cutoff_def [symmetric] compactHistoryRecords_unfold
        removed mk Let_def all_writes_def split: sum.split)
  then obtain x where x: "readPendingCompaction (applyWrite dir (PublishMarker m)) = Inr x" "ws = all_writes m"
    using run(1) by (cases "readPendingCompaction (applyWrite dir (PublishMarker m))") auto
  have "ld_marker (applyWrite dir (PublishMarker m)) = Some m" by simp
  then have mok: "marker_ok m" using x(1) readPending_marker by blast
  have differs: "?cp \<noteq> Some (pm_checkpoint m)"
  proof
    assume "?cp = Some (pm_checkpoint m)"
    then have "hc_sourceEntryCount (pm_checkpoint m) = hc_sourceEntryCount (pm_checkpoint m) + int (length ?old)"
      by (metis (no_types, lifting) m_def marker_of_def nextCheckpointOf_def HistoryCheckpoint.select_convs(3)
          PendingCompaction.select_convs(1) option.simps(5))
    with nonempty show False by simp
  qed
  have "sr_entryId r \<notin> set (pm_compactedEntryIds m) \<longleftrightarrow> \<not> compacted_by (in_ms cutoff) r" if "r \<in> set ?R" for r
  proof -
    have "inj_on sr_entryId (set ?R)" using sorted_files_ok(2) [OF fok] by (simp add: distinct_map)
    with that show ?thesis by (auto simp: m_def marker_of_def inj_on_def)
  qed
  then have kept: "filter (\<lambda>r. sr_entryId r \<notin> set (pm_compactedEntryIds m)) ?R = ?new" by (intro filter_cong) simp_all
  show thesis
    by (rule that [OF x(2) mok differs]) (simp add: result kept, simp add: m_def marker_of_def)
qed

definition replay_value :: "LedgerDir \<Rightarrow> real \<Rightarrow> string \<Rightarrow> real option" where
  "replay_value dir n f =
     (case readHistoryReplayRecords dir of Inl e \<Rightarrow> None | Inr es \<Rightarrow> Some (crl_value es n f))"

lemma replay_value_read:
  "readableLedger dir = Inr (cp, rs) \<Longrightarrow> replay_value dir n f = Some (crl_value (replayEntries cp rs) n f)"
  by (simp add: replay_value_def readHistoryReplayRecords_def)

lemma crash_states_keep_value:
  assumes ok: "ledger_ok dir" and run: "compactionWrites hash lc toISO dir w (Fin n) = (ws, None)"
    and w: "0 \<le> w" and past: "\<forall>c. ld_checkpoint dir = Some c \<longrightarrow> num_val (in_ms (hc_compactedAt c)) \<le> n"
    and k: "k \<le> length ws" "k = 1 \<longrightarrow> ld_checkpoint dir = None"
  shows "replay_value (foldl applyWrite dir (take k ws)) n f = replay_value dir n f"
proof (cases "ws = []")
  case False
  let ?cutoff = "compactionCutoff toISO (ld_checkpoint dir) (Fin n) w"
  have fok: "files_ok dir" and cok: "\<forall>c. ld_checkpoint dir = Some c \<longrightarrow> checkpoint_ok c"
    using ok by (auto simp: ledger_ok_def)
  obtain m where m: "ws = all_writes m" "marker_ok m"
    "compactHistoryRecords hash lc (ld_checkpoint dir) (sorted_files dir) ?cutoff =
      \<lparr>cr_compactedEntries = length (pm_compactedEntryIds m),
       cr_retainedEntries = length (filter (\<lambda>r. sr_entryId r \<notin> set (pm_compactedEntryIds m)) (sorted_files dir)),
       cr_checkpoint = Some (pm_checkpoint m),
       cr_retained = filter (\<lambda>r. sr_entryId r \<notin> set (pm_compactedEntryIds m)) (sorted_files dir)\<rparr>"
    using compaction_run [OF ok run False] by metis
  obtain c where c: "in_ms ?cutoff = Fin c" "c \<le> n" "\<forall>x. ld_checkpoint dir = Some x \<longrightarrow> valid_checkpoint_at c x"
    by (rule cutoff_bounds [of "ld_checkpoint dir" n w toISO]) (use cok past w in auto)
  have records: "\<forall>r \<in> set (sorted_files dir). valid_record r"
    using sorted_files_ok(1) [OF fok] valid_file_record by (auto simp: list_all_iff)
  have new: "crl_value (replayEntries (Some (pm_checkpoint m))
      (filter (\<lambda>r. sr_entryId r \<notin> set (pm_compactedEntryIds m)) (sorted_files dir))) n f
      = crl_value (replayEntries (ld_checkpoint dir) (sorted_files dir)) n f"
    using compaction_preserves_crl [OF records c(3,1,2) m(3) [symmetric], of f] by simp
  have old: "replay_value dir n f = Some (crl_value (replayEntries (ld_checkpoint dir) (sorted_files dir)) n f)"
    using read_ok [OF ok] by (rule replay_value_read)
  from prefix_states [OF k(1) [unfolded m(1)], of dir] consider
      "foldl applyWrite dir (take k ws) = dir"
    | "k = 1" "foldl applyWrite dir (take k ws) = published dir m"
    | us where "set us \<subseteq> set (pm_compactedEntryIds m)" "foldl applyWrite dir (take k ws) = advanced dir m (set us)"
    | "foldl applyWrite dir (take k ws) = completed dir m"
    unfolding m(1) by blast
  then show ?thesis
  proof cases
    case 2
    then have "published dir m = without_files {} (dir\<lparr>ld_marker := Some m, ld_checkpoint := None\<rparr>)"
      using k(2) by (simp add: published_def without_files_def case_prod_beta)
    then show ?thesis
      using 2(2) replay_value_read [OF read_marked [OF fok m(2), of "{}" None]] old new by simp
  next
    case 3
    then show ?thesis
      using replay_value_read [OF read_marked [OF fok m(2) 3(1), of "Some (pm_checkpoint m)"]] old new
      by (simp add: advanced_def)
  next
    case 4
    then show ?thesis using replay_value_read [OF read_completed [OF fok m(2)]] old new by simp
  qed simp
qed simp

text \<open>With a checkpoint on disk every compaction passes through a state that cannot be read.\<close>

lemma publication_unreadable:
  assumes ok: "ledger_ok dir" and run: "compactionWrites hash lc toISO dir w now = (ws, None)" "ws \<noteq> []"
    and cp: "ld_checkpoint dir \<noteq> None"
  shows "readHistoryReplayRecords (foldl applyWrite dir (take 1 ws))
    = Inl ''history checkpoint disagrees with pending compaction marker''"
proof -
  obtain m where m: "ws = all_writes m" "marker_ok m" "ld_checkpoint dir \<noteq> Some (pm_checkpoint m)"
    using compaction_run [OF ok run] by metis
  obtain c where c: "ld_checkpoint dir = Some c" using cp by blast
  have "foldl applyWrite dir (take 1 ws) = published dir m"
    by (simp add: m(1) all_writes_def published_def)
  then show ?thesis
    using read_published_conflict [OF ok m(2) c] m(3) c by (simp add: readHistoryReplayRecords_def)
qed

text \<open>Recovery from any crash after publication ends where the uninterrupted run ends.\<close>

lemma recovery_completes:
  assumes ok: "ledger_ok dir" and run: "compactionWrites hash lc toISO dir w now = (ws, None)" "ws \<noteq> []"
    and k: "0 < k" "k < length ws"
  defines "d \<equiv> foldl applyWrite dir (take k ws)"
  shows "\<exists>rs. recoverPendingCompaction d = Inr rs \<and> foldl applyWrite d rs = foldl applyWrite dir ws"
    "ledger_ok (foldl applyWrite dir ws)"
proof -
  obtain m where m: "ws = all_writes m" "marker_ok m" using compaction_run [OF ok run] by metis
  have fok: "files_ok dir" using ok by (simp add: ledger_ok_def)
  have final: "foldl applyWrite dir ws = completed dir m"
    by (simp add: m(1) all_writes_def recoveryWrites_def foldl_unlink completed_def without_files_def)
  from prefix_states [of k m dir] k consider "d = published dir m"
    | us where "set us \<subseteq> set (pm_compactedEntryIds m)" "d = advanced dir m (set us)"
    unfolding d_def m(1) by fastforce
  then have "d = published dir m \<or> (\<exists>us. us \<subseteq> set (pm_compactedEntryIds m) \<and> d = advanced dir m us)"
    by cases auto
  from recover_state [OF m(2) this] final
  show "\<exists>rs. recoverPendingCompaction d = Inr rs \<and> foldl applyWrite d rs = foldl applyWrite dir ws" by auto
  show "ledger_ok (foldl applyWrite dir ws)"
    using fok m(2) unfolding final
    by (simp add: ledger_ok_def completed_def without_files_ok marker_ok_def)
qed

lemma writeHistory_ok:
  assumes "ledger_ok dir" "valid_file r" "writeHistory dir r = Inr d"
  shows "ledger_ok d \<and> map_get (ld_files d) (sr_entryId r)
    = (case map_get (ld_files dir) (sr_entryId r) of None \<Rightarrow> Some r | Some old \<Rightarrow> Some old)"
proof (cases "map_has (ld_files dir) (sr_entryId r)")
  case True
  then have "d = dir" using assms(3) by (auto simp: writeHistory_def split: if_splits)
  moreover from True obtain old where "map_get (ld_files dir) (sr_entryId r) = Some old"
    unfolding map_has_def by blast
  ultimately show ?thesis using assms(1) by simp
next
  case False
  then have d: "d = dir\<lparr>ld_files := map_set (ld_files dir) (sr_entryId r) r\<rparr>"
    using assms(3) by (simp add: writeHistory_def split: if_splits)
  from False have new: "sr_entryId r \<notin> fst ` set (ld_files dir)" by simp
  then have "map_of (ld_files dir) (sr_entryId r) = None" by (simp add: map_of_eq_None_iff)
  moreover have "ledger_ok d"
    using assms(1,2) new by (auto simp: d ledger_ok_def files_ok_def map_set_new well_keyed_def)
  ultimately show ?thesis by (simp add: d)
qed

text \<open>A compaction of a sound directory never fails.\<close>

lemma checkpoint_ok_iff:
  "checkpoint_ok c \<longleftrightarrow> hc_schemaVersion c = HISTORY_CHECKPOINT_VERSION \<and> isTimestamp (hc_compactedAt c)
     \<and> 0 \<le> hc_sourceEntryCount c \<and> isFingerprint (hc_sourceFingerprint c) \<and> isDeltas (hc_deltas c)"
  by (auto simp: checkpoint_ok_def parseCheckpoint_def)

lemma isDeltas_iff: "isDeltas ds \<longleftrightarrow> [] \<notin> fd_file ` set ds \<and> finite_deltas ds"
  by (force simp: isDeltas_def finite_deltas_def list_all_iff)

lemma next_checkpoint_ok:
  assumes "\<And>d. isFingerprint (hash d)" "isTimestamp cutoff" "list_all valid_file compacted"
    and "\<forall>c. checkpoint = Some c \<longrightarrow> checkpoint_ok c"
  shows "checkpoint_ok (nextCheckpointOf hash lc checkpoint compacted cutoff)"
proof -
  let ?ds = "sortedDeltas lc (contributionsOf checkpoint compacted (in_ms cutoff))"
  have "[] \<notin> fst ` set (contributionsOf checkpoint compacted (in_ms cutoff))"
    using assms(3,4) unfolding contributions_keys
    by (cases checkpoint) (simp_all add: list_all_iff valid_file_def isDeltas_iff checkpoint_ok_iff)
  then have "[] \<notin> fd_file ` set ?ds" using sortedDeltas_files by blast
  then have "isDeltas ?ds"
    using sortedDeltas_finite [of lc] by (simp add: isDeltas_iff)
  moreover have "0 \<le> (case checkpoint of None \<Rightarrow> 0 | Some c \<Rightarrow> hc_sourceEntryCount c) + int (length compacted)"
    using assms(4) by (cases checkpoint) (simp_all add: checkpoint_ok_iff)
  ultimately show ?thesis
    using assms(1,2) by (simp add: checkpoint_ok_iff nextCheckpointOf_def sourceFingerprintOf_def)
qed

lemma compaction_succeeds:
  assumes ok: "ledger_ok dir" and hash: "\<And>d. isFingerprint (hash d)" and iso_text: "\<And>t. toISO t \<noteq> []"
    and w: "0 \<le> w" and past: "\<forall>c. ld_checkpoint dir = Some c \<longrightarrow> num_val (in_ms (hc_compactedAt c)) \<le> n"
  shows "snd (compactionWrites hash lc toISO dir w (Fin n)) = None"
proof -
  let ?cutoff = "compactionCutoff toISO (ld_checkpoint dir) (Fin n) w" and ?R = "sorted_files dir"
  let ?old = "filter (compacted_by (in_ms ?cutoff)) ?R"
  let ?m = "marker_of (nextCheckpointOf hash lc (ld_checkpoint dir) ?old ?cutoff) (map sr_entryId ?old)"
  have fok: "files_ok dir" and cok: "\<forall>c. ld_checkpoint dir = Some c \<longrightarrow> checkpoint_ok c"
    using ok by (auto simp: ledger_ok_def)
  obtain c where c: "in_ms ?cutoff = Fin c"
    by (rule cutoff_bounds [of "ld_checkpoint dir" n w toISO]) (use cok past w in auto)
  then have "isTimestamp ?cutoff" using iso_text by (simp add: isTimestamp_def compactionCutoff_def Let_def)
  moreover have "list_all valid_file ?old" using sorted_files_ok(1) [OF fok] by (auto simp: list_all_iff)
  ultimately have "checkpoint_ok (pm_checkpoint ?m)"
    using next_checkpoint_ok [OF hash] cok by (simp add: marker_of_def)
  moreover have "\<forall>i \<in> set (map sr_entryId ?old). i \<noteq> []"
    using sorted_files_ok(1) [OF fok] by (auto simp: list_all_iff valid_file_def)
  moreover have "distinct (map sr_entryId ?old)" using sorted_files_ok(2) [OF fok] by (simp add: distinct_map_filter)
  moreover have "int (length ?old) \<le> hc_sourceEntryCount (pm_checkpoint ?m)"
    using cok by (cases "ld_checkpoint dir") (simp_all add: marker_of_def nextCheckpointOf_def checkpoint_ok_iff)
  ultimately have "marker_ok ?m" by (simp add: marker_ok_def marker_of_def)
  then have "readPendingCompaction (applyWrite dir (PublishMarker ?m)) = Inr (Some ?m)"
    using readPending_marker [of "applyWrite dir (PublishMarker ?m)" ?m] by simp
  moreover have "filter (\<lambda>r. r \<in> set ?R \<longrightarrow> compacted_by (in_ms ?cutoff) r) ?R = ?old"
    by (auto intro: filter_cong)
  ultimately show ?thesis
    by (simp add: compactionWrites_def read_ok [OF ok] compactHistoryRecords_unfold Let_def marker_of_def
        split: option.split)
qed

end
