(* ===== verification/Semantic_Changes.thy ===== *)
theory Semantic_Changes
  imports Ast Js_String Weights
begin

text \<open>
  The classification of a revision by its declarations (\<open>semanticChanges.ts\<close>): the parameter
  count of a signature as a character state machine, the alignment of the declarations of two
  revisions, and the changes that result. Keys are strings with the separator \<open>U+0000\<close>.
\<close>

section \<open>Parameter arity\<close>

record QuoteState =
  qs_quote :: "char option"
  qs_escaped :: bool

definition isQuoteCharacter :: "char \<Rightarrow> bool" where
  "isQuoteCharacter c = (c = CHR 0x22 \<or> c = CHR 0x27)"

definition stepQuote :: "QuoteState \<Rightarrow> char \<Rightarrow> QuoteState" where
  "stepQuote state c =
     (if qs_escaped state then \<lparr>qs_quote = qs_quote state, qs_escaped = False\<rparr>
      else if c = CHR 0x5C then \<lparr>qs_quote = qs_quote state, qs_escaped = True\<rparr>
      else if Some c = qs_quote state then \<lparr>qs_quote = None, qs_escaped = False\<rparr>
      else state)"

record GroupState =
  gs_quote :: QuoteState
  gs_depth :: nat
  gs_closing :: "nat option"
  gs_nested :: bool

definition stepGroup :: "GroupState \<Rightarrow> char \<Rightarrow> nat \<Rightarrow> GroupState" where
  "stepGroup state c index =
     (if gs_closing state \<noteq> None then state
      else if qs_quote (gs_quote state) \<noteq> None then state\<lparr>gs_quote := stepQuote (gs_quote state) c\<rparr>
      else if isQuoteCharacter c then state\<lparr>gs_quote := (gs_quote state)\<lparr>qs_quote := Some c\<rparr>\<rparr>
      else if c = CHR ''('' then
        state\<lparr>gs_depth := gs_depth state + 1, gs_nested := (gs_nested state \<or> gs_depth state > 0)\<rparr>
      else if c \<noteq> CHR '')'' then state
      else
        let depth = gs_depth state - 1
        in if depth > 0 then state\<lparr>gs_depth := depth\<rparr>
           else state\<lparr>gs_depth := depth, gs_closing := Some index\<rparr>)"

definition quote_start :: QuoteState where
  "quote_start = \<lparr>qs_quote = None, qs_escaped = False\<rparr>"

definition group_start :: GroupState where
  "group_start = \<lparr>gs_quote = quote_start, gs_depth = 0, gs_closing = None, gs_nested = False\<rparr>"

definition scanParameterGroup :: "string \<Rightarrow> nat \<Rightarrow> GroupState" where
  "scanParameterGroup signature start =
     foldl (\<lambda>state (c, index). stepGroup state c index) group_start
       (zip (drop start signature) [start..<length signature])"

definition parameterGroupAt :: "string \<Rightarrow> nat \<Rightarrow> string option" where
  "parameterGroupAt signature start =
     (if signature ! start \<noteq> CHR ''('' then None
      else
        let group = scanParameterGroup signature start
        in case gs_closing group of
             None \<Rightarrow> None
           | Some closing \<Rightarrow>
               if gs_nested group then None
               else Some (trim (take (closing - (start + 1)) (drop (start + 1) signature))))"

definition findParameterList :: "string \<Rightarrow> string option" where
  "findParameterList signature = first_defined (map (parameterGroupAt signature) [0..<length signature])"

definition levelDelta :: "char \<Rightarrow> int" where
  "levelDelta c = (if c \<in> set ''(<[{'' then 1 else if c \<in> set '')>]}'' then -1 else 0)"

record CountState =
  ct_quote :: QuoteState
  ct_level :: int
  ct_commas :: nat

definition stepParameterCount :: "CountState \<Rightarrow> char \<Rightarrow> CountState" where
  "stepParameterCount state c =
     (if qs_quote (ct_quote state) \<noteq> None then state\<lparr>ct_quote := stepQuote (ct_quote state) c\<rparr>
      else if isQuoteCharacter c then state\<lparr>ct_quote := (ct_quote state)\<lparr>qs_quote := Some c\<rparr>\<rparr>
      else if c = CHR '','' \<and> ct_level state = 0 then state\<lparr>ct_commas := ct_commas state + 1\<rparr>
      else state\<lparr>ct_level := ct_level state + levelDelta c\<rparr>)"

definition countTopLevelParameters :: "string \<Rightarrow> nat" where
  "countTopLevelParameters parameters =
     (if parameters = [] then 0
      else ct_commas (foldl stepParameterCount \<lparr>ct_quote = quote_start, ct_level = 0, ct_commas = 0\<rparr> parameters) + 1)"

definition parameterArity :: "string \<Rightarrow> nat option" where
  "parameterArity signature = map_option countTopLevelParameters (findParameterList signature)"

section \<open>Declaration identity\<close>

fun declarationKindName :: "SemanticDeclarationKind \<Rightarrow> string" where
  "declarationKindName dk_interface = ''interface''"
| "declarationKindName dk_class = ''class''"
| "declarationKindName dk_function = ''function''"
| "declarationKindName dk_field = ''field''"

definition declarationKey :: "SemanticDeclaration \<Rightarrow> string" where
  "declarationKey d = sd_id d @ NUL # declarationKindName (sd_kind d)"

type_synonym declarations = "(string, SemanticDeclaration) jmap"

definition put :: "declarations \<Rightarrow> string \<Rightarrow> SemanticDeclaration \<Rightarrow> declarations" where
  "put target key d = (if map_has target key then target else map_set target key d)"

definition dedupeBySignature :: "SemanticDeclaration list \<Rightarrow> SemanticDeclaration list" where
  "dedupeBySignature ds = map snd (foldl (\<lambda>m d. put m (sd_signature d) d) [] ds)"

definition groupByBase :: "SemanticDeclaration list \<Rightarrow> (string, SemanticDeclaration list) jmap" where
  "groupByBase ds = foldl (\<lambda>m d. map_set m (declarationKey d) (or_default (map_get m (declarationKey d)) [] @ [d])) [] ds"

definition signatureKey :: "string \<Rightarrow> SemanticDeclaration \<Rightarrow> string" where
  "signatureKey base d = base @ NUL # sd_signature d"

definition alignGroup ::
  "string \<Rightarrow> SemanticDeclaration list \<Rightarrow> SemanticDeclaration list \<Rightarrow> (declarations \<times> declarations) option" where
  "alignGroup base beforeGroup afterGroup =
     (let beforeDistinct = dedupeBySignature beforeGroup;
          afterDistinct = dedupeBySignature afterGroup;
          afterBySignature = fromEntries (map (\<lambda>d. (sd_signature d, d)) afterDistinct);
          beforeSignatures = map sd_signature beforeDistinct;
          (before, after) = foldl (\<lambda>(b, a) d. case map_get afterBySignature (sd_signature d) of
               None \<Rightarrow> (b, a)
             | Some counterpart \<Rightarrow> (put b (signatureKey base d) d, put a (signatureKey base counterpart) counterpart))
             ([], []) beforeDistinct;
          onlyBefore = filter (\<lambda>d. \<not> map_has afterBySignature (sd_signature d)) beforeDistinct;
          onlyAfter = filter (\<lambda>d. sd_signature d \<notin> set beforeSignatures) afterDistinct
      in if onlyBefore = [] \<and> onlyAfter = [] then Some (before, after)
         else if onlyBefore = [] \<or> onlyAfter = [] \<or> (length onlyBefore = 1 \<and> length onlyAfter = 1) then
           Some (foldl (\<lambda>m d. put m (declarationKey d) d) before onlyBefore,
                 foldl (\<lambda>m d. put m (declarationKey d) d) after onlyAfter)
         else None)"

record DeclarationIdentity =
  di_before :: declarations
  di_after :: declarations
  di_unresolved :: "string list"

definition put_all :: "declarations \<Rightarrow> declarations \<Rightarrow> declarations" where
  "put_all target kvs = foldl (\<lambda>m (k, d). put m k d) target kvs"

definition identity_step ::
  "(string, SemanticDeclaration list) jmap \<Rightarrow> (string, SemanticDeclaration list) jmap \<Rightarrow> DeclarationIdentity
     \<Rightarrow> string \<Rightarrow> DeclarationIdentity" where
  "identity_step beforeGroups afterGroups s base =
     (case alignGroup base (or_default (map_get beforeGroups base) []) (or_default (map_get afterGroups base) []) of
        None \<Rightarrow> s\<lparr>di_unresolved := di_unresolved s @ [base]\<rparr>
      | Some (b, a) \<Rightarrow> s\<lparr>di_before := put_all (di_before s) b, di_after := put_all (di_after s) a\<rparr>)"

definition declarationIdentity :: "SemanticDeclaration list \<Rightarrow> SemanticDeclaration list \<Rightarrow> DeclarationIdentity" where
  "declarationIdentity before after =
     (let beforeGroups = groupByBase before; afterGroups = groupByBase after
      in foldl (identity_step beforeGroups afterGroups) \<lparr>di_before = [], di_after = [], di_unresolved = []\<rparr>
           (uniq (map_keys beforeGroups @ map_keys afterGroups)))"

section \<open>Changes\<close>

record SemanticChange =
  sc_anchor :: string
  sc_kind :: ChangeKind

record SemanticDeclarationAmbiguity =
  am_id :: string
  am_signatures :: "string list"
  am_suggestedKind :: ChangeKind

datatype SemanticChangeAnalysis =
    Available "SemanticChange list"
  | Unavailable string "SemanticDeclarationAmbiguity option"

definition declarationKind :: "SemanticDeclaration \<Rightarrow> bool \<Rightarrow> ChangeKind" where
  "declarationKind d adding =
     (if \<not> sd_isPublic d then (if sd_kind d = dk_function then function_sig else function_body)
      else if adding \<and> sd_additive d then compatible_field_add
      else if sd_kind d = dk_interface then interface_add_remove
      else if sd_kind d = dk_class then class_add_remove
      else if sd_kind d = dk_field then field_add_remove
      else public_method_sig)"

definition signatureKind :: "SemanticDeclaration \<Rightarrow> SemanticDeclaration \<Rightarrow> ChangeKind" where
  "signatureKind b a =
     (if \<not> (sd_isPublic b \<or> sd_isPublic a)
      then (if sd_kind b = dk_function \<or> sd_kind a = dk_function then function_sig else function_body)
      else if sd_kind b = dk_interface \<or> sd_kind a = dk_interface then interface_add_remove
      else if sd_kind b = dk_class \<or> sd_kind a = dk_class then class_add_remove
      else if sd_kind b = dk_field \<or> sd_kind a = dk_field then field_add_remove
      else public_method_sig)"

definition ambiguityOf :: "SemanticDeclaration list \<Rightarrow> SemanticDeclaration list \<Rightarrow> string list
    \<Rightarrow> SemanticDeclarationAmbiguity option" where
  "ambiguityOf before after unresolved =
     (case sort unresolved of
        [] \<Rightarrow> None
      | base # _ \<Rightarrow>
          (if base = [] then None
           else case filter (\<lambda>d. declarationKey d = base) (before @ after) of
             [] \<Rightarrow> None
           | d # ds \<Rightarrow>
               let inBefore = list_ex (\<lambda>d. declarationKey d = base) before;
                   inAfter = list_ex (\<lambda>d. declarationKey d = base) after
               in Some \<lparr>am_id = sd_id d, am_signatures = sorted_uniq (map sd_signature (d # ds)),
                     am_suggestedKind = (if inBefore \<and> inAfter then public_method_sig
                       else declarationKind d (\<not> inBefore))\<rparr>))"

text \<open>The loop pops a segment and tests the rest, down to one segment.\<close>

fun ancestor_tests :: "string list \<Rightarrow> string list \<Rightarrow> bool" where
  "ancestor_tests candidates [] = False"
| "ancestor_tests candidates [seg] = False"
| "ancestor_tests candidates (seg # seg' # segs) =
     (let rest = seg' # segs; ancestor = join_with ''.'' (rev rest)
      in list_ex (\<lambda>c. starts_with c (ancestor @ [NUL])) candidates \<or> ancestor_tests candidates rest)"

definition hasAncestor :: "SemanticDeclaration \<Rightarrow> string list \<Rightarrow> bool" where
  "hasAncestor d candidates = ancestor_tests candidates (rev (split_on (CHR ''.'') (sd_id d)))"

definition importSources :: "FileAst \<Rightarrow> string list" where
  "importSources ast = sorted_uniq (map ir_source (fa_imports ast))"

text \<open>A repeated id maps to \<open>undefined\<close>.\<close>

definition byUniqueId :: "SemanticDeclaration list \<Rightarrow> (string, SemanticDeclaration option) jmap" where
  "byUniqueId ds = foldl (\<lambda>m d. if map_has m (sd_id d) then map_set m (sd_id d) None
     else map_set m (sd_id d) (Some d)) [] ds"

definition has_body :: "SemanticDeclaration \<Rightarrow> bool" where
  "has_body d = (sd_body d \<noteq> None \<and> sd_body d \<noteq> Some [])"

definition normalizeReexportIdentity ::
  "SemanticDeclaration list \<Rightarrow> (string, SemanticDeclaration option) jmap \<Rightarrow> SemanticDeclaration list" where
  "normalizeReexportIdentity ds counterparts =
     map (\<lambda>d. case map_get counterparts (sd_id d) of
        Some (Some c) \<Rightarrow>
          (if sd_reexport d
           then d\<lparr>sd_kind := sd_kind c, sd_signature := sd_signature c,
                  sd_body := (if has_body c then sd_body c else sd_body d)\<rparr>
           else d)
      | _ \<Rightarrow> d) ds"

record DeclarationMaps =
  dm_before :: declarations
  dm_after :: declarations
  dm_unsupportedTopLevelChanged :: bool

definition ambiguity_reason :: "SemanticDeclarationAmbiguity option \<Rightarrow> string" where
  "ambiguity_reason ambiguity =
     (case ambiguity of
        None \<Rightarrow> ''declaration identities are ambiguous''
      | Some a \<Rightarrow> ''declaration identities are ambiguous: '' @ am_id a @ '' has '' @ show_nat (length (am_signatures a))
          @ '' competing signatures ('' @ join_with '' | '' (am_signatures a) @ '')'')"

definition surface_declarations :: "FileAst option \<Rightarrow> SemanticDeclaration list" where
  "surface_declarations f = (case Option.bind f fa_semanticSurface of None \<Rightarrow> [] | Some s \<Rightarrow> ss_declarations s)"

definition lacks_surface :: "FileAst option \<Rightarrow> bool" where
  "lacks_surface f = (case f of None \<Rightarrow> False | Some a \<Rightarrow> fa_semanticSurface a = None)"

definition normalizedBefore :: "FileAst option \<Rightarrow> FileAst option \<Rightarrow> SemanticDeclaration list" where
  "normalizedBefore before after =
     normalizeReexportIdentity (surface_declarations before) (byUniqueId (surface_declarations after))"

definition normalizedAfter :: "FileAst option \<Rightarrow> FileAst option \<Rightarrow> SemanticDeclaration list" where
  "normalizedAfter before after =
     normalizeReexportIdentity (surface_declarations after) (byUniqueId (surface_declarations before))"

definition mapsFor :: "FileAst option \<Rightarrow> FileAst option \<Rightarrow> SemanticChangeAnalysis + DeclarationMaps" where
  "mapsFor before after =
     (if before = None \<and> after = None then Inl (Unavailable ''revision has no readable source'' None)
      else if lacks_surface before \<or> lacks_surface after
        then Inl (Unavailable ''language parser does not provide declaration facts'' None)
      else
        let beforeDeclarations = normalizedBefore before after;
            afterDeclarations = normalizedAfter before after;
            identity = declarationIdentity beforeDeclarations afterDeclarations
        in if di_unresolved identity \<noteq> [] then
             let ambiguity = ambiguityOf beforeDeclarations afterDeclarations (di_unresolved identity)
             in Inl (Unavailable (ambiguity_reason ambiguity) ambiguity)
           else Inr \<lparr>dm_before = di_before identity, dm_after = di_after identity,
             dm_unsupportedTopLevelChanged =
               (case (Option.bind before fa_semanticSurface, Option.bind after fa_semanticSurface) of
                  (Some b, Some a) \<Rightarrow> ss_unsupportedTopLevel b \<noteq> ss_unsupportedTopLevel a | _ \<Rightarrow> False)\<rparr>)"

definition onlyIn :: "declarations \<Rightarrow> declarations \<Rightarrow> declarations" where
  "onlyIn ds missingFrom = filter (\<lambda>(key, d). \<not> map_has missingFrom key) ds"

definition addedOrRemovedChanges :: "declarations \<Rightarrow> declarations \<Rightarrow> bool \<Rightarrow> SemanticChange list" where
  "addedOrRemovedChanges ds missingFrom adding =
     (let changed = onlyIn ds missingFrom;
          candidates = map (\<lambda>(key, d). declarationKey d) changed
      in present (map (\<lambda>(key, d). only_if (\<not> hasAncestor d candidates)
           \<lparr>sc_anchor = sd_id d, sc_kind = declarationKind d adding\<rparr>) changed))"

definition changedUnit :: "SemanticDeclaration \<Rightarrow> SemanticDeclaration \<Rightarrow> SemanticChange option" where
  "changedUnit b a =
     (if sd_kind b \<noteq> sd_kind a \<or> sd_signature b \<noteq> sd_signature a \<or> sd_isPublic b \<noteq> sd_isPublic a
      then Some \<lparr>sc_anchor = sd_id b, sc_kind = signatureKind b a\<rparr>
      else only_if (sd_kind b = dk_function \<and> sd_body b \<noteq> sd_body a) \<lparr>sc_anchor = sd_id b, sc_kind = function_body\<rparr>)"

definition changedDeclarationUnits :: "declarations \<Rightarrow> declarations \<Rightarrow> SemanticChange list" where
  "changedDeclarationUnits before after =
     present (map (\<lambda>(key, b). Option.bind (map_get after key) (changedUnit b)) before)"

definition file_imports :: "FileAst option \<Rightarrow> string list" where
  "file_imports f = (case f of None \<Rightarrow> [] | Some a \<Rightarrow> importSources a)"

definition import_change :: "ChangeKind \<Rightarrow> string \<Rightarrow> SemanticChange" where
  "import_change k source = \<lparr>sc_anchor = ''import:'' @ source, sc_kind = k\<rparr>"

definition importChanges :: "FileAst option \<Rightarrow> FileAst option \<Rightarrow> SemanticChange list" where
  "importChanges before after =
     map (import_change dependency_add) (filter (\<lambda>s. s \<notin> set (file_imports before)) (file_imports after))
     @ map (import_change dependency_remove) (filter (\<lambda>s. s \<notin> set (file_imports after)) (file_imports before))"

definition analyzeSemanticChanges :: "FileAst option \<Rightarrow> FileAst option \<Rightarrow> SemanticChangeAnalysis" where
  "analyzeSemanticChanges before after =
     (case mapsFor before after of
        Inl unavailable \<Rightarrow> unavailable
      | Inr maps \<Rightarrow>
          let changes = addedOrRemovedChanges (dm_after maps) (dm_before maps) True
                @ addedOrRemovedChanges (dm_before maps) (dm_after maps) False
                @ changedDeclarationUnits (dm_before maps) (dm_after maps)
                @ importChanges before after
          in if changes \<noteq> [] then Available changes
             else if dm_unsupportedTopLevelChanged maps
               then Available [\<lparr>sc_anchor = ''file:top-level'', sc_kind = function_body\<rparr>]
             else Available [\<lparr>sc_anchor = ''file'', sc_kind = comment_whitespace\<rparr>])"

section \<open>First-wins maps\<close>

lemma put_get: "map_of (put m k d) k' = (if k' = k \<and> map_of m k = None then Some d else map_of m k')"
  by (auto simp: put_def map_of_eq_None_iff)

lemma put_all_get: "map_of (put_all m kvs) k = or_option (map_of m k) (map_of kvs k)"
proof (induction kvs arbitrary: m)
  case Nil
  then show ?case by (cases "map_of m k") (simp_all add: put_all_def)
next
  case (Cons e kvs)
  have "put_all m (e # kvs) = put_all (put m (fst e) (snd e)) kvs" by (simp add: put_all_def case_prod_beta)
  then have "map_of (put_all m (e # kvs)) k = or_option (map_of (put m (fst e) (snd e)) k) (map_of kvs k)"
    using Cons.IH by simp
  also have "\<dots> = or_option (map_of m k) (map_of (e # kvs) k)"
    by (cases "map_of m k"; cases e) (auto simp: put_get)
  finally show ?case .
qed

lemma put_keyed: "well_keyed m \<Longrightarrow> well_keyed (put m k d)"
  by (simp add: put_def)

lemma put_all_keyed: "well_keyed m \<Longrightarrow> well_keyed (put_all m kvs)"
  unfolding put_all_def by (induction kvs arbitrary: m) (auto simp: put_keyed)

text \<open>The declarations of a group with one for every signature, the first.\<close>

lemma puts_get:
  "map_of (foldl (\<lambda>m d. put m (g d) d) m ds) k
     = or_option (map_of m k) (find (\<lambda>d. g d = k) ds)"
proof (induction ds arbitrary: m)
  case Nil
  then show ?case by (cases "map_of m k") simp_all
next
  case (Cons d ds)
  then show ?case by (cases "map_of m k") (auto simp: put_get)
qed

lemma puts_keyed: "well_keyed m \<Longrightarrow> well_keyed (foldl (\<lambda>m d. put m (g d) d) m ds)"
  by (induction ds arbitrary: m) (auto simp: put_keyed)

lemma find_key: "find (\<lambda>d. g d = k) ds = Some d \<Longrightarrow> g d = k \<and> d \<in> set ds"
  by (auto simp: find_Some_iff)

lemma dedupe_members:
  "d \<in> set (dedupeBySignature ds) \<longleftrightarrow> find (\<lambda>x. sd_signature x = sd_signature d) ds = Some d"
proof -
  let ?m = "foldl (\<lambda>m d. put m (sd_signature d) d) [] ds"
  have wk: "well_keyed ?m" by (rule puts_keyed) simp
  have get: "map_of ?m k = find (\<lambda>d. sd_signature d = k) ds" for k
    using puts_get [of sd_signature "[]" ds k] by simp
  have "d \<in> set (dedupeBySignature ds) \<longleftrightarrow> (\<exists>k. map_of ?m k = Some d)"
    by (force simp: dedupeBySignature_def well_keyed_get [OF wk, symmetric])
  also have "\<dots> \<longleftrightarrow> find (\<lambda>x. sd_signature x = sd_signature d) ds = Some d"
    unfolding get by (metis find_key)
  finally show ?thesis .
qed

lemma dedupe_subset: "set (dedupeBySignature ds) \<subseteq> set ds"
  using find_key by (fastforce simp: dedupe_members)

lemma dedupe_distinct: "distinct (map sd_signature (dedupeBySignature ds))"
proof -
  let ?m = "foldl (\<lambda>m d. put m (sd_signature d) d) [] ds"
  have one: "\<forall>(k, d) \<in> set (put m (sd_signature x) x). sd_signature d = k"
    if "\<forall>(k, d) \<in> set m. sd_signature d = k" for m x
    using that by (auto simp: put_def map_set_new)
  have "\<forall>(k, d) \<in> set m. sd_signature d = k \<Longrightarrow> \<forall>(k, d) \<in> set (foldl (\<lambda>m d. put m (sd_signature d) d) m ds). sd_signature d = k"
    for m
  proof (induction ds arbitrary: m)
    case (Cons d ds)
    show ?case unfolding foldl_Cons by (rule Cons.IH) (rule one [OF Cons.prems])
  qed simp
  from this [of "[]"] have "\<forall>(k, d) \<in> set ?m. sd_signature d = k" by simp
  then have keys: "map sd_signature (map snd ?m) = map fst ?m" by auto
  have "well_keyed ?m" by (rule puts_keyed) simp
  then show ?thesis unfolding dedupeBySignature_def keys well_keyed_def .
qed

lemma dedupe_signatures: "sd_signature ` set (dedupeBySignature ds) = sd_signature ` set ds"
proof
  show "sd_signature ` set (dedupeBySignature ds) \<subseteq> sd_signature ` set ds" using dedupe_subset by blast
  show "sd_signature ` set ds \<subseteq> sd_signature ` set (dedupeBySignature ds)"
  proof
    fix s assume "s \<in> sd_signature ` set ds"
    then obtain d where "find (\<lambda>x. sd_signature x = s) ds = Some d"
      by (cases "find (\<lambda>x. sd_signature x = s) ds") (auto simp: find_None_iff)
    moreover from find_key [OF this] have "sd_signature d = s" by simp
    ultimately show "s \<in> sd_signature ` set (dedupeBySignature ds)"
      using dedupe_members [of d ds] by force
  qed
qed

section \<open>Alignment\<close>

definition aligned_pairs ::
  "string \<Rightarrow> SemanticDeclaration list \<Rightarrow> SemanticDeclaration list \<Rightarrow> declarations \<times> declarations
     \<Rightarrow> declarations \<times> declarations" where
  "aligned_pairs base ds das s = foldl (\<lambda>(b, a) d. case map_of (map (\<lambda>d. (sd_signature d, d)) das) (sd_signature d) of
     None \<Rightarrow> (b, a)
   | Some counterpart \<Rightarrow> (put b (signatureKey base d) d, put a (signatureKey base counterpart) counterpart)) s ds"

lemma signatureKey_eq [simp]: "signatureKey base d = signatureKey base d' \<longleftrightarrow> sd_signature d = sd_signature d'"
  by (simp add: signatureKey_def)

lemma signature_map_get: "map_of (map (\<lambda>d. (sd_signature d, d)) das) s = Some d \<Longrightarrow> sd_signature d = s \<and> d \<in> set das"
  by (induction das) (auto split: if_splits)

lemma signature_map_None: "map_of (map (\<lambda>d. (sd_signature d, d)) das) s = None \<longleftrightarrow> s \<notin> sd_signature ` set das"
  by (induction das) auto

lemma aligned_pairs_keys:
  "fst ` set (fst (aligned_pairs base ds das s)) = fst ` set (fst s)
     \<union> (\<lambda>d. signatureKey base d) ` {d \<in> set ds. sd_signature d \<in> sd_signature ` set das}
   \<and> fst ` set (snd (aligned_pairs base ds das s)) = fst ` set (snd s)
     \<union> (\<lambda>d. signatureKey base d) ` {d \<in> set ds. sd_signature d \<in> sd_signature ` set das}"
proof -
  have keys: "fst ` set (put m k d) = insert k (fst ` set m)" for m k d
    by (auto simp: put_def insert_absorb)
  show ?thesis
  proof (induction ds arbitrary: s)
    case Nil
    then show ?case by (simp add: aligned_pairs_def)
  next
    case (Cons d ds)
    let ?g = "map_of (map (\<lambda>d. (sd_signature d, d)) das) (sd_signature d)"
    obtain b a where s: "s = (b, a)" by (cases s)
    show ?case
    proof (cases ?g)
      case None
      then have step: "aligned_pairs base (d # ds) das s = aligned_pairs base ds das s"
        by (simp add: aligned_pairs_def s)
      from None have "sd_signature d \<notin> sd_signature ` set das" by (simp add: signature_map_None)
      then have "{x \<in> set (d # ds). sd_signature x \<in> sd_signature ` set das} = {x \<in> set ds. sd_signature x \<in> sd_signature ` set das}"
        by auto
      with Cons step show ?thesis by simp
    next
      case (Some c)
      then have c: "sd_signature c = sd_signature d" "c \<in> set das" using signature_map_get by blast+
      from Some have step: "aligned_pairs base (d # ds) das s
          = aligned_pairs base ds das (put b (signatureKey base d) d, put a (signatureKey base c) c)"
        by (simp add: aligned_pairs_def s)
      have key: "signatureKey base c = signatureKey base d" using c(1) by simp
      have split: "{x \<in> set (d # ds). sd_signature x \<in> sd_signature ` set das}
          = insert d {x \<in> set ds. sd_signature x \<in> sd_signature ` set das}"
        using c by (auto simp: image_iff) metis
      show ?thesis
        unfolding step unfolding s split conjunct1 [OF Cons] conjunct2 [OF Cons] fst_conv snd_conv keys key by blast
    qed
  qed
qed


lemma aligned_pairs_keyed:
  "well_keyed (fst s) \<Longrightarrow> well_keyed (snd s) \<Longrightarrow>
     well_keyed (fst (aligned_pairs base ds das s)) \<and> well_keyed (snd (aligned_pairs base ds das s))"
  unfolding aligned_pairs_def
  by (induction ds arbitrary: s) (auto simp: put_keyed split: option.splits)

text \<open>The declarations of one group that only one side has.\<close>

definition only_signatures :: "SemanticDeclaration list \<Rightarrow> SemanticDeclaration list \<Rightarrow> SemanticDeclaration list" where
  "only_signatures xs ys = filter (\<lambda>d. sd_signature d \<notin> sd_signature ` set ys) (dedupeBySignature xs)"

lemma only_signatures_set: "d \<in> set (only_signatures xs ys) \<Longrightarrow> d \<in> set xs \<and> sd_signature d \<notin> sd_signature ` set ys"
  using dedupe_subset by (auto simp: only_signatures_def)

lemma only_signatures_Nil_iff: "only_signatures xs ys = [] \<longleftrightarrow> sd_signature ` set xs \<subseteq> sd_signature ` set ys"
proof -
  have "only_signatures xs ys = [] \<longleftrightarrow> sd_signature ` set (dedupeBySignature xs) \<subseteq> sd_signature ` set ys"
    by (auto simp: only_signatures_def filter_empty_conv)
  then show ?thesis by (simp only: dedupe_signatures)
qed

lemma alignGroup_cases:
  "alignGroup base bg ag =
     (let p = aligned_pairs base (dedupeBySignature bg) (dedupeBySignature ag) ([], []);
          ob = only_signatures bg ag; oa = only_signatures ag bg
      in if ob = [] \<or> oa = [] \<or> (length ob = 1 \<and> length oa = 1)
         then Some (foldl (\<lambda>m d. put m (declarationKey d) d) (fst p) ob,
                    foldl (\<lambda>m d. put m (declarationKey d) d) (snd p) oa)
         else None)"
proof -
  let ?bd = "dedupeBySignature bg" and ?ad = "dedupeBySignature ag"
  have entries: "fromEntries (map (\<lambda>d. (sd_signature d, d)) ?ad) = map (\<lambda>d. (sd_signature d, d)) ?ad"
    by (rule fromEntries_distinct) (simp add: comp_def dedupe_distinct)
  have ob: "filter (\<lambda>d. \<not> map_has (map (\<lambda>d. (sd_signature d, d)) ?ad) (sd_signature d)) ?bd = only_signatures bg ag"
    unfolding only_signatures_def by (simp add: image_comp comp_def dedupe_signatures)
  have oa: "filter (\<lambda>d. sd_signature d \<notin> set (map sd_signature ?bd)) ?ad = only_signatures ag bg"
    unfolding only_signatures_def by (simp add: dedupe_signatures)
  show ?thesis
    unfolding alignGroup_def Let_def entries ob oa aligned_pairs_def [symmetric]
    by (auto simp: case_prod_beta aligned_pairs_def)
qed


lemma find_all: "\<forall>d \<in> set ds. P d \<Longrightarrow> find P ds = (case ds of [] \<Rightarrow> None | d # _ \<Rightarrow> Some d)"
  by (cases ds) simp_all

definition first_of :: "'a list \<Rightarrow> 'a option" where
  "first_of xs = (case xs of [] \<Rightarrow> None | x # _ \<Rightarrow> Some x)"

lemma first_of_None [simp]: "first_of xs = None \<longleftrightarrow> xs = []"
  by (simp add: first_of_def split: list.splits)

lemma first_of_set: "first_of xs = Some x \<Longrightarrow> x \<in> set xs"
  by (auto simp: first_of_def split: list.splits)

lemma aligned_start_keys:
  "fst ` set (fst (aligned_pairs base ds das ([], []))) \<subseteq> range (\<lambda>s. base @ NUL # s)"
  "fst ` set (snd (aligned_pairs base ds das ([], []))) \<subseteq> range (\<lambda>s. base @ NUL # s)"
  by (auto simp: aligned_pairs_keys signatureKey_def)

lemma puts_keys:
  "fst ` set (foldl (\<lambda>m d. put m (g d) d) m ds) = fst ` set m \<union> g ` set ds"
proof (induction ds arbitrary: m)
  case (Cons d ds)
  have "fst ` set (put m (g d) d) = insert (g d) (fst ` set m)" by (auto simp: put_def insert_absorb)
  with Cons show ?case by simp
qed simp

lemma alignGroup_Some:
  assumes "alignGroup base bg ag = Some (b, a)"
    and bg: "\<forall>d \<in> set bg. declarationKey d = base" and ag: "\<forall>d \<in> set ag. declarationKey d = base"
  shows "map_of b base = first_of (only_signatures bg ag)"
    and "map_of a base = first_of (only_signatures ag bg)"
    and "fst ` set b \<subseteq> insert base (range (\<lambda>s. base @ NUL # s))"
    and "fst ` set a \<subseteq> insert base (range (\<lambda>s. base @ NUL # s))"
    and "only_signatures bg ag = [] \<or> only_signatures ag bg = []
      \<or> (length (only_signatures bg ag) = 1 \<and> length (only_signatures ag bg) = 1)"
proof -
  let ?p = "aligned_pairs base (dedupeBySignature bg) (dedupeBySignature ag) ([], [])"
  let ?ob = "only_signatures bg ag" and ?oa = "only_signatures ag bg"
  have ok: "?ob = [] \<or> ?oa = [] \<or> (length ?ob = 1 \<and> length ?oa = 1)"
    and b: "b = foldl (\<lambda>m d. put m (declarationKey d) d) (fst ?p) ?ob"
    and a: "a = foldl (\<lambda>m d. put m (declarationKey d) d) (snd ?p) ?oa"
    using assms(1) unfolding alignGroup_cases Let_def by (simp_all split: if_splits)
  have kb: "\<forall>d \<in> set ?ob. declarationKey d = base" using only_signatures_set bg by blast
  have ka: "\<forall>d \<in> set ?oa. declarationKey d = base" using only_signatures_set ag by blast
  have notin: "base \<notin> range (\<lambda>s. base @ NUL # s)" by auto
  have "map_of (fst ?p) base = None" unfolding map_of_eq_None_iff
    by (rule contra_subsetD [OF aligned_start_keys(1) notin])
  moreover have "map_of (snd ?p) base = None" unfolding map_of_eq_None_iff
    by (rule contra_subsetD [OF aligned_start_keys(2) notin])
  ultimately have none: "map_of (fst ?p) base = None" "map_of (snd ?p) base = None" by this+
  show "map_of b base = first_of ?ob" "map_of a base = first_of ?oa"
    unfolding b a puts_get none first_of_def find_all [OF kb] find_all [OF ka] by simp_all
  show "fst ` set b \<subseteq> insert base (range (\<lambda>s. base @ NUL # s))"
    using aligned_start_keys(1) kb unfolding b puts_keys by blast
  show "fst ` set a \<subseteq> insert base (range (\<lambda>s. base @ NUL # s))"
    using aligned_start_keys(2) ka unfolding a puts_keys by blast
  show "?ob = [] \<or> ?oa = [] \<or> (length ?ob = 1 \<and> length ?oa = 1)" by (rule ok)
qed

section \<open>Identity across revisions\<close>

definition base_group :: "string \<Rightarrow> SemanticDeclaration list \<Rightarrow> SemanticDeclaration list" where
  "base_group base ds = filter (\<lambda>d. declarationKey d = base) ds"

lemma groupByBase_get:
  "or_default (map_get (groupByBase ds) base) [] = base_group base ds"
  "fst ` set (groupByBase ds) = declarationKey ` set ds"
proof -
  have "or_default (map_get (foldl (\<lambda>m d. map_set m (declarationKey d) (or_default (map_get m (declarationKey d)) [] @ [d])) m ds) base) []
      = or_default (map_get m base) [] @ base_group base ds
    \<and> fst ` set (foldl (\<lambda>m d. map_set m (declarationKey d) (or_default (map_get m (declarationKey d)) [] @ [d])) m ds)
      = fst ` set m \<union> declarationKey ` set ds" for m
    by (induction ds arbitrary: m) (auto simp: base_group_def)
  from this [of "[]"] show "or_default (map_get (groupByBase ds) base) [] = base_group base ds"
    "fst ` set (groupByBase ds) = declarationKey ` set ds"
    by (simp_all add: groupByBase_def)
qed

lemma identity_fold:
  fixes f :: "string \<Rightarrow> (declarations \<times> declarations) option"
  assumes "\<And>s base. step s base = (case f base of
      None \<Rightarrow> s\<lparr>di_unresolved := di_unresolved s @ [base]\<rparr>
    | Some (b, a) \<Rightarrow> s\<lparr>di_before := put_all (di_before s) b, di_after := put_all (di_after s) a\<rparr>)"
  shows "di_unresolved (foldl step s bases) = di_unresolved s @ filter (\<lambda>b. f b = None) bases
    \<and> map_of (di_before (foldl step s bases)) k = or_option (map_of (di_before s) k)
        (first_defined (map (\<lambda>base. Option.bind (f base) (\<lambda>(b, a). map_of b k)) bases))
    \<and> map_of (di_after (foldl step s bases)) k = or_option (map_of (di_after s) k)
        (first_defined (map (\<lambda>base. Option.bind (f base) (\<lambda>(b, a). map_of a k)) bases))"
proof (induction bases arbitrary: s)
  case Nil
  then show ?case by simp
next
  case (Cons base bases)
  show ?case
  proof (cases "f base")
    case None
    then show ?thesis using Cons [of "step s base"] by (simp add: assms)
  next
    case (Some p)
    obtain b a where p: "p = (b, a)" by (cases p)
    have "or_option (or_option x y) (first_defined zs) = or_option x (first_defined (y # zs))" for x y and zs :: "SemanticDeclaration option list"
      by (cases x; cases y) simp_all
    then show ?thesis using Cons [of "step s base"] Some p by (simp add: assms put_all_get)
  qed
qed

lemma first_defined_unique:
  assumes "x \<in> set xs" "\<forall>y \<in> set xs. y \<noteq> x \<longrightarrow> f y = None"
  shows "first_defined (map f xs) = f x"
  using assms
proof (induction xs)
  case (Cons y ys)
  have none: "\<forall>y \<in> set ys. f y = None \<Longrightarrow> first_defined (map f ys) = None"
    by (induction ys) simp_all
  show ?case
  proof (cases "f y")
    case None
    then show ?thesis using Cons none by (cases "x \<in> set ys") (simp_all, metis)
  next
    case (Some z)
    with Cons.prems have "y = x" by force
    with Some show ?thesis by simp
  qed
qed simp


lemma NUL_count_kind: "count_list (declarationKindName k) NUL = 0"
  by (cases k) (simp_all add: NUL_def)

lemma NUL_count_key: "NUL \<notin> set (sd_id d) \<Longrightarrow> count_list (declarationKey d) NUL = 1"
  by (simp add: declarationKey_def count_list_append NUL_count_kind count_notin)

lemma declarationKey_eq:
  assumes "NUL \<notin> set (sd_id d)" "NUL \<notin> set (sd_id d')"
  shows "declarationKey d = declarationKey d' \<longleftrightarrow> sd_id d = sd_id d' \<and> sd_kind d = sd_kind d'"
proof
  assume eq: "declarationKey d = declarationKey d'"
  have "takeWhile (\<lambda>c. c \<noteq> NUL) (declarationKey x) = sd_id x" if "NUL \<notin> set (sd_id x)" for x
    using that by (simp add: declarationKey_def takeWhile_tail takeWhile_append)
  then have id: "sd_id d = sd_id d'" using assms eq by metis
  with eq have "declarationKindName (sd_kind d) = declarationKindName (sd_kind d')" by (simp add: declarationKey_def)
  then show "sd_id d = sd_id d' \<and> sd_kind d = sd_kind d'"
    using id by (cases "sd_kind d"; cases "sd_kind d'") simp_all
qed (simp add: declarationKey_def)

definition identified :: "SemanticDeclaration list \<Rightarrow> bool" where
  "identified ds = list_all (\<lambda>d. NUL \<notin> set (sd_id d)) ds"

text \<open>Under the key of a declaration the identity holds the declaration that only its side has.\<close>

lemma declarationIdentity_get:
  assumes "identified before" "identified after" and d: "d \<in> set before \<union> set after"
    and resolved: "di_unresolved (declarationIdentity before after) = []"
  defines "k \<equiv> declarationKey d"
  defines "bg \<equiv> base_group k before" and "ag \<equiv> base_group k after"
  shows "map_of (di_before (declarationIdentity before after)) k = first_of (only_signatures bg ag)"
    and "map_of (di_after (declarationIdentity before after)) k = first_of (only_signatures ag bg)"
    and "only_signatures bg ag = [] \<or> only_signatures ag bg = []
      \<or> (length (only_signatures bg ag) = 1 \<and> length (only_signatures ag bg) = 1)"
proof -
  let ?f = "\<lambda>base. alignGroup base (base_group base before) (base_group base after)"
  let ?bases = "uniq (map_keys (groupByBase before) @ map_keys (groupByBase after))"
  let ?s0 = "\<lparr>di_before = [], di_after = [], di_unresolved = []\<rparr>"
  have step: "identity_step (groupByBase before) (groupByBase after) s base = (case ?f base of
      None \<Rightarrow> s\<lparr>di_unresolved := di_unresolved s @ [base]\<rparr>
    | Some (b, a) \<Rightarrow> s\<lparr>di_before := put_all (di_before s) b, di_after := put_all (di_after s) a\<rparr>)" for s base
    by (simp add: identity_step_def groupByBase_get)
  note fold = identity_fold [of "identity_step (groupByBase before) (groupByBase after)" ?f, OF step, of ?s0 ?bases k]
  have result: "declarationIdentity before after
      = foldl (identity_step (groupByBase before) (groupByBase after)) ?s0 ?bases"
    by (simp add: declarationIdentity_def Let_def)
  have bases: "set ?bases = declarationKey ` (set before \<union> set after)"
    by (auto simp: groupByBase_get)
  have aligned: "?f base \<noteq> None" if "base \<in> set ?bases" for base
    using conjunct1 [OF fold] resolved that by (auto simp: result filter_empty_conv)
  have group: "\<forall>x \<in> set (base_group base ds). declarationKey x = base" for base ds
    by (simp add: base_group_def)
  have other: "map_of b k = None \<and> map_of a k = None"
    if "base \<in> set ?bases" "base \<noteq> k" "?f base = Some (b, a)" for base a b
  proof -
    have "count_list k NUL = 1" "count_list base NUL = 1"
      using that(1) d assms(1,2) NUL_count_key unfolding bases k_def identified_def list_all_iff by blast+
    then have "k \<noteq> base @ NUL # s" for s by (auto simp: count_list_append)
    then have "k \<notin> insert base (range (\<lambda>s. base @ NUL # s))" using that(2) by blast
    then show ?thesis
      using alignGroup_Some(3,4) [OF that(3) group group] unfolding map_of_eq_None_iff by blast
  qed
  have k: "k \<in> set ?bases" unfolding bases k_def using d by blast
  obtain b a where ba: "?f k = Some (b, a)" using aligned [OF k] by fastforce
  note here = alignGroup_Some [OF ba group group, folded bg_def ag_def]
  have "\<forall>y \<in> set ?bases. y \<noteq> k \<longrightarrow> Option.bind (?f y) (\<lambda>(b, a). map_of b k) = None"
  proof (intro ballI impI)
    fix y assume "y \<in> set ?bases" "y \<noteq> k"
    then show "Option.bind (?f y) (\<lambda>(b, a). map_of b k) = None"
      using other [of y] by (cases "?f y") auto
  qed
  from first_defined_unique [OF k this]
  have "first_defined (map (\<lambda>base. Option.bind (?f base) (\<lambda>(b, a). map_of b k)) ?bases) = map_of b k"
    by (simp only: ba bind.simps prod.case)
  then show "map_of (di_before (declarationIdentity before after)) k = first_of (only_signatures bg ag)"
    using fold here(1) by (simp add: result)
  have "\<forall>y \<in> set ?bases. y \<noteq> k \<longrightarrow> Option.bind (?f y) (\<lambda>(b, a). map_of a k) = None"
  proof (intro ballI impI)
    fix y assume "y \<in> set ?bases" "y \<noteq> k"
    then show "Option.bind (?f y) (\<lambda>(b, a). map_of a k) = None"
      using other [of y] by (cases "?f y") auto
  qed
  from first_defined_unique [OF k this]
  have "first_defined (map (\<lambda>base. Option.bind (?f base) (\<lambda>(b, a). map_of a k)) ?bases) = map_of a k"
    by (simp only: ba bind.simps prod.case)
  then show "map_of (di_after (declarationIdentity before after)) k = first_of (only_signatures ag bg)"
    using fold here(2) by (simp add: result)
  show "only_signatures bg ag = [] \<or> only_signatures ag bg = []
      \<or> (length (only_signatures bg ag) = 1 \<and> length (only_signatures ag bg) = 1)" by (rule here(5))
qed


section \<open>What an empty list of changes says\<close>

lemma ancestor_tests_shorter:
  "ancestor_tests candidates segs \<Longrightarrow>
     \<exists>c \<in> set candidates. \<exists>a. starts_with c (a @ [NUL]) \<and> length a < length (join_with ''.'' (rev segs))"
proof (induction candidates segs rule: ancestor_tests.induct)
  case (3 candidates seg seg' segs)
  let ?rest = "seg' # segs"
  have join: "join_with ''.'' (rev (seg # ?rest)) = join_with ''.'' (rev ?rest) @ ''.'' @ seg"
    using join_with_append [of "rev ?rest" "[seg]" "''.''"] by simp
  show ?case
  proof (cases "list_ex (\<lambda>c. starts_with c (join_with ''.'' (rev ?rest) @ [NUL])) candidates")
    case True
    then show ?thesis unfolding join by (fastforce simp: list_ex_iff)
  next
    case False
    then have "ancestor_tests candidates ?rest" using 3(2) by (simp add: Let_def)
    then obtain c a where "c \<in> set candidates" "starts_with c (a @ [NUL])"
        "length a < length (join_with ''.'' (rev ?rest))"
      using 3(1) [OF refl refl] False by (auto simp: Let_def)
    then show ?thesis unfolding join by fastforce
  qed
qed simp_all

lemma hasAncestor_shorter:
  assumes "hasAncestor d (map (\<lambda>(key, d). declarationKey d) kvs)" and "\<forall>(k, d) \<in> set kvs. NUL \<notin> set (sd_id d)"
  obtains k d' where "(k, d') \<in> set kvs" "length (sd_id d') < length (sd_id d)"
proof -
  obtain k d' a where kd: "(k, d') \<in> set kvs" "starts_with (declarationKey d') (a @ [NUL])"
      "length a < length (join_with ''.'' (split_on (CHR ''.'') (sd_id d)))"
    using ancestor_tests_shorter [OF assms(1) [unfolded hasAncestor_def]] by fastforce
  then have "length a < length (sd_id d)" by (simp add: join_split)
  moreover have "length (sd_id d') \<le> length a"
  proof (rule ccontr)
    assume "\<not> length (sd_id d') \<le> length a"
    then have "declarationKey d' ! length a = sd_id d' ! length a"
      by (simp add: declarationKey_def nth_append)
    moreover have "declarationKey d' ! length a = NUL" using kd(2) by (auto simp: starts_with_iff)
    ultimately have "NUL \<in> set (sd_id d')"
      using \<open>\<not> length (sd_id d') \<le> length a\<close> by (metis not_le nth_mem)
    with assms(2) kd(1) show False by blast
  qed
  ultimately show thesis using that kd(1) by fastforce
qed

lemma addedOrRemovedChanges_Nil:
  assumes "\<forall>(k, d) \<in> set m. NUL \<notin> set (sd_id d)"
  shows "addedOrRemovedChanges m missing adding = [] \<longleftrightarrow> fst ` set m \<subseteq> fst ` set missing"
proof
  let ?only = "onlyIn m missing"
  assume none: "addedOrRemovedChanges m missing adding = []"
  have ids: "\<forall>(k, d) \<in> set ?only. NUL \<notin> set (sd_id d)" using assms by (auto simp: onlyIn_def)
  have all: "hasAncestor d (map (\<lambda>(key, d). declarationKey d) ?only)" if "(k, d) \<in> set ?only" for k d
  proof (rule ccontr)
    assume "\<not> ?thesis"
    then have "\<lparr>sc_anchor = sd_id d, sc_kind = declarationKind d adding\<rparr> \<in> set (addedOrRemovedChanges m missing adding)"
      using that unfolding addedOrRemovedChanges_def Let_def set_present by force
    with none show False by simp
  qed
  have "?only = []"
  proof (rule ccontr)
    assume "?only \<noteq> []"
    then obtain e where "e \<in> set ?only" "\<forall>x. x \<in> set ?only \<longrightarrow> length (sd_id (snd e)) \<le> length (sd_id (snd x))"
      using ex_has_least_nat [of "\<lambda>x. x \<in> set ?only" "hd ?only" "\<lambda>x. length (sd_id (snd x))"] by auto
    moreover then obtain k' d' where "(k', d') \<in> set ?only" "length (sd_id d') < length (sd_id (snd e))"
      using hasAncestor_shorter [OF all ids] by (metis prod.collapse)
    ultimately show False by fastforce
  qed
  then show "fst ` set m \<subseteq> fst ` set missing" by (auto simp: onlyIn_def filter_empty_conv)
next
  assume "fst ` set m \<subseteq> fst ` set missing"
  then have "onlyIn m missing = []" by (force simp: onlyIn_def filter_empty_conv)
  then show "addedOrRemovedChanges m missing adding = []" by (simp add: addedOrRemovedChanges_def)
qed

lemma changedUnit_None:
  "changedUnit b a = None \<longleftrightarrow> sd_kind b = sd_kind a \<and> sd_signature b = sd_signature a \<and> sd_isPublic b = sd_isPublic a
     \<and> (sd_kind b = dk_function \<longrightarrow> sd_body b = sd_body a)"
  by (auto simp: changedUnit_def)

lemma importChanges_Nil: "importChanges before after = [] \<longleftrightarrow> set (file_imports before) = set (file_imports after)"
  by (auto simp: importChanges_def filter_empty_conv)


text \<open>The identity holds declarations of its own side only, under distinct keys.\<close>

definition held :: "declarations \<Rightarrow> SemanticDeclaration set" where
  "held m = snd ` set m"

lemma put_values: "held (put m k d) \<subseteq> insert d (held m)"
  by (auto simp: put_def map_set_new held_def)

lemma held_Nil [simp]: "held [] = {}"
  by (simp add: held_def)

lemma held_Cons: "held (e # m) = insert (snd e) (held m)"
  by (simp add: held_def)

lemma puts_values: "held (foldl (\<lambda>m d. put m (g d) d) m ds) \<subseteq> held m \<union> set ds"
proof (induction ds arbitrary: m)
  case (Cons d ds)
  then show ?case using Cons [of "put m (g d) d"] put_values [of m "g d" d] by auto
qed simp

lemma put_all_values: "held (put_all m kvs) \<subseteq> held m \<union> held kvs"
proof (induction kvs arbitrary: m)
  case (Cons e kvs)
  have "put_all m (e # kvs) = put_all (put m (fst e) (snd e)) kvs" by (simp add: put_all_def case_prod_beta)
  then show ?case using Cons [of "put m (fst e) (snd e)"] put_values [of m "fst e" "snd e"] unfolding held_Cons by auto
qed (simp add: put_all_def)

lemma aligned_pairs_values:
  "held (fst (aligned_pairs base ds das s)) \<subseteq> held (fst s) \<union> set ds
   \<and> held (snd (aligned_pairs base ds das s)) \<subseteq> held (snd s) \<union> set das"
proof (induction ds arbitrary: s)
  case Nil
  then show ?case by (simp add: aligned_pairs_def)
next
  case (Cons d ds)
  obtain b a where s: "s = (b, a)" by (cases s)
  show ?case
  proof (cases "map_of (map (\<lambda>d. (sd_signature d, d)) das) (sd_signature d)")
    case None
    then have "aligned_pairs base (d # ds) das s = aligned_pairs base ds das s"
      by (simp add: aligned_pairs_def s)
    with Cons [of s] show ?thesis by auto
  next
    case (Some c)
    then have c: "c \<in> set das" using signature_map_get by blast
    let ?s = "(put b (signatureKey base d) d, put a (signatureKey base c) c)"
    from Some have "aligned_pairs base (d # ds) das s = aligned_pairs base ds das ?s"
      by (simp add: aligned_pairs_def s)
    with Cons [of ?s] c put_values [of b "signatureKey base d" d] put_values [of a "signatureKey base c" c]
    show ?thesis unfolding s by auto
  qed
qed

lemma alignGroup_values:
  assumes "alignGroup base bg ag = Some (b, a)"
  shows "held b \<subseteq> set bg \<and> held a \<subseteq> set ag \<and> well_keyed b \<and> well_keyed a"
proof -
  let ?p = "aligned_pairs base (dedupeBySignature bg) (dedupeBySignature ag) ([], [])"
  have b: "b = foldl (\<lambda>m d. put m (declarationKey d) d) (fst ?p) (only_signatures bg ag)"
    and a: "a = foldl (\<lambda>m d. put m (declarationKey d) d) (snd ?p) (only_signatures ag bg)"
    using assms unfolding alignGroup_cases Let_def by (simp_all split: if_splits)
  have only: "set (only_signatures x y) \<subseteq> set x" for x y using only_signatures_set by blast
  have keyed: "well_keyed (fst ?p)" "well_keyed (snd ?p)" using aligned_pairs_keyed [of "([], [])"] by simp_all
  have vals: "held (fst ?p) \<subseteq> set bg" "held (snd ?p) \<subseteq> set ag"
    using aligned_pairs_values [of base "dedupeBySignature bg" "dedupeBySignature ag" "([], [])"]
      dedupe_subset [of bg] dedupe_subset [of ag] by auto
  have "held b \<subseteq> set bg" unfolding b
    using subset_trans [OF puts_values] vals(1) only by (meson Un_least)
  moreover have "held a \<subseteq> set ag" unfolding a
    using subset_trans [OF puts_values] vals(2) only by (meson Un_least)
  ultimately show ?thesis using keyed by (simp add: a b puts_keyed)
qed

lemma declarationIdentity_values:
  "held (di_before (declarationIdentity before after)) \<subseteq> set before
   \<and> held (di_after (declarationIdentity before after)) \<subseteq> set after
   \<and> well_keyed (di_before (declarationIdentity before after))
   \<and> well_keyed (di_after (declarationIdentity before after))"
proof -
  have "held (di_before (foldl (identity_step (groupByBase before) (groupByBase after)) s bases)) \<subseteq> set before
     \<and> held (di_after (foldl (identity_step (groupByBase before) (groupByBase after)) s bases)) \<subseteq> set after
     \<and> well_keyed (di_before (foldl (identity_step (groupByBase before) (groupByBase after)) s bases))
     \<and> well_keyed (di_after (foldl (identity_step (groupByBase before) (groupByBase after)) s bases))"
    if "held (di_before s) \<subseteq> set before \<and> held (di_after s) \<subseteq> set after
      \<and> well_keyed (di_before s) \<and> well_keyed (di_after s)" for s bases
    using that
  proof (induction bases arbitrary: s)
    case (Cons base bases)
    have "held (di_before (identity_step (groupByBase before) (groupByBase after) s base)) \<subseteq> set before
     \<and> held (di_after (identity_step (groupByBase before) (groupByBase after) s base)) \<subseteq> set after
     \<and> well_keyed (di_before (identity_step (groupByBase before) (groupByBase after) s base))
     \<and> well_keyed (di_after (identity_step (groupByBase before) (groupByBase after) s base))"
    proof (cases "alignGroup base (base_group base before) (base_group base after)")
      case None
      then show ?thesis using Cons.prems by (simp add: identity_step_def groupByBase_get)
    next
      case (Some p)
      obtain b a where p: "p = (b, a)" by (cases p)
      have sub: "set (base_group base before) \<subseteq> set before" "set (base_group base after) \<subseteq> set after"
        by (auto simp: base_group_def)
      then have "held b \<subseteq> set before" "held a \<subseteq> set after"
        using alignGroup_values [OF Some [unfolded p]] by auto
      then have "held (put_all (di_before s) b) \<subseteq> set before" "held (put_all (di_after s) a) \<subseteq> set after"
        using Cons.prems put_all_values by (meson Un_least subset_trans)+
      then show ?thesis using Cons.prems Some
        by (simp add: p identity_step_def groupByBase_get put_all_keyed)
    qed
    from Cons.IH [OF this] show ?case by simp
  qed simp
  from this [of "\<lparr>di_before = [], di_after = [], di_unresolved = []\<rparr>"] show ?thesis
    by (simp add: declarationIdentity_def Let_def)
qed


lemma normalize_ids: "identified (normalizeReexportIdentity ds cs) = identified ds"
proof -
  have "map sd_id (normalizeReexportIdentity ds cs) = map sd_id ds"
    by (simp add: normalizeReexportIdentity_def split: option.split)
  moreover have "identified xs = list_all (\<lambda>i. NUL \<notin> set i) (map sd_id xs)" for xs
    by (simp add: identified_def list_all_iff)
  ultimately show ?thesis by metis
qed

lemma declarationKind_real: "declarationKind d adding \<noteq> comment_whitespace"
  by (simp add: declarationKind_def)

lemma signatureKind_real: "signatureKind b a \<noteq> comment_whitespace"
  by (simp add: signatureKind_def)

lemma changedUnit_real: "changedUnit b a = Some c \<Longrightarrow> sc_kind c \<noteq> comment_whitespace"
  by (auto simp: changedUnit_def signatureKind_real split: if_splits)

lemma addedOrRemoved_kinds: "c \<in> set (addedOrRemovedChanges m missing adding) \<Longrightarrow> sc_kind c \<noteq> comment_whitespace"
  by (auto simp: addedOrRemovedChanges_def Let_def declarationKind_real)

lemma changedUnits_kinds: "c \<in> set (changedDeclarationUnits m n) \<Longrightarrow> sc_kind c \<noteq> comment_whitespace"
  by (auto simp: changedDeclarationUnits_def bind_eq_Some_conv dest!: sym [of "Some _"] changedUnit_real)

lemma importChanges_kinds: "c \<in> set (importChanges b a) \<Longrightarrow> sc_kind c \<noteq> comment_whitespace"
  by (auto simp: importChanges_def import_change_def)

definition whitespace_verdict :: SemanticChangeAnalysis where
  "whitespace_verdict = Available [\<lparr>sc_anchor = ''file'', sc_kind = comment_whitespace\<rparr>]"

lemma whitespace_verdict_iff:
  "analyzeSemanticChanges before after = whitespace_verdict \<longleftrightarrow>
     (\<exists>maps. mapsFor before after = Inr maps \<and> \<not> dm_unsupportedTopLevelChanged maps
        \<and> addedOrRemovedChanges (dm_after maps) (dm_before maps) True = []
        \<and> addedOrRemovedChanges (dm_before maps) (dm_after maps) False = []
        \<and> changedDeclarationUnits (dm_before maps) (dm_after maps) = []
        \<and> importChanges before after = [])"
proof (cases "mapsFor before after")
  case (Inl u)
  then show ?thesis
    by (auto simp: analyzeSemanticChanges_def whitespace_verdict_def mapsFor_def Let_def split: if_splits)
next
  case (Inr maps)
  let ?cs = "addedOrRemovedChanges (dm_after maps) (dm_before maps) True
                @ addedOrRemovedChanges (dm_before maps) (dm_after maps) False
                @ changedDeclarationUnits (dm_before maps) (dm_after maps)
                @ importChanges before after"
  have "?cs \<noteq> [\<lparr>sc_anchor = ''file'', sc_kind = comment_whitespace\<rparr>]"
  proof
    assume "?cs = [\<lparr>sc_anchor = ''file'', sc_kind = comment_whitespace\<rparr>]"
    then have "\<lparr>sc_anchor = ''file'', sc_kind = comment_whitespace\<rparr> \<in> set ?cs" by simp
    then show False
      using addedOrRemoved_kinds changedUnits_kinds importChanges_kinds
      unfolding set_append by (metis SemanticChange.select_convs(2) UnE)
  qed
  then have "analyzeSemanticChanges before after = whitespace_verdict \<longleftrightarrow>
      ?cs = [] \<and> \<not> dm_unsupportedTopLevelChanged maps"
    unfolding analyzeSemanticChanges_def Inr sum.case Let_def whitespace_verdict_def by auto
  then show ?thesis by (auto simp: Inr)
qed

lemma mapsFor_Inr:
  assumes "mapsFor before after = Inr maps"
  defines "I \<equiv> declarationIdentity (normalizedBefore before after) (normalizedAfter before after)"
  shows "dm_before maps = di_before I" "dm_after maps = di_after I" "di_unresolved I = []"
  using assms(1) by (auto simp: mapsFor_def I_def Let_def split: if_splits)

lemma changedDeclarationUnits_Nil:
  assumes "changedDeclarationUnits m n = []" "map_of m k = Some b" "map_of n k = Some a"
  shows "changedUnit b a = None"
proof -
  have "(k, b) \<in> set m" using assms(2) by (rule map_of_SomeD)
  moreover have "\<forall>(k, b) \<in> set m. Option.bind (map_get n k) (changedUnit b) = None"
    using assms(1) by (auto simp: changedDeclarationUnits_def present_Nil_iff)
  ultimately show ?thesis using assms(3) by fastforce
qed

lemma identity_agrees:
  assumes ids: "identified before" "identified after"
  defines "I \<equiv> declarationIdentity before after"
  assumes resolved: "di_unresolved I = []" and keys: "fst ` set (di_before I) = fst ` set (di_after I)"
    and unchanged: "changedDeclarationUnits (di_before I) (di_after I) = []"
    and d: "d \<in> set before \<union> set after"
  shows "sd_signature ` set (base_group (declarationKey d) before) = sd_signature ` set (base_group (declarationKey d) after)"
proof -
  let ?k = "declarationKey d"
  let ?bg = "base_group ?k before" and ?ag = "base_group ?k after"
  note get = declarationIdentity_get [OF ids d resolved [unfolded I_def], folded I_def]
  have dom: "map_of (di_before I) ?k = None \<longleftrightarrow> map_of (di_after I) ?k = None"
    unfolding map_of_eq_None_iff keys ..
  then have iff: "only_signatures ?bg ?ag = [] \<longleftrightarrow> only_signatures ?ag ?bg = []" by (simp add: get)
  have "only_signatures ?bg ?ag = []"
  proof (rule ccontr)
    assume ne: "only_signatures ?bg ?ag \<noteq> []"
    then obtain x y where xy: "first_of (only_signatures ?bg ?ag) = Some x" "first_of (only_signatures ?ag ?bg) = Some y"
      using iff by (metis first_of_None not_None_eq)
    then have "changedUnit x y = None" using changedDeclarationUnits_Nil [OF unchanged] get by metis
    then have "sd_signature x = sd_signature y" by (simp add: changedUnit_None)
    moreover have "sd_signature x \<notin> sd_signature ` set ?ag" "y \<in> set ?ag"
      using xy first_of_set only_signatures_set by metis+
    ultimately show False by auto
  qed
  then show ?thesis using iff by (auto simp only: only_signatures_Nil_iff)
qed

text \<open>
  A file judged unchanged but for comments has on both sides declarations of the same ids, kinds
  and signatures, the same import sources and the same unclassified top level.
\<close>

definition declared :: "SemanticDeclaration list \<Rightarrow> (string \<times> SemanticDeclarationKind \<times> string) set" where
  "declared ds = (\<lambda>d. (sd_id d, sd_kind d, sd_signature d)) ` set ds"

lemma whitespace_sound:
  assumes ids: "identified (surface_declarations before)" "identified (surface_declarations after)"
    and verdict: "analyzeSemanticChanges before after = whitespace_verdict"
  shows "declared (normalizedBefore before after) = declared (normalizedAfter before after)
    \<and> set (file_imports before) = set (file_imports after)"
proof -
  let ?b = "normalizedBefore before after" and ?a = "normalizedAfter before after"
  let ?I = "declarationIdentity ?b ?a"
  obtain maps where maps: "mapsFor before after = Inr maps"
      and added: "addedOrRemovedChanges (dm_after maps) (dm_before maps) True = []"
      and removed: "addedOrRemovedChanges (dm_before maps) (dm_after maps) False = []"
      and changed: "changedDeclarationUnits (dm_before maps) (dm_after maps) = []"
      and imported: "importChanges before after = []"
    using verdict unfolding whitespace_verdict_iff by blast
  note dm = mapsFor_Inr [OF maps]
  have idb: "identified ?b" and ida: "identified ?a"
    using ids by (simp_all add: normalizedBefore_def normalizedAfter_def normalize_ids)
  have nul: "\<forall>(k, d) \<in> set (di_before ?I). NUL \<notin> set (sd_id d)" "\<forall>(k, d) \<in> set (di_after ?I). NUL \<notin> set (sd_id d)"
    using declarationIdentity_values [of ?b ?a] idb ida by (force simp: held_def identified_def list_all_iff)+
  have keys: "fst ` set (di_before ?I) = fst ` set (di_after ?I)"
    using added removed addedOrRemovedChanges_Nil [OF nul(1)] addedOrRemovedChanges_Nil [OF nul(2)]
    by (metis dm(1,2) subset_antisym)
  have agree: "sd_signature ` set (base_group (declarationKey d) ?b) = sd_signature ` set (base_group (declarationKey d) ?a)"
    if "d \<in> set ?b \<union> set ?a" for d
    using identity_agrees [OF idb ida dm(3) keys] changed that by (simp only: dm)
  have sub: "declared xs \<subseteq> declared ys"
    if "identified xs" "identified ys"
      and eq: "\<And>d. d \<in> set xs \<Longrightarrow> sd_signature ` set (base_group (declarationKey d) xs)
        \<subseteq> sd_signature ` set (base_group (declarationKey d) ys)" for xs ys
  proof
    fix t assume "t \<in> declared xs"
    then obtain d where d: "d \<in> set xs" "t = (sd_id d, sd_kind d, sd_signature d)" by (auto simp: declared_def)
    then have "sd_signature d \<in> sd_signature ` set (base_group (declarationKey d) xs)" by (simp add: base_group_def)
    then obtain d' where d': "d' \<in> set ys" "declarationKey d' = declarationKey d" "sd_signature d' = sd_signature d"
      using eq [OF d(1)] by (auto simp: base_group_def)
    then have "sd_id d' = sd_id d \<and> sd_kind d' = sd_kind d"
      using that(1,2) d(1) declarationKey_eq [of d' d] by (auto simp: identified_def list_all_iff)
    with d d' have "t = (sd_id d', sd_kind d', sd_signature d')" by simp
    then show "t \<in> declared ys" unfolding declared_def using d'(1) by (rule image_eqI)
  qed
  have "declared ?b = declared ?a"
    using sub [OF idb ida] sub [OF ida idb] agree by (metis UnI1 UnI2 order_refl subset_antisym)
  with imported show ?thesis by (simp add: importChanges_Nil)
qed

section \<open>The contents of unchanged declarations\<close>

lemma aligned_pairs_get:
  "map_of (fst (aligned_pairs base ds das s)) (base @ NUL # g)
     = or_option (map_of (fst s) (base @ NUL # g)) (if g \<in> sd_signature ` set das then find (\<lambda>d. sd_signature d = g) ds else None)
   \<and> map_of (snd (aligned_pairs base ds das s)) (base @ NUL # g)
     = or_option (map_of (snd s) (base @ NUL # g))
         (if g \<in> sd_signature ` set ds then map_of (map (\<lambda>d. (sd_signature d, d)) das) g else None)"
proof (induction ds arbitrary: s)
  case Nil
  then show ?case by (cases "map_of (fst s) (base @ NUL # g)"; cases "map_of (snd s) (base @ NUL # g)") (simp_all add: aligned_pairs_def)
next
  case (Cons d ds)
  let ?g = "map_of (map (\<lambda>d. (sd_signature d, d)) das) (sd_signature d)"
  obtain b a where s: "s = (b, a)" by (cases s)
  show ?case
  proof (cases ?g)
    case None
    then have step: "aligned_pairs base (d # ds) das s = aligned_pairs base ds das s"
      by (simp add: aligned_pairs_def s)
    from None have "sd_signature d \<notin> sd_signature ` set das" by (simp add: signature_map_None)
    with None Cons step show ?thesis by auto
  next
    case (Some c)
    then have c: "sd_signature c = sd_signature d" "c \<in> set das" using signature_map_get by blast+
    from Some have step: "aligned_pairs base (d # ds) das s
        = aligned_pairs base ds das (put b (signatureKey base d) d, put a (signatureKey base c) c)"
      by (simp add: aligned_pairs_def s)
    show ?thesis
    proof (cases "sd_signature d = g")
      case True
      then have "g \<in> sd_signature ` set das" using c by (metis imageI)
      then show ?thesis unfolding step conjunct1 [OF Cons] conjunct2 [OF Cons] using True Some c(1)
        by (cases "map_of b (base @ NUL # g)"; cases "map_of a (base @ NUL # g)") (auto simp: s put_get signatureKey_def)
    next
      case False
      then show ?thesis unfolding step conjunct1 [OF Cons] conjunct2 [OF Cons] using c(1)
        by (auto simp: s put_get signatureKey_def image_iff)
    qed
  qed
qed

text \<open>Under the key of a signature that both sides of a group have, the alignment holds the first declaration of each side.\<close>

lemma find_dedupe: "find (\<lambda>d. sd_signature d = g) (dedupeBySignature ds) = find (\<lambda>d. sd_signature d = g) ds"
proof (cases "find (\<lambda>d. sd_signature d = g) ds")
  case None
  then have "g \<notin> sd_signature ` set ds" by (auto simp: find_None_iff)
  then have "g \<notin> sd_signature ` set (dedupeBySignature ds)" by (simp add: dedupe_signatures)
  then have "find (\<lambda>d. sd_signature d = g) (dedupeBySignature ds) = None" by (auto simp: find_None_iff)
  with None show ?thesis by simp
next
  case (Some d)
  have "g \<in> sd_signature ` set (dedupeBySignature ds)"
    using find_key [OF Some] unfolding dedupe_signatures by blast
  then obtain x where x: "find (\<lambda>d. sd_signature d = g) (dedupeBySignature ds) = Some x"
    by (cases "find (\<lambda>d. sd_signature d = g) (dedupeBySignature ds)") (auto simp: find_None_iff)
  from find_key [OF x] have "find (\<lambda>y. sd_signature y = g) ds = Some x" by (auto simp: dedupe_members)
  with x show ?thesis by simp
qed

lemma signature_map_find: "map_of (map (\<lambda>d. (sd_signature d, d)) ds) g = find (\<lambda>d. sd_signature d = g) ds"
  by (induction ds) auto

lemma alignGroup_get:
  assumes "alignGroup base bg ag = Some (b, a)"
    and x: "find (\<lambda>d. sd_signature d = g) bg = Some x" and y: "find (\<lambda>d. sd_signature d = g) ag = Some y"
  shows "map_of b (base @ NUL # g) = Some x" "map_of a (base @ NUL # g) = Some y"
proof -
  let ?p = "aligned_pairs base (dedupeBySignature bg) (dedupeBySignature ag) ([], [])"
  have b: "b = foldl (\<lambda>m d. put m (declarationKey d) d) (fst ?p) (only_signatures bg ag)"
    and a: "a = foldl (\<lambda>m d. put m (declarationKey d) d) (snd ?p) (only_signatures ag bg)"
    using assms(1) unfolding alignGroup_cases Let_def by (simp_all split: if_splits)
  have "g \<in> sd_signature ` set bg" "g \<in> sd_signature ` set ag" using find_key [OF x] find_key [OF y] by (metis imageI)+
  then have "map_of (fst ?p) (base @ NUL # g) = Some x" "map_of (snd ?p) (base @ NUL # g) = Some y"
    by (simp_all add: aligned_pairs_get dedupe_signatures find_dedupe signature_map_find x y)
  then show "map_of b (base @ NUL # g) = Some x" "map_of a (base @ NUL # g) = Some y"
    unfolding b a puts_get by simp_all
qed

lemma NUL_prefix:
  assumes "count_list k NUL = 1" "count_list k' NUL = 1" "k @ NUL # s = k' @ NUL # s'"
  shows "k = k'"
proof -
  have "k @ NUL # s = k' @ NUL # s' \<Longrightarrow> count_list k NUL = count_list k' NUL \<Longrightarrow> k = k'"
    by (induction k arbitrary: k') (case_tac k'; auto split: if_splits)+
  with assms show ?thesis by simp
qed

lemma identity_step_aligned:
  "identity_step (groupByBase before) (groupByBase after) s base = (case alignGroup base (base_group base before) (base_group base after) of
      None \<Rightarrow> s\<lparr>di_unresolved := di_unresolved s @ [base]\<rparr>
    | Some (b, a) \<Rightarrow> s\<lparr>di_before := put_all (di_before s) b, di_after := put_all (di_after s) a\<rparr>)"
  by (simp add: identity_step_def groupByBase_get)

lemma declarationIdentity_pair:
  assumes ids: "identified before" "identified after"
    and resolved: "di_unresolved (declarationIdentity before after) = []"
    and x: "find (\<lambda>d. sd_signature d = g) (base_group k before) = Some x"
    and y: "find (\<lambda>d. sd_signature d = g) (base_group k after) = Some y"
  shows "map_of (di_before (declarationIdentity before after)) (k @ NUL # g) = Some x"
    and "map_of (di_after (declarationIdentity before after)) (k @ NUL # g) = Some y"
proof -
  let ?f = "\<lambda>base. alignGroup base (base_group base before) (base_group base after)"
  let ?bases = "uniq (map_keys (groupByBase before) @ map_keys (groupByBase after))"
  let ?s0 = "\<lparr>di_before = [], di_after = [], di_unresolved = []\<rparr>"
  let ?q = "k @ NUL # g"
  note fold = identity_fold [of "identity_step (groupByBase before) (groupByBase after)" ?f, OF identity_step_aligned, of ?s0 ?bases ?q]
  have result: "declarationIdentity before after
      = foldl (identity_step (groupByBase before) (groupByBase after)) ?s0 ?bases"
    by (simp add: declarationIdentity_def Let_def)
  have bases: "set ?bases = declarationKey ` (set before \<union> set after)"
    by (auto simp: groupByBase_get)
  have count: "count_list base NUL = 1" if "base \<in> set ?bases" for base
    using that ids NUL_count_key unfolding bases identified_def list_all_iff by blast
  have aligned: "?f base \<noteq> None" if "base \<in> set ?bases" for base
    using conjunct1 [OF fold] resolved that by (auto simp: result filter_empty_conv)
  have group: "\<forall>z \<in> set (base_group base ds). declarationKey z = base" for base ds
    by (simp add: base_group_def)
  have "x \<in> set before" "declarationKey x = k" using find_key [OF x] by (auto simp: base_group_def)
  then have k: "k \<in> set ?bases" unfolding bases by blast
  have other: "map_of b ?q = None \<and> map_of a ?q = None"
    if "base \<in> set ?bases" "base \<noteq> k" "?f base = Some (b, a)" for base a b
  proof -
    have "?q \<noteq> base @ NUL # s" for s using NUL_prefix [OF count [OF k] count [OF that(1)]] that(2) by blast
    moreover have "?q \<noteq> base"
    proof
      assume "?q = base"
      then have "count_list ?q NUL = 1" using count [OF that(1)] by simp
      then show False using count [OF k] by (simp add: count_list_append)
    qed
    ultimately have "?q \<notin> insert base (range (\<lambda>s. base @ NUL # s))" by blast
    then show ?thesis
      using alignGroup_Some(3,4) [OF that(3) group group] unfolding map_of_eq_None_iff by blast
  qed
  obtain b a where ba: "?f k = Some (b, a)" using aligned [OF k] by fastforce
  note here = alignGroup_get [OF ba x y]
  have nb: "Option.bind (?f z) (\<lambda>(b, a). map_of b ?q) = None" and na: "Option.bind (?f z) (\<lambda>(b, a). map_of a ?q) = None"
    if "z \<in> set ?bases" "z \<noteq> k" for z
    using other [OF that] by (cases "?f z"; auto)+
  have "first_defined (map (\<lambda>base. Option.bind (?f base) (\<lambda>(b, a). map_of b ?q)) ?bases) = map_of b ?q"
    using first_defined_unique [OF k, of "\<lambda>base. Option.bind (?f base) (\<lambda>(b, a). map_of b ?q)"] nb ba by simp
  then show "map_of (di_before (declarationIdentity before after)) ?q = Some x"
    using fold here(1) by (simp add: result)
  have "first_defined (map (\<lambda>base. Option.bind (?f base) (\<lambda>(b, a). map_of a ?q)) ?bases) = map_of a ?q"
    using first_defined_unique [OF k, of "\<lambda>base. Option.bind (?f base) (\<lambda>(b, a). map_of a ?q)"] na ba by simp
  then show "map_of (di_after (declarationIdentity before after)) ?q = Some y"
    using fold here(2) by (simp add: result)
qed


text \<open>What is declared under an id, a kind and a signature: whether it is public and, of a function, the body.\<close>

type_synonym declaration_key = "string \<times> SemanticDeclarationKind \<times> string"

definition declared_key :: "SemanticDeclaration \<Rightarrow> declaration_key" where
  "declared_key d = (sd_id d, sd_kind d, sd_signature d)"

definition declared_content :: "SemanticDeclaration list \<Rightarrow> declaration_key \<Rightarrow> (bool \<times> string option) option" where
  "declared_content ds t = map_option (\<lambda>d. (sd_isPublic d, if sd_kind d = dk_function then sd_body d else None)) (find (\<lambda>d. declared_key d = t) ds)"

lemma declared_keys: "declared ds = declared_key ` set ds"
  by (simp add: declared_def declared_key_def)

lemma find_in_group:
  assumes "identified ds" "find (\<lambda>d. declared_key d = declared_key e) ds = Some d" "NUL \<notin> set (sd_id e)"
  shows "find (\<lambda>x. sd_signature x = sd_signature e) (base_group (declarationKey e) ds) = Some d"
  using assms
proof (induction ds)
  case (Cons x ds)
  have x: "NUL \<notin> set (sd_id x)" "identified ds" using Cons.prems(1) by (simp_all add: identified_def)
  have "declared_key x = declared_key e \<longleftrightarrow> declarationKey x = declarationKey e \<and> sd_signature x = sd_signature e"
    unfolding declarationKey_eq [OF x(1) Cons.prems(3)] by (auto simp: declared_key_def)
  then show ?case using Cons x by (auto simp: base_group_def split: if_splits)
qed simp

lemma same_content:
  assumes ids: "identified before" "identified after"
  defines "I \<equiv> declarationIdentity before after"
  assumes resolved: "di_unresolved I = []" and unchanged: "changedDeclarationUnits (di_before I) (di_after I) = []"
    and declared: "declared before = declared after"
  shows "declared_content before t = declared_content after t"
proof (cases "t \<in> declared before")
  case False
  then have "find (\<lambda>d. declared_key d = t) before = None" "find (\<lambda>d. declared_key d = t) after = None"
    using declared by (auto simp: declared_keys find_None_iff)
  then show ?thesis by (simp add: declared_content_def)
next
  case True
  have some: "\<exists>d. find (\<lambda>d. declared_key d = t) ds = Some d" if "t \<in> declared ds" for ds
    using that by (cases "find (\<lambda>d. declared_key d = t) ds") (auto simp: declared_keys find_None_iff)
  obtain x y where x: "find (\<lambda>d. declared_key d = t) before = Some x" and y: "find (\<lambda>d. declared_key d = t) after = Some y"
    using some True declared by metis
  have t: "t = declared_key x" "declared_key y = declared_key x" "x \<in> set before"
    using find_key [OF x] find_key [OF y] by simp_all
  have nul: "NUL \<notin> set (sd_id x)" using t(3) ids(1) by (simp add: identified_def list_all_iff)
  note pair = declarationIdentity_pair [OF ids resolved [unfolded I_def] find_in_group [OF ids(1) x [unfolded t(1)] nul]
      find_in_group [OF ids(2) y [unfolded t(1)] nul], folded I_def]
  have "changedUnit x y = None" by (rule changedDeclarationUnits_Nil [OF unchanged pair])
  then show ?thesis by (auto simp: declared_content_def x y changedUnit_None)
qed

section \<open>Re-exports that take over their counterpart\<close>

lemma byUniqueId_get:
  "map_get (byUniqueId ds) i = (case filter (\<lambda>d. sd_id d = i) ds of [] \<Rightarrow> None | [c] \<Rightarrow> Some (Some c) | _ \<Rightarrow> Some None)"
proof (induction ds rule: rev_induct)
  case (snoc d ds)
  have "map_has (byUniqueId ds) j \<longleftrightarrow> map_get (byUniqueId ds) j \<noteq> None" for j
    by (simp add: map_of_eq_None_iff)
  with snoc show ?case
    by (auto simp: byUniqueId_def split: list.splits)
qed (simp add: byUniqueId_def)

definition taken_over :: "SemanticDeclaration list \<Rightarrow> SemanticDeclaration list \<Rightarrow> string list" where
  "taken_over ds others = map sd_id (filter (\<lambda>d. sd_reexport d \<and> length (filter (\<lambda>c. sd_id c = sd_id d) others) = 1) ds)"

lemma normalize_other:
  assumes "sd_id d \<notin> set (taken_over ds others)" "d \<in> set ds"
  shows "(case map_get (byUniqueId others) (sd_id d) of
        Some (Some c) \<Rightarrow>
          (if sd_reexport d
           then d\<lparr>sd_kind := sd_kind c, sd_signature := sd_signature c,
                  sd_body := (if has_body c then sd_body c else sd_body d)\<rparr>
           else d)
      | _ \<Rightarrow> d) = d"
proof -
  have "\<not> sd_reexport d \<or> length (filter (\<lambda>c. sd_id c = sd_id d) others) \<noteq> 1"
    using assms unfolding taken_over_def by auto
  then show ?thesis by (auto simp: byUniqueId_get split: list.splits)
qed

lemma normalize_outside:
  assumes "set (taken_over ds others) \<subseteq> set R"
  shows "filter (\<lambda>d. sd_id d \<notin> set R) (normalizeReexportIdentity ds (byUniqueId others)) = filter (\<lambda>d. sd_id d \<notin> set R) ds"
proof -
  let ?f = "\<lambda>d. case map_get (byUniqueId others) (sd_id d) of
        Some (Some c) \<Rightarrow>
          (if sd_reexport d
           then d\<lparr>sd_kind := sd_kind c, sd_signature := sd_signature c,
                  sd_body := (if has_body c then sd_body c else sd_body d)\<rparr>
           else d)
      | _ \<Rightarrow> d"
  have ids: "sd_id (?f d) = sd_id d" for d by (simp split: option.split)
  have same: "?f d = d" if "sd_id d \<notin> set R" "d \<in> set ds" for d
    by (rule normalize_other) (use that assms in blast)+
  have "filter (\<lambda>d. sd_id d \<notin> set R) (map f xs) = filter (\<lambda>d. sd_id d \<notin> set R) xs"
    if "\<And>d. sd_id (f d) = sd_id d" "\<And>d. sd_id d \<notin> set R \<Longrightarrow> d \<in> set xs \<Longrightarrow> f d = d" for f and xs :: "SemanticDeclaration list"
    using that by (induction xs) auto
  from this [of ?f, OF ids same] show ?thesis unfolding normalizeReexportIdentity_def .
qed


lemma declared_outside: "{t \<in> declared ds. fst t \<notin> R} = declared (filter (\<lambda>d. sd_id d \<notin> R) ds)"
  by (auto simp: declared_def)

lemma content_outside: "fst t \<notin> R \<Longrightarrow> declared_content ds t = declared_content (filter (\<lambda>d. sd_id d \<notin> R) ds) t"
proof -
  assume "fst t \<notin> R"
  then have "find (\<lambda>d. declared_key d = t) ds = find (\<lambda>d. declared_key d = t) (filter (\<lambda>d. sd_id d \<notin> R) ds)"
    by (induction ds) (auto simp: declared_key_def)
  then show ?thesis by (simp add: declared_content_def)
qed

lemma normalize_names: "sd_id ` set (normalizeReexportIdentity ds cs) = sd_id ` set ds"
  unfolding normalizeReexportIdentity_def set_map image_image by (intro image_cong) (simp_all split: option.split)

lemma declared_names: "sd_id ` set ds = fst ` declared ds"
  by (force simp: declared_def)

lemma whitespace_contents:
  assumes ids: "identified (surface_declarations before)" "identified (surface_declarations after)"
    and verdict: "analyzeSemanticChanges before after = whitespace_verdict"
  shows "declared_content (normalizedBefore before after) = declared_content (normalizedAfter before after)"
proof -
  obtain maps where maps: "mapsFor before after = Inr maps"
      and changed: "changedDeclarationUnits (dm_before maps) (dm_after maps) = []"
    using verdict unfolding whitespace_verdict_iff by blast
  note dm = mapsFor_Inr [OF maps]
  have "identified (normalizedBefore before after)" "identified (normalizedAfter before after)"
    using ids by (simp_all add: normalizedBefore_def normalizedAfter_def normalize_ids)
  from same_content [OF this dm(3) changed [unfolded dm] conjunct1 [OF whitespace_sound [OF ids verdict]]]
  show ?thesis by blast
qed

lemma whitespace_on_file:
  assumes ids: "identified (surface_declarations before)" "identified (surface_declarations after)"
    and verdict: "analyzeSemanticChanges before after = whitespace_verdict"
  defines "B \<equiv> surface_declarations before" and "A \<equiv> surface_declarations after"
  defines "R \<equiv> set (taken_over B A @ taken_over A B)"
  shows "sd_id ` set B = sd_id ` set A" "{t \<in> declared B. fst t \<notin> R} = {t \<in> declared A. fst t \<notin> R}"
    "fst t \<notin> R \<Longrightarrow> declared_content B t = declared_content A t"
proof -
  let ?b = "normalizedBefore before after" and ?a = "normalizedAfter before after"
  note keys = conjunct1 [OF whitespace_sound [OF ids verdict]] and contents = whitespace_contents [OF ids verdict]
  have b: "filter (\<lambda>d. sd_id d \<notin> R) ?b = filter (\<lambda>d. sd_id d \<notin> R) B"
    and a: "filter (\<lambda>d. sd_id d \<notin> R) ?a = filter (\<lambda>d. sd_id d \<notin> R) A"
    unfolding normalizedBefore_def normalizedAfter_def R_def A_def [symmetric] B_def [symmetric]
    by (rule normalize_outside; simp)+
  have "sd_id ` set ?b = sd_id ` set ?a" unfolding declared_names keys ..
  then show "sd_id ` set B = sd_id ` set A"
    by (simp add: normalizedBefore_def normalizedAfter_def normalize_names A_def B_def)
  show "{t \<in> declared B. fst t \<notin> R} = {t \<in> declared A. fst t \<notin> R}"
    unfolding declared_outside b [symmetric] a [symmetric] unfolding declared_outside [symmetric] keys ..
  show "declared_content B t = declared_content A t" if "fst t \<notin> R"
    unfolding content_outside [OF that, of B] content_outside [OF that, of A] b [symmetric] a [symmetric]
    unfolding content_outside [OF that, symmetric] contents ..
qed

section \<open>Equal revisions\<close>

text \<open>Equal revisions get that verdict.\<close>

lemma aligned_pairs_same:
  assumes "set ds \<subseteq> set das" "distinct (map sd_signature das)" "fst s = snd s"
  shows "fst (aligned_pairs base ds das s) = snd (aligned_pairs base ds das s)"
  using assms(1,3)
proof (induction ds arbitrary: s)
  case (Cons d ds)
  obtain m where s: "s = (m, m)" using Cons.prems by (cases s) simp
  have "map_of (map (\<lambda>d. (sd_signature d, d)) das) (sd_signature d) = Some d"
    using Cons.prems(1) assms(2) by (intro map_of_is_SomeI) (auto simp: comp_def)
  then have "aligned_pairs base (d # ds) das s
      = aligned_pairs base ds das (put m (signatureKey base d) d, put m (signatureKey base d) d)"
    by (simp add: aligned_pairs_def s)
  then show ?case using Cons by simp
qed (simp add: aligned_pairs_def)

lemma alignGroup_same: "\<exists>m. alignGroup base g g = Some (m, m)"
proof -
  have "only_signatures g g = []" by (simp add: only_signatures_Nil_iff)
  then show ?thesis
    using aligned_pairs_same [of "dedupeBySignature g" "dedupeBySignature g" "([], [])" base] dedupe_distinct [of g]
    unfolding alignGroup_cases Let_def by simp
qed

lemma declarationIdentity_same:
  "di_unresolved (declarationIdentity ds ds) = []
   \<and> di_before (declarationIdentity ds ds) = di_after (declarationIdentity ds ds)"
proof -
  have "di_unresolved (foldl (identity_step (groupByBase ds) (groupByBase ds)) s bases) = []
      \<and> di_before (foldl (identity_step (groupByBase ds) (groupByBase ds)) s bases)
        = di_after (foldl (identity_step (groupByBase ds) (groupByBase ds)) s bases)"
    if "di_unresolved s = [] \<and> di_before s = di_after s" for s bases
    using that
  proof (induction bases arbitrary: s)
    case (Cons base bases)
    obtain m where "alignGroup base (base_group base ds) (base_group base ds) = Some (m, m)"
      using alignGroup_same by blast
    then show ?case using Cons by (simp add: identity_step_def groupByBase_get)
  qed simp
  then show ?thesis by (simp add: declarationIdentity_def Let_def)
qed

lemma unchanged_is_whitespace:
  assumes surface: "fa_semanticSurface a \<noteq> None"
  shows "analyzeSemanticChanges (Some a) (Some a) = whitespace_verdict"
proof -
  let ?ds = "normalizedBefore (Some a) (Some a)"
  have same: "normalizedAfter (Some a) (Some a) = ?ds" by (simp add: normalizedBefore_def normalizedAfter_def)
  let ?I = "declarationIdentity ?ds ?ds"
  obtain m where m: "di_before ?I = m" "di_after ?I = m" "di_unresolved ?I = []"
    using declarationIdentity_same by metis
  have keyed: "well_keyed m" using declarationIdentity_values m by metis
  have maps: "mapsFor (Some a) (Some a) = Inr \<lparr>dm_before = m, dm_after = m, dm_unsupportedTopLevelChanged = False\<rparr>"
    using surface m by (auto simp: mapsFor_def lacks_surface_def same)
  have "addedOrRemovedChanges m m adding = []" for adding
    by (simp add: addedOrRemovedChanges_def onlyIn_def case_prod_beta)
  moreover have "changedDeclarationUnits m m = []"
  proof -
    have "Option.bind (map_of m k) (changedUnit d) = None" if "(k, d) \<in> set m" for k d
      using that well_keyed_get [OF keyed] changedUnit_None by auto
    then show ?thesis by (auto simp: changedDeclarationUnits_def present_Nil_iff)
  qed
  ultimately show ?thesis
    unfolding whitespace_verdict_iff maps by (simp add: importChanges_Nil)
qed


section \<open>The arity of a plain parameter list\<close>

definition plain_char :: "char \<Rightarrow> bool" where
  "plain_char c = (\<not> isQuoteCharacter c \<and> levelDelta c = 0)"

lemma plain_not_paren: "plain_char c \<Longrightarrow> c \<noteq> CHR ''('' \<and> c \<noteq> CHR '')''"
  by (auto simp: plain_char_def levelDelta_def)

lemma stepGroup_plain:
  "plain_char c \<Longrightarrow> gs_closing s = None \<Longrightarrow> qs_quote (gs_quote s) = None \<Longrightarrow> stepGroup s c i = s"
  using plain_not_paren [of c] by (simp add: stepGroup_def plain_char_def)

lemma scan_plain:
  "list_all plain_char xs \<Longrightarrow> gs_closing s = None \<Longrightarrow> qs_quote (gs_quote s) = None \<Longrightarrow> length is = length xs
    \<Longrightarrow> foldl (\<lambda>s (c, i). stepGroup s c i) s (zip xs is) = s"
  by (induction xs "is" rule: list_induct2') (simp_all add: stepGroup_plain)

lemma scan_closed:
  "gs_closing s \<noteq> None \<Longrightarrow> foldl (\<lambda>s (c, i). stepGroup s c i) s cs = s"
  by (induction cs) (auto simp: stepGroup_def)

lemma zip_upt_Cons: "zip (x # ys) [a..<a + length (x # ys)] = (x, a) # zip ys [Suc a..<Suc a + length ys]"
  by (simp add: upt_conv_Cons del: upt_Suc)

lemma zip_upt_append:
  "zip (xs @ y # ys) [a..<a + length (xs @ y # ys)]
     = zip xs [a..<a + length xs] @ (y, a + length xs) # zip ys [Suc (a + length xs)..<Suc (a + length xs) + length ys]"
proof -
  have "[a..<a + length (xs @ y # ys)] = [a..<a + length xs] @ [a + length xs..<a + length xs + length (y # ys)]"
    using upt_add_eq_append [of a "a + length xs" "length (y # ys)"] by (simp add: add.assoc del: upt_Suc)
  then show ?thesis using zip_upt_Cons [of y ys "a + length xs"] by (simp del: upt_Suc)
qed

lemma scanParameterGroup_plain:
  assumes "list_all plain_char params"
  shows "scanParameterGroup (name @ CHR ''('' # params @ CHR '')'' # rest) (length name)
    = \<lparr>gs_quote = quote_start, gs_depth = 0, gs_closing = Some (length name + 1 + length params), gs_nested = False\<rparr>"
proof -
  let ?sig = "name @ CHR ''('' # params @ CHR '')'' # rest" and ?n = "length name"
  let ?step = "\<lambda>s (c, i). stepGroup s c i"
  let ?open = "group_start\<lparr>gs_depth := 1\<rparr>"
  have drop: "drop ?n ?sig = CHR ''('' # params @ CHR '')'' # rest"
    and range: "[?n..<length ?sig] = [?n..<?n + length (CHR ''('' # params @ CHR '')'' # rest)]" by simp_all
  have zip: "zip (drop ?n ?sig) [?n..<length ?sig] = (CHR ''('', ?n)
      # zip params [Suc ?n..<Suc ?n + length params] @ (CHR '')'', Suc ?n + length params)
      # zip rest [Suc (Suc ?n + length params)..<Suc (Suc ?n + length params) + length rest]"
    unfolding drop range zip_upt_Cons unfolding zip_upt_append ..
  have first: "stepGroup group_start (CHR ''('') ?n = ?open"
    by (simp add: stepGroup_def group_start_def quote_start_def isQuoteCharacter_def)
  have middle: "foldl ?step ?open (zip params [Suc ?n..<Suc ?n + length params]) = ?open"
    by (rule scan_plain) (simp_all add: assms group_start_def quote_start_def del: upt_Suc)
  have last: "stepGroup ?open (CHR '')'') (Suc ?n + length params)
      = \<lparr>gs_quote = quote_start, gs_depth = 0, gs_closing = Some (?n + 1 + length params), gs_nested = False\<rparr>"
    by (simp add: stepGroup_def group_start_def quote_start_def isQuoteCharacter_def)
  show ?thesis
    unfolding scanParameterGroup_def zip foldl_Cons foldl_append prod.case first middle last by (rule scan_closed) simp
qed

lemma count_plain:
  assumes "list_all plain_char xs" "qs_quote (ct_quote s) = None" "ct_level s = 0"
  shows "ct_commas (foldl stepParameterCount s xs) = ct_commas s + count_list xs (CHR '','')"
  using assms
proof (induction xs arbitrary: s)
  case (Cons c xs)
  then have "stepParameterCount s c = (if c = CHR '','' then s\<lparr>ct_commas := ct_commas s + 1\<rparr> else s)"
    by (simp add: stepParameterCount_def plain_char_def)
  then show ?case using Cons by simp
qed simp

lemma count_list_dropWhile: "\<not> P c \<Longrightarrow> count_list (dropWhile P xs) c = count_list xs c"
  by (induction xs) auto

lemma count_list_trim: "\<not> is_space c \<Longrightarrow> count_list (trim s) c = count_list s c"
  by (simp add: trim_def count_list_dropWhile)

lemma list_all_trim: "list_all P s \<Longrightarrow> list_all P (trim s)"
  by (auto simp: trim_def list_all_iff dest!: set_dropWhileD)

lemma parameterArity_plain:
  assumes name: "CHR ''('' \<notin> set name" and plain: "list_all plain_char params"
  shows "parameterArity (name @ ''('' @ params @ '')'' @ rest)
    = Some (if list_all is_space params then 0 else count_list params (CHR '','') + 1)"
proof -
  let ?sig = "name @ CHR ''('' # params @ CHR '')'' # rest"
  have before: "parameterGroupAt ?sig i = None" if "i < length name" for i
  proof -
    have "name ! i \<noteq> CHR ''(''" using that name nth_mem by metis
    then show ?thesis using that by (simp add: parameterGroupAt_def nth_append)
  qed
  have here: "parameterGroupAt ?sig (length name) = Some (trim params)"
    by (simp add: parameterGroupAt_def scanParameterGroup_plain [OF plain])
  have "[0..<length name + Suc m] = [0..<length name] @ length name # [Suc (length name)..<length name + Suc m]" for m
    using upt_add_eq_append [of 0 "length name" "Suc m"] upt_conv_Cons [of "length name" "length name + Suc m"] by simp
  then have "[0..<length ?sig] = [0..<length name] @ length name # [Suc (length name)..<length ?sig]" by simp
  moreover have "first_defined (map (parameterGroupAt ?sig) [0..<length name] @ ys) = first_defined ys" for ys
  proof -
    have "first_defined (map (parameterGroupAt ?sig) is @ ys) = first_defined ys" if "\<forall>i \<in> set is. i < length name" for "is"
      using that by (induction "is") (simp_all add: before)
    then show ?thesis by simp
  qed
  ultimately have "findParameterList ?sig = Some (trim params)"
    by (simp add: findParameterList_def here del: upt_Suc)
  moreover have "\<not> is_space (CHR '','')" by (simp add: is_space_def)
  ultimately show ?thesis
    using count_plain [OF list_all_trim [OF plain], of "\<lparr>ct_quote = quote_start, ct_level = 0, ct_commas = 0\<rparr>"]
    by (auto simp: parameterArity_def countTopLevelParameters_def quote_start_def count_list_trim trim_eq_Nil_iff)
qed

text \<open>An arrow in a parameter type closes a level that was not opened, so the comma after it is not counted.\<close>

lemma parameterArity_arrow: "parameterArity ''f(a: A => B, c: C)'' = Some 1"
  by code_simp

section \<open>Properties\<close>

text \<open>C27: A change that is classified as comments and whitespace left the file's own declarations unchanged: both
  versions declare the same names, and outside of the names where a re-export takes over the other version's only
  declaration they have the same kinds and signatures, equally public, with the same function bodies (of declarations that
  repeat an id, a kind and a signature the first counts); the view that the verdict compares agrees in full, and the
  modules that the file imports are the same. Ids have no \<open>U+0000\<close>, which separates the parts of a key.\<close>

theorem whitespace_verdict_sound:
  assumes "identified (surface_declarations before)" "identified (surface_declarations after)"
    and "analyzeSemanticChanges before after = whitespace_verdict"
    and "taken = set (taken_over (surface_declarations before) (surface_declarations after)
      @ taken_over (surface_declarations after) (surface_declarations before))"
  shows "sd_id ` set (surface_declarations before) = sd_id ` set (surface_declarations after)
    \<and> {t \<in> declared (surface_declarations before). fst t \<notin> taken} = {t \<in> declared (surface_declarations after). fst t \<notin> taken}
    \<and> (\<forall>t. fst t \<notin> taken \<longrightarrow> declared_content (surface_declarations before) t = declared_content (surface_declarations after) t)
    \<and> declared (normalizedBefore before after) = declared (normalizedAfter before after)
    \<and> declared_content (normalizedBefore before after) = declared_content (normalizedAfter before after)
    \<and> set (file_imports before) = set (file_imports after)"
  using whitespace_on_file [OF assms(1-3)] whitespace_sound [OF assms(1-3)] whitespace_contents [OF assms(1-3)]
  unfolding assms(4) by blast

definition sample_declaration :: SemanticDeclaration where
  "sample_declaration = \<lparr>sd_id = ''f'', sd_kind = dk_function, sd_isPublic = True, sd_additive = False, sd_reexport = False,
     sd_signature = ''f(a)'', sd_body = None\<rparr>"

definition sample_source :: "string list \<Rightarrow> FileAst" where
  "sample_source targets = \<lparr>fa_path = ''a.ts'', fa_language = typescript, fa_branchCount = 0, fa_weightedBranchTotal = None,
     fa_topLevelWeightedBranch = None, fa_nestingDepth = 0, fa_functionCount = 1, fa_passthroughCalls = 0,
     fa_imports = map (\<lambda>t. \<lparr>ir_resolvedPath = Some t, ir_source = t, ir_reexport = False\<rparr>) targets,
     fa_exportedSymbols = None, fa_semanticSurface = Some \<lparr>ss_declarations = [sample_declaration], ss_unsupportedTopLevel = []\<rparr>,
     fa_loc = None, fa_declarationLoc = None, fa_maxFuncBranch = None, fa_externalPassthroughCalls = None, fa_functions = []\<rparr>"

theorem whitespace_verdict_sound_witness:
  "analyzeSemanticChanges (Some (sample_source [''b''])) (Some (sample_source [''b''])) = whitespace_verdict
   \<and> set (file_imports (Some (sample_source [''b'']))) = {''b''}"
proof -
  have verdict: "analyzeSemanticChanges (Some (sample_source [''b''])) (Some (sample_source [''b''])) = whitespace_verdict"
    by (rule unchanged_is_whitespace) (simp add: sample_source_def)
  have "identified (surface_declarations (Some (sample_source [''b''])))"
    by (simp add: identified_def surface_declarations_def sample_source_def sample_declaration_def NUL_def)
  from whitespace_verdict_sound [OF this this verdict refl] verdict show ?thesis
    by (simp add: file_imports_def importSources_def sample_source_def)
qed

text \<open>The exception is needed: a class that is replaced by a re-export of its name, from a module that the file imported
  before, takes over the kind, the signature and the body, so that nothing seems to have changed.\<close>

definition class_surface :: "SemanticDeclaration list" where
  "class_surface = [\<lparr>sd_id = ''f'', sd_kind = dk_class, sd_isPublic = True, sd_additive = False, sd_reexport = False,
     sd_signature = ''class f'', sd_body = Some ''{ run() {} }''\<rparr>]"

definition reexport_surface :: "SemanticDeclaration list" where
  "reexport_surface = [\<lparr>sd_id = ''f'', sd_kind = dk_function, sd_isPublic = True, sd_additive = False, sd_reexport = True,
     sd_signature = ''f'', sd_body = None\<rparr>]"

definition declaring :: "SemanticDeclaration list \<Rightarrow> FileAst \<Rightarrow> FileAst" where
  "declaring ds a = a\<lparr>fa_semanticSurface := Some \<lparr>ss_declarations = ds, ss_unsupportedTopLevel = []\<rparr>\<rparr>"

theorem reexport_hides_changes:
  "analyzeSemanticChanges (Some (declaring class_surface (sample_source [''b'']))) (Some (declaring reexport_surface (sample_source [''b'']))) = whitespace_verdict
   \<and> declared class_surface = {(''f'', dk_class, ''class f'')} \<and> declared reexport_surface = {(''f'', dk_function, ''f'')}"
proof -
  have "analyzeSemanticChanges (Some (declaring class_surface (sample_source [''b'']))) (Some (declaring reexport_surface (sample_source [''b'']))) = whitespace_verdict"
    by code_simp
  then show ?thesis by (simp add: declared_def class_surface_def reexport_surface_def)
qed

text \<open>For a parameter list without brackets, quotes or arrows the arity is the number of
  top-level commas plus one, and 0 for an empty list.\<close>

theorem arity_counts_parameters:
  assumes "CHR ''('' \<notin> set name" "list_all plain_char params"
  shows "parameterArity (name @ ''('' @ params @ '')'' @ rest)
    = Some (if list_all is_space params then 0 else count_list params (CHR '','') + 1)"
  using assms by (rule parameterArity_plain)

theorem arity_counts_parameters_witness: "parameterArity ''f(a: A, b: B): C'' = Some 2"
proof -
  have "list_all plain_char ''a: A, b: B''" by code_simp
  from arity_counts_parameters [of "''f''", OF _ this, of "'': C''"] show ?thesis
    by (simp add: is_space_def)
qed

text \<open>An arrow in a parameter's type closes a bracket that was never opened, so the comma behind
  it is not counted and two parameters are taken for one.\<close>

theorem arity_misses_comma_after_arrow:
  "parameterArity ''f(a: A => B, c: C)'' = Some 1 \<and> parameterArity ''f(a: A, c: C)'' = Some 2"
  by code_simp

end
