(* ===== verification/Evolution_History.thy ===== *)
theory Evolution_History
  imports Cohesion File_Kinds
begin

text \<open>
  The evolution signals of the Git history (\<open>evolutionHistory.ts\<close>): the production files of each
  change set, the extensions of a coordinator by a new member, and the closed co-change sets
  with their Pareto front. Averages and coverages are exact reals.
\<close>

section \<open>Change sets and facts\<close>

datatype EvolutionChangeKind = ec_added | ec_modified | ec_deleted

record EvolutionFileChange =
  ch_path :: string
  ch_kind :: EvolutionChangeKind

record EvolutionChangeSet =
  cs_id :: string
  cs_files :: "string list"
  cs_changes :: "EvolutionFileChange list option"

record EvolutionFileFact =
  ef_path :: string
  ef_fileKind :: "FileKind option"
  ef_loc :: "nat option"
  ef_inDegree :: nat
  ef_alphaStruct :: real
  ef_imports :: "string list option"
  ef_reexports :: "string list option"

type_synonym FactByPath = "(string, EvolutionFileFact) jmap"

record ProductionChangeSet =
  ps_id :: string
  ps_files :: "string list"
  ps_changes :: "EvolutionFileChange list"

record EvolutionHistory =
  eh_changeSets :: "ProductionChangeSet list"
  eh_extensionOccurrences :: "(string, string list) jmap"
  eh_eligibleChangeSets :: nat
  eh_bootstrapChangeSetsExcluded :: nat
  eh_unavailableHistoryFiles :: nat

definition MAX_INTERSECTION_SETS :: nat where
  "MAX_INTERSECTION_SETS = 10000"

definition MAX_INTERSECTION_OPERATIONS :: nat where
  "MAX_INTERSECTION_OPERATIONS = 200000"

definition MIN_SET_SIZE :: nat where
  "MIN_SET_SIZE = 3"

definition MIN_SUPPORT :: nat where
  "MIN_SUPPORT = 3"

record ClosedCochangeOptions =
  co_minimumSetSize :: nat
  co_minimumSupport :: nat
  co_requiredFile :: "string option"

definition setKey :: "string list \<Rightarrow> string" where
  "setKey files = join_with [NUL] (sort files)"

definition extensionKey :: "string \<Rightarrow> string \<Rightarrow> string" where
  "extensionKey coordinator member = coordinator @ NUL # member"

definition splitExtension :: "string \<Rightarrow> string list" where
  "splitExtension key = split_on NUL key"

definition normalizedReexports :: "EvolutionFileFact option \<Rightarrow> string list" where
  "normalizedReexports f = map toPosixPath (or_default (Option.bind f ef_reexports) [])"

definition normalizedImports :: "EvolutionFileFact option \<Rightarrow> string list" where
  "normalizedImports f =
     (let reexports = normalizedReexports f
      in filter (\<lambda>p. p \<notin> set reexports) (map toPosixPath (or_default (Option.bind f ef_imports) [])))"

section \<open>The production view of the history\<close>

text \<open>The paths without a current fact are collected in the set \<open>unavailable\<close>.\<close>

definition productionFiles :: "EvolutionChangeSet \<Rightarrow> FactByPath \<Rightarrow> string list \<Rightarrow> string list \<times> string list" where
  "productionFiles changeSet facts unavailable =
     (let paths = uniq (map toPosixPath (cs_files changeSet))
      in (sort (filter (\<lambda>file. case map_get facts file of None \<Rightarrow> False
             | Some f \<Rightarrow> participatesInPopulation (ef_fileKind f) pop_production) paths),
          foldl (\<lambda>u file. set_add file u) unavailable (filter (\<lambda>file. map_get facts file = None) paths)))"

definition normalizedChanges :: "EvolutionFileChange list \<Rightarrow> string list \<Rightarrow> EvolutionFileChange list" where
  "normalizedChanges changes production =
     filter (\<lambda>c. ch_path c \<in> set production) (map (\<lambda>c. c\<lparr>ch_path := toPosixPath (ch_path c)\<rparr>) changes)"

definition paths_of_kind :: "EvolutionChangeKind \<Rightarrow> EvolutionFileChange list \<Rightarrow> string list" where
  "paths_of_kind k changes = map ch_path (filter (\<lambda>c. ch_kind c = k) changes)"

definition record_extension ::
  "string \<Rightarrow> FactByPath \<Rightarrow> string \<Rightarrow> (string, string list) jmap \<Rightarrow> string \<Rightarrow> (string, string list) jmap" where
  "record_extension csId facts coordinator occurrences member =
     (if member \<in> set (normalizedImports (map_get facts coordinator))
      then map_set occurrences (extensionKey coordinator member)
             (or_default (map_get occurrences (extensionKey coordinator member)) [] @ [csId])
      else occurrences)"

definition recordExtensions ::
  "EvolutionChangeSet \<Rightarrow> string list \<Rightarrow> FactByPath \<Rightarrow> (string, string list) jmap \<Rightarrow> (string, string list) jmap" where
  "recordExtensions changeSet production facts occurrences =
     (case cs_changes changeSet of
        None \<Rightarrow> occurrences
      | Some cs \<Rightarrow>
          let changes = normalizedChanges cs production;
              addedMembers = paths_of_kind ec_added changes;
              changedCoordinators = paths_of_kind ec_modified changes
          in foldl (\<lambda>occ coordinator. foldl (record_extension (cs_id changeSet) facts coordinator) occ addedMembers)
               occurrences changedCoordinators)"

record HistoryScan =
  hs_occurrences :: "(string, string list) jmap"
  hs_sets :: "ProductionChangeSet list"
  hs_unavailable :: "string list"
  hs_bootstrap :: nat

definition history_step :: "FactByPath \<Rightarrow> HistoryScan \<Rightarrow> EvolutionChangeSet \<Rightarrow> HistoryScan" where
  "history_step facts s changeSet =
     (case productionFiles changeSet facts (hs_unavailable s) of (files, unavailable) \<Rightarrow>
        let s = s\<lparr>hs_unavailable := unavailable\<rparr>
        in if length files < 2 then s
           else let changes = normalizedChanges (or_default (cs_changes changeSet) []) files
             in if changes \<noteq> [] \<and> list_all (\<lambda>c. ch_kind c = ec_added) changes
                then s\<lparr>hs_bootstrap := hs_bootstrap s + 1\<rparr>
                else s\<lparr>hs_sets := hs_sets s @ [\<lparr>ps_id = cs_id changeSet, ps_files = files, ps_changes = changes\<rparr>],
                       hs_occurrences := recordExtensions changeSet files facts (hs_occurrences s)\<rparr>)"

definition history_start :: HistoryScan where
  "history_start = \<lparr>hs_occurrences = [], hs_sets = [], hs_unavailable = [], hs_bootstrap = 0\<rparr>"

definition collectEvolutionHistory :: "EvolutionChangeSet list \<Rightarrow> FactByPath \<Rightarrow> EvolutionHistory" where
  "collectEvolutionHistory changeSets facts =
     (let s = foldl (history_step facts) history_start changeSets
      in \<lparr>eh_changeSets = hs_sets s, eh_extensionOccurrences = hs_occurrences s,
          eh_eligibleChangeSets = length (hs_sets s), eh_bootstrapChangeSetsExcluded = hs_bootstrap s,
          eh_unavailableHistoryFiles = length (hs_unavailable s)\<rparr>)"

section \<open>Components of the import graph of a set\<close>

definition containsAll :: "string list \<Rightarrow> string list \<Rightarrow> bool" where
  "containsAll container sub = list_all (\<lambda>f. f \<in> set container) sub"

definition intersect :: "string list \<Rightarrow> string list \<Rightarrow> string list" where
  "intersect left right = filter (\<lambda>f. f \<in> set right) left"

definition set_adjacency :: "string list \<Rightarrow> FactByPath \<Rightarrow> adjacency" where
  "set_adjacency files facts =
     foldl (\<lambda>adj file. foldl (\<lambda>adj target.
         if target \<in> set files then add_neighbor (add_neighbor adj file target) target file else adj)
         adj (normalizedImports (map_get facts file)))
       (foldl (\<lambda>m file. map_set m file []) [] files) files"

definition push_new :: "string list \<times> string list \<Rightarrow> string \<Rightarrow> string list \<times> string list" where
  "push_new s n = (case s of (visited, stack) \<Rightarrow>
     if n \<in> set visited then (visited, stack) else (visited @ [n], n # stack))"

text \<open>The nodes that can still be pushed: the neighbours that are not visited yet.\<close>

definition open_nodes :: "adjacency \<Rightarrow> string list \<Rightarrow> string set" where
  "open_nodes adj visited = {n. \<exists>e \<in> set adj. n \<in> set (snd e)} - set visited"

lemma finite_open_nodes [simp]: "finite (open_nodes adj visited)"
proof -
  have "{n. \<exists>e \<in> set adj. n \<in> set (snd e)} = (\<Union>e \<in> set adj. set (snd e))" by auto
  then show ?thesis by (simp add: open_nodes_def)
qed

lemma push_new_measure:
  assumes "set ns \<subseteq> {n. \<exists>e \<in> set adj. n \<in> set (snd e)}"
  shows "card (open_nodes adj (fst (foldl push_new (v, st) ns))) + length (snd (foldl push_new (v, st) ns))
      = card (open_nodes adj v) + length st"
  using assms
proof (induction ns arbitrary: v st)
  case (Cons n ns)
  show ?case
  proof (cases "n \<in> set v")
    case True
    with Cons show ?thesis by (simp add: push_new_def)
  next
    case False
    then have "n \<in> open_nodes adj v" "open_nodes adj (v @ [n]) = open_nodes adj v - {n}"
      using Cons.prems by (auto simp: open_nodes_def)
    then have "Suc (card (open_nodes adj (v @ [n]))) = card (open_nodes adj v)"
      using card.remove [of "open_nodes adj v" n] by simp
    then show ?thesis using False Cons.IH [of "v @ [n]" "n # st"] Cons.prems by (simp add: push_new_def)
  qed
qed simp

lemma neighbors_nodes: "set (neighbors adj a) \<subseteq> {n. \<exists>e \<in> set adj. n \<in> set (snd e)}"
proof (cases "map_of adj a")
  case None
  then show ?thesis by (simp add: neighbors_def)
next
  case (Some ns)
  then show ?thesis using map_of_SomeD [OF Some] by (force simp: neighbors_def)
qed

function walk :: "adjacency \<Rightarrow> string list \<Rightarrow> string list \<Rightarrow> string list" where
  "walk adj visited [] = visited"
| "walk adj visited (current # rest) =
     walk adj (fst (foldl push_new (visited, rest) (neighbors adj current)))
       (snd (foldl push_new (visited, rest) (neighbors adj current)))"
  by pat_completeness auto
termination
  by (relation "measure (\<lambda>(adj, visited, stack). card (open_nodes adj visited) + length stack)")
    (simp_all add: case_prod_beta push_new_measure [OF neighbors_nodes])

definition component_step :: "adjacency \<Rightarrow> string list \<times> nat \<Rightarrow> string \<Rightarrow> string list \<times> nat" where
  "component_step adj s file = (case s of (visited, components) \<Rightarrow>
     if file \<in> set visited then (visited, components)
     else (walk adj (visited @ [file]) [file], components + 1))"

definition importComponents :: "string list \<Rightarrow> FactByPath \<Rightarrow> nat" where
  "importComponents files facts = snd (foldl (component_step (set_adjacency files facts)) ([], 0) files)"


section \<open>Closed co-change sets\<close>

record CochangeActionSummary =
  as_added :: nat
  as_modified :: nat
  as_deleted :: nat
  as_observedCommits :: nat

record CochangeSetCandidate =
  cc_files :: "string list"
  cc_occurrences :: nat
  cc_minimumMemberCoverage :: real
  cc_averageBatchSize :: real
  cc_currentInternalImportCount :: nat
  cc_currentImportComponents :: nat
  cc_actionSummary :: CochangeActionSummary
  cc_historyEntries :: "string list"
  cc_supportingCommits :: "string list"
  cc_maxInDegree :: nat
  cc_maxAlphaStruct :: real

datatype 'c CochangeSetAnalysis =
    CochangeAvailable "'c list"
  | CochangeUnavailable string

definition count_kind :: "EvolutionChangeKind \<Rightarrow> EvolutionFileChange list \<Rightarrow> nat" where
  "count_kind k changes = length (filter (\<lambda>c. ch_kind c = k) changes)"

definition action_step :: "string list \<Rightarrow> CochangeActionSummary \<Rightarrow> ProductionChangeSet \<Rightarrow> CochangeActionSummary" where
  "action_step files s changeSet =
     (let changes = filter (\<lambda>c. ch_path c \<in> set files) (ps_changes changeSet)
      in s\<lparr>as_added := as_added s + count_kind ec_added changes,
           as_modified := as_modified s + count_kind ec_modified changes,
           as_deleted := as_deleted s + count_kind ec_deleted changes,
           as_observedCommits := as_observedCommits s + (if changes \<noteq> [] then 1 else 0)\<rparr>)"

definition actionSummary :: "ProductionChangeSet list \<Rightarrow> string list \<Rightarrow> CochangeActionSummary" where
  "actionSummary support files =
     foldl (action_step files) \<lparr>as_added = 0, as_modified = 0, as_deleted = 0, as_observedCommits = 0\<rparr> support"

definition compactness :: "CochangeSetCandidate \<Rightarrow> real" where
  "compactness c = length (cc_files c) / cc_averageBatchSize c"

definition connectivity :: "CochangeSetCandidate \<Rightarrow> real" where
  "connectivity c = (if length (cc_files c) \<le> 1 then 0
     else (real (length (cc_files c)) - cc_currentImportComponents c) / (real (length (cc_files c)) - 1))"

definition edgeDensity :: "CochangeSetCandidate \<Rightarrow> real" where
  "edgeDensity c = cc_currentInternalImportCount c / length (cc_files c)"

definition actionObservation :: "CochangeSetCandidate \<Rightarrow> real" where
  "actionObservation c = as_observedCommits (cc_actionSummary c) / cc_occurrences c"

definition pareto_values :: "CochangeSetCandidate \<Rightarrow> real list" where
  "pareto_values c = [cc_minimumMemberCoverage c, compactness c, connectivity c, edgeDensity c, actionObservation c]"

definition dominates :: "CochangeSetCandidate \<Rightarrow> CochangeSetCandidate \<Rightarrow> bool" where
  "dominates left right =
     (list_all (\<lambda>(l, r). l \<ge> r) (zip (pareto_values left) (pareto_values right))
      \<and> list_ex (\<lambda>(l, r). l > r) (zip (pareto_values left) (pareto_values right)))"

definition paretoFront :: "CochangeSetCandidate list \<Rightarrow> CochangeSetCandidate list" where
  "paretoFront candidates =
     filter (\<lambda>c. \<not> list_ex (\<lambda>other. other \<noteq> c \<and> dominates other c) candidates) candidates"

type_synonym itemsets = "(string, string list) jmap"

definition seed_step :: "itemsets \<times> string list list \<Rightarrow> ProductionChangeSet \<Rightarrow> itemsets \<times> string list list" where
  "seed_step s c = (case s of (itemsets, queue) \<Rightarrow>
     if map_has itemsets (setKey (ps_files c)) then (itemsets, queue)
     else (map_set itemsets (setKey (ps_files c)) (ps_files c), queue @ [ps_files c]))"

definition seed_itemsets :: "ProductionChangeSet list \<Rightarrow> itemsets \<times> string list list" where
  "seed_itemsets changeSets = foldl seed_step ([], []) changeSets"

text \<open>One pass of the inner loop: the intersections of one item set, or \<open>None\<close> when the budget is exceeded.\<close>

fun close_with ::
  "nat \<Rightarrow> string list \<Rightarrow> ProductionChangeSet list \<Rightarrow> itemsets \<Rightarrow> string list list \<Rightarrow> nat
     \<Rightarrow> (itemsets \<times> string list list \<times> nat) option" where
  "close_with min_size itemset [] itemsets queue operations = Some (itemsets, queue, operations)"
| "close_with min_size itemset (c # cs) itemsets queue operations =
     (if Suc operations > MAX_INTERSECTION_OPERATIONS \<or> length itemsets \<ge> MAX_INTERSECTION_SETS then None
      else let nxt = intersect itemset (ps_files c)
        in if length nxt < min_size \<or> map_has itemsets (setKey nxt)
           then close_with min_size itemset cs itemsets queue (Suc operations)
           else close_with min_size itemset cs (map_set itemsets (setKey nxt) nxt) (queue @ [nxt]) (Suc operations))"

lemma close_with_operations:
  "close_with n itemset cs itemsets queue operations = Some (itemsets', queue', operations') \<Longrightarrow>
     operations' = operations + length cs \<and> (cs \<noteq> [] \<longrightarrow> operations' \<le> MAX_INTERSECTION_OPERATIONS)
     \<and> (cs = [] \<longrightarrow> queue' = queue)"
proof (induction n itemset cs itemsets queue operations rule: close_with.induct)
  case (2 n itemset c cs itemsets queue operations)
  then show ?case by (auto simp: Let_def split: if_splits)
qed simp

function enumerate ::
  "nat \<Rightarrow> ProductionChangeSet list \<Rightarrow> string list list \<Rightarrow> itemsets \<Rightarrow> nat \<Rightarrow> itemsets option" where
  "enumerate min_size changeSets [] itemsets operations = Some itemsets"
| "enumerate min_size changeSets (itemset # queue) itemsets operations =
     (case close_with min_size itemset changeSets itemsets queue operations of
        None \<Rightarrow> None
      | Some (itemsets', queue', operations') \<Rightarrow> enumerate min_size changeSets queue' itemsets' operations')"
  by pat_completeness auto
termination
proof (relation "measures [\<lambda>(n, cs, q, i, ops). Suc MAX_INTERSECTION_OPERATIONS - ops, \<lambda>(n, cs, q, i, ops). length q]")
  fix n cs itemset and queue queue' :: "string list list" and itemsets itemsets' operations operations' x xa y
  assume "close_with n itemset cs itemsets queue operations = Some x" "(itemsets', xa) = x" "(queue', operations') = xa"
  then have "operations' = operations + length cs" "cs \<noteq> [] \<longrightarrow> operations' \<le> MAX_INTERSECTION_OPERATIONS"
      "cs = [] \<longrightarrow> queue' = queue"
    using close_with_operations [of n itemset cs itemsets queue operations itemsets' queue' operations'] by auto
  then show "((n, cs, queue', itemsets', operations'), n, cs, itemset # queue, itemsets, operations)
      \<in> measures [\<lambda>(n, cs, q, i, ops). Suc MAX_INTERSECTION_OPERATIONS - ops, \<lambda>(n, cs, q, i, ops). length q]"
    by (cases cs) auto
qed simp

definition fileOccurrences :: "ProductionChangeSet list \<Rightarrow> (string, nat) jmap" where
  "fileOccurrences changeSets =
     foldl (\<lambda>m c. foldl (\<lambda>m file. map_set m file (or_default (map_get m file) 0 + 1)) m (ps_files c)) [] changeSets"

text \<open>\<open>Math.min\<close> and \<open>Math.max\<close> of the values of a set of files, which is never empty here.\<close>

fun Min_list :: "real list \<Rightarrow> real" where
  "Min_list [] = 0"
| "Min_list [x] = x"
| "Min_list (x # y # ys) = min x (Min_list (y # ys))"

fun Max_list :: "real list \<Rightarrow> real" where
  "Max_list [] = 0"
| "Max_list [x] = x"
| "Max_list (x # y # ys) = max x (Max_list (y # ys))"

definition supportOf :: "ProductionChangeSet list \<Rightarrow> string list \<Rightarrow> ProductionChangeSet list" where
  "supportOf changeSets files = filter (\<lambda>c. containsAll (ps_files c) files) changeSets"

definition closureOf :: "ProductionChangeSet list \<Rightarrow> string list" where
  "closureOf support = (case support of [] \<Rightarrow> []
     | c # cs \<Rightarrow> foldl (\<lambda>shared c. intersect shared (ps_files c)) (ps_files c) cs)"

definition candidate_record ::
  "ProductionChangeSet list \<Rightarrow> FactByPath \<Rightarrow> string list \<Rightarrow> ProductionChangeSet list \<Rightarrow> CochangeSetCandidate" where
  "candidate_record changeSets facts files support =
     (let occurrences = fileOccurrences changeSets;
          related = map (\<lambda>file. map_get facts file) files
      in \<lparr>cc_files = files, cc_occurrences = length support,
          cc_minimumMemberCoverage =
            Min_list (map (\<lambda>file. length support / or_default (map_get occurrences file) 1) files),
          cc_averageBatchSize = sum_list (map (\<lambda>c. real (length (ps_files c))) support) / length support,
          cc_currentInternalImportCount =
            sum_list (map (\<lambda>f. length (filter (\<lambda>target. target \<in> set files) (normalizedImports f))) related),
          cc_currentImportComponents = importComponents files facts,
          cc_actionSummary = actionSummary support files,
          cc_historyEntries = map ps_id (take 3 support),
          cc_supportingCommits = map ps_id support,
          cc_maxInDegree = foldl max 0 (map (\<lambda>f. case f of None \<Rightarrow> 0 | Some f \<Rightarrow> ef_inDegree f) related),
          cc_maxAlphaStruct = Max_list (map (\<lambda>f. case f of None \<Rightarrow> 0 | Some f \<Rightarrow> ef_alphaStruct f) related)\<rparr>)"

definition candidateOf ::
  "ProductionChangeSet list \<Rightarrow> FactByPath \<Rightarrow> ClosedCochangeOptions \<Rightarrow> string \<times> string list \<Rightarrow> CochangeSetCandidate option" where
  "candidateOf changeSets facts options entry = (case entry of (key, files) \<Rightarrow>
     if length files < co_minimumSetSize options
        \<or> (case co_requiredFile options of None \<Rightarrow> False | Some f \<Rightarrow> f \<noteq> [] \<and> f \<notin> set files) then None
     else let support = supportOf changeSets files
       in if length support < co_minimumSupport options then None
          else if setKey (closureOf support) \<noteq> key then None
          else Some (candidate_record changeSets facts files support))"

definition candidate_order :: "string cmp \<Rightarrow> CochangeSetCandidate cmp" where
  "candidate_order lc =
     or_cmp (key_cmp_desc cc_minimumMemberCoverage)
      (or_cmp (key_cmp_desc compactness)
       (or_cmp (key_cmp_desc (\<lambda>c. real (cc_occurrences c)))
        (or_cmp (key_cmp_desc cc_maxAlphaStruct)
          (on_key lc (\<lambda>c. join_with [NUL] (cc_files c))))))"

definition budget_reason :: string where
  "budget_reason = ''closed co-change enumeration exceeded its bounded budget ('' @ show_nat MAX_INTERSECTION_SETS
     @ '' sets / '' @ show_nat MAX_INTERSECTION_OPERATIONS @ '' intersections)''"

definition buildClosedCochangeAnalysis ::
  "string cmp \<Rightarrow> ProductionChangeSet list \<Rightarrow> FactByPath \<Rightarrow> ClosedCochangeOptions
     \<Rightarrow> CochangeSetCandidate CochangeSetAnalysis" where
  "buildClosedCochangeAnalysis lc changeSets facts options =
     (case seed_itemsets changeSets of (itemsets, queue) \<Rightarrow>
        case enumerate (co_minimumSetSize options) changeSets queue itemsets 0 of
          None \<Rightarrow> CochangeUnavailable budget_reason
        | Some itemsets \<Rightarrow>
            CochangeAvailable (js_sort (candidate_order lc)
              (paretoFront (present (map (candidateOf changeSets facts options) itemsets)))))"

definition buildCochangeSetAnalysis ::
  "string cmp \<Rightarrow> EvolutionHistory \<Rightarrow> FactByPath \<Rightarrow> CochangeSetCandidate CochangeSetAnalysis" where
  "buildCochangeSetAnalysis lc history facts =
     buildClosedCochangeAnalysis lc (eh_changeSets history) facts
       \<lparr>co_minimumSetSize = MIN_SET_SIZE, co_minimumSupport = MIN_SUPPORT, co_requiredFile = None\<rparr>"


section \<open>The enumeration is complete\<close>

text \<open>The file lists of the production view: sorted, without repetition, of names without the separator.\<close>

definition canonical :: "string list \<Rightarrow> bool" where
  "canonical fs = (sorted fs \<and> distinct fs \<and> fs \<noteq> [] \<and> list_all (\<lambda>f. NUL \<notin> set f) fs)"

lemma setKey_canonical: "canonical fs \<Longrightarrow> canonical gs \<Longrightarrow> setKey fs = setKey gs \<longleftrightarrow> fs = gs"
  using join_inj [of fs gs NUL] by (auto simp: canonical_def setKey_def sorted_sort_id list_all_iff)

lemma canonical_ext: "canonical fs \<Longrightarrow> canonical gs \<Longrightarrow> set fs = set gs \<Longrightarrow> fs = gs"
  by (simp add: canonical_def sorted_distinct_set_unique)

lemma set_intersect [simp]: "set (intersect a b) = set a \<inter> set b"
  by (auto simp: intersect_def)

lemma length_intersect_le: "length (intersect a b) \<le> length a"
  by (simp add: intersect_def)

lemma canonical_intersect: "canonical a \<Longrightarrow> intersect a b \<noteq> [] \<Longrightarrow> canonical (intersect a b)"
  by (auto simp: canonical_def intersect_def list_all_iff sorted_filter [where f = "\<lambda>x. x", simplified])

definition keyed :: "itemsets \<Rightarrow> bool" where
  "keyed i = (\<forall>(k, v) \<in> set i. k = setKey v \<and> canonical v)"

definition vals :: "itemsets \<Rightarrow> string list set" where
  "vals i = snd ` set i"

lemma keyed_has: "keyed i \<Longrightarrow> canonical v \<Longrightarrow> setKey v \<in> fst ` set i \<longleftrightarrow> v \<in> vals i"
  unfolding keyed_def vals_def by (force simp: setKey_canonical)

lemma keyed_set: "keyed i \<Longrightarrow> canonical v \<Longrightarrow> setKey v \<notin> fst ` set i \<Longrightarrow>
    keyed (map_set i (setKey v) v) \<and> vals (map_set i (setKey v) v) = insert v (vals i)"
  by (auto simp: keyed_def vals_def map_set_new)

lemma keyed_Nil [simp]: "keyed []" "vals [] = {}"
  by (simp_all add: keyed_def vals_def)

lemma keyed_mem: "keyed i \<Longrightarrow> (k, v) \<in> set i \<longleftrightarrow> k = setKey v \<and> v \<in> vals i"
  unfolding keyed_def vals_def by force

lemma close_with_spec:
  assumes "close_with n x cs i q ops = Some (i', q', ops')" "keyed i" "canonical x" "0 < n"
  shows "keyed i' \<and> vals i \<subseteq> vals i' \<and> set q' = set q \<union> (vals i' - vals i)
    \<and> (\<forall>c \<in> set cs. n \<le> length (intersect x (ps_files c)) \<longrightarrow> intersect x (ps_files c) \<in> vals i')
    \<and> (\<forall>v \<in> vals i' - vals i. \<exists>c \<in> set cs. v = intersect x (ps_files c) \<and> n \<le> length v)"
  using assms
proof (induction n x cs i q ops rule: close_with.induct)
  case (2 n x c cs i q ops)
  let ?y = "intersect x (ps_files c)"
  have cont: "\<not> (Suc ops > MAX_INTERSECTION_OPERATIONS \<or> length i \<ge> MAX_INTERSECTION_SETS)"
    using "2.prems"(1) by (auto split: if_splits)
  show ?case
  proof (cases "length ?y < n \<or> map_has i (setKey ?y)")
    case True
    then have "close_with n x cs i q (Suc ops) = Some (i', q', ops')" using "2.prems"(1) cont by (simp add: Let_def)
    from "2.IH"(1) [OF cont refl True this "2.prems"(2-4)]
    have IH: "keyed i' \<and> vals i \<subseteq> vals i' \<and> set q' = set q \<union> (vals i' - vals i)
      \<and> (\<forall>c \<in> set cs. n \<le> length (intersect x (ps_files c)) \<longrightarrow> intersect x (ps_files c) \<in> vals i')
      \<and> (\<forall>v \<in> vals i' - vals i. \<exists>c \<in> set cs. v = intersect x (ps_files c) \<and> n \<le> length v)" .
    have "?y \<in> vals i" if "n \<le> length ?y"
    proof -
      from that "2.prems"(4) have "canonical ?y" by (intro canonical_intersect "2.prems"(3)) auto
      then show ?thesis using True that keyed_has [OF "2.prems"(2)] by auto
    qed
    with IH show ?thesis by auto
  next
    case False
    then have step: "close_with n x cs (map_set i (setKey ?y) ?y) (q @ [?y]) (Suc ops) = Some (i', q', ops')"
      using "2.prems"(1) cont by (simp add: Let_def)
    have can: "canonical ?y" using False "2.prems"(3,4) by (intro canonical_intersect) auto
    have new: "setKey ?y \<notin> fst ` set i" "?y \<notin> vals i" using False keyed_has [OF "2.prems"(2) can] by auto
    note set = keyed_set [OF "2.prems"(2) can new(1)]
    have IH: "keyed i' \<and> insert ?y (vals i) \<subseteq> vals i' \<and> set q' = set (q @ [?y]) \<union> (vals i' - insert ?y (vals i))
      \<and> (\<forall>c \<in> set cs. n \<le> length (intersect x (ps_files c)) \<longrightarrow> intersect x (ps_files c) \<in> vals i')
      \<and> (\<forall>v \<in> vals i' - insert ?y (vals i). \<exists>c \<in> set cs. v = intersect x (ps_files c) \<and> n \<le> length v)"
      using "2.IH"(2) [OF cont refl False step] set "2.prems"(3,4) by simp
    then show ?thesis using new False by auto
  qed
qed auto

lemma enumerate_spec:
  assumes "enumerate n cs q i ops = Some i'" "keyed i" "0 < n" "set q \<subseteq> vals i"
    and "\<forall>v \<in> vals i - set q. \<forall>c \<in> set cs. n \<le> length (intersect v (ps_files c)) \<longrightarrow> intersect v (ps_files c) \<in> vals i"
  shows "keyed i' \<and> vals i \<subseteq> vals i'
    \<and> (\<forall>v \<in> vals i'. \<forall>c \<in> set cs. n \<le> length (intersect v (ps_files c)) \<longrightarrow> intersect v (ps_files c) \<in> vals i')"
  using assms
proof (induction n cs q i ops rule: enumerate.induct)
  case (2 n cs x q i ops)
  obtain i1 q1 ops1 where close: "close_with n x cs i q ops = Some (i1, q1, ops1)"
    using "2.prems"(1) by (cases "close_with n x cs i q ops") auto
  have x: "canonical x" using "2.prems"(2,4) unfolding keyed_def vals_def by auto
  note spec = close_with_spec [OF close "2.prems"(2) x "2.prems"(3)]
  have next_closed: "n \<le> length (intersect v (ps_files c)) \<longrightarrow> intersect v (ps_files c) \<in> vals i1"
    if "v \<in> vals i1 - set q1" "c \<in> set cs" for v c
  proof -
    from that(1) spec have "v \<in> vals i" "v \<notin> set q" by auto
    then show ?thesis using spec "2.prems"(5) that(2) by (cases "v = x") auto
  qed
  have "enumerate n cs q1 i1 ops1 = Some i'" using "2.prems"(1) close by simp
  then have "keyed i' \<and> vals i1 \<subseteq> vals i'
    \<and> (\<forall>v \<in> vals i'. \<forall>c \<in> set cs. n \<le> length (intersect v (ps_files c)) \<longrightarrow> intersect v (ps_files c) \<in> vals i')"
    using "2.IH" [OF close refl refl] spec "2.prems"(3,4) next_closed by auto
  with spec show ?case by blast
qed auto

lemma seed_spec:
  assumes "\<forall>c \<in> set cs. canonical (ps_files c)" "keyed i" "set q = vals i"
  shows "keyed (fst (foldl seed_step (i, q) cs))
    \<and> vals (fst (foldl seed_step (i, q) cs)) = vals i \<union> ps_files ` set cs
    \<and> set (snd (foldl seed_step (i, q) cs)) = vals i \<union> ps_files ` set cs"
  using assms
proof (induction cs arbitrary: i q)
  case (Cons c cs)
  have can: "canonical (ps_files c)" using Cons.prems(1) by simp
  show ?case
  proof (cases "setKey (ps_files c) \<in> fst ` set i")
    case True
    then have "ps_files c \<in> vals i" using keyed_has [OF Cons.prems(2) can] by simp
    with True Cons show ?thesis by (auto simp: seed_step_def)
  next
    case False
    note set = keyed_set [OF Cons.prems(2) can False]
    have "seed_step (i, q) c = (map_set i (setKey (ps_files c)) (ps_files c), q @ [ps_files c])"
      using False by (simp add: seed_step_def)
    then show ?thesis
      using Cons.IH [of "map_set i (setKey (ps_files c)) (ps_files c)" "q @ [ps_files c]"] Cons.prems set by auto
  qed
qed simp

text \<open>An intersection of change sets that keeps the minimum size is one of the item sets.\<close>

definition enumerated :: "nat \<Rightarrow> ProductionChangeSet list \<Rightarrow> itemsets option" where
  "enumerated n cs = enumerate n cs (snd (seed_itemsets cs)) (fst (seed_itemsets cs)) 0"

lemma enumerated_intersections:
  assumes run: "enumerated n cs = Some i" and n: "0 < n"
    and can: "\<forall>c \<in> set cs. canonical (ps_files c)"
    and part: "set support \<subseteq> set cs" "support \<noteq> []"
    and big: "n \<le> length (closureOf support)"
  shows "closureOf support \<in> vals i \<and> keyed i"
proof -
  note seed = seed_spec [OF can, of "[]" "[]", simplified, folded seed_itemsets_def]
  have spec: "keyed i \<and> vals (fst (seed_itemsets cs)) \<subseteq> vals i
    \<and> (\<forall>v \<in> vals i. \<forall>c \<in> set cs. n \<le> length (intersect v (ps_files c)) \<longrightarrow> intersect v (ps_files c) \<in> vals i)"
    using seed by (intro enumerate_spec [OF run [unfolded enumerated_def] _ n]) auto
  obtain c ds where support: "support = c # ds" using part(2) by (cases support) auto
  have "foldl (\<lambda>shared c. intersect shared (ps_files c)) (ps_files c) ds \<in> vals i"
    using big part(1) unfolding support closureOf_def list.case
  proof (induction ds rule: rev_induct)
    case Nil
    then show ?case using spec seed by auto
  next
    case (snoc d ds)
    let ?v = "foldl (\<lambda>shared c. intersect shared (ps_files c)) (ps_files c) ds"
    have "length (intersect ?v (ps_files d)) \<le> length ?v" by (rule length_intersect_le)
    with snoc have "?v \<in> vals i" by simp
    with snoc.prems spec show ?case by simp
  qed
  with spec show ?thesis by (simp add: support closureOf_def)
qed


section \<open>Closed sets and the Pareto front\<close>

lemma containsAll_iff [simp]: "containsAll a b \<longleftrightarrow> set b \<subseteq> set a"
  by (auto simp: containsAll_def list_all_iff)

lemma set_supportOf: "c \<in> set (supportOf cs files) \<longleftrightarrow> c \<in> set cs \<and> set files \<subseteq> set (ps_files c)"
  by (auto simp: supportOf_def)

lemma set_closureOf: "support \<noteq> [] \<Longrightarrow> set (closureOf support) = (\<Inter>c \<in> set support. set (ps_files c))"
proof -
  have "set (foldl (\<lambda>shared c. intersect shared (ps_files c)) fs cs) = set fs \<inter> (\<Inter>c \<in> set cs. set (ps_files c))"
    for fs and cs :: "ProductionChangeSet list"
    by (induction cs arbitrary: fs) auto
  then show "support \<noteq> [] \<Longrightarrow> ?thesis" by (cases support) (auto simp: closureOf_def)
qed

lemma canonical_closureOf:
  assumes "\<forall>c \<in> set support. canonical (ps_files c)" "closureOf support \<noteq> []"
  shows "canonical (closureOf support)"
proof -
  have "canonical (foldl (\<lambda>shared c. intersect shared (ps_files c)) fs cs)"
    if "canonical fs" "foldl (\<lambda>shared c. intersect shared (ps_files c)) fs cs \<noteq> []"
    for fs and cs :: "ProductionChangeSet list"
    using that
  proof (induction cs rule: rev_induct)
    case (snoc c cs)
    let ?v = "foldl (\<lambda>shared c. intersect shared (ps_files c)) fs cs"
    have "?v \<noteq> []" using snoc.prems(2) by (auto simp: intersect_def)
    then show ?case using snoc canonical_intersect by simp
  qed simp
  then show ?thesis using assms by (cases support) (auto simp: closureOf_def)
qed

text \<open>What the analysis calls a closed repeated set of files.\<close>

definition closed_set :: "ProductionChangeSet list \<Rightarrow> ClosedCochangeOptions \<Rightarrow> string list \<Rightarrow> bool" where
  "closed_set cs options files =
     (canonical files \<and> co_minimumSetSize options \<le> length files
      \<and> co_minimumSupport options \<le> length (supportOf cs files)
      \<and> (\<forall>f. co_requiredFile options = Some f \<longrightarrow> f = [] \<or> f \<in> set files)
      \<and> set files = (\<Inter>c \<in> set (supportOf cs files). set (ps_files c)))"

lemma candidate_closed_iff:
  assumes i: "keyed i" and fv: "(key, files) \<in> set i" and support: "0 < co_minimumSupport options" and n: "0 < co_minimumSetSize options"
    and can: "\<forall>c \<in> set cs. canonical (ps_files c)"
  shows "candidateOf cs facts options (key, files) =
    only_if (closed_set cs options files) (candidate_record cs facts files (supportOf cs files))"
proof -
  have files: "canonical files" "key = setKey files" using i fv unfolding keyed_def by auto
  let ?s = "supportOf cs files"
  have closure: "setKey (closureOf ?s) = setKey files \<longleftrightarrow> set files = (\<Inter>c \<in> set ?s. set (ps_files c))"
    if "co_minimumSupport options \<le> length ?s" "co_minimumSetSize options \<le> length files"
  proof -
    have ne: "?s \<noteq> []" using that support by auto
    have "set files \<subseteq> set (closureOf ?s)" using set_closureOf [OF ne] by (auto simp: set_supportOf)
    moreover have "set files \<noteq> {}" using that(2) n by auto
    ultimately have "closureOf ?s \<noteq> []" by auto
    then have "canonical (closureOf ?s)" using can by (intro canonical_closureOf) (auto simp: set_supportOf)
    then show ?thesis
      using setKey_canonical [OF _ files(1)] canonical_ext [OF _ files(1)] set_closureOf [OF ne] by metis
  qed
  show ?thesis
    using closure files by (auto simp: candidateOf_def Let_def closed_set_def only_if_def not_less split: option.splits)
qed

lemma candidates_exact:
  assumes run: "enumerated (co_minimumSetSize options) cs = Some i"
    and support: "0 < co_minimumSupport options" and n: "0 < co_minimumSetSize options"
    and can: "\<forall>c \<in> set cs. canonical (ps_files c)"
  shows "set (present (map (candidateOf cs facts options) i))
    = {candidate_record cs facts files (supportOf cs files) | files. closed_set cs options files}"
proof -
  have i: "keyed i"
    using enumerate_spec [OF run [unfolded enumerated_def] _ n] seed_spec [OF can, of "[]" "[]", folded seed_itemsets_def] by simp
  have cand: "candidateOf cs facts options (key, files) =
      only_if (closed_set cs options files) (candidate_record cs facts files (supportOf cs files))"
    if "(key, files) \<in> set i" for key files
    using candidate_closed_iff [OF i that support n can] .
  have mem: "(setKey files, files) \<in> set i" if closed: "closed_set cs options files" for files
  proof -
    let ?s = "supportOf cs files"
    have ne: "?s \<noteq> []" using closed support by (auto simp: closed_set_def)
    have eq: "set (closureOf ?s) = set files" using closed set_closureOf [OF ne] by (simp add: closed_set_def)
    have "files \<noteq> []" using closed by (simp add: closed_set_def canonical_def)
    with eq have "canonical (closureOf ?s)" using can by (intro canonical_closureOf) (auto simp: set_supportOf)
    then have same: "closureOf ?s = files" using eq closed by (auto simp: closed_set_def intro: canonical_ext)
    have "set ?s \<subseteq> set cs" by (auto simp: set_supportOf)
    with enumerated_intersections [OF run n can _ ne] closed same have "files \<in> vals i"
      by (auto simp: closed_set_def)
    then show ?thesis using keyed_mem [OF i] by simp
  qed
  show ?thesis
  proof (intro set_eqI iffI)
    fix x assume "x \<in> set (present (map (candidateOf cs facts options) i))"
    then obtain key files where "(key, files) \<in> set i" "Some x = candidateOf cs facts options (key, files)" by auto
    then show "x \<in> {candidate_record cs facts files (supportOf cs files) | files. closed_set cs options files}"
      using cand by auto
  next
    fix x assume "x \<in> {candidate_record cs facts files (supportOf cs files) | files. closed_set cs options files}"
    then obtain files where files: "closed_set cs options files" "x = candidate_record cs facts files (supportOf cs files)" by blast
    then have "candidateOf cs facts options (setKey files, files) = Some x" using cand [OF mem] by simp
    then show "x \<in> set (present (map (candidateOf cs facts options) i))"
      using mem [OF files(1)] by (force simp del: not_None_eq)
  qed
qed

lemma dominates_irrefl: "\<not> dominates c c"
  by (simp add: dominates_def pareto_values_def)

lemma dominates_trans: "dominates a b \<Longrightarrow> dominates b c \<Longrightarrow> dominates a c"
  by (auto simp: dominates_def pareto_values_def)

lemma set_paretoFront: "set (paretoFront cs) = {c \<in> set cs. \<not> (\<exists>d \<in> set cs. dominates d c)}"
  using dominates_irrefl by (auto simp: paretoFront_def list_ex_iff)

lemma paretoFront_covers:
  assumes "c \<in> set cs"
  shows "c \<in> set (paretoFront cs) \<or> (\<exists>d \<in> set (paretoFront cs). dominates d c)"
  using assms
proof (induction "card {d \<in> set cs. dominates d c}" arbitrary: c rule: less_induct)
  case less
  show ?case
  proof (cases "\<exists>d \<in> set cs. dominates d c")
    case True
    then obtain d where d: "d \<in> set cs" "dominates d c" by blast
    have "{e \<in> set cs. dominates e d} \<subset> {e \<in> set cs. dominates e c}"
      using d dominates_trans [OF _ d(2)] dominates_irrefl [of d] by auto
    then have "card {e \<in> set cs. dominates e d} < card {e \<in> set cs. dominates e c}"
      by (intro psubset_card_mono) auto
    from less.hyps [OF this d(1)] show ?thesis using d(2) dominates_trans by blast
  next
    case False
    then show ?thesis using less.prems by (auto simp: set_paretoFront)
  qed
qed

text \<open>The report holds closed sets only, and every closed set or one that dominates it.\<close>

lemma reported_closed_sets:
  assumes run: "buildClosedCochangeAnalysis lc cs facts options = CochangeAvailable reported"
    and opts: "0 < co_minimumSupport options" "0 < co_minimumSetSize options"
    and can: "\<forall>c \<in> set cs. canonical (ps_files c)"
  shows "(\<forall>c \<in> set reported. closed_set cs options (cc_files c))
    \<and> (\<forall>files. closed_set cs options files \<longrightarrow>
          (\<exists>c \<in> set reported. cc_files c = files \<or> dominates c (candidate_record cs facts files (supportOf cs files))))"
proof -
  obtain i where i: "enumerated (co_minimumSetSize options) cs = Some i"
    and reported: "set reported = set (paretoFront (present (map (candidateOf cs facts options) i)))"
    using run by (auto simp: buildClosedCochangeAnalysis_def enumerated_def split: prod.splits option.splits)
  note exact = candidates_exact [OF i opts can, of facts]
  have files: "cc_files (candidate_record cs facts fs s) = fs" for fs s
    by (simp add: candidate_record_def Let_def)
  have "closed_set cs options (cc_files c)" if "c \<in> set reported" for c
    using that exact files unfolding reported set_paretoFront by force
  moreover have "\<exists>c \<in> set reported. cc_files c = fs \<or> dominates c (candidate_record cs facts fs (supportOf cs fs))"
    if "closed_set cs options fs" for fs
  proof -
    have "candidate_record cs facts fs (supportOf cs fs) \<in> set (present (map (candidateOf cs facts options) i))"
      unfolding exact using that by blast
    from paretoFront_covers [OF this] show ?thesis unfolding reported using files by blast
  qed
  ultimately show ?thesis by blast
qed


section \<open>The import components of a set\<close>

lemma push_new_spec:
  "set (fst (foldl push_new (v, st) ns)) = set v \<union> set ns
   \<and> set (snd (foldl push_new (v, st) ns)) = set st \<union> (set ns - set v)"
  by (induction ns arbitrary: v st) (auto simp: push_new_def)

lemma component_self [simp]: "a \<in> component adj a"
  by (simp add: component_def)

lemma component_step_sub: "b \<in> set (neighbors adj a) \<Longrightarrow> component adj b \<subseteq> component adj a"
  by (auto simp: component_def adj_rel_def intro: converse_rtrancl_into_rtrancl)

lemma walk_spec:
  assumes "\<forall>n \<in> set visited - set stack. set (neighbors adj n) \<subseteq> set visited"
  shows "set visited \<subseteq> set (walk adj visited stack)
    \<and> set (walk adj visited stack) \<subseteq> set visited \<union> (\<Union>a \<in> set stack. component adj a)
    \<and> adj_closed adj (set (walk adj visited stack))"
  using assms
proof (induction adj visited stack rule: walk.induct)
  case (1 adj visited)
  then show ?case by (simp add: adj_closed_def)
next
  case (2 adj visited current rest)
  let ?ns = "neighbors adj current"
  let ?p = "foldl push_new (visited, rest) ?ns"
  have p: "set (fst ?p) = set visited \<union> set ?ns" "set (snd ?p) = set rest \<union> (set ?ns - set visited)"
    using push_new_spec [of visited rest ?ns] by blast+
  have "\<forall>n \<in> set (fst ?p) - set (snd ?p). set (neighbors adj n) \<subseteq> set (fst ?p)"
    using "2.prems" unfolding p by auto
  from "2.IH" [OF this]
  have IH: "set (fst ?p) \<subseteq> set (walk adj visited (current # rest))"
    "set (walk adj visited (current # rest)) \<subseteq> set (fst ?p) \<union> (\<Union>a \<in> set (snd ?p). component adj a)"
    "adj_closed adj (set (walk adj visited (current # rest)))" by simp_all
  have "component adj n \<subseteq> component adj current" if "n \<in> set ?ns" for n
    using that by (rule component_step_sub)
  moreover have "set ?ns \<subseteq> component adj current"
    using component_step_sub component_self by fast
  ultimately have sub: "set (fst ?p) \<union> (\<Union>a \<in> set (snd ?p). component adj a)
      \<subseteq> set visited \<union> (\<Union>a \<in> set (current # rest). component adj a)"
    unfolding p by auto
  have "set visited \<subseteq> set (walk adj visited (current # rest))"
    using IH(1) unfolding p by (rule le_supE)
  with subset_trans [OF IH(2) sub] IH(3) show ?case by (intro conjI)
qed

lemma walk_component:
  assumes "adj_closed adj (set visited)"
  shows "set (walk adj (visited @ [a]) [a]) = set visited \<union> component adj a
    \<and> adj_closed adj (set (walk adj (visited @ [a]) [a]))"
proof -
  have "\<forall>n \<in> set (visited @ [a]) - set [a]. set (neighbors adj n) \<subseteq> set (visited @ [a])"
    using assms by (auto simp: adj_closed_def)
  from walk_spec [OF this] have w: "set visited \<union> {a} \<subseteq> set (walk adj (visited @ [a]) [a])"
    "set (walk adj (visited @ [a]) [a]) \<subseteq> set visited \<union> {a} \<union> component adj a"
    "adj_closed adj (set (walk adj (visited @ [a]) [a]))" by simp_all
  then have "component adj a \<subseteq> set (walk adj (visited @ [a]) [a])"
    by (intro closed_contains_component) auto
  with w show ?thesis by auto
qed

lemma component_steps:
  assumes "symmetric_adj adj" "adj_closed adj (set v)" "set v = (\<Union>f \<in> done. component adj f)" "finite done"
    "n = card (component adj ` done)"
  shows "snd (foldl (component_step adj) (v, n) files) = card (component adj ` (done \<union> set files))"
  using assms(2-5)
proof (induction files arbitrary: v n "done")
  case (Cons f files)
  have mem: "f \<in> set v \<longleftrightarrow> component adj f \<in> component adj ` done"
  proof
    assume "f \<in> set v"
    then obtain g where "g \<in> done" "f \<in> component adj g" using Cons.prems(2) by blast
    then show "component adj f \<in> component adj ` done" using component_sym [OF assms(1)] by blast
  next
    assume "component adj f \<in> component adj ` done"
    then show "f \<in> set v" using Cons.prems(2) component_self by blast
  qed
  show ?case
  proof (cases "f \<in> set v")
    case True
    then have image: "component adj ` insert f done = component adj ` done" using mem by auto
    then have "set v = (\<Union>g \<in> insert f done. component adj g)" using Cons.prems(2) by auto
    from Cons.IH [OF Cons.prems(1) this, of n] image Cons.prems(3,4) show ?thesis
      using True by (simp add: component_step_def)
  next
    case False
    let ?w = "walk adj (v @ [f]) [f]"
    have "set ?w = (\<Union>g \<in> insert f done. component adj g)" "adj_closed adj (set ?w)"
      using walk_component [OF Cons.prems(1), of f] Cons.prems(2) by (metis UN_insert Un_commute)+
    moreover have "Suc n = card (component adj ` insert f done)"
      using False mem Cons.prems(3,4) by simp
    ultimately have "snd (foldl (component_step adj) (?w, Suc n) files)
        = card (component adj ` (insert f done \<union> set files))"
      using Cons.prems(3) by (intro Cons.IH) auto
    moreover have "component_step adj (v, n) f = (?w, Suc n)" using False by (simp add: component_step_def)
    ultimately show ?thesis by (simp del: walk.simps)
  qed
qed simp

text \<open>Two files of a set are adjacent when one imports the other.\<close>

definition imports_within :: "string list \<Rightarrow> FactByPath \<Rightarrow> string \<Rightarrow> string \<Rightarrow> bool" where
  "imports_within files facts a b =
     (a \<in> set files \<and> b \<in> set files \<and> b \<in> set (normalizedImports (map_get facts a)))"

lemma add_neighbor_neighbors [simp]:
  "b \<in> set (neighbors (add_neighbor adj x y) a) \<longleftrightarrow> b \<in> set (neighbors adj a) \<or> (a = x \<and> b = y)"
  by (auto simp: add_neighbor_def)

lemma set_adjacency_neighbors:
  "b \<in> set (neighbors (set_adjacency files facts) a) \<longleftrightarrow> imports_within files facts a b \<or> imports_within files facts b a"
proof -
  let ?add = "\<lambda>src adj target. if target \<in> set files then add_neighbor (add_neighbor adj src target) target src else adj"
  have init: "neighbors (foldl (\<lambda>m src. map_set m src []) m fs) a = (if a \<in> set fs then [] else neighbors m a)"
    for m and fs :: "string list"
    by (induction fs arbitrary: m) auto
  have none: "neighbors (foldl (\<lambda>m src. map_set m src []) [] files) a = []"
    using init [of "[]" files] by (simp add: neighbors_def)
  have inner: "b \<in> set (neighbors (foldl (?add src) adj ts) a) \<longleftrightarrow> b \<in> set (neighbors adj a)
      \<or> (\<exists>t \<in> set ts. t \<in> set files \<and> (a = src \<and> b = t \<or> a = t \<and> b = src))" for adj src ts
    by (induction ts arbitrary: adj) auto
  have "b \<in> set (neighbors (foldl (\<lambda>adj src. foldl (?add src) adj (normalizedImports (map_get facts src))) adj fs) a)
      \<longleftrightarrow> b \<in> set (neighbors adj a) \<or> (\<exists>f \<in> set fs. \<exists>t \<in> set (normalizedImports (map_get facts f)).
          t \<in> set files \<and> (a = f \<and> b = t \<or> a = t \<and> b = f))" for adj fs
    by (induction fs arbitrary: adj) (auto simp: inner)
  from this [of "foldl (\<lambda>m src. map_set m src []) [] files" files] show ?thesis
    unfolding set_adjacency_def by (auto simp: none imports_within_def)
qed

lemma importComponents_count:
  "importComponents files facts = card (component (set_adjacency files facts) ` set files)"
proof -
  have "symmetric_adj (set_adjacency files facts)"
    by (auto simp: symmetric_adj_def set_adjacency_neighbors)
  from component_steps [OF this, of "[]" "{}" 0 files] show ?thesis
    by (simp add: importComponents_def adj_closed_def)
qed


section \<open>What the production view holds\<close>

lemma foldl_set_add: "set (foldl (\<lambda>u file. set_add file u) u fs) = set u \<union> set fs"
  by (induction fs arbitrary: u) auto

lemma distinct_set_add [simp]: "distinct u \<Longrightarrow> distinct (set_add x u)"
  by (simp add: set_add_def)

lemma distinct_foldl_set_add: "distinct u \<Longrightarrow> distinct (foldl (\<lambda>u file. set_add file u) u fs)"
  by (induction fs arbitrary: u) auto

definition known_production :: "FactByPath \<Rightarrow> string \<Rightarrow> bool" where
  "known_production facts path =
     (\<exists>f. map_get facts path = Some f \<and> participatesInPopulation (ef_fileKind f) pop_production)"

lemma productionFiles_fst:
  "fst (productionFiles changeSet facts u) = fst (productionFiles changeSet facts [])"
  by (simp add: productionFiles_def Let_def)

abbreviation production_of :: "FactByPath \<Rightarrow> EvolutionChangeSet \<Rightarrow> string list" where
  "production_of facts changeSet \<equiv> fst (productionFiles changeSet facts [])"

lemma production_of_spec:
  "sorted (production_of facts changeSet)" "distinct (production_of facts changeSet)"
  "set (production_of facts changeSet) = {p \<in> toPosixPath ` set (cs_files changeSet). known_production facts p}"
  by (auto simp: productionFiles_def Let_def known_production_def split: option.splits)

definition changes_of :: "FactByPath \<Rightarrow> EvolutionChangeSet \<Rightarrow> EvolutionFileChange list" where
  "changes_of facts c = normalizedChanges (or_default (cs_changes c) []) (production_of facts c)"

definition bootstrap_set :: "FactByPath \<Rightarrow> EvolutionChangeSet \<Rightarrow> bool" where
  "bootstrap_set facts c = (2 \<le> length (production_of facts c) \<and> changes_of facts c \<noteq> []
     \<and> (\<forall>x \<in> set (changes_of facts c). ch_kind x = ec_added))"

definition eligible_set :: "FactByPath \<Rightarrow> EvolutionChangeSet \<Rightarrow> bool" where
  "eligible_set facts c = (2 \<le> length (production_of facts c) \<and> \<not> bootstrap_set facts c)"

definition production_set :: "FactByPath \<Rightarrow> EvolutionChangeSet \<Rightarrow> ProductionChangeSet" where
  "production_set facts c = \<lparr>ps_id = cs_id c, ps_files = production_of facts c, ps_changes = changes_of facts c\<rparr>"

lemma history_step_cases:
  "hs_unavailable (history_step facts s c) = snd (productionFiles c facts (hs_unavailable s))"
  "hs_bootstrap (history_step facts s c) = hs_bootstrap s + (if bootstrap_set facts c then 1 else 0)"
  "hs_sets (history_step facts s c) = hs_sets s @ (if eligible_set facts c then [production_set facts c] else [])"
  "hs_occurrences (history_step facts s c) =
     (if eligible_set facts c then recordExtensions c (production_of facts c) facts (hs_occurrences s) else hs_occurrences s)"
  using productionFiles_fst [of c facts "hs_unavailable s"]
  by (auto simp: history_step_def Let_def case_prod_beta bootstrap_set_def eligible_set_def production_set_def changes_of_def
      list_all_iff split: prod.splits)

text \<open>Every change set is eligible, a bootstrap or has fewer than two known production files.\<close>

lemma collectEvolutionHistory_sets:
  "eh_changeSets (collectEvolutionHistory changeSets facts)
     = map (production_set facts) (filter (eligible_set facts) changeSets)
   \<and> eh_eligibleChangeSets (collectEvolutionHistory changeSets facts) = length (filter (eligible_set facts) changeSets)
   \<and> eh_bootstrapChangeSetsExcluded (collectEvolutionHistory changeSets facts) = length (filter (bootstrap_set facts) changeSets)
   \<and> eh_unavailableHistoryFiles (collectEvolutionHistory changeSets facts)
     = card {p. (\<exists>c \<in> set changeSets. p \<in> toPosixPath ` set (cs_files c)) \<and> map_get facts p = None}"
proof -
  have "hs_sets (foldl (history_step facts) s cs) = hs_sets s @ map (production_set facts) (filter (eligible_set facts) cs)
    \<and> hs_bootstrap (foldl (history_step facts) s cs) = hs_bootstrap s + length (filter (bootstrap_set facts) cs)" for s cs
    by (induction cs arbitrary: s) (auto simp: history_step_cases)
  note sets = this [of history_start changeSets]
  have un: "set (snd (productionFiles c facts u)) = set u \<union> {p \<in> toPosixPath ` set (cs_files c). map_get facts p = None}"
    "distinct u \<Longrightarrow> distinct (snd (productionFiles c facts u))" for c u
    by (auto simp: productionFiles_def Let_def foldl_set_add distinct_foldl_set_add)
  have "set (hs_unavailable (foldl (history_step facts) s cs))
      = set (hs_unavailable s) \<union> {p. (\<exists>c \<in> set cs. p \<in> toPosixPath ` set (cs_files c)) \<and> map_get facts p = None}
    \<and> (distinct (hs_unavailable s) \<longrightarrow> distinct (hs_unavailable (foldl (history_step facts) s cs)))" for s cs
    by (induction cs arbitrary: s) (auto simp: history_step_cases un)
  from this [of history_start changeSets]
  have "length (hs_unavailable (foldl (history_step facts) history_start changeSets))
      = card {p. (\<exists>c \<in> set changeSets. p \<in> toPosixPath ` set (cs_files c)) \<and> map_get facts p = None}"
    by (metis (no_types, lifting) HistoryScan.select_convs(3) Un_empty_left distinct.simps(1) distinct_card history_start_def list.set(1))
  with sets show ?thesis
    by (simp add: collectEvolutionHistory_def Let_def history_start_def)
qed

text \<open>The pairs of an extension key and a change set that are recorded.\<close>

definition occurrence_pairs :: "(string, string list) jmap \<Rightarrow> (string \<times> string) set" where
  "occurrence_pairs occ = {(k, i). \<exists>ids. map_of occ k = Some ids \<and> i \<in> set ids}"

lemma record_extension_pairs:
  "occurrence_pairs (record_extension i facts c occ m) = occurrence_pairs occ
     \<union> (if m \<in> set (normalizedImports (map_get facts c)) then {(extensionKey c m, i)} else {})"
  by (cases "map_of occ (extensionKey c m)") (auto simp: record_extension_def occurrence_pairs_def split: if_splits)

definition extends_pair :: "FactByPath \<Rightarrow> EvolutionFileChange list \<Rightarrow> string \<Rightarrow> string \<Rightarrow> bool" where
  "extends_pair facts changes coordinator member =
     (coordinator \<in> set (paths_of_kind ec_modified changes) \<and> member \<in> set (paths_of_kind ec_added changes)
      \<and> member \<in> set (normalizedImports (map_get facts coordinator)))"

lemma recordExtensions_pairs:
  "occurrence_pairs (recordExtensions c (production_of facts c) facts occ) = occurrence_pairs occ
     \<union> {(extensionKey co m, cs_id c) | co m. extends_pair facts (changes_of facts c) co m}"
proof (cases "cs_changes c")
  case None
  then show ?thesis
    by (simp add: recordExtensions_def changes_of_def normalizedChanges_def extends_pair_def paths_of_kind_def)
next
  case (Some cs)
  have inner: "occurrence_pairs (foldl (record_extension i facts co) occ ms) = occurrence_pairs occ
      \<union> {(extensionKey co m, i) | m. m \<in> set ms \<and> m \<in> set (normalizedImports (map_get facts co))}" for i co occ ms
    by (induction ms arbitrary: occ) (auto simp: record_extension_pairs)
  have "occurrence_pairs (foldl (\<lambda>occ co. foldl (record_extension i facts co) occ ms) occ cos) = occurrence_pairs occ
      \<union> {(extensionKey co m, i) | co m. co \<in> set cos \<and> m \<in> set ms \<and> m \<in> set (normalizedImports (map_get facts co))}"
    for i ms occ cos
    by (induction cos arbitrary: occ) (auto simp: inner)
  then show ?thesis
    by (auto simp: recordExtensions_def Let_def Some changes_of_def extends_pair_def)
qed

lemma collectEvolutionHistory_extensions:
  "occurrence_pairs (eh_extensionOccurrences (collectEvolutionHistory changeSets facts))
     = {(extensionKey co m, cs_id c) | co m c. c \<in> set changeSets \<and> eligible_set facts c
          \<and> extends_pair facts (changes_of facts c) co m}"
proof -
  have "occurrence_pairs (hs_occurrences (foldl (history_step facts) s cs)) = occurrence_pairs (hs_occurrences s)
      \<union> {(extensionKey co m, cs_id c) | co m c. c \<in> set cs \<and> eligible_set facts c
          \<and> extends_pair facts (changes_of facts c) co m}" for s cs
    by (induction cs arbitrary: s) (auto simp: history_step_cases recordExtensions_pairs)
  from this [of history_start changeSets] show ?thesis
    by (simp add: collectEvolutionHistory_def Let_def history_start_def occurrence_pairs_def)
qed

lemma splitExtension_key:
  "NUL \<notin> set coordinator \<Longrightarrow> NUL \<notin> set member \<Longrightarrow> splitExtension (extensionKey coordinator member) = [coordinator, member]"
  by (simp add: splitExtension_def extensionKey_def split_on_append_sep split_on_no_sep)

section \<open>Properties\<close>

text \<open>C26: When the enumeration stays within its budget, every reported co-change set is closed: it has
  the required support and size, and contains exactly the files that all its supporting commits
  share. Every closed set is reported or dominated by one that is.\<close>

theorem cochange_sets_closed:
  assumes "buildClosedCochangeAnalysis lc cs facts options = CochangeAvailable reported"
    and "0 < co_minimumSupport options" "0 < co_minimumSetSize options"
    and "\<forall>c \<in> set cs. canonical (ps_files c)"
  shows "(\<forall>c \<in> set reported. closed_set cs options (cc_files c))
    \<and> (\<forall>files. closed_set cs options files \<longrightarrow>
          (\<exists>c \<in> set reported. cc_files c = files \<or> dominates c (candidate_record cs facts files (supportOf cs files))))"
  using assms by (rule reported_closed_sets)

definition sample_opts :: ClosedCochangeOptions where
  "sample_opts = \<lparr>co_minimumSetSize = 1, co_minimumSupport = 2, co_requiredFile = None\<rparr>"

definition sample_change_set :: "string \<Rightarrow> string list \<Rightarrow> ProductionChangeSet" where
  "sample_change_set i fs = \<lparr>ps_id = i, ps_files = fs, ps_changes = []\<rparr>"

definition sample_history :: "ProductionChangeSet list" where
  "sample_history = [sample_change_set ''1'' [''a'', ''b''], sample_change_set ''2'' [''a'']]"

lemma sample_enumeration:
  "case_prod (\<lambda>i q. enumerate 1 sample_history q i 0) (seed_itemsets sample_history)
     = Some [(setKey [''a'', ''b''], [''a'', ''b'']), (setKey [''a''], [''a''])]"
proof -
  have "setKey [''a''] = ''a''" "setKey [''a'', ''b''] = [CHR ''a'', NUL, CHR ''b'']"
    by (simp_all add: setKey_def less_eq_char_def less_char_def)
  moreover have "NUL \<noteq> CHR ''b''" by (simp add: NUL_def)
  ultimately show ?thesis
    by (simp add: sample_history_def sample_change_set_def seed_itemsets_def seed_step_def map_set_def intersect_def
        MAX_INTERSECTION_OPERATIONS_def MAX_INTERSECTION_SETS_def Let_def)
qed

theorem cochange_sets_closed_witness:
  "\<exists>reported. buildClosedCochangeAnalysis code_unit_cmp sample_history [] sample_opts = CochangeAvailable reported \<and> reported \<noteq> []"
proof -
  obtain reported where r: "buildClosedCochangeAnalysis code_unit_cmp sample_history [] sample_opts = CochangeAvailable reported"
    using sample_enumeration by (auto simp: buildClosedCochangeAnalysis_def sample_opts_def split: prod.splits)
  have "\<forall>c \<in> set sample_history. canonical (ps_files c)"
    by (simp add: sample_history_def sample_change_set_def canonical_def NUL_def less_eq_char_def less_char_def)
  note closed = cochange_sets_closed [OF r _ _ this]
  have "closed_set sample_history sample_opts [''a'']"
    by (simp add: closed_set_def canonical_def NUL_def sample_opts_def supportOf_def containsAll_def sample_history_def sample_change_set_def)
  with closed have "reported \<noteq> []" by (auto simp: sample_opts_def)
  with r show ?thesis by blast
qed

text \<open>The number of import components of a set of files is the number of connected components
  of their import graph, and the production view of a history keeps exactly the eligible commits.\<close>

theorem history_and_components:
  "importComponents files facts = card (component (set_adjacency files facts) ` set files)
   \<and> eh_changeSets (collectEvolutionHistory changeSets facts) = map (production_set facts) (filter (eligible_set facts) changeSets)
   \<and> eh_bootstrapChangeSetsExcluded (collectEvolutionHistory changeSets facts) = length (filter (bootstrap_set facts) changeSets)"
  using importComponents_count collectEvolutionHistory_sets by blast

end
