(* ===== verification/Evolution_Signals.thy ===== *)
theory Evolution_Signals
  imports Evolution_History
begin

text \<open>
  The coordination and extension-surface signals (\<open>evolutionCoordination.ts\<close>) and the report that
  collects all signals (\<open>evolutionSignals.ts\<close>).
\<close>

section \<open>Coordination candidates\<close>

record CoordinationEvent =
  ce_member :: string
  ce_commitId :: string

record CoordinationCandidate =
  cd_coordinator :: string
  cd_members :: "string list"
  cd_events :: "CoordinationEvent list"
  cd_coordinatorLoc :: nat
  cd_averageMemberLoc :: real
  cd_directImportCount :: nat
  cd_commitCount :: nat
  cd_occurrences :: nat
  cd_historyEntries :: "string list"
  cd_maxInDegree :: nat
  cd_maxAlphaStruct :: real

record ExtensionRelation =
  er_member :: string
  er_historyEntries :: "string list"

definition relation_step ::
  "(string, ExtensionRelation list) jmap \<Rightarrow> string \<times> string list \<Rightarrow> (string, ExtensionRelation list) jmap" where
  "relation_step relations entry = (case splitExtension (fst entry) of
     coordinator # member # _ \<Rightarrow>
       map_set relations coordinator (or_default (map_get relations coordinator) []
         @ [\<lparr>er_member = member, er_historyEntries = snd entry\<rparr>])
   | _ \<Rightarrow> relations)"

definition coordinatorRelations :: "EvolutionHistory \<Rightarrow> (string, ExtensionRelation list) jmap" where
  "coordinatorRelations history = foldl relation_step [] (eh_extensionOccurrences history)"

definition relation_events :: "ExtensionRelation \<Rightarrow> CoordinationEvent list" where
  "relation_events r = map (\<lambda>c. \<lparr>ce_member = er_member r, ce_commitId = c\<rparr>) (er_historyEntries r)"

definition event_order :: "string cmp \<Rightarrow> CoordinationEvent cmp" where
  "event_order lc = or_cmp (on_key lc ce_commitId) (on_key lc ce_member)"

definition fact_inDegree :: "EvolutionFileFact option \<Rightarrow> nat" where
  "fact_inDegree f = (case f of None \<Rightarrow> 0 | Some f \<Rightarrow> ef_inDegree f)"

definition fact_alphaStruct :: "EvolutionFileFact option \<Rightarrow> real" where
  "fact_alphaStruct f = (case f of None \<Rightarrow> 0 | Some f \<Rightarrow> ef_alphaStruct f)"

definition average :: "nat list \<Rightarrow> real" where
  "average ls = (if ls = [] then 0 else real (sum_list ls) / real (length ls))"

definition toCoordinationCandidate ::
  "string cmp \<Rightarrow> string \<Rightarrow> ExtensionRelation list \<Rightarrow> FactByPath \<Rightarrow> CoordinationCandidate" where
  "toCoordinationCandidate lc coordinator relations facts =
     (let events = js_sort (event_order lc) (concat (map relation_events relations));
          members = sorted_uniq (map ce_member events);
          coordinatorFact = map_get facts coordinator;
          memberFacts = map (map_get facts) members;
          memberLocs = present (map (\<lambda>f. Option.bind f ef_loc) memberFacts);
          historyEntries = uniq (map ce_commitId events)
      in \<lparr>cd_coordinator = coordinator, cd_members = members, cd_events = events,
          cd_coordinatorLoc = or_default (Option.bind coordinatorFact ef_loc) 0,
          cd_averageMemberLoc = average memberLocs,
          cd_directImportCount = length (normalizedImports coordinatorFact),
          cd_commitCount = length historyEntries, cd_occurrences = length events,
          cd_historyEntries = take 3 historyEntries,
          cd_maxInDegree = foldl max (fact_inDegree coordinatorFact) (map fact_inDegree memberFacts),
          cd_maxAlphaStruct = foldl max (fact_alphaStruct coordinatorFact) (map fact_alphaStruct memberFacts)\<rparr>)"

definition isCompactCoordination :: "CoordinationCandidate \<Rightarrow> bool" where
  "isCompactCoordination c = (length (cd_members c) \<ge> 2 \<and> cd_commitCount c \<ge> 2 \<and> cd_coordinatorLoc c > 0)"

definition coordination_order :: "string cmp \<Rightarrow> CoordinationCandidate cmp" where
  "coordination_order lc =
     or_cmp (key_cmp_desc (\<lambda>c. real (length (cd_members c))))
      (or_cmp (key_cmp_desc (\<lambda>c. real (cd_occurrences c)))
       (or_cmp (key_cmp_desc cd_maxAlphaStruct) (on_key lc cd_coordinator)))"

definition buildCoordinationCandidates ::
  "string cmp \<Rightarrow> EvolutionHistory \<Rightarrow> FactByPath \<Rightarrow> CoordinationCandidate list" where
  "buildCoordinationCandidates lc history facts =
     js_sort (coordination_order lc) (filter isCompactCoordination
       (map (\<lambda>(coordinator, relations). toCoordinationCandidate lc coordinator relations facts)
         (coordinatorRelations history)))"

section \<open>Extension surfaces\<close>

definition isPublicForwardingOnly :: "EvolutionFileFact option \<Rightarrow> bool" where
  "isPublicForwardingOnly f = (normalizedReexports f \<noteq> [] \<and> normalizedImports f = [])"

definition project_change_set ::
  "string list \<Rightarrow> CoordinationCandidate \<Rightarrow> FactByPath \<Rightarrow> ProductionChangeSet \<Rightarrow> ProductionChangeSet option" where
  "project_change_set extensionCommits candidate facts changeSet =
     (if ps_id changeSet \<notin> set extensionCommits then None
      else
        let changes = filter (\<lambda>c. ch_kind c = ec_modified
              \<and> \<not> isPublicForwardingOnly (map_get facts (ch_path c))) (ps_changes changeSet);
            files = sorted_uniq (map ch_path changes)
        in only_if (cd_coordinator candidate \<in> set files)
             \<lparr>ps_id = ps_id changeSet, ps_files = files, ps_changes = changes\<rparr>)"

definition projectedExtensionChanges ::
  "EvolutionHistory \<Rightarrow> CoordinationCandidate \<Rightarrow> FactByPath \<Rightarrow> ProductionChangeSet list" where
  "projectedExtensionChanges history candidate facts =
     (let extensionCommits = uniq (map ce_commitId (cd_events candidate))
      in present (map (project_change_set extensionCommits candidate facts) (eh_changeSets history)))"

record ExtensionSurfaceCandidate = CochangeSetCandidate +
  sf_coordinator :: string
  sf_extensionMembers :: "string list"
  sf_extensionCommitCount :: nat

datatype SurfaceAvailability = surface_available | surface_partial | surface_unavailable

record ExtensionSurfaceAnalysis =
  sa_availability :: SurfaceAvailability
  sa_candidates :: "ExtensionSurfaceCandidate list"
  sa_reason :: "string option"

definition membersByCommit :: "CoordinationEvent list \<Rightarrow> (string, string list) jmap" where
  "membersByCommit events = foldl (\<lambda>m e.
     map_set m (ce_commitId e) (uniq (or_default (map_get m (ce_commitId e)) [] @ [ce_member e]))) [] events"

definition surface_of ::
  "CoordinationCandidate \<Rightarrow> CochangeSetCandidate \<Rightarrow> ExtensionSurfaceCandidate option" where
  "surface_of candidate surface =
     (let extensionMembers = sorted_uniq (concat (map
            (\<lambda>commit. or_default (map_get (membersByCommit (cd_events candidate)) commit) [])
            (cc_supportingCommits surface)))
      in only_if (\<not> length extensionMembers < 2)
           (CochangeSetCandidate.extend surface (ExtensionSurfaceCandidate.fields (cd_coordinator candidate)
             extensionMembers (length (cc_supportingCommits surface)))))"

definition surface_options :: "CoordinationCandidate \<Rightarrow> ClosedCochangeOptions" where
  "surface_options candidate =
     \<lparr>co_minimumSetSize = 2, co_minimumSupport = 2, co_requiredFile = Some (cd_coordinator candidate)\<rparr>"

definition extensionSurfaceCandidates ::
  "string cmp \<Rightarrow> EvolutionHistory \<Rightarrow> FactByPath \<Rightarrow> CoordinationCandidate \<Rightarrow> ExtensionSurfaceAnalysis" where
  "extensionSurfaceCandidates lc history facts candidate =
     (let projected = projectedExtensionChanges history candidate facts in
      if length projected < 2 then \<lparr>sa_availability = surface_available, sa_candidates = [], sa_reason = None\<rparr>
      else case buildClosedCochangeAnalysis lc projected facts (surface_options candidate) of
        CochangeUnavailable reason \<Rightarrow>
          \<lparr>sa_availability = surface_unavailable, sa_candidates = [], sa_reason = Some reason\<rparr>
      | CochangeAvailable candidates \<Rightarrow>
          \<lparr>sa_availability = surface_available, sa_candidates = present (map (surface_of candidate) candidates),
            sa_reason = None\<rparr>)"

definition buildExtensionSurfaceAnalysis ::
  "string cmp \<Rightarrow> EvolutionHistory \<Rightarrow> FactByPath \<Rightarrow> CoordinationCandidate list \<Rightarrow> ExtensionSurfaceAnalysis" where
  "buildExtensionSurfaceAnalysis lc history facts coordinators =
     (let analyses = map (extensionSurfaceCandidates lc history facts) coordinators;
          unavailable = filter (\<lambda>a. sa_availability a = surface_unavailable) analyses;
          candidates = concat (map sa_candidates analyses)
      in \<lparr>sa_availability = (if unavailable = [] then surface_available
            else if candidates \<noteq> [] then surface_partial else surface_unavailable),
          sa_candidates = candidates,
          sa_reason = only_if (unavailable \<noteq> []) (join_with ''; ''
            (map (\<lambda>a. or_default (sa_reason a) ''projection enumeration unavailable'') unavailable))\<rparr>)"

section \<open>The report\<close>

record EvolutionSignalReport =
  rp_eligibleChangeSets :: nat
  rp_bootstrapChangeSetsExcluded :: nat
  rp_unavailableHistoryFiles :: nat
  rp_coordinationCandidates :: "CoordinationCandidate list"
  rp_extensionSurfaces :: ExtensionSurfaceAnalysis
  rp_cochangeSets :: "CochangeSetCandidate CochangeSetAnalysis"

definition fact_map :: "EvolutionFileFact list \<Rightarrow> FactByPath" where
  "fact_map facts = fromEntries (map (\<lambda>f. (toPosixPath (ef_path f), f)) facts)"

definition analyzeEvolutionSignals ::
  "string cmp \<Rightarrow> EvolutionChangeSet list \<Rightarrow> EvolutionFileFact list \<Rightarrow> EvolutionSignalReport" where
  "analyzeEvolutionSignals lc changeSets facts =
     (let factByPath = fact_map facts;
          history = collectEvolutionHistory changeSets factByPath;
          coordinationCandidates = buildCoordinationCandidates lc history factByPath
      in \<lparr>rp_eligibleChangeSets = eh_eligibleChangeSets history,
          rp_bootstrapChangeSetsExcluded = eh_bootstrapChangeSetsExcluded history,
          rp_unavailableHistoryFiles = eh_unavailableHistoryFiles history,
          rp_coordinationCandidates = coordinationCandidates,
          rp_extensionSurfaces = buildExtensionSurfaceAnalysis lc history factByPath coordinationCandidates,
          rp_cochangeSets = buildCochangeSetAnalysis lc history factByPath\<rparr>)"

section \<open>What a coordination candidate says of the history\<close>

definition plain_paths :: "FactByPath \<Rightarrow> bool" where
  "plain_paths facts = (\<forall>p \<in> fst ` set facts. NUL \<notin> set p)"

definition plain_occurrences :: "(string, string list) jmap \<Rightarrow> bool" where
  "plain_occurrences occ = (well_keyed occ
     \<and> fst ` set occ \<subseteq> {extensionKey c m | c m. NUL \<notin> set c \<and> NUL \<notin> set m})"

lemma plain_record: "plain_occurrences occ \<Longrightarrow> NUL \<notin> set c \<Longrightarrow> NUL \<notin> set m \<Longrightarrow>
    plain_occurrences (record_extension i facts c occ m)"
  unfolding plain_occurrences_def record_extension_def if_split [of "\<lambda>x. well_keyed x \<and> fst ` set x \<subseteq> _"]
    keys_map_set insert_subset by simp blast

lemma production_plain: "plain_paths facts \<Longrightarrow> p \<in> set (production_of facts c) \<Longrightarrow> NUL \<notin> set p"
  unfolding production_of_spec known_production_def plain_paths_def using map_of_SomeD by force

lemma changes_in_production: "x \<in> set (normalizedChanges cs production) \<Longrightarrow> ch_path x \<in> set production"
  by (auto simp: normalizedChanges_def)

lemma plain_recordExtensions:
  assumes "plain_paths facts" "plain_occurrences occ"
  shows "plain_occurrences (recordExtensions c (production_of facts c) facts occ)"
proof (cases "cs_changes c")
  case None
  with assms show ?thesis by (simp add: recordExtensions_def)
next
  case (Some cs)
  have inner: "plain_occurrences (foldl (record_extension i facts co) occ ms)"
    if "plain_occurrences occ" "NUL \<notin> set co" "\<forall>m \<in> set ms. NUL \<notin> set m" for i co occ ms
    using that by (induction ms arbitrary: occ) (auto intro: plain_record)
  have outer: "plain_occurrences (foldl (\<lambda>occ co. foldl (record_extension i facts co) occ ms) occ cos)"
    if "plain_occurrences occ" "\<forall>co \<in> set cos. NUL \<notin> set co" "\<forall>m \<in> set ms. NUL \<notin> set m" for i ms occ cos
    using that by (induction cos arbitrary: occ) (auto intro: inner)
  have "\<forall>p \<in> set (paths_of_kind k (normalizedChanges cs (production_of facts c))). NUL \<notin> set p" for k
    using production_plain [OF assms(1)] changes_in_production by (fastforce simp: paths_of_kind_def)
  then show ?thesis by (simp add: recordExtensions_def Some Let_def outer assms(2))
qed

lemma plain_history:
  assumes "plain_paths facts"
  shows "plain_occurrences (eh_extensionOccurrences (collectEvolutionHistory changeSets facts))"
proof -
  have "plain_occurrences (hs_occurrences (foldl (history_step facts) s cs))" if "plain_occurrences (hs_occurrences s)" for s cs
    using that by (induction cs arbitrary: s) (auto simp: history_step_cases plain_recordExtensions assms)
  from this [of history_start changeSets] show ?thesis
    by (simp add: collectEvolutionHistory_def Let_def history_start_def plain_occurrences_def)
qed

definition relation_pairs :: "ExtensionRelation list \<Rightarrow> (string \<times> string) set" where
  "relation_pairs rs = {(er_member r, i) | r i. r \<in> set rs \<and> i \<in> set (er_historyEntries r)}"

lemma coordinatorRelations_pairs:
  assumes "plain_occurrences (eh_extensionOccurrences history)"
  shows "relation_pairs (or_default (map_get (coordinatorRelations history) co) [])
    = {(m, i). NUL \<notin> set co \<and> NUL \<notin> set m \<and> (extensionKey co m, i) \<in> occurrence_pairs (eh_extensionOccurrences history)}"
proof -
  let ?occ = "eh_extensionOccurrences history"
  have "relation_pairs (or_default (map_get (foldl relation_step rel occ) co) [])
      = relation_pairs (or_default (map_get rel co) [])
        \<union> {(m, i). NUL \<notin> set co \<and> NUL \<notin> set m \<and> (\<exists>ids. (extensionKey co m, ids) \<in> set occ \<and> i \<in> set ids)}"
    if "fst ` set occ \<subseteq> {extensionKey c m | c m. NUL \<notin> set c \<and> NUL \<notin> set m}" for rel and occ :: "(string, string list) jmap"
    using that
  proof (induction occ arbitrary: rel)
    case (Cons e occ)
    obtain c m where cm: "fst e = extensionKey c m" "NUL \<notin> set c" "NUL \<notin> set m" using Cons.prems by auto
    have split: "splitExtension (fst e) = [c, m]" using cm splitExtension_key by simp
    have step: "relation_step rel e = map_set rel c (or_default (map_get rel c) [] @ [\<lparr>er_member = m, er_historyEntries = snd e\<rparr>])"
      by (simp add: relation_step_def split)
    have "relation_pairs (rs @ [r]) = relation_pairs rs \<union> {er_member r} \<times> set (er_historyEntries r)" for rs r
      by (auto simp: relation_pairs_def)
    then have pairs: "relation_pairs (rs @ [\<lparr>er_member = m, er_historyEntries = snd e\<rparr>]) = relation_pairs rs \<union> {m} \<times> set (snd e)" for rs
      by simp
    have key: "fst e = extensionKey co m' \<longleftrightarrow> co = c \<and> m' = m" if "NUL \<notin> set co" "NUL \<notin> set m'" for m'
      using that cm splitExtension_key by (metis list.inject)
    have one: "{(m', i). NUL \<notin> set co \<and> NUL \<notin> set m' \<and> fst e = extensionKey co m' \<and> i \<in> set (snd e)}
        = (if co = c then {m} \<times> set (snd e) else {})"
      using key cm by auto
    have rest: "{(m', i). NUL \<notin> set co \<and> NUL \<notin> set m' \<and> (\<exists>ids. (extensionKey co m', ids) \<in> set (e # occ) \<and> i \<in> set ids)}
        = {(m', i). NUL \<notin> set co \<and> NUL \<notin> set m' \<and> fst e = extensionKey co m' \<and> i \<in> set (snd e)}
          \<union> {(m', i). NUL \<notin> set co \<and> NUL \<notin> set m' \<and> (\<exists>ids. (extensionKey co m', ids) \<in> set occ \<and> i \<in> set ids)}"
      by (cases e) auto
    have IH: "relation_pairs (or_default (map_get (foldl relation_step (relation_step rel e) occ) co) [])
      = relation_pairs (or_default (map_get (relation_step rel e) co) [])
        \<union> {(m, i). NUL \<notin> set co \<and> NUL \<notin> set m \<and> (\<exists>ids. (extensionKey co m, ids) \<in> set occ \<and> i \<in> set ids)}"
      using Cons by auto
    have "relation_pairs (or_default (map_get (relation_step rel e) co) [])
        = relation_pairs (or_default (map_get rel co) []) \<union> (if co = c then {m} \<times> set (snd e) else {})"
      by (simp add: step pairs)
    then show ?case unfolding foldl_Cons IH rest one by (simp add: Un_assoc)
  qed simp
  from this [of ?occ "[]"] assms show ?thesis
    unfolding coordinatorRelations_def plain_occurrences_def occurrence_pairs_def
    by (auto simp: relation_pairs_def well_keyed_get)
qed

lemma coordinatorRelations_keyed: "well_keyed (coordinatorRelations history)"
proof -
  have "well_keyed (foldl relation_step rel occ)" if "well_keyed rel" for rel occ
    using that by (induction occ arbitrary: rel) (auto simp: relation_step_def split: list.splits)
  then show ?thesis by (simp add: coordinatorRelations_def)
qed

lemma candidate_events:
  "(\<lambda>e. (ce_member e, ce_commitId e)) ` set (cd_events (toCoordinationCandidate lc co rs facts)) = relation_pairs rs"
  by (force simp: toCoordinationCandidate_def Let_def relation_events_def relation_pairs_def)

text \<open>
  The events of a candidate are the extensions of its coordinator in the eligible change sets,
  and it has at least two members and two commits.
\<close>

lemma coordination_candidate_sound:
  assumes plain: "plain_paths facts"
    and c: "c \<in> set (buildCoordinationCandidates lc (collectEvolutionHistory changeSets facts) facts)"
  shows "(\<lambda>e. (ce_member e, ce_commitId e)) ` set (cd_events c)
      = {(m, cs_id x) | m x. x \<in> set changeSets \<and> eligible_set facts x \<and> extends_pair facts (changes_of facts x) (cd_coordinator c) m}
    \<and> 2 \<le> length (cd_members c) \<and> 2 \<le> cd_commitCount c"
proof -
  let ?h = "collectEvolutionHistory changeSets facts"
  obtain co rs where rs: "(co, rs) \<in> set (coordinatorRelations ?h)" "c = toCoordinationCandidate lc co rs facts"
      and compact: "isCompactCoordination c"
    using c by (auto simp: buildCoordinationCandidates_def)
  have co: "cd_coordinator c = co" using rs(2) by (simp add: toCoordinationCandidate_def Let_def)
  have get: "map_get (coordinatorRelations ?h) co = Some rs"
    using rs(1) well_keyed_get [OF coordinatorRelations_keyed] by blast
  have pairs: "relation_pairs rs = {(m, i). NUL \<notin> set co \<and> NUL \<notin> set m \<and> (extensionKey co m, i) \<in> occurrence_pairs (eh_extensionOccurrences ?h)}"
    using coordinatorRelations_pairs [OF plain_history [OF plain], of changeSets co] by (simp add: get)
  have path: "NUL \<notin> set p" if "p \<in> set (paths_of_kind k (changes_of facts x))" for p k x
    using that production_plain [OF plain] changes_in_production
    by (fastforce simp: paths_of_kind_def changes_of_def)
  have key: "extensionKey co m = extensionKey co' m' \<longleftrightarrow> co = co' \<and> m = m'"
    if "NUL \<notin> set co" "NUL \<notin> set m" "NUL \<notin> set co'" "NUL \<notin> set m'" for m co' m'
    using that splitExtension_key by (metis list.inject)
  have "NUL \<notin> set co \<and> NUL \<notin> set m \<and> (extensionKey co m, i) \<in> occurrence_pairs (eh_extensionOccurrences ?h)
      \<longleftrightarrow> (\<exists>x. x \<in> set changeSets \<and> eligible_set facts x \<and> extends_pair facts (changes_of facts x) co m \<and> i = cs_id x)" for m i
    unfolding collectEvolutionHistory_extensions extends_pair_def using path key by blast
  then have "relation_pairs rs = {(m, cs_id x) | m x. x \<in> set changeSets \<and> eligible_set facts x
      \<and> extends_pair facts (changes_of facts x) co m}"
    unfolding pairs by blast
  then show ?thesis
    using compact candidate_events [of lc co rs facts] by (simp add: rs(2) [symmetric] co isCompactCoordination_def)
qed

text \<open>An extension surface holds its coordinator and rests on two commits and two new members.\<close>

lemma projected_canonical:
  assumes "plain_paths facts" "\<forall>c \<in> set (eh_changeSets history). \<forall>x \<in> set (ps_changes c). ch_path x \<in> fst ` set facts"
    and "p \<in> set (projectedExtensionChanges history candidate facts)"
  shows "canonical (ps_files p)"
proof -
  obtain c where c: "c \<in> set (eh_changeSets history)"
      and p: "project_change_set (uniq (map ce_commitId (cd_events candidate))) candidate facts c = Some p"
    using assms(3) unfolding projectedExtensionChanges_def Let_def by (auto dest: sym)
  let ?fs = "ps_files p"
  from p have files: "?fs = sorted_uniq (map ch_path (filter (\<lambda>x. ch_kind x = ec_modified
      \<and> \<not> isPublicForwardingOnly (map_get facts (ch_path x))) (ps_changes c)))" "cd_coordinator candidate \<in> set ?fs"
    by (auto simp: project_change_set_def Let_def split: if_splits)
  have "set ?fs \<subseteq> fst ` set facts" using assms(2) c unfolding files(1) by auto
  then have "\<forall>f \<in> set ?fs. NUL \<notin> set f" using assms(1) unfolding plain_paths_def by blast
  moreover have "?fs \<noteq> []" using files(2) by auto
  moreover have "sorted ?fs \<and> distinct ?fs" unfolding files(1) by simp
  ultimately show ?thesis by (simp add: canonical_def list_all_iff)
qed

lemma surface_sound:
  assumes plain: "plain_paths facts"
    and s: "s \<in> set (sa_candidates (extensionSurfaceCandidates lc (collectEvolutionHistory changeSets facts) facts candidate))"
    and named: "cd_coordinator candidate \<noteq> []"
  shows "closed_set (projectedExtensionChanges (collectEvolutionHistory changeSets facts) candidate facts)
      (surface_options candidate) (cc_files s)
    \<and> cd_coordinator candidate \<in> set (cc_files s) \<and> 2 \<le> length (sf_extensionMembers s)"
proof -
  let ?h = "collectEvolutionHistory changeSets facts"
  let ?p = "projectedExtensionChanges ?h candidate facts"
  obtain reported where run: "buildClosedCochangeAnalysis lc ?p facts (surface_options candidate) = CochangeAvailable reported"
      and mem: "Some s \<in> surface_of candidate ` set reported"
    using s by (auto simp: extensionSurfaceCandidates_def Let_def split: if_splits CochangeSetAnalysis.splits)
  then obtain r where r: "r \<in> set reported" "surface_of candidate r = Some s" by (metis imageE)
  then have surface: "cc_files s = cc_files r" "2 \<le> length (sf_extensionMembers s)"
    by (auto simp: surface_of_def Let_def CochangeSetCandidate.extend_def ExtensionSurfaceCandidate.fields_def)
  have "\<forall>c \<in> set (eh_changeSets ?h). \<forall>x \<in> set (ps_changes c). ch_path x \<in> fst ` set facts"
  proof (intro ballI)
    fix c x assume "c \<in> set (eh_changeSets ?h)" "x \<in> set (ps_changes c)"
    then obtain c' where "x \<in> set (changes_of facts c')"
      using collectEvolutionHistory_sets [of changeSets facts] by (auto simp: production_set_def)
    then have "known_production facts (ch_path x)"
      using changes_in_production production_of_spec(3) unfolding changes_of_def by blast
    then show "ch_path x \<in> fst ` set facts" unfolding known_production_def using map_of_SomeD by force
  qed
  then have "\<forall>c \<in> set ?p. canonical (ps_files c)" using projected_canonical [OF plain] by blast
  then have "closed_set ?p (surface_options candidate) (cc_files r)"
    using reported_closed_sets [OF run] r(1) by (simp add: surface_options_def)
  then show ?thesis using surface named by (auto simp: closed_set_def surface_options_def)
qed

section \<open>Properties\<close>
definition sample_fact :: "string \<Rightarrow> string list \<Rightarrow> EvolutionFileFact" where
  "sample_fact p refs = \<lparr>ef_path = p, ef_fileKind = Some fk_production, ef_loc = Some 10, ef_inDegree = 0, ef_alphaStruct = 0,
     ef_imports = Some refs, ef_reexports = None\<rparr>"

definition sample_facts :: FactByPath where
  "sample_facts = [(''m'', sample_fact ''m'' [''x'', ''y'']), (''x'', sample_fact ''x'' []), (''y'', sample_fact ''y'' [])]"

definition sample_extension :: "string \<Rightarrow> string \<Rightarrow> EvolutionChangeSet" where
  "sample_extension i member = \<lparr>cs_id = i, cs_files = [''m'', member],
     cs_changes = Some [\<lparr>ch_path = ''m'', ch_kind = ec_modified\<rparr>, \<lparr>ch_path = member, ch_kind = ec_added\<rparr>]\<rparr>"

definition sample_extensions :: "EvolutionChangeSet list" where
  "sample_extensions = [sample_extension ''1'' ''x'', sample_extension ''2'' ''y'']"

lemma sample_extension_occurrences:
  "eh_extensionOccurrences (collectEvolutionHistory sample_extensions sample_facts)
     = [(extensionKey ''m'' ''x'', [''1'']), (extensionKey ''m'' ''y'', [''2''])]"
proof -
  have posix: "toPosixPath [c] = [if c = CHR 0x5C then CHR ''/'' else c]" for c by (simp add: toPosixPath_def)
  have sorts: "sort [''m'', ''x''] = [''m'', ''x'']" "sort [''m'', ''y''] = [''m'', ''y'']"
    by (simp_all add: less_eq_char_def less_char_def)
  show ?thesis
    by (simp add: collectEvolutionHistory_def history_step_def history_start_def sample_extensions_def sample_extension_def
        sample_facts_def sample_fact_def productionFiles_def posix sorts Let_def normalizedChanges_def recordExtensions_def
        paths_of_kind_def record_extension_def effectiveFileKind_def normalizedImports_def normalizedReexports_def map_set_def
        extensionKey_def NUL_def)
qed

lemma sample_coordination:
  "\<exists>c \<in> set (buildCoordinationCandidates code_unit_cmp (collectEvolutionHistory sample_extensions sample_facts) sample_facts).
     cd_coordinator c = ''m''"
proof -
  have keys: "splitExtension (extensionKey ''m'' ''x'') = [''m'', ''x'']" "splitExtension (extensionKey ''m'' ''y'') = [''m'', ''y'']"
    by (rule splitExtension_key; simp add: NUL_def)+
  have relations: "coordinatorRelations (collectEvolutionHistory sample_extensions sample_facts)
      = [(''m'', [\<lparr>er_member = ''x'', er_historyEntries = [''1'']\<rparr>, \<lparr>er_member = ''y'', er_historyEntries = [''2'']\<rparr>])]"
    by (simp add: coordinatorRelations_def sample_extension_occurrences relation_step_def keys map_set_def)
  let ?rs = "[\<lparr>er_member = ''x'', er_historyEntries = [''1'']\<rparr>, \<lparr>er_member = ''y'', er_historyEntries = [''2'']\<rparr>]"
  let ?c = "toCoordinationCandidate code_unit_cmp ''m'' ?rs sample_facts"
  let ?es = "js_sort (event_order code_unit_cmp) (concat (map relation_events ?rs))"
  have fields: "cd_coordinator ?c = ''m''" "cd_members ?c = sorted_uniq (map ce_member ?es)"
    "cd_commitCount ?c = length (uniq (map ce_commitId ?es))" "cd_coordinatorLoc ?c = 10"
    unfolding toCoordinationCandidate_def Let_def by (simp_all add: sample_facts_def sample_fact_def)
  have "set ?es = {\<lparr>ce_member = ''x'', ce_commitId = ''1''\<rparr>, \<lparr>ce_member = ''y'', ce_commitId = ''2''\<rparr>}"
    unfolding set_js_sort by (simp add: relation_events_def)
  then have "isCompactCoordination ?c"
    unfolding isCompactCoordination_def fields length_sorted_uniq length_uniq_card set_map by simp
  then show ?thesis
    unfolding buildCoordinationCandidates_def set_js_sort relations using fields(1) by auto
qed
text \<open>The events of a reported coordinator are exactly the pairs of a new member and a commit
  that adds the member, modifies the coordinator and is eligible, where the coordinator imports the
  member; there are at least two members and two commits.\<close>

theorem coordinators_are_extended:
  assumes "plain_paths facts"
    and "c \<in> set (buildCoordinationCandidates lc (collectEvolutionHistory changeSets facts) facts)"
  shows "(\<lambda>e. (ce_member e, ce_commitId e)) ` set (cd_events c)
      = {(m, cs_id x) | m x. x \<in> set changeSets \<and> eligible_set facts x \<and> extends_pair facts (changes_of facts x) (cd_coordinator c) m}
    \<and> 2 \<le> length (cd_members c) \<and> 2 \<le> cd_commitCount c"
  using assms by (rule coordination_candidate_sound)

theorem coordinators_are_extended_witness:
  "\<exists>c \<in> set (buildCoordinationCandidates code_unit_cmp (collectEvolutionHistory sample_extensions sample_facts) sample_facts).
     cd_coordinator c = ''m'' \<and> 2 \<le> length (cd_members c)"
proof -
  obtain c where c: "c \<in> set (buildCoordinationCandidates code_unit_cmp (collectEvolutionHistory sample_extensions sample_facts) sample_facts)"
    "cd_coordinator c = ''m''" using sample_coordination by blast
  have "plain_paths sample_facts" by (simp add: plain_paths_def sample_facts_def NUL_def)
  from coordinators_are_extended [OF this c(1)] c show ?thesis by blast
qed

end
