(* ===== verification/Symbol_Evidence.thy ===== *)
theory Symbol_Evidence
  imports Governance
begin

text \<open>
  Symbol-use evidence: the facts and reports of a provider (\<open>symbol-use/types.ts\<close>,
  \<open>semantic-evidence/types.ts\<close>), their normalisation and demand selection, the pairing of the
  declarations of two revisions (\<open>symbolVersionPair.ts\<close>) and the calibration profile
  (\<open>symbolCalibration.ts\<close>). \<open>sha256\<close> of \<open>JSON.stringify\<close> is the argument \<open>hash\<close>.
\<close>

section \<open>Facts and reports\<close>

datatype SymbolKind =
    interface_property | interface_method | type_property | type_method | function_kind | class_kind
  | method_kind | accessor_kind | class_property_function | object_property_function

fun symbolKindName :: "SymbolKind \<Rightarrow> string" where
  "symbolKindName interface_property = ''interface-property''"
| "symbolKindName interface_method = ''interface-method''"
| "symbolKindName type_property = ''type-property''"
| "symbolKindName type_method = ''type-method''"
| "symbolKindName function_kind = ''function''"
| "symbolKindName class_kind = ''class''"
| "symbolKindName method_kind = ''method''"
| "symbolKindName accessor_kind = ''accessor''"
| "symbolKindName class_property_function = ''class-property-function''"
| "symbolKindName object_property_function = ''object-property-function''"

datatype SymbolUseDeclarationFamily = fam_callable | fam_type | fam_property

fun familyName :: "SymbolUseDeclarationFamily \<Rightarrow> string" where
  "familyName fam_callable = ''callable''"
| "familyName fam_type = ''type''"
| "familyName fam_property = ''property''"

definition symbolUseDeclarationFamily :: "SymbolKind \<Rightarrow> SymbolUseDeclarationFamily" where
  "symbolUseDeclarationFamily kind =
     (if kind = class_kind then fam_type
      else if kind = interface_property \<or> kind = type_property then fam_property
      else fam_callable)"

definition symbolUseFamiliesFor :: "SymbolKind list \<Rightarrow> string list" where
  "symbolUseFamiliesFor kinds = sorted_uniq (map (\<lambda>k. familyName (symbolUseDeclarationFamily k)) kinds)"

datatype SymbolUseCoverage = cv_complete | cv_partial | cv_unavailable

datatype PublicSurface = surface_internal | surface_declared_public | surface_unknown

record SymbolReference =
  sr_file :: string
  sr_line :: nat

record SymbolDeclaration =
  sy_file :: string
  sy_name :: string
  sy_kind :: SymbolKind
  sy_line :: nat

record SymbolUseFact =
  su_language :: string
  su_declaration :: SymbolDeclaration
  su_repositoryReferences :: "SymbolReference list"
  su_publicSurface :: PublicSurface

record SymbolUseCoverageSummary =
  cs_declarations :: SymbolUseCoverage
  cs_repositoryReferences :: SymbolUseCoverage
  cs_incompleteReferences :: "bool option"

record SymbolUseScope =
  so_demand :: bool \<comment> \<open>\<open>mode === "demand"\<close>\<close>
  so_governedFileCount :: nat
  so_selectedDeclarationFileCount :: nat
  so_declarationFamilies :: "string list"

definition symbolUseScopeFor :: "bool \<Rightarrow> nat \<Rightarrow> nat \<Rightarrow> SymbolKind list \<Rightarrow> SymbolUseScope" where
  "symbolUseScopeFor demand governed selected kinds =
     \<lparr>so_demand = demand, so_governedFileCount = governed, so_selectedDeclarationFileCount = selected,
      so_declarationFamilies = symbolUseFamiliesFor kinds\<rparr>"

datatype SymbolUseEvidenceSource = source_compiler | source_lsp | source_scip

record SemanticEvidenceOrigin =
  or_language :: string
  or_providerId :: string
  or_evidenceSource :: SymbolUseEvidenceSource

record SemanticEvidenceState =
  es_availability :: GovernanceAvailability
  es_coverage :: SymbolUseCoverageSummary
  es_reason :: "string option"

record SymbolUseReport =
  sup_origin :: SemanticEvidenceOrigin
  sup_state :: SemanticEvidenceState
  sup_facts :: "SymbolUseFact list"
  sup_scope :: "SymbolUseScope option"

section \<open>Normalisation and demand\<close>

definition declaration_key :: "SymbolUseFact \<Rightarrow> string" where
  "declaration_key f = join_with [NUL] [sy_file (su_declaration f), show_nat (sy_line (su_declaration f)),
     symbolKindName (sy_kind (su_declaration f)), sy_name (su_declaration f)]"

definition reference_key :: "SymbolReference \<Rightarrow> string" where
  "reference_key r = sr_file r @ '':'' @ show_nat (sr_line r)"

definition reference_order :: "string cmp \<Rightarrow> SymbolReference cmp" where
  "reference_order lc = or_cmp (on_key lc sr_file) (key_cmp (\<lambda>r. real (sr_line r)))"

definition merge_references :: "string cmp \<Rightarrow> SymbolReference list \<Rightarrow> SymbolReference list \<Rightarrow> SymbolReference list" where
  "merge_references lc old new =
     js_sort (reference_order lc) (map snd (fromEntries (map (\<lambda>r. (reference_key r, r)) (old @ new))))"

definition normalize_step ::
  "string cmp \<Rightarrow> (string, SymbolUseFact) jmap \<Rightarrow> SymbolUseFact \<Rightarrow> (string, SymbolUseFact) jmap" where
  "normalize_step lc m f =
     map_set m (declaration_key f)
       (case map_get m (declaration_key f) of
          None \<Rightarrow> f
        | Some existing \<Rightarrow> f\<lparr>su_repositoryReferences :=
            merge_references lc (su_repositoryReferences existing) (su_repositoryReferences f)\<rparr>)"

definition fact_order :: "string cmp \<Rightarrow> SymbolUseFact cmp" where
  "fact_order lc = or_cmp (on_key lc (\<lambda>f. sy_file (su_declaration f)))
     (or_cmp (key_cmp (\<lambda>f. real (sy_line (su_declaration f)))) (on_key lc (\<lambda>f. sy_name (su_declaration f))))"

definition normalizeSymbolUseFacts :: "string cmp \<Rightarrow> SymbolUseFact list \<Rightarrow> SymbolUseFact list" where
  "normalizeSymbolUseFacts lc facts = js_sort (fact_order lc) (map snd (foldl (normalize_step lc) [] facts))"

record SymbolUseDemandSelection =
  ds_declarationFiles :: "string list"
  ds_namesByFile :: "(string, string list) jmap option"
  ds_reason :: "string option"

text \<open>\<open>processCwd\<close> is the directory of the process, against which \<open>resolve(file)\<close> resolves.\<close>

definition demand_step ::
  "string \<Rightarrow> string list \<Rightarrow> (string, string list) jmap \<Rightarrow> string \<times> string list \<Rightarrow> (string, string list) jmap" where
  "demand_step cwd available m declaration =
     (let resolved = node_resolve cwd (fst declaration);
          names = uniq (filter (\<lambda>n. n \<noteq> []) (snd declaration))
      in if resolved \<in> set available then map_set m resolved names else m)"

definition selectSymbolUseDemand ::
  "string \<Rightarrow> string \<Rightarrow> string list \<Rightarrow> (string \<times> string list) list option \<Rightarrow> SymbolUseDemandSelection" where
  "selectSymbolUseDemand processCwd cwd sourceFiles demand = (case demand of
     None \<Rightarrow> \<lparr>ds_declarationFiles = sourceFiles, ds_namesByFile = None, ds_reason = None\<rparr>
   | Some declarations \<Rightarrow>
       let available = map (node_resolve processCwd) sourceFiles;
           namesByFile = foldl (demand_step cwd available) [] declarations;
           declarationFiles = sort (map_keys namesByFile)
       in \<lparr>ds_declarationFiles = declarationFiles, ds_namesByFile = Some namesByFile,
           ds_reason = Some (''demand-driven semantic query selected '' @ show_nat (length declarationFiles) @ ''/''
             @ show_nat (length sourceFiles)
             @ '' governed declaration files; repository completeness was not evaluated'')\<rparr>)"

section \<open>Version pairs\<close>

record SymbolVersionedPopulation =
  vp_beforeRevision :: string
  vp_afterRevision :: string
  vp_files :: "string list"
  vp_fingerprint :: string

datatype SymbolDeclarationPairStatus = ps_matched | ps_added | ps_removed | ps_ambiguous

record SymbolDeclarationPair =
  sp_identity :: string
  sp_status :: SymbolDeclarationPairStatus
  sp_before :: "SymbolUseFact option"
  sp_after :: "SymbolUseFact option"
  sp_reason :: "string option"

record SymbolVersionPairReport =
  vr_language :: string
  vr_availability :: GovernanceAvailability
  vr_population :: SymbolVersionedPopulation
  vr_before :: "SymbolUseReport option"
  vr_after :: "SymbolUseReport option"
  vr_declarations :: "SymbolDeclarationPair list"
  vr_reason :: "string option"

definition symbolVersionDeclarationIdentity :: "SymbolUseFact \<Rightarrow> string" where
  "symbolVersionDeclarationIdentity f =
     join_with [NUL] [su_language f, sy_file (su_declaration f), symbolKindName (sy_kind (su_declaration f)),
       sy_name (su_declaration f)]"

definition groupedFacts :: "SymbolUseFact list \<Rightarrow> (string, SymbolUseFact list) jmap" where
  "groupedFacts facts = foldl (\<lambda>m f. map_set m (symbolVersionDeclarationIdentity f)
     (or_default (map_get m (symbolVersionDeclarationIdentity f)) [] @ [f])) [] facts"

definition pair_of :: "string \<Rightarrow> SymbolUseFact list \<Rightarrow> SymbolUseFact list \<Rightarrow> SymbolDeclarationPair" where
  "pair_of identity beforeFacts afterFacts =
     (if length beforeFacts > 1 \<or> length afterFacts > 1 then
        \<lparr>sp_identity = identity, sp_status = ps_ambiguous, sp_before = None, sp_after = None,
         sp_reason = Some ''multiple declarations share the stable version identity''\<rparr>
      else case (beforeFacts, afterFacts) of
        ([], a # _) \<Rightarrow> \<lparr>sp_identity = identity, sp_status = ps_added, sp_before = None, sp_after = Some a, sp_reason = None\<rparr>
      | ([], []) \<Rightarrow> \<lparr>sp_identity = identity, sp_status = ps_added, sp_before = None, sp_after = None, sp_reason = None\<rparr>
      | (b # _, []) \<Rightarrow> \<lparr>sp_identity = identity, sp_status = ps_removed, sp_before = Some b, sp_after = None, sp_reason = None\<rparr>
      | (b # _, a # _) \<Rightarrow> \<lparr>sp_identity = identity, sp_status = ps_matched, sp_before = Some b, sp_after = Some a, sp_reason = None\<rparr>)"

definition pairVersionedSymbolDeclarations :: "SymbolUseFact list \<Rightarrow> SymbolUseFact list \<Rightarrow> SymbolDeclarationPair list" where
  "pairVersionedSymbolDeclarations before after =
     (let beforeByIdentity = groupedFacts before; afterByIdentity = groupedFacts after;
          identities = sorted_uniq (map_keys beforeByIdentity @ map_keys afterByIdentity)
      in map (\<lambda>identity. pair_of identity (or_default (map_get beforeByIdentity identity) [])
             (or_default (map_get afterByIdentity identity) [])) identities)"

definition commonSymbolVersionedPopulation ::
  "(json \<Rightarrow> string) \<Rightarrow> string \<Rightarrow> string list \<Rightarrow> string \<Rightarrow> string list \<Rightarrow> SymbolVersionedPopulation" where
  "commonSymbolVersionedPopulation hash beforeRevision beforeFiles afterRevision afterFiles =
     (let files = sort (filter (\<lambda>f. f \<in> set afterFiles) (uniq beforeFiles))
      in \<lparr>vp_beforeRevision = beforeRevision, vp_afterRevision = afterRevision, vp_files = files,
          vp_fingerprint = hash (JObj [(''definition'', JStr ''symbol-version-population''),
            (''beforeRevision'', JStr beforeRevision), (''afterRevision'', JStr afterRevision),
            (''files'', JArr (map JStr files))])\<rparr>)"

section \<open>Calibration samples\<close>

datatype SymbolCalibrationObservation = ob_matched | ob_rejected | ob_ambiguous | ob_unavailable

fun observationName :: "SymbolCalibrationObservation \<Rightarrow> string" where
  "observationName ob_matched = ''matched''"
| "observationName ob_rejected = ''rejected''"
| "observationName ob_ambiguous = ''ambiguous''"
| "observationName ob_unavailable = ''unavailable''"

fun availabilityName :: "GovernanceAvailability \<Rightarrow> string" where
  "availabilityName av_available = ''available''"
| "availabilityName av_partial = ''partial''"
| "availabilityName av_unavailable = ''unavailable''"

text \<open>The family \<open>None\<close> is \<open>"unknown"\<close>; an expectation is a positive (\<open>matched\<close>) or negative sample.\<close>

type_synonym CalibrationFamily = "SymbolUseDeclarationFamily option"

definition calibrationFamilyName :: "CalibrationFamily \<Rightarrow> string" where
  "calibrationFamilyName f = (case f of None \<Rightarrow> ''unknown'' | Some f \<Rightarrow> familyName f)"

datatype SymbolCalibrationExpectation = expect_matched | expect_rejected

definition expectedObservation :: "SymbolCalibrationExpectation \<Rightarrow> SymbolCalibrationObservation" where
  "expectedObservation e = (case e of expect_matched \<Rightarrow> ob_matched | expect_rejected \<Rightarrow> ob_rejected)"

record SymbolCalibrationSample =
  sm_id :: string
  sm_language :: string
  sm_providerId :: string
  sm_declarationFamily :: CalibrationFamily
  sm_commonPopulationFingerprint :: string
  sm_expected :: SymbolCalibrationExpectation
  sm_observed :: SymbolCalibrationObservation
  sm_availability :: GovernanceAvailability
  sm_reason :: "string option"

text \<open>The reasons that are present; \<open>Boolean\<close> also drops an empty text.\<close>

definition reason_list :: "string option list \<Rightarrow> string list" where
  "reason_list rs = filter (\<lambda>r. r \<noteq> []) (present rs)"

definition symbolCommonPopulationFingerprint :: "(json \<Rightarrow> string) \<Rightarrow> string list \<Rightarrow> string" where
  "symbolCommonPopulationFingerprint hash files =
     hash (JObj [(''definition'', JStr ''symbol-calibration-population''), (''files'', JArr (map JStr (sorted_uniq files)))])"

definition find_pair :: "SymbolVersionPairReport \<Rightarrow> string \<Rightarrow> SymbolDeclarationPair option" where
  "find_pair report identity = find (\<lambda>c. sp_identity c = identity) (vr_declarations report)"

definition declarationFamily :: "SymbolVersionPairReport \<Rightarrow> string \<Rightarrow> CalibrationFamily" where
  "declarationFamily report identity =
     (let pair = find_pair report identity;
          families = uniq (map (\<lambda>f. symbolUseDeclarationFamily (sy_kind (su_declaration f)))
            (present [Option.bind pair sp_before, Option.bind pair sp_after]))
      in case families of [f] \<Rightarrow> Some f | _ \<Rightarrow> None)"

definition observationFor :: "SymbolVersionPairReport \<Rightarrow> string \<Rightarrow> SymbolCalibrationObservation" where
  "observationFor report identity = (case find_pair report identity of
     None \<Rightarrow> ob_unavailable
   | Some pair \<Rightarrow>
       (if sp_status pair = ps_matched then ob_matched
        else if sp_status pair = ps_added \<or> sp_status pair = ps_removed then ob_rejected
        else ob_ambiguous))"

definition report_complete :: "SymbolUseReport option \<Rightarrow> bool" where
  "report_complete r = (case r of None \<Rightarrow> False
     | Some r \<Rightarrow> es_availability (sup_state r) = av_available
         \<and> cs_declarations (es_coverage (sup_state r)) = cv_complete
         \<and> cs_repositoryReferences (es_coverage (sup_state r)) = cv_complete)"

definition coverageAvailable :: "SymbolVersionPairReport \<Rightarrow> bool" where
  "coverageAvailable report =
     (vr_availability report = av_available \<and> report_complete (vr_before report) \<and> report_complete (vr_after report))"

definition createSymbolCalibrationSample ::
  "(json \<Rightarrow> string) \<Rightarrow> SymbolVersionPairReport \<Rightarrow> string \<Rightarrow> string \<Rightarrow> SymbolCalibrationExpectation \<Rightarrow> SymbolCalibrationSample" where
  "createSymbolCalibrationSample hash report sampleId identity expected =
     (let family = declarationFamily report identity;
          providerIds = uniq (filter (\<lambda>p. p \<noteq> []) (map (\<lambda>r. or_providerId (sup_origin r)) (present [vr_before report, vr_after report])));
          observed = observationFor report identity;
          available = coverageAvailable report;
          reasons = reason_list
            [only_if (vp_files (vr_population report) = []) ''version pair has no common governed population'',
             only_if (family = None) ''version pair declaration family is not unique'',
             only_if (length providerIds > 1) ''before and after providers do not match'',
             only_if (\<not> available) (or_default (vr_reason report) ''provider or coverage is not complete on both revisions''),
             only_if (observed = ob_unavailable) ''target declaration identity was not observed'',
             only_if (observed = ob_ambiguous) ''target declaration identity is ambiguous'']
      in \<lparr>sm_id = sampleId, sm_language = vr_language report,
          sm_providerId = (case providerIds of [p] \<Rightarrow> p | _ \<Rightarrow> ''none''),
          sm_declarationFamily = family,
          sm_commonPopulationFingerprint = symbolCommonPopulationFingerprint hash (vp_files (vr_population report)),
          sm_expected = expected, sm_observed = observed,
          sm_availability = (if available \<and> reasons = [] then av_available
            else if vr_availability report = av_unavailable then av_unavailable else av_partial),
          sm_reason = only_if (reasons \<noteq> []) (join_with ''; '' reasons)\<rparr>)"

section \<open>Calibration profiles\<close>

record SymbolCalibrationProfile =
  pf_id :: string
  pf_language :: string
  pf_providerId :: string
  pf_declarationFamily :: CalibrationFamily
  pf_commonPopulationFingerprint :: string
  pf_samples :: "SymbolCalibrationSample list"
  pf_positiveSampleCount :: nat
  pf_negativeSampleCount :: nat
  pf_availability :: GovernanceAvailability
  pf_eligible :: bool
  pf_reasons :: "string list"

definition SYMBOL_CALIBRATION_SCHEMA_BOUNDARY :: "jsnum PersistedVersionBoundary" where
  "SYMBOL_CALIBRATION_SCHEMA_BOUNDARY =
     \<lparr>pv_storage = ''symbol-calibration-profile'', pv_version = Fin 1, pv_missingRejected = True\<rparr>"

definition profileAvailability :: "SymbolCalibrationSample list \<Rightarrow> string list \<Rightarrow> GovernanceAvailability" where
  "profileAvailability samples reasons =
     (if samples = [] then av_unavailable
      else if reasons = [] \<and> list_all (\<lambda>s. sm_availability s = av_available) samples then av_available
      else if list_all (\<lambda>s. sm_availability s = av_unavailable) samples then av_unavailable else av_partial)"

definition sampleIdentityReasons :: "SymbolCalibrationSample \<Rightarrow> SymbolCalibrationSample \<Rightarrow> string list" where
  "sampleIdentityReasons s first = reason_list
     [only_if (sm_language s \<noteq> sm_language first \<or> sm_providerId s \<noteq> sm_providerId first
          \<or> sm_declarationFamily s \<noteq> sm_declarationFamily first)
        ''samples must share language, provider and declaration family'',
      only_if (sm_commonPopulationFingerprint s \<noteq> sm_commonPopulationFingerprint first)
        ''samples must share one common population fingerprint'',
      only_if (sm_declarationFamily s = None) (''sample '' @ sm_id s @ '' has no unique declaration family'')]"

definition sampleEvidenceReasons :: "SymbolCalibrationSample \<Rightarrow> string list" where
  "sampleEvidenceReasons s = reason_list
     [only_if (sm_availability s \<noteq> av_available) (''sample '' @ sm_id s @ '' is '' @ availabilityName (sm_availability s)),
      only_if (sm_observed s \<noteq> expectedObservation (sm_expected s))
        (''sample '' @ sm_id s @ '' disagrees with its expected outcome'')]"

definition sample_step ::
  "SymbolCalibrationSample \<Rightarrow> string list \<times> string list \<Rightarrow> SymbolCalibrationSample \<Rightarrow> string list \<times> string list" where
  "sample_step first s sample = (case s of (ids, reasons) \<Rightarrow>
     (sm_id sample # ids,
      reasons @ (if sm_id sample \<in> set ids then [''duplicate sample id: '' @ sm_id sample] else [])
        @ sampleIdentityReasons sample first @ sampleEvidenceReasons sample))"

definition confirmed :: "SymbolCalibrationExpectation \<Rightarrow> SymbolCalibrationSample \<Rightarrow> bool" where
  "confirmed e s = (sm_expected s = e \<and> sm_observed s = expectedObservation e)"

definition profile_key :: "(json \<Rightarrow> string) \<Rightarrow> SymbolCalibrationSample \<Rightarrow> SymbolCalibrationSample list \<Rightarrow> string" where
  "profile_key hash first samples =
     ''symbol-calibration:'' @ hash (JObj [(''language'', JStr (sm_language first)), (''providerId'', JStr (sm_providerId first)),
       (''declarationFamily'', JStr (calibrationFamilyName (sm_declarationFamily first))),
       (''commonPopulationFingerprint'', JStr (sm_commonPopulationFingerprint first)),
       (''sampleIds'', JArr (map JStr (sort (map sm_id samples))))])"

definition empty_profile :: SymbolCalibrationProfile where
  "empty_profile =
     \<lparr>pf_id = ''symbol-calibration:empty'', pf_language = ''typescript'', pf_providerId = ''none'',
      pf_declarationFamily = None, pf_commonPopulationFingerprint = [], pf_samples = [],
      pf_positiveSampleCount = 0, pf_negativeSampleCount = 0, pf_availability = av_unavailable, pf_eligible = False,
      pf_reasons = [''at least one calibration sample is required'']\<rparr>"

definition profile_reasons :: "SymbolCalibrationSample \<Rightarrow> SymbolCalibrationSample list \<Rightarrow> string list" where
  "profile_reasons first samples = uniq (snd (foldl (sample_step first) ([], []) samples)
     @ (if length (filter (confirmed expect_matched) samples) = 0
        then [''at least one confirmed matched positive sample is required''] else [])
     @ (if length (filter (confirmed expect_rejected) samples) = 0
        then [''at least one confirmed rejected negative sample is required''] else []))"

definition buildSymbolCalibrationProfile :: "(json \<Rightarrow> string) \<Rightarrow> SymbolCalibrationSample list \<Rightarrow> SymbolCalibrationProfile" where
  "buildSymbolCalibrationProfile hash samples = (case samples of
     [] \<Rightarrow> empty_profile
   | first # _ \<Rightarrow>
       let reasons = profile_reasons first samples; availability = profileAvailability samples reasons
       in \<lparr>pf_id = profile_key hash first samples, pf_language = sm_language first, pf_providerId = sm_providerId first,
           pf_declarationFamily = sm_declarationFamily first,
           pf_commonPopulationFingerprint = sm_commonPopulationFingerprint first, pf_samples = samples,
           pf_positiveSampleCount = length (filter (confirmed expect_matched) samples),
           pf_negativeSampleCount = length (filter (confirmed expect_rejected) samples), pf_availability = availability,
           pf_eligible = (availability = av_available), pf_reasons = reasons\<rparr>)"

definition str_field :: "(string \<times> json) list \<Rightarrow> string \<Rightarrow> bool" where
  "str_field fs k = (case map_of fs k of Some (JStr _) \<Rightarrow> True | _ \<Rightarrow> False)"

definition one_of_field :: "(string \<times> json) list \<Rightarrow> string \<Rightarrow> string list \<Rightarrow> bool" where
  "one_of_field fs k names = (case map_of fs k of Some (JStr s) \<Rightarrow> s \<in> set names | _ \<Rightarrow> False)"

definition family_names :: "string list" where
  "family_names = [''callable'', ''type'', ''property'', ''unknown'']"

definition valid_sample :: "json \<Rightarrow> bool" where
  "valid_sample v = (case v of
     JObj fs \<Rightarrow> str_field fs ''id'' \<and> str_field fs ''language'' \<and> str_field fs ''providerId''
       \<and> one_of_field fs ''declarationFamily'' family_names \<and> str_field fs ''commonPopulationFingerprint''
       \<and> one_of_field fs ''expected'' [''matched'', ''rejected'']
       \<and> one_of_field fs ''observed'' [''matched'', ''rejected'', ''ambiguous'', ''unavailable'']
       \<and> one_of_field fs ''availability'' [''available'', ''partial'', ''unavailable'']
   | _ \<Rightarrow> False)"

definition supported_schema :: "(string \<times> json) list \<Rightarrow> bool" where
  "supported_schema fs = (case map_of fs ''schemaVersion'' of
     Some (JNum n) \<Rightarrow> supportsPersistedVersion SYMBOL_CALIBRATION_SCHEMA_BOUNDARY n | _ \<Rightarrow> False)"

definition valid_profile_fields :: "(string \<times> json) list \<Rightarrow> bool" where
  "valid_profile_fields fs =
     (str_field fs ''id'' \<and> str_field fs ''language'' \<and> str_field fs ''providerId''
      \<and> one_of_field fs ''declarationFamily'' family_names \<and> str_field fs ''commonPopulationFingerprint''
      \<and> (case map_of fs ''samples'' of Some (JArr ss) \<Rightarrow> list_all valid_sample ss | _ \<Rightarrow> False))"

definition parseSymbolCalibrationProfile :: "json \<Rightarrow> json result" where
  "parseSymbolCalibrationProfile v = (case v of
     JObj fs \<Rightarrow>
       (if \<not> supported_schema fs then Inl ''invalid symbol calibration profile schema''
        else if \<not> valid_profile_fields fs then Inl ''invalid symbol calibration profile fields''
        else Inr (JObj fs))
   | _ \<Rightarrow> Inl ''invalid symbol calibration profile schema'')"


section \<open>Pairing is a function of the two counts\<close>

definition with_identity :: "string \<Rightarrow> SymbolUseFact list \<Rightarrow> SymbolUseFact list" where
  "with_identity identity facts = filter (\<lambda>f. symbolVersionDeclarationIdentity f = identity) facts"

lemma groupedFacts_get:
  "or_default (map_get (groupedFacts facts) identity) [] = with_identity identity facts"
  "fst ` set (groupedFacts facts) = symbolVersionDeclarationIdentity ` set facts"
proof -
  have "or_default (map_get (foldl (\<lambda>m f. map_set m (symbolVersionDeclarationIdentity f)
       (or_default (map_get m (symbolVersionDeclarationIdentity f)) [] @ [f])) m facts) identity) []
      = or_default (map_get m identity) [] @ with_identity identity facts
    \<and> fst ` set (foldl (\<lambda>m f. map_set m (symbolVersionDeclarationIdentity f)
       (or_default (map_get m (symbolVersionDeclarationIdentity f)) [] @ [f])) m facts)
      = fst ` set m \<union> symbolVersionDeclarationIdentity ` set facts" for m
    by (induction facts arbitrary: m) (auto simp: with_identity_def)
  from this [of "[]"] show "or_default (map_get (groupedFacts facts) identity) [] = with_identity identity facts"
    "fst ` set (groupedFacts facts) = symbolVersionDeclarationIdentity ` set facts"
    by (simp_all add: groupedFacts_def)
qed

lemma pairVersioned_unfold:
  "pairVersionedSymbolDeclarations before after
     = map (\<lambda>i. pair_of i (with_identity i before) (with_identity i after))
         (sorted_uniq (map symbolVersionDeclarationIdentity (before @ after)))"
proof -
  have "sorted_uniq (map_keys (groupedFacts before) @ map_keys (groupedFacts after))
      = sorted_uniq (map symbolVersionDeclarationIdentity (before @ after))"
    by (rule sorted_uniq_cong) (auto simp: groupedFacts_get)
  then show ?thesis by (simp add: pairVersionedSymbolDeclarations_def Let_def groupedFacts_get)
qed

lemma pair_identity [simp]: "sp_identity (pair_of i b a) = i"
  by (simp add: pair_of_def split: list.splits)

lemma pair_status:
  "sp_status (pair_of i b a) = ps_ambiguous \<longleftrightarrow> 1 < length b \<or> 1 < length a"
  "sp_status (pair_of i b a) = ps_matched \<longleftrightarrow> length b = 1 \<and> length a = 1"
  "sp_status (pair_of i b a) = ps_removed \<longleftrightarrow> length b = 1 \<and> a = []"
  by (cases b; cases a; simp add: pair_of_def)+

lemma pair_facts:
  "sp_before (pair_of i b a) = Some f \<Longrightarrow> f \<in> set b"
  "sp_after (pair_of i b a) = Some f \<Longrightarrow> f \<in> set a"
  by (cases b; cases a; auto simp: pair_of_def split: if_splits)+

lemma versionIdentity_inj:
  assumes "symbolVersionDeclarationIdentity f = symbolVersionDeclarationIdentity g"
    and "\<forall>x \<in> {f, g}. NUL \<notin> set (su_language x) \<and> NUL \<notin> set (sy_file (su_declaration x)) \<and> NUL \<notin> set (sy_name (su_declaration x))"
  shows "su_language f = su_language g \<and> sy_file (su_declaration f) = sy_file (su_declaration g)
    \<and> sy_kind (su_declaration f) = sy_kind (su_declaration g) \<and> sy_name (su_declaration f) = sy_name (su_declaration g)"
proof -
  have kind: "NUL \<notin> set (symbolKindName k)" for k by (cases k) (simp_all add: NUL_def)
  have "[su_language f, sy_file (su_declaration f), symbolKindName (sy_kind (su_declaration f)), sy_name (su_declaration f)]
      = [su_language g, sy_file (su_declaration g), symbolKindName (sy_kind (su_declaration g)), sy_name (su_declaration g)]"
    using assms unfolding symbolVersionDeclarationIdentity_def by (intro join_inj [of _ _ NUL]) (simp_all add: kind)
  moreover have "symbolKindName k = symbolKindName k' \<longleftrightarrow> k = k'" for k k' by (cases k; cases k') simp_all
  ultimately show ?thesis by simp
qed

lemma commonPopulation_files:
  "set (vp_files (commonSymbolVersionedPopulation hash b bs a as)) = set bs \<inter> set as"
  "sorted (vp_files (commonSymbolVersionedPopulation hash b bs a as))"
  "distinct (vp_files (commonSymbolVersionedPopulation hash b bs a as))"
  by (auto simp: commonSymbolVersionedPopulation_def Let_def)

section \<open>When a profile is eligible\<close>

lemma reason_list_Nil [simp]: "reason_list [] = []"
  by (simp add: reason_list_def)

lemma reason_list_Cons [simp]:
  "reason_list (only_if c r # rs) = (if c \<and> r \<noteq> [] then r # reason_list rs else reason_list rs)"
  "reason_list (None # rs) = reason_list rs"
  "reason_list (Some r # rs) = (if r \<noteq> [] then r # reason_list rs else reason_list rs)"
  by (cases c; simp add: reason_list_def)+

definition same_identity :: "SymbolCalibrationSample \<Rightarrow> SymbolCalibrationSample \<Rightarrow> bool" where
  "same_identity s first = (sm_language s = sm_language first \<and> sm_providerId s = sm_providerId first
     \<and> sm_declarationFamily s = sm_declarationFamily first
     \<and> sm_commonPopulationFingerprint s = sm_commonPopulationFingerprint first)"

lemma sampleIdentityReasons_Nil:
  "sampleIdentityReasons s first = [] \<longleftrightarrow> same_identity s first \<and> sm_declarationFamily s \<noteq> None"
  by (auto simp: sampleIdentityReasons_def same_identity_def)

lemma sampleEvidenceReasons_Nil:
  "sampleEvidenceReasons s = [] \<longleftrightarrow> sm_availability s = av_available \<and> sm_observed s = expectedObservation (sm_expected s)"
  by (auto simp: sampleEvidenceReasons_def)

lemma sample_steps_Nil:
  "snd (foldl (sample_step first) (ids, rs) samples) = [] \<longleftrightarrow>
     rs = [] \<and> distinct (map sm_id samples) \<and> set ids \<inter> sm_id ` set samples = {}
     \<and> (\<forall>s \<in> set samples. sampleIdentityReasons s first = [] \<and> sampleEvidenceReasons s = [])"
  by (induction samples arbitrary: ids rs) (auto simp: sample_step_def split: if_splits)

definition sound_samples :: "SymbolCalibrationSample list \<Rightarrow> bool" where
  "sound_samples samples = (samples \<noteq> [] \<and> distinct (map sm_id samples)
     \<and> (\<forall>s \<in> set samples. \<forall>t \<in> set samples. same_identity s t)
     \<and> (\<forall>s \<in> set samples. sm_declarationFamily s \<noteq> None \<and> sm_availability s = av_available
          \<and> sm_observed s = expectedObservation (sm_expected s))
     \<and> (\<exists>s \<in> set samples. sm_expected s = expect_matched) \<and> (\<exists>s \<in> set samples. sm_expected s = expect_rejected))"

lemma profile_reasons_Nil:
  "profile_reasons first samples = [] \<longleftrightarrow>
     distinct (map sm_id samples)
     \<and> (\<forall>s \<in> set samples. same_identity s first \<and> sm_declarationFamily s \<noteq> None \<and> sm_availability s = av_available
          \<and> sm_observed s = expectedObservation (sm_expected s))
     \<and> (\<exists>s \<in> set samples. confirmed expect_matched s) \<and> (\<exists>s \<in> set samples. confirmed expect_rejected s)"
  by (auto simp: profile_reasons_def sample_steps_Nil sampleIdentityReasons_Nil sampleEvidenceReasons_Nil
      filter_empty_conv split: if_splits)

lemma profile_eligible_iff:
  "pf_eligible (buildSymbolCalibrationProfile hash samples) \<longleftrightarrow> sound_samples samples"
proof (cases samples)
  case Nil
  then show ?thesis by (simp add: buildSymbolCalibrationProfile_def empty_profile_def sound_samples_def)
next
  case (Cons first rest)
  have "pf_eligible (buildSymbolCalibrationProfile hash samples) \<longleftrightarrow> profile_reasons first samples = []"
    by (auto simp: buildSymbolCalibrationProfile_def Cons profileAvailability_def profile_reasons_Nil list_all_iff)
  also have "\<dots> \<longleftrightarrow> sound_samples samples"
  proof
    assume r: "profile_reasons first samples = []"
    then have "\<forall>s \<in> set samples. \<forall>t \<in> set samples. same_identity s t"
      unfolding profile_reasons_Nil same_identity_def by metis
    with r show "sound_samples samples"
      unfolding profile_reasons_Nil sound_samples_def confirmed_def by (auto simp: Cons)
  next
    assume s: "sound_samples samples"
    then have "\<exists>s \<in> set samples. confirmed expect_matched s" "\<exists>s \<in> set samples. confirmed expect_rejected s"
      unfolding sound_samples_def confirmed_def by metis+
    moreover have "first \<in> set samples" by (simp add: Cons)
    ultimately show "profile_reasons first samples = []"
      using s unfolding profile_reasons_Nil sound_samples_def by blast
  qed
  finally show ?thesis .
qed

lemma profile_id: "samples = s # ss \<Longrightarrow> pf_id (buildSymbolCalibrationProfile hash samples) = profile_key hash s samples"
  by (simp add: buildSymbolCalibrationProfile_def Let_def)

text \<open>The key of an eligible profile does not depend on the order of its samples.\<close>

lemma profile_key_order:
  assumes "mset samples = mset samples'" "sound_samples samples"
  shows "pf_id (buildSymbolCalibrationProfile hash samples) = pf_id (buildSymbolCalibrationProfile hash samples')"
proof -
  obtain s ss where s: "samples = s # ss" using assms(2) by (cases samples) (auto simp: sound_samples_def)
  obtain t ts where t: "samples' = t # ts" using assms(1) s by (cases samples') auto
  have "t \<in> set samples" using assms(1) t by (metis list.set_intros(1) set_mset_mset)
  then have "same_identity s t" using assms(2) by (auto simp: sound_samples_def s)
  moreover have "sort (map sm_id samples) = sort (map sm_id samples')"
    using assms(1) by (metis mset_map properties_for_sort_key sorted_list_of_multiset_mset)
  ultimately show ?thesis
    using profile_id [of samples s ss hash] profile_id [of samples' t ts hash]
    unfolding profile_key_def by (simp only: s t same_identity_def refl simp_thms)
qed

section \<open>Stored profiles\<close>

definition text_field :: "string \<Rightarrow> string \<Rightarrow> string \<times> json" where
  "text_field k v = (k, JStr v)"

definition sample_json :: "SymbolCalibrationSample \<Rightarrow> json" where
  "sample_json s = JObj ([text_field ''id'' (sm_id s), text_field ''language'' (sm_language s),
     text_field ''providerId'' (sm_providerId s),
     text_field ''declarationFamily'' (calibrationFamilyName (sm_declarationFamily s)),
     text_field ''commonPopulationFingerprint'' (sm_commonPopulationFingerprint s),
     text_field ''expected'' (observationName (expectedObservation (sm_expected s))),
     text_field ''observed'' (observationName (sm_observed s)),
     text_field ''availability'' (availabilityName (sm_availability s))]
     @ json_field ''reason'' (map_option JStr (sm_reason s)))"

definition profile_json :: "SymbolCalibrationProfile \<Rightarrow> json" where
  "profile_json p = JObj [(''schemaVersion'', JNum (Fin 1)), text_field ''id'' (pf_id p),
     text_field ''language'' (pf_language p), text_field ''providerId'' (pf_providerId p),
     text_field ''declarationFamily'' (calibrationFamilyName (pf_declarationFamily p)),
     text_field ''commonPopulationFingerprint'' (pf_commonPopulationFingerprint p),
     (''samples'', JArr (map sample_json (pf_samples p))),
     (''positiveSampleCount'', JNum (Fin (pf_positiveSampleCount p))),
     (''negativeSampleCount'', JNum (Fin (pf_negativeSampleCount p))),
     text_field ''availability'' (availabilityName (pf_availability p)), (''eligible'', JBool (pf_eligible p)),
     (''reasons'', JArr (map JStr (pf_reasons p)))]"

lemma names_known:
  "calibrationFamilyName f \<in> set family_names"
  "observationName (expectedObservation e) \<in> set [''matched'', ''rejected'']"
  "observationName ob \<in> set [''matched'', ''rejected'', ''ambiguous'', ''unavailable'']"
  "availabilityName av \<in> set [''available'', ''partial'', ''unavailable'']"
proof -
  show "calibrationFamilyName f \<in> set family_names"
    by (cases f; cases "the f") (simp_all add: calibrationFamilyName_def family_names_def)
  show "observationName (expectedObservation e) \<in> set [''matched'', ''rejected'']"
    by (cases e) (simp_all add: expectedObservation_def)
  show "observationName ob \<in> set [''matched'', ''rejected'', ''ambiguous'', ''unavailable'']"
    by (cases ob) simp_all
  show "availabilityName av \<in> set [''available'', ''partial'', ''unavailable'']"
    by (cases av) simp_all
qed

lemma valid_sample_json: "valid_sample (sample_json s)"
  using names_known
  by (simp add: valid_sample_def sample_json_def text_field_def str_field_def one_of_field_def del: list.set)

lemma parse_profile_json: "parseSymbolCalibrationProfile (profile_json p) = Inr (profile_json p)"
  using names_known
  by (simp add: parseSymbolCalibrationProfile_def profile_json_def text_field_def supported_schema_def
      supportsPersistedVersion_def SYMBOL_CALIBRATION_SCHEMA_BOUNDARY_def valid_profile_fields_def str_field_def
      one_of_field_def list_all_iff valid_sample_json del: list.set)

text \<open>The validation does not look at the fields that decide whether a profile is used.\<close>

lemma parse_ignores_eligible:
  "parseSymbolCalibrationProfile (JObj [(''schemaVersion'', JNum (Fin 1)), text_field ''id'' ''p'',
     text_field ''language'' ''go'', text_field ''providerId'' ''gopls'', text_field ''declarationFamily'' ''type'',
     text_field ''commonPopulationFingerprint'' ''f'', (''samples'', JArr []), (''eligible'', JStr ''yes'')])
   = Inr (JObj [(''schemaVersion'', JNum (Fin 1)), text_field ''id'' ''p'',
     text_field ''language'' ''go'', text_field ''providerId'' ''gopls'', text_field ''declarationFamily'' ''type'',
     text_field ''commonPopulationFingerprint'' ''f'', (''samples'', JArr []), (''eligible'', JStr ''yes'')])"
  by (simp add: parseSymbolCalibrationProfile_def text_field_def supported_schema_def
      supportsPersistedVersion_def SYMBOL_CALIBRATION_SCHEMA_BOUNDARY_def valid_profile_fields_def str_field_def
      one_of_field_def family_names_def)

section \<open>Properties\<close>

text \<open>A calibration profile is eligible exactly when its samples have distinct ids, one identity,
  were all available and observed as expected, and include a positive and a negative sample.\<close>

theorem profile_eligibility:
  "pf_eligible (buildSymbolCalibrationProfile hash samples) \<longleftrightarrow> sound_samples samples"
  by (rule profile_eligible_iff)

text \<open>A profile that was written as JSON is read back unchanged.\<close>

theorem profile_round_trip: "parseSymbolCalibrationProfile (profile_json p) = Inr (profile_json p)"
  by (rule parse_profile_json)

text \<open>The parser accepts a profile whose \<open>eligible\<close> field is no boolean and that has no sample.\<close>

theorem parser_trusts_eligible:
  "parseSymbolCalibrationProfile (JObj [(''schemaVersion'', JNum (Fin 1)), text_field ''id'' ''p'',
     text_field ''language'' ''go'', text_field ''providerId'' ''gopls'', text_field ''declarationFamily'' ''type'',
     text_field ''commonPopulationFingerprint'' ''f'', (''samples'', JArr []), (''eligible'', JStr ''yes'')])
   = Inr (JObj [(''schemaVersion'', JNum (Fin 1)), text_field ''id'' ''p'',
     text_field ''language'' ''go'', text_field ''providerId'' ''gopls'', text_field ''declarationFamily'' ''type'',
     text_field ''commonPopulationFingerprint'' ''f'', (''samples'', JArr []), (''eligible'', JStr ''yes'')])
   \<and> \<not> pf_eligible (buildSymbolCalibrationProfile hash [])"
  by (simp add: parse_ignores_eligible profile_eligible_iff sound_samples_def)

end
