(* ===== verification/Symbol_Scope.thy ===== *)
theory Symbol_Scope
  imports Symbol_Evidence Weights
begin

text \<open>
  The admission decision (\<open>symbolScopeAdmission.ts\<close>), the shadow metric
  (\<open>symbolScopeMetric.ts\<close>) and the historical evidence (\<open>symbolScopeShadowEvidence.ts\<close>) of
  symbol-scope impact. The structural inputs may be any JavaScript number.
\<close>

section \<open>Admission\<close>

record SymbolScopeAdmissionRequirement =
  ar_id :: string
  ar_availability :: GovernanceAvailability
  ar_reason :: "string option"

record SymbolScopeImpactAdmission =
  sa_language :: string
  sa_providerId :: string
  sa_file :: string
  sa_symbol :: string
  sa_availability :: GovernanceAvailability
  sa_eligible :: bool
  sa_requirements :: "SymbolScopeAdmissionRequirement list"

definition availabilityOf :: "SymbolScopeAdmissionRequirement list \<Rightarrow> GovernanceAvailability" where
  "availabilityOf requirements =
     (if list_all (\<lambda>r. ar_availability r = av_available) requirements then av_available
      else if list_all (\<lambda>r. ar_availability r = av_unavailable) requirements then av_unavailable else av_partial)"

definition assessSymbolScopeImpactAdmission ::
  "string \<Rightarrow> string \<Rightarrow> string \<Rightarrow> string \<Rightarrow> SymbolScopeAdmissionRequirement list \<Rightarrow> SymbolScopeImpactAdmission" where
  "assessSymbolScopeImpactAdmission language providerId src symbol requirements =
     \<lparr>sa_language = language, sa_providerId = providerId, sa_file = src, sa_symbol = symbol,
      sa_availability = availabilityOf requirements, sa_eligible = (availabilityOf requirements = av_available),
      sa_requirements = requirements\<rparr>"

lemma admission_eligible_iff:
  "sa_eligible (assessSymbolScopeImpactAdmission language providerId src symbol requirements)
     \<longleftrightarrow> (\<forall>r \<in> set requirements. ar_availability r = av_available)"
  by (auto simp: assessSymbolScopeImpactAdmission_def availabilityOf_def list_all_iff)

section \<open>The shadow metric\<close>

record SymbolScopeMetricInput =
  mi_language :: string
  mi_providerId :: string
  mi_file :: string
  mi_symbol :: string
  mi_declarationFamily :: SymbolUseDeclarationFamily
  mi_changeKind :: ChangeKind
  mi_alphaStruct :: jsnum
  mi_layerWeight :: jsnum
  mi_repositoryReferences :: "string list"
  mi_staticImportConsumers :: "string list option"
  mi_declarationsCoverage :: SymbolUseCoverage
  mi_repositoryReferencesCoverage :: SymbolUseCoverage
  mi_publicSurface :: PublicSurface
  mi_commonPopulationFingerprint :: string
  mi_calibrationProfile :: SymbolCalibrationProfile

record SymbolScopeMetricResult =
  mr_language :: string
  mr_providerId :: string
  mr_file :: string
  mr_symbol :: string
  mr_declarationFamily :: SymbolUseDeclarationFamily
  mr_lambdaAst :: real
  mr_alphaStruct :: jsnum
  mr_layerWeight :: jsnum
  mr_availability :: GovernanceAvailability
  mr_eligible :: bool
  mr_symbolConsumerCount :: "nat option"
  mr_staticConsumerCount :: "nat option"
  mr_symbolScopeImpact :: "jsnum option"
  mr_staticComparableImpact :: "jsnum option"
  mr_reasons :: "string list"

definition complete_coverage :: "SymbolScopeMetricInput \<Rightarrow> bool" where
  "complete_coverage input =
     (mi_declarationsCoverage input = cv_complete \<and> mi_repositoryReferencesCoverage input = cv_complete)"

definition identityMatches :: "SymbolScopeMetricInput \<Rightarrow> bool" where
  "identityMatches input =
     (pf_language (mi_calibrationProfile input) = mi_language input
      \<and> pf_providerId (mi_calibrationProfile input) = mi_providerId input
      \<and> pf_declarationFamily (mi_calibrationProfile input) = Some (mi_declarationFamily input)
      \<and> pf_commonPopulationFingerprint (mi_calibrationProfile input) = mi_commonPopulationFingerprint input)"

definition finiteNonNegative :: "jsnum \<Rightarrow> bool" where
  "finiteNonNegative v = (is_finite v \<and> num_le (Fin 0) v)"

definition impactFor :: "SymbolScopeMetricInput \<Rightarrow> nat \<Rightarrow> jsnum" where
  "impactFor input consumerCount =
     num_mul (num_mul (num_mul (Fin (LAMBDA_AST (mi_changeKind input))) (mi_alphaStruct input))
       (Fin (log 2 (consumerCount + 1)))) (mi_layerWeight input)"

definition metric_reasons :: "SymbolScopeMetricInput \<Rightarrow> string list" where
  "metric_reasons input = reason_list
     [only_if (\<not> finiteNonNegative (mi_alphaStruct input)) ''alpha_struct must be finite and non-negative'',
      only_if (\<not> finiteNonNegative (mi_layerWeight input)) ''layer weight must be finite and non-negative'',
      only_if (\<not> pf_eligible (mi_calibrationProfile input)) ''calibration profile is not eligible'',
      only_if (\<not> identityMatches input) ''metric input does not match calibration profile identity'',
      only_if (mi_publicSurface input = surface_unknown) ''public surface is unknown'',
      only_if (\<not> complete_coverage input) ''symbol declaration or repository reference coverage is incomplete'']"

definition consumers_of :: "string \<Rightarrow> string list \<Rightarrow> string list" where
  "consumers_of own files = sorted_uniq (filter (\<lambda>f. f \<noteq> own) files)"

definition computeSymbolScopeMetric :: "SymbolScopeMetricInput \<Rightarrow> SymbolScopeMetricResult" where
  "computeSymbolScopeMetric input =
     (let reasons = metric_reasons input;
          symbolConsumers = consumers_of (mi_file input) (mi_repositoryReferences input);
          staticConsumers = map_option (consumers_of (mi_file input)) (mi_staticImportConsumers input);
          available = (reasons = []);
          profile = mi_calibrationProfile input;
          unavailable = (pf_commonPopulationFingerprint profile = []
            \<or> pf_availability profile = av_unavailable \<and> \<not> pf_eligible profile)
      in \<lparr>mr_language = mi_language input, mr_providerId = mi_providerId input, mr_file = mi_file input,
          mr_symbol = mi_symbol input, mr_declarationFamily = mi_declarationFamily input,
          mr_lambdaAst = LAMBDA_AST (mi_changeKind input), mr_alphaStruct = mi_alphaStruct input,
          mr_layerWeight = mi_layerWeight input,
          mr_availability = (if available then av_available else if unavailable then av_unavailable else av_partial),
          mr_eligible = available,
          mr_symbolConsumerCount = only_if available (length symbolConsumers),
          mr_staticConsumerCount = (if available then map_option length staticConsumers else None),
          mr_symbolScopeImpact = only_if available (impactFor input (length symbolConsumers)),
          mr_staticComparableImpact =
            (if available then map_option (\<lambda>cs. impactFor input (length cs)) staticConsumers else None),
          mr_reasons = reasons\<rparr>)"

definition metric_admissible :: "SymbolScopeMetricInput \<Rightarrow> bool" where
  "metric_admissible input =
     (finiteNonNegative (mi_alphaStruct input) \<and> finiteNonNegative (mi_layerWeight input)
      \<and> pf_eligible (mi_calibrationProfile input) \<and> identityMatches input
      \<and> mi_publicSurface input \<noteq> surface_unknown \<and> complete_coverage input)"

lemma metric_reasons_Nil: "metric_reasons input = [] \<longleftrightarrow> metric_admissible input"
  by (auto simp: metric_reasons_def metric_admissible_def)

lemma length_consumers: "length (consumers_of own files) = card (set files - {own})"
proof -
  have "set (filter (\<lambda>f. f \<noteq> own) files) = set files - {own}" by auto
  then show ?thesis by (simp add: consumers_of_def length_sorted_uniq)
qed

lemma impactFor_finite:
  assumes "mi_alphaStruct input = Fin a" "mi_layerWeight input = Fin w"
  shows "impactFor input n = Fin (LAMBDA_AST (mi_changeKind input) * a * log 2 (real n + 1) * w)"
  using assms by (simp add: impactFor_def add.commute)

text \<open>
  An impact is reported exactly for an admissible input; it is then finite and not negative, and
  depends on the number of other files that refer to the symbol.
\<close>

lemma metric_value:
  "mr_eligible (computeSymbolScopeMetric input) \<longleftrightarrow> metric_admissible input"
  "mr_availability (computeSymbolScopeMetric input) = av_available \<longleftrightarrow> metric_admissible input"
  "\<not> metric_admissible input \<Longrightarrow> mr_symbolScopeImpact (computeSymbolScopeMetric input) = None"
  "metric_admissible input \<Longrightarrow> \<exists>a w. mi_alphaStruct input = Fin a \<and> mi_layerWeight input = Fin w
     \<and> mr_symbolScopeImpact (computeSymbolScopeMetric input)
        = Some (Fin (LAMBDA_AST (mi_changeKind input) * a
            * log 2 (real (card (set (mi_repositoryReferences input) - {mi_file input})) + 1) * w))
     \<and> 0 \<le> LAMBDA_AST (mi_changeKind input) * a
            * log 2 (real (card (set (mi_repositoryReferences input) - {mi_file input})) + 1) * w"
proof -
  show "mr_eligible (computeSymbolScopeMetric input) \<longleftrightarrow> metric_admissible input"
    "mr_availability (computeSymbolScopeMetric input) = av_available \<longleftrightarrow> metric_admissible input"
    "\<not> metric_admissible input \<Longrightarrow> mr_symbolScopeImpact (computeSymbolScopeMetric input) = None"
    by (simp_all add: computeSymbolScopeMetric_def Let_def metric_reasons_Nil)
  assume adm: "metric_admissible input"
  then obtain a w where aw: "mi_alphaStruct input = Fin a" "mi_layerWeight input = Fin w" "0 \<le> a" "0 \<le> w"
    by (auto simp: metric_admissible_def finiteNonNegative_def is_finite_iff)
  have "0 \<le> log 2 (real n + 1)" for n by simp
  then have "0 \<le> LAMBDA_AST (mi_changeKind input) * a * log 2 (real n + 1) * w" for n
    using aw by simp
  then show "\<exists>a w. mi_alphaStruct input = Fin a \<and> mi_layerWeight input = Fin w
     \<and> mr_symbolScopeImpact (computeSymbolScopeMetric input)
        = Some (Fin (LAMBDA_AST (mi_changeKind input) * a
            * log 2 (real (card (set (mi_repositoryReferences input) - {mi_file input})) + 1) * w))
     \<and> 0 \<le> LAMBDA_AST (mi_changeKind input) * a
            * log 2 (real (card (set (mi_repositoryReferences input) - {mi_file input})) + 1) * w"
    using aw adm by (simp add: computeSymbolScopeMetric_def Let_def metric_reasons_Nil impactFor_finite length_consumers)
qed

section \<open>Historical shadow evidence\<close>

record SymbolScopeHistoricalStructuralInput =
  hi_identity :: string
  hi_changeKind :: ChangeKind
  hi_alphaStruct :: jsnum
  hi_layerWeight :: jsnum
  hi_staticImportConsumers :: "string list option"

datatype ItemStatus = PairStatus SymbolDeclarationPairStatus | MissingPair

datatype Revision = rev_before | rev_after

record SymbolScopeShadowEvidenceItem =
  ei_identity :: string
  ei_pairStatus :: ItemStatus
  ei_referenceRevision :: "Revision option"
  ei_availability :: GovernanceAvailability
  ei_calibrationProfileId :: "string option"
  ei_metric :: "SymbolScopeMetricResult option"
  ei_reasons :: "string list"

record SymbolScopeShadowEvidenceReport =
  er_language :: string
  er_beforeRevision :: string
  er_afterRevision :: string
  er_commonPopulationFingerprint :: string
  er_availability :: GovernanceAvailability
  er_items :: "SymbolScopeShadowEvidenceItem list"
  er_reasons :: "string list"

definition evidenceAvailability :: "string list \<Rightarrow> GovernanceAvailability" where
  "evidenceAvailability reasons =
     (if reasons = [] then av_available
      else if list_all (\<lambda>r. starts_with r ''unavailable:'') reasons then av_unavailable else av_partial)"

definition selectedFact :: "SymbolDeclarationPair \<Rightarrow> (SymbolUseFact \<times> Revision) option" where
  "selectedFact pair =
     (case (sp_status pair, sp_before pair, sp_after pair) of
        (ps_removed, Some b, _) \<Rightarrow> Some (b, rev_before)
      | (ps_matched, _, Some a) \<Rightarrow> Some (a, rev_after)
      | (ps_added, _, Some a) \<Rightarrow> Some (a, rev_after)
      | _ \<Rightarrow> None)"

definition profile_matches ::
  "string \<Rightarrow> string \<Rightarrow> SymbolUseDeclarationFamily \<Rightarrow> string \<Rightarrow> SymbolCalibrationProfile \<Rightarrow> bool" where
  "profile_matches language providerId family fingerprint p =
     (pf_eligible p \<and> pf_language p = language \<and> pf_providerId p = providerId
      \<and> pf_declarationFamily p = Some family \<and> pf_commonPopulationFingerprint p = fingerprint)"

text \<open>The one profile that matches, or the reason that there is none.\<close>

definition profileFor ::
  "SymbolCalibrationProfile list \<Rightarrow> string \<Rightarrow> string \<Rightarrow> SymbolUseDeclarationFamily \<Rightarrow> string
     \<Rightarrow> string + SymbolCalibrationProfile" where
  "profileFor profiles language providerId family fingerprint =
     (case filter (profile_matches language providerId family fingerprint) profiles of
        [] \<Rightarrow> Inl ''no eligible calibration profile matches language, provider, declaration family and common population''
      | [p] \<Rightarrow> Inr p
      | _ \<Rightarrow> Inl ''multiple eligible calibration profiles match this evidence identity'')"

definition revisionName :: "Revision \<Rightarrow> string" where
  "revisionName r = (case r of rev_before \<Rightarrow> ''before'' | rev_after \<Rightarrow> ''after'')"

definition side :: "SymbolVersionPairReport \<Rightarrow> Revision \<Rightarrow> SymbolUseReport option" where
  "side report r = (case r of rev_before \<Rightarrow> vr_before report | rev_after \<Rightarrow> vr_after report)"

definition other_side :: "SymbolVersionPairReport \<Rightarrow> Revision \<Rightarrow> SymbolUseReport option" where
  "other_side report r = (case r of rev_before \<Rightarrow> vr_after report | rev_after \<Rightarrow> vr_before report)"

definition side_is :: "SymbolUseReport option \<Rightarrow> GovernanceAvailability \<Rightarrow> bool" where
  "side_is r av = (case r of None \<Rightarrow> False | Some r \<Rightarrow> es_availability (sup_state r) = av)"

definition side_declarations :: "SymbolUseReport option \<Rightarrow> SymbolUseCoverage option" where
  "side_declarations r = map_option (\<lambda>r. cs_declarations (es_coverage (sup_state r))) r"

definition side_references :: "SymbolUseReport option \<Rightarrow> SymbolUseCoverage option" where
  "side_references r = map_option (\<lambda>r. cs_repositoryReferences (es_coverage (sup_state r))) r"

definition providers_differ :: "SymbolUseReport option \<Rightarrow> SymbolUseReport option \<Rightarrow> bool" where
  "providers_differ l r = (case (l, r) of
     (Some l, Some r) \<Rightarrow> or_providerId (sup_origin l) \<noteq> or_providerId (sup_origin r) | _ \<Rightarrow> False)"

definition pairProviderReasons :: "SymbolVersionPairReport \<Rightarrow> Revision \<Rightarrow> string list" where
  "pairProviderReasons report revision =
     (let selected = side report revision; other = other_side report revision in reason_list
       [only_if (vr_availability report = av_unavailable) ''unavailable: version-pair report is unavailable'',
        only_if (vr_availability report = av_partial) ''version-pair report is partial'',
        only_if (selected = None) (''unavailable: '' @ revisionName revision @ '' symbol report is absent''),
        only_if (side_is selected av_unavailable) (''unavailable: '' @ revisionName revision @ '' symbol report is unavailable''),
        only_if (side_is selected av_partial) (revisionName revision @ '' symbol report is partial''),
        only_if (other = None) ''unavailable: paired revision symbol report is absent'',
        only_if (side_is other av_unavailable) ''unavailable: paired revision symbol report is unavailable'',
        only_if (side_is other av_partial) ''paired revision symbol report is partial'',
        only_if (side_declarations selected \<noteq> Some cv_complete \<or> side_declarations other \<noteq> Some cv_complete)
          ''declaration coverage is incomplete across the version pair'',
        only_if (side_references selected \<noteq> Some cv_complete \<or> side_references other \<noteq> Some cv_complete)
          ''repository reference coverage is incomplete across the version pair'',
        only_if (providers_differ selected other) ''before and after symbol providers do not match''])"

definition plain_item :: "string \<Rightarrow> ItemStatus \<Rightarrow> GovernanceAvailability \<Rightarrow> string \<Rightarrow> SymbolScopeShadowEvidenceItem" where
  "plain_item identity status av reason =
     \<lparr>ei_identity = identity, ei_pairStatus = status, ei_referenceRevision = None, ei_availability = av,
      ei_calibrationProfileId = None, ei_metric = None, ei_reasons = [reason]\<rparr>"

definition profile_for_side ::
  "SymbolVersionPairReport \<Rightarrow> SymbolCalibrationProfile list \<Rightarrow> string \<Rightarrow> SymbolUseReport option
     \<Rightarrow> SymbolUseDeclarationFamily \<Rightarrow> string + SymbolCalibrationProfile" where
  "profile_for_side report profiles fingerprint source family =
     (case source of
        None \<Rightarrow> Inl ''unavailable: selected revision has no symbol provider identity''
      | Some r \<Rightarrow>
          (if or_providerId (sup_origin r) = [] then Inl ''unavailable: selected revision has no symbol provider identity''
           else profileFor profiles (vr_language report) (or_providerId (sup_origin r)) family fingerprint))"

definition item_reasons ::
  "SymbolVersionPairReport \<Rightarrow> SymbolScopeHistoricalStructuralInput \<Rightarrow> SymbolUseFact \<Rightarrow> Revision
     \<Rightarrow> string + SymbolCalibrationProfile \<Rightarrow> string list" where
  "item_reasons report input f revision match =
     pairProviderReasons report revision @ reason_list
       [only_if (\<not> finiteNonNegative (hi_alphaStruct input)) ''alpha_struct must be finite and non-negative'',
        only_if (\<not> finiteNonNegative (hi_layerWeight input)) ''layer weight must be finite and non-negative'',
        only_if (su_publicSurface f = surface_unknown) ''public surface is unknown'',
        (case match of Inl reason \<Rightarrow> Some reason | Inr _ \<Rightarrow> None)]"

definition metric_input ::
  "SymbolVersionPairReport \<Rightarrow> SymbolScopeHistoricalStructuralInput \<Rightarrow> SymbolUseFact \<Rightarrow> SymbolUseReport \<Rightarrow> string
     \<Rightarrow> SymbolCalibrationProfile \<Rightarrow> SymbolScopeMetricInput" where
  "metric_input report input f source fingerprint profile =
     \<lparr>mi_language = vr_language report, mi_providerId = or_providerId (sup_origin source),
      mi_file = sy_file (su_declaration f), mi_symbol = sy_name (su_declaration f),
      mi_declarationFamily = symbolUseDeclarationFamily (sy_kind (su_declaration f)),
      mi_changeKind = hi_changeKind input, mi_alphaStruct = hi_alphaStruct input, mi_layerWeight = hi_layerWeight input,
      mi_repositoryReferences = map sr_file (su_repositoryReferences f),
      mi_staticImportConsumers = hi_staticImportConsumers input,
      mi_declarationsCoverage = cs_declarations (es_coverage (sup_state source)),
      mi_repositoryReferencesCoverage = cs_repositoryReferences (es_coverage (sup_state source)),
      mi_publicSurface = su_publicSurface f, mi_commonPopulationFingerprint = fingerprint,
      mi_calibrationProfile = profile\<rparr>"

definition selected_item ::
  "SymbolVersionPairReport \<Rightarrow> SymbolScopeHistoricalStructuralInput \<Rightarrow> SymbolCalibrationProfile list \<Rightarrow> string
     \<Rightarrow> SymbolDeclarationPair \<Rightarrow> SymbolUseFact \<Rightarrow> Revision \<Rightarrow> SymbolScopeShadowEvidenceItem" where
  "selected_item report input profiles fingerprint pair f revision =
     (let source = side report revision;
          family = symbolUseDeclarationFamily (sy_kind (su_declaration f));
          match = profile_for_side report profiles fingerprint source family;
          reasons = item_reasons report input f revision match;
          availability = evidenceAvailability reasons
      in case (availability = av_available, source, match) of
           (True, Some s, Inr profile) \<Rightarrow>
             let metric = computeSymbolScopeMetric (metric_input report input f s fingerprint profile)
             in \<lparr>ei_identity = hi_identity input, ei_pairStatus = PairStatus (sp_status pair),
                 ei_referenceRevision = Some revision, ei_availability = mr_availability metric,
                 ei_calibrationProfileId = Some (pf_id profile), ei_metric = Some metric, ei_reasons = mr_reasons metric\<rparr>
         | _ \<Rightarrow>
             \<lparr>ei_identity = hi_identity input, ei_pairStatus = PairStatus (sp_status pair),
              ei_referenceRevision = Some revision, ei_availability = availability,
              ei_calibrationProfileId = (case match of Inl _ \<Rightarrow> None | Inr p \<Rightarrow> Some (pf_id p)),
              ei_metric = None, ei_reasons = reasons\<rparr>)"

definition evaluateItem ::
  "SymbolVersionPairReport \<Rightarrow> SymbolScopeHistoricalStructuralInput \<Rightarrow> SymbolCalibrationProfile list \<Rightarrow> string
     \<Rightarrow> SymbolScopeShadowEvidenceItem" where
  "evaluateItem report input profiles fingerprint =
     (case find_pair report (hi_identity input) of
        None \<Rightarrow> plain_item (hi_identity input) MissingPair av_unavailable
                 ''unavailable: historical declaration identity was not observed''
      | Some pair \<Rightarrow>
          if sp_status pair = ps_ambiguous then
            plain_item (hi_identity input) (PairStatus (sp_status pair)) av_partial
              (or_default (sp_reason pair) ''historical declaration identity is ambiguous'')
          else case selectedFact pair of
            None \<Rightarrow> plain_item (hi_identity input) (PairStatus (sp_status pair)) av_partial
                     (or_default (sp_reason pair) ''selected historical declaration fact is absent'')
          | Some (f, revision) \<Rightarrow> selected_item report input profiles fingerprint pair f revision)"

definition evaluateSymbolScopeShadowEvidence ::
  "(json \<Rightarrow> string) \<Rightarrow> SymbolVersionPairReport \<Rightarrow> SymbolScopeHistoricalStructuralInput list \<Rightarrow> SymbolCalibrationProfile list
     \<Rightarrow> SymbolScopeShadowEvidenceReport" where
  "evaluateSymbolScopeShadowEvidence hash report structuralInputs calibrationProfiles =
     (let fingerprint = symbolCommonPopulationFingerprint hash (vp_files (vr_population report));
          identities = map hi_identity structuralInputs;
          items = map (\<lambda>i. if count_list identities (hi_identity i) > 1
             then plain_item (hi_identity i) MissingPair av_partial
                    ''multiple structural inputs share one historical declaration identity''
             else evaluateItem report i calibrationProfiles fingerprint) structuralInputs;
          reasons = reason_list
            [only_if (vr_availability report \<noteq> av_available)
               (or_default (vr_reason report) (''version-pair report is '' @ availabilityName (vr_availability report))),
             only_if (structuralInputs = []) ''no historical structural inputs were supplied''];
          availability = (if list_ex (\<lambda>i. ei_availability i = av_available) items then av_available
             else if items \<noteq> [] \<and> list_all (\<lambda>i. ei_availability i = av_unavailable) items then av_unavailable
             else av_partial)
      in \<lparr>er_language = vr_language report, er_beforeRevision = vp_beforeRevision (vr_population report),
          er_afterRevision = vp_afterRevision (vr_population report), er_commonPopulationFingerprint = fingerprint,
          er_availability = (if reasons \<noteq> [] \<and> availability = av_available then av_partial else availability),
          er_items = items, er_reasons = reasons\<rparr>)"

lemma evidenceAvailability_available [simp]: "evidenceAvailability reasons = av_available \<longleftrightarrow> reasons = []"
  by (simp add: evidenceAvailability_def)

lemma pairProviderReasons_Nil:
  "pairProviderReasons report revision = [] \<longleftrightarrow>
     vr_availability report = av_available \<and> report_complete (side report revision) \<and> report_complete (other_side report revision)
     \<and> \<not> providers_differ (side report revision) (other_side report revision)"
proof -
  have av: "x = av_available \<longleftrightarrow> x \<noteq> av_partial \<and> x \<noteq> av_unavailable" for x by (cases x) simp_all
  have complete: "report_complete r \<longleftrightarrow> r \<noteq> None \<and> \<not> side_is r av_unavailable \<and> \<not> side_is r av_partial
      \<and> side_declarations r = Some cv_complete \<and> side_references r = Some cv_complete" for r
    by (cases r) (auto simp: report_complete_def side_is_def side_declarations_def side_references_def av)
  show ?thesis
    unfolding pairProviderReasons_def Let_def complete av [of "vr_availability report"] by auto
qed

lemma profileFor_Inr:
  "profileFor profiles language providerId family fingerprint = Inr p \<longleftrightarrow>
     filter (profile_matches language providerId family fingerprint) profiles = [p]"
  by (auto simp: profileFor_def split: list.splits)

lemma profileFor_Inl: "profileFor profiles language providerId family fingerprint = Inl r \<Longrightarrow> r \<noteq> []"
  by (auto simp: profileFor_def split: list.splits)

text \<open>
  A metric in the evidence was computed for a fact of the selected revision from complete and
  available reports of one provider, with the only profile that matches, and it is eligible.
\<close>

lemma item_metric_sound:
  assumes metric: "ei_metric (evaluateItem report input profiles fingerprint) = Some m"
  shows "mr_eligible m
    \<and> ei_availability (evaluateItem report input profiles fingerprint) = av_available
    \<and> coverageAvailable report
    \<and> (\<exists>pair f revision s p. find_pair report (hi_identity input) = Some pair \<and> selectedFact pair = Some (f, revision)
        \<and> side report revision = Some s
        \<and> filter (profile_matches (vr_language report) (or_providerId (sup_origin s))
             (symbolUseDeclarationFamily (sy_kind (su_declaration f))) fingerprint) profiles = [p]
        \<and> m = computeSymbolScopeMetric (metric_input report input f s fingerprint p))"
proof -
  obtain pair where pair: "find_pair report (hi_identity input) = Some pair"
    using metric by (auto simp: evaluateItem_def plain_item_def split: option.splits)
  obtain f revision where sel: "selectedFact pair = Some (f, revision)"
      and item: "evaluateItem report input profiles fingerprint = selected_item report input profiles fingerprint pair f revision"
    using metric pair by (auto simp: evaluateItem_def plain_item_def split: option.splits if_splits)
  let ?family = "symbolUseDeclarationFamily (sy_kind (su_declaration f))"
  let ?match = "profile_for_side report profiles fingerprint (side report revision) ?family"
  obtain s p where s: "side report revision = Some s" and p: "?match = Inr p"
      and none: "item_reasons report input f revision ?match = []"
      and m: "m = computeSymbolScopeMetric (metric_input report input f s fingerprint p)"
    using metric unfolding item selected_item_def Let_def by (auto split: prod.splits bool.splits option.splits sum.splits)
  have provider: "pairProviderReasons report revision = []" and inputs: "finiteNonNegative (hi_alphaStruct input)"
      "finiteNonNegative (hi_layerWeight input)" "su_publicSurface f \<noteq> surface_unknown"
    using none p by (auto simp: item_reasons_def split: if_splits)
  have only: "filter (profile_matches (vr_language report) (or_providerId (sup_origin s)) ?family fingerprint) profiles = [p]"
    using p by (auto simp: profile_for_side_def s profileFor_Inr split: if_splits)
  have "p \<in> set (filter (profile_matches (vr_language report) (or_providerId (sup_origin s)) ?family fingerprint) profiles)"
    unfolding only by simp
  then have match: "profile_matches (vr_language report) (or_providerId (sup_origin s)) ?family fingerprint p" by simp
  have complete: "report_complete (side report revision)" "report_complete (other_side report revision)"
      "vr_availability report = av_available"
    using provider by (simp_all add: pairProviderReasons_Nil)
  have cov: "coverageAvailable report"
    using complete by (cases revision) (auto simp: coverageAvailable_def side_def other_side_def)
  have adm: "metric_admissible (metric_input report input f s fingerprint p)"
    using inputs match complete(1)
    by (simp add: metric_admissible_def metric_input_def identityMatches_def profile_matches_def complete_coverage_def
        report_complete_def s)
  have "ei_availability (evaluateItem report input profiles fingerprint) = mr_availability m"
    unfolding item selected_item_def Let_def using s p none m by simp
  moreover have "mr_eligible m" "mr_availability m = av_available" using adm by (simp_all add: m metric_value)
  ultimately show ?thesis
    using cov pair sel s only m by (intro conjI exI [of _ pair] exI [of _ f] exI [of _ revision] exI [of _ s] exI [of _ p]) simp_all
qed

lemma duplicate_input_no_metric:
  assumes "item \<in> set (er_items (evaluateSymbolScopeShadowEvidence hash report inputs profiles))" "ei_metric item \<noteq> None"
  obtains input where "input \<in> set inputs" "count_list (map hi_identity inputs) (hi_identity input) = 1"
    "item = evaluateItem report input profiles (symbolCommonPopulationFingerprint hash (vp_files (vr_population report)))"
proof -
  obtain input where i: "input \<in> set inputs"
      "item = (if count_list (map hi_identity inputs) (hi_identity input) > 1
         then plain_item (hi_identity input) MissingPair av_partial
                ''multiple structural inputs share one historical declaration identity''
         else evaluateItem report input profiles (symbolCommonPopulationFingerprint hash (vp_files (vr_population report))))"
    using assms(1) by (auto simp: evaluateSymbolScopeShadowEvidence_def Let_def)
  have "hi_identity input \<in> set (map hi_identity inputs)" using i(1) by simp
  then have "count_list (map hi_identity inputs) (hi_identity input) \<noteq> 0" by (simp only: count_list_0_iff not_not)
  with i assms(2) show thesis by (intro that [of input]) (auto simp: plain_item_def split: if_splits)
qed

section \<open>Properties\<close>

text \<open>A shadow metric in the evidence was computed for a fact of the selected revision from
  complete and available reports of both revisions, with the only calibration profile that matches,
  and it is eligible.\<close>

theorem evidence_metric_sound:
  assumes "ei_metric (evaluateItem report input profiles fingerprint) = Some m"
  shows "mr_eligible m \<and> coverageAvailable report
    \<and> (\<exists>pair f revision s p. find_pair report (hi_identity input) = Some pair \<and> selectedFact pair = Some (f, revision)
        \<and> side report revision = Some s
        \<and> filter (profile_matches (vr_language report) (or_providerId (sup_origin s))
             (symbolUseDeclarationFamily (sy_kind (su_declaration f))) fingerprint) profiles = [p]
        \<and> m = computeSymbolScopeMetric (metric_input report input f s fingerprint p))"
  using item_metric_sound [OF assms] by blast

definition sample_use :: SymbolUseFact where
  "sample_use = \<lparr>su_language = ''go'', su_declaration = \<lparr>sy_file = ''a.go'', sy_name = ''T'', sy_kind = class_kind, sy_line = 1\<rparr>,
     su_repositoryReferences = [\<lparr>sr_file = ''b.go'', sr_line = 3\<rparr>], su_publicSurface = surface_internal\<rparr>"

definition sample_report :: SymbolUseReport where
  "sample_report = \<lparr>sup_origin = \<lparr>or_language = ''go'', or_providerId = ''p'', or_evidenceSource = source_lsp\<rparr>,
     sup_state = \<lparr>es_availability = av_available,
       es_coverage = \<lparr>cs_declarations = cv_complete, cs_repositoryReferences = cv_complete, cs_incompleteReferences = None\<rparr>, es_reason = None\<rparr>,
     sup_facts = [sample_use], sup_scope = None\<rparr>"

definition sample_pair_report :: SymbolVersionPairReport where
  "sample_pair_report = \<lparr>vr_language = ''go'', vr_availability = av_available,
     vr_population = \<lparr>vp_beforeRevision = ''1'', vp_afterRevision = ''2'', vp_files = [], vp_fingerprint = ''f''\<rparr>,
     vr_before = Some sample_report, vr_after = Some sample_report,
     vr_declarations = [\<lparr>sp_identity = ''i'', sp_status = ps_added, sp_before = None, sp_after = Some sample_use, sp_reason = None\<rparr>],
     vr_reason = None\<rparr>"

definition sample_calibration :: SymbolCalibrationProfile where
  "sample_calibration = \<lparr>pf_id = ''c'', pf_language = ''go'', pf_providerId = ''p'', pf_declarationFamily = Some fam_type,
     pf_commonPopulationFingerprint = ''f'', pf_samples = [], pf_positiveSampleCount = 1, pf_negativeSampleCount = 1,
     pf_availability = av_available, pf_eligible = True, pf_reasons = []\<rparr>"

definition sample_structural :: SymbolScopeHistoricalStructuralInput where
  "sample_structural = \<lparr>hi_identity = ''i'', hi_changeKind = class_add_remove, hi_alphaStruct = Fin 1, hi_layerWeight = Fin 1,
     hi_staticImportConsumers = None\<rparr>"

theorem evidence_metric_sound_witness:
  "\<exists>m. ei_metric (evaluateItem sample_pair_report sample_structural [sample_calibration] ''f'') = Some m \<and> mr_eligible m"
proof -
  have pair: "find_pair sample_pair_report ''i'' = Some \<lparr>sp_identity = ''i'', sp_status = ps_added, sp_before = None,
      sp_after = Some sample_use, sp_reason = None\<rparr>"
    by (simp add: find_pair_def sample_pair_report_def)
  have sides: "side sample_pair_report rev_after = Some sample_report" "other_side sample_pair_report rev_after = Some sample_report"
    by (simp_all add: side_def other_side_def sample_pair_report_def)
  have "pairProviderReasons sample_pair_report rev_after = []"
    unfolding pairProviderReasons_Nil sides by (simp add: report_complete_def providers_differ_def sample_report_def sample_pair_report_def)
  moreover have "profile_for_side sample_pair_report [sample_calibration] ''f'' (Some sample_report) fam_type = Inr sample_calibration"
    by (simp add: profile_for_side_def profileFor_def profile_matches_def sample_report_def sample_calibration_def sample_pair_report_def)
  ultimately have "\<exists>m. ei_metric (evaluateItem sample_pair_report sample_structural [sample_calibration] ''f'') = Some m"
    by (simp add: evaluateItem_def sample_structural_def pair selectedFact_def selected_item_def sides item_reasons_def
        sample_use_def symbolUseDeclarationFamily_def finiteNonNegative_def Let_def)
  with evidence_metric_sound show ?thesis by blast
qed

text \<open>The shadow metric of a symbol is reported exactly for an admissible input, and is then
  \<open>\<lambda>_ast * \<alpha> * log2 (consumers + 1) * layer weight\<close> over the other files that refer to the symbol,
  a finite number that is not negative.\<close>

theorem shadow_metric_value:
  "mr_symbolScopeImpact (computeSymbolScopeMetric input)
     = (if metric_admissible input
        then Some (Fin (LAMBDA_AST (mi_changeKind input) * num_val (mi_alphaStruct input)
          * log 2 (real (card (set (mi_repositoryReferences input) - {mi_file input})) + 1) * num_val (mi_layerWeight input)))
        else None)
   \<and> (mr_eligible (computeSymbolScopeMetric input) \<longleftrightarrow> metric_admissible input)"
  using metric_value [of input] by (cases "metric_admissible input") auto

end
