(* ===== verification/Cel.thy ===== *)
theory Cel
  imports Metric_Catalog Js_Number
begin

text \<open>
  The rule language of the gate (\<open>adapter/rule/CelAdapter.ts\<close>): its tokenizer, its recursive
  descent parser and the evaluation of a compiled rule with the comparisons of JavaScript. The
  closures that the parser builds are the values of a syntax tree here, which \<open>eval_expr\<close>
  evaluates; a thrown error is its message. The variables are a JavaScript object; an identifier that only its prototype
  has (\<open>constructor\<close>) is undefined here. The gate accepts no condition on such a name.
\<close>

section \<open>Tokens\<close>

datatype Token = TIdent string | TNumber jsnum | TString string | TOp string | TParen bool \<comment> \<open>True for \<open>(\<close>\<close>

definition isCelWhitespace :: "char \<Rightarrow> bool" where
  "isCelWhitespace c =
     (code c = (32 :: nat) \<or> ((9 :: nat) \<le> code c \<and> code c \<le> (13 :: nat)) \<or> code c = (160 :: nat))"

definition isCelDigitOrDot :: "char \<Rightarrow> bool" where
  "isCelDigitOrDot c = (((48 :: nat) \<le> code c \<and> code c \<le> (57 :: nat)) \<or> code c = (46 :: nat))"

definition isCelIdentifierStart :: "char \<Rightarrow> bool" where
  "isCelIdentifierStart c = (((65 :: nat) \<le> code c \<and> code c \<le> (90 :: nat))
     \<or> ((97 :: nat) \<le> code c \<and> code c \<le> (122 :: nat)) \<or> code c = (95 :: nat))"

definition isCelIdentifierPart :: "char \<Rightarrow> bool" where
  "isCelIdentifierPart c = (isCelIdentifierStart c \<or> ((48 :: nat) \<le> code c \<and> code c \<le> (57 :: nat)))"

definition isCelComparisonChar :: "char \<Rightarrow> bool" where
  "isCelComparisonChar c = (c = CHR ''>'' \<or> c = CHR ''<'' \<or> c = CHR ''='' \<or> c = CHR ''!'')"

text \<open>The character at an index and the one behind it, which may be missing.\<close>

fun next_is :: "(char \<Rightarrow> bool) \<Rightarrow> string \<Rightarrow> bool" where
  "next_is P [] = False"
| "next_is P (c # s) = P c"

definition isCelComparisonWindow :: "char \<Rightarrow> string \<Rightarrow> bool" where
  "isCelComparisonWindow c s = (isCelComparisonChar c \<or> next_is isCelComparisonChar s)"

definition isCelLogicalChar :: "char \<Rightarrow> bool" where
  "isCelLogicalChar c = (c = CHR ''&'' \<or> c = CHR ''|'')"

definition isCelLogicalPair :: "char \<Rightarrow> string \<Rightarrow> bool" where
  "isCelLogicalPair c s = (isCelLogicalChar c \<and> next_is isCelLogicalChar s)"

text \<open>\<open>parseFloat\<close> of a run of digits and dots.\<close>

definition parseFloat_run :: "string \<Rightarrow> jsnum" where
  "parseFloat_run s =
     (let whole = takeWhile is_digit s; rest = dropWhile is_digit s;
          decimals = (if starts_with rest ''.'' then takeWhile is_digit (tl rest) else [])
      in if whole = [] \<and> decimals = [] then NaN else Fin (decimal_value whole decimals))"

definition unexpected_character :: "char \<Rightarrow> string" where
  "unexpected_character c = ''Unexpected character: '' @ [CHR 0x27, c, CHR 0x27]"

definition add_token :: "Token \<Rightarrow> string + Token list \<Rightarrow> string + Token list" where
  "add_token t r = (case r of Inl e \<Rightarrow> Inl e | Inr ts \<Rightarrow> Inr (t # ts))"

definition after_quote :: "char \<Rightarrow> string \<Rightarrow> string" where
  "after_quote q s = tl (dropWhile (\<lambda>d. d \<noteq> q) s)"

lemma length_after_quote: "length (after_quote q s) \<le> length s"
  using length_dropWhile_le [of "\<lambda>d. d \<noteq> q" s] by (simp add: after_quote_def)

function (sequential) tokenize :: "string \<Rightarrow> string + Token list" where
  "tokenize [] = Inr []"
| "tokenize (c # s) =
     (if isCelWhitespace c then tokenize s
      else if c = CHR ''('' \<or> c = CHR '')'' then add_token (TParen (c = CHR ''('')) (tokenize s)
      else if isCelLogicalPair c s then add_token (TOp [c, hd s]) (tokenize (tl s))
      else if isCelComparisonWindow c s then
        (if next_is (\<lambda>d. d = CHR ''='') s then add_token (TOp [c, CHR ''='']) (tokenize (tl s))
         else add_token (TOp [c]) (tokenize s))
      else if c = CHR 0x22 \<or> c = CHR 0x27 then
        add_token (TString (takeWhile (\<lambda>d. d \<noteq> c) s)) (tokenize (after_quote c s))
      else if isCelDigitOrDot c then
        add_token (TNumber (parseFloat_run (c # takeWhile isCelDigitOrDot s))) (tokenize (dropWhile isCelDigitOrDot s))
      else if isCelIdentifierStart c then
        add_token (TIdent (c # takeWhile isCelIdentifierPart s)) (tokenize (dropWhile isCelIdentifierPart s))
      else Inl (unexpected_character c))"
  by pat_completeness auto
termination
  by (relation "measure length") (auto simp: le_imp_less_Suc length_dropWhile_le length_after_quote)

declare tokenize.simps(2) [simp del]

section \<open>Syntax\<close>

datatype CelOp = ceq | cne | cgt | cge | clt | cle

fun op_text :: "CelOp \<Rightarrow> string" where
  "op_text ceq = ''==''"
| "op_text cne = ''!=''"
| "op_text cgt = ''>''"
| "op_text cge = ''>=''"
| "op_text clt = ''<''"
| "op_text cle = ''<=''"

definition comparison_of :: "string \<Rightarrow> CelOp option" where
  "comparison_of v = find (\<lambda>p. op_text p = v) [ceq, cne, cgt, cge, clt, cle]"

datatype celExpr =
    Truthy celValue
  | Compare CelOp celValue celValue
  | Both celExpr celExpr
  | Either celExpr celExpr
and celValue =
    CNum jsnum
  | CStr string
  | CIdent string
  | CParen celExpr

datatype 'a parsed = Parsed 'a "Token list" | Failed string | OutOfFuel

definition token_type :: "Token \<Rightarrow> string" where
  "token_type t = (case t of TIdent _ \<Rightarrow> ''ident'' | TNumber _ \<Rightarrow> ''number'' | TString _ \<Rightarrow> ''string''
     | TOp _ \<Rightarrow> ''op'' | TParen _ \<Rightarrow> ''paren'')"

text \<open>
  The methods of \<open>Parser\<close> on the tokens from \<open>pos\<close> on. Each call costs one unit of fuel;
  \<open>tail\<close> is the loop of \<open>expr\<close>.
\<close>

fun parse_expr :: "nat \<Rightarrow> Token list \<Rightarrow> celExpr parsed"
and parse_tail :: "nat \<Rightarrow> celExpr \<Rightarrow> Token list \<Rightarrow> celExpr parsed"
and parse_comparison :: "nat \<Rightarrow> Token list \<Rightarrow> celExpr parsed"
and parse_value :: "nat \<Rightarrow> Token list \<Rightarrow> celValue parsed" where
  "parse_expr 0 ts = OutOfFuel"
| "parse_expr (Suc n) ts =
     (case parse_comparison n ts of Failed e \<Rightarrow> Failed e | OutOfFuel \<Rightarrow> OutOfFuel
      | Parsed left rest \<Rightarrow> parse_tail n left rest)"
| "parse_tail 0 left ts = OutOfFuel"
| "parse_tail (Suc n) left ts =
     (case ts of
        TOp v # rest \<Rightarrow>
          if v = ''&&'' \<or> v = ''||'' then
            (case parse_comparison n rest of Failed e \<Rightarrow> Failed e | OutOfFuel \<Rightarrow> OutOfFuel
             | Parsed right rest' \<Rightarrow> parse_tail n (if v = ''&&'' then Both left right else Either left right) rest')
          else Parsed left ts
      | _ \<Rightarrow> Parsed left ts)"
| "parse_comparison 0 ts = OutOfFuel"
| "parse_comparison (Suc n) ts =
     (case parse_value n ts of Failed e \<Rightarrow> Failed e | OutOfFuel \<Rightarrow> OutOfFuel
      | Parsed left rest \<Rightarrow>
          (case (case rest of TOp v # _ \<Rightarrow> comparison_of v | _ \<Rightarrow> None) of
             None \<Rightarrow> Parsed (Truthy left) rest
           | Some p \<Rightarrow>
               (case parse_value n (tl rest) of Failed e \<Rightarrow> Failed e | OutOfFuel \<Rightarrow> OutOfFuel
                | Parsed right rest' \<Rightarrow> Parsed (Compare p left right) rest')))"
| "parse_value 0 ts = OutOfFuel"
| "parse_value (Suc n) ts =
     (case ts of
        [] \<Rightarrow> Failed ''Unexpected end of expression''
      | TNumber x # rest \<Rightarrow> Parsed (CNum x) rest
      | TString s # rest \<Rightarrow> Parsed (CStr s) rest
      | TIdent i # rest \<Rightarrow> Parsed (CIdent i) rest
      | TParen True # rest \<Rightarrow>
          (case parse_expr n rest of Failed e \<Rightarrow> Failed e | OutOfFuel \<Rightarrow> OutOfFuel
           | Parsed inner rest' \<Rightarrow>
               (case rest' of TParen False # rest'' \<Rightarrow> Parsed (CParen inner) rest''
                | _ \<Rightarrow> Failed (''Expected '' @ [CHR 0x27] @ '')'' @ [CHR 0x27])))
      | TParen False # rest \<Rightarrow> Failed (''Unexpected '' @ [CHR 0x27] @ '')'' @ [CHR 0x27])
      | t # rest \<Rightarrow> Failed (''Unexpected token type: '' @ token_type t))"

section \<open>Values\<close>

datatype jsval = VUndef | VNum jsnum | VStr string | VBool bool

type_synonym vars = "(string, jsval) jmap"

text \<open>\<open>Number(s)\<close>: the string grammar of JavaScript, infinities and the three radix prefixes included.\<close>

definition signed_part :: "string \<Rightarrow> real \<times> string" where
  "signed_part s = (if starts_with s ''-'' then (-1, tl s) else if starts_with s ''+'' then (1, tl s) else (1, s))"

definition exponent_part :: "string \<Rightarrow> real option" where
  "exponent_part s =
     (case s of [] \<Rightarrow> Some 1
      | c # r \<Rightarrow> if c = CHR ''e'' \<or> c = CHR ''E'' then
          (let e = signed_part r in
           if snd e = [] \<or> \<not> list_all is_digit (snd e) then None
           else Some (if fst e < 0 then 1 / 10 ^ nat_of_digits (snd e) else 10 ^ nat_of_digits (snd e)))
        else None)"

definition decimal_literal :: "string \<Rightarrow> jsnum" where
  "decimal_literal s =
     (let whole = takeWhile is_digit s; rest = dropWhile is_digit s; dot = starts_with rest ''.'';
          decimals = (if dot then takeWhile is_digit (tl rest) else []);
          tail = (if dot then dropWhile is_digit (tl rest) else rest)
      in if whole = [] \<and> decimals = [] then NaN
         else case exponent_part tail of None \<Rightarrow> NaN | Some x \<Rightarrow> Fin (decimal_value whole decimals * x))"

definition radix_digit :: "char \<Rightarrow> nat" where
  "radix_digit c = (if is_digit c then code c - 48 else if is_lower_alpha c then code c - 87
     else if is_upper_alpha c then code c - 55 else 99)"

definition radix_literal :: "nat \<Rightarrow> string \<Rightarrow> jsnum" where
  "radix_literal b s =
     (if s = [] \<or> \<not> list_all (\<lambda>c. radix_digit c < b) s then NaN
      else Fin (real (foldl (\<lambda>n c. b * n + radix_digit c) 0 s)))"

definition number_of_string :: "string \<Rightarrow> jsnum" where
  "number_of_string text =
     (let s = trim text; prefix = to_lower (take 2 s) in
      if s = [] then Fin 0
      else if prefix = ''0x'' then radix_literal 16 (drop 2 s)
      else if prefix = ''0o'' then radix_literal 8 (drop 2 s)
      else if prefix = ''0b'' then radix_literal 2 (drop 2 s)
      else let e = signed_part s in
        if snd e = ''Infinity'' then (if fst e < 0 then NInf else PInf)
        else num_mul (Fin (fst e)) (decimal_literal (snd e)))"

fun to_number :: "jsval \<Rightarrow> jsnum" where
  "to_number VUndef = NaN"
| "to_number (VNum x) = x"
| "to_number (VStr s) = number_of_string s"
| "to_number (VBool b) = Fin (if b then 1 else 0)"

definition num_eq :: "jsnum \<Rightarrow> jsnum \<Rightarrow> bool" where
  "num_eq x y = (x = y \<and> x \<noteq> NaN)"

fun loose_eq :: "jsval \<Rightarrow> jsval \<Rightarrow> bool" where
  "loose_eq VUndef r = (r = VUndef)"
| "loose_eq l VUndef = False"
| "loose_eq (VStr s) (VStr t) = (s = t)"
| "loose_eq (VBool a) (VBool b) = (a = b)"
| "loose_eq l r = num_eq (to_number l) (to_number r)"

fun js_lt :: "jsval \<Rightarrow> jsval \<Rightarrow> bool" where
  "js_lt (VStr s) (VStr t) = (s < t)"
| "js_lt l r = num_lt (to_number l) (to_number r)"

fun js_le :: "jsval \<Rightarrow> jsval \<Rightarrow> bool" where
  "js_le (VStr s) (VStr t) = (s \<le> t)"
| "js_le l r = num_le (to_number l) (to_number r)"

fun truthy :: "jsval \<Rightarrow> bool" where
  "truthy VUndef = False"
| "truthy (VNum x) = (x \<noteq> NaN \<and> x \<noteq> Fin 0)"
| "truthy (VStr s) = (s \<noteq> [])"
| "truthy (VBool b) = b"

fun CHECK :: "CelOp \<Rightarrow> jsval \<Rightarrow> jsval \<Rightarrow> bool" where
  "CHECK ceq l r = loose_eq l r"
| "CHECK cne l r = (\<not> loose_eq l r)"
| "CHECK cgt l r = js_lt r l"
| "CHECK cge l r = js_le r l"
| "CHECK clt l r = js_lt l r"
| "CHECK cle l r = js_le l r"

fun eval_expr :: "celExpr \<Rightarrow> vars \<Rightarrow> bool"
and eval_value :: "celValue \<Rightarrow> vars \<Rightarrow> jsval" where
  "eval_expr (Truthy l) v = truthy (eval_value l v)"
| "eval_expr (Compare p l r) v = CHECK p (eval_value l v) (eval_value r v)"
| "eval_expr (Both l r) v = (eval_expr l v \<and> eval_expr r v)"
| "eval_expr (Either l r) v = (eval_expr l v \<or> eval_expr r v)"
| "eval_value (CNum x) v = VNum x"
| "eval_value (CStr s) v = VStr s"
| "eval_value (CIdent i) v = or_default (map_get v i) VUndef"
| "eval_value (CParen e) v = VBool (eval_expr e v)"

section \<open>Compilation\<close>

record RuleCompileError =
  rce_expr :: string
  rce_message :: string

record CompiledRule =
  rule_name :: string
  rule_evaluate :: "vars \<Rightarrow> bool"

definition parse_all :: "Token list \<Rightarrow> string + celExpr" where
  "parse_all ts =
     (case parse_expr (4 * length ts + 4) ts of
        Parsed e [] \<Rightarrow> Inr e
      | Parsed e rest \<Rightarrow> Inl (''Unexpected token at position '' @ show_nat (length ts - length rest))
      | Failed m \<Rightarrow> Inl (''Error: '' @ m)
      | OutOfFuel \<Rightarrow> Inl ''out of fuel'')"

definition parse_condition :: "string \<Rightarrow> string + celExpr" where
  "parse_condition condition = (case tokenize condition of Inl m \<Rightarrow> Inl m | Inr ts \<Rightarrow> parse_all ts)"

definition cel_compile :: "string \<Rightarrow> string \<Rightarrow> RuleCompileError + CompiledRule" where
  "cel_compile name condition =
     (case parse_condition condition of
        Inl m \<Rightarrow> Inl \<lparr>rce_expr = condition, rce_message = m\<rparr>
      | Inr e \<Rightarrow> Inr \<lparr>rule_name = name, rule_evaluate = eval_expr e\<rparr>)"

section \<open>The parser stops\<close>

lemma parse_progress:
  "parse_expr n ts = Parsed e r \<Longrightarrow> length r < length ts"
  "parse_tail n left ts = Parsed e r \<Longrightarrow> length r \<le> length ts"
  "parse_comparison n ts = Parsed e r \<Longrightarrow> length r < length ts"
  "parse_value n ts = Parsed w r \<Longrightarrow> length r < length ts"
proof (induction n ts and n left ts and n ts and n ts arbitrary: e r and e r and e r and w r
    rule: parse_expr_parse_tail_parse_comparison_parse_value.induct)
  case (2 n ts)
  then show ?case by (fastforce split: parsed.splits)
next
  case (4 n left ts)
  then show ?case by (fastforce split: list.splits Token.splits if_splits parsed.splits)
next
  case (6 n ts)
  then show ?case by (fastforce split: list.splits Token.splits option.splits parsed.splits)
next
  case (8 n ts)
  then show ?case by (fastforce split: list.splits Token.splits bool.splits parsed.splits)
qed simp_all

lemma parse_fuel:
  "4 * length ts + 4 \<le> n \<Longrightarrow> parse_expr n ts \<noteq> OutOfFuel"
  "4 * length ts + 3 \<le> n \<Longrightarrow> parse_tail n left ts \<noteq> OutOfFuel"
  "4 * length ts + 2 \<le> n \<Longrightarrow> parse_comparison n ts \<noteq> OutOfFuel"
  "4 * length ts + 1 \<le> n \<Longrightarrow> parse_value n ts \<noteq> OutOfFuel"
proof (induction n ts and n left ts and n ts and n ts
    rule: parse_expr_parse_tail_parse_comparison_parse_value.induct)
  case (2 n ts)
  show ?case
  proof (cases "parse_comparison n ts")
    case (Parsed l r)
    then have "4 * length r + 3 \<le> n" using 2 parse_progress(3) [OF Parsed] by simp
    with 2 Parsed show ?thesis by simp
  qed (use 2 in simp_all)
next
  case (4 n left ts)
  show ?case
  proof (cases "\<exists>v rest. ts = TOp v # rest \<and> (v = ''&&'' \<or> v = ''||'')")
    case True
    then obtain v rest where ts: "ts = TOp v # rest" "v = ''&&'' \<or> v = ''||''" by blast
    show ?thesis
    proof (cases "parse_comparison n rest")
      case (Parsed e r)
      then have "4 * length r + 3 \<le> n" using 4 ts parse_progress(3) [OF Parsed] by simp
      with 4 ts Parsed show ?thesis by auto
    qed (use 4 ts in auto)
  qed (auto split: list.splits Token.splits)
next
  case (6 n ts)
  show ?case
  proof (cases "parse_value n ts")
    case (Parsed l r)
    show ?thesis
    proof (cases "case r of TOp v # _ \<Rightarrow> comparison_of v | _ \<Rightarrow> None")
      case (Some p)
      then have "4 * length (tl r) + 1 \<le> n" using 6 parse_progress(4) [OF Parsed] by simp
      then have "parse_value n (tl r) \<noteq> OutOfFuel" using 6 Parsed Some by simp
      with Parsed Some show ?thesis by (auto split: parsed.splits)
    qed (use Parsed in simp)
  qed (use 6 in simp_all)
next
  case (8 n ts)
  then show ?case by (auto split: list.splits Token.splits bool.splits parsed.splits)
qed simp_all

section \<open>The identifiers of a condition\<close>

fun idents_expr :: "celExpr \<Rightarrow> string set" and idents_value :: "celValue \<Rightarrow> string set" where
  "idents_expr (Truthy l) = idents_value l"
| "idents_expr (Compare p l r) = idents_value l \<union> idents_value r"
| "idents_expr (Both l r) = idents_expr l \<union> idents_expr r"
| "idents_expr (Either l r) = idents_expr l \<union> idents_expr r"
| "idents_value (CNum x) = {}"
| "idents_value (CStr s) = {}"
| "idents_value (CIdent i) = {i}"
| "idents_value (CParen e) = idents_expr e"

lemma eval_cong:
  "(\<And>i. i \<in> idents_expr e \<Longrightarrow> map_get v i = map_get w i) \<Longrightarrow> eval_expr e v = eval_expr e w"
  "(\<And>i. i \<in> idents_value l \<Longrightarrow> map_get v i = map_get w i) \<Longrightarrow> eval_value l v = eval_value l w"
proof (induction e and l)
  case (Compare p l r)
  then have "eval_value l v = eval_value l w" "eval_value r v = eval_value r w" by auto
  then show ?case by simp
next
  case (Both l r)
  then have "eval_expr l v = eval_expr l w" "eval_expr r v = eval_expr r w" by auto
  then show ?case by simp
next
  case (Either l r)
  then have "eval_expr l v = eval_expr l w" "eval_expr r v = eval_expr r w" by auto
  then show ?case by simp
qed simp_all

definition token_idents :: "Token list \<Rightarrow> string set" where
  "token_idents ts = {i. TIdent i \<in> set ts}"

lemma token_idents_simps [simp]:
  "token_idents [] = {}" "token_idents (TIdent i # ts) = insert i (token_idents ts)"
  "token_idents (TNumber x # ts) = token_idents ts" "token_idents (TString s # ts) = token_idents ts"
  "token_idents (TOp v # ts) = token_idents ts" "token_idents (TParen b # ts) = token_idents ts"
  "token_idents (ts @ us) = token_idents ts \<union> token_idents us"
  by (auto simp: token_idents_def)

text \<open>The operators that a parser accepts; the tokenizer also makes operators out of other characters.\<close>

definition known_op :: "string \<Rightarrow> bool" where
  "known_op v = (comparison_of v \<noteq> None \<or> v = ''&&'' \<or> v = ''||'')"

definition known_ops :: "Token list \<Rightarrow> bool" where
  "known_ops ts = (\<forall>v. TOp v \<in> set ts \<longrightarrow> known_op v)"

lemma known_ops_simps [simp]:
  "known_ops []" "known_ops (TIdent i # ts) = known_ops ts" "known_ops (TNumber x # ts) = known_ops ts"
  "known_ops (TString s # ts) = known_ops ts" "known_ops (TOp v # ts) \<longleftrightarrow> known_op v \<and> known_ops ts"
  "known_ops (TParen b # ts) = known_ops ts" "known_ops (ts @ us) \<longleftrightarrow> known_ops ts \<and> known_ops us"
  by (auto simp: known_ops_def)

definition consumed :: "Token list \<Rightarrow> Token list \<Rightarrow> string set \<Rightarrow> bool" where
  "consumed ts r I = (\<exists>used. ts = used @ r \<and> known_ops used \<and> token_idents used = I)"

lemma consumed_refl: "consumed ts ts {}"
  by (auto simp: consumed_def intro!: exI [of _ "[]"])

lemma consumed_Cons: "known_ops [t] \<Longrightarrow> consumed ts r I \<Longrightarrow> consumed (t # ts) r (token_idents [t] \<union> I)"
  unfolding consumed_def
  by (elim exE, rule_tac x = "t # used" in exI) (cases t; auto)

lemma consumed_trans: "consumed ts r I \<Longrightarrow> consumed r s J \<Longrightarrow> consumed ts s (I \<union> J)"
  unfolding consumed_def by (metis append_assoc known_ops_simps(7) token_idents_simps(7))

lemma parse_consumed:
  "parse_expr n ts = Parsed e r \<Longrightarrow> consumed ts r (idents_expr e)"
  "parse_tail n left ts = Parsed e r \<Longrightarrow> \<exists>J. consumed ts r J \<and> idents_expr e = idents_expr left \<union> J"
  "parse_comparison n ts = Parsed e r \<Longrightarrow> consumed ts r (idents_expr e)"
  "parse_value n ts = Parsed w r \<Longrightarrow> consumed ts r (idents_value w)"
proof (induction n ts and n left ts and n ts and n ts arbitrary: e r and e r and e r and w r
    rule: parse_expr_parse_tail_parse_comparison_parse_value.induct)
  case (2 n ts)
  then obtain l m where l: "parse_comparison n ts = Parsed l m" and tail: "parse_tail n l m = Parsed e r"
    by (auto split: parsed.splits)
  then show ?case using 2(1) [OF l] 2(2) [OF l tail] consumed_trans by metis
next
  case (4 n left ts)
  show ?case
  proof (cases "\<exists>v rest. ts = TOp v # rest \<and> (v = ''&&'' \<or> v = ''||'')")
    case True
    then obtain v rest where ts: "ts = TOp v # rest" "v = ''&&'' \<or> v = ''||''" by blast
    then obtain rt m where rt: "parse_comparison n rest = Parsed rt m"
      and tail: "parse_tail n (if v = ''&&'' then Both left rt else Either left rt) m = Parsed e r"
      using 4(3) by (auto split: parsed.splits if_splits)
    have c: "consumed (TOp v # rest) m (idents_expr rt)"
      using consumed_Cons [of "TOp v", OF _ 4(1) [OF ts(1) refl ts(2) rt]] ts(2) by (auto simp: known_op_def)
    obtain J where "consumed m r J" "idents_expr e = idents_expr left \<union> idents_expr rt \<union> J"
      using 4(2) [OF ts(1) refl ts(2) rt tail] by (auto split: if_splits)
    then show ?thesis using consumed_trans [OF c] ts(1) by (metis sup_assoc)
  next
    case False
    then have "e = left \<and> r = ts" using 4(3) by (auto split: list.splits Token.splits if_splits)
    then show ?thesis using consumed_refl by auto
  qed
next
  case (6 n ts)
  then obtain l m where l: "parse_value n ts = Parsed l m" by (auto split: parsed.splits)
  show ?case
  proof (cases "case m of TOp v # _ \<Rightarrow> comparison_of v | _ \<Rightarrow> None")
    case None
    then show ?thesis using 6 l by auto
  next
    case (Some p)
    then obtain v m' where m: "m = TOp v # m'" "comparison_of v = Some p"
      by (auto split: list.splits Token.splits)
    obtain rt where rt: "parse_value n m' = Parsed rt r" "e = Compare p l rt"
      using 6(3) l Some m by (auto split: parsed.splits)
    have "consumed (TOp v # m') r (idents_value rt)"
      using consumed_Cons [of "TOp v", OF _ 6(2) [OF l Some]] m rt(1) by (auto simp: known_op_def)
    then show ?thesis using consumed_trans [OF 6(1) [OF l]] m(1) rt(2) by simp
  qed
next
  case (8 n ts)
  show ?case
  proof (cases "\<exists>rest. ts = TParen True # rest")
    case True
    then obtain rest inner where ts: "ts = TParen True # rest" and inner: "parse_expr n rest = Parsed inner (TParen False # r)"
        "w = CParen inner"
      using 8(2) by (auto split: parsed.splits list.splits Token.splits bool.splits)
    have "consumed (TParen False # r) r {}" using consumed_Cons [of "TParen False", OF _ consumed_refl] by simp
    then have "consumed rest r (idents_expr inner)"
      using consumed_trans [of rest "TParen False # r" "idents_expr inner" r "{}"] 8(1) ts inner(1) by simp
    then show ?thesis using consumed_Cons [of "TParen True" rest] ts inner(2) by fastforce
  next
    case False
    then have "\<exists>t. ts = t # r \<and> known_ops [t] \<and> token_idents [t] = idents_value w"
      using 8(2) by (auto split: list.splits Token.splits bool.splits)
    then show ?thesis using consumed_Cons [OF _ consumed_refl] by (metis sup_bot_right)
  qed
qed simp_all

lemma parse_all_idents:
  assumes "parse_all ts = Inr e"
  shows "known_ops ts \<and> token_idents ts = idents_expr e"
proof -
  have "parse_expr (4 * length ts + 4) ts = Parsed e []"
    using assms by (auto simp: parse_all_def split: parsed.splits list.splits)
  from parse_consumed(1) [OF this] show ?thesis by (auto simp: consumed_def)
qed

section \<open>The variable check sees every identifier of a compiled condition\<close>

lemma identifier_start: "isCelIdentifierStart c = ident_start c"
proof -
  have "code c = (95 :: nat) \<longleftrightarrow> c = CHR ''_''"
    using of_char_eq_iff [of c "CHR ''_''"] by simp
  then show ?thesis
    by (auto simp: isCelIdentifierStart_def ident_start_def is_alpha_def is_upper_alpha_def is_lower_alpha_def)
qed

lemma identifier_part: "isCelIdentifierPart c = is_word c"
  unfolding isCelIdentifierPart_def identifier_start is_word_def ident_start_def is_digit_def by blast

lemma known_op_cases: "known_op v \<longleftrightarrow> v \<in> {''=='', ''!='', ''>'', ''>='', ''<'', ''<='', ''&&'', ''||''}"
  by (auto simp: known_op_def comparison_of_def split: if_splits)

definition is_quote :: "char \<Rightarrow> bool" where
  "is_quote c = (c = CHR 0x22 \<or> c = CHR 0x27)"

lemma strip_plain: "\<not> is_quote c \<Longrightarrow> strip_strings (c # s) = c # strip_strings s"
  by (simp add: is_quote_def)

lemma strip_run: "list_all (\<lambda>c. \<not> is_quote c) xs \<Longrightarrow> strip_strings (xs @ s) = xs @ strip_strings s"
  by (induction xs) (simp_all add: strip_plain del: strip_strings.simps)

lemma scan_skip: "\<not> ident_start c \<Longrightarrow> scan_identifiers (c # s) = scan_identifiers s"
  by simp

lemma scan_run: "list_all (\<lambda>c. \<not> ident_start c) xs \<Longrightarrow> scan_identifiers (xs @ s) = scan_identifiers s"
  by (induction xs) simp_all

lemma word_not_quote: "is_word c \<Longrightarrow> \<not> is_quote c"
  by (auto simp: is_word_def is_quote_def is_alpha_def is_lower_alpha_def is_upper_alpha_def is_digit_def)

lemma strip_word:
  "takeWhile is_word (strip_strings s) = takeWhile is_word s"
  "dropWhile is_word (strip_strings s) = strip_strings (dropWhile is_word s)"
proof -
  let ?w = "takeWhile is_word s" and ?r = "dropWhile is_word s"
  have words: "\<forall>c \<in> set ?w. is_word c" by (auto dest: set_takeWhileD)
  then have "list_all (\<lambda>c. \<not> is_quote c) ?w" using word_not_quote by (auto simp: list_all_iff)
  then have "strip_strings (?w @ ?r) = ?w @ strip_strings ?r" by (rule strip_run)
  then have split: "strip_strings s = ?w @ strip_strings ?r" by (simp only: takeWhile_dropWhile_id)
  have head: "strip_strings ?r = [] \<or> \<not> is_word (hd (strip_strings ?r))"
  proof (cases ?r)
    case (Cons c r)
    then have "\<not> is_word c" by (metis hd_dropWhile list.distinct(1) list.sel(1))
    moreover have "\<not> is_word (CHR '' '')" by code_simp
    ultimately have "\<not> is_word (hd (strip_strings (c # r)))"
      unfolding strip_strings.simps(2) by (auto simp del: strip_strings.simps)
    then show ?thesis using Cons by metis
  next
    case Nil
    then show ?thesis by (simp only: Nil strip_strings.simps(1) simp_thms)
  qed
  have ends: "u = [] \<or> \<not> is_word (hd u) \<Longrightarrow> takeWhile is_word u = [] \<and> dropWhile is_word u = u" for u
    by (cases u) simp_all
  have "takeWhile is_word (strip_strings ?r) = []" "dropWhile is_word (strip_strings ?r) = strip_strings ?r"
    using ends [OF head] by blast+
  moreover have "takeWhile is_word (?w @ strip_strings ?r) = ?w @ takeWhile is_word (strip_strings ?r)"
    "dropWhile is_word (?w @ strip_strings ?r) = dropWhile is_word (strip_strings ?r)"
    using words by (simp_all only: takeWhile_append2 dropWhile_append2)
  ultimately show "takeWhile is_word (strip_strings s) = takeWhile is_word s"
    "dropWhile is_word (strip_strings s) = strip_strings (dropWhile is_word s)"
    by (simp_all only: split append_Nil2)
qed

lemma add_token_Inr: "add_token t r = Inr ts \<longleftrightarrow> (\<exists>us. r = Inr us \<and> ts = t # us)"
  by (auto simp: add_token_def split: sum.splits)

lemma closed_quote:
  assumes "is_quote c"
  shows "set (scan_identifiers (strip_strings (after_quote c s))) \<subseteq> set (scan_identifiers (strip_strings (c # s)))
    \<or> after_quote c s = []"
proof (cases "c \<in> set s")
  case True
  have space: "\<not> ident_start (CHR '' '')" by code_simp
  have "strip_strings (c # s) = CHR '' '' # strip_strings (after_quote c s)"
    using assms True by (simp add: after_quote_def is_quote_def)
  then have "scan_identifiers (strip_strings (c # s)) = scan_identifiers (strip_strings (after_quote c s))"
    using scan_skip [OF space] by metis
  then show ?thesis by (metis subset_refl)
next
  case False
  then have "dropWhile (\<lambda>d. d \<noteq> c) s = []" by (simp add: dropWhile_eq_Nil_conv) blast
  then have "after_quote c s = []" by (simp only: after_quote_def list.sel)
  then show ?thesis by (rule disjI2)
qed

lemma tokenize_idents:
  "tokenize s = Inr ts \<Longrightarrow> known_ops ts \<Longrightarrow> token_idents ts \<subseteq> set (scan_identifiers (strip_strings s))"
proof (induction s arbitrary: ts rule: tokenize.induct)
  case (2 c s)
  note run = 2(9) [unfolded tokenize.simps(2)] and ops = 2(10)
  have skip: "set (scan_identifiers (strip_strings (d # r))) = set (scan_identifiers (strip_strings r))"
    if "\<not> is_quote d" "\<not> ident_start d" for d r
    using that by (simp add: strip_plain del: strip_strings.simps)
  have comparison: "\<not> is_quote d \<and> \<not> ident_start d" if "d \<in> {CHR ''='', CHR ''!'', CHR ''<'', CHR ''>''}" for d
    using that by (auto simp: is_quote_def ident_start_def is_alpha_def is_lower_alpha_def is_upper_alpha_def)
  have logical: "\<not> is_quote d \<and> \<not> ident_start d" if "isCelLogicalChar d" for d
    using that by (auto simp: isCelLogicalChar_def is_quote_def ident_start_def is_alpha_def is_lower_alpha_def is_upper_alpha_def)
  show ?case
  proof (cases "isCelWhitespace c")
    case True
    then have "\<not> is_quote c" "\<not> ident_start c"
      by (auto simp: isCelWhitespace_def is_quote_def ident_start_def is_alpha_def is_lower_alpha_def is_upper_alpha_def)
    then show ?thesis using 2(1) True run ops skip by simp
  next
    case ws: False
    show ?thesis
    proof (cases "c = CHR ''('' \<or> c = CHR '')''")
      case True
      then have "\<not> is_quote c" "\<not> ident_start c"
        by (auto simp: is_quote_def ident_start_def is_alpha_def is_lower_alpha_def is_upper_alpha_def)
      then show ?thesis using 2(2) [OF ws True] run ops ws True skip [of c s] by (auto simp: add_token_Inr)
    next
      case paren: False
      show ?thesis
      proof (cases "isCelLogicalPair c s")
        case True
        then obtain d r where s: "s = d # r" and cd: "isCelLogicalChar c" "isCelLogicalChar d"
          by (cases s) (auto simp: isCelLogicalPair_def)
        then show ?thesis
          using 2(3) [OF ws paren True] run ops ws paren True logical [OF cd(1)] logical [OF cd(2)]
          by (auto simp: add_token_Inr skip simp del: strip_strings.simps scan_identifiers.simps)
      next
        case pair: False
        show ?thesis
        proof (cases "isCelComparisonWindow c s")
          case win: True
          show ?thesis
          proof (cases "next_is (\<lambda>d. d = CHR ''='') s")
            case True
            then obtain r where s: "s = CHR ''='' # r" by (cases s) auto
            obtain us where us: "tokenize r = Inr us" "ts = TOp [c, CHR ''=''] # us"
              using run ws paren pair win True s by (auto simp: add_token_Inr)
            have "c \<in> {CHR ''='', CHR ''!'', CHR ''<'', CHR ''>''}"
              using ops us(2) by (auto simp: known_op_cases)
            then show ?thesis
              using 2(4) [OF ws paren pair win True, of us] us ops s comparison skip [of c s] skip [of "CHR ''=''" r]
              by (simp del: strip_strings.simps scan_identifiers.simps)
          next
            case False
            obtain us where us: "tokenize s = Inr us" "ts = TOp [c] # us"
              using run ws paren pair win False by (auto simp: add_token_Inr)
            have "c \<in> {CHR ''='', CHR ''!'', CHR ''<'', CHR ''>''}"
              using ops us(2) by (auto simp: known_op_cases)
            then show ?thesis
              using 2(5) [OF ws paren pair win False, of us] us ops comparison skip [of c s]
              by (simp del: strip_strings.simps scan_identifiers.simps)
          qed
        next
          case win: False
          show ?thesis
          proof (cases "is_quote c")
            case True
            then have q: "c = CHR 0x22 \<or> c = CHR 0x27" by (simp add: is_quote_def)
            obtain us where us: "tokenize (after_quote c s) = Inr us" "ts = TString (takeWhile (\<lambda>d. d \<noteq> c) s) # us"
              using run ws paren pair win q by (auto simp: add_token_Inr)
            have "token_idents us \<subseteq> set (scan_identifiers (strip_strings (after_quote c s)))"
              using 2(6) [OF ws paren pair win q us(1)] ops us(2) by simp
            moreover have "after_quote c s = [] \<Longrightarrow> us = []" using us(1) by simp
            ultimately show ?thesis using closed_quote [OF True, of s] us(2) by auto
          next
            case quote: False
            then have q: "\<not> (c = CHR 0x22 \<or> c = CHR 0x27)" by (simp add: is_quote_def)
            show ?thesis
            proof (cases "isCelDigitOrDot c")
              case True
              let ?n = "takeWhile isCelDigitOrDot s" and ?r = "dropWhile isCelDigitOrDot s"
              have plain: "\<not> is_quote d \<and> \<not> ident_start d" if "isCelDigitOrDot d" for d
                using that by (auto simp: isCelDigitOrDot_def is_quote_def ident_start_def is_alpha_def is_lower_alpha_def is_upper_alpha_def)
              then have "list_all (\<lambda>c. \<not> is_quote c) (c # ?n)" "list_all (\<lambda>c. \<not> ident_start c) (c # ?n)"
                using True by (auto simp: list_all_iff dest: set_takeWhileD)
              then have "scan_identifiers (strip_strings ((c # ?n) @ ?r)) = scan_identifiers (strip_strings ?r)"
                using strip_run [of "c # ?n" ?r] scan_run [of "c # ?n"] by metis
              then have eq: "scan_identifiers (strip_strings (c # s)) = scan_identifiers (strip_strings ?r)" by simp
              show ?thesis
                using 2(7) [OF ws paren pair win q True] run ops ws paren pair win q True
                by (auto simp: add_token_Inr eq simp del: strip_strings.simps scan_identifiers.simps)
            next
              case digit: False
              show ?thesis
              proof (cases "isCelIdentifierStart c")
                case True
                then have start: "ident_start c" by (simp add: identifier_start)
                have scan: "scan_identifiers (strip_strings (c # s))
                    = (c # takeWhile is_word s) # scan_identifiers (strip_strings (dropWhile is_word s))"
                  using start quote by (simp add: strip_plain strip_word del: strip_strings.simps)
                show ?thesis
                  using 2(8) [OF ws paren pair win q digit True] run ops ws paren pair win q digit True
                  by (auto simp: add_token_Inr scan identifier_part [abs_def] simp del: strip_strings.simps scan_identifiers.simps)
              next
                case False
                then show ?thesis using run ws paren pair win q digit by simp
              qed
            qed
          qed
        qed
      qed
    qed
  qed
qed simp

lemma compile_InrD:
  assumes "cel_compile name condition = Inr r"
  obtains e where "parse_condition condition = Inr e" "r = \<lparr>rule_name = name, rule_evaluate = eval_expr e\<rparr>"
    "idents_expr e \<subseteq> set (identifiersOutsideStrings condition)"
proof -
  obtain e where e: "parse_condition condition = Inr e" "r = \<lparr>rule_name = name, rule_evaluate = eval_expr e\<rparr>"
    using assms by (auto simp: cel_compile_def split: sum.splits)
  then obtain ts where ts: "tokenize condition = Inr ts" "parse_all ts = Inr e"
    by (auto simp: parse_condition_def split: sum.splits)
  have "idents_expr e \<subseteq> set (identifiersOutsideStrings condition)"
    using parse_all_idents [OF ts(2)] tokenize_idents [OF ts(1)] by (simp only: set_identifiers)
  with e that show thesis by blast
qed

section \<open>Printing a condition\<close>

fun tokens_expr :: "celExpr \<Rightarrow> Token list" and tokens_value :: "celValue \<Rightarrow> Token list" where
  "tokens_expr (Truthy l) = tokens_value l"
| "tokens_expr (Compare p l r) = tokens_value l @ TOp (op_text p) # tokens_value r"
| "tokens_expr (Both l r) = tokens_expr l @ TOp ''&&'' # tokens_expr r"
| "tokens_expr (Either l r) = tokens_expr l @ TOp ''||'' # tokens_expr r"
| "tokens_value (CNum x) = [TNumber x]"
| "tokens_value (CStr s) = [TString s]"
| "tokens_value (CIdent i) = [TIdent i]"
| "tokens_value (CParen e) = TParen True # tokens_expr e @ [TParen False]"

fun is_comparison :: "celExpr \<Rightarrow> bool" where
  "is_comparison (Truthy l) = True"
| "is_comparison (Compare p l r) = True"
| "is_comparison _ = False"

text \<open>The trees that the parser builds: the right operand of a connective is a comparison.\<close>

fun left_nested :: "celExpr \<Rightarrow> bool" and left_nested_value :: "celValue \<Rightarrow> bool" where
  "left_nested (Truthy l) = left_nested_value l"
| "left_nested (Compare p l r) = (left_nested_value l \<and> left_nested_value r)"
| "left_nested (Both l r) = (left_nested l \<and> is_comparison r \<and> left_nested r)"
| "left_nested (Either l r) = (left_nested l \<and> is_comparison r \<and> left_nested r)"
| "left_nested_value (CParen e) = left_nested e"
| "left_nested_value _ = True"

definition starts_comparison :: "Token list \<Rightarrow> bool" where
  "starts_comparison ts = (case ts of TOp v # _ \<Rightarrow> comparison_of v \<noteq> None | _ \<Rightarrow> False)"

definition starts_connective :: "Token list \<Rightarrow> bool" where
  "starts_connective ts = (case ts of TOp v # _ \<Rightarrow> v = ''&&'' \<or> v = ''||'' | _ \<Rightarrow> False)"

lemma starts_simps [simp]:
  "\<not> starts_comparison []" "\<not> starts_connective []" "\<not> starts_comparison (TParen b # ts)" "\<not> starts_connective (TParen b # ts)"
  "\<not> starts_comparison (TOp ''&&'' # ts)" "\<not> starts_comparison (TOp ''||'' # ts)"
  by (simp_all add: starts_comparison_def starts_connective_def comparison_of_def)

lemma comparison_of_text [simp]: "comparison_of (op_text p) = Some p"
  by (cases p) (simp_all add: comparison_of_def)

lemma tail_stops: "\<not> starts_connective rest \<Longrightarrow> parse_tail (Suc n) e rest = Parsed e rest"
  by (auto simp: starts_connective_def split: list.splits Token.splits)

lemma comparison_stops:
  "parse_value n ts = Parsed l rest \<Longrightarrow> \<not> starts_comparison rest \<Longrightarrow> parse_comparison (Suc n) ts = Parsed (Truthy l) rest"
  by (auto simp: starts_comparison_def split: list.splits Token.splits)

definition reads_value :: "celValue \<Rightarrow> bool" where
  "reads_value w = (\<forall>rest n. 4 * length (tokens_value w @ rest) + 1 \<le> n \<longrightarrow> parse_value n (tokens_value w @ rest) = Parsed w rest)"

definition reads_comparison :: "celExpr \<Rightarrow> bool" where
  "reads_comparison e = (\<forall>rest n. \<not> starts_comparison rest \<longrightarrow> 4 * length (tokens_expr e @ rest) + 2 \<le> n
     \<longrightarrow> parse_comparison n (tokens_expr e @ rest) = Parsed e rest)"

definition reads_expr :: "celExpr \<Rightarrow> bool" where
  "reads_expr e = (\<forall>rest n. \<not> starts_comparison rest \<longrightarrow> 4 * length (tokens_expr e @ rest) + 4 \<le> n
     \<longrightarrow> (\<exists>m. 4 * length rest + 3 \<le> m \<and> parse_expr n (tokens_expr e @ rest) = parse_tail m e rest))"

lemma reads_comparison_expr: "reads_comparison e \<Longrightarrow> reads_expr e"
  unfolding reads_expr_def
proof (intro allI impI)
  fix rest n
  assume e: "reads_comparison e" and rest: "\<not> starts_comparison rest" and n: "4 * length (tokens_expr e @ rest) + 4 \<le> n"
  then obtain k where k: "n = Suc k" "4 * length (tokens_expr e @ rest) + 2 \<le> k" by (cases n) auto
  then have "parse_comparison k (tokens_expr e @ rest) = Parsed e rest"
    using e rest by (simp add: reads_comparison_def)
  then show "\<exists>m. 4 * length rest + 3 \<le> m \<and> parse_expr n (tokens_expr e @ rest) = parse_tail m e rest"
    using k n by (intro exI [of _ k]) simp
qed

lemma reads_connective:
  assumes l: "reads_expr l" and r: "reads_comparison r" and v: "v = ''&&'' \<or> v = ''||''"
  shows "\<not> starts_comparison rest \<Longrightarrow> 4 * length (tokens_expr l @ TOp v # tokens_expr r @ rest) + 4 \<le> n
    \<Longrightarrow> \<exists>m. 4 * length rest + 3 \<le> m \<and> parse_expr n (tokens_expr l @ TOp v # tokens_expr r @ rest)
      = parse_tail m (if v = ''&&'' then Both l r else Either l r) rest"
proof -
  assume rest: "\<not> starts_comparison rest" and n: "4 * length (tokens_expr l @ TOp v # tokens_expr r @ rest) + 4 \<le> n"
  have "\<not> starts_comparison (TOp v # tokens_expr r @ rest)" using v by auto
  then obtain m where m: "4 * length (TOp v # tokens_expr r @ rest) + 3 \<le> m"
      "parse_expr n (tokens_expr l @ TOp v # tokens_expr r @ rest) = parse_tail m l (TOp v # tokens_expr r @ rest)"
    using l n unfolding reads_expr_def by blast
  then obtain k where k: "m = Suc k" by (cases m) auto
  have "parse_comparison k (tokens_expr r @ rest) = Parsed r rest"
    using r rest m(1) k by (simp add: reads_comparison_def)
  then show ?thesis using m k v by (intro exI [of _ k]) auto
qed

lemma parse_printed:
  "left_nested e \<Longrightarrow> (is_comparison e \<longrightarrow> reads_comparison e) \<and> reads_expr e"
  "left_nested_value w \<Longrightarrow> reads_value w"
proof (induction e and w)
  case (Truthy l)
  then have l: "reads_value l" by simp
  have "reads_comparison (Truthy l)"
    unfolding reads_comparison_def
  proof (intro allI impI)
    fix rest n assume rest: "\<not> starts_comparison rest" and n: "4 * length (tokens_expr (Truthy l) @ rest) + 2 \<le> n"
    then obtain k where "n = Suc k" "4 * length (tokens_value l @ rest) + 1 \<le> k" by (cases n) auto
    with l rest show "parse_comparison n (tokens_expr (Truthy l) @ rest) = Parsed (Truthy l) rest"
      using comparison_stops by (simp add: reads_value_def del: parse_comparison.simps)
  qed
  then show ?case using reads_comparison_expr by simp
next
  case (Compare p l r)
  then have l: "reads_value l" and r: "reads_value r" by simp_all
  have "reads_comparison (Compare p l r)"
    unfolding reads_comparison_def
  proof (intro allI impI)
    fix rest n assume n: "4 * length (tokens_expr (Compare p l r) @ rest) + 2 \<le> n"
    then obtain k where k: "n = Suc k" "4 * length (tokens_value l @ TOp (op_text p) # tokens_value r @ rest) + 1 \<le> k" by (cases n) auto
    then have "parse_value k (tokens_value l @ TOp (op_text p) # tokens_value r @ rest) = Parsed l (TOp (op_text p) # tokens_value r @ rest)"
      "parse_value k (tokens_value r @ rest) = Parsed r rest"
      using l r by (simp_all add: reads_value_def)
    with k show "parse_comparison n (tokens_expr (Compare p l r) @ rest) = Parsed (Compare p l r) rest" by simp
  qed
  then show ?case using reads_comparison_expr by simp
next
  case (Both l r)
  then have "reads_expr l" "reads_comparison r" by simp_all
  from reads_connective [OF this, of "''&&''"] show ?case by (simp add: reads_expr_def)
next
  case (Either l r)
  then have "reads_expr l" "reads_comparison r" by simp_all
  from reads_connective [OF this, of "''||''"] show ?case by (simp add: reads_expr_def)
next
  case (CParen e)
  then have e: "reads_expr e" by simp
  show ?case
    unfolding reads_value_def
  proof (intro allI impI)
    fix rest n assume n: "4 * length (tokens_value (CParen e) @ rest) + 1 \<le> n"
    then obtain k where k: "n = Suc k" "4 * length (tokens_expr e @ TParen False # rest) + 4 \<le> k" by (cases n) auto
    obtain m where m: "4 * length (TParen False # rest) + 3 \<le> m"
        "parse_expr k (tokens_expr e @ TParen False # rest) = parse_tail m e (TParen False # rest)"
      using e k(2) unfolding reads_expr_def by (metis starts_simps(3))
    obtain j where "m = Suc j" using m(1) by (cases m) auto
    then have "parse_expr k (tokens_expr e @ TParen False # rest) = Parsed e (TParen False # rest)"
      using m(2) by (simp only: tail_stops starts_simps not_False_eq_True)
    with k show "parse_value n (tokens_value (CParen e) @ rest) = Parsed (CParen e) rest" by simp
  qed
next
  case (CNum x)
  show ?case unfolding reads_value_def
  proof (intro allI impI)
    fix rest n show "4 * length (tokens_value (CNum x) @ rest) + 1 \<le> n
      \<Longrightarrow> parse_value n (tokens_value (CNum x) @ rest) = Parsed (CNum x) rest" by (cases n) simp_all
  qed
next
  case (CStr x)
  show ?case unfolding reads_value_def
  proof (intro allI impI)
    fix rest n show "4 * length (tokens_value (CStr x) @ rest) + 1 \<le> n
      \<Longrightarrow> parse_value n (tokens_value (CStr x) @ rest) = Parsed (CStr x) rest" by (cases n) simp_all
  qed
next
  case (CIdent x)
  show ?case unfolding reads_value_def
  proof (intro allI impI)
    fix rest n show "4 * length (tokens_value (CIdent x) @ rest) + 1 \<le> n
      \<Longrightarrow> parse_value n (tokens_value (CIdent x) @ rest) = Parsed (CIdent x) rest" by (cases n) simp_all
  qed
qed

lemma parse_all_printed:
  assumes "left_nested e"
  shows "parse_all (tokens_expr e) = Inr e"
proof -
  let ?n = "4 * length (tokens_expr e) + 4"
  have "reads_expr e" using parse_printed(1) [OF assms] by simp
  then obtain m where m: "3 \<le> m" "parse_expr ?n (tokens_expr e) = parse_tail m e []"
    unfolding reads_expr_def by (metis append_Nil2 list.size(3) mult_0_right add_0 order_refl starts_simps(1))
  then obtain j where "m = Suc j" by (cases m) auto
  then show ?thesis using m(2) by (simp add: parse_all_def)
qed

text \<open>
  A condition printed with a space behind every token is read back. The printed numbers are
  natural; a printed string has no quote and does not begin like a comparison, which the window
  of the tokenizer would take for one.
\<close>

definition number_text :: "jsnum \<Rightarrow> string" where
  "number_text x = (case x of Fin r \<Rightarrow> show_nat (nat \<lfloor>r\<rfloor>) | _ \<Rightarrow> ''NaN'')"

definition token_text :: "Token \<Rightarrow> string" where
  "token_text t = (case t of TIdent i \<Rightarrow> i | TNumber x \<Rightarrow> number_text x
     | TString s \<Rightarrow> [CHR 0x27] @ s @ [CHR 0x27] | TOp v \<Rightarrow> v | TParen b \<Rightarrow> (if b then ''('' else '')''))"

definition printable :: "Token \<Rightarrow> bool" where
  "printable t = (case t of
       TIdent i \<Rightarrow> i \<noteq> [] \<and> isCelIdentifierStart (hd i) \<and> list_all isCelIdentifierPart i
     | TNumber x \<Rightarrow> (case x of Fin r \<Rightarrow> r = real (nat \<lfloor>r\<rfloor>) | _ \<Rightarrow> False)
     | TString s \<Rightarrow> CHR 0x27 \<notin> set s \<and> \<not> next_is isCelComparisonChar s
     | TOp v \<Rightarrow> v = ''&&'' \<or> v = ''||'' \<or> comparison_of v \<noteq> None
     | TParen _ \<Rightarrow> True)"

fun print_tokens :: "Token list \<Rightarrow> string" where
  "print_tokens [] = []"
| "print_tokens (t # ts) = token_text t @ '' '' @ print_tokens ts"

definition print_condition :: "celExpr \<Rightarrow> string" where
  "print_condition e = print_tokens (tokens_expr e)"

lemma takeWhile_stop: "list_all P xs \<Longrightarrow> \<not> P y \<Longrightarrow> takeWhile P (xs @ y # ys) = xs \<and> dropWhile P (xs @ y # ys) = y # ys"
  by (induction xs) auto

lemma next_is_append: "next_is P (s @ r) = (if s = [] then next_is P r else next_is P s)"
  by (cases s) auto

lemma digit_not_comparison: "is_digit c \<Longrightarrow> \<not> isCelComparisonChar c"
  by (auto simp: is_digit_def isCelComparisonChar_def)

lemma part_not_comparison: "isCelIdentifierPart c \<Longrightarrow> \<not> isCelComparisonChar c \<and> \<not> isCelLogicalChar c"
  by (auto simp: isCelIdentifierPart_def isCelIdentifierStart_def isCelComparisonChar_def isCelLogicalChar_def)

lemma start_classes: "isCelIdentifierStart c \<Longrightarrow> \<not> isCelWhitespace c \<and> c \<noteq> CHR ''('' \<and> c \<noteq> CHR '')''
    \<and> c \<noteq> CHR 0x22 \<and> c \<noteq> CHR 0x27 \<and> \<not> isCelDigitOrDot c"
  by (auto simp: isCelIdentifierStart_def isCelWhitespace_def isCelDigitOrDot_def)

lemma digit_classes: "is_digit c \<Longrightarrow> \<not> isCelWhitespace c \<and> c \<noteq> CHR ''('' \<and> c \<noteq> CHR '')''
    \<and> c \<noteq> CHR 0x22 \<and> c \<noteq> CHR 0x27 \<and> isCelDigitOrDot c \<and> \<not> isCelLogicalChar c"
  by (auto simp: is_digit_def isCelWhitespace_def isCelDigitOrDot_def isCelLogicalChar_def)

lemma next_is_all: "list_all (\<lambda>c. \<not> P c) s \<Longrightarrow> \<not> next_is P s"
  by (cases s) auto

lemma tokenize_space: "tokenize (CHR '' '' # s) = tokenize s"
  by (simp add: tokenize.simps(2) isCelWhitespace_def)

lemma tokenize_ident:
  assumes "printable (TIdent i)"
  shows "tokenize (i @ '' '' @ s) = add_token (TIdent i) (tokenize s)"
proof -
  obtain c r where i: "i = c # r" using assms by (cases i) (auto simp: printable_def)
  have c: "isCelIdentifierStart c" "list_all isCelIdentifierPart r" "isCelIdentifierPart c"
    using assms i by (auto simp: printable_def)
  have r: "list_all (\<lambda>c. \<not> isCelComparisonChar c) (r @ '' '')"
    using c(2) part_not_comparison by (auto simp: list_all_iff isCelComparisonChar_def)
  have "\<not> next_is isCelComparisonChar (r @ '' '' @ s)"
    using next_is_all [OF r] next_is_append [of _ "r @ '' ''" s] by simp
  moreover have "takeWhile isCelIdentifierPart (r @ CHR '' '' # s) = r \<and> dropWhile isCelIdentifierPart (r @ CHR '' '' # s) = CHR '' '' # s"
    using c(2) by (intro takeWhile_stop) (simp_all add: isCelIdentifierPart_def isCelIdentifierStart_def)
  ultimately show ?thesis
    using c start_classes [OF c(1)] part_not_comparison [OF c(3)]
    by (simp add: i tokenize.simps(2) [of c] tokenize_space isCelLogicalPair_def isCelComparisonWindow_def)
qed

lemma tokenize_number: "tokenize (show_nat n @ '' '' @ s) = add_token (TNumber (Fin (real n))) (tokenize s)"
proof -
  obtain c r where i: "show_nat n = c # r" using show_nat_digits [of n] by (cases "show_nat n") auto
  have d: "list_all is_digit (c # r)" and v: "nat_of_digits (c # r) = n" using show_nat_digits [of n] i by simp_all
  then have c: "is_digit c" "list_all is_digit r" by simp_all
  have r: "list_all (\<lambda>c. \<not> isCelComparisonChar c) (r @ '' '')"
    using c(2) digit_not_comparison by (auto simp: list_all_iff isCelComparisonChar_def)
  have nx: "\<not> next_is isCelComparisonChar (r @ '' '' @ s)"
    using next_is_all [OF r] next_is_append [of _ "r @ '' ''" s] by simp
  have tw: "takeWhile isCelDigitOrDot (r @ CHR '' '' # s) = r \<and> dropWhile isCelDigitOrDot (r @ CHR '' '' # s) = CHR '' '' # s"
    using c(2) digit_classes by (intro takeWhile_stop) (auto simp: list_all_iff isCelDigitOrDot_def)
  have tw2: "takeWhile is_digit (c # r) = c # r" "dropWhile is_digit (c # r) = []"
    using d by (simp_all add: takeWhile_eq_all_conv dropWhile_eq_Nil_conv list_all_iff)
  have "parseFloat_run (c # r) = Fin (real n)"
    unfolding parseFloat_run_def tw2 Let_def using v by (simp add: decimal_value_def)
  then show ?thesis
    using nx tw c digit_classes [OF c(1)] digit_not_comparison [OF c(1)]
    by (simp add: i tokenize.simps(2) [of c] tokenize_space isCelLogicalPair_def isCelComparisonWindow_def)
qed

lemma tokenize_string:
  assumes "printable (TString t)"
  shows "tokenize ([CHR 0x27] @ t @ [CHR 0x27] @ '' '' @ s) = add_token (TString t) (tokenize s)"
proof -
  have t: "CHR 0x27 \<notin> set t" "\<not> next_is isCelComparisonChar t" using assms by (auto simp: printable_def)
  have nx: "\<not> next_is isCelComparisonChar (t @ CHR 0x27 # CHR '' '' # s)"
    using t(2) by (simp add: next_is_append isCelComparisonChar_def)
  have tw: "takeWhile (\<lambda>d. d \<noteq> CHR 0x27) (t @ CHR 0x27 # CHR '' '' # s) = t \<and> dropWhile (\<lambda>d. d \<noteq> CHR 0x27) (t @ CHR 0x27 # CHR '' '' # s) = CHR 0x27 # CHR '' '' # s"
    using t(1) by (intro takeWhile_stop) (auto simp: list_all_iff)
  show ?thesis
    using nx tw
    by (simp add: tokenize.simps(2) [of "CHR 0x27"] tokenize_space isCelLogicalPair_def isCelComparisonWindow_def
        isCelLogicalChar_def isCelComparisonChar_def isCelWhitespace_def after_quote_def)
qed

lemma tokenize_op:
  assumes "v = ''&&'' \<or> v = ''||'' \<or> v = op_text p"
  shows "tokenize (v @ '' '' @ s) = add_token (TOp v) (tokenize s)"
  using assms
  by (cases p) (auto simp: tokenize.simps(2) [of "CHR ''&''"] tokenize.simps(2) [of "CHR ''|''"]
      tokenize.simps(2) [of "CHR ''>''"] tokenize.simps(2) [of "CHR ''<''"] tokenize.simps(2) [of "CHR ''=''"] tokenize.simps(2) [of "CHR ''!''"]
      tokenize_space isCelLogicalPair_def isCelComparisonWindow_def
        isCelLogicalChar_def isCelComparisonChar_def isCelWhitespace_def)

lemma comparison_ofD: "comparison_of v = Some p \<Longrightarrow> v = op_text p"
  by (auto simp: comparison_of_def split: if_splits)

lemma tokenize_printed_token: "printable t \<Longrightarrow> tokenize (token_text t @ '' '' @ s) = add_token t (tokenize s)"
proof (cases t)
  case (TIdent x1)
  assume "printable t" then show ?thesis using TIdent tokenize_ident by (simp add: token_text_def)
next
  case (TNumber x)
  assume "printable t"
  then obtain r where "x = Fin r" "r = real (nat \<lfloor>r\<rfloor>)" using TNumber by (cases x) (simp_all only: printable_def Token.case jsnum.case)
  then show ?thesis using TNumber tokenize_number [of "nat \<lfloor>r\<rfloor>" s] by (simp add: token_text_def number_text_def)
next
  case (TString x)
  assume "printable t" then show ?thesis using TString tokenize_string [of x s] by (simp add: token_text_def)
next
  case (TOp v)
  assume "printable t"
  then obtain p where "v = ''&&'' \<or> v = ''||'' \<or> v = op_text p" using TOp comparison_ofD by (auto simp: printable_def)
  then show ?thesis using TOp tokenize_op [of v p s] by (simp add: token_text_def)
next
  case (TParen b)
  then show ?thesis by (simp add: token_text_def tokenize.simps(2) [of "CHR ''(''"] tokenize.simps(2) [of "CHR '')''"] tokenize_space isCelWhitespace_def)
qed

lemma tokenize_printed: "list_all printable ts \<Longrightarrow> tokenize (print_tokens ts) = Inr ts"
  by (induction ts) (simp_all add: tokenize_printed_token [simplified] add_token_def)

section \<open>Properties\<close>

text \<open>C20: A condition that a reader could have written comes back from the parser as the tree it was printed from.\<close>

theorem condition_round_trip:
  "left_nested e \<Longrightarrow> list_all printable (tokens_expr e) \<Longrightarrow> parse_condition (print_condition e) = Inr e"
  by (simp add: parse_condition_def print_condition_def tokenize_printed parse_all_printed)

definition sample_condition :: celExpr where
  "sample_condition = Either (Both (Compare cgt (CIdent ''push'') (CNum (Fin 5))) (Compare ceq (CIdent ''role'') (CStr ''core'')))
     (Truthy (CIdent ''new_file''))"

theorem condition_round_trip_witness:
  "parse_condition (print_condition sample_condition) = Inr sample_condition"
proof (rule condition_round_trip)
  show "left_nested sample_condition" by (simp add: sample_condition_def)
  show "list_all printable (tokens_expr sample_condition)"
    by (simp add: sample_condition_def printable_def comparison_of_def isCelIdentifierPart_def isCelIdentifierStart_def isCelComparisonChar_def)
qed


text \<open>A rule that compiles reads only the variables that the check of unsupported metrics sees: on two
  sets of values that agree on the identifiers outside the strings of the condition its verdict is the same.\<close>

theorem rule_reads_checked_variables:
  assumes "cel_compile name condition = Inr r"
    and "\<And>x. x \<in> set (identifiersOutsideStrings condition) \<Longrightarrow> map_get v x = map_get w x"
  shows "rule_evaluate r v = rule_evaluate r w"
proof -
  obtain e where e: "r = \<lparr>rule_name = name, rule_evaluate = eval_expr e\<rparr>"
    "idents_expr e \<subseteq> set (identifiersOutsideStrings condition)"
    using compile_InrD [OF assms(1)] by blast
  then have "eval_expr e v = eval_expr e w" using assms(2) by (intro eval_cong) blast
  then show ?thesis using e(1) by simp
qed

theorem rule_reads_checked_variables_witness:
  "\<exists>r. cel_compile ''r'' ''a'' = Inr r
     \<and> rule_evaluate r [(''a'', VNum (Fin 1))] = rule_evaluate r [(''b'', VNum (Fin 5)), (''a'', VNum (Fin 1))]"
proof -
  have t: "tokenize ''a'' = Inr [TIdent ''a'']"
    by (simp add: tokenize.simps(2) [of "CHR ''a''"] isCelWhitespace_def isCelLogicalPair_def isCelLogicalChar_def isCelComparisonWindow_def
      isCelComparisonChar_def isCelDigitOrDot_def isCelIdentifierStart_def isCelIdentifierPart_def add_token_def)
  have "parse_all [TIdent ''a''] = Inr (Truthy (CIdent ''a''))"
    using parse_all_printed [of "Truthy (CIdent ''a'')"] by simp
  then obtain r where r: "cel_compile ''r'' ''a'' = Inr r"
    by (auto simp: cel_compile_def parse_condition_def t)
  have "identifiersOutsideStrings ''a'' = [''a'']"
    by (simp add: identifiersOutsideStrings_def ident_start_def is_word_def is_alpha_def is_lower_alpha_def)
  then have "rule_evaluate r [(''a'', VNum (Fin 1))] = rule_evaluate r [(''b'', VNum (Fin 5)), (''a'', VNum (Fin 1))]"
    by (intro rule_reads_checked_variables [OF r]) (simp only: list.set set_empty insert_iff empty_iff, simp)
  with r show ?thesis by blast
qed

text \<open>C39: Compilation always answers: the parser never runs out of fuel, and a failure carries the condition it is about.\<close>

theorem compile_answers:
  "(\<exists>e. parse_condition c = Inr e \<and> cel_compile n c = Inr \<lparr>rule_name = n, rule_evaluate = eval_expr e\<rparr>)
   \<or> (\<exists>m. m \<noteq> ''out of fuel'' \<and> cel_compile n c = Inl \<lparr>rce_expr = c, rce_message = m\<rparr>)"
proof (cases "tokenize c")
  case (Inl m)
  then have "m \<noteq> ''out of fuel''"
    by (induction c arbitrary: m rule: tokenize.induct)
       (auto simp: tokenize.simps(2) add_token_def unexpected_character_def split: if_splits sum.splits)
  then show ?thesis using Inl by (simp add: cel_compile_def parse_condition_def)
next
  case (Inr ts)
  have "parse_expr (4 * length ts + 4) ts \<noteq> OutOfFuel" by (rule parse_fuel) simp
  then show ?thesis using Inr
    by (auto simp: cel_compile_def parse_condition_def parse_all_def split: parsed.splits list.splits)
qed

text \<open>
  A string literal that begins with a comparison character is not read as a string: the comparison
  window of the tokenizer, which looks at the next character, takes the opening quote for an operator.
\<close>

theorem string_beginning_with_comparison:
  "isCelComparisonChar c \<Longrightarrow> c \<noteq> CHR ''='' \<Longrightarrow>
     tokenize (CHR 0x27 # c # s) = add_token (TOp [CHR 0x27]) (tokenize (c # s))"
  by (subst tokenize.simps(2)) (simp add: isCelWhitespace_def isCelLogicalPair_def isCelLogicalChar_def isCelComparisonWindow_def)

end
