(* ===== verification/Gate.thy ===== *)
theory Gate
  imports Cel Structural_Policy Weights
begin

text \<open>
  The judgement of the gate (\<open>application/governance/gate.ts\<close>) and the explanation of calibration
  epochs (\<open>calibrationSignals.ts\<close>, \<open>calibrationGate.ts\<close>). The rule service, which the code injects,
  is the argument \<open>compile\<close>; \<open>Cel.cel_compile\<close> is its implementation. A trigger carries the values
  its rule saw; the evaluation closure that the code copies along is left out.
\<close>

section \<open>Rules, metrics and triggers\<close>

datatype GateVerdict = gate_PASS | gate_WARN | gate_BLOCK

datatype GateTriggerMode = mode_observe | mode_enforce

text \<open>A rule of the gate has the shape of a policy rule: name, condition and level.\<close>

type_synonym GateRule = StructuralPolicyRule

record GateFileMetric =
  gm_path :: string
  gm_language :: "string option"
  gm_branchCount :: real
  gm_weightedBranchTotal :: "real option"
  gm_topLevelWeightedBranch :: "real option"
  gm_nestingDepth :: real
  gm_alphaStruct :: real
  gm_loc :: "real option"
  gm_declarationLoc :: "real option"
  gm_passthroughCalls :: "real option"
  gm_maxFuncBranch :: "real option"
  gm_externalPassthroughCalls :: "real option"
  gm_connectedness :: "real option"
  gm_singleCallSiteRatio :: "real option"
  gm_localBurdenFingerprint :: "string option"
  gm_previousLocalBurdenFingerprint :: "string option"
  gm_fileKind :: "FileKind option"

record GateTrigger =
  tg_name :: string
  tg_block :: bool
  tg_condition :: string
  tg_file :: "string option"
  tg_observed :: "vars option"
  tg_p95 :: "P95Values option"
  tg_weights :: "CRLStateWeights option"
  tg_mode :: "GateTriggerMode option"

record GateReport =
  gr_verdict :: GateVerdict
  gr_triggered :: "GateTrigger list"

record GateCompiledRule =
  gc_name :: string
  gc_block :: bool
  gc_evaluate :: "vars \<Rightarrow> bool"
  gc_condition :: string
  gc_mode :: "GateTriggerMode option"

type_synonym rule_compiler = "string \<Rightarrow> string \<Rightarrow> RuleCompileError + CompiledRule"

definition verdictOf :: "bool \<Rightarrow> bool \<Rightarrow> GateVerdict" where
  "verdictOf blocked warned = (if blocked then gate_BLOCK else if warned then gate_WARN else gate_PASS)"

section \<open>One file\<close>

definition trigger_of :: "GateCompiledRule \<Rightarrow> vars \<Rightarrow> string option \<Rightarrow> GateTrigger" where
  "trigger_of r v filePath =
     \<lparr>tg_name = gc_name r, tg_block = gc_block r, tg_condition = gc_condition r, tg_file = filePath,
      tg_observed = Some v, tg_p95 = None, tg_weights = None, tg_mode = gc_mode r\<rparr>"

record RuleEvaluation =
  re_triggered :: "GateTrigger list"
  re_blocked :: bool
  re_warned :: bool

definition evaluate_rule :: "vars \<Rightarrow> string option \<Rightarrow> RuleEvaluation \<Rightarrow> GateCompiledRule \<Rightarrow> RuleEvaluation" where
  "evaluate_rule v filePath acc r =
     (if gc_evaluate r v
      then \<lparr>re_triggered = re_triggered acc @ [trigger_of r v filePath],
            re_blocked = (re_blocked acc \<or> gc_block r), re_warned = (re_warned acc \<or> \<not> gc_block r)\<rparr>
      else acc)"

definition no_evaluation :: RuleEvaluation where
  "no_evaluation = \<lparr>re_triggered = [], re_blocked = False, re_warned = False\<rparr>"

definition evaluateRules :: "GateCompiledRule list \<Rightarrow> vars \<Rightarrow> string option \<Rightarrow> RuleEvaluation" where
  "evaluateRules compiled v filePath = foldl (evaluate_rule v filePath) no_evaluation compiled"

record GateBaseline = BranchMetricSnapshot +
  gb_nestingDepth :: "real option"
  gb_pathClass :: "string option"

definition num :: "real \<Rightarrow> jsval" where
  "num x = VNum (Fin x)"

definition baselineVars :: "GateBaseline \<Rightarrow> vars" where
  "baselineVars b =
     [(''branch_count'', num (or_default (bm_branchCount b) 0)),
      (''weighted_branch_total'', num (weightedBranchTotalOf (BranchMetricSnapshot.truncate b))),
      (''top_level_branch'', num (topLevelWeightedBranchOf (BranchMetricSnapshot.truncate b))),
      (''max_func_branch'', num (maxFuncWeightedBranchOf (BranchMetricSnapshot.truncate b))),
      (''nesting_depth'', num (or_default (gb_nestingDepth b) 0)),
      (''path_class'', VStr (or_default (gb_pathClass b) ''default''))]"

fun gate_rules :: "rule_compiler \<Rightarrow> vars \<Rightarrow> GateRule list \<Rightarrow> RuleEvaluation \<Rightarrow> RuleCompileError + RuleEvaluation" where
  "gate_rules compile v [] acc = Inr acc"
| "gate_rules compile v (r # rs) acc =
     (case compile (spr_name r) (spr_condition r) of
        Inl e \<Rightarrow> Inl e
      | Inr c \<Rightarrow> gate_rules compile v rs
          (if rule_evaluate c v
           then \<lparr>re_triggered = re_triggered acc @
                   [\<lparr>tg_name = spr_name r, tg_block = spr_block r, tg_condition = spr_condition r, tg_file = None,
                     tg_observed = None, tg_p95 = None, tg_weights = None, tg_mode = None\<rparr>],
                 re_blocked = (re_blocked acc \<or> spr_block r), re_warned = (re_warned acc \<or> \<not> spr_block r)\<rparr>
           else acc))"

definition gate :: "rule_compiler \<Rightarrow> GateRule list \<Rightarrow> GateBaseline \<Rightarrow> RuleCompileError + GateReport" where
  "gate compile rules b =
     (case gate_rules compile (baselineVars b) rules no_evaluation of
        Inl e \<Rightarrow> Inl e
      | Inr r \<Rightarrow> Inr \<lparr>gr_verdict = verdictOf (re_blocked r) (re_warned r), gr_triggered = re_triggered r\<rparr>)"

section \<open>All files\<close>

fun compileRules :: "rule_compiler \<Rightarrow> GateTriggerMode option \<Rightarrow> GateRule list \<Rightarrow> RuleCompileError + GateCompiledRule list" where
  "compileRules compile mode [] = Inr []"
| "compileRules compile mode (r # rs) =
     (case compile (spr_name r) (spr_condition r) of
        Inl e \<Rightarrow> Inl e
      | Inr c \<Rightarrow>
          (case compileRules compile mode rs of
             Inl e \<Rightarrow> Inl e
           | Inr cs \<Rightarrow> Inr (\<lparr>gc_name = spr_name r, gc_block = spr_block r, gc_evaluate = rule_evaluate c,
                gc_condition = spr_condition r, gc_mode = mode\<rparr> # cs)))"

definition branchSnapshotOf :: "GateFileMetric \<Rightarrow> BranchMetricSnapshot" where
  "branchSnapshotOf m = \<lparr>bm_branchCount = Some (gm_branchCount m), bm_weightedBranchTotal = gm_weightedBranchTotal m,
     bm_maxFuncBranch = gm_maxFuncBranch m, bm_topLevelWeightedBranch = gm_topLevelWeightedBranch m\<rparr>"

definition crlInputOf :: "GateFileMetric \<Rightarrow> CRLStateInput" where
  "crlInputOf m =
     \<lparr>cs_maxFuncBranch = gm_maxFuncBranch m, cs_nestingDepth = gm_nestingDepth m, cs_loc = gm_loc m,
      cs_declarationLoc = gm_declarationLoc m, cs_alphaStruct = gm_alphaStruct m,
      cs_connectedness = gm_connectedness m, cs_singleCallSiteRatio = None,
      cs_externalPassthroughCalls = gm_externalPassthroughCalls m, cs_passthroughCalls = gm_passthroughCalls m\<rparr>"

record GateOptions =
  go_p95 :: "P95Values option"
  go_weights :: "CRLStateWeights option"
  go_mode :: "GateTriggerMode option"

definition optionWeights :: "GateOptions \<Rightarrow> CRLStateWeights" where
  "optionWeights options = or_default (go_weights options) DEFAULT_CRL_STATE_WEIGHTS"

definition fileVars :: "(string \<Rightarrow> string \<Rightarrow> bool) \<Rightarrow> PathClass list \<Rightarrow> GateOptions \<Rightarrow> GateFileMetric \<Rightarrow> vars" where
  "fileVars mm paths options m =
     (let breakdown = map_option (\<lambda>p. computeCRLStateBreakdown (crlInputOf m) p (optionWeights options)) (go_p95 options)
      in [(''weighted_branch_total'', num (weightedBranchTotalOf (branchSnapshotOf m))),
          (''top_level_branch'', num (topLevelWeightedBranchOf (branchSnapshotOf m))),
          (''max_func_branch'', num (maxFuncWeightedBranchOf (branchSnapshotOf m))),
          (''nesting_depth'', num (gm_nestingDepth m)),
          (''path_class'', VStr (classifyPath mm (gm_path m) paths)),
          (''crl_local'', num (or_default (map_option bd_localBurden breakdown) 0)),
          (''exposure'', num (or_default (map_option bd_exposure breakdown) 0)),
          (''module_shape'', num (or_default (map_option bd_moduleShape breakdown) 0)),
          (''loc'', num (or_default (gm_loc m) 0)),
          (''declaration_loc'', num (or_default (gm_declarationLoc m) 0)),
          (''language'', VStr (or_default (gm_language m) ''unknown''))])"

definition gate_file ::
  "(string \<Rightarrow> string \<Rightarrow> bool) \<Rightarrow> GateCompiledRule list \<Rightarrow> PathClass list \<Rightarrow> GateOptions \<Rightarrow> RuleEvaluation \<Rightarrow> GateFileMetric \<Rightarrow> RuleEvaluation" where
  "gate_file mm compiled paths options acc m =
     (if \<not> participatesInPopulation (gm_fileKind m) pop_production then acc
      else
        let r = evaluateRules compiled (fileVars mm paths options m) (Some (gm_path m))
        in \<lparr>re_triggered = re_triggered acc @
              map (\<lambda>t. t\<lparr>tg_p95 := go_p95 options, tg_weights := Some (optionWeights options)\<rparr>) (re_triggered r),
            re_blocked = (re_blocked acc \<or> re_blocked r), re_warned = (re_warned acc \<or> re_warned r)\<rparr>)"

definition gatePerFile ::
  "rule_compiler \<Rightarrow> (string \<Rightarrow> string \<Rightarrow> bool) \<Rightarrow> GateRule list \<Rightarrow> GateFileMetric list \<Rightarrow> PathClass list \<Rightarrow> GateOptions
     \<Rightarrow> RuleCompileError + GateReport" where
  "gatePerFile compile mm rules fileMetrics paths options =
     (case compileRules compile (go_mode options) rules of
        Inl e \<Rightarrow> Inl e
      | Inr compiled \<Rightarrow>
          let r = foldl (gate_file mm compiled paths options) no_evaluation fileMetrics
          in Inr \<lparr>gr_verdict = verdictOf (re_blocked r) (re_warned r), gr_triggered = re_triggered r\<rparr>)"

section \<open>Calibration epochs\<close>

record CalibrationShiftCandidate =
  sc_path :: string
  sc_previousLocalBurden :: real
  sc_currentLocalBurden :: real

definition calibrationInputOf :: "GateFileMetric \<Rightarrow> CRLStateInput" where
  "calibrationInputOf m = (crlInputOf m)\<lparr>cs_singleCallSiteRatio := gm_singleCallSiteRatio m\<rparr>"

definition calibrationShiftCandidates ::
  "GateFileMetric list \<Rightarrow> StructuralCalibrationProfile option \<Rightarrow> StructuralCalibrationProfile option \<Rightarrow> CRLStateWeights
     \<Rightarrow> CalibrationShiftCandidate list" where
  "calibrationShiftCandidates entries previous current weights =
     (case (previous, current) of
        (Some p, Some c) \<Rightarrow>
          if \<not> comparableStructuralCalibration previous current then []
          else filter (\<lambda>s. sc_previousLocalBurden s \<noteq> sc_currentLocalBurden s)
            (map (\<lambda>e. \<lparr>sc_path = gm_path e,
                sc_previousLocalBurden = bd_localBurden (computeCRLStateBreakdown (calibrationInputOf e) (sp_p95 p) weights),
                sc_currentLocalBurden = bd_localBurden (computeCRLStateBreakdown (calibrationInputOf e) (sp_p95 c) weights)\<rparr>)
              (filter (\<lambda>e. participatesInPopulation (gm_fileKind e) pop_production
                  \<and> gm_localBurdenFingerprint e \<noteq> None
                  \<and> gm_localBurdenFingerprint e = gm_previousLocalBurdenFingerprint e) entries))
      | _ \<Rightarrow> [])"

record CalibrationShift =
  cs_path :: string
  cs_gateLocalBurden :: real
  cs_observedLocalBurden :: real
  cs_gateRules :: "string list"
  cs_observedRules :: "string list"

definition localBurdenOnlyRules :: "GateRule list \<Rightarrow> GateRule list" where
  "localBurdenOnlyRules rules = filter (\<lambda>r. let ids = metricIdsInCondition (spr_condition r)
     in ''crl_local'' \<in> set ids \<and> list_all (\<lambda>i. i = ''crl_local'') ids) rules"

definition triggerNames :: "GateTrigger list \<Rightarrow> string \<Rightarrow> string list" where
  "triggerNames triggered p = sort (map tg_name (filter (\<lambda>t. tg_file t = Some p) triggered))"

definition calibrationThresholdShifts ::
  "rule_compiler \<Rightarrow> (string \<Rightarrow> string \<Rightarrow> bool) \<Rightarrow> StructuralCalibrationState option \<Rightarrow> GateRule list \<Rightarrow> GateFileMetric list
     \<Rightarrow> PathClass list \<Rightarrow> CRLStateWeights \<Rightarrow> RuleCompileError + CalibrationShift list" where
  "calibrationThresholdShifts compile mm profiles rules metrics paths weights =
     (let gateProfile = gateCalibrationProfile profiles;
          observedProfile = map_option st_current profiles;
          candidates = calibrationShiftCandidates metrics gateProfile observedProfile weights;
          burdenRules = localBurdenOnlyRules rules
      in case (gateProfile, observedProfile) of
           (Some g, Some ob) \<Rightarrow>
             if candidates = [] \<or> burdenRules = [] then Inr []
             else
               let metricsByPath = fromEntries (map (\<lambda>m. (gm_path m, m)) metrics);
                   candidateMetrics = present (map (\<lambda>c. map_get metricsByPath (sc_path c)) candidates);
                   judge = (\<lambda>p. gatePerFile compile mm burdenRules candidateMetrics paths
                      \<lparr>go_p95 = Some (sp_p95 p), go_weights = Some weights, go_mode = None\<rparr>)
               in (case judge g of
                     Inl e \<Rightarrow> Inl e
                   | Inr gateReport \<Rightarrow>
                       (case judge ob of
                          Inl e \<Rightarrow> Inl e
                        | Inr observedReport \<Rightarrow>
                            Inr (filter (\<lambda>s. join_with [NUL] (cs_gateRules s) \<noteq> join_with [NUL] (cs_observedRules s))
                              (map (\<lambda>c. \<lparr>cs_path = sc_path c, cs_gateLocalBurden = sc_previousLocalBurden c,
                                  cs_observedLocalBurden = sc_currentLocalBurden c,
                                  cs_gateRules = triggerNames (gr_triggered gateReport) (sc_path c),
                                  cs_observedRules = triggerNames (gr_triggered observedReport) (sc_path c)\<rparr>) candidates))))
         | _ \<Rightarrow> Inr [])"

section \<open>What a judgement is\<close>

text \<open>A rule fires on a file when it compiles and holds of the values of the file.\<close>

definition fires ::
  "rule_compiler \<Rightarrow> (string \<Rightarrow> string \<Rightarrow> bool) \<Rightarrow> PathClass list \<Rightarrow> GateOptions \<Rightarrow> GateFileMetric \<Rightarrow> GateRule \<Rightarrow> bool" where
  "fires compile mm paths options m q =
     (case compile (spr_name q) (spr_condition q) of
        Inl _ \<Rightarrow> False | Inr c \<Rightarrow> rule_evaluate c (fileVars mm paths options m))"

definition judged :: "GateFileMetric list \<Rightarrow> GateFileMetric list" where
  "judged ms = filter (\<lambda>m. participatesInPopulation (gm_fileKind m) pop_production) ms"

definition firings ::
  "rule_compiler \<Rightarrow> (string \<Rightarrow> string \<Rightarrow> bool) \<Rightarrow> PathClass list \<Rightarrow> GateOptions \<Rightarrow> GateRule list \<Rightarrow> GateFileMetric list
     \<Rightarrow> (GateFileMetric \<times> GateRule) list" where
  "firings compile mm paths options rules ms =
     concat (map (\<lambda>m. map (Pair m) (filter (fires compile mm paths options m) rules)) (judged ms))"

definition trigger_key :: "GateTrigger \<Rightarrow> string \<times> bool \<times> string option" where
  "trigger_key t = (tg_name t, tg_block t, tg_file t)"

definition firing_key :: "GateFileMetric \<times> GateRule \<Rightarrow> string \<times> bool \<times> string option" where
  "firing_key f = (spr_name (snd f), spr_block (snd f), Some (gm_path (fst f)))"

lemma set_firings:
  "f \<in> set (firings compile mm paths options rules ms) \<longleftrightarrow>
     fst f \<in> set ms \<and> participatesInPopulation (gm_fileKind (fst f)) pop_production
     \<and> snd f \<in> set rules \<and> fires compile mm paths options (fst f) (snd f)"
  by (cases f) (auto simp: firings_def judged_def)

lemma evaluate_rules_from:
  "foldl (evaluate_rule v f) acc rs =
     \<lparr>re_triggered = re_triggered acc @ map (\<lambda>r. trigger_of r v f) (filter (\<lambda>r. gc_evaluate r v) rs),
      re_blocked = (re_blocked acc \<or> (\<exists>r \<in> set rs. gc_evaluate r v \<and> gc_block r)),
      re_warned = (re_warned acc \<or> (\<exists>r \<in> set rs. gc_evaluate r v \<and> \<not> gc_block r))\<rparr>"
  by (induction rs arbitrary: acc) (auto simp: evaluate_rule_def)

lemma compileRules_Inr:
  "compileRules compile mode rules = Inr cs \<Longrightarrow>
     list_all2 (\<lambda>q c. \<exists>r. compile (spr_name q) (spr_condition q) = Inr r
       \<and> c = \<lparr>gc_name = spr_name q, gc_block = spr_block q, gc_evaluate = rule_evaluate r, gc_condition = spr_condition q, gc_mode = mode\<rparr>) rules cs"
  by (induction rules arbitrary: cs) (auto simp: list_all2_Cons1 split: sum.splits)

text \<open>Compilation fails with the first rule that does not compile.\<close>

lemma compileRules_Inl:
  "compileRules compile mode rules = Inl e \<longleftrightarrow>
     (\<exists>q. find (\<lambda>q. isl (compile (spr_name q) (spr_condition q))) rules = Some q \<and> compile (spr_name q) (spr_condition q) = Inl e)"
  by (induction rules) (auto split: sum.splits)

lemma compiled_filter:
  assumes "compileRules compile mode rules = Inr cs"
  shows "map (\<lambda>c. (gc_name c, gc_block c)) (filter (\<lambda>c. gc_evaluate c (fileVars mm paths options m)) cs)
    = map (\<lambda>q. (spr_name q, spr_block q)) (filter (fires compile mm paths options m) rules)"
  using compileRules_Inr [OF assms]
  by (induction rules cs rule: list_all2_induct) (auto simp: fires_def)

lemma compiled_some:
  assumes "compileRules compile mode rules = Inr cs"
  shows "(\<exists>c \<in> set cs. gc_evaluate c (fileVars mm paths options m) \<and> gc_block c = b)
    \<longleftrightarrow> (\<exists>q \<in> set rules. fires compile mm paths options m q \<and> spr_block q = b)"
  using compileRules_Inr [OF assms]
  by (induction rules cs rule: list_all2_induct) (auto simp: fires_def)

lemma gate_files:
  fixes mm paths
  assumes c: "compileRules compile (go_mode options) rules = Inr cs"
  defines "R \<equiv> \<lambda>acc ms. foldl (gate_file mm cs paths options) acc ms"
  shows "map trigger_key (re_triggered (R acc ms)) = map trigger_key (re_triggered acc) @ map firing_key (firings compile mm paths options rules ms)"
    and "re_blocked (R acc ms) \<longleftrightarrow> re_blocked acc \<or> (\<exists>f \<in> set (firings compile mm paths options rules ms). spr_block (snd f))"
    and "re_warned (R acc ms) \<longleftrightarrow> re_warned acc \<or> (\<exists>f \<in> set (firings compile mm paths options rules ms). \<not> spr_block (snd f))"
proof -
  have "map trigger_key (re_triggered (R acc ms)) = map trigger_key (re_triggered acc) @ map firing_key (firings compile mm paths options rules ms)
    \<and> (re_blocked (R acc ms) \<longleftrightarrow> re_blocked acc \<or> (\<exists>f \<in> set (firings compile mm paths options rules ms). spr_block (snd f)))
    \<and> (re_warned (R acc ms) \<longleftrightarrow> re_warned acc \<or> (\<exists>f \<in> set (firings compile mm paths options rules ms). \<not> spr_block (snd f)))"
  proof (induction ms arbitrary: acc)
    case Nil
    then show ?case by (simp add: R_def firings_def judged_def)
  next
    case (Cons m ms)
    show ?case
    proof (cases "participatesInPopulation (gm_fileKind m) pop_production")
      case False
      then have "R acc (m # ms) = R acc ms" by (simp add: R_def gate_file_def)
      with Cons False show ?thesis by (simp add: firings_def judged_def)
    next
      case True
      let ?v = "fileVars mm paths options m"
      let ?acc = "gate_file mm cs paths options acc m"
      have R: "R acc (m # ms) = R ?acc ms" by (simp add: R_def)
      have key: "map trigger_key (re_triggered ?acc) = map trigger_key (re_triggered acc) @ map firing_key (map (Pair m) (filter (fires compile mm paths options m) rules))"
      proof -
        have "map trigger_key (re_triggered ?acc) = map trigger_key (re_triggered acc)
          @ map (\<lambda>p. (fst p, snd p, Some (gm_path m))) (map (\<lambda>c. (gc_name c, gc_block c)) (filter (\<lambda>c. gc_evaluate c ?v) cs))"
          using True by (simp add: gate_file_def evaluateRules_def evaluate_rules_from no_evaluation_def trigger_key_def trigger_of_def comp_def)
        then show ?thesis unfolding compiled_filter [OF c] by (simp add: firing_key_def comp_def)
      qed
      have b: "re_blocked ?acc \<longleftrightarrow> re_blocked acc \<or> (\<exists>q \<in> set rules. fires compile mm paths options m q \<and> spr_block q)"
        using True compiled_some [OF c, of mm paths options m True]
        by (simp add: gate_file_def evaluateRules_def evaluate_rules_from no_evaluation_def)
      have w: "re_warned ?acc \<longleftrightarrow> re_warned acc \<or> (\<exists>q \<in> set rules. fires compile mm paths options m q \<and> \<not> spr_block q)"
        using True compiled_some [OF c, of mm paths options m False]
        by (simp add: gate_file_def evaluateRules_def evaluate_rules_from no_evaluation_def)
      have F: "firings compile mm paths options rules (m # ms)
        = map (Pair m) (filter (fires compile mm paths options m) rules) @ firings compile mm paths options rules ms"
        using True by (simp add: firings_def judged_def)
      have ex: "(\<exists>f \<in> set (map (Pair m) (filter P rules)). Q (snd f)) \<longleftrightarrow> (\<exists>q \<in> set rules. P q \<and> Q q)" for P Q
        by auto
      from Cons.IH [of ?acc] show ?thesis
        unfolding R F set_append bex_Un ex [of _ spr_block] ex [of _ "\<lambda>q. \<not> spr_block q"] map_append key b w by simp
    qed
  qed
  then show "map trigger_key (re_triggered (R acc ms)) = map trigger_key (re_triggered acc) @ map firing_key (firings compile mm paths options rules ms)"
    and "re_blocked (R acc ms) \<longleftrightarrow> re_blocked acc \<or> (\<exists>f \<in> set (firings compile mm paths options rules ms). spr_block (snd f))"
    and "re_warned (R acc ms) \<longleftrightarrow> re_warned acc \<or> (\<exists>f \<in> set (firings compile mm paths options rules ms). \<not> spr_block (snd f))"
    by blast+
qed

text \<open>The report of the gate in terms of the firings.\<close>

definition verdict_of_firings :: "(GateFileMetric \<times> GateRule) list \<Rightarrow> GateVerdict" where
  "verdict_of_firings fs = verdictOf (list_ex (\<lambda>f. spr_block (snd f)) fs) (list_ex (\<lambda>f. \<not> spr_block (snd f)) fs)"

lemma gatePerFile_Inr:
  assumes "gatePerFile compile mm rules ms paths options = Inr r"
  shows "gr_verdict r = verdict_of_firings (firings compile mm paths options rules ms)"
    and "map trigger_key (gr_triggered r) = map firing_key (firings compile mm paths options rules ms)"
proof -
  obtain cs where c: "compileRules compile (go_mode options) rules = Inr cs"
    using assms by (auto simp: gatePerFile_def split: sum.splits)
  let ?r = "foldl (gate_file mm cs paths options) no_evaluation ms"
  have r: "r = \<lparr>gr_verdict = verdictOf (re_blocked ?r) (re_warned ?r), gr_triggered = re_triggered ?r\<rparr>"
    using assms c by (simp add: gatePerFile_def Let_def)
  show "gr_verdict r = verdict_of_firings (firings compile mm paths options rules ms)"
    unfolding r verdict_of_firings_def by (simp add: gate_files [OF c] no_evaluation_def list_ex_iff)
  show "map trigger_key (gr_triggered r) = map firing_key (firings compile mm paths options rules ms)"
    unfolding r by (simp add: gate_files [OF c] no_evaluation_def)
qed

lemma gatePerFile_Inl:
  "gatePerFile compile mm rules ms paths options = Inl e \<longleftrightarrow> compileRules compile (go_mode options) rules = Inl e"
  by (auto simp: gatePerFile_def Let_def split: sum.splits)

lemma verdict_of_firings_iff:
  "verdict_of_firings fs = gate_BLOCK \<longleftrightarrow> (\<exists>f \<in> set fs. spr_block (snd f))"
  "verdict_of_firings fs = gate_PASS \<longleftrightarrow> fs = []"
  by (cases fs; auto simp: verdict_of_firings_def verdictOf_def list_ex_iff)+

lemma verdict_append:
  "verdict_of_firings (fs @ gs) = verdictOf (verdict_of_firings fs = gate_BLOCK \<or> verdict_of_firings gs = gate_BLOCK)
     (verdict_of_firings fs \<noteq> gate_PASS \<or> verdict_of_firings gs \<noteq> gate_PASS)"
  by (cases fs; cases gs) (auto simp: verdict_of_firings_def verdictOf_def)

section \<open>The interface of the rule service\<close>

text \<open>
  What the gate relies on: a compiled rule reads only the variables that \<open>identifiers\<close> finds in
  its condition.
\<close>

locale rule_service =
  fixes compile :: rule_compiler
    and identifiers :: "string \<Rightarrow> string list"
  assumes reads_identifiers:
    "compile n c = Inr r \<Longrightarrow> (\<And>x. x \<in> set (identifiers c) \<Longrightarrow> map_get v x = map_get w x) \<Longrightarrow> rule_evaluate r v = rule_evaluate r w"
begin

lemma fires_cong:
  "(\<And>x. x \<in> set (identifiers (spr_condition q)) \<Longrightarrow> map_get (fileVars mm paths options m) x = map_get (fileVars mm paths options' m') x)
     \<Longrightarrow> fires compile mm paths options m q = fires compile mm paths options' m' q"
  by (auto simp: fires_def split: sum.splits intro!: reads_identifiers)

lemma firings_cong:
  assumes same: "list_all2 (\<lambda>m m'. gm_path m = gm_path m' \<and> gm_fileKind m = gm_fileKind m'
     \<and> (\<forall>q \<in> set rules. \<forall>x \<in> set (identifiers (spr_condition q)).
          map_get (fileVars mm paths options m) x = map_get (fileVars mm paths options m') x)) ms ms'"
  shows "map firing_key (firings compile mm paths options rules ms) = map firing_key (firings compile mm paths options rules ms')
    \<and> verdict_of_firings (firings compile mm paths options rules ms) = verdict_of_firings (firings compile mm paths options rules ms')"
proof -
  have "map firing_key (firings compile mm paths options rules ms) = map firing_key (firings compile mm paths options rules ms')"
    using same
  proof (induction ms ms' rule: list_all2_induct)
    case (Cons m ms m' ms')
    then have "filter (fires compile mm paths options m) rules = filter (fires compile mm paths options m') rules"
      by (intro filter_cong refl fires_cong) blast
    with Cons show ?case by (simp add: firings_def judged_def firing_key_def comp_def)
  qed simp
  moreover have "verdict_of_firings fs = verdictOf (list_ex (\<lambda>k. fst (snd k)) (map firing_key fs)) (list_ex (\<lambda>k. \<not> fst (snd k)) (map firing_key fs))" for fs
    by (induction fs) (simp_all add: verdict_of_firings_def firing_key_def verdictOf_def list_ex_iff)
  ultimately show ?thesis by metis
qed

end

interpretation cel: rule_service cel_compile identifiersOutsideStrings
proof
  fix n c r and v w :: vars
  assume "cel_compile n c = Inr r" and same: "\<And>x. x \<in> set (identifiersOutsideStrings c) \<Longrightarrow> map_get v x = map_get w x"
  then obtain e where e: "r = \<lparr>rule_name = n, rule_evaluate = eval_expr e\<rparr>" "idents_expr e \<subseteq> set (identifiersOutsideStrings c)"
    using compile_InrD by blast
  then have "eval_expr e v = eval_expr e w" using same by (intro eval_cong) blast
  then show "rule_evaluate r v = rule_evaluate r w" using e(1) by simp
qed
section \<open>Properties\<close>

lemma shifts_mem:
  assumes "calibrationThresholdShifts compile mm profiles rules metrics paths weights = Inr shifts" "s \<in> set shifts"
  shows "\<exists>g ob c. gateCalibrationProfile profiles = Some g \<and> map_option st_current profiles = Some ob
    \<and> c \<in> set (calibrationShiftCandidates metrics (Some g) (Some ob) weights)
    \<and> cs_path s = sc_path c \<and> cs_gateLocalBurden s = sc_previousLocalBurden c \<and> cs_observedLocalBurden s = sc_currentLocalBurden c
    \<and> cs_gateRules s \<noteq> cs_observedRules s"
  using assms by (fastforce simp: calibrationThresholdShifts_def Let_def split: option.splits if_splits sum.splits)

text \<open>A reported calibration shift is about a production file whose inputs of the local burden have not
  changed: the two burdens differ because the percentiles do, the two epochs are comparable, and the rules that
  trigger are not the same.\<close>

theorem calibration_shift_explained:
  assumes "calibrationThresholdShifts compile mm profiles rules metrics paths weights = Inr shifts" "s \<in> set shifts"
  shows "\<exists>m \<in> set metrics. gm_path m = cs_path s \<and> participatesInPopulation (gm_fileKind m) pop_production
    \<and> gm_localBurdenFingerprint m \<noteq> None \<and> gm_localBurdenFingerprint m = gm_previousLocalBurdenFingerprint m
    \<and> cs_gateLocalBurden s \<noteq> cs_observedLocalBurden s \<and> cs_gateRules s \<noteq> cs_observedRules s
    \<and> comparableStructuralCalibration (gateCalibrationProfile profiles) (map_option st_current profiles)"
proof -
  obtain g ob c where c: "gateCalibrationProfile profiles = Some g" "map_option st_current profiles = Some ob"
    "c \<in> set (calibrationShiftCandidates metrics (Some g) (Some ob) weights)"
    "cs_path s = sc_path c" "cs_gateLocalBurden s = sc_previousLocalBurden c" "cs_observedLocalBurden s = sc_currentLocalBurden c"
    "cs_gateRules s \<noteq> cs_observedRules s"
    using shifts_mem [OF assms] by metis
  from c(3) show ?thesis unfolding c(1,2,4,5,6)
    by (auto simp: calibrationShiftCandidates_def c(7) split: if_splits)
qed

definition shift_metric :: GateFileMetric where
  "shift_metric = \<lparr>gm_path = ''a.go'', gm_language = Some ''go'', gm_branchCount = 3, gm_weightedBranchTotal = None,
     gm_topLevelWeightedBranch = None, gm_nestingDepth = 0, gm_alphaStruct = 0, gm_loc = None, gm_declarationLoc = None,
     gm_passthroughCalls = None, gm_maxFuncBranch = Some 3, gm_externalPassthroughCalls = None, gm_connectedness = None,
     gm_singleCallSiteRatio = None, gm_localBurdenFingerprint = Some ''f'', gm_previousLocalBurdenFingerprint = Some ''f'',
     gm_fileKind = None\<rparr>"

definition branch_p95 :: "real \<Rightarrow> P95Values" where
  "branch_p95 b = \<lparr>p95_branch = b, p95_nesting = 0, p95_loc = 0, p95_alpha = 0, p95_oneMinusConnectedness = 0, p95_externalPassthrough = 0\<rparr>"

definition shift_profile :: "string \<Rightarrow> real \<Rightarrow> StructuralCalibrationProfile" where
  "shift_profile population b = \<lparr>cp_id = population, cp_analysisScopeFingerprint = ''s'', cp_metricContractVersion = ''m'',
     cp_populationFingerprint = population, cp_source = src_baseline, sp_version = ''v'', sp_p95 = branch_p95 b, sp_weightsFingerprint = ''w''\<rparr>"

definition shift_state :: StructuralCalibrationState where
  "shift_state = \<lparr>st_current = shift_profile ''new'' 6, st_previous = None, st_gate = Some (shift_profile ''old'' 3)\<rparr>"

definition shift_rule :: GateRule where
  "shift_rule = \<lparr>spr_name = ''burden'', spr_condition = ''crl_local'', spr_block = True\<rparr>"

text \<open>A rule service whose only rule is a burden above a sixth.\<close>

definition sixth_compiler :: rule_compiler where
  "sixth_compiler n c = Inr \<lparr>rule_name = n, rule_evaluate = (\<lambda>v. js_lt (num (1/6)) (or_default (map_get v ''crl_local'') VUndef))\<rparr>"

lemma shift_burden:
  "bd_localBurden (computeCRLStateBreakdown (crlInputOf shift_metric) (branch_p95 3) DEFAULT_CRL_STATE_WEIGHTS) = 1/5"
  "bd_localBurden (computeCRLStateBreakdown (crlInputOf shift_metric) (branch_p95 6) DEFAULT_CRL_STATE_WEIGHTS) = 1/10"
  "bd_localBurden (computeCRLStateBreakdown (calibrationInputOf shift_metric) (branch_p95 3) DEFAULT_CRL_STATE_WEIGHTS) = 1/5"
  "bd_localBurden (computeCRLStateBreakdown (calibrationInputOf shift_metric) (branch_p95 6) DEFAULT_CRL_STATE_WEIGHTS) = 1/10"
  by (simp_all add: computeCRLStateBreakdown_def calibrationInputOf_def crlInputOf_def shift_metric_def branch_p95_def localBurdenInputsOf_def
    DEFAULT_CRL_STATE_WEIGHTS_def safeDiv_def Let_def)

lemma shift_run:
  "\<exists>s. calibrationThresholdShifts sixth_compiler (\<lambda>_ _. True) (Some shift_state) [shift_rule] [shift_metric] [] DEFAULT_CRL_STATE_WEIGHTS = Inr [s]"
proof -
  let ?w = DEFAULT_CRL_STATE_WEIGHTS
  have ids: "metricIdsInCondition ''crl_local'' = [''crl_local'']"
    by (simp add: metricIdsInCondition_def identifiersOutsideStrings_def ident_start_def is_word_def is_alpha_def is_lower_alpha_def is_upper_alpha_def
      is_digit_def metricDefinition_def celVariableDefinition_def celVariables_def cel_var_def)
  have rules: "localBurdenOnlyRules [shift_rule] = [shift_rule]"
    by (simp add: localBurdenOnlyRules_def shift_rule_def ids)
  have prof: "gateCalibrationProfile (Some shift_state) = Some (shift_profile ''old'' 3)" "st_current shift_state = shift_profile ''new'' 6"
    by (simp_all add: gateCalibrationProfile_def shift_state_def)
  have p95s: "sp_p95 (shift_profile x b) = branch_p95 b" for x b by (simp add: shift_profile_def)
  have cand: "calibrationShiftCandidates [shift_metric] (Some (shift_profile ''old'' 3)) (Some (shift_profile ''new'' 6)) ?w
    = [\<lparr>sc_path = ''a.go'', sc_previousLocalBurden = 1/5, sc_currentLocalBurden = 1/10\<rparr>]"
    by (simp add: calibrationShiftCandidates_def shift_burden p95s comparableStructuralCalibration_def effectiveFileKind_def)
       (simp add: shift_profile_def shift_metric_def)
  have crl: "map_get (fileVars (\<lambda>_ _. True) [] \<lparr>go_p95 = Some (branch_p95 b), go_weights = Some ?w, go_mode = None\<rparr> shift_metric) ''crl_local''
    = Some (num (bd_localBurden (computeCRLStateBreakdown (crlInputOf shift_metric) (branch_p95 b) ?w)))" for b
    by (simp add: fileVars_def optionWeights_def Let_def)
  have judge: "\<exists>r. gatePerFile sixth_compiler (\<lambda>_ _. True) [shift_rule] [shift_metric] [] \<lparr>go_p95 = Some (branch_p95 b), go_weights = Some ?w, go_mode = None\<rparr> = Inr r
     \<and> triggerNames (gr_triggered r) ''a.go'' = (if 1/6 < bd_localBurden (computeCRLStateBreakdown (crlInputOf shift_metric) (branch_p95 b) ?w) then [''burden''] else [])" for b
    using crl [of b]
    by (simp add: gatePerFile_def sixth_compiler_def gate_file_def evaluateRules_def evaluate_rule_def no_evaluation_def effectiveFileKind_def num_def
      triggerNames_def trigger_of_def shift_rule_def Let_def) (simp add: shift_metric_def)
  obtain r r' where r: "gatePerFile sixth_compiler (\<lambda>_ _. True) [shift_rule] [shift_metric] [] \<lparr>go_p95 = Some (branch_p95 3), go_weights = Some ?w, go_mode = None\<rparr> = Inr r"
      "triggerNames (gr_triggered r) ''a.go'' = [''burden'']"
    and r': "gatePerFile sixth_compiler (\<lambda>_ _. True) [shift_rule] [shift_metric] [] \<lparr>go_p95 = Some (branch_p95 6), go_weights = Some ?w, go_mode = None\<rparr> = Inr r'"
      "triggerNames (gr_triggered r') ''a.go'' = []"
    using judge [of 3] judge [of 6] by (auto simp: shift_burden)
  have "gm_path shift_metric = ''a.go''" by (simp add: shift_metric_def)
  then show ?thesis
    by (simp add: calibrationThresholdShifts_def prof rules cand p95s r r' fromEntries_def map_set_def Let_def)
qed

theorem calibration_shift_explained_witness:
  "\<exists>shifts s. calibrationThresholdShifts sixth_compiler (\<lambda>_ _. True) (Some shift_state) [shift_rule] [shift_metric] [] DEFAULT_CRL_STATE_WEIGHTS = Inr shifts
     \<and> s \<in> set shifts \<and> cs_path s = ''a.go''"
proof -
  obtain s where s: "calibrationThresholdShifts sixth_compiler (\<lambda>_ _. True) (Some shift_state) [shift_rule] [shift_metric] [] DEFAULT_CRL_STATE_WEIGHTS = Inr [s]"
    using shift_run by blast
  have "gm_path shift_metric = ''a.go''" by (simp add: shift_metric_def)
  then show ?thesis using calibration_shift_explained [OF s, of s] s by auto
qed
end
