(* ===== verification/Json_Doc.thy ===== *)
theory Json_Doc
  imports Js_Number
begin

text \<open>
  Reading parsed documents: the fields, texts and lists of a JSON or YAML value, and the traversal
  of a list by an operation that may throw. A thrown error is its message (\<open>Inl\<close>).
\<close>

section \<open>Reading a document\<close>

definition is_mapping :: "json \<Rightarrow> bool" where
  "is_mapping j = (case j of JObj _ \<Rightarrow> True | _ \<Rightarrow> False)"

definition entries_of :: "json \<Rightarrow> (string \<times> json) list" where
  "entries_of j = (case j of JObj kvs \<Rightarrow> kvs | _ \<Rightarrow> [])"

definition field :: "json \<Rightarrow> string \<Rightarrow> json option" where
  "field j k = map_of (entries_of j) k"

definition text_of :: "json option \<Rightarrow> string option" where
  "text_of v = (case v of Some (JStr s) \<Rightarrow> Some s | _ \<Rightarrow> None)"

definition elements_of :: "json option \<Rightarrow> json list option" where
  "elements_of v = (case v of Some (JArr xs) \<Rightarrow> Some xs | _ \<Rightarrow> None)"

definition written :: "string option \<Rightarrow> bool" where
  "written v = (case v of None \<Rightarrow> False | Some s \<Rightarrow> trim s \<noteq> [])"

fun map_result :: "('a \<Rightarrow> string + 'b) \<Rightarrow> 'a list \<Rightarrow> string + 'b list" where
  "map_result f [] = Inr []"
| "map_result f (x # xs) =
     (case f x of Inl e \<Rightarrow> Inl e
      | Inr y \<Rightarrow> (case map_result f xs of Inl e \<Rightarrow> Inl e | Inr ys \<Rightarrow> Inr (y # ys)))"

definition bind_result :: "string + 'a \<Rightarrow> ('a \<Rightarrow> string + 'b) \<Rightarrow> string + 'b" where
  "bind_result r f = (case r of Inl e \<Rightarrow> Inl e | Inr x \<Rightarrow> f x)"

definition indexed :: "string \<Rightarrow> nat \<Rightarrow> string" where
  "indexed label i = label @ ''['' @ show_nat i @ '']''"

definition with_index :: "'a list \<Rightarrow> (nat \<times> 'a) list" where
  "with_index xs = zip [0..<length xs] xs"

end
