(* ===== verification/Project_Files.thy ===== *)
theory Project_Files
  imports File_Kinds Json_Doc
begin

text \<open>
  Which files a project has (\<open>projectFiles.ts\<close>, \<open>projectFilesScan.ts\<close>): the languages and file-kind rules
  of a configuration, the selection of source files and the content identity of a selection. Reading the
  disk is an argument: \<open>glob\<close> lists the files with an extension, \<open>link\<close> tells a symbolic link,
  \<open>realpath\<close> resolves one (\<open>None\<close> when it throws), \<open>content\<close> reads a file and \<open>sha\<close> is the hexadecimal digest.
\<close>

section \<open>The configuration\<close>

datatype ProjectConfigRead = read_missing | read_invalid string | read_ok json

definition parseConfiguredLanguages :: "json option \<Rightarrow> string list option" where
  "parseConfiguredLanguages v =
     (case elements_of v of
        None \<Rightarrow> None
      | Some xs \<Rightarrow> let ls = map (text_of \<circ> Some) xs in only_if (None \<notin> set ls) (present ls))"

definition readConfiguredLanguages :: "ProjectConfigRead \<Rightarrow> string list option" where
  "readConfiguredLanguages r = (case r of read_ok v \<Rightarrow> parseConfiguredLanguages (field v ''languages'') | _ \<Rightarrow> None)"

text \<open>\<open>detected\<close> is what \<open>detectProjectLanguages\<close> finds.\<close>

definition readProjectLanguages :: "ProjectConfigRead \<Rightarrow> string list \<Rightarrow> string list" where
  "readProjectLanguages r detected =
     (case readConfiguredLanguages r of None \<Rightarrow> detected | Some ls \<Rightarrow> if ls = [] then detected else ls)"

record ProjectLanguageState =
  pls_configured :: "string list option"
  pls_detected :: "string list"
  pls_configExists :: bool

definition readProjectLanguageState :: "ProjectConfigRead \<Rightarrow> string list \<Rightarrow> ProjectLanguageState" where
  "readProjectLanguageState r detected =
     \<lparr>pls_configured = readConfiguredLanguages r, pls_detected = detected, pls_configExists = (r \<noteq> read_missing)\<rparr>"

definition file_kind_named :: "string \<Rightarrow> FileKind option" where
  "file_kind_named s = find (\<lambda>k. fileKindName k = s) [fk_production, fk_test, fk_generated, fk_auxiliary]"

definition isFileKindRule :: "json \<Rightarrow> FileKindRule option" where
  "isFileKindRule v =
     (case (text_of (field v ''pattern''), text_of (field v ''kind'')) of
        (Some p, Some k) \<Rightarrow> map_option (\<lambda>kind. \<lparr>fr_pattern = p, fr_kind = kind\<rparr>) (file_kind_named k)
      | _ \<Rightarrow> None)"

definition fileKindRulesOf :: "json \<Rightarrow> FileKindRule list" where
  "fileKindRulesOf cfg = (case elements_of (field cfg ''file_kinds'') of None \<Rightarrow> [] | Some xs \<Rightarrow> present (map isFileKindRule xs))"

definition configuredFileKindRules :: "ProjectConfigRead \<Rightarrow> FileKindRule list" where
  "configuredFileKindRules r = (case r of read_ok v \<Rightarrow> fileKindRulesOf v | _ \<Rightarrow> [])"

definition layoutDerivedFileKindRules :: "bool \<Rightarrow> bool \<Rightarrow> FileKindRule list" where
  "layoutDerivedFileKindRules hasMain hasTest =
     (if hasMain \<and> hasTest then [\<lparr>fr_pattern = ''src/main/java/**'', fr_kind = fk_production\<rparr>] else [])"

definition readProjectFileKindRules :: "ProjectConfigRead \<Rightarrow> bool \<Rightarrow> bool \<Rightarrow> FileKindRule list" where
  "readProjectFileKindRules r hasMain hasTest = configuredFileKindRules r @ layoutDerivedFileKindRules hasMain hasTest"

section \<open>Selecting files\<close>

definition normalizePath :: "string \<Rightarrow> string" where
  "normalizePath p = to_lower (toPosixPath p)"

text \<open>\<open>cwd\<close> is absolute here; \<open>sep\<close> is a slash.\<close>

definition isWithinProjectRoot :: "string \<Rightarrow> string \<Rightarrow> bool" where
  "isWithinProjectRoot p cwd =
     (let r = node_relative cwd (node_resolve cwd p)
      in r \<noteq> [] \<and> r \<noteq> ''.'' \<and> \<not> starts_with r ''../'' \<and> r \<noteq> ''..'' \<and> \<not> isAbsolute r)"

definition canonicalPathKey :: "(string \<Rightarrow> string option) \<Rightarrow> string \<Rightarrow> string" where
  "canonicalPathKey realpath p = to_lower (or_default (realpath p) p)"

text \<open>\<open>dirname\<close> of an absolute path without empty segments.\<close>

definition node_dirname :: "string \<Rightarrow> string" where
  "node_dirname p = render_absolute (butlast (absolute_segments p))"

text \<open>The loop over the ancestors that are longer than the root.\<close>

fun symlink_loop :: "nat \<Rightarrow> (string \<Rightarrow> bool) \<Rightarrow> string \<Rightarrow> string \<Rightarrow> bool" where
  "symlink_loop 0 link directory cwd = False"
| "symlink_loop (Suc n) link directory cwd =
     (if \<not> length cwd < length directory then False
      else if link directory then True
      else if node_dirname directory = directory then False
      else symlink_loop n link (node_dirname directory) cwd)"

definition hasSymlinkAncestor :: "(string \<Rightarrow> bool) \<Rightarrow> string \<Rightarrow> string \<Rightarrow> bool" where
  "hasSymlinkAncestor link p cwd = symlink_loop (Suc (length p)) link (node_dirname p) cwd"

record SourceFilesOptions =
  sf_cwd :: string
  sf_languages :: "string list"
  sf_population :: "GovernancePopulation option"
  sf_fileKindRules :: "FileKindRule list"

definition populationOf :: "SourceFilesOptions \<Rightarrow> GovernancePopulation" where
  "populationOf options = or_default (sf_population options) pop_observed"

definition isAnalyzableProjectFile :: "string cmp \<Rightarrow> (string \<Rightarrow> string \<Rightarrow> bool) \<Rightarrow> SourceFilesOptions \<Rightarrow> string \<Rightarrow> bool" where
  "isAnalyzableProjectFile lc mm options p =
     (if \<not> isWithinProjectRoot p (sf_cwd options) then False
      else if \<not> isPathInAnalysisScope p (createAnalysisScope lc (sf_languages options) []) then False
      else participatesInPopulation
        (Some (classifyFileKindWithPolicy mm (sf_cwd options) (normalizePath p) (sf_fileKindRules options) (Some (sf_cwd options))))
        (populationOf options))"

definition resolveProjectExtensions :: "string cmp \<Rightarrow> string list \<Rightarrow> string list" where
  "resolveProjectExtensions lc languages = as_extensions (createAnalysisScope lc languages [])"

definition relativePath :: "string \<Rightarrow> string \<Rightarrow> string" where
  "relativePath cwd p = toPosixPath (node_relative cwd p)"

definition source_candidate ::
  "string cmp \<Rightarrow> (string \<Rightarrow> string \<Rightarrow> bool) \<Rightarrow> (string \<Rightarrow> bool) \<Rightarrow> (string \<Rightarrow> string option) \<Rightarrow> SourceFilesOptions
     \<Rightarrow> string list \<Rightarrow> string \<Rightarrow> string list \<times> bool" where
  "source_candidate lc mm link realpath options seen p =
     (if list_ex (\<lambda>s. s \<in> set SCAN_EXCLUDED_DIRECTORY_NAMES) (split_on (CHR ''/'') (to_lower (relativePath (sf_cwd options) p)))
      then (seen, False)
      else if hasSymlinkAncestor link p (sf_cwd options) then (seen, False)
      else
        let realKey = canonicalPathKey realpath p
        in if realKey \<in> set seen then (seen, False)
           else (realKey # seen, isAnalyzableProjectFile lc mm options p))"

fun select_files ::
  "string cmp \<Rightarrow> (string \<Rightarrow> string \<Rightarrow> bool) \<Rightarrow> (string \<Rightarrow> bool) \<Rightarrow> (string \<Rightarrow> string option) \<Rightarrow> SourceFilesOptions
     \<Rightarrow> string list \<Rightarrow> string list \<Rightarrow> string list" where
  "select_files lc mm link realpath options seen [] = []"
| "select_files lc mm link realpath options seen (p # ps) =
     (case source_candidate lc mm link realpath options seen p of
        (seen', keep) \<Rightarrow> (if keep then [p] else []) @ select_files lc mm link realpath options seen' ps)"

definition listProjectSourceFiles ::
  "string cmp \<Rightarrow> (string \<Rightarrow> string \<Rightarrow> bool) \<Rightarrow> (string \<Rightarrow> bool) \<Rightarrow> (string \<Rightarrow> string option) \<Rightarrow> (string \<Rightarrow> string list)
     \<Rightarrow> SourceFilesOptions \<Rightarrow> string list" where
  "listProjectSourceFiles lc mm link realpath glob options =
     (let extensions = resolveProjectExtensions lc (sf_languages options)
      in if extensions = [] then []
         else select_files lc mm link realpath options []
           (uniq (sort (map (node_resolve (sf_cwd options)) (concat (map (\<lambda>x. glob (''**/*'' @ x)) extensions))))))"

section \<open>Content identity\<close>

definition hash_step ::
  "(string \<Rightarrow> string option) \<Rightarrow> (string \<Rightarrow> string) \<Rightarrow> string \<Rightarrow> (string, string) jmap \<Rightarrow> string \<Rightarrow> (string, string) jmap" where
  "hash_step content sha cwd hashes p =
     (if \<not> isWithinProjectRoot p cwd then hashes
      else case content p of None \<Rightarrow> hashes | Some t \<Rightarrow> map_set hashes (relativePath cwd (node_resolve cwd p)) (sha t))"

definition contentHashesOf ::
  "(string \<Rightarrow> string option) \<Rightarrow> (string \<Rightarrow> string) \<Rightarrow> string list \<Rightarrow> string \<Rightarrow> (string, string) jmap" where
  "contentHashesOf content sha paths cwd = foldl (hash_step content sha cwd) [] paths"

definition snapshot_entry :: "(string \<Rightarrow> string option) \<Rightarrow> (string \<Rightarrow> string) \<Rightarrow> string \<Rightarrow> string \<Rightarrow> (string \<times> string) option" where
  "snapshot_entry content sha cwd p =
     map_option (\<lambda>t. (relativePath cwd (node_resolve cwd p), sha t)) (content p)"

definition snapshot_entries ::
  "(string \<Rightarrow> string option) \<Rightarrow> (string \<Rightarrow> string) \<Rightarrow> string cmp \<Rightarrow> string list \<Rightarrow> string \<Rightarrow> (string \<times> string) list option" where
  "snapshot_entries content sha lc paths cwd =
     (if list_ex (\<lambda>p. \<not> isWithinProjectRoot p cwd) paths then None
      else
        let es = map (snapshot_entry content sha cwd) (uniq paths)
        in only_if (None \<notin> set es) (js_sort (on_key lc fst) (present es)))"

definition snapshot_doc :: "(string \<times> string) list \<Rightarrow> json" where
  "snapshot_doc es = JArr (map (\<lambda>(p, h). JArr [JStr p, JStr h]) es)"

definition sourceSnapshotSha256 ::
  "(json \<Rightarrow> string) \<Rightarrow> (string \<Rightarrow> string option) \<Rightarrow> (string \<Rightarrow> string) \<Rightarrow> string cmp \<Rightarrow> string list \<Rightarrow> string \<Rightarrow> string option" where
  "sourceSnapshotSha256 hash content sha lc paths cwd =
     map_option (hash \<circ> snapshot_doc) (snapshot_entries content sha lc paths cwd)"

definition configSnapshotSha256 :: "(string \<Rightarrow> string option) \<Rightarrow> (string \<Rightarrow> string) \<Rightarrow> string \<Rightarrow> string option" where
  "configSnapshotSha256 content sha configPath = map_option sha (content configPath)"

section \<open>Properties\<close>

lemma select_files_sound:
  "p \<in> set (select_files lc mm link realpath options seen ps) \<Longrightarrow>
     p \<in> set ps \<and> isAnalyzableProjectFile lc mm options p \<and> \<not> hasSymlinkAncestor link p (sf_cwd options)
     \<and> canonicalPathKey realpath p \<notin> set seen
     \<and> set (split_on (CHR ''/'') (to_lower (relativePath (sf_cwd options) p))) \<inter> set SCAN_EXCLUDED_DIRECTORY_NAMES = {}"
proof (induction ps arbitrary: seen)
  case (Cons q ps)
  show ?case
  proof (cases "p \<in> set (select_files lc mm link realpath options (fst (source_candidate lc mm link realpath options seen q)) ps)")
    case True
    have "set seen \<subseteq> set (fst (source_candidate lc mm link realpath options seen q))"
      by (auto simp: source_candidate_def Let_def)
    with Cons.IH [OF True] show ?thesis by auto
  next
    case False
    then have "p = q \<and> snd (source_candidate lc mm link realpath options seen q)"
      using Cons.prems by (cases "source_candidate lc mm link realpath options seen q") (auto split: if_splits)
    then show ?thesis
      by (auto simp: source_candidate_def Let_def list_ex_iff split: if_splits)
  qed
qed simp

lemma select_files_distinct_keys:
  "distinct (map (canonicalPathKey realpath) (select_files lc mm link realpath options seen ps))"
proof (induction ps arbitrary: seen)
  case (Cons p ps)
  let ?k = "canonicalPathKey realpath p"
  have new: "?k \<notin> canonicalPathKey realpath ` set (select_files lc mm link realpath options (?k # seen) ps)"
    using select_files_sound by fastforce
  show ?case using Cons new by (auto simp: source_candidate_def Let_def)
qed simp

lemma sorted_select_files: "sorted ps \<Longrightarrow> sorted (select_files lc mm link realpath options seen ps)"
proof (induction ps arbitrary: seen)
  case (Cons p ps)
  then show ?case using select_files_sound
    by (fastforce split: prod.splits)
qed simp

lemma select_files_complete:
  assumes "distinct (map (canonicalPathKey realpath) ps)" "canonicalPathKey realpath ` set ps \<inter> set seen = {}"
  shows "select_files lc mm link realpath options seen ps =
     filter (\<lambda>p. isAnalyzableProjectFile lc mm options p \<and> \<not> hasSymlinkAncestor link p (sf_cwd options)
       \<and> \<not> list_ex (\<lambda>s. s \<in> set SCAN_EXCLUDED_DIRECTORY_NAMES) (split_on (CHR ''/'') (to_lower (relativePath (sf_cwd options) p)))) ps"
  using assms
proof (induction ps arbitrary: seen)
  case (Cons p ps)
  have "canonicalPathKey realpath ` set ps \<inter> set (canonicalPathKey realpath p # seen) = {}"
    using Cons.prems by auto
  moreover have "canonicalPathKey realpath p \<notin> set seen" using Cons.prems(2) by auto
  ultimately show ?case using Cons.IH [of seen] Cons.IH [of "canonicalPathKey realpath p # seen"] Cons.prems
    by (simp add: source_candidate_def Let_def del: list_ex_iff)
qed simp

lemma sorted_uniq_list: "sorted (xs :: string list) \<Longrightarrow> sorted (uniq xs)"
  by (induction xs) (auto intro: sorted_wrt_filter)

definition source_candidates :: "string cmp \<Rightarrow> (string \<Rightarrow> string list) \<Rightarrow> SourceFilesOptions \<Rightarrow> string list" where
  "source_candidates lc glob options = uniq (sort (map (node_resolve (sf_cwd options))
     (concat (map (\<lambda>x. glob (''**/*'' @ x)) (resolveProjectExtensions lc (sf_languages options))))))"

lemma listProjectSourceFiles_select:
  "listProjectSourceFiles lc mm link realpath glob options = select_files lc mm link realpath options [] (source_candidates lc glob options)"
  by (simp add: listProjectSourceFiles_def source_candidates_def Let_def)

text \<open>The listed source files are sorted, no two have the same real path, and each is a candidate inside
  the project root, in the analysis scope, behind no symbolic link and in no excluded directory.\<close>

theorem listed_source_files:
  "sorted (listProjectSourceFiles lc mm link realpath glob options)
   \<and> distinct (map (canonicalPathKey realpath) (listProjectSourceFiles lc mm link realpath glob options))
   \<and> set (listProjectSourceFiles lc mm link realpath glob options) \<subseteq>
       {p. p \<in> set (source_candidates lc glob options) \<and> isWithinProjectRoot p (sf_cwd options)
         \<and> isPathInAnalysisScope p (createAnalysisScope lc (sf_languages options) [])
         \<and> \<not> hasSymlinkAncestor link p (sf_cwd options)
         \<and> set (split_on (CHR ''/'') (to_lower (relativePath (sf_cwd options) p))) \<inter> set SCAN_EXCLUDED_DIRECTORY_NAMES = {}}"
proof (intro conjI subsetI CollectI)
  show "sorted (listProjectSourceFiles lc mm link realpath glob options)"
    unfolding listProjectSourceFiles_select
    by (intro sorted_select_files) (simp add: source_candidates_def sorted_uniq_list)
  show "distinct (map (canonicalPathKey realpath) (listProjectSourceFiles lc mm link realpath glob options))"
    unfolding listProjectSourceFiles_select by (rule select_files_distinct_keys)
  fix p assume "p \<in> set (listProjectSourceFiles lc mm link realpath glob options)"
  from select_files_sound [OF this [unfolded listProjectSourceFiles_select]]
  show "p \<in> set (source_candidates lc glob options)" "isWithinProjectRoot p (sf_cwd options)"
    "isPathInAnalysisScope p (createAnalysisScope lc (sf_languages options) [])"
    "\<not> hasSymlinkAncestor link p (sf_cwd options)"
    "set (split_on (CHR ''/'') (to_lower (relativePath (sf_cwd options) p))) \<inter> set SCAN_EXCLUDED_DIRECTORY_NAMES = {}"
    by (auto simp: isAnalyzableProjectFile_def split: if_splits)
qed

text \<open>Two files whose paths differ in the case of letters only are never both listed, even where they are
  different files.\<close>

theorem case_variants_collapse:
  assumes "p \<in> set (listProjectSourceFiles lc mm link Some glob options)"
    and "q \<in> set (listProjectSourceFiles lc mm link Some glob options)" "to_lower p = to_lower q"
  shows "p = q"
proof -
  have "distinct (map (canonicalPathKey Some) (listProjectSourceFiles lc mm link Some glob options))"
    unfolding listProjectSourceFiles_select by (rule select_files_distinct_keys)
  then show ?thesis using assms unfolding distinct_map inj_on_def canonicalPathKey_def by simp
qed

text \<open>The kind of an absolute path is decided on the lower-cased path, which a root with a capital letter
  no longer contains: the rules see a path that leads out of the root.\<close>

theorem capital_root_misses_rules:
  "normalizeForPolicy ''/P'' ''/P/lib/a.ts'' (Some ''/P'') = ''lib/a.ts''"
  "normalizeForPolicy ''/P'' (normalizePath ''/P/lib/a.ts'') (Some ''/P'') = ''../p/lib/a.ts''"
proof -
  have low: "to_lower ''/P/lib/a.ts'' = ''/p/lib/a.ts''" by code_simp
  show "normalizeForPolicy ''/P'' ''/P/lib/a.ts'' (Some ''/P'') = ''lib/a.ts''"
    "normalizeForPolicy ''/P'' (normalizePath ''/P/lib/a.ts'') (Some ''/P'') = ''../p/lib/a.ts''"
    by (simp_all add: low normalizeForPolicy_def normalizePath_def isAbsolute_def starts_with_def node_relative_def node_resolve_def
      render_absolute_def absolute_segments_def path_step_def toPosixPath_def)
qed

section \<open>Content identity\<close>

definition snapshot_key :: "string \<Rightarrow> string \<Rightarrow> string" where
  "snapshot_key cwd p = relativePath cwd (node_resolve cwd p)"

lemma snapshot_entries_Some:
  "snapshot_entries content sha lc paths cwd = Some es \<longleftrightarrow>
     (\<forall>p \<in> set paths. isWithinProjectRoot p cwd \<and> content p \<noteq> None)
     \<and> es = js_sort (on_key lc fst) (map (\<lambda>p. (snapshot_key cwd p, sha (the (content p)))) (uniq paths))"
proof -
  have "present (map (snapshot_entry content sha cwd) ps) = map (\<lambda>p. (snapshot_key cwd p, sha (the (content p)))) ps"
    if "\<forall>p \<in> set ps. content p \<noteq> None" for ps
    using that by (induction ps) (auto simp: snapshot_entry_def snapshot_key_def)
  from this [of "uniq paths"] show ?thesis
    by (auto simp: snapshot_entries_def Let_def list_ex_iff only_if_def snapshot_entry_def image_iff)
qed

lemma on_key_separates:
  assumes "\<forall>p \<in> A. \<forall>q \<in> A. lc (k p) (k q) = 0 \<longrightarrow> p = q"
  shows "\<forall>x \<in> (\<lambda>p. (k p, v p)) ` A. \<forall>y \<in> (\<lambda>p. (k p, v p)) ` A. on_key lc fst x y = 0 \<longrightarrow> x = y"
  using assms by (auto simp: on_key_def)

lemma snapshot_doc_inj: "snapshot_doc es = snapshot_doc es' \<longleftrightarrow> es = es'"
proof -
  have "inj (\<lambda>(p, h). JArr [JStr p, JStr h])" by (auto simp: inj_def)
  then show ?thesis by (simp add: snapshot_doc_def inj_map_eq_map)
qed

definition texts_of :: "(string \<Rightarrow> string option) \<Rightarrow> string list \<Rightarrow> string set" where
  "texts_of content paths = {t. \<exists>p \<in> set paths. content p = Some t}"

definition snapshot_docs :: "(string \<times> string) list option \<Rightarrow> json set" where
  "snapshot_docs es = snapshot_doc ` set_option es"

text \<open>The identity of a source snapshot: for two readings of one set of files, listed in any order and
  with repetitions, the identities are equal exactly when every file has the same content, as long as the digests
  do not collide on what they are applied to.\<close>

theorem source_snapshot_identity:
  assumes lc: "comparator lc" and same: "set paths = set paths'"
    and sep: "\<forall>p \<in> set paths. \<forall>q \<in> set paths. lc (snapshot_key cwd p) (snapshot_key cwd q) = 0 \<longrightarrow> p = q"
    and s: "sourceSnapshotSha256 hash content sha lc paths cwd = Some s"
    and s': "sourceSnapshotSha256 hash content' sha lc paths' cwd = Some s'"
    and hash: "inj_on hash (snapshot_docs (snapshot_entries content sha lc paths cwd) \<union> snapshot_docs (snapshot_entries content' sha lc paths' cwd))"
    and sha: "inj_on sha (texts_of content paths \<union> texts_of content' paths')"
  shows "s = s' \<longleftrightarrow> (\<forall>p \<in> set paths. content p = content' p)"
proof -
  obtain es es' where e: "snapshot_entries content sha lc paths cwd = Some es" "s = hash (snapshot_doc es)"
      and e': "snapshot_entries content' sha lc paths' cwd = Some es'" "s' = hash (snapshot_doc es')"
    using s s' by (auto simp: sourceSnapshotSha256_def)
  let ?row = "\<lambda>c p. (snapshot_key cwd p, sha (the (c p)))"
  have es: "es = js_sort (on_key lc fst) (map (?row content) (uniq paths))"
    and es': "es' = js_sort (on_key lc fst) (map (?row content') (uniq paths'))"
    and read: "\<forall>p \<in> set paths. content p \<noteq> None \<and> content' p \<noteq> None"
    using e(1) e'(1) same unfolding snapshot_entries_Some by blast+
  have key: "p = q" if "p \<in> set paths" "q \<in> set paths" "snapshot_key cwd p = snapshot_key cwd q" for p q
    using sep that comparator.refl [OF lc] by metis
  have "s = s' \<longleftrightarrow> es = es'"
    using hash unfolding e(2) e'(2) inj_on_def by (auto simp: snapshot_docs_def e(1) e'(1) snapshot_doc_inj)
  also have "\<dots> \<longleftrightarrow> (\<forall>p \<in> set paths. content p = content' p)"
  proof
    assume "es = es'"
    moreover have "set es = ?row content ` set paths" "set es' = ?row content' ` set paths"
      unfolding es es' by (simp_all only: set_js_sort list.set_map set_uniq same)
    ultimately have rows: "?row content ` set paths = ?row content' ` set paths" by simp
    show "\<forall>p \<in> set paths. content p = content' p"
    proof
      fix p assume p: "p \<in> set paths"
      then obtain q where q: "q \<in> set paths" "?row content p = ?row content' q" using rows by blast
      then have "q = p" using key p by simp
      then have "sha (the (content p)) = sha (the (content' p))" using q(2) by simp
      moreover obtain t t' where t: "content p = Some t" "content' p = Some t'" using read p by blast
      then have "t \<in> texts_of content paths \<union> texts_of content' paths'" "t' \<in> texts_of content paths \<union> texts_of content' paths'"
        using p same by (auto simp: texts_of_def)
      ultimately show "content p = content' p" using sha t by (simp add: inj_on_def)
    qed
  next
    assume "\<forall>p \<in> set paths. content p = content' p"
    then have "map (?row content') (uniq paths') = map (?row content) (uniq paths')"
      using same by (intro map_cong refl) (simp only: set_uniq)
    moreover have "mset (uniq paths) = mset (uniq paths')"
      using iffD1 [OF set_eq_iff_mset_eq_distinct [OF distinct_uniq distinct_uniq]] same by (simp only: set_uniq)
    ultimately have "mset (map (?row content) (uniq paths)) = mset (map (?row content') (uniq paths'))"
      by (simp only: mset_map)
    moreover have "\<forall>x \<in> set (map (?row content) (uniq paths)). \<forall>y \<in> set (map (?row content) (uniq paths)). on_key lc fst x y = 0 \<longrightarrow> x = y"
      using on_key_separates [of "set paths" lc "snapshot_key cwd" "\<lambda>p. sha (the (content p))"] sep
      by (simp only: list.set_map set_uniq)
    ultimately show "es = es'"
      unfolding es es' by (intro comparator.js_sort_mset_cong [OF comparator_on_key [OF lc]])
  qed
  finally show ?thesis .
qed

definition sample_reading :: "string \<Rightarrow> string \<Rightarrow> string option" where
  "sample_reading t p = (if p = ''/p/a'' then Some ''x'' else if p = ''/p/b'' then Some t else None)"

lemma sample_reading_entries:
  "snapshot_key ''/p'' ''/p/a'' = ''a'' \<and> snapshot_key ''/p'' ''/p/b'' = ''b''
   \<and> isWithinProjectRoot ''/p/a'' ''/p'' \<and> isWithinProjectRoot ''/p/b'' ''/p''"
  by (simp add: snapshot_key_def relativePath_def isWithinProjectRoot_def isAbsolute_def starts_with_def node_relative_def node_resolve_def
      render_absolute_def absolute_segments_def path_step_def toPosixPath_def)

theorem source_snapshot_identity_witness:
  "sourceSnapshotSha256 (\<lambda>d. if d = snapshot_doc [(''a'', ''x''), (''b'', ''y'')] then ''1'' else ''2'') (sample_reading ''y'') id code_unit_cmp [''/p/a'', ''/p/b''] ''/p''
   \<noteq> sourceSnapshotSha256 (\<lambda>d. if d = snapshot_doc [(''a'', ''x''), (''b'', ''y'')] then ''1'' else ''2'') (sample_reading ''z'') id code_unit_cmp [''/p/b'', ''/p/a'', ''/p/b''] ''/p''"
proof -
  let ?h = "\<lambda>d. if d = snapshot_doc [(''a'', ''x''), (''b'', ''y'')] then ''1'' else ''2''"
  have e: "snapshot_entries (sample_reading t) id code_unit_cmp ps ''/p'' = Some [(''a'', ''x''), (''b'', t)]"
    if "ps = [''/p/a'', ''/p/b''] \<or> ps = [''/p/b'', ''/p/a'', ''/p/b'']" for t ps
  proof -
    have u: "uniq [''/p/a'', ''/p/b''] = [''/p/a'', ''/p/b'']" "uniq [''/p/b'', ''/p/a'', ''/p/b''] = [''/p/b'', ''/p/a'']" by simp_all
    have c: "code_unit_cmp ''a'' ''b'' = -1" "code_unit_cmp ''b'' ''a'' = 1" by (simp_all add: code_unit_cmp_def)
    from that show ?thesis
      unfolding snapshot_entries_Some
      by (elim disjE) (simp_all only: u list.map sample_reading_entries js_sort_def, simp_all add: c on_key_def sample_reading_def sample_reading_entries)
  qed
  have s: "sourceSnapshotSha256 ?h (sample_reading ''y'') id code_unit_cmp [''/p/a'', ''/p/b''] ''/p'' = Some ''1''"
    and s': "sourceSnapshotSha256 ?h (sample_reading ''z'') id code_unit_cmp [''/p/b'', ''/p/a'', ''/p/b''] ''/p'' = Some ''2''"
    by (simp_all add: sourceSnapshotSha256_def e snapshot_doc_inj)
  have "(''1'' = (''2'' :: string)) \<longleftrightarrow> (\<forall>p \<in> set [''/p/a'', ''/p/b'']. sample_reading ''y'' p = sample_reading ''z'' p)"
    by (rule source_snapshot_identity [OF code_unit.comparator_axioms _ _ s s'])
       (auto simp: e snapshot_docs_def snapshot_doc_inj inj_on_def sample_reading_entries code_unit_cmp_def)
  then show ?thesis unfolding s s' by simp
qed
end
