(* ===== verification/Gate_Config.thy ===== *)
theory Gate_Config
  imports Gate Test_Facts Project_Files
begin

text \<open>
  The configuration of the gate (\<open>application/governance/gateConfig.ts\<close>, \<open>projectShapes.ts\<close>): which
  documents are a configuration and which message rejects the others. \<open>defined\<close> reads a field whose
  absence the code tests with \<open>=== undefined\<close>; a thrown error is its message. Numbers of a weight mapping are taken
  over where they are numbers; the code copies any value there. Of \<open>languages\<close> the names that are texts are kept; the code
  takes over values of other types, which no file has as its language.
\<close>

section \<open>Rules and policies\<close>

definition unsupportedMetricRules :: "GateRule list \<Rightarrow> GateRule list" where
  "unsupportedMetricRules rules = filter (\<lambda>r. unsupportedCelVariablesInCondition (spr_condition r) \<noteq> []) rules"

definition as_rule :: "bool \<Rightarrow> string \<Rightarrow> nat \<times> json \<Rightarrow> string + StructuralPolicyRule" where
  "as_rule block label entry =
     (case entry of (i, rule) \<Rightarrow>
      if \<not> is_mapping rule then Inl (indexed label i @ '' must be a mapping'')
      else
        let name = text_of (field rule ''name''); condition = text_of (field rule ''condition'')
        in if written name \<and> written condition
           then Inr \<lparr>spr_name = the name, spr_condition = the condition, spr_block = block\<rparr>
           else Inl (indexed label i @ '' requires name and condition''))"

definition asRules :: "json option \<Rightarrow> bool \<Rightarrow> string \<Rightarrow> string + StructuralPolicyRule list" where
  "asRules value block label =
     (case value of
        None \<Rightarrow> Inr []
      | Some v \<Rightarrow>
          (case elements_of value of
             None \<Rightarrow> Inl (label @ '' must be a list'')
           | Some xs \<Rightarrow> map_result (as_rule block label) (with_index xs)))"

definition number_field :: "json \<Rightarrow> string \<Rightarrow> real \<Rightarrow> real" where
  "number_field j k old = (case field j k of Some (JNum (Fin x)) \<Rightarrow> x | _ \<Rightarrow> old)"

definition overrideWeights :: "CRLStateWeights \<Rightarrow> json \<Rightarrow> CRLStateWeights" where
  "overrideWeights w j =
     \<lparr>w_branch = number_field j ''branch'' (w_branch w), w_nesting = number_field j ''nesting'' (w_nesting w),
      w_loc = number_field j ''loc'' (w_loc w), w_alpha = number_field j ''alpha'' (w_alpha w),
      w_connectedness = number_field j ''connectedness'' (w_connectedness w),
      w_externalPassthrough = number_field j ''externalPassthrough'' (w_externalPassthrough w)\<rparr>"

definition policyWeights :: "json option \<Rightarrow> CRLStateWeights \<Rightarrow> string \<Rightarrow> string + CRLStateWeights" where
  "policyWeights value fallback label =
     (case value of
        None \<Rightarrow> Inr fallback
      | Some v \<Rightarrow> if is_mapping v then Inr (overrideWeights fallback v) else Inl (label @ '' must be a mapping''))"

definition relative_pattern :: "json \<Rightarrow> bool" where
  "relative_pattern j =
     (case text_of (Some j) of
        None \<Rightarrow> False
      | Some s \<Rightarrow> trim s \<noteq> [] \<and> \<not> isAbsolute s \<and> ''..'' \<notin> set (split_on (CHR ''/'') (toPosixPath s)))"

definition patterns :: "json option \<Rightarrow> string \<Rightarrow> string + string list option" where
  "patterns raw label =
     (case raw of
        None \<Rightarrow> Inr None
      | Some v \<Rightarrow>
          (case elements_of raw of
             Some xs \<Rightarrow> if list_all relative_pattern xs then Inr (Some (present (map (text_of \<circ> Some) xs)))
               else Inl (label @ '' must contain project-relative patterns'')
           | None \<Rightarrow> Inl (label @ '' must contain project-relative patterns'')))"

definition policyScope :: "json option \<Rightarrow> string \<Rightarrow> string + StructuralPolicyScope option" where
  "policyScope value label =
     (case value of
        None \<Rightarrow> Inr None
      | Some v \<Rightarrow>
          if \<not> is_mapping v then Inl (label @ '' must be a mapping'')
          else if \<not> list_all (\<lambda>k. k = ''include'' \<or> k = ''exclude'') (map fst (entries_of v)) then
            Inl (label @ '' supports only include/exclude'')
          else bind_result (patterns (field v ''include'') (label @ ''.include'')) (\<lambda>inc.
               bind_result (patterns (field v ''exclude'') (label @ ''.exclude'')) (\<lambda>exc.
               if inc = None \<and> exc = None then Inl (label @ '' must declare include or exclude'')
               else Inr (Some \<lparr>sps_include = inc, sps_exclude = exc\<rparr>))))"

text \<open>\<open>/^[a-z][a-z0-9_-]*$/\<close>.\<close>

definition policy_id_ok :: "string \<Rightarrow> bool" where
  "policy_id_ok s = (case s of [] \<Rightarrow> False
     | c # cs \<Rightarrow> is_lower_alpha c \<and> list_all (\<lambda>d. is_lower_alpha d \<or> is_digit d \<or> d = CHR ''_'' \<or> d = CHR ''-'') cs)"

definition policy_languages :: "json option \<Rightarrow> string list \<Rightarrow> string list option" where
  "policy_languages value languages =
     (case elements_of value of
        None \<Rightarrow> None
      | Some xs \<Rightarrow>
          let names = map (text_of \<circ> Some) xs
          in if xs \<noteq> [] \<and> list_all (\<lambda>n. case n of None \<Rightarrow> False | Some l \<Rightarrow> l \<in> set languages) names
             then Some (sorted_uniq (present names)) else None)"

definition policy_mode :: "json option \<Rightarrow> bool option" where
  "policy_mode value =
     (if text_of value = Some ''observe'' then Some False
      else if text_of value = Some ''enforce'' then Some True else None)"

definition parsePolicy :: "string list \<Rightarrow> CRLStateWeights \<Rightarrow> string list \<Rightarrow> nat \<times> json \<Rightarrow> string + StructuralPolicy" where
  "parsePolicy languages defaultWeights ids entry =
     (case entry of (i, raw) \<Rightarrow>
      let label = indexed ''structural_policies'' i in
      if \<not> is_mapping raw then Inl (label @ '' must be a mapping'')
      else
        (case text_of (field raw ''id'') of
           None \<Rightarrow> Inl (label @ ''.id is invalid'')
         | Some ident \<Rightarrow>
             if \<not> policy_id_ok ident then Inl (label @ ''.id is invalid'')
             else if ident \<in> set ids then Inl (''structural_policies duplicates id '' @ ident)
             else
               (case policy_languages (field raw ''languages'') languages of
                  None \<Rightarrow> Inl (label @ ''.languages must be configured project languages'')
                | Some ls \<Rightarrow>
                    (case policy_mode (field raw ''mode'') of
                       None \<Rightarrow> Inl (label @ ''.mode must be observe or enforce'')
                     | Some enforce \<Rightarrow>
                         bind_result (policyScope (field raw ''scope'') (label @ ''.scope'')) (\<lambda>scope.
                         bind_result (asRules (field raw ''rules_block'') True (label @ ''.rules_block'')) (\<lambda>blocking.
                         bind_result (asRules (field raw ''rules_warn'') False (label @ ''.rules_warn'')) (\<lambda>warning.
                         bind_result (policyWeights (field raw ''crl_state_weights'') defaultWeights (label @ ''.crl_state_weights'')) (\<lambda>ws.
                         Inr \<lparr>pol_id = ident, pol_languages = ls, pol_scope = scope, pol_enforce = enforce,
                              pol_rules = blocking @ warning, pol_crlStateWeights = ws\<rparr>))))))))"

fun parsePolicies :: "string list \<Rightarrow> CRLStateWeights \<Rightarrow> string list \<Rightarrow> (nat \<times> json) list \<Rightarrow> string + StructuralPolicy list" where
  "parsePolicies languages w ids [] = Inr []"
| "parsePolicies languages w ids (e # es) =
     (case parsePolicy languages w ids e of
        Inl m \<Rightarrow> Inl m
      | Inr p \<Rightarrow> (case parsePolicies languages w (pol_id p # ids) es of Inl m \<Rightarrow> Inl m | Inr ps \<Rightarrow> Inr (p # ps)))"

definition parseStructuralPolicies :: "json \<Rightarrow> string list \<Rightarrow> CRLStateWeights \<Rightarrow> string + StructuralPolicy list" where
  "parseStructuralPolicies value languages defaultWeights =
     (case elements_of (Some value) of
        None \<Rightarrow> Inl ''structural_policies must be a list''
      | Some xs \<Rightarrow> parsePolicies languages defaultWeights [] (with_index xs))"

section \<open>The configuration\<close>

record ProjectShapesRead =
  ps_byLanguage :: ProjectShapes
  ps_fingerprint :: string
  ps_source :: ShapesSource
  ps_errors :: "LanguageShapeError list"

definition projectShapesOfRead :: "ProjectConfigRead \<Rightarrow> ProjectShapesRead" where
  "projectShapesOfRead r =
     (case r of
        read_ok v \<Rightarrow>
          (case parseLanguageShapes (field v ''shapes'') of (shapes, errors) \<Rightarrow>
            \<lparr>ps_byLanguage = shapes, ps_fingerprint = shapesFingerprintOf shapes,
             ps_source = shapesSourceOf (shapesFingerprintOf shapes), ps_errors = errors\<rparr>)
      | _ \<Rightarrow> \<lparr>ps_byLanguage = [], ps_fingerprint = [], ps_source = ss_builtin, ps_errors = []\<rparr>)"

record GateConfig =
  gcf_allRules :: "GateRule list"
  gcf_structuralPolicies :: "StructuralPolicy list"
  gcf_explicitStructuralPolicies :: bool
  gcf_pathEntries :: "PathClass list"
  gcf_crlStateWeights :: CRLStateWeights
  gcf_analysisScope :: AnalysisScope
  gcf_shapesFingerprint :: string

record GateConfigurationError =
  gce_path :: string
  gce_reason :: string

definition languageShapeErrorsText :: "LanguageShapeError list \<Rightarrow> string" where
  "languageShapeErrorsText errors = join_with ''; '' (map (\<lambda>e. le_path e @ '': '' @ le_message e) errors)"

text \<open>
  \<open>Object.entries\<close> of the \<open>paths\<close> section; an entry that is \<open>null\<close> throws when its pattern is read, and a
  pattern that is no text is taken for a missing one.
\<close>

definition object_entries :: "json \<Rightarrow> (string \<times> json) list" where
  "object_entries j =
     (case j of JObj kvs \<Rightarrow> kvs | JArr xs \<Rightarrow> map (\<lambda>(i, x). (show_nat i, x)) (with_index xs) | _ \<Rightarrow> [])"

definition weight_of :: "json option \<Rightarrow> jsnum option" where
  "weight_of v = (case v of Some (JNum x) \<Rightarrow> Some x | _ \<Rightarrow> None)"

definition path_classes_of :: "json \<Rightarrow> string + PathClass list" where
  "path_classes_of cfg =
     (case field cfg ''paths'' of
        None \<Rightarrow> Inr (parsePathClasses None)
      | Some v \<Rightarrow>
          if list_ex (\<lambda>e. snd e = JNull) (object_entries v)
          then Inl (''Cannot read properties of null (reading '' @ [CHR 0x27] @ ''pattern'' @ [CHR 0x27] @ '')'')
          else Inr (parsePathClasses (Some (map (\<lambda>(k, e). (k, or_default (text_of (field e ''pattern'')) [], weight_of (field e ''weight''))) (object_entries v)))))"

definition gate_languages :: "json \<Rightarrow> string list" where
  "gate_languages cfg = (case elements_of (field cfg ''languages'') of None \<Rightarrow> [] | Some xs \<Rightarrow> present (map (text_of \<circ> Some) xs))"

definition legacy_policy :: "AnalysisScope \<Rightarrow> GateRule list \<Rightarrow> CRLStateWeights \<Rightarrow> StructuralPolicy" where
  "legacy_policy scope rules w =
     \<lparr>pol_id = ''legacy-global'', pol_languages = as_languages scope, pol_scope = None, pol_enforce = True,
      pol_rules = rules, pol_crlStateWeights = w\<rparr>"

definition parse_gate_config :: "string cmp \<Rightarrow> json \<Rightarrow> string + GateConfig" where
  "parse_gate_config lc cfg =
     (if \<not> is_mapping cfg then Inl ''config root must be a mapping''
      else bind_result (asRules (field cfg ''rules_block'') True ''rules_block'') (\<lambda>blocking.
           bind_result (asRules (field cfg ''rules_warn'') False ''rules_warn'') (\<lambda>warning.
           bind_result (path_classes_of cfg) (\<lambda>pathEntries.
           let scope = createAnalysisScope lc (gate_languages cfg) (fileKindRulesOf cfg);
               w = (case field cfg ''crl_state_weights'' of None \<Rightarrow> DEFAULT_CRL_STATE_WEIGHTS
                    | Some v \<Rightarrow> overrideWeights DEFAULT_CRL_STATE_WEIGHTS v);
               shapes = projectShapesOfRead (read_ok cfg);
               rules = blocking @ warning
           in if ps_errors shapes \<noteq> []
              then Inl (''invalid shapes declaration: '' @ languageShapeErrorsText (ps_errors shapes))
              else bind_result (case field cfg ''structural_policies'' of
                     None \<Rightarrow> Inr [legacy_policy scope rules w]
                   | Some v \<Rightarrow> parseStructuralPolicies v (as_languages scope) w) (\<lambda>policies.
                   Inr \<lparr>gcf_allRules = rules, gcf_structuralPolicies = policies,
                        gcf_explicitStructuralPolicies = (field cfg ''structural_policies'' \<noteq> None),
                        gcf_pathEntries = pathEntries, gcf_crlStateWeights = w, gcf_analysisScope = scope,
                        gcf_shapesFingerprint = ps_fingerprint shapes\<rparr>)))))"

definition readGateConfig :: "string cmp \<Rightarrow> string \<Rightarrow> ProjectConfigRead \<Rightarrow> GateConfigurationError + GateConfig" where
  "readGateConfig lc configPath r =
     (case (case r of
              read_missing \<Rightarrow> Inl ''config root must be a mapping''
            | read_invalid e \<Rightarrow> Inl e
            | read_ok cfg \<Rightarrow> parse_gate_config lc cfg) of
        Inl reason \<Rightarrow> Inl \<lparr>gce_path = configPath, gce_reason = reason\<rparr>
      | Inr config \<Rightarrow> Inr config)"

definition defaultGateConfig :: "string cmp \<Rightarrow> GateConfig" where
  "defaultGateConfig lc =
     \<lparr>gcf_allRules = [], gcf_structuralPolicies = [], gcf_explicitStructuralPolicies = False,
      gcf_pathEntries = [\<lparr>pc_pattern = ''**'', pc_name = ''default'', pc_weight = None\<rparr>],
      gcf_crlStateWeights = DEFAULT_CRL_STATE_WEIGHTS, gcf_analysisScope = createAnalysisScope lc [] [],
      gcf_shapesFingerprint = []\<rparr>"

definition loadGateConfig :: "string cmp \<Rightarrow> string \<Rightarrow> ProjectConfigRead \<Rightarrow> GateConfig" where
  "loadGateConfig lc configPath r = (case readGateConfig lc configPath r of Inl _ \<Rightarrow> defaultGateConfig lc | Inr c \<Rightarrow> c)"

section \<open>Accepted configurations\<close>

lemma bind_result_Inr [simp]: "bind_result r f = Inr y \<longleftrightarrow> (\<exists>x. r = Inr x \<and> f x = Inr y)"
  by (cases r) (simp_all add: bind_result_def)

lemma map_result_Inr: "map_result f xs = Inr ys \<longleftrightarrow> map f xs = map Inr ys"
proof (induction xs arbitrary: ys)
  case (Cons x xs)
  show ?case using Cons.IH [of "tl ys"] by (cases ys; cases "f x"; cases "map_result f xs") auto
qed auto

lemma map_result_mem: "map_result f xs = Inr ys \<Longrightarrow> y \<in> set ys \<Longrightarrow> \<exists>x \<in> set xs. f x = Inr y"
  unfolding map_result_Inr by (metis image_iff list.set_map)

definition rule_ok :: "GateRule \<Rightarrow> bool" where
  "rule_ok r = (trim (spr_name r) \<noteq> [] \<and> trim (spr_condition r) \<noteq> [])"

lemma split_on_segment:
  "p \<in> set (split_on sep s) \<longleftrightarrow> sep \<notin> set p \<and> (\<exists>pre post. s = pre @ p @ post \<and> (pre = [] \<or> last pre = sep) \<and> (post = [] \<or> hd post = sep))"
proof
  assume p: "p \<in> set (split_on sep s)"
  then obtain as bs where ab: "split_on sep s = as @ p # bs" by (auto simp: in_set_conv_decomp)
  have join: "join_with [sep] (xs @ y # ys) = (if xs = [] then [] else join_with [sep] xs @ [sep]) @ y
      @ (if ys = [] then [] else sep # join_with [sep] ys)" for xs ys :: "string list" and y
    by (induction xs rule: induct_list012; cases ys) auto
  have "s = join_with [sep] (as @ p # bs)" using join_split [of sep s] ab by simp
  then have "s = (if as = [] then [] else join_with [sep] as @ [sep]) @ p @ (if bs = [] then [] else sep # join_with [sep] bs)"
    unfolding join .
  then show "sep \<notin> set p \<and> (\<exists>pre post. s = pre @ p @ post \<and> (pre = [] \<or> last pre = sep) \<and> (post = [] \<or> hd post = sep))"
    using split_on_parts_no_sep [OF p] by (cases "as = []"; cases "bs = []") fastforce+
next
  assume "sep \<notin> set p \<and> (\<exists>pre post. s = pre @ p @ post \<and> (pre = [] \<or> last pre = sep) \<and> (post = [] \<or> hd post = sep))"
  then obtain pre post where s: "s = pre @ p @ post" "pre = [] \<or> last pre = sep" "post = [] \<or> hd post = sep" and p: "sep \<notin> set p"
    by blast
  have first: "p \<in> set (split_on sep (p @ post))"
    using s(3) p by (cases post) (auto simp: split_on_no_sep split_on_append_sep)
  have join: "split_on sep (q @ sep # r) = split_on sep q @ split_on sep r" for q r
    by (induction q) (auto split: list.splits)
  have later: "set (split_on sep r) \<subseteq> set (split_on sep (q @ sep # r))" for q r by (simp add: join)
  show "p \<in> set (split_on sep s)"
  proof (cases "pre = []")
    case True
    then show ?thesis using first s(1) by simp
  next
    case False
    then have "pre = butlast pre @ [sep]" using s(2) by (metis append_butlast_last_id)
    then have "s = butlast pre @ sep # p @ post" using s(1) by (metis append.assoc append_Cons append_Nil)
    then show ?thesis using later first by blast
  qed
qed

definition small_letters :: "char set" where
  "small_letters = set ''abcdefghijklmnopqrstuvwxyz''"

definition id_characters :: "char set" where
  "id_characters = small_letters \<union> set ''0123456789_-''"

lemma small_letter: "is_lower_alpha c \<Longrightarrow> c \<in> small_letters"
proof -
  have "\<forall>c. is_lower_alpha c \<longrightarrow> c \<in> small_letters" by code_simp
  then show "is_lower_alpha c \<Longrightarrow> c \<in> small_letters" by blast
qed

lemma id_character: "is_lower_alpha c \<or> is_digit c \<or> c = CHR ''_'' \<or> c = CHR ''-'' \<Longrightarrow> c \<in> id_characters"
proof -
  have "\<forall>c. is_digit c \<longrightarrow> c \<in> id_characters" by code_simp
  moreover have "CHR ''_'' \<in> id_characters" "CHR ''-'' \<in> id_characters" by (simp_all add: id_characters_def)
  ultimately show "is_lower_alpha c \<or> is_digit c \<or> c = CHR ''_'' \<or> c = CHR ''-'' \<Longrightarrow> c \<in> id_characters"
    using small_letter [of c] unfolding id_characters_def by blast
qed

text \<open>A pattern is written out, does not begin at the root, and has no segment that goes up, with either separator.\<close>

definition path_separator :: "char \<Rightarrow> bool" where
  "path_separator c = (c = CHR ''/'' \<or> c = CHR 0x5C)"

definition goes_up :: "string \<Rightarrow> bool" where
  "goes_up s = (\<exists>pre post. s = pre @ ''..'' @ post \<and> (pre = [] \<or> path_separator (last pre)) \<and> (post = [] \<or> path_separator (hd post)))"

definition pattern_ok :: "string \<Rightarrow> bool" where
  "pattern_ok s = ((\<exists>c \<in> set s. \<not> is_space c) \<and> take 1 s \<noteq> ''/'' \<and> \<not> goes_up s)"

text \<open>An id begins with a small letter and consists of small letters, digits, underscores and hyphens.\<close>

definition id_ok :: "string \<Rightarrow> bool" where
  "id_ok s = (s \<noteq> [] \<and> hd s \<in> small_letters \<and> set s \<subseteq> id_characters)"

lemma policy_id_ok_id: "policy_id_ok s \<Longrightarrow> id_ok s"
proof (cases s)
  case (Cons c cs)
  assume "policy_id_ok s"
  then have "is_lower_alpha c" "\<And>d. d \<in> set cs \<Longrightarrow> d \<in> id_characters"
    using id_character by (auto simp: policy_id_ok_def Cons list_all_iff)
  then show ?thesis using small_letter [of c] id_character [of c] by (auto simp: id_ok_def Cons)
qed (simp add: policy_id_ok_def)

lemma relative_pattern_ok:
  assumes "relative_pattern (JStr s)"
  shows "pattern_ok s"
proof -
  have s: "trim s \<noteq> []" "\<not> isAbsolute s" "''..'' \<notin> set (split_on (CHR ''/'') (toPosixPath s))"
    using assms by (simp_all add: relative_pattern_def text_of_def)
  have "\<not> goes_up s"
  proof
    assume "goes_up s"
    then obtain pre post where p: "s = pre @ ''..'' @ post" "pre = [] \<or> path_separator (last pre)" "post = [] \<or> path_separator (hd post)"
      unfolding goes_up_def by blast
    have "toPosixPath s = toPosixPath pre @ ''..'' @ toPosixPath post" by (simp add: p(1) toPosixPath_def)
    moreover have "toPosixPath pre = [] \<or> last (toPosixPath pre) = CHR ''/''" "toPosixPath post = [] \<or> hd (toPosixPath post) = CHR ''/''"
      using p(2,3) by (cases "pre = []"; cases "post = []"; auto simp: toPosixPath_def path_separator_def last_map hd_map)+
    ultimately have "''..'' \<in> set (split_on (CHR ''/'') (toPosixPath s))" unfolding split_on_segment by fastforce
    then show False using s(3) by blast
  qed
  moreover have "take 1 s \<noteq> ''/''" using s(2) by (cases s) (auto simp: isAbsolute_def starts_with_def)
  moreover have "\<exists>c \<in> set s. \<not> is_space c" using s(1) by (auto simp: trim_eq_Nil_iff list_all_iff)
  ultimately show ?thesis by (simp add: pattern_ok_def)
qed

definition scope_ok :: "StructuralPolicyScope \<Rightarrow> bool" where
  "scope_ok s = ((sps_include s \<noteq> None \<or> sps_exclude s \<noteq> None)
     \<and> list_all pattern_ok (or_default (sps_include s) []) \<and> list_all pattern_ok (or_default (sps_exclude s) []))"

definition policy_ok :: "string list \<Rightarrow> StructuralPolicy \<Rightarrow> bool" where
  "policy_ok languages p = (id_ok (pol_id p) \<and> pol_languages p \<noteq> [] \<and> set (pol_languages p) \<subseteq> set languages
     \<and> sorted (pol_languages p) \<and> distinct (pol_languages p) \<and> list_all rule_ok (pol_rules p)
     \<and> (case pol_scope p of None \<Rightarrow> True | Some s \<Rightarrow> scope_ok s))"

lemma as_rule_ok: "as_rule block label e = Inr r \<Longrightarrow> rule_ok r \<and> spr_block r = block"
  by (auto simp: as_rule_def Let_def rule_ok_def written_def split: prod.splits if_splits option.splits)

lemma asRules_ok: "asRules v block label = Inr rs \<Longrightarrow> r \<in> set rs \<Longrightarrow> rule_ok r \<and> spr_block r = block"
  by (auto simp: asRules_def split: option.splits dest!: map_result_mem dest: as_rule_ok)

lemma patterns_ok:
  assumes "patterns v label = Inr ps"
  shows "list_all pattern_ok (or_default ps []) \<and> (ps = None \<longleftrightarrow> v = None)"
proof (cases "elements_of v")
  case (Some xs)
  then have v: "v = Some (JArr xs)" by (auto simp: elements_of_def split: option.splits json.splits)
  with assms Some have ps: "list_all relative_pattern xs" "ps = Some (present (map (text_of \<circ> Some) xs))"
    by (auto simp: patterns_def split: if_splits)
  have "pattern_ok s" if "Some s = text_of (Some j)" "j \<in> set xs" for s j
  proof -
    have "j = JStr s" using that(1) by (auto simp: text_of_def split: json.splits)
    then show ?thesis using ps(1) that(2) by (auto simp: list_all_iff intro: relative_pattern_ok)
  qed
  then show ?thesis using ps v by (auto simp: list_all_iff)
qed (use assms in \<open>auto simp: patterns_def elements_of_def split: option.splits\<close>)

lemma policyScope_ok:
  assumes "policyScope v label = Inr s"
  shows "case s of None \<Rightarrow> v = None | Some sc \<Rightarrow> scope_ok sc"
proof (cases v)
  case (Some j)
  with assms obtain inc exc where
    "patterns (field j ''include'') (label @ ''.include'') = Inr inc" "patterns (field j ''exclude'') (label @ ''.exclude'') = Inr exc"
    "\<not> (inc = None \<and> exc = None)" "s = Some \<lparr>sps_include = inc, sps_exclude = exc\<rparr>"
    by (auto simp: policyScope_def split: if_splits)
  then show ?thesis using patterns_ok by (fastforce simp: scope_ok_def)
qed (use assms in \<open>simp add: policyScope_def\<close>)

lemma policy_languages_ok:
  assumes "policy_languages v languages = Some ls"
  shows "ls \<noteq> [] \<and> set ls \<subseteq> set languages \<and> sorted ls \<and> distinct ls"
proof -
  obtain xs where xs: "elements_of v = Some xs" "xs \<noteq> []" "ls = sorted_uniq (present (map (text_of \<circ> Some) xs))"
      "\<forall>x \<in> set xs. \<exists>l \<in> set languages. text_of (Some x) = Some l"
    using assms by (auto simp: policy_languages_def Let_def list_all_iff split: option.splits if_splits)
  then have "present (map (text_of \<circ> Some) xs) \<noteq> []" by (cases xs) auto
  moreover have "set (present (map (text_of \<circ> Some) xs)) \<subseteq> set languages"
    using xs(4) by (auto simp: image_iff)
  ultimately show ?thesis using xs(3) by simp
qed

lemma parsePolicy_ok:
  assumes "parsePolicy languages w ids e = Inr p"
  shows "policy_ok languages p \<and> pol_id p \<notin> set ids"
proof -
  obtain i raw where e: "e = (i, raw)" by (cases e)
  let ?l = "indexed ''structural_policies'' i"
  obtain ident ls enforce scope blocking warning ws where
    "policy_id_ok ident" "ident \<notin> set ids" "policy_languages (field raw ''languages'') languages = Some ls"
    "policyScope (field raw ''scope'') (?l @ ''.scope'') = Inr scope"
    "asRules (field raw ''rules_block'') True (?l @ ''.rules_block'') = Inr blocking"
    "asRules (field raw ''rules_warn'') False (?l @ ''.rules_warn'') = Inr warning"
    "p = \<lparr>pol_id = ident, pol_languages = ls, pol_scope = scope, pol_enforce = enforce, pol_rules = blocking @ warning, pol_crlStateWeights = ws\<rparr>"
    using assms unfolding e parsePolicy_def by (auto simp: Let_def split: option.splits if_splits)
  then show ?thesis
    using policy_languages_ok [of "field raw ''languages''" languages ls]
      policyScope_ok [of "field raw ''scope''" "?l @ ''.scope''" scope] asRules_ok policy_id_ok_id
    by (auto simp: policy_ok_def list_all_iff split: option.splits)
qed

lemma parsePolicies_ok:
  "parsePolicies languages w ids es = Inr ps \<Longrightarrow>
     list_all (policy_ok languages) ps \<and> distinct (map pol_id ps) \<and> set (map pol_id ps) \<inter> set ids = {}"
proof (induction es arbitrary: ids ps)
  case (Cons e es)
  then obtain p qs where p: "parsePolicy languages w ids e = Inr p" "parsePolicies languages w (pol_id p # ids) es = Inr qs" "ps = p # qs"
    by (auto split: sum.splits)
  from Cons.IH [OF p(2)] parsePolicy_ok [OF p(1)] p(3) show ?case by auto
qed simp

lemma parse_gate_config_Inr:
  assumes "parse_gate_config lc cfg = Inr c"
  shows "\<exists>blocking warning.
    asRules (field cfg ''rules_block'') True ''rules_block'' = Inr blocking
    \<and> asRules (field cfg ''rules_warn'') False ''rules_warn'' = Inr warning
    \<and> path_classes_of cfg = Inr (gcf_pathEntries c)
    \<and> ps_errors (projectShapesOfRead (read_ok cfg)) = []
    \<and> gcf_shapesFingerprint c = ps_fingerprint (projectShapesOfRead (read_ok cfg))
    \<and> gcf_allRules c = blocking @ warning
    \<and> gcf_analysisScope c = createAnalysisScope lc (gate_languages cfg) (fileKindRulesOf cfg)
    \<and> gcf_explicitStructuralPolicies c = (field cfg ''structural_policies'' \<noteq> None)
    \<and> (case field cfg ''structural_policies'' of
        None \<Rightarrow> Inr [legacy_policy (gcf_analysisScope c) (gcf_allRules c) (gcf_crlStateWeights c)]
      | Some v \<Rightarrow> parseStructuralPolicies v (as_languages (gcf_analysisScope c)) (gcf_crlStateWeights c)) = Inr (gcf_structuralPolicies c)"
  using assms by (cases "field cfg ''structural_policies''") (auto simp: parse_gate_config_def Let_def split: if_splits)

lemma path_classes_default:
  assumes "path_classes_of cfg = Inr ps"
  shows "list_ex (\<lambda>p. pc_name p = ''default'') ps"
proof -
  have "list_ex (\<lambda>p. pc_name p = ''default'') (parsePathClasses q)" for q
    by (simp add: parsePathClasses_def Let_def)
  then show ?thesis using assms by (auto simp: path_classes_of_def split: option.splits if_splits)
qed

section \<open>Properties\<close>

text \<open>C37: An accepted configuration is well formed: every rule has a name and a condition, every explicit policy
  has a valid id of its own, languages of the analysis scope in a canonical order, rules and scope patterns
  that are written out and stay inside the project, and there is a path class for every file.\<close>

theorem accepted_config_well_formed:
  assumes "readGateConfig lc configPath r = Inr c"
  shows "list_all rule_ok (gcf_allRules c)
    \<and> distinct (map pol_id (gcf_structuralPolicies c))
    \<and> (gcf_explicitStructuralPolicies c \<longrightarrow> list_all (policy_ok (as_languages (gcf_analysisScope c))) (gcf_structuralPolicies c))
    \<and> list_ex (\<lambda>p. pc_name p = ''default'') (gcf_pathEntries c)"
proof -
  obtain cfg where cfg: "parse_gate_config lc cfg = Inr c"
    using assms by (auto simp: readGateConfig_def split: sum.splits ProjectConfigRead.splits)
  obtain blocking warning where c:
    "asRules (field cfg ''rules_block'') True ''rules_block'' = Inr blocking"
    "asRules (field cfg ''rules_warn'') False ''rules_warn'' = Inr warning"
    "path_classes_of cfg = Inr (gcf_pathEntries c)" "gcf_allRules c = blocking @ warning"
    "gcf_explicitStructuralPolicies c = (field cfg ''structural_policies'' \<noteq> None)"
    "(case field cfg ''structural_policies'' of
        None \<Rightarrow> Inr [legacy_policy (gcf_analysisScope c) (gcf_allRules c) (gcf_crlStateWeights c)]
      | Some v \<Rightarrow> parseStructuralPolicies v (as_languages (gcf_analysisScope c)) (gcf_crlStateWeights c)) = Inr (gcf_structuralPolicies c)"
    using parse_gate_config_Inr [OF cfg] by blast
  have rules: "list_all rule_ok (gcf_allRules c)"
    unfolding c(4) list_all_iff using asRules_ok [OF c(1)] asRules_ok [OF c(2)] by auto
  moreover have "distinct (map pol_id (gcf_structuralPolicies c)) \<and>
     (gcf_explicitStructuralPolicies c \<longrightarrow> list_all (policy_ok (as_languages (gcf_analysisScope c))) (gcf_structuralPolicies c))"
  proof (cases "field cfg ''structural_policies''")
    case None
    then have "gcf_structuralPolicies c = [legacy_policy (gcf_analysisScope c) (gcf_allRules c) (gcf_crlStateWeights c)]"
      using c(6) by simp
    then show ?thesis using c(5) None by simp
  next
    case (Some v)
    then obtain es where "parsePolicies (as_languages (gcf_analysisScope c)) (gcf_crlStateWeights c) [] es = Inr (gcf_structuralPolicies c)"
      using c(6) by (auto simp: parseStructuralPolicies_def split: option.splits)
    from parsePolicies_ok [OF this] show ?thesis by simp
  qed
  moreover note path_classes_default [OF c(3)]
  ultimately show ?thesis by blast
qed

definition same_for_gate :: "GateFileMetric \<Rightarrow> GateFileMetric \<Rightarrow> bool" where
  "same_for_gate m m' = (gm_path m = gm_path m' \<and> gm_language m = gm_language m' \<and> gm_fileKind m = gm_fileKind m'
     \<and> gm_maxFuncBranch m = gm_maxFuncBranch m' \<and> gm_alphaStruct m = gm_alphaStruct m'
     \<and> localBurdenInputsOf (crlInputOf m) = localBurdenInputsOf (crlInputOf m'))"

definition verdict_and_triggers :: "RuleCompileError + GateReport \<Rightarrow> RuleCompileError + GateVerdict \<times> (string \<times> bool \<times> string option) list" where
  "verdict_and_triggers r = map_sum id (\<lambda>g. (gr_verdict g, map trigger_key (gr_triggered g))) r"

lemma breakdown_same:
  assumes "same_for_gate m m'"
  shows "bd_localBurden (computeCRLStateBreakdown (crlInputOf m) p w) = bd_localBurden (computeCRLStateBreakdown (crlInputOf m') p w)"
    and "bd_exposure (computeCRLStateBreakdown (crlInputOf m) p w) = bd_exposure (computeCRLStateBreakdown (crlInputOf m') p w)"
  using assms by (simp_all add: same_for_gate_def computeCRLStateBreakdown_def Let_def) (simp add: crlInputOf_def)

lemma supported_variables:
  assumes "unsupportedCelVariablesInCondition c = []" "x \<in> set (identifiersOutsideStrings c)"
  shows "x \<in> {''max_func_branch'', ''crl_local'', ''exposure'', ''path_class'', ''language''}"
proof -
  have "\<not> unsupported_variable x"
    using assms unfolding unsupportedCelVariablesInCondition_def by (metis filter_empty_conv length_0_conv length_sort)
  then obtain d where d: "celVariableDefinition x = Some d" "cv_role d = role_gate \<or> cv_role d = role_classifier"
    unfolding unsupported_variable_def by (auto split: option.splits)
  then have "d \<in> set celVariables" "cv_id d = x"
    unfolding celVariableDefinition_def by (auto simp: find_Some_iff)
  then show ?thesis using d(2) unfolding celVariables_def cel_var_def by auto
qed

lemma fileVars_get:
  "map_get (fileVars mm paths options m) ''max_func_branch'' = Some (num (maxFuncWeightedBranchOf (branchSnapshotOf m)))"
  "map_get (fileVars mm paths options m) ''path_class'' = Some (VStr (classifyPath mm (gm_path m) paths))"
  "map_get (fileVars mm paths options m) ''crl_local'' = Some (num (or_default (map_option bd_localBurden
     (map_option (\<lambda>p. computeCRLStateBreakdown (crlInputOf m) p (optionWeights options)) (go_p95 options))) 0))"
  "map_get (fileVars mm paths options m) ''exposure'' = Some (num (or_default (map_option bd_exposure
     (map_option (\<lambda>p. computeCRLStateBreakdown (crlInputOf m) p (optionWeights options)) (go_p95 options))) 0))"
  "map_get (fileVars mm paths options m) ''language'' = Some (VStr (or_default (gm_language m) ''unknown''))"
  by (simp_all add: fileVars_def Let_def)

lemma fileVars_same:
  assumes "same_for_gate m m'" "x \<in> {''max_func_branch'', ''crl_local'', ''exposure'', ''path_class'', ''language''}"
  shows "map_get (fileVars mm paths options m) x = map_get (fileVars mm paths options m') x"
proof -
  note b = breakdown_same [OF assms(1)]
  have crl: "map_option bd_localBurden (map_option (\<lambda>p. computeCRLStateBreakdown (crlInputOf m) p w) q)
      = map_option bd_localBurden (map_option (\<lambda>p. computeCRLStateBreakdown (crlInputOf m') p w) q)" for w q
    by (cases q) (simp_all add: b)
  have ex: "map_option bd_exposure (map_option (\<lambda>p. computeCRLStateBreakdown (crlInputOf m) p w) q)
      = map_option bd_exposure (map_option (\<lambda>p. computeCRLStateBreakdown (crlInputOf m') p w) q)" for w q
    by (cases q) (simp_all add: b)
  have mf: "maxFuncWeightedBranchOf (branchSnapshotOf m) = maxFuncWeightedBranchOf (branchSnapshotOf m')"
    and pl: "gm_path m = gm_path m'" "gm_language m = gm_language m'"
    using assms(1) by (simp_all add: same_for_gate_def maxFuncWeightedBranchOf_def branchSnapshotOf_def)
  from assms(2) show ?thesis
    unfolding insert_iff empty_iff simp_thms
    by (elim disjE) (simp_all only: fileVars_get crl ex mf pl)
qed

text \<open>C23: Metrics that are only reported never judge: when no rule reads an unsupported variable, the verdict and the triggered
  rules are the same for two measurements of the files that differ in the branch totals, the top-level branches,
  the connectedness and the split of the lines into declaration and implementation.\<close>

theorem report_metrics_never_judge:
  assumes "unsupportedMetricRules rules = []" "list_all2 same_for_gate ms ms'"
  shows "verdict_and_triggers (gatePerFile cel_compile mm rules ms paths options)
       = verdict_and_triggers (gatePerFile cel_compile mm rules ms' paths options)"
proof -
  have x: "x \<in> {''max_func_branch'', ''crl_local'', ''exposure'', ''path_class'', ''language''}"
    if "q \<in> set rules" "x \<in> set (identifiersOutsideStrings (spr_condition q))" for q x
  proof (rule supported_variables [OF _ that(2)])
    show "unsupportedCelVariablesInCondition (spr_condition q) = []"
      using that(1) assms(1) unfolding unsupportedMetricRules_def filter_empty_conv by blast
  qed
  have "list_all2 (\<lambda>m m'. gm_path m = gm_path m' \<and> gm_fileKind m = gm_fileKind m'
     \<and> (\<forall>q \<in> set rules. \<forall>x \<in> set (identifiersOutsideStrings (spr_condition q)).
          map_get (fileVars mm paths options m) x = map_get (fileVars mm paths options m') x)) ms ms'"
  proof (rule list_all2_mono [OF assms(2)])
    fix m m' assume m: "same_for_gate m m'"
    have "map_get (fileVars mm paths options m) y = map_get (fileVars mm paths options m') y"
      if "q \<in> set rules" "y \<in> set (identifiersOutsideStrings (spr_condition q))" for q y
      using fileVars_same [OF m x [OF that]] .
    with m show "gm_path m = gm_path m' \<and> gm_fileKind m = gm_fileKind m'
     \<and> (\<forall>q \<in> set rules. \<forall>x \<in> set (identifiersOutsideStrings (spr_condition q)).
          map_get (fileVars mm paths options m) x = map_get (fileVars mm paths options m') x)"
      unfolding same_for_gate_def by blast
  qed
  note same = cel.firings_cong [OF this]
  show ?thesis
  proof (cases "gatePerFile cel_compile mm rules ms paths options")
    case (Inl e)
    then have "gatePerFile cel_compile mm rules ms' paths options = Inl e" by (simp add: gatePerFile_Inl)
    with Inl show ?thesis by simp
  next
    case (Inr r)
    then obtain r' where r': "gatePerFile cel_compile mm rules ms' paths options = Inr r'"
      using gatePerFile_Inl [of cel_compile mm rules ms paths options] gatePerFile_Inl [of cel_compile mm rules ms' paths options]
      by (cases "gatePerFile cel_compile mm rules ms' paths options") auto
    show ?thesis using gatePerFile_Inr [OF Inr] gatePerFile_Inr [OF r'] same by (simp add: verdict_and_triggers_def Inr r')
  qed
qed

definition sample_gate_rule :: GateRule where
  "sample_gate_rule = \<lparr>spr_name = ''burden'', spr_condition = ''crl_local'', spr_block = True\<rparr>"

definition sample_metric :: "string \<Rightarrow> real \<Rightarrow> GateFileMetric" where
  "sample_metric p n = \<lparr>gm_path = p, gm_language = Some ''go'', gm_branchCount = n, gm_weightedBranchTotal = Some n,
     gm_topLevelWeightedBranch = Some 1, gm_nestingDepth = 2, gm_alphaStruct = 0, gm_loc = Some 10, gm_declarationLoc = Some 1,
     gm_passthroughCalls = None, gm_maxFuncBranch = Some 3, gm_externalPassthroughCalls = None, gm_connectedness = None,
     gm_singleCallSiteRatio = None, gm_localBurdenFingerprint = None, gm_previousLocalBurdenFingerprint = None,
     gm_fileKind = None\<rparr>"

definition sample_gate_options :: GateOptions where
  "sample_gate_options = \<lparr>go_p95 = Some sample_p95, go_weights = None, go_mode = Some mode_enforce\<rparr>"

lemma sample_rule_supported: "unsupportedMetricRules [sample_gate_rule] = []"
proof -
  have "identifiersOutsideStrings ''crl_local'' = [''crl_local'']"
    by (simp add: identifiersOutsideStrings_def ident_start_def is_word_def is_alpha_def is_lower_alpha_def is_upper_alpha_def is_digit_def)
  then show ?thesis
    by (simp add: unsupportedMetricRules_def sample_gate_rule_def unsupportedCelVariablesInCondition_def unsupported_variable_def
      celVariableDefinition_def celVariables_def cel_var_def)
qed

theorem report_metrics_never_judge_witness:
  "verdict_and_triggers (gatePerFile cel_compile (\<lambda>_ _. True) [sample_gate_rule] [sample_metric ''a.go'' 7] [] sample_gate_options)
   = verdict_and_triggers (gatePerFile cel_compile (\<lambda>_ _. True) [sample_gate_rule] [sample_metric ''a.go'' 99] [] sample_gate_options)"
  by (rule report_metrics_never_judge [OF sample_rule_supported])
     (simp add: same_for_gate_def sample_metric_def crlInputOf_def)

text \<open>The configuration of the witness: one explicit policy with a scope and a rule of each level.\<close>

definition sample_policy_doc :: json where
  "sample_policy_doc = JObj
     [(''id'', JStr ''core''), (''languages'', JArr [JStr ''go'']), (''mode'', JStr ''enforce''),
      (''scope'', JObj [(''include'', JArr [JStr ''src/**''])]),
      (''rules_block'', JArr [JObj [(''name'', JStr ''burden''), (''condition'', JStr ''crl_local'')]]),
      (''rules_warn'', JArr [JObj [(''name'', JStr ''w''), (''condition'', JStr ''exposure'')]])]"

definition sample_config_doc :: json where
  "sample_config_doc = JObj [(''languages'', JArr [JStr ''go'']), (''structural_policies'', JArr [sample_policy_doc])]"

lemma sample_config_accepted: "\<exists>c. readGateConfig code_unit_cmp ''p'' (read_ok sample_config_doc) = Inr c \<and> gcf_explicitStructuralPolicies c"
  by (simp add: readGateConfig_def sample_config_doc_def sample_policy_doc_def parse_gate_config_def is_mapping_def field_def entries_of_def
    bind_result_def asRules_def path_classes_of_def projectShapesOfRead_def parseLanguageShapes_def parseStructuralPolicies_def elements_of_def
    with_index_def gate_languages_def text_of_def createAnalysisScope_def sorted_uniq_def parsePolicy_def policy_id_ok_def is_lower_alpha_def is_digit_def
    policy_languages_def policy_mode_def policyScope_def patterns_def relative_pattern_def trim_def is_space_def isAbsolute_def starts_with_def
    toPosixPath_def as_rule_def written_def policyWeights_def Let_def)

theorem accepted_config_well_formed_witness:
  "\<exists>c. readGateConfig code_unit_cmp ''p'' (read_ok sample_config_doc) = Inr c
     \<and> list_all (policy_ok (as_languages (gcf_analysisScope c))) (gcf_structuralPolicies c)"
  using sample_config_accepted accepted_config_well_formed by blast
end
