(* ===== verification/Baseline_Compatibility.thy ===== *)
theory Baseline_Compatibility
  imports Gate_Config
begin

text \<open>
  Whether a recorded baseline still answers for the current configuration
  (\<open>application/baselineCompatibility.ts\<close>). The index is a parsed document; \<open>None\<close> is an absent index.
\<close>

section \<open>The judgement\<close>

record BaselineCompatibilityInput =
  bi_indexPresent :: bool
  bi_recordedScopeFingerprint :: "string option"
  bi_recordedScopeComplete :: "bool option"
  bi_recordedShapesFingerprint :: "string option"
  bi_recordedSnapshotIdentity :: "string option"
  bi_recordedMetricContractVersion :: "string option"
  bi_currentScopeFingerprint :: string
  bi_currentShapesFingerprint :: "string option"
  bi_currentMetricContractVersion :: string

datatype BaselineScopeState = scope_unknown | scope_partial | scope_compatible | scope_different

datatype BaselineShapesState = shapes_unknown | shapes_compatible | shapes_different

datatype BaselineIncompatibilityReason =
    missing_baseline_index
  | baseline_scope_incompatible
  | baseline_shapes_incompatible
  | missing_snapshot_identity
  | metric_contract_incompatible

record BaselineCompatibility =
  bc_scopeState :: BaselineScopeState
  bc_shapesState :: BaselineShapesState
  bc_compatible :: bool
  bc_reason :: "BaselineIncompatibilityReason option"

definition shapesFingerprint :: "string option \<Rightarrow> string" where
  "shapesFingerprint v = or_default v []"

definition baselineScopeState :: "BaselineCompatibilityInput \<Rightarrow> BaselineScopeState" where
  "baselineScopeState i =
     (if bi_recordedScopeFingerprint i = None then scope_unknown
      else if bi_recordedScopeComplete i \<noteq> Some True then scope_partial
      else if bi_recordedScopeFingerprint i = Some (bi_currentScopeFingerprint i) then scope_compatible
      else scope_different)"

definition baselineShapesState :: "BaselineCompatibilityInput \<Rightarrow> BaselineShapesState" where
  "baselineShapesState i =
     (let recorded = shapesFingerprint (bi_recordedShapesFingerprint i); current = shapesFingerprint (bi_currentShapesFingerprint i)
      in if recorded = [] \<and> current = [] then shapes_unknown
         else if recorded = current then shapes_compatible else shapes_different)"

definition incompatibilityReason :: "BaselineCompatibilityInput \<Rightarrow> BaselineIncompatibilityReason option" where
  "incompatibilityReason i =
     (if \<not> bi_indexPresent i then Some missing_baseline_index
      else if bi_recordedScopeFingerprint i \<noteq> Some (bi_currentScopeFingerprint i) \<or> bi_recordedScopeComplete i \<noteq> Some True
      then Some baseline_scope_incompatible
      else if shapesFingerprint (bi_recordedShapesFingerprint i) \<noteq> shapesFingerprint (bi_currentShapesFingerprint i)
      then Some baseline_shapes_incompatible
      else if bi_recordedSnapshotIdentity i = None then Some missing_snapshot_identity
      else if bi_recordedMetricContractVersion i \<noteq> Some (bi_currentMetricContractVersion i) then Some metric_contract_incompatible
      else None)"

definition baselineCompatibility :: "BaselineCompatibilityInput \<Rightarrow> BaselineCompatibility" where
  "baselineCompatibility i =
     \<lparr>bc_scopeState = baselineScopeState i, bc_shapesState = baselineShapesState i,
      bc_compatible = (incompatibilityReason i = None), bc_reason = incompatibilityReason i\<rparr>"

section \<open>Reading the index\<close>

definition subfield :: "json option \<Rightarrow> string \<Rightarrow> json option" where
  "subfield v k = Option.bind v (\<lambda>j. field j k)"

definition baselineCompatibilityOf :: "json option \<Rightarrow> string \<Rightarrow> string option \<Rightarrow> BaselineCompatibility" where
  "baselineCompatibilityOf index currentScopeFingerprint currentShapesFingerprint =
     (let meta = subfield index ''meta''; scope = subfield meta ''analysisScope''
      in baselineCompatibility
           \<lparr>bi_indexPresent = (index \<noteq> None),
            bi_recordedScopeFingerprint = text_of (subfield scope ''fingerprint''),
            bi_recordedScopeComplete = only_if (subfield scope ''complete'' = Some (JBool True)) True,
            bi_recordedShapesFingerprint = text_of (subfield meta ''shapesFingerprint''),
            bi_recordedSnapshotIdentity = text_of (subfield meta ''snapshotSha256''),
            bi_recordedMetricContractVersion = text_of (subfield meta ''metricContractVersion''),
            bi_currentScopeFingerprint = currentScopeFingerprint,
            bi_currentShapesFingerprint = currentShapesFingerprint,
            bi_currentMetricContractVersion = METRIC_CONTRACT_VERSION\<rparr>)"

section \<open>Properties\<close>

text \<open>A baseline is compatible exactly when the index records the current scope, completely, the current shapes,
  a snapshot identity and the current metric contract; the reason of an incompatibility agrees with the two states,
  and a project without shapes needs no record of them.\<close>

theorem baseline_compatibility:
  "(bc_compatible (baselineCompatibilityOf index scope shapes) \<longleftrightarrow>
      text_of (subfield (subfield (subfield index ''meta'') ''analysisScope'') ''fingerprint'') = Some scope
      \<and> subfield (subfield (subfield index ''meta'') ''analysisScope'') ''complete'' = Some (JBool True)
      \<and> or_default (text_of (subfield (subfield index ''meta'') ''shapesFingerprint'')) [] = or_default shapes []
      \<and> text_of (subfield (subfield index ''meta'') ''snapshotSha256'') \<noteq> None
      \<and> text_of (subfield (subfield index ''meta'') ''metricContractVersion'') = Some METRIC_CONTRACT_VERSION)
   \<and> (bc_compatible (baselineCompatibilityOf index scope shapes) = (bc_reason (baselineCompatibilityOf index scope shapes) = None))
   \<and> (bc_reason (baselineCompatibilityOf index scope shapes) = Some baseline_scope_incompatible
        \<longleftrightarrow> index \<noteq> None \<and> bc_scopeState (baselineCompatibilityOf index scope shapes) \<noteq> scope_compatible)
   \<and> (bc_reason (baselineCompatibilityOf index scope shapes) = Some baseline_shapes_incompatible
        \<longleftrightarrow> bc_scopeState (baselineCompatibilityOf index scope shapes) = scope_compatible
            \<and> bc_shapesState (baselineCompatibilityOf index scope shapes) = shapes_different)"
proof (cases index)
  case None
  then show ?thesis
    by (simp add: baselineCompatibilityOf_def baselineCompatibility_def incompatibilityReason_def baselineScopeState_def subfield_def text_of_def Let_def)
next
  case (Some v)
  then show ?thesis
    by (auto simp: baselineCompatibilityOf_def baselineCompatibility_def incompatibilityReason_def baselineScopeState_def
      baselineShapesState_def shapesFingerprint_def only_if_def Let_def split: if_splits)
qed

text \<open>
  A scan records the scope of all file-kind rules of the project, the ones derived from its layout
  included; the gate asks for the scope of the configured rules alone. In a project with both source trees of
  Maven the two never agree.
\<close>

definition scanScope :: "string cmp \<Rightarrow> ProjectConfigRead \<Rightarrow> string list \<Rightarrow> bool \<Rightarrow> bool \<Rightarrow> AnalysisScope" where
  "scanScope lc r detected hasMain hasTest =
     createAnalysisScope lc (readProjectLanguages r detected) (readProjectFileKindRules r hasMain hasTest)"

lemma length_join: "length (join_with sep xs) = sum_list (map length xs) + (length xs - 1) * length sep"
  by (induction sep xs rule: join_with.induct) auto

lemma length_join_mset: "mset xs = mset ys \<Longrightarrow> length (join_with sep xs) = length (join_with sep ys)"
  unfolding length_join by (metis mset_map size_mset sum_mset_sum_list)

lemma more_rules_longer:
  assumes "r \<noteq> []"
  shows "length (as_fingerprint (createAnalysisScope lc ls rs)) < length (as_fingerprint (createAnalysisScope lc ls (rs @ r)))"
proof -
  have e: "length (join_with '','' (map rule_text (js_sort c xs))) = length (join_with '','' (map rule_text xs))" for c xs
    by (rule length_join_mset) simp
  obtain x xs where r: "r = x # xs" using assms by (cases r) auto
  have "0 < length (rule_text y)" for y by (simp add: rule_text_def)
  then have "length (join_with '','' (map rule_text rs)) < length (join_with '','' (map rule_text (rs @ r)))"
    unfolding length_join r by (cases rs) (simp_all add: add_strict_increasing)
  then show ?thesis by (simp add: createAnalysisScope_def Let_def e)
qed

lemma gate_languages_configured:
  assumes "readConfiguredLanguages (read_ok cfg) = Some ls"
  shows "gate_languages cfg = ls"
  using assms by (auto simp: readConfiguredLanguages_def parseConfiguredLanguages_def gate_languages_def only_if_def split: option.splits if_splits)

theorem layout_rule_makes_gate_unavailable:
  assumes "readGateConfig lc configPath r = Inr c" "readConfiguredLanguages r = Some ls" "ls \<noteq> []"
    and "text_of (subfield (subfield (subfield (Some index) ''meta'') ''analysisScope'') ''fingerprint'')
       = Some (as_fingerprint (scanScope lc r detected True True))"
  shows "bc_reason (baselineCompatibilityOf (Some index) (as_fingerprint (gcf_analysisScope c)) (Some (gcf_shapesFingerprint c)))
     = Some baseline_scope_incompatible"
proof -
  obtain cfg where cfg: "r = read_ok cfg" "parse_gate_config lc cfg = Inr c"
    using assms(1) by (auto simp: readGateConfig_def split: sum.splits ProjectConfigRead.splits)
  have "gcf_analysisScope c = createAnalysisScope lc ls (fileKindRulesOf cfg)"
    using parse_gate_config_Inr [OF cfg(2)] gate_languages_configured assms(2) cfg(1) by auto
  moreover have "scanScope lc r detected True True = createAnalysisScope lc ls (fileKindRulesOf cfg @ layoutDerivedFileKindRules True True)"
    using assms(2,3) by (simp add: scanScope_def readProjectLanguages_def readProjectFileKindRules_def configuredFileKindRules_def cfg(1))
  moreover have "layoutDerivedFileKindRules True True \<noteq> []" by (simp add: layoutDerivedFileKindRules_def)
  ultimately have "as_fingerprint (scanScope lc r detected True True) \<noteq> as_fingerprint (gcf_analysisScope c)"
    by (metis more_rules_longer less_irrefl)
  then show ?thesis using assms(4)
    by (simp add: baselineCompatibilityOf_def baselineCompatibility_def incompatibilityReason_def Let_def)
qed

definition sample_index :: "string \<Rightarrow> json" where
  "sample_index fingerprint = JObj [(''meta'', JObj [(''analysisScope'', JObj [(''fingerprint'', JStr fingerprint), (''complete'', JBool True)])])]"

theorem layout_rule_makes_gate_unavailable_witness:
  "\<exists>c. readGateConfig code_unit_cmp ''p'' (read_ok sample_config_doc) = Inr c \<and>
     bc_reason (baselineCompatibilityOf (Some (sample_index (as_fingerprint (scanScope code_unit_cmp (read_ok sample_config_doc) [] True True))))
       (as_fingerprint (gcf_analysisScope c)) (Some (gcf_shapesFingerprint c))) = Some baseline_scope_incompatible"
proof -
  obtain c where c: "readGateConfig code_unit_cmp ''p'' (read_ok sample_config_doc) = Inr c"
    using sample_config_accepted by blast
  have "readConfiguredLanguages (read_ok sample_config_doc) = Some [''go'']"
    by (simp add: readConfiguredLanguages_def sample_config_doc_def parseConfiguredLanguages_def field_def entries_of_def elements_of_def text_of_def only_if_def)
  from layout_rule_makes_gate_unavailable [OF c this] show ?thesis
    using c by (simp add: sample_index_def subfield_def field_def entries_of_def text_of_def)
qed
end
