(* ===== verification/Gate_App.thy ===== *)
theory Gate_App
  imports Baseline_Compatibility
begin

text \<open>
  The gate command as a pipeline (\<open>application/governance/gateApp.ts\<close>, \<open>gateReport.ts\<close>): the checks that make the
  gate unavailable, in their order, then the judgement of each policy. The storage reads are arguments: an index
  (\<open>None\<close> when there is none) and the current metrics, or the error they fail with. Of a metric the owner of the
  largest function, which is only displayed, is left out.
\<close>

section \<open>Outputs\<close>

datatype GateUnavailableReason =
    languages_empty
  | baseline_reason BaselineIncompatibilityReason
  | unsupported_gate_metric
  | missing_max_function_branch
  | missing_metric_language
  | unconfigured_language_policy
  | ambiguous_structural_policy
  | policy_calibration_missing
  | execution_failed

datatype GateDiagnosticCategory = cat_configuration | cat_baseline | cat_io | cat_parser | cat_rule | cat_unexpected

record GateDiagnostic =
  gd_category :: GateDiagnosticCategory
  gd_operation :: string
  gd_message :: string
  gd_path :: "string option"

datatype GateAppVerdict = UNAVAILABLE | Judged GateVerdict

record GateThresholdFact =
  gt_policyId :: string
  gt_rule :: string
  gt_metricId :: string
  gt_comparison :: Comparison
  gt_threshold :: real
  gt_p95 :: "real option"
  gt_ratio :: "real option"
  gt_observedRatio :: "real option"
  gt_overThresholdFiles :: nat
  gt_evaluatedFiles :: nat

record GatePolicyFact =
  gp_id :: string
  gp_enforce :: bool
  gp_languages :: "string list"
  gp_evaluatedFiles :: nat

record GateReportFacts =
  grf_result :: GateReport
  grf_metrics :: "GateFileMetric list"
  grf_report :: bool
  grf_p95 :: "P95Values option"
  grf_weights :: CRLStateWeights
  grf_policies :: "GatePolicyFact list option"
  grf_thresholds :: "GateThresholdFact list option"

definition gateReportFacts ::
  "GateReport \<Rightarrow> GateFileMetric list \<Rightarrow> bool \<Rightarrow> P95Values option \<Rightarrow> CRLStateWeights \<Rightarrow> GatePolicyFact list option
     \<Rightarrow> GateThresholdFact list option \<Rightarrow> GateReportFacts" where
  "gateReportFacts result metrics report p weights policies thresholds =
     \<lparr>grf_result = result, grf_metrics = metrics, grf_report = report, grf_p95 = p, grf_weights = weights,
      grf_policies = policies, grf_thresholds = (case thresholds of Some (t # ts) \<Rightarrow> Some (t # ts) | _ \<Rightarrow> None)\<rparr>"

record SmallSamplePolicy =
  ssp_id :: string
  ssp_files :: nat
  ssp_sealed :: bool \<comment> \<open>calibration: \<open>sealed\<close> or \<open>bootstrapped\<close>\<close>

record GateAppOutput =
  ga_code :: nat
  ga_verdict :: GateAppVerdict
  ga_report :: "GateReportFacts option"
  ga_unavailableReason :: "GateUnavailableReason option"
  ga_analysisScopeFingerprint :: "string option"
  ga_configuredRules :: "nat option"
  ga_evaluatedFiles :: "nat option"
  ga_calibrationShifts :: "CalibrationShift list option"
  ga_smallSamplePolicies :: "SmallSamplePolicy list option"
  ga_diagnostic :: "GateDiagnostic option"

section \<open>Errors\<close>

text \<open>The errors the gate tells apart; a cause is the message of an \<open>Error\<close> or a string, if it is one.\<close>

datatype GateError =
    err_configuration GateConfigurationError
  | err_schema string string
  | err_io string "string option"
  | err_parse string "string option"
  | err_rule RuleCompileError
  | err_other "string option"

definition summarizeCause :: "string option \<Rightarrow> string" where
  "summarizeCause cause = or_default cause ''unavailable''"

fun gateDiagnosticFromError :: "GateError \<Rightarrow> GateDiagnostic" where
  "gateDiagnosticFromError (err_configuration e) =
     \<lparr>gd_category = cat_configuration, gd_operation = ''load_config'', gd_message = gce_reason e, gd_path = Some (gce_path e)\<rparr>"
| "gateDiagnosticFromError (err_schema p reason) =
     \<lparr>gd_category = cat_baseline, gd_operation = ''read_baseline'', gd_message = reason, gd_path = Some p\<rparr>"
| "gateDiagnosticFromError (err_io p cause) =
     \<lparr>gd_category = cat_io, gd_operation = ''read_or_write'', gd_message = summarizeCause cause, gd_path = Some p\<rparr>"
| "gateDiagnosticFromError (err_parse p cause) =
     \<lparr>gd_category = cat_parser, gd_operation = ''parse'', gd_message = summarizeCause cause, gd_path = Some p\<rparr>"
| "gateDiagnosticFromError (err_rule e) =
     \<lparr>gd_category = cat_rule, gd_operation = ''compile_rule'', gd_message = rce_message e, gd_path = None\<rparr>"
| "gateDiagnosticFromError (err_other cause) =
     \<lparr>gd_category = cat_unexpected, gd_operation = ''evaluate_gate'', gd_message = summarizeCause cause, gd_path = None\<rparr>"

definition diagnostic :: "GateDiagnosticCategory \<Rightarrow> string \<Rightarrow> string \<Rightarrow> GateDiagnostic" where
  "diagnostic c operation m = \<lparr>gd_category = c, gd_operation = operation, gd_message = m, gd_path = None\<rparr>"

definition unavailable :: "GateUnavailableReason \<Rightarrow> GateDiagnostic \<Rightarrow> GateAppOutput" where
  "unavailable reason d =
     \<lparr>ga_code = 3, ga_verdict = UNAVAILABLE, ga_report = None, ga_unavailableReason = Some reason,
      ga_analysisScopeFingerprint = None, ga_configuredRules = None, ga_evaluatedFiles = None,
      ga_calibrationShifts = None, ga_smallSamplePolicies = None, ga_diagnostic = Some d\<rparr>"

fun verdict_code :: "GateVerdict \<Rightarrow> nat" where
  "verdict_code gate_BLOCK = 2"
| "verdict_code gate_WARN = 1"
| "verdict_code gate_PASS = 0"

fun reason_text :: "BaselineIncompatibilityReason \<Rightarrow> string" where
  "reason_text missing_baseline_index = ''missing_baseline_index''"
| "reason_text baseline_scope_incompatible = ''baseline_scope_incompatible''"
| "reason_text baseline_shapes_incompatible = ''baseline_shapes_incompatible''"
| "reason_text missing_snapshot_identity = ''missing_snapshot_identity''"
| "reason_text metric_contract_incompatible = ''metric_contract_incompatible''"

section \<open>Metrics\<close>

record BaselineEntry = IndexEntry +
  be_topLevelWeightedBranch :: "real option"
  be_singleCallSiteRatio :: "real option"
  be_localBurdenFingerprint :: "string option"
  be_previousLocalBurdenFingerprint :: "string option"

definition collectMetric :: "BaselineEntry \<Rightarrow> GateFileMetric" where
  "collectMetric m =
     \<lparr>gm_path = ix_path m, gm_language = ix_language m, gm_branchCount = ix_branchCount m,
      gm_weightedBranchTotal = ix_weightedBranchTotal m, gm_topLevelWeightedBranch = be_topLevelWeightedBranch m,
      gm_nestingDepth = ix_nestingDepth m, gm_alphaStruct = ix_alphaStruct m, gm_loc = ix_loc m,
      gm_declarationLoc = ix_declarationLoc m, gm_passthroughCalls = ix_passthroughCalls m,
      gm_maxFuncBranch = ix_maxFuncBranch m, gm_externalPassthroughCalls = ix_externalPassthroughCalls m,
      gm_connectedness = ix_connectedness m, gm_singleCallSiteRatio = be_singleCallSiteRatio m,
      gm_localBurdenFingerprint = be_localBurdenFingerprint m,
      gm_previousLocalBurdenFingerprint = be_previousLocalBurdenFingerprint m, gm_fileKind = ix_fileKind m\<rparr>"

definition filterMetricsForScope :: "GateFileMetric list \<Rightarrow> AnalysisScope \<Rightarrow> GateFileMetric list" where
  "filterMetricsForScope metrics scope = filter (\<lambda>m. isPathInAnalysisScope (gm_path m) scope) metrics"

definition p95OfGateMetric :: "string \<Rightarrow> (P95Values \<Rightarrow> real) option" where
  "p95OfGateMetric metricId = only_if (metricId = ''max_func_branch'') p95_branch"

definition ratio_to :: "real \<Rightarrow> real option \<Rightarrow> real option" where
  "ratio_to threshold p = Option.bind p (\<lambda>v. only_if (v > 0) (threshold / v))"

definition thresholdVisibilityOf ::
  "StructuralPolicy \<Rightarrow> GateFileMetric list \<Rightarrow> P95Values \<Rightarrow> GateTrigger list \<Rightarrow> P95Values option \<Rightarrow> GateThresholdFact list" where
  "thresholdVisibilityOf policy selected p triggered observedP95 =
     concat (map (\<lambda>rule.
       present (map (\<lambda>declared.
         map_option (\<lambda>value_of.
           \<lparr>gt_policyId = pol_id policy, gt_rule = spr_name rule, gt_metricId = nt_metricId declared,
            gt_comparison = nt_comparison declared, gt_threshold = nt_threshold declared,
            gt_p95 = Some (value_of p), gt_ratio = ratio_to (nt_threshold declared) (Some (value_of p)),
            gt_observedRatio = ratio_to (nt_threshold declared) (map_option value_of observedP95),
            gt_overThresholdFiles = length (filter (\<lambda>t. tg_name t = spr_name rule) triggered),
            gt_evaluatedFiles = length selected\<rparr>)
          (p95OfGateMetric (nt_metricId declared)))
        (numericGateThresholdsInCondition (spr_condition rule)))) (pol_rules policy))"

section \<open>The pipeline\<close>

record GateIndex =
  gi_document :: json \<comment> \<open>what \<open>baselineCompatibilityOf\<close> reads\<close>
  gi_p95 :: "P95Values option"
  gi_calibration :: "StructuralCalibrationState option"
  gi_policyCalibrations :: "(string, StructuralCalibrationState) jmap option"

definition subjectOf :: "GateFileMetric \<Rightarrow> StructuralPolicySubject" where
  "subjectOf m = \<lparr>sub_path = gm_path m, sub_language = or_default (gm_language m) []\<rparr>"

record GateProgress =
  pg_triggered :: "GateTrigger list"
  pg_policyFacts :: "GatePolicyFact list"
  pg_thresholdFacts :: "GateThresholdFact list"
  pg_calibrationShifts :: "CalibrationShift list"
  pg_smallSamplePolicies :: "SmallSamplePolicy list"
  pg_legacyReportP95 :: "P95Values option"
  pg_blocked :: bool
  pg_warned :: bool

definition no_progress :: GateProgress where
  "no_progress = \<lparr>pg_triggered = [], pg_policyFacts = [], pg_thresholdFacts = [], pg_calibrationShifts = [],
     pg_smallSamplePolicies = [], pg_legacyReportP95 = None, pg_blocked = False, pg_warned = False\<rparr>"

datatype 'a gate_step = step_error GateError | step_unavailable GateAppOutput | step_ok 'a

definition policyProfiles :: "GateConfig \<Rightarrow> GateIndex \<Rightarrow> StructuralPolicy \<Rightarrow> StructuralCalibrationState option" where
  "policyProfiles config index policy =
     (if gcf_explicitStructuralPolicies config then Option.bind (gi_policyCalibrations index) (\<lambda>m. map_get m (pol_id policy))
      else gi_calibration index)"

definition policyP95 :: "GateConfig \<Rightarrow> GateIndex \<Rightarrow> StructuralPolicy \<Rightarrow> P95Values option" where
  "policyP95 config index policy =
     or_option (map_option sp_p95 (gateCalibrationProfile (policyProfiles config index policy)))
       (if gcf_explicitStructuralPolicies config then None else gi_p95 index)"

definition selectedFor :: "(string \<Rightarrow> string \<Rightarrow> bool) \<Rightarrow> StructuralPolicy \<Rightarrow> GateFileMetric list \<Rightarrow> GateFileMetric list" where
  "selectedFor mm policy metrics = filter (\<lambda>m. matchesStructuralPolicy mm policy (subjectOf m)) metrics"

definition judge_policy ::
  "rule_compiler \<Rightarrow> (string \<Rightarrow> string \<Rightarrow> bool) \<Rightarrow> GateConfig \<Rightarrow> GateIndex \<Rightarrow> GateFileMetric list \<Rightarrow> GateProgress
     \<Rightarrow> StructuralPolicy \<Rightarrow> GateProgress gate_step" where
  "judge_policy compile mm config index metrics progress policy =
     (let selected = selectedFor mm policy metrics;
          noted = progress\<lparr>pg_policyFacts := pg_policyFacts progress @
            [\<lparr>gp_id = pol_id policy, gp_enforce = pol_enforce policy, gp_languages = pol_languages policy, gp_evaluatedFiles = length selected\<rparr>]\<rparr>;
          profiles = policyProfiles config index policy;
          small = (if length selected < 50
            then [\<lparr>ssp_id = pol_id policy, ssp_files = length selected, ssp_sealed = (Option.bind profiles st_gate \<noteq> None)\<rparr>] else [])
      in if selected = [] then step_ok progress
         else if \<not> pol_enforce policy then step_ok noted
         else case policyP95 config index policy of
             None \<Rightarrow> step_unavailable (unavailable policy_calibration_missing
                (diagnostic cat_baseline ''validate_policy_calibration''
                  (''policy '' @ pol_id policy @ '' has no sealed calibration; run a complete scan'')))
           | Some p \<Rightarrow>
               (case gatePerFile compile mm (pol_rules policy) selected (gcf_pathEntries config)
                   \<lparr>go_p95 = Some p, go_weights = Some (pol_crlStateWeights policy), go_mode = Some mode_enforce\<rparr> of
                  Inl e \<Rightarrow> step_error (err_rule e)
                | Inr result \<Rightarrow>
                    (case calibrationThresholdShifts compile mm profiles (pol_rules policy) selected
                        (gcf_pathEntries config) (pol_crlStateWeights policy) of
                       Inl e \<Rightarrow> step_error (err_rule e)
                     | Inr shifts \<Rightarrow>
                         step_ok (noted\<lparr>pg_triggered := pg_triggered noted @ gr_triggered result,
                           pg_thresholdFacts := pg_thresholdFacts noted
                             @ thresholdVisibilityOf policy selected p (gr_triggered result) (gi_p95 index),
                           pg_calibrationShifts := pg_calibrationShifts noted @ shifts,
                           pg_smallSamplePolicies := pg_smallSamplePolicies noted @ small,
                           pg_legacyReportP95 := (if gcf_explicitStructuralPolicies config then pg_legacyReportP95 noted else Some p),
                           pg_blocked := (pg_blocked noted \<or> gr_verdict result = gate_BLOCK),
                           pg_warned := (pg_warned noted \<or> gr_verdict result = gate_WARN)\<rparr>))))"

fun judge_policies ::
  "rule_compiler \<Rightarrow> (string \<Rightarrow> string \<Rightarrow> bool) \<Rightarrow> GateConfig \<Rightarrow> GateIndex \<Rightarrow> GateFileMetric list \<Rightarrow> GateProgress
     \<Rightarrow> StructuralPolicy list \<Rightarrow> GateProgress gate_step" where
  "judge_policies compile mm config index metrics progress [] = step_ok progress"
| "judge_policies compile mm config index metrics progress (p # ps) =
     (case judge_policy compile mm config index metrics progress p of
        step_ok progress' \<Rightarrow> judge_policies compile mm config index metrics progress' ps
      | stop \<Rightarrow> stop)"

definition unsupportedDetail :: "GateRule list \<Rightarrow> string" where
  "unsupportedDetail rules = join_with '', '' (map (\<lambda>r. spr_name r @ ''('' @
     join_with '','' (uniq (unsupportedCelVariablesInCondition (spr_condition r))) @ '')'') rules)"

definition configuredRules :: "GateConfig \<Rightarrow> GateRule list" where
  "configuredRules config = concat (map pol_rules (gcf_structuralPolicies config))"

definition productionMetricsOf :: "GateConfig \<Rightarrow> (string \<times> BaselineEntry) list \<Rightarrow> GateFileMetric list" where
  "productionMetricsOf config entries =
     filterMetricsForScope (filter (\<lambda>m. participatesInPopulation (gm_fileKind m) pop_production) (map (collectMetric \<circ> snd) entries))
       (gcf_analysisScope config)"

definition policyCount :: "(string \<Rightarrow> string \<Rightarrow> bool) \<Rightarrow> GateConfig \<Rightarrow> GateFileMetric \<Rightarrow> nat" where
  "policyCount mm config m = length (policiesForSubject mm (gcf_structuralPolicies config) (subjectOf m))"

text \<open>The checks on the metrics, in the order of the code.\<close>

definition metricsObstacle :: "(string \<Rightarrow> string \<Rightarrow> bool) \<Rightarrow> GateConfig \<Rightarrow> GateFileMetric list \<Rightarrow> (GateUnavailableReason \<times> GateDiagnostic) option" where
  "metricsObstacle mm config metrics =
     (let unmatched = filter (\<lambda>m. policyCount mm config m = 0) metrics;
          ambiguous = filter (\<lambda>m. policyCount mm config m > 1) metrics
      in if list_ex (\<lambda>m. gm_maxFuncBranch m = None) metrics
         then Some (missing_max_function_branch, diagnostic cat_baseline ''validate_metrics'' ''maxFuncBranch is missing'')
         else if list_ex (\<lambda>m. gm_language m = None) metrics
         then Some (missing_metric_language, diagnostic cat_baseline ''validate_language''
           ''baseline entries lack parser-confirmed language; run a complete scan'')
         else if \<not> gcf_explicitStructuralPolicies config \<and> 1 < length (uniq (map gm_language metrics))
         then Some (unconfigured_language_policy, diagnostic cat_configuration ''validate_structural_policies''
           ''multiple production languages require explicit structural_policies'')
         else if unmatched \<noteq> []
         then Some (unconfigured_language_policy, diagnostic cat_configuration ''validate_structural_policies''
           (''no structural policy for: '' @ join_with '', '' (map gm_path unmatched)))
         else if ambiguous \<noteq> []
         then Some (ambiguous_structural_policy, diagnostic cat_configuration ''validate_structural_policies''
           (''multiple structural policies match: '' @ join_with '', '' (map gm_path ambiguous)))
         else None)"

definition gateOutput :: "GateConfig \<Rightarrow> bool \<Rightarrow> GateFileMetric list \<Rightarrow> GateProgress \<Rightarrow> GateAppOutput" where
  "gateOutput config report metrics p =
     (let verdict = verdictOf (pg_blocked p) (pg_warned p)
      in \<lparr>ga_code = verdict_code verdict, ga_verdict = Judged verdict,
          ga_report = Some (gateReportFacts \<lparr>gr_verdict = verdict, gr_triggered = pg_triggered p\<rparr> metrics report
             (pg_legacyReportP95 p) (gcf_crlStateWeights config) (Some (pg_policyFacts p)) (Some (pg_thresholdFacts p))),
          ga_unavailableReason = None, ga_analysisScopeFingerprint = Some (as_fingerprint (gcf_analysisScope config)),
          ga_configuredRules = Some (length (configuredRules config)), ga_evaluatedFiles = Some (length metrics),
          ga_calibrationShifts = Some (pg_calibrationShifts p),
          ga_smallSamplePolicies = (if pg_smallSamplePolicies p = [] then None else Some (pg_smallSamplePolicies p)),
          ga_diagnostic = None\<rparr>)"

definition gate_pipeline ::
  "rule_compiler \<Rightarrow> (string \<Rightarrow> string \<Rightarrow> bool) \<Rightarrow> string \<Rightarrow> GateConfig \<Rightarrow> GateError + GateIndex option
     \<Rightarrow> GateError + (string \<times> BaselineEntry) list \<Rightarrow> bool \<Rightarrow> GateAppOutput gate_step" where
  "gate_pipeline compile mm indexPath config readIndex readMetrics report =
     (if as_languages (gcf_analysisScope config) = []
      then step_unavailable (unavailable languages_empty (diagnostic cat_configuration ''validate_scope'' ''languages is empty''))
      else case readIndex of
        Inl e \<Rightarrow> step_error e
      | Inr None \<Rightarrow> step_unavailable (unavailable (baseline_reason missing_baseline_index)
          ((diagnostic cat_baseline ''validate_baseline'' ''baseline index is missing'')\<lparr>gd_path := Some indexPath\<rparr>))
      | Inr (Some index) \<Rightarrow>
          (case bc_reason (baselineCompatibilityOf (Some (gi_document index)) (as_fingerprint (gcf_analysisScope config))
                (Some (gcf_shapesFingerprint config))) of
             Some reason \<Rightarrow> step_unavailable (unavailable (baseline_reason reason)
               ((diagnostic cat_baseline ''validate_baseline'' (reason_text reason))\<lparr>gd_path := Some indexPath\<rparr>))
           | None \<Rightarrow>
               if unsupportedMetricRules (configuredRules config) \<noteq> []
               then step_unavailable (unavailable unsupported_gate_metric
                 (diagnostic cat_configuration ''validate_rules'' (unsupportedDetail (unsupportedMetricRules (configuredRules config)))))
               else case readMetrics of
                 Inl e \<Rightarrow> step_error e
               | Inr entries \<Rightarrow>
                   (let metrics = productionMetricsOf config entries
                    in case metricsObstacle mm config metrics of
                         Some (reason, d) \<Rightarrow> step_unavailable (unavailable reason d)
                       | None \<Rightarrow>
                           (case judge_policies compile mm config index metrics no_progress (gcf_structuralPolicies config) of
                              step_error e \<Rightarrow> step_error e
                            | step_unavailable u \<Rightarrow> step_unavailable u
                            | step_ok p \<Rightarrow> step_ok (gateOutput config report metrics p)))))"

text \<open>
  The outcome of the effect. \<open>Effect.catchAll\<close> turns a failure into an output; a rejected promise behind
  \<open>Effect.promise\<close> is a defect, which \<open>catchAll\<close> does not see.
\<close>

datatype 'a exit_of = exit_success 'a | exit_defect GateError

definition gateApp ::
  "rule_compiler \<Rightarrow> (string \<Rightarrow> string \<Rightarrow> bool) \<Rightarrow> string cmp \<Rightarrow> string \<Rightarrow> string \<Rightarrow> ProjectConfigRead \<Rightarrow> GateError + GateIndex option
     \<Rightarrow> GateError + (string \<times> BaselineEntry) list \<Rightarrow> bool \<Rightarrow> GateAppOutput exit_of" where
  "gateApp compile mm lc configPath indexPath configRead readIndex readMetrics report =
     (case readGateConfig lc configPath configRead of
        Inl e \<Rightarrow> exit_defect (err_configuration e)
      | Inr config \<Rightarrow>
          (case gate_pipeline compile mm indexPath config readIndex readMetrics report of
             step_ok r \<Rightarrow> exit_success r
           | step_unavailable r \<Rightarrow> exit_success r
           | step_error e \<Rightarrow> exit_success (unavailable execution_failed (gateDiagnosticFromError e))))"

section \<open>Properties\<close>

definition policyOptions :: "P95Values \<Rightarrow> StructuralPolicy \<Rightarrow> GateOptions" where
  "policyOptions p policy = \<lparr>go_p95 = Some p, go_weights = Some (pol_crlStateWeights policy), go_mode = Some mode_enforce\<rparr>"

text \<open>What an enforced policy finds: the rules that fire on the files it selects.\<close>

definition policyFirings ::
  "rule_compiler \<Rightarrow> (string \<Rightarrow> string \<Rightarrow> bool) \<Rightarrow> GateConfig \<Rightarrow> GateIndex \<Rightarrow> GateFileMetric list \<Rightarrow> StructuralPolicy
     \<Rightarrow> (GateFileMetric \<times> GateRule) list" where
  "policyFirings compile mm config index metrics policy =
     (case policyP95 config index policy of
        None \<Rightarrow> []
      | Some p \<Rightarrow> if pol_enforce policy
          then firings compile mm (gcf_pathEntries config) (policyOptions p policy) (pol_rules policy) (selectedFor mm policy metrics)
          else [])"

lemma firings_Nil [simp]: "firings compile mm paths options rules [] = []"
  by (simp add: firings_def judged_def)

lemma judge_policy_ok:
  assumes "judge_policy compile mm config index metrics progress p = step_ok r"
  shows "map trigger_key (pg_triggered r) = map trigger_key (pg_triggered progress) @ map firing_key (policyFirings compile mm config index metrics p)
    \<and> pg_blocked r = (pg_blocked progress \<or> verdict_of_firings (policyFirings compile mm config index metrics p) = gate_BLOCK)
    \<and> pg_warned r = (pg_warned progress \<or> verdict_of_firings (policyFirings compile mm config index metrics p) = gate_WARN)
    \<and> (pol_enforce p \<and> selectedFor mm p metrics \<noteq> [] \<longrightarrow> policyP95 config index p \<noteq> None)"
proof (cases "selectedFor mm p metrics = [] \<or> \<not> pol_enforce p")
  case True
  then have "policyFirings compile mm config index metrics p = []"
    by (auto simp: policyFirings_def split: option.splits)
  with True assms show ?thesis
    by (auto simp: judge_policy_def Let_def verdict_of_firings_def verdictOf_def split: if_splits)
next
  case False
  then obtain q g shifts where q: "policyP95 config index p = Some q"
      "gatePerFile compile mm (pol_rules p) (selectedFor mm p metrics) (gcf_pathEntries config) (policyOptions q p) = Inr g"
      "pg_triggered r = pg_triggered progress @ gr_triggered g"
      "pg_blocked r = (pg_blocked progress \<or> gr_verdict g = gate_BLOCK)"
      "pg_warned r = (pg_warned progress \<or> gr_verdict g = gate_WARN)"
    using assms by (auto simp: judge_policy_def policyOptions_def Let_def split: option.splits sum.splits)
  then show ?thesis using False gatePerFile_Inr [OF q(2)] by (simp add: policyFirings_def)
qed

lemma judge_policies_ok:
  "judge_policies compile mm config index metrics progress ps = step_ok r \<Longrightarrow>
     map trigger_key (pg_triggered r) = map trigger_key (pg_triggered progress)
       @ map firing_key (concat (map (policyFirings compile mm config index metrics) ps))
     \<and> pg_blocked r = (pg_blocked progress \<or> (\<exists>p \<in> set ps. verdict_of_firings (policyFirings compile mm config index metrics p) = gate_BLOCK))
     \<and> pg_warned r = (pg_warned progress \<or> (\<exists>p \<in> set ps. verdict_of_firings (policyFirings compile mm config index metrics p) = gate_WARN))
     \<and> (\<forall>p \<in> set ps. pol_enforce p \<and> selectedFor mm p metrics \<noteq> [] \<longrightarrow> policyP95 config index p \<noteq> None)"
proof (induction ps arbitrary: progress)
  case (Cons p ps)
  then obtain progress' where p: "judge_policy compile mm config index metrics progress p = step_ok progress'"
      "judge_policies compile mm config index metrics progress' ps = step_ok r"
    by (auto split: gate_step.splits)
  from judge_policy_ok [OF p(1)] Cons.IH [OF p(2)] show ?case by auto
qed simp

lemma verdict_of_concat:
  "verdictOf (\<exists>p \<in> set ps. verdict_of_firings (F p) = gate_BLOCK) (\<exists>p \<in> set ps. verdict_of_firings (F p) = gate_WARN)
     = verdict_of_firings (concat (map F ps))"
proof -
  have w: "verdict_of_firings fs = gate_WARN \<longleftrightarrow> \<not> (\<exists>f \<in> set fs. spr_block (snd f)) \<and> (\<exists>f \<in> set fs. \<not> spr_block (snd f))" for fs
    by (auto simp: verdict_of_firings_def verdictOf_def list_ex_iff)
  have b: "(\<exists>f \<in> set (concat (map F ps)). Q f) \<longleftrightarrow> (\<exists>p \<in> set ps. \<exists>f \<in> set (F p). Q f)" for Q by auto
  show ?thesis unfolding w verdict_of_firings_iff(1) unfolding verdict_of_firings_def list_ex_iff b
    by (cases "\<exists>p \<in> set ps. \<exists>f \<in> set (F p). spr_block (snd f)") (simp_all add: verdictOf_def)
qed

lemma judge_policies_not_stop:
  "judge_policies compile mm config index metrics progress ps = step_unavailable u \<Longrightarrow> ga_verdict u = UNAVAILABLE \<and> ga_code u = 3 \<and> ga_unavailableReason u = Some policy_calibration_missing"
  by (induction ps arbitrary: progress)
     (auto simp: judge_policy_def unavailable_def Let_def split: gate_step.splits option.splits sum.splits if_splits)

text \<open>What lies behind a judged output.\<close>

lemma gateApp_judged:
  assumes "gateApp compile mm lc configPath indexPath configRead readIndex readMetrics report = exit_success out"
    and "ga_verdict out = Judged v"
  obtains config index entries p where
    "readGateConfig lc configPath configRead = Inr config" "readIndex = Inr (Some index)" "readMetrics = Inr entries"
    "as_languages (gcf_analysisScope config) \<noteq> []"
    "bc_reason (baselineCompatibilityOf (Some (gi_document index)) (as_fingerprint (gcf_analysisScope config)) (Some (gcf_shapesFingerprint config))) = None"
    "unsupportedMetricRules (configuredRules config) = []"
    "metricsObstacle mm config (productionMetricsOf config entries) = None"
    "judge_policies compile mm config index (productionMetricsOf config entries) no_progress (gcf_structuralPolicies config) = step_ok p"
    "out = gateOutput config report (productionMetricsOf config entries) p"
  using assms judge_policies_not_stop
  by (auto simp: gateApp_def gate_pipeline_def unavailable_def Let_def split: sum.splits gate_step.splits option.splits if_splits)

text \<open>C3: The verdict of the gate is the strictest level among the rules that fire on a file under the policy that
  governs it, and the triggers are exactly these firings; policies that only observe, shifts of the calibration, thresholds
  and small samples have no part in it.\<close>

theorem gate_verdict_is_firings:
  assumes "gateApp compile mm lc configPath indexPath configRead readIndex readMetrics report = exit_success out"
    and "ga_verdict out = Judged v"
  shows "\<exists>config index entries. readGateConfig lc configPath configRead = Inr config \<and> readIndex = Inr (Some index) \<and> readMetrics = Inr entries
    \<and> (let fs = concat (map (policyFirings compile mm config index (productionMetricsOf config entries)) (gcf_structuralPolicies config))
       in v = verdict_of_firings fs
          \<and> map_option (\<lambda>g. map trigger_key (gr_triggered (grf_result g))) (ga_report out) = Some (map firing_key fs))"
proof -
  obtain config index entries p where o: "readGateConfig lc configPath configRead = Inr config" "readIndex = Inr (Some index)" "readMetrics = Inr entries"
    "judge_policies compile mm config index (productionMetricsOf config entries) no_progress (gcf_structuralPolicies config) = step_ok p"
    "out = gateOutput config report (productionMetricsOf config entries) p"
    using gateApp_judged [OF assms] by metis
  let ?F = "policyFirings compile mm config index (productionMetricsOf config entries)"
  let ?ps = "gcf_structuralPolicies config"
  have j: "map trigger_key (pg_triggered p) = map firing_key (concat (map ?F ?ps))"
    "pg_blocked p = (\<exists>q \<in> set ?ps. verdict_of_firings (?F q) = gate_BLOCK)"
    "pg_warned p = (\<exists>q \<in> set ?ps. verdict_of_firings (?F q) = gate_WARN)"
    using judge_policies_ok [OF o(4)] by (simp_all add: no_progress_def)
  have "v = verdictOf (pg_blocked p) (pg_warned p)"
    using assms(2) by (simp add: o(5) gateOutput_def Let_def)
  then have "v = verdict_of_firings (concat (map ?F ?ps))" unfolding j(2,3) verdict_of_concat .
  then show ?thesis using o(1-3) j(1)
    by (intro exI [of _ config] exI [of _ index] exI [of _ entries]) (simp add: Let_def o(5) gateOutput_def gateReportFacts_def)
qed

text \<open>C4: The gate fails closed: it judges only when the baseline is compatible, no rule reads an unsupported variable,
  and every production file in scope has its language and its largest function, exactly one policy, and, when that policy
  is enforced, a calibration.\<close>

theorem gate_fails_closed:
  assumes "gateApp compile mm lc configPath indexPath configRead readIndex readMetrics report = exit_success out"
    and "ga_verdict out = Judged v"
  shows "\<exists>config index entries. readGateConfig lc configPath configRead = Inr config \<and> readIndex = Inr (Some index) \<and> readMetrics = Inr entries
    \<and> bc_compatible (baselineCompatibilityOf (Some (gi_document index)) (as_fingerprint (gcf_analysisScope config)) (Some (gcf_shapesFingerprint config)))
    \<and> unsupportedMetricRules (configuredRules config) = []
    \<and> list_all (\<lambda>m. gm_maxFuncBranch m \<noteq> None \<and> gm_language m \<noteq> None \<and> policyCount mm config m = 1) (productionMetricsOf config entries)
    \<and> list_all (\<lambda>q. \<not> pol_enforce q \<or> selectedFor mm q (productionMetricsOf config entries) = [] \<or> policyP95 config index q \<noteq> None)
        (gcf_structuralPolicies config)"
proof -
  obtain config index entries p where o: "readGateConfig lc configPath configRead = Inr config" "readIndex = Inr (Some index)" "readMetrics = Inr entries"
    "bc_reason (baselineCompatibilityOf (Some (gi_document index)) (as_fingerprint (gcf_analysisScope config)) (Some (gcf_shapesFingerprint config))) = None"
    "unsupportedMetricRules (configuredRules config) = []"
    "metricsObstacle mm config (productionMetricsOf config entries) = None"
    "judge_policies compile mm config index (productionMetricsOf config entries) no_progress (gcf_structuralPolicies config) = step_ok p"
    using gateApp_judged [OF assms] by metis
  have "list_all (\<lambda>m. gm_maxFuncBranch m \<noteq> None \<and> gm_language m \<noteq> None \<and> policyCount mm config m = 1) (productionMetricsOf config entries)"
  proof -
    show ?thesis using o(6)
      by (auto simp: metricsObstacle_def Let_def list_ex_iff list_all_iff filter_empty_conv split: if_splits) (metis Suc_lessI)+
  qed
  moreover have "list_all (\<lambda>q. \<not> pol_enforce q \<or> selectedFor mm q (productionMetricsOf config entries) = [] \<or> policyP95 config index q \<noteq> None)
        (gcf_structuralPolicies config)"
    using judge_policies_ok [OF o(7)] by (auto simp: list_all_iff)
  moreover have "bc_compatible (baselineCompatibilityOf (Some (gi_document index)) (as_fingerprint (gcf_analysisScope config)) (Some (gcf_shapesFingerprint config)))"
    using o(4) by (simp add: baselineCompatibilityOf_def baselineCompatibility_def Let_def)
  ultimately show ?thesis using o(1,2,3,5) by blast
qed

lemma gateOutput_code: "ga_verdict (gateOutput c b ms p) = Judged v \<Longrightarrow> ga_code (gateOutput c b ms p) = verdict_code v"
  by (auto simp: gateOutput_def Let_def)

text \<open>The exit code is 0, 1 or 2 for a judged output and 3 otherwise, an output is judged exactly when it has no
  reason of unavailability, and a configuration that cannot be accepted makes the effect die instead of an output.\<close>

theorem gate_exit_codes:
  "(case gateApp compile mm lc configPath indexPath configRead readIndex readMetrics report of
      exit_success out \<Rightarrow>
        (case ga_verdict out of
           Judged v \<Rightarrow> ga_code out = verdict_code v \<and> ga_code out < 3 \<and> ga_unavailableReason out = None \<and> ga_report out \<noteq> None
         | UNAVAILABLE \<Rightarrow> ga_code out = 3 \<and> ga_unavailableReason out \<noteq> None \<and> ga_report out = None)
    | exit_defect e \<Rightarrow> (\<exists>c. e = err_configuration c \<and> readGateConfig lc configPath configRead = Inl c))"
proof (cases "gateApp compile mm lc configPath indexPath configRead readIndex readMetrics report")
  case (exit_defect e)
  then show ?thesis by (auto simp: gateApp_def split: sum.splits gate_step.splits)
next
  case (exit_success out)
  have u: "ga_verdict (unavailable r d) = UNAVAILABLE \<and> ga_code (unavailable r d) = 3 \<and> ga_unavailableReason (unavailable r d) \<noteq> None \<and> ga_report (unavailable r d) = None" for r d
    by (simp add: unavailable_def)
  have c: "verdict_code v < 3" for v by (cases v) simp_all
  have stop: "\<exists>r d. u = unavailable r d" if "judge_policies compile mm config index ms progress ps = step_unavailable u" for config index ms progress ps u
    using that by (induction ps arbitrary: progress) (auto simp: judge_policy_def Let_def split: gate_step.splits option.splits sum.splits if_splits)
  show ?thesis
  proof (cases "\<exists>r d. out = unavailable r d")
    case True
    then show ?thesis using u exit_success by auto
  next
    case False
    then obtain config b ms p where "out = gateOutput config b ms p"
      using exit_success
      by (auto simp: gateApp_def gate_pipeline_def Let_def split: sum.splits gate_step.splits option.splits if_splits)
         (use stop in metis)
    then show ?thesis using exit_success c by (simp add: gateOutput_def Let_def)
  qed
qed

text \<open>A configuration error never becomes the diagnostic that \<open>gateDiagnosticFromError\<close> has for it.\<close>

theorem configuration_error_is_a_defect:
  "readGateConfig lc configPath configRead = Inl c \<Longrightarrow>
     gateApp compile mm lc configPath indexPath configRead readIndex readMetrics report = exit_defect (err_configuration c)"
  by (simp add: gateApp_def)

section \<open>A run\<close>

definition sample_core_policy :: StructuralPolicy where
  "sample_core_policy =
     \<lparr>pol_id = ''core'', pol_languages = [''go''],
      pol_scope = Some \<lparr>sps_include = Some [''src/**''], sps_exclude = None\<rparr>, pol_enforce = True,
      pol_rules = [sample_gate_rule, \<lparr>spr_name = ''w'', spr_condition = ''exposure'', spr_block = False\<rparr>],
      pol_crlStateWeights = DEFAULT_CRL_STATE_WEIGHTS\<rparr>"

definition sample_gate_config :: GateConfig where
  "sample_gate_config =
     \<lparr>gcf_allRules = [], gcf_structuralPolicies = [sample_core_policy],
      gcf_explicitStructuralPolicies = True,
      gcf_pathEntries = [\<lparr>pc_pattern = ''**'', pc_name = ''default'', pc_weight = None\<rparr>],
      gcf_crlStateWeights = DEFAULT_CRL_STATE_WEIGHTS, gcf_analysisScope = createAnalysisScope code_unit_cmp [''go''] [],
      gcf_shapesFingerprint = []\<rparr>"

lemma sample_config_read: "readGateConfig code_unit_cmp ''p'' (read_ok sample_config_doc) = Inr sample_gate_config"
proof -
  have "as_languages (createAnalysisScope code_unit_cmp [''go''] []) = [''go'']"
    by (simp add: createAnalysisScope_def Let_def sorted_uniq_def)
  then show ?thesis
    by (simp add: readGateConfig_def sample_config_doc_def sample_policy_doc_def sample_gate_config_def sample_core_policy_def sample_gate_rule_def parse_gate_config_def
    is_mapping_def field_def entries_of_def fileKindRulesOf_def
    bind_result_def asRules_def path_classes_of_def parsePathClasses_def projectShapesOfRead_def parseLanguageShapes_def shapesFingerprintOf_def map_keys_def parseStructuralPolicies_def elements_of_def
    with_index_def gate_languages_def text_of_def parsePolicy_def policy_id_ok_def is_lower_alpha_def is_digit_def
    policy_languages_def policy_mode_def policyScope_def patterns_def relative_pattern_def trim_def is_space_def isAbsolute_def starts_with_def
    toPosixPath_def as_rule_def written_def policyWeights_def Let_def sorted_uniq_def)
qed

definition sample_gate_index :: GateIndex where
  "sample_gate_index =
     \<lparr>gi_document = JObj [(''meta'', JObj
        [(''analysisScope'', JObj [(''fingerprint'', JStr (as_fingerprint (createAnalysisScope code_unit_cmp [''go''] []))), (''complete'', JBool True)]),
         (''snapshotSha256'', JStr ''s''), (''metricContractVersion'', JStr METRIC_CONTRACT_VERSION)])],
      gi_p95 = None, gi_calibration = None, gi_policyCalibrations = Some [(''core'', sample_state)]\<rparr>"

definition sample_baseline_entry :: BaselineEntry where
  "sample_baseline_entry = IndexEntry.extend (sample_entry ''src/a.go'' ''go'')
     (BaselineEntry.fields None None None None)"

lemma sample_compiles: "\<exists>r. cel_compile n ''crl_local'' = Inr r" "\<exists>r. cel_compile n ''exposure'' = Inr r"
proof -
  have t: "tokenize ''crl_local'' = Inr [TIdent ''crl_local'']" "tokenize ''exposure'' = Inr [TIdent ''exposure'']"
    by (simp_all add: tokenize.simps(2) [of "CHR ''c''"] tokenize.simps(2) [of "CHR ''e''"] isCelWhitespace_def isCelLogicalPair_def isCelLogicalChar_def isCelComparisonWindow_def
      isCelComparisonChar_def isCelDigitOrDot_def isCelIdentifierStart_def isCelIdentifierPart_def add_token_def)
  have "parse_all [TIdent i] = Inr (Truthy (CIdent i))" for i
    using parse_all_printed [of "Truthy (CIdent i)"] by simp
  then show "\<exists>r. cel_compile n ''crl_local'' = Inr r" "\<exists>r. cel_compile n ''exposure'' = Inr r"
    by (simp_all add: cel_compile_def parse_condition_def t)
qed

lemma sample_metric_facts:
  "gm_path (collectMetric sample_baseline_entry) = ''src/a.go''" "gm_language (collectMetric sample_baseline_entry) = Some ''go''"
  "gm_maxFuncBranch (collectMetric sample_baseline_entry) = Some 3" "gm_fileKind (collectMetric sample_baseline_entry) = Some fk_production"
  "gm_localBurdenFingerprint (collectMetric sample_baseline_entry) = None"
  by (simp_all add: collectMetric_def sample_baseline_entry_def sample_entry_def IndexEntry.defs BaselineEntry.defs)

lemma sample_scope_facts:
  "as_languages (gcf_analysisScope sample_gate_config) = [''go'']" "as_extensions (gcf_analysisScope sample_gate_config) = [''.go'']"
  by (simp_all add: sample_gate_config_def createAnalysisScope_def Let_def sorted_uniq_def extensionsForLanguages_def supportForLanguage_def LANGUAGE_SUPPORTS_def)

lemma sample_production:
  "productionMetricsOf sample_gate_config [(''src/a.go'', sample_baseline_entry)] = [collectMetric sample_baseline_entry]"
proof -
  have low: "to_lower (toPosixPath ''src/a.go'') = ''src/a.go''" by code_simp
  show ?thesis
    by (simp add: productionMetricsOf_def filterMetricsForScope_def sample_metric_facts effectiveFileKind_def isPathInAnalysisScope_def low
      sample_scope_facts Let_def ends_with_def SCAN_EXCLUDED_SEGMENTS_def starts_with_def)
qed

lemma sample_gate_run:
  "\<exists>out v. gateApp cel_compile (\<lambda>_ _. True) code_unit_cmp ''p'' ''i'' (read_ok sample_config_doc) (Inr (Some sample_gate_index))
     (Inr [(''src/a.go'', sample_baseline_entry)]) False = exit_success out \<and> ga_verdict out = Judged v"
proof -
  let ?m = "collectMetric sample_baseline_entry"
  let ?mm = "\<lambda>_ _. True"
  let ?pol = sample_core_policy
  note m = sample_metric_facts
  note scope = sample_scope_facts
  note metrics = sample_production
  have pols: "gcf_structuralPolicies sample_gate_config = [?pol]" "pol_enforce ?pol" "pol_id ?pol = ''core''"
    by (simp_all add: sample_gate_config_def sample_core_policy_def)
  have matches: "matchesStructuralPolicy ?mm ?pol (subjectOf ?m)"
    by (simp add: matchesStructuralPolicy_def matchesAny_def subjectOf_def m sample_core_policy_def Let_def)
  have base: "bc_reason (baselineCompatibilityOf (Some (gi_document sample_gate_index)) (as_fingerprint (gcf_analysisScope sample_gate_config))
      (Some (gcf_shapesFingerprint sample_gate_config))) = None"
    by (simp add: baselineCompatibilityOf_def baselineCompatibility_def incompatibilityReason_def shapesFingerprint_def subfield_def field_def entries_of_def
      text_of_def sample_gate_index_def sample_gate_config_def Let_def)
  have supported: "unsupportedMetricRules (configuredRules sample_gate_config) = []"
  proof -
    have "identifiersOutsideStrings ''exposure'' = [''exposure'']"
      by (simp add: identifiersOutsideStrings_def ident_start_def is_word_def is_alpha_def is_lower_alpha_def is_upper_alpha_def is_digit_def)
    then have "unsupportedCelVariablesInCondition ''exposure'' = []"
      by (simp add: unsupportedCelVariablesInCondition_def unsupported_variable_def celVariableDefinition_def celVariables_def cel_var_def)
    then show ?thesis using sample_rule_supported
      by (simp add: configuredRules_def sample_gate_config_def sample_core_policy_def unsupportedMetricRules_def split: if_splits)
  qed
  have count: "policyCount ?mm sample_gate_config ?m = 1" unfolding policyCount_def policiesForSubject_def pols(1) using matches by simp
  have obstacle: "metricsObstacle ?mm sample_gate_config [?m] = None"
    by (simp add: metricsObstacle_def count m Let_def)
  have selected: "selectedFor ?mm ?pol [?m] = [?m]" using matches by (simp add: selectedFor_def)
  have p95: "policyP95 sample_gate_config sample_gate_index ?pol = Some (sp_p95 (sample_profile ''g''))"
    by (simp add: policyP95_def policyProfiles_def sample_gate_index_def pols(3) sample_state_def gateCalibrationProfile_def)
       (simp add: sample_gate_config_def)
  have compiles: "compileRules cel_compile mode (pol_rules ?pol) \<noteq> Inl e" for mode e
    using sample_compiles(1) [of "''burden''"] sample_compiles(2) [of "''w''"]
    by (auto simp: sample_core_policy_def sample_gate_rule_def)
  have judged: "\<exists>r. gatePerFile cel_compile ?mm (pol_rules ?pol) ms paths opts = Inr r" for ms paths opts
    using compiles gatePerFile_Inl [of cel_compile ?mm "pol_rules ?pol" ms paths opts]
    by (cases "gatePerFile cel_compile ?mm (pol_rules ?pol) ms paths opts") auto
  have "calibrationShiftCandidates [?m] a b w = []" for a b w
    by (simp add: calibrationShiftCandidates_def m split: option.splits)
  then have shifts: "calibrationThresholdShifts cel_compile ?mm prof rules [?m] paths w = Inr []" for prof rules paths w
    by (simp add: calibrationThresholdShifts_def Let_def split: option.splits)
  obtain r where r: "gatePerFile cel_compile ?mm (pol_rules ?pol) [?m] (gcf_pathEntries sample_gate_config)
      \<lparr>go_p95 = Some (sp_p95 (sample_profile ''g'')), go_weights = Some (pol_crlStateWeights ?pol), go_mode = Some mode_enforce\<rparr> = Inr r"
    using judged by blast
  have "\<exists>p. judge_policies cel_compile ?mm sample_gate_config sample_gate_index [?m] no_progress (gcf_structuralPolicies sample_gate_config) = step_ok p"
    by (subst pols(1)) (simp add: judge_policy_def selected p95 pols(2) r shifts Let_def)
  then obtain p where p: "judge_policies cel_compile ?mm sample_gate_config sample_gate_index [?m] no_progress (gcf_structuralPolicies sample_gate_config) = step_ok p" ..
  have "gateApp cel_compile ?mm code_unit_cmp ''p'' ''i'' (read_ok sample_config_doc) (Inr (Some sample_gate_index))
     (Inr [(''src/a.go'', sample_baseline_entry)]) False = exit_success (gateOutput sample_gate_config False [?m] p)"
    by (simp add: gateApp_def gate_pipeline_def sample_config_read scope base supported metrics obstacle p Let_def)
  then show ?thesis by (simp add: gateOutput_def Let_def)
qed

theorem gate_verdict_is_firings_witness:
  "\<exists>out v. gateApp cel_compile (\<lambda>_ _. True) code_unit_cmp ''p'' ''i'' (read_ok sample_config_doc) (Inr (Some sample_gate_index))
     (Inr [(''src/a.go'', sample_baseline_entry)]) False = exit_success out \<and> ga_verdict out = Judged v
   \<and> v = verdict_of_firings (concat (map (policyFirings cel_compile (\<lambda>_ _. True) sample_gate_config sample_gate_index
       (productionMetricsOf sample_gate_config [(''src/a.go'', sample_baseline_entry)])) (gcf_structuralPolicies sample_gate_config)))"
proof -
  obtain out v where o: "gateApp cel_compile (\<lambda>_ _. True) code_unit_cmp ''p'' ''i'' (read_ok sample_config_doc) (Inr (Some sample_gate_index))
     (Inr [(''src/a.go'', sample_baseline_entry)]) False = exit_success out" "ga_verdict out = Judged v"
    using sample_gate_run by blast
  from gate_verdict_is_firings [OF o] show ?thesis
    using o by (intro exI [of _ out] exI [of _ v]) (simp add: sample_config_read Let_def)
qed

theorem gate_fails_closed_witness:
  "policyCount (\<lambda>_ _. True) sample_gate_config (collectMetric sample_baseline_entry) = 1
   \<and> policyP95 sample_gate_config sample_gate_index sample_core_policy \<noteq> None"
proof -
  obtain out v where o: "gateApp cel_compile (\<lambda>_ _. True) code_unit_cmp ''p'' ''i'' (read_ok sample_config_doc) (Inr (Some sample_gate_index))
     (Inr [(''src/a.go'', sample_baseline_entry)]) False = exit_success out" "ga_verdict out = Judged v"
    using sample_gate_run by blast
  have "matchesStructuralPolicy (\<lambda>_ _. True) sample_core_policy (subjectOf (collectMetric sample_baseline_entry))"
    by (simp add: matchesStructuralPolicy_def matchesAny_def subjectOf_def sample_metric_facts sample_core_policy_def Let_def)
  then have "selectedFor (\<lambda>_ _. True) sample_core_policy [collectMetric sample_baseline_entry] \<noteq> []" by (simp add: selectedFor_def)
  moreover have "gcf_structuralPolicies sample_gate_config = [sample_core_policy]" "pol_enforce sample_core_policy"
    by (simp_all add: sample_gate_config_def sample_core_policy_def)
  ultimately show ?thesis using gate_fails_closed [OF o] by (simp add: sample_config_read sample_production)
qed

end
