(* ===== verification/Advisory_Lock.thy ===== *)
theory Advisory_Lock
  imports Js_String
begin

text \<open>
  The advisory file lock (\<open>adapter/lock/LockFileStore.ts\<close>, \<open>AdvisoryLock.ts\<close>) under the interleaving of
  several processes. A process is a program counter with the local variables of \<open>acquire\<close>, \<open>release\<close> or a heartbeat;
  one step is one access to the file system, and any process may move next, crash, or the clock may
  advance. A file that is created but not written yet, or not readable, has no content. A heartbeat rewrites
  the file in one step. Failures of the disk are not modelled; process ids are not used again, and every lock id is new. Whether a holder is alive is asked with
  \<open>process.kill(pid, 0)\<close>, which throws for a process that does not exist and also for a running one that the
  caller may not signal (another user) or does not see (another machine or container): the argument \<open>signals\<close> says
  which process may signal which. Exclusion needs it everywhere; \<open>unsignallable_holder_is_taken_over\<close> shows what
  happens without it.
\<close>

section \<open>Files\<close>

record LockData =
  ld_pid :: nat
  ld_agentId :: string
  ld_heartbeat_ts :: nat
  ld_acquired_at :: nat
  ld_lock_id :: nat

type_synonym LockFile = "LockData option" \<comment> \<open>an existing file; \<open>None\<close>: without readable lock data\<close>

definition HEARTBEAT_TIMEOUT :: nat where
  "HEARTBEAT_TIMEOUT = 30000"

definition read_lock :: "LockFile option \<Rightarrow> LockData option" where
  "read_lock file = Option.bind file id"

definition owns :: "LockData \<Rightarrow> nat \<Rightarrow> bool" where
  "owns data lockId = (ld_lock_id data = lockId)"

text \<open>What process \<open>p\<close> learns of \<open>pid\<close>: the signal throws for a dead process and for one that it may not signal.\<close>

type_synonym signals = "nat \<Rightarrow> nat \<Rightarrow> bool"

definition isProcessAlive :: "signals \<Rightarrow> nat set \<Rightarrow> nat \<Rightarrow> nat \<Rightarrow> bool" where
  "isProcessAlive signals dead p pid = (pid \<notin> dead \<and> signals p pid)"

definition isZombie :: "signals \<Rightarrow> nat set \<Rightarrow> nat \<Rightarrow> LockData \<Rightarrow> nat \<Rightarrow> bool" where
  "isZombie signals dead p data now =
     (now > ld_heartbeat_ts data + HEARTBEAT_TIMEOUT \<and> \<not> isProcessAlive signals dead p (ld_pid data))"

text \<open>Where \<open>deleteOwned\<close> goes on to unlink the file.\<close>

definition owned_file :: "LockFile option \<Rightarrow> nat \<Rightarrow> bool" where
  "owned_file file lockId = (case read_lock file of None \<Rightarrow> False | Some data \<Rightarrow> owns data lockId)"

section \<open>Processes\<close>

text \<open>
  \<open>GuardCreate k\<close> to \<open>GuardUnlink\<close> are \<open>claimGuard\<close> at its attempt \<open>k\<close>, \<open>LockRead\<close> to \<open>LockWrite\<close> the body of \<open>acquire\<close>,
  \<open>GuardRelease\<close> and \<open>GuardDrop\<close> its \<open>finally\<close> with the result so far; \<open>g\<close> is the guard's data and \<open>d\<close> the lock's.
\<close>

datatype pc =
    Free
  | GuardCreate nat
  | GuardWrite LockData
  | GuardRead nat nat
  | GuardCheck nat nat
  | GuardUnlink nat
  | LockRead LockData
  | LockExists LockData "LockData option"
  | LockCheck LockData nat
  | LockUnlink LockData
  | LockCreate LockData
  | LockWrite LockData LockData
  | GuardRelease LockData "LockData option"
  | GuardDrop LockData "LockData option"
  | Held LockData
  | BeatRead LockData
  | BeatWrite LockData LockData
  | ReleaseRead LockData
  | ReleaseCheck LockData
  | ReleaseUnlink LockData
  | Refused

record LockWorld =
  lw_guard :: "LockFile option"
  lw_main :: "LockFile option"
  lw_now :: nat
  lw_next :: nat
  lw_dead :: "nat set"
  lw_pc :: "nat \<Rightarrow> pc"

definition goto :: "nat \<Rightarrow> pc \<Rightarrow> LockWorld \<Rightarrow> LockWorld" where
  "goto p c s = s\<lparr>lw_pc := (lw_pc s)(p := c)\<rparr>"

definition newData :: "(nat \<Rightarrow> string) \<Rightarrow> nat \<Rightarrow> LockWorld \<Rightarrow> LockData" where
  "newData agent p s = \<lparr>ld_pid = p, ld_agentId = agent p, ld_heartbeat_ts = lw_now s, ld_acquired_at = lw_now s, ld_lock_id = lw_next s\<rparr>"

definition after_finally :: "LockData option \<Rightarrow> pc" where
  "after_finally outcome = (case outcome of None \<Rightarrow> Refused | Some d \<Rightarrow> Held d)"

text \<open>The next access of a process that is in the middle of an operation.\<close>

definition step_of :: "signals \<Rightarrow> (nat \<Rightarrow> string) \<Rightarrow> nat \<Rightarrow> LockWorld \<Rightarrow> LockWorld" where
  "step_of signals agent p s =
     (case lw_pc s p of
        Free \<Rightarrow> s
      | GuardCreate k \<Rightarrow>
          if k \<ge> 3 then goto p Refused s
          else if lw_guard s = None
          then goto p (GuardWrite (newData agent p s)) (s\<lparr>lw_guard := Some None, lw_next := Suc (lw_next s)\<rparr>)
          else goto p (GuardRead k (lw_now s)) (s\<lparr>lw_next := Suc (lw_next s)\<rparr>)
      | GuardWrite g \<Rightarrow> goto p (LockRead g) (s\<lparr>lw_guard := Some (Some g)\<rparr>)
      | GuardRead k now \<Rightarrow>
          (case read_lock (lw_guard s) of
             None \<Rightarrow> goto p Refused s
           | Some e \<Rightarrow> if isZombie signals (lw_dead s) p e now then goto p (GuardCheck k (ld_lock_id e)) s else goto p Refused s)
      | GuardCheck k i \<Rightarrow> goto p (if owned_file (lw_guard s) i then GuardUnlink k else GuardCreate (Suc k)) s
      | GuardUnlink k \<Rightarrow>
          if lw_guard s = None then goto p Refused s else goto p (GuardCreate (Suc k)) (s\<lparr>lw_guard := None\<rparr>)
      | LockRead g \<Rightarrow> goto p (LockExists g (read_lock (lw_main s))) s
      | LockExists g existing \<Rightarrow>
          (case existing of
             None \<Rightarrow> goto p (if lw_main s = None then LockCreate g else GuardRelease g None) s
           | Some e \<Rightarrow> goto p (if isZombie signals (lw_dead s) p e (lw_now s) then LockCheck g (ld_lock_id e) else GuardRelease g None) s)
      | LockCheck g i \<Rightarrow> goto p (if owned_file (lw_main s) i then LockUnlink g else LockCreate g) s
      | LockUnlink g \<Rightarrow>
          if lw_main s = None then goto p (GuardRelease g None) s else goto p (LockCreate g) (s\<lparr>lw_main := None\<rparr>)
      | LockCreate g \<Rightarrow>
          if lw_main s = None
          then goto p (LockWrite g (newData agent p s)) (s\<lparr>lw_main := Some None, lw_next := Suc (lw_next s)\<rparr>)
          else goto p (GuardRelease g None) (s\<lparr>lw_next := Suc (lw_next s)\<rparr>)
      | LockWrite g d \<Rightarrow> goto p (GuardRelease g (Some d)) (s\<lparr>lw_main := Some (Some d)\<rparr>)
      | GuardRelease g outcome \<Rightarrow>
          goto p (if owned_file (lw_guard s) (ld_lock_id g) then GuardDrop g outcome else after_finally outcome) s
      | GuardDrop g outcome \<Rightarrow>
          if lw_guard s = None then goto p Refused s else goto p (after_finally outcome) (s\<lparr>lw_guard := None\<rparr>)
      | Held d \<Rightarrow> s
      | BeatRead d \<Rightarrow>
          (case read_lock (lw_main s) of
             None \<Rightarrow> goto p (Held d) s
           | Some c \<Rightarrow> goto p (if owns c (ld_lock_id d) then BeatWrite d c else Held d) s)
      | BeatWrite d c \<Rightarrow> goto p (Held d) (s\<lparr>lw_main := Some (Some (c\<lparr>ld_heartbeat_ts := lw_now s\<rparr>))\<rparr>)
      | ReleaseRead d \<Rightarrow>
          (case read_lock (lw_main s) of
             None \<Rightarrow> goto p Free s
           | Some c \<Rightarrow> goto p (if ld_pid c = p \<and> ld_agentId c = ld_agentId d \<and> ld_acquired_at c = ld_acquired_at d
                then ReleaseCheck d else Free) s)
      | ReleaseCheck d \<Rightarrow> goto p (if owned_file (lw_main s) (ld_lock_id d) then ReleaseUnlink d else Free) s
      | ReleaseUnlink d \<Rightarrow> goto p Free (s\<lparr>lw_main := None\<rparr>)
      | Refused \<Rightarrow> goto p Free s)"

datatype action = Step nat | Acquire nat | Beat nat | Release nat | Crash nat | Tick nat

fun held_data :: "pc \<Rightarrow> LockData option" where
  "held_data (Held d) = Some d"
| "held_data _ = None"

definition enabled :: "action \<Rightarrow> LockWorld \<Rightarrow> bool" where
  "enabled a s =
     (case a of
        Step p \<Rightarrow> p \<notin> lw_dead s
      | Acquire p \<Rightarrow> p \<notin> lw_dead s \<and> lw_pc s p = Free
      | Beat p \<Rightarrow> p \<notin> lw_dead s \<and> held_data (lw_pc s p) \<noteq> None
      | Release p \<Rightarrow> p \<notin> lw_dead s \<and> held_data (lw_pc s p) \<noteq> None
      | Crash p \<Rightarrow> p \<notin> lw_dead s
      | Tick n \<Rightarrow> True)"

definition perform :: "signals \<Rightarrow> (nat \<Rightarrow> string) \<Rightarrow> action \<Rightarrow> LockWorld \<Rightarrow> LockWorld" where
  "perform signals agent a s =
     (case a of
        Step p \<Rightarrow> step_of signals agent p s
      | Acquire p \<Rightarrow> goto p (GuardCreate 0) s
      | Beat p \<Rightarrow> (case held_data (lw_pc s p) of None \<Rightarrow> s | Some d \<Rightarrow> goto p (BeatRead d) s)
      | Release p \<Rightarrow> (case held_data (lw_pc s p) of None \<Rightarrow> s | Some d \<Rightarrow> goto p (ReleaseRead d) s)
      | Crash p \<Rightarrow> s\<lparr>lw_dead := insert p (lw_dead s)\<rparr>
      | Tick n \<Rightarrow> s\<lparr>lw_now := lw_now s + n\<rparr>)"

definition initial_world :: LockWorld where
  "initial_world = \<lparr>lw_guard = None, lw_main = None, lw_now = 0, lw_next = 0, lw_dead = {}, lw_pc = (\<lambda>_. Free)\<rparr>"

inductive reachable :: "signals \<Rightarrow> (nat \<Rightarrow> string) \<Rightarrow> LockWorld \<Rightarrow> bool" for signals agent where
  start: "reachable signals agent initial_world"
| act: "reachable signals agent s \<Longrightarrow> enabled a s \<Longrightarrow> reachable signals agent (perform signals agent a s)"

text \<open>A process has the lock between the return of \<open>acquire\<close> and the call of \<open>release\<close>.\<close>

definition holds :: "LockWorld \<Rightarrow> nat \<Rightarrow> bool" where
  "holds s p = (case lw_pc s p of Held _ \<Rightarrow> True | BeatRead _ \<Rightarrow> True | BeatWrite _ _ \<Rightarrow> True | _ \<Rightarrow> False)"

section \<open>Mutual exclusion without crashes\<close>

fun in_guard :: "pc \<Rightarrow> bool" where
  "in_guard (GuardWrite _) = True"
| "in_guard (LockRead _) = True"
| "in_guard (LockExists _ _) = True"
| "in_guard (LockCheck _ _) = True"
| "in_guard (LockUnlink _) = True"
| "in_guard (LockCreate _) = True"
| "in_guard (LockWrite _ _) = True"
| "in_guard (GuardRelease _ _) = True"
| "in_guard (GuardDrop _ _) = True"
| "in_guard _ = False"

fun in_main :: "pc \<Rightarrow> bool" where
  "in_main (LockWrite _ _) = True"
| "in_main (GuardRelease _ (Some _)) = True"
| "in_main (GuardDrop _ (Some _)) = True"
| "in_main (Held _) = True"
| "in_main (BeatRead _) = True"
| "in_main (BeatWrite _ _) = True"
| "in_main (ReleaseRead _) = True"
| "in_main (ReleaseCheck _) = True"
| "in_main (ReleaseUnlink _) = True"
| "in_main _ = False"

fun takes_over :: "pc \<Rightarrow> bool" where
  "takes_over (GuardCheck _ _) = True"
| "takes_over (GuardUnlink _) = True"
| "takes_over (LockCheck _ _) = True"
| "takes_over (LockUnlink _) = True"
| "takes_over _ = False"

definition exclusive :: "LockWorld \<Rightarrow> bool" where
  "exclusive s =
     ((\<forall>p q. in_guard (lw_pc s p) \<and> in_guard (lw_pc s q) \<longrightarrow> p = q)
      \<and> (\<forall>p. in_guard (lw_pc s p) \<longrightarrow> lw_guard s \<noteq> None)
      \<and> (\<forall>p q. in_main (lw_pc s p) \<and> in_main (lw_pc s q) \<longrightarrow> p = q)
      \<and> (\<forall>p. in_main (lw_pc s p) \<longrightarrow> lw_main s \<noteq> None)
      \<and> (\<forall>p. \<not> takes_over (lw_pc s p)))"

lemma goto_simps [simp]:
  "lw_pc (goto p c s) q = (if q = p then c else lw_pc s q)" "lw_guard (goto p c s) = lw_guard s" "lw_main (goto p c s) = lw_main s"
  "lw_dead (goto p c s) = lw_dead s" "lw_now (goto p c s) = lw_now s" "lw_next (goto p c s) = lw_next s"
  by (simp_all add: goto_def)

lemma no_zombie: "\<forall>p q. signals p q \<Longrightarrow> \<not> isZombie signals {} p e n"
  by (simp add: isZombie_def isProcessAlive_def)

lemma exclusive_update:
  assumes "exclusive s" "lw_pc s' = (lw_pc s)(p := c)" "\<not> takes_over c"
    and "in_guard c \<Longrightarrow> lw_guard s' \<noteq> None \<and> (in_guard (lw_pc s p) \<or> lw_guard s = None)"
    and "lw_guard s' = None \<Longrightarrow> lw_guard s = None \<or> in_guard (lw_pc s p)"
    and "in_main c \<Longrightarrow> lw_main s' \<noteq> None \<and> (in_main (lw_pc s p) \<or> lw_main s = None)"
    and "lw_main s' = None \<Longrightarrow> lw_main s = None \<or> in_main (lw_pc s p)"
  shows "exclusive s'"
proof -
  have g: "q = r" if "in_guard (lw_pc s' q)" "in_guard (lw_pc s' r)" for q r
    using that assms(1,2,4) unfolding exclusive_def by (auto split: if_splits)
  have gf: "lw_guard s' \<noteq> None" if "in_guard (lw_pc s' q)" for q
    using that assms(1,2,4,5) unfolding exclusive_def by (auto split: if_splits) (metis not_None_eq)+
  have m: "q = r" if "in_main (lw_pc s' q)" "in_main (lw_pc s' r)" for q r
    using that assms(1,2,6) unfolding exclusive_def by (auto split: if_splits)
  have mf: "lw_main s' \<noteq> None" if "in_main (lw_pc s' q)" for q
    using that assms(1,2,6,7) unfolding exclusive_def by (auto split: if_splits) (metis not_None_eq)+
  have t: "\<not> takes_over (lw_pc s' q)" for q
    using assms(1-3) unfolding exclusive_def by auto
  show ?thesis unfolding exclusive_def using g gf m mf t by blast
qed

lemma pc_goto [simp]: "lw_pc (goto p c s) = (lw_pc s)(p := c)"
  by (simp add: goto_def)

lemma exclusive_pc: "exclusive s \<Longrightarrow> \<not> takes_over (lw_pc s p)"
  by (simp add: exclusive_def)

lemma exclusive_files: "exclusive s \<Longrightarrow> in_guard (lw_pc s p) \<Longrightarrow> lw_guard s \<noteq> None"
  "exclusive s \<Longrightarrow> in_main (lw_pc s p) \<Longrightarrow> lw_main s \<noteq> None"
  unfolding exclusive_def by blast+

lemma step_keeps_exclusive:
  assumes s: "exclusive s" and dead: "lw_dead s = {}" and signals: "\<forall>p q. signals p q"
  shows "exclusive (step_of signals agent p s)"
  using exclusive_pc [OF s, of p] exclusive_files [OF s, of p]
  by (cases "lw_pc s p")
     (auto simp: step_of_def dead no_zombie [OF signals] after_finally_def s split: option.splits intro!: exclusive_update [OF s, of _ p])


lemma held_data_Some: "held_data c = Some d \<longleftrightarrow> c = Held d"
  by (cases c) simp_all

lemma perform_keeps_exclusive:
  assumes s: "exclusive s" and a: "enabled a s" and dead: "lw_dead (perform signals agent a s) = {}" "lw_dead s = {}"
    and signals: "\<forall>p q. signals p q"
  shows "exclusive (perform signals agent a s)"
proof (cases a)
  case (Step p)
  then show ?thesis using step_keeps_exclusive [OF s dead(2) signals] by (simp add: perform_def)
next
  case (Acquire p)
  then have "lw_pc s p = Free" using a by (simp add: enabled_def)
  then show ?thesis unfolding perform_def Acquire action.case
    by (intro exclusive_update [OF s, of _ p "GuardCreate 0"]) simp_all
next
  case (Beat p)
  then obtain d where d: "lw_pc s p = Held d" using a by (auto simp: enabled_def held_data_Some)
  then show ?thesis unfolding perform_def Beat action.case
    using exclusive_files(2) [OF s, of p] by (intro exclusive_update [OF s, of _ p "BeatRead d"]) simp_all
next
  case (Release p)
  then obtain d where d: "lw_pc s p = Held d" using a by (auto simp: enabled_def held_data_Some)
  then show ?thesis unfolding perform_def Release action.case
    using exclusive_files(2) [OF s, of p] by (intro exclusive_update [OF s, of _ p "ReleaseRead d"]) simp_all
next
  case (Crash p)
  then show ?thesis using dead(1) by (simp add: perform_def)
next
  case (Tick n)
  then show ?thesis using s by (simp add: perform_def exclusive_def)
qed

lemma dead_grows: "lw_dead s \<subseteq> lw_dead (perform signals agent a s)"
  by (auto simp: perform_def step_of_def split: action.splits pc.splits option.splits)

lemma reachable_exclusive:
  assumes "reachable signals agent s" "lw_dead s = {}" and signals: "\<forall>p q. signals p q"
  shows "exclusive s"
  using assms(1,2)
proof (induction rule: reachable.induct)
  case start
  then show ?case by (simp add: exclusive_def initial_world_def)
next
  case (act s a)
  then have "lw_dead s = {}" using dead_grows [of s signals agent a] by blast
  with act show ?case using perform_keeps_exclusive [OF _ _ _ _ signals] by blast
qed

section \<open>Properties\<close>

lemma holds_in_main: "holds s p \<Longrightarrow> in_main (lw_pc s p)"
  by (auto simp: holds_def split: pc.splits)

text \<open>C6: As long as no process has crashed, at most one process has the lock, however the processes interleave
  and however late the heartbeats are, provided that every process may signal every other one (all run on one
  machine for one user).\<close>

theorem mutual_exclusion:
  assumes "reachable signals agent s" "lw_dead s = {}" "\<forall>p q. signals p q" "holds s p" "holds s q"
  shows "p = q"
  using reachable_exclusive [OF assms(1-3)] assms(4,5) holds_in_main unfolding exclusive_def by blast

section \<open>Schedules\<close>

fun schedule :: "signals \<Rightarrow> (nat \<Rightarrow> string) \<Rightarrow> action list \<Rightarrow> LockWorld \<Rightarrow> LockWorld option" where
  "schedule signals agent [] s = Some s"
| "schedule signals agent (a # as) s = (if enabled a s then schedule signals agent as (perform signals agent a s) else None)"

lemma schedule_append: "schedule signals agent (as @ bs) s = Option.bind (schedule signals agent as s) (schedule signals agent bs)"
  by (induction as arbitrary: s) simp_all

lemma schedule_reachable: "reachable signals agent s \<Longrightarrow> schedule signals agent as s = Some t \<Longrightarrow> reachable signals agent t"
  by (induction as arbitrary: s) (auto split: if_splits intro: reachable.act)

text \<open>Process 0 acquires the lock and crashes before it has given the guard back; after the timeout processes 1 and 2
  find both files left behind and take them over at the same time.\<close>

definition crash_schedule :: "action list" where
  "crash_schedule = [Acquire 0, Step 0, Step 0, Step 0, Step 0, Step 0, Step 0, Crash 0, Tick 30001]"

definition takeover_schedule :: "action list" where
  "takeover_schedule = [Acquire 1, Step 1, Step 1, Step 1, Acquire 2, Step 2, Step 2, Step 2,
     Step 1, Step 1, Step 1, Step 2, Step 2, Step 2]"

definition collision_schedule :: "action list" where
  "collision_schedule = [Step 1, Step 1, Step 2, Step 2, Step 1, Step 2, Step 1, Step 1, Step 1, Step 2, Step 2, Step 2,
     Step 1, Step 2, Step 2]"

text \<open>After a crash the lock can have two holders: taking a stale file over reads it first and removes it
  later, and by then it may be the file of the other process.\<close>

theorem takeover_breaks_exclusion:
  "\<exists>s. reachable (\<lambda>_ _. True) (\<lambda>_. []) s \<and> holds s 1 \<and> holds s 2"
proof -
  have "\<exists>s. schedule (\<lambda>_ _. True) (\<lambda>_. []) (crash_schedule @ takeover_schedule @ collision_schedule) initial_world = Some s \<and> holds s 1 \<and> holds s 2"
    by (simp add: crash_schedule_def takeover_schedule_def collision_schedule_def enabled_def perform_def step_of_def goto_def initial_world_def newData_def
      read_lock_def owned_file_def owns_def isZombie_def isProcessAlive_def HEARTBEAT_TIMEOUT_def after_finally_def holds_def)
  then show ?thesis using schedule_reachable [OF reachable.start] by blast
qed

definition acquire_schedule :: "nat \<Rightarrow> action list" where
  "acquire_schedule p = [Acquire p, Step p, Step p, Step p, Step p, Step p, Step p, Step p, Step p]"

definition release_schedule :: "nat \<Rightarrow> action list" where
  "release_schedule p = [Release p, Step p, Step p, Step p]"

lemma acquire_run:
  assumes "lw_guard s = None" "lw_main s = None" "p \<notin> lw_dead s" "lw_pc s p = Free"
  shows "\<exists>t d. schedule signals agent (acquire_schedule p) s = Some t \<and> lw_pc t = (lw_pc s)(p := Held d) \<and> holds t p \<and> lw_guard t = None
    \<and> lw_main t = Some (Some d) \<and> ld_pid d = p
    \<and> schedule signals agent (release_schedule p) t = Some (s\<lparr>lw_next := lw_next s + 2\<rparr>)"
  using assms
  by (simp add: acquire_schedule_def release_schedule_def enabled_def perform_def step_of_def goto_def newData_def
      read_lock_def owned_file_def owns_def after_finally_def holds_def fun_upd_idem)

text \<open>A process that finds no files gets the lock when it is left alone and has given the guard back by then; releasing it
  removes the file, so the next process finds none either.\<close>

theorem acquire_and_release:
  assumes "lw_guard s = None" "lw_main s = None" "p \<notin> lw_dead s" "lw_pc s p = Free"
  shows "\<exists>t d. schedule signals agent (acquire_schedule p) s = Some t \<and> lw_pc t = (lw_pc s)(p := Held d) \<and> holds t p \<and> lw_guard t = None
    \<and> lw_main t = Some (Some d) \<and> ld_pid d = p
    \<and> schedule signals agent (release_schedule p) t = Some (s\<lparr>lw_next := lw_next s + 2\<rparr>)"
  using assms by (rule acquire_run)

theorem acquire_and_release_witness:
  "\<exists>t d. schedule (\<lambda>_ _. True) (\<lambda>_. ''agent'') (acquire_schedule 1) initial_world = Some t \<and> lw_main t = Some (Some d) \<and> ld_pid d = 1"
  using acquire_and_release [of initial_world 1 "\<lambda>_ _. True" "\<lambda>_. ''agent''"] by (auto simp: initial_world_def)

text \<open>A process left alone also takes over a lock whose heartbeat is older than the timeout when its holder is dead
  or cannot be signalled.\<close>

definition recover_schedule :: "nat \<Rightarrow> action list" where
  "recover_schedule p = acquire_schedule p @ [Step p, Step p]"

theorem recover_stale_lock:
  assumes "lw_guard s = None" "lw_main s = Some (Some e)" "ld_pid e \<in> lw_dead s \<or> \<not> signals p (ld_pid e)" "ld_heartbeat_ts e + HEARTBEAT_TIMEOUT < lw_now s"
    and "p \<notin> lw_dead s" "lw_pc s p = Free"
  shows "\<exists>t d. schedule signals agent (recover_schedule p) s = Some t \<and> lw_pc t = (lw_pc s)(p := Held d) \<and> lw_guard t = None
    \<and> lw_main t = Some (Some d) \<and> ld_pid d = p"
  using assms
  by (simp add: recover_schedule_def acquire_schedule_def enabled_def perform_def step_of_def goto_def newData_def isZombie_def isProcessAlive_def
      read_lock_def owned_file_def owns_def after_finally_def holds_def)

text \<open>No crash is needed when a process may not signal the holder: process 0 has the lock and its heartbeat is late
  (the timer waits for its event loop), process 1 takes the signal's refusal for death, and both have the lock.\<close>

theorem unsignallable_holder_is_taken_over:
  "\<exists>s. reachable (\<lambda>p q. p = q) (\<lambda>_. []) s \<and> lw_dead s = {} \<and> holds s 0 \<and> holds s 1"
proof -
  have "\<exists>s. schedule (\<lambda>p q. p = q) (\<lambda>_. []) (acquire_schedule 0 @ [Tick 30001] @ recover_schedule 1) initial_world = Some s
      \<and> lw_dead s = {} \<and> holds s 0 \<and> holds s 1"
    by (simp add: recover_schedule_def acquire_schedule_def enabled_def perform_def step_of_def goto_def initial_world_def newData_def
      read_lock_def owned_file_def owns_def isZombie_def isProcessAlive_def HEARTBEAT_TIMEOUT_def after_finally_def holds_def)
  then show ?thesis using schedule_reachable [OF reachable.start] by blast
qed

theorem mutual_exclusion_witness:
  "\<exists>s. reachable (\<lambda>_ _. True) (\<lambda>_. ''agent'') s \<and> {q. holds s q} = {1}"
proof -
  obtain t d where t: "schedule (\<lambda>_ _. True) (\<lambda>_. ''agent'') (acquire_schedule 1) initial_world = Some t" "holds t 1"
      "schedule (\<lambda>_ _. True) (\<lambda>_. ''agent'') (release_schedule 1) t = Some (initial_world\<lparr>lw_next := lw_next initial_world + 2\<rparr>)"
    using acquire_run [of initial_world 1 "\<lambda>_ _. True" "\<lambda>_. ''agent''"] by (auto simp: initial_world_def)
  have r: "reachable (\<lambda>_ _. True) (\<lambda>_. ''agent'') t" by (rule schedule_reachable [OF reachable.start t(1)])
  have mono: "schedule signals agent as s = Some u \<Longrightarrow> lw_dead s \<subseteq> lw_dead u" for signals agent as s u
    by (induction as arbitrary: s) (use dead_grows in \<open>fastforce split: if_splits\<close>)+
  have "lw_dead t = {}" using mono [OF t(3)] by (simp add: initial_world_def)
  then show ?thesis using mutual_exclusion [OF r] t(2) r by blast
qed

end
