(* ===== verification/Lsp_Wire.thy ===== *)
theory Lsp_Wire
  imports Js_Number
begin

text \<open>
  The wire of a language server (\<open>lsp/jsonRpc.ts\<close>) and the replies of the client
  (\<open>adapter/lsp/LspIncomingMessages.ts\<close>). A buffer is a list of bytes. \<open>JSON.stringify\<close> with its encoding is the argument
  \<open>render\<close>, decoding with \<open>JSON.parse\<close> the argument \<open>parse\<close> (\<open>Inl\<close> the message of the error when it throws).
\<close>

section \<open>Messages\<close>

datatype RpcId = IdNumber int | IdString string

record RpcError =
  rpc_code :: int
  rpc_errorMessage :: string

record JsonRpcMessage =
  rpc_version :: string
  rpc_id :: "RpcId option"
  rpc_method :: "string option"
  rpc_params :: "json option"
  rpc_result :: "json option"
  rpc_error :: "RpcError option"

definition CR :: char where "CR = CHR 0x0D"
definition LF :: char where "LF = CHR 0x0A"

definition separator :: string where
  "separator = [CR, LF, CR, LF]"

definition encodeJsonRpc :: "(JsonRpcMessage \<Rightarrow> string) \<Rightarrow> JsonRpcMessage \<Rightarrow> string" where
  "encodeJsonRpc render message =
     (let body = render message in ''Content-Length: '' @ show_nat (length body) @ separator @ body)"

section \<open>Frames\<close>

text \<open>\<open>indexOf(separator)\<close>: the bytes before and behind the first one.\<close>

fun split_separator :: "string \<Rightarrow> (string \<times> string) option" where
  "split_separator [] = None"
| "split_separator (c # s) =
     (if starts_with (c # s) separator then Some ([], drop 4 (c # s))
      else map_option (\<lambda>(h, r). (c # h, r)) (split_separator s))"

text \<open>Decoding as ASCII drops the highest bit.\<close>

definition ascii :: "string \<Rightarrow> string" where
  "ascii s = map (\<lambda>c. char_of (code c mod 128 :: nat)) s"

definition line_end :: "char \<Rightarrow> bool" where
  "line_end c = (c = CR \<or> c = LF)"

text \<open>\<open>/Content-Length:\s*(\d+)\s*$/im\<close> at the start of a line.\<close>

definition header_here :: "string \<Rightarrow> string option" where
  "header_here s =
     (if starts_with (to_lower s) ''content-length:'' then
        (let r = dropWhile is_space (drop 15 s);
             digits = takeWhile is_digit r;
             rest = dropWhile is_digit r
         in only_if (digits \<noteq> [] \<and> (list_ex line_end (takeWhile is_space rest) \<or> dropWhile is_space rest = [])) digits)
      else None)"

fun header_scan :: "bool \<Rightarrow> string \<Rightarrow> string option" where
  "header_scan start [] = None"
| "header_scan start (c # s) =
     or_option (if start then header_here (c # s) else None) (header_scan (line_end c) s)"

definition content_length :: "string \<Rightarrow> nat option" where
  "content_length header =
     Option.bind (header_scan True (ascii header)) (\<lambda>d. only_if (nat_of_digits d \<le> 9007199254740991) (nat_of_digits d))"

lemma starts_with_take: "starts_with s p \<Longrightarrow> s = p @ drop (length p) s"
  by (metis append_take_drop_id starts_with_def)

lemma starts_with_prefix: "starts_with (p @ t) p"
  by (simp add: starts_with_def)

lemma starts_with_extended: "starts_with s p \<Longrightarrow> starts_with (s @ t) p"
  by (metis append_assoc starts_with_take starts_with_prefix)

lemma starts_with_shorter: "starts_with (s @ t) p \<Longrightarrow> length p \<le> length s \<Longrightarrow> starts_with s p"
  by (simp add: starts_with_def)

lemma length_separator [simp]: "length separator = 4"
  by (simp add: separator_def)

lemma split_separator_length: "split_separator s = Some (h, r) \<Longrightarrow> s = h @ separator @ r"
proof (induction s arbitrary: h)
  case (Cons c s)
  show ?case
  proof (cases "starts_with (c # s) separator")
    case True
    then have "h = []" "r = drop 4 (c # s)" using Cons.prems by (simp_all del: drop_Suc_Cons)
    then show ?thesis using starts_with_take [OF True] by simp
  next
    case False
    then show ?thesis using Cons by auto
  qed
qed simp

function (sequential) decodeJsonRpc :: "(string \<Rightarrow> string + JsonRpcMessage) \<Rightarrow> string \<Rightarrow> string + JsonRpcMessage list \<times> string" where
  "decodeJsonRpc parse input =
     (case split_separator input of
        None \<Rightarrow> Inr ([], input)
      | Some (header, rest) \<Rightarrow>
          (case content_length header of
             None \<Rightarrow> Inl ''LSP message has no valid Content-Length header''
           | Some n \<Rightarrow>
               if length rest < n then Inr ([], input)
               else
                 (case parse (take n rest) of
                    Inl e \<Rightarrow> Inl e
                  | Inr message \<Rightarrow>
                      if rpc_version message \<noteq> ''2.0'' then Inl ''LSP message is not JSON-RPC 2.0''
                      else
                        (case decodeJsonRpc parse (drop n rest) of
                           Inl e \<Rightarrow> Inl e
                         | Inr (messages, remaining) \<Rightarrow> Inr (message # messages, remaining)))))"
  by pat_completeness auto
termination
  by (relation "measure (length \<circ> snd)") (auto dest!: split_separator_length simp: separator_def)

declare decodeJsonRpc.simps [simp del]

section \<open>Replies\<close>

definition defaultServerRequestResult :: "string \<Rightarrow> json option \<Rightarrow> json" where
  "defaultServerRequestResult m params =
     (if m = ''workspace/configuration'' then
        (case Option.bind params (\<lambda>p. case p of JObj kvs \<Rightarrow> map_of kvs ''items'' | _ \<Rightarrow> None) of
           Some (JArr items) \<Rightarrow> JArr (map (\<lambda>_. JNull) items)
         | _ \<Rightarrow> JArr [])
      else if m = ''workspace/workspaceFolders'' then JArr []
      else JNull)"

datatype LspAction = respond JsonRpcMessage | consumeResponse JsonRpcMessage | observeNotification JsonRpcMessage

definition reply_to :: "JsonRpcMessage \<Rightarrow> LspAction list" where
  "reply_to message =
     (case (rpc_method message, rpc_id message) of
        (Some m, Some i) \<Rightarrow>
          if m = [] then [consumeResponse message]
          else [respond \<lparr>rpc_version = ''2.0'', rpc_id = Some i, rpc_method = None, rpc_params = None,
                  rpc_result = Some (defaultServerRequestResult m (rpc_params message)), rpc_error = None\<rparr>]
      | (Some m, None) \<Rightarrow> (if m = [] then [] else [observeNotification message]) @ [consumeResponse message]
      | (None, _) \<Rightarrow> [consumeResponse message])"

definition dispatchIncomingLspMessages :: "JsonRpcMessage list \<Rightarrow> LspAction list" where
  "dispatchIncomingLspMessages messages = concat (map reply_to messages)"

section \<open>Chunks\<close>

text \<open>The session hands the remaining bytes of one chunk to the next.\<close>

fun receive :: "(string \<Rightarrow> string + JsonRpcMessage) \<Rightarrow> string \<Rightarrow> string list \<Rightarrow> string + JsonRpcMessage list \<times> string" where
  "receive parse buffer [] = Inr ([], buffer)"
| "receive parse buffer (chunk # chunks) =
     (case decodeJsonRpc parse (buffer @ chunk) of
        Inl e \<Rightarrow> Inl e
      | Inr (messages, remaining) \<Rightarrow>
          (case receive parse remaining chunks of
             Inl e \<Rightarrow> Inl e
           | Inr (further, tail) \<Rightarrow> Inr (messages @ further, tail)))"


section \<open>Properties\<close>

lemma split_separator_append: "split_separator s = Some (h, r) \<Longrightarrow> split_separator (s @ t) = Some (h, r @ t)"
proof (induction s arbitrary: h)
  case (Cons c s)
  show ?case
  proof (cases "starts_with (c # s) separator")
    case True
    then have "starts_with ((c # s) @ t) separator" by (rule starts_with_extended)
    moreover have "length separator \<le> length (c # s)"
      using starts_with_take [OF True] by (metis length_append le_add1)
    ultimately show ?thesis using True Cons.prems by (simp del: drop_Suc_Cons add: drop_append)
  next
    case False
    then obtain h' where h: "split_separator s = Some (h', r)" "h = c # h'" using Cons.prems by auto
    have "\<not> starts_with (c # s @ t) separator"
    proof
      assume "starts_with (c # s @ t) separator"
      moreover have "length separator \<le> length (c # s)"
        using split_separator_length [OF h(1)] by simp
      ultimately have "starts_with (c # s) separator"
        using starts_with_shorter [of "c # s" t separator] by simp
      with False show False ..
    qed
    with Cons.IH [OF h(1)] h(2) show ?thesis by simp
  qed
qed simp

lemma decode_append:
  "decodeJsonRpc parse (xs @ ys) =
     (case decodeJsonRpc parse xs of
        Inl e \<Rightarrow> Inl e
      | Inr (ms, rem) \<Rightarrow>
          (case decodeJsonRpc parse (rem @ ys) of Inl e \<Rightarrow> Inl e | Inr (ms', rem') \<Rightarrow> Inr (ms @ ms', rem')))"
proof (induction parse xs rule: decodeJsonRpc.induct)
  case (1 parse xs)
  let ?split = "\<lambda>r. case r of Inl e \<Rightarrow> Inl e | Inr (ms', rem') \<Rightarrow> Inr ([] @ ms', rem')"
  have triv: "?split r = r" for r :: "string + JsonRpcMessage list \<times> string" by (auto split: sum.splits)
  show ?case
  proof (cases "split_separator xs")
    case None
    then show ?thesis by (auto simp: decodeJsonRpc.simps [of parse xs] split: sum.splits)
  next
    case (Some hr)
    then obtain h r where hr: "split_separator xs = Some (h, r)" by (cases hr) auto
    note app = split_separator_append [OF hr, of ys]
    show ?thesis
    proof (cases "content_length h")
      case None
      then show ?thesis by (simp add: decodeJsonRpc.simps [of parse xs] decodeJsonRpc.simps [of parse "xs @ ys"] hr app)
    next
      case (Some n)
      show ?thesis
      proof (cases "length r < n")
        case True
        then show ?thesis using Some by (auto simp: decodeJsonRpc.simps [of parse xs] hr split: sum.splits)
      next
        case False
        then have n: "take n (r @ ys) = take n r" "drop n (r @ ys) = drop n r @ ys" "\<not> length (r @ ys) < n" by auto
        show ?thesis
        proof (cases "parse (take n r)")
          case (Inl e)
          then show ?thesis using Some False n
            by (simp add: decodeJsonRpc.simps [of parse xs] decodeJsonRpc.simps [of parse "xs @ ys"] hr app)
        next
          case (Inr m)
          show ?thesis
          proof (cases "rpc_version m = ''2.0''")
            case True
            then have v: "\<not> rpc_version m \<noteq> ''2.0''" by simp
            from 1 [OF hr refl \<open>content_length h = Some n\<close> False Inr v] show ?thesis
              using \<open>content_length h = Some n\<close> False n Inr True
              by (auto simp: decodeJsonRpc.simps [of parse xs] decodeJsonRpc.simps [of parse "xs @ ys"] hr app split: sum.splits)
          next
            case False
            then show ?thesis using \<open>content_length h = Some n\<close> \<open>\<not> length r < n\<close> n Inr
              by (simp add: decodeJsonRpc.simps [of parse xs] decodeJsonRpc.simps [of parse "xs @ ys"] hr app)
          qed
        qed
      qed
    qed
  qed
qed

lemma decode_remaining_stuck: "decodeJsonRpc parse xs = Inr (ms, rem) \<Longrightarrow> decodeJsonRpc parse rem = Inr ([], rem)"
proof (induction parse xs arbitrary: ms rule: decodeJsonRpc.induct)
  case (1 parse xs)
  show ?case
  proof (cases "rem = xs \<and> ms = []")
    case True
    then show ?thesis using 1(2) by simp
  next
    case False
    with 1(2) obtain h r n m ms' where step: "split_separator xs = Some (h, r)" "content_length h = Some n" "\<not> length r < n"
        "parse (take n r) = Inr m" "\<not> rpc_version m \<noteq> ''2.0''" "decodeJsonRpc parse (drop n r) = Inr (ms', rem)"
      by (subst (asm) decodeJsonRpc.simps) (auto split: option.splits prod.splits if_splits sum.splits)
    show ?thesis by (rule 1(1) [OF step(1) refl step(2-6)])
  qed
qed

lemma receive_decode:
  "decodeJsonRpc parse buffer = Inr ([], buffer) \<Longrightarrow> receive parse buffer chunks = decodeJsonRpc parse (buffer @ concat chunks)"
proof (induction chunks arbitrary: buffer)
  case (Cons c cs)
  show ?case
  proof (cases "decodeJsonRpc parse (buffer @ c)")
    case (Inl e)
    then show ?thesis using decode_append [of parse "buffer @ c" "concat cs"] by simp
  next
    case (Inr mr)
    then obtain ms rem where mr: "decodeJsonRpc parse (buffer @ c) = Inr (ms, rem)" by (cases mr) auto
    have "receive parse rem cs = decodeJsonRpc parse (rem @ concat cs)"
      by (rule Cons.IH [OF decode_remaining_stuck [OF mr]])
    then show ?thesis using mr decode_append [of parse "buffer @ c" "concat cs"] by simp
  qed
qed simp

text \<open>C21: However the bytes of the server are cut into chunks, the session reads the same messages and keeps the
  same incomplete rest, or fails with the same error (the messages handled before the failure may differ).\<close>

theorem chunks_do_not_matter: "concat chunks = concat chunks' \<Longrightarrow> receive parse [] chunks = receive parse [] chunks'"
  using receive_decode [of parse "[]"] by (simp add: decodeJsonRpc.simps [of parse "[]"])

theorem chunks_do_not_matter_witness:
  "receive (\<lambda>_. Inl ''Unexpected token'') [] [''Content-Length: 1'', separator @ ''x''] = receive (\<lambda>_. Inl ''Unexpected token'') [] [''Content'', ''-Length: 1'' @ separator, ''x'']"
  by (rule chunks_do_not_matter) simp

text \<open>A frame is read back whole, whatever bytes follow it.\<close>

lemma split_separator_header: "CR \<notin> set h \<Longrightarrow> split_separator (h @ separator @ r) = Some (h, r)"
proof (induction h)
  case Nil
  then show ?case by (simp add: separator_def starts_with_def)
next
  case (Cons c h)
  then have "c \<noteq> CR" "split_separator (h @ separator @ r) = Some (h, r)" by auto
  moreover from this have "\<not> starts_with (c # h @ separator @ r) separator" by (simp add: separator_def starts_with_def)
  ultimately show ?case by simp
qed

lemma ascii_same: "list_all (\<lambda>c. code c < (128 :: nat)) s \<Longrightarrow> ascii s = s"
  by (induction s) (simp_all add: ascii_def)

lemma digit_plain: "list_all is_digit d \<Longrightarrow> list_all (\<lambda>c. code c < (128 :: nat)) d \<and> CR \<notin> set d"
  by (induction d) (auto simp: is_digit_def CR_def)

lemma header_scan_start: "header_here s = Some d \<Longrightarrow> header_scan True s = Some d"
  by (cases s) (simp_all add: header_here_def to_lower_def starts_with_def)

lemma content_length_header: "n \<le> 9007199254740991 \<Longrightarrow> content_length (''Content-Length: '' @ show_nat n) = Some n"
proof -
  assume n: "n \<le> 9007199254740991"
  let ?d = "show_nat n"
  have d: "?d \<noteq> []" "list_all is_digit ?d" "nat_of_digits ?d = n" using show_nat_digits [of n] by auto
  have "ascii (''Content-Length: '' @ ?d) = ascii ''Content-Length: '' @ ascii ?d" by (simp add: ascii_def)
  also have "ascii ''Content-Length: '' = ''Content-Length: ''" by (rule ascii_same) simp
  also have "ascii ?d = ?d" using digit_plain [OF d(2)] by (simp add: ascii_same)
  finally have a: "ascii (''Content-Length: '' @ ?d) = ''Content-Length: '' @ ?d" .
  obtain c r where cr: "?d = c # r" "is_digit c" using d(1,2) by (cases ?d) auto
  have sp: "dropWhile is_space (CHR '' '' # ?d) = ?d" using cr by (auto simp: is_space_def is_digit_def)
  have tw: "takeWhile is_digit ?d = ?d" "dropWhile is_digit ?d = []" using d(2) by (auto simp: list_all_iff)
  have lower: "starts_with (to_lower (''Content-Length: '' @ ?d)) ''content-length:''"
    by (simp add: starts_with_def) code_simp
  have dr: "drop 15 (''Content-Length: '' @ ?d) = CHR '' '' # ?d" by simp
  have "header_here (''Content-Length: '' @ ?d) = Some ?d"
    unfolding header_here_def Let_def dr sp tw if_P [OF lower] using d(1) by simp
  then have "header_scan True (''Content-Length: '' @ ?d) = Some ?d" by (rule header_scan_start)
  then have "content_length (''Content-Length: '' @ ?d) =
      only_if (nat_of_digits ?d \<le> 9007199254740991) (nat_of_digits ?d)"
    unfolding content_length_def a by (simp only: bind.bind_lunit)
  then show ?thesis unfolding d(3) using n by simp
qed

text \<open>C22: A message written to the wire is the first one read from it, and what follows it is read as if it
  stood alone, provided the encoding is read back by the parser and is shorter than 2^53 bytes.\<close>

theorem frame_round_trip:
  assumes "parse (render message) = Inr message" "rpc_version message = ''2.0''" "length (render message) \<le> 9007199254740991"
  shows "decodeJsonRpc parse (encodeJsonRpc render message @ following) =
    (case decodeJsonRpc parse following of Inl e \<Rightarrow> Inl e | Inr (messages, remaining) \<Rightarrow> Inr (message # messages, remaining))"
proof -
  let ?n = "length (render message)"
  have cr: "CR \<notin> set (''Content-Length: '' @ show_nat ?n)"
    using digit_plain show_nat_digits [of ?n] by (simp add: CR_def)
  have "split_separator ((''Content-Length: '' @ show_nat ?n) @ separator @ render message @ following) =
      Some (''Content-Length: '' @ show_nat ?n, render message @ following)"
    by (rule split_separator_header [OF cr])
  then have s: "split_separator (encodeJsonRpc render message @ following) =
      Some (''Content-Length: '' @ show_nat ?n, render message @ following)"
    unfolding encodeJsonRpc_def Let_def append_assoc .
  show ?thesis
    unfolding decodeJsonRpc.simps [of parse "encodeJsonRpc render message @ following"] s
    unfolding option.case prod.case content_length_header [OF assms(3)]
    using assms by simp
qed

definition hello :: JsonRpcMessage where
  "hello = \<lparr>rpc_version = ''2.0'', rpc_id = Some (IdNumber 1), rpc_method = Some ''initialize'', rpc_params = None,
     rpc_result = None, rpc_error = None\<rparr>"

theorem frame_round_trip_witness:
  "decodeJsonRpc (\<lambda>_. Inr hello) (encodeJsonRpc (\<lambda>_. ''{}'') hello @ ''Con'') = Inr ([hello], ''Con'')"
proof -
  have "split_separator ''Con'' = None" by (simp add: separator_def CR_def starts_with_def)
  then have "decodeJsonRpc (\<lambda>_. Inr hello) ''Con'' = Inr ([], ''Con'')" by (simp add: decodeJsonRpc.simps [of _ "''Con''"])
  then show ?thesis
    using frame_round_trip [where parse = "\<lambda>_. Inr hello" and render = "\<lambda>_. ''{}''" and message = hello and following = "''Con''"]
    by (simp add: hello_def)
qed

end
