(* ===== verification/Lsp_Session.thy ===== *)
theory Lsp_Session
  imports Lsp_Wire
begin

text \<open>
  A session with a language server: the requests under way (\<open>adapter/lsp/LspRequestTracker.ts\<close>), the waits for
  diagnostics (\<open>LspDiagnosticReadiness.ts\<close>) and the handlers of \<open>NodeLspSession.ts\<close> that join them. A promise is
  the number of its call; the log of settlements says how each one ended. The timers that are armed are part of the
  state; \<open>write_error m\<close> is the error that writing \<open>m\<close> to the server throws, if it does.
\<close>

section \<open>Requests\<close>

datatype Settlement = Resolved "json option" | Rejected string

record LspRequestTracker =
  rt_nextId :: int
  rt_closed :: "string option"
  rt_pending :: "int list" \<comment> \<open>the keys of the map, in insertion order\<close>
  rt_timers :: "int list"
  rt_settled :: "(int \<times> Settlement) list"
  rt_written :: "JsonRpcMessage list"

definition createLspRequestTracker :: LspRequestTracker where
  "createLspRequestTracker =
     \<lparr>rt_nextId = 1, rt_closed = None, rt_pending = [], rt_timers = [], rt_settled = [], rt_written = []\<rparr>"

definition send :: "(JsonRpcMessage \<Rightarrow> string option) \<Rightarrow> JsonRpcMessage \<Rightarrow> LspRequestTracker \<Rightarrow> string + LspRequestTracker" where
  "send write_error message t =
     (case rt_closed t of
        Some reason \<Rightarrow> Inl reason
      | None \<Rightarrow>
          (case write_error message of
             Some e \<Rightarrow> Inl e
           | None \<Rightarrow> Inr (t\<lparr>rt_written := rt_written t @ [message]\<rparr>)))"

definition settle :: "int \<Rightarrow> Settlement \<Rightarrow> LspRequestTracker \<Rightarrow> LspRequestTracker" where
  "settle i outcome t =
     t\<lparr>rt_pending := filter (\<lambda>j. j \<noteq> i) (rt_pending t), rt_timers := filter (\<lambda>j. j \<noteq> i) (rt_timers t),
       rt_settled := rt_settled t @ [(i, outcome)]\<rparr>"

definition failAll :: "string \<Rightarrow> LspRequestTracker \<Rightarrow> LspRequestTracker" where
  "failAll reason t =
     t\<lparr>rt_closed := or_option (rt_closed t) (Some reason),
       rt_timers := filter (\<lambda>j. j \<notin> set (rt_pending t)) (rt_timers t),
       rt_settled := rt_settled t @ map (\<lambda>i. (i, Rejected reason)) (rt_pending t),
       rt_pending := []\<rparr>"

definition show_int :: "int \<Rightarrow> string" where
  "show_int i = (if i < 0 then ''-'' @ show_nat (nat (- i)) else show_nat (nat i))"

definition outcome_of :: "JsonRpcMessage \<Rightarrow> Settlement" where
  "outcome_of message =
     (case rpc_error message of
        Some e \<Rightarrow> Rejected (''LSP '' @ show_int (rpc_code e) @ '': '' @ rpc_errorMessage e)
      | None \<Rightarrow> Resolved (rpc_result message))"

definition consume_response :: "JsonRpcMessage \<Rightarrow> LspRequestTracker \<Rightarrow> LspRequestTracker" where
  "consume_response message t =
     (case rpc_id message of
        Some (IdNumber i) \<Rightarrow> if i \<in> set (rt_pending t) then settle i (outcome_of message) t else t
      | _ \<Rightarrow> t)"

definition request_message :: "int \<Rightarrow> string \<Rightarrow> json \<Rightarrow> JsonRpcMessage" where
  "request_message i m params =
     \<lparr>rpc_version = ''2.0'', rpc_id = Some (IdNumber i), rpc_method = Some m, rpc_params = Some params,
      rpc_result = None, rpc_error = None\<rparr>"

text \<open>The answer of a call: its number, or the reason of a session that is closed.\<close>

definition request :: "(JsonRpcMessage \<Rightarrow> string option) \<Rightarrow> string \<Rightarrow> json \<Rightarrow> LspRequestTracker \<Rightarrow> (string + int) \<times> LspRequestTracker" where
  "request write_error m params t =
     (case rt_closed t of
        Some reason \<Rightarrow> (Inl reason, t)
      | None \<Rightarrow>
          let i = rt_nextId t;
              waiting = t\<lparr>rt_nextId := i + 1, rt_timers := rt_timers t @ [i], rt_pending := rt_pending t @ [i]\<rparr>
          in (Inr i,
              case send write_error (request_message i m params) waiting of
                Inl e \<Rightarrow> settle i (Rejected e) waiting
              | Inr sent \<Rightarrow> sent))"

text \<open>The callback of a timer that is armed.\<close>

definition request_timeout :: "string \<Rightarrow> int \<Rightarrow> LspRequestTracker \<Rightarrow> LspRequestTracker" where
  "request_timeout m i t = (if i \<in> set (rt_timers t) then settle i (Rejected (''LSP '' @ m @ '' timed out'')) t else t)"

section \<open>Diagnostics\<close>

text \<open>\<open>/^file:\/\/\/([a-z]):/i\<close> on Windows.\<close>

definition diagnosticUriKey :: "bool \<Rightarrow> string \<Rightarrow> string" where
  "diagnosticUriKey win32 uri =
     (if win32 \<and> starts_with (to_lower uri) ''file:///'' \<and> length uri > 9 \<and> is_alpha (uri ! 8) \<and> uri ! 9 = CHR '':''
      then ''file:///'' @ to_lower (take 2 (drop 8 uri)) @ drop 10 uri
      else uri)"

text \<open>A waiter is its number with what it still waits for; \<open>dr_asked\<close> records what each call asked for.\<close>

record DiagnosticReadiness =
  dr_received :: "string list"
  dr_waiters :: "(nat \<times> string list) list"
  dr_timers :: "nat list"
  dr_answers :: "(nat \<times> bool) list"
  dr_asked :: "string list list"

definition createDiagnosticReadiness :: DiagnosticReadiness where
  "createDiagnosticReadiness = \<lparr>dr_received = [], dr_waiters = [], dr_timers = [], dr_answers = [], dr_asked = []\<rparr>"

definition resolveCompleted :: "bool \<Rightarrow> string \<Rightarrow> DiagnosticReadiness \<Rightarrow> DiagnosticReadiness" where
  "resolveCompleted win32 uri d =
     (let key = diagnosticUriKey win32 uri;
          left = map (\<lambda>(i, ks). (i, filter (\<lambda>k. k \<noteq> key) ks)) (dr_waiters d);
          done_ids = map fst (filter (\<lambda>(i, ks). ks = []) left)
      in d\<lparr>dr_received := (if key \<in> set (dr_received d) then dr_received d else dr_received d @ [key]),
           dr_waiters := filter (\<lambda>(i, ks). ks \<noteq> []) left,
           dr_timers := filter (\<lambda>i. i \<notin> set done_ids) (dr_timers d),
           dr_answers := dr_answers d @ map (\<lambda>i. (i, True)) done_ids\<rparr>)"

definition observe :: "bool \<Rightarrow> JsonRpcMessage \<Rightarrow> DiagnosticReadiness \<Rightarrow> DiagnosticReadiness" where
  "observe win32 message d =
     (if rpc_method message \<noteq> Some ''textDocument/publishDiagnostics'' then d
      else (case Option.bind (rpc_params message) (\<lambda>p. case p of JObj kvs \<Rightarrow> map_of kvs ''uri'' | _ \<Rightarrow> None) of
              Some (JStr uri) \<Rightarrow> resolveCompleted win32 uri d
            | _ \<Rightarrow> d))"

text \<open>Every call of \<open>wait\<close> is a new number.\<close>

definition wait :: "bool \<Rightarrow> string list \<Rightarrow> DiagnosticReadiness \<Rightarrow> DiagnosticReadiness" where
  "wait win32 uris d =
     (let i = length (dr_asked d);
          keys = map (diagnosticUriKey win32) uris;
          missing = remdups (filter (\<lambda>k. k \<notin> set (dr_received d)) keys);
          d' = d\<lparr>dr_asked := dr_asked d @ [keys]\<rparr>
      in if missing = [] then d'\<lparr>dr_answers := dr_answers d @ [(i, True)]\<rparr>
         else d'\<lparr>dr_waiters := dr_waiters d @ [(i, missing)], dr_timers := dr_timers d @ [i]\<rparr>)"

definition wait_timeout :: "nat \<Rightarrow> DiagnosticReadiness \<Rightarrow> DiagnosticReadiness" where
  "wait_timeout i d =
     (if i \<in> set (dr_timers d) then
        d\<lparr>dr_waiters := filter (\<lambda>(j, ks). j \<noteq> i) (dr_waiters d), dr_timers := filter (\<lambda>j. j \<noteq> i) (dr_timers d),
          dr_answers := dr_answers d @ [(i, False)]\<rparr>
      else d)"

definition close_waits :: "DiagnosticReadiness \<Rightarrow> DiagnosticReadiness" where
  "close_waits d =
     d\<lparr>dr_waiters := [], dr_timers := filter (\<lambda>i. i \<notin> set (map fst (dr_waiters d))) (dr_timers d),
       dr_answers := dr_answers d @ map (\<lambda>(i, ks). (i, False)) (dr_waiters d)\<rparr>"

section \<open>The session\<close>

record LspSession =
  ls_buffer :: string
  ls_tracker :: LspRequestTracker
  ls_diagnostics :: DiagnosticReadiness
  ls_closed :: bool
  ls_kills :: nat

definition startLspSession :: LspSession where
  "startLspSession = \<lparr>ls_buffer = [], ls_tracker = createLspRequestTracker, ls_diagnostics = createDiagnosticReadiness,
     ls_closed = False, ls_kills = 0\<rparr>"

definition failSession :: "string \<Rightarrow> LspSession \<Rightarrow> LspSession" where
  "failSession reason s =
     s\<lparr>ls_diagnostics := close_waits (ls_diagnostics s), ls_tracker := failAll reason (ls_tracker s)\<rparr>"

definition terminate :: "LspSession \<Rightarrow> LspSession" where
  "terminate s =
     (if ls_closed s then s
      else (failSession ''LSP session closed'' s)\<lparr>ls_closed := True, ls_kills := Suc (ls_kills s)\<rparr>)"

text \<open>The dispatch of the actions of a chunk stops at the first reply that cannot be sent.\<close>

fun dispatch :: "bool \<Rightarrow> (JsonRpcMessage \<Rightarrow> string option) \<Rightarrow> LspAction list \<Rightarrow> LspSession \<Rightarrow> string option \<times> LspSession" where
  "dispatch win32 write_error [] s = (None, s)"
| "dispatch win32 write_error (respond m # actions) s =
     (case send write_error m (ls_tracker s) of
        Inl e \<Rightarrow> (Some e, s)
      | Inr t \<Rightarrow> dispatch win32 write_error actions (s\<lparr>ls_tracker := t\<rparr>))"
| "dispatch win32 write_error (consumeResponse m # actions) s =
     dispatch win32 write_error actions (s\<lparr>ls_tracker := consume_response m (ls_tracker s)\<rparr>)"
| "dispatch win32 write_error (observeNotification m # actions) s =
     dispatch win32 write_error actions (s\<lparr>ls_diagnostics := observe win32 m (ls_diagnostics s)\<rparr>)"

definition data_failed :: "string \<Rightarrow> LspSession \<Rightarrow> LspSession" where
  "data_failed e s = s\<lparr>ls_tracker := failAll e (ls_tracker s), ls_kills := Suc (ls_kills s)\<rparr>"

definition on_data ::
  "(string \<Rightarrow> string + JsonRpcMessage) \<Rightarrow> bool \<Rightarrow> (JsonRpcMessage \<Rightarrow> string option) \<Rightarrow> string \<Rightarrow> LspSession \<Rightarrow> LspSession" where
  "on_data parse win32 write_error chunk s =
     (case decodeJsonRpc parse (ls_buffer s @ chunk) of
        Inl e \<Rightarrow> data_failed e s
      | Inr (messages, remaining) \<Rightarrow>
          (case dispatch win32 write_error (dispatchIncomingLspMessages messages) (s\<lparr>ls_buffer := remaining\<rparr>) of
             (None, s') \<Rightarrow> s'
           | (Some e, s') \<Rightarrow> data_failed e s'))"

text \<open>What can happen to a session, and its handler.\<close>

datatype LspEvent =
    Data string
  | ChildFailed string
  | ChildExited string
  | InputFailed string
  | Call string json
  | Notify JsonRpcMessage
  | Await "string list"
  | RequestTimer string int
  | WaitTimer nat
  | Close

definition handle ::
  "(string \<Rightarrow> string + JsonRpcMessage) \<Rightarrow> bool \<Rightarrow> (JsonRpcMessage \<Rightarrow> string option) \<Rightarrow> string \<Rightarrow> LspEvent \<Rightarrow> LspSession \<Rightarrow> LspSession" where
  "handle parse win32 write_error name event s =
     (case event of
        Data chunk \<Rightarrow> on_data parse win32 write_error chunk s
      | ChildFailed e \<Rightarrow> failSession e s
      | ChildExited exit_code \<Rightarrow> failSession (''LSP process '' @ name @ '' exited ('' @ exit_code @ '')'') s
      | InputFailed e \<Rightarrow> failSession e s
      | Call m params \<Rightarrow> s\<lparr>ls_tracker := snd (request write_error m params (ls_tracker s))\<rparr>
      | Notify m \<Rightarrow> (case send write_error m (ls_tracker s) of Inl e \<Rightarrow> s | Inr t \<Rightarrow> s\<lparr>ls_tracker := t\<rparr>)
      | Await uris \<Rightarrow> s\<lparr>ls_diagnostics := wait win32 uris (ls_diagnostics s)\<rparr>
      | RequestTimer m i \<Rightarrow> s\<lparr>ls_tracker := request_timeout m i (ls_tracker s)\<rparr>
      | WaitTimer i \<Rightarrow> s\<lparr>ls_diagnostics := wait_timeout i (ls_diagnostics s)\<rparr>
      | Close \<Rightarrow> terminate s)"

definition run_session ::
  "(string \<Rightarrow> string + JsonRpcMessage) \<Rightarrow> bool \<Rightarrow> (JsonRpcMessage \<Rightarrow> string option) \<Rightarrow> string \<Rightarrow> LspEvent list \<Rightarrow> LspSession \<Rightarrow> LspSession" where
  "run_session parse win32 write_error name events s = fold (handle parse win32 write_error name) events s"

section \<open>Invariants\<close>

definition tracker_ok :: "LspRequestTracker \<Rightarrow> bool" where
  "tracker_ok t =
     (distinct (rt_pending t) \<and> rt_timers t = rt_pending t \<and> distinct (map fst (rt_settled t))
      \<and> set (rt_pending t) \<inter> set (map fst (rt_settled t)) = {}
      \<and> set (rt_pending t) \<union> set (map fst (rt_settled t)) = {1..<rt_nextId t} \<and> 1 \<le> rt_nextId t
      \<and> (rt_closed t \<noteq> None \<longrightarrow> rt_pending t = []))"

lemma tracker_create: "tracker_ok createLspRequestTracker"
  by (simp add: tracker_ok_def createLspRequestTracker_def)

lemma tracker_settle: "tracker_ok t \<Longrightarrow> i \<in> set (rt_pending t) \<Longrightarrow> tracker_ok (settle i outcome t)"
  by (auto simp: tracker_ok_def settle_def)

lemma tracker_written: "tracker_ok (t\<lparr>rt_written := ms\<rparr>) = tracker_ok t"
  by (simp add: tracker_ok_def)

lemma send_written: "send w m t = Inr t' \<Longrightarrow> t' = t\<lparr>rt_written := rt_written t @ [m]\<rparr> \<and> rt_closed t = None"
  by (simp add: send_def split: option.splits)

lemma tracker_send: "tracker_ok t \<Longrightarrow> send w m t = Inr t' \<Longrightarrow> tracker_ok t'"
  by (drule send_written) (simp add: tracker_written)

lemma tracker_failAll: "tracker_ok t \<Longrightarrow> tracker_ok (failAll reason t)"
  by (auto simp: tracker_ok_def failAll_def comp_def)

lemma tracker_consume: "tracker_ok t \<Longrightarrow> tracker_ok (consume_response m t)"
  by (auto simp: consume_response_def tracker_settle split: option.splits RpcId.splits)

lemma tracker_timers: "tracker_ok t \<Longrightarrow> rt_timers t = rt_pending t"
  by (simp add: tracker_ok_def)

lemma tracker_timeout: "tracker_ok t \<Longrightarrow> tracker_ok (request_timeout m i t)"
  by (simp add: request_timeout_def tracker_settle tracker_timers)

lemma tracker_waiting:
  "tracker_ok t \<Longrightarrow> rt_closed t = None \<Longrightarrow>
     tracker_ok (t\<lparr>rt_nextId := rt_nextId t + 1, rt_timers := rt_timers t @ [rt_nextId t], rt_pending := rt_pending t @ [rt_nextId t]\<rparr>)"
proof -
  assume ok: "tracker_ok t" and c: "rt_closed t = None"
  have new: "rt_nextId t \<notin> set (rt_pending t) \<union> set (map fst (rt_settled t))" using ok unfolding tracker_ok_def by auto
  have "{1..<rt_nextId t + 1} = insert (rt_nextId t) {1..<rt_nextId t}" using ok by (auto simp: tracker_ok_def)
  with new ok c show ?thesis by (auto simp: tracker_ok_def)
qed

lemma tracker_request: "tracker_ok t \<Longrightarrow> tracker_ok (snd (request w m params t))"
  by (auto simp: request_def Let_def intro!: tracker_settle tracker_waiting elim!: tracker_send [rotated] split: option.splits sum.splits)

definition readiness_ok :: "DiagnosticReadiness \<Rightarrow> bool" where
  "readiness_ok d =
     (distinct (dr_timers d) \<and> map fst (dr_waiters d) = dr_timers d \<and> distinct (map fst (dr_answers d))
      \<and> set (dr_timers d) \<inter> set (map fst (dr_answers d)) = {}
      \<and> set (dr_timers d) \<union> set (map fst (dr_answers d)) = {..<length (dr_asked d)}
      \<and> (\<forall>(i, ks) \<in> set (dr_waiters d). ks \<noteq> [] \<and> set ks = set (dr_asked d ! i) - set (dr_received d))
      \<and> (\<forall>(i, ready) \<in> set (dr_answers d). ready \<longrightarrow> set (dr_asked d ! i) \<subseteq> set (dr_received d)))"

lemma readiness_create: "readiness_ok createDiagnosticReadiness"
  by (simp add: readiness_ok_def createDiagnosticReadiness_def)

text \<open>A list of numbered entries that is split: the numbers left are those not taken.\<close>

lemma split_numbers:
  "distinct (map fst xs) \<Longrightarrow>
     map fst (filter (\<lambda>x. \<not> P x) xs) = filter (\<lambda>i. i \<notin> set (map fst (filter P xs))) (map fst xs)"
proof (induction xs)
  case (Cons x xs)
  then have "fst x \<notin> set (map fst (filter P xs))" by auto
  moreover have "filter (\<lambda>i. i \<noteq> fst x \<and> i \<notin> fst ` {x \<in> set xs. P x}) (map fst xs)
      = filter (\<lambda>i. i \<notin> fst ` {x \<in> set xs. P x}) (map fst xs)"
    using Cons.prems by (intro filter_cong) (auto simp: rev_image_eqI)
  ultimately show ?case using Cons by simp
qed simp

lemma readiness_settle:
  assumes "readiness_ok d" "dr_waiters d' = filter (\<lambda>x. \<not> P x) W" "map fst W = map fst (dr_waiters d)"
    "dr_timers d' = filter (\<lambda>i. i \<notin> set (map fst (filter P W))) (dr_timers d)"
    "dr_answers d' = dr_answers d @ map (\<lambda>x. (fst x, ready)) (filter P W)" "dr_asked d' = dr_asked d"
    "set (dr_received d) \<subseteq> set (dr_received d')"
    "\<And>i ks. (i, ks) \<in> set W \<Longrightarrow> \<not> P (i, ks) \<Longrightarrow> ks \<noteq> [] \<and> set ks = set (dr_asked d ! i) - set (dr_received d')"
    "\<And>i ks. (i, ks) \<in> set W \<Longrightarrow> P (i, ks) \<Longrightarrow> ready \<Longrightarrow> set (dr_asked d ! i) \<subseteq> set (dr_received d')"
  shows "readiness_ok d'"
proof -
  have W: "distinct (map fst W)" "map fst W = dr_timers d" using assms(1,3) by (auto simp: readiness_ok_def)
  have t: "map fst (dr_waiters d') = dr_timers d'" using split_numbers [OF W(1), of P] assms(2,4) W(2) by simp
  have fstP: "map fst (map (\<lambda>x. (fst x, ready)) (filter P W)) = map fst (filter P W)" by (simp add: comp_def)
  have sub: "set (map fst (filter P W)) \<subseteq> set (dr_timers d)" using W(2) by (metis (no_types, lifting) filter_is_subset image_mono list.set_map)
  have dP: "distinct (map fst (filter P W))" using W(1) by (rule distinct_map_filter)
  have old: "set (dr_timers d) \<inter> set (map fst (dr_answers d)) = {}" "set (dr_timers d) \<union> set (map fst (dr_answers d)) = {..<length (dr_asked d)}"
    "distinct (map fst (dr_answers d))" "distinct (dr_timers d)"
    "\<And>i. (i, True) \<in> set (dr_answers d) \<Longrightarrow> set (dr_asked d ! i) \<subseteq> set (dr_received d)"
    using assms(1) by (auto simp: readiness_ok_def)
  have a: "map fst (dr_answers d') = map fst (dr_answers d) @ map fst (filter P W)" unfolding assms(5) map_append fstP ..
  have "set (map fst (dr_answers d)) \<inter> set (map fst (filter P W)) = {}" using old(1) sub by blast
  then have "distinct (map fst (dr_answers d'))" unfolding a using old(3) dP by (simp only: distinct_append)
  moreover have "set (dr_timers d') \<inter> set (map fst (dr_answers d')) = {}" unfolding a assms(4) using old by auto
  moreover have "set (dr_timers d') \<union> set (map fst (dr_answers d')) = {..<length (dr_asked d')}"
    unfolding a assms(4,6) using old(2) sub by auto
  moreover have "\<forall>(i, ks) \<in> set (dr_waiters d'). ks \<noteq> [] \<and> set ks = set (dr_asked d' ! i) - set (dr_received d')"
    unfolding assms(2,6) using assms(8) by auto
  moreover have "\<forall>(i, r) \<in> set (dr_answers d'). r \<longrightarrow> set (dr_asked d' ! i) \<subseteq> set (dr_received d')"
    unfolding assms(5,6) using old(5) assms(7,9) by (fastforce)
  moreover have "distinct (dr_timers d')" unfolding assms(4) using old(4) by simp
  ultimately show ?thesis using t by (simp add: readiness_ok_def)
qed

lemma readiness_waiter: "readiness_ok d \<Longrightarrow> (i, ks) \<in> set (dr_waiters d) \<Longrightarrow>
    ks \<noteq> [] \<and> set ks = set (dr_asked d ! i) - set (dr_received d)"
  by (auto simp: readiness_ok_def)

lemma readiness_resolve:
  assumes ok: "readiness_ok d"
  shows "readiness_ok (resolveCompleted win32 uri d)"
proof -
  let ?key = "diagnosticUriKey win32 uri"
  let ?W = "map (\<lambda>(i, ks). (i, filter (\<lambda>k. k \<noteq> ?key) ks)) (dr_waiters d)"
  let ?d = "resolveCompleted win32 uri d"
  let ?P = "\<lambda>x :: nat \<times> string list. snd x = []"
  have split: "(\<lambda>(i, ks). ks \<noteq> []) = (\<lambda>x :: nat \<times> string list. \<not> ?P x)" "(\<lambda>(i, ks). ks = []) = ?P" by auto
  have fields: "dr_waiters ?d = filter (\<lambda>x. \<not> ?P x) ?W" "dr_timers ?d = filter (\<lambda>i. i \<notin> set (map fst (filter ?P ?W))) (dr_timers d)"
    "dr_answers ?d = dr_answers d @ map (\<lambda>x. (fst x, True)) (filter ?P ?W)" "dr_asked ?d = dr_asked d"
    unfolding resolveCompleted_def Let_def split by (simp_all add: comp_def)
  have received: "set (dr_received ?d) = insert ?key (set (dr_received d))" by (auto simp: resolveCompleted_def Let_def)
  have member: "\<exists>ks'. (i, ks') \<in> set (dr_waiters d) \<and> ks = filter (\<lambda>k. k \<noteq> ?key) ks'" if "(i, ks) \<in> set ?W" for i ks
    using that by auto
  show ?thesis
  proof (rule readiness_settle [OF ok fields(1) _ fields(2-4)])
    show "map fst ?W = map fst (dr_waiters d)" by (simp add: case_prod_unfold comp_def)
    show "set (dr_received d) \<subseteq> set (dr_received ?d)" unfolding received by blast
  next
    fix i ks assume w: "(i, ks) \<in> set ?W"
    from member [OF w] obtain ks' where "(i, ks') \<in> set (dr_waiters d)" and ks: "ks = filter (\<lambda>k. k \<noteq> ?key) ks'" by blast
    from readiness_waiter [OF ok this(1)] have "set ks' = set (dr_asked d ! i) - set (dr_received d)" by blast
    then have eq: "set ks = set (dr_asked d ! i) - set (dr_received ?d)" unfolding ks received set_filter by blast
    show "ks \<noteq> [] \<and> set ks = set (dr_asked d ! i) - set (dr_received ?d)" if "\<not> snd (i, ks) = []" using that eq by simp
    show "set (dr_asked d ! i) \<subseteq> set (dr_received ?d)" if "snd (i, ks) = []" using that eq by simp
  qed
qed

lemma readiness_observe: "readiness_ok d \<Longrightarrow> readiness_ok (observe win32 m d)"
  by (auto simp: observe_def readiness_resolve split: option.splits json.splits)

lemma readiness_timeout:
  assumes ok: "readiness_ok d"
  shows "readiness_ok (wait_timeout i d)"
proof (cases "i \<in> set (dr_timers d)")
  case True
  have m: "map fst (dr_waiters d) = dr_timers d" "distinct (dr_timers d)" using ok by (auto simp: readiness_ok_def)
  obtain xs ks ys where w: "dr_waiters d = xs @ (i, ks) # ys"
    using True m(1) by (metis (no_types, lifting) in_set_conv_decomp in_set_conv_nth list.set_map imageE prod.collapse)
  have "i \<notin> set (map fst xs)" "i \<notin> set (map fst ys)" using m by (auto simp: w simp flip: m(1))
  then have "filter (\<lambda>x. fst x = i) xs = []" "filter (\<lambda>x. fst x = i) ys = []" by (auto simp: filter_empty_conv rev_image_eqI)
  then have "filter (\<lambda>x. fst x = i) (dr_waiters d) = [(i, ks)]" by (simp add: w)
  then show ?thesis using True
    by (intro readiness_settle [OF ok, where W = "dr_waiters d" and P = "\<lambda>x. fst x = i" and ready = False])
      (auto simp: wait_timeout_def case_prod_unfold dest!: readiness_waiter [OF ok])
next
  case False
  then show ?thesis using ok by (simp add: wait_timeout_def)
qed

lemma readiness_close: "readiness_ok d \<Longrightarrow> readiness_ok (close_waits d)"
  by (erule readiness_settle [where W = "dr_waiters d" and P = "\<lambda>_. True" and ready = False])
    (auto simp: close_waits_def case_prod_unfold)

lemma readiness_asked:
  assumes ok: "readiness_ok d"
  shows "\<And>i ks. (i, ks) \<in> set (dr_waiters d) \<Longrightarrow> ks \<noteq> [] \<and> set ks = set ((dr_asked d @ [keys]) ! i) - set (dr_received d)"
    and "\<And>i. (i, True) \<in> set (dr_answers d) \<Longrightarrow> set ((dr_asked d @ [keys]) ! i) \<subseteq> set (dr_received d)"
    and "length (dr_asked d) \<notin> set (dr_timers d) \<union> set (map fst (dr_answers d))"
    and "insert (length (dr_asked d)) (set (dr_timers d) \<union> set (map fst (dr_answers d))) = {..<length (dr_asked d @ [keys])}"
proof -
  have n: "set (dr_timers d) \<union> set (map fst (dr_answers d)) = {..<length (dr_asked d)}" using ok by (simp add: readiness_ok_def)
  then show "length (dr_asked d) \<notin> set (dr_timers d) \<union> set (map fst (dr_answers d))" by simp
  from n show "insert (length (dr_asked d)) (set (dr_timers d) \<union> set (map fst (dr_answers d))) = {..<length (dr_asked d @ [keys])}"
    by (simp add: lessThan_Suc)
  have w: "map fst (dr_waiters d) = dr_timers d" using ok by (simp add: readiness_ok_def)
  show "ks \<noteq> [] \<and> set ks = set ((dr_asked d @ [keys]) ! i) - set (dr_received d)" if "(i, ks) \<in> set (dr_waiters d)" for i ks
  proof -
    have "i \<in> set (dr_timers d)" unfolding w [symmetric] using that by (auto simp: rev_image_eqI)
    then have "i < length (dr_asked d)" using n by auto
    with readiness_waiter [OF ok that] show ?thesis by (simp add: nth_append)
  qed
  show "set ((dr_asked d @ [keys]) ! i) \<subseteq> set (dr_received d)" if "(i, True) \<in> set (dr_answers d)" for i
  proof -
    have "i \<in> set (map fst (dr_answers d))" using that by (auto simp: rev_image_eqI)
    then have "i < length (dr_asked d)" using n by auto
    then show ?thesis using ok that by (auto simp: readiness_ok_def nth_append)
  qed
qed

lemma readiness_okI:
  assumes "distinct (dr_timers d)" "map fst (dr_waiters d) = dr_timers d" "distinct (map fst (dr_answers d))"
    "set (dr_timers d) \<inter> set (map fst (dr_answers d)) = {}"
    "set (dr_timers d) \<union> set (map fst (dr_answers d)) = {..<length (dr_asked d)}"
    "\<And>i ks. (i, ks) \<in> set (dr_waiters d) \<Longrightarrow> ks \<noteq> [] \<and> set ks = set (dr_asked d ! i) - set (dr_received d)"
    "\<And>i. (i, True) \<in> set (dr_answers d) \<Longrightarrow> set (dr_asked d ! i) \<subseteq> set (dr_received d)"
  shows "readiness_ok d"
  using assms by (fastforce simp: readiness_ok_def)

lemma readiness_numbers:
  "readiness_ok d \<Longrightarrow> distinct (dr_timers d) \<and> map fst (dr_waiters d) = dr_timers d \<and> distinct (map fst (dr_answers d))
    \<and> set (dr_timers d) \<inter> set (map fst (dr_answers d)) = {}"
  by (simp add: readiness_ok_def)

lemma readiness_add:
  assumes ok: "readiness_ok d" and m: "M \<noteq> []" "set M = set keys - set (dr_received d)"
  shows "readiness_ok (d\<lparr>dr_asked := dr_asked d @ [keys], dr_waiters := dr_waiters d @ [(length (dr_asked d), M)],
      dr_timers := dr_timers d @ [length (dr_asked d)]\<rparr>)"
proof -
  note n = readiness_numbers [OF ok] and a = readiness_asked [OF ok]
  show ?thesis
  proof (rule readiness_okI, goal_cases)
    case 1 show ?case using n a(3) by simp
  next
    case 2 show ?case using n by simp
  next
    case 3 show ?case using n by simp
  next
    case 4 show ?case using n a(3) by simp
  next
    case 5 show ?case using a(4) by simp
  next
    case (6 i ks)
    then consider "(i, ks) \<in> set (dr_waiters d)" | "i = length (dr_asked d)" "ks = M" by auto
    then show ?case
    proof cases
      case 1 then show ?thesis using a(1) [OF 1] by simp
    next
      case 2 then show ?thesis using m by simp
    qed
  next
    case (7 i) then show ?case using a(2) [of i] by simp
  qed
qed

lemma readiness_add_ready:
  assumes ok: "readiness_ok d" and m: "set keys \<subseteq> set (dr_received d)"
  shows "readiness_ok (d\<lparr>dr_asked := dr_asked d @ [keys], dr_answers := dr_answers d @ [(length (dr_asked d), True)]\<rparr>)"
proof -
  note n = readiness_numbers [OF ok] and a = readiness_asked [OF ok]
  show ?thesis
  proof (rule readiness_okI, goal_cases)
    case 1 show ?case using n by simp
  next
    case 2 show ?case using n by simp
  next
    case 3 show ?case using n a(3) by simp
  next
    case 4 show ?case using n a(3) by simp
  next
    case 5 show ?case using a(4) by simp
  next
    case (6 i ks) then show ?case using a(1) [of i ks] by simp
  next
    case (7 i)
    then consider "(i, True) \<in> set (dr_answers d)" | "i = length (dr_asked d)" by auto
    then show ?case
    proof cases
      case 1 then show ?thesis using a(2) [OF 1] by simp
    next
      case 2 then show ?thesis using m by simp
    qed
  qed
qed

lemma readiness_wait:
  assumes ok: "readiness_ok d"
  shows "readiness_ok (wait win32 uris d)"
proof -
  let ?keys = "map (diagnosticUriKey win32) uris"
  let ?missing = "remdups (filter (\<lambda>k. k \<notin> set (dr_received d)) ?keys)"
  show ?thesis
  proof (cases "?missing = []")
    case True
    then have "set ?keys \<subseteq> set (dr_received d)" by (auto simp: filter_empty_conv)
    moreover have "wait win32 uris d = d\<lparr>dr_asked := dr_asked d @ [?keys], dr_answers := dr_answers d @ [(length (dr_asked d), True)]\<rparr>"
      using True by (simp add: wait_def Let_def)
    ultimately show ?thesis by (simp add: readiness_add_ready [OF ok])
  next
    case False
    have "set ?missing = set ?keys - set (dr_received d)" by auto
    from readiness_add [OF ok False this] show ?thesis using False by (simp add: wait_def Let_def)
  qed
qed

definition session_ok :: "LspSession \<Rightarrow> bool" where
  "session_ok s = (tracker_ok (ls_tracker s) \<and> readiness_ok (ls_diagnostics s))"

named_theorems session_steps

lemmas [session_steps] = tracker_send tracker_failAll tracker_consume tracker_timeout tracker_request
  readiness_observe readiness_timeout readiness_close readiness_wait

lemma dispatch_ok: "session_ok s \<Longrightarrow> session_ok (snd (dispatch win32 w actions s))"
proof (induction actions arbitrary: s)
  case (Cons a actions)
  then show ?case by (cases a) (auto simp: session_ok_def session_steps split: sum.splits)
qed simp

lemma on_data_ok: "session_ok s \<Longrightarrow> session_ok (on_data parse win32 w chunk s)"
proof -
  assume ok: "session_ok s"
  have "session_ok (s\<lparr>ls_buffer := b\<rparr>)" for b using ok by (simp add: session_ok_def)
  from dispatch_ok [OF this] ok show ?thesis
    by (auto simp: on_data_def data_failed_def session_ok_def session_steps split: sum.splits prod.splits option.splits) (metis snd_conv session_steps)+
qed

lemma handle_ok: "session_ok s \<Longrightarrow> session_ok (handle parse win32 w name event s)"
  using on_data_ok [of s] by (cases event) (auto simp: handle_def session_ok_def failSession_def terminate_def session_steps split: sum.splits)

lemma run_session_ok: "session_ok s \<Longrightarrow> session_ok (run_session parse win32 w name events s)"
  by (induction events arbitrary: s) (simp_all add: run_session_def handle_ok)

lemma session_start: "session_ok startLspSession"
  by (simp add: session_ok_def startLspSession_def tracker_create readiness_create)

text \<open>What a closed session keeps.\<close>

definition closed_like :: "LspRequestTracker \<Rightarrow> LspRequestTracker \<Rightarrow> bool" where
  "closed_like t t' = (rt_closed t \<noteq> None \<and> rt_closed t' = rt_closed t \<and> rt_written t' = rt_written t \<and> rt_nextId t' = rt_nextId t)"

lemma closed_like_trans: "closed_like t t' \<Longrightarrow> closed_like t' t'' \<Longrightarrow> closed_like t t''"
  by (simp add: closed_like_def)

lemma closed_like_steps:
  assumes "rt_closed t \<noteq> None"
  shows "closed_like t t" "closed_like t (failAll e t)" "closed_like t (consume_response m t)"
    "closed_like t (request_timeout k i t)" "closed_like t (snd (request w k params t))" "send w m t \<noteq> Inr t'"
  using assms
  by (auto simp: closed_like_def failAll_def consume_response_def settle_def request_timeout_def request_def send_def split: option.splits RpcId.splits)

lemma dispatch_closed: "rt_closed (ls_tracker s) \<noteq> None \<Longrightarrow> closed_like (ls_tracker s) (ls_tracker (snd (dispatch win32 w actions s)))"
proof (induction actions arbitrary: s)
  case (Cons a actions)
  show ?case
  proof (cases a)
    case (respond m)
    then show ?thesis using closed_like_steps [OF Cons.prems] by (auto split: sum.splits)
  next
    case (consumeResponse m)
    note c = closed_like_steps(3) [OF Cons.prems, of m]
    have "closed_like (consume_response m (ls_tracker s)) (ls_tracker (snd (dispatch win32 w (consumeResponse m # actions) s)))"
      using Cons.IH [of "s\<lparr>ls_tracker := consume_response m (ls_tracker s)\<rparr>"] c by (simp add: closed_like_def)
    with c consumeResponse show ?thesis by (metis closed_like_trans)
  next
    case (observeNotification m)
    then show ?thesis using Cons.IH [of "s\<lparr>ls_diagnostics := observe win32 m (ls_diagnostics s)\<rparr>"] Cons.prems by simp
  qed
qed (simp add: closed_like_steps)

lemma handle_closed:
  assumes c: "rt_closed (ls_tracker s) \<noteq> None"
  shows "closed_like (ls_tracker s) (ls_tracker (handle parse win32 w name event s))"
proof (cases event)
  case (Data chunk)
  show ?thesis
  proof (cases "decodeJsonRpc parse (ls_buffer s @ chunk)")
    case (Inl e)
    then show ?thesis using c Data by (simp add: handle_def on_data_def data_failed_def closed_like_steps)
  next
    case (Inr mr)
    obtain ms rem where mr: "mr = (ms, rem)" by force
    let ?r = "dispatch win32 w (dispatchIncomingLspMessages ms) (s\<lparr>ls_buffer := rem\<rparr>)"
    obtain e s' where r: "?r = (e, s')" by force
    have l: "closed_like (ls_tracker s) (ls_tracker s')"
      using dispatch_closed [of "s\<lparr>ls_buffer := rem\<rparr>" win32 w "dispatchIncomingLspMessages ms"] c r by simp
    then have "rt_closed (ls_tracker s') \<noteq> None" by (auto simp: closed_like_def)
    from closed_like_trans [OF l closed_like_steps(2) [OF this]] l show ?thesis
      using Data Inr mr r by (auto simp: handle_def on_data_def data_failed_def split: option.splits)
  qed
qed (use c in \<open>auto simp: handle_def failSession_def terminate_def closed_like_steps split: sum.splits\<close>)

lemma run_session_closed:
  "rt_closed (ls_tracker s) \<noteq> None \<Longrightarrow> closed_like (ls_tracker s) (ls_tracker (run_session parse win32 w name events s))"
proof (induction events arbitrary: s)
  case (Cons e es)
  note h = handle_closed [OF Cons.prems, of parse win32 w name e]
  then have "rt_closed (ls_tracker (handle parse win32 w name e s)) \<noteq> None" by (auto simp: closed_like_def)
  from closed_like_trans [OF h Cons.IH [OF this]] show ?case by (simp add: run_session_def)
qed (simp add: run_session_def closed_like_steps)

section \<open>Properties\<close>

text \<open>C5: Whatever happens to a session, in any order: every request that was sent has been answered exactly once or
  waits with its timer armed, and no other number was ever answered.\<close>

theorem requests_settled_once:
  "let t = ls_tracker (run_session parse win32 write_error name events startLspSession)
   in distinct (map fst (rt_settled t)) \<and> distinct (rt_pending t) \<and> set (rt_pending t) \<inter> set (map fst (rt_settled t)) = {}
      \<and> set (rt_pending t) \<union> set (map fst (rt_settled t)) = {1..<rt_nextId t} \<and> rt_timers t = rt_pending t"
  using run_session_ok [OF session_start, of parse win32 write_error name events]
  by (simp add: session_ok_def tracker_ok_def Let_def)

text \<open>When the server fails, exits or the session is closed, nothing waits any more, and whatever
  happens afterwards nothing is written, no request is given a number, and a call is answered with the first reason.\<close>

theorem closed_session_is_silent:
  assumes "event \<in> {ChildFailed e, ChildExited e, InputFailed e}"
    and "s = run_session parse win32 write_error name (before @ [event]) startLspSession"
    and "s' = run_session parse win32 write_error name after_events s"
  shows "\<exists>reason. rt_closed (ls_tracker s) = Some reason \<and> rt_closed (ls_tracker s') = Some reason
    \<and> rt_pending (ls_tracker s') = [] \<and> rt_timers (ls_tracker s') = []
    \<and> rt_written (ls_tracker s') = rt_written (ls_tracker s) \<and> rt_nextId (ls_tracker s') = rt_nextId (ls_tracker s)
    \<and> request write_error m params (ls_tracker s') = (Inl reason, ls_tracker s')"
proof -
  have "rt_closed (failAll r t) \<noteq> None" for r t by (simp add: failAll_def)
  then have c: "rt_closed (ls_tracker s) \<noteq> None"
    using assms(1,2) by (auto simp: run_session_def handle_def failSession_def)
  then obtain reason where r: "rt_closed (ls_tracker s) = Some reason" by blast
  have k: "closed_like (ls_tracker s) (ls_tracker s')" unfolding assms(3) by (rule run_session_closed [OF c])
  have "session_ok s'" unfolding assms(2,3) by (intro run_session_ok session_start)
  with r k have "rt_pending (ls_tracker s') = []" "rt_timers (ls_tracker s') = []"
    by (auto simp: session_ok_def tracker_ok_def closed_like_def)
  with r k show ?thesis by (auto simp: closed_like_def request_def)
qed

theorem closed_session_is_silent_witness:
  "\<exists>reason. rt_closed (ls_tracker (run_session Inl False (\<lambda>_. None) ''gopls'' [Call ''initialize'' JNull, ChildExited ''1''] startLspSession)) = Some reason"
  using closed_session_is_silent [of "ChildExited ''1''" "''1''"
      "run_session Inl False (\<lambda>_. None) ''gopls'' ([Call ''initialize'' JNull] @ [ChildExited ''1'']) startLspSession"
      Inl False "\<lambda>_. None" "''gopls''" "[Call ''initialize'' JNull]"
      "run_session Inl False (\<lambda>_. None) ''gopls'' [Close] (run_session Inl False (\<lambda>_. None) ''gopls'' ([Call ''initialize'' JNull] @ [ChildExited ''1'']) startLspSession)"
      "[Close]" "''x''" JNull]
  by auto

text \<open>A wait for diagnostics is answered at most once, it is answered yes only when every file it asked for has
  been diagnosed, and one that is not answered still misses a file and has its timer armed.\<close>

theorem diagnostics_complete:
  "let d = ls_diagnostics (run_session parse win32 write_error name events startLspSession)
   in distinct (map fst (dr_answers d)) \<and> set (dr_timers d) \<inter> set (map fst (dr_answers d)) = {}
      \<and> set (dr_timers d) \<union> set (map fst (dr_answers d)) = {..<length (dr_asked d)}
      \<and> (\<forall>i \<in> set (map fst (filter snd (dr_answers d))). set (dr_asked d ! i) \<subseteq> set (dr_received d))
      \<and> (\<forall>i \<in> set (dr_timers d). \<not> set (dr_asked d ! i) \<subseteq> set (dr_received d))"
proof -
  let ?d = "ls_diagnostics (run_session parse win32 write_error name events startLspSession)"
  have ok: "readiness_ok ?d" using run_session_ok [OF session_start] by (simp add: session_ok_def)
  have "\<not> set (dr_asked ?d ! i) \<subseteq> set (dr_received ?d)" if "i \<in> set (dr_timers ?d)" for i
  proof -
    have "i \<in> set (map fst (dr_waiters ?d))" using readiness_numbers [OF ok] that by simp
    then obtain ks where "(i, ks) \<in> set (dr_waiters ?d)" by auto
    from readiness_waiter [OF ok this] have "set (dr_asked ?d ! i) - set (dr_received ?d) \<noteq> {}" by (metis set_empty)
    then show ?thesis by blast
  qed
  moreover have "set (dr_asked ?d ! i) \<subseteq> set (dr_received ?d)" if "i \<in> set (map fst (filter snd (dr_answers ?d)))" for i
    using ok that by (auto simp: readiness_ok_def)
  moreover have "set (dr_timers ?d) \<union> set (map fst (dr_answers ?d)) = {..<length (dr_asked ?d)}"
    using ok by (simp add: readiness_ok_def)
  ultimately show ?thesis using readiness_numbers [OF ok] unfolding Let_def by blast
qed

definition waiting_run :: DiagnosticReadiness where
  "waiting_run = ls_diagnostics (run_session Inl False (\<lambda>_. None) ''gopls'' [Await [''file:///a.go'']] startLspSession)"

theorem diagnostics_complete_witness:
  "dr_timers waiting_run = [0] \<and> \<not> set (dr_asked waiting_run ! 0) \<subseteq> set (dr_received waiting_run)"
proof -
  have "dr_timers waiting_run = [0]"
    by (simp add: waiting_run_def run_session_def handle_def wait_def startLspSession_def createDiagnosticReadiness_def Let_def)
  then show ?thesis
    using diagnostics_complete [of Inl False "\<lambda>_. None" "''gopls''" "[Await [''file:///a.go'']]"]
    unfolding waiting_run_def [symmetric] Let_def by simp
qed

end
