(* ===== verification/Baseline_Store.thy ===== *)
theory Baseline_Store
  imports File_Kinds Json_Doc Governance
begin

text \<open>
  The generations of the baseline on disk (\<open>adapter/storage/BaselineGeneration.ts\<close>,
  \<open>BaselineGenerationValidation.ts\<close>, \<open>BaselineGenerationDiagnostics.ts\<close>, \<open>BaselineShard.ts\<close>). The storage root is
  a map from the names of its directories to their files; a file is the document it parses to with its size and time
  of change as one text. An entry or an index keeps the fields the storage reads and the others as a document. Writing a
  document is atomic, so a crash leaves the state between two of the steps of a publication. Directories are read in the
  order in which their files were written; the order of a real directory differs, and only maps of what was read are compared.
\<close>

section \<open>Documents\<close>

record StoredEntry =
  se_path :: string
  se_fileKind :: "FileKind option"
  se_fields :: json \<comment> \<open>the other structural fields\<close>
  se_testMetrics :: "json option"

record BaselineMeta =
  bm_scanAt :: string
  bm_snapshotSha256 :: "string option"
  bm_shardManifestSha256 :: "string option"
  bm_nFiles :: nat
  bm_nProductionFiles :: "nat option"
  bm_nTestFiles :: "nat option"
  bm_fields :: "(string \<times> json) list"

record BaselineIndex =
  bi_version :: string
  bi_meta :: BaselineMeta

record BaselineSnapshot =
  bs_index :: BaselineIndex
  bs_entries :: "StoredEntry list"
  bs_changedPaths :: "string list option"
  bs_deletedPaths :: "string list option"

datatype Document = IndexDocument BaselineIndex | EntryDocument StoredEntry | NoDocument string

record StoredFile =
  sf_document :: Document
  sf_stat :: string

type_synonym Directory = "(string, StoredFile) jmap"
type_synonym StorageRoot = "(string, Directory) jmap"

section \<open>Identity and validation\<close>

definition assertCount :: "nat \<Rightarrow> nat option \<Rightarrow> string \<Rightarrow> unit result" where
  "assertCount actual expected label =
     (if expected \<noteq> None \<and> expected \<noteq> Some actual
      then Inl (''baseline generation '' @ label @ '' does not match index'') else Inr ())"

definition is_production :: "StoredEntry \<Rightarrow> bool" where
  "is_production e = (or_default (se_fileKind e) fk_production = fk_production)"

definition is_test :: "StoredEntry \<Rightarrow> bool" where
  "is_test e = (se_fileKind e = Some fk_test)"

definition validateEntries :: "BaselineIndex \<Rightarrow> StoredEntry list \<Rightarrow> unit result" where
  "validateEntries index entries =
     (if length (uniq (map se_path entries)) \<noteq> length entries then Inl ''baseline generation contains duplicate entry paths''
      else bind_result (assertCount (length entries) (Some (bm_nFiles (bi_meta index))) (''entry count '' @ show_nat (length entries)))
        (\<lambda>_. bind_result (assertCount (length (filter is_production entries)) (bm_nProductionFiles (bi_meta index)) ''production count'')
        (\<lambda>_. assertCount (length (filter is_test entries)) (bm_nTestFiles (bi_meta index)) ''test count'')))"

definition entry_doc :: "bool \<Rightarrow> StoredEntry \<Rightarrow> json" where
  "entry_doc includeTestMetrics e =
     JObj ([(''path'', JStr (se_path e))] @ json_field ''fileKind'' (map_option (\<lambda>k. JStr (fileKindName k)) (se_fileKind e))
       @ [(''fields'', se_fields e)] @ (if includeTestMetrics then json_field ''testMetrics'' (se_testMetrics e) else []))"

definition nat_field :: "string \<Rightarrow> nat option \<Rightarrow> (string \<times> json) list" where
  "nat_field k v = json_field k (map_option (\<lambda>n. JNum (Fin (real n))) v)"

text \<open>The meta data without the time of the scan and the two digests.\<close>

definition compared_meta :: "BaselineMeta \<Rightarrow> (string \<times> json) list" where
  "compared_meta m =
     nat_field ''nFiles'' (Some (bm_nFiles m)) @ nat_field ''nProductionFiles'' (bm_nProductionFiles m)
     @ nat_field ''nTestFiles'' (bm_nTestFiles m) @ bm_fields m"

definition comparableSnapshot :: "string cmp \<Rightarrow> BaselineSnapshot \<Rightarrow> bool \<Rightarrow> json" where
  "comparableSnapshot lc snapshot includeTestMetrics =
     JObj [(''entries'', JArr (map (entry_doc includeTestMetrics) (js_sort (on_key lc se_path) (bs_entries snapshot)))),
       (''index'', JObj [(''version'', JStr (bi_version (bs_index snapshot))), (''meta'', JObj (compared_meta (bi_meta (bs_index snapshot))))])]"

definition snapshotIdentity :: "(json \<Rightarrow> string) \<Rightarrow> string cmp \<Rightarrow> BaselineSnapshot \<Rightarrow> string" where
  "snapshotIdentity hash lc snapshot = hash (comparableSnapshot lc snapshot False)"

definition legacySnapshotIdentity :: "(json \<Rightarrow> string) \<Rightarrow> string cmp \<Rightarrow> BaselineSnapshot \<Rightarrow> string" where
  "legacySnapshotIdentity hash lc snapshot = hash (comparableSnapshot lc snapshot True)"

text \<open>The schemas accept a typed snapshot as it is and drop what they do not name.\<close>

definition normalizeBaselineSnapshot :: "BaselineSnapshot \<Rightarrow> BaselineSnapshot result" where
  "normalizeBaselineSnapshot snapshot =
     bind_result (validateEntries (bs_index snapshot) (bs_entries snapshot))
       (\<lambda>_. Inr \<lparr>bs_index = bs_index snapshot, bs_entries = bs_entries snapshot, bs_changedPaths = None, bs_deletedPaths = None\<rparr>)"

definition IDENTITY_MISMATCH :: string where
  "IDENTITY_MISMATCH = ''baseline generation snapshot identity does not match its contents''"

text \<open>An empty digest counts as none.\<close>

definition digest_of :: "string option \<Rightarrow> string option" where
  "digest_of d = (if d = Some [] then None else d)"

definition validatePersistedIdentity :: "(json \<Rightarrow> string) \<Rightarrow> string cmp \<Rightarrow> BaselineSnapshot \<Rightarrow> unit result" where
  "validatePersistedIdentity hash lc snapshot =
     (case digest_of (bm_snapshotSha256 (bi_meta (bs_index snapshot))) of
        None \<Rightarrow> Inr ()
      | Some persisted \<Rightarrow>
          if persisted \<noteq> snapshotIdentity hash lc snapshot \<and> persisted \<noteq> legacySnapshotIdentity hash lc snapshot
          then Inl IDENTITY_MISMATCH else Inr ())"

definition index_name :: string where "index_name = ''_index.json''"

definition is_shard :: "string \<Rightarrow> bool" where
  "is_shard name = (ends_with name ''.json'' \<and> name \<noteq> index_name)"

definition shardNames :: "Directory \<Rightarrow> string list" where
  "shardNames directory = sort (filter is_shard (map_keys directory))"

text \<open>\<open>prim\<close> is \<open>JSON.stringify\<close> of a primitive value or a key.\<close>

fun stableStringify :: "(json \<Rightarrow> string) \<Rightarrow> json \<Rightarrow> string" where
  "stableStringify prim JNull = ''null''"
| "stableStringify prim (JArr xs) = ''['' @ join_with '','' (map (stableStringify prim) xs) @ '']''"
| "stableStringify prim (JObj kvs) =
     (let texts = map (\<lambda>(k, v). (k, stableStringify prim v)) kvs
      in ''{'' @ join_with '','' (map (\<lambda>k. prim (JStr k) @ '':'' @ or_default (map_of texts k) []) (sort (map fst kvs))) @ ''}'')"
| "stableStringify prim v = prim v"

definition indexContentFingerprint :: "(json \<Rightarrow> string) \<Rightarrow> BaselineIndex \<Rightarrow> string" where
  "indexContentFingerprint prim index =
     stableStringify prim (JObj [(''version'', JStr (bi_version index)),
       (''meta'', JObj ((''scanAt'', JStr (bm_scanAt (bi_meta index)))
          # json_field ''snapshotSha256'' (map_option JStr (bm_snapshotSha256 (bi_meta index))) @ compared_meta (bi_meta index)))])"

definition shardManifestDigest :: "(string \<Rightarrow> string) \<Rightarrow> (json \<Rightarrow> string) \<Rightarrow> Directory \<Rightarrow> BaselineIndex \<Rightarrow> string" where
  "shardManifestDigest sha prim directory index =
     sha (indexContentFingerprint prim index @ [CHR 0x0A]
       @ join_with [CHR 0x0A] (map (\<lambda>name. name @ '':'' @ sf_stat (the (map_get directory name))) (shardNames directory)))"

definition parse_index :: "StoredFile option \<Rightarrow> BaselineIndex result" where
  "parse_index file =
     (case file of
        None \<Rightarrow> Inl ''ENOENT''
      | Some f \<Rightarrow> (case sf_document f of IndexDocument i \<Rightarrow> Inr i | EntryDocument e \<Rightarrow> Inl ''Invalid input'' | NoDocument e \<Rightarrow> Inl e))"

definition parse_entry :: "StoredFile \<Rightarrow> StoredEntry result" where
  "parse_entry f = (case sf_document f of EntryDocument e \<Rightarrow> Inr e | IndexDocument i \<Rightarrow> Inl ''Invalid input'' | NoDocument e \<Rightarrow> Inl e)"

text \<open>The shards are read in the order the directory lists them.\<close>

definition readBaselineGenerationDirectory :: "(json \<Rightarrow> string) \<Rightarrow> string cmp \<Rightarrow> Directory \<Rightarrow> BaselineSnapshot result" where
  "readBaselineGenerationDirectory hash lc directory =
     bind_result (parse_index (map_get directory index_name))
       (\<lambda>index. bind_result (map_result (\<lambda>name. parse_entry (the (map_get directory name))) (filter is_shard (map_keys directory)))
       (\<lambda>entries. let snapshot = \<lparr>bs_index = index, bs_entries = entries, bs_changedPaths = None, bs_deletedPaths = None\<rparr>
         in bind_result (validateEntries index entries)
           (\<lambda>_. bind_result (validatePersistedIdentity hash lc snapshot) (\<lambda>_. Inr snapshot))))"

definition validateBaselineGenerationDirectory ::
  "(string \<Rightarrow> string) \<Rightarrow> (json \<Rightarrow> string) \<Rightarrow> (json \<Rightarrow> string) \<Rightarrow> string cmp \<Rightarrow> Directory \<Rightarrow> BaselineIndex result" where
  "validateBaselineGenerationDirectory sha prim hash lc directory =
     bind_result (parse_index (map_get directory index_name))
       (\<lambda>index. if bm_shardManifestSha256 (bi_meta index) = Some (shardManifestDigest sha prim directory index) then Inr index
          else bind_result (readBaselineGenerationDirectory hash lc directory) (\<lambda>s. Inr (bs_index s)))"

section \<open>Choosing a generation\<close>

definition baselineShardFileName :: "(string \<Rightarrow> string) \<Rightarrow> string \<Rightarrow> string" where
  "baselineShardFileName sha path = ''sha256-'' @ sha path @ ''.json''"

definition legacyBaselineShardFileName :: "string \<Rightarrow> string" where
  "legacyBaselineShardFileName path =
     concat (map (\<lambda>c. if c \<in> {CHR ''/'', CHR 0x5C, CHR '':''} then ''__'' else [c]) path) @ ''.json''"

definition active_name :: string where "active_name = ''baseline''"

definition is_backup :: "string \<Rightarrow> bool" where
  "is_backup name = starts_with name ''baseline.backup-''"

definition backupDirectories :: "StorageRoot \<Rightarrow> string list" where
  "backupDirectories disk = rev (sort (filter is_backup (map_keys disk)))"

definition hasBackupGeneration :: "StorageRoot \<Rightarrow> bool" where
  "hasBackupGeneration disk = (backupDirectories disk \<noteq> [])"

definition readableBaselineDirFor :: "StorageRoot \<Rightarrow> string" where
  "readableBaselineDirFor disk =
     (if map_has disk active_name then active_name
      else case backupDirectories disk of [] \<Rightarrow> active_name | b # _ \<Rightarrow> b)"

definition readBaselineGeneration :: "(json \<Rightarrow> string) \<Rightarrow> string cmp \<Rightarrow> StorageRoot \<Rightarrow> BaselineSnapshot option result" where
  "readBaselineGeneration hash lc disk =
     (case map_get disk (readableBaselineDirFor disk) of
        None \<Rightarrow> Inr None
      | Some directory \<Rightarrow>
          if map_has directory index_name
          then bind_result (readBaselineGenerationDirectory hash lc directory) (\<lambda>s. Inr (Some s))
          else Inr None)"

section \<open>Publication\<close>

datatype StoreStep =
    MakeDirectory string
  | WriteDocument string string Document
  | RemoveFile string string
  | RenameDirectory string string
  | RemoveDirectory string

definition drop_key :: "'k \<Rightarrow> ('k, 'v) jmap \<Rightarrow> ('k, 'v) jmap" where
  "drop_key k m = filter (\<lambda>(k', _). k' \<noteq> k) m"

text \<open>\<open>stat d n x\<close> is the size and time that writing the document \<open>x\<close> as file \<open>n\<close> of directory \<open>d\<close> leaves.\<close>

fun applyStep :: "(string \<Rightarrow> string \<Rightarrow> Document \<Rightarrow> string) \<Rightarrow> StorageRoot \<Rightarrow> StoreStep \<Rightarrow> StorageRoot" where
  "applyStep stat disk (MakeDirectory d) = (if map_has disk d then disk else map_set disk d [])"
| "applyStep stat disk (WriteDocument d n x) =
     map_set disk d (map_set (or_default (map_get disk d) []) n \<lparr>sf_document = x, sf_stat = stat d n x\<rparr>)"
| "applyStep stat disk (RemoveFile d n) =
     (case map_get disk d of None \<Rightarrow> disk | Some files \<Rightarrow> map_set disk d (drop_key n files))"
| "applyStep stat disk (RenameDirectory a b) =
     (case map_get disk a of None \<Rightarrow> disk | Some files \<Rightarrow> map_set (drop_key a disk) b files)"
| "applyStep stat disk (RemoveDirectory d) = drop_key d disk"

fun promote :: "(json \<Rightarrow> string) \<Rightarrow> string cmp \<Rightarrow> StorageRoot \<Rightarrow> string list \<Rightarrow> StorageRoot" where
  "promote hash lc disk [] = disk"
| "promote hash lc disk (b # bs) =
     (case readBaselineGenerationDirectory hash lc (or_default (map_get disk b) []) of
        Inr _ \<Rightarrow> applyStep (\<lambda>_ _ _. []) disk (RenameDirectory b active_name)
      | Inl _ \<Rightarrow> promote hash lc disk bs)"

definition recoverBaseline :: "(json \<Rightarrow> string) \<Rightarrow> string cmp \<Rightarrow> StorageRoot \<Rightarrow> StorageRoot" where
  "recoverBaseline hash lc disk = (if map_has disk active_name then disk else promote hash lc disk (backupDirectories disk))"

definition withSnapshotFingerprint :: "(json \<Rightarrow> string) \<Rightarrow> string cmp \<Rightarrow> BaselineSnapshot \<Rightarrow> BaselineSnapshot" where
  "withSnapshotFingerprint hash lc snapshot =
     snapshot\<lparr>bs_index := (bs_index snapshot)\<lparr>bi_meta := (bi_meta (bs_index snapshot))\<lparr>bm_snapshotSha256 := Some (snapshotIdentity hash lc snapshot)\<rparr>\<rparr>\<rparr>"

definition activeSnapshotMatches :: "(json \<Rightarrow> string) \<Rightarrow> string cmp \<Rightarrow> StorageRoot \<Rightarrow> BaselineSnapshot \<Rightarrow> bool" where
  "activeSnapshotMatches hash lc disk snapshot =
     (case readBaselineGeneration hash lc disk of
        Inr (Some generation) \<Rightarrow>
          let persisted = bm_snapshotSha256 (bi_meta (bs_index generation));
              wanted = bm_snapshotSha256 (bi_meta (bs_index snapshot))
          in if digest_of wanted \<noteq> None \<and> persisted = wanted then True
             else if persisted \<noteq> None then False
             else snapshotIdentity hash lc generation = snapshotIdentity hash lc snapshot
      | _ \<Rightarrow> False)"

definition staging_name :: "string \<Rightarrow> string" where "staging_name token = active_name @ ''.staging-'' @ token"
definition backup_name :: "string \<Rightarrow> string" where "backup_name token = active_name @ ''.backup-'' @ token"

definition shardWrite :: "(string \<Rightarrow> string) \<Rightarrow> string \<Rightarrow> StoredEntry \<Rightarrow> StoreStep" where
  "shardWrite sha dir e = WriteDocument dir (baselineShardFileName sha (se_path e)) (EntryDocument e)"

text \<open>The copy of the active directory, file by file, when only the changed shards are to be written.\<close>

definition copySteps :: "string \<Rightarrow> Directory \<Rightarrow> StoreStep list" where
  "copySteps staging files = map (\<lambda>(n, f). WriteDocument staging n (sf_document f)) files"

definition shardSteps :: "(string \<Rightarrow> string) \<Rightarrow> StorageRoot \<Rightarrow> string \<Rightarrow> BaselineSnapshot \<Rightarrow> StoreStep list" where
  "shardSteps sha disk staging snapshot =
     (case (bs_changedPaths snapshot, map_get disk active_name) of
        (Some changedPaths, Some files) \<Rightarrow>
          let changed = map (baselineShardFileName sha) changedPaths
          in copySteps staging files
             @ map (\<lambda>p. RemoveFile staging (baselineShardFileName sha p)) (or_default (bs_deletedPaths snapshot) [])
             @ map (shardWrite sha staging) (filter (\<lambda>e. baselineShardFileName sha (se_path e) \<in> set changed) (bs_entries snapshot))
      | _ \<Rightarrow> map (shardWrite sha staging) (bs_entries snapshot))"

definition index_with_manifest :: "(string \<Rightarrow> string) \<Rightarrow> (json \<Rightarrow> string) \<Rightarrow> Directory \<Rightarrow> BaselineSnapshot \<Rightarrow> BaselineIndex" where
  "index_with_manifest sha prim directory snapshot =
     (bs_index snapshot)\<lparr>bi_meta := (bi_meta (bs_index snapshot))\<lparr>bm_shardManifestSha256 := Some (shardManifestDigest sha prim directory (bs_index snapshot))\<rparr>\<rparr>"

definition writeStagingGeneration ::
  "(string \<Rightarrow> string) \<Rightarrow> (json \<Rightarrow> string) \<Rightarrow> (string \<Rightarrow> string \<Rightarrow> Document \<Rightarrow> string) \<Rightarrow> StorageRoot \<Rightarrow> string \<Rightarrow> BaselineSnapshot \<Rightarrow> StoreStep list" where
  "writeStagingGeneration sha prim stat disk token snapshot =
     (let staging = staging_name token;
          shards = MakeDirectory staging # shardSteps sha disk staging snapshot;
          written_dir = or_default (map_get (foldl (applyStep stat) disk shards) staging) []
      in shards @ [WriteDocument staging index_name (IndexDocument (index_with_manifest sha prim written_dir snapshot))])"

text \<open>The removal of the old generation takes its files one after the other.\<close>

definition removalSteps :: "string \<Rightarrow> Directory \<Rightarrow> StoreStep list" where
  "removalSteps d files = map (RemoveFile d) (map_keys files) @ [RemoveDirectory d]"

definition publishGeneration :: "StorageRoot \<Rightarrow> string \<Rightarrow> StoreStep list" where
  "publishGeneration disk token =
     (case map_get disk active_name of
        None \<Rightarrow> [RenameDirectory (staging_name token) active_name]
      | Some files \<Rightarrow>
          [RenameDirectory active_name (backup_name token), RenameDirectory (staging_name token) active_name]
          @ removalSteps (backup_name token) files)"

text \<open>
  The steps of a publication behind the recovery: none when the active generation has the content already. The result is
  the root that the recovery leaves, the steps, and whether anything is published.
\<close>

definition publishBaselineSnapshot ::
  "(string \<Rightarrow> string) \<Rightarrow> (json \<Rightarrow> string) \<Rightarrow> (json \<Rightarrow> string) \<Rightarrow> string cmp \<Rightarrow> (string \<Rightarrow> string \<Rightarrow> Document \<Rightarrow> string)
     \<Rightarrow> StorageRoot \<Rightarrow> string \<Rightarrow> BaselineSnapshot \<Rightarrow> (StorageRoot \<times> StoreStep list \<times> bool) result" where
  "publishBaselineSnapshot sha prim hash lc stat disk token snapshot =
     bind_result (normalizeBaselineSnapshot snapshot)
       (\<lambda>normalized. let fingerprinted = withSnapshotFingerprint hash lc normalized;
            recovered = recoverBaseline hash lc disk
        in Inr (if activeSnapshotMatches hash lc recovered fingerprinted then (recovered, [], False)
           else (recovered, writeStagingGeneration sha prim stat recovered token fingerprinted @ publishGeneration recovered token, True)))"

text \<open>What the \<open>catch\<close> leaves when the steps fail before the one numbered \<open>k\<close> (an error of the disk): the old generation is
  renamed back when only its backup is left, and the staging directory is removed.\<close>

definition failed_at :: "(string \<Rightarrow> string \<Rightarrow> Document \<Rightarrow> string) \<Rightarrow> StorageRoot \<Rightarrow> string \<Rightarrow> StoreStep list \<Rightarrow> nat \<Rightarrow> StorageRoot" where
  "failed_at stat disk token steps k =
     (let left = foldl (applyStep stat) disk (take k steps);
          restored = (if \<not> map_has left active_name \<and> map_has left (backup_name token)
                      then applyStep stat left (RenameDirectory (backup_name token) active_name) else left)
      in drop_key (staging_name token) restored)"

section \<open>Diagnostics\<close>

datatype GenerationState = gen_missing | gen_valid | gen_invalid
datatype ReadableState = readable_active | readable_backup | readable_missing
datatype ArtifactKind = art_staging | art_backup

record GenerationArtifact =
  ga_kind :: ArtifactKind
  ga_path :: string
  ga_state :: GenerationState
  ga_snapshotSha256 :: "string option"
  ga_reason :: "string option"

record BaselineGenerationDiagnostics =
  gd_active :: GenerationState
  gd_readable :: ReadableState
  gd_artifacts :: "GenerationArtifact list"

definition hex_digit :: "char \<Rightarrow> bool" where
  "hex_digit c = (is_digit c \<or> (97 \<le> code c \<and> code c \<le> (102 :: nat)))"

text \<open>\<open>/^sha256-[0-9a-f]{64}\.json$/\<close>\<close>

definition is_canonical_shard :: "string \<Rightarrow> bool" where
  "is_canonical_shard name =
     (starts_with name ''sha256-'' \<and> length name = 76 \<and> list_all hex_digit (take 64 (drop 7 name)) \<and> drop 71 name = ''.json'')"

definition shallowActiveState :: "Directory \<Rightarrow> GenerationState" where
  "shallowActiveState directory =
     (case parse_index (map_get directory index_name) of
        Inl _ \<Rightarrow> gen_invalid
      | Inr index \<Rightarrow> if length (filter is_canonical_shard (map_keys directory)) = bm_nFiles (bi_meta index) then gen_valid else gen_invalid)"

text \<open>\<open>/^baseline\.(staging|backup)-.+$/\<close>\<close>

definition artifact_kind :: "string \<Rightarrow> ArtifactKind option" where
  "artifact_kind name =
     (if starts_with name ''baseline.staging-'' \<and> length name > 17 then Some art_staging
      else if is_backup name \<and> length name > 16 then Some art_backup else None)"

definition generationArtifact :: "(json \<Rightarrow> string) \<Rightarrow> string cmp \<Rightarrow> string \<Rightarrow> Directory \<Rightarrow> ArtifactKind \<Rightarrow> GenerationArtifact" where
  "generationArtifact hash lc name directory kind =
     (case readBaselineGenerationDirectory hash lc directory of
        Inr s \<Rightarrow> \<lparr>ga_kind = kind, ga_path = name, ga_state = gen_valid,
                  ga_snapshotSha256 = digest_of (bm_snapshotSha256 (bi_meta (bs_index s))), ga_reason = None\<rparr>
      | Inl e \<Rightarrow> \<lparr>ga_kind = kind, ga_path = name, ga_state = gen_invalid, ga_snapshotSha256 = None, ga_reason = Some e\<rparr>)"

definition inspectBaselineGenerations ::
  "(string \<Rightarrow> string) \<Rightarrow> (json \<Rightarrow> string) \<Rightarrow> (json \<Rightarrow> string) \<Rightarrow> string cmp \<Rightarrow> bool \<Rightarrow> StorageRoot \<Rightarrow> BaselineGenerationDiagnostics" where
  "inspectBaselineGenerations sha prim hash lc deep disk =
     (let active = (case map_get disk active_name of
            None \<Rightarrow> gen_missing
          | Some d \<Rightarrow> if deep then (case validateBaselineGenerationDirectory sha prim hash lc d of Inr _ \<Rightarrow> gen_valid | Inl _ \<Rightarrow> gen_invalid)
              else shallowActiveState d);
          artifacts = js_sort (on_key lc ga_path)
            (present (map (\<lambda>(name, d). map_option (generationArtifact hash lc name d) (artifact_kind name)) disk))
      in \<lparr>gd_active = active,
          gd_readable = (if active = gen_valid then readable_active
             else if list_ex (\<lambda>a. ga_kind a = art_backup \<and> ga_state a = gen_valid) artifacts then readable_backup else readable_missing),
          gd_artifacts = artifacts\<rparr>)"

section \<open>What a reader sees\<close>

lemma map_of_drop_key: "map_of (drop_key k m) = (map_of m)(k := None)"
  by (induction m) (auto simp: drop_key_def)

lemma drop_key_same: "map_of m k = None \<Longrightarrow> drop_key k m = m"
  by (induction m) (auto simp: drop_key_def split: if_splits)

lemma map_of_keys: "k \<in> set (map_keys m) \<longleftrightarrow> map_of m k \<noteq> None"
  by (auto simp: map_of_eq_None_iff)

lemma newest_first: "xs \<noteq> [] \<Longrightarrow> \<exists>ys. rev (sort xs) = Max (set xs) # ys" for xs :: "string list"
proof -
  assume "xs \<noteq> []"
  then have "sort xs \<noteq> []" by (metis length_0_conv length_sort)
  then obtain ys y where s: "sort xs = ys @ [y]" by (metis rev_exhaust)
  have m: "set xs = set (ys @ [y])" unfolding s [symmetric] by simp
  have "sorted (ys @ [y])" unfolding s [symmetric] by simp
  then have "\<forall>x \<in> set xs. x \<le> y" unfolding m by (auto simp: sorted_append)
  moreover have "y \<in> set xs" unfolding m by simp
  ultimately have "Max (set xs) = y" by (intro Max_eqI) auto
  with s show ?thesis by simp
qed

definition backups_of :: "StorageRoot \<Rightarrow> string set" where
  "backups_of disk = {b. is_backup b \<and> map_of disk b \<noteq> None}"

lemma backups_of_keys: "backups_of disk = set (filter is_backup (map_keys disk))"
  by (auto simp: backups_of_def map_of_keys simp del: set_map_keys)

lemma backupDirectories_newest:
  "backupDirectories disk = [] \<and> backups_of disk = {} \<or> (\<exists>bs. backupDirectories disk = Max (backups_of disk) # bs \<and> backups_of disk \<noteq> {})"
proof (cases "filter is_backup (map_keys disk) = []")
  case True
  then show ?thesis unfolding backupDirectories_def backups_of_keys by simp
next
  case False
  then have "set (filter is_backup (map_keys disk)) \<noteq> {}" by (metis set_empty)
  with newest_first [OF False] show ?thesis unfolding backupDirectories_def backups_of_keys by blast
qed

lemma hasBackup_iff: "hasBackupGeneration disk \<longleftrightarrow> backups_of disk \<noteq> {}"
  using backupDirectories_newest [of disk] by (auto simp: hasBackupGeneration_def)

definition read_directory :: "(json \<Rightarrow> string) \<Rightarrow> string cmp \<Rightarrow> Directory \<Rightarrow> BaselineSnapshot option result" where
  "read_directory hash lc d =
     (if map_has d index_name then bind_result (readBaselineGenerationDirectory hash lc d) (\<lambda>s. Inr (Some s)) else Inr None)"

lemma readable_dir:
  "readableBaselineDirFor disk =
     (if map_of disk active_name \<noteq> None then active_name else if backups_of disk = {} then active_name else Max (backups_of disk))"
  using backupDirectories_newest [of disk] by (auto simp: readableBaselineDirFor_def map_has_def simp del: map_has_iff)

lemma read_generation:
  "readBaselineGeneration hash lc disk =
     (case map_of disk (readableBaselineDirFor disk) of None \<Rightarrow> Inr None | Some d \<Rightarrow> read_directory hash lc d)"
  by (simp add: readBaselineGeneration_def read_directory_def split: option.splits)

lemma read_active: "map_of disk active_name = Some d \<Longrightarrow> readBaselineGeneration hash lc disk = read_directory hash lc d"
  by (simp add: read_generation readable_dir)

lemma active_no_backup [simp]: "\<not> is_backup active_name" "\<not> is_backup (staging_name t)" "is_backup (backup_name t)"
  "staging_name t \<noteq> active_name" "backup_name t \<noteq> active_name" "backup_name t \<noteq> staging_name t'"
  "active_name \<noteq> staging_name t" "active_name \<noteq> backup_name t" "staging_name t \<noteq> backup_name t'"
  by (simp_all add: is_backup_def active_name_def staging_name_def backup_name_def starts_with_def)

lemma read_same:
  assumes "map_of a active_name = map_of b active_name" "\<And>k. is_backup k \<Longrightarrow> map_of a k = map_of b k"
  shows "readBaselineGeneration hash lc a = readBaselineGeneration hash lc b"
proof -
  have bs: "backups_of a = backups_of b" using assms(2) by (auto simp: backups_of_def)
  have d: "readableBaselineDirFor a = readableBaselineDirFor b" unfolding readable_dir bs assms(1) ..
  have "map_of a (readableBaselineDirFor a) = map_of b (readableBaselineDirFor b)"
  proof (cases "readableBaselineDirFor b = active_name")
    case True
    then show ?thesis using d assms(1) by simp
  next
    case False
    then have "readableBaselineDirFor b = Max (backups_of b)" "backups_of b \<noteq> {}" by (auto simp: readable_dir split: if_splits)
    moreover have "finite (backups_of b)" unfolding backups_of_keys by simp
    ultimately have "readableBaselineDirFor b \<in> backups_of b" by (metis Max_in)
    then show ?thesis using d assms(2) by (simp add: backups_of_def)
  qed
  then show ?thesis by (simp add: read_generation)
qed

lemma read_moved:
  assumes "map_of disk active_name = None" "map_of disk b = Some d" "is_backup b" "\<And>k. k \<in> backups_of disk \<Longrightarrow> k \<le> b"
  shows "readBaselineGeneration hash lc disk = read_directory hash lc d"
proof -
  have "b \<in> backups_of disk" using assms by (simp add: backups_of_def)
  then have "Max (backups_of disk) = b" using assms(4) by (intro Max_eqI) (auto simp: backups_of_keys)
  with \<open>b \<in> _\<close> assms(1,2) show ?thesis by (auto simp: read_generation readable_dir)
qed

section \<open>The steps\<close>

fun touches :: "StoreStep \<Rightarrow> string \<Rightarrow> bool" where
  "touches (MakeDirectory d) k = (k = d)"
| "touches (WriteDocument d n x) k = (k = d)"
| "touches (RemoveFile d n) k = (k = d)"
| "touches (RenameDirectory a b) k = (k = a \<or> k = b)"
| "touches (RemoveDirectory d) k = (k = d)"

lemma untouched: "\<not> touches s k \<Longrightarrow> map_of (applyStep stat disk s) k = map_of disk k"
  by (cases s) (auto simp: map_of_drop_key split: option.splits)

lemma untouched_steps: "\<forall>s \<in> set ss. \<not> touches s k \<Longrightarrow> map_of (foldl (applyStep stat) disk ss) k = map_of disk k"
  by (induction ss arbitrary: disk) (simp_all add: untouched)

lemma shardSteps_touch: "s \<in> set (shardSteps sha disk d snapshot) \<Longrightarrow> touches s k \<Longrightarrow> k = d"
  by (auto simp: shardSteps_def shardWrite_def copySteps_def Let_def split: option.splits)

lemma writeStaging_touch: "s \<in> set (writeStagingGeneration sha prim stat disk token snapshot) \<Longrightarrow> touches s k \<Longrightarrow> k = staging_name token"
  by (auto simp: writeStagingGeneration_def Let_def dest: shardSteps_touch)

lemma removal_touch: "s \<in> set (removalSteps d files) \<Longrightarrow> touches s k \<Longrightarrow> k = d"
  by (auto simp: removalSteps_def)

lemma rename_get:
  "map_of disk a = Some files \<Longrightarrow> a \<noteq> b \<Longrightarrow> map_of (applyStep stat disk (RenameDirectory a b)) = (map_of disk)(a := None, b := Some files)"
  by (auto simp: map_of_drop_key)

text \<open>The files of a new generation.\<close>

lemma shard_names:
  "is_shard (baselineShardFileName sha p)" "baselineShardFileName sha p \<noteq> index_name"
  "baselineShardFileName sha p = baselineShardFileName sha p' \<longleftrightarrow> sha p = sha p'"
  by (auto simp: is_shard_def baselineShardFileName_def index_name_def ends_with_iff)

definition shard_files :: "(string \<Rightarrow> string) \<Rightarrow> (string \<Rightarrow> string \<Rightarrow> Document \<Rightarrow> string) \<Rightarrow> string \<Rightarrow> StoredEntry list \<Rightarrow> Directory" where
  "shard_files sha stat d entries =
     map (\<lambda>e. (baselineShardFileName sha (se_path e),
        \<lparr>sf_document = EntryDocument e, sf_stat = stat d (baselineShardFileName sha (se_path e)) (EntryDocument e)\<rparr>)) entries"

lemma written_shards:
  assumes "map_of disk d = Some (shard_files sha stat d done)" "distinct (map (\<lambda>e. sha (se_path e)) (done @ es))"
  shows "map_of (foldl (applyStep stat) disk (map (shardWrite sha d) es)) d = Some (shard_files sha stat d (done @ es))"
  using assms
proof (induction es arbitrary: disk "done")
  case (Cons e es)
  let ?n = "baselineShardFileName sha (se_path e)"
  have "?n \<notin> fst ` set (shard_files sha stat d done)" using Cons.prems(2) by (auto simp: shard_files_def shard_names)
  then have "map_of (applyStep stat disk (shardWrite sha d e)) d = Some (shard_files sha stat d (done @ [e]))"
    using Cons.prems(1) by (simp add: shardWrite_def map_set_new) (simp add: shard_files_def)
  from Cons.IH [OF this] Cons.prems(2) show ?case by simp
qed simp

definition new_directory ::
  "(string \<Rightarrow> string) \<Rightarrow> (json \<Rightarrow> string) \<Rightarrow> (string \<Rightarrow> string \<Rightarrow> Document \<Rightarrow> string) \<Rightarrow> string \<Rightarrow> BaselineSnapshot \<Rightarrow> Directory" where
  "new_directory sha prim stat d snapshot =
     (let files = shard_files sha stat d (bs_entries snapshot);
          document = IndexDocument (index_with_manifest sha prim files snapshot)
      in files @ [(index_name, \<lparr>sf_document = document, sf_stat = stat d index_name document\<rparr>)])"

lemma index_not_shard_file: "index_name \<notin> fst ` set (shard_files sha stat d es)"
  using shard_names(2) [of sha] by (auto simp: shard_files_def dest: sym)

lemma written_generation:
  assumes fresh: "map_of disk (staging_name token) = None" and none: "bs_changedPaths snapshot = None"
    and d: "distinct (map (\<lambda>e. sha (se_path e)) (bs_entries snapshot))"
  shows "map_of (foldl (applyStep stat) disk (writeStagingGeneration sha prim stat disk token snapshot)) (staging_name token)
    = Some (new_directory sha prim stat (staging_name token) snapshot)"
proof -
  let ?d = "staging_name token"
  let ?made = "applyStep stat disk (MakeDirectory ?d)"
  have "map_of ?made ?d = Some (shard_files sha stat ?d [])"
    using fresh by (auto simp: shard_files_def map_of_eq_None_iff)
  from written_shards [OF this] d
  have w: "map_of (foldl (applyStep stat) ?made (map (shardWrite sha ?d) (bs_entries snapshot))) ?d
      = Some (shard_files sha stat ?d (bs_entries snapshot))"
    by simp
  have steps: "shardSteps sha disk ?d snapshot = map (shardWrite sha ?d) (bs_entries snapshot)" by (simp add: shardSteps_def none)
  show ?thesis
    unfolding writeStagingGeneration_def Let_def steps new_directory_def
    using w index_not_shard_file [of sha stat ?d "bs_entries snapshot"] by (simp add: map_set_new)
qed

lemma map_result_map: "map_result f (map g xs) = map_result (\<lambda>x. f (g x)) xs"
  by (induction xs) (auto split: sum.splits)

lemma map_result_ok: "(\<And>x. x \<in> set xs \<Longrightarrow> f x = Inr (g x)) \<Longrightarrow> map_result f xs = Inr (map g xs)"
  by (induction xs) simp_all

lemma identity_ignores:
  "snapshotIdentity hash lc (s\<lparr>bs_index := (bs_index s)\<lparr>bi_meta := (bi_meta (bs_index s))\<lparr>bm_snapshotSha256 := d\<rparr>\<rparr>\<rparr>) = snapshotIdentity hash lc s"
  "snapshotIdentity hash lc (s\<lparr>bs_index := (bs_index s)\<lparr>bi_meta := (bi_meta (bs_index s))\<lparr>bm_shardManifestSha256 := d\<rparr>\<rparr>\<rparr>) = snapshotIdentity hash lc s"
  by (simp_all add: snapshotIdentity_def comparableSnapshot_def compared_meta_def)

lemma validateEntries_meta:
  "validateEntries (i\<lparr>bi_meta := (bi_meta i)\<lparr>bm_snapshotSha256 := d\<rparr>\<rparr>) es = validateEntries i es"
  "validateEntries (i\<lparr>bi_meta := (bi_meta i)\<lparr>bm_shardManifestSha256 := d\<rparr>\<rparr>) es = validateEntries i es"
  by (simp_all add: validateEntries_def)

definition as_read :: "(string \<Rightarrow> string) \<Rightarrow> (json \<Rightarrow> string) \<Rightarrow> Directory \<Rightarrow> BaselineSnapshot \<Rightarrow> BaselineSnapshot" where
  "as_read sha prim files snapshot =
     \<lparr>bs_index = index_with_manifest sha prim files snapshot, bs_entries = bs_entries snapshot, bs_changedPaths = None, bs_deletedPaths = None\<rparr>"

lemma shard_file_get:
  assumes "distinct (map (\<lambda>e. sha (se_path e)) es)" "e \<in> set es"
  shows "map_of (shard_files sha stat d es @ rest) (baselineShardFileName sha (se_path e))
    = Some \<lparr>sf_document = EntryDocument e, sf_stat = stat d (baselineShardFileName sha (se_path e)) (EntryDocument e)\<rparr>"
proof -
  have "distinct (map fst (shard_files sha stat d es))"
    using assms(1) by (simp add: shard_files_def comp_def distinct_map inj_on_def shard_names)
  moreover have "(baselineShardFileName sha (se_path e), \<lparr>sf_document = EntryDocument e, sf_stat = stat d (baselineShardFileName sha (se_path e)) (EntryDocument e)\<rparr>)
      \<in> set (shard_files sha stat d es)"
    using assms(2) by (auto simp: shard_files_def)
  ultimately have "map_of (shard_files sha stat d es) (baselineShardFileName sha (se_path e))
      = Some \<lparr>sf_document = EntryDocument e, sf_stat = stat d (baselineShardFileName sha (se_path e)) (EntryDocument e)\<rparr>"
    by (rule map_of_is_SomeI)
  then show ?thesis by simp
qed

lemma read_new_directory:
  assumes d: "distinct (map (\<lambda>e. sha (se_path e)) (bs_entries snapshot))"
    and v: "validateEntries (bs_index snapshot) (bs_entries snapshot) = Inr ()"
    and i: "bm_snapshotSha256 (bi_meta (bs_index snapshot)) = Some (snapshotIdentity hash lc snapshot)"
  shows "read_directory hash lc (new_directory sha prim stat dir snapshot)
    = Inr (Some (as_read sha prim (shard_files sha stat dir (bs_entries snapshot)) snapshot))"
proof -
  let ?files = "shard_files sha stat dir (bs_entries snapshot)"
  let ?d = "new_directory sha prim stat dir snapshot"
  let ?index = "index_with_manifest sha prim ?files snapshot"
  let ?s = "as_read sha prim ?files snapshot"
  have "map_of ?files index_name = None" using index_not_shard_file by (simp add: map_of_eq_None_iff)
  then have index: "parse_index (map_of ?d index_name) = Inr ?index" "map_has ?d index_name"
    by (simp_all add: new_directory_def Let_def parse_index_def map_add_def)
  have keys: "filter is_shard (map_keys ?d) = map (\<lambda>e. baselineShardFileName sha (se_path e)) (bs_entries snapshot)"
    by (simp add: new_directory_def Let_def map_keys_def shard_files_def comp_def is_shard_def [of index_name] shard_names filter_map)
  have entries: "map_result (\<lambda>name. parse_entry (the (map_of ?d name))) (map (\<lambda>e. baselineShardFileName sha (se_path e)) (bs_entries snapshot))
      = Inr (bs_entries snapshot)"
  proof -
    have "map_result (\<lambda>name. parse_entry (the (map_of ?d name))) (map (\<lambda>e. baselineShardFileName sha (se_path e)) (bs_entries snapshot))
        = map_result (\<lambda>e. parse_entry (the (map_of ?d (baselineShardFileName sha (se_path e))))) (bs_entries snapshot)"
      by (rule map_result_map)
    also have "\<dots> = Inr (map id (bs_entries snapshot))"
      by (rule map_result_ok) (simp add: new_directory_def Let_def shard_file_get [OF d] parse_entry_def del: map_of_append)
    finally show ?thesis by simp
  qed
  have valid: "validateEntries ?index (bs_entries snapshot) = Inr ()" using v by (simp add: index_with_manifest_def validateEntries_meta)
  have same: "snapshotIdentity hash lc ?s = snapshotIdentity hash lc snapshot"
    by (simp add: as_read_def index_with_manifest_def snapshotIdentity_def comparableSnapshot_def compared_meta_def)
  have "bm_snapshotSha256 (bi_meta (bs_index ?s)) = Some (snapshotIdentity hash lc ?s)"
    using i by (simp only: same) (simp add: as_read_def index_with_manifest_def)
  then have identity: "validatePersistedIdentity hash lc ?s = Inr ()"
    by (simp add: validatePersistedIdentity_def digest_of_def)
  show ?thesis
    using index(2) identity
    by (simp add: read_directory_def readBaselineGenerationDirectory_def index(1) keys entries bind_result_def valid Let_def as_read_def del: map_has_iff)
qed

section \<open>Publication is atomic\<close>

lemma publish_states:
  assumes "s \<in> {0..length (publishGeneration disk token)}"
    and act: "map_of disk active_name = Some files" and stg: "map_of disk (staging_name token) = Some new"
    and fresh: "map_of disk (backup_name token) = None"
    and here: "map_of there = map_of disk"
  shows "let left = foldl (applyStep stat) there (take s (publishGeneration disk token))
    in (map_of left active_name = Some files \<and> (\<forall>k. is_backup k \<longrightarrow> map_of left k = map_of disk k))
       \<or> (map_of left active_name = None \<and> map_of left (backup_name token) = Some files
          \<and> (\<forall>k. is_backup k \<and> k \<noteq> backup_name token \<longrightarrow> map_of left k = map_of disk k))
       \<or> map_of left active_name = Some new"
proof -
  let ?b = "backup_name token" and ?s = "staging_name token"
  define one where "one = applyStep stat there (RenameDirectory active_name ?b)"
  have o: "map_of one = (map_of disk)(active_name := None, ?b := Some files)"
    unfolding one_def by (subst rename_get) (use act here in simp_all)
  define two where "two = applyStep stat one (RenameDirectory ?s active_name)"
  have "map_of one ?s = Some new" using stg by (simp add: o)
  then have t: "map_of two = (map_of one)(?s := None, active_name := Some new)" unfolding two_def by (rule rename_get) simp
  have steps: "publishGeneration disk token = RenameDirectory active_name ?b # RenameDirectory ?s active_name # removalSteps ?b files"
    by (simp add: publishGeneration_def act)
  consider "s = 0" | "s = 1" | n where "s = Suc (Suc n)" by (metis One_nat_def not0_implies_Suc)
  then show ?thesis
  proof cases
    case 1
    then show ?thesis using act here by simp
  next
    case 2
    then have "foldl (applyStep stat) there (take s (publishGeneration disk token)) = one" by (simp add: steps one_def)
    then show ?thesis using o by simp
  next
    case (3 n)
    then have e: "foldl (applyStep stat) there (take s (publishGeneration disk token)) = foldl (applyStep stat) two (take n (removalSteps ?b files))"
      by (simp add: steps one_def two_def)
    have "\<forall>x \<in> set (take n (removalSteps ?b files)). \<not> touches x active_name"
      using removal_touch [of _ ?b files active_name] by (auto dest: in_set_takeD)
    then have "map_of (foldl (applyStep stat) two (take n (removalSteps ?b files))) active_name = Some new"
      using untouched_steps t by fastforce
    then show ?thesis unfolding e by simp
  qed
qed

lemma publish_states_new:
  assumes act: "map_of disk active_name = None" and stg: "map_of disk (staging_name token) = Some new" and here: "map_of there = map_of disk"
  shows "let left = foldl (applyStep stat) there (take s (publishGeneration disk token))
    in (map_of left active_name = None \<and> (\<forall>k. is_backup k \<longrightarrow> map_of left k = map_of disk k)) \<or> map_of left active_name = Some new"
proof (cases s)
  case 0
  then show ?thesis using act here by simp
next
  case (Suc n)
  then have "foldl (applyStep stat) there (take s (publishGeneration disk token)) = applyStep stat there (RenameDirectory (staging_name token) active_name)"
    by (simp add: publishGeneration_def act)
  moreover have "map_of (applyStep stat there (RenameDirectory (staging_name token) active_name)) = (map_of there)(staging_name token := None, active_name := Some new)"
    by (rule rename_get) (use stg here in simp_all)
  ultimately show ?thesis by simp
qed

lemma publish_end:
  assumes stg: "map_of there (staging_name token) = Some new" and here: "map_of there active_name = map_of disk active_name"
  shows "map_of (foldl (applyStep stat) there (publishGeneration disk token)) active_name = Some new"
proof (cases "map_of disk active_name")
  case None
  have "map_of (applyStep stat there (RenameDirectory (staging_name token) active_name)) active_name = Some new"
    by (subst rename_get [OF stg]) simp_all
  then show ?thesis by (simp add: publishGeneration_def None del: applyStep.simps)
next
  case (Some files)
  define one where "one = applyStep stat there (RenameDirectory active_name (backup_name token))"
  have "map_of one (staging_name token) = Some new" unfolding one_def by (subst rename_get) (use Some here stg in simp_all)
  then have two: "map_of (applyStep stat one (RenameDirectory (staging_name token) active_name)) active_name = Some new"
    by (subst rename_get) simp_all
  have "\<forall>x \<in> set (removalSteps (backup_name token) files). \<not> touches x active_name" using removal_touch by (metis active_no_backup(5))
  then show ?thesis using two by (simp add: publishGeneration_def Some one_def untouched_steps del: applyStep.simps)
qed

text \<open>The states a publication goes through, as a reader sees them.\<close>

lemma publication_state:
  assumes fresh: "map_of disk (staging_name token) = None" "\<And>k. k \<in> backups_of disk \<Longrightarrow> k < backup_name token"
    and none: "bs_changedPaths snapshot = None" and d: "distinct (map (\<lambda>e. sha (se_path e)) (bs_entries snapshot))"
    and steps: "steps = writeStagingGeneration sha prim stat disk token snapshot @ publishGeneration disk token"
    and left: "left = foldl (applyStep stat) disk (take k steps)"
  shows "readBaselineGeneration hash lc left = readBaselineGeneration hash lc disk
      \<and> (map_of left active_name = map_of disk active_name \<and> (\<forall>k. is_backup k \<longrightarrow> map_of left k = map_of disk k)
         \<or> (\<exists>files. map_of disk active_name = Some files \<and> map_of left active_name = None \<and> map_of left (backup_name token) = Some files))
    \<or> map_of left active_name = Some (new_directory sha prim stat (staging_name token) snapshot)"
proof -
  let ?w = "writeStagingGeneration sha prim stat disk token snapshot"
  let ?new = "new_directory sha prim stat (staging_name token) snapshot"
  have "backup_name token \<notin> backups_of disk" using fresh(2) by blast
  then have b: "map_of disk (backup_name token) = None" by (simp add: backups_of_def)
  have same: "map_of (foldl (applyStep stat) disk (take j ?w)) i = map_of disk i" if "i \<noteq> staging_name token" for i j
    by (rule untouched_steps) (use that writeStaging_touch in \<open>metis in_set_takeD\<close>)
  show ?thesis
  proof (cases "k \<le> length ?w")
    case True
    then have l: "left = foldl (applyStep stat) disk (take k ?w)" using left steps by simp
    have "map_of left active_name = map_of disk active_name" "\<forall>i. is_backup i \<longrightarrow> map_of left i = map_of disk i"
      unfolding l using same active_no_backup by metis+
    then show ?thesis using read_same [of left disk hash lc] by blast
  next
    case False
    let ?there = "foldl (applyStep stat) disk ?w"
    let ?mid = "(staging_name token, ?new) # drop_key (staging_name token) disk"
    have l: "left = foldl (applyStep stat) ?there (take (k - length ?w) (publishGeneration disk token))" using left steps False by simp
    have here: "map_of ?there = map_of ?mid"
    proof
      fix i show "map_of ?there i = map_of ?mid i"
        using same [of i "length ?w"] written_generation [OF fresh(1) none d] by (auto simp: map_of_drop_key)
    qed
    have mid: "map_of ?mid active_name = map_of disk active_name" "\<And>i. is_backup i \<Longrightarrow> map_of ?mid i = map_of disk i" "map_of ?mid (staging_name token) = Some ?new"
      using active_no_backup by (auto simp: map_of_drop_key)
    have pub: "publishGeneration disk token = publishGeneration ?mid token" unfolding publishGeneration_def mid(1) ..
    show ?thesis
    proof (cases "map_of disk active_name")
      case None
      from publish_states_new [OF _ mid(3) here, where s = "k - length ?w" and stat = stat] mid None
      consider "map_of left active_name = None" "\<forall>i. is_backup i \<longrightarrow> map_of left i = map_of disk i" | "map_of left active_name = Some ?new"
        unfolding l pub Let_def by auto
      then show ?thesis
      proof cases
        case 1
        then show ?thesis using read_same [of left disk hash lc] None by simp
      qed simp
    next
      case (Some files)
      have "k - length ?w \<in> {0..length (publishGeneration ?mid token)} \<or> length (publishGeneration ?mid token) \<le> k - length ?w" by auto
      then obtain s where s: "s \<in> {0..length (publishGeneration ?mid token)}"
          "take (k - length ?w) (publishGeneration ?mid token) = take s (publishGeneration ?mid token)"
        by (metis atLeastAtMost_iff le0 order_refl take_all)
      have bm: "map_of ?mid (backup_name token) = None" unfolding mid(2) [OF active_no_backup(3)] by (rule b)
      from publish_states [OF s(1) _ mid(3) bm here, where files = files and stat = stat] mid(1) Some
      consider "map_of left active_name = Some files" "\<forall>i. is_backup i \<longrightarrow> map_of left i = map_of disk i"
        | "map_of left active_name = None" "map_of left (backup_name token) = Some files"
          "\<forall>i. is_backup i \<and> i \<noteq> backup_name token \<longrightarrow> map_of left i = map_of disk i"
        | "map_of left active_name = Some ?new"
        unfolding l pub s(2) Let_def using mid(2) by auto
      then show ?thesis
      proof cases
        case 1
        then show ?thesis using read_same [of left disk hash lc] Some by simp
      next
        case 2
        have "i \<le> backup_name token" if "i \<in> backups_of left" for i
          using that 2(3) fresh(2) [of i] by (cases "i = backup_name token") (auto simp: backups_of_def less_imp_le)
        from read_moved [OF 2(1,2) _ this] read_active [OF Some] 2 Some show ?thesis by simp
      qed simp
    qed
  qed
qed

lemma publish_Inr:
  assumes "publishBaselineSnapshot sha prim hash lc stat disk token snapshot = Inr (recovered, steps, published)"
  obtains fp where "recovered = recoverBaseline hash lc disk" "bs_changedPaths fp = None" "bs_entries fp = bs_entries snapshot"
    "snapshotIdentity hash lc fp = snapshotIdentity hash lc snapshot"
    "validateEntries (bs_index fp) (bs_entries fp) = Inr ()"
    "bm_snapshotSha256 (bi_meta (bs_index fp)) = Some (snapshotIdentity hash lc fp)"
    "published = (\<not> activeSnapshotMatches hash lc recovered fp)"
    "steps = (if published then writeStagingGeneration sha prim stat recovered token fp @ publishGeneration recovered token else [])"
proof -
  from assms obtain n where n: "normalizeBaselineSnapshot snapshot = Inr n" by (auto simp: publishBaselineSnapshot_def bind_result_def split: sum.splits)
  then have v: "validateEntries (bs_index snapshot) (bs_entries snapshot) = Inr ()"
    and n': "n = \<lparr>bs_index = bs_index snapshot, bs_entries = bs_entries snapshot, bs_changedPaths = None, bs_deletedPaths = None\<rparr>"
    by (auto simp: normalizeBaselineSnapshot_def bind_result_def split: sum.splits)
  let ?fp = "withSnapshotFingerprint hash lc n"
  have same: "snapshotIdentity hash lc n = snapshotIdentity hash lc snapshot"
    by (simp add: n' snapshotIdentity_def comparableSnapshot_def)
  have id: "snapshotIdentity hash lc ?fp = snapshotIdentity hash lc n" unfolding withSnapshotFingerprint_def by (rule identity_ignores(1))
  show ?thesis
  proof (rule that [of ?fp])
    show "bm_snapshotSha256 (bi_meta (bs_index ?fp)) = Some (snapshotIdentity hash lc ?fp)"
      unfolding id by (simp add: withSnapshotFingerprint_def)
    show "validateEntries (bs_index ?fp) (bs_entries ?fp) = Inr ()"
      using v by (simp add: withSnapshotFingerprint_def n' validateEntries_meta)
  qed (use assms id same in \<open>auto simp: publishBaselineSnapshot_def n bind_result_def Let_def withSnapshotFingerprint_def n' split: if_splits\<close>)
qed

text \<open>A generation with the entries and the identity of a snapshot.\<close>

definition shows_snapshot :: "(json \<Rightarrow> string) \<Rightarrow> string cmp \<Rightarrow> BaselineSnapshot \<Rightarrow> BaselineSnapshot option result \<Rightarrow> bool" where
  "shows_snapshot hash lc snapshot r =
     (case r of Inr (Some s) \<Rightarrow> bs_entries s = bs_entries snapshot \<and> snapshotIdentity hash lc s = snapshotIdentity hash lc snapshot
        \<and> bm_snapshotSha256 (bi_meta (bs_index s)) = Some (snapshotIdentity hash lc snapshot) | _ \<Rightarrow> False)"

lemma distinct_shas:
  assumes "validateEntries i es = Inr ()" "inj_on sha (set (map se_path es))"
  shows "distinct (map (\<lambda>e. sha (se_path e)) es)"
proof -
  have "length (uniq (map se_path es)) = length (map se_path es)" using assms(1) by (auto simp: validateEntries_def split: if_splits)
  then have "distinct (map se_path es)" by (metis card_distinct length_uniq_card)
  then have "distinct (map sha (map se_path es))" using assms(2) by (simp only: distinct_map)
  then show ?thesis by (simp add: comp_def)
qed

lemma shows_new:
  assumes "bs_entries fp = bs_entries snapshot" "snapshotIdentity hash lc fp = snapshotIdentity hash lc snapshot"
    "validateEntries (bs_index fp) (bs_entries fp) = Inr ()" "bm_snapshotSha256 (bi_meta (bs_index fp)) = Some (snapshotIdentity hash lc fp)"
    and "inj_on sha (set (map se_path (bs_entries snapshot)))"
    and "map_of left active_name = Some (new_directory sha prim stat (staging_name token) fp)"
  shows "shows_snapshot hash lc snapshot (readBaselineGeneration hash lc left)"
proof -
  have d: "distinct (map (\<lambda>e. sha (se_path e)) (bs_entries fp))" using distinct_shas [OF assms(3)] assms(1,5) by simp
  show ?thesis
    unfolding read_active [OF assms(6)] read_new_directory [OF d assms(3,4)] shows_snapshot_def
    using assms(1,2,4) by (simp add: as_read_def index_with_manifest_def snapshotIdentity_def comparableSnapshot_def compared_meta_def)
qed

text \<open>C7: Whatever moment a publication is interrupted at, a reader sees either exactly what it saw before or the complete new
  generation, and once it has run to its end the new one.\<close>

theorem publication_is_atomic:
  assumes "publishBaselineSnapshot sha prim hash lc stat disk token snapshot = Inr (recovered, steps, published)"
    and "map_of recovered (staging_name token) = None" "\<And>k. k \<in> backups_of recovered \<Longrightarrow> k < backup_name token"
    and "inj_on sha (set (map se_path (bs_entries snapshot)))"
  shows "(readBaselineGeneration hash lc (foldl (applyStep stat) recovered (take k steps)) = readBaselineGeneration hash lc recovered
      \<or> shows_snapshot hash lc snapshot (readBaselineGeneration hash lc (foldl (applyStep stat) recovered (take k steps))))
    \<and> (published \<longrightarrow> shows_snapshot hash lc snapshot (readBaselineGeneration hash lc (foldl (applyStep stat) recovered steps)))"
proof -
  obtain fp where fp: "bs_changedPaths fp = None" "bs_entries fp = bs_entries snapshot"
    "snapshotIdentity hash lc fp = snapshotIdentity hash lc snapshot" "validateEntries (bs_index fp) (bs_entries fp) = Inr ()"
    "bm_snapshotSha256 (bi_meta (bs_index fp)) = Some (snapshotIdentity hash lc fp)"
    "steps = (if published then writeStagingGeneration sha prim stat recovered token fp @ publishGeneration recovered token else [])"
    by (rule publish_Inr [OF assms(1)])
  note new = shows_new [OF fp(2-5) assms(4)]
  have d: "distinct (map (\<lambda>e. sha (se_path e)) (bs_entries fp))" using distinct_shas [OF fp(4)] assms(4) fp(2) by simp
  show ?thesis
  proof (cases published)
    case True
    then have st: "steps = writeStagingGeneration sha prim stat recovered token fp @ publishGeneration recovered token" using fp(6) by simp
    let ?there = "foldl (applyStep stat) recovered (writeStagingGeneration sha prim stat recovered token fp)"
    have "map_of ?there active_name = map_of recovered active_name"
      using untouched_steps writeStaging_touch by (metis active_no_backup(4))
    from publish_end [OF written_generation [OF assms(2) fp(1) d] this]
    have "map_of (foldl (applyStep stat) recovered steps) active_name = Some (new_directory sha prim stat (staging_name token) fp)"
      by (simp add: st)
    from new [OF this] publication_state [OF assms(2,3) fp(1) d st refl, where k = k and hash = hash and lc = lc] new
    show ?thesis by blast
  qed (simp add: fp(6))
qed

definition sample_entry :: StoredEntry where
  "sample_entry = \<lparr>se_path = ''a.ts'', se_fileKind = None, se_fields = JNull, se_testMetrics = None\<rparr>"

definition sample_snapshot :: BaselineSnapshot where
  "sample_snapshot = \<lparr>bs_index = \<lparr>bi_version = ''1'', bi_meta = \<lparr>bm_scanAt = ''t'', bm_snapshotSha256 = None, bm_shardManifestSha256 = None,
      bm_nFiles = 1, bm_nProductionFiles = None, bm_nTestFiles = None, bm_fields = []\<rparr>\<rparr>,
     bs_entries = [sample_entry], bs_changedPaths = None, bs_deletedPaths = None\<rparr>"

lemma sample_valid_entries: "validateEntries (bs_index sample_snapshot) (bs_entries sample_snapshot) = Inr ()"
  by (simp add: validateEntries_def sample_snapshot_def sample_entry_def assertCount_def bind_result_def)

theorem publication_is_atomic_witness:
  "\<exists>recovered steps. publishBaselineSnapshot id (\<lambda>_. []) (\<lambda>_. ''h'') code_unit_cmp (\<lambda>_ _ _. ''s'') [] ''1'' sample_snapshot = Inr (recovered, steps, True)
    \<and> shows_snapshot (\<lambda>_. ''h'') code_unit_cmp sample_snapshot (readBaselineGeneration (\<lambda>_. ''h'') code_unit_cmp (foldl (applyStep (\<lambda>_ _ _. ''s'')) recovered steps))"
proof -
  have r: "recoverBaseline (\<lambda>_. ''h'') code_unit_cmp [] = []" by (simp add: recoverBaseline_def backupDirectories_def map_keys_def)
  have "activeSnapshotMatches (\<lambda>_. ''h'') code_unit_cmp [] s = False" for s by (simp add: activeSnapshotMatches_def readBaselineGeneration_def)
  then obtain steps where p: "publishBaselineSnapshot id (\<lambda>_. []) (\<lambda>_. ''h'') code_unit_cmp (\<lambda>_ _ _. ''s'') [] ''1'' sample_snapshot = Inr ([], steps, True)"
    using r sample_valid_entries by (simp add: publishBaselineSnapshot_def normalizeBaselineSnapshot_def bind_result_def Let_def)
  from publication_is_atomic [OF p] p show ?thesis by (auto simp: backups_of_def)
qed

text \<open>When an error stops a publication the caller finds the generation that was readable before, or the new one when the error
  came after the publication; nothing stays in the staging directory.\<close>

theorem failed_publication_keeps:
  assumes "publishBaselineSnapshot sha prim hash lc stat disk token snapshot = Inr (recovered, steps, published)"
    and "map_of recovered (staging_name token) = None" "\<And>k. k \<in> backups_of recovered \<Longrightarrow> k < backup_name token"
    and "inj_on sha (set (map se_path (bs_entries snapshot)))"
  shows "map_of (failed_at stat recovered token steps k) (staging_name token) = None
    \<and> (readBaselineGeneration hash lc (failed_at stat recovered token steps k) = readBaselineGeneration hash lc recovered
       \<or> shows_snapshot hash lc snapshot (readBaselineGeneration hash lc (failed_at stat recovered token steps k)))"
proof -
  obtain fp where fp: "bs_changedPaths fp = None" "bs_entries fp = bs_entries snapshot"
    "snapshotIdentity hash lc fp = snapshotIdentity hash lc snapshot" "validateEntries (bs_index fp) (bs_entries fp) = Inr ()"
    "bm_snapshotSha256 (bi_meta (bs_index fp)) = Some (snapshotIdentity hash lc fp)"
    "steps = (if published then writeStagingGeneration sha prim stat recovered token fp @ publishGeneration recovered token else [])"
    by (rule publish_Inr [OF assms(1)])
  note new = shows_new [OF fp(2-5) assms(4)]
  have d: "distinct (map (\<lambda>e. sha (se_path e)) (bs_entries fp))" using distinct_shas [OF fp(4)] assms(4) fp(2) by simp
  have "backup_name token \<notin> backups_of recovered" using assms(3) by blast
  then have b: "map_of recovered (backup_name token) = None" by (simp add: backups_of_def)
  define left where "left = foldl (applyStep stat) recovered (take k steps)"
  let ?f = "failed_at stat recovered token steps k"
  have gone: "map_of ?f (staging_name token) = None" by (simp add: failed_at_def Let_def map_of_drop_key)
  have cases: "map_of left active_name = map_of recovered active_name \<and> (\<forall>k. is_backup k \<longrightarrow> map_of left k = map_of recovered k)
      \<or> (\<exists>files. map_of recovered active_name = Some files \<and> map_of left active_name = None \<and> map_of left (backup_name token) = Some files)
      \<or> map_of left active_name = Some (new_directory sha prim stat (staging_name token) fp)"
  proof (cases published)
    case True
    then show ?thesis
      using publication_state [OF assms(2,3) fp(1) d _ left_def, where hash = hash and lc = lc] fp(6) by auto
  qed (simp add: left_def fp(6))
  then consider "map_of left active_name = map_of recovered active_name" "\<forall>k. is_backup k \<longrightarrow> map_of left k = map_of recovered k"
    | files where "map_of recovered active_name = Some files" "map_of left active_name = None" "map_of left (backup_name token) = Some files"
    | "map_of left active_name = Some (new_directory sha prim stat (staging_name token) fp)"
    by blast
  then show ?thesis
  proof cases
    case 1
    then have "\<not> map_has left (backup_name token)" using b by (simp add: map_has_def del: map_has_iff)
    then have "map_of ?f = (map_of left)(staging_name token := None)"
      by (simp add: failed_at_def Let_def left_def map_of_drop_key del: map_has_iff)
    then have "readBaselineGeneration hash lc ?f = readBaselineGeneration hash lc recovered"
      using 1 by (intro read_same) auto
    with gone show ?thesis by blast
  next
    case (2 files)
    then have "map_of ?f active_name = Some files"
      by (simp add: failed_at_def Let_def left_def [symmetric] map_of_drop_key map_has_def rename_get del: map_has_iff applyStep.simps)
    then show ?thesis using gone read_active 2(1) by metis
  next
    case 3
    then have "map_of ?f active_name = Some (new_directory sha prim stat (staging_name token) fp)"
      by (simp add: failed_at_def Let_def left_def [symmetric] map_of_drop_key map_has_def del: map_has_iff applyStep.simps)
    from new [OF this] gone show ?thesis by blast
  qed
qed

text \<open>A backup that an interrupted publication left behind is never removed by a later one, so the writes that ask for no
  pending recovery stay refused although a full scan has been published.\<close>

definition assertNoPendingBaselineRecovery :: "StorageRoot \<Rightarrow> unit result" where
  "assertNoPendingBaselineRecovery disk =
     (if hasBackupGeneration disk then Inl ''baseline recovery is pending; complete a full scan before incremental writes'' else Inr ())"

theorem stale_backup_stays:
  assumes "publishBaselineSnapshot sha prim hash lc stat disk token snapshot = Inr (recovered, steps, published)"
    and "map_of disk active_name \<noteq> None" "stale \<in> backups_of disk" "stale \<noteq> backup_name token"
  shows "assertNoPendingBaselineRecovery (foldl (applyStep stat) recovered steps)
    = Inl ''baseline recovery is pending; complete a full scan before incremental writes''"
proof -
  obtain fp where fp: "recovered = recoverBaseline hash lc disk"
    "steps = (if published then writeStagingGeneration sha prim stat recovered token fp @ publishGeneration recovered token else [])"
    by (rule publish_Inr [OF assms(1)])
  have r: "recovered = disk" using fp(1) assms(2) by (simp add: recoverBaseline_def map_has_def del: map_has_iff)
  have bk: "is_backup stale" using assms(3) by (simp add: backups_of_def)
  have "\<not> touches x stale" if "x \<in> set steps" for x
  proof -
    have ne: "stale \<noteq> staging_name token" "stale \<noteq> active_name" using bk active_no_backup by metis+
    from that consider "x \<in> set (writeStagingGeneration sha prim stat recovered token fp)" | "x \<in> set (publishGeneration recovered token)"
      by (auto simp: fp(2) split: if_splits)
    then show ?thesis
    proof cases
      case 1
      then show ?thesis using writeStaging_touch ne by metis
    next
      case 2
      then show ?thesis using ne assms(4) removal_touch by (fastforce simp: publishGeneration_def split: option.splits)
    qed
  qed
  then have "map_of (foldl (applyStep stat) recovered steps) stale = map_of disk stale" by (simp add: untouched_steps r)
  then have "stale \<in> backups_of (foldl (applyStep stat) recovered steps)" using assms(3) by (simp add: backups_of_def)
  then show ?thesis by (auto simp: assertNoPendingBaselineRecovery_def hasBackup_iff)
qed

text \<open>The list of changed paths never has an effect: the normalization drops it, so every publication writes every shard.\<close>

theorem publication_ignores_changed_paths:
  "publishBaselineSnapshot sha prim hash lc stat disk token (snapshot\<lparr>bs_changedPaths := changed, bs_deletedPaths := deleted\<rparr>)
   = publishBaselineSnapshot sha prim hash lc stat disk token snapshot"
  by (simp add: publishBaselineSnapshot_def normalizeBaselineSnapshot_def)

text \<open>With an unreadable active generation the diagnostics call a valid backup readable, while every reader takes the active
  directory and fails.\<close>

theorem diagnostics_disagree_with_reader:
  assumes "map_of disk active_name = Some d" "validateBaselineGenerationDirectory sha prim hash lc d = Inl e"
    and "(b, g) \<in> set disk" "artifact_kind b = Some art_backup" "readBaselineGenerationDirectory hash lc g = Inr s"
  shows "gd_readable (inspectBaselineGenerations sha prim hash lc True disk) = readable_backup \<and> readableBaselineDirFor disk = active_name"
proof -
  have "generationArtifact hash lc b g art_backup \<in> set (present (map (\<lambda>(name, d). map_option (generationArtifact hash lc name d) (artifact_kind name)) disk))"
    using assms(3,4) by (force)
  moreover have "ga_kind (generationArtifact hash lc b g art_backup) = art_backup" "ga_state (generationArtifact hash lc b g art_backup) = gen_valid"
    using assms(5) by (simp_all add: generationArtifact_def)
  ultimately have "\<exists>a \<in> set (present (map (\<lambda>(name, d). map_option (generationArtifact hash lc name d) (artifact_kind name)) disk)). ga_kind a = art_backup \<and> ga_state a = gen_valid"
    by blast
  then have "list_ex (\<lambda>a. ga_kind a = art_backup \<and> ga_state a = gen_valid) (js_sort (on_key lc ga_path)
      (present (map (\<lambda>(name, d). map_option (generationArtifact hash lc name d) (artifact_kind name)) disk)))"
    unfolding list_ex_iff set_js_sort .
  then show ?thesis using assms(1,2) by (simp add: inspectBaselineGenerations_def Let_def readable_dir)
qed

end
