(* ===== verification/Baseline_Access.thy ===== *)
theory Baseline_Access
  imports Baseline_Store Js_Path
begin

text \<open>
  Reading and writing single entries of the baseline (\<open>adapter/storage/JsonBaselineReadStore.ts\<close>, \<open>JsonBaselineStore.ts\<close>,
  \<open>BaselineStoreAccess.ts\<close>) and the overlay of pending evidence over it (\<open>JsonFileStorage.ts\<close>). The state is the storage
  root with the cache of the last complete read. \<open>rel\<close> is \<open>toRelative\<close>, \<open>inode d n\<close> the time of change and the inode of a
  file as text. A document is written again when it differs from the stored one.
\<close>

section \<open>The cache\<close>

record BaselineGenerationReadCache =
  rc_key :: "string option"
  rc_snapshot :: "BaselineSnapshot option"


definition invalidateBaselineGenerationReadCache :: "BaselineGenerationReadCache \<Rightarrow> BaselineGenerationReadCache" where
  "invalidateBaselineGenerationReadCache cache = \<lparr>rc_key = None, rc_snapshot = None\<rparr>"

definition manifest_key :: "(string \<Rightarrow> string \<Rightarrow> string) \<Rightarrow> string \<Rightarrow> Directory \<Rightarrow> string" where
  "manifest_key inode name directory =
     name @ [NUL] @ join_with ''|'' (map (\<lambda>n. n @ '':'' @ sf_stat (the (map_get directory n)) @ '':'' @ inode name n)
       (sort (filter (\<lambda>n. ends_with n ''.json'') (map_keys directory))))"

definition hasCanonicalShards :: "Directory \<Rightarrow> bool" where
  "hasCanonicalShards directory = list_ex is_canonical_shard (map_keys directory)"

definition readBaselineGenerationDirectoryAsync :: "(json \<Rightarrow> string) \<Rightarrow> string cmp \<Rightarrow> Directory \<Rightarrow> BaselineSnapshot result" where
  "readBaselineGenerationDirectoryAsync hash lc directory =
     bind_result (parse_index (map_get directory index_name))
       (\<lambda>index. bind_result (map_result (\<lambda>name. parse_entry (the (map_get directory name))) (shardNames directory))
       (\<lambda>entries. let sorted_entries = js_sort (on_key lc se_path) entries;
              snapshot = \<lparr>bs_index = index, bs_entries = sorted_entries, bs_changedPaths = None, bs_deletedPaths = None\<rparr>
         in bind_result (validateEntries index sorted_entries)
           (\<lambda>_. bind_result (validatePersistedIdentity hash lc snapshot) (\<lambda>_. Inr snapshot))))"

definition validateBaselineGenerationDirectoryAsync ::
  "(string \<Rightarrow> string) \<Rightarrow> (json \<Rightarrow> string) \<Rightarrow> (json \<Rightarrow> string) \<Rightarrow> string cmp \<Rightarrow> Directory \<Rightarrow> BaselineIndex result" where
  "validateBaselineGenerationDirectoryAsync sha prim hash lc directory =
     bind_result (parse_index (map_get directory index_name))
       (\<lambda>index. if bm_shardManifestSha256 (bi_meta index) = Some (shardManifestDigest sha prim directory index) then Inr index
          else bind_result (readBaselineGenerationDirectoryAsync hash lc directory) (\<lambda>s. Inr (bs_index s)))"

text \<open>The complete snapshot with the cache it leaves; a read that throws leaves the cache as it was.\<close>

definition completeSnapshot ::
  "(string \<Rightarrow> string \<Rightarrow> string) \<Rightarrow> (json \<Rightarrow> string) \<Rightarrow> string cmp \<Rightarrow> StorageRoot \<Rightarrow> BaselineGenerationReadCache
     \<Rightarrow> BaselineGenerationReadCache \<times> BaselineSnapshot option result" where
  "completeSnapshot inode hash lc disk cache =
     (let name = readableBaselineDirFor disk;
          directory = or_default (map_get disk name) [];
          key = manifest_key inode name directory
      in if \<not> map_has directory index_name then (invalidateBaselineGenerationReadCache cache, Inr None)
         else if rc_key cache = Some key \<and> rc_snapshot cache \<noteq> None then (cache, Inr (rc_snapshot cache))
         else (case parse_index (map_get directory index_name) of
             Inl e \<Rightarrow> (cache, Inl e)
           | Inr _ \<Rightarrow>
               if \<not> hasCanonicalShards directory then (invalidateBaselineGenerationReadCache cache, Inr None)
               else (case readBaselineGenerationDirectoryAsync hash lc directory of
                   Inl e \<Rightarrow> (cache, Inl e)
                 | Inr snapshot \<Rightarrow> (\<lparr>rc_key = Some key, rc_snapshot = Some snapshot\<rparr>, Inr (Some snapshot)))))"

section \<open>Reads\<close>

definition readIndex ::
  "(string \<Rightarrow> string) \<Rightarrow> (json \<Rightarrow> string) \<Rightarrow> (json \<Rightarrow> string) \<Rightarrow> string cmp \<Rightarrow> StorageRoot \<Rightarrow> BaselineIndex option result" where
  "readIndex sha prim hash lc disk =
     (case map_get disk (readableBaselineDirFor disk) of
        None \<Rightarrow> Inr None
      | Some directory \<Rightarrow>
          if \<not> map_has directory index_name then Inr None
          else bind_result (parse_index (map_get directory index_name))
            (\<lambda>index. if \<not> hasCanonicalShards directory then Inr (Some index)
               else (case validateBaselineGenerationDirectoryAsync sha prim hash lc directory of
                   Inr i \<Rightarrow> Inr (Some i)
                 | Inl e \<Rightarrow> if e = IDENTITY_MISMATCH then Inr (Some index) else Inl e)))"

definition requestedBaselinePaths :: "(string \<Rightarrow> string) \<Rightarrow> string \<Rightarrow> string list" where
  "requestedBaselinePaths rel absPath = uniq [rel absPath, absPath]"

fun canonical_entry :: "(string \<Rightarrow> string) \<Rightarrow> Directory \<Rightarrow> string list \<Rightarrow> StoredEntry option result" where
  "canonical_entry sha directory [] = Inr None"
| "canonical_entry sha directory (p # ps) =
     (case map_get directory (baselineShardFileName sha p) of
        None \<Rightarrow> canonical_entry sha directory ps
      | Some file \<Rightarrow> bind_result (parse_entry file)
          (\<lambda>e. if se_path e \<noteq> p then Inl (''canonical baseline shard does not match '' @ p) else Inr (Some e)))"

fun legacy_entry :: "Directory \<Rightarrow> string list \<Rightarrow> StoredEntry option result" where
  "legacy_entry directory [] = Inr None"
| "legacy_entry directory (p # ps) =
     (case map_get directory (legacyBaselineShardFileName p) of
        None \<Rightarrow> legacy_entry directory ps
      | Some file \<Rightarrow> bind_result (parse_entry file) (\<lambda>e. if se_path e = p then Inr (Some e) else legacy_entry directory ps))"

definition readFileMetrics ::
  "(string \<Rightarrow> string) \<Rightarrow> (string \<Rightarrow> string) \<Rightarrow> (string \<Rightarrow> string \<Rightarrow> string) \<Rightarrow> (json \<Rightarrow> string) \<Rightarrow> string cmp
     \<Rightarrow> StorageRoot \<Rightarrow> BaselineGenerationReadCache \<Rightarrow> string \<Rightarrow> BaselineGenerationReadCache \<times> StoredEntry option result" where
  "readFileMetrics sha rel inode hash lc disk cache absPath =
     (let directory = or_default (map_get disk (readableBaselineDirFor disk)) [];
          paths = requestedBaselinePaths rel absPath
      in case completeSnapshot inode hash lc disk cache of
           (cache', Inl e) \<Rightarrow> (cache', Inl e)
         | (cache', Inr (Some whole)) \<Rightarrow> (cache', Inr (find (\<lambda>e. se_path e \<in> set paths) (bs_entries whole)))
         | (cache', Inr None) \<Rightarrow>
             (cache', case canonical_entry sha directory paths of
                Inr None \<Rightarrow> legacy_entry directory paths
              | answer \<Rightarrow> answer))"

text \<open>A canonical shard (priority 2) replaces a legacy one of the same path (priority 1).\<close>

definition collect_entry :: "(string \<Rightarrow> string) \<Rightarrow> Directory \<Rightarrow> (string, StoredEntry \<times> nat) jmap \<Rightarrow> string \<Rightarrow> (string, StoredEntry \<times> nat) jmap" where
  "collect_entry sha directory entries name =
     (case parse_entry (the (map_get directory name)) of
        Inl _ \<Rightarrow> entries
      | Inr e \<Rightarrow>
          let priority = (if name = baselineShardFileName sha (se_path e) then 2 else 1)
          in (case map_get entries (se_path e) of
                None \<Rightarrow> map_set entries (se_path e) (e, priority)
              | Some (_, previous) \<Rightarrow> if priority > previous then map_set entries (se_path e) (e, priority) else entries))"

definition shard_entries :: "(string \<Rightarrow> string) \<Rightarrow> Directory \<Rightarrow> (string, StoredEntry) jmap" where
  "shard_entries sha directory =
     map (\<lambda>(p, e, _). (p, e)) (foldl (collect_entry sha directory) [] (filter is_shard (map_keys directory)))"

definition listAllFileMetrics ::
  "(string \<Rightarrow> string) \<Rightarrow> (string \<Rightarrow> string \<Rightarrow> string) \<Rightarrow> (json \<Rightarrow> string) \<Rightarrow> string cmp
     \<Rightarrow> StorageRoot \<Rightarrow> BaselineGenerationReadCache \<Rightarrow> BaselineGenerationReadCache \<times> (string, StoredEntry) jmap result" where
  "listAllFileMetrics sha inode hash lc disk cache =
     (case map_get disk (readableBaselineDirFor disk) of
        None \<Rightarrow> (cache, Inr [])
      | Some directory \<Rightarrow>
          (case completeSnapshot inode hash lc disk cache of
             (cache', Inl e) \<Rightarrow> (cache', Inl e)
           | (cache', Inr (Some whole)) \<Rightarrow> (cache', Inr (map (\<lambda>e. (se_path e, e)) (bs_entries whole)))
           | (cache', Inr None) \<Rightarrow> (cache', Inr (shard_entries sha directory))))"

section \<open>Writes\<close>

definition assertMutableLegacyState :: "StorageRoot \<Rightarrow> unit result" where
  "assertMutableLegacyState disk =
     bind_result (assertNoPendingBaselineRecovery disk)
       (\<lambda>_. let directory = or_default (map_get disk active_name) []
        in if \<not> map_has directory index_name then Inr ()
           else bind_result (parse_index (map_get directory index_name))
             (\<lambda>index. if digest_of (bm_snapshotSha256 (bi_meta index)) \<noteq> None \<or> hasCanonicalShards directory
                then Inl ''canonical baseline is immutable; publish a complete snapshot with scan instead'' else Inr ()))"

definition atomicWriteJsonIfChanged ::
  "(string \<Rightarrow> string \<Rightarrow> Document \<Rightarrow> string) \<Rightarrow> StorageRoot \<Rightarrow> string \<Rightarrow> Document \<Rightarrow> StorageRoot" where
  "atomicWriteJsonIfChanged stat disk name document =
     (let made = applyStep stat disk (MakeDirectory active_name)
      in if map_option sf_document (Option.bind (map_get made active_name) (\<lambda>d. map_get d name)) = Some document then made
         else applyStep stat made (WriteDocument active_name name document))"

definition writeIndex :: "(string \<Rightarrow> string \<Rightarrow> Document \<Rightarrow> string) \<Rightarrow> StorageRoot \<Rightarrow> BaselineIndex \<Rightarrow> StorageRoot result" where
  "writeIndex stat disk index =
     bind_result (assertMutableLegacyState disk) (\<lambda>_. Inr (atomicWriteJsonIfChanged stat disk index_name (IndexDocument index)))"

definition writeCanonicalIndex :: "(string \<Rightarrow> string \<Rightarrow> Document \<Rightarrow> string) \<Rightarrow> StorageRoot \<Rightarrow> BaselineIndex \<Rightarrow> StorageRoot result" where
  "writeCanonicalIndex stat disk index =
     bind_result (assertNoPendingBaselineRecovery disk) (\<lambda>_. Inr (atomicWriteJsonIfChanged stat disk index_name (IndexDocument index)))"

definition deleteLegacyShardIfOwned :: "StorageRoot \<Rightarrow> string \<Rightarrow> StorageRoot" where
  "deleteLegacyShardIfOwned disk p =
     (case Option.bind (map_get disk active_name) (\<lambda>d. map_get d (legacyBaselineShardFileName p)) of
        None \<Rightarrow> disk
      | Some file \<Rightarrow>
          (case parse_entry file of
             Inr e \<Rightarrow> if se_path e = p then applyStep (\<lambda>_ _ _. []) disk (RemoveFile active_name (legacyBaselineShardFileName p)) else disk
           | Inl _ \<Rightarrow> disk))"

definition writeFileMetrics ::
  "(string \<Rightarrow> string) \<Rightarrow> (string \<Rightarrow> string \<Rightarrow> Document \<Rightarrow> string) \<Rightarrow> StorageRoot \<Rightarrow> StoredEntry \<Rightarrow> StorageRoot result" where
  "writeFileMetrics sha stat disk e =
     bind_result (assertNoPendingBaselineRecovery disk)
       (\<lambda>_. Inr (deleteLegacyShardIfOwned
          (atomicWriteJsonIfChanged stat disk (baselineShardFileName sha (se_path e)) (EntryDocument e)) (se_path e)))"

definition delete_candidates :: "(string \<Rightarrow> string) \<Rightarrow> string \<Rightarrow> string list" where
  "delete_candidates rel p = (if starts_with p ''/'' then requestedBaselinePaths rel p else [toPosixPath p])"

definition delete_entry :: "(string \<Rightarrow> string) \<Rightarrow> StorageRoot \<Rightarrow> string \<Rightarrow> StorageRoot" where
  "delete_entry sha disk candidate =
     deleteLegacyShardIfOwned (applyStep (\<lambda>_ _ _. []) disk (RemoveFile active_name (baselineShardFileName sha candidate))) candidate"

definition deleteFileMetrics :: "(string \<Rightarrow> string) \<Rightarrow> (string \<Rightarrow> string) \<Rightarrow> StorageRoot \<Rightarrow> string list \<Rightarrow> StorageRoot result" where
  "deleteFileMetrics sha rel disk paths =
     bind_result (assertNoPendingBaselineRecovery disk)
       (\<lambda>_. Inr (foldl (delete_entry sha) disk (concat (map (delete_candidates rel) paths))))"

definition clearFileMetrics :: "StorageRoot \<Rightarrow> StorageRoot result" where
  "clearFileMetrics disk =
     bind_result (assertMutableLegacyState disk)
       (\<lambda>_. Inr (case map_get disk active_name of
          None \<Rightarrow> disk
        | Some directory \<Rightarrow> foldl (\<lambda>r n. applyStep (\<lambda>_ _ _. []) r (RemoveFile active_name n)) disk (filter is_shard (map_keys directory))))"

section \<open>The cache is invisible\<close>













section \<open>The store is a map\<close>

definition entry_at :: "(string \<Rightarrow> string) \<Rightarrow> Directory \<Rightarrow> string \<Rightarrow> StoredEntry option" where
  "entry_at sha directory p =
     (case map_of directory (baselineShardFileName sha p) of
        None \<Rightarrow> None
      | Some file \<Rightarrow> (case parse_entry file of Inl _ \<Rightarrow> None | Inr e \<Rightarrow> only_if (se_path e = p) e))"

definition directory_ok :: "(string \<Rightarrow> string) \<Rightarrow> Directory \<Rightarrow> bool" where
  "directory_ok sha directory =
     (well_keyed directory \<and> (\<forall>f. map_of directory index_name = Some f \<longrightarrow> (\<exists>e. parse_entry f = Inl e)) \<and> (\<forall>(n, f) \<in> set directory. is_shard n \<longrightarrow> (\<exists>e. parse_entry f = Inr e \<and> n = baselineShardFileName sha (se_path e))))"

lemma directory_ok_get:
  "directory_ok sha d \<Longrightarrow> map_of d n = Some f \<Longrightarrow> is_shard n \<Longrightarrow> \<exists>e. parse_entry f = Inr e \<and> n = baselineShardFileName sha (se_path e)"
  by (fastforce simp: directory_ok_def dest: map_of_SomeD)

lemma directory_okI:
  assumes "well_keyed d" "\<And>f. map_of d index_name = Some f \<Longrightarrow> \<exists>e. parse_entry f = Inl e" and "\<And>n f. map_of d n = Some f \<Longrightarrow> is_shard n \<Longrightarrow> \<exists>e. parse_entry f = Inr e \<and> n = baselineShardFileName sha (se_path e)"
  shows "directory_ok sha d"
  using assms by (fastforce simp: directory_ok_def well_keyed_get)

lemma directory_ok_parts:
  "directory_ok sha d \<Longrightarrow> well_keyed d" "directory_ok sha d \<Longrightarrow> map_of d index_name = Some f \<Longrightarrow> \<exists>e. parse_entry f = Inl e"
  by (auto simp: directory_ok_def)

lemma well_keyed_drop: "well_keyed m \<Longrightarrow> well_keyed (drop_key k m)"
  by (induction m) (auto simp: well_keyed_def drop_key_def)

lemma no_legacy:
  assumes "map_of disk active_name = Some d" "directory_ok sha d" "legacyBaselineShardFileName p \<noteq> baselineShardFileName sha p"
  shows "deleteLegacyShardIfOwned disk p = disk"
proof (cases "map_of d (legacyBaselineShardFileName p)")
  case None
  then show ?thesis using assms(1) by (simp add: deleteLegacyShardIfOwned_def)
next
  case (Some f)
  show ?thesis
  proof (cases "legacyBaselineShardFileName p = index_name")
    case True
    with Some assms(2) obtain e where "parse_entry f = Inl e" by (auto simp: directory_ok_def)
    then show ?thesis using assms(1) Some by (simp add: deleteLegacyShardIfOwned_def)
  next
    case False
    then have "is_shard (legacyBaselineShardFileName p)" by (auto simp: is_shard_def legacyBaselineShardFileName_def ends_with_iff)
    from directory_ok_get [OF assms(2) Some this] assms(3) show ?thesis
      using assms(1) Some by (auto simp: deleteLegacyShardIfOwned_def split: sum.splits)
  qed
qed

lemma entry_at_get:
  "directory_ok sha d \<Longrightarrow> entry_at sha d p = Some e \<longleftrightarrow>
     (\<exists>f. map_of d (baselineShardFileName sha p) = Some f \<and> parse_entry f = Inr e \<and> se_path e = p)"
  by (auto simp: entry_at_def split: option.splits sum.splits)

lemma directory_ok_set:
  "directory_ok sha d \<Longrightarrow> n = baselineShardFileName sha (se_path e) \<Longrightarrow> parse_entry f = Inr e \<Longrightarrow> directory_ok sha (map_set d n f)"
  using shard_names(2) [of sha "se_path e"] shard_names(2) [of sha "se_path e", symmetric]
  by (intro directory_okI) (auto simp: directory_ok_parts shard_names dest: directory_ok_get directory_ok_parts(2) split: if_splits)

lemma directory_ok_drop: "directory_ok sha d \<Longrightarrow> directory_ok sha (drop_key n d)"
  by (rule directory_okI) (auto simp: directory_ok_parts well_keyed_drop map_of_drop_key dest: directory_ok_get directory_ok_parts(2) split: if_splits)

lemma entry_at_set:
  assumes "n = baselineShardFileName sha (se_path e)" "parse_entry f = Inr e"
    and "\<And>q. entry_at sha d q \<noteq> None \<Longrightarrow> sha q = sha (se_path e) \<Longrightarrow> q = se_path e"
  shows "entry_at sha (map_set d n f) = (entry_at sha d)(se_path e \<mapsto> e)"
proof
  fix q
  show "entry_at sha (map_set d n f) q = ((entry_at sha d)(se_path e \<mapsto> e)) q"
  proof (cases "sha q = sha (se_path e)")
    case True
    have "entry_at sha (map_set d n f) q = only_if (se_path e = q) e"
      using True by (simp add: entry_at_def assms(1,2) shard_names)
    moreover have "q = se_path e \<or> entry_at sha d q = None" using assms(3) [OF _ True] by blast
    ultimately show ?thesis by auto
  next
    case False
    then show ?thesis by (auto simp: entry_at_def assms(1) shard_names)
  qed
qed

lemma entry_at_drop:
  assumes "\<And>q. entry_at sha d q \<noteq> None \<Longrightarrow> sha q = sha p \<Longrightarrow> q = p"
  shows "entry_at sha (drop_key (baselineShardFileName sha p) d) = (entry_at sha d)(p := None)"
proof
  fix q
  show "entry_at sha (drop_key (baselineShardFileName sha p) d) q = ((entry_at sha d)(p := None)) q"
  proof (cases "sha q = sha p")
    case True
    then have "entry_at sha (drop_key (baselineShardFileName sha p) d) q = None" by (simp add: entry_at_def map_of_drop_key shard_names)
    moreover have "q = p \<or> entry_at sha d q = None" using assms [OF _ True] by blast
    ultimately show ?thesis by auto
  next
    case False
    then show ?thesis by (auto simp: entry_at_def map_of_drop_key shard_names)
  qed
qed

lemma changed_same:
  assumes "map_of disk active_name = Some d"
  shows "\<exists>f. sf_document f = document \<and> map_of (atomicWriteJsonIfChanged stat disk name document) active_name = Some (map_set d name f)"
proof (cases "map_option sf_document (map_of d name) = Some document")
  case True
  then obtain f where f: "map_of d name = Some f" "sf_document f = document" by auto
  have "map_set d name f = d" using f(1) unfolding map_set_def by (induction d) (auto split: if_splits)
  then show ?thesis using True f assms by (auto simp: atomicWriteJsonIfChanged_def Let_def map_has_def simp del: map_has_iff intro!: exI [of _ f])
next
  case False
  then have "map_of (atomicWriteJsonIfChanged stat disk name document) active_name
      = Some (map_set d name \<lparr>sf_document = document, sf_stat = stat active_name name document\<rparr>)"
    using assms by (auto simp: atomicWriteJsonIfChanged_def Let_def map_has_def simp del: map_has_iff)
  then show ?thesis by (intro exI [of _ "\<lparr>sf_document = document, sf_stat = stat active_name name document\<rparr>"]) simp
qed

lemma write_keeps_backups: "backups_of disk = {} \<Longrightarrow> backups_of (atomicWriteJsonIfChanged stat disk n x) = {}"
  by (auto simp: backups_of_def atomicWriteJsonIfChanged_def Let_def)

lemma write_refines:
  assumes "backups_of disk = {}" "map_of disk active_name = Some d" "directory_ok sha d"
    and "\<And>q. entry_at sha d q \<noteq> None \<Longrightarrow> sha q = sha (se_path e) \<Longrightarrow> q = se_path e"
    and "legacyBaselineShardFileName (se_path e) \<noteq> baselineShardFileName sha (se_path e)"
  shows "\<exists>disk' d'. writeFileMetrics sha stat disk e = Inr disk' \<and> map_of disk' active_name = Some d' \<and> directory_ok sha d'
      \<and> entry_at sha d' = (entry_at sha d)(se_path e \<mapsto> e) \<and> map_of d' index_name = map_of d index_name \<and> backups_of disk' = {}"
proof -
  let ?n = "baselineShardFileName sha (se_path e)"
  let ?w = "atomicWriteJsonIfChanged stat disk ?n (EntryDocument e)"
  obtain f where f: "sf_document f = EntryDocument e" "map_of ?w active_name = Some (map_set d ?n f)"
    using changed_same [OF assms(2)] by blast
  then have pf: "parse_entry f = Inr e" by (simp add: parse_entry_def)
  have ok: "directory_ok sha (map_set d ?n f)" by (rule directory_ok_set [OF assms(3) _ pf]) simp
  have w: "writeFileMetrics sha stat disk e = Inr ?w"
    using assms(1) no_legacy [OF f(2) ok assms(5)]
    by (simp add: writeFileMetrics_def assertNoPendingBaselineRecovery_def hasBackup_iff bind_result_def)
  have "entry_at sha (map_set d ?n f) = (entry_at sha d)(se_path e \<mapsto> e)"
    by (rule entry_at_set [OF _ pf assms(4)]) simp_all
  then show ?thesis
    using w f(2) ok shard_names(2) [of sha "se_path e"] write_keeps_backups [OF assms(1)] by (auto intro!: exI)
qed

lemma delete_refines:
  assumes "backups_of disk = {}" "map_of disk active_name = Some d" "directory_ok sha d"
    and "\<And>q. entry_at sha d q \<noteq> None \<Longrightarrow> sha q = sha p \<Longrightarrow> q = p" "legacyBaselineShardFileName p \<noteq> baselineShardFileName sha p"
  shows "\<exists>d'. map_of (delete_entry sha disk p) active_name = Some d' \<and> directory_ok sha d'
      \<and> entry_at sha d' = (entry_at sha d)(p := None) \<and> map_of d' index_name = map_of d index_name
      \<and> backups_of (delete_entry sha disk p) = {}"
proof -
  let ?n = "baselineShardFileName sha p"
  let ?r = "applyStep (\<lambda>_ _ _. []) disk (RemoveFile active_name ?n)"
  have r: "map_of ?r active_name = Some (drop_key ?n d)" using assms(2) by simp
  have rok: "directory_ok sha (drop_key ?n d)" by (rule directory_ok_drop [OF assms(3)])
  have "entry_at sha (drop_key ?n d) = (entry_at sha d)(p := None)" by (rule entry_at_drop) (use assms(4) in blast)
  moreover have "map_of (drop_key ?n d) index_name = map_of d index_name" using shard_names(2) [of sha p] by (auto simp: map_of_drop_key)
  moreover have "backups_of ?r = {}" using assms(1,2) by (auto simp: backups_of_def)
  ultimately show ?thesis using no_legacy [OF r rok assms(5)] r rok by (simp add: delete_entry_def del: applyStep.simps)
qed

text \<open>C28: In a directory of canonical shards, writing an entry updates the map from paths to entries at its path and nowhere else, deleting
  one removes it, and the index file stays as it is, provided no two paths in use have the same digest.\<close>

theorem store_refines_map:
  assumes "backups_of disk = {}" "map_of disk active_name = Some d" "directory_ok sha d"
    and "\<And>q. entry_at sha d q \<noteq> None \<Longrightarrow> sha q = sha p \<Longrightarrow> q = p" "legacyBaselineShardFileName p \<noteq> baselineShardFileName sha p"
    and "se_path e = p"
  shows "(\<exists>disk' d'. writeFileMetrics sha stat disk e = Inr disk' \<and> map_of disk' active_name = Some d' \<and> directory_ok sha d'
      \<and> entry_at sha d' = (entry_at sha d)(p \<mapsto> e) \<and> map_of d' index_name = map_of d index_name)
    \<and> (\<exists>d'. map_of (delete_entry sha disk p) active_name = Some d' \<and> directory_ok sha d'
      \<and> entry_at sha d' = (entry_at sha d)(p := None) \<and> map_of d' index_name = map_of d index_name)"
  using write_refines [OF assms(1-3), of e stat] delete_refines [OF assms(1-3), of p] assms(4-6) by fastforce

theorem store_refines_map_witness:
  "\<exists>disk'. writeFileMetrics (\<lambda>p. p) (\<lambda>_ _ _. ''s'') [(''baseline'', [])] sample_entry = Inr disk'
    \<and> (\<exists>d'. map_of disk' active_name = Some d' \<and> entry_at (\<lambda>p. p) d' ''a.ts'' = Some sample_entry)"
proof -
  have "directory_ok (\<lambda>p. p) []" by (simp add: directory_ok_def)
  moreover have "entry_at (\<lambda>p. p) [] q = None" for q by (simp add: entry_at_def)
  moreover have "backups_of [(''baseline'', [])] = {}" by (auto simp: backups_of_def is_backup_def starts_with_def)
  moreover have "map_of [(''baseline'', [])] active_name = Some ([] :: Directory)" by (simp add: active_name_def)
  moreover have "legacyBaselineShardFileName ''a.ts'' \<noteq> baselineShardFileName (\<lambda>p. p) ''a.ts''"
    by (simp add: legacyBaselineShardFileName_def baselineShardFileName_def)
  moreover have "se_path sample_entry = ''a.ts''" by (simp add: sample_entry_def)
  ultimately show ?thesis
    using store_refines_map [of "[(''baseline'', [])]" "[]" "\<lambda>p. p" "''a.ts''" sample_entry "\<lambda>_ _ _. ''s''"] by (auto simp del: applyStep.simps)
qed

lemma shard_entry:
  assumes "directory_ok sha d" "n \<in> set (filter is_shard (map_keys d))"
  obtains e where "parse_entry (the (map_of d n)) = Inr e" "n = baselineShardFileName sha (se_path e)" "entry_at sha d (se_path e) = Some e"
proof -
  obtain f where f: "map_of d n = Some f" using assms(2) by (auto simp: map_of_keys simp del: set_map_keys)
  from directory_ok_get [OF assms(1) f] assms(2) obtain e where "parse_entry f = Inr e" "n = baselineShardFileName sha (se_path e)" by auto
  with f that show ?thesis by (auto simp: entry_at_def)
qed

lemma collect_entries:
  assumes ok: "directory_ok sha d" and ns: "set ns \<subseteq> set (filter is_shard (map_keys d))"
  shows "map_of (foldl (collect_entry sha d) [] ns) p
    = (if baselineShardFileName sha p \<in> set ns then map_option (\<lambda>e. (e, 2)) (entry_at sha d p) else None)"
  using ns
proof (induction ns arbitrary: p rule: rev_induct)
  case (snoc n ns)
  obtain e where e: "parse_entry (the (map_of d n)) = Inr e" "n = baselineShardFileName sha (se_path e)" "entry_at sha d (se_path e) = Some e"
    using shard_entry [OF ok, of n] snoc.prems by auto
  let ?acc = "foldl (collect_entry sha d) [] ns"
  have IH: "map_of ?acc q = (if baselineShardFileName sha q \<in> set ns then map_option (\<lambda>e. (e, 2)) (entry_at sha d q) else None)" for q
    using snoc.IH snoc.prems by simp
  have other: "entry_at sha d q = None" if "sha q = sha (se_path e)" "q \<noteq> se_path e" for q
    using that e unfolding entry_at_def by (auto simp: shard_names entry_at_def baselineShardFileName_def split: option.splits sum.splits)
  have step: "collect_entry sha d ?acc n = (if n \<in> set ns then ?acc else map_set ?acc (se_path e) (e, 2))"
    using IH [of "se_path e"] e by (simp add: collect_entry_def Let_def)
  show ?case
  proof (cases "n \<in> set ns")
    case True
    then have "set (ns @ [n]) = set ns" by auto
    then show ?thesis using IH step True by simp
  next
    case False
    show ?thesis
    proof (cases "p = se_path e")
      case True
      then show ?thesis using step False e by simp
    next
      case ne: False
      have "map_of (map_set ?acc (se_path e) (e, 2)) p = map_of ?acc p" using ne by simp
      moreover have "entry_at sha d p = None" if "baselineShardFileName sha p = n"
        using other [of p] ne that e(2) by (simp add: shard_names)
      ultimately show ?thesis using IH [of p] step False by auto
    qed
  qed
qed simp

lemma map_of_map_fst: "map_of (map (\<lambda>(p, e, _). (p, e)) m) p = map_option fst (map_of m p)"
  by (induction m) auto

text \<open>The listing of such a directory is the same map: every path with its entry, and no other.\<close>

theorem listing_is_the_map:
  assumes "directory_ok sha d"
  shows "map_of (shard_entries sha d) p = entry_at sha d p"
proof -
  have "baselineShardFileName sha p \<in> set (filter is_shard (map_keys d))" if "entry_at sha d p \<noteq> None"
    using that by (auto simp: entry_at_def shard_names map_of_keys simp del: set_map_keys split: option.splits)
  then show ?thesis
    unfolding shard_entries_def map_of_map_fst collect_entries [OF assms subset_refl]
    by (cases "entry_at sha d p") simp_all
qed

theorem listing_is_the_map_witness: "map_of (shard_entries (\<lambda>p. p) []) ''a.ts'' = None"
  using listing_is_the_map [of "\<lambda>p. p" "[]" "''a.ts''"] by (simp add: directory_ok_def entry_at_def)

end
