(* ===== verification/Pending_Diff.thy ===== *)
theory Pending_Diff
  imports Baseline_Access History_Ledger
begin

text \<open>
  The evidence of a staged change (\<open>adapter/storage/PendingDiffValidation.ts\<close>, \<open>JsonPendingDiffStore.ts\<close>), its seal into
  the history, and the overlay of its metrics over the baseline (\<open>JsonFileStorage.ts\<close>). A document is its JSON value;
  \<open>schema\<close> is \<open>IndexEntrySchema.safeParse\<close> (the entry of a value it accepts), \<open>is_date\<close> tells whether \<open>Date\<close> reads a text.
\<close>

section \<open>Validation\<close>

definition validTimestamp :: "(string \<Rightarrow> bool) \<Rightarrow> json option \<Rightarrow> bool" where
  "validTimestamp is_date v = (case text_of v of None \<Rightarrow> False | Some s \<Rightarrow> is_date s)"

definition all_elements :: "(json \<Rightarrow> bool) \<Rightarrow> json option \<Rightarrow> bool" where
  "all_elements P v = (case elements_of v of None \<Rightarrow> False | Some xs \<Rightarrow> list_all P xs)"

text \<open>An object or an array; a property of an array or of a text is \<open>undefined\<close>.\<close>

definition is_object :: "json \<Rightarrow> bool" where
  "is_object j = (case j of JObj _ \<Rightarrow> True | JArr _ \<Rightarrow> True | _ \<Rightarrow> False)"

definition finite_number :: "json option \<Rightarrow> bool" where
  "finite_number v = (case v of Some (JNum x) \<Rightarrow> is_finite x | _ \<Rightarrow> False)"

definition valid_delta :: "json \<Rightarrow> bool" where
  "valid_delta d = (is_object d \<and> (\<exists>s. text_of (field d ''file'') = Some s \<and> s \<noteq> []) \<and> finite_number (field d ''deltaI''))"

definition validDeltas :: "json option \<Rightarrow> bool" where
  "validDeltas = all_elements valid_delta"

definition validBaseMetrics :: "(json \<Rightarrow> StoredEntry option) \<Rightarrow> json option \<Rightarrow> bool" where
  "validBaseMetrics schema =
     all_elements (\<lambda>m. is_object m \<and> text_of (field m ''file'') \<noteq> None
       \<and> (case field m ''entry'' of None \<Rightarrow> False | Some JNull \<Rightarrow> True | Some e \<Rightarrow> schema e \<noteq> None))"

definition is_sha256 :: "string \<Rightarrow> bool" where
  "is_sha256 s = (length s = 64 \<and> list_all hex_digit s)"

definition valid_evidence_item :: "json \<Rightarrow> bool" where
  "valid_evidence_item e =
     (is_object e \<and> text_of (field e ''file'') \<noteq> None
      \<and> (case text_of (field e ''sha256'') of None \<Rightarrow> False | Some s \<Rightarrow> is_sha256 s))"

definition validOverlay :: "(json \<Rightarrow> StoredEntry option) \<Rightarrow> json option \<Rightarrow> bool" where
  "validOverlay schema = all_elements (\<lambda>e. schema e \<noteq> None)"

definition safe_id :: "json option \<Rightarrow> bool" where
  "safe_id v = (case text_of v of None \<Rightarrow> False | Some s \<Rightarrow> safeEntryId s)"

definition parsePendingDiff :: "(json \<Rightarrow> StoredEntry option) \<Rightarrow> (string \<Rightarrow> bool) \<Rightarrow> json \<Rightarrow> json result" where
  "parsePendingDiff schema is_date value =
     (if \<not> is_mapping value then Inl ''pending diff must be an object''
      else if \<not> safe_id (field value ''entryId'') \<or> text_of (field value ''revisionKey'') \<in> {None, Some []}
           \<or> \<not> validTimestamp is_date (field value ''timestamp'') \<or> \<not> validDeltas (field value ''deltas'')
           \<or> \<not> validBaseMetrics schema (field value ''baseMetrics'')
      then Inl ''pending diff has invalid identity or delta fields''
      else if field value ''evidence'' \<noteq> None \<and> \<not> all_elements valid_evidence_item (field value ''evidence'')
      then Inl ''pending diff has invalid semantic evidence''
      else if field value ''overlayMetrics'' \<noteq> None \<and> \<not> validOverlay schema (field value ''overlayMetrics'')
      then Inl ''pending diff has invalid overlay metrics''
      else Inr value)"

definition pendingContent :: "json \<Rightarrow> json" where
  "pendingContent entry = JObj (filter (\<lambda>(k, _). k \<noteq> ''timestamp'') (entries_of entry))"

text \<open>The pairs of file and digest of a list of evidence.\<close>

definition evidence_pairs :: "json option \<Rightarrow> (string \<times> string) list" where
  "evidence_pairs v =
     map (\<lambda>e. (or_default (text_of (field e ''file'')) [], or_default (text_of (field e ''sha256'')) [])) (or_default (elements_of v) [])"

definition evidenceSignature :: "(string \<times> string) list \<Rightarrow> string" where
  "evidenceSignature entries = join_with ''|'' (sorted_uniq (map (\<lambda>(file, sha). file @ '':'' @ sha) entries))"

section \<open>The store\<close>

text \<open>The pending file, unreadable with the error of \<open>JSON.parse\<close>, and the sealed records by their entry ids.\<close>

record PendingStore =
  ps_pending :: "json result option"
  ps_history :: "(string, json) jmap"

definition readPendingDiff :: "(json \<Rightarrow> StoredEntry option) \<Rightarrow> (string \<Rightarrow> bool) \<Rightarrow> PendingStore \<Rightarrow> json option result" where
  "readPendingDiff schema is_date s =
     (case ps_pending s of
        None \<Rightarrow> Inr None
      | Some file \<Rightarrow> bind_result file (\<lambda>j. bind_result (parsePendingDiff schema is_date j) (\<lambda>p. Inr (Some p))))"

definition writePendingDiff :: "(json \<Rightarrow> StoredEntry option) \<Rightarrow> (string \<Rightarrow> bool) \<Rightarrow> PendingStore \<Rightarrow> json \<Rightarrow> PendingStore result" where
  "writePendingDiff schema is_date s entry =
     bind_result (parsePendingDiff schema is_date entry)
       (\<lambda>normalized. bind_result (readPendingDiff schema is_date s)
         (\<lambda>current. Inr (if map_option pendingContent current = Some (pendingContent entry) then s
            else s\<lparr>ps_pending := Some (Inr normalized)\<rparr>)))"

definition clearPendingDiff :: "PendingStore \<Rightarrow> PendingStore" where
  "clearPendingDiff s = s\<lparr>ps_pending := None\<rparr>"

definition truthy_field :: "json \<Rightarrow> string \<Rightarrow> (string \<times> json) list" where
  "truthy_field j k = (case field j k of Some v \<Rightarrow> (if v \<in> {JNull, JBool False, JStr [], JNum (Fin 0), JNum NaN} then [] else [(k, v)]) | None \<Rightarrow> [])"

definition sealed_record :: "json \<Rightarrow> json" where
  "sealed_record pending =
     JObj (json_field ''timestamp'' (field pending ''timestamp'') @ json_field ''entryId'' (field pending ''entryId'')
       @ json_field ''deltas'' (field pending ''deltas'')
       @ concat (map (truthy_field pending) [''diagnosis'', ''evidence'', ''scale'']))"

definition entry_id :: "json \<Rightarrow> string" where
  "entry_id pending = or_default (text_of (field pending ''entryId'')) []"

datatype SealStep = SealRecord string json | UnlinkPending

fun applySeal :: "PendingStore \<Rightarrow> SealStep \<Rightarrow> PendingStore" where
  "applySeal s (SealRecord i r) = s\<lparr>ps_history := map_set (ps_history s) i r\<rparr>"
| "applySeal s UnlinkPending = s\<lparr>ps_pending := None\<rparr>"

datatype SealResult = seal_missing | seal_mismatch | seal_finalized

text \<open>The result of sealing with the writes it makes, in their order.\<close>

definition finalizePendingDiff ::
  "(json \<Rightarrow> StoredEntry option) \<Rightarrow> (string \<Rightarrow> bool) \<Rightarrow> PendingStore \<Rightarrow> (string \<times> string) list \<Rightarrow> (SealResult \<times> SealStep list) result" where
  "finalizePendingDiff schema is_date s stagedEvidence =
     bind_result (readPendingDiff schema is_date s)
       (\<lambda>current. case current of
          None \<Rightarrow> Inr (seal_missing, [])
        | Some pending \<Rightarrow>
            if evidenceSignature (evidence_pairs (field pending ''evidence'')) \<noteq> evidenceSignature stagedEvidence then Inr (seal_mismatch, [])
            else Inr (seal_finalized,
              (if map_has (ps_history s) (entry_id pending) then [] else [SealRecord (entry_id pending) (sealed_record pending)]) @ [UnlinkPending]))"

section \<open>The overlay\<close>

datatype Projection = proj_worktree | proj_pending

text \<open>
  \<open>content p\<close> is the digest of the file that \<open>p\<close> names in the working tree, \<open>None\<close> when there is none. The candidate has its
  overlay, the digest of the baseline it was computed for, and its evidence.
\<close>

definition overlay_step ::
  "(json \<Rightarrow> StoredEntry option) \<Rightarrow> (string \<Rightarrow> string option) \<Rightarrow> Projection \<Rightarrow> (string, string) jmap
     \<Rightarrow> (string, StoredEntry) jmap \<Rightarrow> json \<Rightarrow> (string, StoredEntry) jmap" where
  "overlay_step schema content projection evidenceByFile projected value =
     (case schema value of
        None \<Rightarrow> projected
      | Some entry \<Rightarrow>
          let path = toPosixPath (se_path entry)
          in (case digest_of (map_get evidenceByFile path) of
                None \<Rightarrow> projected
              | Some expected \<Rightarrow>
                  if projection = proj_pending then map_set projected path entry
                  else if content path = Some expected then map_set projected path entry else projected))"

definition listCurrentFileMetrics ::
  "(json \<Rightarrow> StoredEntry option) \<Rightarrow> (string \<Rightarrow> string option) \<Rightarrow> Projection \<Rightarrow> (string, StoredEntry) jmap \<Rightarrow> json option \<Rightarrow> BaselineIndex option
     \<Rightarrow> (string, StoredEntry) jmap" where
  "listCurrentFileMetrics schema content projection whole candidate index =
     (case candidate of
        None \<Rightarrow> whole
      | Some c \<Rightarrow>
          let overlay = or_default (elements_of (field c ''overlayMetrics'')) []
          in if overlay = [] then whole
             else if text_of (field c ''baselineSnapshotSha256'') \<noteq> Option.bind index (\<lambda>i. bm_snapshotSha256 (bi_meta i)) then whole
             else foldl (overlay_step schema content projection
                 (fromEntries (map (\<lambda>(f, sha). (toPosixPath f, sha)) (evidence_pairs (field c ''evidence''))))) (fromEntries whole) overlay)"

section \<open>Properties\<close>

lemma read_after_unlink: "readPendingDiff schema is_date (s\<lparr>ps_pending := None\<rparr>) = Inr None"
  by (simp add: readPendingDiff_def)

lemma seal_result:
  assumes "finalizePendingDiff schema is_date s staged = Inr (seal_finalized, steps)"
  obtains pending where "readPendingDiff schema is_date s = Inr (Some pending)"
    "evidenceSignature (evidence_pairs (field pending ''evidence'')) = evidenceSignature staged"
    "steps = (if map_has (ps_history s) (entry_id pending) then [] else [SealRecord (entry_id pending) (sealed_record pending)]) @ [UnlinkPending]"
  using assms by (auto simp: finalizePendingDiff_def bind_result_def simp del: map_has_iff split: sum.splits option.splits if_splits)

text \<open>C8: Sealing never changes a record that is sealed already, and when it is interrupted after any of its writes, running it again
  ends in the same history with nothing pending.\<close>

theorem seal_is_idempotent:
  assumes "finalizePendingDiff schema is_date s staged = Inr (seal_finalized, steps)"
    and "left = foldl applySeal s (take k steps)"
  shows "\<exists>result steps'. finalizePendingDiff schema is_date left staged = Inr (result, steps') \<and> result \<noteq> seal_mismatch
    \<and> foldl applySeal left steps' = foldl applySeal s steps
    \<and> ps_pending (foldl applySeal s steps) = None
    \<and> map_of (ps_history (foldl applySeal s steps)) ++ map_of (ps_history s) = map_of (ps_history (foldl applySeal s steps))"
proof -
  obtain pending where p: "readPendingDiff schema is_date s = Inr (Some pending)"
    "evidenceSignature (evidence_pairs (field pending ''evidence'')) = evidenceSignature staged"
    "steps = (if map_has (ps_history s) (entry_id pending) then [] else [SealRecord (entry_id pending) (sealed_record pending)]) @ [UnlinkPending]"
    by (rule seal_result [OF assms(1)])
  let ?i = "entry_id pending" and ?r = "sealed_record pending"
  have final: "foldl applySeal s steps =
      s\<lparr>ps_history := (if map_has (ps_history s) ?i then ps_history s else map_set (ps_history s) ?i ?r), ps_pending := None\<rparr>"
    unfolding p(3) by (simp del: map_has_iff)
  have kept: "map_of (ps_history (foldl applySeal s steps)) ++ map_of (ps_history s) = map_of (ps_history (foldl applySeal s steps))"
    unfolding final by (auto simp: map_has_def map_add_def fun_eq_iff simp del: map_has_iff split: option.splits)
  have read: "readPendingDiff schema is_date (s\<lparr>ps_history := h\<rparr>) = Inr (Some pending)" for h
    using p(1) by (simp add: readPendingDiff_def)
  consider "left = s" | "left = s\<lparr>ps_history := map_set (ps_history s) ?i ?r\<rparr>" "\<not> map_has (ps_history s) ?i" | "left = foldl applySeal s steps"
    using assms(2) p(3) by (cases k; cases "k - 1") (auto simp del: map_has_iff split: if_splits)
  then show ?thesis
  proof cases
    case 1
    then show ?thesis using assms(1) kept final by auto
  next
    case 2
    then have "finalizePendingDiff schema is_date left staged = Inr (seal_finalized, [UnlinkPending])"
      using read p(2) by (simp add: finalizePendingDiff_def bind_result_def)
    moreover have "foldl applySeal left [UnlinkPending] = foldl applySeal s steps" unfolding final using 2 by (simp del: map_has_iff)
    ultimately show ?thesis using kept final by (intro exI [of _ seal_finalized] exI [of _ "[UnlinkPending]"]) simp
  next
    case 3
    then have "finalizePendingDiff schema is_date left staged = Inr (seal_missing, [])"
      unfolding final by (simp add: finalizePendingDiff_def readPendingDiff_def bind_result_def)
    then show ?thesis using 3 kept final by (intro exI [of _ seal_missing] exI [of _ "[]"]) simp
  qed
qed

definition sample_pending :: json where
  "sample_pending = JObj [(''entryId'', JStr ''e1''), (''revisionKey'', JStr ''r''), (''timestamp'', JStr ''t0''), (''deltas'', JArr []),
     (''baseMetrics'', JArr [])]"

lemma sample_pending_accepted: "parsePendingDiff (\<lambda>_. None) (\<lambda>_. True) sample_pending = Inr sample_pending"
  by (simp add: parsePendingDiff_def sample_pending_def is_mapping_def field_def entries_of_def safe_id_def text_of_def safeEntryId_def
      validTimestamp_def validDeltas_def all_elements_def elements_of_def validBaseMetrics_def) (simp add: is_alpha_def is_lower_alpha_def is_digit_def)

theorem seal_is_idempotent_witness:
  "\<exists>steps. finalizePendingDiff (\<lambda>_. None) (\<lambda>_. True) \<lparr>ps_pending = Some (Inr sample_pending), ps_history = []\<rparr> [] = Inr (seal_finalized, steps)
    \<and> ps_pending (foldl applySeal \<lparr>ps_pending = Some (Inr sample_pending), ps_history = []\<rparr> steps) = None"
proof -
  let ?s = "\<lparr>ps_pending = Some (Inr sample_pending), ps_history = []\<rparr>"
  have "evidence_pairs (field sample_pending ''evidence'') = []"
    by (simp add: evidence_pairs_def field_def entries_of_def sample_pending_def elements_of_def)
  then have f: "finalizePendingDiff (\<lambda>_. None) (\<lambda>_. True) ?s [] = Inr (seal_finalized, [SealRecord (entry_id sample_pending) (sealed_record sample_pending), UnlinkPending])"
    by (simp add: finalizePendingDiff_def readPendingDiff_def bind_result_def sample_pending_accepted)
  from seal_is_idempotent [OF f refl, of 1] f show ?thesis by auto
qed

lemma parse_same: "parsePendingDiff schema is_date j = Inr p \<Longrightarrow> p = j"
  by (auto simp: parsePendingDiff_def split: if_splits)

text \<open>A pending diff that is accepted is read back with the same content, evidence that is written a second time keeps the time of its
  first observation, and a refused one leaves the store as it is.\<close>

theorem pending_round_trip:
  assumes "writePendingDiff schema is_date s entry = Inr s'"
  shows "\<exists>p. readPendingDiff schema is_date s' = Inr (Some p) \<and> pendingContent p = pendingContent entry \<and> ps_history s' = ps_history s
    \<and> (p = entry \<or> s' = s)"
proof -
  obtain current where c: "readPendingDiff schema is_date s = Inr current" "parsePendingDiff schema is_date entry = Inr entry"
    using assms parse_same by (fastforce simp: writePendingDiff_def bind_result_def split: sum.splits)
  show ?thesis
  proof (cases "map_option pendingContent current = Some (pendingContent entry)")
    case True
    then show ?thesis using assms c by (auto simp: writePendingDiff_def bind_result_def)
  next
    case False
    then have "s' = s\<lparr>ps_pending := Some (Inr entry)\<rparr>" using assms c by (auto simp: writePendingDiff_def bind_result_def)
    then show ?thesis using c(2) by (simp add: readPendingDiff_def bind_result_def)
  qed
qed

theorem pending_round_trip_witness:
  "\<exists>p. readPendingDiff (\<lambda>_. None) (\<lambda>_. True) \<lparr>ps_pending = Some (Inr sample_pending), ps_history = []\<rparr> = Inr (Some p) \<and> pendingContent p = pendingContent sample_pending"
proof -
  have "writePendingDiff (\<lambda>_. None) (\<lambda>_. True) \<lparr>ps_pending = None, ps_history = []\<rparr> sample_pending = Inr \<lparr>ps_pending = Some (Inr sample_pending), ps_history = []\<rparr>"
    by (simp add: writePendingDiff_def bind_result_def sample_pending_accepted readPendingDiff_def)
  from pending_round_trip [OF this] show ?thesis by auto
qed

lemma overlay_fold:
  "map_of (foldl (overlay_step schema content proj ev) m overlay) p = map_of m p
   \<or> (\<exists>v \<in> set overlay. \<exists>e expected. schema v = Some e \<and> toPosixPath (se_path e) = p \<and> map_of ev p = Some expected
        \<and> map_of (foldl (overlay_step schema content proj ev) m overlay) p = Some e \<and> (proj = proj_worktree \<longrightarrow> content p = Some expected))"
proof (induction overlay rule: rev_induct)
  case (snoc v overlay)
  let ?m = "foldl (overlay_step schema content proj ev) m overlay"
  show ?case
  proof (cases "schema v")
    case None
    then show ?thesis using snoc by (auto simp: overlay_step_def)
  next
    case (Some e)
    let ?p = "toPosixPath (se_path e)"
    have "overlay_step schema content proj ev ?m v = ?m
        \<or> (\<exists>expected. map_of ev ?p = Some expected \<and> overlay_step schema content proj ev ?m v = map_set ?m ?p e \<and> (proj = proj_worktree \<longrightarrow> content ?p = Some expected))"
      using Some by (cases "map_of ev ?p") (auto simp: overlay_step_def Let_def digest_of_def split: option.splits)
    then show ?thesis
    proof
      assume "overlay_step schema content proj ev ?m v = ?m"
      then show ?thesis using snoc by auto
    next
      assume "\<exists>expected. map_of ev ?p = Some expected \<and> overlay_step schema content proj ev ?m v = map_set ?m ?p e \<and> (proj = proj_worktree \<longrightarrow> content ?p = Some expected)"
      then obtain expected where x: "map_of ev ?p = Some expected" "overlay_step schema content proj ev ?m v = map_set ?m ?p e"
          "proj = proj_worktree \<longrightarrow> content ?p = Some expected" by blast
      show ?thesis
      proof (cases "p = ?p")
        case True
        then show ?thesis using Some x by (intro disjI2 bexI [of _ v] exI [of _ e] exI [of _ expected]) auto
      next
        case False
        then show ?thesis using snoc x(2) by auto
      qed
    qed
  qed
qed simp

text \<open>C9: In the view of the working tree every file keeps its entry of the baseline, except those whose staged evidence has the digest of the
  file as it is now; a candidate computed for another baseline has no effect.\<close>

theorem overlay_needs_current_evidence:
  assumes "map_of (listCurrentFileMetrics schema content proj_worktree whole (Some c) index) p \<noteq> map_of whole p"
    and "well_keyed whole"
  shows "text_of (field c ''baselineSnapshotSha256'') = Option.bind index (\<lambda>i. bm_snapshotSha256 (bi_meta i))
    \<and> (\<exists>v \<in> set (or_default (elements_of (field c ''overlayMetrics'')) []). \<exists>e. schema v = Some e \<and> toPosixPath (se_path e) = p
        \<and> map_of (listCurrentFileMetrics schema content proj_worktree whole (Some c) index) p = Some e
        \<and> (\<exists>(f, sha) \<in> set (evidence_pairs (field c ''evidence'')). toPosixPath f = p \<and> content p = Some sha))"
proof -
  let ?ev = "fromEntries (map (\<lambda>(f, sha). (toPosixPath f, sha)) (evidence_pairs (field c ''evidence'')))"
  let ?o = "or_default (elements_of (field c ''overlayMetrics'')) []"
  have w: "fromEntries whole = whole" using assms(2) by (simp add: fromEntries_distinct well_keyed_def)
  have b: "text_of (field c ''baselineSnapshotSha256'') = Option.bind index (\<lambda>i. bm_snapshotSha256 (bi_meta i))"
    and l: "listCurrentFileMetrics schema content proj_worktree whole (Some c) index = foldl (overlay_step schema content proj_worktree ?ev) whole ?o"
    using assms(1) w by (auto simp: listCurrentFileMetrics_def Let_def split: if_splits)
  from overlay_fold [of schema content proj_worktree ?ev whole ?o p] assms(1) [unfolded l]
  obtain v e expected where v: "v \<in> set ?o" "schema v = Some e" "toPosixPath (se_path e) = p" "map_of ?ev p = Some expected"
      "map_of (foldl (overlay_step schema content proj_worktree ?ev) whole ?o) p = Some e" "content p = Some expected"
    by auto
  have "(p, expected) \<in> set (map (\<lambda>(f, sha). (toPosixPath f, sha)) (evidence_pairs (field c ''evidence'')))"
    using v(4) by (rule fromEntries_member)
  then have "\<exists>(f, sha) \<in> set (evidence_pairs (field c ''evidence'')). toPosixPath f = p \<and> content p = Some sha" using v(6) by auto
  then show ?thesis using b v l by metis
qed

theorem overlay_needs_current_evidence_witness:
  "\<exists>v. v \<in> {JNull} \<and> map_of (listCurrentFileMetrics (\<lambda>_. Some sample_entry) (\<lambda>_. Some ''x'') proj_worktree []
     (Some (JObj [(''overlayMetrics'', JArr [JNull]), (''evidence'', JArr [JObj [(''file'', JStr ''a.ts''), (''sha256'', JStr ''x'')]])])) None) ''a.ts'' = Some sample_entry"
proof -
  let ?c = "JObj [(''overlayMetrics'', JArr [JNull]), (''evidence'', JArr [JObj [(''file'', JStr ''a.ts''), (''sha256'', JStr ''x'')]])]"
  have "map_of (listCurrentFileMetrics (\<lambda>_. Some sample_entry) (\<lambda>_. Some ''x'') proj_worktree [] (Some ?c) None) ''a.ts'' \<noteq> map_of [] ''a.ts''"
    by (simp add: listCurrentFileMetrics_def field_def entries_of_def elements_of_def text_of_def evidence_pairs_def fromEntries_def overlay_step_def
        sample_entry_def digest_of_def toPosixPath_def Let_def)
  from overlay_needs_current_evidence [OF this] show ?thesis by (auto simp: field_def entries_of_def elements_of_def)
qed

end
