(* ===== verification/Scan_Entries.thy ===== *)
theory Scan_Entries
  imports Gate_App Graph Cohesion Project_Files
begin

text \<open>
  The entries of the baseline (\<open>application/baselineEntry.ts\<close>, \<open>application/scanEntries.ts\<close>): what a scan keeps of a
  parsed file, and the columns from which the percentiles of the project are computed. \<open>key\<close> is \<open>absolutePathKey\<close> in
  the process's directory, \<open>base\<close> the project root, \<open>hash\<close> the digest of a value written as JSON.
\<close>

section \<open>Projection of one file\<close>

record ScanEntry = BaselineEntry +
  sc_inDegree :: nat
  sc_outDegree :: nat
  sc_imports :: "string list option"
  sc_reexports :: "string list option"
  sc_maxFuncBranchOwner :: "MaxFuncBranchOwner option"
  sc_contentSha256 :: "string option"

primrec languageId :: "Language \<Rightarrow> string" where
  "languageId typescript = ''typescript''"
| "languageId javascript = ''javascript''"
| "languageId vue = ''vue''"
| "languageId go = ''go''"
| "languageId rust = ''rust''"
| "languageId python = ''python''"
| "languageId java = ''java''"

definition ast_weighted :: "FileAst \<Rightarrow> real" where
  "ast_weighted ast = weightedBranchTotalOf
     \<lparr>bm_branchCount = Some (fa_branchCount ast), bm_weightedBranchTotal = fa_weightedBranchTotal ast,
      bm_maxFuncBranch = fa_maxFuncBranch ast, bm_topLevelWeightedBranch = fa_topLevelWeightedBranch ast\<rparr>"

text \<open>The loop of \<open>maxFuncBranchOwnerOf\<close> keeps the first of the functions with the most branches.\<close>

fun best_function :: "FunctionInfo option \<Rightarrow> FunctionInfo list \<Rightarrow> FunctionInfo option" where
  "best_function best [] = best"
| "best_function best (f # fs) =
     best_function (case best of None \<Rightarrow> Some f | Some b \<Rightarrow> if fi_branchCount f > fi_branchCount b then Some f else best) fs"

definition maxFuncBranchOwnerOf :: "FunctionInfo list \<Rightarrow> MaxFuncBranchOwner option" where
  "maxFuncBranchOwnerOf functions =
     (case best_function None functions of
        None \<Rightarrow> None
      | Some best \<Rightarrow>
          if fi_branchCount best \<le> 0 then None
          else Some \<lparr>mo_name = fi_name best, mo_line = fi_line best, mo_weighted = fi_branchCount best,
            mo_ordinaryIf = or_default (fi_ordinaryBranches best) 0, mo_guardIf = or_default (fi_guardBranches best) 0,
            mo_caseCount = or_default (fi_caseBranches best) 0\<rparr>)"

text \<open>The input of the local fingerprint; the fields that it does not read are left empty.\<close>

definition fingerprint_input :: "FileAst \<Rightarrow> CRLStateInput" where
  "fingerprint_input ast =
     \<lparr>cs_maxFuncBranch = Some (or_default (fa_maxFuncBranch ast) (ast_weighted ast)), cs_nestingDepth = fa_nestingDepth ast,
      cs_loc = fa_loc ast, cs_declarationLoc = fa_declarationLoc ast, cs_alphaStruct = 0, cs_connectedness = None,
      cs_singleCallSiteRatio = None,
      cs_externalPassthroughCalls = Some (or_default (fa_externalPassthroughCalls ast) (fa_passthroughCalls ast)),
      cs_passthroughCalls = Some (fa_passthroughCalls ast)\<rparr>"

definition projectBaselineEntry ::
  "(json \<Rightarrow> string) \<Rightarrow> string \<Rightarrow> FileAst \<Rightarrow> FileKind \<Rightarrow> nat \<Rightarrow> real \<Rightarrow> ScanEntry option \<Rightarrow> ScanEntry" where
  "projectBaselineEntry hash base ast fileKind inDegree alpha previous =
     (let isProduction = participatesInPopulation (Some fileKind) pop_production;
          callShape = computeInternalCallShape (fa_functions ast);
          localFingerprint = only_if isProduction (localBurdenFingerprint hash (fingerprint_input ast))
      in \<lparr>ix_path = relativePath base (fa_path ast), ix_language = Some (languageId (fa_language ast)),
          ix_fileKind = Some fileKind, ix_branchCount = fa_branchCount ast, ix_weightedBranchTotal = Some (ast_weighted ast),
          ix_maxFuncBranch = fa_maxFuncBranch ast, ix_nestingDepth = fa_nestingDepth ast, ix_loc = fa_loc ast,
          ix_declarationLoc = fa_declarationLoc ast, ix_alphaStruct = (if isProduction then alpha else 0),
          ix_connectedness = Some (cs_connected callShape),
          ix_externalPassthroughCalls = Some (or_default (fa_externalPassthroughCalls ast) (fa_passthroughCalls ast)),
          ix_passthroughCalls = Some (fa_passthroughCalls ast),
          be_topLevelWeightedBranch = fa_topLevelWeightedBranch ast, be_singleCallSiteRatio = cs_singleCallSite callShape,
          be_localBurdenFingerprint = localFingerprint,
          be_previousLocalBurdenFingerprint =
            (if localFingerprint = None then None else Option.bind previous be_localBurdenFingerprint),
          sc_inDegree = inDegree, sc_outDegree = length (fa_imports ast),
          sc_imports = Some (map (relativePath base) (present (map ir_resolvedPath (fa_imports ast)))),
          sc_reexports = Some (map (relativePath base) (present (map ir_resolvedPath (filter ir_reexport (fa_imports ast))))),
          sc_maxFuncBranchOwner = (if isProduction then maxFuncBranchOwnerOf (fa_functions ast) else None),
          sc_contentSha256 = None\<rparr>)"

section \<open>The entries of a scan\<close>

text \<open>What all entries of a scan share: the graph facts, the previous entries and the digests of the contents.\<close>

record ScanFacts =
  sx_inDegrees :: "(string, nat) jmap"
  sx_reverseGraph :: DependencyGraph
  sx_nProductionFiles :: nat
  sx_previousByPath :: "(string, ScanEntry) jmap"
  sx_maxDepth :: nat
  sx_contentHashes :: "(string, string) jmap"

definition ast_confidence :: "FileAst \<Rightarrow> real" where
  "ast_confidence ast = confidence
     \<lparr>ci_passthroughCalls = fa_passthroughCalls ast, ci_weightedControlFlow = ast_weighted ast,
      ci_structuralNodeEstimate = max (fa_passthroughCalls ast + ast_weighted ast + fa_functionCount ast) 1\<rparr>"

definition computeEntryForAst ::
  "(json \<Rightarrow> string) \<Rightarrow> (string \<Rightarrow> string) \<Rightarrow> string \<Rightarrow> string \<Rightarrow> ScanFacts \<Rightarrow> FileAst \<Rightarrow> FileKind \<Rightarrow> ScanEntry" where
  "computeEntryForAst hash key cwd base facts ast fileKind =
     (let isProduction = participatesInPopulation (Some fileKind) pop_production;
          r = (if isProduction then reach (sx_reverseGraph facts) (key (fa_path ast)) (sx_maxDepth facts) else 0);
          a = (if isProduction then Weights.alphaStruct
                 \<lparr>al_reach = r, al_confidence = ast_confidence ast, al_nFiles = max (sx_nProductionFiles facts) 1\<rparr> else 0);
          previous = or_option (map_get (sx_previousByPath facts) (relativePath base (node_resolve cwd (fa_path ast))))
            (map_get (sx_previousByPath facts) (fa_path ast));
          entry = projectBaselineEntry hash base ast fileKind (or_default (map_get (sx_inDegrees facts) (key (fa_path ast))) 0) a previous
      in entry\<lparr>sc_contentSha256 := map_get (sx_contentHashes facts) (key (fa_path ast))\<rparr>)"

record P95Inputs =
  pi_branch :: "real list"
  pi_nesting :: "real list"
  pi_loc :: "real list"
  pi_alpha :: "real list"
  pi_oneMinusConn :: "real list"
  pi_externalPassthrough :: "real list"

definition entry_local :: "ScanEntry \<Rightarrow> LocalBurdenInputs" where
  "entry_local e = entryLocal (IndexEntry.truncate e)"

definition push_inputs :: "real \<Rightarrow> real \<Rightarrow> ScanEntry \<Rightarrow> P95Inputs \<Rightarrow> P95Inputs" where
  "push_inputs branch nesting e p =
     \<lparr>pi_branch = pi_branch p @ [branch], pi_nesting = pi_nesting p @ [nesting],
      pi_loc = pi_loc p @ [lb_implementationLoc (entry_local e)], pi_alpha = pi_alpha p @ [ix_alphaStruct e],
      pi_oneMinusConn = pi_oneMinusConn p @ [1 - or_default (ix_connectedness e) 0],
      pi_externalPassthrough = pi_externalPassthrough p @ [lb_externalPassthroughCalls (entry_local e)]\<rparr>"

definition add_reused :: "ScanEntry list \<times> P95Inputs \<Rightarrow> ScanEntry \<Rightarrow> ScanEntry list \<times> P95Inputs" where
  "add_reused acc e =
     (fst acc @ [e],
      if participatesInPopulation (ix_fileKind e) pop_production
      then push_inputs (or_default (ix_maxFuncBranch e) 0) (ix_nestingDepth e) e (snd acc) else snd acc)"

definition add_parsed ::
  "(FileAst \<Rightarrow> FileKind \<Rightarrow> ScanEntry) \<Rightarrow> (string, FileKind) jmap \<Rightarrow> ScanEntry list \<times> P95Inputs \<Rightarrow> FileAst
     \<Rightarrow> ScanEntry list \<times> P95Inputs" where
  "add_parsed compute fileKinds acc ast =
     (let fileKind = or_default (map_get fileKinds (fa_path ast)) fk_production;
          entry = compute ast fileKind
      in (fst acc @ [entry],
          if participatesInPopulation (Some fileKind) pop_production
          then push_inputs (or_default (ix_maxFuncBranch entry) (ast_weighted ast)) (fa_nestingDepth ast) entry (snd acc)
          else snd acc))"

definition set_hashes :: "(string \<Rightarrow> string) \<Rightarrow> string \<Rightarrow> (string, string) jmap \<Rightarrow> (string, string) jmap \<Rightarrow> (string, string) jmap" where
  "set_hashes key base hashes found = foldl (\<lambda>m (p, h). map_set m (key (node_resolve base p)) h) hashes found"

definition scanContentHashes ::
  "(string \<Rightarrow> string option) \<Rightarrow> (string \<Rightarrow> string) \<Rightarrow> (string \<Rightarrow> string) \<Rightarrow> string \<Rightarrow> bool \<Rightarrow> ScanEntry list
     \<Rightarrow> FileAst list \<Rightarrow> string list \<Rightarrow> (string, string) jmap" where
  "scanContentHashes content sha key base incremental reusedEntries asts paths =
     (if incremental
      then set_hashes key base
        (foldl (\<lambda>m e. case sc_contentSha256 e of None \<Rightarrow> m | Some h \<Rightarrow> if h = [] then m else map_set m (key (ix_path e)) h) [] reusedEntries)
        (contentHashesOf content sha (map fa_path asts) base)
      else set_hashes key base [] (contentHashesOf content sha paths base))"

definition computeEntries ::
  "(FileAst \<Rightarrow> FileKind \<Rightarrow> ScanEntry) \<Rightarrow> FileAst list \<Rightarrow> (string, FileKind) jmap \<Rightarrow> ScanEntry list \<Rightarrow> ScanEntry list \<times> P95Inputs" where
  "computeEntries compute asts fileKinds reusedEntries =
     foldl (add_parsed compute fileKinds)
       (foldl add_reused
          ([], \<lparr>pi_branch = [], pi_nesting = [], pi_loc = [], pi_alpha = [], pi_oneMinusConn = [], pi_externalPassthrough = []\<rparr>)
          reusedEntries)
       asts"

definition projectLanguages :: "bool \<Rightarrow> ScanEntry list \<Rightarrow> FileAst list \<Rightarrow> string list" where
  "projectLanguages incremental reusedEntries asts =
     (if incremental
      then uniq (present (map ix_language reusedEntries) @ map (\<lambda>a. languageId (fa_language a)) asts)
      else uniq (concat (map (\<lambda>a.
        case findLanguageForFile (fa_path a) of
          None \<Rightarrow> [languageId (fa_language a)]
        | Some s \<Rightarrow> if ls_id s \<noteq> languageId (fa_language a) then [languageId (fa_language a), ls_id s] else [languageId (fa_language a)]) asts)))"

definition scanP95 :: "P95Inputs \<Rightarrow> P95Values" where
  "scanP95 computed =
     \<lparr>p95_branch = p95 (pi_branch computed), p95_nesting = p95 (pi_nesting computed), p95_loc = p95 (pi_loc computed),
      p95_alpha = p95 (pi_alpha computed), p95_oneMinusConnectedness = p95 (pi_oneMinusConn computed),
      p95_externalPassthrough = p95 (pi_externalPassthrough computed)\<rparr>"

section \<open>The percentiles of a scan\<close>

definition production_entries :: "ScanEntry list \<Rightarrow> ScanEntry list" where
  "production_entries entries = filter (\<lambda>e. participatesInPopulation (ix_fileKind e) pop_production) entries"

definition ast_kind :: "(string, FileKind) jmap \<Rightarrow> FileAst \<Rightarrow> FileKind" where
  "ast_kind fileKinds ast = or_default (map_get fileKinds (fa_path ast)) fk_production"

lemma production_append [simp]: "production_entries (xs @ ys) = production_entries xs @ production_entries ys"
  by (simp add: production_entries_def)

text \<open>The columns pushed for a list of entries, given the two values that are read from elsewhere.\<close>

definition columns :: "('a \<Rightarrow> real) \<Rightarrow> ('a \<Rightarrow> real) \<Rightarrow> ('a \<Rightarrow> ScanEntry) \<Rightarrow> P95Inputs \<Rightarrow> 'a list \<Rightarrow> P95Inputs" where
  "columns branch nesting entry p xs =
     \<lparr>pi_branch = pi_branch p @ map branch xs, pi_nesting = pi_nesting p @ map nesting xs,
      pi_loc = pi_loc p @ map (\<lambda>x. lb_implementationLoc (entry_local (entry x))) xs,
      pi_alpha = pi_alpha p @ map (\<lambda>x. ix_alphaStruct (entry x)) xs,
      pi_oneMinusConn = pi_oneMinusConn p @ map (\<lambda>x. 1 - or_default (ix_connectedness (entry x)) 0) xs,
      pi_externalPassthrough = pi_externalPassthrough p @ map (\<lambda>x. lb_externalPassthroughCalls (entry_local (entry x))) xs\<rparr>"

lemma columns_simps [simp]:
  "columns b n e p [] = p"
  "columns b n e p (x # xs) = columns b n e (push_inputs (b x) (n x) (e x) p) xs"
  by (simp_all add: columns_def push_inputs_def)

lemma reused_entries:
  "foldl add_reused (es, p) xs
     = (es @ xs, columns (\<lambda>e. or_default (ix_maxFuncBranch e) 0) ix_nestingDepth (\<lambda>e. e) p (production_entries xs))"
  by (induction xs arbitrary: es p) (simp_all add: add_reused_def production_entries_def)

lemma parsed_entries:
  "foldl (add_parsed compute fileKinds) (es, p) asts
     = (es @ map (\<lambda>a. compute a (ast_kind fileKinds a)) asts,
        columns (\<lambda>a. or_default (ix_maxFuncBranch (compute a (ast_kind fileKinds a))) (ast_weighted a)) fa_nestingDepth
          (\<lambda>a. compute a (ast_kind fileKinds a)) p
          (filter (\<lambda>a. participatesInPopulation (Some (ast_kind fileKinds a)) pop_production) asts))"
  by (induction asts arbitrary: es p) (simp_all add: add_parsed_def ast_kind_def Let_def)

lemma entry_fields [simp]:
  "ix_fileKind (computeEntryForAst hash key cwd base facts ast k) = Some k"
  "ix_nestingDepth (computeEntryForAst hash key cwd base facts ast k) = fa_nestingDepth ast"
  "ix_maxFuncBranch (computeEntryForAst hash key cwd base facts ast k) = fa_maxFuncBranch ast"
  "ix_weightedBranchTotal (computeEntryForAst hash key cwd base facts ast k) = Some (ast_weighted ast)"
  "ix_path (computeEntryForAst hash key cwd base facts ast k) = relativePath base (fa_path ast)"
  by (simp_all add: computeEntryForAst_def projectBaselineEntry_def Let_def)

lemma truncate_fields [simp]:
  "ix_maxFuncBranch (IndexEntry.truncate e) = ix_maxFuncBranch e"
  "ix_weightedBranchTotal (IndexEntry.truncate e) = ix_weightedBranchTotal e"
  "ix_branchCount (IndexEntry.truncate e) = ix_branchCount e"
  "ix_nestingDepth (IndexEntry.truncate e) = ix_nestingDepth e"
  "ix_alphaStruct (IndexEntry.truncate e) = ix_alphaStruct e"
  "ix_connectedness (IndexEntry.truncate e) = ix_connectedness e"
  by (simp_all add: IndexEntry.truncate_def)

lemma or_default_or_option: "or_default (or_option a b) c = or_default a (or_default b c)"
  by (simp add: or_default_def or_option_def split: option.splits)

lemma production_computed:
  "production_entries (map (\<lambda>a. computeEntryForAst hash key cwd base facts a (ast_kind fileKinds a)) asts)
     = map (\<lambda>a. computeEntryForAst hash key cwd base facts a (ast_kind fileKinds a))
         (filter (\<lambda>a. participatesInPopulation (Some (ast_kind fileKinds a)) pop_production) asts)"
  by (simp add: production_entries_def filter_map o_def)

lemma percentiles_of_population:
  assumes "\<And>e. e \<in> set (production_entries reused) \<Longrightarrow> ix_maxFuncBranch e \<noteq> None"
    and "(entries, inputs) = computeEntries (computeEntryForAst hash key cwd base facts) asts fileKinds reused"
  shows "scanP95 inputs = p95ForPopulation (map IndexEntry.truncate (production_entries entries))"
proof -
  let ?f = "\<lambda>a. computeEntryForAst hash key cwd base facts a (ast_kind fileKinds a)"
  let ?as = "filter (\<lambda>a. participatesInPopulation (Some (ast_kind fileKinds a)) pop_production) asts"
  have entries: "production_entries entries = production_entries reused @ map ?f ?as"
    using assms(2) by (simp add: computeEntries_def reused_entries parsed_entries production_computed)
  have inputs: "inputs = columns (\<lambda>a. or_default (ix_maxFuncBranch (?f a)) (ast_weighted a)) fa_nestingDepth ?f
      (columns (\<lambda>e. or_default (ix_maxFuncBranch e) 0) ix_nestingDepth (\<lambda>e. e)
         \<lparr>pi_branch = [], pi_nesting = [], pi_loc = [], pi_alpha = [], pi_oneMinusConn = [], pi_externalPassthrough = []\<rparr>
         (production_entries reused)) ?as"
    using assms(2) by (simp add: computeEntries_def reused_entries parsed_entries)
  have "map (\<lambda>e. or_default (ix_maxFuncBranch e) 0) (production_entries reused)
      = map (\<lambda>e. or_default (or_option (ix_maxFuncBranch e) (ix_weightedBranchTotal e)) (ix_branchCount e)) (production_entries reused)"
    using assms(1) by (force simp: or_option_def or_default_def)
  then show ?thesis
    by (simp add: entries inputs columns_def scanP95_def p95ForPopulation_def o_def or_default_or_option entry_local_def del: map_eq_conv)
qed

text \<open>The percentiles that a scan computes from the pushed columns are those of the production population of the
  entries it writes, the same that a policy's calibration computes, whenever the production entries it reuses record
  their largest function.\<close>

theorem scan_percentiles_of_population:
  assumes "\<And>e. e \<in> set (production_entries reused) \<Longrightarrow> ix_maxFuncBranch e \<noteq> None"
    and "(entries, inputs) = computeEntries (computeEntryForAst hash key cwd base facts) asts fileKinds reused"
  shows "scanP95 inputs = p95ForPopulation (map IndexEntry.truncate (production_entries entries))"
  using assms by (rule percentiles_of_population)

lemma best_function_spec:
  "best_function best fs = Some b \<Longrightarrow> b \<in> set_option best \<union> set fs
     \<and> (\<forall>f \<in> set_option best \<union> set fs. fi_branchCount f \<le> fi_branchCount b)"
proof (induction best fs rule: best_function.induct)
  case (2 best f fs)
  then show ?case by (fastforce split: option.splits if_splits)
qed auto

lemma best_function_None: "best_function best fs = None \<longleftrightarrow> best = None \<and> fs = []"
  by (induction best fs rule: best_function.induct) (auto split: option.splits)

lemma owner_None_iff: "maxFuncBranchOwnerOf fs = None \<longleftrightarrow> (\<forall>f \<in> set fs. fi_branchCount f \<le> 0)"
proof (cases "best_function None fs")
  case None
  then show ?thesis by (simp add: maxFuncBranchOwnerOf_def best_function_None)
next
  case (Some b)
  with best_function_spec [OF Some] show ?thesis by (force simp: maxFuncBranchOwnerOf_def)
qed

lemma owner_Some:
  assumes "maxFuncBranchOwnerOf fs = Some w"
  shows "\<exists>f \<in> set fs. mo_name w = fi_name f \<and> mo_weighted w = fi_branchCount f \<and> mo_weighted w > 0
    \<and> (\<forall>g \<in> set fs. fi_branchCount g \<le> mo_weighted w)"
proof (cases "best_function None fs")
  case None
  with assms show ?thesis by (simp add: maxFuncBranchOwnerOf_def)
next
  case (Some b)
  with best_function_spec [OF Some] assms show ?thesis by (fastforce simp: maxFuncBranchOwnerOf_def split: if_splits)
qed

text \<open>What an entry claims about its file: only production files have an architectural weight, an owner of the largest
  branch and a fingerprint, the owner is a function with the most branches and missing just when no function branches, and
  the re-exported files are among the imported ones, which the out-degree bounds.\<close>

theorem projected_entry_facts:
  assumes "e = projectBaselineEntry hash base ast k d a previous"
  shows "(k \<noteq> fk_production \<longrightarrow> ix_alphaStruct e = 0 \<and> sc_maxFuncBranchOwner e = None \<and> be_localBurdenFingerprint e = None
      \<and> be_previousLocalBurdenFingerprint e = None)
    \<and> (k = fk_production \<longrightarrow> (sc_maxFuncBranchOwner e = None \<longleftrightarrow> (\<forall>f \<in> set (fa_functions ast). fi_branchCount f \<le> 0)))
    \<and> (\<forall>w. sc_maxFuncBranchOwner e = Some w \<longrightarrow> (\<exists>f \<in> set (fa_functions ast). mo_name w = fi_name f
         \<and> mo_weighted w = fi_branchCount f \<and> 0 < mo_weighted w \<and> (\<forall>g \<in> set (fa_functions ast). fi_branchCount g \<le> mo_weighted w)))
    \<and> set (the (sc_reexports e)) \<subseteq> set (the (sc_imports e)) \<and> length (the (sc_imports e)) \<le> sc_outDegree e"
proof -
  have p: "effectiveFileKind (Some x) = x" for x by (simp add: effectiveFileKind_def)
  have len: "length (present xs) \<le> length xs" for xs :: "string option list" by (induction xs rule: present.induct) auto
  have count: "length (present (map ir_resolvedPath (fa_imports ast))) \<le> length (fa_imports ast)" using len by (metis length_map)
  have owner: "sc_maxFuncBranchOwner e = (if k = fk_production then maxFuncBranchOwnerOf (fa_functions ast) else None)"
    by (simp add: assms projectBaselineEntry_def Let_def p)
  show ?thesis unfolding owner
    using owner_None_iff owner_Some [of "fa_functions ast"] count
    by (auto simp: assms projectBaselineEntry_def Let_def p only_if_def)
qed

definition branching_function :: FunctionInfo where
  "branching_function = \<lparr>fi_name = ''f'', fi_line = None, fi_branchCount = 2, fi_calls = [], fi_callCounts = None,
     fi_ordinaryBranches = None, fi_guardBranches = None, fi_caseBranches = None\<rparr>"

theorem projected_entry_facts_witness:
  "sc_maxFuncBranchOwner (projectBaselineEntry (\<lambda>_. ''f'') ''/p'' ((sample_file ''/p/a'' [])\<lparr>fa_functions := [branching_function]\<rparr>) fk_production 0 0 None) \<noteq> None"
  using projected_entry_facts [OF refl, where hash = "\<lambda>_. ''f''" and base = "''/p''" and k = fk_production
      and ast = "(sample_file ''/p/a'' [])\<lparr>fa_functions := [branching_function]\<rparr>" and d = 0 and a = 0 and previous = None]
  by (simp add: branching_function_def)

definition no_facts :: ScanFacts where
  "no_facts = \<lparr>sx_inDegrees = [], sx_reverseGraph = [], sx_nProductionFiles = 1, sx_previousByPath = [], sx_maxDepth = 5, sx_contentHashes = []\<rparr>"

theorem scan_percentiles_of_population_witness:
  "scanP95 (snd (computeEntries (computeEntryForAst (\<lambda>_. ''f'') (\<lambda>p. p) ''/p'' ''/p'' no_facts) [sample_file ''/p/a'' []] [] []))
     = p95ForPopulation (map IndexEntry.truncate
         (production_entries (fst (computeEntries (computeEntryForAst (\<lambda>_. ''f'') (\<lambda>p. p) ''/p'' ''/p'' no_facts) [sample_file ''/p/a'' []] [] []))))"
  by (rule scan_percentiles_of_population) (simp_all add: production_entries_def)

end
