(* ===== verification/Scan_Incremental.thy ===== *)
theory Scan_Incremental
  imports Scan_Entries Baseline_Access
begin

text \<open>
  Incremental scans (\<open>application/scanIncremental.ts\<close>): which files are parsed again, which entries are reused, and how
  the shards that changed are published. \<open>content p\<close> is what reading a file gives, \<open>parse\<close> the parser, \<open>key\<close> is
  \<open>absolutePathKey\<close> and \<open>base\<close> the project root.
\<close>

section \<open>What changed\<close>

definition incrementalChangeSet ::
  "(string, string option) jmap \<Rightarrow> (string, string) jmap \<Rightarrow> string list \<times> string list" where
  "incrementalChangeSet previousHashes currentHashes =
     (map fst (filter (\<lambda>(p, h). map_get previousHashes p \<noteq> Some (Some h)) currentHashes),
      map fst (filter (\<lambda>(p, h). h \<noteq> None \<and> \<not> map_has currentHashes p) previousHashes))"

record IncrementalScanResult =
  is_asts :: "FileAst list"
  is_reusedEntries :: "ScanEntry list"
  is_edges :: DependencyGraph
  is_deletedPaths :: "string list"

type_synonym PreviousEntries = "(string \<times> ScanEntry) list"

definition import_keys :: "(string \<Rightarrow> string) \<Rightarrow> string \<Rightarrow> ScanEntry \<Rightarrow> string list" where
  "import_keys key base e = map (\<lambda>dep. key (node_resolve base dep)) (or_default (sc_imports e) [])"

definition add_consumer :: "string \<Rightarrow> (string, string list) jmap \<Rightarrow> string \<Rightarrow> (string, string list) jmap" where
  "add_consumer consumer index dep = map_set index dep (or_default (map_get index dep) [] @ [consumer])"

definition reverseIndexOf :: "PreviousEntries \<Rightarrow> (string, string list) jmap" where
  "reverseIndexOf previousEntries =
     foldl (\<lambda>index (p, e). foldl (add_consumer p) index (or_default (sc_imports e) [])) [] previousEntries"

definition filesToParse :: "PreviousEntries \<Rightarrow> string list \<Rightarrow> string list \<Rightarrow> string list" where
  "filesToParse previousEntries changed deleted =
     (let reverseIndex = reverseIndexOf previousEntries
      in uniq (changed @ concat (map (\<lambda>p. or_default (map_get reverseIndex p) []) (changed @ uniq deleted))))"

definition incrementalEdges :: "(string \<Rightarrow> string) \<Rightarrow> string \<Rightarrow> ScanEntry list \<Rightarrow> FileAst list \<Rightarrow> DependencyGraph" where
  "incrementalEdges key base reusedEntries asts =
     foldl (\<lambda>edges ast. map_set edges (key (fa_path ast)) (map key (present (map ir_resolvedPath (fa_imports ast)))))
       (foldl (\<lambda>edges e. map_set edges (key (node_resolve base (ix_path e))) (import_keys key base e)) [] reusedEntries)
       asts"

text \<open>Without any recorded digest the answer is \<open>null\<close>, and the caller scans everything. The first file that cannot be parsed
  fails the scan.\<close>

definition prepareIncrementalScan ::
  "(string \<Rightarrow> string + FileAst) \<Rightarrow> (string \<Rightarrow> string option) \<Rightarrow> (string \<Rightarrow> string) \<Rightarrow> (string \<Rightarrow> string) \<Rightarrow> string
     \<Rightarrow> PreviousEntries \<Rightarrow> string list \<Rightarrow> IncrementalScanResult option result" where
  "prepareIncrementalScan parse content sha key base previousEntries paths =
     (let currentHashes = contentHashesOf content sha paths base;
          previousHashes = fromEntries (map (\<lambda>(p, e). (p, sc_contentSha256 e)) previousEntries)
      in if \<not> list_ex (\<lambda>(p, h). h \<noteq> None) previousHashes then Inr None
         else (case incrementalChangeSet previousHashes currentHashes of (changed, deleted) \<Rightarrow>
           if changed = [] \<and> deleted = [] then
             Inr (Some \<lparr>is_asts = [], is_reusedEntries = map snd previousEntries,
               is_edges = foldl (\<lambda>edges (p, e). map_set edges (key (node_resolve base p)) (import_keys key base e)) [] previousEntries,
               is_deletedPaths = []\<rparr>)
           else
             let toParse = filesToParse previousEntries changed deleted;
                 reusedEntries = map snd (filter (\<lambda>(p, e). p \<notin> set deleted \<and> p \<notin> set toParse) previousEntries)
             in bind_result (map_result parse (map (node_resolve base) toParse))
                  (\<lambda>asts. Inr (Some \<lparr>is_asts = asts, is_reusedEntries = reusedEntries,
                     is_edges = incrementalEdges key base reusedEntries asts, is_deletedPaths = uniq deleted\<rparr>))))"

section \<open>Publication of the shards that changed\<close>

text \<open>The loop over the parsed files: an entry found under the key of its file is written. \<open>stored\<close> is the entry as
  the schema stores it.\<close>

fun writeParsedEntries ::
  "(string \<Rightarrow> string) \<Rightarrow> (string \<Rightarrow> string \<Rightarrow> Document \<Rightarrow> string) \<Rightarrow> (string \<Rightarrow> string) \<Rightarrow> (ScanEntry \<Rightarrow> StoredEntry)
     \<Rightarrow> (string, ScanEntry) jmap \<Rightarrow> StorageRoot \<Rightarrow> FileAst list \<Rightarrow> StorageRoot result" where
  "writeParsedEntries sha stat key stored entriesByPath disk [] = Inr disk"
| "writeParsedEntries sha stat key stored entriesByPath disk (ast # asts) =
     bind_result (case map_get entriesByPath (key (fa_path ast)) of
         None \<Rightarrow> Inr disk
       | Some e \<Rightarrow> writeFileMetrics sha stat disk (stored e))
       (\<lambda>disk'. writeParsedEntries sha stat key stored entriesByPath disk' asts)"

definition entriesByKey :: "(string \<Rightarrow> string) \<Rightarrow> ScanEntry list \<Rightarrow> (string, ScanEntry) jmap" where
  "entriesByKey key entries = fromEntries (map (\<lambda>e. (key (ix_path e), e)) entries)"

definition published_index ::
  "(string \<Rightarrow> string) \<Rightarrow> (json \<Rightarrow> string) \<Rightarrow> (json \<Rightarrow> string) \<Rightarrow> string cmp \<Rightarrow> StorageRoot \<Rightarrow> BaselineSnapshot \<Rightarrow> BaselineIndex \<Rightarrow> BaselineIndex" where
  "published_index sha prim hash lc disk normalized index =
     index\<lparr>bi_meta := (bi_meta index)\<lparr>bm_snapshotSha256 := Some (snapshotIdentity hash lc normalized),
       bm_shardManifestSha256 := Some (shardManifestDigest sha prim (or_default (map_get disk active_name) []) index)\<rparr>\<rparr>"

definition publishIncrementalEntries ::
  "(string \<Rightarrow> string) \<Rightarrow> (json \<Rightarrow> string) \<Rightarrow> (json \<Rightarrow> string) \<Rightarrow> string cmp \<Rightarrow> (string \<Rightarrow> string \<Rightarrow> Document \<Rightarrow> string)
     \<Rightarrow> (string \<Rightarrow> string) \<Rightarrow> (string \<Rightarrow> string) \<Rightarrow> (ScanEntry \<Rightarrow> StoredEntry)
     \<Rightarrow> StorageRoot \<Rightarrow> FileAst list \<Rightarrow> ScanEntry list \<Rightarrow> string list \<Rightarrow> BaselineIndex \<Rightarrow> StorageRoot result" where
  "publishIncrementalEntries sha prim hash lc stat rel key stored disk asts entries deletedPaths index =
     bind_result (writeParsedEntries sha stat key stored (entriesByKey key entries) disk asts)
       (\<lambda>written. bind_result (if deletedPaths = [] then Inr written else deleteFileMetrics sha rel written deletedPaths)
         (\<lambda>cleaned. bind_result (normalizeBaselineSnapshot \<lparr>bs_index = index, bs_entries = map stored entries,
               bs_changedPaths = None, bs_deletedPaths = None\<rparr>)
           (\<lambda>normalized. writeCanonicalIndex stat cleaned (published_index sha prim hash lc cleaned normalized index))))"

section \<open>What is reused and what is parsed\<close>

definition previous_hash :: "PreviousEntries \<Rightarrow> string \<Rightarrow> string option" where
  "previous_hash previous p = Option.bind (map_of previous p) sc_contentSha256"

definition imports_of :: "ScanEntry \<Rightarrow> string list" where
  "imports_of e = or_default (sc_imports e) []"

text \<open>An entry whose file and whose imported files have the contents they had.\<close>

definition reusable :: "PreviousEntries \<Rightarrow> (string, string) jmap \<Rightarrow> string \<times> ScanEntry \<Rightarrow> bool" where
  "reusable previous current pe =
     (previous_hash previous (fst pe) = map_of current (fst pe)
        \<and> list_all (\<lambda>dep. previous_hash previous dep = map_of current dep) (imports_of (snd pe)))"

lemma well_keyed_hashes: "well_keyed (contentHashesOf content sha paths base)"
proof -
  have "well_keyed (foldl (hash_step content sha base) hs paths)" if "well_keyed hs" for hs
    using that by (induction paths arbitrary: hs) (auto simp: hash_step_def split: option.splits)
  then show ?thesis by (simp add: contentHashesOf_def)
qed

definition recorded_hashes :: "PreviousEntries \<Rightarrow> (string, string option) jmap" where
  "recorded_hashes previous = map (\<lambda>(p, e). (p, sc_contentSha256 e)) previous"

lemma recorded_get: "map_of (recorded_hashes previous) p = map_option sc_contentSha256 (map_of previous p)"
  by (simp add: recorded_hashes_def map_of_map)

lemma recorded_keys: "map fst (recorded_hashes previous) = map fst previous"
  by (simp add: recorded_hashes_def case_prod_unfold)

lemma changed_iff:
  assumes "well_keyed current" "distinct (map fst previous)" "incrementalChangeSet (recorded_hashes previous) current = (changed, deleted)"
  shows "p \<in> set changed \<longleftrightarrow> map_of current p \<noteq> None \<and> previous_hash previous p \<noteq> map_of current p"
    and "p \<in> set deleted \<longleftrightarrow> map_of current p = None \<and> previous_hash previous p \<noteq> None"
proof -
  have "p \<in> set changed \<longleftrightarrow> (\<exists>h. (p, h) \<in> set current \<and> map_of (recorded_hashes previous) p \<noteq> Some (Some h))"
    using assms(3) by (force simp: incrementalChangeSet_def)
  then show "p \<in> set changed \<longleftrightarrow> map_of current p \<noteq> None \<and> previous_hash previous p \<noteq> map_of current p"
    by (auto simp: well_keyed_get [OF assms(1)] recorded_get previous_hash_def bind_eq_Some_conv)
  have "p \<in> set deleted \<longleftrightarrow> (\<exists>h. (p, Some h) \<in> set (recorded_hashes previous) \<and> \<not> map_has current p)"
    using assms(3) by (force simp: incrementalChangeSet_def simp del: map_has_iff)
  moreover have "well_keyed (recorded_hashes previous)" using assms(2) by (simp add: well_keyed_def recorded_keys)
  ultimately show "p \<in> set deleted \<longleftrightarrow> map_of current p = None \<and> previous_hash previous p \<noteq> None"
    by (auto simp: well_keyed_get recorded_get previous_hash_def map_has_def bind_eq_Some_conv simp del: map_has_iff)
qed

lemma consumers_step:
  "map_of (foldl (add_consumer c) index deps) d
     = (if d \<in> set deps then Some (or_default (map_of index d) [] @ replicate (count_list deps d) c) else map_of index d)"
  by (induction deps arbitrary: index) (auto simp: add_consumer_def or_default_def replicate_app_Cons_same split: option.splits)

lemma consumers_fold:
  "set (or_default (map_of (foldl (\<lambda>index (p, e). foldl (add_consumer p) index (or_default (sc_imports e) [])) index previous) d) [])
     = set (or_default (map_of index d) []) \<union> {p. \<exists>e. (p, e) \<in> set previous \<and> d \<in> set (imports_of e)}"
proof (induction previous arbitrary: index)
  case (Cons pe previous)
  show ?case
    by (cases pe) (auto simp: Cons.IH consumers_step imports_of_def count_list_0_iff split: if_splits)
qed simp

lemma consumers: "p \<in> set (or_default (map_of (reverseIndexOf previous) d) []) \<longleftrightarrow> (\<exists>e. (p, e) \<in> set previous \<and> d \<in> set (imports_of e))"
  using consumers_fold [of "[]" previous d] by (simp add: reverseIndexOf_def)

lemma filesToParse_iff:
  "p \<in> set (filesToParse previous changed deleted)
     \<longleftrightarrow> p \<in> set changed \<or> (\<exists>e. (p, e) \<in> set previous \<and> (\<exists>dep \<in> set (imports_of e). dep \<in> set changed \<or> dep \<in> set deleted))"
  by (auto simp: filesToParse_def Let_def consumers)

lemma reusable_iff:
  assumes "well_keyed current" "distinct (map fst previous)" "incrementalChangeSet (recorded_hashes previous) current = (changed, deleted)"
    and "(p, e) \<in> set previous"
  shows "p \<notin> set deleted \<and> p \<notin> set (filesToParse previous changed deleted) \<longleftrightarrow> reusable previous current (p, e)"
proof -
  have e: "(p, e') \<in> set previous \<longleftrightarrow> e' = e" for e' using assms(2,4) by (auto simp: eq_key_imp_eq_value)
  have same: "q \<notin> set changed \<and> q \<notin> set deleted \<longleftrightarrow> previous_hash previous q = map_of current q" for q
    using changed_iff [OF assms(1-3)] by (cases "map_of current q") auto
  have "p \<notin> set deleted \<and> p \<notin> set (filesToParse previous changed deleted) \<longleftrightarrow>
      (p \<notin> set changed \<and> p \<notin> set deleted) \<and> (\<forall>dep \<in> set (imports_of e). dep \<notin> set changed \<and> dep \<notin> set deleted)"
    unfolding filesToParse_iff e by blast
  then show ?thesis by (simp add: same reusable_def list_all_iff)
qed

definition files_read_again :: "PreviousEntries \<Rightarrow> (string, string) jmap \<Rightarrow> string set" where
  "files_read_again previous current =
     {p. map_of current p \<noteq> None \<and> previous_hash previous p \<noteq> map_of current p}
     \<union> {p. \<exists>e. (p, e) \<in> set previous \<and> (\<exists>dep \<in> set (imports_of e). previous_hash previous dep \<noteq> map_of current dep)}"

lemma files_read_again_iff:
  assumes "well_keyed current" "distinct (map fst previous)" "incrementalChangeSet (recorded_hashes previous) current = (changed, deleted)"
  shows "set (filesToParse previous changed deleted) = files_read_again previous current"
proof -
  have same: "q \<in> set changed \<or> q \<in> set deleted \<longleftrightarrow> previous_hash previous q \<noteq> map_of current q" for q
    using changed_iff [OF assms] by (cases "map_of current q") auto
  show ?thesis unfolding files_read_again_def set_eq_iff filesToParse_iff same using changed_iff(1) [OF assms] by simp
qed

lemma recorded_previous: "distinct (map fst previous) \<Longrightarrow> fromEntries (map (\<lambda>(p, e). (p, sc_contentSha256 e)) previous) = recorded_hashes previous"
  using fromEntries_distinct [of "recorded_hashes previous"] by (simp add: recorded_keys flip: recorded_hashes_def)

lemma prepare_cases:
  assumes "prepareIncrementalScan parse content sha key base previous paths = Inr (Some r)" "distinct (map fst previous)"
    and "current = contentHashesOf content sha paths base"
  obtains changed deleted where
    "incrementalChangeSet (recorded_hashes previous) current = (changed, deleted)" "is_deletedPaths r = uniq deleted"
    "map_result parse (map (node_resolve base) (filesToParse previous changed deleted)) = Inr (is_asts r)"
    "is_reusedEntries r = map snd (filter (reusable previous current) previous)"
proof -
  obtain changed deleted where c: "incrementalChangeSet (recorded_hashes previous) current = (changed, deleted)" by fastforce
  note keyed = well_keyed_hashes [of content sha paths base, folded assms(3)]
  have filter: "filter (\<lambda>(p, e). p \<notin> set deleted \<and> p \<notin> set (filesToParse previous changed deleted)) previous = filter (reusable previous current) previous"
    by (rule filter_cong [OF refl]) (use reusable_iff [OF keyed assms(2) c] in auto)
  show thesis
  proof (cases "changed = [] \<and> deleted = []")
    case True
    then have all: "\<forall>pe \<in> set previous. reusable previous current pe" and none: "filesToParse previous changed deleted = []"
      using reusable_iff [OF keyed assms(2) c] by (auto simp: filesToParse_def Let_def)
    from all have "filter (reusable previous current) previous = previous" by simp
    moreover have "is_reusedEntries r = map snd previous" "is_asts r = []" "is_deletedPaths r = []"
      using assms(1) True c unfolding prepareIncrementalScan_def recorded_previous [OF assms(2)] Let_def assms(3) by (auto split: if_splits)
    ultimately show ?thesis using c none True by (intro that [of changed deleted]) simp_all
  next
    case False
    then show ?thesis
      using assms(1) c filter unfolding prepareIncrementalScan_def recorded_previous [OF assms(2)] Let_def assms(3)
      by (intro that [of changed deleted]) (auto simp: assms(3) bind_result_def Let_def split: if_splits sum.splits)
  qed
qed

text \<open>C14: An incremental scan reuses exactly the entries whose file and whose imported files have the recorded contents, in
  their order, parses exactly the files that changed or are new and the recorded importers of changed and deleted files,
  and reports as deleted exactly the files with a record that are gone.\<close>

theorem incremental_scan_reuses_unchanged:
  assumes "prepareIncrementalScan parse content sha key base previous paths = Inr (Some r)" "distinct (map fst previous)"
    and "current = contentHashesOf content sha paths base"
  shows "is_reusedEntries r = map snd (filter (reusable previous current) previous)
    \<and> (\<exists>files. set files = files_read_again previous current \<and> distinct files
         \<and> map_result parse (map (node_resolve base) files) = Inr (is_asts r))
    \<and> set (is_deletedPaths r) = {p. map_of current p = None \<and> previous_hash previous p \<noteq> None}"
proof -
  note keyed = well_keyed_hashes [of content sha paths base, folded assms(3)]
  from prepare_cases [OF assms] obtain changed deleted where
    c: "incrementalChangeSet (recorded_hashes previous) current = (changed, deleted)" "is_deletedPaths r = uniq deleted"
      "map_result parse (map (node_resolve base) (filesToParse previous changed deleted)) = Inr (is_asts r)"
      "is_reusedEntries r = map snd (filter (reusable previous current) previous)" by blast
  moreover have "distinct (filesToParse previous changed deleted)" by (simp add: filesToParse_def Let_def)
  ultimately show ?thesis
    using files_read_again_iff [OF keyed assms(2) c(1)] changed_iff(2) [OF keyed assms(2) c(1)] by auto
qed

lemma map_result_fails: "x \<in> set xs \<Longrightarrow> f x = Inl e \<Longrightarrow> \<exists>e. map_result f xs = Inl e"
  by (induction xs) (auto split: sum.splits)

text \<open>When a file and a file that it imports have both been deleted, the incremental scan parses the deleted importer and
  fails.\<close>

theorem deleted_importer_fails:
  assumes "distinct (map fst previous)" "(p, e) \<in> set previous" "dep \<in> set (imports_of e)"
    and "current = contentHashesOf content sha paths base"
    and "previous_hash previous dep \<noteq> None" "map_of current dep = None" "parse (node_resolve base p) = Inl reason"
  shows "\<exists>reason. prepareIncrementalScan parse content sha key base previous paths = Inl reason"
proof -
  note keyed = well_keyed_hashes [of content sha paths base, folded assms(4)]
  obtain changed deleted where c: "incrementalChangeSet (recorded_hashes previous) current = (changed, deleted)" by fastforce
  have d: "dep \<in> set deleted" using changed_iff(2) [OF keyed assms(1) c] assms(5,6) by simp
  then have "p \<in> set (filesToParse previous changed deleted)" using assms(2,3) unfolding filesToParse_iff by blast
  then have parse: "\<exists>r. map_result parse (map (node_resolve base) (filesToParse previous changed deleted)) = Inl r"
    using assms(7) by (intro map_result_fails [where x = "node_resolve base p" and e = reason]) simp_all
  have "list_ex (\<lambda>(p, h). h \<noteq> None) (recorded_hashes previous)"
    using assms(5) by (auto simp: previous_hash_def bind_eq_Some_conv list_ex_iff recorded_hashes_def dest!: map_of_SomeD
        intro!: bexI [of _ "(dep, e')" for e'])
  with c d parse show ?thesis
    unfolding prepareIncrementalScan_def recorded_previous [OF assms(1)] Let_def assms(4) by (auto simp: bind_result_def)
qed

section \<open>What the publication leaves\<close>

text \<open>The active generation is a directory of canonical shards with the entries \<open>m\<close>, and no recovery is pending. The paths in use
  are \<open>P\<close>: their digests differ, and no digest looks like the name of a legacy shard.\<close>

definition serves :: "(string \<Rightarrow> string) \<Rightarrow> StorageRoot \<Rightarrow> (string \<rightharpoonup> StoredEntry) \<Rightarrow> bool" where
  "serves sha disk m = (backups_of disk = {} \<and> (\<exists>d. map_of disk active_name = Some d \<and> directory_ok sha d \<and> entry_at sha d = m))"

definition shard_names_ok :: "(string \<Rightarrow> string) \<Rightarrow> string set \<Rightarrow> bool" where
  "shard_names_ok sha P = (inj_on sha P \<and> (\<forall>p \<in> P. legacyBaselineShardFileName p \<noteq> baselineShardFileName sha p))"

lemma write_serves:
  assumes "serves sha disk m" "shard_names_ok sha P" "dom m \<subseteq> P" "se_path e \<in> P"
  shows "\<exists>disk'. writeFileMetrics sha stat disk e = Inr disk' \<and> serves sha disk' (m(se_path e \<mapsto> e))"
proof -
  obtain d where d: "backups_of disk = {}" "map_of disk active_name = Some d" "directory_ok sha d" "entry_at sha d = m"
    using assms(1) by (auto simp: serves_def)
  have inj: "q = se_path e" if "entry_at sha d q \<noteq> None" "sha q = sha (se_path e)" for q
    using assms(2-4) that d(4) by (auto simp: shard_names_ok_def dest: inj_onD)
  show ?thesis using write_refines [OF d(1-3) inj, of stat] assms(2,4) d(4) by (auto simp: serves_def shard_names_ok_def)
qed

lemma delete_serves:
  assumes "serves sha disk m" "shard_names_ok sha P" "dom m \<subseteq> P" "p \<in> P"
  shows "serves sha (delete_entry sha disk p) (m(p := None))"
proof -
  obtain d where d: "backups_of disk = {}" "map_of disk active_name = Some d" "directory_ok sha d" "entry_at sha d = m"
    using assms(1) by (auto simp: serves_def)
  have inj: "q = p" if "entry_at sha d q \<noteq> None" "sha q = sha p" for q
    using assms(2-4) that d(4) by (auto simp: shard_names_ok_def dest: inj_onD)
  show ?thesis using delete_refines [OF d(1-3) inj] assms(2,4) d(4) by (auto simp: serves_def shard_names_ok_def)
qed

lemma delete_all_serves:
  assumes "shard_names_ok sha P" "serves sha disk m" "dom m \<subseteq> P" "set ps \<subseteq> P"
  shows "serves sha (foldl (delete_entry sha) disk ps) (m |` (- set ps))"
  using assms
proof (induction ps arbitrary: disk m)
  case (Cons p ps)
  have "serves sha (foldl (delete_entry sha) (delete_entry sha disk p) ps) ((m(p := None)) |` (- set ps))"
    by (rule Cons.IH [OF Cons.prems(1) delete_serves [OF Cons.prems(2,1,3)]]) (use Cons.prems in \<open>auto split: if_splits\<close>)
  moreover have "(m(p := None)) |` (- set ps) = m |` (- set (p # ps))" by (auto simp: restrict_map_def)
  ultimately show ?case by simp
qed (simp add: restrict_map_def)

text \<open>The entries that the loop over the parsed files writes.\<close>

definition written_entries :: "(string \<Rightarrow> string) \<Rightarrow> ScanEntry list \<Rightarrow> FileAst list \<Rightarrow> ScanEntry list" where
  "written_entries key entries asts = present (map (\<lambda>a. map_get (entriesByKey key entries) (key (fa_path a))) asts)"

lemma write_all_serves:
  assumes "shard_names_ok sha P" "serves sha disk m" "dom m \<subseteq> P"
    and "(se_path \<circ> stored) ` set (written_entries key entries asts) \<subseteq> P"
  shows "\<exists>disk'. writeParsedEntries sha stat key stored (entriesByKey key entries) disk asts = Inr disk'
    \<and> serves sha disk' (m ++ map_of (rev (map (\<lambda>e. (se_path (stored e), stored e)) (written_entries key entries asts))))"
  using assms
proof (induction asts arbitrary: disk m)
  case Nil
  then show ?case by (simp add: written_entries_def)
next
  case (Cons a asts)
  show ?case
  proof (cases "map_get (entriesByKey key entries) (key (fa_path a))")
    case None
    with Cons.IH [OF Cons.prems(1-3)] Cons.prems(4) show ?thesis by (simp add: written_entries_def bind_result_def)
  next
    case (Some e)
    with Cons.prems have p: "se_path (stored e) \<in> P" by (simp add: written_entries_def)
    obtain disk' where w: "writeFileMetrics sha stat disk (stored e) = Inr disk'" "serves sha disk' (m(se_path (stored e) \<mapsto> stored e))"
      using write_serves [OF Cons.prems(2,1,3) p] by blast
    have "\<exists>disk''. writeParsedEntries sha stat key stored (entriesByKey key entries) disk' asts = Inr disk''
      \<and> serves sha disk'' (m(se_path (stored e) \<mapsto> stored e)
          ++ map_of (rev (map (\<lambda>e. (se_path (stored e), stored e)) (written_entries key entries asts))))"
      proof (rule Cons.IH [OF Cons.prems(1) w(2)])
      show "dom (m(se_path (stored e) \<mapsto> stored e)) \<subseteq> P" using Cons.prems(3) p by simp
      show "(se_path \<circ> stored) ` set (written_entries key entries asts) \<subseteq> P"
        using Cons.prems(4) by (auto simp: written_entries_def image_subset_iff)
    qed
    with w(1) Some show ?thesis by (simp add: written_entries_def bind_result_def)
  qed
qed

lemma index_write_serves:
  assumes "serves sha disk m"
  shows "\<exists>disk'. writeCanonicalIndex stat disk index = Inr disk' \<and> serves sha disk' m \<and> (\<exists>d f. map_of disk' active_name = Some d \<and> map_of d index_name = Some f \<and> sf_document f = IndexDocument index)"
proof -
  obtain d where d: "backups_of disk = {}" "map_of disk active_name = Some d" "directory_ok sha d" "entry_at sha d = m"
    using assms(1) by (auto simp: serves_def)
  let ?w = "atomicWriteJsonIfChanged stat disk index_name (IndexDocument index)"
  have w: "writeCanonicalIndex stat disk index = Inr ?w"
    using d(1) by (simp add: writeCanonicalIndex_def assertNoPendingBaselineRecovery_def hasBackup_iff bind_result_def)
  obtain f where f: "sf_document f = IndexDocument index" "map_of ?w active_name = Some (map_set d index_name f)"
    using changed_same [OF d(2)] by blast
  have "entry_at sha (map_set d index_name f) = m"
    using d(4) shard_names(2) [of sha] by (auto simp: entry_at_def fun_eq_iff)
  moreover have "directory_ok sha (map_set d index_name f)"
    using d(3) f(1) by (intro directory_okI) (auto simp: directory_ok_parts parse_entry_def is_shard_def dest: directory_ok_get directory_ok_parts(2) split: if_splits)
  ultimately show ?thesis using f write_keeps_backups [OF d(1)] w by (auto simp: serves_def)
qed

lemma publication_serves:
  assumes "normalizeBaselineSnapshot \<lparr>bs_index = index, bs_entries = map stored entries, bs_changedPaths = None, bs_deletedPaths = None\<rparr> = Inr normalized"
    and "shard_names_ok sha P" "serves sha disk m" "dom m \<subseteq> P" "(se_path \<circ> stored) ` set (written_entries key entries asts) \<subseteq> P"
    and "set deletedPaths \<subseteq> P" "\<And>p. p \<in> P \<Longrightarrow> \<not> starts_with p ''/'' \<and> toPosixPath p = p"
  shows "\<exists>disk'. publishIncrementalEntries sha prim hash lc stat rel key stored disk asts entries deletedPaths index = Inr disk'
    \<and> serves sha disk' ((m ++ map_of (rev (map (\<lambda>e. (se_path (stored e), stored e)) (written_entries key entries asts)))) |` (- set deletedPaths))"
proof -
  let ?m = "m ++ map_of (rev (map (\<lambda>e. (se_path (stored e), stored e)) (written_entries key entries asts)))"
  from write_all_serves [OF assms(2-5)] obtain written where
    w: "writeParsedEntries sha stat key stored (entriesByKey key entries) disk asts = Inr written" "serves sha written ?m" by blast
  have dom: "dom ?m \<subseteq> P" using assms(4,5) by (auto dest!: map_of_SomeD simp: image_subset_iff)
  have ps: "concat (map (delete_candidates rel) deletedPaths) = deletedPaths"
  proof -
    have "map (delete_candidates rel) deletedPaths = map (\<lambda>p. [p]) deletedPaths"
      using assms(6,7) by (auto simp: delete_candidates_def)
    then show ?thesis by (simp only:) (induction deletedPaths, simp_all)
  qed
  have "serves sha (foldl (delete_entry sha) written deletedPaths) (?m |` (- set deletedPaths))"
    by (rule delete_all_serves [OF assms(2) w(2) dom assms(6)])
  moreover have "(if deletedPaths = [] then Inr written else deleteFileMetrics sha rel written deletedPaths)
      = Inr (foldl (delete_entry sha) written deletedPaths)"
    using w(2) ps by (auto simp: deleteFileMetrics_def bind_result_def serves_def assertNoPendingBaselineRecovery_def hasBackup_iff)
  ultimately show ?thesis
    using index_write_serves [of sha "foldl (delete_entry sha) written deletedPaths" "?m |` (- set deletedPaths)" stat] w(1) assms(1)
    by (fastforce simp: publishIncrementalEntries_def bind_result_def)
qed

lemma map_result_all2: "map_result f xs = Inr ys \<Longrightarrow> list_all2 (\<lambda>x y. f x = Inr y) xs ys"
  by (induction xs arbitrary: ys) (auto split: sum.splits)

lemma entriesByKey_get:
  assumes "distinct (map ix_path entries)" "inj_on key (ix_path ` set entries)" "e \<in> set entries"
  shows "map_of (entriesByKey key entries) (key (ix_path e)) = Some e"
proof -
  have "distinct (map fst (map (\<lambda>e. (key (ix_path e), e)) entries))"
    using comp_inj_on [OF _ assms(2)] assms(1) by (simp add: distinct_map o_def)
  then show ?thesis using assms(3) by (force simp: entriesByKey_def fromEntries_distinct map_of_eq_Some_iff)
qed

text \<open>The files of an incremental scan: the reused ones, in the order of the listing, then the parsed ones.\<close>

lemma incremental_paths:
  assumes "prepareIncrementalScan parse content sha key base previous paths = Inr (Some r)" "distinct (map fst previous)"
    and "current = contentHashesOf content sha paths base"
    and "\<And>p e. (p, e) \<in> set previous \<Longrightarrow> ix_path e = p"
    and "\<And>p a. p \<in> files_read_again previous current \<Longrightarrow> parse (node_resolve base p) = Inr a \<Longrightarrow> relativePath base (fa_path a) = p"
  obtains files where "map ix_path (is_reusedEntries r) = map fst (filter (reusable previous current) previous)"
    "map (\<lambda>a. relativePath base (fa_path a)) (is_asts r) = files" "set files = files_read_again previous current"
    "distinct (map fst (filter (reusable previous current) previous) @ files)"
    "list_all2 (\<lambda>p a. p \<in> files_read_again previous current \<and> parse (node_resolve base p) = Inr a) files (is_asts r)"
proof -
  note keyed = well_keyed_hashes [of content sha paths base, folded assms(3)]
  from prepare_cases [OF assms(1-3)] obtain changed deleted where
    c: "incrementalChangeSet (recorded_hashes previous) current = (changed, deleted)"
      "map_result parse (map (node_resolve base) (filesToParse previous changed deleted)) = Inr (is_asts r)"
      "is_reusedEntries r = map snd (filter (reusable previous current) previous)" by blast
  let ?files = "filesToParse previous changed deleted"
  have reused: "map ix_path (is_reusedEntries r) = map fst (filter (reusable previous current) previous)"
    unfolding c(3) map_map by (rule map_cong [OF refl]) (use assms(4) in auto)
  have "list_all2 (\<lambda>p a. parse (node_resolve base p) = Inr a) ?files (is_asts r)"
    using map_result_all2 [OF c(2)] by (simp add: list_all2_map1)
  then have all2: "list_all2 (\<lambda>p a. p \<in> files_read_again previous current \<and> parse (node_resolve base p) = Inr a) ?files (is_asts r)"
    by (rule list.rel_mono_strong) (use files_read_again_iff [OF keyed assms(2) c(1)] in blast)
  have parsed: "map (\<lambda>a. relativePath base (fa_path a)) as = ps"
    if "list_all2 (\<lambda>p a. p \<in> files_read_again previous current \<and> parse (node_resolve base p) = Inr a) ps as" for ps as
    using that by (induction rule: list_all2_induct) (simp_all add: assms(5))
  have "set (map fst (filter (reusable previous current) previous)) \<inter> set ?files = {}"
  proof -
    have "p \<notin> set ?files" if "(p, e) \<in> set previous" "reusable previous current (p, e)" for p e
      using that reusable_iff [OF keyed assms(2) c(1)] by blast
    then show ?thesis by auto
  qed
  moreover have "distinct (map fst (filter (reusable previous current) previous))" using assms(2) by (rule distinct_map_filter)
  moreover have "distinct ?files" by (simp add: filesToParse_def Let_def)
  ultimately have "distinct (map fst (filter (reusable previous current) previous) @ ?files)" by simp
  then show thesis by (rule that [OF reused parsed [OF all2] files_read_again_iff [OF keyed assms(2) c(1)] _ all2])
qed

lemma incremental_entries:
  assumes "entries = fst (computeEntries (computeEntryForAst hash key cwd base facts) asts kinds reused)"
  shows "entries = reused @ map (\<lambda>a. computeEntryForAst hash key cwd base facts a (ast_kind kinds a)) asts"
  using assms by (simp add: computeEntries_def reused_entries parsed_entries)

lemma stored_pairs:
  assumes "distinct (map ix_path es)" "\<And>e. se_path (stored e) = ix_path e"
  shows "map_of (rev (map (\<lambda>e. (se_path (stored e), stored e)) es)) = map_of (map (\<lambda>e. (ix_path e, stored e)) es)"
  using assms by (subst map_of_inject_set) (simp_all add: o_def flip: rev_map)

lemma reusable_deleted:
  "reusable previous current (p, e) \<Longrightarrow> map_of current p = None \<and> previous_hash previous p \<noteq> None \<Longrightarrow> False"
  by (simp add: reusable_def)

lemma not_reused:
  assumes "(p, e) \<in> set previous" "p \<notin> files_read_again previous current" "\<not> (map_of current p = None \<and> previous_hash previous p \<noteq> None)"
  shows "reusable previous current (p, e)"
  using assms by (force simp: reusable_def files_read_again_def list_all_iff)

lemma map_of_stored:
  assumes "distinct (map fst previous)" "\<And>p e. (p, e) \<in> set previous \<Longrightarrow> ix_path e = p" "(p, e) \<in> set previous"
  shows "map_of (map (\<lambda>(p, e). (p, stored e)) previous) p = Some (stored e)"
  using assms by (auto simp: map_of_map)

text \<open>The map that the publication leaves, before it is recognised as the map of the entries.\<close>

lemma published_map:
  assumes distinct: "distinct (map fst previous)" and paths: "\<And>p e. (p, e) \<in> set previous \<Longrightarrow> ix_path e = p"
    and stored: "\<And>e. se_path (stored e) = ix_path e"
    and new: "distinct (map ix_path new)" "ix_path ` set new = files_read_again previous current"
    and there: "\<And>p. p \<in> files_read_again previous current \<Longrightarrow> map_of current p \<noteq> None"
    and deleted: "set deleted = {p. map_of current p = None \<and> previous_hash previous p \<noteq> None}"
    and reused: "reused = map snd (filter (reusable previous current) previous)"
    and all: "distinct (map ix_path (reused @ new))"
  shows "(map_of (map (\<lambda>(p, e). (p, stored e)) previous) ++ map_of (rev (map (\<lambda>e. (se_path (stored e), stored e)) new))) |` (- set deleted)
     = map_of (map (\<lambda>e. (ix_path e, stored e)) (reused @ new))" (is "?l = ?r")
proof
  fix p
  note pairs = stored_pairs [OF new(1) stored]
  have nw: "map_of (map (\<lambda>e. (ix_path e, stored e)) new) p = None \<longleftrightarrow> p \<notin> files_read_again previous current"
    unfolding new(2) [symmetric] by (force simp: map_of_eq_None_iff)
  have old: "map_of (map (\<lambda>e. (ix_path e, stored e)) reused) p
      = (if \<exists>e. (p, e) \<in> set previous \<and> reusable previous current (p, e) then map_of (map (\<lambda>(p, e). (p, stored e)) previous) p else None)"
  proof (cases "\<exists>e. (p, e) \<in> set previous \<and> reusable previous current (p, e)")
    case True
    then obtain e where e: "(p, e) \<in> set previous" "reusable previous current (p, e)" by blast
    then have "(p, stored e) \<in> set (map (\<lambda>e. (ix_path e, stored e)) reused)" using paths by (force simp: reused)
    moreover have "distinct (map fst (map (\<lambda>e. (ix_path e, stored e)) reused))" using all by (simp add: o_def)
    ultimately have "map_of (map (\<lambda>e. (ix_path e, stored e)) reused) p = Some (stored e)" by (metis map_of_eq_Some_iff)
    then show ?thesis using True map_of_stored [OF distinct paths e(1), of stored] by simp
  next
    case False
    then have "p \<notin> ix_path ` set reused" using paths by (auto simp: reused)
    then have "map_of (map (\<lambda>e. (ix_path e, stored e)) reused) p = None" by (auto simp: map_of_eq_None_iff)
    with False show ?thesis by (simp del: not_ex)
  qed
  have disj: "p \<in> files_read_again previous current \<Longrightarrow> map_of (map (\<lambda>e. (ix_path e, stored e)) reused) p = None"
    using all new(2) by (force simp: map_of_eq_None_iff)
  show "?l p = ?r p"
  proof (cases "p \<in> set deleted")
    case True
    then have "p \<notin> files_read_again previous current" using deleted there by blast
    moreover have "\<not> (\<exists>e. (p, e) \<in> set previous \<and> reusable previous current (p, e))" using True deleted reusable_deleted by blast
    ultimately show ?thesis using True nw old by (simp add: map_add_def del: not_ex)
  next
    case False
    show ?thesis
    proof (cases "p \<in> files_read_again previous current")
      case True
      then show ?thesis using False nw disj by (auto simp: pairs map_add_def)
    next
      case notread: False
      have "map_of (map (\<lambda>(p, e). (p, stored e)) previous) p = None \<or> (\<exists>e. (p, e) \<in> set previous \<and> reusable previous current (p, e))"
        using not_reused [OF _ notread] False deleted by (force simp: map_of_eq_None_iff)
      then show ?thesis using False notread nw old by (auto simp: pairs map_add_def split: option.splits)
    qed
  qed
qed

lemma scan_covers:
  assumes "distinct (map fst previous)" "\<forall>pe \<in> set previous. sc_contentSha256 (snd pe) \<noteq> None"
    and "\<And>p. p \<in> files_read_again previous current \<Longrightarrow> map_of current p \<noteq> None"
  shows "fst ` set (filter (reusable previous current) previous) \<union> files_read_again previous current = dom (map_of current)"
proof -
  have known: "previous_hash previous p \<noteq> None" if "(p, e) \<in> set previous" for p e
    using that assms(1,2) by (auto simp: previous_hash_def)
  have reused: "map_of current p \<noteq> None" if "(p, e) \<in> set previous" "reusable previous current (p, e)" for p e
    using known [OF that(1)] that(2) by (auto simp: reusable_def)
  have "p \<in> fst ` set (filter (reusable previous current) previous) \<union> files_read_again previous current"
    if "map_of current p \<noteq> None" for p
  proof (cases "previous_hash previous p = None")
    case True
    then show ?thesis using that by (auto simp: files_read_again_def)
  next
    case False
    then obtain e where "(p, e) \<in> set previous" by (auto simp: previous_hash_def bind_eq_Some_conv dest!: map_of_SomeD)
    then show ?thesis using not_reused [of p e previous current] that by force
  qed
  moreover have "map_of current p \<noteq> None"
    if "p \<in> fst ` set (filter (reusable previous current) previous) \<union> files_read_again previous current" for p
    using that reused assms(3) by fastforce
  ultimately show ?thesis unfolding dom_def by blast
qed

lemma all2_right: "list_all2 R xs ys \<Longrightarrow> y \<in> set ys \<Longrightarrow> \<exists>x. R x y"
  by (induction rule: list_all2_induct) auto

lemma present_map_Some: "present (map Some xs) = xs"
  by (induction xs) simp_all

text \<open>C13: An incremental scan can be published when the counts of the index are right, and then the baseline serves exactly the entries that the scan computed, one for
  each path, and when every earlier entry has a digest their paths are exactly those of the current files. The parser
  answers only for files that can be read, with the path it was given; keys and digests tell the paths in use apart.\<close>

theorem incremental_publication_complete:
  assumes "prepareIncrementalScan parse content sha key base previous paths = Inr (Some r)" "distinct (map fst previous)"
    and "current = contentHashesOf content sha paths base" "\<And>p e. (p, e) \<in> set previous \<Longrightarrow> ix_path e = p"
    and "\<And>p a. p \<in> P \<Longrightarrow> parse (node_resolve base p) = Inr a \<Longrightarrow> relativePath base (fa_path a) = p \<and> key (fa_path a) = key p \<and> map_of current p \<noteq> None"
    and "inj_on key P" "fst ` set previous \<union> dom (map_of current) \<subseteq> P" "\<And>p. p \<in> P \<Longrightarrow> \<not> starts_with p ''/'' \<and> toPosixPath p = p"
    and "\<And>e. se_path (stored e) = ix_path e" "shard_names_ok sha P"
    and "serves sha disk (map_of (map (\<lambda>(p, e). (p, stored e)) previous))"
    and "entries = fst (computeEntries (computeEntryForAst hash key cwd base facts) (is_asts r) kinds (is_reusedEntries r))"
    and "normalizeBaselineSnapshot \<lparr>bs_index = index, bs_entries = map stored entries, bs_changedPaths = None, bs_deletedPaths = None\<rparr> = Inr normalized"
  shows "(\<exists>disk'. publishIncrementalEntries sha prim hash lc stat rel key stored disk (is_asts r) entries (is_deletedPaths r) index = Inr disk'
      \<and> serves sha disk' (map_of (map (\<lambda>e. (ix_path e, stored e)) entries))) \<and> distinct (map ix_path entries)
    \<and> ((\<forall>pe \<in> set previous. sc_contentSha256 (snd pe) \<noteq> None) \<longrightarrow> ix_path ` set entries = dom (map_of current))"
proof -
  note keyed = well_keyed_hashes [of content sha paths base, folded assms(3)]
  have read_P: "p \<in> P" if "p \<in> files_read_again previous current" for p
  proof -
    from that have "p \<in> dom (map_of current) \<or> (\<exists>e. (p, e) \<in> set previous)" unfolding files_read_again_def by blast
    then show ?thesis using assms(7) by (metis Un_iff fst_conv image_eqI subsetD)
  qed
  then have rel: "relativePath base (fa_path a) = p" if "p \<in> files_read_again previous current" "parse (node_resolve base p) = Inr a" for p a
    using assms(5) that by blast
  obtain files where files: "map ix_path (is_reusedEntries r) = map fst (filter (reusable previous current) previous)"
    "map (\<lambda>a. relativePath base (fa_path a)) (is_asts r) = files" "set files = files_read_again previous current"
    "distinct (map fst (filter (reusable previous current) previous) @ files)"
    "list_all2 (\<lambda>p a. p \<in> files_read_again previous current \<and> parse (node_resolve base p) = Inr a) files (is_asts r)"
    using incremental_paths [OF assms(1-4) rel] by blast
  obtain changed deleted where c: "incrementalChangeSet (recorded_hashes previous) current = (changed, deleted)" "is_deletedPaths r = uniq deleted"
    "is_reusedEntries r = map snd (filter (reusable previous current) previous)" using prepare_cases [OF assms(1-3)] by blast
  define new where "new = map (\<lambda>a. computeEntryForAst hash key cwd base facts a (ast_kind kinds a)) (is_asts r)"
  have entries: "entries = is_reusedEntries r @ new" unfolding new_def by (rule incremental_entries [OF assms(12)])
  have new_paths: "map ix_path new = files" unfolding new_def files(2) [symmetric] by simp
  have all: "distinct (map ix_path (is_reusedEntries r @ new))" using files(1,4) new_paths by simp
  have there: "map_of current p \<noteq> None" if "p \<in> files_read_again previous current" for p
    using that files(5) assms(5) read_P unfolding files(3) [symmetric] by (force simp: list_all2_conv_all_nth in_set_conv_nth)
  have of_entries: "ix_path ` set entries = fst ` set (filter (reusable previous current) previous) \<union> files_read_again previous current"
    using files(1,3) new_paths unfolding entries by (metis image_Un set_append list.set_map)
  have in_P: "ix_path ` set entries \<subseteq> P"
  proof -
    have "files_read_again previous current \<subseteq> dom (map_of current)" using there by blast
    then show ?thesis unfolding of_entries using assms(7) by auto
  qed
  have parsed: "map_of (entriesByKey key entries) (key (fa_path a)) = Some (computeEntryForAst hash key cwd base facts a (ast_kind kinds a))"
    if "a \<in> set (is_asts r)" for a
  proof -
    let ?e = "computeEntryForAst hash key cwd base facts a (ast_kind kinds a)"
    obtain p where p: "p \<in> files_read_again previous current" "parse (node_resolve base p) = Inr a" using all2_right [OF files(5) \<open>a \<in> set (is_asts r)\<close>] by blast
    then have "key (fa_path a) = key (ix_path ?e)" using assms(5) [OF read_P [OF p(1)] p(2)] by simp
    then show ?thesis using entriesByKey_get [OF _ inj_on_subset [OF assms(6) in_P], of ?e] that all by (simp add: entries new_def)
  qed
  have written: "written_entries key entries (is_asts r) = new"
  proof -
    have "map (\<lambda>a. map_get (entriesByKey key entries) (key (fa_path a))) (is_asts r) = map Some new" using parsed by (simp add: new_def)
    then show ?thesis by (simp add: written_entries_def present_map_Some)
  qed
  have gone: "set (is_deletedPaths r) = {p. map_of current p = None \<and> previous_hash previous p \<noteq> None}"
    using c(2) changed_iff(2) [OF keyed assms(2) c(1)] by auto
  then have gone_P: "set (is_deletedPaths r) \<subseteq> P" using assms(7) by (auto simp: previous_hash_def bind_eq_Some_conv dest!: map_of_SomeD)
  have dom: "dom (map_of (map (\<lambda>(p, e). (p, stored e)) previous)) \<subseteq> P"
    using assms(7) by (simp add: dom_map_of_conv_image_fst image_image case_prod_unfold)
  have serves: "\<exists>disk'. publishIncrementalEntries sha prim hash lc stat rel key stored disk (is_asts r) entries (is_deletedPaths r) index = Inr disk'
      \<and> serves sha disk' ((map_of (map (\<lambda>(p, e). (p, stored e)) previous)
      ++ map_of (rev (map (\<lambda>e. (se_path (stored e), stored e)) new))) |` (- set (is_deletedPaths r)))"
  proof -
    have "(se_path \<circ> stored) ` set (written_entries key entries (is_asts r)) \<subseteq> P"
      using in_P assms(9) unfolding written by (auto simp: entries image_subset_iff)
    from publication_serves [OF assms(13,10,11) dom this gone_P assms(8)] show ?thesis unfolding written .
  qed
  have map: "(map_of (map (\<lambda>(p, e). (p, stored e)) previous) ++ map_of (rev (map (\<lambda>e. (se_path (stored e), stored e)) new))) |` (- set (is_deletedPaths r))
      = map_of (map (\<lambda>e. (ix_path e, stored e)) entries)"
    unfolding entries
    by (rule published_map [OF assms(2,4,9) _ _ there gone c(3) all]) (use new_paths files(3,4) in \<open>simp_all flip: set_map\<close>)
  have "ix_path ` set entries = dom (map_of current)" if "\<forall>pe \<in> set previous. sc_contentSha256 (snd pe) \<noteq> None"
    unfolding of_entries by (rule scan_covers [OF assms(2) that there])
  with serves all show ?thesis unfolding map entries by blast
qed

definition sample_scan_entry :: "string \<Rightarrow> string \<Rightarrow> ScanEntry" where
  "sample_scan_entry p h = (projectBaselineEntry (\<lambda>_. ''f'') ''/p'' (sample_file (''/p/'' @ p) []) fk_production 0 0 None)\<lparr>sc_contentSha256 := Some h\<rparr>"

definition sample_previous :: PreviousEntries where
  "sample_previous = [(''a'', sample_scan_entry ''a'' ''1''), (''b'', sample_scan_entry ''b'' ''2''), (''c'', sample_scan_entry ''c'' ''3'')]"

definition sample_content :: "string \<Rightarrow> string option" where
  "sample_content p = map_of [(''/p/a'', ''9''), (''/p/c'', ''3'')] p"

definition sample_parse :: "string \<Rightarrow> string + FileAst" where
  "sample_parse p = (if sample_content p = None then Inl ''ENOENT'' else Inr (sample_file p []))"

lemma sample_paths: "node_resolve ''/p'' ''a'' = ''/p/a''" "node_resolve ''/p'' ''b'' = ''/p/b''" "node_resolve ''/p'' ''c'' = ''/p/c''"
  "node_resolve ''/p'' ''/p/a'' = ''/p/a''" "node_resolve ''/p'' ''/p/c'' = ''/p/c''"
  "relativePath ''/p'' ''/p/a'' = ''a''" "relativePath ''/p'' ''/p/b'' = ''b''" "relativePath ''/p'' ''/p/c'' = ''c''"
  "isWithinProjectRoot ''/p/a'' ''/p''" "isWithinProjectRoot ''/p/c'' ''/p''"
  by code_simp+

lemma sample_current: "contentHashesOf sample_content (\<lambda>t. t) [''/p/a'', ''/p/c''] ''/p'' = [(''a'', ''9''), (''c'', ''3'')]"
  by (simp add: contentHashesOf_def hash_step_def sample_content_def sample_paths map_set_def)

lemma sample_entry_simps [simp]: "sc_contentSha256 (sample_scan_entry p h) = Some h" "sc_imports (sample_scan_entry p h) = Some []"
  "ix_path (sample_scan_entry p h) = relativePath ''/p'' (''/p/'' @ p)"
  by (simp_all add: sample_scan_entry_def projectBaselineEntry_def Let_def sample_file_def)

lemma sample_prepared: "\<exists>r. prepareIncrementalScan sample_parse sample_content (\<lambda>t. t) (node_resolve ''/p'') ''/p'' sample_previous [''/p/a'', ''/p/c''] = Inr (Some r)
   \<and> is_asts r = [sample_file ''/p/a'' []] \<and> is_reusedEntries r = [sample_scan_entry ''c'' ''3''] \<and> is_deletedPaths r = [''b'']"
  by (simp add: prepareIncrementalScan_def sample_current sample_previous_def fromEntries_def map_set_def incrementalChangeSet_def
    filesToParse_def reverseIndexOf_def Let_def sample_paths sample_parse_def sample_content_def bind_result_def)

definition sample_stored :: "ScanEntry \<Rightarrow> StoredEntry" where
  "sample_stored e = \<lparr>se_path = ix_path e, se_fileKind = ix_fileKind e, se_fields = JNull, se_testMetrics = None\<rparr>"

definition sample_generation :: StorageRoot where
  "sample_generation = [(active_name, map (\<lambda>(p, e). (baselineShardFileName (\<lambda>p. p) p,
     \<lparr>sf_document = EntryDocument (sample_stored e), sf_stat = ''s''\<rparr>)) sample_previous)]"

lemma sample_serves: "serves (\<lambda>p. p) sample_generation (map_of (map (\<lambda>(p, e). (p, sample_stored e)) sample_previous))"
proof -
  let ?d = "map (\<lambda>(p, e). (baselineShardFileName (\<lambda>p. p) p, \<lparr>sf_document = EntryDocument (sample_stored e), sf_stat = ''s''\<rparr>)) sample_previous"
  have "entry_at (\<lambda>p. p) ?d q = map_of (map (\<lambda>(p, e). (p, sample_stored e)) sample_previous) q" for q
    by (simp add: entry_at_def sample_previous_def shard_names(3) parse_entry_def sample_stored_def sample_paths)
  moreover have "directory_ok (\<lambda>p. p) ?d"
    by (simp add: directory_ok_def well_keyed_def sample_previous_def shard_names shard_names(2) [symmetric] parse_entry_def sample_stored_def sample_paths)
  moreover have "backups_of sample_generation = {}" by (auto simp: backups_of_def sample_generation_def)
  ultimately show ?thesis by (auto simp: serves_def sample_generation_def fun_eq_iff)
qed

definition sample_scan_index :: BaselineIndex where
  "sample_scan_index = \<lparr>bi_version = ''5.2'', bi_meta = \<lparr>bm_scanAt = ''t'', bm_snapshotSha256 = None, bm_shardManifestSha256 = None,
     bm_nFiles = 2, bm_nProductionFiles = None, bm_nTestFiles = None, bm_fields = []\<rparr>\<rparr>"

definition sample_scan_facts :: ScanFacts where
  "sample_scan_facts = \<lparr>sx_inDegrees = [], sx_reverseGraph = [], sx_nProductionFiles = 2, sx_previousByPath = [], sx_maxDepth = 5, sx_contentHashes = []\<rparr>"

definition sample_scan_entries :: "ScanEntry list" where
  "sample_scan_entries = [sample_scan_entry ''c'' ''3'', computeEntryForAst (\<lambda>_. ''f'') (node_resolve ''/p'') ''/p'' ''/p'' sample_scan_facts (sample_file ''/p/a'' []) fk_production]"

theorem incremental_publication_complete_witness:
  "ix_path ` set sample_scan_entries = {''a'', ''c''}
    \<and> (\<exists>disk'. publishIncrementalEntries (\<lambda>p. p) (\<lambda>_. ''v'') (\<lambda>_. ''f'') code_unit_cmp (\<lambda>_ _ _. ''s'') (relativePath ''/p'') (node_resolve ''/p'') sample_stored
          sample_generation [sample_file ''/p/a'' []] sample_scan_entries [''b''] sample_scan_index = Inr disk'
        \<and> serves (\<lambda>p. p) disk' (map_of (map (\<lambda>e. (ix_path e, sample_stored e)) sample_scan_entries)))"
proof -
  obtain r where r: "prepareIncrementalScan sample_parse sample_content (\<lambda>t. t) (node_resolve ''/p'') ''/p'' sample_previous [''/p/a'', ''/p/c''] = Inr (Some r)"
    "is_asts r = [sample_file ''/p/a'' []]" "is_reusedEntries r = [sample_scan_entry ''c'' ''3'']" "is_deletedPaths r = [''b'']"
    using sample_prepared by blast
  have keys: "inj_on (node_resolve ''/p'') {''a'', ''b'', ''c''}" by (simp add: sample_paths)
  have names: "shard_names_ok (\<lambda>p. p) {''a'', ''b'', ''c''}"
    by (simp add: shard_names_ok_def legacyBaselineShardFileName_def baselineShardFileName_def)
  have entries: "sample_scan_entries = fst (computeEntries (computeEntryForAst (\<lambda>_. ''f'') (node_resolve ''/p'') ''/p'' ''/p'' sample_scan_facts) (is_asts r) [] (is_reusedEntries r))"
    by (simp add: r sample_scan_entries_def computeEntries_def add_reused_def add_parsed_def Let_def)
  have counts: "\<exists>n. normalizeBaselineSnapshot \<lparr>bs_index = sample_scan_index, bs_entries = map sample_stored sample_scan_entries,
      bs_changedPaths = None, bs_deletedPaths = None\<rparr> = Inr n"
    by (simp add: normalizeBaselineSnapshot_def validateEntries_def assertCount_def sample_scan_index_def sample_scan_entries_def
        sample_stored_def sample_paths bind_result_def sample_file_def)
  have current: "contentHashesOf sample_content (\<lambda>t. t) [''/p/a'', ''/p/c''] ''/p'' = [(''a'', ''9''), (''c'', ''3'')]" by (rule sample_current)
  have "\<exists>disk'. publishIncrementalEntries (\<lambda>p. p) (\<lambda>_. ''v'') (\<lambda>_. ''f'') code_unit_cmp (\<lambda>_ _ _. ''s'') (relativePath ''/p'') (node_resolve ''/p'') sample_stored
          sample_generation (is_asts r) sample_scan_entries (is_deletedPaths r) sample_scan_index = Inr disk'
        \<and> serves (\<lambda>p. p) disk' (map_of (map (\<lambda>e. (ix_path e, sample_stored e)) sample_scan_entries))"
  proof -
    obtain n where n: "normalizeBaselineSnapshot \<lparr>bs_index = sample_scan_index, bs_entries = map sample_stored sample_scan_entries,
      bs_changedPaths = None, bs_deletedPaths = None\<rparr> = Inr n" using counts by blast
    note complete = incremental_publication_complete [OF r(1) _ current [symmetric] _ _ keys _ _ _ names sample_serves entries n]
    show ?thesis
      by (rule conjunct1 [OF complete])
        (auto simp: sample_previous_def sample_paths sample_parse_def sample_content_def sample_file_def sample_stored_def starts_with_def toPosixPath_def split: if_splits)
  qed
  then show ?thesis unfolding r(2,4) by (simp add: sample_scan_entries_def sample_paths sample_file_def insert_commute)
qed

theorem incremental_scan_reuses_unchanged_witness:
  "\<exists>r. prepareIncrementalScan sample_parse sample_content (\<lambda>t. t) (node_resolve ''/p'') ''/p'' sample_previous [''/p/a'', ''/p/c''] = Inr (Some r)
     \<and> is_reusedEntries r = map snd (filter (reusable sample_previous [(''a'', ''9''), (''c'', ''3'')]) sample_previous)"
proof -
  obtain r where r: "prepareIncrementalScan sample_parse sample_content (\<lambda>t. t) (node_resolve ''/p'') ''/p'' sample_previous [''/p/a'', ''/p/c''] = Inr (Some r)"
    using sample_prepared by blast
  have "distinct (map fst sample_previous)" by (simp add: sample_previous_def)
  from incremental_scan_reuses_unchanged [OF r this sample_current [symmetric]] r show ?thesis by blast
qed

definition sample_importer :: ScanEntry where
  "sample_importer = (sample_scan_entry ''b'' ''2'')\<lparr>sc_imports := Some [''a'']\<rparr>"

definition sample_pair :: PreviousEntries where
  "sample_pair = [(''a'', sample_scan_entry ''a'' ''1''), (''b'', sample_importer), (''c'', sample_scan_entry ''c'' ''3'')]"

theorem deleted_importer_fails_witness:
  "\<exists>reason. prepareIncrementalScan (\<lambda>p. if p = ''/p/c'' then Inr (sample_file p []) else Inl ''ENOENT'')
     (map_of [(''/p/c'', ''3'')]) (\<lambda>t. t) (node_resolve ''/p'') ''/p'' sample_pair [''/p/c''] = Inl reason"
proof (rule deleted_importer_fails)
  show "distinct (map fst sample_pair)" by (simp add: sample_pair_def)
  show "(''b'', sample_importer) \<in> set sample_pair" by (simp add: sample_pair_def)
  show "''a'' \<in> set (imports_of sample_importer)" by (simp add: imports_of_def sample_importer_def)
  show "[(''c'', ''3'')] = contentHashesOf (map_of [(''/p/c'', ''3'')]) (\<lambda>t. t) [''/p/c''] ''/p''"
    by (simp add: contentHashesOf_def hash_step_def sample_paths map_set_def)
  show "previous_hash sample_pair ''a'' \<noteq> None" by (simp add: previous_hash_def sample_pair_def)
  show "map_of [(''c'', ''3'')] ''a'' = None" by simp
  show "(if node_resolve ''/p'' ''b'' = ''/p/c'' then Inr (sample_file (node_resolve ''/p'' ''b'') []) else Inl ''ENOENT'') = Inl ''ENOENT''"
    by (simp add: sample_paths)
qed

text \<open>When no entry's path, resolved in the process's directory, is the key of a parsed file (the project root is another
  directory), the shards stay as they were, but the index that is written carries the identity of the new entries.\<close>

theorem elsewhere_only_the_index:
  assumes "\<And>a e. a \<in> set asts \<Longrightarrow> e \<in> set entries \<Longrightarrow> key (fa_path a) \<noteq> key (ix_path e)" "serves sha disk m"
    and "normalizeBaselineSnapshot \<lparr>bs_index = index, bs_entries = map stored entries, bs_changedPaths = None, bs_deletedPaths = None\<rparr> = Inr normalized"
  shows "\<exists>disk' d f i. publishIncrementalEntries sha prim hash lc stat rel key stored disk asts entries [] index = Inr disk' \<and> serves sha disk' m
    \<and> map_of disk' active_name = Some d \<and> map_of d index_name = Some f \<and> sf_document f = IndexDocument i
    \<and> bm_snapshotSha256 (bi_meta i) = Some (snapshotIdentity hash lc normalized)"
proof -
  have none: "map_of (entriesByKey key entries) (key (fa_path a)) = None" if "a \<in> set asts" for a
  proof -
    have "fst ` set (foldl (\<lambda>m (k, v). map_set m k v) m0 kvs) = fst ` set m0 \<union> fst ` set kvs" for m0 and kvs :: "(string \<times> ScanEntry) list"
      by (induction kvs arbitrary: m0) (simp_all add: split_beta)
    from this [of "[]" "map (\<lambda>e. (key (ix_path e), e)) entries"] show ?thesis
      using assms(1) [OF that] by (force simp: entriesByKey_def fromEntries_def map_of_eq_None_iff)
  qed
  have "writeParsedEntries sha stat key stored (entriesByKey key entries) disk as = Inr disk" if "set as \<subseteq> set asts" for as
    using that none by (induction as) (auto simp: bind_result_def)
  then show ?thesis
    using index_write_serves [OF assms(2), of stat "published_index sha prim hash lc disk normalized index"] assms(3)
    by (auto simp: publishIncrementalEntries_def bind_result_def published_index_def)
qed

end
