(* ===== verification/Scan.thy ===== *)
theory Scan
  imports Scan_Incremental
begin

text \<open>
  A scan of the project (\<open>application/scan.ts\<close>) behind its write lock: which entries it starts from, what it parses, the graph
  it measures, and what it publishes. Progress records are left out. \<open>shapes\<close> is the list of errors of the project's
  declared language shapes, \<open>listing\<close> the answer of the previous baseline.
\<close>

section \<open>The pipeline\<close>

record ScanOptions = ScanCalibrationOptions +
  so_fileKindClassifier :: "(string \<Rightarrow> FileKind) option"
  so_analysisScope :: "AnalysisScope option"
  so_incremental :: "bool option"

record PreviousIndex =
  px_calibration :: "StructuralCalibrationState option"
  px_policyCalibrations :: "(string, StructuralCalibrationState) jmap"

text \<open>What the parsing phase leaves: the trees, the reused entries, the edges and the deleted paths, and whether the scan is incremental.\<close>

record ScanSources =
  ss_asts :: "FileAst list"
  ss_reused :: "ScanEntry list"
  ss_edges :: DependencyGraph
  ss_deleted :: "string list"
  ss_incremental :: bool

datatype ParsePhase = parse_unchanged nat | parse_sources ScanSources

definition full_sources :: "FileAst list \<Rightarrow> ScanSources" where
  "full_sources asts = \<lparr>ss_asts = asts, ss_reused = [], ss_edges = [], ss_deleted = [], ss_incremental = False\<rparr>"

definition scan_sources ::
  "(string \<Rightarrow> string + FileAst) \<Rightarrow> (string \<Rightarrow> string option) \<Rightarrow> (string \<Rightarrow> string) \<Rightarrow> (string \<Rightarrow> string) \<Rightarrow> string \<Rightarrow> bool
     \<Rightarrow> PreviousEntries \<Rightarrow> string list \<Rightarrow> ParsePhase result" where
  "scan_sources parse content sha key base incremental previousEntries paths =
     (let parse_all = bind_result (map_result parse paths) (\<lambda>asts. Inr (parse_sources (full_sources asts)))
      in if incremental \<and> previousEntries \<noteq> [] then
           bind_result (prepareIncrementalScan parse content sha key base previousEntries paths)
             (\<lambda>prepared. case prepared of
                None \<Rightarrow> parse_all
              | Some r \<Rightarrow>
                  if is_asts r = [] \<and> is_deletedPaths r = [] then Inr (parse_unchanged (length (is_reusedEntries r)))
                  else Inr (parse_sources \<lparr>ss_asts = is_asts r, ss_reused = is_reusedEntries r, ss_edges = is_edges r,
                    ss_deleted = is_deletedPaths r, ss_incremental = True\<rparr>))
         else parse_all)"

definition kinds_of :: "(string \<Rightarrow> FileKind) \<Rightarrow> FileAst list \<Rightarrow> (string, FileKind) jmap" where
  "kinds_of classify asts = fromEntries (map (\<lambda>a. (fa_path a, classify (fa_path a))) asts)"

definition production_asts :: "(string, FileKind) jmap \<Rightarrow> FileAst list \<Rightarrow> FileAst list" where
  "production_asts fileKinds asts = filter (\<lambda>a. participatesInPopulation (map_get fileKinds (fa_path a)) pop_production) asts"

definition scan_graph :: "(string \<Rightarrow> string) \<Rightarrow> ImplicitEdge list option \<Rightarrow> (string, FileKind) jmap \<Rightarrow> ScanSources \<Rightarrow> DependencyGraph" where
  "scan_graph key implicitDeps fileKinds sources =
     (if ss_incremental sources then buildDependencyGraphFromEdges (ss_edges sources) implicitDeps
      else buildDependencyGraph (production_asts fileKinds (ss_asts sources)) implicitDeps key)"

definition count_production :: "(string, FileKind) jmap \<Rightarrow> ScanSources \<Rightarrow> nat" where
  "count_production fileKinds sources =
     (if ss_incremental sources
      then length (filter (\<lambda>e. or_default (ix_fileKind e) fk_production = fk_production) (ss_reused sources))
        + length (production_asts fileKinds (ss_asts sources))
      else length (production_asts fileKinds (ss_asts sources)))"

definition count_tests :: "(string, FileKind) jmap \<Rightarrow> ScanSources \<Rightarrow> nat" where
  "count_tests fileKinds sources =
     (if ss_incremental sources
      then length (filter (\<lambda>e. ix_fileKind e = Some fk_test) (ss_reused sources))
        + length (filter (\<lambda>a. map_get fileKinds (fa_path a) = Some fk_test) (ss_asts sources))
      else length (filter (\<lambda>a. map_get fileKinds (fa_path a) = Some fk_test) (ss_asts sources)))"

definition scan_depth :: "nat \<Rightarrow> nat" where
  "scan_depth nFiles = (if nFiles > 5000 then 3 else 5)"

record ScanPlan =
  sn_entries :: "ScanEntry list"
  sn_p95 :: P95Values
  sn_nFiles :: nat
  sn_nProductionFiles :: nat
  sn_nTestFiles :: nat
  sn_languages :: "string list"
  sn_maxDepth :: nat
  sn_meta :: ScanMeta
  sn_sources :: ScanSources
  sn_recovered :: bool

text \<open>From the trees to the entries and the meta data.\<close>

definition assemble_scan ::
  "(json \<Rightarrow> string) \<Rightarrow> string cmp \<Rightarrow> (string \<Rightarrow> string \<Rightarrow> bool) \<Rightarrow> (string \<Rightarrow> string) \<Rightarrow> string \<Rightarrow> string \<Rightarrow> (string, string) jmap
     \<Rightarrow> (string \<Rightarrow> FileKind) \<Rightarrow> ScanOptions \<Rightarrow> ImplicitEdge list option \<Rightarrow> PreviousEntries \<Rightarrow> PreviousIndex \<Rightarrow> bool \<Rightarrow> nat
     \<Rightarrow> ScanSources \<Rightarrow> ScanPlan" where
  "assemble_scan hash lc mm key cwd base hashes classify options implicitDeps previousEntries previousIndex recovered nFiles sources =
     (let fileKinds = kinds_of classify (ss_asts sources);
          graph = scan_graph key implicitDeps fileKinds sources;
          nProductionFiles = count_production fileKinds sources;
          languages = projectLanguages (ss_incremental sources) (ss_reused sources) (ss_asts sources);
          scope = or_default (so_analysisScope options) (createAnalysisScope lc languages []);
          facts = \<lparr>sx_inDegrees = computeInDegrees graph, sx_reverseGraph = computeReverseEdges graph,
            sx_nProductionFiles = nProductionFiles, sx_previousByPath = fromEntries previousEntries,
            sx_maxDepth = scan_depth nFiles, sx_contentHashes = hashes\<rparr>;
          computed = computeEntries (computeEntryForAst hash key cwd base facts) (ss_asts sources) fileKinds (ss_reused sources);
          p95Values = scanP95 (snd computed)
      in \<lparr>sn_entries = fst computed, sn_p95 = p95Values, sn_nFiles = nFiles, sn_nProductionFiles = nProductionFiles,
          sn_nTestFiles = count_tests fileKinds sources, sn_languages = languages, sn_maxDepth = scan_depth nFiles,
          sn_meta = buildScanMeta hash lc mm (ScanCalibrationOptions.truncate options) (map IndexEntry.truncate (fst computed)) scope
            p95Values (px_calibration previousIndex) (px_policyCalibrations previousIndex),
          sn_sources = sources, sn_recovered = recovered\<rparr>)"

datatype ScanOutcome = scan_empty | scan_unchanged nat "string option" | scan_publish ScanPlan

definition gate_id_of :: "PreviousIndex \<Rightarrow> string option" where
  "gate_id_of previousIndex = map_option cp_id (Option.bind (px_calibration previousIndex) st_gate)"

definition scan ::
  "(json \<Rightarrow> string) \<Rightarrow> string cmp \<Rightarrow> (string \<Rightarrow> string \<Rightarrow> bool) \<Rightarrow> (string \<Rightarrow> string) \<Rightarrow> string \<Rightarrow> string
     \<Rightarrow> (string \<Rightarrow> string option) \<Rightarrow> (string \<Rightarrow> string) \<Rightarrow> (string \<Rightarrow> string + FileAst)
     \<Rightarrow> string list \<Rightarrow> PreviousEntries result \<Rightarrow> PreviousIndex result
     \<Rightarrow> string list \<Rightarrow> ImplicitEdge list option \<Rightarrow> ScanOptions \<Rightarrow> ScanOutcome result" where
  "scan hash lc mm key cwd base content sha parse shapes listing index paths implicitDeps options =
     (if paths = [] then Inr scan_empty
      else if shapes \<noteq> [] then Inl (''invalid shapes declaration: '' @ join_with ''; '' shapes)
      else
        let incremental = or_default (so_incremental options) False;
            previousIndex = (case index of Inl _ \<Rightarrow> \<lparr>px_calibration = None, px_policyCalibrations = []\<rparr> | Inr i \<Rightarrow> i);
            recovered = (case listing of Inl _ \<Rightarrow> True | Inr _ \<Rightarrow> False);
            classify = or_default (so_fileKindClassifier options)
              (\<lambda>p. classifyFileKindWithPolicy mm cwd p (or_default (map_option as_fileKindRules (so_analysisScope options)) []) (Some base))
        in bind_result (case listing of Inl e \<Rightarrow> if incremental then Inl e else Inr [] | Inr entries \<Rightarrow> Inr entries)
          (\<lambda>previousEntries. bind_result (scan_sources parse content sha key base incremental previousEntries paths)
            (\<lambda>phase. case phase of
               parse_unchanged n \<Rightarrow> Inr (scan_unchanged n (gate_id_of previousIndex))
             | parse_sources sources \<Rightarrow>
                 let hashes = scanContentHashes content sha key base (ss_incremental sources) (ss_reused sources) (ss_asts sources) paths;
                     plan = assemble_scan hash lc mm key cwd base hashes classify options implicitDeps previousEntries previousIndex
                       recovered (length paths) sources
                 in (case sm_ambiguousPolicyEntry (sn_meta plan) of
                       Some e \<Rightarrow> Inl (''multiple structural policies match '' @ ix_path e)
                     | None \<Rightarrow> Inr (scan_publish plan)))))"

section \<open>Test files do not move the production metrics of a full scan\<close>

lemma participates_kind [simp]: "participatesInPopulation (Some (ast_kind kinds a)) pop_production
    = participatesInPopulation (map_get kinds (fa_path a)) pop_production"
  by (simp add: ast_kind_def effectiveFileKind_def)

lemma production_kind: "a \<in> set (production_asts kinds asts) \<Longrightarrow> ast_kind kinds a = fk_production"
  by (simp add: production_asts_def ast_kind_def effectiveFileKind_def)

lemma computed_production:
  "production_entries (fst (computeEntries (computeEntryForAst hash key cwd base facts) asts kinds []))
     = map (\<lambda>a. computeEntryForAst hash key cwd base facts a fk_production) (production_asts kinds asts)"
proof -
  have "production_entries (fst (computeEntries (computeEntryForAst hash key cwd base facts) asts kinds []))
      = map (\<lambda>a. computeEntryForAst hash key cwd base facts a (ast_kind kinds a)) (production_asts kinds asts)"
    unfolding production_asts_def
    by (simp add: computeEntries_def parsed_entries production_computed del: participatesInPopulation.simps)
  also have "\<dots> = map (\<lambda>a. computeEntryForAst hash key cwd base facts a fk_production) (production_asts kinds asts)"
    by (rule map_cong [OF refl]) (simp add: production_kind)
  finally show ?thesis .
qed

lemma full_p95:
  "scanP95 (snd (computeEntries (computeEntryForAst hash key cwd base facts) asts kinds []))
     = p95ForPopulation (map IndexEntry.truncate (map (\<lambda>a. computeEntryForAst hash key cwd base facts a fk_production) (production_asts kinds asts)))"
  unfolding computed_production [symmetric] by (rule percentiles_of_population) (simp_all add: production_entries_def)

text \<open>In a full scan the test files, the files without governance and the languages they are written in do not touch the
  production side: two scans that parse the same production files to the same depth write the same production entries and
  percentiles, whatever else they parse and whatever that imports.\<close>

theorem full_scan_ignores_tests:
  assumes "\<not> ss_incremental sources" "\<not> ss_incremental sources'" "ss_reused sources = []" "ss_reused sources' = []"
    and "production_asts (kinds_of classify (ss_asts sources)) (ss_asts sources)
       = production_asts (kinds_of classify (ss_asts sources')) (ss_asts sources')" "scan_depth n = scan_depth n'"
    and "plan = assemble_scan hash lc mm key cwd base hashes classify options implicitDeps previousEntries previousIndex recovered n sources"
    and "plan' = assemble_scan hash lc mm key cwd base hashes classify options implicitDeps previousEntries previousIndex recovered n' sources'"
  shows "production_entries (sn_entries plan) = production_entries (sn_entries plan') \<and> sn_p95 plan = sn_p95 plan'
    \<and> sn_nProductionFiles plan = sn_nProductionFiles plan'"
proof -
  have same: "scan_graph key implicitDeps (kinds_of classify (ss_asts sources)) sources
      = scan_graph key implicitDeps (kinds_of classify (ss_asts sources')) sources'"
    "count_production (kinds_of classify (ss_asts sources)) sources = count_production (kinds_of classify (ss_asts sources')) sources'"
    using assms(1,2,5) by (simp_all add: scan_graph_def count_production_def)
  show ?thesis
    unfolding assms(7,8) assemble_scan_def Let_def ScanPlan.simps assms(3,4) computed_production full_p95 same assms(5,6) by simp
qed

section \<open>The counts of the index are those of the entries\<close>

lemma scan_plan:
  assumes "scan hash lc mm key cwd base content sha parse shapes listing index paths implicitDeps options = Inr (scan_publish plan)"
  obtains previous sources hashes classify previousIndex recovered where
    "scan_sources parse content sha key base (or_default (so_incremental options) False) previous paths = Inr (parse_sources sources)"
    "plan = assemble_scan hash lc mm key cwd base hashes classify options implicitDeps previous previousIndex recovered (length paths) sources"
    "listing = Inr previous \<or> previous = [] \<and> \<not> or_default (so_incremental options) False"
    "sm_ambiguousPolicyEntry (sn_meta plan) = None"
  using assms unfolding scan_def Let_def bind_result_def
  by (auto split: if_splits sum.splits ParsePhase.splits option.splits intro: that)

lemma kind_known:
  assumes "a \<in> set asts"
  shows "map_get (kinds_of classify asts) (fa_path a) = Some (classify (fa_path a))"
proof -
  have "map_of (foldl (\<lambda>m (k, v). map_set m k v) m (map (\<lambda>a. (fa_path a, classify (fa_path a))) as)) p
      = (if p \<in> fa_path ` set as then Some (classify p) else map_of m p)" for m p as
    by (induction as arbitrary: m) auto
  from this [of "[]" asts "fa_path a"] show ?thesis unfolding kinds_of_def fromEntries_def using assms by (simp only:) simp
qed

lemma counted:
  assumes "plan = assemble_scan hash lc mm key cwd base hashes classify options implicitDeps previous previousIndex recovered n sources"
    and "\<not> ss_incremental sources \<longrightarrow> ss_reused sources = []"
  shows "sn_nProductionFiles plan = length (filter (\<lambda>e. or_default (ix_fileKind e) fk_production = fk_production) (sn_entries plan))"
    and "sn_nTestFiles plan = length (filter (\<lambda>e. ix_fileKind e = Some fk_test) (sn_entries plan))"
    and "length (sn_entries plan) = length (ss_reused sources) + length (ss_asts sources)"
    and "\<exists>facts. sn_entries plan = ss_reused sources
      @ map (\<lambda>a. computeEntryForAst hash key cwd base facts a (ast_kind (kinds_of classify (ss_asts sources)) a)) (ss_asts sources)"
proof -
  let ?kinds = "kinds_of classify (ss_asts sources)"
  have known: "map_get ?kinds (fa_path a) = Some (ast_kind ?kinds a)" if "a \<in> set (ss_asts sources)" for a
    using kind_known [OF that] by (simp add: ast_kind_def)
  show e: "\<exists>facts. sn_entries plan = ss_reused sources
      @ map (\<lambda>a. computeEntryForAst hash key cwd base facts a (ast_kind ?kinds a)) (ss_asts sources)"
    unfolding assms(1) assemble_scan_def Let_def ScanPlan.simps by (simp only: computeEntries_def reused_entries parsed_entries fst_conv append_Nil) blast
  then obtain facts where f: "sn_entries plan = ss_reused sources
      @ map (\<lambda>a. computeEntryForAst hash key cwd base facts a (ast_kind ?kinds a)) (ss_asts sources)" by blast
  show "length (sn_entries plan) = length (ss_reused sources) + length (ss_asts sources)" by (simp add: f)
  have p: "production_asts ?kinds (ss_asts sources) = filter (\<lambda>a. ast_kind ?kinds a = fk_production) (ss_asts sources)"
    unfolding production_asts_def by (rule filter_cong [OF refl]) (simp add: known effectiveFileKind_def)
  have t: "filter (\<lambda>a. map_get ?kinds (fa_path a) = Some fk_test) (ss_asts sources) = filter (\<lambda>a. ast_kind ?kinds a = fk_test) (ss_asts sources)"
    by (rule filter_cong [OF refl]) (simp add: known)
  have n: "sn_nProductionFiles plan = count_production ?kinds sources" "sn_nTestFiles plan = count_tests ?kinds sources"
    by (simp_all add: assms(1) assemble_scan_def Let_def)
  show "sn_nProductionFiles plan = length (filter (\<lambda>e. or_default (ix_fileKind e) fk_production = fk_production) (sn_entries plan))"
    using assms(2) unfolding n count_production_def p f by (auto simp: filter_map o_def)
  show "sn_nTestFiles plan = length (filter (\<lambda>e. ix_fileKind e = Some fk_test) (sn_entries plan))"
    using assms(2) unfolding n count_tests_def t f by (auto simp: filter_map o_def)
qed

lemma counts_accepted:
  assumes "distinct (map se_path es)" "bm_nFiles (bi_meta index) = length es"
    and "bm_nProductionFiles (bi_meta index) = Some (length (filter is_production es))"
    and "bm_nTestFiles (bi_meta index) = Some (length (filter is_test es))"
  shows "normalizeBaselineSnapshot \<lparr>bs_index = index, bs_entries = es, bs_changedPaths = None, bs_deletedPaths = None\<rparr>
    = Inr \<lparr>bs_index = index, bs_entries = es, bs_changedPaths = None, bs_deletedPaths = None\<rparr>"
proof -
  have "uniq (map se_path es) = map se_path es" using assms(1) by (rule uniq_distinct)
  then show ?thesis using assms(2-4) by (simp add: normalizeBaselineSnapshot_def validateEntries_def assertCount_def bind_result_def)
qed

lemma full_paths:
  assumes "map_result parse paths = Inr asts" "\<And>p a. parse p = Inr a \<Longrightarrow> fa_path a = p"
  shows "map fa_path asts = paths"
  using assms(1) by (induction paths arbitrary: asts) (auto split: sum.splits dest: assms(2))

lemma incremental_covers:
  assumes "prepareIncrementalScan parse content sha key base previous paths = Inr (Some r)" "distinct (map fst previous)"
    and "current = contentHashesOf content sha paths base" "\<And>p e. (p, e) \<in> set previous \<Longrightarrow> ix_path e = p \<and> sc_contentSha256 e \<noteq> None"
    and "\<And>p a. p \<in> fst ` set previous \<union> dom (map_of current) \<Longrightarrow> parse (node_resolve base p) = Inr a
      \<Longrightarrow> relativePath base (fa_path a) = p \<and> map_of current p \<noteq> None"
  shows "distinct (map ix_path (is_reusedEntries r) @ map (\<lambda>a. relativePath base (fa_path a)) (is_asts r))"
    and "set (map ix_path (is_reusedEntries r) @ map (\<lambda>a. relativePath base (fa_path a)) (is_asts r)) = dom (map_of current)"
proof -
  have used: "p \<in> fst ` set previous \<union> dom (map_of current)" if "p \<in> files_read_again previous current" for p
    using that unfolding files_read_again_def by force
  then have rel: "relativePath base (fa_path a) = p" if "p \<in> files_read_again previous current" "parse (node_resolve base p) = Inr a" for p a
    using assms(5) that by blast
  have key: "ix_path e = p" if "(p, e) \<in> set previous" for p e using assms(4) that by blast
  obtain files where files: "map ix_path (is_reusedEntries r) = map fst (filter (reusable previous current) previous)"
    "map (\<lambda>a. relativePath base (fa_path a)) (is_asts r) = files" "set files = files_read_again previous current"
    "distinct (map fst (filter (reusable previous current) previous) @ files)"
    "list_all2 (\<lambda>p a. p \<in> files_read_again previous current \<and> parse (node_resolve base p) = Inr a) files (is_asts r)"
    using incremental_paths [OF assms(1-3) key rel] by blast
  show "distinct (map ix_path (is_reusedEntries r) @ map (\<lambda>a. relativePath base (fa_path a)) (is_asts r))" using files by simp
  have "map_of current p \<noteq> None" if p: "p \<in> files_read_again previous current" for p
  proof -
    obtain i where "i < length files" "files ! i = p" using p files(3) by (metis in_set_conv_nth)
    then have "parse (node_resolve base p) = Inr (is_asts r ! i)" using list_all2_nthD [OF files(5)] by auto
    then show ?thesis using assms(5) [OF used [OF p]] by blast
  qed
  moreover have "\<forall>pe \<in> set previous. sc_contentSha256 (snd pe) \<noteq> None" using assms(4) by (metis prod.collapse)
  ultimately show "set (map ix_path (is_reusedEntries r) @ map (\<lambda>a. relativePath base (fa_path a)) (is_asts r)) = dom (map_of current)"
    using scan_covers [OF assms(2), of current] unfolding files(1,2) set_append files(3) by simp
qed

text \<open>C31: A scan that publishes has counted right: with all listed files read, each under its own path, and every earlier entry with
  a digest, the counts of its index are those of its entries and no path occurs twice, so the storage accepts the snapshot, after a
  full scan as after an incremental one.\<close>

theorem published_scan_is_accepted:
  assumes "scan hash lc mm key cwd base content sha parse shapes (Inr previous) index paths implicitDeps options = Inr (scan_publish plan)"
    and "current = contentHashesOf content sha paths base" "length paths = card (dom (map_of current))"
    and "distinct (map (relativePath base) paths)" "\<And>p a. parse p = Inr a \<Longrightarrow> fa_path a = p"
    and "\<And>p a. p \<in> fst ` set previous \<union> dom (map_of current) \<Longrightarrow> parse (node_resolve base p) = Inr a
      \<Longrightarrow> relativePath base (node_resolve base p) = p \<and> map_of current p \<noteq> None"
    and "distinct (map fst previous)" "\<And>p e. (p, e) \<in> set previous \<Longrightarrow> ix_path e = p \<and> sc_contentSha256 e \<noteq> None"
    and "\<And>e. se_path (stored e) = ix_path e \<and> se_fileKind (stored e) = ix_fileKind e"
    and "bm_nFiles (bi_meta i) = sn_nFiles plan" "bm_nProductionFiles (bi_meta i) = Some (sn_nProductionFiles plan)"
    and "bm_nTestFiles (bi_meta i) = Some (sn_nTestFiles plan)"
  shows "normalizeBaselineSnapshot \<lparr>bs_index = i, bs_entries = map stored (sn_entries plan), bs_changedPaths = None, bs_deletedPaths = None\<rparr>
    = Inr \<lparr>bs_index = i, bs_entries = map stored (sn_entries plan), bs_changedPaths = None, bs_deletedPaths = None\<rparr>"
proof -
  from scan_plan [OF assms(1)] obtain previous' sources hashes classify previousIndex recovered where p:
    "scan_sources parse content sha key base (or_default (so_incremental options) False) previous' paths = Inr (parse_sources sources)"
    "plan = assemble_scan hash lc mm key cwd base hashes classify options implicitDeps previous' previousIndex recovered (length paths) sources"
    "previous' = previous \<or> previous' = []" by (metis Inr_inject)
  consider (full) asts where "map_result parse paths = Inr asts" "sources = full_sources asts"
    | (incremental) r where "prepareIncrementalScan parse content sha key base previous' paths = Inr (Some r)" "previous' = previous"
        "ss_asts sources = is_asts r" "ss_reused sources = is_reusedEntries r" "ss_incremental sources"
    using p(1,3) by (auto simp: scan_sources_def Let_def bind_result_def split: if_splits sum.splits option.splits)
  then have paths: "distinct (map ix_path (ss_reused sources) @ map (\<lambda>a. relativePath base (fa_path a)) (ss_asts sources))
      \<and> length (ss_reused sources) + length (ss_asts sources) = length paths \<and> (\<not> ss_incremental sources \<longrightarrow> ss_reused sources = [])"
  proof cases
    case full
    have fp: "map fa_path asts = paths" by (rule full_paths [OF full(1) assms(5)])
    have "map (\<lambda>a. relativePath base (fa_path a)) asts = map (relativePath base) paths"
      unfolding fp [symmetric] by simp
    moreover have "length asts = length paths" unfolding fp [symmetric] by simp
    ultimately show ?thesis using assms(4) full(2) by (simp add: full_sources_def)
  next
    case incremental
    have parsed: "relativePath base (fa_path a) = p \<and> map_of current p \<noteq> None"
      if "p \<in> fst ` set previous \<union> dom (map_of current)" "parse (node_resolve base p) = Inr a" for p a
      using assms(5) [OF that(2)] assms(6) [OF that] by simp
    let ?ps = "map ix_path (is_reusedEntries r) @ map (\<lambda>a. relativePath base (fa_path a)) (is_asts r)"
    have covers: "distinct ?ps" "set ?ps = dom (map_of current)"
      by (rule incremental_covers [OF incremental(1) [unfolded incremental(2)] assms(7,2,8) parsed]; assumption)+
    have "length ?ps = card (dom (map_of current))" using distinct_card [OF covers(1)] unfolding covers(2) by simp
    then show ?thesis using covers(1) assms(3) incremental(3-5) by simp
  qed
  note c = counted [OF p(2)]
  obtain facts where e: "sn_entries plan = ss_reused sources
      @ map (\<lambda>a. computeEntryForAst hash key cwd base facts a (ast_kind (kinds_of classify (ss_asts sources)) a)) (ss_asts sources)"
    using c(4) paths by blast
  have n: "sn_nFiles plan = length paths" by (simp add: p(2) assemble_scan_def Let_def)
  show ?thesis
  proof (rule counts_accepted)
    show "distinct (map se_path (map stored (sn_entries plan)))" using paths assms(9) by (simp add: e o_def)
    show "bm_nFiles (bi_meta i) = length (map stored (sn_entries plan))" using c(3) paths n assms(10) by simp
    show "bm_nProductionFiles (bi_meta i) = Some (length (filter is_production (map stored (sn_entries plan))))"
      using c(1) paths assms(9,11) by (simp add: filter_map o_def is_production_def)
    show "bm_nTestFiles (bi_meta i) = Some (length (filter is_test (map stored (sn_entries plan))))"
      using c(2) paths assms(9,12) by (simp add: filter_map o_def is_test_def)
  qed
qed

definition sample_scan_options :: ScanOptions where
  "sample_scan_options = \<lparr>so_structuralPolicies = [], so_sealCalibration = False, so_calibrationWeights = None,
     so_fileKindClassifier = Some (\<lambda>_. fk_production), so_analysisScope = None, so_incremental = Some True\<rparr>"

definition sample_scan :: "ScanOutcome result" where
  "sample_scan = scan (\<lambda>_. ''f'') code_unit_cmp (\<lambda>_ _. False) (node_resolve ''/p'') ''/p'' ''/p'' sample_content (\<lambda>t. t) sample_parse
     [] (Inr sample_previous) (Inr \<lparr>px_calibration = None, px_policyCalibrations = []\<rparr>) [''/p/a'', ''/p/c''] None sample_scan_options"

lemma sample_is_incremental: "so_incremental sample_scan_options = Some True"
  by (simp add: sample_scan_options_def)

lemma no_policies: "ambiguousPolicyEntry mm (ScanCalibrationOptions.truncate sample_scan_options) es = None"
  by (auto simp: ambiguousPolicyEntry_def sample_scan_options_def ScanCalibrationOptions.truncate_def policiesForSubject_def find_None_iff split: option.splits)

lemma sample_scan_publishes: "\<exists>plan. sample_scan = Inr (scan_publish plan)"
proof -
  obtain r where r: "prepareIncrementalScan sample_parse sample_content (\<lambda>t. t) (node_resolve ''/p'') ''/p'' sample_previous [''/p/a'', ''/p/c''] = Inr (Some r)"
    "is_asts r = [sample_file ''/p/a'' []]" using sample_prepared by blast
  have "sample_previous \<noteq> []" by (simp add: sample_previous_def)
  with r show ?thesis
    by (simp add: sample_scan_def scan_def scan_sources_def bind_result_def Let_def assemble_scan_def buildScanMeta_def no_policies sample_is_incremental)
qed

definition counted_index :: "ScanPlan \<Rightarrow> BaselineIndex" where
  "counted_index plan = \<lparr>bi_version = ''5.2'', bi_meta = \<lparr>bm_scanAt = ''t'', bm_snapshotSha256 = None, bm_shardManifestSha256 = None,
     bm_nFiles = sn_nFiles plan, bm_nProductionFiles = Some (sn_nProductionFiles plan), bm_nTestFiles = Some (sn_nTestFiles plan), bm_fields = []\<rparr>\<rparr>"

theorem published_scan_is_accepted_witness:
  "\<exists>plan normalized. sample_scan = Inr (scan_publish plan)
     \<and> normalizeBaselineSnapshot \<lparr>bs_index = counted_index plan, bs_entries = map sample_stored (sn_entries plan), bs_changedPaths = None, bs_deletedPaths = None\<rparr>
       = Inr normalized"
proof -
  obtain plan where plan: "sample_scan = Inr (scan_publish plan)" using sample_scan_publishes by blast
  note accepted = published_scan_is_accepted [OF plan [unfolded sample_scan_def] sample_current [symmetric], of sample_stored "counted_index plan"]
  have "card (dom (map_of [(''a'', ''9''), (''c'', ''3'')])) = 2" by (simp add: dom_map_of_conv_image_fst)
  then have "normalizeBaselineSnapshot \<lparr>bs_index = counted_index plan, bs_entries = map sample_stored (sn_entries plan), bs_changedPaths = None, bs_deletedPaths = None\<rparr>
       = Inr \<lparr>bs_index = counted_index plan, bs_entries = map sample_stored (sn_entries plan), bs_changedPaths = None, bs_deletedPaths = None\<rparr>"
    by (intro accepted)
      (auto simp: sample_previous_def sample_paths sample_parse_def sample_content_def sample_file_def sample_stored_def counted_index_def split: if_splits)
  with plan show ?thesis by blast
qed

definition sample_test :: FileAst where
  "sample_test = sample_file ''/p/t'' [sample_import ''/p/a'']"

definition full_sample :: ScanSources where
  "full_sample = full_sources [sample_file ''/p/a'' [], sample_test]"

text \<open>The same two files after an incremental scan that parses the test and reuses the entry of the production file.\<close>

definition incremental_sample :: ScanSources where
  "incremental_sample = \<lparr>ss_asts = [sample_test], ss_reused = [sample_scan_entry ''a'' ''1''],
     ss_edges = incrementalEdges (\<lambda>p. p) ''/p'' [sample_scan_entry ''a'' ''1''] [sample_test], ss_deleted = [], ss_incremental = True\<rparr>"

definition sample_kinds :: "(string, FileKind) jmap" where
  "sample_kinds = [(''/p/a'', fk_production), (''/p/t'', fk_test)]"

theorem full_scan_ignores_tests_witness:
  "production_entries (sn_entries (assemble_scan (\<lambda>_. ''f'') code_unit_cmp (\<lambda>_ _. False) (\<lambda>p. p) ''/p'' ''/p'' []
       (\<lambda>p. if p = ''/p/t'' then fk_test else fk_production) sample_scan_options None [] \<lparr>px_calibration = None, px_policyCalibrations = []\<rparr> False 2 full_sample))
   = production_entries (sn_entries (assemble_scan (\<lambda>_. ''f'') code_unit_cmp (\<lambda>_ _. False) (\<lambda>p. p) ''/p'' ''/p'' []
       (\<lambda>p. if p = ''/p/t'' then fk_test else fk_production) sample_scan_options None [] \<lparr>px_calibration = None, px_policyCalibrations = []\<rparr> False 1
       (full_sources [sample_file ''/p/a'' []])))"
  by (rule conjunct1 [OF full_scan_ignores_tests [OF _ _ _ _ _ _ refl refl]])
    (simp_all add: full_sample_def full_sources_def production_asts_def kinds_of_def fromEntries_def map_set_def sample_test_def sample_file_def
      effectiveFileKind_def scan_depth_def)

text \<open>An incremental scan, however, takes the edges of test files too.\<close>

theorem incremental_scan_counts_tests:
  "map_of (computeInDegrees (scan_graph (\<lambda>p. p) None sample_kinds full_sample)) ''/p/a'' = Some 0
    \<and> map_of (computeInDegrees (scan_graph (\<lambda>p. p) None sample_kinds incremental_sample)) ''/p/a'' = Some 1"
  by (simp add: scan_graph_def full_sample_def full_sources_def incremental_sample_def incrementalEdges_def import_keys_def sample_paths
      sample_kinds_def production_asts_def sample_test_def sample_file_def sample_import_def buildDependencyGraph_def buildDependencyGraphFromEdges_def
      addImports_def importTargets_def addImplicitEdges_def computeInDegrees_def count_dep_def map_set_def map_keys_def effectiveFileKind_def Let_def)

end
