(* ===== verification/Git_Blobs.thy ===== *)
theory Git_Blobs
  imports Json_Doc
begin

text \<open>
  Reading blobs from a repository in two batches (\<open>application/gitBlobBatch.ts\<close>). The two Git processes are the arguments
  \<open>check\<close> and \<open>batch\<close>, from the bytes they are given to the bytes they write; \<open>utf8\<close> decodes a content. A position in the
  output is the part of it that has not been read.
\<close>

section \<open>The batches\<close>

definition MAX_GIT_BLOB_BYTES :: nat where
  "MAX_GIT_BLOB_BYTES = 512 * 1024"

type_synonym GitBlobRequest = "string \<times> string" \<comment> \<open>key and object\<close>

record SourceText =
  st_text :: "string option"
  st_omitted :: bool

definition no_text :: SourceText where
  "no_text = \<lparr>st_text = None, st_omitted = False\<rparr>"

definition batchInput :: "GitBlobRequest list \<Rightarrow> string" where
  "batchInput requests = join_with [NUL] (map snd requests) @ [NUL]"

fun nextBatchHeader :: "string \<Rightarrow> (string \<times> string) option" where
  "nextBatchHeader [] = None"
| "nextBatchHeader (c # cs) =
     (if c = NUL then Some ([], cs) else map_option (\<lambda>(h, rest). (c # h, rest)) (nextBatchHeader cs))"

definition is_oid_char :: "char \<Rightarrow> bool" where
  "is_oid_char c = (is_digit c \<or> c \<in> set ''abcdef'')"

text \<open>\<open>/^(?:[0-9a-f]{40,64}) blob (\d+)$/\<close>\<close>

definition blob_size :: "string \<Rightarrow> nat option" where
  "blob_size header =
     (let oid = takeWhile is_oid_char header; rest = dropWhile is_oid_char header; digits = drop 6 rest
      in if 40 \<le> length oid \<and> length oid \<le> 64 \<and> starts_with rest '' blob '' \<and> digits \<noteq> [] \<and> list_all is_digit digits
         then Some (nat_of_digits digits) else None)"

fun blob_info :: "GitBlobRequest list \<Rightarrow> string \<Rightarrow> (string, nat option) jmap \<Rightarrow> (string, nat option) jmap" where
  "blob_info [] raw info = info"
| "blob_info (request # requests) raw info =
     (case nextBatchHeader raw of
        None \<Rightarrow> info
      | Some (header, rest) \<Rightarrow> blob_info requests rest (map_set info (fst request) (blob_size header)))"

definition batchBlobInfo :: "(string \<Rightarrow> string + string) \<Rightarrow> GitBlobRequest list \<Rightarrow> string + (string, nat option) jmap" where
  "batchBlobInfo check requests =
     (if requests = [] then Inr [] else bind_result (check (batchInput requests)) (\<lambda>raw. Inr (blob_info requests raw [])))"

text \<open>The filter of the readable requests also records the ones that are too large.\<close>

fun readable_blobs ::
  "(string, nat option) jmap \<Rightarrow> GitBlobRequest list \<Rightarrow> (string, SourceText) jmap \<Rightarrow> GitBlobRequest list \<times> (string, SourceText) jmap" where
  "readable_blobs info [] found = ([], found)"
| "readable_blobs info (request # requests) found =
     (case Option.bind (map_get info (fst request)) (\<lambda>len. len) of
        None \<Rightarrow> readable_blobs info requests found
      | Some len \<Rightarrow>
          if len > MAX_GIT_BLOB_BYTES
          then readable_blobs info requests (map_set found (fst request) \<lparr>st_text = None, st_omitted = True\<rparr>)
          else (case readable_blobs info requests found of (rs, found') \<Rightarrow> (request # rs, found')))"

fun blob_texts :: "(string \<Rightarrow> string) \<Rightarrow> GitBlobRequest list \<Rightarrow> string \<Rightarrow> (string, SourceText) jmap \<Rightarrow> (string, SourceText) jmap" where
  "blob_texts utf8 [] raw found = found"
| "blob_texts utf8 (request # requests) raw found =
     (case nextBatchHeader raw of
        None \<Rightarrow> found
      | Some (header, rest) \<Rightarrow>
          (case blob_size header of
             None \<Rightarrow> blob_texts utf8 requests rest found
           | Some len \<Rightarrow>
               if len \<ge> length rest \<or> rest ! len \<noteq> NUL then found
               else blob_texts utf8 requests (drop (Suc len) rest)
                 (map_set found (fst request) \<lparr>st_text = Some (utf8 (take len rest)), st_omitted = False\<rparr>)))"

definition readGitBlobs ::
  "(string \<Rightarrow> string + string) \<Rightarrow> (string \<Rightarrow> string + string) \<Rightarrow> (string \<Rightarrow> string) \<Rightarrow> GitBlobRequest list
     \<Rightarrow> string + (string, SourceText) jmap" where
  "readGitBlobs check batch utf8 requests =
     (let result = fromEntries (map (\<lambda>r. (fst r, no_text)) requests)
      in if requests = [] then Inr result
         else bind_result (batchBlobInfo check requests)
           (\<lambda>info. case readable_blobs info requests result of (readable, found) \<Rightarrow>
              if readable = [] then Inr found
              else bind_result (batch (batchInput readable)) (\<lambda>raw. Inr (blob_texts utf8 readable raw found))))"

section \<open>What the repository holds is what is read\<close>

text \<open>\<open>blob obj\<close> is the identity and the content of the blob that \<open>obj\<close> names; \<open>other obj\<close> is what Git writes for an object that
  is missing or no blob.\<close>

definition object_header :: "(string \<Rightarrow> (string \<times> string) option) \<Rightarrow> (string \<Rightarrow> string) \<Rightarrow> string \<Rightarrow> string" where
  "object_header blob other obj = (case blob obj of None \<Rightarrow> other obj | Some (oid, c) \<Rightarrow> oid @ '' blob '' @ show_nat (length c))"

definition check_output :: "(string \<Rightarrow> (string \<times> string) option) \<Rightarrow> (string \<Rightarrow> string) \<Rightarrow> string list \<Rightarrow> string" where
  "check_output blob other objs = concat (map (\<lambda>obj. object_header blob other obj @ [NUL]) objs)"

definition batch_output :: "(string \<Rightarrow> (string \<times> string) option) \<Rightarrow> (string \<Rightarrow> string) \<Rightarrow> string list \<Rightarrow> string" where
  "batch_output blob other objs =
     concat (map (\<lambda>obj. object_header blob other obj @ [NUL] @ (case blob obj of None \<Rightarrow> [] | Some (oid, c) \<Rightarrow> c @ [NUL])) objs)"

definition repository_ok :: "(string \<Rightarrow> (string \<times> string) option) \<Rightarrow> (string \<Rightarrow> string) \<Rightarrow> bool" where
  "repository_ok blob other =
     ((\<forall>obj oid c. blob obj = Some (oid, c) \<longrightarrow> 40 \<le> length oid \<and> length oid \<le> 64 \<and> list_all is_oid_char oid)
        \<and> (\<forall>obj. blob_size (other obj) = None \<and> NUL \<notin> set (other obj)))"

definition text_of_object :: "(string \<Rightarrow> string) \<Rightarrow> (string \<Rightarrow> (string \<times> string) option) \<Rightarrow> string \<Rightarrow> SourceText" where
  "text_of_object utf8 blob obj =
     (case blob obj of None \<Rightarrow> no_text
      | Some (oid, c) \<Rightarrow> if length c > MAX_GIT_BLOB_BYTES then \<lparr>st_text = None, st_omitted = True\<rparr> else \<lparr>st_text = Some (utf8 c), st_omitted = False\<rparr>)"

lemma nextBatchHeader_append: "NUL \<notin> set h \<Longrightarrow> nextBatchHeader (h @ NUL # r) = Some (h, r)"
  by (induction h) auto

lemma digits_no_NUL: "list_all is_digit d \<Longrightarrow> NUL \<notin> set d"
  by (auto simp: list_all_iff NUL_def is_digit_def)

lemma blob_size_header:
  assumes "40 \<le> length oid" "length oid \<le> 64" "list_all is_oid_char oid"
  shows "blob_size (oid @ '' blob '' @ show_nat n) = Some n"
proof -
  have t: "takeWhile is_oid_char (oid @ '' blob '' @ show_nat n) = oid" "dropWhile is_oid_char (oid @ '' blob '' @ show_nat n) = '' blob '' @ show_nat n"
    using assms(3) by (simp_all add: takeWhile_append2 dropWhile_append2 list_all_iff is_oid_char_def is_digit_def)
  show ?thesis using show_nat_digits [of n] assms(1,2) unfolding blob_size_def Let_def t by (simp add: starts_with_def)
qed

lemma header_facts:
  assumes "repository_ok blob other"
  shows "NUL \<notin> set (object_header blob other obj)"
    and "blob_size (object_header blob other obj) = map_option (\<lambda>b. length (snd b)) (blob obj)"
proof -
  have oid: "NUL \<notin> set oid" if "list_all is_oid_char oid" for oid
    using that by (auto simp: list_all_iff is_oid_char_def is_digit_def NUL_def)
  show "NUL \<notin> set (object_header blob other obj)"
    using assms oid digits_no_NUL show_nat_digits by (fastforce simp: object_header_def repository_ok_def NUL_def split: option.splits)
  show "blob_size (object_header blob other obj) = map_option (\<lambda>b. length (snd b)) (blob obj)"
  proof (cases "blob obj")
    case None
    with assms show ?thesis by (simp add: object_header_def repository_ok_def)
  next
    case (Some b)
    with assms have "40 \<le> length (fst b)" "length (fst b) \<le> 64" "list_all is_oid_char (fst b)"
      by (metis prod.collapse repository_ok_def)+
    from blob_size_header [OF this, of "length (snd b)"] Some show ?thesis by (simp add: object_header_def case_prod_beta)
  qed
qed

lemma blob_info_reads:
  assumes "repository_ok blob other"
  shows "blob_info requests (check_output blob other (map snd requests)) info
    = foldl (\<lambda>m (k, obj). map_set m k (map_option (\<lambda>b. length (snd b)) (blob obj))) info requests"
proof (induction requests arbitrary: info)
  case (Cons r requests)
  have "nextBatchHeader (check_output blob other (map snd (r # requests)))
      = Some (object_header blob other (snd r), check_output blob other (map snd requests))"
    using nextBatchHeader_append [OF header_facts(1) [OF assms]] by (simp add: check_output_def)
  then show ?case using Cons by (simp add: header_facts(2) [OF assms] case_prod_beta)
qed simp

lemma readable_split:
  "readable_blobs info requests found
     = (filter (\<lambda>r. \<exists>n. map_get info (fst r) = Some (Some n) \<and> n \<le> MAX_GIT_BLOB_BYTES) requests,
        foldl (\<lambda>m r. map_set m (fst r) \<lparr>st_text = None, st_omitted = True\<rparr>) found
          (filter (\<lambda>r. \<exists>n. map_get info (fst r) = Some (Some n) \<and> n > MAX_GIT_BLOB_BYTES) requests))"
  by (induction info requests found rule: readable_blobs.induct) (auto simp: bind_eq_Some_conv bind_eq_None_conv split: option.splits prod.splits)

lemma blob_texts_reads:
  assumes "repository_ok blob other" "\<forall>r \<in> set requests. blob (snd r) \<noteq> None"
  shows "blob_texts utf8 requests (batch_output blob other (map snd requests)) found
    = foldl (\<lambda>m (k, obj). map_set m k \<lparr>st_text = Some (utf8 (snd (the (blob obj)))), st_omitted = False\<rparr>) found requests"
  using assms(2)
proof (induction requests arbitrary: found)
  case (Cons r requests)
  then obtain oid c where b: "blob (snd r) = Some (oid, c)" by (cases "blob (snd r)") auto
  have h: "nextBatchHeader (batch_output blob other (map snd (r # requests)))
      = Some (object_header blob other (snd r), c @ NUL # batch_output blob other (map snd requests))"
    using nextBatchHeader_append [OF header_facts(1) [OF assms(1)]] by (simp add: batch_output_def b)
  have "blob_size (object_header blob other (snd r)) = Some (length c)" using header_facts(2) [OF assms(1), of "snd r"] b by simp
  with h Cons b show ?case by (simp add: case_prod_beta)
qed simp

lemma foldl_set_get:
  assumes "distinct (map fst kvs)"
  shows "map_of (foldl (\<lambda>m (k, v). map_set m k (f k v)) m kvs) k = (case map_of kvs k of Some v \<Rightarrow> Some (f k v) | None \<Rightarrow> map_of m k)"
  using assms
proof (induction kvs arbitrary: m)
  case (Cons kv kvs)
  then show ?case by (cases kv) (auto simp: map_of_eq_None_iff [symmetric] split: option.splits)
qed simp

lemma map_of_const: "map_of (map (\<lambda>r. (fst r, c)) xs) k = map_option (\<lambda>_. c) (map_of xs k)"
  by (induction xs) auto

lemma foldl_set_pairs: "foldl (\<lambda>m r. map_set m (fst r) v) m kvs = foldl (\<lambda>m (k, obj). map_set m k v) m kvs"
  by (simp add: case_prod_unfold)

text \<open>C12: Whatever bytes the files hold, reading blobs gives exactly the text of every requested blob of at most the bound, marks
  the larger ones as omitted and gives no text for what is missing or no blob, when Git answers in its documented batch format.\<close>

theorem blobs_are_read_exactly:
  assumes "repository_ok blob other" "distinct (map fst requests)"
    and "check (batchInput requests) = Inr (check_output blob other (map snd requests))"
    and "\<And>P. filter P requests \<noteq> [] \<Longrightarrow> batch (batchInput (filter P requests)) = Inr (batch_output blob other (map snd (filter P requests)))"
  shows "\<exists>found. readGitBlobs check batch utf8 requests = Inr found
    \<and> (\<forall>k. map_of found k = map_option (text_of_object utf8 blob) (map_of requests k))"
proof (cases "requests = []")
  case True
  then show ?thesis by (simp add: readGitBlobs_def fromEntries_def)
next
  case False
  define info where "info = foldl (\<lambda>m (k, obj). map_set m k (map_option (\<lambda>b. length (snd b)) (blob obj))) [] requests"
  have i: "map_of info k = map_option (\<lambda>obj. map_option (\<lambda>b. length (snd b)) (blob obj)) (map_of requests k)" for k
    unfolding info_def by (subst foldl_set_get [OF assms(2)]) (auto split: option.splits)
  have known: "map_of info (fst r) = Some (map_option (\<lambda>b. length (snd b)) (blob (snd r)))" if "r \<in> set requests" for r
    using i [of "fst r"] map_of_is_SomeI [OF assms(2), of "fst r" "snd r"] that by simp
  define small where "small = filter (\<lambda>r. \<exists>n. map_get info (fst r) = Some (Some n) \<and> n \<le> MAX_GIT_BLOB_BYTES) requests"
  define large where "large = filter (\<lambda>r. \<exists>n. map_get info (fst r) = Some (Some n) \<and> n > MAX_GIT_BLOB_BYTES) requests"
  define start where "start = fromEntries (map (\<lambda>r. (fst r, no_text)) requests)"
  define found where "found = foldl (\<lambda>m (k, obj :: string). map_set m k \<lparr>st_text = None, st_omitted = True\<rparr>) start large"
  define result where "result = foldl (\<lambda>m (k, obj). map_set m k \<lparr>st_text = Some (utf8 (snd (the (blob obj)))), st_omitted = False\<rparr>) found small"
  have small: "\<forall>r \<in> set small. blob (snd r) \<noteq> None" using known by (auto simp: small_def)
  have b: "batch (batchInput small) = Inr (batch_output blob other (map snd small))" if "small \<noteq> []"
    using that unfolding small_def by (rule assms(4))
  have read: "readGitBlobs check batch utf8 requests = Inr result"
    using False blob_info_reads [OF assms(1), of requests "[]"] blob_texts_reads [OF assms(1) small, of utf8 found]
    by (auto simp: readGitBlobs_def batchBlobInfo_def bind_result_def assms(3) b readable_split foldl_set_pairs Let_def
        result_def simp flip: info_def small_def large_def start_def found_def)
  have get: "map_of (filter P requests) k = (case map_of requests k of Some obj \<Rightarrow> only_if (P (k, obj)) obj | None \<Rightarrow> None)" for P k
    using assms(2) by (induction requests) (auto simp: only_if_def map_of_eq_None_iff [symmetric] split: option.splits)
  have d: "distinct (map fst small)" "distinct (map fst large)" using assms(2) by (auto simp: small_def large_def distinct_map_filter)
  have s: "map_of start k = map_option (\<lambda>_. no_text) (map_of requests k)" for k
    using assms(2) unfolding start_def by (subst fromEntries_distinct) (simp_all add: o_def map_of_const)
  have look: "map_of result k = (case map_of small k of Some obj \<Rightarrow> Some \<lparr>st_text = Some (utf8 (snd (the (blob obj)))), st_omitted = False\<rparr>
      | None \<Rightarrow> (case map_of large k of Some _ \<Rightarrow> Some \<lparr>st_text = None, st_omitted = True\<rparr> | None \<Rightarrow> map_of start k))" for k
    unfolding result_def found_def by (simp add: foldl_set_get [OF d(1)] foldl_set_get [OF d(2)] split: option.splits)
  have "map_of result k = map_option (text_of_object utf8 blob) (map_of requests k)" for k
  proof (cases "map_of requests k")
    case None
    then show ?thesis by (simp add: look small_def large_def get s)
  next
    case (Some obj)
    then have "(k, obj) \<in> set requests" by (rule map_of_SomeD)
    from known [OF this] Some show ?thesis
      by (cases "blob obj") (auto simp: look small_def large_def get s text_of_object_def only_if_def)
  qed
  with read show ?thesis by blast
qed

definition sample_blob :: "string \<Rightarrow> (string \<times> string) option" where
  "sample_blob obj = (if obj = '':a.ts'' then Some (replicate 40 (CHR ''a''), [NUL, CHR ''x'']) else None)"

definition sample_other :: "string \<Rightarrow> string" where
  "sample_other obj = ''missing''"


definition sample_git :: "(string list \<Rightarrow> string) \<Rightarrow> string \<Rightarrow> string + string" where
  "sample_git answer input = Inr (answer (split_on NUL (butlast input)))"

theorem blobs_are_read_exactly_witness:
  "\<exists>found. readGitBlobs (sample_git (check_output sample_blob sample_other)) (sample_git (batch_output sample_blob sample_other)) (\<lambda>t. t)
      [(''a'', '':a.ts''), (''b'', '':b.ts'')] = Inr found
     \<and> map_of found ''a'' = Some \<lparr>st_text = Some [NUL, CHR ''x''], st_omitted = False\<rparr> \<and> map_of found ''b'' = Some no_text"
proof -
  let ?rs = "[(''a'', '':a.ts''), (''b'', '':b.ts'')]"
  have ok: "repository_ok sample_blob sample_other"
    by (auto simp: repository_ok_def sample_blob_def sample_other_def blob_size_def is_oid_char_def is_digit_def NUL_def list_all_iff split: if_splits)
  have batch: "sample_git answer (batchInput rs) = Inr (answer (map snd rs))" if "rs \<in> {?rs, [hd ?rs], tl ?rs}" for answer and rs
    using that by (auto simp: sample_git_def batchInput_def NUL_def)
  have sub: "filter P ?rs \<in> {?rs, [hd ?rs], tl ?rs}" if "filter P ?rs \<noteq> []" for P
    using that by (auto split: if_splits)
  have "\<exists>found. readGitBlobs (sample_git (check_output sample_blob sample_other)) (sample_git (batch_output sample_blob sample_other)) (\<lambda>t. t) ?rs = Inr found
    \<and> (\<forall>k. map_of found k = map_option (text_of_object (\<lambda>t. t) sample_blob) (map_of ?rs k))"
    by (rule blobs_are_read_exactly [OF ok], simp, rule batch, simp, rule batch [OF sub])
  then show ?thesis by (auto simp: text_of_object_def sample_blob_def MAX_GIT_BLOB_BYTES_def)
qed

end
