(* ===== verification/Change_Set.thy ===== *)
theory Change_Set
  imports Git_Blobs Project_Files
begin

text \<open>
  Change sets from Git (\<open>application/changeSet.ts\<close>): the statuses of a diff, the files of a change set with their texts before
  and after, and the memo of one run. Git is the argument \<open>git\<close> from the arguments of a process to its output, \<open>blobs\<close>
  reads blobs, \<open>disk p\<close> is the size and the text of a file in the working tree.
\<close>

section \<open>Statuses\<close>

datatype ChangeKindOfFile = file_added | file_modified | file_deleted

record GitStatus =
  gs_path :: string
  gs_beforePath :: "string option"
  gs_kind :: ChangeKindOfFile

definition kind_of_code :: "char \<Rightarrow> ChangeKindOfFile" where
  "kind_of_code c = (if c = CHR ''A'' then file_added else if c = CHR ''D'' then file_deleted else file_modified)"

fun parse_parts :: "string list \<Rightarrow> GitStatus list" where
  "parse_parts [] = []"
| "parse_parts [status] = []"
| "parse_parts [status, p] =
     (if status = [] then parse_parts [p]
      else if hd status \<in> {CHR ''R'', CHR ''C''} then []
      else if p = [] then [] else [\<lparr>gs_path = p, gs_beforePath = None, gs_kind = kind_of_code (hd status)\<rparr>])"
| "parse_parts (status # p # q # parts) =
     (if status = [] then parse_parts (p # q # parts)
      else if hd status \<in> {CHR ''R'', CHR ''C''}
      then (if q = [] then parse_parts parts
            else \<lparr>gs_path = q, gs_beforePath = Some p, gs_kind = file_modified\<rparr> # parse_parts parts)
      else if p = [] then parse_parts (q # parts)
      else \<lparr>gs_path = p, gs_beforePath = None, gs_kind = kind_of_code (hd status)\<rparr> # parse_parts (q # parts))"

definition nul_parts :: "string \<Rightarrow> string list" where
  "nul_parts raw = filter (\<lambda>p. p \<noteq> []) (split_on NUL raw)"

definition parseStatus :: "string \<Rightarrow> GitStatus list" where
  "parseStatus raw = parse_parts (nul_parts raw)"

section \<open>Change sets\<close>

record ChangeSetFile =
  cf_path :: string
  cf_kind :: ChangeKindOfFile
  cf_beforePath :: "string option"
  cf_beforeText :: "string option"
  cf_afterText :: "string option"

datatype SetAvailability = set_available | set_partial | set_unavailable

record ChangeSetContext =
  cc_availability :: SetAvailability
  cc_files :: "ChangeSetFile list"
  cc_reason :: "string option"

record ChangeSetOptions =
  co_population :: "GovernancePopulation option"
  co_staged :: bool

definition readCurrentText :: "(string \<Rightarrow> (nat \<times> string) option) \<Rightarrow> string \<Rightarrow> SourceText" where
  "readCurrentText disk p =
     (case disk p of None \<Rightarrow> no_text
      | Some (len, t) \<Rightarrow> if len > MAX_GIT_BLOB_BYTES then \<lparr>st_text = None, st_omitted = True\<rparr> else \<lparr>st_text = Some t, st_omitted = False\<rparr>)"

definition repositoryPathOf :: "string \<Rightarrow> string \<Rightarrow> string" where
  "repositoryPathOf prefix p = prefix @ toPosixPath p"

definition status_file :: "SourceText \<Rightarrow> SourceText \<Rightarrow> GitStatus \<Rightarrow> ChangeSetFile" where
  "status_file before current status =
     \<lparr>cf_path = toPosixPath (gs_path status), cf_kind = gs_kind status,
      cf_beforePath = (if gs_beforePath status = Some [] then None else map_option toPosixPath (gs_beforePath status)),
      cf_beforeText = st_text before, cf_afterText = st_text current\<rparr>"

definition finish_change_set :: "(GitStatus \<Rightarrow> SourceText) \<Rightarrow> (GitStatus \<Rightarrow> SourceText) \<Rightarrow> GitStatus list \<Rightarrow> ChangeSetContext" where
  "finish_change_set before current candidates =
     (let omitted = map gs_path (filter (\<lambda>s. st_omitted (current s) \<or> st_omitted (before s)) candidates);
          files = map (\<lambda>s. status_file (before s) (current s) s) candidates
      in if omitted \<noteq> []
         then \<lparr>cc_availability = set_partial, cc_files = files, cc_reason = Some (''source text omitted for '' @ show_nat (length omitted)
           @ '' file(s) over '' @ show_nat MAX_GIT_BLOB_BYTES @ '' bytes'')\<rparr>
         else \<lparr>cc_availability = set_available, cc_files = files, cc_reason = None\<rparr>)"

definition unavailable_set :: "string \<Rightarrow> ChangeSetContext" where
  "unavailable_set e = \<lparr>cc_availability = set_unavailable, cc_files = [], cc_reason = Some e\<rparr>"

definition source_of :: "(string, SourceText) jmap \<Rightarrow> string \<Rightarrow> SourceText" where
  "source_of texts k = or_default (map_get texts k) no_text"

definition diff_arguments :: "bool \<Rightarrow> string list \<Rightarrow> string list" where
  "diff_arguments staged separator =
     [''diff''] @ (if staged then [''--cached''] else []) @ [''--relative'', ''--name-status'', ''--find-renames'', ''-z'']
       @ (if staged then [''HEAD''] else []) @ separator"

text \<open>The project's view of a candidate path.\<close>

definition analyzable ::
  "string cmp \<Rightarrow> (string \<Rightarrow> string \<Rightarrow> bool) \<Rightarrow> string \<Rightarrow> string list \<Rightarrow> FileKindRule list \<Rightarrow> GovernancePopulation \<Rightarrow> GitStatus \<Rightarrow> bool" where
  "analyzable lc mm cwd languages rules population status =
     isAnalyzableProjectFile lc mm \<lparr>sf_cwd = cwd, sf_languages = languages, sf_population = Some population, sf_fileKindRules = rules\<rparr>
       (node_resolve cwd (gs_path status))"

definition before_request :: "bool \<Rightarrow> string \<Rightarrow> GitStatus \<Rightarrow> GitBlobRequest" where
  "before_request staged prefix status =
     (gs_path status, (if staged then ''HEAD:'' else '':'') @ repositoryPathOf prefix (or_default (gs_beforePath status) (gs_path status)))"

definition after_request :: "string \<Rightarrow> GitStatus \<Rightarrow> GitBlobRequest" where
  "after_request prefix status = (gs_path status, '':'' @ repositoryPathOf prefix (gs_path status))"

definition set_of_candidates ::
  "(GitBlobRequest list \<Rightarrow> string + (string, SourceText) jmap) \<Rightarrow> (string \<Rightarrow> (nat \<times> string) option) \<Rightarrow> string \<Rightarrow> string \<Rightarrow> bool
     \<Rightarrow> GitStatus list \<Rightarrow> string + ChangeSetContext" where
  "set_of_candidates blobs disk cwd prefix staged candidates =
     bind_result (blobs (map (before_request staged prefix) (filter (\<lambda>s. gs_kind s \<noteq> file_added) candidates)))
       (\<lambda>beforeTexts. bind_result
         (if staged then blobs (map (after_request prefix) (filter (\<lambda>s. gs_kind s \<noteq> file_deleted) candidates)) else Inr [])
         (\<lambda>afterTexts. Inr (finish_change_set
            (\<lambda>s. if gs_kind s = file_added then no_text else source_of beforeTexts (gs_path s))
            (\<lambda>s. if gs_kind s = file_deleted then no_text
                 else if staged then source_of afterTexts (gs_path s) else readCurrentText disk (node_resolve cwd (gs_path s)))
            candidates)))"

definition computeGitChangeSet ::
  "string cmp \<Rightarrow> (string \<Rightarrow> string \<Rightarrow> bool) \<Rightarrow> (string list \<Rightarrow> string + string) \<Rightarrow> string + string
     \<Rightarrow> (GitBlobRequest list \<Rightarrow> string + (string, SourceText) jmap) \<Rightarrow> (string \<Rightarrow> (nat \<times> string) option)
     \<Rightarrow> string list \<Rightarrow> FileKindRule list \<Rightarrow> string \<Rightarrow> string list \<Rightarrow> ChangeSetOptions \<Rightarrow> ChangeSetContext" where
  "computeGitChangeSet lc mm git gitPrefix blobs disk languages rules cwd requestedPaths options =
     (let staged = co_staged options;
          gitPaths = map (\<lambda>p. relativePath cwd (node_resolve cwd p)) requestedPaths;
          separator = ''--'' # gitPaths
      in case bind_result gitPrefix
           (\<lambda>prefix. bind_result (git (diff_arguments staged separator))
             (\<lambda>raw. let tracked = parseStatus raw
               in bind_result (if staged then Inr [] else bind_result (git ([''ls-files'', ''--others'', ''--exclude-standard'', ''-z''] @ separator))
                    (\<lambda>others. Inr (map (\<lambda>p. \<lparr>gs_path = p, gs_beforePath = None, gs_kind = file_added\<rparr>)
                       (filter (\<lambda>p. p \<notin> gs_path ` set tracked) (nul_parts others)))))
                  (\<lambda>untracked. set_of_candidates blobs disk cwd prefix staged
                     (filter (analyzable lc mm cwd languages rules (or_default (co_population options) pop_production)) (tracked @ untracked)))))
         of Inl e \<Rightarrow> unavailable_set e | Inr context \<Rightarrow> context)"

text \<open>One commit against its first parent, if it has one. \<open>rev_parse\<close> answers with the parent, \<open>Inl\<close> when the process fails.\<close>

definition revision_requests :: "string option \<Rightarrow> string \<Rightarrow> string \<Rightarrow> GitStatus list \<Rightarrow> GitBlobRequest list" where
  "revision_requests parent revision prefix candidates =
     (case parent of None \<Rightarrow> []
      | Some p \<Rightarrow> map (\<lambda>s. (''before:'' @ gs_path s, p @ '':'' @ repositoryPathOf prefix (or_default (gs_beforePath s) (gs_path s))))
          (filter (\<lambda>s. gs_kind s \<noteq> file_added) candidates))
     @ map (\<lambda>s. (''after:'' @ gs_path s, revision @ '':'' @ repositoryPathOf prefix (gs_path s)))
         (filter (\<lambda>s. gs_kind s \<noteq> file_deleted) candidates)"

definition collectGitRevisionChangeSet ::
  "string cmp \<Rightarrow> (string \<Rightarrow> string \<Rightarrow> bool) \<Rightarrow> (string list \<Rightarrow> string + string) \<Rightarrow> string + string
     \<Rightarrow> (GitBlobRequest list \<Rightarrow> string + (string, SourceText) jmap) \<Rightarrow> string list \<Rightarrow> FileKindRule list \<Rightarrow> string \<Rightarrow> string \<Rightarrow> ChangeSetContext" where
  "collectGitRevisionChangeSet lc mm git gitPrefix blobs languages rules cwd revision =
     (case bind_result gitPrefix
        (\<lambda>prefix. bind_result (git [''diff-tree'', ''--no-commit-id'', ''--relative'', ''--name-status'', ''--find-renames'', ''-z'', ''-r'', revision])
          (\<lambda>raw.
             let parent = (case git [''rev-parse'', revision @ ''^''] of Inl _ \<Rightarrow> None | Inr t \<Rightarrow> if trim t = [] then None else Some (trim t));
                 candidates = filter (analyzable lc mm cwd languages rules pop_production) (parseStatus raw)
             in bind_result (blobs (revision_requests parent revision prefix candidates))
               (\<lambda>texts. Inr (finish_change_set
                  (\<lambda>s. if gs_kind s = file_added then no_text else source_of texts (''before:'' @ gs_path s))
                  (\<lambda>s. if gs_kind s = file_deleted then no_text else source_of texts (''after:'' @ gs_path s)) candidates))))
      of Inl e \<Rightarrow> unavailable_set e | Inr context \<Rightarrow> context)"

section \<open>The memo of a run\<close>

type_synonym SetRequest = "string \<times> string list \<times> ChangeSetOptions"

definition population_name :: "GovernancePopulation \<Rightarrow> string" where
  "population_name p = (case p of pop_observed \<Rightarrow> ''observed'' | pop_production \<Rightarrow> ''production-governance''
     | pop_test \<Rightarrow> ''test-governance'' | pop_change_evidence \<Rightarrow> ''change-evidence'')"

definition changeSetCacheKey :: "SetRequest \<Rightarrow> string" where
  "changeSetCacheKey request =
     (case request of (cwd, paths, options) \<Rightarrow>
        cwd @ [NUL] @ (if co_staged options then ''staged'' else ''worktree'') @ [NUL]
          @ population_name (or_default (co_population options) pop_production) @ [NUL] @ join_with [NUL] paths)"

definition collectGitChangeSet ::
  "(SetRequest \<Rightarrow> ChangeSetContext) \<Rightarrow> (string, ChangeSetContext) jmap \<Rightarrow> SetRequest \<Rightarrow> (string, ChangeSetContext) jmap \<times> ChangeSetContext" where
  "collectGitChangeSet compute cache request =
     (case map_get cache (changeSetCacheKey request) of
        Some cached \<Rightarrow> (cache, cached)
      | None \<Rightarrow> (map_set cache (changeSetCacheKey request) (compute request), compute request))"

section \<open>Statuses are read as Git writes them\<close>

record GitEntry =
  ge_status :: string
  ge_before :: "string option"
  ge_path :: string

definition is_rename :: "string \<Rightarrow> bool" where
  "is_rename status = (hd status \<in> {CHR ''R'', CHR ''C''})"

definition entry_ok :: "GitEntry \<Rightarrow> bool" where
  "entry_ok e = (ge_status e \<noteq> [] \<and> ge_path e \<noteq> [] \<and> NUL \<notin> set (ge_status e) \<union> set (ge_path e)
     \<and> (\<forall>b. ge_before e = Some b \<longrightarrow> b \<noteq> [] \<and> NUL \<notin> set b) \<and> (ge_before e \<noteq> None \<longleftrightarrow> is_rename (ge_status e)))"

definition entry_parts :: "GitEntry \<Rightarrow> string list" where
  "entry_parts e = ge_status e # (case ge_before e of None \<Rightarrow> [] | Some b \<Rightarrow> [b]) @ [ge_path e]"

definition render_entries :: "GitEntry list \<Rightarrow> string" where
  "render_entries es = concat (map (\<lambda>p. p @ [NUL]) (concat (map entry_parts es)))"

definition status_of_entry :: "GitEntry \<Rightarrow> GitStatus" where
  "status_of_entry e = \<lparr>gs_path = ge_path e, gs_beforePath = ge_before e,
     gs_kind = (if ge_before e = None then kind_of_code (hd (ge_status e)) else file_modified)\<rparr>"

lemma nul_parts_render: "\<forall>p \<in> set ps. p \<noteq> [] \<and> NUL \<notin> set p \<Longrightarrow> nul_parts (concat (map (\<lambda>p. p @ [NUL]) ps)) = ps"
  by (induction ps) (auto simp: nul_parts_def split_on_append_sep)

lemma parse_entry_parts:
  assumes "entry_ok e"
  shows "parse_parts (entry_parts e @ rest) = status_of_entry e # parse_parts rest"
proof (cases "ge_before e")
  case None
  with assms have "\<not> is_rename (ge_status e)" "ge_status e \<noteq> []" "ge_path e \<noteq> []" by (auto simp: entry_ok_def)
  with None show ?thesis by (cases rest) (auto simp: entry_parts_def status_of_entry_def is_rename_def)
next
  case (Some b)
  with assms have "is_rename (ge_status e)" "ge_status e \<noteq> []" "ge_path e \<noteq> []" by (auto simp: entry_ok_def)
  with Some show ?thesis by (auto simp: entry_parts_def status_of_entry_def is_rename_def)
qed

text \<open>The name-status output of a diff is read back entry by entry: additions, deletions and modifications with their path,
  renames and copies as modifications of the new path that remember the old one.\<close>

theorem status_round_trip:
  assumes "\<forall>e \<in> set es. entry_ok e"
  shows "parseStatus (render_entries es) = map status_of_entry es"
proof -
  have "\<forall>p \<in> set (concat (map entry_parts es)). p \<noteq> [] \<and> NUL \<notin> set p"
    using assms by (auto simp: entry_parts_def entry_ok_def split: option.splits)
  then have parts: "nul_parts (render_entries es) = concat (map entry_parts es)"
    unfolding render_entries_def by (rule nul_parts_render)
  have "parse_parts (concat (map entry_parts es)) = map status_of_entry es"
    using assms by (induction es) (auto simp: parse_entry_parts)
  then show ?thesis by (simp add: parseStatus_def parts)
qed

definition sample_status :: "GitEntry list" where
  "sample_status = [\<lparr>ge_status = ''M'', ge_before = None, ge_path = ''a.ts''\<rparr>, \<lparr>ge_status = ''R100'', ge_before = Some ''b.ts'', ge_path = ''c.ts''\<rparr>]"

theorem status_round_trip_witness:
  "parseStatus (render_entries sample_status)
     = [\<lparr>gs_path = ''a.ts'', gs_beforePath = None, gs_kind = file_modified\<rparr>, \<lparr>gs_path = ''c.ts'', gs_beforePath = Some ''b.ts'', gs_kind = file_modified\<rparr>]"
proof -
  have "\<forall>e \<in> set sample_status. entry_ok e" by (simp add: sample_status_def entry_ok_def is_rename_def NUL_def)
  from status_round_trip [OF this] show ?thesis by (simp add: sample_status_def status_of_entry_def kind_of_code_def)
qed

section \<open>The memo is invisible\<close>

definition request_ok :: "SetRequest \<Rightarrow> bool" where
  "request_ok request = (NUL \<notin> set (fst request) \<and> list_all (\<lambda>p. p \<noteq> [] \<and> NUL \<notin> set p) (fst (snd request)))"

text \<open>What a request means: an absent population is the production one.\<close>

definition same_request :: "SetRequest \<Rightarrow> SetRequest \<Rightarrow> bool" where
  "same_request r r' = (fst r = fst r' \<and> fst (snd r) = fst (snd r') \<and> co_staged (snd (snd r)) = co_staged (snd (snd r'))
     \<and> or_default (co_population (snd (snd r))) pop_production = or_default (co_population (snd (snd r'))) pop_production)"

lemma sep_unique: "sep \<notin> set a \<Longrightarrow> sep \<notin> set b \<Longrightarrow> a @ sep # r = b @ sep # s \<Longrightarrow> a = b \<and> r = s"
proof (induction a arbitrary: b)
  case Nil
  then show ?case by (cases b) auto
next
  case (Cons c a)
  then obtain b' where b: "b = c # b'" by (cases b) auto
  from Cons.IH [of b'] Cons.prems show ?case by (simp add: b)
qed

lemma nul_parts_join: "list_all (\<lambda>p. p \<noteq> [] \<and> NUL \<notin> set p) ps \<Longrightarrow> nul_parts (join_with [NUL] ps) = ps"
  by (induction "[NUL]" ps rule: join_with.induct) (auto simp: nul_parts_def split_on_append_sep split_on_no_sep)

lemma population_name_inj: "population_name p = population_name q \<longleftrightarrow> p = q"
  by (cases p; cases q) (simp_all add: population_name_def)

lemma cache_key_inj:
  assumes "request_ok r" "request_ok r'" "changeSetCacheKey r = changeSetCacheKey r'"
  shows "same_request r r'"
proof -
  obtain c ps o1 where r: "r = (c, ps, o1)" by (cases r)
  obtain c' ps' o2 where r': "r' = (c', ps', o2)" by (cases r')
  let ?s = "\<lambda>x. if co_staged x then ''staged'' else ''worktree''"
  let ?p = "\<lambda>x. population_name (or_default (co_population x) pop_production)"
  have no: "NUL \<notin> set (?s x)" "NUL \<notin> set (?p x)" for x by (auto simp: NUL_def population_name_def split: GovernancePopulation.splits)
  have 1: "c = c' \<and> ?s o1 @ NUL # ?p o1 @ NUL # join_with [NUL] ps = ?s o2 @ NUL # ?p o2 @ NUL # join_with [NUL] ps'"
    using assms by (intro sep_unique [where sep = NUL]) (simp_all add: r r' changeSetCacheKey_def request_ok_def)
  note 2 = sep_unique [OF no(1) no(1) conjunct2 [OF 1]]
  note 3 = sep_unique [OF no(2) no(2) conjunct2 [OF 2]]
  have "nul_parts (join_with [NUL] ps) = ps" "nul_parts (join_with [NUL] ps') = ps'"
    using assms(1,2) by (simp_all add: r r' request_ok_def nul_parts_join)
  then have "ps = ps'" using conjunct2 [OF 3] by metis
  moreover have "co_staged o1 = co_staged o2" using conjunct1 [OF 2] by (simp split: if_splits)
  ultimately show ?thesis using conjunct1 [OF 1] conjunct1 [OF 3] by (simp add: same_request_def r r' population_name_inj)
qed

definition memo_run :: "(SetRequest \<Rightarrow> ChangeSetContext) \<Rightarrow> SetRequest list \<Rightarrow> (string, ChangeSetContext) jmap \<times> ChangeSetContext list" where
  "memo_run compute requests =
     foldl (\<lambda>(cache, answers) request. case collectGitChangeSet compute cache request of (cache', answer) \<Rightarrow> (cache', answers @ [answer]))
       ([], []) requests"

lemma memo_invariant:
  assumes "\<And>r r'. same_request r r' \<Longrightarrow> compute r = compute r'" "\<forall>r \<in> set requests. request_ok r"
  shows "snd (memo_run compute requests) = map compute requests
    \<and> (\<forall>k answer. map_of (fst (memo_run compute requests)) k = Some answer
         \<longrightarrow> (\<exists>r \<in> set requests. k = changeSetCacheKey r \<and> answer = compute r))"
  using assms(2)
proof (induction requests rule: rev_induct)
  case Nil
  then show ?case by (simp add: memo_run_def)
next
  case (snoc request requests)
  obtain cache answers where m: "memo_run compute requests = (cache, answers)" by (cases "memo_run compute requests")
  with snoc have ih: "answers = map compute requests"
    "\<And>k answer. map_of cache k = Some answer \<Longrightarrow> \<exists>r \<in> set requests. k = changeSetCacheKey r \<and> answer = compute r" by auto
  have run: "memo_run compute (requests @ [request])
      = (case collectGitChangeSet compute cache request of (cache', answer) \<Rightarrow> (cache', answers @ [answer]))"
    using m by (simp add: memo_run_def)
  have hit: "answer = compute request" if "map_of cache (changeSetCacheKey request) = Some answer" for answer
  proof -
    from ih(2) [OF that] obtain r where r: "r \<in> set requests" "changeSetCacheKey request = changeSetCacheKey r" "answer = compute r" by blast
    then have "same_request request r" using snoc.prems by (intro cache_key_inj) auto
    with assms(1) r(3) show ?thesis by simp
  qed
  show ?case
    by (cases "map_of cache (changeSetCacheKey request)") (use run ih hit in \<open>auto simp: collectGitChangeSet_def\<close>)
qed

text \<open>The memo of a run changes no answer: every request of a run gets the change set that it would get alone, as long as what
  Git says does not change.\<close>

theorem memo_is_invisible:
  assumes "\<And>r r'. same_request r r' \<Longrightarrow> compute r = compute r'" "\<forall>r \<in> set requests. request_ok r"
  shows "snd (memo_run compute requests) = map compute requests"
  by (rule conjunct1 [OF memo_invariant]; fact assms)

lemma compute_same:
  assumes "same_request r r'"
  shows "(\<lambda>(cwd, paths, options). computeGitChangeSet lc mm git gitPrefix blobs disk languages rules cwd paths options) r
    = (\<lambda>(cwd, paths, options). computeGitChangeSet lc mm git gitPrefix blobs disk languages rules cwd paths options) r'"
  using assms by (cases r; cases r') (simp add: same_request_def computeGitChangeSet_def)

definition sample_requests :: "SetRequest list" where
  "sample_requests = [(''/p'', [''a.ts''], \<lparr>co_population = None, co_staged = True\<rparr>),
     (''/p'', [''a.ts''], \<lparr>co_population = Some pop_production, co_staged = True\<rparr>)]"

theorem memo_is_invisible_witness:
  "snd (memo_run (\<lambda>(cwd, paths, options). computeGitChangeSet code_unit_cmp (\<lambda>_ _. False) (\<lambda>_. Inl ''no git'') (Inr []) (\<lambda>_. Inr [])
       (\<lambda>_. None) [] [] cwd paths options) sample_requests)
   = [unavailable_set ''no git'', unavailable_set ''no git'']"
proof -
  have ok: "\<forall>r \<in> set sample_requests. request_ok r" by (simp add: sample_requests_def request_ok_def NUL_def)
  let ?compute = "\<lambda>(cwd, paths, options). computeGitChangeSet code_unit_cmp (\<lambda>_ _. False) (\<lambda>_. Inl ''no git'') (Inr []) (\<lambda>_. Inr [])
       (\<lambda>_. None) [] [] cwd paths options"
  have "snd (memo_run ?compute sample_requests) = map ?compute sample_requests"
    by (rule memo_is_invisible [OF compute_same ok])
  also have "\<dots> = [unavailable_set ''no git'', unavailable_set ''no git'']"
    by (simp add: sample_requests_def computeGitChangeSet_def bind_result_def Let_def)
  finally show ?thesis .
qed

section \<open>Staged sets read the index\<close>

definition index_before :: "(string \<Rightarrow> string) \<Rightarrow> (string \<Rightarrow> (string \<times> string) option) \<Rightarrow> string \<Rightarrow> GitStatus \<Rightarrow> SourceText" where
  "index_before utf8 blob prefix s =
     (if gs_kind s = file_added then no_text else text_of_object utf8 blob (snd (before_request True prefix s)))"

definition index_after :: "(string \<Rightarrow> string) \<Rightarrow> (string \<Rightarrow> (string \<times> string) option) \<Rightarrow> string \<Rightarrow> GitStatus \<Rightarrow> SourceText" where
  "index_after utf8 blob prefix s =
     (if gs_kind s = file_deleted then no_text else text_of_object utf8 blob (snd (after_request prefix s)))"

lemma requested_text:
  assumes "distinct (map gs_path candidates)" "s \<in> set candidates" "P s" "\<And>s. fst (request s) = gs_path s"
    and "\<And>k. map_of found k = map_option (text_of_object utf8 blob) (map_of (map request (filter P candidates)) k)"
  shows "source_of found (gs_path s) = text_of_object utf8 blob (snd (request s))"
proof -
  have "distinct (map fst (map request (filter P candidates)))" using assms(1) by (simp add: o_def assms(4) distinct_map_filter)
  moreover have "(gs_path s, snd (request s)) \<in> set (map request (filter P candidates))"
    using assms(2-4) by (metis (mono_tags, lifting) image_eqI mem_Collect_eq prod.collapse set_filter set_map)
  ultimately have "map_of (map request (filter P candidates)) (gs_path s) = Some (snd (request s))" by (rule map_of_is_SomeI)
  then show ?thesis by (simp add: source_of_def assms(5))
qed

text \<open>A staged change set shows the index and the last commit and never the working tree: each file has the text of its blob there,
  renamed files that of their old path before, and the set is called available exactly when no text had to be left out.\<close>

theorem staged_set_reads_the_index:
  assumes "distinct (map gs_path candidates)"
    and "\<And>rs. distinct (map fst rs) \<Longrightarrow> \<exists>found. blobs rs = Inr found \<and> (\<forall>k. map_of found k = map_option (text_of_object utf8 blob) (map_of rs k))"
  shows "\<exists>changes. set_of_candidates blobs disk cwd prefix True candidates = Inr changes
    \<and> cc_files changes = map (\<lambda>s. status_file (index_before utf8 blob prefix s) (index_after utf8 blob prefix s) s) candidates
    \<and> (cc_availability changes = set_available \<longleftrightarrow>
         (\<forall>s \<in> set candidates. \<not> st_omitted (index_before utf8 blob prefix s) \<and> \<not> st_omitted (index_after utf8 blob prefix s)))
    \<and> cc_availability changes \<noteq> set_unavailable"
proof -
  let ?b = "filter (\<lambda>s. gs_kind s \<noteq> file_added) candidates" and ?a = "filter (\<lambda>s. gs_kind s \<noteq> file_deleted) candidates"
  have d: "distinct (map fst (map (before_request True prefix) ?b))" "distinct (map fst (map (after_request prefix) ?a))"
    using assms(1) by (simp_all add: o_def before_request_def after_request_def distinct_map_filter)
  obtain found where f: "blobs (map (before_request True prefix) ?b) = Inr found"
    "\<And>k. map_of found k = map_option (text_of_object utf8 blob) (map_of (map (before_request True prefix) ?b) k)" using assms(2) [OF d(1)] by blast
  obtain after where a: "blobs (map (after_request prefix) ?a) = Inr after"
    "\<And>k. map_of after k = map_option (text_of_object utf8 blob) (map_of (map (after_request prefix) ?a) k)" using assms(2) [OF d(2)] by blast
  let ?before = "\<lambda>s. if gs_kind s = file_added then no_text else source_of found (gs_path s)"
  let ?after = "\<lambda>s. if gs_kind s = file_deleted then no_text
    else if True then source_of after (gs_path s) else readCurrentText disk (node_resolve cwd (gs_path s))"
  have t: "?before s = index_before utf8 blob prefix s" "?after s = index_after utf8 blob prefix s" if "s \<in> set candidates" for s
    using requested_text [OF assms(1) that, of "\<lambda>s. gs_kind s \<noteq> file_added" "before_request True prefix", OF _ _ f(2)]
      requested_text [OF assms(1) that, of "\<lambda>s. gs_kind s \<noteq> file_deleted" "after_request prefix", OF _ _ a(2)]
    by (simp_all add: index_before_def index_after_def before_request_def after_request_def)
  have "set_of_candidates blobs disk cwd prefix True candidates = Inr (finish_change_set ?before ?after candidates)"
    by (simp add: set_of_candidates_def f(1) a(1) bind_result_def)
  moreover have "finish_change_set ?before ?after candidates
      = finish_change_set (index_before utf8 blob prefix) (index_after utf8 blob prefix) candidates"
    unfolding finish_change_set_def Let_def
    by (simp only: t cong: map_cong filter_cong)
  ultimately show ?thesis by (auto simp: finish_change_set_def Let_def filter_empty_conv)
qed

theorem staged_set_reads_the_index_witness:
  "\<exists>changes. set_of_candidates (\<lambda>rs. Inr (map (\<lambda>r. (fst r, text_of_object (\<lambda>t. t) sample_blob (snd r))) rs)) (\<lambda>_. None) ''/p'' [] True
      [\<lparr>gs_path = ''a.ts'', gs_beforePath = None, gs_kind = file_modified\<rparr>] = Inr changes
    \<and> map cf_afterText (cc_files changes) = [Some [NUL, CHR ''x'']] \<and> map cf_beforeText (cc_files changes) = [None]"
proof -
  have of_rs: "map_of (map (\<lambda>r. (fst r, text_of_object (\<lambda>t. t) sample_blob (snd r))) rs) k
      = map_option (text_of_object (\<lambda>t. t) sample_blob) (map_of rs k)" for rs k by (induction rs) auto
  have reader: "\<exists>found. Inr (map (\<lambda>r. (fst r, text_of_object (\<lambda>t. t) sample_blob (snd r))) rs) = (Inr found :: string + (string, SourceText) jmap)
      \<and> (\<forall>k. map_of found k = map_option (text_of_object (\<lambda>t. t) sample_blob) (map_of rs k))" for rs
    by (rule exI [where x = "map (\<lambda>r. (fst r, text_of_object (\<lambda>t. t) sample_blob (snd r))) rs"], rule conjI, rule refl, rule allI, rule of_rs)
  let ?cs = "[\<lparr>gs_path = ''a.ts'', gs_beforePath = None, gs_kind = file_modified\<rparr>]"
  have "distinct (map gs_path ?cs)" by simp
  from staged_set_reads_the_index [OF this reader, of "\<lambda>_. None" "''/p''" "[]"] obtain changes where
    c: "set_of_candidates (\<lambda>rs. Inr (map (\<lambda>r. (fst r, text_of_object (\<lambda>t. t) sample_blob (snd r))) rs)) (\<lambda>_. None) ''/p'' [] True ?cs = Inr changes"
      "cc_files changes = map (\<lambda>s. status_file (index_before (\<lambda>t. t) sample_blob [] s) (index_after (\<lambda>t. t) sample_blob [] s) s) ?cs"
    by blast
  have "map cf_afterText (cc_files changes) = [Some [NUL, CHR ''x'']] \<and> map cf_beforeText (cc_files changes) = [None]"
    unfolding c(2) by (simp add: index_before_def index_after_def before_request_def after_request_def repositoryPathOf_def toPosixPath_def
        text_of_object_def sample_blob_def no_text_def status_file_def MAX_GIT_BLOB_BYTES_def)
  then show ?thesis by (intro exI [where x = changes] conjI c(1)) simp_all
qed

end
