(* ===== verification/Semantic_Diff.thy ===== *)
theory Semantic_Diff
  imports Change_Set Semantic_Changes Cohesion
begin

text \<open>
  The declaration-level profile of each file of a change set (\<open>application/semanticDiff.ts\<close>). \<open>parseText path text\<close> is the parser,
  \<open>None\<close> when it fails.
\<close>

section \<open>Profiles\<close>

record SemanticBeforeMetrics =
  sb_weightedBranchTotal :: real
  sb_maxFuncBranch :: "real option"
  sb_nestingDepth :: real
  sb_loc :: real
  sb_externalPassthroughCalls :: real
  sb_connectedness :: "real option"
  sb_functionCount :: "real option"
  sb_singleCallSiteRatio :: "real option"

datatype SemanticBeforeState = before_git | before_introduced | before_unavailable

record SemanticFileProfile =
  pf_file :: string
  pf_changes :: "SemanticChange list"
  pf_beforeMetrics :: "SemanticBeforeMetrics option"
  pf_beforeState :: SemanticBeforeState
  pf_deleted :: bool
  pf_unavailable :: bool

record SemanticFileFailure =
  ff_path :: string
  ff_reason :: string
  ff_ambiguity :: "SemanticDeclarationAmbiguity option"

record SemanticDiffReport =
  rd_availability :: SetAvailability
  rd_profiles :: "SemanticFileProfile list"
  rd_reason :: "string option"
  rd_failures :: "SemanticFileFailure list option"

definition beforeMetricsOf :: "FileAst \<Rightarrow> SemanticBeforeMetrics" where
  "beforeMetricsOf ast =
     (let callShape = computeInternalCallShape (fa_functions ast)
      in \<lparr>sb_weightedBranchTotal = or_default (fa_weightedBranchTotal ast) (fa_branchCount ast), sb_maxFuncBranch = fa_maxFuncBranch ast,
          sb_nestingDepth = fa_nestingDepth ast, sb_loc = or_default (fa_loc ast) 0,
          sb_externalPassthroughCalls = or_default (fa_externalPassthroughCalls ast) (fa_passthroughCalls ast),
          sb_connectedness = Some (cs_connected callShape), sb_functionCount = Some (fa_functionCount ast),
          sb_singleCallSiteRatio = cs_singleCallSite callShape\<rparr>)"

definition analyzedProfile :: "SemanticChange list \<Rightarrow> ChangeSetFile \<Rightarrow> FileAst option \<Rightarrow> SemanticFileProfile" where
  "analyzedProfile changes file before =
     \<lparr>pf_file = cf_path file, pf_changes = changes, pf_beforeMetrics = map_option beforeMetricsOf before,
      pf_beforeState = (if before \<noteq> None then before_git else before_introduced), pf_deleted = False, pf_unavailable = False\<rparr>"

definition fallbackProfile :: "ChangeSetFile \<Rightarrow> SemanticFileProfile" where
  "fallbackProfile file =
     \<lparr>pf_file = cf_path file, pf_changes = [\<lparr>sc_anchor = ''non-production:file'', sc_kind = function_body\<rparr>], pf_beforeMetrics = None,
      pf_beforeState = (if cf_kind file = file_added then before_introduced else before_unavailable),
      pf_deleted = (cf_kind file = file_deleted), pf_unavailable = False\<rparr>"

definition unavailableProfile :: "ChangeSetFile \<Rightarrow> FileAst option \<Rightarrow> bool \<Rightarrow> SemanticFileProfile" where
  "unavailableProfile file before isNonProduction =
     (if isNonProduction then fallbackProfile file
      else \<lparr>pf_file = cf_path file, pf_changes = [], pf_beforeMetrics = map_option beforeMetricsOf before,
        pf_beforeState = (if before \<noteq> None then before_git else before_unavailable), pf_deleted = False, pf_unavailable = True\<rparr>)"

section \<open>One file\<close>

text \<open>A text that is absent or empty is no text.\<close>

definition text_there :: "string option \<Rightarrow> string option" where
  "text_there t = (if t = Some [] then None else t)"

type_synonym FileVerdict = "SemanticFileProfile \<times> SemanticFileFailure option"

definition failed_file :: "ChangeSetFile \<Rightarrow> FileAst option \<Rightarrow> bool \<Rightarrow> string \<Rightarrow> SemanticDeclarationAmbiguity option \<Rightarrow> FileVerdict" where
  "failed_file file before isNonProduction reason ambiguity =
     (unavailableProfile file before isNonProduction,
      Some \<lparr>ff_path = cf_path file, ff_reason = reason, ff_ambiguity = ambiguity\<rparr>)"

definition degraded_file :: "ChangeSetFile \<Rightarrow> FileAst option \<Rightarrow> bool \<Rightarrow> string \<Rightarrow> SemanticDeclarationAmbiguity option \<Rightarrow> FileVerdict" where
  "degraded_file file before isNonProduction reason ambiguity =
     (if isNonProduction then (fallbackProfile file, None) else failed_file file before isNonProduction reason ambiguity)"

definition deleted_verdict :: "(string \<Rightarrow> string \<Rightarrow> FileAst option) \<Rightarrow> string \<Rightarrow> bool \<Rightarrow> ChangeSetFile \<Rightarrow> FileVerdict" where
  "deleted_verdict parseText cwd isNonProduction file =
     (case Option.bind (text_there (cf_beforeText file)) (parseText (node_resolve cwd (cf_path file))) of
        None \<Rightarrow> degraded_file file None isNonProduction ''cannot parse before source for deleted file'' None
      | Some before \<Rightarrow>
          (case analyzeSemanticChanges (Some before) None of
             Unavailable reason ambiguity \<Rightarrow> degraded_file file (Some before) isNonProduction reason ambiguity
           | Available changes \<Rightarrow>
               (\<lparr>pf_file = cf_path file, pf_changes = changes, pf_beforeMetrics = Some (beforeMetricsOf before),
                 pf_beforeState = before_git, pf_deleted = True, pf_unavailable = False\<rparr>, None)))"

definition present_verdict :: "(string \<Rightarrow> string \<Rightarrow> FileAst option) \<Rightarrow> string \<Rightarrow> bool \<Rightarrow> ChangeSetFile \<Rightarrow> FileVerdict" where
  "present_verdict parseText cwd isNonProduction file =
     (case text_there (cf_afterText file) of
        None \<Rightarrow> failed_file file None isNonProduction ''unreadable after source'' None
      | Some afterText \<Rightarrow>
          let path = node_resolve cwd (cf_path file);
              before = Option.bind (text_there (cf_beforeText file)) (parseText path);
              after = parseText path afterText
          in if text_there (cf_beforeText file) \<noteq> None \<and> before = None
             then degraded_file file None isNonProduction ''cannot parse before source'' None
             else if after = None then degraded_file file before isNonProduction ''cannot parse after source'' None
             else (case analyzeSemanticChanges before after of
                Unavailable reason ambiguity \<Rightarrow> degraded_file file before isNonProduction reason ambiguity
              | Available changes \<Rightarrow> (analyzedProfile changes file before, None)))"

definition file_verdict :: "(string \<Rightarrow> string \<Rightarrow> FileAst option) \<Rightarrow> (string \<Rightarrow> FileKind) \<Rightarrow> string \<Rightarrow> ChangeSetFile \<Rightarrow> FileVerdict" where
  "file_verdict parseText classify cwd file =
     (let isNonProduction = classify (cf_path file) \<noteq> fk_production
      in if cf_kind file = file_deleted then deleted_verdict parseText cwd isNonProduction file
         else present_verdict parseText cwd isNonProduction file)"

section \<open>The report\<close>

definition unavailable_report :: "string \<Rightarrow> SemanticDiffReport" where
  "unavailable_report reason = \<lparr>rd_availability = set_unavailable, rd_profiles = [], rd_reason = Some reason, rd_failures = None\<rparr>"

definition failure_text :: "SemanticFileFailure \<Rightarrow> string" where
  "failure_text f = ff_path f @ '': '' @ ff_reason f"

definition add_verdict :: "(ChangeSetFile \<Rightarrow> FileVerdict) \<Rightarrow> SemanticFileProfile list \<times> SemanticFileFailure list \<Rightarrow> ChangeSetFile
     \<Rightarrow> SemanticFileProfile list \<times> SemanticFileFailure list" where
  "add_verdict judge acc file =
     (fst acc @ [fst (judge file)], case snd (judge file) of None \<Rightarrow> snd acc | Some f \<Rightarrow> snd acc @ [f])"

definition analyzeChangeSetSemantics ::
  "(string \<Rightarrow> string \<Rightarrow> bool) \<Rightarrow> string \<Rightarrow> (string \<Rightarrow> string \<Rightarrow> FileAst option) \<Rightarrow> FileKindRule list \<Rightarrow> string \<Rightarrow> ChangeSetContext
     \<Rightarrow> string list option \<Rightarrow> SemanticDiffReport" where
  "analyzeChangeSetSemantics mm processCwd parseText fileKindRules cwd changeSet paths =
     (if cc_availability changeSet \<noteq> set_available then
        let reason = or_default (cc_reason changeSet) ''Git change set is incomplete''
        in if cc_availability changeSet = set_partial
           then \<lparr>rd_availability = set_partial, rd_profiles = [], rd_reason = Some reason, rd_failures = Some []\<rparr>
           else unavailable_report reason
      else
        let files = (case paths of None \<Rightarrow> cc_files changeSet
              | Some ps \<Rightarrow> filter (\<lambda>f. toPosixPath (cf_path f) \<in> set (map toPosixPath ps)) (cc_files changeSet))
        in if paths \<noteq> None \<and> files = [] then unavailable_report ''requested historical files are absent from the revision''
           else
             (case foldl (add_verdict (file_verdict parseText (\<lambda>p. classifyFileKindWithPolicy mm processCwd p fileKindRules None) cwd)) ([], []) files of
                (profiles, failures) \<Rightarrow>
                  let reason = join_with ''; '' (map failure_text failures)
                  in if failures = [] then \<lparr>rd_availability = set_available, rd_profiles = profiles, rd_reason = None, rd_failures = None\<rparr>
                     else if profiles = [] then unavailable_report reason
                     else \<lparr>rd_availability = set_partial, rd_profiles = profiles, rd_reason = Some reason, rd_failures = Some failures\<rparr>))"

section \<open>Every file is judged alone\<close>

lemma add_verdicts:
  "foldl (add_verdict judge) (ps, fs) files = (ps @ map (\<lambda>f. fst (judge f)) files, fs @ present (map (\<lambda>f. snd (judge f)) files))"
  by (induction files arbitrary: ps fs) (auto simp: add_verdict_def split: option.splits)

lemma present_empty: "present xs = [] \<longleftrightarrow> (\<forall>x \<in> set xs. x = None)"
  by (induction xs rule: present.induct) auto

lemma nothing_present: "[] = present xs \<longleftrightarrow> (\<forall>x \<in> set xs. x = None)"
  by (metis present_empty)

definition verdict_of :: "(string \<Rightarrow> string \<Rightarrow> bool) \<Rightarrow> string \<Rightarrow> (string \<Rightarrow> string \<Rightarrow> FileAst option) \<Rightarrow> FileKindRule list \<Rightarrow> string
    \<Rightarrow> ChangeSetFile \<Rightarrow> FileVerdict" where
  "verdict_of mm processCwd parseText rules cwd = file_verdict parseText (\<lambda>p. classifyFileKindWithPolicy mm processCwd p rules None) cwd"

text \<open>A file that cannot be classified degrades only itself: the report of a complete change set has one profile for each file,
  in order and the one that the file has alone, its failures are those of the files that fail alone, and it is available
  exactly when no file fails, partial otherwise, and never unavailable as a whole.\<close>

theorem files_are_judged_alone:
  assumes "cc_availability changeSet = set_available"
    and "report = analyzeChangeSetSemantics mm processCwd parseText rules cwd changeSet None"
  shows "rd_profiles report = map (\<lambda>f. fst (verdict_of mm processCwd parseText rules cwd f)) (cc_files changeSet)
    \<and> (rd_availability report = set_available \<longleftrightarrow> (\<forall>f \<in> set (cc_files changeSet). snd (verdict_of mm processCwd parseText rules cwd f) = None))
    \<and> or_default (rd_failures report) [] = present (map (\<lambda>f. snd (verdict_of mm processCwd parseText rules cwd f)) (cc_files changeSet))
    \<and> rd_availability report \<noteq> set_unavailable"
  using assms(1) unfolding assms(2)
  by (auto simp: analyzeChangeSetSemantics_def add_verdicts verdict_of_def present_empty nothing_present Let_def)

text \<open>The changes that two readable texts prove: both parse where they are there, and the analysis has a result. A file
  that is not deleted has its text after the change, a deleted one its text before it.\<close>

definition proved_changes :: "(string \<Rightarrow> string \<Rightarrow> FileAst option) \<Rightarrow> string \<Rightarrow> ChangeSetFile \<Rightarrow> SemanticChange list option" where
  "proved_changes parseText cwd file =
     (let deleted = (cf_kind file = file_deleted);
          parsed = (\<lambda>t. Option.bind t (parseText (node_resolve cwd (cf_path file))));
          before = text_there (cf_beforeText file);
          after = (if deleted then None else text_there (cf_afterText file))
      in if (before \<noteq> None \<and> parsed before = None) \<or> (after \<noteq> None \<and> parsed after = None) \<or> (if deleted then before = None else after = None)
         then None
         else (case analyzeSemanticChanges (parsed before) (parsed after) of
             Available changes \<Rightarrow> Some changes
           | Unavailable _ _ \<Rightarrow> None))"

lemmas verdict_defs = verdict_of_def file_verdict_def deleted_verdict_def present_verdict_def degraded_file_def failed_file_def
  unavailableProfile_def analyzedProfile_def

lemma verdict_when_proved:
  "proved_changes parseText cwd file = Some changes \<Longrightarrow> verdict_of mm processCwd parseText rules cwd file = (profile, failure)
    \<Longrightarrow> failure = None \<and> pf_changes profile = changes \<and> \<not> pf_unavailable profile"
  by (cases "cf_kind file = file_deleted")
    (auto simp: proved_changes_def verdict_defs Let_def split: option.splits SemanticChangeAnalysis.splits if_splits)

lemma verdict_of_production:
  "proved_changes parseText cwd file = None \<Longrightarrow> verdict_of mm processCwd parseText rules cwd file = (profile, failure)
    \<Longrightarrow> classifyFileKindWithPolicy mm processCwd (cf_path file) rules None = fk_production
    \<Longrightarrow> map_option ff_path failure = Some (cf_path file) \<and> pf_changes profile = [] \<and> pf_unavailable profile"
  by (cases "cf_kind file = file_deleted")
    (auto simp: proved_changes_def verdict_defs Let_def split: option.splits SemanticChangeAnalysis.splits if_splits)

lemma verdict_of_other_files:
  "proved_changes parseText cwd file = None \<Longrightarrow> verdict_of mm processCwd parseText rules cwd file = (profile, failure)
    \<Longrightarrow> classifyFileKindWithPolicy mm processCwd (cf_path file) rules None \<noteq> fk_production
    \<Longrightarrow> profile = fallbackProfile file \<and> (failure = None \<longleftrightarrow> cf_kind file = file_deleted \<or> text_there (cf_afterText file) \<noteq> None)"
  by (cases "cf_kind file = file_deleted")
    (auto simp: proved_changes_def verdict_defs Let_def split: option.splits SemanticChangeAnalysis.splits if_splits)

text \<open>C11: What a profile claims is what was proved, and the one exception is exact. When the file's texts are readable and
  the analysis has a result, the profile has these changes, no failure and no mark. Otherwise a production file claims no change, is
  marked as unavailable and has its failure; a file that is not production code gets the fallback profile instead, one change of a
  body that nothing proves, without the mark, and a failure only if its text after the change is missing.\<close>

theorem profiles_are_proved_or_fallback:
  assumes "verdict_of mm processCwd parseText rules cwd file = (profile, failure)"
  shows "case proved_changes parseText cwd file of
      Some changes \<Rightarrow> failure = None \<and> pf_changes profile = changes \<and> \<not> pf_unavailable profile
    | None \<Rightarrow>
        if classifyFileKindWithPolicy mm processCwd (cf_path file) rules None = fk_production
        then map_option ff_path failure = Some (cf_path file) \<and> pf_changes profile = [] \<and> pf_unavailable profile
        else profile = fallbackProfile file \<and> \<not> pf_unavailable profile
          \<and> map (\<lambda>c. (sc_anchor c, sc_kind c)) (pf_changes profile) = [(''non-production:file'', function_body)]
          \<and> (failure = None \<longleftrightarrow> cf_kind file = file_deleted \<or> text_there (cf_afterText file) \<noteq> None)"
  using verdict_when_proved [OF _ assms] verdict_of_production [OF _ assms] verdict_of_other_files [OF _ assms]
  by (auto simp: fallbackProfile_def split: option.split)

text \<open>A file that was emptied has a readable text, but fails as unreadable, test files included.\<close>

lemma emptied_file_fails:
  assumes "cf_kind file \<noteq> file_deleted" "cf_afterText file = Some []"
  shows "\<exists>f. snd (verdict_of mm processCwd parseText rules cwd file) = Some f \<and> ff_reason f = ''unreadable after source''"
  using assms by (simp add: verdict_of_def file_verdict_def present_verdict_def text_there_def failed_file_def)

definition sample_changed_file :: ChangeSetFile where
  "sample_changed_file = \<lparr>cf_path = ''src/a.ts'', cf_kind = file_modified, cf_beforePath = None, cf_beforeText = Some ''x'', cf_afterText = Some ''y''\<rparr>"

definition sample_change_set :: ChangeSetContext where
  "sample_change_set = \<lparr>cc_availability = set_available, cc_files = [sample_changed_file, sample_changed_file\<lparr>cf_path := ''src/b.ts''\<rparr>], cc_reason = None\<rparr>"

theorem files_are_judged_alone_witness:
  "map pf_file (rd_profiles (analyzeChangeSetSemantics (\<lambda>_ _. False) ''/p'' (\<lambda>_ _. None) [] ''/p'' sample_change_set None)) = [''src/a.ts'', ''src/b.ts'']"
proof -
  have "cc_availability sample_change_set = set_available" by (simp add: sample_change_set_def)
  from files_are_judged_alone [OF this refl] show ?thesis
    by (simp add: sample_change_set_def sample_changed_file_def verdict_of_def file_verdict_def present_verdict_def text_there_def
        degraded_file_def failed_file_def unavailableProfile_def fallbackProfile_def Let_def)
qed

lemma sample_is_production: "classifyFileKindWithPolicy (\<lambda>_ _. False) ''/p'' ''src/a.ts'' [] None = fk_production"
  by code_simp

theorem profiles_are_proved_or_fallback_witness:
  "pf_unavailable (fst (verdict_of (\<lambda>_ _. False) ''/p'' (\<lambda>_ _. None) [] ''/p'' sample_changed_file))"
proof -
  have k: "classifyFileKindWithPolicy (\<lambda>_ _. False) ''/p'' (cf_path sample_changed_file) [] None = fk_production"
    by (simp add: sample_changed_file_def sample_is_production)
  have "proved_changes (\<lambda>_ _. None) ''/p'' sample_changed_file = None"
    by (simp add: sample_changed_file_def proved_changes_def text_there_def)
  then show ?thesis
    using profiles_are_proved_or_fallback [OF prod.collapse [symmetric, of "verdict_of (\<lambda>_ _. False) ''/p'' (\<lambda>_ _. None) [] ''/p'' sample_changed_file"]] k
    by simp
qed

end
