(* ===== verification/Diff_Impact.thy ===== *)
theory Diff_Impact
  imports Scan_Entries Semantic_Diff Mr_Diagnosis
begin

text \<open>
  The impact of one changed file (\<open>application/diffImpact.ts\<close>) and the graph it is measured in (\<open>application/diffGraph.ts\<close>).
  \<open>absolute\<close> is \<open>toAbsolute\<close>, \<open>base\<close> the project root and \<open>cwd\<close> the process's directory.
\<close>

section \<open>The graph around a change\<close>

record RebuiltGraph =
  rg_graph :: DependencyGraph
  rg_inDegrees :: "(string, nat) jmap"
  rg_reverseEdges :: DependencyGraph
  rg_changedSet :: "string list"

definition resolvedImportsAbs :: "(string \<Rightarrow> string) \<Rightarrow> FileAst \<Rightarrow> string list" where
  "resolvedImportsAbs absolute ast = map absolute (present (map ir_resolvedPath (fa_imports ast)))"

definition in_production :: "(string \<Rightarrow> FileKind) \<Rightarrow> FileAst \<Rightarrow> bool" where
  "in_production classify ast = participatesInPopulation (Some (classify (fa_path ast))) pop_production"

definition rebuildGraph ::
  "(string \<Rightarrow> string) \<Rightarrow> (string \<Rightarrow> FileKind) \<Rightarrow> FileAst list \<Rightarrow> (string \<times> ScanEntry) list \<Rightarrow> ImplicitEdge list option \<Rightarrow> RebuiltGraph" where
  "rebuildGraph absolute classify asts allMetrics implicitDeps =
     (let known = foldl (\<lambda>edges (p, e). if \<not> participatesInPopulation (ix_fileKind e) pop_production then edges
              else map_set edges (absolute (ix_path e)) (map absolute (or_default (sc_imports e) []))) [] allMetrics;
          edges = foldl (\<lambda>edges ast. if \<not> in_production classify ast then edges
              else map_set edges (absolute (fa_path ast)) (resolvedImportsAbs absolute ast)) known asts;
          graph = buildDependencyGraphFromEdges edges implicitDeps
      in \<lparr>rg_graph = graph, rg_inDegrees = computeInDegrees graph, rg_reverseEdges = computeReverseEdges graph,
          rg_changedSet = uniq (map (\<lambda>a. absolute (fa_path a)) (filter (in_production classify) asts))\<rparr>)"

section \<open>The impact of one file\<close>

record ImpactInput =
  ii_ast :: FileAst
  ii_inDegrees :: "(string, nat) jmap"
  ii_reverseEdges :: DependencyGraph
  ii_nFiles :: nat
  ii_changeKinds :: "ChangeKind list"
  ii_pathClasses :: "PathClass list"
  ii_oldEntry :: "ScanEntry option"
  ii_semanticBefore :: "SemanticBeforeMetrics option"
  ii_semanticBeforeState :: "SemanticBeforeState option"
  ii_p95 :: "P95Values option"
  ii_weights :: CRLStateWeights
  ii_fileKindRules :: "FileKindRule list"

record ImpactOutput =
  io_absPath :: string
  io_relPath :: string
  io_alphaStruct :: real
  io_deltaI :: real
  io_severityBudget :: real
  io_oldEntry :: "ScanEntry option"
  io_writeEntry :: ScanEntry
  io_mrDetail :: MRDiagnosis
  io_contributionMR :: real

definition entry_weighted :: "ScanEntry option \<Rightarrow> real" where
  "entry_weighted e = weightedBranchTotalOf
     \<lparr>bm_branchCount = map_option ix_branchCount e, bm_weightedBranchTotal = Option.bind e ix_weightedBranchTotal,
      bm_maxFuncBranch = None, bm_topLevelWeightedBranch = None\<rparr>"

definition metrics_of_before :: "SemanticBeforeMetrics \<Rightarrow> MRLocalMetricsInput" where
  "metrics_of_before b =
     \<lparr>mi_maxFuncBranch = sb_maxFuncBranch b, mi_branchCount = None, mi_nestingDepth = Some (sb_nestingDepth b), mi_loc = Some (sb_loc b),
      mi_externalPassthroughCalls = Some (sb_externalPassthroughCalls b), mi_passthroughCalls = None,
      mi_connectedness = sb_connectedness b, mi_functionCount = sb_functionCount b, mi_singleCallSiteRatio = sb_singleCallSiteRatio b\<rparr>"

definition metrics_of_entry :: "ScanEntry \<Rightarrow> MRLocalMetricsInput" where
  "metrics_of_entry e =
     \<lparr>mi_maxFuncBranch = ix_maxFuncBranch e, mi_branchCount = Some (ix_branchCount e), mi_nestingDepth = Some (ix_nestingDepth e),
      mi_loc = ix_loc e, mi_externalPassthroughCalls = ix_externalPassthroughCalls e, mi_passthroughCalls = ix_passthroughCalls e,
      mi_connectedness = ix_connectedness e, mi_functionCount = None, mi_singleCallSiteRatio = be_singleCallSiteRatio e\<rparr>"

definition beforeSourceOf :: "P95Values option \<Rightarrow> SemanticBeforeState option \<Rightarrow> ScanEntry option \<Rightarrow> MRBeforeSource" where
  "beforeSourceOf p95Values state oldEntry =
     (if p95Values = None then bs_unavailable
      else if state = Some before_git then bs_git
      else if state = Some before_introduced then bs_introduced
      else if oldEntry \<noteq> None then bs_baseline
      else if state = Some before_unavailable then bs_unavailable
      else bs_introduced)"

definition impact_kind :: "(string \<Rightarrow> string \<Rightarrow> bool) \<Rightarrow> string \<Rightarrow> FileKindRule list \<Rightarrow> ScanEntry option \<Rightarrow> string \<Rightarrow> FileKind" where
  "impact_kind mm cwd rules oldEntry relPath =
     or_default (Option.bind oldEntry ix_fileKind) (classifyFileKindWithPolicy mm cwd relPath rules None)"

definition impact_pushes :: "(string \<Rightarrow> string \<Rightarrow> bool) \<Rightarrow> (string \<Rightarrow> string) \<Rightarrow> ImpactInput \<Rightarrow> real \<Rightarrow> PushDeltaInput list" where
  "impact_pushes mm absolute i a =
     (let absPath = absolute (fa_path (ii_ast i));
          previous = (if ii_semanticBeforeState i = Some before_git
            then or_default (map_option sb_weightedBranchTotal (ii_semanticBefore i)) 0 else entry_weighted (ii_oldEntry i))
      in map (\<lambda>changeKind. \<lparr>pd_changeKind = changeKind, pd_alphaStruct = a,
           pd_inDegree = or_default (map_get (ii_inDegrees i) absPath) 0, pd_layerWeight = Some (layerWeightOf mm absPath (ii_pathClasses i)),
           pd_weightedBranchDelta = Some (ast_weighted (ii_ast i) - previous)\<rparr>) (ii_changeKinds i))"

definition impact_alpha :: "(string \<Rightarrow> string) \<Rightarrow> ImpactInput \<Rightarrow> real" where
  "impact_alpha absolute i = Weights.alphaStruct
     \<lparr>al_reach = reach (ii_reverseEdges i) (absolute (fa_path (ii_ast i))) 5, al_confidence = ast_confidence (ii_ast i), al_nFiles = ii_nFiles i\<rparr>"

definition computeFileImpact ::
  "(json \<Rightarrow> string) \<Rightarrow> (string \<Rightarrow> string \<Rightarrow> bool) \<Rightarrow> (string \<Rightarrow> string) \<Rightarrow> string \<Rightarrow> string \<Rightarrow> ImpactInput \<Rightarrow> ImpactOutput" where
  "computeFileImpact hash mm absolute cwd base i =
     (let ast = ii_ast i; absPath = absolute (fa_path ast); relPath = relativePath base absPath;
          fileKind = impact_kind mm cwd (ii_fileKindRules i) (ii_oldEntry i) relPath;
          isProduction = participatesInPopulation (Some fileKind) pop_production;
          a = impact_alpha absolute i;
          pushes = impact_pushes mm absolute i a;
          beforeSource = beforeSourceOf (ii_p95 i) (ii_semanticBeforeState i) (ii_oldEntry i);
          writeEntry = projectBaselineEntry hash base ast fileKind (or_default (map_get (ii_inDegrees i) absPath) 0) a (ii_oldEntry i);
          mrDetail = computeMRDiagnosis
            \<lparr>mri_file = fa_path ast,
             mri_before = (if beforeSource = bs_git then map_option metrics_of_before (ii_semanticBefore i)
               else if beforeSource = bs_baseline then map_option metrics_of_entry (ii_oldEntry i) else None),
             mri_before_alphaStruct = (if beforeSource = bs_baseline then map_option ix_alphaStruct (ii_oldEntry i) else None),
             mri_beforeSource = Some beforeSource,
             mri_beforeAlpha = (if beforeSource = bs_baseline then map_option ix_alphaStruct (ii_oldEntry i) else None),
             mri_after = \<lparr>mi_maxFuncBranch = fa_maxFuncBranch ast, mi_branchCount = Some (fa_branchCount ast),
               mi_nestingDepth = Some (fa_nestingDepth ast), mi_loc = fa_loc ast,
               mi_externalPassthroughCalls = Some (or_default (fa_externalPassthroughCalls ast) (fa_passthroughCalls ast)),
               mi_passthroughCalls = None, mi_connectedness = ix_connectedness writeEntry, mi_functionCount = Some (fa_functionCount ast),
               mi_singleCallSiteRatio = be_singleCallSiteRatio writeEntry\<rparr>,
             mri_after_alphaStruct = a, mri_p95 = ii_p95 i, mri_weights = ii_weights i\<rparr>
      in \<lparr>io_absPath = absPath, io_relPath = relPath, io_alphaStruct = a,
          io_deltaI = (if isProduction then computeIPush pushes else 0),
          io_severityBudget = (if isProduction then computeSeverityBudget pushes else 0),
          io_oldEntry = ii_oldEntry i, io_writeEntry = writeEntry, io_mrDetail = mrDetail,
          io_contributionMR = (if isProduction then mb_deterioration (mr_localBurden mrDetail) else 0)\<rparr>)"

section \<open>What one file can contribute\<close>

lemma push_of_file:
  assumes "d \<in> set (impact_pushes mm absolute i a)"
  shows "pd_changeKind d \<in> set (ii_changeKinds i)" "pd_alphaStruct d = a"
    "pd_inDegree d = or_default (map_get (ii_inDegrees i) (absolute (fa_path (ii_ast i)))) 0"
    "pd_layerWeight d = Some (layerWeightOf mm (absolute (fa_path (ii_ast i))) (ii_pathClasses i))"
  using assms by (auto simp: impact_pushes_def Let_def)

lemma file_push_bounds:
  assumes "ds = impact_pushes mm absolute i (impact_alpha absolute i)"
  shows "0 \<le> computeIPush ds \<and> 0 \<le> computeSeverityBudget ds
    \<and> computeIPush ds \<le> computeSeverityBudget ds
        * (log 2 (real (or_default (map_get (ii_inDegrees i) (absolute (fa_path (ii_ast i)))) 0) + 1)
            * layerWeightOf mm (absolute (fa_path (ii_ast i))) (ii_pathClasses i))"
proof -
  let ?p = "absolute (fa_path (ii_ast i))"
  let ?c = "log 2 (real (or_default (map_get (ii_inDegrees i) ?p) 0) + 1) * layerWeightOf mm ?p (ii_pathClasses i)"
  have le: "0 \<le> pushTerm d \<and> pushTerm d \<le> severityTerm d * ?c" if "d \<in> set ds" for d
  proof (rule pushTerm_le)
    note d = push_of_file [OF that [unfolded assms]]
    show "0 \<le> pd_alphaStruct d" "pd_alphaStruct d \<le> 1" using alphaStruct_range by (simp_all add: d(2) impact_alpha_def)
    show "pd_inDegree d \<le> or_default (map_get (ii_inDegrees i) ?p) 0" by (simp add: d(3))
    have "0 \<le> layerWeightOf mm ?p (ii_pathClasses i)" using layerWeightOf_pos [of mm ?p "ii_pathClasses i"] by linarith
    then show "0 \<le> or_default (pd_layerWeight d) 1" "or_default (pd_layerWeight d) 1 \<le> layerWeightOf mm ?p (ii_pathClasses i)"
      by (simp_all add: d(4))
  qed
  have "0 \<le> computeIPush ds" using le by (auto simp: computeIPush_sum intro!: sum_list_nonneg)
  moreover have "0 \<le> computeSeverityBudget ds" by (auto simp: computeSeverityBudget_sum intro!: sum_list_nonneg)
  moreover have "computeIPush ds \<le> computeSeverityBudget ds * ?c"
    using le by (auto simp: computeIPush_sum computeSeverityBudget_sum sum_list_mult_const [symmetric] intro!: sum_list_mono)
  ultimately show ?thesis by blast
qed

lemma cosmetic_push:
  assumes "set (ii_changeKinds i) \<subseteq> {comment_whitespace}" and "ds = impact_pushes mm absolute i a"
  shows "computeIPush ds = 0" "computeSeverityBudget ds = 0"
proof -
  have "pushTerm d = 0 \<and> severityTerm d = 0" if "d \<in> set ds" for d
  proof -
    have "LAMBDA_AST (pd_changeKind d) = 0"
      using push_of_file(1) [OF that [unfolded assms(2)]] assms(1) LAMBDA_AST_zero_iff by blast
    then show ?thesis by (simp add: pushTerm_def severityTerm_def Let_def)
  qed
  then have "map pushTerm ds = map (\<lambda>_. 0) ds" "map severityTerm ds = map (\<lambda>_. 0) ds" by auto
  then show "computeIPush ds = 0" "computeSeverityBudget ds = 0"
    by (simp_all only: computeIPush_sum computeSeverityBudget_sum sum_list_0)
qed

lemma impact_fields:
  "io_alphaStruct (computeFileImpact hash mm absolute cwd base i) = impact_alpha absolute i"
  "io_relPath (computeFileImpact hash mm absolute cwd base i) = relativePath base (absolute (fa_path (ii_ast i)))"
  "io_oldEntry (computeFileImpact hash mm absolute cwd base i) = ii_oldEntry i"
  "ix_fileKind (io_writeEntry (computeFileImpact hash mm absolute cwd base i))
     = Some (impact_kind mm cwd (ii_fileKindRules i) (ii_oldEntry i) (relativePath base (absolute (fa_path (ii_ast i)))))"
  by (simp_all add: computeFileImpact_def projectBaselineEntry_def Let_def)

definition counts_as_production :: "ImpactOutput \<Rightarrow> bool" where
  "counts_as_production x = participatesInPopulation (ix_fileKind (io_writeEntry x)) pop_production"

lemma impact_amounts:
  assumes "x = computeFileImpact hash mm absolute cwd base i" and "ds = impact_pushes mm absolute i (impact_alpha absolute i)"
  shows "io_deltaI x = (if counts_as_production x then computeIPush ds else 0)"
    "io_severityBudget x = (if counts_as_production x then computeSeverityBudget ds else 0)"
    "io_contributionMR x = (if counts_as_production x then mb_deterioration (mr_localBurden (io_mrDetail x)) else 0)"
  by (simp_all add: assms counts_as_production_def computeFileImpact_def projectBaselineEntry_def Let_def)

lemma io_mrDetail_nonneg: "0 \<le> mb_deterioration (mr_localBurden (io_mrDetail (computeFileImpact hash mm absolute cwd base i)))"
  using mr_parts_nonneg(1) by (simp add: computeFileImpact_def Let_def)

text \<open>The push impact of a file is never negative and at most its severity budget times the number of files that import it, on
  a logarithmic scale, times its layer weight; its share of the deterioration is not negative. A file outside production, and a file
  of which only comments and blanks changed, have no push impact and no budget.\<close>

theorem file_impact_bounds:
  assumes "x = computeFileImpact hash mm absolute cwd base i"
  shows "0 \<le> io_deltaI x \<and> 0 \<le> io_contributionMR x \<and> 0 \<le> io_alphaStruct x \<and> io_alphaStruct x \<le> 1
    \<and> io_deltaI x \<le> io_severityBudget x
        * (log 2 (real (or_default (map_get (ii_inDegrees i) (absolute (fa_path (ii_ast i)))) 0) + 1)
            * layerWeightOf mm (absolute (fa_path (ii_ast i))) (ii_pathClasses i))
    \<and> (ix_fileKind (io_writeEntry x) \<noteq> Some fk_production \<longrightarrow> io_deltaI x = 0 \<and> io_severityBudget x = 0 \<and> io_contributionMR x = 0)
    \<and> (set (ii_changeKinds i) \<subseteq> {comment_whitespace} \<longrightarrow> io_deltaI x = 0 \<and> io_severityBudget x = 0)"
proof (intro conjI impI)
  note amounts = impact_amounts [OF assms refl] and push = file_push_bounds [OF refl, of mm absolute i]
  show "0 \<le> io_deltaI x" using push by (simp add: amounts(1))
  show "0 \<le> io_contributionMR x" unfolding amounts(3) unfolding assms using io_mrDetail_nonneg by simp
  show "0 \<le> io_alphaStruct x" "io_alphaStruct x \<le> 1" using alphaStruct_range by (simp_all add: assms impact_fields impact_alpha_def)
  show "io_deltaI x \<le> io_severityBudget x
        * (log 2 (real (or_default (map_get (ii_inDegrees i) (absolute (fa_path (ii_ast i)))) 0) + 1)
            * layerWeightOf mm (absolute (fa_path (ii_ast i))) (ii_pathClasses i))"
    using push by (simp add: amounts(1,2))
next
  assume "ix_fileKind (io_writeEntry x) \<noteq> Some fk_production"
  then have "\<not> counts_as_production x"
    by (auto simp: counts_as_production_def assms impact_fields effectiveFileKind_def or_default_def)
  then show "io_deltaI x = 0" "io_severityBudget x = 0" "io_contributionMR x = 0" by (simp_all add: impact_amounts [OF assms refl])
next
  assume "set (ii_changeKinds i) \<subseteq> {comment_whitespace}"
  then show "io_deltaI x = 0" "io_severityBudget x = 0"
    using cosmetic_push [OF _ refl] by (simp_all add: impact_amounts [OF assms refl])
qed

text \<open>A file with importers of which only a comment changed, without an old entry.\<close>

definition sample_impact :: ImpactInput where
  "sample_impact = \<lparr>ii_ast = sample_file ''/r/a.go'' [], ii_inDegrees = [(''/r/a.go'', 3)],
     ii_reverseEdges = [(''/r/a.go'', [''/r/b.go''])], ii_nFiles = 3, ii_changeKinds = [comment_whitespace], ii_pathClasses = [],
     ii_oldEntry = None, ii_semanticBefore = None, ii_semanticBeforeState = None, ii_p95 = None, ii_weights = DEFAULT_CRL_STATE_WEIGHTS,
     ii_fileKindRules = []\<rparr>"

theorem file_impact_bounds_witness:
  "io_deltaI (computeFileImpact (\<lambda>_. ''h'') (\<lambda>_ _. False) (\<lambda>p. p) ''/r'' ''/r'' sample_impact) = 0"
  using file_impact_bounds [OF refl, of "\<lambda>_. ''h''" "\<lambda>_ _. False" "\<lambda>p. p" "''/r''" "''/r''" sample_impact]
  by (simp add: sample_impact_def)

end
