(* ===== verification/Diff.thy ===== *)
theory Diff
  imports Diff_Impact
begin

text \<open>
  The impact of a change (\<open>application/diff.ts\<close>), behind its write lock: the changed files are parsed, measured in the graph
  around them, summed, and kept as a sealed history entry or as a replaceable pending candidate. What the storage, the
  project configuration and Git answer are arguments; \<open>crlOf\<close> is the replay of the history, \<open>hash\<close> the digest of a value
  written as JSON, \<open>sha\<close> that of a text. The drill-down evidence of symbol providers is left out.
\<close>

section \<open>Records\<close>

record SemanticEvidence =
  ev_file :: string
  ev_anchor :: string
  ev_changeKind :: ChangeKind
  ev_sha256 :: string

record FileRefDelta =
  rf_file :: string
  rf_alphaStruct :: real
  rf_deltaI :: real

record DiffScale =
  sl_severityBudget :: real
  sl_intensity :: real

record StoredHistoryEntry =
  he_at :: string
  he_entryId :: string
  he_refs :: "FileRefDelta list"
  he_diagnosis :: "MRDiagnosis list option"
  he_evidence :: "SemanticEvidence list"
  he_scale :: "DiffScale option"

record PendingCandidate =
  pc_entry :: StoredHistoryEntry
  pc_revisionKey :: string
  pc_baselineSnapshotSha256 :: string
  pc_overlayMetrics :: "ScanEntry list"
  pc_baseMetrics :: "(string \<times> ScanEntry option) list"

record DiffStore =
  ds_history :: "(string, StoredHistoryEntry) jmap"
  ds_pending :: "PendingCandidate option"

record DiffIndex =
  dx_snapshotSha256 :: "string option"
  dx_scopeFingerprint :: "string option"
  dx_nFiles :: nat
  dx_nProductionFiles :: "nat option"
  dx_p95 :: "P95Values option"
  dx_policyCalibrations :: "(string, StructuralCalibrationState) jmap option"

record DiffConfig =
  dc_pathClasses :: "PathClass list"
  dc_structuralPolicies :: "StructuralPolicy list"
  dc_crlStateWeights :: CRLStateWeights
  dc_fileKindRules :: "FileKindRule list"

record DiffInput =
  di_changedFiles :: "string list"
  di_changeKind :: "ChangeKind option"
  di_semanticProfiles :: "SemanticFileProfile list option"
  di_afterTexts :: "(string, string) jmap option"
  di_pending :: bool
  di_revisionKey :: "string option"
  di_implicitDeps :: "ImplicitEdge list option"

text \<open>What the world answers: the disk, the parser, the baseline, Git and the clock.\<close>

record DiffWorld =
  dw_file :: "string \<Rightarrow> string option"
  dw_parse :: "string \<Rightarrow> string + FileAst"
  dw_parseText :: "string \<Rightarrow> string \<Rightarrow> string + FileAst"
  dw_index :: "DiffIndex option"
  dw_entry :: "string \<Rightarrow> ScanEntry option"
  dw_metrics :: "(string \<times> ScanEntry) list"
  dw_gitHead :: "string option"
  dw_gitBefore :: "string \<Rightarrow> SemanticBeforeMetrics option"
  dw_impactFacts :: "HistoryImpactFact list"
  dw_now :: string

record DiffSummary =
  dm_iPush :: real
  dm_dMR :: real
  dm_deltas :: "FileRefDelta list"
  dm_historyEntryId :: string
  dm_sealed :: bool
  dm_severityBudget :: "real option"
  dm_intensity :: "real option"
  dm_impactScale :: "ImpactScale option"

record DiffReport =
  dr_summary :: DiffSummary
  dr_mrDetail :: "MRDiagnosis list"
  dr_crl :: "(string, jsnum) jmap"

section \<open>Identity of a change\<close>

primrec changeKindName :: "ChangeKind \<Rightarrow> string" where
  "changeKindName interface_add_remove = ''interface_add_remove''"
| "changeKindName class_add_remove = ''class_add_remove''"
| "changeKindName public_method_sig = ''public_method_sig''"
| "changeKindName function_sig = ''function_sig''"
| "changeKindName field_add_remove = ''field_add_remove''"
| "changeKindName compatible_field_add = ''compatible_field_add''"
| "changeKindName function_body = ''function_body''"
| "changeKindName branch_add = ''branch_add''"
| "changeKindName dependency_remove = ''dependency_remove''"
| "changeKindName dependency_add = ''dependency_add''"
| "changeKindName comment_whitespace = ''comment_whitespace''"

definition evidence_key :: "SemanticEvidence \<Rightarrow> string" where
  "evidence_key e = ev_file e @ '':'' @ ev_anchor e @ '':'' @ changeKindName (ev_changeKind e)"

definition evidence_doc :: "SemanticEvidence \<Rightarrow> json" where
  "evidence_doc e = JObj [(''file'', JStr (ev_file e)), (''anchor'', JStr (ev_anchor e)),
     (''changeKind'', JStr (changeKindName (ev_changeKind e))), (''sha256'', JStr (ev_sha256 e))]"

definition historyEntryId :: "(json \<Rightarrow> string) \<Rightarrow> string cmp \<Rightarrow> string \<Rightarrow> string \<Rightarrow> SemanticEvidence list \<Rightarrow> string" where
  "historyEntryId hash lc baselineIdentity revisionKey evidence =
     ''diff-v3-'' @ take 24 (hash (JObj [(''version'', jnum 3), (''baselineIdentity'', JStr baselineIdentity),
       (''revisionKey'', JStr revisionKey), (''evidence'', JArr (map evidence_doc (js_sort (on_key lc evidence_key) evidence)))]))"

section \<open>The stages\<close>

definition profiles_by_file :: "DiffInput \<Rightarrow> (string, SemanticFileProfile) jmap" where
  "profiles_by_file input = fromEntries (map (\<lambda>p. (toPosixPath (pf_file p), p)) (or_default (di_semanticProfiles input) []))"

definition after_text :: "DiffInput \<Rightarrow> string \<Rightarrow> string \<Rightarrow> string option" where
  "after_text input base p = Option.bind (di_afterTexts input) (\<lambda>m. map_get m (relativePath base p))"

definition parse_target :: "DiffWorld \<Rightarrow> DiffInput \<Rightarrow> string \<Rightarrow> string \<Rightarrow> bool" where
  "parse_target w input base p =
     (after_text input base p \<noteq> None \<or> dw_file w p \<noteq> None
        \<or> \<not> (case map_get (profiles_by_file input) (toPosixPath (relativePath base p)) of None \<Rightarrow> False | Some f \<Rightarrow> pf_deleted f))"

definition parse_changed :: "DiffWorld \<Rightarrow> DiffInput \<Rightarrow> string \<Rightarrow> string + FileAst list" where
  "parse_changed w input base =
     map_result (\<lambda>p. case after_text input base p of None \<Rightarrow> dw_parse w p | Some t \<Rightarrow> dw_parseText w p t)
       (filter (parse_target w input base) (di_changedFiles input))"

definition changesFor :: "DiffInput \<Rightarrow> string \<Rightarrow> string \<Rightarrow> SemanticChange list" where
  "changesFor input base p =
     (case map_get (profiles_by_file input) (relativePath base p) of
        Some profile \<Rightarrow> pf_changes profile
      | None \<Rightarrow> (case di_changeKind input of None \<Rightarrow> [] | Some k \<Rightarrow> [\<lparr>sc_anchor = ''manual:file'', sc_kind = k\<rparr>]))"

definition nonzero_or :: "nat \<Rightarrow> nat \<Rightarrow> nat" where
  "nonzero_or a b = (if a \<noteq> 0 then a else b)"

definition population_size :: "DiffWorld \<Rightarrow> DiffInput \<Rightarrow> FileAst list \<Rightarrow> nat" where
  "population_size w input asts =
     nonzero_or (case dw_index w of None \<Rightarrow> length asts | Some i \<Rightarrow> or_default (dx_nProductionFiles i) (dx_nFiles i))
       (nonzero_or (length (di_changedFiles input)) 1)"

definition truthy_text :: "string option \<Rightarrow> string option" where
  "truthy_text t = (if t = Some [] then None else t)"

definition collect_evidence :: "(string \<Rightarrow> string) \<Rightarrow> DiffWorld \<Rightarrow> DiffInput \<Rightarrow> string \<Rightarrow> FileAst list \<Rightarrow> SemanticEvidence list" where
  "collect_evidence sha w input base asts =
     concat (map (\<lambda>ast.
       case or_option (after_text input base (fa_path ast)) (dw_file w (fa_path ast)) of
         None \<Rightarrow> []
       | Some t \<Rightarrow> map (\<lambda>c. \<lparr>ev_file = relativePath base (fa_path ast), ev_anchor = sc_anchor c, ev_changeKind = sc_kind c, ev_sha256 = sha t\<rparr>)
           (changesFor input base (fa_path ast))) asts)"

definition resolveSemanticBefore ::
  "DiffWorld \<Rightarrow> SemanticFileProfile option \<Rightarrow> string \<Rightarrow> SemanticBeforeMetrics option \<times> SemanticBeforeState option" where
  "resolveSemanticBefore w profile p =
     (let metrics = Option.bind profile pf_beforeMetrics; state = map_option pf_beforeState profile
      in if dw_index w = None \<and> metrics = None
         then (case dw_gitBefore w p of Some m \<Rightarrow> (Some m, Some before_git) | None \<Rightarrow> (metrics, state))
         else (metrics, state))"

text \<open>The base entries that a pending candidate of the same revision keeps.\<close>

definition pending_base :: "DiffStore \<Rightarrow> DiffInput \<Rightarrow> string \<Rightarrow> (string, ScanEntry option) jmap" where
  "pending_base s input revisionKey =
     (case ds_pending s of
        Some p \<Rightarrow> if di_pending input \<and> pc_revisionKey p = revisionKey then fromEntries (pc_baseMetrics p) else []
      | None \<Rightarrow> [])"

definition base_entry :: "DiffWorld \<Rightarrow> (string, ScanEntry option) jmap \<Rightarrow> string \<Rightarrow> FileAst \<Rightarrow> ScanEntry option" where
  "base_entry w kept base ast =
     (case map_get kept (relativePath base (fa_path ast)) of Some e \<Rightarrow> e | None \<Rightarrow> dw_entry w (fa_path ast))"

definition impact_input ::
  "(string \<Rightarrow> string \<Rightarrow> bool) \<Rightarrow> DiffWorld \<Rightarrow> DiffConfig \<Rightarrow> DiffInput \<Rightarrow> string \<Rightarrow> RebuiltGraph \<Rightarrow> nat \<Rightarrow> (string, ScanEntry option) jmap
     \<Rightarrow> FileAst \<Rightarrow> ImpactInput" where
  "impact_input mm w config input base rb nFiles kept ast =
     (let relPath = relativePath base (fa_path ast);
          calibration = calibrationForSubject mm (Some \<lparr>sub_path = relPath, sub_language = languageId (fa_language ast)\<rparr>)
            (dc_structuralPolicies config) (Option.bind (dw_index w) dx_policyCalibrations) (Option.bind (dw_index w) dx_p95) (dc_crlStateWeights config);
          before = resolveSemanticBefore w (map_get (profiles_by_file input) relPath) (fa_path ast)
      in \<lparr>ii_ast = ast, ii_inDegrees = rg_inDegrees rb, ii_reverseEdges = rg_reverseEdges rb, ii_nFiles = nFiles,
          ii_changeKinds = map sc_kind (changesFor input base (fa_path ast)), ii_pathClasses = dc_pathClasses config,
          ii_oldEntry = base_entry w kept base ast, ii_semanticBefore = fst before, ii_semanticBeforeState = snd before,
          ii_p95 = fst calibration, ii_weights = snd calibration, ii_fileKindRules = dc_fileKindRules config\<rparr>)"

definition total_of :: "('a \<Rightarrow> real) \<Rightarrow> 'a list \<Rightarrow> real" where
  "total_of f xs = foldl (\<lambda>s x. s + f x) 0 xs"

definition refs_of :: "ImpactOutput list \<Rightarrow> FileRefDelta list" where
  "refs_of impacts =
     map (\<lambda>i. \<lparr>rf_file = io_relPath i, rf_alphaStruct = io_alphaStruct i, rf_deltaI = io_deltaI i\<rparr>) (filter (\<lambda>i. io_deltaI i \<noteq> 0) impacts)"

definition diagnoses_of :: "ImpactOutput list \<Rightarrow> MRDiagnosis list" where
  "diagnoses_of impacts =
     map io_mrDetail (filter (\<lambda>i. participatesInPopulation (ix_fileKind (io_writeEntry i)) pop_production) impacts)"

text \<open>The answer for a change that is sealed already.\<close>

definition sealed_replay :: "DiffWorld \<Rightarrow> ((string, StoredHistoryEntry) jmap \<Rightarrow> (string, jsnum) jmap) \<Rightarrow> DiffStore \<Rightarrow> string \<Rightarrow> StoredHistoryEntry \<Rightarrow> DiffReport" where
  "sealed_replay w crlOf s entryId existing =
     (let mrDetail = or_default (he_diagnosis existing) []; iPush = total_of rf_deltaI (he_refs existing)
      in \<lparr>dr_summary = \<lparr>dm_iPush = iPush, dm_dMR = total_of (\<lambda>d. mb_deterioration (mr_localBurden d)) mrDetail,
            dm_deltas = he_refs existing, dm_historyEntryId = entryId, dm_sealed = True,
            dm_severityBudget = map_option sl_severityBudget (he_scale existing), dm_intensity = map_option sl_intensity (he_scale existing),
            dm_impactScale = impactScaleOf iPush (length (filter (\<lambda>d. rf_deltaI d \<noteq> 0) (he_refs existing))) (dw_impactFacts w)\<rparr>,
          dr_mrDetail = mrDetail, dr_crl = crlOf (ds_history s)\<rparr>)"

section \<open>The diff\<close>

definition fresh_diff ::
  "(json \<Rightarrow> string) \<Rightarrow> (string \<Rightarrow> string \<Rightarrow> bool) \<Rightarrow> (string \<Rightarrow> string) \<Rightarrow> string \<Rightarrow> string
     \<Rightarrow> ((string, StoredHistoryEntry) jmap \<Rightarrow> (string, jsnum) jmap) \<Rightarrow> DiffWorld \<Rightarrow> DiffConfig \<Rightarrow> DiffInput \<Rightarrow> DiffStore
     \<Rightarrow> string \<Rightarrow> string \<Rightarrow> SemanticEvidence list \<Rightarrow> string \<Rightarrow> FileAst list \<Rightarrow> DiffReport \<times> DiffStore" where
  "fresh_diff hash mm absolute cwd base crlOf w config input s entryId revisionKey evidence snapshotSha256 asts =
     (let kept = pending_base s input revisionKey;
          rb = rebuildGraph absolute (\<lambda>p. classifyFileKindWithPolicy mm cwd p (dc_fileKindRules config) (Some base)) asts (dw_metrics w) (di_implicitDeps input);
          impacts = map (\<lambda>ast. computeFileImpact hash mm absolute cwd base
            (impact_input mm w config input base rb (population_size w input asts) kept ast)) asts;
          iPush = total_of io_deltaI impacts;
          severityBudget = total_of io_severityBudget impacts;
          intensity = impactIntensityOf iPush severityBudget;
          deltas = refs_of impacts;
          mrDetail = diagnoses_of impacts;
          entry = \<lparr>he_at = dw_now w, he_entryId = entryId, he_refs = deltas, he_diagnosis = Some mrDetail, he_evidence = evidence,
            he_scale = Some \<lparr>sl_severityBudget = severityBudget, sl_intensity = intensity\<rparr>\<rparr>;
          s' = (if di_pending input
            then s\<lparr>ds_pending := Some \<lparr>pc_entry = entry, pc_revisionKey = revisionKey, pc_baselineSnapshotSha256 = snapshotSha256,
              pc_overlayMetrics = map io_writeEntry impacts,
              pc_baseMetrics = map (\<lambda>i. (io_relPath i, case map_get kept (io_relPath i) of Some e \<Rightarrow> e | None \<Rightarrow> io_oldEntry i)) impacts\<rparr>\<rparr>
            else if map_has (ds_history s) entryId then s
            else s\<lparr>ds_history := map_set (ds_history s) entryId entry\<rparr>)
      in (\<lparr>dr_summary = \<lparr>dm_iPush = iPush, dm_dMR = total_of io_contributionMR impacts, dm_deltas = deltas, dm_historyEntryId = entryId,
            dm_sealed = (\<not> di_pending input), dm_severityBudget = Some severityBudget, dm_intensity = Some intensity,
            dm_impactScale = impactScaleOf iPush (length deltas) (dw_impactFacts w)\<rparr>,
          dr_mrDetail = mrDetail, dr_crl = crlOf (ds_history s')\<rparr>, s'))"

definition diff ::
  "(json \<Rightarrow> string) \<Rightarrow> (string \<Rightarrow> string) \<Rightarrow> string cmp \<Rightarrow> (string \<Rightarrow> string \<Rightarrow> bool) \<Rightarrow> (string \<Rightarrow> string) \<Rightarrow> string \<Rightarrow> string
     \<Rightarrow> ((string, StoredHistoryEntry) jmap \<Rightarrow> (string, jsnum) jmap) \<Rightarrow> DiffWorld \<Rightarrow> DiffConfig \<Rightarrow> DiffInput \<Rightarrow> DiffStore
     \<Rightarrow> string + DiffReport \<times> DiffStore" where
  "diff hash sha lc mm absolute cwd base crlOf w config input s =
     bind_result (parse_changed w input base)
       (\<lambda>asts.
          if list_ex (\<lambda>a. changesFor input base (fa_path a) = []) asts
          then Inl ''semantic diff requires a profile or explicit change kind for every file''
          else (case truthy_text (or_option (Option.bind (dw_index w) dx_snapshotSha256) (dw_gitHead w)) of
             None \<Rightarrow> Inl ''baseline lacks snapshotSha256 and git HEAD is unavailable; run openarch scan before diff''
           | Some snapshotSha256 \<Rightarrow>
               let evidence = collect_evidence sha w input base asts;
                   baselineIdentity = snapshotSha256 @ '':'' @ or_default (Option.bind (dw_index w) dx_scopeFingerprint) ''git-cold-start'';
                   revisionKey = or_default (di_revisionKey input) ''legacy'';
                   entryId = historyEntryId hash lc baselineIdentity revisionKey evidence
               in (case (if di_pending input then None else map_get (ds_history s) entryId) of
                     Some existing \<Rightarrow> Inr (sealed_replay w crlOf s entryId existing, s)
                   | None \<Rightarrow> Inr (fresh_diff hash mm absolute cwd base crlOf w config input s entryId revisionKey evidence snapshotSha256 asts))))"

section \<open>Sums\<close>

lemma total_of_sum: "total_of f xs = sum_list (map f xs)"
  using foldl_plus_sum_list [of f 0 xs] by (simp add: total_of_def)

lemma total_of_refs: "total_of rf_deltaI (refs_of impacts) = total_of io_deltaI impacts"
  by (induction impacts) (simp_all add: total_of_sum refs_of_def)

lemma total_of_diagnoses:
  assumes "\<And>x. x \<in> set impacts \<Longrightarrow> io_contributionMR x = (if counts_as_production x then mb_deterioration (mr_localBurden (io_mrDetail x)) else 0)"
  shows "total_of (\<lambda>d. mb_deterioration (mr_localBurden d)) (diagnoses_of impacts) = total_of io_contributionMR impacts"
  using assms by (induction impacts) (simp_all add: total_of_sum diagnoses_of_def counts_as_production_def)

lemma refs_of_nonzero: "filter (\<lambda>d. rf_deltaI d \<noteq> 0) (refs_of impacts) = refs_of impacts"
  by (auto simp: refs_of_def filter_map o_def)

section \<open>The stages of a diff\<close>

definition input_ready :: "DiffInput \<Rightarrow> string \<Rightarrow> FileAst list \<Rightarrow> bool" where
  "input_ready input base asts = (\<not> list_ex (\<lambda>a. changesFor input base (fa_path a) = []) asts)"

definition base_snapshot :: "DiffWorld \<Rightarrow> string option" where
  "base_snapshot w = truthy_text (or_option (Option.bind (dw_index w) dx_snapshotSha256) (dw_gitHead w))"

definition diff_entry_id :: "(json \<Rightarrow> string) \<Rightarrow> (string \<Rightarrow> string) \<Rightarrow> string cmp \<Rightarrow> DiffWorld \<Rightarrow> DiffInput \<Rightarrow> string \<Rightarrow> string \<Rightarrow> FileAst list \<Rightarrow> string" where
  "diff_entry_id hash sha lc w input base snapshotSha256 asts =
     historyEntryId hash lc (snapshotSha256 @ '':'' @ or_default (Option.bind (dw_index w) dx_scopeFingerprint) ''git-cold-start'')
       (or_default (di_revisionKey input) ''legacy'') (collect_evidence sha w input base asts)"

lemma diff_Inr:
  "diff hash sha lc mm absolute cwd base crlOf w config input s = Inr result \<longleftrightarrow>
     (\<exists>asts snapshot. parse_changed w input base = Inr asts \<and> input_ready input base asts \<and> base_snapshot w = Some snapshot
        \<and> result = (let entryId = diff_entry_id hash sha lc w input base snapshot asts
             in case (if di_pending input then None else map_get (ds_history s) entryId) of
                  Some existing \<Rightarrow> (sealed_replay w crlOf s entryId existing, s)
                | None \<Rightarrow> fresh_diff hash mm absolute cwd base crlOf w config input s entryId
                    (or_default (di_revisionKey input) ''legacy'') (collect_evidence sha w input base asts) snapshot asts))"
proof (cases "base_snapshot w")
  case None
  then show ?thesis by (auto simp: diff_def base_snapshot_def)
next
  case (Some x)
  then show ?thesis
    by (auto simp: diff_def input_ready_def base_snapshot_def diff_entry_id_def Let_def split: option.splits)
qed

section \<open>A sealed change\<close>

text \<open>What a sealed entry and the answer that sealed it agree on.\<close>

definition sealed_as :: "StoredHistoryEntry \<Rightarrow> DiffReport \<Rightarrow> bool" where
  "sealed_as e r =
     (dm_iPush (dr_summary r) = total_of rf_deltaI (he_refs e)
      \<and> dm_dMR (dr_summary r) = total_of (\<lambda>d. mb_deterioration (mr_localBurden d)) (or_default (he_diagnosis e) [])
      \<and> dm_deltas (dr_summary r) = he_refs e \<and> dm_sealed (dr_summary r)
      \<and> dm_severityBudget (dr_summary r) = map_option sl_severityBudget (he_scale e)
      \<and> dm_intensity (dr_summary r) = map_option sl_intensity (he_scale e)
      \<and> dr_mrDetail r = or_default (he_diagnosis e) [])"

lemma sealed_replay_as: "sealed_as e (sealed_replay w crlOf s k e)"
  by (simp add: sealed_as_def sealed_replay_def Let_def)

lemma fresh_seals:
  assumes "(r, s') = fresh_diff hash mm absolute cwd base crlOf w config input s k rk evidence snapshot asts"
    and "\<not> di_pending input" "map_get (ds_history s) k = None"
  shows "\<exists>e. map_get (ds_history s') k = Some e \<and> sealed_as e r \<and> dm_historyEntryId (dr_summary r) = k \<and> dr_crl r = crlOf (ds_history s')
    \<and> ds_history s' = map_set (ds_history s) k e \<and> ds_pending s' = ds_pending s"
proof -
  define impacts where "impacts = map (\<lambda>ast. computeFileImpact hash mm absolute cwd base
      (impact_input mm w config input base
        (rebuildGraph absolute (\<lambda>p. classifyFileKindWithPolicy mm cwd p (dc_fileKindRules config) (Some base)) asts (dw_metrics w) (di_implicitDeps input))
        (population_size w input asts) (pending_base s input rk) ast)) asts"
  have share: "io_contributionMR x = (if counts_as_production x then mb_deterioration (mr_localBurden (io_mrDetail x)) else 0)"
    if "x \<in> set impacts" for x using that impact_amounts(3) [OF refl refl] by (auto simp: impacts_def)
  have new: "\<not> map_has (ds_history s) k" using assms(3) by (simp add: map_of_eq_None_iff)
  define e where "e = \<lparr>he_at = dw_now w, he_entryId = k, he_refs = refs_of impacts, he_diagnosis = Some (diagnoses_of impacts), he_evidence = evidence,
      he_scale = Some \<lparr>sl_severityBudget = total_of io_severityBudget impacts,
        sl_intensity = impactIntensityOf (total_of io_deltaI impacts) (total_of io_severityBudget impacts)\<rparr>\<rparr>"
  have r: "dr_summary r = \<lparr>dm_iPush = total_of io_deltaI impacts, dm_dMR = total_of io_contributionMR impacts, dm_deltas = refs_of impacts,
        dm_historyEntryId = k, dm_sealed = True, dm_severityBudget = Some (total_of io_severityBudget impacts),
        dm_intensity = Some (impactIntensityOf (total_of io_deltaI impacts) (total_of io_severityBudget impacts)),
        dm_impactScale = impactScaleOf (total_of io_deltaI impacts) (length (refs_of impacts)) (dw_impactFacts w)\<rparr>"
      "dr_mrDetail r = diagnoses_of impacts" "dr_crl r = crlOf (ds_history s')"
    and s': "s' = s\<lparr>ds_history := map_set (ds_history s) k e\<rparr>"
    using assms(1,2) new by (simp_all add: fresh_diff_def Let_def impacts_def e_def del: map_has_iff)
  have "sealed_as e r"
    by (simp add: sealed_as_def r e_def total_of_refs total_of_diagnoses [OF share])
  then show ?thesis by (intro exI [where x = e]) (simp add: r s')
qed

lemma sealed_entry_stays:
  assumes "diff hash sha lc mm absolute cwd base crlOf w config input s = Inr (r, s')" "\<not> di_pending input"
  obtains e asts snapshot where "parse_changed w input base = Inr asts" "input_ready input base asts" "base_snapshot w = Some snapshot"
    and "dm_historyEntryId (dr_summary r) = diff_entry_id hash sha lc w input base snapshot asts"
    and "map_get (ds_history s') (dm_historyEntryId (dr_summary r)) = Some e" "sealed_as e r" "dr_crl r = crlOf (ds_history s')"
proof -
  obtain asts snapshot where a: "parse_changed w input base = Inr asts" "input_ready input base asts" "base_snapshot w = Some snapshot"
    and res: "(r, s') = (let entryId = diff_entry_id hash sha lc w input base snapshot asts
             in case map_get (ds_history s) entryId of
                  Some existing \<Rightarrow> (sealed_replay w crlOf s entryId existing, s)
                | None \<Rightarrow> fresh_diff hash mm absolute cwd base crlOf w config input s entryId
                    (or_default (di_revisionKey input) ''legacy'') (collect_evidence sha w input base asts) snapshot asts)"
    using assms by (auto simp: diff_Inr)
  let ?k = "diff_entry_id hash sha lc w input base snapshot asts"
  show thesis
  proof (cases "map_get (ds_history s) ?k")
    case (Some e)
    then have "r = sealed_replay w crlOf s ?k e" "s' = s" using res by (simp_all add: Let_def)
    with Some a show thesis
      by (intro that [of asts snapshot e] a) (simp_all add: sealed_replay_as, simp_all add: sealed_replay_def Let_def)
  next
    case None
    then have "(r, s') = fresh_diff hash mm absolute cwd base crlOf w config input s ?k
        (or_default (di_revisionKey input) ''legacy'') (collect_evidence sha w input base asts) snapshot asts"
      using res by (simp add: Let_def)
    from fresh_seals [OF this assms(2) None] obtain e where
      "map_get (ds_history s') ?k = Some e" "sealed_as e r" "dm_historyEntryId (dr_summary r) = ?k" "dr_crl r = crlOf (ds_history s')"
      by blast
    with a show thesis by (intro that [of asts snapshot e] a) simp_all
  qed
qed

section \<open>The order of the changed files\<close>

lemma map_result_perm:
  assumes "map_result f xs = Inr ys" "mset xs' = mset xs"
  obtains ys' where "map_result f xs' = Inr ys'" "mset ys' = mset ys"
proof -
  have all: "\<exists>y. f x = Inr y" if "x \<in> set xs" for x
    using assms(1) that unfolding map_result_Inr by (metis image_eqI image_iff list.set_map)
  have ys: "ys = map (projr \<circ> f) xs" using assms(1) unfolding map_result_Inr by (metis list.map_comp map_idI sum.sel(2) o_apply)
  have "set xs' = set xs" using assms(2) by (metis set_mset_mset)
  then have "map f xs' = map Inr (map (projr \<circ> f) xs')" using all by fastforce
  then show thesis using assms(2) by (intro that [of "map (projr \<circ> f) xs'"]) (simp_all add: map_result_Inr ys)
qed

lemma mset_concat_map: "mset xs = mset ys \<Longrightarrow> mset (concat (map f xs)) = mset (concat (map f ys))"
  by (metis mset_concat mset_map image_mset_cong sum_mset_sum_list map_map)

definition reordered :: "string list \<Rightarrow> DiffInput \<Rightarrow> DiffInput" where
  "reordered files input = input\<lparr>di_changedFiles := files\<rparr>"

definition later_world :: "(string \<Rightarrow> ScanEntry option) \<Rightarrow> (string \<times> ScanEntry) list \<Rightarrow> (string \<Rightarrow> SemanticBeforeMetrics option)
    \<Rightarrow> HistoryImpactFact list \<Rightarrow> string \<Rightarrow> DiffWorld \<Rightarrow> DiffWorld" where
  "later_world entry metrics before facts now w =
     w\<lparr>dw_entry := entry, dw_metrics := metrics, dw_gitBefore := before, dw_impactFacts := facts, dw_now := now\<rparr>"

lemma reordered_fields [simp]:
  "di_semanticProfiles (reordered files input) = di_semanticProfiles input" "di_changeKind (reordered files input) = di_changeKind input"
  "di_afterTexts (reordered files input) = di_afterTexts input" "di_pending (reordered files input) = di_pending input"
  "di_revisionKey (reordered files input) = di_revisionKey input" "di_changedFiles (reordered files input) = files"
  by (simp_all add: reordered_def)

lemma later_world_fields [simp]:
  "dw_file (later_world en ms bf facts now w) = dw_file w" "dw_parse (later_world en ms bf facts now w) = dw_parse w"
  "dw_parseText (later_world en ms bf facts now w) = dw_parseText w" "dw_index (later_world en ms bf facts now w) = dw_index w"
  "dw_gitHead (later_world en ms bf facts now w) = dw_gitHead w" "dw_impactFacts (later_world en ms bf facts now w) = facts"
  by (simp_all add: later_world_def)

lemma later_reads:
  "changesFor (reordered files input) = changesFor input"
  "after_text (reordered files input) = after_text input"
  "parse_target (later_world en ms bf facts now w) (reordered files input) = parse_target w input"
  "collect_evidence sha (later_world en ms bf facts now w) (reordered files input) = collect_evidence sha w input"
  "base_snapshot (later_world en ms bf facts now w) = base_snapshot w"
proof -
  have p: "profiles_by_file (reordered files input) = profiles_by_file input" by (simp add: profiles_by_file_def)
  show c: "changesFor (reordered files input) = changesFor input" by (intro ext) (simp add: changesFor_def p cong: option.case_cong)
  show t: "after_text (reordered files input) = after_text input" by (intro ext) (simp add: after_text_def)
  show "parse_target (later_world en ms bf facts now w) (reordered files input) = parse_target w input"
    by (intro ext) (simp add: parse_target_def p t cong: option.case_cong)
  show "collect_evidence sha (later_world en ms bf facts now w) (reordered files input) = collect_evidence sha w input"
    by (intro ext) (simp add: collect_evidence_def c t cong: option.case_cong)
qed (simp add: base_snapshot_def)

lemma parse_reordered:
  assumes "parse_changed w input base = Inr asts" "mset files = mset (di_changedFiles input)"
  obtains asts' where "parse_changed (later_world en ms bf facts now w) (reordered files input) base = Inr asts'" "mset asts' = mset asts"
proof -
  let ?read = "\<lambda>p. case after_text input base p of None \<Rightarrow> dw_parse w p | Some t \<Rightarrow> dw_parseText w p t"
  have "mset (filter (parse_target w input base) files) = mset (filter (parse_target w input base) (di_changedFiles input))"
    using assms(2) by (simp add: mset_filter)
  from map_result_perm [OF assms(1) [unfolded parse_changed_def] this]
  obtain asts' where "map_result ?read (filter (parse_target w input base) files) = Inr asts'" "mset asts' = mset asts" by blast
  then show thesis by (intro that [of asts']) (simp_all add: parse_changed_def later_reads cong: option.case_cong)
qed

lemma entry_id_reordered:
  assumes "comparator lc" "mset asts' = mset asts"
    and "\<forall>e \<in> set (collect_evidence sha w input base asts). \<forall>f \<in> set (collect_evidence sha w input base asts).
      lc (evidence_key e) (evidence_key f) = 0 \<longrightarrow> e = f"
  shows "diff_entry_id hash sha lc (later_world en ms bf facts now w) (reordered files input) base snapshot asts'
    = diff_entry_id hash sha lc w input base snapshot asts"
proof -
  have "mset (collect_evidence sha w input base asts) = mset (collect_evidence sha w input base asts')"
    unfolding collect_evidence_def by (rule mset_concat_map) (simp add: assms(2))
  then have "js_sort (on_key lc evidence_key) (collect_evidence sha w input base asts)
      = js_sort (on_key lc evidence_key) (collect_evidence sha w input base asts')"
    using assms(3) by (intro comparator.js_sort_mset_cong comparator_on_key assms(1)) (simp_all add: on_key_def)
  then show ?thesis by (simp add: diff_entry_id_def historyEntryId_def later_reads)
qed

lemma sealed_replays:
  assumes lc: "comparator lc"
    and run: "diff hash sha lc mm absolute cwd base crlOf w config input s = Inr (r, s')" "\<not> di_pending input"
    and files: "mset files = mset (di_changedFiles input)"
    and keys: "\<forall>asts. parse_changed w input base = Inr asts \<longrightarrow>
      (\<forall>e \<in> set (collect_evidence sha w input base asts). \<forall>f \<in> set (collect_evidence sha w input base asts).
        lc (evidence_key e) (evidence_key f) = 0 \<longrightarrow> e = f)"
  obtains r' e where "diff hash sha lc mm absolute cwd base crlOf (later_world en ms bf facts now w) config' (reordered files input) s' = Inr (r', s')"
    and "dm_historyEntryId (dr_summary r') = dm_historyEntryId (dr_summary r)" "dr_crl r' = dr_crl r" "sealed_as e r" "sealed_as e r'"
    and "dm_impactScale (dr_summary r') = impactScaleOf (dm_iPush (dr_summary r)) (length (filter (\<lambda>d. rf_deltaI d \<noteq> 0) (dm_deltas (dr_summary r)))) facts"
proof -
  from sealed_entry_stays [OF run] obtain e asts snapshot where
    a: "parse_changed w input base = Inr asts" "input_ready input base asts" "base_snapshot w = Some snapshot"
    and k: "dm_historyEntryId (dr_summary r) = diff_entry_id hash sha lc w input base snapshot asts"
    and e: "map_get (ds_history s') (dm_historyEntryId (dr_summary r)) = Some e" "sealed_as e r" "dr_crl r = crlOf (ds_history s')" .
  from parse_reordered [OF a(1) files] obtain asts' where
    a': "parse_changed (later_world en ms bf facts now w) (reordered files input) base = Inr asts'" "mset asts' = mset asts" .
  have "set asts' = set asts" using a'(2) by (metis set_mset_mset)
  then have ready: "input_ready (reordered files input) base asts'" using a(2) by (simp add: input_ready_def later_reads list_ex_iff)
  have id: "diff_entry_id hash sha lc (later_world en ms bf facts now w) (reordered files input) base snapshot asts' = dm_historyEntryId (dr_summary r)"
    using entry_id_reordered [OF lc a'(2)] keys a(1) by (simp add: k)
  let ?r = "sealed_replay (later_world en ms bf facts now w) crlOf s' (dm_historyEntryId (dr_summary r)) e"
  have "diff hash sha lc mm absolute cwd base crlOf (later_world en ms bf facts now w) config' (reordered files input) s' = Inr (?r, s')"
    unfolding diff_Inr using a' ready a(3) run(2)
    by (intro exI [where x = asts'] exI [where x = snapshot]) (simp add: later_reads id e(1) Let_def)
  moreover have "dm_impactScale (dr_summary ?r)
      = impactScaleOf (dm_iPush (dr_summary r)) (length (filter (\<lambda>d. rf_deltaI d \<noteq> 0) (dm_deltas (dr_summary r)))) facts"
    using e(2) by (simp add: sealed_replay_def sealed_as_def Let_def later_world_def)
  ultimately show thesis
    using e(2,3) by (intro that [of ?r e] sealed_replay_as) (simp_all add: sealed_replay_def Let_def)
qed

text \<open>C10: A sealed change is answered from the history. Once a diff has been sealed, the same files with the same contents, asked
  again in any order, under any configuration, baseline entries and clock, give the same entry, impact, deterioration, deltas,
  budget, intensity and cumulative burdens, and write nothing; only the percentile is taken over the facts of the day.\<close>

theorem sealed_diff_replays:
  assumes "comparator lc"
    and "diff hash sha lc mm absolute cwd base crlOf w config input s = Inr (r, s')" "\<not> di_pending input"
    and "mset files = mset (di_changedFiles input)"
    and "\<forall>asts. parse_changed w input base = Inr asts \<longrightarrow>
      (\<forall>e \<in> set (collect_evidence sha w input base asts). \<forall>f \<in> set (collect_evidence sha w input base asts).
        lc (evidence_key e) (evidence_key f) = 0 \<longrightarrow> e = f)"
  shows "\<exists>r'. diff hash sha lc mm absolute cwd base crlOf (later_world en ms bf facts now w) config' (reordered files input) s' = Inr (r', s')
    \<and> dr_summary r' = (dr_summary r)\<lparr>dm_impactScale :=
        impactScaleOf (dm_iPush (dr_summary r)) (length (filter (\<lambda>d. rf_deltaI d \<noteq> 0) (dm_deltas (dr_summary r)))) facts\<rparr>
    \<and> dr_mrDetail r' = dr_mrDetail r \<and> dr_crl r' = dr_crl r"
  using assms by (rule sealed_replays [where en = en and ms = ms and bf = bf and facts = facts and now = now and config' = config'])
    (auto simp: sealed_as_def intro!: DiffSummary.equality)

section \<open>A pending change\<close>

definition pending_bases :: "DiffStore \<Rightarrow> (string, ScanEntry option) jmap" where
  "pending_bases s = (case ds_pending s of None \<Rightarrow> [] | Some p \<Rightarrow> fromEntries (pc_baseMetrics p))"

lemma fresh_pending:
  assumes "(r, s') = fresh_diff hash mm absolute cwd base crlOf w config input s k rk evidence snapshot asts" "di_pending input"
  shows "ds_history s' = ds_history s"
    and "\<exists>p. ds_pending s' = Some p \<and> pc_revisionKey p = rk
      \<and> map fst (pc_baseMetrics p) = map (\<lambda>a. relativePath base (absolute (fa_path a))) asts
      \<and> (\<forall>f e. map_get (pending_base s input rk) f = Some e \<longrightarrow> (\<forall>v. (f, v) \<in> set (pc_baseMetrics p) \<longrightarrow> v = e))
      \<and> \<not> dm_sealed (dr_summary r) \<and> dr_crl r = crlOf (ds_history s)"
proof -
  define impacts where "impacts = map (\<lambda>ast. computeFileImpact hash mm absolute cwd base
      (impact_input mm w config input base
        (rebuildGraph absolute (\<lambda>p. classifyFileKindWithPolicy mm cwd p (dc_fileKindRules config) (Some base)) asts (dw_metrics w) (di_implicitDeps input))
        (population_size w input asts) (pending_base s input rk) ast)) asts"
  define bases where "bases = map (\<lambda>i. (io_relPath i, case map_get (pending_base s input rk) (io_relPath i) of Some e \<Rightarrow> e | None \<Rightarrow> io_oldEntry i)) impacts"
  have paths: "map fst bases = map (\<lambda>a. relativePath base (absolute (fa_path a))) asts"
    by (simp add: bases_def impacts_def impact_fields o_def impact_input_def Let_def)
  have kept: "v = e" if "map_get (pending_base s input rk) f = Some e" "(f, v) \<in> set bases" for f e v
    using that by (auto simp: bases_def)
  obtain p where p: "ds_pending s' = Some p" "pc_revisionKey p = rk" "pc_baseMetrics p = bases"
    using assms by (simp add: fresh_diff_def Let_def impacts_def bases_def)
  show h: "ds_history s' = ds_history s" using assms by (simp add: fresh_diff_def Let_def)
  have "\<not> dm_sealed (dr_summary r)" "dr_crl r = crlOf (ds_history s)" using assms by (simp_all add: fresh_diff_def Let_def)
  with p paths kept show "\<exists>p. ds_pending s' = Some p \<and> pc_revisionKey p = rk
      \<and> map fst (pc_baseMetrics p) = map (\<lambda>a. relativePath base (absolute (fa_path a))) asts
      \<and> (\<forall>f e. map_get (pending_base s input rk) f = Some e \<longrightarrow> (\<forall>v. (f, v) \<in> set (pc_baseMetrics p) \<longrightarrow> v = e))
      \<and> \<not> dm_sealed (dr_summary r) \<and> dr_crl r = crlOf (ds_history s)"
    by (intro exI [where x = p]) simp
qed

lemma pending_run:
  assumes "diff hash sha lc mm absolute cwd base crlOf w config input s = Inr (r, s')" "di_pending input"
  obtains p asts where "parse_changed w input base = Inr asts" "ds_history s' = ds_history s" "ds_pending s' = Some p"
    and "pc_revisionKey p = or_default (di_revisionKey input) ''legacy''"
    and "map fst (pc_baseMetrics p) = map (\<lambda>a. relativePath base (absolute (fa_path a))) asts"
    and "\<And>f e v. map_get (pending_base s input (or_default (di_revisionKey input) ''legacy'')) f = Some e \<Longrightarrow> (f, v) \<in> set (pc_baseMetrics p) \<Longrightarrow> v = e"
    and "\<not> dm_sealed (dr_summary r)" "dr_crl r = crlOf (ds_history s)"
proof -
  obtain asts snapshot where a: "parse_changed w input base = Inr asts"
    and "(r, s') = fresh_diff hash mm absolute cwd base crlOf w config input s (diff_entry_id hash sha lc w input base snapshot asts)
        (or_default (di_revisionKey input) ''legacy'') (collect_evidence sha w input base asts) snapshot asts"
    using assms by (auto simp: diff_Inr Let_def)
  from fresh_pending [OF this(2) assms(2)] a show thesis using that by blast
qed

lemma pending_bases_kept:
  assumes "diff hash sha lc mm absolute cwd base crlOf w config input s = Inr (r, s1)" "di_pending input"
    and "diff hash sha lc mm absolute cwd base crlOf w' config' input' s1 = Inr (r', s2)" "di_pending input'"
    and key: "di_revisionKey input' = di_revisionKey input"
    and f: "map_get (pending_bases s1) f = Some e" "map_has (pending_bases s2) f"
  shows "map_get (pending_bases s2) f = Some e"
proof -
  from pending_run [OF assms(1,2)] obtain p where p: "ds_pending s1 = Some p" "pc_revisionKey p = or_default (di_revisionKey input) ''legacy''" by metis
  from pending_run [OF assms(3,4)] obtain q where q: "ds_pending s2 = Some q"
    and kept: "\<And>f e v. map_get (pending_base s1 input' (or_default (di_revisionKey input') ''legacy'')) f = Some e \<Longrightarrow> (f, v) \<in> set (pc_baseMetrics q) \<Longrightarrow> v = e"
    by metis
  have "pending_base s1 input' (or_default (di_revisionKey input') ''legacy'') = pending_bases s1"
    using assms(4) key p by (simp add: pending_base_def pending_bases_def)
  then have same: "v = e" if "(f, v) \<in> set (pc_baseMetrics q)" for v using kept f(1) that by simp
  have "f \<in> fst ` set (pc_baseMetrics q)" using f(2) q by (simp add: pending_bases_def fromEntries_keys)
  then obtain v where "(f, v) \<in> set (pc_baseMetrics q)" by force
  then have "(f, e) \<in> set (pc_baseMetrics q)" using same by blast
  from fromEntries_constant [OF this same] show ?thesis by (simp add: pending_bases_def q)
qed

text \<open>C38: A pending diff never touches the history. As long as the revision is the same, asking again, whatever the files, the
  configuration and the stored entries have become, keeps for every file the base it was first compared with; so the impact of
  an edit in progress is measured against the revision and not against the previous edit.\<close>

theorem pending_diff_keeps_base:
  assumes "diff hash sha lc mm absolute cwd base crlOf w config input s = Inr (r, s1)" "di_pending input"
    and "diff hash sha lc mm absolute cwd base crlOf w' config' input' s1 = Inr (r', s2)" "di_pending input'"
    and "di_revisionKey input' = di_revisionKey input"
  shows "ds_history s2 = ds_history s \<and> dr_crl r' = dr_crl r \<and> \<not> dm_sealed (dr_summary r')
    \<and> (\<forall>f e. map_get (pending_bases s1) f = Some e \<longrightarrow> map_has (pending_bases s2) f \<longrightarrow> map_get (pending_bases s2) f = Some e)"
proof -
  have "ds_history s1 = ds_history s" "dr_crl r = crlOf (ds_history s)" using pending_run [OF assms(1,2)] by metis+
  moreover have "ds_history s2 = ds_history s1" "dr_crl r' = crlOf (ds_history s1)" "\<not> dm_sealed (dr_summary r')"
    using pending_run [OF assms(3,4)] by metis+
  ultimately show ?thesis using pending_bases_kept [OF assms] by (simp del: map_has_iff)
qed

text \<open>One changed file of a repository without a baseline, at revision \<open>r1\<close>.\<close>

definition sample_diff_world :: "ScanEntry option \<Rightarrow> DiffWorld" where
  "sample_diff_world e = \<lparr>dw_file = (\<lambda>p. Some ''text''), dw_parse = (\<lambda>p. Inr (sample_file p [])), dw_parseText = (\<lambda>p t. Inr (sample_file p [])),
     dw_index = None, dw_entry = (\<lambda>p. e), dw_metrics = [], dw_gitHead = Some ''c0'', dw_gitBefore = (\<lambda>p. None), dw_impactFacts = [], dw_now = ''t1''\<rparr>"

definition sample_diff_config :: DiffConfig where
  "sample_diff_config = \<lparr>dc_pathClasses = [], dc_structuralPolicies = [], dc_crlStateWeights = DEFAULT_CRL_STATE_WEIGHTS, dc_fileKindRules = []\<rparr>"

definition sample_diff_input :: "bool \<Rightarrow> DiffInput" where
  "sample_diff_input asPending = \<lparr>di_changedFiles = [''/r/a.go''], di_changeKind = Some function_body, di_semanticProfiles = None,
     di_afterTexts = None, di_pending = asPending, di_revisionKey = Some ''r1'', di_implicitDeps = None\<rparr>"

abbreviation sample_diff :: "ScanEntry option \<Rightarrow> bool \<Rightarrow> DiffStore \<Rightarrow> string + DiffReport \<times> DiffStore" where
  "sample_diff e asPending s \<equiv> diff (\<lambda>_. ''h'') (\<lambda>t. t) code_unit_cmp (\<lambda>_ _. False) (\<lambda>p. p) ''/r'' ''/r'' (\<lambda>_. [])
     (sample_diff_world e) sample_diff_config (sample_diff_input asPending) s"

lemma sample_diff_parses: "parse_changed (sample_diff_world e) (sample_diff_input asPending) base = Inr [sample_file ''/r/a.go'' []]"
  by (simp add: parse_changed_def sample_diff_world_def sample_diff_input_def parse_target_def after_text_def)

lemma sample_diff_runs: "\<exists>r s'. sample_diff e asPending s = Inr (r, s')"
proof -
  have "input_ready (sample_diff_input asPending) ''/r'' [sample_file ''/r/a.go'' []]"
    by (simp add: input_ready_def changesFor_def profiles_by_file_def sample_diff_input_def fromEntries_def)
  moreover have "base_snapshot (sample_diff_world e) = Some ''c0''"
    by (simp add: base_snapshot_def truthy_text_def sample_diff_world_def)
  moreover have "\<exists>r s'. x = (r, s')" for x :: "DiffReport \<times> DiffStore" by (cases x) simp
  ultimately show ?thesis unfolding diff_Inr using sample_diff_parses by metis
qed

lemma sample_evidence: "collect_evidence (\<lambda>t. t) (sample_diff_world e) (sample_diff_input asPending) ''/r'' [sample_file ''/r/a.go'' []]
    = [\<lparr>ev_file = relativePath ''/r'' ''/r/a.go'', ev_anchor = ''manual:file'', ev_changeKind = function_body, ev_sha256 = ''text''\<rparr>]"
  by (simp add: collect_evidence_def after_text_def sample_diff_world_def sample_diff_input_def changesFor_def profiles_by_file_def
      fromEntries_def sample_file_def)

theorem sealed_diff_replays_witness:
  "\<exists>r s' r'. sample_diff None False \<lparr>ds_history = [], ds_pending = None\<rparr> = Inr (r, s')
    \<and> diff (\<lambda>_. ''h'') (\<lambda>t. t) code_unit_cmp (\<lambda>_ _. False) (\<lambda>p. p) ''/r'' ''/r'' (\<lambda>_. [])
        (later_world (\<lambda>_. None) [] (\<lambda>_. None) [] ''t2'' (sample_diff_world None)) sample_diff_config (reordered [''/r/a.go''] (sample_diff_input False)) s' = Inr (r', s')
    \<and> dm_iPush (dr_summary r') = dm_iPush (dr_summary r)"
proof -
  obtain r s' where run: "sample_diff None False \<lparr>ds_history = [], ds_pending = None\<rparr> = Inr (r, s')" using sample_diff_runs by blast
  have "\<exists>r'. diff (\<lambda>_. ''h'') (\<lambda>t. t) code_unit_cmp (\<lambda>_ _. False) (\<lambda>p. p) ''/r'' ''/r'' (\<lambda>_. [])
      (later_world (\<lambda>_. None) [] (\<lambda>_. None) [] ''t2'' (sample_diff_world None)) sample_diff_config (reordered [''/r/a.go''] (sample_diff_input False)) s' = Inr (r', s')
    \<and> dr_summary r' = (dr_summary r)\<lparr>dm_impactScale := impactScaleOf (dm_iPush (dr_summary r))
        (length (filter (\<lambda>d. rf_deltaI d \<noteq> 0) (dm_deltas (dr_summary r)))) []\<rparr>
    \<and> dr_mrDetail r' = dr_mrDetail r \<and> dr_crl r' = dr_crl r"
    by (rule sealed_diff_replays [OF code_unit.comparator_axioms run])
      (auto simp: sample_diff_parses sample_evidence, simp_all add: sample_diff_input_def)
  with run show ?thesis by fastforce
qed

theorem pending_diff_keeps_base_witness:
  "\<exists>r s1 r' s2. sample_diff None True \<lparr>ds_history = [], ds_pending = None\<rparr> = Inr (r, s1)
    \<and> sample_diff (Some (projectBaselineEntry (\<lambda>_. ''h'') ''/r'' (sample_file ''/r/a.go'' []) fk_production 0 0 None)) True s1 = Inr (r', s2)
    \<and> ds_history s2 = []"
proof -
  obtain r s1 where a: "sample_diff None True \<lparr>ds_history = [], ds_pending = None\<rparr> = Inr (r, s1)" using sample_diff_runs by blast
  obtain r' s2 where b: "sample_diff (Some (projectBaselineEntry (\<lambda>_. ''h'') ''/r'' (sample_file ''/r/a.go'' []) fk_production 0 0 None)) True s1 = Inr (r', s2)"
    using sample_diff_runs by blast
  have "di_pending (sample_diff_input True)" by (simp add: sample_diff_input_def)
  from pending_diff_keeps_base [OF a this b this refl] a b show ?thesis by auto
qed

end
