(* ===== verification/Coordination_Client.thy ===== *)
theory Coordination_Client
  imports Gate_Config
begin

text \<open>
  The client of the coordination service (\<open>coordination/CoordinationClient.ts\<close>): requests with their errors, the retries, the
  validation of every answer, and the wait for a lease. The network, the timers and the clock are one argument, a \<open>Service\<close> over a
  world \<open>'w\<close>; an operation takes a world and gives its answer or its error with the world after it. Answers that the code hands
  on unchanged stay JSON values, so that the fields it does not check keep whatever the service sent.
\<close>

section \<open>Errors, requests and the world\<close>

datatype CoordinationCause = service_unreachable | http_status | invalid_descriptor

record CoordinationError =
  ce_cause :: CoordinationCause
  ce_detail :: string
  ce_status :: "nat option"
  ce_code :: "string option"
  ce_retryable :: "bool option"

text \<open>Any other exception, such as the \<open>TypeError\<close> of a dependency that is \<open>null\<close>, keeps its message.\<close>

datatype ClientError = coordination_error CoordinationError | js_error string

definition coordinationError :: "CoordinationCause \<Rightarrow> string \<Rightarrow> ClientError" where
  "coordinationError cause detail =
     coordination_error \<lparr>ce_cause = cause, ce_detail = detail, ce_status = None, ce_code = None, ce_retryable = None\<rparr>"

record HttpRequest =
  rq_method :: string
  rq_url :: string
  rq_headers :: "(string \<times> string) list"
  rq_body :: "json option"

record HttpResponse =
  rp_status :: nat
  rp_statusText :: string
  rp_json :: "json option" \<comment> \<open>\<open>None\<close> when the body is not JSON\<close>

record 'w Service =
  sv_fetch :: "HttpRequest \<Rightarrow> 'w \<Rightarrow> (string + HttpResponse) \<times> 'w"
  sv_sleep :: "real \<Rightarrow> 'w \<Rightarrow> 'w"
  sv_now :: "'w \<Rightarrow> real"
  sv_requestId :: "'w \<Rightarrow> string \<times> 'w"

type_synonym ('w, 'a) act = "'w \<Rightarrow> (ClientError + 'a) \<times> 'w"

definition act_bind :: "('w, 'a) act \<Rightarrow> ('a \<Rightarrow> ('w, 'b) act) \<Rightarrow> ('w, 'b) act" where
  "act_bind m k w = (case m w of (Inl e, w') \<Rightarrow> (Inl e, w') | (Inr x, w') \<Rightarrow> k x w')"

definition act_result :: "ClientError + 'a \<Rightarrow> ('w, 'a) act" where
  "act_result r w = (r, w)"

definition act_map :: "('a \<Rightarrow> ClientError + 'b) \<Rightarrow> ('w, 'a) act \<Rightarrow> ('w, 'b) act" where
  "act_map f m = act_bind m (\<lambda>x. act_result (f x))"

section \<open>Requests\<close>

definition TASK_RETRY_DELAYS_MS :: "real list" where
  "TASK_RETRY_DELAYS_MS = [100, 400]"

definition response_ok :: "HttpResponse \<Rightarrow> bool" where
  "response_ok r = (200 \<le> rp_status r \<and> rp_status r < 300)"

definition send_request :: "'w Service \<Rightarrow> HttpRequest \<Rightarrow> ('w, HttpResponse) act" where
  "send_request sv r w =
     (case sv_fetch sv r w of
        (Inl message, w') \<Rightarrow> (Inl (coordinationError service_unreachable message), w')
      | (Inr response, w') \<Rightarrow> (Inr response, w'))"

definition bool_of :: "json option \<Rightarrow> bool option" where
  "bool_of v = (case v of Some (JBool b) \<Rightarrow> Some b | _ \<Rightarrow> None)"

definition requireOk :: "HttpResponse \<Rightarrow> ClientError + unit" where
  "requireOk response =
     (if response_ok response then Inr ()
      else let body = or_default (rp_json response) (JObj [(''error'', JStr (rp_statusText response))])
           in Inl (coordination_error \<lparr>ce_cause = http_status,
                ce_detail = or_default (text_of (field body ''error'')) (rp_statusText response),
                ce_status = Some (rp_status response), ce_code = text_of (field body ''code''),
                ce_retryable = bool_of (field body ''retryable'')\<rparr>))"

definition readJson :: "HttpResponse \<Rightarrow> string \<Rightarrow> ClientError + json" where
  "readJson response what =
     (case rp_json response of
        None \<Rightarrow> Inl (coordinationError invalid_descriptor (''service returned a non-JSON '' @ what @ '' body''))
      | Some v \<Rightarrow> Inr v)"

definition strip_slashes :: "string \<Rightarrow> string" where
  "strip_slashes url = rev (dropWhile (\<lambda>c. c = CHR ''/'') (rev url))"

definition answer_of :: "HttpResponse \<Rightarrow> string \<Rightarrow> ClientError + json" where
  "answer_of response what = (case requireOk response of Inl e \<Rightarrow> Inl e | Inr _ \<Rightarrow> readJson response what)"

definition getJSON :: "'w Service \<Rightarrow> string \<Rightarrow> string \<Rightarrow> string \<Rightarrow> ('w, json) act" where
  "getJSON sv url path query =
     act_map (\<lambda>response. answer_of response path)
       (send_request sv \<lparr>rq_method = ''GET'', rq_url = strip_slashes url @ path @ query, rq_headers = [], rq_body = None\<rparr>)"

definition post_request :: "string \<Rightarrow> string \<Rightarrow> json \<Rightarrow> string option \<Rightarrow> HttpRequest" where
  "post_request url path body requestId =
     \<lparr>rq_method = ''POST'', rq_url = strip_slashes url @ path,
      rq_headers = (''content-type'', ''application/json'')
        # (case requestId of None \<Rightarrow> [] | Some i \<Rightarrow> if i = [] then [] else [(''X-Request-Id'', i)]),
      rq_body = Some body\<rparr>"

definition postJSON :: "'w Service \<Rightarrow> string \<Rightarrow> string \<Rightarrow> json \<Rightarrow> string option \<Rightarrow> ('w, json) act" where
  "postJSON sv url path body requestId =
     act_map (\<lambda>response. answer_of response path) (send_request sv (post_request url path body requestId))"

definition isRetryableCoordinationError :: "ClientError \<Rightarrow> bool" where
  "isRetryableCoordinationError e =
     (case e of js_error _ \<Rightarrow> False
      | coordination_error c \<Rightarrow> ce_cause c = service_unreachable \<or> ce_retryable c = Some True)"

function retry_loop :: "'w Service \<Rightarrow> string \<Rightarrow> string \<Rightarrow> json \<Rightarrow> string \<Rightarrow> nat \<Rightarrow> ('w, json) act" where
  "retry_loop sv url path body requestId attempt w =
     (case postJSON sv url path body (Some requestId) w of
        (Inr v, w') \<Rightarrow> (Inr v, w')
      | (Inl e, w') \<Rightarrow>
          if \<not> isRetryableCoordinationError e \<or> length TASK_RETRY_DELAYS_MS \<le> attempt then (Inl e, w')
          else retry_loop sv url path body requestId (attempt + 1) (sv_sleep sv (TASK_RETRY_DELAYS_MS ! attempt) w'))"
  by pat_completeness auto

termination
  by (relation "measure (\<lambda>(_, _, _, _, _, attempt, _). length TASK_RETRY_DELAYS_MS - attempt)") auto

declare retry_loop.simps [simp del]

definition postJSONWithRetry :: "'w Service \<Rightarrow> string \<Rightarrow> string \<Rightarrow> json \<Rightarrow> ('w, json) act" where
  "postJSONWithRetry sv url path body w =
     (case sv_requestId sv w of (requestId, w') \<Rightarrow> retry_loop sv url path body requestId 0 w')"

section \<open>Query strings\<close>

definition upper_hex :: "nat \<Rightarrow> char" where
  "upper_hex n = (if n < 10 then char_of (48 + n) else char_of (55 + n))"

definition percent_byte :: "nat \<Rightarrow> string" where
  "percent_byte b = [CHR ''%'', upper_hex (b div 16), upper_hex (b mod 16)]"

definition unreserved :: "char \<Rightarrow> bool" where
  "unreserved c = (is_alpha c \<or> is_digit c \<or> c \<in> set ''-_.!~*'' \<or> c = CHR 0x27 \<or> c = CHR ''('' \<or> c = CHR '')'')"

definition encode_char :: "char \<Rightarrow> string" where
  "encode_char c =
     (if unreserved c then [c]
      else let n = code c in
        if n < 128 then percent_byte n else percent_byte (192 + n div 64) @ percent_byte (128 + n mod 64))"

definition encodeURIComponent :: "string \<Rightarrow> string" where
  "encodeURIComponent s = concat (map encode_char s)"

section \<open>The documents repository\<close>

record DocsRepoDescriptor =
  dd_remoteUrl :: string
  dd_branch :: string
  dd_headSha :: string

definition is_hex_any :: "char \<Rightarrow> bool" where
  "is_hex_any c = (is_digit c \<or> (97 \<le> code c \<and> code c \<le> (102 :: nat)) \<or> (65 \<le> code c \<and> code c \<le> (70 :: nat)))"

definition HEAD_SHA_RE :: "string \<Rightarrow> bool" where
  "HEAD_SHA_RE s = (length s = 40 \<and> list_all is_hex_any s)"

text \<open>\<open>value ?? ""\<close>.\<close>

definition or_empty :: "json option \<Rightarrow> json" where
  "or_empty v = (case v of None \<Rightarrow> JStr [] | Some JNull \<Rightarrow> JStr [] | Some x \<Rightarrow> x)"

definition parseDescriptor :: "json \<Rightarrow> ClientError + DocsRepoDescriptor" where
  "parseDescriptor v =
     (let descriptor = or_default (field v ''docsRepo'') JNull;
          remoteUrl = text_of (Some (or_empty (field descriptor ''remoteUrl'')));
          branch = text_of (Some (or_empty (field descriptor ''branch'')));
          headSha = text_of (Some (or_empty (field descriptor ''headSha'')))
      in case (remoteUrl, branch, headSha) of
           (Some r, Some b, Some h) \<Rightarrow>
             if trim r = [] \<or> trim b = [] \<or> \<not> HEAD_SHA_RE h
             then Inl (coordinationError invalid_descriptor ''service returned an invalid docs-repo descriptor'')
             else Inr \<lparr>dd_remoteUrl = trim r, dd_branch = trim b, dd_headSha = to_lower h\<rparr>
         | _ \<Rightarrow> Inl (coordinationError invalid_descriptor ''service returned an invalid docs-repo descriptor''))"

definition fetchDocsRepoDescriptor :: "'w Service \<Rightarrow> string \<Rightarrow> ('w, DocsRepoDescriptor) act" where
  "fetchDocsRepoDescriptor sv url = act_map parseDescriptor (getJSON sv url ''/v1/docs-repo'' [])"

definition postDocsRepoRefresh :: "'w Service \<Rightarrow> string \<Rightarrow> string \<Rightarrow> string \<Rightarrow> string \<Rightarrow> ('w, DocsRepoDescriptor) act" where
  "postDocsRepoRefresh sv url repositoryId branch headSha =
     act_map parseDescriptor (postJSONWithRetry sv url ''/v1/docs-repo/refresh''
       (JObj [(''repositoryId'', JStr repositoryId), (''branch'', JStr branch), (''headSha'', JStr headSha)]))"

definition postEvidence :: "'w Service \<Rightarrow> string \<Rightarrow> json \<Rightarrow> ('w, unit) act" where
  "postEvidence sv url doc = act_map (\<lambda>_. Inr ()) (postJSON sv url ''/v1/evidence'' doc None)"

section \<open>Tasks\<close>

record TaskRef =
  tr_repositoryId :: string
  tr_serviceId :: string
  tr_taskId :: string

definition has_text :: "json \<Rightarrow> string \<Rightarrow> bool" where
  "has_text v k = (text_of (field v k) \<noteq> None)"

definition text_at :: "json \<Rightarrow> string \<Rightarrow> string" where
  "text_at v k = or_default (text_of (field v k)) []"

text \<open>\<open>value?.k\<close> for a value that is read further.\<close>

definition sub :: "json \<Rightarrow> string \<Rightarrow> json" where
  "sub v k = or_default (field v k) JNull"

definition has_number :: "json \<Rightarrow> string \<Rightarrow> bool" where
  "has_number v k = (case field v k of Some (JNum _) \<Rightarrow> True | _ \<Rightarrow> False)"

definition optional_text :: "json \<Rightarrow> string \<Rightarrow> bool" where
  "optional_text v k = (field v k = None \<or> has_text v k)"

definition invalid :: "string \<Rightarrow> string \<Rightarrow> ClientError + 'a" where
  "invalid what part = Inl (coordinationError invalid_descriptor (''service returned an invalid '' @ what @ part))"

definition parseTaskStatus :: "json \<Rightarrow> string \<Rightarrow> ClientError + json" where
  "parseTaskStatus v what =
     (if \<not> has_text v ''state'' then invalid what '' status''
      else if \<not> optional_text v ''proposalSha256'' then invalid what '' proposalSha256''
      else if \<not> optional_text v ''verifiedHeadSha'' then invalid what '' verifiedHeadSha''
      else Inr v)"

record TaskSubmitResult =
  ts_status :: json
  ts_created :: bool

definition and_then :: "ClientError + 'a \<Rightarrow> ('a \<Rightarrow> ClientError + 'b) \<Rightarrow> ClientError + 'b" where
  "and_then r f = (case r of Inl e \<Rightarrow> Inl e | Inr x \<Rightarrow> f x)"

definition parseTaskResult :: "string \<Rightarrow> json \<Rightarrow> ClientError + TaskSubmitResult" where
  "parseTaskResult what v =
     (case bool_of (field v ''created'') of
        None \<Rightarrow> invalid what '' result''
      | Some created \<Rightarrow> and_then (parseTaskStatus (sub v ''status'') what) (\<lambda>status. Inr \<lparr>ts_status = status, ts_created = created\<rparr>))"

definition task_doc :: "TaskRef \<Rightarrow> json" where
  "task_doc t = JObj [(''repositoryId'', JStr (tr_repositoryId t)), (''serviceId'', JStr (tr_serviceId t)), (''taskId'', JStr (tr_taskId t))]"

definition submitTask :: "'w Service \<Rightarrow> string \<Rightarrow> TaskRef \<Rightarrow> string \<Rightarrow> string \<Rightarrow> ('w, TaskSubmitResult) act" where
  "submitTask sv url t branch headSha =
     act_map (parseTaskResult ''task submit'') (postJSONWithRetry sv url ''/v1/tasks/submit''
       (JObj [(''task'', task_doc t), (''branch'', JStr branch), (''headSha'', JStr headSha)]))"

definition claimTask :: "'w Service \<Rightarrow> string \<Rightarrow> TaskRef \<Rightarrow> string \<Rightarrow> string \<Rightarrow> ('w, TaskSubmitResult) act" where
  "claimTask sv url t proposalSha256 claimedBy =
     act_map (parseTaskResult ''task claim'') (postJSONWithRetry sv url ''/v1/tasks/claim''
       (JObj [(''task'', task_doc t), (''proposalSha256'', JStr proposalSha256), (''claimedBy'', JStr claimedBy)]))"

record Completion =
  cm_task :: TaskRef
  cm_proposalSha256 :: string
  cm_completedBy :: string
  cm_headSHA :: string
  cm_target :: string
  cm_leaseId :: string

definition completion_doc :: "string \<Rightarrow> Completion \<Rightarrow> json" where
  "completion_doc headKey c =
     JObj [(''task'', task_doc (cm_task c)), (''proposalSha256'', JStr (cm_proposalSha256 c)), (''completedBy'', JStr (cm_completedBy c)),
       (headKey, JStr (cm_headSHA c)), (''target'', JStr (cm_target c)), (''leaseId'', JStr (cm_leaseId c))]"

definition completeLocalTask :: "'w Service \<Rightarrow> string \<Rightarrow> Completion \<Rightarrow> ('w, TaskSubmitResult) act" where
  "completeLocalTask sv url c =
     act_map (parseTaskResult ''task complete-local'')
       (postJSONWithRetry sv url ''/v1/tasks/complete-local'' (completion_doc ''localHeadSHA'' c))"

definition completeTask :: "'w Service \<Rightarrow> string \<Rightarrow> Completion \<Rightarrow> ('w, TaskSubmitResult) act" where
  "completeTask sv url c =
     act_map (parseTaskResult ''task complete'')
       (postJSONWithRetry sv url ''/v1/tasks/complete'' (completion_doc ''completedHeadSHA'' c))"

fun map_client :: "('a \<Rightarrow> ClientError + 'b) \<Rightarrow> 'a list \<Rightarrow> ClientError + 'b list" where
  "map_client f [] = Inr []"
| "map_client f (x # xs) = and_then (f x) (\<lambda>y. and_then (map_client f xs) (\<lambda>ys. Inr (y # ys)))"

definition listCollection ::
  "'w Service \<Rightarrow> string \<Rightarrow> string \<Rightarrow> string \<Rightarrow> (json \<Rightarrow> string \<Rightarrow> ClientError + 'a) \<Rightarrow> string option \<Rightarrow> ('w, 'a list) act" where
  "listCollection sv url path key parseItem repositoryId =
     (let query = (case repositoryId of None \<Rightarrow> [] | Some r \<Rightarrow> if r = [] then [] else ''?repositoryId='' @ encodeURIComponent r)
      in act_map (\<lambda>body.
           case elements_of (field body key) of
             None \<Rightarrow> invalid key '' list''
           | Some items \<Rightarrow> map_client (\<lambda>item. parseItem item (key @ '' list'')) items)
         (getJSON sv url (path @ query) []))"

text \<open>\<open>hypothesis\<close> is handed on without a check.\<close>

record TaskSummary =
  tm_task :: TaskRef
  tm_title :: string
  tm_hypothesis :: "json option"
  tm_requestedBy :: string
  tm_proposalSha256 :: string
  tm_status :: json

definition has_task :: "json \<Rightarrow> bool" where
  "has_task v =
     (let t = sub v ''task'' in has_text t ''repositoryId'' \<and> has_text t ''serviceId'' \<and> has_text t ''taskId''
        \<and> has_text v ''title'' \<and> has_text v ''requestedBy'' \<and> has_text v ''proposalSha256'')"

definition task_at :: "json \<Rightarrow> TaskRef" where
  "task_at v =
     (let t = sub v ''task'' in \<lparr>tr_repositoryId = text_at t ''repositoryId'', tr_serviceId = text_at t ''serviceId'', tr_taskId = text_at t ''taskId''\<rparr>)"

definition parseTaskSummary :: "json \<Rightarrow> string \<Rightarrow> ClientError + TaskSummary" where
  "parseTaskSummary v what =
     (if \<not> has_task v then invalid what '' summary''
      else and_then (parseTaskStatus (sub v ''status'') what) (\<lambda>status.
        Inr \<lparr>tm_task = task_at v, tm_title = text_at v ''title'', tm_hypothesis = field v ''hypothesis'',
          tm_requestedBy = text_at v ''requestedBy'', tm_proposalSha256 = text_at v ''proposalSha256'', tm_status = status\<rparr>))"

definition listTasks :: "'w Service \<Rightarrow> string \<Rightarrow> string option \<Rightarrow> ('w, TaskSummary list) act" where
  "listTasks sv url = listCollection sv url ''/v1/tasks'' ''tasks'' parseTaskSummary"

definition event_texts :: "string list" where
  "event_texts = [''schemaVersion'', ''type'', ''proposalSha256'', ''verifiedHeadSha'', ''prevEventHash'', ''eventHash'',
     ''recordedAt'', ''signerKeyId'', ''signature'']"

definition event_types :: "string list" where
  "event_types = [''verified'', ''claimed'', ''completed_local'', ''completed'']"

definition parseTaskLifecycleEvent :: "json \<Rightarrow> string \<Rightarrow> ClientError + json" where
  "parseTaskLifecycleEvent v what =
     (let t = sub v ''task'' in
      if \<not> (list_all (has_text v) event_texts \<and> has_number v ''sequence''
        \<and> has_text t ''repositoryId'' \<and> has_text t ''serviceId'' \<and> has_text t ''taskId'') then invalid what '' event''
      else if text_at v ''type'' \<notin> set event_types then invalid what '' event type''
      else Inr v)"

text \<open>\<open>String(v)\<close>: \<open>other\<close> gives the text of numbers, arrays and objects.\<close>

definition js_text :: "(json \<Rightarrow> string) \<Rightarrow> json option \<Rightarrow> string" where
  "js_text other v =
     (case v of None \<Rightarrow> ''undefined'' | Some JNull \<Rightarrow> ''null'' | Some (JBool b) \<Rightarrow> (if b then ''true'' else ''false'')
      | Some (JStr s) \<Rightarrow> s | Some x \<Rightarrow> other x)"

definition parse_dependency :: "(json \<Rightarrow> string) \<Rightarrow> json \<Rightarrow> ClientError + TaskRef" where
  "parse_dependency other ref =
     (if ref = JNull then Inl (js_error ''Cannot read properties of null (reading 'repositoryId')'')
      else Inr \<lparr>tr_repositoryId = js_text other (field ref ''repositoryId''), tr_serviceId = js_text other (field ref ''serviceId''),
        tr_taskId = js_text other (field ref ''taskId'')\<rparr>)"

record TaskDetail =
  td_task :: TaskRef
  td_title :: string
  td_hypothesis :: "json option"
  td_requestedBy :: string
  td_proposalSha256 :: string
  td_dependsOn :: "TaskRef list option"
  td_goal :: "string option"
  td_scope :: "string list option"
  td_constraints :: "string list option"
  td_verification :: "string list option"
  td_deliverable :: "string option"
  td_status :: json
  td_events :: "json list"

definition texts_at :: "(json \<Rightarrow> string) \<Rightarrow> json \<Rightarrow> string \<Rightarrow> string list option" where
  "texts_at other v k = map_option (map (\<lambda>x. js_text other (Some x))) (elements_of (field v k))"

definition parseTaskDetail :: "(json \<Rightarrow> string) \<Rightarrow> string \<Rightarrow> json \<Rightarrow> ClientError + TaskDetail" where
  "parseTaskDetail other what v =
     (case elements_of (field v ''events'') of
        None \<Rightarrow> invalid what '' detail''
      | Some events \<Rightarrow>
          if \<not> has_task v then invalid what '' detail''
          else and_then (case elements_of (field v ''dependsOn'') of None \<Rightarrow> Inr None
                 | Some refs \<Rightarrow> and_then (map_client (parse_dependency other) refs) (\<lambda>ds. Inr (Some ds)))
            (\<lambda>dependsOn. and_then (parseTaskStatus (sub v ''status'') what)
              (\<lambda>status. and_then (map_client (\<lambda>e. parseTaskLifecycleEvent e what) events)
                (\<lambda>es. Inr \<lparr>td_task = task_at v, td_title = text_at v ''title'', td_hypothesis = field v ''hypothesis'',
                  td_requestedBy = text_at v ''requestedBy'', td_proposalSha256 = text_at v ''proposalSha256'', td_dependsOn = dependsOn,
                  td_goal = text_of (field v ''goal''), td_scope = texts_at other v ''scope'', td_constraints = texts_at other v ''constraints'',
                  td_verification = texts_at other v ''verification'', td_deliverable = text_of (field v ''deliverable''),
                  td_status = status, td_events = es\<rparr>))))"

definition task_path :: "TaskRef \<Rightarrow> string" where
  "task_path ref = ''/v1/tasks/'' @ encodeURIComponent (tr_repositoryId ref) @ ''/'' @ encodeURIComponent (tr_serviceId ref)
     @ ''/'' @ encodeURIComponent (tr_taskId ref)"

definition getTaskDetail :: "(json \<Rightarrow> string) \<Rightarrow> 'w Service \<Rightarrow> string \<Rightarrow> TaskRef \<Rightarrow> ('w, TaskDetail) act" where
  "getTaskDetail other sv url ref = act_map (parseTaskDetail other ''task detail'') (getJSON sv url (task_path ref) [])"

section \<open>Debts, leases and sessions\<close>

definition parseDebtSummary :: "json \<Rightarrow> string \<Rightarrow> ClientError + json" where
  "parseDebtSummary v what =
     (let d = sub v ''debt'' in
      if \<not> (has_text d ''repositoryId'' \<and> has_text d ''serviceId'' \<and> has_text d ''debtId'' \<and> has_text v ''title''
        \<and> has_text v ''reason'' \<and> has_text v ''reconsiderCondition'' \<and> has_text v ''status'') then invalid what '' summary''
      else Inr v)"

definition listDebts :: "'w Service \<Rightarrow> string \<Rightarrow> string option \<Rightarrow> ('w, json list) act" where
  "listDebts sv url = listCollection sv url ''/v1/debts'' ''debts'' parseDebtSummary"

record Credential =
  cr_id :: string
  cr_owner :: string
  cr_fencingToken :: jsnum
  cr_coordinatorEpoch :: jsnum

definition credential_doc :: "string \<Rightarrow> Credential \<Rightarrow> json" where
  "credential_doc idKey c =
     JObj [(idKey, JStr (cr_id c)), (''owner'', JStr (cr_owner c)), (''fencingToken'', JNum (cr_fencingToken c)),
       (''coordinatorEpoch'', JNum (cr_coordinatorEpoch c))]"

definition parseLease :: "string \<Rightarrow> json \<Rightarrow> ClientError + json" where
  "parseLease what v =
     (if \<not> (has_text v ''leaseId'' \<and> has_text v ''owner'' \<and> has_number v ''fencingToken'' \<and> has_number v ''coordinatorEpoch''
        \<and> has_text (sub v ''key'') ''repositoryId'' \<and> has_text (sub v ''key'') ''target'') then invalid what '' lease''
      else Inr v)"

record LeaseRequest =
  lr_repositoryId :: string
  lr_target :: string
  lr_owner :: string
  lr_ttlSeconds :: jsnum

definition acquireLease :: "'w Service \<Rightarrow> string \<Rightarrow> LeaseRequest \<Rightarrow> ('w, json) act" where
  "acquireLease sv url r =
     act_map (parseLease ''acquire'') (postJSON sv url ''/v1/leases/acquire''
       (JObj [(''key'', JObj [(''repositoryId'', JStr (lr_repositoryId r)), (''target'', JStr (lr_target r))]),
         (''owner'', JStr (lr_owner r)), (''ttlSeconds'', JNum (lr_ttlSeconds r))]) None)"

definition lease_held :: "ClientError \<Rightarrow> bool" where
  "lease_held e = (case e of js_error _ \<Rightarrow> False | coordination_error c \<Rightarrow> ce_cause c = http_status \<and> ce_status c = Some 409)"

partial_function (option) wait_loop ::
  "'w Service \<Rightarrow> string \<Rightarrow> LeaseRequest \<Rightarrow> real \<Rightarrow> real \<Rightarrow> 'w \<Rightarrow> ((ClientError + json) \<times> 'w) option" where
  "wait_loop sv url r pollMs deadline w =
     (case acquireLease sv url r w of
        (Inr lease, w') \<Rightarrow> Some (Inr lease, w')
      | (Inl e, w') \<Rightarrow>
          if \<not> lease_held e \<or> deadline \<le> sv_now sv w' then Some (Inl e, w')
          else wait_loop sv url r pollMs deadline (sv_sleep sv (min pollMs (max 0 (deadline - sv_now sv w'))) w'))"

definition acquireLeaseWithWait ::
  "'w Service \<Rightarrow> string \<Rightarrow> LeaseRequest \<Rightarrow> real option \<Rightarrow> real option \<Rightarrow> 'w \<Rightarrow> ((ClientError + json) \<times> 'w) option" where
  "acquireLeaseWithWait sv url r timeoutMs pollMs w =
     wait_loop sv url r (or_default pollMs 500) (sv_now sv w + or_default timeoutMs 30000) w"

definition renewLease :: "'w Service \<Rightarrow> string \<Rightarrow> Credential \<Rightarrow> jsnum \<Rightarrow> ('w, json) act" where
  "renewLease sv url c ttlSeconds =
     act_map (parseLease ''renew'') (postJSON sv url ''/v1/leases/renew''
       (JObj [(''credential'', credential_doc ''leaseId'' c), (''ttlSeconds'', JNum ttlSeconds)]) None)"

definition releaseLease :: "'w Service \<Rightarrow> string \<Rightarrow> Credential \<Rightarrow> ('w, unit) act" where
  "releaseLease sv url c =
     act_map (\<lambda>_. Inr ()) (postJSON sv url ''/v1/leases/release'' (JObj [(''credential'', credential_doc ''leaseId'' c)]) None)"

definition listLeases :: "'w Service \<Rightarrow> string \<Rightarrow> string option \<Rightarrow> ('w, json list) act" where
  "listLeases sv url = listCollection sv url ''/v1/leases'' ''leases'' (\<lambda>v what. parseLease what v)"

definition parseSession :: "string \<Rightarrow> json \<Rightarrow> ClientError + json" where
  "parseSession what v =
     (if \<not> (has_text (sub v ''ref'') ''repositoryId'' \<and> has_text (sub v ''ref'') ''sessionId'' \<and> has_text v ''owner''
        \<and> has_number v ''fencingToken'' \<and> has_number v ''coordinatorEpoch'' \<and> has_text v ''expiresAt'') then invalid what '' session''
      else Inr v)"

definition registerSession :: "'w Service \<Rightarrow> string \<Rightarrow> string \<Rightarrow> string \<Rightarrow> string \<Rightarrow> jsnum \<Rightarrow> ('w, json) act" where
  "registerSession sv url repositoryId sessionId owner ttlSeconds =
     act_map (parseSession ''register'') (postJSON sv url ''/v1/sessions/register''
       (JObj [(''repositoryId'', JStr repositoryId), (''sessionId'', JStr sessionId), (''owner'', JStr owner),
         (''ttlSeconds'', JNum ttlSeconds)]) None)"

definition heartbeatSession :: "'w Service \<Rightarrow> string \<Rightarrow> Credential \<Rightarrow> jsnum \<Rightarrow> ('w, json) act" where
  "heartbeatSession sv url c ttlSeconds =
     act_map (parseSession ''heartbeat'') (postJSON sv url ''/v1/sessions/heartbeat''
       (JObj [(''credential'', credential_doc ''sessionId'' c), (''ttlSeconds'', JNum ttlSeconds)]) None)"

definition closeSession :: "'w Service \<Rightarrow> string \<Rightarrow> Credential \<Rightarrow> ('w, unit) act" where
  "closeSession sv url c =
     act_map (\<lambda>_. Inr ()) (postJSON sv url ''/v1/sessions/close'' (JObj [(''credential'', credential_doc ''sessionId'' c)]) None)"

definition listSessions :: "'w Service \<Rightarrow> string \<Rightarrow> string option \<Rightarrow> ('w, json list) act" where
  "listSessions sv url = listCollection sv url ''/v1/sessions'' ''sessions'' (\<lambda>v what. parseSession what v)"

section \<open>What is sent\<close>

datatype ServiceEvent = Sent HttpRequest "string + HttpResponse" | Slept real

text \<open>The same service, with everything that is sent and every wait written down in a trace.\<close>

definition recording :: "'w Service \<Rightarrow> ('w \<times> ServiceEvent list) Service" where
  "recording sv =
     \<lparr>sv_fetch = (\<lambda>r (w, tr). case sv_fetch sv r w of (outcome, w') \<Rightarrow> (outcome, (w', tr @ [Sent r outcome]))),
      sv_sleep = (\<lambda>d (w, tr). (sv_sleep sv d w, tr @ [Slept d])),
      sv_now = (\<lambda>(w, tr). sv_now sv w),
      sv_requestId = (\<lambda>(w, tr). case sv_requestId sv w of (i, w') \<Rightarrow> (i, (w', tr)))\<rparr>"

definition reply_of :: "string \<Rightarrow> string + HttpResponse \<Rightarrow> ClientError + json" where
  "reply_of path outcome =
     (case outcome of Inl message \<Rightarrow> Inl (coordinationError service_unreachable message) | Inr response \<Rightarrow> answer_of response path)"

lemma recording_simps [simp]:
  "sv_fetch (recording sv) r (w, tr) = (fst (sv_fetch sv r w), (snd (sv_fetch sv r w), tr @ [Sent r (fst (sv_fetch sv r w))]))"
  "sv_sleep (recording sv) d (w, tr) = (sv_sleep sv d w, tr @ [Slept d])"
  "sv_now (recording sv) (w, tr) = sv_now sv w"
  "sv_requestId (recording sv) (w, tr) = (fst (sv_requestId sv w), (snd (sv_requestId sv w), tr))"
  by (simp_all add: recording_def split: prod.splits)

lemma request_reply:
  "act_map (\<lambda>response. answer_of response path) (send_request sv r) w = (reply_of path (fst (sv_fetch sv r w)), snd (sv_fetch sv r w))"
  by (simp add: act_map_def act_bind_def act_result_def send_request_def reply_of_def split: sum.splits prod.splits)

lemma postJSON_reply:
  "postJSON sv url path body i w = (reply_of path (fst (sv_fetch sv (post_request url path body i) w)), snd (sv_fetch sv (post_request url path body i) w))"
  unfolding postJSON_def by (rule request_reply)

lemma act_map_eq: "act_map f m w = (and_then (fst (m w)) f, snd (m w))"
  by (simp add: act_map_def act_bind_def act_result_def and_then_def split: sum.splits prod.splits)

section \<open>Retries\<close>

definition retryable_reply :: "ClientError + json \<Rightarrow> bool" where
  "retryable_reply r = (case r of Inl e \<Rightarrow> isRetryableCoordinationError e | Inr _ \<Rightarrow> False)"

fun conversation :: "HttpRequest \<Rightarrow> (string + HttpResponse) list \<Rightarrow> real list \<Rightarrow> ServiceEvent list" where
  "conversation r (o1 # o2 # os) (d # ds) = Sent r o1 # Slept d # conversation r (o2 # os) ds"
| "conversation r os ds = map (Sent r) os"

lemma retry_loop_conversation:
  assumes "retry_loop (recording sv) url path body i attempt (w, tr) = (res, (w', tr'))" "attempt \<le> length TASK_RETRY_DELAYS_MS"
  shows "\<exists>os. os \<noteq> [] \<and> length os + attempt \<le> Suc (length TASK_RETRY_DELAYS_MS)
    \<and> tr' = tr @ conversation (post_request url path body (Some i)) os (drop attempt TASK_RETRY_DELAYS_MS)
    \<and> (\<forall>x \<in> set (butlast os). retryable_reply (reply_of path x)) \<and> res = reply_of path (last os)
    \<and> (length os + attempt = Suc (length TASK_RETRY_DELAYS_MS) \<or> \<not> retryable_reply res)"
  using assms
proof (induction "length TASK_RETRY_DELAYS_MS - attempt" arbitrary: attempt w tr)
  case (0 attempt w tr)
  let ?o = "fst (sv_fetch sv (post_request url path body (Some i)) w)"
  have "res = reply_of path ?o \<and> tr' = tr @ [Sent (post_request url path body (Some i)) ?o]"
    using 0 by (subst (asm) retry_loop.simps) (auto simp: postJSON_reply split: sum.splits)
  with 0 show ?case by (intro exI [where x = "[?o]"]) simp
next
  case (Suc n attempt w tr)
  let ?r = "post_request url path body (Some i)"
  let ?o = "fst (sv_fetch sv ?r w)"
  have lt: "attempt < length TASK_RETRY_DELAYS_MS" using Suc.hyps(2) by simp
  show ?case
  proof (cases "retryable_reply (reply_of path ?o)")
    case False
    then have "res = reply_of path ?o \<and> tr' = tr @ [Sent ?r ?o]"
      using Suc.prems(1) by (subst (asm) retry_loop.simps) (auto simp: postJSON_reply retryable_reply_def split: sum.splits)
    with False lt show ?thesis by (intro exI [where x = "[?o]"]) simp
  next
    case True
    define d where "d = TASK_RETRY_DELAYS_MS ! attempt"
    have ds: "drop attempt TASK_RETRY_DELAYS_MS = d # drop (attempt + 1) TASK_RETRY_DELAYS_MS"
      using lt by (simp add: Cons_nth_drop_Suc d_def)
    have n: "n = length TASK_RETRY_DELAYS_MS - (attempt + 1)" "attempt + 1 \<le> length TASK_RETRY_DELAYS_MS" using lt Suc.hyps(2) by simp_all
    have run: "retry_loop (recording sv) url path body i (attempt + 1) (sv_sleep sv d (snd (sv_fetch sv ?r w)), tr @ [Sent ?r ?o, Slept d]) = (res, (w', tr'))"
      using Suc.prems(1) True lt
      by (subst (asm) retry_loop.simps) (auto simp: postJSON_reply retryable_reply_def d_def not_le split: sum.splits)
    obtain os where os: "os \<noteq> []" "length os + (attempt + 1) \<le> Suc (length TASK_RETRY_DELAYS_MS)"
      "tr' = (tr @ [Sent ?r ?o, Slept d]) @ conversation ?r os (drop (attempt + 1) TASK_RETRY_DELAYS_MS)"
      "\<forall>x \<in> set (butlast os). retryable_reply (reply_of path x)" "res = reply_of path (last os)"
      "length os + (attempt + 1) = Suc (length TASK_RETRY_DELAYS_MS) \<or> \<not> retryable_reply res"
      using Suc.hyps(1) [OF n(1) run n(2)] by blast
    obtain x xs where xs: "os = x # xs" using os(1) by (cases os) simp_all
    show ?thesis
      using os True by (intro exI [where x = "?o # os"]) (auto simp: ds xs)
  qed
qed

lemma retried_conversation:
  assumes "postJSONWithRetry (recording sv) url path body (w, []) = (res, (w', tr))"
    and "r = post_request url path body (Some (fst (sv_requestId sv w)))"
  shows "\<exists>os. os \<noteq> [] \<and> length os \<le> 3 \<and> tr = conversation r os [100, 400]
    \<and> (\<forall>x \<in> set (butlast os). retryable_reply (reply_of path x)) \<and> res = reply_of path (last os)
    \<and> (length os = 3 \<or> \<not> retryable_reply res)"
  using retry_loop_conversation [of sv url path body "fst (sv_requestId sv w)" 0 "snd (sv_requestId sv w)" "[]" res w' tr] assms
  by (auto simp: postJSONWithRetry_def TASK_RETRY_DELAYS_MS_def)

text \<open>C36: A posted task request is sent at most three times, always as the same request under the same request id, after waits of
  100 and 400 milliseconds; it is sent again only after an answer that may be retried, and its result is the last answer.\<close>

theorem retries_are_bounded:
  assumes "postJSONWithRetry (recording sv) url path body (w, []) = (res, (w', tr))"
    and "r = post_request url path body (Some (fst (sv_requestId sv w)))"
  shows "\<exists>os. os \<noteq> [] \<and> length os \<le> 3 \<and> tr = conversation r os [100, 400]
    \<and> (\<forall>x \<in> set (butlast os). retryable_reply (reply_of path x)) \<and> res = reply_of path (last os)
    \<and> (length os = 3 \<or> \<not> retryable_reply res)"
  using assms by (rule retried_conversation)

text \<open>A service that cannot be reached, with a clock that counts the milliseconds slept.\<close>

definition offline :: "real Service" where
  "offline = \<lparr>sv_fetch = (\<lambda>r w. (Inl ''refused'', w)), sv_sleep = (\<lambda>d w. w + max 1 d), sv_now = (\<lambda>w. w), sv_requestId = (\<lambda>w. (''req-1'', w))\<rparr>"

theorem retries_are_bounded_witness:
  "\<exists>os. os \<noteq> [] \<and> snd (snd (postJSONWithRetry (recording offline) ''http://c'' ''/v1/tasks/claim'' JNull (0, [])))
    = conversation (post_request ''http://c'' ''/v1/tasks/claim'' JNull (Some ''req-1'')) os [100, 400]"
proof -
  obtain res w' tr where e: "postJSONWithRetry (recording offline) ''http://c'' ''/v1/tasks/claim'' JNull (0, []) = (res, (w', tr))"
    by (metis prod.collapse)
  from retries_are_bounded [OF e refl] show ?thesis unfolding e by (auto simp: offline_def)
qed

section \<open>Waiting for a lease\<close>

text \<open>
  What is assumed of the clock: a fetch does not turn it back, a timer of at most \<open>2^31 - 1\<close> ms rounds its delay down and never
  waits less than a millisecond, and a longer one, which \<open>setTimeout\<close> fires at once, waits at least a millisecond. \<open>Date.now\<close> that is
  set back while the command waits is not covered.
\<close>

definition clock_ok :: "'w Service \<Rightarrow> bool" where
  "clock_ok sv =
     ((\<forall>d w. sv_now sv w + (if d \<le> 2147483647 then max 1 (real_of_int \<lfloor>d\<rfloor>) else 1) \<le> sv_now sv (sv_sleep sv d w))
      \<and> (\<forall>r w. sv_now sv w \<le> sv_now sv (snd (sv_fetch sv r w))))"

lemma clock_sleeps:
  assumes "clock_ok sv"
  shows "sv_now sv w + 1 \<le> sv_now sv (sv_sleep sv d w)"
proof -
  have "sv_now sv w + (if d \<le> 2147483647 then max 1 (real_of_int \<lfloor>d\<rfloor>) else 1) \<le> sv_now sv (sv_sleep sv d w)"
    using assms by (simp only: clock_ok_def)
  then show ?thesis by (simp split: if_splits)
qed

fun sent_of :: "ServiceEvent list \<Rightarrow> (HttpRequest \<times> (string + HttpResponse)) list" where
  "sent_of [] = []"
| "sent_of (Sent r x # tr) = (r, x) # sent_of tr"
| "sent_of (Slept d # tr) = sent_of tr"

fun slept_of :: "ServiceEvent list \<Rightarrow> real list" where
  "slept_of [] = []"
| "slept_of (Sent r x # tr) = slept_of tr"
| "slept_of (Slept d # tr) = d # slept_of tr"

lemma trace_append [simp]: "sent_of (a @ b) = sent_of a @ sent_of b" "slept_of (a @ b) = slept_of a @ slept_of b"
  by (induction a rule: sent_of.induct) auto

definition lease_request :: "string \<Rightarrow> LeaseRequest \<Rightarrow> HttpRequest" where
  "lease_request url r = post_request url ''/v1/leases/acquire''
     (JObj [(''key'', JObj [(''repositoryId'', JStr (lr_repositoryId r)), (''target'', JStr (lr_target r))]),
       (''owner'', JStr (lr_owner r)), (''ttlSeconds'', JNum (lr_ttlSeconds r))]) None"

definition lease_reply :: "string + HttpResponse \<Rightarrow> ClientError + json" where
  "lease_reply outcome = and_then (reply_of ''/v1/leases/acquire'' outcome) (parseLease ''acquire'')"

definition held_reply :: "ClientError + json \<Rightarrow> bool" where
  "held_reply r = (case r of Inl e \<Rightarrow> lease_held e | Inr _ \<Rightarrow> False)"

lemma acquireLease_reply:
  "acquireLease sv url r w = (lease_reply (fst (sv_fetch sv (lease_request url r) w)), snd (sv_fetch sv (lease_request url r) w))"
  by (simp add: acquireLease_def act_map_eq postJSON_reply lease_reply_def lease_request_def)

lemma wait_loop_step:
  "wait_loop (recording sv) url r pollMs deadline (w, tr) =
     (let x = fst (sv_fetch sv (lease_request url r) w); w1 = snd (sv_fetch sv (lease_request url r) w); tr1 = tr @ [Sent (lease_request url r) x]
      in if \<not> held_reply (lease_reply x) \<or> deadline \<le> sv_now sv w1 then Some (lease_reply x, (w1, tr1))
         else let d = min pollMs (max 0 (deadline - sv_now sv w1))
              in wait_loop (recording sv) url r pollMs deadline (sv_sleep sv d w1, tr1 @ [Slept d]))"
  by (subst wait_loop.simps) (simp add: acquireLease_reply held_reply_def Let_def split: sum.splits)

lemma wait_loop_settles:
  assumes "clock_ok sv"
  shows "\<exists>res w' tr' os ds. wait_loop (recording sv) url r pollMs deadline (w, tr) = Some (res, (w', tr'))
    \<and> sent_of tr' = sent_of tr @ map (Pair (lease_request url r)) os \<and> os \<noteq> [] \<and> length os \<le> nat \<lceil>deadline - sv_now sv w\<rceil> + 1
    \<and> (\<forall>x \<in> set (butlast os). held_reply (lease_reply x)) \<and> res = lease_reply (last os)
    \<and> slept_of tr' = slept_of tr @ ds \<and> (\<forall>d \<in> set ds. d \<le> pollMs) \<and> (held_reply res \<longrightarrow> deadline \<le> sv_now sv w')"
proof (induction "nat \<lceil>deadline - sv_now sv w\<rceil>" arbitrary: w tr rule: less_induct)
  case less
  let ?q = "lease_request url r"
  define x where "x = fst (sv_fetch sv ?q w)"
  define w1 where "w1 = snd (sv_fetch sv ?q w)"
  have w1: "sv_now sv w \<le> sv_now sv w1" using assms by (simp add: clock_ok_def w1_def)
  show ?case
  proof (cases "\<not> held_reply (lease_reply x) \<or> deadline \<le> sv_now sv w1")
    case True
    then have "wait_loop (recording sv) url r pollMs deadline (w, tr) = Some (lease_reply x, (w1, tr @ [Sent ?q x]))"
      by (subst wait_loop_step) (simp add: x_def w1_def Let_def)
    with True show ?thesis
      by (intro exI [where x = "lease_reply x"] exI [where x = w1] exI [where x = "tr @ [Sent ?q x]"] exI [where x = "[x]"] exI [where x = "[]"]) simp
  next
    case False
    define d where "d = min pollMs (max 0 (deadline - sv_now sv w1))"
    define w2 where "w2 = sv_sleep sv d w1"
    have "sv_now sv w1 + 1 \<le> sv_now sv w2" unfolding w2_def by (rule clock_sleeps [OF assms])
    then have later: "sv_now sv w + 1 \<le> sv_now sv w2" using w1 by linarith
    then have less_time: "nat \<lceil>deadline - sv_now sv w2\<rceil> + 1 \<le> nat \<lceil>deadline - sv_now sv w\<rceil>"
      using False w1 by linarith
    have step: "wait_loop (recording sv) url r pollMs deadline (w, tr)
        = wait_loop (recording sv) url r pollMs deadline (w2, (tr @ [Sent ?q x]) @ [Slept d])"
      using False by (subst wait_loop_step) (simp add: x_def w1_def d_def w2_def Let_def)
    have "nat \<lceil>deadline - sv_now sv w2\<rceil> < nat \<lceil>deadline - sv_now sv w\<rceil>" using less_time by linarith
    from less [OF this, of "(tr @ [Sent ?q x]) @ [Slept d]"] obtain res w' tr' os ds where
      rec: "wait_loop (recording sv) url r pollMs deadline (w2, (tr @ [Sent ?q x]) @ [Slept d]) = Some (res, (w', tr'))"
        "sent_of tr' = sent_of ((tr @ [Sent ?q x]) @ [Slept d]) @ map (Pair ?q) os" "os \<noteq> []" "length os \<le> nat \<lceil>deadline - sv_now sv w2\<rceil> + 1"
        "\<forall>y \<in> set (butlast os). held_reply (lease_reply y)" "res = lease_reply (last os)"
        "slept_of tr' = slept_of ((tr @ [Sent ?q x]) @ [Slept d]) @ ds" "\<forall>d \<in> set ds. d \<le> pollMs" "held_reply res \<longrightarrow> deadline \<le> sv_now sv w'"
      by blast
    have "d \<le> pollMs" by (simp add: d_def)
    with rec less_time False show ?thesis
      by (intro exI [where x = res] exI [where x = w'] exI [where x = tr'] exI [where x = "x # os"] exI [where x = "d # ds"])
        (simp add: step)
  qed
qed

text \<open>C30: Waiting for a lease always comes to an end. Only the same request is sent, at most once for every millisecond of the
  timeout and once more; it is sent again only while the lease is held by another; no pause is longer than the polling interval;
  the answer is the last one, and a lease that is held is given up only after the deadline.\<close>

theorem lease_wait_settles:
  assumes "clock_ok sv"
  shows "\<exists>res w' tr os. acquireLeaseWithWait (recording sv) url r timeoutMs pollMs (w, []) = Some (res, (w', tr))
    \<and> sent_of tr = map (Pair (lease_request url r)) os \<and> os \<noteq> [] \<and> length os \<le> nat \<lceil>or_default timeoutMs 30000\<rceil> + 1
    \<and> (\<forall>x \<in> set (butlast os). held_reply (lease_reply x)) \<and> res = lease_reply (last os)
    \<and> (\<forall>d \<in> set (slept_of tr). d \<le> or_default pollMs 500)
    \<and> (held_reply res \<longrightarrow> sv_now sv w + or_default timeoutMs 30000 \<le> sv_now sv w')"
  using wait_loop_settles [OF assms, of url r "or_default pollMs 500" "sv_now sv w + or_default timeoutMs 30000" w "[]"]
  unfolding acquireLeaseWithWait_def by auto

text \<open>A service whose lease is always held.\<close>

definition busy :: "real Service" where
  "busy = offline\<lparr>sv_fetch := (\<lambda>r w. (Inr \<lparr>rp_status = 409, rp_statusText = ''Conflict'', rp_json = None\<rparr>, w))\<rparr>"

theorem lease_wait_settles_witness:
  "\<exists>res w' tr. acquireLeaseWithWait (recording busy) ''http://c'' \<lparr>lr_repositoryId = ''r'', lr_target = ''t'', lr_owner = ''o'', lr_ttlSeconds = Fin 30\<rparr>
      (Some 2) (Some 1) (0, []) = Some (res, (w', tr)) \<and> length (sent_of tr) \<le> 3"
proof -
  have "real_of_int \<lfloor>d\<rfloor> \<le> max 1 d" for d :: real by (simp add: le_max_iff_disj)
  then have "clock_ok busy" by (simp add: clock_ok_def busy_def offline_def)
  from lease_wait_settles [OF this, of "''http://c''" "\<lparr>lr_repositoryId = ''r'', lr_target = ''t'', lr_owner = ''o'', lr_ttlSeconds = Fin 30\<rparr>" "Some 2" "Some 1" 0]
  show ?thesis by auto
qed

section \<open>Paths and descriptors\<close>

lemma percent_byte_inj:
  assumes "a < 256" "b < 256" "percent_byte a = percent_byte b" shows "a = b"
proof -
  have h: "upper_hex m = upper_hex n \<Longrightarrow> m < 16 \<Longrightarrow> n < 16 \<Longrightarrow> m = n" for m n
  proof -
    assume e: "upper_hex m = upper_hex n" and lt: "m < 16" "n < 16"
    have c: "of_char (upper_hex k) = (if k < 10 then 48 + k else 55 + k)" if "k < 16" for k :: nat
      using that by (simp add: upper_hex_def)
    from e have "(of_char (upper_hex m) :: nat) = of_char (upper_hex n)" by simp
    with c [OF lt(1)] c [OF lt(2)] show "m = n" by (simp split: if_splits)
  qed
  have "a div 16 = b div 16" "a mod 16 = b mod 16"
    using assms h by (auto simp: percent_byte_def)
  then show ?thesis by (metis div_mult_mod_eq)
qed

lemma percent_byte_append: "percent_byte a @ u = percent_byte b @ v \<Longrightarrow> a < 256 \<Longrightarrow> b < 256 \<Longrightarrow> a = b \<and> u = v"
  using percent_byte_inj by (auto simp: percent_byte_def)

lemma percent_not_unreserved: "\<not> unreserved (CHR ''%'')"
  by (simp add: unreserved_def is_alpha_def is_lower_alpha_def is_upper_alpha_def is_digit_def)

lemma lead_byte: "of_char c div 64 \<le> (3 :: nat)"
proof -
  have "of_char c < (256 :: nat)" by (rule nat_of_char_less_256)
  then show ?thesis by linarith
qed

lemma encode_char_prefix:
  assumes "encode_char c @ u = encode_char d @ v" shows "c = d \<and> u = v"
proof -
  consider "unreserved c" "unreserved d" | "unreserved c \<noteq> unreserved d" | "\<not> unreserved c" "\<not> unreserved d" by blast
  then show ?thesis
  proof cases
    case 1
    then show ?thesis using assms by (simp add: encode_char_def)
  next
    case 2
    have "hd (encode_char x @ w) = (if unreserved x then x else CHR ''%'')" for x w
      by (simp add: encode_char_def Let_def percent_byte_def)
    then have "(if unreserved c then c else CHR ''%'') = (if unreserved d then d else CHR ''%'')" using assms by metis
    with 2 percent_not_unreserved show ?thesis by (auto split: if_splits)
  next
    case 3
    let ?n = "of_char c :: nat" and ?m = "of_char d :: nat"
    have div: "?n div 64 \<le> 3" "?m div 64 \<le> 3" using lead_byte by simp_all
    have small: "?n div 64 < 64" "?m div 64 < 64" "?n mod 64 < 64" "?m mod 64 < 64" using div by auto
    define lead where "lead = (\<lambda>k :: nat. if k < 128 then k else 192 + k div 64)"
    define rest where "rest = (\<lambda>k :: nat. if k < 128 then [] else percent_byte (128 + k mod 64))"
    have enc: "encode_char x = percent_byte (lead (of_char x)) @ rest (of_char x)" if "\<not> unreserved x" for x
      using that by (simp add: encode_char_def Let_def lead_def rest_def)
    have lt: "lead ?n < 256" "lead ?m < 256" using div by (auto simp: lead_def)
    have "percent_byte (lead ?n) @ rest ?n @ u = percent_byte (lead ?m) @ rest ?m @ v" using assms by (simp add: enc 3)
    from percent_byte_append [OF this lt] have eq: "lead ?n = lead ?m" "rest ?n @ u = rest ?m @ v" by auto
    show ?thesis
    proof (cases "?n < 128 \<or> ?m < 128")
      case True
      then have "?n = ?m" using eq(1) by (auto simp: lead_def split: if_splits)
      moreover have "rest ?n = rest ?m" using calculation by simp
      ultimately show ?thesis using eq(2) by simp
    next
      case False
      then have "percent_byte (192 + ?n div 64) @ percent_byte (128 + ?n mod 64) @ u = percent_byte (192 + ?m div 64) @ percent_byte (128 + ?m mod 64) @ v"
        using assms 3 by (simp add: encode_char_def Let_def)
      then have "192 + ?n div 64 = 192 + ?m div 64 \<and> percent_byte (128 + ?n mod 64) @ u = percent_byte (128 + ?m mod 64) @ v"
        using small by (intro percent_byte_append) auto
      moreover have "percent_byte (128 + ?n mod 64) @ u = percent_byte (128 + ?m mod 64) @ v \<Longrightarrow> 128 + ?n mod 64 = 128 + ?m mod 64 \<and> u = v"
        using small by (intro percent_byte_append) auto
      ultimately have "?n div 64 = ?m div 64" "?n mod 64 = ?m mod 64" "u = v" by simp_all
      then have "?n = ?m" by (metis div_mult_mod_eq)
      with \<open>u = v\<close> show ?thesis by simp
    qed
  qed
qed

lemma encode_nonempty: "encode_char c \<noteq> []"
  by (simp add: encode_char_def percent_byte_def Let_def)

lemma encodeURIComponent_inj: "encodeURIComponent s = encodeURIComponent t \<Longrightarrow> s = t"
proof (induction s arbitrary: t)
  case Nil
  then show ?case by (cases t) (simp_all add: encodeURIComponent_def encode_nonempty)
next
  case (Cons c s)
  then obtain d t' where "t = d # t'" by (cases t) (simp_all add: encodeURIComponent_def encode_nonempty)
  with Cons show ?case using encode_char_prefix [of c _ d] by (simp add: encodeURIComponent_def)
qed

lemma encoded_chars:
  assumes "x \<in> set (encodeURIComponent s)" shows "unreserved x \<or> x = CHR ''%''"
proof -
  have hex: "unreserved (upper_hex n)" if "n < 16" for n
    using that by (auto simp: upper_hex_def unreserved_def is_alpha_def is_upper_alpha_def is_digit_def)
  have byte: "unreserved y \<or> y = CHR ''%''" if "y \<in> set (percent_byte b)" "b < 256" for y b
    using that hex [of "b div 16"] hex [of "b mod 16"] by (auto simp: percent_byte_def)
  obtain c where c: "x \<in> set (encode_char c)" using assms by (auto simp: encodeURIComponent_def)
  have "192 + of_char c div 64 < (256 :: nat)" "128 + of_char c mod 64 < (256 :: nat)" using lead_byte [of c] by auto
  then have "\<forall>y \<in> set (percent_byte (192 + of_char c div 64)) \<union> set (percent_byte (128 + of_char c mod 64)). unreserved y \<or> y = CHR ''%''"
    using byte by blast
  moreover have "\<forall>y \<in> set (percent_byte (of_char c)). unreserved y \<or> y = CHR ''%''" using byte by simp
  moreover have "x \<in> set (percent_byte (192 + of_char c div 64)) \<union> set (percent_byte (128 + of_char c mod 64)) \<union> set (percent_byte (of_char c)) \<or> unreserved x"
    using c by (auto simp: encode_char_def Let_def split: if_splits)
  ultimately show ?thesis by blast
qed

lemma slash_not_encoded: "CHR ''/'' \<notin> set (encodeURIComponent s)" "CHR ''?'' \<notin> set (encodeURIComponent s)"
  using encoded_chars [of "CHR ''/''" s] encoded_chars [of "CHR ''?''" s]
  by (auto simp: unreserved_def is_alpha_def is_lower_alpha_def is_upper_alpha_def is_digit_def)

lemma task_path_inj: "task_path a = task_path b \<Longrightarrow> a = b"
proof -
  assume e: "task_path a = task_path b"
  let ?parts = "\<lambda>r. [encodeURIComponent (tr_repositoryId r), encodeURIComponent (tr_serviceId r), encodeURIComponent (tr_taskId r)]"
  have "task_path r = ''/v1/tasks/'' @ join_with [CHR ''/''] (?parts r)" for r by (simp add: task_path_def)
  then have "join_with [CHR ''/''] (?parts a) = join_with [CHR ''/''] (?parts b)" using e by simp
  then have "?parts a = ?parts b" by (rule join_inj [rotated 4]) (simp_all add: slash_not_encoded)
  then show "a = b" using encodeURIComponent_inj by (intro TaskRef.equality) auto
qed

text \<open>The path of a task's details determines the task: whatever characters the identifiers contain, two different tasks are
  never asked for under the same path, and no identifier can start another segment or the query.\<close>

theorem task_paths_distinguish:
  "(task_path a = task_path b \<longleftrightarrow> a = b)
    \<and> length (filter (\<lambda>c. c = CHR ''/'') (task_path a)) = 5 \<and> CHR ''?'' \<notin> set (task_path a)"
proof -
  have none: "filter (\<lambda>c. c = CHR ''/'') (encodeURIComponent s) = []" for s
    using slash_not_encoded(1) [of s] by (auto simp: filter_empty_conv)
  show ?thesis using task_path_inj slash_not_encoded(2) by (auto simp: none, simp_all add: task_path_def none)
qed

definition well_formed_descriptor :: "DocsRepoDescriptor \<Rightarrow> bool" where
  "well_formed_descriptor d =
     (dd_remoteUrl d \<noteq> [] \<and> trim (dd_remoteUrl d) = dd_remoteUrl d \<and> dd_branch d \<noteq> [] \<and> trim (dd_branch d) = dd_branch d
      \<and> HEAD_SHA_RE (dd_headSha d) \<and> to_lower (dd_headSha d) = dd_headSha d)"

definition descriptor_doc :: "DocsRepoDescriptor \<Rightarrow> json" where
  "descriptor_doc d = JObj [(''docsRepo'', JObj [(''remoteUrl'', JStr (dd_remoteUrl d)), (''branch'', JStr (dd_branch d)),
     (''headSha'', JStr (dd_headSha d))])]"


lemma trim_idem [simp]: "trim (trim s) = trim s"
proof -
  have starts: "dropWhile is_space (rev (dropWhile is_space (rev t))) = rev (dropWhile is_space (rev t))"
    if "dropWhile is_space t = t" for t
  proof (cases "rev (dropWhile is_space (rev t))")
    case (Cons c cs)
    have "\<exists>u. t = rev (dropWhile is_space (rev t)) @ u"
      by (metis rev_append rev_rev_ident takeWhile_dropWhile_id)
    then have "hd t = c" "t \<noteq> []" using Cons by auto
    then have "\<not> is_space c" using that by (metis dropWhile_eq_self_iff)
    with Cons show ?thesis by simp
  next
    case Nil
    show ?thesis unfolding Nil by simp
  qed
  have "dropWhile is_space (dropWhile is_space s) = dropWhile is_space s" by (rule dropWhile_idem)
  from starts [OF this] show ?thesis
    by (simp add: trim_def)
qed

lemma to_lower_idem [simp]: "to_lower (to_lower s) = to_lower s"
proof -
  have "lower_char (lower_char c) = lower_char c" for c
  proof -
    have "of_char c < (256 :: nat)" by (rule nat_of_char_less_256)
    then show ?thesis by (auto simp: lower_char_def Let_def)
  qed
  then show ?thesis by (simp add: to_lower_def o_def)
qed

lemma lower_hex: "HEAD_SHA_RE s \<Longrightarrow> HEAD_SHA_RE (to_lower s)"
proof -
  have "is_hex_any (lower_char c)" if "is_hex_any c" for c
    using that by (auto simp: is_hex_any_def is_digit_def lower_char_def Let_def)
  then show "HEAD_SHA_RE s \<Longrightarrow> HEAD_SHA_RE (to_lower s)" by (auto simp: HEAD_SHA_RE_def to_lower_def list_all_iff)
qed

text \<open>A descriptor is accepted with a non-blank remote and branch without surrounding blanks and forty lower-case hexadecimal
  digits, and such a descriptor is read back as it was written.\<close>

theorem descriptor_round_trip:
  "(parseDescriptor (descriptor_doc d) = Inr d \<longleftrightarrow> well_formed_descriptor d)
    \<and> (case parseDescriptor v of Inr x \<Rightarrow> well_formed_descriptor x
       | Inl e \<Rightarrow> e = coordinationError invalid_descriptor ''service returned an invalid docs-repo descriptor'')"
proof -
  have good: "well_formed_descriptor x" if "parseDescriptor v = Inr x" for v x
    using that lower_hex by (auto simp: parseDescriptor_def Let_def well_formed_descriptor_def split: option.splits if_splits)
  have bad: "e = coordinationError invalid_descriptor ''service returned an invalid docs-repo descriptor''" if "parseDescriptor v = Inl e" for v e
    using that by (auto simp: parseDescriptor_def Let_def split: option.splits if_splits)
  have again: "parseDescriptor (descriptor_doc d) = Inr d" if "well_formed_descriptor d"
    using that by (simp add: parseDescriptor_def descriptor_doc_def field_def entries_of_def or_empty_def text_of_def well_formed_descriptor_def)
  show ?thesis using good bad again by (auto split: sum.splits)
qed

text \<open>A lease is accepted without the time it expires at.\<close>

lemma lease_without_expiry_accepted:
  "\<exists>v. parseLease ''acquire'' v = Inr v \<and> field v ''expiresAt'' = None"
  by (rule exI [where x = "JObj [(''leaseId'', JStr ''l''), (''owner'', JStr ''o''), (''fencingToken'', JNum (Fin 1)), (''coordinatorEpoch'', JNum (Fin 1)),
      (''key'', JObj [(''repositoryId'', JStr ''r''), (''target'', JStr ''t'')])]"])
    (simp add: parseLease_def has_text_def has_number_def sub_def field_def entries_of_def text_of_def)

end
