(* ===== verification/Coordination_Docs.thy ===== *)
theory Coordination_Docs
  imports Gate_Config
begin

text \<open>
  The documents that an agent registers in the shared documents repository (\<open>coordination/ScopeTemplates.ts\<close>,
  \<open>DebtTemplates.ts\<close> and the proposal of \<open>coordinationTaskCreateActions.ts\<close>): the validation of their identifiers and texts, and the
  paths they are written to.
\<close>

section \<open>Identifiers\<close>

definition MAX_ID_LENGTH :: nat where
  "MAX_ID_LENGTH = 128"

definition is_alnum :: "char \<Rightarrow> bool" where
  "is_alnum c = (is_alpha c \<or> is_digit c)"

definition id_char :: "char \<Rightarrow> bool" where
  "id_char c = (is_alnum c \<or> c \<in> set ''._:@-'')"

definition validateScopeIdentity :: "string \<Rightarrow> string option" where
  "validateScopeIdentity v =
     (if v = [] \<or> MAX_ID_LENGTH < length v \<or> \<not> is_alnum (hd v)
      then Some ''identifier must start with an ASCII letter or digit and be at most 128 bytes''
      else if \<not> list_all id_char v then Some ''identifier contains an unsupported character''
      else None)"

definition requireIdentity :: "string \<Rightarrow> string \<Rightarrow> string + unit" where
  "requireIdentity kind v = (case validateScopeIdentity v of None \<Rightarrow> Inr () | Some e \<Rightarrow> Inl (kind @ '': '' @ e))"

section \<open>Scope documents\<close>

record ScopeDocument =
  sp_repository :: "string option"
  sp_service :: "(string \<times> string) option"
  sp_product :: "(string \<times> (string \<times> string) list) option"

definition repositoryDocument :: "string \<Rightarrow> string + ScopeDocument" where
  "repositoryDocument repositoryId =
     bind_result (requireIdentity ''repositoryId'' repositoryId)
       (\<lambda>_. Inr \<lparr>sp_repository = Some repositoryId, sp_service = None, sp_product = None\<rparr>)"

definition serviceDocument :: "string \<Rightarrow> string \<Rightarrow> string + ScopeDocument" where
  "serviceDocument repositoryId serviceId =
     bind_result (requireIdentity ''repositoryId'' repositoryId) (\<lambda>_.
       bind_result (requireIdentity ''serviceId'' serviceId)
         (\<lambda>_. Inr \<lparr>sp_repository = None, sp_service = Some (repositoryId, serviceId), sp_product = None\<rparr>))"

text \<open>\<open>const [a, b] = ref.split("/")\<close>: further parts are dropped.\<close>

definition service_ref :: "string \<Rightarrow> (string \<times> string) option" where
  "service_ref ref =
     (case split_on (CHR ''/'') ref of
        r # s # _ \<Rightarrow> if r \<noteq> [] \<and> s \<noteq> [] \<and> validateScopeIdentity r = None \<and> validateScopeIdentity s = None then Some (r, s) else None
      | _ \<Rightarrow> None)"

definition seen_key :: "string \<times> string \<Rightarrow> string" where
  "seen_key s = fst s @ NUL # snd s"

fun service_refs :: "string list \<Rightarrow> string list \<Rightarrow> string + (string \<times> string) list" where
  "service_refs seen [] = Inr []"
| "service_refs seen (ref # refs) =
     (case service_ref ref of
        None \<Rightarrow> Inl (''service reference must be <repositoryId>/<serviceId>: '' @ ref)
      | Some s \<Rightarrow>
          if seen_key s \<in> set seen then Inl (''product references service more than once: '' @ ref)
          else bind_result (service_refs (seen @ [seen_key s]) refs) (\<lambda>ss. Inr (s # ss)))"

definition productDocument :: "string \<Rightarrow> string list \<Rightarrow> string + ScopeDocument" where
  "productDocument productId serviceRefs =
     bind_result (requireIdentity ''productId'' productId) (\<lambda>_.
       if serviceRefs = [] then Inl ''product must reference at least one service''
       else bind_result (service_refs [] serviceRefs)
         (\<lambda>services. Inr \<lparr>sp_repository = None, sp_service = None, sp_product = Some (productId, services)\<rparr>))"

definition scopeDocumentPath :: "ScopeDocument \<Rightarrow> string + string" where
  "scopeDocumentPath d =
     (case (sp_repository d, sp_service d, sp_product d) of
        (Some r, _, _) \<Rightarrow> Inr (''repositories/'' @ r @ ''/scope.json'')
      | (None, Some (r, s), _) \<Rightarrow> Inr (''services/'' @ r @ ''/'' @ s @ ''/scope.json'')
      | (None, None, Some (p, _)) \<Rightarrow> Inr (''products/'' @ p @ ''/scope.json'')
      | (None, None, None) \<Rightarrow> Inl ''scope document must declare exactly one of repository/service/product'')"

section \<open>Debt documents\<close>

definition DEBT_STATUSES :: "string list" where
  "DEBT_STATUSES = [''deferred'', ''accepted'', ''resolved'', ''superseded'']"

record DebtDocument =
  db_repositoryId :: string
  db_serviceId :: string
  db_debtId :: string
  db_title :: string
  db_reason :: string
  db_reconsiderCondition :: string
  db_acceptanceCriteria :: "string option"
  db_status :: string

definition requireText :: "string \<Rightarrow> string \<Rightarrow> nat \<Rightarrow> nat \<Rightarrow> string + unit" where
  "requireText kind v lo hi =
     (if length (trim v) < lo \<or> hi < length (trim v)
      then Inl (kind @ '' must be '' @ show_nat lo @ ''..'' @ show_nat hi @ '' characters'') else Inr ())"

record DebtInput =
  de_repositoryId :: string
  de_serviceId :: string
  de_debtId :: string
  de_title :: string
  de_reason :: string
  de_reconsiderCondition :: string
  de_acceptanceCriteria :: "string option"
  de_status :: "string option"

definition debtDocument :: "DebtInput \<Rightarrow> string + DebtDocument" where
  "debtDocument i =
     bind_result (requireIdentity ''repositoryId'' (de_repositoryId i)) (\<lambda>_.
     bind_result (requireIdentity ''serviceId'' (de_serviceId i)) (\<lambda>_.
     bind_result (requireIdentity ''debtId'' (de_debtId i)) (\<lambda>_.
     bind_result (requireText ''title'' (de_title i) 1 240) (\<lambda>_.
     bind_result (requireText ''reason'' (de_reason i) 1 2000) (\<lambda>_.
     bind_result (requireText ''reconsiderCondition'' (de_reconsiderCondition i) 1 500) (\<lambda>_.
       let status = or_default (de_status i) ''deferred''
       in if status \<notin> set DEBT_STATUSES then Inl (''status must be one of: '' @ join_with '', '' DEBT_STATUSES)
          else Inr \<lparr>db_repositoryId = de_repositoryId i, db_serviceId = de_serviceId i, db_debtId = de_debtId i,
            db_title = trim (de_title i), db_reason = trim (de_reason i), db_reconsiderCondition = trim (de_reconsiderCondition i),
            db_acceptanceCriteria = (case de_acceptanceCriteria i of None \<Rightarrow> None | Some a \<Rightarrow> if trim a = [] then None else Some (trim a)),
            db_status = status\<rparr>))))))"

definition debtDocumentPath :: "DebtDocument \<Rightarrow> string" where
  "debtDocumentPath d = ''debts/'' @ db_repositoryId d @ ''/'' @ db_serviceId d @ ''/'' @ db_debtId d @ ''.json''"

section \<open>Where documents are written\<close>

text \<open>\<open>path.join(root, ...)\<close> below an absolute root.\<close>

definition node_join :: "string \<Rightarrow> string list \<Rightarrow> string" where
  "node_join base parts = render_absolute (absolute_segments (base @ ''/'' @ join_with ''/'' parts))"

text \<open>The target of a task proposal: its identifiers are taken from the file as they are.\<close>

definition proposal_path :: "string \<Rightarrow> string \<Rightarrow> string \<Rightarrow> string \<Rightarrow> string" where
  "proposal_path docsRepo repositoryId serviceId taskId = node_join docsRepo [''tasks'', repositoryId, serviceId, taskId, ''proposal.json'']"

section \<open>Valid identifiers are plain segments\<close>

lemma identity_chars:
  assumes "validateScopeIdentity v = None"
  shows "v \<noteq> []" "is_alnum (hd v)" "list_all id_char v" "length v \<le> 128"
  using assms by (auto simp: validateScopeIdentity_def MAX_ID_LENGTH_def split: if_splits)

lemma identity_plain:
  assumes "validateScopeIdentity v = None" shows "plain_segment v" "plain_segment (v @ ''.json'')" "NUL \<notin> set v" "CHR ''/'' \<notin> set v"
proof -
  note v = identity_chars [OF assms]
  have "\<not> id_char (CHR ''/'')" "\<not> id_char NUL" "\<not> is_alnum (CHR ''.'')"
    by (simp_all add: id_char_def is_alnum_def is_alpha_def is_lower_alpha_def is_upper_alpha_def is_digit_def NUL_def)
  moreover have "v = hd v # tl v" using v(1) by simp
  ultimately show "plain_segment v" "plain_segment (v @ ''.json'')" "NUL \<notin> set v" "CHR ''/'' \<notin> set v"
    using v by (auto simp: plain_segment_def list_all_iff)
qed

lemma requireIdentity_Inr [simp]: "requireIdentity k v = Inr u \<longleftrightarrow> validateScopeIdentity v = None"
  by (simp add: requireIdentity_def split: option.splits)

lemma requireText_Inr [simp]: "requireText k v lo hi = Inr u \<longleftrightarrow> lo \<le> length (trim v) \<and> length (trim v) \<le> hi"
  by (auto simp: requireText_def)

lemma service_ref_parts: "service_ref r = Some (a, b) \<Longrightarrow> validateScopeIdentity a = None \<and> validateScopeIdentity b = None"
  by (auto simp: service_ref_def split: list.splits if_splits)

lemma service_refs_distinct:
  "service_refs seen refs = Inr ss \<Longrightarrow> distinct (map seen_key ss) \<and> set (map seen_key ss) \<inter> set seen = {}
     \<and> (\<forall>(a, b) \<in> set ss. validateScopeIdentity a = None \<and> validateScopeIdentity b = None) \<and> length ss = length refs"
proof (induction seen refs arbitrary: ss rule: service_refs.induct)
  case (2 seen ref refs)
  then obtain s ss' where s: "service_ref ref = Some s" "seen_key s \<notin> set seen" "service_refs (seen @ [seen_key s]) refs = Inr ss'" "ss = s # ss'"
    by (auto split: option.splits if_splits)
  from "2.IH" [OF s(1,2,3)] s service_ref_parts [of ref "fst s" "snd s"] show ?case by auto
qed simp

lemma seen_key_inj:
  assumes "seen_key a = seen_key b" "validateScopeIdentity (fst a) = None" "validateScopeIdentity (fst b) = None"
  shows "a = b"
proof -
  have "split_on NUL (seen_key a) = split_on NUL (seen_key b)" using assms(1) by simp
  then have "fst a = fst b \<and> split_on NUL (snd a) = split_on NUL (snd b)"
    using identity_plain(3) [OF assms(2)] identity_plain(3) [OF assms(3)] by (simp add: seen_key_def split_on_append_sep)
  then show ?thesis using assms(1) by (simp add: seen_key_def prod_eq_iff)
qed

section \<open>Paths\<close>

text \<open>The identity of a document and the segments of its path below the documents repository.\<close>

datatype Template = scope_repository string | scope_service string string | scope_product string "(string \<times> string) list" | debt_template DebtDocument

fun registered :: "Template \<Rightarrow> bool" where
  "registered (scope_repository r) = (\<exists>d. repositoryDocument r = Inr d)"
| "registered (scope_service r s) = (\<exists>d. serviceDocument r s = Inr d)"
| "registered (scope_product p ss) = (\<exists>refs. productDocument p refs = Inr \<lparr>sp_repository = None, sp_service = None, sp_product = Some (p, ss)\<rparr>)"
| "registered (debt_template d) = (\<exists>i. debtDocument i = Inr d)"

fun template_path :: "Template \<Rightarrow> string" where
  "template_path (scope_repository r) = projr (scopeDocumentPath \<lparr>sp_repository = Some r, sp_service = None, sp_product = None\<rparr>)"
| "template_path (scope_service r s) = projr (scopeDocumentPath \<lparr>sp_repository = None, sp_service = Some (r, s), sp_product = None\<rparr>)"
| "template_path (scope_product p ss) = projr (scopeDocumentPath \<lparr>sp_repository = None, sp_service = None, sp_product = Some (p, ss)\<rparr>)"
| "template_path (debt_template d) = debtDocumentPath d"

fun template_segments :: "Template \<Rightarrow> string list" where
  "template_segments (scope_repository r) = [''repositories'', r, ''scope.json'']"
| "template_segments (scope_service r s) = [''services'', r, s, ''scope.json'']"
| "template_segments (scope_product p ss) = [''products'', p, ''scope.json'']"
| "template_segments (debt_template d) = [''debts'', db_repositoryId d, db_serviceId d, db_debtId d @ ''.json'']"

lemma template_path_segments: "template_path t = join_with ''/'' (template_segments t)"
  by (cases t) (simp_all add: scopeDocumentPath_def debtDocumentPath_def)

lemma debt_fields:
  assumes "debtDocument i = Inr d"
  shows "validateScopeIdentity (db_repositoryId d) = None" "validateScopeIdentity (db_serviceId d) = None" "validateScopeIdentity (db_debtId d) = None"
    "db_status d \<in> set DEBT_STATUSES" "db_title d = trim (de_title i)"
    "1 \<le> length (db_title d) \<and> length (db_title d) \<le> 240" "1 \<le> length (db_reason d) \<and> length (db_reason d) \<le> 2000"
    "1 \<le> length (db_reconsiderCondition d) \<and> length (db_reconsiderCondition d) \<le> 500"
  using assms by (auto simp: debtDocument_def Let_def split: if_splits)

lemma registered_plain: "registered t \<Longrightarrow> \<forall>s \<in> set (template_segments t). plain_segment s"
  using identity_plain
  by (cases t) (auto simp: repositoryDocument_def serviceDocument_def productDocument_def plain_segment_def dest: debt_fields split: if_splits)

lemma segments_append:
  assumes "\<forall>s \<in> set segs. plain_segment s" shows "foldl path_step acc segs = acc @ segs"
  using assms by (induction segs arbitrary: acc) (simp_all add: path_step_append)

lemma split_on_append: "split_on c (a @ c # b) = split_on c a @ split_on c b"
proof (induction a)
  case (Cons x a)
  then show ?case by (cases "split_on c a") auto
qed simp

lemma join_below:
  assumes "segs \<noteq> []" "\<forall>s \<in> set segs. plain_segment s"
  shows "absolute_segments (base @ ''/'' @ join_with ''/'' segs) = absolute_segments base @ segs"
proof -
  have "\<forall>s \<in> set segs. CHR ''/'' \<notin> set s" using assms(2) by (simp add: plain_segment_def)
  then have "split_on (CHR ''/'') (join_with ''/'' segs) = segs" using assms(1) by (intro split_join) auto
  then have "split_on (CHR ''/'') (base @ ''/'' @ join_with ''/'' segs) = split_on (CHR ''/'') base @ segs"
    by (simp add: split_on_append)
  then show ?thesis using segments_append [OF assms(2)] by (simp add: absolute_segments_def)
qed

lemma template_segments_inj:
  assumes "template_segments a = template_segments b"
  shows "(case (a, b) of (scope_repository r, scope_repository r') \<Rightarrow> r = r'
      | (scope_service r s, scope_service r' s') \<Rightarrow> r = r' \<and> s = s'
      | (scope_product p ss, scope_product p' ss') \<Rightarrow> p = p'
      | (debt_template d, debt_template d') \<Rightarrow> db_repositoryId d = db_repositoryId d' \<and> db_serviceId d = db_serviceId d' \<and> db_debtId d = db_debtId d'
      | _ \<Rightarrow> False)"
  using assms by (cases a; cases b) simp_all

text \<open>C33: A registered document is written at its own place below the documents repository: its path adds exactly the segments of its
  kind and identifiers to those of the root, and two documents share a path only if they are of the same kind and have the same
  identifiers.\<close>

theorem documents_stay_apart:
  assumes "registered a" "registered b"
  shows "absolute_segments (base @ ''/'' @ template_path a) = absolute_segments base @ template_segments a
    \<and> (node_join base [template_path a] = node_join base [template_path b] \<longrightarrow>
        (case (a, b) of (scope_repository r, scope_repository r') \<Rightarrow> r = r'
          | (scope_service r s, scope_service r' s') \<Rightarrow> r = r' \<and> s = s'
          | (scope_product p ss, scope_product p' ss') \<Rightarrow> p = p'
          | (debt_template d, debt_template d') \<Rightarrow> db_repositoryId d = db_repositoryId d' \<and> db_serviceId d = db_serviceId d' \<and> db_debtId d = db_debtId d'
          | _ \<Rightarrow> False))"
proof -
  have below: "absolute_segments (base @ ''/'' @ template_path t) = absolute_segments base @ template_segments t" if "registered t" for t
    unfolding template_path_segments by (rule join_below) (use registered_plain [OF that] in \<open>cases t; simp\<close>)+
  have "template_segments a = template_segments b" if "node_join base [template_path a] = node_join base [template_path b]"
  proof -
    let ?segs = "\<lambda>t. absolute_segments (base @ ''/'' @ template_path t)"
    have none: "?segs t \<noteq> [] \<and> (\<forall>s \<in> set (?segs t). CHR ''/'' \<notin> set s)" if "registered t" for t
    proof
      show "?segs t \<noteq> []" unfolding below [OF that] by (cases t) simp_all
      show "\<forall>s \<in> set (?segs t). CHR ''/'' \<notin> set s" using absolute_segments_plain plain_segment_def by blast
    qed
    from that have "join_with [CHR ''/''] (?segs a) = join_with [CHR ''/''] (?segs b)" by (simp add: node_join_def render_absolute_def)
    then have "?segs a = ?segs b" by (rule join_inj [rotated 4]) (use none assms in auto)
    then show ?thesis using below assms by simp
  qed
  then show ?thesis using below [OF assms(1)] template_segments_inj by blast
qed

theorem documents_stay_apart_witness:
  "absolute_segments (''/docs'' @ ''/'' @ template_path (scope_service ''openarch'' ''cli'')) = [''docs'', ''services'', ''openarch'', ''cli'', ''scope.json'']"
proof -
  have "registered (scope_service ''openarch'' ''cli'')" by (simp add: serviceDocument_def validateScopeIdentity_def MAX_ID_LENGTH_def
        id_char_def is_alnum_def is_alpha_def is_lower_alpha_def bind_result_def requireIdentity_def)
  from documents_stay_apart [OF this this, of "''/docs''"] show ?thesis
    by (simp add: absolute_segments_def path_step_def)
qed

text \<open>A product document that is accepted names every service once.\<close>

lemma product_services:
  assumes "productDocument p refs = Inr d"
  shows "\<exists>ss. sp_product d = Some (p, ss) \<and> ss \<noteq> [] \<and> distinct ss \<and> length ss = length refs"
proof -
  obtain ss where ss: "service_refs [] refs = Inr ss" "refs \<noteq> []" "d = \<lparr>sp_repository = None, sp_service = None, sp_product = Some (p, ss)\<rparr>"
    using assms by (auto simp: productDocument_def split: if_splits)
  from service_refs_distinct [OF ss(1)] ss show ?thesis by (auto simp: distinct_map)
qed

text \<open>A reference with more than two parts is accepted, and the rest of it is dropped.\<close>

lemma long_reference_accepted: "service_ref ''a/b/c'' = Some (''a'', ''b'')"
  by (simp add: service_ref_def validateScopeIdentity_def MAX_ID_LENGTH_def id_char_def is_alnum_def is_alpha_def is_lower_alpha_def)

text \<open>The identifiers of a proposal are not checked: it can be written outside the documents repository.\<close>

lemma proposal_outside: "proposal_path ''/docs'' ''../../etc'' ''s'' ''t'' = ''/etc/s/t/proposal.json''"
  by (simp add: proposal_path_def node_join_def render_absolute_def absolute_segments_def path_step_def)

end
