(* ===== verification/Coordination_Commands.thy ===== *)
theory Coordination_Commands
  imports Coordination_Client Coordination_Docs
begin

text \<open>
  The configuration of the coordination service (\<open>application/coordinationConfig.ts\<close>), the check that service and local documents
  repository agree (\<open>coordinationContext.ts\<close>), and the commands of \<open>openarch coordination\<close>. A command takes its arguments and a world
  and gives an exit code; what is printed is left out. Git, the disk and the WHATWG URL parser are arguments; \<open>None\<close> is a command that
  does not return. The tables of handlers are JavaScript objects, whose inherited keys (\<open>constructor\<close>, \<open>toString\<close>) are left out: with such a
  word as subcommand the code calls the inherited function instead of printing its usage.
\<close>

section \<open>Configuration\<close>

record ParsedUrl =
  pu_protocol :: string
  pu_host :: string
  pu_hostname :: string
  pu_pathname :: string
  pu_username :: string
  pu_password :: string
  pu_search :: string
  pu_hash :: string

definition canonicalUrl :: "(string \<Rightarrow> ParsedUrl option) \<Rightarrow> json option \<Rightarrow> string option" where
  "canonicalUrl newURL v =
     (case text_of v of
        None \<Rightarrow> None
      | Some s \<Rightarrow>
          if trim s = [] then None
          else (case newURL (trim s) of
             None \<Rightarrow> None
           | Some u \<Rightarrow>
               if (pu_protocol u \<noteq> ''http:'' \<and> pu_protocol u \<noteq> ''https:'') \<or> pu_hostname u = [] then None
               else if pu_username u \<noteq> [] \<or> pu_password u \<noteq> [] \<or> pu_search u \<noteq> [] \<or> pu_hash u \<noteq> [] then None
               else Some (pu_protocol u @ ''//'' @ pu_host u @ strip_slashes (pu_pathname u))))"

datatype ConfigRead = config_absent | config_found string | config_invalid string

text \<open>The file of the project: absent, no JSON, or a value.\<close>

type_synonym ConfigFile = "json option option"

definition readCoordinationConfig :: "(string \<Rightarrow> ParsedUrl option) \<Rightarrow> ConfigFile \<Rightarrow> ConfigRead" where
  "readCoordinationConfig newURL file =
     (case file of
        None \<Rightarrow> config_absent
      | Some None \<Rightarrow> config_invalid ''invalid JSON''
      | Some (Some raw) \<Rightarrow>
          if raw = JNull then config_invalid ''invalid JSON''
          else (case (if field raw ''version'' = Some (JNum (Fin 1)) then canonicalUrl newURL (field raw ''url'') else None) of
             None \<Rightarrow> config_invalid ''expected version 1 with an http(s) URL without credentials, query, or fragment''
           | Some url \<Rightarrow> config_found url))"

datatype ConfigWrite = config_configured string | config_unchanged string | config_cleared | config_was_absent | config_error string

definition configureCoordination ::
  "(string \<Rightarrow> ParsedUrl option) \<Rightarrow> string option \<Rightarrow> bool \<Rightarrow> ConfigFile \<Rightarrow> ConfigWrite \<times> ConfigFile" where
  "configureCoordination newURL url clear file =
     (if clear then (if file = None then (config_was_absent, file) else (config_cleared, None))
      else (case canonicalUrl newURL (map_option JStr url) of
         None \<Rightarrow> (config_error ''coordination URL must be an http(s) base URL without credentials, query, or fragment'', file)
       | Some u \<Rightarrow>
           if readCoordinationConfig newURL file = config_found u then (config_unchanged u, file)
           else (config_configured u, Some (Some (JObj [(''version'', JNum (Fin 1)), (''url'', JStr u)])))))"

section \<open>The environment of a command\<close>

record LocalDocs =
  ld_target :: string
  ld_local :: bool \<comment> \<open>\<open>type === "local"\<close>\<close>

record 'w CliEnv =
  en_service :: "'w Service"
  en_config :: ConfigRead
  en_docs :: "LocalDocs option"
  en_git :: "string \<Rightarrow> string list \<Rightarrow> 'w \<Rightarrow> (string + string) \<times> 'w"
  en_cwd :: string
  en_readJson :: "string \<Rightarrow> json option"
  en_exists :: "string \<Rightarrow> 'w \<Rightarrow> bool"
  en_write :: "string \<Rightarrow> json \<Rightarrow> 'w \<Rightarrow> 'w"
  en_number :: "string \<Rightarrow> jsnum" \<comment> \<open>\<open>Number(s)\<close>\<close>
  en_text :: "json \<Rightarrow> string" \<comment> \<open>\<open>String(v)\<close> of numbers, arrays and objects\<close>

type_synonym ('w, 'a) run = "'w \<Rightarrow> ((ClientError + 'a) \<times> 'w) option"

definition run_of :: "('w, 'a) act \<Rightarrow> ('w, 'a) run" where
  "run_of m w = Some (m w)"

definition run_bind :: "('w, 'a) run \<Rightarrow> ('a \<Rightarrow> ('w, 'b) run) \<Rightarrow> ('w, 'b) run" where
  "run_bind m k w = (case m w of None \<Rightarrow> None | Some (Inl e, w') \<Rightarrow> Some (Inl e, w') | Some (Inr x, w') \<Rightarrow> k x w')"

definition exit_with :: "nat \<Rightarrow> ('w, nat) run" where
  "exit_with n w = Some (Inr n, w)"

definition parseOptionValue :: "string list \<Rightarrow> string \<Rightarrow> string option" where
  "parseOptionValue args flag = (case dropWhile (\<lambda>a. a \<noteq> flag) args of _ # v # _ \<Rightarrow> Some v | _ \<Rightarrow> None)"

definition parseOptionValues :: "string list \<Rightarrow> string \<Rightarrow> string list" where
  "parseOptionValues args flag = takeWhile (\<lambda>a. \<not> starts_with a ''--'') (tl (dropWhile (\<lambda>a. a \<noteq> flag) args))"

definition given :: "string option \<Rightarrow> bool" where
  "given v = (v \<noteq> None \<and> v \<noteq> Some [])"

definition number_option :: "'w CliEnv \<Rightarrow> string option \<Rightarrow> string \<Rightarrow> jsnum" where
  "number_option env v fallback = en_number env (or_default v fallback)"

definition required_number :: "'w CliEnv \<Rightarrow> string option \<Rightarrow> jsnum" where
  "required_number env v = (case v of None \<Rightarrow> NaN | Some s \<Rightarrow> en_number env s)"

definition positive :: "jsnum \<Rightarrow> bool" where
  "positive n = (case n of Fin x \<Rightarrow> 0 < x | _ \<Rightarrow> False)"

definition git_text :: "'w CliEnv \<Rightarrow> string \<Rightarrow> string list \<Rightarrow> ('w, string) act" where
  "git_text env dir args w =
     (case en_git env dir args w of (Inl message, w') \<Rightarrow> (Inl (js_error message), w') | (Inr t, w') \<Rightarrow> (Inr (trim t), w'))"

section \<open>The service and the local documents repository\<close>

definition localDocsRemote :: "'w CliEnv \<Rightarrow> 'w \<Rightarrow> (string \<times> string) option \<times> 'w" where
  "localDocsRemote env w =
     (case en_docs env of
        None \<Rightarrow> (None, w)
      | Some docs \<Rightarrow>
          (case git_text env (ld_target docs) [''branch'', ''--show-current''] w of
             (Inl _, w1) \<Rightarrow> (None, w1)
           | (Inr branch, w1) \<Rightarrow>
               if ld_local docs then (Some (ld_target docs, branch), w1)
               else (case git_text env (ld_target docs) [''remote'', ''get-url'', ''origin''] w1 of
                  (Inl _, w2) \<Rightarrow> (None, w2)
                | (Inr remote, w2) \<Rightarrow> (Some (remote, branch), w2))))"

definition lower_drive :: "string \<Rightarrow> string" where
  "lower_drive s = (case s of c # d # r \<Rightarrow> if is_alpha c \<and> d = CHR '':'' then lower_char c # d # r else s | _ \<Rightarrow> s)"

definition scheme_char :: "char \<Rightarrow> bool" where
  "scheme_char c = (is_alnum c \<or> c \<in> set ''+.-'')"

definition lower_authority :: "string \<Rightarrow> string" where
  "lower_authority s =
     (let scheme = takeWhile scheme_char s; rest = drop (length scheme) s
      in if scheme \<noteq> [] \<and> is_alpha (hd scheme) \<and> starts_with rest ''://''
         then let body = drop 3 rest; authority = takeWhile (\<lambda>c. c \<noteq> CHR ''/'') body
              in to_lower scheme @ ''://'' @ to_lower authority @ drop (length authority) body
         else s)"

definition normalizedRemote :: "string \<Rightarrow> string" where
  "normalizedRemote v = lower_authority (strip_slashes (lower_drive (toPosixPath v)))"

datatype ContextState = ctx_not_configured | ctx_unavailable | ctx_available

record ContextFact =
  cx_state :: ContextState
  cx_detail :: string
  cx_descriptor :: "DocsRepoDescriptor option"

definition error_detail :: "ClientError \<Rightarrow> string" where
  "error_detail e =
     (case e of js_error m \<Rightarrow> m
      | coordination_error c \<Rightarrow>
          if ce_cause c = http_status
          then ''service returned HTTP '' @ (case ce_status c of None \<Rightarrow> ''error'' | Some n \<Rightarrow> show_nat n) @ '': '' @ ce_detail c
          else ce_detail c)"

definition collectCoordinationContext :: "'w CliEnv \<Rightarrow> 'w \<Rightarrow> ContextFact \<times> 'w" where
  "collectCoordinationContext env w =
     (case en_config env of
        config_found url \<Rightarrow>
          (case fetchDocsRepoDescriptor (en_service env) url w of
             (Inl e, w1) \<Rightarrow> (\<lparr>cx_state = ctx_unavailable, cx_detail = error_detail e, cx_descriptor = None\<rparr>, w1)
           | (Inr descriptor, w1) \<Rightarrow>
               (case localDocsRemote env w1 of (local, w2) \<Rightarrow>
                 if (case local of None \<Rightarrow> False
                     | Some (remote, branch) \<Rightarrow> normalizedRemote remote = normalizedRemote (dd_remoteUrl descriptor) \<and> branch = dd_branch descriptor)
                 then (\<lparr>cx_state = ctx_available, cx_detail = ''docs-repo descriptor and local DocumentStore match'', cx_descriptor = Some descriptor\<rparr>, w2)
                 else (\<lparr>cx_state = ctx_unavailable, cx_detail = ''service descriptor does not match the local DocumentStore remote/branch'',
                   cx_descriptor = Some descriptor\<rparr>, w2)))
      | _ \<Rightarrow> (\<lparr>cx_state = ctx_not_configured, cx_detail = ''coordination service is not explicitly configured'', cx_descriptor = None\<rparr>, w))"

definition requireConfigured :: "'w CliEnv \<Rightarrow> ('w, string) run" where
  "requireConfigured env w =
     Some (case en_config env of
        config_found url \<Rightarrow> (Inr url, w)
      | _ \<Rightarrow> (Inl (coordinationError http_status ''coordination service is not explicitly configured; run `openarch init --coordination-url <url>` in your project worktree (current directory is not an initialized OpenArch project)''), w))"

definition requireAvailable :: "'w CliEnv \<Rightarrow> ('w, unit) run" where
  "requireAvailable env w =
     Some (case collectCoordinationContext env w of (found, w') \<Rightarrow>
       (if cx_state found \<noteq> ctx_available
        then Inl (coordinationError http_status (''coordination service unavailable: '' @ cx_detail found)) else Inr (), w'))"

text \<open>The two guards that open every action that talks to the service.\<close>

definition connected :: "'w CliEnv \<Rightarrow> (string \<Rightarrow> ('w, nat) run) \<Rightarrow> ('w, nat) run" where
  "connected env k = run_bind (requireConfigured env) (\<lambda>url. run_bind (requireAvailable env) (\<lambda>_. k url))"

definition then_exit :: "('w, 'a) act \<Rightarrow> nat \<Rightarrow> ('w, nat) run" where
  "then_exit m n = run_bind (run_of m) (\<lambda>_. exit_with n)"

section \<open>Documents, leases and sessions\<close>

definition opt :: "string option \<Rightarrow> string" where
  "opt v = or_default v []"

definition bootstrapAction :: "'w CliEnv \<Rightarrow> string list \<Rightarrow> ('w, nat) run" where
  "bootstrapAction env args = connected env (\<lambda>url. then_exit (fetchDocsRepoDescriptor (en_service env) url) 0)"

definition refreshAction :: "'w CliEnv \<Rightarrow> string list \<Rightarrow> ('w, nat) run" where
  "refreshAction env args = connected env (\<lambda>url.
     let repositoryId = parseOptionValue args ''--repository-id''; branch = parseOptionValue args ''--branch''; headSha = parseOptionValue args ''--head-sha''
     in if \<not> given repositoryId \<or> \<not> given branch \<or> \<not> given headSha then exit_with 3
        else then_exit (postDocsRepoRefresh (en_service env) url (opt repositoryId) (opt branch) (opt headSha)) 0)"

definition scope_doc :: "ScopeDocument \<Rightarrow> json" where
  "scope_doc d = JObj ((''schemaVersion'', JStr ''1'')
     # (case sp_repository d of None \<Rightarrow> [] | Some r \<Rightarrow> [(''repository'', JObj [(''repositoryId'', JStr r)])])
     @ (case sp_service d of None \<Rightarrow> [] | Some (r, s) \<Rightarrow> [(''service'', JObj [(''repositoryId'', JStr r), (''serviceId'', JStr s)])])
     @ (case sp_product d of None \<Rightarrow> [] | Some (p, ss) \<Rightarrow> [(''product'', JObj [(''productId'', JStr p),
         (''services'', JArr (map (\<lambda>(r, s). JObj [(''repositoryId'', JStr r), (''serviceId'', JStr s)]) ss))])]))"

definition write_scope :: "'w CliEnv \<Rightarrow> string \<Rightarrow> string + ScopeDocument \<Rightarrow> ('w, unit) run" where
  "write_scope env docsRepo doc w =
     Some (case bind_result doc (\<lambda>d. bind_result (scopeDocumentPath d) (\<lambda>p. Inr (d, p))) of
        Inl e \<Rightarrow> (Inl (js_error e), w)
      | Inr (d, p) \<Rightarrow> (Inr (), en_write env (node_join docsRepo [p]) (scope_doc d) w))"

definition when_run :: "bool \<Rightarrow> ('w, unit) run \<Rightarrow> ('w, unit) run" where
  "when_run c m = (if c then m else (\<lambda>w. Some (Inr (), w)))"

definition docs_target :: "'w CliEnv \<Rightarrow> string" where
  "docs_target env = (case en_docs env of None \<Rightarrow> [] | Some d \<Rightarrow> ld_target d)"

definition scopeRegisterAction :: "'w CliEnv \<Rightarrow> string list \<Rightarrow> ('w, nat) run" where
  "scopeRegisterAction env args =
     (let repositoryId = parseOptionValue args ''--repository-id''; serviceId = parseOptionValue args ''--service-id'';
          productId = parseOptionValue args ''--product-id''; services = parseOptionValues args ''--service''
      in if \<not> given repositoryId \<and> \<not> given productId then exit_with 3
         else if docs_target env = [] then exit_with 3
         else run_bind (when_run (given repositoryId) (write_scope env (docs_target env) (repositoryDocument (opt repositoryId)))) (\<lambda>_.
              run_bind (when_run (given repositoryId \<and> given serviceId) (write_scope env (docs_target env) (serviceDocument (opt repositoryId) (opt serviceId)))) (\<lambda>_.
              run_bind (when_run (given productId) (write_scope env (docs_target env) (productDocument (opt productId) services))) (\<lambda>_.
              exit_with 0))))"

text \<open>\<open>projects/<basename>\<close>, with one segment that is neither \<open>.\<close> nor \<open>..\<close>.\<close>

definition legacy_path_ok :: "string \<Rightarrow> bool" where
  "legacy_path_ok canonical =
     (starts_with canonical ''projects/'' \<and> canonical \<noteq> ''projects/'' \<and> CHR ''/'' \<notin> set (drop 9 canonical)
      \<and> drop 9 canonical \<noteq> ''.'' \<and> drop 9 canonical \<noteq> ''..'')"

definition scopeMigrateAction :: "'w CliEnv \<Rightarrow> string list \<Rightarrow> ('w, nat) run" where
  "scopeMigrateAction env args w =
     (let repositoryId = parseOptionValue args ''--repository-id''; legacyPath = parseOptionValue args ''--legacy-path'';
          canonical = trim (toPosixPath (opt legacyPath)); docsRepo = docs_target env
      in if \<not> given repositoryId \<or> \<not> given legacyPath then exit_with 3 w
         else if \<not> legacy_path_ok canonical then exit_with 3 w
         else if docsRepo = [] then exit_with 3 w
         else if \<not> en_exists env (node_join docsRepo (split_on (CHR ''/'') canonical)) w then exit_with 3 w
         else (case bind_result (repositoryDocument (opt repositoryId)) (\<lambda>d. bind_result (scopeDocumentPath d) (\<lambda>p. Inr (d, p))) of
            Inl e \<Rightarrow> Some (Inl (js_error e), w)
          | Inr (d, p) \<Rightarrow>
              if en_exists env (node_join docsRepo [p]) w then exit_with 3 w
              else Some (Inr 0, en_write env (node_join docsRepo [p]) (scope_doc d) w)))"

definition debt_doc :: "DebtDocument \<Rightarrow> json" where
  "debt_doc d = JObj ([(''schemaVersion'', JStr ''1''),
       (''debt'', JObj [(''repositoryId'', JStr (db_repositoryId d)), (''serviceId'', JStr (db_serviceId d)), (''debtId'', JStr (db_debtId d))]),
       (''title'', JStr (db_title d)), (''reason'', JStr (db_reason d)), (''reconsiderCondition'', JStr (db_reconsiderCondition d))]
     @ (case db_acceptanceCriteria d of None \<Rightarrow> [] | Some a \<Rightarrow> [(''acceptanceCriteria'', JStr a)]) @ [(''status'', JStr (db_status d))])"

definition debtRegisterAction :: "'w CliEnv \<Rightarrow> string list \<Rightarrow> ('w, nat) run" where
  "debtRegisterAction env args w =
     (let v = parseOptionValue args; docsRepo = docs_target env
      in if list_ex (\<lambda>flag. \<not> given (v flag))
             [''--repository-id'', ''--service-id'', ''--debt-id'', ''--title'', ''--reason'', ''--reconsider-condition''] then exit_with 3 w
         else if docsRepo = [] then exit_with 3 w
         else (case debtDocument \<lparr>de_repositoryId = opt (v ''--repository-id''), de_serviceId = opt (v ''--service-id''), de_debtId = opt (v ''--debt-id''),
                 de_title = opt (v ''--title''), de_reason = opt (v ''--reason''), de_reconsiderCondition = opt (v ''--reconsider-condition''),
                 de_acceptanceCriteria = (if given (v ''--acceptance-criteria'') then v ''--acceptance-criteria'' else None),
                 de_status = (if given (v ''--status'') then v ''--status'' else None)\<rparr> of
            Inl e \<Rightarrow> Some (Inl (js_error e), w)
          | Inr d \<Rightarrow>
              if en_exists env (node_join docsRepo [debtDocumentPath d]) w then exit_with 3 w
              else Some (Inr 0, en_write env (node_join docsRepo [debtDocumentPath d]) (debt_doc d) w)))"

definition debtListAction :: "'w CliEnv \<Rightarrow> string list \<Rightarrow> ('w, nat) run" where
  "debtListAction env args = connected env (\<lambda>url. then_exit (listDebts (en_service env) url (parseOptionValue args ''--repository-id'')) 0)"

definition evidenceUploadAction :: "'w CliEnv \<Rightarrow> string list \<Rightarrow> ('w, nat) run" where
  "evidenceUploadAction env args =
     (let file = (case args of [] \<Rightarrow> None | a # rest \<Rightarrow> if a = ''upload'' then (case rest of [] \<Rightarrow> None | b # _ \<Rightarrow> Some b) else Some a)
      in if \<not> given file then exit_with 3
         else connected env (\<lambda>url. case en_readJson env (opt file) of
            None \<Rightarrow> exit_with 3
          | Some doc \<Rightarrow> then_exit (postEvidence (en_service env) url doc) 0))"

definition num_positive :: "jsnum \<Rightarrow> bool" where
  "num_positive n = (is_finite n \<and> positive n)"

definition leaseAcquireAction :: "'w CliEnv \<Rightarrow> string list \<Rightarrow> ('w, nat) run" where
  "leaseAcquireAction env args =
     (let repositoryId = parseOptionValue args ''--repository-id''; target = parseOptionValue args ''--target''; owner = parseOptionValue args ''--owner'';
          ttlSeconds = number_option env (parseOptionValue args ''--ttl'') ''30''; waitSeconds = number_option env (parseOptionValue args ''--wait'') ''0'';
          r = \<lparr>lr_repositoryId = opt repositoryId, lr_target = opt target, lr_owner = opt owner, lr_ttlSeconds = ttlSeconds\<rparr>
      in case waitSeconds of
           Fin s \<Rightarrow>
             if \<not> given repositoryId \<or> \<not> given target \<or> \<not> given owner \<or> \<not> num_positive ttlSeconds \<or> s < 0 then exit_with 3
             else connected env (\<lambda>url.
               if 0 < s then run_bind (acquireLeaseWithWait (en_service env) url r (Some (s * 1000)) None) (\<lambda>_. exit_with 0)
               else then_exit (acquireLease (en_service env) url r) 0)
         | _ \<Rightarrow> exit_with 3)"

definition credential_of :: "'w CliEnv \<Rightarrow> string list \<Rightarrow> string \<Rightarrow> Credential" where
  "credential_of env args idFlag =
     \<lparr>cr_id = opt (parseOptionValue args idFlag), cr_owner = opt (parseOptionValue args ''--owner''),
      cr_fencingToken = required_number env (parseOptionValue args ''--fencing-token''),
      cr_coordinatorEpoch = required_number env (parseOptionValue args ''--epoch'')\<rparr>"

definition credential_given :: "string list \<Rightarrow> string \<Rightarrow> Credential \<Rightarrow> bool" where
  "credential_given args idFlag c =
     (given (parseOptionValue args idFlag) \<and> given (parseOptionValue args ''--owner'') \<and> is_finite (cr_fencingToken c) \<and> is_finite (cr_coordinatorEpoch c))"

definition leaseRenewAction :: "'w CliEnv \<Rightarrow> string list \<Rightarrow> ('w, nat) run" where
  "leaseRenewAction env args =
     (let c = credential_of env args ''--lease-id''; ttlSeconds = number_option env (parseOptionValue args ''--ttl'') ''30''
      in if \<not> credential_given args ''--lease-id'' c \<or> \<not> num_positive ttlSeconds then exit_with 3
         else connected env (\<lambda>url. then_exit (renewLease (en_service env) url c ttlSeconds) 0))"

definition leaseReleaseAction :: "'w CliEnv \<Rightarrow> string list \<Rightarrow> ('w, nat) run" where
  "leaseReleaseAction env args =
     (let c = credential_of env args ''--lease-id''
      in if \<not> credential_given args ''--lease-id'' c then exit_with 3
         else connected env (\<lambda>url. then_exit (releaseLease (en_service env) url c) 0))"

definition leaseListAction :: "'w CliEnv \<Rightarrow> string list \<Rightarrow> ('w, nat) run" where
  "leaseListAction env args = connected env (\<lambda>url. then_exit (listLeases (en_service env) url (parseOptionValue args ''--repository-id'')) 0)"

definition sessionRegisterAction :: "'w CliEnv \<Rightarrow> string list \<Rightarrow> ('w, nat) run" where
  "sessionRegisterAction env args =
     (let repositoryId = parseOptionValue args ''--repository-id''; sessionId = parseOptionValue args ''--session-id''; owner = parseOptionValue args ''--owner'';
          ttlSeconds = number_option env (parseOptionValue args ''--ttl'') ''60''
      in if \<not> given repositoryId \<or> \<not> given sessionId \<or> \<not> given owner \<or> \<not> num_positive ttlSeconds then exit_with 3
         else connected env (\<lambda>url. then_exit (registerSession (en_service env) url (opt repositoryId) (opt sessionId) (opt owner) ttlSeconds) 0))"

definition sessionHeartbeatAction :: "'w CliEnv \<Rightarrow> string list \<Rightarrow> ('w, nat) run" where
  "sessionHeartbeatAction env args =
     (let c = credential_of env args ''--session-id''; ttlSeconds = number_option env (parseOptionValue args ''--ttl'') ''60''
      in if \<not> credential_given args ''--session-id'' c \<or> \<not> num_positive ttlSeconds then exit_with 3
         else connected env (\<lambda>url. then_exit (heartbeatSession (en_service env) url c ttlSeconds) 0))"

definition sessionCloseAction :: "'w CliEnv \<Rightarrow> string list \<Rightarrow> ('w, nat) run" where
  "sessionCloseAction env args =
     (let c = credential_of env args ''--session-id''
      in if \<not> credential_given args ''--session-id'' c then exit_with 3
         else connected env (\<lambda>url. then_exit (closeSession (en_service env) url c) 0))"

definition sessionListAction :: "'w CliEnv \<Rightarrow> string list \<Rightarrow> ('w, nat) run" where
  "sessionListAction env args = connected env (\<lambda>url. then_exit (listSessions (en_service env) url (parseOptionValue args ''--repository-id'')) 0)"

section \<open>Tasks\<close>

definition task_of :: "string list \<Rightarrow> TaskRef" where
  "task_of args = \<lparr>tr_repositoryId = opt (parseOptionValue args ''--repository-id''), tr_serviceId = opt (parseOptionValue args ''--service-id''),
     tr_taskId = opt (parseOptionValue args ''--task-id'')\<rparr>"

definition all_given :: "string list \<Rightarrow> string list \<Rightarrow> bool" where
  "all_given args flags = list_all (\<lambda>flag. given (parseOptionValue args flag)) flags"

definition task_flags :: "string list" where
  "task_flags = [''--repository-id'', ''--service-id'', ''--task-id'']"

definition taskSubmitAction :: "'w CliEnv \<Rightarrow> string list \<Rightarrow> ('w, nat) run" where
  "taskSubmitAction env args =
     (if \<not> all_given args (task_flags @ [''--branch'', ''--head-sha'']) then exit_with 3
      else connected env (\<lambda>url. then_exit (submitTask (en_service env) url (task_of args)
        (opt (parseOptionValue args ''--branch'')) (opt (parseOptionValue args ''--head-sha''))) 0))"

text \<open>\<open>proposalSha256 ?? (await getTaskDetail(...)).proposalSha256\<close>\<close>

definition resolved_proposal :: "'w CliEnv \<Rightarrow> string list \<Rightarrow> string \<Rightarrow> ('w, string) run" where
  "resolved_proposal env args url =
     (case parseOptionValue args ''--proposal-sha256'' of
        Some p \<Rightarrow> (\<lambda>w. Some (Inr p, w))
      | None \<Rightarrow> run_of (act_map (\<lambda>d. Inr (td_proposalSha256 d)) (getTaskDetail (en_text env) (en_service env) url (task_of args))))"

definition taskClaimAction :: "'w CliEnv \<Rightarrow> string list \<Rightarrow> ('w, nat) run" where
  "taskClaimAction env args =
     (if \<not> all_given args (task_flags @ [''--claimed-by'']) then exit_with 3
      else connected env (\<lambda>url. run_bind (resolved_proposal env args url) (\<lambda>proposal.
        then_exit (claimTask (en_service env) url (task_of args) proposal (opt (parseOptionValue args ''--claimed-by''))) 0)))"

definition completion_of :: "string list \<Rightarrow> string \<Rightarrow> string \<Rightarrow> Completion" where
  "completion_of args proposal headSHA =
     \<lparr>cm_task = task_of args, cm_proposalSha256 = proposal, cm_completedBy = opt (parseOptionValue args ''--completed-by''), cm_headSHA = headSHA,
      cm_target = opt (parseOptionValue args ''--target''), cm_leaseId = opt (parseOptionValue args ''--lease-id'')\<rparr>"

definition completion_flags :: "string list" where
  "completion_flags = task_flags @ [''--completed-by'', ''--target'', ''--lease-id'']"

definition gitRevParse :: "'w CliEnv \<Rightarrow> string \<Rightarrow> ('w, string) run" where
  "gitRevParse env ref = run_of (git_text env (en_cwd env) [''rev-parse'', ref])"

definition currentBranch :: "'w CliEnv \<Rightarrow> ('w, string) run" where
  "currentBranch env = run_of (git_text env (en_cwd env) [''branch'', ''--show-current''])"

definition taskCompleteLocalAction :: "'w CliEnv \<Rightarrow> string list \<Rightarrow> ('w, nat) run" where
  "taskCompleteLocalAction env args =
     (if \<not> all_given args completion_flags then exit_with 3
      else connected env (\<lambda>url. run_bind (resolved_proposal env args url) (\<lambda>proposal.
        run_bind (gitRevParse env ''HEAD'') (\<lambda>localHead.
          then_exit (completeLocalTask (en_service env) url (completion_of args proposal localHead)) 0))))"

definition taskCompleteAction :: "'w CliEnv \<Rightarrow> string list \<Rightarrow> ('w, nat) run" where
  "taskCompleteAction env args =
     (if \<not> all_given args completion_flags then exit_with 3
      else connected env (\<lambda>url. run_bind (currentBranch env) (\<lambda>branch. run_bind (gitRevParse env ''HEAD'') (\<lambda>localHead.
        run_bind (gitRevParse env (''origin/'' @ branch)) (\<lambda>remoteHead.
          if localHead \<noteq> remoteHead then exit_with 3
          else run_bind (resolved_proposal env args url) (\<lambda>proposal.
            then_exit (completeTask (en_service env) url (completion_of args proposal remoteHead)) 0))))))"

definition js_falsy :: "json option \<Rightarrow> bool" where
  "js_falsy v = (v \<in> {None, Some JNull, Some (JBool False), Some (JNum (Fin 0)), Some (JNum NaN), Some (JStr [])})"

definition git_step :: "'w CliEnv \<Rightarrow> string list \<Rightarrow> ('w, unit) run" where
  "git_step env args = run_of (act_map (\<lambda>_. Inr ()) (git_text env (en_cwd env) args))"

definition taskSyncAction :: "'w CliEnv \<Rightarrow> string list \<Rightarrow> ('w, nat) run" where
  "taskSyncAction env args =
     (if \<not> all_given args task_flags then exit_with 3
      else connected env (\<lambda>url. run_bind (run_of (getTaskDetail (en_text env) (en_service env) url (task_of args))) (\<lambda>detail.
        let head = field (td_status detail) ''completedHeadSHA''; headText = js_text (en_text env) head
        in if text_at (td_status detail) ''state'' \<noteq> ''completed'' \<or> js_falsy head then exit_with 3
           else run_bind (git_step env [''fetch'', ''origin'']) (\<lambda>_.
             run_bind (git_step env [''rev-parse'', ''--verify'', headText @ ''^{commit}'']) (\<lambda>_.
               run_bind (gitRevParse env ''HEAD'') (\<lambda>current.
                 if head = Some (JStr current) then exit_with 0
                 else run_bind (git_step env [''checkout'', headText]) (\<lambda>_. exit_with 0)))))))"

text \<open>The dependencies of a task that are not completed, with their states.\<close>

fun pending_dependencies :: "'w CliEnv \<Rightarrow> string \<Rightarrow> TaskRef list \<Rightarrow> ('w, (TaskRef \<times> string) list) act" where
  "pending_dependencies env url [] = act_result (Inr [])"
| "pending_dependencies env url (d # ds) =
     act_bind (getTaskDetail (en_text env) (en_service env) url d) (\<lambda>dep.
       act_map (\<lambda>pending. Inr (if text_at (td_status dep) ''state'' \<noteq> ''completed'' then (d, text_at (td_status dep) ''state'') # pending else pending))
         (pending_dependencies env url ds))"

definition open_dependencies :: "'w CliEnv \<Rightarrow> string \<Rightarrow> TaskRef \<Rightarrow> ('w, (TaskRef \<times> string) list) act" where
  "open_dependencies env url ref =
     act_bind (getTaskDetail (en_text env) (en_service env) url ref) (\<lambda>detail. pending_dependencies env url (or_default (td_dependsOn detail) []))"

partial_function (option) task_wait_loop :: "'w CliEnv \<Rightarrow> string \<Rightarrow> TaskRef \<Rightarrow> real \<Rightarrow> real \<Rightarrow> ('w, nat) run" where
  "task_wait_loop env url ref interval deadline w =
     (case open_dependencies env url ref w of
        (Inl e, w') \<Rightarrow> Some (Inl e, w')
      | (Inr pending, w') \<Rightarrow>
          if pending = [] then Some (Inr 0, w')
          else if deadline \<le> sv_now (en_service env) w' then Some (Inr 3, w')
          else task_wait_loop env url ref interval deadline (sv_sleep (en_service env) interval w'))"

definition taskWaitAction :: "'w CliEnv \<Rightarrow> string list \<Rightarrow> ('w, nat) run" where
  "taskWaitAction env args =
     (case (number_option env (parseOptionValue args ''--timeout'') ''300'', number_option env (parseOptionValue args ''--interval'') ''5'') of
        (Fin timeoutSeconds, Fin intervalSeconds) \<Rightarrow>
          if \<not> all_given args task_flags \<or> timeoutSeconds \<le> 0 \<or> intervalSeconds \<le> 0 then exit_with 3
          else connected env (\<lambda>url w. task_wait_loop env url (task_of args) (intervalSeconds * 1000)
            (sv_now (en_service env) w + timeoutSeconds * 1000) w)
      | _ \<Rightarrow> exit_with 3)"

definition taskListAction :: "'w CliEnv \<Rightarrow> string list \<Rightarrow> ('w, nat) run" where
  "taskListAction env args = connected env (\<lambda>url. then_exit (listTasks (en_service env) url (parseOptionValue args ''--repository-id'')) 0)"

definition taskShowAction :: "'w CliEnv \<Rightarrow> string list \<Rightarrow> ('w, nat) run" where
  "taskShowAction env args =
     (if \<not> all_given args task_flags then exit_with 3
      else connected env (\<lambda>url. then_exit (getTaskDetail (en_text env) (en_service env) url (task_of args)) 0))"

definition taskCreateAction :: "'w CliEnv \<Rightarrow> string list \<Rightarrow> ('w, nat) run" where
  "taskCreateAction env args w =
     (case args of
        [] \<Rightarrow> exit_with 3 w
      | specFile # _ \<Rightarrow>
          if specFile = [] then exit_with 3 w
          else (case en_readJson env specFile of
             None \<Rightarrow> exit_with 3 w
           | Some proposal \<Rightarrow>
               let t = sub proposal ''task''; r = field t ''repositoryId''; s = field t ''serviceId''; i = field t ''taskId'' in
               if list_ex js_falsy [r, s, i, field proposal ''title'', field proposal ''hypothesis'', field proposal ''requestedBy''] then exit_with 3 w
               else if docs_target env = [] then exit_with 3 w
               else (case (text_of r, text_of s, text_of i) of
                  (Some rt, Some st, Some it) \<Rightarrow>
                    (let target = proposal_path (docs_target env) rt st it in
                     if en_exists env target w then exit_with 3 w
                     else Some (Inr 0, en_write env target
                       (JObj (foldl (\<lambda>m (k, v). map_set m k v) [(''schemaVersion'', JStr ''1'')] (entries_of proposal))) w))
                | _ \<Rightarrow> Some (Inl (js_error ''The path argument must be of type string''), w))))"

section \<open>Dispatch\<close>

definition statusAction :: "'w CliEnv \<Rightarrow> string list \<Rightarrow> ('w, nat) run" where
  "statusAction env args w =
     (case collectCoordinationContext env w of (found, w') \<Rightarrow> Some (Inr (if cx_state found = ctx_available then 0 else 3), w'))"

definition task_handlers :: "'w CliEnv \<Rightarrow> (string \<times> (string list \<Rightarrow> ('w, nat) run)) list" where
  "task_handlers env = [(''submit'', taskSubmitAction env), (''create'', taskCreateAction env), (''list'', taskListAction env),
     (''show'', taskShowAction env), (''complete-local'', taskCompleteLocalAction env), (''sync'', taskSyncAction env), (''wait'', taskWaitAction env)]"

definition group_handlers :: "'w CliEnv \<Rightarrow> (string \<times> (string \<times> (string list \<Rightarrow> ('w, nat) run)) list) list" where
  "group_handlers env =
     [(''debt'', [(''register'', debtRegisterAction env), (''list'', debtListAction env)]),
      (''scope'', [(''register'', scopeRegisterAction env), (''migrate-legacy'', scopeMigrateAction env)]),
      (''lease'', [(''acquire'', leaseAcquireAction env), (''renew'', leaseRenewAction env), (''release'', leaseReleaseAction env),
        (''list'', leaseListAction env)]),
      (''session'', [(''register'', sessionRegisterAction env), (''heartbeat'', sessionHeartbeatAction env), (''close'', sessionCloseAction env),
        (''list'', sessionListAction env)])]"

definition action_handlers :: "'w CliEnv \<Rightarrow> (string \<times> (string list \<Rightarrow> ('w, nat) run)) list" where
  "action_handlers env = [(''status'', statusAction env), (''bootstrap'', bootstrapAction env), (''refresh'', refreshAction env),
     (''evidence'', evidenceUploadAction env), (''claim'', taskClaimAction env), (''complete'', taskCompleteAction env)]"

text \<open>The handler of a task command: a missing subcommand, or an option in its place, is \<open>submit\<close>.\<close>

definition task_dispatch :: "'w CliEnv \<Rightarrow> string list \<Rightarrow> (string list \<Rightarrow> ('w, nat) run) option \<times> string list" where
  "task_dispatch env rest =
     (case rest of
        [] \<Rightarrow> (map_of (task_handlers env) ''submit'', [])
      | s # subRest \<Rightarrow>
          if map_of (task_handlers env) s \<noteq> None then (map_of (task_handlers env) s, subRest)
          else if starts_with s ''--'' then (map_of (task_handlers env) ''submit'', rest)
          else (None, subRest))"

definition dispatch_command :: "'w CliEnv \<Rightarrow> string list \<Rightarrow> (string list \<Rightarrow> ('w, nat) run) option \<times> string list" where
  "dispatch_command env args =
     (case args of
        [] \<Rightarrow> (None, [])
      | action # rest \<Rightarrow>
          if action = ''task'' then task_dispatch env rest
          else (case map_of (group_handlers env) action of
             Some handlers \<Rightarrow> (case rest of [] \<Rightarrow> (None, []) | s # subRest \<Rightarrow> (map_of handlers s, subRest))
           | None \<Rightarrow> (map_of (action_handlers env) action, rest)))"

text \<open>The errors that reach the command line are those of the client; \<open>exitCodeFromError\<close> gives 3 for all of them.\<close>

definition exitCodeFromError :: "ClientError \<Rightarrow> nat" where
  "exitCodeFromError e = (case e of coordination_error _ \<Rightarrow> 3 | js_error _ \<Rightarrow> 3)"

definition coordinationCommand :: "'w CliEnv \<Rightarrow> string list \<Rightarrow> 'w \<Rightarrow> (nat \<times> 'w) option" where
  "coordinationCommand env args w =
     (case dispatch_command env args of
        (None, _) \<Rightarrow> Some (3, w)
      | (Some handler, rest) \<Rightarrow>
          (case handler rest w of
             None \<Rightarrow> None
           | Some (Inr n, w') \<Rightarrow> Some (n, w')
           | Some (Inl e, w') \<Rightarrow> Some (exitCodeFromError e, w')))"

section \<open>Nothing happens without the service\<close>

definition reachable_service :: "'w CliEnv \<Rightarrow> 'w \<Rightarrow> bool" where
  "reachable_service env w = (cx_state (fst (collectCoordinationContext env w)) = ctx_available)"

text \<open>The commands that only write documents into the local documents repository.\<close>

definition local_command :: "string list \<Rightarrow> bool" where
  "local_command args =
     (case args of
        a # s # _ \<Rightarrow> (a = ''scope'' \<and> (s = ''register'' \<or> s = ''migrate-legacy'')) \<or> (a = ''debt'' \<and> s = ''register'') \<or> (a = ''task'' \<and> s = ''create'')
      | _ \<Rightarrow> False)"

definition refused :: "'w CliEnv \<Rightarrow> 'w \<Rightarrow> ((ClientError + nat) \<times> 'w) option \<Rightarrow> bool" where
  "refused env w r = (\<exists>x w'. r = Some (x, w') \<and> (\<forall>n. x = Inr n \<longrightarrow> n = 3) \<and> (w' = w \<or> w' = snd (collectCoordinationContext env w)))"

lemma refused_exit [simp]: "refused env w (exit_with 3 w)"
  by (simp add: refused_def exit_with_def)

lemma refused_connected [simp]: "\<not> reachable_service env w \<Longrightarrow> refused env w (connected env k w)"
  by (auto simp: refused_def connected_def run_bind_def requireConfigured_def requireAvailable_def reachable_service_def
      split: ConfigRead.splits prod.splits)

lemma service_handlers_refuse:
  assumes "\<not> reachable_service env w"
  shows "refused env w (bootstrapAction env args w)" "refused env w (refreshAction env args w)" "refused env w (debtListAction env args w)"
    "refused env w (evidenceUploadAction env args w)" "refused env w (leaseAcquireAction env args w)" "refused env w (leaseRenewAction env args w)"
    "refused env w (leaseReleaseAction env args w)" "refused env w (leaseListAction env args w)" "refused env w (sessionRegisterAction env args w)"
    "refused env w (sessionHeartbeatAction env args w)" "refused env w (sessionCloseAction env args w)" "refused env w (sessionListAction env args w)"
    "refused env w (taskSubmitAction env args w)" "refused env w (taskClaimAction env args w)" "refused env w (taskCompleteLocalAction env args w)"
    "refused env w (taskCompleteAction env args w)" "refused env w (taskSyncAction env args w)" "refused env w (taskWaitAction env args w)"
    "refused env w (taskListAction env args w)" "refused env w (taskShowAction env args w)"
  using assms
  by (simp_all add: bootstrapAction_def refreshAction_def debtListAction_def evidenceUploadAction_def leaseAcquireAction_def leaseRenewAction_def
      leaseReleaseAction_def leaseListAction_def sessionRegisterAction_def sessionHeartbeatAction_def sessionCloseAction_def sessionListAction_def
      taskSubmitAction_def taskClaimAction_def taskCompleteLocalAction_def taskCompleteAction_def taskSyncAction_def taskWaitAction_def
      taskListAction_def taskShowAction_def Let_def split: jsnum.split list.split)

lemma status_refuses: "\<not> reachable_service env w \<Longrightarrow> refused env w (statusAction env args w)"
  by (auto simp: refused_def statusAction_def reachable_service_def split: prod.splits)

lemma dispatch_refuses:
  assumes "\<not> reachable_service env w" "\<not> local_command args" "dispatch_command env args = (Some handler, rest)"
  shows "refused env w (handler rest w)"
proof -
  note all = service_handlers_refuse [OF assms(1)] status_refuses [OF assms(1)]
  obtain a as where args: "args = a # as" using assms(3) by (cases args) (simp_all add: dispatch_command_def)
  show ?thesis
  proof (cases "a = ''task''")
    case True
    then show ?thesis
      using assms(2,3) all by (cases as) (auto simp: args dispatch_command_def task_dispatch_def task_handlers_def local_command_def split: if_splits)
  next
    case False
    then have d: "(case map_of (group_handlers env) a of Some handlers \<Rightarrow> (case as of [] \<Rightarrow> (None, []) | s # subRest \<Rightarrow> (map_of handlers s, subRest))
        | None \<Rightarrow> (map_of (action_handlers env) a, as)) = (Some handler, rest)"
      using assms(3) by (simp add: args dispatch_command_def)
    show ?thesis
    proof (cases "map_of (group_handlers env) a")
      case None
      then show ?thesis using d all by (auto simp: action_handlers_def split: if_splits)
    next
      case (Some handlers)
      then obtain s where s: "as = s # rest" "map_of handlers s = Some handler" using d by (cases as) auto
      show ?thesis using Some s(2) assms(2) all unfolding args s(1)
        by (auto simp: group_handlers_def local_command_def split: if_splits)
    qed
  qed
qed

lemma command_refused:
  assumes "\<not> reachable_service env w" "\<not> local_command args"
  shows "\<exists>w'. coordinationCommand env args w = Some (3, w') \<and> (w' = w \<or> w' = snd (collectCoordinationContext env w))"
proof (cases "dispatch_command env args")
  case (Pair h rest)
  show ?thesis
  proof (cases h)
    case None
    then show ?thesis using Pair by (simp add: coordinationCommand_def)
  next
    case (Some handler)
    from dispatch_refuses [OF assms, of handler rest] Pair Some have "refused env w (handler rest w)" by simp
    then obtain x w' where x: "handler rest w = Some (x, w')" "\<forall>n. x = Inr n \<longrightarrow> n = 3" "w' = w \<or> w' = snd (collectCoordinationContext env w)"
      unfolding refused_def by blast
    then show ?thesis using Pair Some
      by (cases x) (auto simp: coordinationCommand_def exitCodeFromError_def split: ClientError.splits)
  qed
qed

text \<open>C32: Coordination fails closed. While the service is not configured, cannot be reached, or announces another documents repository
  or branch than the local one, every command that needs it exits with 3, and nothing but that check has touched the world: no task,
  lease, session or evidence request is sent and nothing is written.\<close>

theorem coordination_fails_closed:
  assumes "\<not> reachable_service env w" "\<not> local_command args"
  shows "\<exists>w'. coordinationCommand env args w = Some (3, w') \<and> (w' = w \<or> w' = snd (collectCoordinationContext env w))"
  using assms by (rule command_refused)

definition offline_env :: "real CliEnv" where
  "offline_env = \<lparr>en_service = offline, en_config = config_found ''http://c'', en_docs = None, en_git = (\<lambda>dir args w. (Inl ''no git'', w)), en_cwd = ''/p'',
     en_readJson = (\<lambda>p. None), en_exists = (\<lambda>p w. False), en_write = (\<lambda>p d w. w), en_number = (\<lambda>s. Fin 30), en_text = (\<lambda>v. [])\<rparr>"

theorem coordination_fails_closed_witness:
  "\<exists>w'. coordinationCommand offline_env [''lease'', ''acquire'', ''--repository-id'', ''r'', ''--target'', ''t'', ''--owner'', ''o''] 0 = Some (3, w')"
proof -
  have "\<not> reachable_service offline_env 0"
    by (simp add: reachable_service_def collectCoordinationContext_def offline_env_def fetchDocsRepoDescriptor_def getJSON_def act_map_def
        act_bind_def act_result_def send_request_def offline_def)
  from coordination_fails_closed [OF this, of "[''lease'', ''acquire'', ''--repository-id'', ''r'', ''--target'', ''t'', ''--owner'', ''o'']"]
  show ?thesis by (auto simp: local_command_def)
qed

section \<open>Waiting for dependencies\<close>

lemma request_world: "snd (send_request sv r w) = snd (sv_fetch sv r w)"
  by (simp add: send_request_def split: prod.splits sum.splits)

lemma getTaskDetail_time:
  assumes "clock_ok sv" shows "sv_now sv w \<le> sv_now sv (snd (getTaskDetail other sv url ref w))"
  using assms by (simp add: getTaskDetail_def getJSON_def act_map_eq request_world clock_ok_def)

lemma pending_dependencies_time:
  assumes "clock_ok (en_service env)" shows "sv_now (en_service env) w \<le> sv_now (en_service env) (snd (pending_dependencies env url ds w))"
proof (induction ds arbitrary: w)
  case (Cons d ds)
  have "sv_now (en_service env) w \<le> sv_now (en_service env) (snd (getTaskDetail (en_text env) (en_service env) url d w))"
    by (rule getTaskDetail_time [OF assms])
  moreover have "sv_now (en_service env) v \<le> sv_now (en_service env) (snd (pending_dependencies env url ds v))" for v by (rule Cons.IH)
  ultimately show ?case by (auto simp: act_bind_def act_map_eq intro: order_trans split: sum.splits prod.splits)
qed (simp add: act_result_def)

lemma open_dependencies_time:
  assumes "clock_ok (en_service env)" shows "sv_now (en_service env) w \<le> sv_now (en_service env) (snd (open_dependencies env url ref w))"
proof -
  have "sv_now (en_service env) w \<le> sv_now (en_service env) (snd (getTaskDetail (en_text env) (en_service env) url ref w))"
    by (rule getTaskDetail_time [OF assms])
  then show ?thesis using pending_dependencies_time [OF assms]
    by (auto simp: open_dependencies_def act_bind_def split: sum.splits prod.splits) (metis order_trans)
qed

lemma task_wait_settles:
  assumes "clock_ok (en_service env)"
  shows "\<exists>v answer w'. open_dependencies env url ref v = (answer, w') \<and> sv_now (en_service env) w \<le> sv_now (en_service env) v
    \<and> task_wait_loop env url ref interval deadline w = Some (case answer of Inl e \<Rightarrow> Inl e | Inr [] \<Rightarrow> Inr 0 | Inr (_ # _) \<Rightarrow> Inr 3, w')
    \<and> (\<forall>p ps. answer = Inr (p # ps) \<longrightarrow> deadline \<le> sv_now (en_service env) w')"
proof (induction "nat \<lceil>deadline - sv_now (en_service env) w\<rceil>" arbitrary: w rule: less_induct)
  case less
  obtain answer w1 where o: "open_dependencies env url ref w = (answer, w1)" by (cases "open_dependencies env url ref w")
  have t: "sv_now (en_service env) w \<le> sv_now (en_service env) w1" using open_dependencies_time [OF assms, of w url ref] by (simp add: o)
  show ?case
  proof (cases "\<exists>p ps. answer = Inr (p # ps) \<and> sv_now (en_service env) w1 < deadline")
    case False
    then have "task_wait_loop env url ref interval deadline w = Some (case answer of Inl e \<Rightarrow> Inl e | Inr [] \<Rightarrow> Inr 0 | Inr (_ # _) \<Rightarrow> Inr 3, w1)"
      by (subst task_wait_loop.simps) (auto simp: o split: sum.splits list.splits)
    with False o show ?thesis
      by (intro exI [where x = w] exI [where x = answer] exI [where x = w1]) (auto simp: not_less)
  next
    case True
    define w2 where "w2 = sv_sleep (en_service env) interval w1"
    have "sv_now (en_service env) w1 + 1 \<le> sv_now (en_service env) w2" unfolding w2_def by (rule clock_sleeps [OF assms])
    then have later: "sv_now (en_service env) w + 1 \<le> sv_now (en_service env) w2" using t by linarith
    then have "nat \<lceil>deadline - sv_now (en_service env) w2\<rceil> < nat \<lceil>deadline - sv_now (en_service env) w\<rceil>" using True t by linarith
    from less [OF this] obtain v a w' where rec: "open_dependencies env url ref v = (a, w')" "sv_now (en_service env) w2 \<le> sv_now (en_service env) v"
      "task_wait_loop env url ref interval deadline w2 = Some (case a of Inl e \<Rightarrow> Inl e | Inr [] \<Rightarrow> Inr 0 | Inr (_ # _) \<Rightarrow> Inr 3, w')"
      "\<forall>p ps. a = Inr (p # ps) \<longrightarrow> deadline \<le> sv_now (en_service env) w'"
      by blast
    have "task_wait_loop env url ref interval deadline w = task_wait_loop env url ref interval deadline w2"
      using True by (subst task_wait_loop.simps) (auto simp: o w2_def)
    with rec later show ?thesis by (intro exI [where x = v] exI [where x = a] exI [where x = w']) simp
  qed
qed

text \<open>Waiting for the dependencies of a task always comes to an end, with the answer of one last round: 0 if that round found all
  of them completed, the error if it could not read one, and 3 only if one was still open after the deadline.\<close>

theorem task_wait_ends:
  assumes "clock_ok (en_service env)"
  shows "\<exists>v answer w'. open_dependencies env url ref v = (answer, w') \<and> sv_now (en_service env) w \<le> sv_now (en_service env) v
    \<and> task_wait_loop env url ref interval deadline w = Some (case answer of Inl e \<Rightarrow> Inl e | Inr [] \<Rightarrow> Inr 0 | Inr (_ # _) \<Rightarrow> Inr 3, w')
    \<and> (\<forall>p ps. answer = Inr (p # ps) \<longrightarrow> deadline \<le> sv_now (en_service env) w')"
  using assms by (rule task_wait_settles)

theorem task_wait_ends_witness:
  "task_wait_loop offline_env ''http://c'' \<lparr>tr_repositoryId = ''r'', tr_serviceId = ''s'', tr_taskId = ''t''\<rparr> 5000 300000 0 \<noteq> None"
proof -
  have "real_of_int \<lfloor>d\<rfloor> \<le> max 1 d" for d :: real by (simp add: le_max_iff_disj)
  then have "clock_ok (en_service offline_env)" by (simp add: clock_ok_def offline_env_def offline_def)
  from task_wait_ends [OF this, of "''http://c''" "\<lparr>tr_repositoryId = ''r'', tr_serviceId = ''s'', tr_taskId = ''t''\<rparr>" 0 5000 300000]
  show ?thesis by auto
qed

section \<open>The configuration is read back\<close>

text \<open>A configured service is read back under its canonical address, and configuring it again changes nothing, if the URL parser
  gives the canonical address back.\<close>

theorem configuration_round_trip:
  assumes "configureCoordination newURL (Some url) False file = (config_configured u, file')"
    and "canonicalUrl newURL (Some (JStr u)) = Some u"
  shows "readCoordinationConfig newURL file' = config_found u
    \<and> configureCoordination newURL (Some url) False file' = (config_unchanged u, file')
    \<and> configureCoordination newURL None True file' = (config_cleared, None)"
proof -
  have u: "canonicalUrl newURL (Some (JStr url)) = Some u" and f: "file' = Some (Some (JObj [(''version'', JNum (Fin 1)), (''url'', JStr u)]))"
    using assms(1) by (auto simp: configureCoordination_def split: option.splits if_splits)
  have "readCoordinationConfig newURL file' = config_found u"
    by (simp add: f readCoordinationConfig_def field_def entries_of_def assms(2))
  then show ?thesis using u f by (simp add: configureCoordination_def)
qed

theorem configuration_round_trip_witness:
  "\<exists>file'. readCoordinationConfig (\<lambda>s. Some \<lparr>pu_protocol = ''http:'', pu_host = ''c'', pu_hostname = ''c'', pu_pathname = ''/'', pu_username = [],
      pu_password = [], pu_search = [], pu_hash = []\<rparr>) file' = config_found ''http://c''"
proof -
  let ?p = "\<lambda>s :: string. Some \<lparr>pu_protocol = ''http:'', pu_host = ''c'', pu_hostname = ''c'', pu_pathname = ''/'', pu_username = [],
      pu_password = [], pu_search = [], pu_hash = []\<rparr>"
  have c: "canonicalUrl ?p (Some (JStr ''http://c'')) = Some ''http://c''"
    by (simp add: canonicalUrl_def text_of_def strip_slashes_def trim_def is_space_def)
  then have "configureCoordination ?p (Some ''http://c'') False None
      = (config_configured ''http://c'', Some (Some (JObj [(''version'', JNum (Fin 1)), (''url'', JStr ''http://c'')])))"
    by (simp add: configureCoordination_def readCoordinationConfig_def)
  from configuration_round_trip [OF this c] show ?thesis by blast
qed

end
