(* ===== verification/Change_Surface.thy ===== *)
theory Change_Surface
  imports Symbol_Scope Semantic_Diff Scan_Entries
begin

text \<open>
  The consumers of changed symbols (\<open>application/changeSurface.ts\<close>, \<open>domain/changeSurfaceImpact.ts\<close>) and the plan of what to verify
  (\<open>application/impactPlan.ts\<close>). \<open>absolute\<close> is \<open>toAbsolute\<close>, \<open>base\<close> the project root; the texts of reasons are values that say which
  reason it is.
\<close>

section \<open>The impact on consumers\<close>

datatype ChangeSurfaceProvenance = from_symbols | from_empty_bound

record ChangeSurfaceContribution =
  ct_anchor :: string
  ct_kind :: ChangeKind
  ct_lambdaAst :: real
  ct_consumers :: "string list"
  ct_reachFactor :: real
  ct_layerWeight :: real
  ct_contribution :: real
  ct_unconfirmed :: bool

record ChangeSurfaceResult =
  cr_provenance :: ChangeSurfaceProvenance
  cr_contributions :: "ChangeSurfaceContribution list"
  cr_total :: real
  cr_consumersByAnchor :: "(string, string list) jmap"

definition js_max :: "real list \<Rightarrow> real" where
  "js_max xs = foldl max (hd xs) (tl xs)"

definition contribution_of ::
  "(string \<Rightarrow> real) \<Rightarrow> (string, string list) jmap \<Rightarrow> string list \<Rightarrow> SemanticChange \<Rightarrow> ChangeSurfaceContribution" where
  "contribution_of weight consumersByAnchor unconfirmed change =
     (let consumers = uniq (or_default (map_get consumersByAnchor (sc_anchor change)) []);
          reachFactor = log 2 (real (length consumers) + 1);
          layerWeight = (if consumers \<noteq> [] then js_max (map weight consumers) else 0)
      in \<lparr>ct_anchor = sc_anchor change, ct_kind = sc_kind change, ct_lambdaAst = LAMBDA_AST (sc_kind change), ct_consumers = consumers,
          ct_reachFactor = reachFactor, ct_layerWeight = layerWeight,
          ct_contribution = LAMBDA_AST (sc_kind change) * reachFactor * layerWeight,
          ct_unconfirmed = (sc_anchor change \<in> set unconfirmed)\<rparr>)"

definition computeChangeSurfaceImpact ::
  "ChangeSurfaceProvenance \<Rightarrow> SemanticChange list \<Rightarrow> (string, string list) jmap \<Rightarrow> (string \<Rightarrow> real) \<Rightarrow> string list option \<Rightarrow> ChangeSurfaceResult" where
  "computeChangeSurfaceImpact provenance changes consumersByAnchor weight unconfirmedAnchors =
     (let contributions = map (contribution_of weight consumersByAnchor (or_default unconfirmedAnchors [])) changes
      in \<lparr>cr_provenance = provenance, cr_contributions = contributions, cr_total = foldl (\<lambda>sum c. sum + ct_contribution c) 0 contributions,
          cr_consumersByAnchor = consumersByAnchor\<rparr>)"

section \<open>The evidence for a file\<close>

datatype GapKind = gap_provider_unavailable | gap_static_bound_empty

datatype GapReason =
    not_queried string
  | report_missing string
  | provider_reason string
  | provider_unavailable string
  | no_overlap string nat nat
  | incomplete_unconfirmed string "string option"

record ChangeSurfaceEvidenceGap =
  ga_file :: string
  ga_language :: string
  ga_kind :: GapKind
  ga_anchors :: "string list"
  ga_reason :: GapReason

datatype DossierEvidence = symbol_evidence | static_bound_empty | no_provider

record SymbolEvidenceDossier =
  do_file :: string
  do_language :: string
  do_changes :: "SemanticChange list"
  do_anchors :: "string list"
  do_staticConsumers :: "string list"
  do_evidence :: DossierEvidence
  do_consumersByAnchor :: "(string, string list) jmap option"
  do_gap :: "ChangeSurfaceEvidenceGap option"

definition declarationChanges :: "SemanticFileProfile \<Rightarrow> SemanticChange list" where
  "declarationChanges profile = filter (\<lambda>c. \<not> starts_with (sc_anchor c) ''import:'') (pf_changes profile)"

definition referencesReliable :: "SymbolUseReport \<Rightarrow> bool" where
  "referencesReliable report =
     (let coverage = es_coverage (sup_state report); reason = to_lower (or_default (es_reason (sup_state report)) [])
      in case cs_incompleteReferences coverage of
           Some incomplete \<Rightarrow> \<not> incomplete
         | None \<Rightarrow> cs_repositoryReferences coverage \<noteq> cv_unavailable
             \<and> \<not> (includes_str reason ''incomplete'' \<or> includes_str reason ''not complete''))"

definition leafName :: "string \<Rightarrow> string" where
  "leafName anchor = last (split_on (CHR ''.'') anchor)"

definition staticConsumersFor :: "(string \<Rightarrow> string) \<Rightarrow> string \<Rightarrow> string \<Rightarrow> DependencyGraph \<Rightarrow> string list" where
  "staticConsumersFor absolute base file reverseEdges =
     sorted_uniq (filter (\<lambda>candidate. candidate \<noteq> file) (map (relativePath base) (or_default (map_get reverseEdges (absolute file)) [])))"

definition reportLanguage :: "string \<Rightarrow> string" where
  "reportLanguage file = (case findLanguageForFile file of None \<Rightarrow> ''unknown'' | Some l \<Rightarrow> ls_id l)"

definition other_references :: "string \<Rightarrow> SymbolUseFact \<Rightarrow> string list" where
  "other_references file fact1 = filter (\<lambda>f. f \<noteq> file) (map sr_file (su_repositoryReferences fact1))"

definition facts_by_leaf :: "string \<Rightarrow> SymbolUseFact list \<Rightarrow> (string, string list) jmap" where
  "facts_by_leaf file facts =
     foldl (\<lambda>m f. if sy_file (su_declaration f) \<noteq> file then m
        else map_set m (sy_name (su_declaration f)) (or_default (map_get m (sy_name (su_declaration f))) [] @ other_references file f)) [] facts"

definition symbolConsumersByAnchor :: "SemanticFileProfile \<Rightarrow> SymbolUseReport \<Rightarrow> (string, string list) jmap" where
  "symbolConsumersByAnchor profile report =
     (let byLeaf = facts_by_leaf (pf_file profile) (sup_facts report)
      in foldl (\<lambda>m change.
           let name = leafName (sc_anchor change);
               consumers = (if name = ''file'' \<or> starts_with name ''manual:'' then uniq (concat (map snd byLeaf))
                 else or_default (map_get byLeaf name) [])
           in map_set m (sc_anchor change) (sorted_uniq consumers)) [] (declarationChanges profile))"

definition dossier_for ::
  "(string \<Rightarrow> string) \<Rightarrow> string \<Rightarrow> DependencyGraph \<Rightarrow> SymbolUseReport list \<Rightarrow> SemanticFileProfile \<Rightarrow> SymbolEvidenceDossier" where
  "dossier_for absolute base reverseEdges reports profile =
     (let changes = declarationChanges profile; language = reportLanguage (pf_file profile); anchors = map sc_anchor changes;
          staticConsumers = staticConsumersFor absolute base (pf_file profile) reverseEdges;
          dossier = (\<lambda>evidence consumers gap. \<lparr>do_file = pf_file profile, do_language = language, do_changes = changes, do_anchors = anchors,
            do_staticConsumers = staticConsumers, do_evidence = evidence, do_consumersByAnchor = consumers, do_gap = gap\<rparr>);
          gap = (\<lambda>kind reason. Some \<lparr>ga_file = pf_file profile, ga_language = language, ga_kind = kind, ga_anchors = anchors, ga_reason = reason\<rparr>)
      in if staticConsumers = []
         then dossier static_bound_empty (Some (fromEntries (map (\<lambda>c. (sc_anchor c, [])) changes))) (gap gap_static_bound_empty (not_queried language))
         else (case find (\<lambda>r. or_language (sup_origin r) = language) reports of
            None \<Rightarrow> dossier no_provider None (gap gap_provider_unavailable (report_missing language))
          | Some report \<Rightarrow>
              if es_availability (sup_state report) = av_unavailable
              then dossier no_provider None (gap gap_provider_unavailable
                (case es_reason (sup_state report) of Some r \<Rightarrow> provider_reason r | None \<Rightarrow> provider_unavailable language))
              else let consumersByAnchor = symbolConsumersByAnchor profile report;
                       symbolFiles = uniq (concat (map snd consumersByAnchor))
                   in if symbolFiles \<noteq> [] \<and> list_all (\<lambda>f. f \<notin> set staticConsumers) symbolFiles
                      then dossier no_provider None (gap gap_provider_unavailable (no_overlap language (length symbolFiles) (length staticConsumers)))
                      else if \<not> referencesReliable report \<and> symbolFiles = []
                      then dossier no_provider None (gap gap_provider_unavailable (incomplete_unconfirmed language (es_reason (sup_state report))))
                      else dossier symbol_evidence (Some consumersByAnchor) None))"

definition symbolEvidenceDossiersForProfiles ::
  "(string \<Rightarrow> string) \<Rightarrow> string \<Rightarrow> SemanticFileProfile list \<Rightarrow> SymbolUseReport list option \<Rightarrow> DependencyGraph \<Rightarrow> SymbolEvidenceDossier list" where
  "symbolEvidenceDossiersForProfiles absolute base profiles reports reverseEdges =
     map (dossier_for absolute base reverseEdges (or_default reports [])) (filter (\<lambda>p. declarationChanges p \<noteq> []) profiles)"

section \<open>The surfaces of a change\<close>

record FileChangeSurface =
  fs_file :: string
  fs_language :: string
  fs_staticBound :: nat
  fs_result :: ChangeSurfaceResult

record ChangeSurfaceUnavailableLanguage =
  ul_language :: string
  ul_reason :: GapReason
  ul_files :: "string list"

record ChangeSurfaceCollection =
  sf_available :: bool
  sf_surfaces :: "FileChangeSurface list"
  sf_unavailableLanguages :: "ChangeSurfaceUnavailableLanguage list"
  sf_symbolEvidenceGaps :: "ChangeSurfaceEvidenceGap list"

definition gap_language_step ::
  "(string, GapReason \<times> string list) jmap \<Rightarrow> ChangeSurfaceEvidenceGap \<Rightarrow> (string, GapReason \<times> string list) jmap" where
  "gap_language_step m gap =
     (if ga_kind gap \<noteq> gap_provider_unavailable then m
      else (case map_get m (ga_language gap) of
         Some (_, files) \<Rightarrow> map_set m (ga_language gap) (ga_reason gap, if ga_file gap \<in> set files then files else files @ [ga_file gap])
       | None \<Rightarrow> map_set m (ga_language gap) (ga_reason gap, [ga_file gap])))"

definition unavailableLanguagesFromGaps :: "ChangeSurfaceEvidenceGap list \<Rightarrow> ChangeSurfaceUnavailableLanguage list" where
  "unavailableLanguagesFromGaps gaps =
     map (\<lambda>(language, reason, files). \<lparr>ul_language = language, ul_reason = reason, ul_files = files\<rparr>) (foldl gap_language_step [] gaps)"

definition surface_for :: "(string \<Rightarrow> real) \<Rightarrow> SymbolEvidenceDossier \<Rightarrow> FileChangeSurface option" where
  "surface_for weight d =
     (case do_consumersByAnchor d of
        None \<Rightarrow> None
      | Some consumersByAnchor \<Rightarrow>
          if do_evidence d = no_provider then None
          else Some \<lparr>fs_file = do_file d, fs_language = do_language d, fs_staticBound = length (do_staticConsumers d),
            fs_result = computeChangeSurfaceImpact (if do_evidence d = static_bound_empty then from_empty_bound else from_symbols)
              (do_changes d) consumersByAnchor weight
              (if do_evidence d = symbol_evidence
               then Some (filter (\<lambda>anchor. or_default (map_get consumersByAnchor anchor) [] = []) (do_anchors d)) else None)\<rparr>)"

definition computeChangeSurfaceForProfiles ::
  "(string \<Rightarrow> string \<Rightarrow> bool) \<Rightarrow> (string \<Rightarrow> string) \<Rightarrow> string \<Rightarrow> SemanticFileProfile list \<Rightarrow> SymbolUseReport list option \<Rightarrow> DependencyGraph
     \<Rightarrow> PathClass list \<Rightarrow> ChangeSurfaceCollection" where
  "computeChangeSurfaceForProfiles mm absolute base profiles reports reverseEdges pathClasses =
     (let dossiers = symbolEvidenceDossiersForProfiles absolute base profiles reports reverseEdges;
          surfaces = present (map (surface_for (\<lambda>file. layerWeightOf mm file pathClasses)) dossiers);
          gaps = present (map do_gap dossiers)
      in \<lparr>sf_available = (surfaces \<noteq> []), sf_surfaces = surfaces, sf_unavailableLanguages = unavailableLanguagesFromGaps gaps,
          sf_symbolEvidenceGaps = gaps\<rparr>)"

section \<open>The plan\<close>

record SymbolConsumerEvidence =
  sce_symbol :: string
  sce_providerId :: string
  sce_evidenceSource :: SymbolUseEvidenceSource
  sce_declarationsCoverage :: SymbolUseCoverage
  sce_repositoryReferencesCoverage :: SymbolUseCoverage
  sce_consumers :: "string list"
  sce_staticImportConsumers :: "string list"
  sce_sharedConsumers :: "string list"
  sce_staticOnlyConsumers :: "string list"
  sce_symbolOnlyConsumers :: "string list"
  sce_reason :: "string option"

datatype ImpactPlanAction = verify_direct_consumers "string list" | verify_public_contract | verify_dependency_boundary | run_affected_quality

record ImpactPlanItem =
  ip_file :: string
  ip_publicContracts :: "SemanticChange list"
  ip_implementationUnits :: "SemanticChange list"
  ip_dependencyUnits :: "SemanticChange list"
  ip_directConsumers :: "string list"
  ip_symbolConsumers :: "SymbolConsumerEvidence list"
  ip_evidenceGap :: "ChangeSurfaceEvidenceGap option"
  ip_actions :: "ImpactPlanAction list"

definition publicKinds :: "ChangeKind list" where
  "publicKinds = [interface_add_remove, class_add_remove, public_method_sig, field_add_remove]"

definition isPublicContractChange :: "SemanticChange \<Rightarrow> bool" where
  "isPublicContractChange change = (sc_kind change \<in> set publicKinds)"

definition isDependencyChange :: "SemanticChange \<Rightarrow> bool" where
  "isDependencyChange change = (sc_kind change = dependency_add \<or> sc_kind change = dependency_remove)"

definition actionsFor :: "SemanticChange list \<Rightarrow> SemanticChange list \<Rightarrow> string list \<Rightarrow> ImpactPlanAction list" where
  "actionsFor publicContracts dependencyUnits directConsumers =
     (if publicContracts \<noteq> [] then [if directConsumers \<noteq> [] then verify_direct_consumers directConsumers else verify_public_contract] else [])
     @ (if dependencyUnits \<noteq> [] then [verify_dependency_boundary] else []) @ [run_affected_quality]"

definition changedSymbolNames :: "SemanticChange list \<Rightarrow> string list" where
  "changedSymbolNames changes =
     uniq (filter (\<lambda>name. name \<noteq> [] \<and> name \<noteq> ''file'' \<and> \<not> starts_with name ''manual:'')
       (map (\<lambda>c. leafName (sc_anchor c)) (filter (\<lambda>c. \<not> starts_with (sc_anchor c) ''import:'') changes)))"

definition profile_demand :: "SemanticFileProfile \<Rightarrow> (string \<times> string list) list" where
  "profile_demand profile =
     (let names = sort (filter (\<lambda>name. name \<noteq> ''file'') (changedSymbolNames (pf_changes profile)))
      in if names \<noteq> [] then [(toPosixPath (pf_file profile), names)]
         else if list_ex (\<lambda>c. sc_anchor c = ''manual:file'' \<or> sc_kind c \<noteq> comment_whitespace) (pf_changes profile)
         then [(toPosixPath (pf_file profile), names)] else [])"

definition symbolUseDemandForProfiles :: "SemanticFileProfile list \<Rightarrow> string list option \<Rightarrow> (string \<times> string list) list \<times> string list option" where
  "symbolUseDemandForProfiles profiles consumerFiles =
     (concat (map profile_demand profiles), if consumerFiles = None \<or> consumerFiles = Some [] then None else consumerFiles)"

definition consumer_evidence :: "SymbolUseReport \<Rightarrow> string \<Rightarrow> string list \<Rightarrow> SymbolUseFact \<Rightarrow> SymbolConsumerEvidence" where
  "consumer_evidence report file staticImportConsumers f =
     (let consumers = sorted_uniq (other_references file f)
      in \<lparr>sce_symbol = sy_name (su_declaration f), sce_providerId = or_providerId (sup_origin report),
          sce_evidenceSource = or_evidenceSource (sup_origin report),
          sce_declarationsCoverage = cs_declarations (es_coverage (sup_state report)),
          sce_repositoryReferencesCoverage = cs_repositoryReferences (es_coverage (sup_state report)),
          sce_consumers = consumers, sce_staticImportConsumers = staticImportConsumers,
          sce_sharedConsumers = filter (\<lambda>c. c \<in> set staticImportConsumers) consumers,
          sce_staticOnlyConsumers = filter (\<lambda>c. c \<notin> set consumers) staticImportConsumers,
          sce_symbolOnlyConsumers = filter (\<lambda>c. c \<notin> set staticImportConsumers) consumers,
          sce_reason = (if es_reason (sup_state report) = Some [] then None else es_reason (sup_state report))\<rparr>)"

definition symbolConsumersFor :: "SemanticFileProfile \<Rightarrow> SymbolUseReport list option \<Rightarrow> string list \<Rightarrow> SymbolConsumerEvidence list" where
  "symbolConsumersFor profile reports staticImportConsumers =
     (let names = changedSymbolNames (pf_changes profile)
      in concat (map (\<lambda>report. map (consumer_evidence report (pf_file profile) staticImportConsumers)
           (filter (\<lambda>f. sy_file (su_declaration f) = pf_file profile \<and> (names = [] \<or> sy_name (su_declaration f) \<in> set names)) (sup_facts report)))
         (or_default reports [])))"

definition plan_item ::
  "(string \<Rightarrow> string) \<Rightarrow> string \<Rightarrow> DependencyGraph \<Rightarrow> SymbolUseReport list option \<Rightarrow> (string, ChangeSurfaceEvidenceGap) jmap
     \<Rightarrow> SemanticFileProfile \<Rightarrow> ImpactPlanItem option" where
  "plan_item absolute base reverseEdges reports gaps profile =
     (let publicContracts = filter isPublicContractChange (pf_changes profile);
          dependencyUnits = filter isDependencyChange (pf_changes profile);
          staticImportConsumers = sorted_uniq (map (relativePath base) (or_default (map_get reverseEdges (absolute (pf_file profile))) []));
          directConsumers = take 8 staticImportConsumers
      in if publicContracts = [] \<and> dependencyUnits = [] then None
         else Some \<lparr>ip_file = pf_file profile, ip_publicContracts = publicContracts,
           ip_implementationUnits = filter (\<lambda>c. \<not> isPublicContractChange c \<and> \<not> isDependencyChange c) (pf_changes profile),
           ip_dependencyUnits = dependencyUnits, ip_directConsumers = directConsumers,
           ip_symbolConsumers = symbolConsumersFor profile reports staticImportConsumers, ip_evidenceGap = map_get gaps (pf_file profile),
           ip_actions = actionsFor publicContracts dependencyUnits directConsumers\<rparr>)"

definition buildImpactPlan ::
  "(string \<Rightarrow> string) \<Rightarrow> string \<Rightarrow> SemanticFileProfile list \<Rightarrow> DependencyGraph \<Rightarrow> SymbolUseReport list option \<Rightarrow> ImpactPlanItem list" where
  "buildImpactPlan absolute base profiles reverseEdges reports =
     (let gaps = fromEntries (present (map (\<lambda>d. map_option (Pair (do_file d)) (do_gap d))
           (symbolEvidenceDossiersForProfiles absolute base profiles reports reverseEdges)))
      in present (map (plan_item absolute base reverseEdges reports gaps) profiles))"

section \<open>Admission of changed symbols\<close>

definition coverage_availability :: "SymbolUseCoverage option \<Rightarrow> GovernanceAvailability" where
  "coverage_availability c =
     (case c of Some cv_complete \<Rightarrow> av_available | Some cv_partial \<Rightarrow> av_partial | Some cv_unavailable \<Rightarrow> av_unavailable | None \<Rightarrow> av_unavailable)"

definition changedSymbols :: "SemanticFileProfile \<Rightarrow> string list" where
  "changedSymbols profile =
     sorted_uniq (filter (\<lambda>n. n \<noteq> []) (map (\<lambda>c. leafName (sc_anchor c))
       (filter (\<lambda>c. isPublicContractChange c \<and> \<not> starts_with (sc_anchor c) ''import:'' \<and> sc_anchor c \<noteq> ''file'') (pf_changes profile))))"

definition is_symbol :: "string \<Rightarrow> string \<Rightarrow> SymbolUseFact \<Rightarrow> bool" where
  "is_symbol file symbol f = (sy_file (su_declaration f) = file \<and> sy_name (su_declaration f) = symbol)"

record PairEvidence =
  pe_before :: bool
  pe_afterStable :: bool
  pe_commonPopulation :: bool

definition no_pair :: PairEvidence where
  "no_pair = \<lparr>pe_before = False, pe_afterStable = False, pe_commonPopulation = False\<rparr>"

fun pair_evidence :: "SymbolVersionPairReport list \<Rightarrow> string \<Rightarrow> string \<Rightarrow> string \<Rightarrow> PairEvidence" where
  "pair_evidence [] language file symbol = no_pair"
| "pair_evidence (pair # pairs) language file symbol =
     (if vr_language pair \<noteq> language \<or> vr_availability pair \<noteq> av_available \<or> vr_before pair = None \<or> vr_after pair = None
      then pair_evidence pairs language file symbol
      else let common = (file \<in> set (vp_files (vr_population pair)))
           in if \<not> list_ex (is_symbol file symbol) (sup_facts (the (vr_before pair)))
              then \<lparr>pe_before = False, pe_afterStable = False, pe_commonPopulation = common\<rparr>
              else \<lparr>pe_before = True,
                pe_afterStable = list_ex (\<lambda>d. sp_status d = ps_matched
                  \<and> (case sp_after d of None \<Rightarrow> False | Some f \<Rightarrow> is_symbol file symbol f)) (vr_declarations pair),
                pe_commonPopulation = common\<rparr>)"

definition versionPairEvidenceFor :: "SymbolVersionPairReport list option \<Rightarrow> string \<Rightarrow> string \<Rightarrow> string \<Rightarrow> PairEvidence" where
  "versionPairEvidenceFor versionPairs language file symbol =
     (case versionPairs of None \<Rightarrow> no_pair | Some pairs \<Rightarrow> pair_evidence pairs language file symbol)"

definition requirement :: "string \<Rightarrow> GovernanceAvailability \<Rightarrow> string option \<Rightarrow> SymbolScopeAdmissionRequirement" where
  "requirement i av reason = \<lparr>ar_id = i, ar_availability = av, ar_reason = reason\<rparr>"

definition admission_requirements :: "PairEvidence \<Rightarrow> SymbolUseReport \<Rightarrow> SymbolUseFact \<Rightarrow> bool \<Rightarrow> SymbolScopeAdmissionRequirement list" where
  "admission_requirements pair report f calibrationAvailable =
     [requirement ''before_declaration_identity'' (if pe_before pair then av_available else av_unavailable)
        (if pe_before pair then None else Some ''the provider was not run against the Git before revision''),
      requirement ''after_declaration_identity'' (if pe_afterStable pair then av_available else av_partial)
        (if pe_afterStable pair then None else Some ''current provider facts do not yet carry a before/after-stable declaration identity''),
      requirement ''repository_references'' (coverage_availability (Some (cs_repositoryReferences (es_coverage (sup_state report)))))
        (if es_reason (sup_state report) = Some [] then None else es_reason (sup_state report)),
      (if su_publicSurface f \<noteq> surface_unknown then requirement ''public_surface'' av_available None
       else requirement ''public_surface'' av_unavailable (Some ''provider did not establish the declaration public surface'')),
      requirement ''common_population'' (if pe_commonPopulation pair then av_available else av_unavailable)
        (if pe_commonPopulation pair then None else Some ''symbol references are not yet normalized to a versioned metric population''),
      requirement ''calibration_samples'' (if calibrationAvailable then av_available else av_partial)
        (Some (if calibrationAvailable then ''durable symbol calibration samples exist in project calibration store''
          else ''no durable symbol calibration samples recorded; record positive and negative version-pair observations (matched/removed) via the calibration store''))]"

definition symbol_admission ::
  "SymbolUseReport list \<Rightarrow> SymbolVersionPairReport list option \<Rightarrow> bool \<Rightarrow> string \<Rightarrow> string \<Rightarrow> SymbolScopeImpactAdmission option" where
  "symbol_admission reports versionPairs calibrationAvailable file symbol =
     Option.bind (find (\<lambda>r. list_ex (is_symbol file symbol) (sup_facts r)) reports) (\<lambda>report.
       map_option (\<lambda>f.
         assessSymbolScopeImpactAdmission (or_language (sup_origin report)) (or_providerId (sup_origin report)) file symbol
           (admission_requirements (versionPairEvidenceFor versionPairs (or_language (sup_origin report)) file symbol) report f calibrationAvailable))
         (find (is_symbol file symbol) (sup_facts report)))"

definition assessSymbolScopeAdmissions ::
  "SemanticFileProfile list \<Rightarrow> SymbolUseReport list \<Rightarrow> SymbolVersionPairReport list option \<Rightarrow> bool \<Rightarrow> SymbolScopeImpactAdmission list" where
  "assessSymbolScopeAdmissions profiles reports versionPairs calibrationAvailable =
     present (concat (map (\<lambda>p. map (symbol_admission reports versionPairs calibrationAvailable (pf_file p)) (changedSymbols p)) profiles))"

section \<open>Evidence is never invented\<close>

lemma dossier_cases:
  assumes "d = dossier_for absolute base reverseEdges reports profile"
  shows "do_file d = pf_file profile" "do_changes d = declarationChanges profile" "do_anchors d = map sc_anchor (declarationChanges profile)"
    "do_staticConsumers d = staticConsumersFor absolute base (pf_file profile) reverseEdges"
    "do_gap d = None \<longleftrightarrow> do_evidence d = symbol_evidence" "do_consumersByAnchor d = None \<longleftrightarrow> do_evidence d = no_provider"
    "\<And>g. do_gap d = Some g \<Longrightarrow> ga_file g = pf_file profile \<and> ga_anchors g = do_anchors d
      \<and> (ga_kind g = gap_provider_unavailable \<longleftrightarrow> do_evidence d = no_provider)"
    "do_evidence d = static_bound_empty \<longleftrightarrow> do_staticConsumers d = []"
    "do_evidence d = static_bound_empty \<Longrightarrow> do_consumersByAnchor d = Some (fromEntries (map (\<lambda>c. (sc_anchor c, [])) (declarationChanges profile)))"
  unfolding assms by (auto simp: dossier_for_def Let_def split: option.splits if_splits)

text \<open>The report that stands behind symbol evidence, and the consumers it names.\<close>

lemma symbol_evidence_report:
  assumes "d = dossier_for absolute base reverseEdges reports profile" "do_evidence d = symbol_evidence"
  shows "\<exists>report. find (\<lambda>r. or_language (sup_origin r) = do_language d) reports = Some report \<and> es_availability (sup_state report) \<noteq> av_unavailable
    \<and> do_consumersByAnchor d = Some (symbolConsumersByAnchor profile report)
    \<and> (let files = set (concat (map snd (symbolConsumersByAnchor profile report)))
       in (files = {} \<longrightarrow> referencesReliable report) \<and> (files \<noteq> {} \<longrightarrow> files \<inter> set (do_staticConsumers d) \<noteq> {}))"
proof -
  let ?static = "staticConsumersFor absolute base (pf_file profile) reverseEdges" and ?language = "reportLanguage (pf_file profile)"
  have static: "?static \<noteq> []" using assms by (auto simp: dossier_for_def Let_def)
  then obtain report where r: "find (\<lambda>r. or_language (sup_origin r) = ?language) reports = Some report" "es_availability (sup_state report) \<noteq> av_unavailable"
    using assms by (cases "find (\<lambda>r. or_language (sup_origin r) = ?language) reports") (auto simp: dossier_for_def Let_def split: if_splits)
  let ?files = "uniq (concat (map snd (symbolConsumersByAnchor profile report)))"
  have "\<not> (?files \<noteq> [] \<and> list_all (\<lambda>f. f \<notin> set ?static) ?files)" "\<not> (\<not> referencesReliable report \<and> ?files = [])"
    and c: "do_consumersByAnchor d = Some (symbolConsumersByAnchor profile report)" "do_language d = ?language" "do_staticConsumers d = ?static"
    using assms static r by (auto simp: dossier_for_def Let_def split: if_splits)
  then have "?files = [] \<or> (\<exists>f \<in> set ?files. f \<in> set ?static)" "?files = [] \<longrightarrow> referencesReliable report" by (auto simp: list_all_iff)
  then show ?thesis using r c by (intro exI [where x = report]) (auto simp: Let_def)
qed

lemma surface_for_None: "surface_for weight (dossier_for absolute base reverseEdges reports profile) = None
    \<longleftrightarrow> do_evidence (dossier_for absolute base reverseEdges reports profile) = no_provider"
  using dossier_cases(6) [OF refl, of absolute base reverseEdges reports profile] by (auto simp: surface_for_def split: option.splits)

lemma surface_for_file: "surface_for weight d = Some s \<Longrightarrow> fs_file s = do_file d \<and> fs_staticBound s = length (do_staticConsumers d)"
  by (auto simp: surface_for_def split: option.splits if_splits)

lemma present_map_files:
  assumes "\<And>x y. x \<in> set xs \<Longrightarrow> f x = Some y \<Longrightarrow> h y = g x"
  shows "map h (present (map f xs)) = map g (filter (\<lambda>x. f x \<noteq> None) xs)"
  using assms by (induction xs) (auto split: option.splits)

abbreviation changed_profiles :: "SemanticFileProfile list \<Rightarrow> SemanticFileProfile list" where
  "changed_profiles profiles \<equiv> filter (\<lambda>p. declarationChanges p \<noteq> []) profiles"

lemma surfaces_and_gaps:
  assumes "c = computeChangeSurfaceForProfiles mm absolute base profiles reports reverseEdges pathClasses"
    and "ev = (\<lambda>p. do_evidence (dossier_for absolute base reverseEdges (or_default reports []) p))"
  shows "map fs_file (sf_surfaces c) = map pf_file (filter (\<lambda>p. ev p \<noteq> no_provider) (changed_profiles profiles))"
    "map ga_file (sf_symbolEvidenceGaps c) = map pf_file (filter (\<lambda>p. ev p \<noteq> symbol_evidence) (changed_profiles profiles))"
    "map ga_file (filter (\<lambda>g. ga_kind g = gap_provider_unavailable) (sf_symbolEvidenceGaps c)) = map pf_file (filter (\<lambda>p. ev p = no_provider) (changed_profiles profiles))"
proof -
  let ?d = "dossier_for absolute base reverseEdges (or_default reports [])" and ?w = "\<lambda>file. layerWeightOf mm file pathClasses"
  have surfaces: "sf_surfaces c = present (map (\<lambda>p. surface_for ?w (?d p)) (changed_profiles profiles))"
    and gaps: "sf_symbolEvidenceGaps c = present (map (\<lambda>p. do_gap (?d p)) (changed_profiles profiles))"
    by (simp_all add: assms computeChangeSurfaceForProfiles_def symbolEvidenceDossiersForProfiles_def Let_def o_def)
  have "map fs_file (sf_surfaces c) = map pf_file (filter (\<lambda>p. surface_for ?w (?d p) \<noteq> None) (changed_profiles profiles))"
    unfolding surfaces by (rule present_map_files) (auto dest!: surface_for_file simp: dossier_cases(1) [OF refl])
  then show "map fs_file (sf_surfaces c) = map pf_file (filter (\<lambda>p. ev p \<noteq> no_provider) (changed_profiles profiles))"
    by (simp only: surface_for_None assms(2) not_not)
  have "map ga_file (sf_symbolEvidenceGaps c) = map pf_file (filter (\<lambda>p. do_gap (?d p) \<noteq> None) (changed_profiles profiles))"
    unfolding gaps by (rule present_map_files) (auto dest: dossier_cases(7) [OF refl])
  then show "map ga_file (sf_symbolEvidenceGaps c) = map pf_file (filter (\<lambda>p. ev p \<noteq> symbol_evidence) (changed_profiles profiles))"
    by (simp only: dossier_cases(5) [OF refl] assms(2) not_not)
  have "map ga_file (filter (\<lambda>g. ga_kind g = gap_provider_unavailable) (present (map (\<lambda>p. do_gap (?d p)) ps)))
      = map pf_file (filter (\<lambda>p. do_evidence (?d p) = no_provider) ps)" for ps
  proof (induction ps)
    case (Cons p ps)
    show ?case
    proof (cases "do_gap (?d p)")
      case None
      then have "do_evidence (?d p) = symbol_evidence" using dossier_cases(5) [OF refl] by blast
      then show ?thesis using None Cons.IH by simp
    next
      case (Some g)
      then show ?thesis using dossier_cases(7) [OF refl Some] Cons.IH by simp
    qed
  qed simp
  then show "map ga_file (filter (\<lambda>g. ga_kind g = gap_provider_unavailable) (sf_symbolEvidenceGaps c)) = map pf_file (filter (\<lambda>p. ev p = no_provider) (changed_profiles profiles))"
    unfolding gaps assms(2) by simp
qed

text \<open>C19: Every file with changed declarations is accounted for exactly once, in order: it has a surface, or a gap that says the provider
  was not available, never both; it also has a gap when its surface is empty because nothing imports it, and no gap exactly when
  there is symbol evidence. Symbol evidence comes from the first report of the language, which is available, and either names a
  consumer that the dependency graph knows too or is complete and names none.\<close>

theorem surfaces_need_evidence:
  assumes "c = computeChangeSurfaceForProfiles mm absolute base profiles reports reverseEdges pathClasses"
    and "ev = (\<lambda>p. do_evidence (dossier_for absolute base reverseEdges (or_default reports []) p))"
  shows "map fs_file (sf_surfaces c) = map pf_file (filter (\<lambda>p. ev p \<noteq> no_provider) (changed_profiles profiles))
    \<and> map ga_file (filter (\<lambda>g. ga_kind g = gap_provider_unavailable) (sf_symbolEvidenceGaps c)) = map pf_file (filter (\<lambda>p. ev p = no_provider) (changed_profiles profiles))
    \<and> map ga_file (sf_symbolEvidenceGaps c) = map pf_file (filter (\<lambda>p. ev p \<noteq> symbol_evidence) (changed_profiles profiles))
    \<and> (\<forall>p. ev p = symbol_evidence \<longrightarrow> (\<exists>report. find (\<lambda>r. or_language (sup_origin r) = reportLanguage (pf_file p)) (or_default reports []) = Some report
        \<and> es_availability (sup_state report) \<noteq> av_unavailable
        \<and> (let files = set (concat (map snd (symbolConsumersByAnchor p report)))
           in (files = {} \<longrightarrow> referencesReliable report) \<and> (files \<noteq> {} \<longrightarrow> files \<inter> set (staticConsumersFor absolute base (pf_file p) reverseEdges) \<noteq> {}))))"
proof (intro conjI allI impI)
  fix p assume "ev p = symbol_evidence"
  have l: "do_language (dossier_for absolute base reverseEdges (or_default reports []) p) = reportLanguage (pf_file p)"
    by (simp add: dossier_for_def Let_def split: option.split)
  from symbol_evidence_report [OF refl \<open>ev p = symbol_evidence\<close> [unfolded assms(2)]]
  show "\<exists>report. find (\<lambda>r. or_language (sup_origin r) = reportLanguage (pf_file p)) (or_default reports []) = Some report
        \<and> es_availability (sup_state report) \<noteq> av_unavailable
        \<and> (let files = set (concat (map snd (symbolConsumersByAnchor p report)))
           in (files = {} \<longrightarrow> referencesReliable report) \<and> (files \<noteq> {} \<longrightarrow> files \<inter> set (staticConsumersFor absolute base (pf_file p) reverseEdges) \<noteq> {}))"
    unfolding l dossier_cases(4) [OF refl] by blast
qed (use surfaces_and_gaps [OF assms] in simp_all)

section \<open>Bounds\<close>

lemma foldl_max: "foldl max a xs \<in> insert a (set xs) \<and> (\<forall>x \<in> insert a (set xs). x \<le> foldl max a xs)" for a :: real
proof (induction xs arbitrary: a)
  case (Cons x xs)
  from Cons.IH [of "max a x"] show ?case by (auto simp: max_def split: if_splits)
qed simp

lemma js_max_in: "xs \<noteq> [] \<Longrightarrow> js_max xs \<in> set xs"
  using foldl_max [of "hd xs" "tl xs"] by (cases xs) (simp_all add: js_max_def)

lemma map_set_values:
  assumes "\<forall>(n, v) \<in> set m. P v" "P w" shows "\<forall>(n, v) \<in> set (map_set m k w). P v"
proof -
  have "set (AList.update k w m) \<subseteq> insert (k, w) (set m)" by (induction m) auto
  then show ?thesis using assms by (fastforce simp: map_set_def)
qed

lemma facts_by_leaf_excludes:
  assumes "(n, v) \<in> set (facts_by_leaf file facts)" shows "file \<notin> set v"
proof -
  have step: "\<forall>(n, v) \<in> set (foldl (\<lambda>m f. if sy_file (su_declaration f) \<noteq> file then m
        else map_set m (sy_name (su_declaration f)) (or_default (map_get m (sy_name (su_declaration f))) [] @ other_references file f)) m facts). file \<notin> set v"
    if "\<forall>(n, v) \<in> set m. file \<notin> set v" for m
    using that
  proof (induction facts arbitrary: m)
    case (Cons f facts)
    let ?k = "sy_name (su_declaration f)"
    have own: "file \<notin> set (other_references file f)" by (simp add: other_references_def)
    have old: "file \<notin> set (or_default (map_get m ?k) [])"
      using Cons.prems by (cases "map_get m ?k") (auto dest: map_of_SomeD)
    have "\<forall>(n, v) \<in> set (map_set m ?k (or_default (map_get m ?k) [] @ other_references file f)). file \<notin> set v"
      using Cons.prems own old by (intro map_set_values) simp_all
    with Cons show ?case by simp
  qed simp
  from step [of "[]"] assms show ?thesis by (auto simp: facts_by_leaf_def)
qed

lemma consumers_by_anchor:
  assumes "map_get (symbolConsumersByAnchor profile report) anchor = Some v"
  shows "pf_file profile \<notin> set v" "distinct v"
proof -
  let ?leaf = "facts_by_leaf (pf_file profile) (sup_facts report)"
  have none: "pf_file profile \<notin> set (or_default (map_get ?leaf n) [])" for n
    using facts_by_leaf_excludes by (cases "map_get ?leaf n") (auto dest: map_of_SomeD)
  have all: "pf_file profile \<notin> set (uniq (concat (map snd ?leaf)))" using facts_by_leaf_excludes by fastforce
  define step where "step = (\<lambda>m (change :: SemanticChange). let name = leafName (sc_anchor change);
      consumers = (if name = ''file'' \<or> starts_with name ''manual:'' then uniq (concat (map snd ?leaf)) else or_default (map_get ?leaf name) [])
    in map_set m (sc_anchor change) (sorted_uniq consumers))"
  have inv: "\<forall>a v. map_get (foldl step m changes) a = Some v \<longrightarrow> pf_file profile \<notin> set v \<and> distinct v"
    if "\<forall>a v. map_get m a = Some v \<longrightarrow> pf_file profile \<notin> set v \<and> distinct v" for m changes
    using that
  proof (induction changes arbitrary: m)
    case (Cons ch changes)
    define cs where "cs = (if leafName (sc_anchor ch) = ''file'' \<or> starts_with (leafName (sc_anchor ch)) ''manual:''
      then uniq (concat (map snd ?leaf)) else or_default (map_get ?leaf (leafName (sc_anchor ch))) [])"
    have cs: "step m ch = map_set m (sc_anchor ch) (sorted_uniq cs)" by (simp only: step_def cs_def Let_def)
    have no: "pf_file profile \<notin> set cs" unfolding cs_def using all none by (simp only: split: if_split) blast
    have "\<forall>a v. map_get (step m ch) a = Some v \<longrightarrow> pf_file profile \<notin> set v \<and> distinct v"
    proof (intro allI impI)
      fix a v assume "map_get (step m ch) a = Some v"
      then have "if a = sc_anchor ch then v = sorted_uniq cs else map_get m a = Some v" unfolding cs map_get_set by (simp split: if_splits)
      then show "pf_file profile \<notin> set v \<and> distinct v"
        using Cons.prems no set_sorted_uniq [of cs] distinct_sorted_uniq [of cs] by metis
    qed
    then show ?case unfolding foldl.simps by (rule Cons.IH)
  next
    case Nil
    then show ?case by (simp only: foldl.simps)
  qed
  have e: "symbolConsumersByAnchor profile report = foldl step [] (declarationChanges profile)"
    by (simp only: symbolConsumersByAnchor_def step_def Let_def)
  have "\<forall>a v. map_get (foldl step [] (declarationChanges profile)) a = Some v \<longrightarrow> pf_file profile \<notin> set v \<and> distinct v"
    by (rule inv) (simp only: map_of.simps option.distinct simp_thms)
  then show "pf_file profile \<notin> set v" "distinct v" using assms unfolding e by blast+
qed

lemma contribution_facts:
  assumes "t = contribution_of weight consumers unconfirmed change" "\<And>f. 0 < weight f"
  shows "ct_consumers t = uniq (or_default (map_get consumers (sc_anchor change)) [])" "0 \<le> ct_contribution t"
    "ct_contribution t = 0 \<longleftrightarrow> ct_consumers t = [] \<or> ct_kind t = comment_whitespace"
    "ct_consumers t \<noteq> [] \<Longrightarrow> \<exists>f \<in> set (ct_consumers t). ct_layerWeight t = weight f"
    "ct_unconfirmed t \<longleftrightarrow> sc_anchor change \<in> set unconfirmed" "ct_anchor t = sc_anchor change"
proof -
  let ?cs = "uniq (or_default (map_get consumers (sc_anchor change)) [])"
  show c: "ct_consumers t = ?cs" "ct_unconfirmed t \<longleftrightarrow> sc_anchor change \<in> set unconfirmed" "ct_anchor t = sc_anchor change"
    by (simp_all add: assms(1) contribution_of_def Let_def)
  have w: "?cs \<noteq> [] \<Longrightarrow> \<exists>f \<in> set ?cs. js_max (map weight ?cs) = weight f" using js_max_in [of "map weight ?cs"] by auto
  show layer: "ct_consumers t \<noteq> [] \<Longrightarrow> \<exists>f \<in> set (ct_consumers t). ct_layerWeight t = weight f"
    using w unfolding c(1) by (simp add: assms(1) contribution_of_def Let_def)
  have e: "ct_contribution t = LAMBDA_AST (ct_kind t) * log 2 (real (length (ct_consumers t)) + 1) * ct_layerWeight t"
    by (simp add: assms(1) contribution_of_def Let_def)
  have l: "0 \<le> ct_layerWeight t" "ct_consumers t \<noteq> [] \<Longrightarrow> 0 < ct_layerWeight t"
  proof -
    show "ct_consumers t \<noteq> [] \<Longrightarrow> 0 < ct_layerWeight t" using layer assms(2) by auto
    moreover have "ct_consumers t = [] \<Longrightarrow> ct_layerWeight t = 0" by (simp add: assms(1) contribution_of_def Let_def)
    ultimately show "0 \<le> ct_layerWeight t" by fastforce
  qed
  show "0 \<le> ct_contribution t" unfolding e using l by (intro mult_nonneg_nonneg) simp_all
  show "ct_contribution t = 0 \<longleftrightarrow> ct_consumers t = [] \<or> ct_kind t = comment_whitespace"
  proof (cases "ct_consumers t = []")
    case True then show ?thesis unfolding e by simp
  next
    case False
    then have "log 2 (real (length (ct_consumers t)) + 1) \<noteq> 0" using log2_Suc_pos_iff [of "length (ct_consumers t)"] by (metis length_greater_0_conv less_irrefl)
    with False l(2) show ?thesis unfolding e by (simp add: LAMBDA_AST_zero_iff)
  qed
qed

lemma surface_consumers:
  assumes "s \<in> set (sf_surfaces (computeChangeSurfaceForProfiles mm absolute base profiles reports reverseEdges pathClasses))"
  obtains p consumers unconfirmed where "p \<in> set profiles" "fs_file s = pf_file p"
    and "cr_contributions (fs_result s) = map (contribution_of (\<lambda>file. layerWeightOf mm file pathClasses) consumers unconfirmed) (declarationChanges p)"
    and "cr_total (fs_result s) = sum_list (map ct_contribution (cr_contributions (fs_result s)))"
    and "\<And>anchor. pf_file p \<notin> set (or_default (map_get consumers anchor) [])"
    and "\<And>anchor. anchor \<in> set (map sc_anchor (declarationChanges p)) \<Longrightarrow>
      anchor \<in> set unconfirmed \<longleftrightarrow> or_default (map_get consumers anchor) [] = [] \<and> fs_staticBound s \<noteq> 0"
proof -
  let ?w = "\<lambda>file. layerWeightOf mm file pathClasses" and ?d = "dossier_for absolute base reverseEdges (or_default reports [])"
  from assms obtain p where p: "p \<in> set profiles" "surface_for ?w (?d p) = Some s"
    by (auto simp: computeChangeSurfaceForProfiles_def symbolEvidenceDossiersForProfiles_def Let_def)
  obtain consumers where c: "do_consumersByAnchor (?d p) = Some consumers" "do_evidence (?d p) \<noteq> no_provider"
    using p(2) by (auto simp: surface_for_def split: option.splits if_splits)
  define unconfirmed where "unconfirmed = (if do_evidence (?d p) = symbol_evidence
      then filter (\<lambda>anchor. or_default (map_get consumers anchor) [] = []) (do_anchors (?d p)) else [])"
  have res: "fs_result s = computeChangeSurfaceImpact (if do_evidence (?d p) = static_bound_empty then from_empty_bound else from_symbols)
      (do_changes (?d p)) consumers ?w (if do_evidence (?d p) = symbol_evidence
        then Some (filter (\<lambda>anchor. or_default (map_get consumers anchor) [] = []) (do_anchors (?d p))) else None)"
    using p(2) c by (auto simp: surface_for_def)
  then have contributions: "cr_contributions (fs_result s) = map (contribution_of ?w consumers unconfirmed) (declarationChanges p)"
    by (simp add: computeChangeSurfaceImpact_def Let_def unconfirmed_def dossier_cases(2) [OF refl])
  have total: "cr_total (fs_result s) = sum_list (map ct_contribution (cr_contributions (fs_result s)))"
    unfolding res by (simp add: computeChangeSurfaceImpact_def Let_def foldl_plus_sum_list)
  have empty: "or_default (map_get (fromEntries (map (\<lambda>c. (sc_anchor c, [] :: string list)) cs)) anchor) [] = []" for cs :: "SemanticChange list" and anchor
  proof (cases "map_get (fromEntries (map (\<lambda>c. (sc_anchor c, [] :: string list)) cs)) anchor")
    case (Some v)
    from fromEntries_member [OF this] show ?thesis using Some by auto
  qed simp
  have own: "pf_file p \<notin> set (or_default (map_get consumers anchor) [])" for anchor
  proof (cases "do_evidence (?d p) = symbol_evidence")
    case True
    from symbol_evidence_report [OF refl True] c(1) obtain report where "consumers = symbolConsumersByAnchor p report" by auto
    then show ?thesis using consumers_by_anchor(1) [of p report anchor] by (cases "map_get consumers anchor") auto
  next
    case False
    then have "do_evidence (?d p) = static_bound_empty" using c(2) by (cases "do_evidence (?d p)") auto
    from dossier_cases(9) [OF refl this] c(1) have "consumers = fromEntries (map (\<lambda>c. (sc_anchor c, [])) (declarationChanges p))" by simp
    then show ?thesis using empty by simp
  qed
  have bound: "fs_staticBound s = length (do_staticConsumers (?d p))" "fs_file s = pf_file p"
    using surface_for_file [OF p(2)] by (simp_all add: dossier_cases(1) [OF refl])
  have "anchor \<in> set unconfirmed \<longleftrightarrow> or_default (map_get consumers anchor) [] = [] \<and> fs_staticBound s \<noteq> 0"
    if "anchor \<in> set (map sc_anchor (declarationChanges p))" for anchor
    using that c(2) dossier_cases(8) [OF refl, of absolute base reverseEdges "or_default reports []" p]
    by (cases "do_evidence (?d p)") (auto simp: unconfirmed_def bound dossier_cases(3) [OF refl])
  with that [OF p(1) bound(2) contributions total own] show thesis by blast
qed

text \<open>C40: In the surfaces of a change no file is its own consumer and none counts twice; a contribution is never negative, and zero exactly
  when the symbol has no consumer or only comments changed; its layer weight is that of one of the consumers; the total is the sum;
  and a symbol without consumers is marked unconfirmed exactly when the file itself is imported somewhere.\<close>

theorem consumer_impact_bounds:
  assumes "s \<in> set (sf_surfaces (computeChangeSurfaceForProfiles mm absolute base profiles reports reverseEdges pathClasses))"
  shows "cr_total (fs_result s) = sum_list (map ct_contribution (cr_contributions (fs_result s)))
    \<and> (\<forall>t \<in> set (cr_contributions (fs_result s)).
        distinct (ct_consumers t) \<and> fs_file s \<notin> set (ct_consumers t) \<and> 0 \<le> ct_contribution t
        \<and> (ct_contribution t = 0 \<longleftrightarrow> ct_consumers t = [] \<or> ct_kind t = comment_whitespace)
        \<and> (ct_consumers t \<noteq> [] \<longrightarrow> (\<exists>f \<in> set (ct_consumers t). ct_layerWeight t = layerWeightOf mm f pathClasses))
        \<and> (ct_unconfirmed t \<longleftrightarrow> ct_consumers t = [] \<and> fs_staticBound s \<noteq> 0))"
proof -
  from surface_consumers [OF assms] obtain p consumers unconfirmed where p: "fs_file s = pf_file p"
    "cr_contributions (fs_result s) = map (contribution_of (\<lambda>file. layerWeightOf mm file pathClasses) consumers unconfirmed) (declarationChanges p)"
    "cr_total (fs_result s) = sum_list (map ct_contribution (cr_contributions (fs_result s)))"
    "\<And>anchor. pf_file p \<notin> set (or_default (map_get consumers anchor) [])"
    "\<And>anchor. anchor \<in> set (map sc_anchor (declarationChanges p)) \<Longrightarrow>
      anchor \<in> set unconfirmed \<longleftrightarrow> or_default (map_get consumers anchor) [] = [] \<and> fs_staticBound s \<noteq> 0"
    by metis
  have weight: "0 < layerWeightOf mm f pathClasses" for f using layerWeightOf_pos [of mm f pathClasses] by linarith
  have "distinct (ct_consumers t) \<and> fs_file s \<notin> set (ct_consumers t) \<and> 0 \<le> ct_contribution t
        \<and> (ct_contribution t = 0 \<longleftrightarrow> ct_consumers t = [] \<or> ct_kind t = comment_whitespace)
        \<and> (ct_consumers t \<noteq> [] \<longrightarrow> (\<exists>f \<in> set (ct_consumers t). ct_layerWeight t = layerWeightOf mm f pathClasses))
        \<and> (ct_unconfirmed t \<longleftrightarrow> ct_consumers t = [] \<and> fs_staticBound s \<noteq> 0)"
    if t: "t \<in> set (cr_contributions (fs_result s))" for t
  proof -
    from t obtain ch where ch: "ch \<in> set (declarationChanges p)"
      and e: "t = contribution_of (\<lambda>file. layerWeightOf mm file pathClasses) consumers unconfirmed ch" unfolding p(2) by auto
    note f = contribution_facts [OF e weight]
    have "sc_anchor ch \<in> set unconfirmed \<longleftrightarrow> or_default (map_get consumers (sc_anchor ch)) [] = [] \<and> fs_staticBound s \<noteq> 0"
      using p(5) ch by simp
    then show ?thesis using f p(4) [of "sc_anchor ch"] by (simp add: p(1))
  qed
  with p(3) show ?thesis by blast
qed

section \<open>A small change\<close>

definition sample_changed :: "string \<Rightarrow> ChangeKind \<Rightarrow> SemanticFileProfile" where
  "sample_changed anchor kind = \<lparr>pf_file = ''a.go'', pf_changes = [\<lparr>sc_anchor = anchor, sc_kind = kind\<rparr>], pf_beforeMetrics = None,
     pf_beforeState = before_git, pf_deleted = False, pf_unavailable = False\<rparr>"

definition sample_uses :: SymbolUseReport where
  "sample_uses = \<lparr>sup_origin = \<lparr>or_language = ''go'', or_providerId = ''gopls'', or_evidenceSource = source_lsp\<rparr>,
     sup_state = \<lparr>es_availability = av_available, es_coverage = \<lparr>cs_declarations = cv_complete, cs_repositoryReferences = cv_complete,
       cs_incompleteReferences = None\<rparr>, es_reason = None\<rparr>,
     sup_facts = [\<lparr>su_language = ''go'', su_declaration = \<lparr>sy_file = ''a.go'', sy_name = ''f'', sy_kind = function_kind, sy_line = 1\<rparr>,
       su_repositoryReferences = [\<lparr>sr_file = ''b.go'', sr_line = 1\<rparr>, \<lparr>sr_file = ''c.go'', sr_line = 1\<rparr>], su_publicSurface = surface_declared_public\<rparr>],
     sup_scope = None\<rparr>"

abbreviation sample_absolute :: "string \<Rightarrow> string" where
  "sample_absolute p \<equiv> ''/r/'' @ p"

abbreviation sample_surfaces :: "SymbolUseReport list option \<Rightarrow> DependencyGraph \<Rightarrow> ChangeSurfaceCollection" where
  "sample_surfaces reports reverse \<equiv> computeChangeSurfaceForProfiles (\<lambda>_ _. False) sample_absolute ''/r'' [sample_changed ''f'' function_sig] reports reverse []"

lemma sample_language: "reportLanguage ''a.go'' = ''go''"
  by (simp add: reportLanguage_def findLanguageForFile_def LANGUAGE_SUPPORTS_def to_lower_def lower_char_def ends_with_def starts_with_def)

lemma sample_declarations: "declarationChanges (sample_changed ''f'' k) = [\<lparr>sc_anchor = ''f'', sc_kind = k\<rparr>]"
  by (simp add: declarationChanges_def sample_changed_def starts_with_def)

lemma sample_static: "staticConsumersFor sample_absolute ''/r'' ''a.go'' [(''/r/a.go'', [''/r/b.go''])] = [''b.go'']"
  by (simp add: staticConsumersFor_def relativePath_def node_relative_def absolute_segments_def path_step_def toPosixPath_def sorted_uniq_def)

theorem surfaces_need_evidence_witness:
  "map ga_file (filter (\<lambda>g. ga_kind g = gap_provider_unavailable) (sf_symbolEvidenceGaps (sample_surfaces None [(''/r/a.go'', [''/r/b.go''])]))) = [''a.go'']"
proof -
  have "do_evidence (dossier_for sample_absolute ''/r'' [(''/r/a.go'', [''/r/b.go''])] (or_default None []) (sample_changed ''f'' function_sig)) = no_provider"
    using sample_static by (simp add: dossier_for_def Let_def sample_changed_def)
  then show ?thesis
    using surfaces_need_evidence [OF refl refl, of "\<lambda>_ _. False" sample_absolute "''/r''" "[sample_changed ''f'' function_sig]" None "[(''/r/a.go'', [''/r/b.go''])]" "[]"]
    by (simp add: sample_declarations, simp add: sample_changed_def)
qed

lemma sample_surface: "\<exists>s. sf_surfaces (sample_surfaces None []) = [s]"
  by (simp add: computeChangeSurfaceForProfiles_def symbolEvidenceDossiersForProfiles_def sample_declarations Let_def)
    (simp add: dossier_for_def staticConsumersFor_def surface_for_def Let_def sorted_uniq_def)

theorem consumer_impact_bounds_witness:
  "\<exists>s \<in> set (sf_surfaces (sample_surfaces None [])). cr_total (fs_result s) = sum_list (map ct_contribution (cr_contributions (fs_result s)))"
proof -
  obtain s where "sf_surfaces (sample_surfaces None []) = [s]" using sample_surface by blast
  then have "s \<in> set (sf_surfaces (sample_surfaces None []))" by simp
  with consumer_impact_bounds [OF this] show ?thesis by blast
qed

text \<open>A symbol can have consumers that the static bound does not contain, although the comments call it an upper bound.\<close>

lemma consumers_beyond_the_bound:
  "symbolConsumersByAnchor (sample_changed ''f'' function_sig) sample_uses = [(''f'', [''b.go'', ''c.go''])]
   \<and> do_evidence (dossier_for sample_absolute ''/r'' [(''/r/a.go'', [''/r/b.go''])] [sample_uses] (sample_changed ''f'' function_sig)) = symbol_evidence
   \<and> staticConsumersFor sample_absolute ''/r'' ''a.go'' [(''/r/a.go'', [''/r/b.go''])] = [''b.go'']"
proof -
  have c: "symbolConsumersByAnchor (sample_changed ''f'' function_sig) sample_uses = [(''f'', [''b.go'', ''c.go''])]"
    by (simp add: symbolConsumersByAnchor_def sample_declarations leafName_def facts_by_leaf_def Let_def starts_with_def)
      (simp add: sample_uses_def sample_changed_def other_references_def map_set_def sorted_uniq_def)
  moreover have "do_evidence (dossier_for sample_absolute ''/r'' [(''/r/a.go'', [''/r/b.go''])] [sample_uses] (sample_changed ''f'' function_sig)) = symbol_evidence"
    using sample_static sample_language by (simp add: dossier_for_def Let_def c, simp add: sample_changed_def sample_uses_def)
  ultimately show ?thesis using sample_static by simp
qed

text \<open>Without reports the plan of a file that only changed its imports has no consumers and no gap either.\<close>

lemma silent_plan:
  "\<exists>i. buildImpactPlan sample_absolute ''/r'' [sample_changed ''import:x'' dependency_add] [] None = [i] \<and> ip_symbolConsumers i = [] \<and> ip_evidenceGap i = None"
proof -
  have "declarationChanges (sample_changed ''import:x'' dependency_add) = []" by (simp add: declarationChanges_def sample_changed_def starts_with_def)
  then show ?thesis
    by (simp add: buildImpactPlan_def symbolEvidenceDossiersForProfiles_def plan_item_def Let_def fromEntries_def symbolConsumersFor_def)
      (simp add: sample_changed_def isDependencyChange_def)
qed

end
