(* ===== verification/Fingerprint.thy ===== *)
theory Fingerprint
  imports Js_String "HOL-Library.Word"
begin

text \<open>
  Fingerprints of texts (\<open>document-store/DocumentFingerprint.ts\<close>): the 32-bit hash, the features of a block of code, the minimum hashes
  with their bands, and the 64-bit similarity hash. Digests are an argument: \<open>sha\<close> is the hexadecimal SHA-256 of a text and
  \<open>digest\<close> its bytes. A fingerprint is a cheap filter, so the laws say what the filter cannot miss: two texts whose minimum hashes
  agree often enough share a band, and equal features give equal fingerprints.
\<close>

unbundle bit_operations_syntax

definition MINHASH_SIZE :: nat where "MINHASH_SIZE = 64"
definition BAND_SIZE :: nat where "BAND_SIZE = 8"
definition MINHASH_CANDIDATE :: real where "MINHASH_CANDIDATE = 45 / 100"
definition SIMHASH_DISTANCE :: nat where "SIMHASH_DISTANCE = 16"

record IndexedDocument =
  ix_path :: string
  ix_contentSha256 :: string
  ix_minHash :: "nat list"
  ix_simHash :: string
  ix_title :: "string option"

section \<open>The hash of a feature\<close>

definition mix_step :: "32 word \<Rightarrow> char \<Rightarrow> 32 word" where
  "mix_step h c = (h XOR word_of_nat (code c)) * 16777619"

definition hash32 :: "string \<Rightarrow> int \<Rightarrow> nat" where
  "hash32 t seed = unat (foldl mix_step (2166136261 XOR word_of_int seed) t)"

definition feature_min :: "int \<Rightarrow> string list \<Rightarrow> nat" where
  "feature_min seed features = foldl (\<lambda>v f. min v (hash32 f seed)) 0xffffffff features"

definition minHashOf :: "string list \<Rightarrow> nat list" where
  "minHashOf features =
     map (\<lambda>k. let v = feature_min (int k * 0x9e3779b1) features in if v = 0xffffffff then 0 else v) [0..<MINHASH_SIZE]"

section \<open>The features of a block of code\<close>

definition is_line_end :: "char \<Rightarrow> bool" where
  "is_line_end c = (c = CHR 0x0A \<or> c = CHR 0x0D)"

text \<open>\<open>split(/\r?\n/)\<close>: a carriage return belongs to the separator when a line feed follows it.\<close>

definition drop_cr :: "string \<Rightarrow> string" where
  "drop_cr l = (if l \<noteq> [] \<and> last l = CHR 0x0D then butlast l else l)"

definition split_lines :: "string \<Rightarrow> string list" where
  "split_lines s = (let ls = split_on (CHR 0x0A) s in map drop_cr (butlast ls) @ [last ls])"

text \<open>\<open>/`.+?`/\<close>: after an opening backtick one character of the line, then the next backtick of the line.\<close>

fun after_backtick :: "string \<Rightarrow> string option" where
  "after_backtick [] = None"
| "after_backtick (c # s) = (if c = CHR 0x60 then Some s else if is_line_end c then None else after_backtick s)"

lemma after_backtick_shorter: "after_backtick s = Some r \<Longrightarrow> length r < length s"
  by (induction s) (auto split: if_splits)

function mask_templates :: "string \<Rightarrow> string" where
  "mask_templates [] = []"
| "mask_templates [c] = [c]"
| "mask_templates (c # d # s) =
     (if c = CHR 0x60 \<and> \<not> is_line_end d
      then (case after_backtick s of None \<Rightarrow> c # mask_templates (d # s) | Some r \<Rightarrow> [CHR 0x60, CHR ''X'', CHR 0x60] @ mask_templates r)
      else c # mask_templates (d # s))"
  by pat_completeness auto
termination
  by (relation "measure length") (auto dest: after_backtick_shorter)

text \<open>\<open>/\b\d+\b/\<close>: a run of digits with no word character on either side. \<open>prev\<close> says whether a word character precedes.\<close>

function mask_numbers :: "bool \<Rightarrow> string \<Rightarrow> string" where
  "mask_numbers prev [] = []"
| "mask_numbers prev (c # s) =
     (if is_digit c \<and> \<not> prev \<and> (case dropWhile is_digit s of [] \<Rightarrow> True | d # _ \<Rightarrow> \<not> is_word d)
      then CHR ''N'' # mask_numbers True (dropWhile is_digit s)
      else c # mask_numbers (is_word c) s)"
  by pat_completeness auto
termination
  by (relation "measure (length \<circ> snd)") (auto simp: le_imp_less_Suc length_dropWhile_le)

text \<open>\<open>/\/\/.*$/\<close>: the first two slashes with no line end after them.\<close>

fun drop_comment :: "string \<Rightarrow> string" where
  "drop_comment [] = []"
| "drop_comment (c # s) =
     (if starts_with (c # s) ''//'' \<and> \<not> list_ex is_line_end s then [] else c # drop_comment s)"

definition feature_line :: "string \<Rightarrow> string" where
  "feature_line l = drop_comment (mask_numbers False (mask_templates (trim l)))"

definition windows :: "nat \<Rightarrow> 'a list \<Rightarrow> 'a list list" where
  "windows n xs = map (\<lambda>i. take n (drop i xs)) [0..<length xs + 1 - n]"

definition codeFeaturesOf :: "string \<Rightarrow> nat \<Rightarrow> string list" where
  "codeFeaturesOf content n =
     map (join_with [CHR 0x0A]) (windows n (filter (\<lambda>l. length l > 4) (map feature_line (split_lines content))))"

section \<open>The similarity hash\<close>

definition digest_bit :: "nat list \<Rightarrow> nat \<Rightarrow> bool" where
  "digest_bit bytes i = bit (bytes ! (i div 8)) (i mod 8)"

definition bit_weight :: "(string \<Rightarrow> nat list) \<Rightarrow> string list \<Rightarrow> nat \<Rightarrow> int" where
  "bit_weight digest features i = foldl (\<lambda>w f. w + (if digest_bit (digest f) i then 1 else -1)) 0 features"

text \<open>The value as the number of its bits, lowest first, and as sixteen hexadecimal digits.\<close>

fun bits_value :: "bool list \<Rightarrow> nat" where
  "bits_value [] = 0"
| "bits_value (b # bs) = of_bool b + 2 * bits_value bs"

definition hex_digit :: "nat \<Rightarrow> char" where
  "hex_digit n = (if n < 10 then char_of (48 + n) else char_of (87 + n))"

fun hex_digits :: "nat \<Rightarrow> nat \<Rightarrow> string" where
  "hex_digits 0 n = []"
| "hex_digits (Suc k) n = hex_digits k (n div 16) @ [hex_digit (n mod 16)]"

definition simHashOf :: "(string \<Rightarrow> nat list) \<Rightarrow> string list \<Rightarrow> string" where
  "simHashOf digest features = hex_digits 16 (bits_value (map (\<lambda>i. bit_weight digest features i \<ge> 0) [0..<64]))"

definition hex_value :: "char \<Rightarrow> nat" where
  "hex_value c = (if is_digit c then code c - 48 else code c - 87)"

definition hex_number :: "string \<Rightarrow> nat" where
  "hex_number = foldl (\<lambda>n c. 16 * n + hex_value c) 0"

function ones :: "nat \<Rightarrow> nat" where
  "ones n = (if n = 0 then 0 else n mod 2 + ones (n div 2))"
  by pat_completeness auto
termination
  by (relation "measure id") auto

declare ones.simps [simp del]

definition simHashDistance :: "string \<Rightarrow> string \<Rightarrow> nat" where
  "simHashDistance left right = ones (hex_number left XOR hex_number right)"

section \<open>Similarity and bands\<close>

definition minHashSimilarity :: "nat list \<Rightarrow> nat list \<Rightarrow> real" where
  "minHashSimilarity left right =
     (let n = min (length left) (length right)
      in if n = 0 then 0 else real (length (filter (\<lambda>(l, r). l = r) (zip left right))) / real n)"

definition bucket_key :: "nat list \<Rightarrow> nat \<Rightarrow> string" where
  "bucket_key minHash band =
     show_nat band @ '':'' @ join_with '','' (map show_nat (take BAND_SIZE (drop (band * BAND_SIZE) minHash)))"

definition bucketKeys :: "nat list \<Rightarrow> string list" where
  "bucketKeys minHash = map (bucket_key minHash) [0..<MINHASH_SIZE div BAND_SIZE]"

definition codeIndexedDocument :: "(string \<Rightarrow> string) \<Rightarrow> (string \<Rightarrow> nat list) \<Rightarrow> string \<Rightarrow> string \<Rightarrow> IndexedDocument" where
  "codeIndexedDocument sha digest path content =
     (let features = codeFeaturesOf content 3
      in \<lparr>ix_path = path, ix_contentSha256 = sha content, ix_minHash = minHashOf features, ix_simHash = simHashOf digest features, ix_title = None\<rparr>)"
section \<open>Minimum hashes\<close>

lemma length_minHashOf [simp]: "length (minHashOf features) = 64"
  by (simp add: minHashOf_def MINHASH_SIZE_def)

lemma feature_min_Min: "feature_min seed features = Min (insert 0xffffffff ((\<lambda>f. hash32 f seed) ` set features))"
proof -
  have ins: "finite S \<Longrightarrow> Min (insert (min m h) S) = Min (insert m (insert h S))" for m h :: nat and S
    by (cases "S = {}") (simp_all add: min.assoc)
  have "foldl (\<lambda>v f. min v (hash32 f seed)) m features = Min (insert m ((\<lambda>f. hash32 f seed) ` set features))" for m
    by (induction features arbitrary: m) (simp, simp only: foldl_Cons ins finite_imageI List.finite_set list.set image_insert)
  then show ?thesis by (simp add: feature_min_def)
qed

text \<open>The minimum hashes are a function of the set of features.\<close>

lemma minHashOf_set: "set f = set g \<Longrightarrow> minHashOf f = minHashOf g"
  by (simp add: minHashOf_def feature_min_Min)

lemma minHashOf_Nil: "minHashOf [] = replicate 64 0"
  by (simp add: minHashOf_def feature_min_def MINHASH_SIZE_def map_replicate_const)

definition agreements :: "nat list \<Rightarrow> nat list \<Rightarrow> nat set" where
  "agreements a b = {i. i < length a \<and> a ! i = b ! i}"

lemma similarity_agreements:
  assumes "length a = length b" shows "minHashSimilarity a b = real (card (agreements a b)) / real (length a)"
proof -
  have "length (filter (\<lambda>(l, r). l = r) (zip a b)) = card (agreements a b)"
    using assms by (auto simp: length_filter_conv_card agreements_def intro!: arg_cong [where f = card])
  with assms show ?thesis by (simp add: minHashSimilarity_def)
qed

lemma similarity_bounds: "0 \<le> minHashSimilarity a b \<and> minHashSimilarity a b \<le> 1"
  using length_filter_le [of "\<lambda>(l, r). l = r" "zip a b"] by (auto simp: minHashSimilarity_def Let_def divide_simps)

lemma similarity_same: "a \<noteq> [] \<Longrightarrow> minHashSimilarity a a = 1"
  by (subst similarity_agreements) (simp_all add: agreements_def)

text \<open>Blocks without features cannot be told apart.\<close>

lemma featureless_alike: "codeFeaturesOf s n = [] \<Longrightarrow> codeFeaturesOf t n = [] \<Longrightarrow> minHashSimilarity (minHashOf (codeFeaturesOf s n)) (minHashOf (codeFeaturesOf t n)) = 1"
  by (simp add: similarity_same minHashOf_Nil)

section \<open>Bands\<close>

lemma show_nat_inj: "show_nat m = show_nat n \<longleftrightarrow> m = n"
  by (metis show_nat_digits)

lemma show_nat_no: "\<not> is_digit c \<Longrightarrow> c \<notin> set (show_nat n)"
  using show_nat_digits [of n] by (auto simp: list_all_iff)

lemma digit_separators: "\<not> is_digit (CHR '':'')" "\<not> is_digit (CHR '','')"
  by (simp_all add: is_digit_def)

lemma bucket_key_eq: "bucket_key a i = bucket_key b j \<longleftrightarrow>
    i = j \<and> take BAND_SIZE (drop (i * BAND_SIZE) a) = take BAND_SIZE (drop (j * BAND_SIZE) b)"
  (is "_ \<longleftrightarrow> _ \<and> ?s = ?t")
proof
  assume e: "bucket_key a i = bucket_key b j"
  have colon: "CHR '':'' \<notin> set (show_nat n)" for n by (rule show_nat_no) (rule digit_separators)
  have "split_on (CHR '':'') (bucket_key c k) = show_nat k # split_on (CHR '':'') (join_with '','' (map show_nat (take BAND_SIZE (drop (k * BAND_SIZE) c))))" for c k
    unfolding bucket_key_def by (simp add: split_on_append_sep [OF colon])
  with e have ij: "show_nat i = show_nat j" by (metis list.inject)
  then have rest: "join_with '','' (map show_nat ?s) = join_with '','' (map show_nat ?t)"
    using e by (simp add: bucket_key_def)
  have comma: "\<forall>x \<in> set (map show_nat u). CHR '','' \<notin> set x" for u
    using show_nat_no [OF digit_separators(2)] by auto
  have nonempty: "join_with '','' (map show_nat u) = [] \<longleftrightarrow> u = []" for u
    using show_nat_digits by (cases u rule: remdups_adj.cases) auto
  have "map show_nat ?s = map show_nat ?t"
  proof (cases "?s = [] \<or> ?t = []")
    case True
    then show ?thesis using rest nonempty by (metis list.simps(8))
  next
    case False
    then show ?thesis by (intro join_inj [OF _ _ comma comma rest]) auto
  qed
  moreover have "inj show_nat" by (simp add: inj_def show_nat_inj)
  ultimately have "?s = ?t" by (metis map_injective)
  with ij show "i = j \<and> ?s = ?t" by (simp add: show_nat_inj)
qed (auto simp only: bucket_key_def)

definition same_band :: "nat list \<Rightarrow> nat list \<Rightarrow> nat \<Rightarrow> bool" where
  "same_band a b k = (take BAND_SIZE (drop (k * BAND_SIZE) a) = take BAND_SIZE (drop (k * BAND_SIZE) b))"

lemma common_bucket: "set (bucketKeys a) \<inter> set (bucketKeys b) \<noteq> {} \<longleftrightarrow> (\<exists>k < 8. same_band a b k)"
proof -
  have keys: "set (bucketKeys c) = bucket_key c ` {..<8}" for c
    by (simp add: bucketKeys_def MINHASH_SIZE_def BAND_SIZE_def atLeast0LessThan)
  show ?thesis
    unfolding keys by (fastforce simp: bucket_key_eq same_band_def)
qed

text \<open>Fewer disagreements than bands leave one band untouched.\<close>

lemma few_disagreements_share:
  assumes "length a = 64" "length b = 64" "card {i. i < 64 \<and> a ! i \<noteq> b ! i} < 8"
  shows "\<exists>k < 8. same_band a b k"
proof (rule ccontr)
  assume none: "\<not> ?thesis"
  have "\<exists>i. i div 8 = k \<and> i < 64 \<and> a ! i \<noteq> b ! i" if "k < 8" for k
  proof -
    have "take 8 (drop (k * 8) a) \<noteq> take 8 (drop (k * 8) b)" using none that by (simp add: same_band_def BAND_SIZE_def)
    then obtain j where "j < 8" "a ! (k * 8 + j) \<noteq> b ! (k * 8 + j)"
      using assms(1,2) that by (auto simp: list_eq_iff_nth_eq)
    then show ?thesis using that by (intro exI [where x = "k * 8 + j"]) auto
  qed
  then have "{0..<8} \<subseteq> (\<lambda>i. i div 8) ` {i. i < 64 \<and> a ! i \<noteq> b ! i}" by (force simp: image_iff)
  then have "card {0..<8::nat} \<le> card {i. i < 64 \<and> a ! i \<noteq> b ! i}" by (rule surj_card_le [rotated]) simp
  with assms(3) show False by simp
qed

lemma similar_share_bucket:
  assumes "length a = 64" "length b = 64" "minHashSimilarity a b > 7 / 8"
  shows "set (bucketKeys a) \<inter> set (bucketKeys b) \<noteq> {}"
proof -
  have "{..<64} = agreements a b \<union> {i. i < 64 \<and> a ! i \<noteq> b ! i}" using assms by (auto simp: agreements_def)
  moreover have "card (agreements a b \<union> {i. i < 64 \<and> a ! i \<noteq> b ! i}) = card (agreements a b) + card {i. i < 64 \<and> a ! i \<noteq> b ! i}"
    using assms by (intro card_Un_disjoint) (auto simp: agreements_def)
  ultimately have "card (agreements a b) + card {i. i < 64 \<and> a ! i \<noteq> b ! i} = 64" by (metis card_lessThan)
  moreover have "card (agreements a b) > 56" using assms by (simp add: similarity_agreements divide_simps)
  ultimately have "card {i. i < 64 \<and> a ! i \<noteq> b ! i} < 8" by simp
  with few_disagreements_share [OF assms(1,2)] show ?thesis by (simp add: common_bucket)
qed

section \<open>Distances of similarity hashes\<close>

lemma hex_digit_value: "n < 16 \<Longrightarrow> hex_value (hex_digit n) = n"
  by (auto simp: hex_value_def hex_digit_def is_digit_def of_char_of)

lemma hex_number_snoc: "hex_number (s @ [c]) = 16 * hex_number s + hex_value c"
  by (simp add: hex_number_def)

lemma hex_number_digits: "n < 16 ^ k \<Longrightarrow> hex_number (hex_digits k n) = n"
  by (induction k arbitrary: n) (auto simp: hex_number_snoc hex_digit_value less_mult_imp_div_less mult.commute, simp add: hex_number_def)

lemma bit_bits_value: "bit (bits_value bs) i \<longleftrightarrow> i < length bs \<and> bs ! i"
proof (induction bs arbitrary: i)
  case (Cons b bs)
  show ?case
  proof (cases i)
    case (Suc j)
    then show ?thesis using Cons.IH [of j] by (simp add: bit_Suc)
  qed (simp add: bit_0)
qed simp

lemma bits_value_bound: "bits_value bs < 2 ^ length bs"
  by (induction bs) auto

lemma ones_card: "n < 2 ^ m \<Longrightarrow> ones n = card {i. i < m \<and> bit n i}"
proof (induction m arbitrary: n)
  case 0
  then show ?case by (simp add: ones.simps)
next
  case (Suc m)
  have "{i. i < Suc m \<and> bit n i} = (if odd n then {0} else {}) \<union> Suc ` {i. i < m \<and> bit (n div 2) i}"
    by (auto simp: image_iff bit_0 bit_Suc [symmetric] less_Suc_eq_0_disj split: if_splits)
  then have "card {i. i < Suc m \<and> bit n i} = of_bool (odd n) + card {i. i < m \<and> bit (n div 2) i}"
    by (auto simp: card_image card_insert_if)
  also have "\<dots> = ones n"
    using Suc.IH [of "n div 2"] Suc.prems by (simp add: ones.simps [of n] ones.simps [of 0] mod_2_eq_odd)
  finally show ?case by simp
qed

definition sim_bits :: "(string \<Rightarrow> nat list) \<Rightarrow> string list \<Rightarrow> bool list" where
  "sim_bits digest features = map (\<lambda>i. bit_weight digest features i \<ge> 0) [0..<64]"

lemma hex_number_simHash: "hex_number (simHashOf digest f) = bits_value (sim_bits digest f)"
proof -
  have "bits_value (sim_bits digest f) < 16 ^ 16" using bits_value_bound [of "sim_bits digest f"] by (simp add: sim_bits_def)
  then show ?thesis by (simp only: simHashOf_def hex_number_digits flip: sim_bits_def)
qed

text \<open>The distance counts the bits on which two feature lists disagree.\<close>

lemma simHash_distance:
  "simHashDistance (simHashOf digest f) (simHashOf digest g) = card {i. i < 64 \<and> sim_bits digest f ! i \<noteq> sim_bits digest g ! i}"
proof -
  have len: "length (sim_bits digest h) = 64" for h by (simp add: sim_bits_def)
  have b: "bits_value (sim_bits digest h) < 2 ^ 64" for h using bits_value_bound [of "sim_bits digest h"] by (simp add: len)
  have "bits_value (sim_bits digest f) XOR bits_value (sim_bits digest g) < 2 ^ 64"
    using b [of f] b [of g] by (metis take_bit_nat_eq_self take_bit_nat_less_exp take_bit_xor)
  from ones_card [OF this]
  have "simHashDistance (simHashOf digest f) (simHashOf digest g)
      = card {i. i < 64 \<and> bit (bits_value (sim_bits digest f) XOR bits_value (sim_bits digest g)) i}"
    by (simp only: simHashDistance_def hex_number_simHash)
  then show ?thesis by (simp add: bit_xor_iff bit_bits_value len cong: conj_cong)
qed
end
