(* ===== verification/Markdown.thy ===== *)
theory Markdown
  imports Fingerprint
begin

text \<open>
  The block structure of a Markdown document (\<open>document-store/MarkdownStructure.ts\<close>): frontmatter, fenced code, inline code and HTML
  comments, found in one pass over the lines. Only regions that are proved to be comments are deleted. \<open>yaml\<close> is the YAML parser: what
  kind of value it makes of a text, or nothing where it throws. Positions count the code units of the document.
\<close>

section \<open>Lines\<close>

record RawLine =
  rl_text :: string
  rl_eol :: string
  rl_start :: nat

definition eol_of :: "string \<Rightarrow> string" where
  "eol_of piece = (if piece \<noteq> [] \<and> last piece = CHR 0x0D then [CHR 0x0D, CHR 0x0A] else [CHR 0x0A])"

fun raw_from :: "nat \<Rightarrow> string list \<Rightarrow> RawLine list" where
  "raw_from start [] = []"
| "raw_from start [piece] = [\<lparr>rl_text = piece, rl_eol = [], rl_start = start\<rparr>]"
| "raw_from start (piece # rest) =
     \<lparr>rl_text = drop_cr piece, rl_eol = eol_of piece, rl_start = start\<rparr> # raw_from (start + length (drop_cr piece) + length (eol_of piece)) rest"

definition splitRawLines :: "string \<Rightarrow> RawLine list" where
  "splitRawLines content = raw_from 0 (split_on (CHR 0x0A) content)"

section \<open>Frontmatter\<close>

definition FRONTMATTER_DELIMITER :: string where "FRONTMATTER_DELIMITER = ''---''"
definition FRONTMATTER_MAX_LINES :: nat where "FRONTMATTER_MAX_LINES = 512"

datatype YamlKind = yaml_nothing | yaml_object | yaml_array | yaml_scalar

definition parsesAsYamlMapping :: "(string \<Rightarrow> YamlKind option) \<Rightarrow> string \<Rightarrow> bool" where
  "parsesAsYamlMapping yaml body = (trim body = [] \<or> yaml body \<in> {Some yaml_nothing, Some yaml_object})"

definition is_delimiter :: "RawLine \<Rightarrow> bool" where
  "is_delimiter l = (trim (rl_text l) = FRONTMATTER_DELIMITER)"

definition frontmatterEnd :: "(string \<Rightarrow> YamlKind option) \<Rightarrow> RawLine list \<Rightarrow> nat" where
  "frontmatterEnd yaml raw =
     (case raw of [] \<Rightarrow> 0
      | first # _ \<Rightarrow>
          if \<not> is_delimiter first then 0
          else (case find (\<lambda>i. is_delimiter (raw ! i)) [1..<min (length raw) FRONTMATTER_MAX_LINES] of
             None \<Rightarrow> 0
           | Some i \<Rightarrow> if parsesAsYamlMapping yaml (join_with [CHR 0x0A] (map rl_text (take (i - 1) (drop 1 raw)))) then i + 1 else 0))"

section \<open>Fences\<close>

text \<open>\<open>/^( {0,3})(`{3,}|~{3,})(.*)$/\<close>\<close>

definition fenceOpener :: "string \<Rightarrow> (char \<times> nat) option" where
  "fenceOpener line =
     (let spaces = takeWhile (\<lambda>c. c = CHR 0x20) line; rest = dropWhile (\<lambda>c. c = CHR 0x20) line
      in case rest of [] \<Rightarrow> None
       | c # _ \<Rightarrow>
           let run = length (takeWhile (\<lambda>d. d = c) rest); info = drop run rest
           in if length spaces > 3 \<or> c \<noteq> CHR 0x60 \<and> c \<noteq> CHR ''~'' \<or> run < 3 \<or> list_ex is_line_end info then None
              else if c = CHR 0x60 \<and> CHR 0x60 \<in> set info then None
              else Some (c, run))"

fun drop_spaces :: "nat \<Rightarrow> string \<Rightarrow> string" where
  "drop_spaces (Suc n) (c # s) = (if c = CHR 0x20 then drop_spaces n s else c # s)"
| "drop_spaces n s = s"

definition closesFence :: "string \<Rightarrow> char \<times> nat \<Rightarrow> bool" where
  "closesFence line opener =
     (let trimmed = drop_spaces 3 line; count = length (takeWhile (\<lambda>c. c = fst opener) trimmed)
      in snd opener \<le> count \<and> trim (drop count trimmed) = [])"

definition closing_line :: "RawLine list \<Rightarrow> char \<times> nat \<Rightarrow> nat \<Rightarrow> nat option" where
  "closing_line raw opener from = find (\<lambda>i. closesFence (rl_text (raw ! i)) opener) [from..<length raw]"

section \<open>Inline code and comments\<close>

type_synonym Span = "nat \<times> nat"

definition backtickRunAt :: "string \<Rightarrow> nat \<Rightarrow> nat" where
  "backtickRunAt line i = length (takeWhile (\<lambda>c. c = CHR 0x60) (drop i line))"

lemma backtick_run_bound: "i + backtickRunAt line i \<le> max i (length line)"
  using length_takeWhile_le [of "\<lambda>c. c = CHR 0x60" "drop i line"] by (simp add: backtickRunAt_def)

function code_closer :: "string \<Rightarrow> nat \<Rightarrow> nat \<Rightarrow> nat" where
  "code_closer line run closer =
     (if closer < length line then
        let candidate = backtickRunAt line closer
        in if candidate = run then closer else code_closer line run (closer + (if candidate = 0 then 1 else candidate))
      else closer)"
  by pat_completeness auto
termination
  by (relation "measure (\<lambda>(line, _, closer). length line - closer)") auto

declare code_closer.simps [simp del]

lemma code_closer_ge: "closer \<le> code_closer line run closer"
  by (induction line run closer rule: code_closer.induct) (subst code_closer.simps, auto simp: Let_def split: if_splits)

function code_spans_from :: "string \<Rightarrow> nat \<Rightarrow> Span list" where
  "code_spans_from line i =
     (if i < length line then
        let run = backtickRunAt line i; closer = code_closer line run (i + run)
        in if run = 0 then code_spans_from line (i + 1)
           else if closer \<ge> length line then code_spans_from line (i + run)
           else (i, closer + run) # code_spans_from line (closer + run)
      else [])"
  by pat_completeness auto
termination
proof (relation "measure (\<lambda>(line, i). length line - i)", goal_cases)
  case (4 line i run closer)
  then show ?case using code_closer_ge [of "i + run" line run] by auto
qed auto

declare code_spans_from.simps [simp del]

definition inlineCodeSpans :: "string \<Rightarrow> Span list" where
  "inlineCodeSpans line = code_spans_from line 0"

definition index_from :: "string \<Rightarrow> string \<Rightarrow> nat \<Rightarrow> nat option" where
  "index_from s p from = find (\<lambda>i. starts_with (drop i s) p) [from..<length s]"

lemma index_from_Some: "index_from s p from = Some i \<Longrightarrow> from \<le> i \<and> i < length s \<and> take (length p) (drop i s) = p"
  by (auto simp: index_from_def find_Some_iff starts_with_def)

function nextCommentStart :: "string \<Rightarrow> nat \<Rightarrow> Span list \<Rightarrow> nat option" where
  "nextCommentStart line from spans =
     (case index_from line ''<!--'' from of
        None \<Rightarrow> None
      | Some i \<Rightarrow> if list_ex (\<lambda>(a, b). a \<le> i \<and> i < b) spans then nextCommentStart line (i + 4) spans else Some i)"
  by pat_completeness auto
termination
  by (relation "measure (\<lambda>(line, from, _). length line - from)") (auto dest!: index_from_Some)

declare nextCommentStart.simps [simp del]

section \<open>The scan\<close>

record ScanState =
  sn_spans :: "Span list"
  sn_inComment :: bool
  sn_commentStart :: nat
  sn_fences :: "Span list"
  sn_unterminatedFence :: bool
  sn_closersExhausted :: bool

text \<open>The comments of one line: \<open>cursor\<close> runs over the line, inside or outside a comment.\<close>

function scan_line :: "RawLine \<Rightarrow> Span list \<Rightarrow> nat \<Rightarrow> ScanState \<Rightarrow> ScanState" where
  "scan_line line codeSpans cursor st =
     (if cursor > length (rl_text line) then st
      else if sn_inComment st
      then (case index_from (rl_text line) ''-->'' cursor of
         None \<Rightarrow> st
       | Some i \<Rightarrow> scan_line line codeSpans (i + 3)
           (st\<lparr>sn_spans := sn_spans st @ [(sn_commentStart st, rl_start line + i + 3)], sn_inComment := False\<rparr>))
      else (case nextCommentStart (rl_text line) cursor codeSpans of
         None \<Rightarrow> st
       | Some i \<Rightarrow> scan_line line codeSpans (i + 4) (st\<lparr>sn_commentStart := rl_start line + i, sn_inComment := True\<rparr>)))"
  by pat_completeness auto

lemma next_comment_Some: "nextCommentStart line k spans = Some i \<Longrightarrow> k \<le> i \<and> i < length line \<and> take 4 (drop i line) = ''<!--''
    \<and> \<not> list_ex (\<lambda>(a, b). a \<le> i \<and> i < b) spans"
proof (induction line k spans rule: nextCommentStart.induct)
  case (1 line k spans)
  show ?case
  proof (cases "index_from line ''<!--'' k")
    case None
    with 1 show ?thesis by (subst (asm) (2) nextCommentStart.simps) simp
  next
    case (Some j)
    note j = index_from_Some [OF Some]
    show ?thesis
    proof (cases "list_ex (\<lambda>(a, b). a \<le> j \<and> j < b) spans")
      case True
      then have "nextCommentStart line (j + 4) spans = Some i" using 1(2) Some by (subst (asm) nextCommentStart.simps) simp
      from 1(1) [OF Some True this] j show ?thesis by simp
    next
      case False
      then have "j = i" using 1(2) Some by (subst (asm) nextCommentStart.simps) (simp split: if_splits)
      with j False show ?thesis by (simp add: eval_nat_numeral)
    qed
  qed
qed

termination scan_line
  by (relation "measure (\<lambda>(line, _, cursor, _). length (rl_text line) + 1 - cursor)") (auto dest!: index_from_Some next_comment_Some)

declare scan_line.simps [simp del]

definition in_fence :: "ScanState \<Rightarrow> nat \<Rightarrow> bool" where
  "in_fence st i = list_ex (\<lambda>(a, b). a \<le> i \<and> i \<le> b) (sn_fences st)"

definition comments_of_line :: "RawLine list \<Rightarrow> nat \<Rightarrow> ScanState \<Rightarrow> ScanState" where
  "comments_of_line raw i st = (if in_fence st i then st else scan_line (raw ! i) (inlineCodeSpans (rl_text (raw ! i))) 0 st)"

function scan_from :: "RawLine list \<Rightarrow> nat \<Rightarrow> ScanState \<Rightarrow> ScanState" where
  "scan_from raw i st =
     (if i \<ge> length raw then st
      else (case (if sn_inComment st \<or> sn_closersExhausted st then None else fenceOpener (rl_text (raw ! i))) of
         None \<Rightarrow> scan_from raw (i + 1) (comments_of_line raw i st)
       | Some opener \<Rightarrow>
           (case closing_line raw opener (i + 1) of
              None \<Rightarrow> scan_from raw (i + 1) (comments_of_line raw i (st\<lparr>sn_closersExhausted := True, sn_unterminatedFence := True\<rparr>))
            | Some closer \<Rightarrow> scan_from raw (closer + 1) (st\<lparr>sn_fences := sn_fences st @ [(i, closer)]\<rparr>))))"
  by pat_completeness auto

lemma closing_line_Some: "closing_line raw opener from = Some c \<Longrightarrow> from \<le> c \<and> c < length raw \<and> closesFence (rl_text (raw ! c)) opener"
  by (auto simp: closing_line_def find_Some_iff)

termination scan_from
  by (relation "measure (\<lambda>(raw, i, _). length raw - i)") (auto dest!: closing_line_Some)

declare scan_from.simps [simp del]

section \<open>Deleting the comments\<close>

definition js_slice :: "string \<Rightarrow> nat \<Rightarrow> nat \<Rightarrow> string" where
  "js_slice s a b = take (b - a) (drop a s)"

text \<open>The spans that begin on a line: the rest of the spans, the text of the line, the text of the document and the cursor.\<close>

fun consume_spans :: "string \<Rightarrow> RawLine \<Rightarrow> Span list \<Rightarrow> string \<Rightarrow> string \<Rightarrow> nat \<Rightarrow> nat \<Rightarrow> Span list \<times> string \<times> string \<times> nat \<times> nat" where
  "consume_spans content line [] t out cursor emitted = ([], t, out, cursor, emitted)"
| "consume_spans content line ((f, e) # spans) t out cursor emitted =
     (let lineEnd = rl_start line + length (rl_text line)
      in if f \<ge> lineEnd then ((f, e) # spans, t, out, cursor, emitted)
         else if e \<le> cursor then consume_spans content line spans t out cursor emitted
         else let from = max f cursor;
                  t' = t @ js_slice (rl_text line) (cursor - rl_start line) (from - rl_start line);
                  out' = out @ js_slice content emitted from;
                  cursor' = min e lineEnd
              in if e \<le> lineEnd then consume_spans content line spans t' out' cursor' cursor'
                 else ((f, e) # spans, t', out', cursor', cursor'))"

definition apply_line ::
  "string \<Rightarrow> Span list \<times> string list \<times> string \<times> nat \<Rightarrow> RawLine \<Rightarrow> Span list \<times> string list \<times> string \<times> nat" where
  "apply_line content acc line =
     (case acc of (spans, texts, out, emitted) \<Rightarrow>
       (case consume_spans content line spans [] out (rl_start line) emitted of (spans', t, out', cursor, emitted') \<Rightarrow>
          let lineEnd = rl_start line + length (rl_text line); eolEnd = lineEnd + length (rl_eol line);
              t' = t @ drop (cursor - rl_start line) (rl_text line);
              out'' = out' @ js_slice content emitted' lineEnd;
              opened = (case spans' of [] \<Rightarrow> None | (f, e) # _ \<Rightarrow> if f < eolEnd \<and> e > lineEnd then Some e else None)
          in (case opened of
                Some e \<Rightarrow> (spans', texts @ [t'], out'', min e eolEnd)
              | None \<Rightarrow> (spans', texts @ [t'], out'' @ js_slice content lineEnd eolEnd, eolEnd))))"

definition applyCommentSpans :: "string \<Rightarrow> RawLine list \<Rightarrow> Span list \<Rightarrow> string list \<times> string" where
  "applyCommentSpans content raw spans =
     (case foldl (apply_line content) (spans, [], [], 0) raw of (_, texts, out, emitted) \<Rightarrow>
        (texts, if emitted < length content then out @ drop emitted content else out))"

section \<open>The result\<close>

record MarkdownLine =
  ml_text :: string
  ml_inFence :: bool
  ml_frontmatter :: bool

record MarkdownScan =
  md_lines :: "MarkdownLine list"
  md_withoutComments :: string
  md_unterminatedFence :: bool
  md_unterminatedComment :: bool

definition scan_start :: ScanState where
  "scan_start = \<lparr>sn_spans = [], sn_inComment = False, sn_commentStart = 0, sn_fences = [], sn_unterminatedFence = False, sn_closersExhausted = False\<rparr>"

definition scanMarkdown :: "(string \<Rightarrow> YamlKind option) \<Rightarrow> string \<Rightarrow> MarkdownScan" where
  "scanMarkdown yaml content =
     (let raw = splitRawLines content; bodyStart = frontmatterEnd yaml raw; st = scan_from raw bodyStart scan_start;
          spans = js_sort (key_cmp (\<lambda>s. real (fst s))) (sn_spans st)
      in (case applyCommentSpans content raw spans of (texts, out) \<Rightarrow>
           \<lparr>md_lines = map (\<lambda>i. \<lparr>ml_text = texts ! i, ml_inFence = in_fence st i, ml_frontmatter = (i < bodyStart)\<rparr>) [0..<length raw],
            md_withoutComments = out, md_unterminatedFence = sn_unterminatedFence st, md_unterminatedComment = sn_inComment st\<rparr>))"

section \<open>Lines cover the document\<close>

fun laid_out :: "nat \<Rightarrow> RawLine list \<Rightarrow> bool" where
  "laid_out k [] = True"
| "laid_out k (l # ls) = (rl_start l = k \<and> laid_out (k + length (rl_text l) + length (rl_eol l)) ls)"

definition whole :: "RawLine list \<Rightarrow> string" where
  "whole ls = concat (map (\<lambda>l. rl_text l @ rl_eol l) ls)"

lemma whole_simps [simp]: "whole [] = []" "whole (l # ls) = rl_text l @ rl_eol l @ whole ls"
  by (simp_all add: whole_def)

lemma drop_cr_eol: "drop_cr p @ eol_of p = p @ [CHR 0x0A]"
  by (cases p rule: rev_cases) (auto simp: drop_cr_def eol_of_def)

lemma raw_from_ok: "laid_out k (raw_from k ps) \<and> (ps \<noteq> [] \<longrightarrow> whole (raw_from k ps) = join_with [CHR 0x0A] ps)"
proof (induction k ps rule: raw_from.induct)
  case (3 k p q ps)
  have "(drop_cr p @ eol_of p) @ join_with [CHR 0x0A] (q # ps) = (p @ [CHR 0x0A]) @ join_with [CHR 0x0A] (q # ps)"
    by (simp only: drop_cr_eol)
  with 3 show ?case by simp
qed simp_all

lemma raw_lines: "laid_out 0 (splitRawLines content)" "whole (splitRawLines content) = content"
  using raw_from_ok [of 0 "split_on (CHR 0x0A) content"] by (simp_all add: splitRawLines_def join_split)

lemma laid_out_append: "laid_out k (xs @ ys) \<longleftrightarrow> laid_out k xs \<and> laid_out (k + length (whole xs)) ys"
  by (induction xs arbitrary: k) (auto simp: add.assoc)

lemma line_start: "laid_out k ls \<Longrightarrow> i < length ls \<Longrightarrow> rl_start (ls ! i) = k + length (whole (take i ls))"
proof (induction ls arbitrary: k i)
  case (Cons l ls)
  then show ?case using Cons.IH [of "k + length (rl_text l) + length (rl_eol l)" "i - 1"] by (cases i) (simp_all add: add.assoc)
qed simp

lemma whole_take: "i < length ls \<Longrightarrow> whole (take (Suc i) ls) = whole (take i ls) @ rl_text (ls ! i) @ rl_eol (ls ! i)"
  by (simp add: take_Suc_conv_app_nth whole_def)

lemma whole_take_mono: "i \<le> j \<Longrightarrow> length (whole (take i ls)) \<le> length (whole (take j ls))"
proof -
  assume "i \<le> j"
  then have "take j ls = take i ls @ take (j - i) (drop i ls)" by (metis le_add_diff_inverse take_add)
  then show ?thesis by (simp add: whole_def)
qed

lemma starts_increase:
  assumes "laid_out 0 ls" "i < j" "j < length ls"
  shows "rl_start (ls ! i) + length (rl_text (ls ! i)) + length (rl_eol (ls ! i)) \<le> rl_start (ls ! j)"
  using assms whole_take_mono [of "Suc i" j ls] by (simp add: line_start whole_take)

section \<open>What is kept\<close>

definition covered :: "Span list \<Rightarrow> nat \<Rightarrow> bool" where
  "covered spans i = list_ex (\<lambda>(f, e). f \<le> i \<and> i < e) spans"

definition kept :: "(nat \<Rightarrow> bool) \<Rightarrow> string \<Rightarrow> nat \<Rightarrow> nat \<Rightarrow> string" where
  "kept P s a b = map ((!) s) (filter (\<lambda>i. \<not> P i) [a..<b])"

fun ordered :: "Span list \<Rightarrow> bool" where
  "ordered [] = True"
| "ordered ((f, e) # spans) = (f < e \<and> (\<forall>sp \<in> set spans. e \<le> fst sp) \<and> ordered spans)"

lemma kept_append: "a \<le> b \<Longrightarrow> b \<le> c \<Longrightarrow> kept P s a b @ kept P s b c = kept P s a c"
proof -
  assume "a \<le> b" "b \<le> c"
  then have "[a..<c] = [a..<b] @ [b..<c]" by (metis le_Suc_ex upt_add_eq_append)
  then show ?thesis by (simp add: kept_def)
qed

lemma kept_none: "(\<And>i. a \<le> i \<Longrightarrow> i < b \<Longrightarrow> P i) \<Longrightarrow> kept P s a b = []"
  by (auto simp: kept_def filter_empty_conv)

lemma kept_all: "(\<And>i. a \<le> i \<Longrightarrow> i < b \<Longrightarrow> \<not> P i) \<Longrightarrow> b \<le> length s \<Longrightarrow> kept P s a b = js_slice s a b"
proof -
  assume h: "\<And>i. a \<le> i \<Longrightarrow> i < b \<Longrightarrow> \<not> P i" "b \<le> length s"
  have "filter (\<lambda>i. \<not> P i) [a..<b] = [a..<b]" using h(1) by (simp add: filter_id_conv)
  with h(2) show ?thesis by (simp add: kept_def js_slice_def list_eq_iff_nth_eq)
qed

lemma kept_same: "kept P s a a = []"
  by (simp add: kept_def)

section \<open>Applying the spans\<close>

lemma slice_in_line:
  assumes "content = pre @ t @ post" "length pre = k" "k \<le> a" "b \<le> k + length t"
  shows "js_slice t (a - k) (b - k) = js_slice content a b"
proof -
  have "drop a content = drop (a - k) t @ post" if "a \<le> k + length t" using assms that by simp
  with assms show ?thesis by (cases "a \<le> k + length t") (simp_all add: js_slice_def)
qed

lemma consume_end:
  assumes "content = pre @ rl_text line @ post" "length pre = rl_start line" "lineEnd = rl_start line + length (rl_text line)"
    and "rl_start line \<le> c" "c \<le> lineEnd" "\<And>i. c \<le> i \<Longrightarrow> i < lineEnd \<Longrightarrow> \<not> P i"
  shows "kept P content (rl_start line) c @ drop (c - rl_start line) (rl_text line) = kept P content (rl_start line) lineEnd"
    and "kept P content 0 c @ js_slice content c lineEnd = kept P content 0 lineEnd"
proof -
  have k: "kept P content c lineEnd = js_slice content c lineEnd" using assms(1-3,6) by (intro kept_all) auto
  have "js_slice (rl_text line) (c - rl_start line) (lineEnd - rl_start line) = js_slice content c lineEnd"
    by (rule slice_in_line [OF assms(1,2,4)]) (simp add: assms(3))
  then have d: "drop (c - rl_start line) (rl_text line) = js_slice content c lineEnd" by (simp add: assms(3) js_slice_def)
  show "kept P content (rl_start line) c @ drop (c - rl_start line) (rl_text line) = kept P content (rl_start line) lineEnd"
    unfolding d k [symmetric] by (rule kept_append [OF assms(4,5)])
  show "kept P content 0 c @ js_slice content c lineEnd = kept P content 0 lineEnd"
    unfolding k [symmetric] by (rule kept_append [OF _ assms(5)]) simp
qed

lemma consume_spans_kept:
  assumes "content = pre @ rl_text line @ post" "length pre = rl_start line" "lineEnd = rl_start line + length (rl_text line)"
    and "ordered spans" "\<And>i. c \<le> i \<Longrightarrow> P i \<longleftrightarrow> covered spans i" "rl_start line \<le> c" "c \<le> lineEnd"
    and "out = kept P content 0 c" "t = kept P content (rl_start line) c" "\<forall>f e r. spans = (f, e) # r \<longrightarrow> c < e"
    and "consume_spans content line spans t out c c = (spans', t', out', c', e')"
  shows "e' = c' \<and> rl_start line \<le> c' \<and> c' \<le> lineEnd \<and> t' @ drop (c' - rl_start line) (rl_text line) = kept P content (rl_start line) lineEnd
    \<and> out' @ js_slice content c' lineEnd = kept P content 0 lineEnd
    \<and> (\<forall>i \<ge> lineEnd. P i \<longleftrightarrow> covered spans' i) \<and> ordered spans' \<and> (\<forall>f e r. spans' = (f, e) # r \<longrightarrow> lineEnd < e)
    \<and> set spans' \<subseteq> set spans"
  using assms(4-)
proof (induction spans arbitrary: t out c)
  case Nil
  then have "\<not> P i" if "c \<le> i" for i using that by (simp add: covered_def)
  with Nil show ?case using consume_end [OF assms(1,2,3) Nil(3,4), of P] by (auto simp: covered_def)
next
  case (Cons sp spans)
  obtain f e where sp: "sp = (f, e)" by (cases sp)
  have le: "lineEnd \<le> length content" using assms(1,2,3) by simp
  have fe: "f < e" "c < e" "ordered spans" "\<forall>q \<in> set spans. e \<le> fst q" using Cons.prems(1,7) sp by auto
  show ?case
  proof (cases "f \<ge> lineEnd")
    case True
    have "\<not> P i" if "c \<le> i" "i < lineEnd" for i
      using Cons.prems(2) [OF that(1)] that fe True by (auto simp: sp covered_def list_ex_iff)
    with Cons.prems True fe show ?thesis using consume_end [OF assms(1,2,3) Cons.prems(3,4), of P] by (auto simp: sp assms(3))
  next
    case False
    define u where "u = max f c"
    have u: "c \<le> u" "u < lineEnd \<or> u = c" "u \<le> lineEnd" "u < e" using False Cons.prems(4) fe by (auto simp: u_def)
    have "\<not> P i" if "c \<le> i" "i < u" for i
      using Cons.prems(2) [OF that(1)] that fe by (auto simp: sp covered_def list_ex_iff u_def)
    then have k: "kept P content c u = js_slice content c u" using le u by (intro kept_all) auto
    have gone: "kept P content u m = []" if "m \<le> e" for m
      using Cons.prems(2) that u by (intro kept_none) (auto simp: sp covered_def u_def)
    have s: "js_slice (rl_text line) (c - rl_start line) (u - rl_start line) = js_slice content c u"
      using slice_in_line [OF assms(1,2) Cons.prems(3), of u] u by (simp add: assms(3))
    have t2: "t @ js_slice content c u = kept P content (rl_start line) m" "out @ js_slice content c u = kept P content 0 m" if "u \<le> m" "m \<le> e" for m
      using Cons.prems(3,5,6) u gone [OF that(2)] that kept_append [of _ u m P content] by (simp_all add: kept_append flip: k)
    show ?thesis
    proof (cases "e \<le> lineEnd")
      case True
      have con: "consume_spans content line spans (t @ js_slice content c u) (out @ js_slice content c u) e e = (spans', t', out', c', e')"
        using Cons.prems(8) False True fe by (simp add: sp s u_def [symmetric] assms(3) [symmetric] min.absorb1)
      have cov: "P i \<longleftrightarrow> covered spans i" if "e \<le> i" for i
        using Cons.prems(2) [of i] that fe by (auto simp: sp covered_def)
      have first: "\<forall>f1 e1 r. spans = (f1, e1) # r \<longrightarrow> e < e1" using fe by auto
      have "rl_start line \<le> e" using Cons.prems(3) fe by simp
      from Cons.IH [OF fe(3) cov this True t2(2) t2(1) first con] u fe show ?thesis by (auto simp: sp)
    next
      case far: False
      then have "spans' = (f, e) # spans" "t' = t @ js_slice content c u" "out' = out @ js_slice content c u" "c' = lineEnd" "e' = lineEnd"
        using Cons.prems(8) False fe by (auto simp: sp s u_def [symmetric] assms(3) [symmetric] min_def)
      then show ?thesis using far t2 [of lineEnd] u Cons.prems fe by (auto simp: sp assms(3) js_slice_def)
    qed
  qed
qed

text \<open>No span begins or ends inside the end of a line.\<close>

definition clear_of_eol :: "Span list \<Rightarrow> RawLine \<Rightarrow> bool" where
  "clear_of_eol spans l = (\<forall>(f, e) \<in> set spans. let k = rl_start l + length (rl_text l); m = k + length (rl_eol l) in \<not> (k \<le> f \<and> f < m) \<and> \<not> (k < e \<and> e \<le> m))"

lemma apply_line_kept:
  assumes "content = pre @ rl_text line @ rl_eol line @ post" "length pre = rl_start line" "m = rl_start line + length (rl_text line) + length (rl_eol line)"
    and "ordered spans" "\<And>i. rl_start line \<le> i \<Longrightarrow> P i \<longleftrightarrow> covered spans i" "\<forall>f e r. spans = (f, e) # r \<longrightarrow> rl_start line < e" "clear_of_eol spans line"
    and "apply_line content (spans, texts, kept P content 0 (rl_start line), rl_start line) line = (spans', texts', out', emitted)"
  shows "emitted = m \<and> out' = kept P content 0 m \<and> texts' = texts @ [kept P content (rl_start line) (rl_start line + length (rl_text line))]
    \<and> (\<forall>i \<ge> m. P i \<longleftrightarrow> covered spans' i) \<and> ordered spans' \<and> (\<forall>f e r. spans' = (f, e) # r \<longrightarrow> m < e) \<and> set spans' \<subseteq> set spans"
proof -
  let ?le = "rl_start line + length (rl_text line)"
  obtain t out c e0 where con: "consume_spans content line spans [] (kept P content 0 (rl_start line)) (rl_start line) (rl_start line) = (spans', t, out, c, e0)"
    and rest: "texts' = texts @ [t @ drop (c - rl_start line) (rl_text line)]"
    using assms(8) by (auto simp: apply_line_def Let_def split: prod.splits option.splits)
  have i: "e0 = c" "t @ drop (c - rl_start line) (rl_text line) = kept P content (rl_start line) ?le"
      "out @ js_slice content c ?le = kept P content 0 ?le" "\<forall>i \<ge> ?le. P i \<longleftrightarrow> covered spans' i" "ordered spans'"
      "\<forall>f e r. spans' = (f, e) # r \<longrightarrow> ?le < e" "set spans' \<subseteq> set spans"
    using consume_spans_kept [OF assms(1,2) refl assms(4,5) order_refl _ refl _ assms(6) con] by (auto simp: kept_same)
  have len: "m \<le> length content" using assms(1-3) by simp
  have eol: "if (case spans' of [] \<Rightarrow> False | (f, e) # _ \<Rightarrow> f < m \<and> ?le < e) then kept P content ?le m = [] \<and> (\<forall>f e r. spans' = (f, e) # r \<longrightarrow> m < e)
      else kept P content ?le m = js_slice content ?le m \<and> (\<forall>f e r. spans' = (f, e) # r \<longrightarrow> m < e)"
  proof (cases spans')
    case Nil
    then have "\<not> P j" if "?le \<le> j" for j using i(4) that by (simp add: covered_def)
    then have "kept P content ?le m = js_slice content ?le m" using len by (intro kept_all) auto
    with Nil show ?thesis by simp
  next
    case (Cons sp r)
    obtain f e where sp: "sp = (f, e)" by (cases sp)
    have b: "?le < e" "f < e" "\<forall>q \<in> set r. e \<le> fst q" "(f, e) \<in> set spans" using i(5,6,7) Cons sp by auto
    then have c: "\<not> (?le \<le> f \<and> f < m)" "m < e" using assms(7) by (auto simp: clear_of_eol_def Let_def assms(3))
    show ?thesis
    proof (cases "f < m")
      case True
      then have "kept P content ?le m = []" using c i(4) by (intro kept_none) (auto simp: Cons sp covered_def)
      with True b c show ?thesis by (auto simp: Cons sp)
    next
      case False
      then have "\<not> P j" if "?le \<le> j" "j < m" for j
        using i(4) that b by (auto simp: Cons sp covered_def list_ex_iff)
      then have "kept P content ?le m = js_slice content ?le m" using len by (intro kept_all) auto
      with False b show ?thesis by (auto simp: Cons sp)
    qed
  qed
  have join: "kept P content 0 ?le @ kept P content ?le m = kept P content 0 m" by (rule kept_append) (simp_all add: assms(3))
  have res: "(spans', texts', out', emitted) = (if (case spans' of [] \<Rightarrow> False | (f, e) # _ \<Rightarrow> f < m \<and> ?le < e)
      then (spans', texts', kept P content 0 ?le, min (snd (hd spans')) m) else (spans', texts', kept P content 0 ?le @ js_slice content ?le m, m))"
    using assms(8) con rest i(1,3) by (auto simp: apply_line_def Let_def assms(3) split: list.splits if_splits)
  show ?thesis using eol res join i(2,4,5,7) rest
    by (cases spans') (auto simp: assms(3) split: if_splits)
qed

lemma apply_lines_kept:
  assumes "laid_out k ls" "content = pre @ whole ls" "length pre = k" "ordered spans" "\<And>i. k \<le> i \<Longrightarrow> P i \<longleftrightarrow> covered spans i"
    and "\<forall>f e r. spans = (f, e) # r \<longrightarrow> k < e" "\<forall>l \<in> set ls. clear_of_eol spans l"
  shows "\<exists>rest. foldl (apply_line content) (spans, texts, kept P content 0 k, k) ls
    = (rest, texts @ map (\<lambda>l. kept P content (rl_start l) (rl_start l + length (rl_text l))) ls, kept P content 0 (length content), length content)"
  using assms
proof (induction ls arbitrary: k pre spans texts)
  case Nil
  then show ?case by simp
next
  case (Cons l ls)
  let ?m = "k + length (rl_text l) + length (rl_eol l)"
  have st: "rl_start l = k" using Cons.prems(1) by simp
  obtain spans' texts' out' emitted where al: "apply_line content (spans, texts, kept P content 0 (rl_start l), rl_start l) l = (spans', texts', out', emitted)"
    by (metis prod_cases4)
  have con: "content = pre @ rl_text l @ rl_eol l @ whole ls" using Cons.prems(2) by simp
  have len: "length pre = rl_start l" using Cons.prems(3) st by simp
  have cov: "\<And>i. rl_start l \<le> i \<Longrightarrow> P i \<longleftrightarrow> covered spans i" using Cons.prems(5) st by simp
  have hd: "\<forall>f e r. spans = (f, e) # r \<longrightarrow> rl_start l < e" using Cons.prems(6) st by simp
  have cl: "clear_of_eol spans l" using Cons.prems(7) by simp
  have r: "emitted = ?m \<and> out' = kept P content 0 ?m \<and> texts' = texts @ [kept P content (rl_start l) (rl_start l + length (rl_text l))]
    \<and> (\<forall>i \<ge> ?m. P i \<longleftrightarrow> covered spans' i) \<and> ordered spans' \<and> (\<forall>f e r. spans' = (f, e) # r \<longrightarrow> ?m < e) \<and> set spans' \<subseteq> set spans"
    using apply_line_kept [OF con len refl Cons.prems(4) cov hd cl al] by (simp add: st)
  have "clear_of_eol spans' x" if "x \<in> set ls" for x
  proof -
    have "clear_of_eol spans x" using that Cons.prems(7) by simp
    with r show ?thesis unfolding clear_of_eol_def by blast
  qed
  then have "\<exists>rest. foldl (apply_line content) (spans', texts', kept P content 0 ?m, ?m) ls
    = (rest, texts' @ map (\<lambda>l. kept P content (rl_start l) (rl_start l + length (rl_text l))) ls, kept P content 0 (length content), length content)"
    using Cons.IH [of ?m "pre @ rl_text l @ rl_eol l" spans' texts'] Cons.prems(1,2,3) r by simp
  then show ?case using al r by (auto simp: st)
qed

text \<open>Deleting spans keeps every other code unit, in the lines and in the document.\<close>

lemma applyCommentSpans_kept:
  assumes "ordered spans" "\<forall>l \<in> set (splitRawLines content). clear_of_eol spans l"
  shows "applyCommentSpans content (splitRawLines content) spans
    = (map (\<lambda>l. kept (covered spans) content (rl_start l) (rl_start l + length (rl_text l))) (splitRawLines content),
       kept (covered spans) content 0 (length content))"
proof -
  have "\<forall>f e r. spans = (f, e) # r \<longrightarrow> 0 < e" using assms(1) by auto
  then obtain rest where "foldl (apply_line content) (spans, [], kept (covered spans) content 0 0, 0) (splitRawLines content)
    = (rest, [] @ map (\<lambda>l. kept (covered spans) content (rl_start l) (rl_start l + length (rl_text l))) (splitRawLines content),
       kept (covered spans) content 0 (length content), length content)"
    using apply_lines_kept [of 0 "splitRawLines content" content "[]" spans "covered spans" "[]"] raw_lines assms by auto
  then show ?thesis by (simp add: applyCommentSpans_def kept_same)
qed

section \<open>The spans that a scan finds\<close>

definition comment_span :: "string \<Rightarrow> nat \<Rightarrow> nat \<Rightarrow> bool" where
  "comment_span content f e = (f + 7 \<le> e \<and> e \<le> length content \<and> js_slice content f (f + 4) = ''<!--'' \<and> js_slice content (e - 3) e = ''-->'')"

text \<open>The state of a scan of the body from line \<open>body\<close> that has reached position \<open>k\<close>: the spans are closed comments of the body,
  outside the ends of lines and outside the fences.\<close>

definition line_at :: "RawLine list \<Rightarrow> nat \<Rightarrow> nat" where
  "line_at raw i = length (whole (take i raw))"

definition scan_ok :: "RawLine list \<Rightarrow> nat \<Rightarrow> nat \<Rightarrow> ScanState \<Rightarrow> bool" where
  "scan_ok raw body k st =
     (ordered (sn_spans st) \<and> line_at raw body \<le> k
      \<and> (\<forall>(f, e) \<in> set (sn_spans st). e \<le> k \<and> line_at raw body \<le> f \<and> comment_span (whole raw) f e \<and> (\<forall>l \<in> set raw. clear_of_eol [(f, e)] l)
          \<and> (\<forall>(a, b) \<in> set (sn_fences st). e \<le> line_at raw a \<or> line_at raw (b + 1) \<le> f))
      \<and> (\<forall>(a, b) \<in> set (sn_fences st). line_at raw (b + 1) \<le> k)
      \<and> (sn_inComment st \<longrightarrow> sn_commentStart st + 4 \<le> k \<and> line_at raw body \<le> sn_commentStart st \<and> (\<forall>(f, e) \<in> set (sn_spans st). e \<le> sn_commentStart st)
          \<and> (\<forall>(a, b) \<in> set (sn_fences st). line_at raw (b + 1) \<le> sn_commentStart st)
          \<and> js_slice (whole raw) (sn_commentStart st) (sn_commentStart st + 4) = ''<!--''
          \<and> (\<forall>l \<in> set raw. \<not> (rl_start l + length (rl_text l) \<le> sn_commentStart st \<and> sn_commentStart st < rl_start l + length (rl_text l) + length (rl_eol l)))))"

lemma ordered_snoc: "ordered (xs @ [(f, e)]) \<longleftrightarrow> ordered xs \<and> f < e \<and> (\<forall>q \<in> set xs. snd q \<le> f)"
  by (induction xs rule: ordered.induct) auto

lemma scan_ok_mono: "scan_ok raw body k st \<Longrightarrow> k \<le> m \<Longrightarrow> scan_ok raw body m st"
  unfolding scan_ok_def by (auto dest: le_trans)

lemma line_position:
  assumes "laid_out 0 raw" "i < length raw" "l \<in> set raw"
  shows "rl_start (raw ! i) \<le> p \<Longrightarrow> p < rl_start (raw ! i) + length (rl_text (raw ! i)) \<Longrightarrow>
      \<not> (rl_start l + length (rl_text l) \<le> p \<and> p < rl_start l + length (rl_text l) + length (rl_eol l))"
    and "rl_start (raw ! i) < p \<Longrightarrow> p \<le> rl_start (raw ! i) + length (rl_text (raw ! i)) \<Longrightarrow>
      \<not> (rl_start l + length (rl_text l) < p \<and> p \<le> rl_start l + length (rl_text l) + length (rl_eol l))"
proof -
  obtain j where j: "j < length raw" "l = raw ! j" using assms(3) by (auto simp: in_set_conv_nth)
  consider "j < i" | "j = i" | "i < j" by linarith
  note cases = this
  show "\<not> (rl_start l + length (rl_text l) \<le> p \<and> p < rl_start l + length (rl_text l) + length (rl_eol l))"
    if "rl_start (raw ! i) \<le> p" "p < rl_start (raw ! i) + length (rl_text (raw ! i))"
    using cases by cases (use that j starts_increase [OF assms(1), of j i] starts_increase [OF assms(1), of i j] assms(2) in auto)
  show "\<not> (rl_start l + length (rl_text l) < p \<and> p \<le> rl_start l + length (rl_text l) + length (rl_eol l))"
    if "rl_start (raw ! i) < p" "p \<le> rl_start (raw ! i) + length (rl_text (raw ! i))"
    using cases by cases (use that j starts_increase [OF assms(1), of j i] starts_increase [OF assms(1), of i j] assms(2) in auto)
qed

lemma line_in_whole:
  assumes "laid_out 0 raw" "i < length raw"
  shows "\<exists>pre post. whole raw = pre @ rl_text (raw ! i) @ post \<and> length pre = rl_start (raw ! i)"
proof -
  have "whole raw = whole (take (Suc i) raw) @ whole (drop (Suc i) raw)" by (metis append_take_drop_id concat_append map_append whole_def)
  then have "whole raw = whole (take i raw) @ rl_text (raw ! i) @ rl_eol (raw ! i) @ whole (drop (Suc i) raw)" using assms by (simp add: whole_take)
  with assms show ?thesis by (intro exI [where x = "whole (take i raw)"] exI [where x = "rl_eol (raw ! i) @ whole (drop (Suc i) raw)"]) (simp add: line_start)
qed

lemma found_in_line:
  assumes "laid_out 0 raw" "i < length raw" "take n (drop j (rl_text (raw ! i))) = p" "length p = n" "n > 0"
  shows "js_slice (whole raw) (rl_start (raw ! i) + j) (rl_start (raw ! i) + j + n) = p \<and> j + n \<le> length (rl_text (raw ! i))"
proof -
  have "j + n \<le> length (rl_text (raw ! i))" using assms(3,4,5) by auto
  moreover obtain pre post where "whole raw = pre @ rl_text (raw ! i) @ post" "length pre = rl_start (raw ! i)" using line_in_whole assms by blast
  ultimately show ?thesis
    using slice_in_line [of "whole raw" pre "rl_text (raw ! i)" post "rl_start (raw ! i)" "rl_start (raw ! i) + j" "rl_start (raw ! i) + j + n"] assms(3)
    by (simp add: js_slice_def)
qed

lemma scan_line_ok:
  assumes "laid_out 0 raw" "i < length raw"
  shows "scan_ok raw body (rl_start (raw ! i) + cursor) st \<Longrightarrow> cursor \<le> length (rl_text (raw ! i)) \<Longrightarrow>
    scan_ok raw body (rl_start (raw ! i) + length (rl_text (raw ! i))) (scan_line (raw ! i) codeSpans cursor st)"
proof (induction "raw ! i" codeSpans cursor st rule: scan_line.induct)
  case (1 codeSpans cursor st)
  let ?l = "raw ! i"
  have stop: ?case if "scan_line ?l codeSpans cursor st = st" using that 1(3,4) by (simp add: scan_ok_mono)
  show ?case
  proof (cases "sn_inComment st")
    case True
    show ?thesis
    proof (cases "index_from (rl_text ?l) ''-->'' cursor")
      case None
      then show ?thesis using True 1(4) by (intro stop) (simp add: scan_line.simps [of ?l])
    next
      case (Some j)
      have p: "length ''-->'' = (3::nat)" by simp
      have jj: "cursor \<le> j" "take 3 (drop j (rl_text ?l)) = ''-->''" using index_from_Some [OF Some] by (auto simp: eval_nat_numeral)
      note f = found_in_line [OF assms jj(2) p]
      let ?st = "st\<lparr>sn_spans := sn_spans st @ [(sn_commentStart st, rl_start ?l + j + 3)], sn_inComment := False\<rparr>"
      have e: "rl_start ?l + j + 3 \<le> length (whole raw)"
        using line_in_whole [OF assms] f by auto
      have "\<forall>l \<in> set raw. clear_of_eol [(sn_commentStart st, rl_start ?l + j + 3)] l"
        using 1(3) True line_position(2) [OF assms, of _ "rl_start ?l + j + 3"] f
        by (simp add: clear_of_eol_def scan_ok_def Let_def)
      moreover have "comment_span (whole raw) (sn_commentStart st) (rl_start ?l + j + 3)"
        using 1(3) True jj f e by (simp add: comment_span_def scan_ok_def)
      ultimately have "scan_ok raw body (rl_start ?l + (j + 3)) ?st"
        using 1(3) True jj by (auto simp: scan_ok_def ordered_snoc)
      then have "scan_ok raw body (rl_start ?l + length (rl_text ?l)) (scan_line ?l codeSpans (j + 3) ?st)"
        using 1(1) [OF _ True Some] 1(4) f by simp
      then show ?thesis using True Some 1(4) by (simp add: scan_line.simps [of ?l codeSpans cursor])
    qed
  next
    case False
    show ?thesis
    proof (cases "nextCommentStart (rl_text ?l) cursor codeSpans")
      case None
      then show ?thesis using False 1(4) by (intro stop) (simp add: scan_line.simps [of ?l])
    next
      case (Some j)
      have p: "length ''<!--'' = (4::nat)" by simp
      have jj: "cursor \<le> j" "j < length (rl_text ?l)" "take 4 (drop j (rl_text ?l)) = ''<!--''" using next_comment_Some [OF Some] by auto
      note f = found_in_line [OF assms jj(3) p]
      let ?st = "st\<lparr>sn_commentStart := rl_start ?l + j, sn_inComment := True\<rparr>"
      have "scan_ok raw body (rl_start ?l + (j + 4)) ?st"
        using 1(3) False jj f line_position(1) [OF assms, of _ "rl_start ?l + j"]
        by (fastforce simp: scan_ok_def)
      then have "scan_ok raw body (rl_start ?l + length (rl_text ?l)) (scan_line ?l codeSpans (j + 4) ?st)"
        using 1(2) [OF _ False Some] 1(4) f by simp
      then show ?thesis using False Some 1(4) by (simp add: scan_line.simps [of ?l codeSpans cursor])
    qed
  qed
qed

lemma scan_line_fences [simp]: "sn_fences (scan_line l cs cursor st) = sn_fences st"
proof (induction l cs cursor st rule: scan_line.induct)
  case (1 l cs cursor st)
  then show ?case by (subst scan_line.simps) (auto split: option.splits)
qed

lemma line_at_line: "laid_out 0 raw \<Longrightarrow> i < length raw \<Longrightarrow> rl_start (raw ! i) = line_at raw i"
  by (simp add: line_start line_at_def)

lemma line_at_mono: "i \<le> j \<Longrightarrow> line_at raw i \<le> line_at raw j"
  by (simp add: line_at_def whole_take_mono)

lemma comments_of_line_ok:
  assumes "laid_out 0 raw" "i < length raw" "scan_ok raw body (line_at raw i) st"
  shows "scan_ok raw body (line_at raw (i + 1)) (comments_of_line raw i st)"
proof (cases "in_fence st i")
  case True
  then show ?thesis using assms(3) line_at_mono [of i "i + 1" raw] by (auto simp: comments_of_line_def intro: scan_ok_mono)
next
  case False
  have "scan_ok raw body (rl_start (raw ! i) + 0) st" using assms by (simp add: line_at_line)
  then have "scan_ok raw body (rl_start (raw ! i) + length (rl_text (raw ! i))) (comments_of_line raw i st)"
    using scan_line_ok [OF assms(1,2), of body 0 st] False by (simp add: comments_of_line_def)
  moreover have "rl_start (raw ! i) + length (rl_text (raw ! i)) \<le> line_at raw (i + 1)"
    using assms(1,2) by (simp add: line_at_line line_at_def whole_take)
  ultimately show ?thesis by (rule scan_ok_mono)
qed

lemma scan_from_ok:
  "laid_out 0 raw \<Longrightarrow> scan_ok raw body (line_at raw i) st \<Longrightarrow> scan_ok raw body (length (whole raw)) (scan_from raw i st)"
proof (induction raw i st rule: scan_from.induct)
  case (1 raw i st)
  note lo = 1(4)
  show ?case
  proof (cases "i \<ge> length raw")
    case True
    then have "line_at raw i = length (whole raw)" by (simp add: line_at_def)
    with 1(5) True show ?thesis by (simp add: scan_from.simps [of raw])
  next
    case False
    let ?o = "if sn_inComment st \<or> sn_closersExhausted st then None else fenceOpener (rl_text (raw ! i))"
    have upd: "scan_ok raw body k (st\<lparr>sn_closersExhausted := x, sn_unterminatedFence := y\<rparr>) = scan_ok raw body k st" for k x y by (simp add: scan_ok_def)
    show ?thesis
    proof (cases ?o)
      case None
      then show ?thesis
        using 1(1) 1(5) False comments_of_line_ok [OF lo, of i body st] by (subst scan_from.simps) (simp add: lo)
    next
      case (Some opener)
      then have out: "\<not> sn_inComment st" by (auto split: if_splits)
      show ?thesis
      proof (cases "closing_line raw opener (i + 1)")
        case None
        then show ?thesis
          using 1(2) 1(5) Some False comments_of_line_ok [OF lo, of i body "st\<lparr>sn_closersExhausted := True, sn_unterminatedFence := True\<rparr>"]
          by (subst scan_from.simps) (simp add: lo upd)
      next
        case closer: (Some c)
        have c: "i + 1 \<le> c" "c < length raw" using closing_line_Some [OF closer] by auto
        have "line_at raw i \<le> line_at raw (c + 1)" using c by (intro line_at_mono) simp
        then have "scan_ok raw body (line_at raw (c + 1)) (st\<lparr>sn_fences := sn_fences st @ [(i, c)]\<rparr>)"
          using 1(5) out by (fastforce simp: scan_ok_def)
        then show ?thesis using 1(3) Some closer False by (subst scan_from.simps) (simp add: lo)
      qed
    qed
  qed
qed

lemma scan_start_ok: "scan_ok raw body (line_at raw body) scan_start"
  by (simp add: scan_ok_def scan_start_def)

lemma sort_ordered: "ordered spans \<Longrightarrow> js_sort (key_cmp (\<lambda>s. real (fst s))) spans = spans"
proof -
  assume "ordered spans"
  then have "sorted_wrt (\<lambda>x y. key_cmp (\<lambda>s. real (fst s)) x y \<le> 0) spans"
    by (induction spans rule: ordered.induct) (auto simp: key_cmp_def dest: less_le_trans)
  then show ?thesis by (rule comparator.js_sort_sorted_id [OF comparator_key_cmp])
qed

definition scan_spans :: "(string \<Rightarrow> YamlKind option) \<Rightarrow> string \<Rightarrow> Span list" where
  "scan_spans yaml content = sn_spans (scan_from (splitRawLines content) (frontmatterEnd yaml (splitRawLines content)) scan_start)"

lemma scan_spans_ok:
  "scan_ok (splitRawLines content) (frontmatterEnd yaml (splitRawLines content)) (length content)
     (scan_from (splitRawLines content) (frontmatterEnd yaml (splitRawLines content)) scan_start)"
  using scan_from_ok [OF raw_lines(1) scan_start_ok, of content] by (simp add: raw_lines(2))

lemma scan_applied:
  "applyCommentSpans content (splitRawLines content) (js_sort (key_cmp (\<lambda>s. real (fst s))) (scan_spans yaml content))
    = (map (\<lambda>l. kept (covered (scan_spans yaml content)) content (rl_start l) (rl_start l + length (rl_text l))) (splitRawLines content),
       kept (covered (scan_spans yaml content)) content 0 (length content))"
proof -
  have o: "ordered (scan_spans yaml content)" using scan_spans_ok by (simp add: scan_ok_def scan_spans_def)
  have "\<forall>l \<in> set (splitRawLines content). clear_of_eol (scan_spans yaml content) l"
    using scan_spans_ok [of content yaml] by (fastforce simp: scan_ok_def clear_of_eol_def simp flip: scan_spans_def)
  with applyCommentSpans_kept [OF o] show ?thesis by (simp add: sort_ordered [OF o])
qed

lemma untouched_line:
  assumes "i < length (splitRawLines content)" "l = splitRawLines content ! i"
    and "\<forall>(f, e) \<in> set spans. e \<le> line_at (splitRawLines content) i \<or> line_at (splitRawLines content) (i + 1) \<le> f"
  shows "kept (covered spans) content (rl_start l) (rl_start l + length (rl_text l)) = rl_text l"
proof -
  note lo = raw_lines(1) [of content]
  have at: "rl_start l = line_at (splitRawLines content) i" "rl_start l + length (rl_text l) \<le> line_at (splitRawLines content) (i + 1)"
    using assms(1,2) by (simp_all add: line_at_line [OF lo] line_at_def whole_take)
  obtain pre post where w: "content = pre @ rl_text l @ post" "length pre = rl_start l"
    using line_in_whole [OF lo assms(1)] by (auto simp: raw_lines assms(2))
  have "kept (covered spans) content (rl_start l) (rl_start l + length (rl_text l)) = js_slice content (rl_start l) (rl_start l + length (rl_text l))"
  proof (rule kept_all)
    show "\<not> covered spans j" if "rl_start l \<le> j" "j < rl_start l + length (rl_text l)" for j
      using assms(3) that at by (fastforce simp: covered_def list_ex_iff)
  qed (simp add: w(1), simp add: w(2))
  also have "\<dots> = rl_text l" using w by (simp add: js_slice_def)
  finally show ?thesis .
qed

lemma only_comments:
  assumes "s = scanMarkdown yaml content" "spans = scan_spans yaml content" "raw = splitRawLines content"
  shows "ordered spans" "\<forall>(f, e) \<in> set spans. comment_span content f e"
    "md_withoutComments s = kept (covered spans) content 0 (length content)" "length (md_lines s) = length raw"
    "i < length raw \<Longrightarrow> ml_text (md_lines s ! i) = kept (covered spans) content (rl_start (raw ! i)) (rl_start (raw ! i) + length (rl_text (raw ! i)))"
    "i < length raw \<Longrightarrow> ml_inFence (md_lines s ! i) \<or> ml_frontmatter (md_lines s ! i) \<Longrightarrow> ml_text (md_lines s ! i) = rl_text (raw ! i)"
proof -
  let ?b = "frontmatterEnd yaml raw"
  let ?st = "scan_from raw ?b scan_start"
  have ok: "scan_ok raw ?b (length content) ?st" using scan_spans_ok by (simp add: assms(3))
  have sp: "spans = sn_spans ?st" by (simp add: assms scan_spans_def)
  show "ordered spans" "\<forall>(f, e) \<in> set spans. comment_span content f e"
    using ok raw_lines(2) [of content] by (auto simp: scan_ok_def sp assms(3))
  have s: "s = \<lparr>md_lines = map (\<lambda>i. \<lparr>ml_text = kept (covered spans) content (rl_start (raw ! i)) (rl_start (raw ! i) + length (rl_text (raw ! i))),
        ml_inFence = in_fence ?st i, ml_frontmatter = (i < ?b)\<rparr>) [0..<length raw],
      md_withoutComments = kept (covered spans) content 0 (length content), md_unterminatedFence = sn_unterminatedFence ?st,
      md_unterminatedComment = sn_inComment ?st\<rparr>"
    using scan_applied [of content yaml] by (simp add: assms scanMarkdown_def Let_def flip: scan_spans_def)
  show "md_withoutComments s = kept (covered spans) content 0 (length content)" "length (md_lines s) = length raw" by (simp_all add: s)
  show t: "ml_text (md_lines s ! i) = kept (covered spans) content (rl_start (raw ! i)) (rl_start (raw ! i) + length (rl_text (raw ! i)))" if "i < length raw"
    using that by (simp add: s)
  show "ml_text (md_lines s ! i) = rl_text (raw ! i)" if i: "i < length raw" and "ml_inFence (md_lines s ! i) \<or> ml_frontmatter (md_lines s ! i)"
  proof -
    have "in_fence ?st i \<or> i < ?b" using that by (simp add: s)
    then have "\<forall>(f, e) \<in> set spans. e \<le> line_at raw i \<or> line_at raw (i + 1) \<le> f"
    proof
      assume "in_fence ?st i"
      then obtain a b where ab: "(a, b) \<in> set (sn_fences ?st)" "a \<le> i" "i \<le> b" by (auto simp: in_fence_def list_ex_iff)
      have m: "line_at raw a \<le> line_at raw i" "line_at raw (i + 1) \<le> line_at raw (b + 1)" using ab by (auto intro: line_at_mono)
      show ?thesis
      proof clarify
        fix f e assume fe: "(f, e) \<in> set spans" "\<not> line_at raw (i + 1) \<le> f"
        then have "e \<le> line_at raw a \<or> line_at raw (b + 1) \<le> f" using ok ab(1) by (auto simp: scan_ok_def sp)
        with m fe(2) show "e \<le> line_at raw i" by auto
      qed
    next
      assume "i < ?b"
      then have m: "line_at raw (i + 1) \<le> line_at raw ?b" by (intro line_at_mono) simp
      show ?thesis using ok m by (auto simp: scan_ok_def sp)
    qed
    then show ?thesis using untouched_line [of i content "raw ! i" spans] i t [OF i] by (simp add: assms(3))
  qed
qed

text \<open>A scan deletes closed comments and nothing else: every span begins with the opening of a comment and ends with its closing, the rest
  of the document and of each line stays as it is, and the lines of frontmatter and of closed fences stay whole.\<close>

theorem only_comments_are_deleted:
  assumes "s = scanMarkdown yaml content" "raw = splitRawLines content"
  shows "\<exists>spans. ordered spans \<and> (\<forall>(f, e) \<in> set spans. comment_span content f e)
    \<and> md_withoutComments s = kept (covered spans) content 0 (length content) \<and> length (md_lines s) = length raw
    \<and> (\<forall>i < length raw. ml_text (md_lines s ! i) = kept (covered spans) content (rl_start (raw ! i)) (rl_start (raw ! i) + length (rl_text (raw ! i)))
        \<and> (ml_inFence (md_lines s ! i) \<or> ml_frontmatter (md_lines s ! i) \<longrightarrow> ml_text (md_lines s ! i) = rl_text (raw ! i)))"
  using only_comments [OF assms(1) refl assms(2)] by blast

lemma sample_comment: "md_withoutComments (scanMarkdown (\<lambda>_. None) ''a<!--b-->c'') = ''ac''"
  by code_simp

theorem only_comments_are_deleted_witness:
  "\<exists>spans. ordered spans \<and> (\<forall>(f, e) \<in> set spans. comment_span ''a<!--b-->c'' f e)
    \<and> kept (covered spans) ''a<!--b-->c'' 0 (length ''a<!--b-->c'') = ''ac''"
  using only_comments_are_deleted [OF refl refl, where yaml = "\<lambda>_. None" and content = "''a<!--b-->c''"]
  unfolding sample_comment by (elim exE conjE) (intro exI conjI, assumption, assumption, simp only:)

text \<open>Without an opening, nothing is deleted.\<close>

lemma no_comment_no_change:
  assumes "\<not> includes_str content ''<!--''"
  shows "md_withoutComments (scanMarkdown yaml content) = content"
proof -
  have "scan_spans yaml content = []"
  proof (rule ccontr)
    assume "scan_spans yaml content \<noteq> []"
    then obtain f e where "comment_span content f e" using only_comments(2) [OF refl refl refl, where yaml = yaml and content = content] by (cases "scan_spans yaml content") auto
    then have s: "take 4 (drop f content) = ''<!--''" by (simp add: comment_span_def js_slice_def)
    have "content = take f content @ take 4 (drop f content) @ drop 4 (drop f content)" by (simp only: append_take_drop_id)
    then have "includes_str content ''<!--''" unfolding s includes_str_iff by blast
    with assms show False by simp
  qed
  then show ?thesis
    using only_comments(3) [OF refl refl refl, where yaml = yaml and content = content] by (simp add: kept_all covered_def js_slice_def)
qed
end
