(* ===== verification/Documents.thy ===== *)
theory Documents
  imports Markdown Js_Path Json_Doc
begin

text \<open>
  The documents of a project (\<open>document-store/\<close>): where they are kept (\<open>DocumentStore.ts\<close>, \<open>DocumentScopeRegistry.ts\<close>), their index
  (\<open>DocumentIndex.ts\<close>, \<open>DocumentIndexUpdate.ts\<close>), similar documents (\<open>DocumentSimilarityCandidates.ts\<close>), what was decided about them
  (\<open>DocumentDispositions.ts\<close>), the record of checks (\<open>GovernanceObservation.ts\<close>, \<open>DocumentSimilarity.ts\<close>) and the signal that code
  changed without its capability document (\<open>CapabilityDrift.ts\<close>). Files are arguments: what was read is a value or \<open>None\<close>, what is written
  is a result. \<open>nfkc\<close> and \<open>lower\<close> are \<open>normalize\<close> and \<open>toLocaleLowerCase\<close>.
\<close>

section \<open>Fingerprints of documents\<close>

text \<open>\<open>replace(/\s+/g, " ")\<close>; \<open>prev\<close> says that a space precedes.\<close>

fun collapse_space :: "bool \<Rightarrow> string \<Rightarrow> string" where
  "collapse_space prev [] = []"
| "collapse_space prev (c # s) =
     (if is_space c then (if prev then collapse_space True s else CHR 0x20 # collapse_space True s) else c # collapse_space False s)"

definition normalize_document :: "(string \<Rightarrow> string) \<Rightarrow> (string \<Rightarrow> string) \<Rightarrow> (string \<Rightarrow> YamlKind option) \<Rightarrow> string \<Rightarrow> string" where
  "normalize_document nfkc lower yaml content =
     trim (collapse_space False (lower (nfkc (join_with [CHR 0x0A]
       (map ml_text (filter (\<lambda>l. \<not> ml_inFence l \<and> \<not> ml_frontmatter l) (md_lines (scanMarkdown yaml content))))))))"

definition shinglesOf :: "string \<Rightarrow> string list" where
  "shinglesOf s = (if length s \<le> 3 then (if s = [] then [] else [s]) else windows 3 s)"

text \<open>\<open>/^#\s+([^\n]+)/\<close> on a normalised text, which has no space at its end.\<close>

definition title_of :: "string \<Rightarrow> string option" where
  "title_of s =
     (case s of [] \<Rightarrow> None
      | c # r \<Rightarrow>
          let title = takeWhile (\<lambda>x. x \<noteq> CHR 0x0A) (dropWhile is_space r)
          in only_if (c = CHR ''#'' \<and> takeWhile is_space r \<noteq> [] \<and> title \<noteq> []) title)"

definition indexedDocument ::
  "(string \<Rightarrow> string) \<Rightarrow> (string \<Rightarrow> nat list) \<Rightarrow> (string \<Rightarrow> string) \<Rightarrow> (string \<Rightarrow> string) \<Rightarrow> (string \<Rightarrow> YamlKind option)
     \<Rightarrow> string \<Rightarrow> string \<Rightarrow> IndexedDocument" where
  "indexedDocument sha digest nfkc lower yaml path content =
     (let normalized = normalize_document nfkc lower yaml content; features = shinglesOf normalized
      in \<lparr>ix_path = path, ix_contentSha256 = sha content, ix_minHash = minHashOf features, ix_simHash = simHashOf digest features,
          ix_title = title_of normalized\<rparr>)"

section \<open>The store\<close>

datatype StoreMode = project_local | shared_store

record DocumentStoreConfig =
  dc_version :: string
  dc_mode :: string
  dc_root :: "string option"
  dc_scopeRoot :: "string option"
  dc_scopeId :: "string option"

record DocumentStore =
  dt_mode :: StoreMode
  dt_root :: string
  dt_scopeRoot :: string
  dt_gitRoot :: string
  dt_scopeId :: string
  dt_scopeConfigured :: bool

text \<open>What the association with a shared repository says: its target, when there is one, and whether the link works.\<close>

record DocsRepoStatus =
  dq_target :: "string option"
  dq_symlinkValid :: bool

definition LOCAL_ROOT :: string where "LOCAL_ROOT = ''docs/openarch''"
definition LOCAL_SCOPE_ID :: string where "LOCAL_SCOPE_ID = ''repository-local''"

definition ensureInside :: "string \<Rightarrow> string \<Rightarrow> bool" where
  "ensureInside base child =
     (let rel = toPosixPath (node_relative base child)
      in rel = [] \<or> \<not> starts_with rel ''../'' \<and> rel \<noteq> ''..'' \<and> \<not> isAbsolute rel)"

definition written_text :: "string option \<Rightarrow> bool" where
  "written_text t = (or_default t [] \<noteq> [])"

definition readStoreConfig :: "string \<Rightarrow> DocumentStoreConfig option \<Rightarrow> DocumentStoreConfig option" where
  "readStoreConfig cwd file =
     (case file of None \<Rightarrow> None
      | Some v \<Rightarrow>
          if dc_version v \<noteq> ''1'' \<or> dc_mode v \<notin> {''project-local'', ''shared''} then None
          else if dc_mode v = ''project-local'' \<and> (case dc_root v of None \<Rightarrow> False | Some r \<Rightarrow> \<not> ensureInside cwd (node_resolve cwd r)) then None
          else if dc_mode v = ''shared'' \<and> (\<not> written_text (dc_scopeRoot v) \<or> isAbsolute (or_default (dc_scopeRoot v) []) \<or> \<not> written_text (dc_scopeId v)
                  \<or> CHR ''/'' \<in> set (or_default (dc_scopeId v) []) \<or> CHR 0x5C \<in> set (or_default (dc_scopeId v) [])) then None
          else Some v)"

definition base_name :: "string \<Rightarrow> string" where
  "base_name p = (if absolute_segments p = [] then [] else last (absolute_segments p))"

definition resolveDocumentStore :: "string \<Rightarrow> DocumentStoreConfig option \<Rightarrow> DocsRepoStatus \<Rightarrow> DocumentStore option" where
  "resolveDocumentStore cwd file docs =
     (let config = readStoreConfig cwd file
      in if map_option dc_mode config = Some ''project-local''
         then let base = node_resolve cwd (or_default (Option.bind config dc_root) LOCAL_ROOT)
              in Some \<lparr>dt_mode = project_local, dt_root = base, dt_scopeRoot = base, dt_gitRoot = cwd,
                   dt_scopeId = or_default (Option.bind config dc_scopeId) LOCAL_SCOPE_ID, dt_scopeConfigured = True\<rparr>
         else (case dq_target docs of None \<Rightarrow> None
           | Some target \<Rightarrow>
               if \<not> dq_symlinkValid docs then None
               else let base = node_resolve cwd target
                    in (case config of
                          Some c \<Rightarrow>
                            (let scopeRoot = node_resolve base (or_default (dc_scopeRoot c) [])
                             in if \<not> ensureInside base scopeRoot then None
                                else Some \<lparr>dt_mode = shared_store, dt_root = base, dt_scopeRoot = scopeRoot, dt_gitRoot = base,
                                       dt_scopeId = or_default (dc_scopeId c) [], dt_scopeConfigured = True\<rparr>)
                        | None \<Rightarrow> Some \<lparr>dt_mode = shared_store, dt_root = base, dt_scopeRoot = base, dt_gitRoot = base,
                                    dt_scopeId = ''legacy:'' @ base_name base, dt_scopeConfigured = False\<rparr>)))"

section \<open>The registry of scopes\<close>

record SharedDocumentScope =
  ss_id :: string
  ss_root :: string

record ScopeRegistry =
  sy_version :: string
  sy_scopes :: "SharedDocumentScope list"

definition validScope :: "string \<Rightarrow> SharedDocumentScope \<Rightarrow> bool" where
  "validScope base s = (trim (ss_id s) \<noteq> [] \<and> trim (ss_root s) \<noteq> [] \<and> \<not> isAbsolute (ss_root s) \<and> ensureInside base (node_resolve base (ss_root s)))"

text \<open>\<open>None\<close> is a file that cannot be parsed.\<close>

definition readRegistry :: "string \<Rightarrow> ScopeRegistry option \<Rightarrow> ScopeRegistry option" where
  "readRegistry base file =
     (case file of None \<Rightarrow> None
      | Some v \<Rightarrow>
          if sy_version v \<noteq> ''1'' \<or> \<not> list_all (validScope base) (sy_scopes v) then None
          else only_if (distinct (map ss_id (sy_scopes v)) \<and> distinct (map ss_root (sy_scopes v))) v)"

text \<open>The registration: an error, or the registry to write when the scope is new. The outer option is the existence of the file.\<close>

datatype RegistryError = registry_invalid | id_taken string | root_taken string

definition registerSharedDocumentScope :: "string \<Rightarrow> ScopeRegistry option option \<Rightarrow> SharedDocumentScope \<Rightarrow> RegistryError + ScopeRegistry option" where
  "registerSharedDocumentScope base file s =
     (case (case file of None \<Rightarrow> Some \<lparr>sy_version = ''1'', sy_scopes = []\<rparr> | Some f \<Rightarrow> readRegistry base f) of
        None \<Rightarrow> Inl registry_invalid
      | Some existing \<Rightarrow>
          let sameId = find (\<lambda>e. ss_id e = ss_id s) (sy_scopes existing); sameRoot = find (\<lambda>e. ss_root e = ss_root s) (sy_scopes existing)
          in if (case sameId of None \<Rightarrow> False | Some e \<Rightarrow> ss_root e \<noteq> ss_root s) then Inl (id_taken (ss_id s))
             else if (case sameRoot of None \<Rightarrow> False | Some e \<Rightarrow> ss_id e \<noteq> ss_id s) then Inl (root_taken (ss_root s))
             else Inr (if sameId = None then Some \<lparr>sy_version = ''1'', sy_scopes = sy_scopes existing @ [s]\<rparr> else None))"

datatype ConfigureError = not_associated | scope_malformed | scope_outside | registry_refused RegistryError

text \<open>Attaching a scope: an error, or the store, the registry to write and the configuration to write.\<close>

definition configureSharedDocumentStore ::
  "string \<Rightarrow> DocsRepoStatus \<Rightarrow> ScopeRegistry option option \<Rightarrow> string \<Rightarrow> string
     \<Rightarrow> ConfigureError + DocumentStore \<times> ScopeRegistry option \<times> DocumentStoreConfig" where
  "configureSharedDocumentStore cwd docs registry scopeRoot scopeId =
     (case dq_target docs of None \<Rightarrow> Inl not_associated
      | Some target \<Rightarrow>
          if \<not> dq_symlinkValid docs then Inl not_associated
          else if trim scopeId = [] \<or> CHR ''/'' \<in> set scopeId \<or> CHR 0x5C \<in> set scopeId \<or> isAbsolute scopeRoot then Inl scope_malformed
          else let base = node_resolve cwd target; scopedRoot = node_resolve base scopeRoot
               in if \<not> ensureInside base scopedRoot then Inl scope_outside
                  else (case registerSharedDocumentScope base registry \<lparr>ss_id = scopeId, ss_root = scopeRoot\<rparr> of
                     Inl e \<Rightarrow> Inl (registry_refused e)
                   | Inr added \<Rightarrow>
                       Inr (\<lparr>dt_mode = shared_store, dt_root = base, dt_scopeRoot = scopedRoot, dt_gitRoot = base, dt_scopeId = scopeId,
                              dt_scopeConfigured = True\<rparr>, added,
                            \<lparr>dc_version = ''1'', dc_mode = ''shared'', dc_root = None, dc_scopeRoot = Some scopeRoot, dc_scopeId = Some scopeId\<rparr>)))"
section \<open>The index\<close>

definition INDEX_VERSION :: string where "INDEX_VERSION = ''1''"

record DocumentIndex =
  di_version :: string
  di_scopeId :: string
  di_entries :: "(string, IndexedDocument) jmap option"

text \<open>The entries of the index file; \<open>None\<close> is a file that is absent or cannot be parsed.\<close>

definition readDocumentIndex :: "DocumentStore \<Rightarrow> DocumentIndex option \<Rightarrow> (string, IndexedDocument) jmap" where
  "readDocumentIndex store file =
     (case file of None \<Rightarrow> []
      | Some v \<Rightarrow> if di_version v = INDEX_VERSION \<and> di_scopeId v = dt_scopeId store then or_default (di_entries v) [] else [])"

definition documentStoreRelativePath :: "DocumentStore \<Rightarrow> string \<Rightarrow> string" where
  "documentStoreRelativePath store path = toPosixPath (node_relative (dt_scopeRoot store) (node_resolve (dt_gitRoot store) path))"

definition map_delete :: "('k, 'v) jmap \<Rightarrow> 'k \<Rightarrow> ('k, 'v) jmap" where
  "map_delete m k = filter (\<lambda>kv. fst kv \<noteq> k) m"

text \<open>The files of the store as a check finds them: whether an index file exists and what it holds, the Markdown files below the scope
  and the text of a file.\<close>

record DocumentFiles =
  df_cacheReady :: bool
  df_index :: "DocumentIndex option"
  df_markdown :: "string list"
  df_read :: "string \<Rightarrow> string option"

record DocumentCheckInput =
  ci_store :: DocumentStore
  ci_changedPaths :: "string list option"
  ci_stagedContent :: "(string, string) jmap"

definition is_document_path :: "string \<Rightarrow> bool" where
  "is_document_path p = (p \<noteq> [] \<and> \<not> starts_with p ''../'' \<and> ends_with (to_lower p) ''.md'')"

definition content_at :: "DocumentFiles \<Rightarrow> DocumentCheckInput \<Rightarrow> string \<Rightarrow> string option" where
  "content_at files input absolute = or_option (map_get (ci_stagedContent input) absolute) (df_read files absolute)"

definition index_step ::
  "(string \<Rightarrow> string) \<Rightarrow> (string \<Rightarrow> string \<Rightarrow> IndexedDocument) \<Rightarrow> DocumentFiles \<Rightarrow> DocumentCheckInput
     \<Rightarrow> (string, IndexedDocument) jmap \<Rightarrow> string \<Rightarrow> (string, IndexedDocument) jmap" where
  "index_step sha index files input entries absolute =
     (let path = documentStoreRelativePath (ci_store input) absolute
      in if \<not> is_document_path path then entries
         else (case content_at files input absolute of
            None \<Rightarrow> map_delete entries path
          | Some content \<Rightarrow>
              if map_option ix_contentSha256 (map_get entries path) \<noteq> Some (sha content)
              then map_set entries path (index path content) else entries))"

definition full_check :: "DocumentFiles \<Rightarrow> DocumentCheckInput \<Rightarrow> bool" where
  "full_check files input = (ci_changedPaths input = None \<or> \<not> df_cacheReady files)"

definition changed_absolute :: "DocumentFiles \<Rightarrow> DocumentCheckInput \<Rightarrow> string list" where
  "changed_absolute files input =
     (if full_check files input then df_markdown files
      else map (node_resolve (dt_gitRoot (ci_store input))) (or_default (ci_changedPaths input) []))"

definition updateDocumentIndex ::
  "(string \<Rightarrow> string) \<Rightarrow> (string \<Rightarrow> string \<Rightarrow> IndexedDocument) \<Rightarrow> DocumentFiles \<Rightarrow> DocumentCheckInput
     \<Rightarrow> (string, IndexedDocument) jmap \<times> string list" where
  "updateDocumentIndex sha index files input =
     (let store = ci_store input; changedPaths = changed_absolute files input;
          entries = readDocumentIndex store (df_index files);
          current = map (documentStoreRelativePath store) (df_markdown files);
          entries' = (if full_check files input then filter (\<lambda>kv. fst kv \<in> set current) entries else entries)
      in (foldl (index_step sha index files input) entries' changedPaths, uniq (map (documentStoreRelativePath store) changedPaths)))"

section \<open>Similar documents\<close>

record DocumentSimilarityCandidate =
  sm_left :: string
  sm_right :: string
  sm_minHashSimilarity :: real
  sm_simHashDistance :: nat
  sm_scopeId :: string

definition candidateFor :: "IndexedDocument \<Rightarrow> IndexedDocument \<Rightarrow> string \<Rightarrow> DocumentSimilarityCandidate option" where
  "candidateFor left right scopeId =
     (let s = minHashSimilarity (ix_minHash left) (ix_minHash right); d = simHashDistance (ix_simHash left) (ix_simHash right)
      in only_if (s \<ge> MINHASH_CANDIDATE \<or> d \<le> SIMHASH_DISTANCE)
        \<lparr>sm_left = ix_path left, sm_right = ix_path right, sm_minHashSimilarity = s, sm_simHashDistance = d, sm_scopeId = scopeId\<rparr>)"

text \<open>Which keys share a bucket: the buckets list the paths of the documents that have their key.\<close>

definition add_bucket :: "string \<Rightarrow> (string, string list) jmap \<Rightarrow> string \<Rightarrow> (string, string list) jmap" where
  "add_bucket path buckets b = map_set buckets b (or_default (map_get buckets b) [] @ [path])"

definition buckets_of :: "(string \<times> nat list) list \<Rightarrow> (string, string list) jmap" where
  "buckets_of docs = foldl (\<lambda>m d. foldl (add_bucket (fst d)) m (bucketKeys (snd d))) [] docs"

definition pair_key :: "string \<Rightarrow> string \<Rightarrow> string" where
  "pair_key a b = join_with [NUL] (sort [a, b])"

definition match_step ::
  "(string, IndexedDocument) jmap \<Rightarrow> string \<Rightarrow> string \<Rightarrow> IndexedDocument \<Rightarrow> string list \<times> DocumentSimilarityCandidate list \<Rightarrow> string
     \<Rightarrow> string list \<times> DocumentSimilarityCandidate list" where
  "match_step entries scopeId path left acc other =
     (if other = path \<or> pair_key path other \<in> set (fst acc) then acc
      else (fst acc @ [pair_key path other],
        case map_get entries other of None \<Rightarrow> snd acc
        | Some right \<Rightarrow> (case candidateFor left right scopeId of None \<Rightarrow> snd acc | Some c \<Rightarrow> snd acc @ [c])))"

definition candidate_step ::
  "(string, IndexedDocument) jmap \<Rightarrow> (string, string list) jmap \<Rightarrow> string \<Rightarrow> string list \<times> DocumentSimilarityCandidate list \<Rightarrow> string
     \<Rightarrow> string list \<times> DocumentSimilarityCandidate list" where
  "candidate_step entries buckets scopeId acc path =
     (case map_get entries path of None \<Rightarrow> acc
      | Some left \<Rightarrow>
          foldl (match_step entries scopeId path left) acc
            (uniq (concat (map (\<lambda>b. or_default (map_get buckets b) []) (bucketKeys (ix_minHash left))))))"

definition similarity_cmp :: "DocumentSimilarityCandidate cmp" where
  "similarity_cmp = or_cmp (key_cmp_desc sm_minHashSimilarity) (key_cmp (\<lambda>c. real (sm_simHashDistance c)))"

definition findDocumentSimilarityCandidates ::
  "(string, IndexedDocument) jmap \<Rightarrow> string list \<Rightarrow> string \<Rightarrow> DocumentSimilarityCandidate list" where
  "findDocumentSimilarityCandidates entries changed scopeId =
     (let buckets = buckets_of (map (\<lambda>(k, e). (ix_path e, ix_minHash e)) entries)
      in js_sort similarity_cmp (snd (foldl (candidate_step entries buckets scopeId) ([], []) changed)))"

section \<open>Decisions about similar documents\<close>

definition DECISIONS :: "string list" where
  "DECISIONS = [''merged'', ''related'', ''kept-separate'']"

record RelationsFile =
  rf_version :: string
  rf_relations :: "json list option"
  rf_dispositions :: "json list option"

definition validPath :: "string \<Rightarrow> bool" where
  "validPath p = (p \<noteq> [] \<and> \<not> starts_with p ''../'' \<and> p \<noteq> ''..'')"

definition validDisposition :: "json \<Rightarrow> bool" where
  "validDisposition v =
     ((case text_of (field v ''left'') of None \<Rightarrow> False | Some p \<Rightarrow> validPath p)
      \<and> (case text_of (field v ''right'') of None \<Rightarrow> False | Some p \<Rightarrow> validPath p)
      \<and> (case text_of (field v ''decision'') of None \<Rightarrow> False | Some d \<Rightarrow> d \<in> set DECISIONS)
      \<and> text_of (field v ''at'') \<noteq> None \<and> (field v ''note'' = None \<or> text_of (field v ''note'') \<noteq> None))"

definition rawRelations :: "RelationsFile option \<Rightarrow> json list" where
  "rawRelations file = (case file of None \<Rightarrow> [] | Some v \<Rightarrow> if rf_version v = ''1'' then or_default (rf_relations v) [] else [])"

definition readDocumentDispositions :: "RelationsFile option \<Rightarrow> json list" where
  "readDocumentDispositions file =
     (case file of None \<Rightarrow> []
      | Some v \<Rightarrow>
          if rf_version v \<noteq> ''1'' \<or> rf_relations v = None then []
          else (case rf_dispositions v of None \<Rightarrow> [] | Some ds \<Rightarrow> if list_all validDisposition ds then ds else []))"

definition side_of :: "json \<Rightarrow> string \<Rightarrow> string" where
  "side_of v k = or_default (text_of (field v k)) []"

definition disposition_pair :: "json \<Rightarrow> string" where
  "disposition_pair v = pair_key (side_of v ''left'') (side_of v ''right'')"

datatype DispositionError = same_or_invalid_paths | unknown_decision

definition disposition_doc :: "string \<Rightarrow> string \<Rightarrow> string \<Rightarrow> string option \<Rightarrow> string \<Rightarrow> json" where
  "disposition_doc left right decision note time =
     JObj ([(''left'', JStr left), (''right'', JStr right), (''decision'', JStr decision)]
       @ (if trim (or_default note []) = [] then [] else [(''note'', JStr (trim (or_default note [])))]) @ [(''at'', JStr time)])"

text \<open>The file to write and whether an earlier decision was replaced; \<open>time\<close> is the time given or the present.\<close>

definition recordDocumentDisposition ::
  "RelationsFile option \<Rightarrow> string \<Rightarrow> string \<Rightarrow> string \<Rightarrow> string option \<Rightarrow> string \<Rightarrow> DispositionError + RelationsFile \<times> bool" where
  "recordDocumentDisposition file left0 right0 decision note time =
     (let left = trim left0; right = trim right0
      in if \<not> validPath left \<or> \<not> validPath right \<or> left = right then Inl same_or_invalid_paths
         else if decision \<notin> set DECISIONS then Inl unknown_decision
         else let existing = readDocumentDispositions file; pair = pair_key left right;
                  kept = filter (\<lambda>e. disposition_pair e \<noteq> pair) existing
              in Inr (\<lparr>rf_version = ''1'', rf_relations = Some (rawRelations file),
                        rf_dispositions = Some (kept @ [disposition_doc left right decision note time])\<rparr>,
                      list_ex (\<lambda>e. disposition_pair e = pair) existing))"

definition hasDisposition :: "DocumentSimilarityCandidate \<Rightarrow> json list \<Rightarrow> bool" where
  "hasDisposition c ds = list_ex (\<lambda>e. disposition_pair e = pair_key (sm_left c) (sm_right c)) ds"

definition unresolvedSimilarityCandidates ::
  "DocumentStore \<Rightarrow> DocumentIndex option \<Rightarrow> RelationsFile option \<Rightarrow> DocumentSimilarityCandidate list" where
  "unresolvedSimilarityCandidates store index relations =
     (let entries = readDocumentIndex store index
      in if entries = [] then []
         else filter (\<lambda>c. \<not> hasDisposition c (readDocumentDispositions relations))
           (findDocumentSimilarityCandidates entries (map_keys entries) (dt_scopeId store)))"

section \<open>Observations of governance\<close>

record GovernanceObservation =
  go_at :: string
  go_inputFingerprint :: string

record ObservationStore =
  os_version :: string
  os_operations :: "(string, GovernanceObservation) jmap option"

definition readGovernanceObservation :: "ObservationStore option \<Rightarrow> string \<Rightarrow> GovernanceObservation option" where
  "readGovernanceObservation file operation =
     (case file of None \<Rightarrow> None
      | Some v \<Rightarrow> if os_version v = ''1'' then Option.bind (os_operations v) (\<lambda>m. map_get m operation) else None)"

definition recordGovernanceObservation :: "ObservationStore option \<Rightarrow> string \<Rightarrow> GovernanceObservation \<Rightarrow> ObservationStore" where
  "recordGovernanceObservation file operation observation =
     (let existing = (case file of None \<Rightarrow> []
          | Some v \<Rightarrow> if os_version v = ''1'' then or_default (os_operations v) [] else [])
      in \<lparr>os_version = ''1'', os_operations = Some (map_set existing operation observation)\<rparr>)"

section \<open>A check of the documents\<close>

datatype CheckMode = check_all | check_unfilled | check_similarity

record DocumentCheckReport =
  dk_available :: bool
  dk_scopeId :: string
  dk_indexed :: nat
  dk_updated :: nat
  dk_candidates :: "DocumentSimilarityCandidate list"
  dk_unfilled :: "string list"

definition capabilityAssetPath :: "DocumentStore \<Rightarrow> string" where
  "capabilityAssetPath store = node_resolve (dt_scopeRoot store) ''CORE-CAPABILITIES.md''"

text \<open>Which of the changed documents still hold a placeholder; \<open>is_unfilled\<close> judges one text (\<open>isUnfilledRecordDocument\<close>).\<close>

definition unfilledDocuments :: "(string \<Rightarrow> bool) \<Rightarrow> DocumentFiles \<Rightarrow> DocumentCheckInput \<Rightarrow> string list \<Rightarrow> string list" where
  "unfilledDocuments is_unfilled files input changed =
     filter (\<lambda>p. is_document_path p
       \<and> (case content_at files input (node_resolve (dt_scopeRoot (ci_store input)) p) of None \<Rightarrow> False | Some c \<Rightarrow> is_unfilled c)) changed"

text \<open>The report, and, when the scope is configured, the index to write and the observations to write.\<close>

definition checkDocuments ::
  "(string \<Rightarrow> string) \<Rightarrow> (string \<Rightarrow> string \<Rightarrow> IndexedDocument) \<Rightarrow> (string \<Rightarrow> bool) \<Rightarrow> string \<Rightarrow> CheckMode \<Rightarrow> DocumentFiles
     \<Rightarrow> ObservationStore option \<Rightarrow> DocumentCheckInput
     \<Rightarrow> DocumentCheckReport \<times> (DocumentIndex \<times> ObservationStore) option" where
  "checkDocuments sha index is_unfilled now mode files observations input =
     (let store = ci_store input
      in if \<not> dt_scopeConfigured store
         then (\<lparr>dk_available = False, dk_scopeId = dt_scopeId store, dk_indexed = 0, dk_updated = 0, dk_candidates = [], dk_unfilled = []\<rparr>, None)
         else (case updateDocumentIndex sha index files input of (entries, changed) \<Rightarrow>
           let fingerprint = sha (join_with [CHR 0x0A] (map (\<lambda>p. p @ '':'' @
                   (case map_get entries p of None \<Rightarrow> ''deleted'' | Some e \<Rightarrow> ix_contentSha256 e)) (sort changed)));
               o1 = recordGovernanceObservation observations ''document-similarity'' \<lparr>go_at = now, go_inputFingerprint = fingerprint\<rparr>;
               capabilityPath = documentStoreRelativePath store (capabilityAssetPath store);
               capability = (case map_get entries capabilityPath of None \<Rightarrow> [] | Some e \<Rightarrow> ix_contentSha256 e);
               o2 = (if ci_changedPaths input \<noteq> None \<and> capabilityPath \<in> set changed \<and> capability \<noteq> []
                     then recordGovernanceObservation (Some o1) ''capability-maintenance'' \<lparr>go_at = now, go_inputFingerprint = capability\<rparr> else o1)
           in (\<lparr>dk_available = True, dk_scopeId = dt_scopeId store, dk_indexed = length entries,
                 dk_updated = length (filter (\<lambda>p. map_has entries p) changed),
                 dk_candidates = (if mode \<in> {check_all, check_similarity} then findDocumentSimilarityCandidates entries changed (dt_scopeId store) else []),
                 dk_unfilled = (if mode \<in> {check_all, check_unfilled} then unfilledDocuments is_unfilled files input changed else [])\<rparr>,
               Some (\<lparr>di_version = INDEX_VERSION, di_scopeId = dt_scopeId store, di_entries = Some entries\<rparr>, o2))))"

section \<open>Code that changed without its capability document\<close>

record CapabilityDriftSignal =
  cg_watch :: "string list"
  cg_matched :: "string list"
  cg_error :: "string option"

definition watch_patterns :: "json option \<Rightarrow> string + string list" where
  "watch_patterns v =
     (case v of None \<Rightarrow> Inr []
      | Some (JArr xs) \<Rightarrow> if list_all (\<lambda>x. case x of JStr s \<Rightarrow> trim s \<noteq> [] | _ \<Rightarrow> False) xs
          then Inr (map (\<lambda>x. case x of JStr s \<Rightarrow> trim s | _ \<Rightarrow> []) xs) else Inl ''invalid''
      | Some _ \<Rightarrow> Inl ''invalid'')"

text \<open>\<open>config\<close> is the parsed configuration: an error, no file or the field \<open>governance.capability_watch\<close>.\<close>

datatype DriftConfig = drift_missing | drift_invalid string | drift_ok "json option"

definition asset_in_project :: "string \<Rightarrow> DocumentStore option \<Rightarrow> string option" where
  "asset_in_project cwd store =
     (case store of None \<Rightarrow> None
      | Some s \<Rightarrow> let rel = node_relative cwd (capabilityAssetPath s) in only_if (\<not> starts_with rel ''..'' \<and> \<not> isAbsolute rel) (toPosixPath rel))"

definition capabilityDriftSignal ::
  "(string \<Rightarrow> string \<Rightarrow> bool) \<Rightarrow> string \<Rightarrow> DriftConfig \<Rightarrow> DocumentStore option \<Rightarrow> string list \<Rightarrow> CapabilityDriftSignal" where
  "capabilityDriftSignal mm cwd config store changedPaths =
     (let configured = (case config of drift_missing \<Rightarrow> Inr [] | drift_invalid e \<Rightarrow> Inl e | drift_ok v \<Rightarrow> watch_patterns v)
      in (case configured of
            Inl e \<Rightarrow> \<lparr>cg_watch = [], cg_matched = [], cg_error = Some e\<rparr>
          | Inr patterns \<Rightarrow>
              if patterns = [] \<or> changedPaths = [] then \<lparr>cg_watch = patterns, cg_matched = [], cg_error = None\<rparr>
              else \<lparr>cg_watch = patterns,
                cg_matched = filter (\<lambda>p. list_ex (mm p) patterns) (filter (\<lambda>p. Some p \<noteq> asset_in_project cwd store) (map toPosixPath changedPaths)),
                cg_error = None\<rparr>))"

section \<open>Stores stay inside their repository\<close>

lemma strip_common_split: "strip_common xs ys = (u, d) \<Longrightarrow> \<exists>c. xs = c @ u \<and> ys = c @ d"
proof (induction xs ys rule: strip_common.induct)
  case (1 x xs y ys)
  show ?case
  proof (cases "x = y")
    case True
    then obtain c where "xs = c @ u" "ys = c @ d" using 1 by auto
    then show ?thesis using True by (intro exI [where x = "x # c"]) simp
  qed (use 1(2) in auto)
qed auto

lemma ensureInside_prefix:
  assumes "ensureInside base child"
  shows "\<exists>down. absolute_segments child = absolute_segments base @ down"
proof -
  obtain u d where ud: "strip_common (absolute_segments base) (absolute_segments child) = (u, d)" by fastforce
  have "u = []"
  proof (rule ccontr)
    assume "u \<noteq> []"
    then obtain x u' where u: "u = x # u'" by (cases u) auto
    have "node_relative base child = ''..'' \<or> (\<exists>r. node_relative base child = ''../'' @ r)"
      using ud by (cases "map (\<lambda>_. ''..'') u' @ d") (auto simp: node_relative_def u)
    moreover have "toPosixPath ''..'' = ''..''" "toPosixPath (''../'' @ r) = ''../'' @ toPosixPath r" for r by (simp_all add: toPosixPath_def)
    ultimately have "toPosixPath (node_relative base child) = ''..'' \<or> (\<exists>r. toPosixPath (node_relative base child) = ''../'' @ r)" by metis
    with assms show False by (auto simp: ensureInside_def Let_def starts_with_def)
  qed
  with strip_common_split [OF ud] show ?thesis by auto
qed

lemma segments_resolve: "absolute_segments (node_resolve cwd p) = absolute_segments (if isAbsolute p then p else cwd @ ''/'' @ p)"
  unfolding node_resolve_def by (rule absolute_segments_render) (rule absolute_segments_plain)

lemma segments_below: "absolute_segments (a @ ''/'' @ b) = foldl path_step (absolute_segments a) (split_on (CHR ''/'') b)"
proof -
  have "split_on (CHR ''/'') (a @ ''/'' @ b) = split_on (CHR ''/'') a @ split_on (CHR ''/'') b"
  proof (induction a)
    case (Cons c a)
    then show ?case by (auto split: list.splits)
  qed simp
  then show ?thesis by (simp add: absolute_segments_def)
qed

lemma local_root_inside: "\<exists>down. absolute_segments (node_resolve cwd LOCAL_ROOT) = absolute_segments cwd @ down"
proof -
  have "\<not> isAbsolute LOCAL_ROOT" by (simp add: LOCAL_ROOT_def isAbsolute_def starts_with_def)
  then show ?thesis
    by (simp only: segments_resolve if_False segments_below) (simp add: LOCAL_ROOT_def path_step_def)
qed

text \<open>A store that is resolved lies inside the repository that its commits go to; only a shared store without a configured scope is not
  scanned.\<close>

theorem store_stays_inside:
  assumes "resolveDocumentStore cwd file docs = Some s"
  shows "(\<exists>down. absolute_segments (dt_scopeRoot s) = absolute_segments (dt_gitRoot s) @ down)
    \<and> (dt_mode s = project_local \<longrightarrow> dt_gitRoot s = cwd \<and> dt_scopeConfigured s)
    \<and> (dt_scopeConfigured s \<longleftrightarrow> readStoreConfig cwd file \<noteq> None)"
proof (cases "readStoreConfig cwd file")
  case None
  with assms show ?thesis by (auto simp: resolveDocumentStore_def Let_def split: option.splits if_splits)
next
  case (Some c)
  show ?thesis
  proof (cases "dc_mode c = ''project-local''")
    case True
    have "\<exists>down. absolute_segments (node_resolve cwd (or_default (dc_root c) LOCAL_ROOT)) = absolute_segments cwd @ down"
    proof (cases "dc_root c")
      case None
      then show ?thesis using local_root_inside by simp
    next
      case (Some r)
      then have "ensureInside cwd (node_resolve cwd r)"
        using \<open>readStoreConfig cwd file = Some c\<close> True by (auto simp: readStoreConfig_def split: option.splits if_splits)
      with Some show ?thesis using ensureInside_prefix by simp
    qed
    with assms Some True show ?thesis by (auto simp: resolveDocumentStore_def Let_def)
  next
    case False
    with assms Some obtain target where "dq_target docs = Some target" "dq_symlinkValid docs"
        "ensureInside (node_resolve cwd target) (node_resolve (node_resolve cwd target) (or_default (dc_scopeRoot c) []))"
        "s = \<lparr>dt_mode = shared_store, dt_root = node_resolve cwd target, dt_scopeRoot = node_resolve (node_resolve cwd target) (or_default (dc_scopeRoot c) []),
          dt_gitRoot = node_resolve cwd target, dt_scopeId = or_default (dc_scopeId c) [], dt_scopeConfigured = True\<rparr>"
      by (auto simp: resolveDocumentStore_def Let_def split: option.splits if_splits)
    with Some ensureInside_prefix show ?thesis by simp
  qed
qed

theorem store_stays_inside_witness:
  "\<exists>s down. resolveDocumentStore ''/p'' None \<lparr>dq_target = Some ''/docs'', dq_symlinkValid = True\<rparr> = Some s
    \<and> absolute_segments (dt_scopeRoot s) = absolute_segments (dt_gitRoot s) @ down"
proof -
  obtain s where s: "resolveDocumentStore ''/p'' None \<lparr>dq_target = Some ''/docs'', dq_symlinkValid = True\<rparr> = Some s"
    by (simp add: resolveDocumentStore_def readStoreConfig_def Let_def)
  with store_stays_inside [OF s] show ?thesis by blast
qed

section \<open>The registry of scopes\<close>

definition registry_ok :: "string \<Rightarrow> ScopeRegistry \<Rightarrow> bool" where
  "registry_ok base r = (readRegistry base (Some r) = Some r)"

text \<open>Registering keeps the registry readable and every scope in it at its place, whatever is registered: a name is never moved to
  another path and no path gets a second name.\<close>

lemma registration_keeps_scopes:
  assumes "registerSharedDocumentScope base file s = Inr (Some r)" "validScope base s"
  shows "registry_ok base r \<and> sy_scopes r = (case file of None \<Rightarrow> [] | Some f \<Rightarrow> case readRegistry base f of None \<Rightarrow> [] | Some x \<Rightarrow> sy_scopes x) @ [s]"
proof -
  obtain x where x: "(case file of None \<Rightarrow> Some \<lparr>sy_version = ''1'', sy_scopes = []\<rparr> | Some f \<Rightarrow> readRegistry base f) = Some x"
    and new: "find (\<lambda>e. ss_id e = ss_id s) (sy_scopes x) = None" and r: "r = \<lparr>sy_version = ''1'', sy_scopes = sy_scopes x @ [s]\<rparr>"
    and at: "case find (\<lambda>e. ss_root e = ss_root s) (sy_scopes x) of None \<Rightarrow> True | Some e \<Rightarrow> ss_id e = ss_id s"
    using assms(1) by (auto simp: registerSharedDocumentScope_def Let_def split: option.splits if_splits)
  have ok: "list_all (validScope base) (sy_scopes x)" "distinct (map ss_id (sy_scopes x))" "distinct (map ss_root (sy_scopes x))"
    using x by (auto simp: readRegistry_def split: option.splits if_splits)
  have ids: "ss_id e \<noteq> ss_id s" if "e \<in> set (sy_scopes x)" for e using new that by (auto simp: find_None_iff)
  then have "find (\<lambda>e. ss_root e = ss_root s) (sy_scopes x) = None" using at by (auto simp: find_Some_iff split: option.splits)
  then have "ss_root e \<noteq> ss_root s" if "e \<in> set (sy_scopes x)" for e using that by (auto simp: find_None_iff)
  with ok ids assms(2) x show ?thesis by (force simp: registry_ok_def readRegistry_def r split: option.splits)
qed

text \<open>A scope without a path is accepted, and from then on the registry can neither be read nor extended.\<close>

lemma blank_scope_breaks_registry:
  assumes "trim scopeId \<noteq> []" "CHR ''/'' \<notin> set scopeId" "CHR 0x5C \<notin> set scopeId"
    and "docs = \<lparr>dq_target = Some target, dq_symlinkValid = True\<rparr>"
  shows "\<exists>s r c. configureSharedDocumentStore cwd docs None [] scopeId = Inr (s, Some r, c)
    \<and> readRegistry base (Some r) = None \<and> registerSharedDocumentScope base (Some (Some r)) other = Inl registry_invalid
    \<and> readStoreConfig cwd (Some c) = None"
proof -
  have n: "\<not> isAbsolute []" by (simp add: isAbsolute_def starts_with_def)
  have same: "strip_common xs xs = ([], [])" for xs by (induction xs) auto
  have "absolute_segments (node_resolve b []) = absolute_segments b" for b
    by (simp only: segments_resolve n if_False segments_below) (simp add: path_step_def)
  then have "ensureInside b (node_resolve b [])" for b by (simp add: ensureInside_def node_relative_def same toPosixPath_def)
  with assms n show ?thesis
    by (simp add: configureSharedDocumentStore_def registerSharedDocumentScope_def readRegistry_def validScope_def readStoreConfig_def
        written_text_def Let_def)
qed

section \<open>The index follows the documents\<close>

lemma relative_join:
  assumes "\<forall>x \<in> set xs. x \<noteq> [] \<and> CHR ''/'' \<notin> set x" shows "\<not> isAbsolute (join_with ''/'' xs)"
proof (cases xs)
  case Nil
  then show ?thesis by (simp add: isAbsolute_def starts_with_def)
next
  case (Cons x ys)
  with assms obtain c t where "x = c # t" "c \<noteq> CHR ''/''" by (cases x) auto
  with Cons show ?thesis by (cases ys) (simp_all add: isAbsolute_def starts_with_def)
qed

lemma resolve_relative:
  assumes "isAbsolute p" "render_absolute (absolute_segments p) = p"
  shows "node_resolve base (node_relative base p) = p"
proof -
  obtain u d where ud: "strip_common (absolute_segments base) (absolute_segments p) = (u, d)" by fastforce
  obtain c where c: "absolute_segments base = c @ u" "absolute_segments p = c @ d" using strip_common_split [OF ud] by blast
  have d: "\<forall>s \<in> set d. plain_segment s" using absolute_segments_plain [of p] c by simp
  let ?rel = "map (\<lambda>_. ''..'') u @ d"
  have ups: "foldl path_step (c @ u) (map (\<lambda>_. ''..'') u @ d) = c @ d"
  proof -
    have "foldl path_step (c @ v) (replicate (length v) ''..'') = c" for v
    proof (induction v rule: rev_induct)
      case (snoc x v)
      have "path_step (c @ v @ [x]) ''..'' = c @ v" by (simp add: path_step_def butlast_append)
      then show ?case using snoc by simp
    qed simp
    then have "foldl path_step (c @ u) (map (\<lambda>_. ''..'') u) = c" by (simp add: map_replicate_const)
    then show ?thesis using foldl_path_step_id [OF d, of c] by simp
  qed
  have rel: "node_relative base p = join_with ''/'' ?rel" by (simp add: node_relative_def ud)
  have seg: "x \<noteq> [] \<and> CHR ''/'' \<notin> set x" if x: "x \<in> set ?rel" for x
  proof (cases "x = ''..''")
    case False
    then have "x \<in> set d" using x by auto
    then have "plain_segment x" using d by blast
    then show ?thesis by (simp add: plain_segment_def)
  qed simp
  then have nosep: "\<forall>x \<in> set ?rel. CHR ''/'' \<notin> set x" by blast
  have "\<not> isAbsolute (node_relative base p)"
    unfolding rel by (rule relative_join) (use seg in blast)
  then have "absolute_segments (node_resolve base (node_relative base p)) = foldl path_step (absolute_segments base) (split_on (CHR ''/'') (node_relative base p))"
    by (simp only: segments_resolve if_False segments_below)
  also have "\<dots> = absolute_segments p"
  proof (cases "?rel = []")
    case True
    then show ?thesis using c by (simp add: rel path_step_def)
  next
    case False
    then have "split_on (CHR ''/'') (join_with ''/'' ?rel) = ?rel" by (rule split_join [OF _ nosep])
    with ups c show ?thesis by (simp only: rel)
  qed
  finally show ?thesis using assms(2) by (metis node_resolve_def absolute_segments_plain absolute_segments_render)
qed

text \<open>Absolute paths in normal form and without a backslash, which the walk over the directory and the resolved arguments are.\<close>

definition plain_path :: "string \<Rightarrow> bool" where
  "plain_path p = (isAbsolute p \<and> render_absolute (absolute_segments p) = p \<and> CHR 0x5C \<notin> set p)"

text \<open>The text of the document at a path of the store, in the form in which the index names documents, as this check sees it.\<close>

definition document_at :: "DocumentFiles \<Rightarrow> DocumentCheckInput \<Rightarrow> string \<Rightarrow> string option" where
  "document_at files input p =
     (let absolute = node_resolve (dt_scopeRoot (ci_store input)) p
      in if is_document_path p \<and> documentStoreRelativePath (ci_store input) absolute = p then content_at files input absolute else None)"

definition index_follows :: "(string \<Rightarrow> string) \<Rightarrow> (string, IndexedDocument) jmap \<Rightarrow> (string \<Rightarrow> string option) \<Rightarrow> bool" where
  "index_follows sha entries docs = (\<forall>p. map_option ix_contentSha256 (map_get entries p) = map_option sha (docs p))"

lemma map_get_delete: "map_get (map_delete m k) k' = (if k' = k then None else map_get m k')"
  by (induction m) (auto simp: map_delete_def)

lemma relative_plain:
  assumes "plain_path f" "CHR 0x5C \<notin> set (dt_scopeRoot store)"
  shows "node_resolve (dt_scopeRoot store) (documentStoreRelativePath store f) = f"
proof -
  have f: "node_resolve g f = f" for g using assms(1) by (simp add: plain_path_def node_resolve_def)
  have nob: "CHR 0x5C \<notin> set x" if "x \<in> set (absolute_segments f)" for x
  proof -
    have "set x \<subseteq> set (join_with ''/'' xs)" if "x \<in> set xs" for x :: string and xs
      using that by (induction "''/''" xs rule: join_with.induct) auto
    then have "set x \<subseteq> set (render_absolute (absolute_segments f))" using that by (auto simp: render_absolute_def)
    with assms(1) show ?thesis by (auto simp: plain_path_def)
  qed
  obtain u d where ud: "strip_common (absolute_segments (dt_scopeRoot store)) (absolute_segments f) = (u, d)" by fastforce
  have "CHR 0x5C \<notin> set (join_with ''/'' xs)" if "\<forall>x \<in> set xs. CHR 0x5C \<notin> set x" for xs
    using that by (induction "''/''" xs rule: join_with.induct) auto
  moreover have "\<forall>x \<in> set (map (\<lambda>_. ''..'') u @ d). CHR 0x5C \<notin> set x" using strip_common_split [OF ud] nob by auto
  ultimately have "CHR 0x5C \<notin> set (node_relative (dt_scopeRoot store) f)" by (simp add: node_relative_def ud)
  then have "documentStoreRelativePath store f = node_relative (dt_scopeRoot store) f"
    by (simp add: documentStoreRelativePath_def f toPosixPath_id)
  then show ?thesis using assms(1) by (simp add: plain_path_def resolve_relative)
qed

lemma index_step_get:
  assumes "plain_path f" "CHR 0x5C \<notin> set (dt_scopeRoot (ci_store input))" "index = indexedDocument sha digest nfkc lower yaml"
  shows "p \<noteq> documentStoreRelativePath (ci_store input) f \<Longrightarrow> map_get (index_step sha index files input entries f) p = map_get entries p"
    and "is_document_path (documentStoreRelativePath (ci_store input) f) \<Longrightarrow>
      map_option ix_contentSha256 (map_get (index_step sha index files input entries f) (documentStoreRelativePath (ci_store input) f))
        = map_option sha (document_at files input (documentStoreRelativePath (ci_store input) f))"
    and "\<not> is_document_path (documentStoreRelativePath (ci_store input) f) \<Longrightarrow> index_step sha index files input entries f = entries"
  using relative_plain [OF assms(1,2)]
  by (auto simp: index_step_def Let_def map_get_delete document_at_def assms(3) indexedDocument_def split: option.splits)

lemma index_steps_get:
  assumes "\<forall>f \<in> set fs. plain_path f" "CHR 0x5C \<notin> set (dt_scopeRoot (ci_store input))" "index = indexedDocument sha digest nfkc lower yaml"
    and "\<forall>p. \<not> is_document_path p \<longrightarrow> map_get entries p = None"
  shows "map_option ix_contentSha256 (map_get (foldl (index_step sha index files input) entries fs) p)
    = (if p \<in> documentStoreRelativePath (ci_store input) ` set fs then map_option sha (document_at files input p)
       else map_option ix_contentSha256 (map_get entries p))"
  using assms(1,4)
proof (induction fs arbitrary: entries)
  case Nil
  then show ?case by simp
next
  case (Cons f fs)
  let ?r = "documentStoreRelativePath (ci_store input) f"
  let ?e = "index_step sha index files input entries f"
  have f: "plain_path f" using Cons.prems(1) by simp
  note g = index_step_get [OF f assms(2,3)]
  have "map_get ?e q = None" if "\<not> is_document_path q" for q
    using that g(1) [of q files entries] g(3) [of files entries] Cons.prems(2) by (cases "q = ?r") auto
  then have "map_option ix_contentSha256 (map_get (foldl (index_step sha index files input) ?e fs) p)
    = (if p \<in> documentStoreRelativePath (ci_store input) ` set fs then map_option sha (document_at files input p)
       else map_option ix_contentSha256 (map_get ?e p))"
    using Cons.IH [of ?e] Cons.prems(1) by simp
  moreover have "map_option ix_contentSha256 (map_get ?e ?r) = map_option sha (document_at files input ?r)"
    using g(2,3) [of files entries] Cons.prems(2) by (cases "is_document_path ?r") (simp_all add: document_at_def)
  ultimately show ?case using g(1) [of p files entries] by (cases "p = ?r") auto
qed

lemma map_get_filter_keys: "map_get (filter (\<lambda>kv. fst kv \<in> A) m) p = (if p \<in> A then map_get m p else None)"
  by (induction m) auto

text \<open>A check leaves an index that follows the documents: a full one whatever the index held before, an incremental one when the index
  followed the documents as they were and every document that differs is among the changed paths.\<close>

theorem index_stays_current:
  assumes "\<forall>f \<in> set (changed_absolute files input). plain_path f" "CHR 0x5C \<notin> set (dt_scopeRoot (ci_store input))"
    and "old = readDocumentIndex (ci_store input) (df_index files)" "\<forall>p. \<not> is_document_path p \<longrightarrow> map_get old p = None"
    and "changed = documentStoreRelativePath (ci_store input) ` set (changed_absolute files input)"
    and "if full_check files input then \<forall>p. document_at files input p \<noteq> None \<longrightarrow> p \<in> changed
         else \<exists>docs. index_follows sha old docs \<and> (\<forall>p. docs p \<noteq> document_at files input p \<longrightarrow> p \<in> changed)"
  shows "index_follows sha (fst (updateDocumentIndex sha (indexedDocument sha digest nfkc lower yaml) files input)) (document_at files input)"
proof (cases "full_check files input")
  case True
  let ?kept = "filter (\<lambda>kv. fst kv \<in> set (map (documentStoreRelativePath (ci_store input)) (df_markdown files))) old"
  have "\<forall>p. \<not> is_document_path p \<longrightarrow> map_get ?kept p = None" using assms(4) by (simp only: map_get_filter_keys) simp
  from index_steps_get [OF assms(1,2) refl this, of sha digest nfkc lower yaml files] assms(3,5,6) True show ?thesis
    by (simp only: index_follows_def updateDocumentIndex_def Let_def fst_conv if_True map_get_filter_keys changed_absolute_def) (auto simp: map_get_filter_keys)
next
  case False
  from index_steps_get [OF assms(1,2) refl assms(4), of sha digest nfkc lower yaml files] assms(3,5,6) False show ?thesis
    by (simp only: index_follows_def updateDocumentIndex_def Let_def fst_conv if_False) metis
qed

definition sample_store :: DocumentStore where
  "sample_store = \<lparr>dt_mode = project_local, dt_root = ''/d'', dt_scopeRoot = ''/d'', dt_gitRoot = ''/d'', dt_scopeId = ''s'', dt_scopeConfigured = True\<rparr>"

definition sample_files :: DocumentFiles where
  "sample_files = \<lparr>df_cacheReady = False, df_index = None, df_markdown = [''/d/a.md''], df_read = (\<lambda>f. only_if (f = ''/d/a.md'') ''x'')\<rparr>"

definition sample_input :: DocumentCheckInput where
  "sample_input = \<lparr>ci_store = sample_store, ci_changedPaths = None, ci_stagedContent = []\<rparr>"

lemma sample_relative: "documentStoreRelativePath sample_store ''/d/a.md'' = ''a.md''"
  by (simp add: documentStoreRelativePath_def sample_store_def node_relative_def node_resolve_def isAbsolute_def starts_with_def
      absolute_segments_def path_step_def render_absolute_def toPosixPath_def)

theorem index_stays_current_witness:
  "map_option ix_contentSha256 (map_get (fst (updateDocumentIndex (\<lambda>t. ''h'' @ t) (indexedDocument (\<lambda>t. ''h'' @ t) (\<lambda>_. []) (\<lambda>t. t) (\<lambda>t. t) (\<lambda>_. None))
     sample_files sample_input)) ''a.md'') = Some ''hx''"
proof -
  have plain: "plain_path ''/d/a.md''"
    by (simp add: plain_path_def isAbsolute_def starts_with_def absolute_segments_def path_step_def render_absolute_def)
  have changed: "changed_absolute sample_files sample_input = [''/d/a.md'']"
    by (simp add: changed_absolute_def full_check_def sample_files_def sample_input_def)
  have res: "node_resolve ''/d'' ''a.md'' = ''/d/a.md''"
    by (simp add: node_resolve_def isAbsolute_def starts_with_def absolute_segments_def path_step_def render_absolute_def)
  have only: "p = ''a.md''" if d: "document_at sample_files sample_input p \<noteq> None" for p
  proof -
    have st: "dt_scopeRoot sample_store = ''/d''" "ci_store sample_input = sample_store" by (simp_all add: sample_input_def sample_store_def)
    have r: "documentStoreRelativePath sample_store (node_resolve ''/d'' p) = p" using d unfolding document_at_def Let_def st by presburger
    have "content_at sample_files sample_input (node_resolve ''/d'' p) \<noteq> None" using d unfolding document_at_def Let_def st by presburger
    then have "node_resolve ''/d'' p = ''/d/a.md''"
      by (simp add: content_at_def sample_files_def sample_input_def only_if_def split: if_splits)
    with r sample_relative show ?thesis by simp
  qed
  have "index_follows (\<lambda>t. ''h'' @ t) (fst (updateDocumentIndex (\<lambda>t. ''h'' @ t) (indexedDocument (\<lambda>t. ''h'' @ t) (\<lambda>_. []) (\<lambda>t. t) (\<lambda>t. t) (\<lambda>_. None))
      sample_files sample_input)) (document_at sample_files sample_input)"
  proof (rule index_stays_current [OF _ _ refl _ refl])
    show "\<forall>f \<in> set (changed_absolute sample_files sample_input). plain_path f" using plain by (simp add: changed)
    show "CHR 0x5C \<notin> set (dt_scopeRoot (ci_store sample_input))" by (simp add: sample_input_def sample_store_def)
    show "\<forall>p. \<not> is_document_path p \<longrightarrow> map_get (readDocumentIndex (ci_store sample_input) (df_index sample_files)) p = None"
      by (simp add: sample_files_def readDocumentIndex_def)
    have f: "full_check sample_files sample_input" by (simp add: full_check_def sample_files_def)
    have "p \<in> documentStoreRelativePath (ci_store sample_input) ` set (changed_absolute sample_files sample_input)"
      if "document_at sample_files sample_input p \<noteq> None" for p
      using only [OF that] unfolding changed by (simp add: sample_input_def sample_relative)
    then show "if full_check sample_files sample_input
      then \<forall>p. document_at sample_files sample_input p \<noteq> None \<longrightarrow> p \<in> documentStoreRelativePath (ci_store sample_input) ` set (changed_absolute sample_files sample_input)
      else \<exists>docs. index_follows (\<lambda>t. ''h'' @ t) (readDocumentIndex (ci_store sample_input) (df_index sample_files)) docs
        \<and> (\<forall>p. docs p \<noteq> document_at sample_files sample_input p \<longrightarrow> p \<in> documentStoreRelativePath (ci_store sample_input) ` set (changed_absolute sample_files sample_input))"
      using f by (simp only: if_True) blast
  qed
  moreover have "document_at sample_files sample_input ''a.md'' = Some ''x''"
    using sample_relative res
    by (simp add: document_at_def is_document_path_def content_at_def sample_files_def sample_input_def sample_store_def starts_with_def
        ends_with_def to_lower_def lower_char_def)
  ultimately show ?thesis by (simp add: index_follows_def)
qed

section \<open>Similar documents are found once\<close>

lemma buckets_add:
  "set (or_default (map_get (foldl (add_bucket path) m bs) b) []) = set (or_default (map_get m b) []) \<union> (if b \<in> set bs then {path} else {})"
  by (induction bs arbitrary: m) (auto simp: add_bucket_def)

lemma buckets_members: "set (or_default (map_get (buckets_of docs) b) []) = {p. \<exists>m. (p, m) \<in> set docs \<and> b \<in> set (bucketKeys m)}"
proof -
  have "set (or_default (map_get (foldl (\<lambda>m d. foldl (add_bucket (fst d)) m (bucketKeys (snd d))) s docs) b) [])
      = set (or_default (map_get s b) []) \<union> {p. \<exists>m. (p, m) \<in> set docs \<and> b \<in> set (bucketKeys m)}" for s
    by (induction docs arbitrary: s) (auto simp: buckets_add split: if_splits)
  then show ?thesis by (simp add: buckets_of_def)
qed

definition cand_of :: "(string, IndexedDocument) jmap \<Rightarrow> string \<Rightarrow> string \<Rightarrow> string \<Rightarrow> DocumentSimilarityCandidate option" where
  "cand_of entries scopeId p q =
     Option.bind (map_get entries p) (\<lambda>l. Option.bind (map_get entries q) (\<lambda>r. candidateFor l r scopeId))"

definition visit_step ::
  "(string, IndexedDocument) jmap \<Rightarrow> string \<Rightarrow> string list \<times> DocumentSimilarityCandidate list \<Rightarrow> string \<times> string
     \<Rightarrow> string list \<times> DocumentSimilarityCandidate list" where
  "visit_step entries scopeId acc pq =
     (case pq of (p, q) \<Rightarrow>
        if q = p \<or> pair_key p q \<in> set (fst acc) then acc
        else (fst acc @ [pair_key p q], case cand_of entries scopeId p q of None \<Rightarrow> snd acc | Some c \<Rightarrow> snd acc @ [c]))"

definition visits :: "(string, IndexedDocument) jmap \<Rightarrow> (string, string list) jmap \<Rightarrow> string \<Rightarrow> (string \<times> string) list" where
  "visits entries buckets p =
     (case map_get entries p of None \<Rightarrow> []
      | Some left \<Rightarrow> map (Pair p) (uniq (concat (map (\<lambda>b. or_default (map_get buckets b) []) (bucketKeys (ix_minHash left))))))"

lemma candidate_step_visits:
  "candidate_step entries buckets scopeId acc p = foldl (visit_step entries scopeId) acc (visits entries buckets p)"
proof (cases "map_get entries p")
  case (Some left)
  have "foldl (match_step entries scopeId p left) acc qs = foldl (visit_step entries scopeId) acc (map (Pair p) qs)" for qs
    by (induction qs arbitrary: acc) (simp_all add: match_step_def visit_step_def cand_of_def Some split: option.splits)
  with Some show ?thesis by (simp add: candidate_step_def visits_def)
qed (simp add: candidate_step_def visits_def)

lemma candidate_steps_visits:
  "foldl (candidate_step entries buckets scopeId) acc ps = foldl (visit_step entries scopeId) acc (concat (map (visits entries buckets) ps))"
  by (induction ps arbitrary: acc) (simp_all add: candidate_step_visits)

definition candidate_key :: "DocumentSimilarityCandidate \<Rightarrow> string" where
  "candidate_key c = pair_key (sm_left c) (sm_right c)"

definition visited_ok ::
  "(string, IndexedDocument) jmap \<Rightarrow> string \<Rightarrow> (string \<times> string) list \<Rightarrow> string list \<times> DocumentSimilarityCandidate list \<Rightarrow> bool" where
  "visited_ok entries scopeId vs acc =
     (set (fst acc) = {pair_key p q |p q. (p, q) \<in> set vs \<and> p \<noteq> q}
      \<and> (\<forall>c \<in> set (snd acc). \<exists>p q. (p, q) \<in> set vs \<and> p \<noteq> q \<and> cand_of entries scopeId p q = Some c)
      \<and> (\<forall>k \<in> set (fst acc). \<exists>p q. (p, q) \<in> set vs \<and> p \<noteq> q \<and> pair_key p q = k \<and> (\<forall>c. cand_of entries scopeId p q = Some c \<longrightarrow> c \<in> set (snd acc)))
      \<and> distinct (map candidate_key (snd acc)) \<and> candidate_key ` set (snd acc) \<subseteq> set (fst acc))"

lemma cand_of_sides:
  assumes "\<forall>(k, e) \<in> set entries. ix_path e = k" "cand_of entries scopeId p q = Some c"
  shows "sm_left c = p" "sm_right c = q"
  using assms by (auto simp: cand_of_def candidateFor_def Let_def bind_eq_Some_conv dest!: map_of_SomeD)

lemma visited_okD:
  assumes "visited_ok entries scopeId vs acc"
  shows "set (fst acc) = {pair_key p q |p q. (p, q) \<in> set vs \<and> p \<noteq> q}"
    "\<And>c. c \<in> set (snd acc) \<Longrightarrow> \<exists>p q. (p, q) \<in> set vs \<and> p \<noteq> q \<and> cand_of entries scopeId p q = Some c"
    "\<And>k. k \<in> set (fst acc) \<Longrightarrow> \<exists>p q. (p, q) \<in> set vs \<and> p \<noteq> q \<and> pair_key p q = k \<and> (\<forall>c. cand_of entries scopeId p q = Some c \<longrightarrow> c \<in> set (snd acc))"
    "distinct (map candidate_key (snd acc))" "candidate_key ` set (snd acc) \<subseteq> set (fst acc)"
  using assms unfolding visited_ok_def by blast+

lemma visit_step_ok:
  assumes "\<forall>(k, e) \<in> set entries. ix_path e = k" "visited_ok entries scopeId vs acc"
  shows "visited_ok entries scopeId (vs @ [pq]) (visit_step entries scopeId acc pq)"
proof -
  obtain p q where pq: "pq = (p, q)" by (cases pq)
  note o = visited_okD [OF assms(2)]
  have more: "{pair_key p' q' |p' q'. (p', q') \<in> set (vs @ [pq]) \<and> p' \<noteq> q'} = set (fst acc) \<union> (if p = q then {} else {pair_key p q})"
    unfolding o(1) by (auto simp: pq)
  show ?thesis
  proof (cases "q = p \<or> pair_key p q \<in> set (fst acc)")
    case True
    then have e: "visit_step entries scopeId acc pq = acc" by (simp add: visit_step_def pq)
    show ?thesis
      unfolding visited_ok_def e more
    proof (intro conjI ballI)
      show "set (fst acc) = set (fst acc) \<union> (if p = q then {} else {pair_key p q})" using True by auto
      show "\<exists>p q. (p, q) \<in> set (vs @ [pq]) \<and> p \<noteq> q \<and> cand_of entries scopeId p q = Some c" if "c \<in> set (snd acc)" for c
        using o(2) [OF that] unfolding set_append by blast
      show "\<exists>p q. (p, q) \<in> set (vs @ [pq]) \<and> p \<noteq> q \<and> pair_key p q = k \<and> (\<forall>c. cand_of entries scopeId p q = Some c \<longrightarrow> c \<in> set (snd acc))"
        if "k \<in> set (fst acc)" for k using o(3) [OF that] unfolding set_append by blast
    qed (use o in auto)
  next
    case False
    define cs where "cs = (case cand_of entries scopeId p q of None \<Rightarrow> [] | Some c \<Rightarrow> [c])"
    have e: "visit_step entries scopeId acc pq = (fst acc @ [pair_key p q], snd acc @ cs)"
      using False by (simp add: visit_step_def pq cs_def split: option.splits)
    have cs: "c \<in> set cs \<longleftrightarrow> cand_of entries scopeId p q = Some c" for c by (auto simp: cs_def split: option.splits)
    have keys: "map candidate_key cs = map (\<lambda>_. pair_key p q) cs" using cs by (auto simp: candidate_key_def cand_of_sides [OF assms(1)])
    show ?thesis
      unfolding visited_ok_def e more fst_conv snd_conv
    proof (intro conjI ballI)
      show "set (fst acc @ [pair_key p q]) = set (fst acc) \<union> (if p = q then {} else {pair_key p q})" using False by auto
      show "\<exists>p q. (p, q) \<in> set (vs @ [pq]) \<and> p \<noteq> q \<and> cand_of entries scopeId p q = Some c" if "c \<in> set (snd acc @ cs)" for c
      proof (cases "c \<in> set cs")
        case True
        with False cs show ?thesis by (intro exI [where x = p] exI [where x = q]) (auto simp: pq)
      next
        case False
        with that have "c \<in> set (snd acc)" by auto
        from o(2) [OF this] show ?thesis unfolding set_append by blast
      qed
      show "\<exists>p q. (p, q) \<in> set (vs @ [pq]) \<and> p \<noteq> q \<and> pair_key p q = k \<and> (\<forall>c. cand_of entries scopeId p q = Some c \<longrightarrow> c \<in> set (snd acc @ cs))"
        if "k \<in> set (fst acc @ [pair_key p q])" for k
      proof (cases "k \<in> set (fst acc)")
        case True
        from o(3) [OF this] show ?thesis unfolding set_append by blast
      next
        case new: False
        with that False cs show ?thesis by (intro exI [where x = p] exI [where x = q]) (auto simp: pq)
      qed
      have "length cs \<le> 1" by (simp add: cs_def split: option.splits)
      then have "distinct (map candidate_key cs)" by (cases cs) auto
      moreover have "set (map candidate_key (snd acc)) \<inter> set (map candidate_key cs) = {}" using o(5) False unfolding keys by auto
      ultimately show "distinct (map candidate_key (snd acc @ cs))" using o(4) by simp
      have "candidate_key ` set cs \<subseteq> {pair_key p q}" using keys by (metis (no_types, lifting) image_subset_iff insertI1 list.set_map map_eq_conv)
      then show "candidate_key ` set (snd acc @ cs) \<subseteq> set (fst acc @ [pair_key p q])" using o(5) by auto
    qed
  qed
qed

lemma visits_ok:
  assumes "\<forall>(k, e) \<in> set entries. ix_path e = k"
  shows "visited_ok entries scopeId vs (foldl (visit_step entries scopeId) ([], []) vs)"
  by (induction vs rule: rev_induct) (simp add: visited_ok_def, simp add: visit_step_ok [OF assms])

lemma similarity_sym: "minHashSimilarity a b = minHashSimilarity b a"
proof -
  have "length (filter (\<lambda>(l, r). l = r) (zip a b)) = length (filter (\<lambda>(l, r). l = r) (zip b a))"
    by (induction a b rule: list_induct2') auto
  then show ?thesis by (simp add: minHashSimilarity_def Let_def min.commute [of "length a"])
qed

lemma distance_sym: "simHashDistance a b = simHashDistance b a"
  by (simp add: simHashDistance_def xor.commute)

lemma pair_key_sym: "pair_key a b = pair_key b a"
  using linear [of a b] by (auto simp: pair_key_def)

lemma pair_key_eq:
  assumes "NUL \<notin> set a" "NUL \<notin> set b" "NUL \<notin> set c" "NUL \<notin> set d"
  shows "pair_key a b = pair_key c d \<longleftrightarrow> {a, b} = {c, d}"
proof
  assume "pair_key a b = pair_key c d"
  then have "sort [a, b] = sort [c, d]" unfolding pair_key_def by (rule join_inj [rotated 4]) (use assms in auto)
  then show "{a, b} = {c, d}" by (metis list.simps(15) set_sort list.set(1))
next
  assume "{a, b} = {c, d}"
  then show "pair_key a b = pair_key c d" using pair_key_sym by (auto simp: doubleton_eq_iff)
qed

text \<open>Two documents are near when both are indexed, they share a band and one of the two fingerprints is close.\<close>

definition near :: "(string, IndexedDocument) jmap \<Rightarrow> string \<Rightarrow> string \<Rightarrow> bool" where
  "near entries p q =
     (p \<noteq> q \<and> (case (map_get entries p, map_get entries q) of
        (Some l, Some r) \<Rightarrow> set (bucketKeys (ix_minHash l)) \<inter> set (bucketKeys (ix_minHash r)) \<noteq> {}
          \<and> (minHashSimilarity (ix_minHash l) (ix_minHash r) \<ge> MINHASH_CANDIDATE \<or> simHashDistance (ix_simHash l) (ix_simHash r) \<le> SIMHASH_DISTANCE)
      | _ \<Rightarrow> False))"

lemma near_sym: "near entries p q \<longleftrightarrow> near entries q p"
proof (cases "map_get entries p")
  case l: (Some l)
  show ?thesis
  proof (cases "map_get entries q")
    case (Some r)
    with l show ?thesis
      using similarity_sym [of "ix_minHash l" "ix_minHash r"] distance_sym [of "ix_simHash l" "ix_simHash r"] by (auto simp: near_def)
  qed (simp add: near_def l)
qed (simp add: near_def split: option.splits)

lemma document_keys:
  assumes "\<forall>(k, e) \<in> set entries. ix_path e = k" "well_keyed entries"
  shows "(q, m) \<in> set (map (\<lambda>(k, e). (ix_path e, ix_minHash e)) entries) \<longleftrightarrow> (\<exists>r. map_get entries q = Some r \<and> ix_minHash r = m)"
proof -
  have "(q, m) \<in> set (map (\<lambda>(k, e). (ix_path e, ix_minHash e)) entries) \<longleftrightarrow> (\<exists>r. (q, r) \<in> set entries \<and> ix_minHash r = m)"
  proof
    assume "(q, m) \<in> set (map (\<lambda>(k, e). (ix_path e, ix_minHash e)) entries)"
    then obtain k e where "(k, e) \<in> set entries" "q = ix_path e" "m = ix_minHash e" by auto
    with assms(1) show "\<exists>r. (q, r) \<in> set entries \<and> ix_minHash r = m" by auto
  next
    assume "\<exists>r. (q, r) \<in> set entries \<and> ix_minHash r = m"
    with assms(1) show "(q, m) \<in> set (map (\<lambda>(k, e). (ix_path e, ix_minHash e)) entries)" by (force simp: image_iff)
  qed
  then show ?thesis by (simp only: well_keyed_get [OF assms(2)])
qed

lemma bucket_member: "x \<in> set (or_default (map_get (buckets_of docs) b) []) \<longleftrightarrow> (\<exists>m. (x, m) \<in> set docs \<and> b \<in> set (bucketKeys m))"
  by (simp add: buckets_members)

lemma visit_partner:
  assumes "\<forall>(k, e) \<in> set entries. ix_path e = k" "well_keyed entries" "buckets = buckets_of (map (\<lambda>(k, e). (ix_path e, ix_minHash e)) entries)"
  shows "(p, q) \<in> set (visits entries buckets p) \<longleftrightarrow> (\<exists>l r. map_get entries p = Some l \<and> map_get entries q = Some r
    \<and> set (bucketKeys (ix_minHash l)) \<inter> set (bucketKeys (ix_minHash r)) \<noteq> {})"
proof (cases "map_get entries p")
  case (Some l)
  have "(p, q) \<in> set (visits entries buckets p) \<longleftrightarrow> (\<exists>b \<in> set (bucketKeys (ix_minHash l)). q \<in> set (or_default (map_get buckets b) []))"
    by (auto simp: visits_def Some)
  also have "\<dots> \<longleftrightarrow> (\<exists>b \<in> set (bucketKeys (ix_minHash l)). \<exists>m. (\<exists>r. map_get entries q = Some r \<and> ix_minHash r = m) \<and> b \<in> set (bucketKeys m))"
    by (simp only: assms(3) bucket_member document_keys [OF assms(1,2)])
  finally show ?thesis using Some by auto
qed (simp add: visits_def)

lemma visited_near:
  assumes "\<forall>(k, e) \<in> set entries. ix_path e = k" "well_keyed entries" "buckets = buckets_of (map (\<lambda>(k, e). (ix_path e, ix_minHash e)) entries)"
  shows "near entries p q \<longleftrightarrow> (p, q) \<in> set (visits entries buckets p) \<and> p \<noteq> q \<and> cand_of entries scopeId p q \<noteq> None"
  unfolding visit_partner [OF assms] by (auto simp: near_def cand_of_def candidateFor_def Let_def split: option.splits)

lemma distinct_map_finer:
  assumes "distinct (map f xs)" "\<And>c d. c \<in> set xs \<Longrightarrow> d \<in> set xs \<Longrightarrow> g c = g d \<Longrightarrow> f c = f d"
  shows "distinct (map g xs)"
  using assms by (metis (mono_tags, lifting) distinct_map inj_on_def)

lemma near_found:
  assumes "\<forall>(k, e) \<in> set entries. ix_path e = k \<and> NUL \<notin> set k" "well_keyed entries"
    and "found = findDocumentSimilarityCandidates entries changed scopeId"
  shows "{{sm_left c, sm_right c} |c. c \<in> set found} = {{p, q} |p q. p \<in> set changed \<and> near entries p q}"
    and "distinct (map (\<lambda>c. {sm_left c, sm_right c}) found)"
    and "c \<in> set found \<Longrightarrow> sm_left c \<in> set changed \<and> near entries (sm_left c) (sm_right c)"
    and "sorted_wrt (\<lambda>c d. similarity_cmp c d \<le> 0) found"
proof -
  define buckets where "buckets = buckets_of (map (\<lambda>(k, e). (ix_path e, ix_minHash e)) entries)"
  define vs where "vs = concat (map (visits entries buckets) changed)"
  define acc where "acc = foldl (visit_step entries scopeId) ([], []) vs"
  have keyed: "\<forall>(k, e) \<in> set entries. ix_path e = k" using assms(1) by auto
  have ok: "visited_ok entries scopeId vs acc" unfolding acc_def by (rule visits_ok [OF keyed])
  have found: "found = js_sort similarity_cmp (snd acc)"
    by (simp add: assms(3) findDocumentSimilarityCandidates_def Let_def buckets_def [symmetric] candidate_steps_visits acc_def vs_def)
  have vis: "(p, q) \<in> set vs \<longleftrightarrow> p \<in> set changed \<and> (p, q) \<in> set (visits entries buckets p)" for p q
    by (auto simp: vs_def visits_def split: option.splits)
  note nv = visited_near [OF keyed assms(2) buckets_def, where scopeId = scopeId]
  have names: "NUL \<notin> set p \<and> NUL \<notin> set q" if "near entries p q" for p q
    using that assms(1) by (auto simp: near_def split: option.splits dest!: map_of_SomeD)
  have sound: "sm_left c \<in> set changed \<and> near entries (sm_left c) (sm_right c)" if mem: "c \<in> set (snd acc)" for c
  proof -
    obtain p q where pq: "(p, q) \<in> set vs" "p \<noteq> q" "cand_of entries scopeId p q = Some c" using visited_okD(2) [OF ok mem] by blast
    have "near entries p q" "p \<in> set changed" using pq unfolding nv vis by blast+
    with cand_of_sides [OF keyed pq(3)] show ?thesis by blast
  qed
  then show "c \<in> set found \<Longrightarrow> sm_left c \<in> set changed \<and> near entries (sm_left c) (sm_right c)" for c by (simp add: found)
  have complete: "\<exists>c \<in> set (snd acc). {sm_left c, sm_right c} = {p, q}" if "p \<in> set changed" "near entries p q" for p q
  proof -
    have "(p, q) \<in> set vs" "p \<noteq> q" using that unfolding nv vis by blast+
    then have "pair_key p q \<in> set (fst acc)" unfolding visited_okD(1) [OF ok] by blast
    then obtain p' q' where v: "(p', q') \<in> set vs" "p' \<noteq> q'" "pair_key p' q' = pair_key p q"
        "\<forall>c. cand_of entries scopeId p' q' = Some c \<longrightarrow> c \<in> set (snd acc)"
      using visited_okD(3) [OF ok] by blast
    have inl: "\<exists>e. map_get entries x = Some e" and inr: "\<exists>e. map_get entries y = Some e" if "(x, y) \<in> set vs" for x y
      using that by (auto simp only: vis visit_partner [OF keyed assms(2) buckets_def])
    have "NUL \<notin> set p'" "NUL \<notin> set q'" using inl [OF v(1)] inr [OF v(1)] assms(1) by (auto dest!: map_of_SomeD)
    then have same: "{p', q'} = {p, q}" using v(3) names [OF that(2)] pair_key_eq by metis
    then have "near entries p' q'" using that(2) near_sym by (auto simp: doubleton_eq_iff)
    then obtain c where "cand_of entries scopeId p' q' = Some c" unfolding nv by blast
    with v(4) cand_of_sides [OF keyed this] same show ?thesis by metis
  qed
  show "{{sm_left c, sm_right c} |c. c \<in> set found} = {{p, q} |p q. p \<in> set changed \<and> near entries p q}"
  proof (intro set_eqI iffI)
    fix X assume "X \<in> {{sm_left c, sm_right c} |c. c \<in> set found}"
    then obtain c where "X = {sm_left c, sm_right c}" "c \<in> set (snd acc)" unfolding found set_js_sort by blast
    with sound show "X \<in> {{p, q} |p q. p \<in> set changed \<and> near entries p q}" by blast
  next
    fix X assume "X \<in> {{p, q} |p q. p \<in> set changed \<and> near entries p q}"
    then obtain p q where pq: "X = {p, q}" "p \<in> set changed" "near entries p q" by blast
    from complete [OF pq(2,3)] show "X \<in> {{sm_left c, sm_right c} |c. c \<in> set found}" unfolding found set_js_sort pq(1) by blast
  qed
  have "distinct (map candidate_key (snd acc))" by (rule visited_okD(4) [OF ok])
  moreover have "candidate_key c = candidate_key d"
    if c: "c \<in> set (snd acc)" and d: "d \<in> set (snd acc)" and same: "{sm_left c, sm_right c} = {sm_left d, sm_right d}" for c d
  proof -
    have n: "NUL \<notin> set (sm_left c)" "NUL \<notin> set (sm_right c)" "NUL \<notin> set (sm_left d)" "NUL \<notin> set (sm_right d)"
      using names [OF conjunct2 [OF sound [OF c]]] names [OF conjunct2 [OF sound [OF d]]] by simp_all
    show ?thesis unfolding candidate_key_def pair_key_eq [OF n] by (rule same)
  qed
  ultimately have "distinct (map (\<lambda>c. {sm_left c, sm_right c}) (snd acc))" by (rule distinct_map_finer)
  then have "distinct (map (\<lambda>c. {sm_left c, sm_right c}) found)"
    unfolding found by (metis (no_types, lifting) distinct_map distinct_js_sort set_js_sort)
  then show "distinct (map (\<lambda>c. {sm_left c, sm_right c}) found)" .
  have "comparator similarity_cmp" unfolding similarity_cmp_def by (intro comparator_intros)
  then show "sorted_wrt (\<lambda>c d. similarity_cmp c d \<le> 0) found" unfolding found by (rule comparator.sorted_js_sort)
qed

text \<open>Every near pair with a changed document is reported once, whichever of the two changed, nothing else is, and the closest come
  first. Documents whose minimum hashes agree in more than seven eighths of the places are near.\<close>

theorem near_documents_found_once:
  assumes "\<forall>(k, e) \<in> set entries. ix_path e = k \<and> NUL \<notin> set k" "well_keyed entries"
    and "found = findDocumentSimilarityCandidates entries changed scopeId"
  shows "{{sm_left c, sm_right c} |c. c \<in> set found} = {{p, q} |p q. p \<in> set changed \<and> near entries p q}
    \<and> distinct (map (\<lambda>c. {sm_left c, sm_right c}) found) \<and> sorted_wrt (\<lambda>c d. similarity_cmp c d \<le> 0) found
    \<and> (\<forall>p q l r. p \<noteq> q \<longrightarrow> map_get entries p = Some l \<longrightarrow> map_get entries q = Some r \<longrightarrow> length (ix_minHash l) = 64
        \<longrightarrow> length (ix_minHash r) = 64 \<longrightarrow> minHashSimilarity (ix_minHash l) (ix_minHash r) > 7 / 8 \<longrightarrow> near entries p q)"
proof (intro conjI allI impI)
  fix p q l r
  assume "p \<noteq> q" "map_get entries p = Some l" "map_get entries q = Some r"
    and h: "length (ix_minHash l) = 64" "length (ix_minHash r) = 64" "minHashSimilarity (ix_minHash l) (ix_minHash r) > 7 / 8"
  moreover have "MINHASH_CANDIDATE \<le> minHashSimilarity (ix_minHash l) (ix_minHash r)" using h(3) by (simp add: MINHASH_CANDIDATE_def)
  ultimately show "near entries p q" using similar_share_bucket [OF h] by (simp add: near_def)
qed (rule near_found [OF assms])+

definition sample_document :: "string \<Rightarrow> IndexedDocument" where
  "sample_document p = \<lparr>ix_path = p, ix_contentSha256 = ''h'', ix_minHash = replicate 64 7, ix_simHash = ''0'', ix_title = None\<rparr>"

theorem near_documents_found_once_witness:
  "\<exists>c \<in> set (findDocumentSimilarityCandidates [(''a.md'', sample_document ''a.md''), (''b.md'', sample_document ''b.md'')] [''b.md''] ''s'').
     {sm_left c, sm_right c} = {''a.md'', ''b.md''}"
proof -
  let ?es = "[(''a.md'', sample_document ''a.md''), (''b.md'', sample_document ''b.md'')]"
  have k: "\<forall>(k, e) \<in> set ?es. ix_path e = k \<and> NUL \<notin> set k" by (simp add: sample_document_def NUL_def)
  have w: "well_keyed ?es" by (simp add: well_keyed_def)
  note n = near_documents_found_once [OF k w refl, of "[''b.md'']" "''s''"]
  have sim: "minHashSimilarity (replicate 64 7) (replicate 64 7) = 1" by (rule similarity_same) simp
  have "near ?es ''b.md'' ''a.md''"
    by (rule n [THEN conjunct2, THEN conjunct2, THEN conjunct2, rule_format, of _ _ "sample_document ''b.md''" "sample_document ''a.md''"])
      (simp_all add: sample_document_def sim)
  then have "{''b.md'', ''a.md''} \<in> {{p, q} |p q. p \<in> set [''b.md''] \<and> near ?es p q}" by auto
  then have "{''b.md'', ''a.md''} \<in> {{sm_left c, sm_right c} |c. c \<in> set (findDocumentSimilarityCandidates ?es [''b.md''] ''s'')}"
    by (simp only: n [THEN conjunct1])
  then show ?thesis by (auto simp: insert_commute)
qed

section \<open>Decisions\<close>

lemma disposition_sides:
  "side_of (disposition_doc l r d n t) ''left'' = l" "side_of (disposition_doc l r d n t) ''right'' = r"
  "text_of (field (disposition_doc l r d n t) ''decision'') = Some d" "text_of (field (disposition_doc l r d n t) ''at'') = Some t"
  by (simp_all add: side_of_def disposition_doc_def field_def entries_of_def text_of_def)

lemma disposition_valid:
  "validPath l \<Longrightarrow> validPath r \<Longrightarrow> d \<in> set DECISIONS \<Longrightarrow> validDisposition (disposition_doc l r d n t)"
  by (auto simp: validDisposition_def disposition_doc_def field_def entries_of_def text_of_def)

text \<open>Recording a decision keeps the relations and every decision about another pair, leaves exactly one decision about the pair, in
  whichever order it is named, and takes the pair off the list of open candidates.\<close>

theorem decision_recorded:
  assumes "recordDocumentDisposition (Some file) l r d note time = Inr (file', replaced)" "rf_version file = ''1''" "rf_relations file \<noteq> None"
    and "dispositions = readDocumentDispositions (Some file)"
  shows "rf_relations file' = rf_relations file
    \<and> readDocumentDispositions (Some file') = filter (\<lambda>e. disposition_pair e \<noteq> pair_key (trim l) (trim r)) dispositions
        @ [disposition_doc (trim l) (trim r) d note time]
    \<and> (replaced \<longleftrightarrow> (\<exists>e \<in> set dispositions. disposition_pair e = pair_key (trim r) (trim l)))
    \<and> (\<forall>c. {sm_left c, sm_right c} = {trim l, trim r} \<longrightarrow> hasDisposition c (readDocumentDispositions (Some file')))"
proof -
  let ?kept = "filter (\<lambda>e. disposition_pair e \<noteq> pair_key (trim l) (trim r)) dispositions"
  have v: "validPath (trim l)" "validPath (trim r)" "d \<in> set DECISIONS"
    and f: "file' = \<lparr>rf_version = ''1'', rf_relations = Some (rawRelations (Some file)),
        rf_dispositions = Some (?kept @ [disposition_doc (trim l) (trim r) d note time])\<rparr>"
    and r: "replaced = list_ex (\<lambda>e. disposition_pair e = pair_key (trim l) (trim r)) dispositions"
    using assms(1,4) by (auto simp: recordDocumentDisposition_def Let_def split: if_splits)
  have "list_all validDisposition dispositions"
    by (simp add: assms(4) readDocumentDispositions_def split: option.splits)
  then have read: "readDocumentDispositions (Some file') = ?kept @ [disposition_doc (trim l) (trim r) d note time]"
    using disposition_valid [OF v] by (auto simp: readDocumentDispositions_def f list_all_iff)
  have "rf_relations file' = rf_relations file" using assms(2,3) by (auto simp: f rawRelations_def)
  moreover have "hasDisposition c (readDocumentDispositions (Some file'))" if "{sm_left c, sm_right c} = {trim l, trim r}" for c
  proof -
    have "pair_key (sm_left c) (sm_right c) = pair_key (trim l) (trim r)" using that pair_key_sym by (auto simp: doubleton_eq_iff)
    then show ?thesis by (simp add: hasDisposition_def read disposition_pair_def disposition_sides)
  qed
  ultimately show ?thesis using read r by (auto simp: list_ex_iff pair_key_sym [of "trim r"])
qed

theorem decision_recorded_witness:
  "\<exists>f b. recordDocumentDisposition (Some \<lparr>rf_version = ''1'', rf_relations = Some [], rf_dispositions = None\<rparr>) ''a.md'' ''b.md'' ''merged'' None ''t''
      = Inr (f, b) \<and> hasDisposition \<lparr>sm_left = ''b.md'', sm_right = ''a.md'', sm_minHashSimilarity = 1, sm_simHashDistance = 0, sm_scopeId = ''s''\<rparr>
        (readDocumentDispositions (Some f))"
proof -
  let ?file = "\<lparr>rf_version = ''1'', rf_relations = Some [], rf_dispositions = None\<rparr>"
  obtain f b where e: "recordDocumentDisposition (Some ?file) ''a.md'' ''b.md'' ''merged'' None ''t'' = Inr (f, b)"
    by (simp add: recordDocumentDisposition_def validPath_def DECISIONS_def trim_def is_space_def starts_with_def Let_def)
  have "trim ''a.md'' = ''a.md''" "trim ''b.md'' = ''b.md''" by (simp_all add: trim_def is_space_def)
  with decision_recorded [OF e _ _ refl] e show ?thesis by (fastforce simp: insert_commute)
qed

text \<open>One malformed decision makes a reader see none, and the next record then drops all of them.\<close>

lemma malformed_decision_drops_all:
  assumes "rf_dispositions file = Some (ds @ [JNull])" "recordDocumentDisposition (Some file) l r d note time = Inr (file', replaced)"
  shows "rf_dispositions file' = Some [disposition_doc (trim l) (trim r) d note time]"
proof -
  have "\<not> validDisposition JNull" by (simp add: validDisposition_def field_def entries_of_def text_of_def)
  then have "readDocumentDispositions (Some file) = []" using assms(1) by (simp add: readDocumentDispositions_def split: option.splits)
  with assms(2) show ?thesis by (auto simp: recordDocumentDisposition_def Let_def split: if_splits)
qed

section \<open>What the code does beside its words\<close>

text \<open>The title of a document is its whole normalised text: the line ends are gone when the title is looked for.\<close>

lemma title_is_everything:
  assumes "normalize_document nfkc lower yaml content = CHR ''#'' # CHR 0x20 # c # s" "\<not> is_space c"
  shows "ix_title (indexedDocument sha digest nfkc lower yaml path content) = Some (c # s)"
proof -
  have line: "CHR 0x0A \<notin> set (collapse_space b t)" for b t
    by (induction b t rule: collapse_space.induct) (auto simp: is_space_def)
  have "set (trim t) \<subseteq> set t" for t by (auto simp: trim_def dest!: set_dropWhileD)
  then have "CHR 0x0A \<notin> set (normalize_document nfkc lower yaml content)"
    using line unfolding normalize_document_def by blast
  then have "c \<noteq> CHR 0x0A \<and> (\<forall>x \<in> set s. x \<noteq> CHR 0x0A)" using assms(1) by auto
  then have "takeWhile (\<lambda>x. x \<noteq> CHR 0x0A) (c # s) = c # s" by (intro takeWhile_eq_all_conv [THEN iffD2]) auto
  moreover have "is_space (CHR 0x20)" by (simp add: is_space_def)
  ultimately show ?thesis using assms by (simp add: indexedDocument_def Let_def title_of_def)
qed

text \<open>Code is reported as changed without its capability document although the document is in the same change set.\<close>

lemma drift_although_asset_changed:
  assumes "mm (toPosixPath p) pattern" "Some (toPosixPath p) \<noteq> asset_in_project cwd store"
    and "asset_in_project cwd store = Some asset" "trim pattern = pattern" "pattern \<noteq> []"
  shows "cg_matched (capabilityDriftSignal mm cwd (drift_ok (Some (JArr [JStr pattern]))) store [p, asset]) = [toPosixPath p]"
proof -
  have "toPosixPath asset = asset" using assms(3) by (auto simp: asset_in_project_def Let_def split: option.splits)
  with assms show ?thesis by (simp add: capabilityDriftSignal_def watch_patterns_def)
qed
end
