(* ===== verification/Spec2Isabelle.thy ===== *)
theory Spec2Isabelle
  imports Mr_Diagnosis Graph Cohesion Test_Facts Structural_Policy Metric_Catalog History_Ledger
    Semantic_Changes Evolution_Signals Symbol_Scope Gate_App Advisory_Lock Lsp_Session Pending_Diff Scan Diff Coordination_Commands Change_Surface Documents
begin

text \<open>
  OpenArch measures the structure of a code base, keeps a baseline of it, records the impact of every change in a
  history, and runs a gate that fails when the current structure or the accumulated burden breaks the project's
  rules. This development models the logic of \<open>packages/core\<close> and the coordination commands of \<open>packages/cli\<close>; file
  names below are relative to \<open>packages/core/src\<close>. The root holds the history of a repository with its properties and
  imports every other theory.

  \<^bold>\<open>How the parts work together.\<close> A parser gives one \<open>FileAst\<close> per file (\<open>Ast\<close>). A scan lists the source files, parses
  those that changed, measures each of them in the dependency graph, computes percentiles for the project and for every
  structural policy, and publishes a generation of the baseline. The gate reads that generation, checks that it still
  answers for the configuration, and judges the files by rules in a small expression language. A diff compares the
  changed files with Git, measures their impact and keeps it pending until it is sealed into the history; the history
  is replayed into a decaying burden per file (CRL) and compacted from time to time. Around this stand the file lock,
  the language-server session with the evidence about symbol uses, test governance, the documents of the project, and
  the client of the coordination service.

  \<^bold>\<open>Theories and sources.\<close>
  \<^item> \<open>Js_Prelude\<close>, \<open>Js_Number\<close>, \<open>Js_String\<close>, \<open>Js_Path\<close>, \<open>Json_Doc\<close>: the part of JavaScript that the sources use. A \<open>Map\<close> is an
    association list in insertion order, a \<open>Set\<close> a list without repetitions, \<open>??\<close> a default of an option, a thrown error
    the left side of a sum; \<open>localeCompare\<close> is an order that satisfies the locale \<open>comparator\<close>.
  \<^item> Measures: \<open>Weights\<close> (\<open>domain/weights.ts\<close>, \<open>alpha.ts\<close>, \<open>confidence.ts\<close>, \<open>i-push.ts\<close>), \<open>Crl_State\<close> (\<open>domain/crlState.ts\<close>,
    \<open>p95.ts\<close>), \<open>Mr_Diagnosis\<close>, \<open>Cohesion\<close> (the internal call graph), \<open>Graph\<close> (\<open>domain/graph.ts\<close>, \<open>reach.ts\<close>).
  \<^item> What is analysed: \<open>File_Kinds\<close>, \<open>Project_Files\<close>, \<open>Structural_Policy\<close>, \<open>Calibration\<close>, \<open>Metric_Catalog\<close>, \<open>Governance\<close>,
    \<open>Baseline_Compatibility\<close>.
  \<^item> The gate: \<open>Cel\<close> (\<open>adapter/rule/CelAdapter.ts\<close>), \<open>Gate_Config\<close>, \<open>Gate\<close>, \<open>Gate_App\<close> (\<open>application/governance\<close>).
  \<^item> Storage: \<open>Baseline_Store\<close>, \<open>Baseline_Access\<close>, \<open>Pending_Diff\<close>, \<open>History_Ledger\<close> (\<open>adapter/storage\<close>), \<open>Crl\<close>
    (\<open>domain/crl.ts\<close>, \<open>historyRetention.ts\<close>), \<open>Advisory_Lock\<close> (\<open>adapter/lock\<close>).
  \<^item> Scans and changes: \<open>Scan\<close>, \<open>Scan_Entries\<close>, \<open>Scan_Incremental\<close>, \<open>Git_Blobs\<close>, \<open>Change_Set\<close>, \<open>Semantic_Changes\<close>, \<open>Semantic_Diff\<close>,
    \<open>Diff_Impact\<close>, \<open>Diff\<close>, \<open>Change_Surface\<close> (\<open>application\<close>, \<open>domain/semanticChanges.ts\<close>).
  \<^item> Evidence: \<open>Symbol_Evidence\<close>, \<open>Symbol_Scope\<close>, \<open>Test_Facts\<close>, \<open>Test_Policy\<close>, \<open>Evolution_History\<close>, \<open>Evolution_Signals\<close> (\<open>domain\<close>).
  \<^item> Language servers: \<open>Lsp_Wire\<close> (\<open>lsp/jsonRpc.ts\<close>), \<open>Lsp_Session\<close> (\<open>adapter/lsp\<close>).
  \<^item> Documents: \<open>Fingerprint\<close>, \<open>Markdown\<close>, \<open>Documents\<close> (\<open>document-store\<close>).
  \<^item> Coordination: \<open>Coordination_Client\<close>, \<open>Coordination_Docs\<close> (\<open>coordination\<close>), \<open>Coordination_Commands\<close> (\<open>packages/cli/src/commands\<close>).

  \<^bold>\<open>How state and operations are modelled.\<close> An object is a record with the fields of its interface, a tagged union a
  datatype, an operation a function of the state it reads that returns the state it writes. A sequence of writes to
  the disk (a publication, a compaction, a seal) is a list of steps, and a crash is any prefix of it. The lock is a
  step relation over the program counters of several processes with one access to the file system per step; crashes,
  the clock, and which process may signal which are part of the model. The language-server session is a state with a
  log of settlements that every event transforms; promises are the numbers of their calls. Operations that talk to a
  service pass a world of any type through an interface record (\<open>Service\<close>, \<open>CliEnv\<close>).

  \<^bold>\<open>What the lemmas show.\<close> The history: compaction and crashes in it keep the burden of every file, with one window in
  which every read fails. The baseline: publication is atomic, single writes refine a map, the cache is invisible, an
  incremental scan reuses exactly the unchanged files and publishes what a full scan would, and the storage accepts
  what a scan publishes. The gate: its verdict is the rules that fire, it fails closed in every branch, report-only
  metrics have no influence, conditions are parsed back as they were written, scans that seal nothing keep the
  percentiles it judges by. Changes: edges and reach of the graph, profiles that claim what was proved or are the
  fallback, a whitespace verdict that leaves the declarations alone, seals that can be repeated, pending evidence that is
  used only while it is current. Processes: exclusion of the lock without crashes, one settlement for every request,
  framing that does not depend on chunks, retries and waits that end. Lemmas about one operation stand beside it; those
  that are not about the program (maps, sorting, strings, folds) are in the first group of theories.

  \<^bold>\<open>Interfaces.\<close> \<open>comparator\<close> (what sorting relies on; interpreted on the order of code units), \<open>decay\<close> (interpreted on the
  half-life of \<open>crl.ts\<close>), \<open>rule_service\<close> (what the gate relies on; interpreted on the compiler of \<open>Cel\<close>) and
  \<open>coverage_statement\<close> (interpreted on the two coverage reports).

  \<^bold>\<open>Arguments of the model.\<close> The parser (\<open>parse\<close>, \<open>parseText\<close>), Git (\<open>git\<close>, \<open>check\<close>, \<open>batch\<close>), minimatch (\<open>mm\<close>), \<open>toAbsolute\<close>
  and \<open>absolutePathKey\<close> (\<open>absolute\<close>, \<open>key\<close>), SHA-256 of a text (\<open>sha\<close>) or of a value written as JSON (\<open>hash\<close>), js-yaml
  (\<open>yaml\<close>), the schemas of stored documents (\<open>schema\<close>, \<open>stored\<close>), dates (\<open>toISO\<close>, \<open>is_date\<close>), Unicode normalisation (\<open>nfkc\<close>,
  \<open>lower\<close>), the URL parser (\<open>newURL\<close>), and the network with its clock (\<open>Service\<close>). A property that needs a law of one of them has it as
  a hypothesis, and its witness instantiates the argument.

  \<^bold>\<open>Bounds.\<close> The parser of conditions runs on fuel of four for each token and four more; \<open>compile_answers\<close> shows that it never
  runs out. The waits for a lease and for a task are \<open>partial_function (option)\<close> and are proved to return. The limits of the
  code (10000 sets and 200000 operations of the co-change search, three attempts at the guard of the lock, the depth of
  reach, two retries) are kept as they are. All other loops are structural or have a measure.

  \<^bold>\<open>Idealisations.\<close> Strings are lists of code units below 256. Metrics are exact reals and counts natural numbers, except where
  the code tests for values that are not finite (\<open>Js_Number\<close>); rounding of doubles and the sign of zero are left out. Hashes
  of 32 and 64 bits are words. Objects used as tables have no inherited keys, so names such as \<open>constructor\<close> are unknown names here
  (\<open>Cel\<close>, \<open>Coordination_Commands\<close>). JSON objects have unique keys. Paths are POSIX paths. Directories are listed in the
  order of writing. One document is written in one step. The clock of \<open>clock_ok\<close> is not set back during a wait. Process ids and lock
  ids are not used again. Where the code only displays something, the display is left out.

  \<^bold>\<open>Left out.\<close> Tree-sitter strategies and module resolution, the providers of symbol uses and of type relations, toolchain
  discovery, project scripts, the recognition of tests and assertions in syntax trees, \<open>git log\<close>, set-up and audit
  commands, the reports and flags of the command line, and the coordination service (Go): they are input and output, or
  syntax trees of a native library; their results enter as data. Within modelled files, progress records of a scan, the
  drill-down evidence of a diff, starting and killing processes, and the placeholder patterns of documents are left out.
\<close>

section \<open>The history of a repository\<close>

definition sample_record :: SealedHistoryRecord where
  "sample_record = \<lparr>sr_entryId = ''e1'', sr_timestamp = \<lparr>in_text = ''t0'', in_ms = Fin 0\<rparr>,
     sr_deltas = [\<lparr>fd_file = ''a'', fd_deltaI = Fin 5, fd_alphaStruct = None\<rparr>]\<rparr>"

definition sample_hash :: "json \<Rightarrow> string" where
  "sample_hash d = replicate 64 (CHR ''0'')"

definition sample_checkpoint :: HistoryCheckpoint where
  "sample_checkpoint = \<lparr>hc_schemaVersion = HISTORY_CHECKPOINT_VERSION,
     hc_compactedAt = \<lparr>in_text = ''t0'', in_ms = Fin 0\<rparr>, hc_sourceEntryCount = 1,
     hc_sourceFingerprint = replicate 64 (CHR ''0''), hc_deltas = [\<lparr>fd_file = ''b'', fd_deltaI = Fin 2, fd_alphaStruct = None\<rparr>]\<rparr>"

definition sample_dir :: "HistoryCheckpoint option \<Rightarrow> LedgerDir" where
  "sample_dir cp = \<lparr>ld_checkpoint = cp, ld_marker = None, ld_files = [(''e1'', sample_record)]\<rparr>"

lemma sample_valid: "valid_record sample_record" "valid_file sample_record" "checkpoint_ok sample_checkpoint"
  by (simp_all add: sample_record_def valid_record_def valid_entry_def entry_of_record_def finite_deltas_def
      valid_file_def isTimestamp_def isDeltas_def checkpoint_ok_iff sample_checkpoint_def isFingerprint_def is_hex_def is_digit_def
      list_all_iff)

lemma sample_dir_ok: "cp = None \<or> cp = Some sample_checkpoint \<Longrightarrow> ledger_ok (sample_dir cp)"
  using sample_valid by (auto simp: sample_dir_def ledger_ok_def files_ok_def well_keyed_def sample_record_def)

definition sample_writes :: "HistoryCheckpoint option \<Rightarrow> LedgerWrite list" where
  "sample_writes cp = fst (compactionWrites sample_hash code_unit_cmp (\<lambda>_. ''t'') (sample_dir cp) 0 (Fin 0))"

lemma sample_compaction:
  assumes "cp = None \<or> cp = Some sample_checkpoint"
  shows "compactionWrites sample_hash code_unit_cmp (\<lambda>_. ''t'') (sample_dir cp) 0 (Fin 0) = (sample_writes cp, None)"
proof -
  have "snd (compactionWrites sample_hash code_unit_cmp (\<lambda>_. ''t'') (sample_dir cp) 0 (Fin 0)) = None"
    by (rule compaction_succeeds [OF sample_dir_ok])
      (use assms in \<open>auto simp: sample_hash_def isFingerprint_def is_hex_def is_digit_def list_all_iff sample_dir_def sample_checkpoint_def\<close>)
  then show ?thesis by (metis prod.collapse sample_writes_def)
qed

lemma sample_writes_length:
  assumes "cp = None \<or> cp = Some sample_checkpoint"
  shows "length (sample_writes cp) = 4"
proof -
  have files: "sorted_files (sample_dir cp) = [sample_record]"
    by (simp add: sorted_files_def sample_dir_def map_keys_def)
  have "ld_checkpoint (sample_dir cp) = cp" by (simp add: sample_dir_def)
  then have "readableLedger (sample_dir cp) = Inr (cp, [sample_record])"
    using read_ok [OF sample_dir_ok [OF assms]] by (simp add: files)
  moreover have "snd (compactionWrites sample_hash code_unit_cmp (\<lambda>_. ''t'') (sample_dir cp) 0 (Fin 0)) = None"
    by (simp add: sample_compaction [OF assms])
  ultimately show ?thesis
    using assms
    by (elim disjE) (auto simp: sample_writes_def compactionWrites_def Let_def compactHistoryRecords_def compactionCutoff_def
        historyRetentionCutoff_def utc_midnight_def compacted_by_def sample_record_def sample_checkpoint_def recoveryWrites_def
        split: sum.splits)
qed

text \<open>C1: Compaction of the history keeps every file's cumulative burden.\<close>

theorem compaction_keeps_crl:
  assumes "\<forall>r \<in> set records. valid_record r" "\<forall>cp. checkpoint = Some cp \<longrightarrow> valid_checkpoint_at c cp"
    and "in_ms cutoff = Fin c" "c \<le> now"
  shows "crl_value (replayEntries (cr_checkpoint (compactHistoryRecords hash lc checkpoint records cutoff))
      (cr_retained (compactHistoryRecords hash lc checkpoint records cutoff))) now f
    = crl_value (replayEntries checkpoint records) now f"
  using assms by (rule compaction_preserves_crl) (rule refl)

theorem compaction_keeps_crl_witness:
  "crl_value (replayEntries (cr_checkpoint (compactHistoryRecords (\<lambda>_. ''h'') code_unit_cmp None [sample_record] \<lparr>in_text = ''t0'', in_ms = Fin 0\<rparr>))
      (cr_retained (compactHistoryRecords (\<lambda>_. ''h'') code_unit_cmp None [sample_record] \<lparr>in_text = ''t0'', in_ms = Fin 0\<rparr>))) 0 ''a'' = 5"
proof -
  have "\<forall>r \<in> set [sample_record]. valid_record r" using sample_valid by simp
  from compaction_keeps_crl [OF this, of None 0 "\<lparr>in_text = ''t0'', in_ms = Fin 0\<rparr>" 0]
  show ?thesis
    by (simp add: replayEntries_def crl_value_def entry_of_record_def sample_record_def age_days_def half_life.w_zero)
qed

text \<open>C2: A reader sees the same burden for every file whichever write a crash of a compaction
  leaves last, except in the one window between the marker and a newer checkpoint.\<close>

theorem crash_keeps_replay:
  assumes "ledger_ok dir" "compactionWrites hash lc toISO dir w (Fin n) = (ws, None)" "0 \<le> w"
    and "\<forall>c. ld_checkpoint dir = Some c \<longrightarrow> num_val (in_ms (hc_compactedAt c)) \<le> n"
    and "k \<le> length ws" "k = 1 \<longrightarrow> ld_checkpoint dir = None"
  shows "replay_value (foldl applyWrite dir (take k ws)) n f = replay_value dir n f"
  using assms by (rule crash_states_keep_value)

theorem crash_keeps_replay_witness:
  "replay_value (foldl applyWrite (sample_dir (Some sample_checkpoint)) (take 2 (sample_writes (Some sample_checkpoint)))) 0 ''a''
     = replay_value (sample_dir (Some sample_checkpoint)) 0 ''a''"
  by (rule crash_keeps_replay [OF sample_dir_ok sample_compaction])
    (simp_all add: sample_writes_length, simp add: sample_dir_def sample_checkpoint_def)

text \<open>C34: In that window every read throws: the marker names the new checkpoint while the old one is on disk.\<close>

theorem publication_window_unreadable:
  assumes "ledger_ok dir" "compactionWrites hash lc toISO dir w now = (ws, None)" "ws \<noteq> []" "ld_checkpoint dir \<noteq> None"
  shows "readHistoryReplayRecords (foldl applyWrite dir (take 1 ws))
    = Inl ''history checkpoint disagrees with pending compaction marker''"
  using assms by (rule publication_unreadable)

theorem publication_window_unreadable_witness:
  "readHistoryReplayRecords (foldl applyWrite (sample_dir (Some sample_checkpoint)) (take 1 (sample_writes (Some sample_checkpoint))))
     = Inl ''history checkpoint disagrees with pending compaction marker''"
  by (rule publication_window_unreadable [OF sample_dir_ok sample_compaction])
    (use sample_writes_length [of "Some sample_checkpoint"] in \<open>auto simp: sample_dir_def\<close>)

text \<open>C35: After a crash in the middle of a compaction the recovery that the next writer starts with
  performs writes that end in the directory of the completed compaction.\<close>

theorem recovery_ends_compaction:
  assumes "ledger_ok dir" "compactionWrites hash lc toISO dir w now = (ws, None)" "ws \<noteq> []" "0 < k" "k < length ws"
  shows "(\<exists>rs. recoverPendingCompaction (foldl applyWrite dir (take k ws)) = Inr rs
      \<and> foldl applyWrite (foldl applyWrite dir (take k ws)) rs = foldl applyWrite dir ws)
    \<and> ledger_ok (foldl applyWrite dir ws)"
  using recovery_completes [OF assms] by blast

theorem recovery_ends_compaction_witness:
  "ledger_ok (foldl applyWrite (sample_dir None) (sample_writes None))
   \<and> (\<exists>rs. recoverPendingCompaction (foldl applyWrite (sample_dir None) (take 2 (sample_writes None))) = Inr rs
      \<and> foldl applyWrite (foldl applyWrite (sample_dir None) (take 2 (sample_writes None))) rs
        = foldl applyWrite (sample_dir None) (sample_writes None))"
  using recovery_ends_compaction [OF sample_dir_ok sample_compaction, of None 2] sample_writes_length [of None] by force

text \<open>Writing an entry keeps the directory sound; an id that exists already keeps its first record.\<close>

theorem write_keeps_first:
  assumes "ledger_ok dir" "valid_file r" "writeHistory dir r = Inr d"
  shows "ledger_ok d \<and> map_get (ld_files d) (sr_entryId r)
    = (case map_get (ld_files dir) (sr_entryId r) of None \<Rightarrow> Some r | Some old \<Rightarrow> Some old)"
  using assms by (rule writeHistory_ok)

theorem write_keeps_first_witness:
  "ledger_ok (sample_dir None) \<and> map_get (ld_files (sample_dir None)) (sr_entryId (sample_record\<lparr>sr_deltas := []\<rparr>)) = Some sample_record"
proof -
  let ?r = "sample_record\<lparr>sr_deltas := []\<rparr>"
  have "valid_file ?r" "writeHistory (sample_dir None) ?r = Inr (sample_dir None)"
    by (simp_all add: writeHistory_def sample_dir_def sample_record_def safeEntryId_def is_alpha_def
        is_lower_alpha_def is_digit_def valid_file_def isTimestamp_def isDeltas_def)
  note kept = write_keeps_first [OF sample_dir_ok this]
  have "map_get (ld_files (sample_dir None)) (sr_entryId ?r) = Some sample_record"
    by (simp add: sample_dir_def sample_record_def)
  with kept show ?thesis by simp
qed

text \<open>C18: The replayed burden of a file is the sum of its entries' deltas, each weighted by a decay
  that halves every 60 days and is multiplicative in the age.\<close>

theorem crl_is_decayed_sum:
  assumes "\<forall>e \<in> set es. valid_entry e"
  shows "value_at (computeCrl es (Fin now)) f
    = sum_list (map (\<lambda>e. delta_sum (he_deltas e) f * decay_weight (age_days now (num_val (in_ms (he_timestamp e))))) es)
    \<and> decay_weight 60 = 1 / 2 \<and> decay_weight (a + b) = decay_weight a * decay_weight b"
  using computeCrl_value(2) [OF assms] decay_weight_60 decay_weight_add by (simp add: crl_value_def)

theorem crl_is_decayed_sum_witness:
  "value_at (computeCrl [entry_of_record sample_record] (Fin (60 * MS_PER_DAY))) ''a'' = 5 / 2"
proof -
  have "\<forall>e \<in> set [entry_of_record sample_record]. valid_entry e"
    using sample_valid by (simp add: valid_record_def)
  from crl_is_decayed_sum [OF this, of "60 * MS_PER_DAY" "''a''"] show ?thesis
    by (simp add: entry_of_record_def sample_record_def age_days_def MS_PER_DAY_def decay_weight_60)
qed

end
